(* ===== verification/Prelude.thy ===== *)
theory Prelude
  imports Complex_Main
begin

text \<open>
  What every theory of the development shares.

  The Go code computes with \<open>decimal.Decimal\<close> of the third-party package
  \<open>shopspring/decimal\<close>, a decimal of arbitrary precision. A value is the rational number
  it denotes (\<open>dec\<close>): addition, subtraction, multiplication, negation and comparison of
  that package are exact. What is not exact (the divisions and the two roundings) or has no meaning
  on the number (the printed form) is not modelled: it is the record \<open>declib\<close>, a
  parameter of every definition that uses it. The locale \<open>decimal_lib\<close> states the
  documented behaviour of these operations; \<open>std_declib\<close> is an instance of it, used
  where a theorem is applied to concrete input.
\<close>

named_theorems dec_laws \<open>facts about the decimal library that follow from its documentation\<close>

type_synonym dec = rat

record declib =
  DivRound :: "dec \<Rightarrow> dec \<Rightarrow> nat \<Rightarrow> dec"
  Div :: "dec \<Rightarrow> dec \<Rightarrow> dec"
  Round :: "dec \<Rightarrow> nat \<Rightarrow> dec"
  RoundBank :: "dec \<Rightarrow> nat \<Rightarrow> dec"
  DecString :: "dec \<Rightarrow> string"

text \<open>A number with at most \<open>n\<close> decimal places.\<close>

definition on_grid :: "nat \<Rightarrow> dec \<Rightarrow> bool" where
  "on_grid n x \<longleftrightarrow> x * 10 ^ n \<in> \<int>"

lemma on_gridI: "x * 10 ^ n = of_int k \<Longrightarrow> on_grid n x"
  by (simp add: on_grid_def)

lemma on_gridE:
  assumes "on_grid n x"
  obtains k where "x = of_int k / 10 ^ n"
proof -
  from assms obtain k where "x * 10 ^ n = of_int k"
    by (auto simp: on_grid_def elim: Ints_cases)
  then have "x = of_int k / 10 ^ n" by (simp add: field_simps)
  then show ?thesis by (rule that)
qed

lemma on_grid_0 [simp, intro]: "on_grid n 0"
  by (simp add: on_grid_def)

lemma on_grid_add [intro]: "on_grid n x \<Longrightarrow> on_grid n y \<Longrightarrow> on_grid n (x + y)"
  by (simp add: on_grid_def distrib_right)

lemma on_grid_minus [intro]: "on_grid n x \<Longrightarrow> on_grid n (- x)"
  by (simp add: on_grid_def)

lemma on_grid_minus_iff [simp]: "on_grid n (- x) = on_grid n x"
  using on_grid_minus [of n x] on_grid_minus [of n "- x"] by auto

lemma on_grid_diff [intro]: "on_grid n x \<Longrightarrow> on_grid n y \<Longrightarrow> on_grid n (x - y)"
  by (simp add: on_grid_def left_diff_distrib)

lemma on_grid_sum_list: "(\<And>x. x \<in> set xs \<Longrightarrow> on_grid n x) \<Longrightarrow> on_grid n (sum_list xs)"
  by (induction xs) auto

lemma on_grid_max [intro]: "on_grid n x \<Longrightarrow> on_grid n y \<Longrightarrow> on_grid n (max x y)"
  by (simp add: max_def)

section \<open>Rounding to a number of decimal places\<close>

text \<open>Half away from zero, and half to even, as functions on the number.\<close>

definition half_away :: "dec \<Rightarrow> int" where
  "half_away y = (if 0 \<le> y then \<lfloor>y + 1 / 2\<rfloor> else - \<lfloor>- y + 1 / 2\<rfloor>)"

definition half_even :: "dec \<Rightarrow> int" where
  "half_even y =
     (let f = \<lfloor>y\<rfloor>; d = y - of_int f
      in if d < 1 / 2 then f else if 1 / 2 < d then f + 1 else if even f then f else f + 1)"

definition round_away :: "dec \<Rightarrow> nat \<Rightarrow> dec" where
  "round_away x n = of_int (half_away (x * 10 ^ n)) / 10 ^ n"

definition round_even :: "dec \<Rightarrow> nat \<Rightarrow> dec" where
  "round_even x n = of_int (half_even (x * 10 ^ n)) / 10 ^ n"

lemma half_away_near: "\<bar>of_int (half_away y) - y\<bar> \<le> 1 / 2"
proof -
  have "\<bar>of_int \<lfloor>y + 1 / 2\<rfloor> - y\<bar> \<le> 1 / 2" "\<bar>- of_int \<lfloor>- y + 1 / 2\<rfloor> - y\<bar> \<le> 1 / 2"
    unfolding abs_le_iff by linarith+
  then show ?thesis by (simp add: half_away_def)
qed

lemma half_away_tie:
  assumes tie: "\<bar>of_int (half_away y) - y\<bar> = 1 / 2"
  shows "\<bar>y\<bar> < \<bar>of_int (half_away y)\<bar>"
proof (cases "0 \<le> y")
  case True
  have "of_int \<lfloor>y + 1 / 2\<rfloor> - y \<noteq> - (1 / 2)" by linarith
  with tie True have "of_int (half_away y) - y = 1 / 2"
    unfolding half_away_def abs_if by (simp only: if_True split: if_splits)
  with True show ?thesis by linarith
next
  case False
  have "- of_int \<lfloor>- y + 1 / 2\<rfloor> - y \<noteq> 1 / 2" by linarith
  with tie False have "of_int (half_away y) - y = - (1 / 2)"
    unfolding half_away_def abs_if by (simp only: if_False of_int_minus split: if_splits)
  with False show ?thesis by linarith
qed

lemma half_even_near: "\<bar>of_int (half_even y) - y\<bar> \<le> 1 / 2"
proof -
  have "of_int \<lfloor>y\<rfloor> \<le> y" "y < of_int \<lfloor>y\<rfloor> + 1" by linarith+
  then show ?thesis by (auto simp: half_even_def Let_def abs_le_iff field_simps)
qed

lemma half_even_tie:
  assumes "\<bar>of_int (half_even y) - y\<bar> = 1 / 2"
  shows "even (half_even y)"
proof (cases "y - of_int \<lfloor>y\<rfloor> = 1 / 2")
  case True
  then show ?thesis by (simp add: half_even_def Let_def)
next
  case False
  have b: "of_int \<lfloor>y\<rfloor> \<le> y" "y < of_int \<lfloor>y\<rfloor> + 1" by linarith+
  have "half_even y = (if y - of_int \<lfloor>y\<rfloor> < 1 / 2 then \<lfloor>y\<rfloor> else \<lfloor>y\<rfloor> + 1)"
    using False by (simp add: half_even_def Let_def)
  then have "\<bar>of_int (half_even y) - y\<bar> < 1 / 2"
    using b False unfolding abs_less_iff
    by (cases "y - of_int \<lfloor>y\<rfloor> < 1 / 2") (simp only: if_True if_False of_int_add of_int_1, linarith)+
  with assms show ?thesis by simp
qed

text \<open>An integer nearest to a number is determined by what happens at a tie.\<close>

lemma nearest_int_cases:
  fixes y :: dec
  assumes "\<bar>of_int k - y\<bar> \<le> 1 / 2" and "\<bar>of_int l - y\<bar> \<le> 1 / 2" and "k < l"
  shows "l = k + 1 \<and> y = of_int k + 1 / 2"
proof -
  have "of_int l - of_int k \<le> (1 :: dec)" using assms(1,2) by linarith
  with assms(3) have l: "l = k + 1" by linarith
  with assms(1,2) have "y = of_int k + 1 / 2" by (simp add: abs_le_iff)
  with l show ?thesis by simp
qed

lemma nearest_unique_away:
  fixes y :: dec
  assumes "\<bar>of_int k - y\<bar> \<le> 1 / 2" and "\<bar>of_int l - y\<bar> \<le> 1 / 2"
    and "\<bar>of_int k - y\<bar> = 1 / 2 \<Longrightarrow> \<bar>y\<bar> < \<bar>of_int k\<bar>"
    and "\<bar>of_int l - y\<bar> = 1 / 2 \<Longrightarrow> \<bar>y\<bar> < \<bar>of_int l\<bar>"
  shows "k = l"
proof -
  have False if "k' < l'" "\<bar>of_int k' - y\<bar> \<le> 1 / 2" "\<bar>of_int l' - y\<bar> \<le> 1 / 2"
      "\<bar>of_int k' - y\<bar> = 1 / 2 \<Longrightarrow> \<bar>y\<bar> < \<bar>of_int k'\<bar>"
      "\<bar>of_int l' - y\<bar> = 1 / 2 \<Longrightarrow> \<bar>y\<bar> < \<bar>of_int l'\<bar>" for k' l' :: int
  proof -
    have y: "l' = k' + 1" "y = of_int k' + 1 / 2"
      using nearest_int_cases [OF that(2,3,1)] by auto
    with that(4,5) have "\<bar>of_int k' + 1 / 2 :: dec\<bar> < \<bar>of_int k'\<bar>"
      and "\<bar>of_int k' + 1 / 2 :: dec\<bar> < \<bar>of_int k' + 1\<bar>" by auto
    moreover have "0 \<le> k' \<or> k' + 1 \<le> 0" by linarith
    then have "(0 :: dec) \<le> of_int k' \<or> of_int k' + 1 \<le> (0 :: dec)"
      by (metis of_int_0_le_iff of_int_1 of_int_add of_int_le_0_iff)
    ultimately show False by (auto simp: abs_if split: if_splits)
  qed
  from this [of k l] this [of l k] assms show ?thesis by (meson linorder_neqE)
qed

lemma nearest_unique_even:
  fixes y :: dec
  assumes "\<bar>of_int k - y\<bar> \<le> 1 / 2" and "\<bar>of_int l - y\<bar> \<le> 1 / 2"
    and "\<bar>of_int k - y\<bar> = 1 / 2 \<Longrightarrow> even k" and "\<bar>of_int l - y\<bar> = 1 / 2 \<Longrightarrow> even l"
  shows "k = l"
proof -
  have False if "k' < l'" "\<bar>of_int k' - y\<bar> \<le> 1 / 2" "\<bar>of_int l' - y\<bar> \<le> 1 / 2"
      "\<bar>of_int k' - y\<bar> = 1 / 2 \<Longrightarrow> even k'" "\<bar>of_int l' - y\<bar> = 1 / 2 \<Longrightarrow> even l'"
    for k' l' :: int
    using nearest_int_cases [OF that(2,3,1)] that(4,5) by auto
  from this [of k l] this [of l k] assms show ?thesis by (meson linorder_neqE)
qed

lemma scaled_abs: "\<bar>of_int k / 10 ^ n - x\<bar> * 10 ^ n = \<bar>of_int k - x * 10 ^ n\<bar>" for x :: dec
proof -
  have "\<bar>of_int k / 10 ^ n - x\<bar> * 10 ^ n = \<bar>(of_int k / 10 ^ n - x) * 10 ^ n\<bar>"
    by (simp add: abs_mult)
  then show ?thesis by (simp add: left_diff_distrib)
qed

section \<open>The decimal library as an interface\<close>

text \<open>
  What the documentation of \<open>shopspring/decimal\<close> promises of the operations the code calls.
  \<open>Round(n)\<close> gives a number with \<open>n\<close> places, at most half a unit away, and away from
  zero at a tie; \<open>RoundBank(n)\<close> the same with the even digit at a tie;
  \<open>DivRound(b, n)\<close> is the quotient rounded like \<open>Round\<close>; \<open>Div\<close> is
  \<open>DivRound\<close> at \<open>DivisionPrecision\<close> (16). The divisions panic on a zero divisor, which is
  why the laws say nothing there.
\<close>

locale decimal_lib =
  fixes L :: declib
  assumes round_grid: "on_grid n (Round L x n)"
    and round_near: "\<bar>Round L x n - x\<bar> * 10 ^ n \<le> 1 / 2"
    and round_tie: "\<bar>Round L x n - x\<bar> * 10 ^ n = 1 / 2 \<Longrightarrow> \<bar>x\<bar> < \<bar>Round L x n\<bar>"
    and bank_grid: "on_grid n (RoundBank L x n)"
    and bank_near: "\<bar>RoundBank L x n - x\<bar> * 10 ^ n \<le> 1 / 2"
    and bank_tie: "\<bar>RoundBank L x n - x\<bar> * 10 ^ n = 1 / 2 \<Longrightarrow>
      \<exists>k. even k \<and> RoundBank L x n * 10 ^ n = of_int k"
    and div_round: "b \<noteq> 0 \<Longrightarrow> DivRound L a b n = Round L (a / b) n"
    and div_16: "b \<noteq> 0 \<Longrightarrow> Div L a b = DivRound L a b 16"

text \<open>The laws leave no choice: on the number, the operations are the functions above.\<close>

context decimal_lib begin

lemma Round_eq: "Round L x n = round_away x n"
proof -
  obtain k where k: "Round L x n = of_int k / 10 ^ n" using round_grid by (rule on_gridE)
  have scale: "\<bar>of_int k / 10 ^ n - x\<bar> * 10 ^ n = \<bar>of_int k - x * 10 ^ n\<bar>"
    by (rule scaled_abs)
  have "k = half_away (x * 10 ^ n)"
  proof (rule nearest_unique_away)
    show "\<bar>of_int k - x * 10 ^ n\<bar> \<le> 1 / 2" using round_near [of x n] k scale by simp
    show "\<bar>of_int k - x * 10 ^ n\<bar> = 1 / 2 \<Longrightarrow> \<bar>x * 10 ^ n\<bar> < \<bar>of_int k\<bar>"
      using round_tie [of x n] k scale by (simp add: abs_mult pos_less_divide_eq)
  qed (rule half_away_near, rule half_away_tie)
  with k show ?thesis by (simp add: round_away_def)
qed

lemma RoundBank_eq: "RoundBank L x n = round_even x n"
proof -
  obtain k where k: "RoundBank L x n = of_int k / 10 ^ n" using bank_grid by (rule on_gridE)
  have scale: "\<bar>of_int k / 10 ^ n - x\<bar> * 10 ^ n = \<bar>of_int k - x * 10 ^ n\<bar>"
    by (rule scaled_abs)
  have "k = half_even (x * 10 ^ n)"
  proof (rule nearest_unique_even)
    show "\<bar>of_int k - x * 10 ^ n\<bar> \<le> 1 / 2" using bank_near [of x n] k scale by simp
    show "\<bar>of_int k - x * 10 ^ n\<bar> = 1 / 2 \<Longrightarrow> even k"
      using bank_tie [of x n] k scale by auto
  qed (rule half_even_near, rule half_even_tie)
  with k show ?thesis by (simp add: round_even_def)
qed

lemma DivRound_eq: "b \<noteq> 0 \<Longrightarrow> DivRound L a b n = round_away (a / b) n"
  by (simp add: div_round Round_eq)

lemma Div_eq: "b \<noteq> 0 \<Longrightarrow> Div L a b = round_away (a / b) 16"
  by (simp add: div_16 DivRound_eq)

end

text \<open>Consequences, as facts about the two roundings.\<close>

lemma round_away_grid [simp, intro]: "on_grid n (round_away x n)"
  by (simp add: round_away_def on_grid_def)

lemma round_even_grid [simp, intro]: "on_grid n (round_even x n)"
  by (simp add: round_even_def on_grid_def)

lemma round_away_near: "\<bar>round_away x n - x\<bar> * 10 ^ n \<le> 1 / 2"
  unfolding round_away_def scaled_abs by (rule half_away_near)

lemma round_even_near: "\<bar>round_even x n - x\<bar> * 10 ^ n \<le> 1 / 2"
  unfolding round_even_def scaled_abs by (rule half_even_near)

lemma half_away_of_int [simp]: "half_away (of_int k) = k"
proof -
  have "\<lfloor>of_int k + 1 / 2 :: dec\<rfloor> = k" "\<lfloor>of_int (- k) + 1 / 2 :: dec\<rfloor> = - k"
    unfolding floor_eq_iff by simp_all
  then show ?thesis by (auto simp: half_away_def)
qed

lemma half_even_of_int [simp]: "half_even (of_int k) = k"
  by (simp add: half_even_def)

lemma round_away_exact: "on_grid n x \<Longrightarrow> round_away x n = x"
  by (auto simp: round_away_def elim!: on_gridE)

lemma round_even_exact: "on_grid n x \<Longrightarrow> round_even x n = x"
  by (auto simp: round_even_def elim!: on_gridE)

lemma half_away_nonneg: "0 \<le> y \<Longrightarrow> 0 \<le> half_away y"
  by (simp add: half_away_def)

lemma half_even_nonneg: "0 \<le> y \<Longrightarrow> 0 \<le> half_even y"
  by (auto simp: half_even_def Let_def)

lemma round_away_nonneg: "0 \<le> x \<Longrightarrow> 0 \<le> round_away x n"
  by (simp add: round_away_def half_away_nonneg)

lemma round_even_nonneg: "0 \<le> x \<Longrightarrow> 0 \<le> round_even x n"
  by (simp add: round_even_def half_even_nonneg)

lemma round_away_0 [simp]: "round_away 0 n = 0"
  by (simp add: round_away_exact)

lemma round_even_0 [simp]: "round_even 0 n = 0"
  by (simp add: round_even_exact)

lemma half_away_mono:
  assumes le: "x \<le> y"
  shows "half_away x \<le> half_away y"
proof (cases "0 \<le> x \<or> y < 0")
  case True
  have "\<lfloor>x + 1 / 2\<rfloor> \<le> \<lfloor>y + 1 / 2\<rfloor>" "\<lfloor>- y + 1 / 2\<rfloor> \<le> \<lfloor>- x + 1 / 2\<rfloor>"
    using le by (intro floor_mono; simp)+
  with True le show ?thesis by (auto simp: half_away_def)
next
  case False
  then have "half_away x \<le> 0" "0 \<le> half_away y" by (auto simp: half_away_def)
  then show ?thesis by simp
qed

lemma round_away_mono: "x \<le> y \<Longrightarrow> round_away x n \<le> round_away y n"
  by (simp add: round_away_def half_away_mono divide_right_mono mult_right_mono)

lemma round_away_minus: "round_away (- x) n = - round_away x n"
proof -
  have "half_away (- y) = - half_away y" for y
    by (cases y "0 :: dec" rule: linorder_cases) (simp_all add: half_away_def floor_eq_iff)
  from this [of "x * 10 ^ n"] show ?thesis by (simp add: round_away_def)
qed

text \<open>An instance of the interface: the library's operations on the number itself.\<close>

definition std_declib :: declib where
  "std_declib =
     \<lparr>DivRound = (\<lambda>a b n. round_away (a / b) n), Div = (\<lambda>a b. round_away (a / b) 16),
      Round = round_away, RoundBank = round_even, DecString = (\<lambda>_. [])\<rparr>"

lemma std_declib_simps [simp]:
  "DivRound std_declib a b n = round_away (a / b) n" "Div std_declib a b = round_away (a / b) 16"
  "Round std_declib x n = round_away x n" "RoundBank std_declib x n = round_even x n"
  by (simp_all add: std_declib_def)

interpretation std: decimal_lib std_declib
proof unfold_locales
  fix x :: dec and n
  show "\<bar>Round std_declib x n - x\<bar> * 10 ^ n \<le> 1 / 2" unfolding std_declib_simps by (rule round_away_near)
  show "\<bar>RoundBank std_declib x n - x\<bar> * 10 ^ n \<le> 1 / 2" unfolding std_declib_simps by (rule round_even_near)
  show "\<bar>x\<bar> < \<bar>Round std_declib x n\<bar>" if "\<bar>Round std_declib x n - x\<bar> * 10 ^ n = 1 / 2"
    using half_away_tie [of "x * 10 ^ n"] that
    by (simp add: round_away_def scaled_abs abs_mult pos_less_divide_eq)
  show "\<exists>k. even k \<and> RoundBank std_declib x n * 10 ^ n = of_int k"
    if "\<bar>RoundBank std_declib x n - x\<bar> * 10 ^ n = 1 / 2"
    using half_even_tie [of "x * 10 ^ n"] that
    by (auto simp: round_even_def scaled_abs)
qed simp_all

end
