(* ===== verification/Go_Lib.thy ===== *)
theory Go_Lib
  imports Prelude
begin

text \<open>
  The parts of Go's standard library the modelled code uses: \<open>sort.Search\<close>, instants and
  durations of package \<open>time\<close>, the proleptic Gregorian calendar behind \<open>time.Date\<close> and
  \<open>Time.Date\<close>, and locations with their zone transitions. An instant is the number of
  nanoseconds since the Unix epoch; a \<open>time.Location\<close> is its first offset and the list of its
  transitions (the zone database itself is data outside the repository, so a location is an
  argument everywhere).
\<close>

section \<open>sort.Search\<close>

function search_loop :: "(nat \<Rightarrow> bool) \<Rightarrow> nat \<Rightarrow> nat \<Rightarrow> nat" where
  "search_loop f i j =
     (if i < j
      then (let h = (i + j) div 2 in if \<not> f h then search_loop f (h + 1) j else search_loop f i h)
      else i)"
  by pat_completeness auto
termination
  by (relation "measure (\<lambda>(f, i, j). j - i)") auto

declare search_loop.simps [simp del]

definition sort_Search :: "nat \<Rightarrow> (nat \<Rightarrow> bool) \<Rightarrow> nat" where
  "sort_Search n f = search_loop f 0 n"

lemma search_loop_spec:
  assumes "i \<le> j" and "\<And>a b. a \<le> b \<Longrightarrow> b < n \<Longrightarrow> f a \<Longrightarrow> f b" and "j \<le> n"
    and "\<And>k. k < i \<Longrightarrow> \<not> f k" and "\<And>k. j \<le> k \<Longrightarrow> k < n \<Longrightarrow> f k"
  shows "search_loop f i j \<le> n \<and> (\<forall>k < search_loop f i j. \<not> f k) \<and>
    (\<forall>k. search_loop f i j \<le> k \<longrightarrow> k < n \<longrightarrow> f k)"
  using assms
proof (induction f i j rule: search_loop.induct)
  case (1 f i j)
  show ?case
  proof (cases "i < j")
    case False
    with "1.prems" have "i = j" by simp
    with "1.prems" show ?thesis by (subst (1 2 3) search_loop.simps) auto
  next
    case True
    define h where "h = (i + j) div 2"
    have h: "i \<le> h" "h < j" using True by (auto simp: h_def)
    show ?thesis
    proof (cases "f h")
      case True
      have "search_loop f i h \<le> n \<and> (\<forall>k < search_loop f i h. \<not> f k) \<and>
          (\<forall>k. search_loop f i h \<le> k \<longrightarrow> k < n \<longrightarrow> f k)"
        by (rule "1.IH"(2) [OF \<open>i < j\<close> h_def]) (use True h "1.prems" in auto)
      with True \<open>i < j\<close> show ?thesis by (subst (1 2 3) search_loop.simps) (simp add: Let_def h_def)
    next
      case False
      have "search_loop f (h + 1) j \<le> n \<and> (\<forall>k < search_loop f (h + 1) j. \<not> f k) \<and>
          (\<forall>k. search_loop f (h + 1) j \<le> k \<longrightarrow> k < n \<longrightarrow> f k)"
      proof (rule "1.IH"(1) [OF \<open>i < j\<close> h_def])
        show "\<not> f k" if "k < h + 1" for k
          using False h "1.prems"(2) [of k h] "1.prems"(3) that by auto
      qed (use False h "1.prems" in auto)
      with False \<open>i < j\<close> show ?thesis by (subst (1 2 3) search_loop.simps) (simp add: Let_def h_def)
    qed
  qed
qed

lemma sorted_last_max:
  fixes key :: "'a \<Rightarrow> 'b :: linorder"
  shows "sorted (map key xs) \<Longrightarrow> x \<in> set xs \<Longrightarrow> key x \<le> key (last xs)"
  by (induction xs rule: rev_induct) (auto simp: sorted_append)

text \<open>
  The contract of a search over a list sorted by a key, as its clients use it: the index is that of
  the first element past a bound. \<open>bound_search\<close> is what the clients prove their lemmas from.
\<close>

locale bound_search =
  fixes search :: "nat \<Rightarrow> (nat \<Rightarrow> bool) \<Rightarrow> nat"
  assumes search_le: "(\<And>a b. a \<le> b \<Longrightarrow> b < n \<Longrightarrow> f a \<Longrightarrow> f b) \<Longrightarrow> search n f \<le> n"
    and search_before: "(\<And>a b. a \<le> b \<Longrightarrow> b < n \<Longrightarrow> f a \<Longrightarrow> f b) \<Longrightarrow> k < search n f \<Longrightarrow> \<not> f k"
    and search_after:
      "(\<And>a b. a \<le> b \<Longrightarrow> b < n \<Longrightarrow> f a \<Longrightarrow> f b) \<Longrightarrow> search n f \<le> k \<Longrightarrow> k < n \<Longrightarrow> f k"

context bound_search begin

lemma search_key_gt:
  fixes key :: "'a \<Rightarrow> 'b :: linorder"
  assumes "sorted (map key xs)"
  shows "search (length xs) (\<lambda>i. b < key (xs ! i)) = length (filter (\<lambda>x. key x \<le> b) xs)"
    and "take (search (length xs) (\<lambda>i. b < key (xs ! i))) xs = filter (\<lambda>x. key x \<le> b) xs"
proof -
  let ?s = "search (length xs) (\<lambda>i. b < key (xs ! i))"
  have mono: "b < key (xs ! j)" if "i \<le> j" "j < length xs" "b < key (xs ! i)" for i j
    using assms that sorted_nth_mono [of "map key xs" i j] by auto
  have le: "?s \<le> length xs" by (rule search_le) (rule mono)
  have before: "key (xs ! k) \<le> b" if "k < ?s" for k
    using search_before [where n = "length xs" and f = "\<lambda>i. b < key (xs ! i)", OF _ that] mono by force
  have after: "b < key (xs ! k)" if "?s \<le> k" "k < length xs" for k
    using search_after [where n = "length xs" and f = "\<lambda>i. b < key (xs ! i)", OF _ that] mono by blast
  have "filter (\<lambda>x. key x \<le> b) (take ?s xs @ drop ?s xs) = take ?s xs @ []"
    unfolding filter_append
  proof (rule arg_cong2 [where f = "(@)"])
    show "filter (\<lambda>x. key x \<le> b) (take ?s xs) = take ?s xs"
      using before le by (auto simp: in_set_conv_nth intro!: filter_True)
    show "filter (\<lambda>x. key x \<le> b) (drop ?s xs) = []"
      using after by (auto simp: in_set_conv_nth filter_empty_conv not_le)
  qed
  then show "take ?s xs = filter (\<lambda>x. key x \<le> b) xs" by simp
  then show "?s = length (filter (\<lambda>x. key x \<le> b) xs)" using le by (metis length_take min.absorb2)
qed

lemma search_key_ge:
  fixes key :: "'a \<Rightarrow> 'b :: linorder"
  assumes "sorted (map key xs)"
  shows "search (length xs) (\<lambda>i. \<not> key (xs ! i) < b) = length (filter (\<lambda>x. key x < b) xs)"
    and "take (search (length xs) (\<lambda>i. \<not> key (xs ! i) < b)) xs = filter (\<lambda>x. key x < b) xs"
proof -
  let ?s = "search (length xs) (\<lambda>i. \<not> key (xs ! i) < b)"
  have mono: "\<not> key (xs ! j) < b" if "i \<le> j" "j < length xs" "\<not> key (xs ! i) < b" for i j
    using assms that sorted_nth_mono [of "map key xs" i j] by auto
  have le: "?s \<le> length xs" by (rule search_le) (rule mono)
  have before: "key (xs ! k) < b" if "k < ?s" for k
    using search_before [where n = "length xs" and f = "\<lambda>i. \<not> key (xs ! i) < b", OF _ that] mono by force
  have after: "\<not> key (xs ! k) < b" if "?s \<le> k" "k < length xs" for k
    using search_after [where n = "length xs" and f = "\<lambda>i. \<not> key (xs ! i) < b", OF _ that] mono by blast
  have "filter (\<lambda>x. key x < b) (take ?s xs @ drop ?s xs) = take ?s xs @ []"
    unfolding filter_append
  proof (rule arg_cong2 [where f = "(@)"])
    show "filter (\<lambda>x. key x < b) (take ?s xs) = take ?s xs"
      using before le by (auto simp: in_set_conv_nth intro!: filter_True)
    show "filter (\<lambda>x. key x < b) (drop ?s xs) = []"
      using after by (auto simp: in_set_conv_nth filter_empty_conv)
  qed
  then show "take ?s xs = filter (\<lambda>x. key x < b) xs" by simp
  then show "?s = length (filter (\<lambda>x. key x < b) xs)" using le by (metis length_take min.absorb2)
qed

end

interpretation bs: bound_search sort_Search
proof unfold_locales
  fix n k and f :: "nat \<Rightarrow> bool"
  assume mono: "\<And>a b. a \<le> b \<Longrightarrow> b < n \<Longrightarrow> f a \<Longrightarrow> f b"
  have spec: "sort_Search n f \<le> n \<and> (\<forall>k < sort_Search n f. \<not> f k) \<and>
      (\<forall>k. sort_Search n f \<le> k \<longrightarrow> k < n \<longrightarrow> f k)"
    unfolding sort_Search_def by (rule search_loop_spec) (use mono in auto)
  show "sort_Search n f \<le> n" using spec by simp
  show "k < sort_Search n f \<Longrightarrow> \<not> f k" using spec by simp
  show "sort_Search n f \<le> k \<Longrightarrow> k < n \<Longrightarrow> f k" using spec by simp
qed

end
