(* ===== verification/Go_Time.thy ===== *)
theory Go_Time
  imports Go_Lib
begin

text \<open>
  Instants, durations, the calendar and locations of Go's package \<open>time\<close>. An instant is an
  integer number of nanoseconds since the Unix epoch, in \<open>time\<close>; a duration is an integer
  number of nanoseconds. \<open>midnight y m d loc\<close> is \<open>time.Date(y, m, d, 0, 0, 0, 0, loc)\<close>
  with its normalisation of months and days out of range and its choice of offset at a zone
  transition; \<open>date_in loc t\<close> is \<open>t.In(loc).Date()\<close>.
\<close>

type_synonym time = int
type_synonym duration = int

definition ns_per_sec :: int where "ns_per_sec = 1000000000"
definition hour :: duration where "hour = 3600 * ns_per_sec"

text \<open>\<open>Time.Sub\<close> saturates at the range of \<open>Duration\<close>, a signed 64-bit integer.\<close>

definition Sub :: "time \<Rightarrow> time \<Rightarrow> duration" where
  "Sub t u = max (- (2 ^ 63)) (min (2 ^ 63 - 1) (t - u))"

text \<open>Go's integer division truncates toward zero.\<close>

definition quot :: "int \<Rightarrow> int \<Rightarrow> int" where
  "quot a b = (if 0 \<le> a then a div b else - ((- a) div b))"

text \<open>\<open>Time.Truncate\<close> rounds down to a multiple of the duration since the zero time,
  midnight of 1 January of the year 1.\<close>

definition zero_time :: time where "zero_time = - 62135596800 * ns_per_sec"

definition Truncate :: "time \<Rightarrow> duration \<Rightarrow> time" where
  "Truncate t d = t - (t - zero_time) mod d"

lemma Truncate_hour: "Truncate t hour = t - t mod hour"
proof -
  have "zero_time mod hour = 0" by (simp add: zero_time_def hour_def ns_per_sec_def)
  then have "(t - zero_time) mod hour = t mod hour" by (metis mod_diff_right_eq diff_zero)
  then show ?thesis by (simp add: Truncate_def)
qed

lemma Truncate_hour_le: "Truncate t hour \<le> t" "t < Truncate t hour + hour"
proof -
  have "0 < hour" by (simp add: hour_def ns_per_sec_def)
  then have "0 \<le> t mod hour" "t mod hour < hour" by simp_all
  then show "Truncate t hour \<le> t" "t < Truncate t hour + hour" by (simp_all add: Truncate_hour)
qed

lemma Truncate_hour_idem: "Truncate (Truncate t hour + k * hour) hour = Truncate t hour + k * hour"
  by (simp add: Truncate_hour minus_mod_eq_mult_div flip: mult.commute distrib_right)

section \<open>The calendar\<close>

definition is_leap :: "int \<Rightarrow> bool" where
  "is_leap y \<longleftrightarrow> y mod 4 = 0 \<and> (y mod 100 \<noteq> 0 \<or> y mod 400 = 0)"

text \<open>Days from 1 January of the year 1 to 1 January of year \<open>y\<close>.\<close>

definition days_before_year :: "int \<Rightarrow> int" where
  "days_before_year y = 365 * (y - 1) + (y - 1) div 4 - (y - 1) div 100 + (y - 1) div 400"

text \<open>Days of the year before the first of month \<open>m\<close>, for \<open>m\<close> from 1 to 13.\<close>

definition days_before_month :: "bool \<Rightarrow> int \<Rightarrow> int" where
  "days_before_month leap m =
     (if m \<le> 1 then 0 else if m = 2 then 31
      else (if leap then 1 else 0) +
        (if m = 3 then 59 else if m = 4 then 90 else if m = 5 then 120 else if m = 6 then 151
         else if m = 7 then 181 else if m = 8 then 212 else if m = 9 then 243 else if m = 10 then 273
         else if m = 11 then 304 else if m = 12 then 334 else 365))"

definition month_len :: "int \<Rightarrow> int \<Rightarrow> int" where
  "month_len y m = days_before_month (is_leap y) (m + 1) - days_before_month (is_leap y) m"

definition epoch_days :: int where "epoch_days = 719162"

text \<open>Days since the Unix epoch of a civil date; the month is normalised, the day may be out of
  range.\<close>

definition days_from_civil :: "int \<Rightarrow> int \<Rightarrow> int \<Rightarrow> int" where
  "days_from_civil y m d =
     (let y' = y + (m - 1) div 12; m' = (m - 1) mod 12 + 1
      in days_before_year y' + days_before_month (is_leap y') m' + (d - 1) - epoch_days)"

definition year_of_days :: "int \<Rightarrow> int" where
  "year_of_days n =
     (let y = 400 * n div 146097 + 1 in if days_before_year (y + 1) \<le> n then y + 1 else y)"

definition month_of_yday :: "bool \<Rightarrow> int \<Rightarrow> int" where
  "month_of_yday leap n =
     (let before = (\<lambda>m. n < days_before_month leap m)
      in if before 2 then 1 else if before 3 then 2 else if before 4 then 3 else if before 5 then 4
         else if before 6 then 5 else if before 7 then 6 else if before 8 then 7
         else if before 9 then 8 else if before 10 then 9 else if before 11 then 10
         else if before 12 then 11 else 12)"

definition civil_from_days :: "int \<Rightarrow> int \<times> int \<times> int" where
  "civil_from_days n =
     (let y = year_of_days (n + epoch_days); yd = n + epoch_days - days_before_year y;
          m = month_of_yday (is_leap y) yd
      in (y, m, yd - days_before_month (is_leap y) m + 1))"

definition valid_civil :: "int \<Rightarrow> int \<Rightarrow> int \<Rightarrow> bool" where
  "valid_civil y m d \<longleftrightarrow> 1 \<le> m \<and> m \<le> 12 \<and> 1 \<le> d \<and> d \<le> month_len y m"

lemma div_lower: "0 < k \<Longrightarrow> k * (z div k) \<le> z" for k z :: int
  using pos_mod_sign [of k z] mult_div_mod_eq [of k z] by linarith

lemma div_upper: "0 < k \<Longrightarrow> z < k * (z div k) + k" for k z :: int
  using pos_mod_bound [of k z] mult_div_mod_eq [of k z] by linarith

lemma leap_count_le:
  fixes x n a b c :: int
  assumes "146097 * x \<le> 400 * n" "4 * a \<le> x" "x < 100 * b + 100" "400 * c \<le> x"
  shows "365 * x + a - b + c \<le> n"
  using assms by linarith

lemma leap_count_gt:
  fixes x n a b c :: int
  assumes "400 * n < 146097 * x - 146097" "x < 4 * a + 4" "100 * b \<le> x" "x < 400 * c + 400"
  shows "n < 365 * x + a - b + c"
  using assms by linarith

lemma leap_if:
  "(C \<longrightarrow> B) \<Longrightarrow> (B \<longrightarrow> A) \<Longrightarrow> x + 365 + (if A then 1 else 0) - (if B then 1 else 0) + (if C then 1 else 0) =
    x + (if A \<and> (\<not> B \<or> C) then 366 else 365)" for x :: int
  by (cases A; cases B; cases C) simp_all

lemma days_before_year_Suc:
  "days_before_year (y + 1) = days_before_year y + (if is_leap y then 366 else 365)"
proof -
  have step: "y div k = (y - 1) div k + (if y mod k = 0 then 1 else 0)" if "0 < k" for k :: int
  proof -
    have y: "y = (y - 1) div k * k + ((y - 1) mod k + 1)" by simp
    show ?thesis
    proof (cases "(y - 1) mod k + 1 = k")
      case True
      then have "y = ((y - 1) div k + 1) * k" using y by (simp add: distrib_right)
      then show ?thesis using that by (metis mod_mult_self2_is_0 nonzero_mult_div_cancel_right less_irrefl)
    next
      case False
      then have m: "0 < (y - 1) mod k + 1" "(y - 1) mod k + 1 < k"
        using that pos_mod_sign [of k "y - 1"] pos_mod_bound [of k "y - 1"] by linarith+
      have y': "y = k * ((y - 1) div k) + ((y - 1) mod k + 1)" using y by (simp only: mult.commute)
      have "y div k = (y - 1) div k"
        by (rule int_div_pos_eq [OF y']) (use m in simp_all)
      moreover have "y mod k = (y - 1) mod k + 1"
        by (rule int_mod_pos_eq [OF y']) (use m in simp_all)
      ultimately show ?thesis using m by simp
    qed
  qed
  have step4: "y div 4 = (y - 1) div 4 + (if y mod 4 = 0 then 1 else 0)" by (rule step) simp
  have step100: "y div 100 = (y - 1) div 100 + (if y mod 100 = 0 then 1 else 0)" by (rule step) simp
  have step400: "y div 400 = (y - 1) div 400 + (if y mod 400 = 0 then 1 else 0)" by (rule step) simp
  have c: "y mod 400 = 0 \<Longrightarrow> y mod 100 = 0" "y mod 100 = 0 \<Longrightarrow> y mod 4 = 0"
    using dvd_trans [of 100 400 y] dvd_trans [of 4 100 y] by (simp_all add: mod_eq_0_iff_dvd)
  have "days_before_year (y + 1) = 365 * y + y div 4 - y div 100 + y div 400"
    by (simp add: days_before_year_def)
  also have "\<dots> = days_before_year y + 365 + (if y mod 4 = 0 then 1 else 0) -
      (if y mod 100 = 0 then 1 else 0) + (if y mod 400 = 0 then 1 else 0)"
    unfolding days_before_year_def step4 step100 step400 by (simp only: algebra_simps)
  also have "\<dots> = days_before_year y + (if is_leap y then 366 else 365)"
    unfolding is_leap_def by (rule leap_if) (use c in blast)+
  finally show ?thesis .
qed

lemma days_before_year_step: "days_before_year y + 365 \<le> days_before_year (y + 1)"
  by (simp add: days_before_year_Suc)

lemma year_of_days:
  shows "days_before_year (year_of_days n) \<le> n" and "n < days_before_year (year_of_days n + 1)"
proof -
  define y where "y = 400 * n div 146097 + 1"
  have q: "146097 * (y - 1) \<le> 400 * n" "400 * n < 146097 * (y - 1) + 146097"
    using div_lower [of 146097 "400 * n"] div_upper [of 146097 "400 * n"] by (simp_all add: y_def)
  have lo: "days_before_year y \<le> n"
    unfolding days_before_year_def
    by (rule leap_count_le [OF q(1)]) (rule div_lower div_upper, simp)+
  have "n < 365 * (y + 1) + (1 + y) div 4 - (1 + y) div 100 + (1 + y) div 400"
    unfolding add.commute [of 1 y]
  proof (rule leap_count_gt)
    show "400 * n < 146097 * (y + 1) - 146097" using q(2) by simp
  qed (rule div_lower div_upper, simp)+
  then have hi: "n < days_before_year (y + 1 + 1)"
    by (simp add: days_before_year_def add.commute)
  show "days_before_year (year_of_days n) \<le> n"
    using lo by (simp add: year_of_days_def Let_def y_def [symmetric])
  show "n < days_before_year (year_of_days n + 1)"
    using hi by (simp add: year_of_days_def Let_def y_def [symmetric] del: add.assoc)
qed

lemma days_before_year_mono: "y \<le> z \<Longrightarrow> days_before_year y \<le> days_before_year z"
proof (induction z rule: int_ge_induct)
  case base
  show ?case by simp
next
  case (step z)
  with days_before_year_step [of z] show ?case by linarith
qed

lemma year_of_days_unique:
  assumes "days_before_year y \<le> n" and "n < days_before_year (y + 1)"
  shows "year_of_days n = y"
proof -
  have "\<not> year_of_days n + 1 \<le> y"
    using assms(1) year_of_days(2) [of n] days_before_year_mono [of "year_of_days n + 1" y] by linarith
  moreover have "\<not> y + 1 \<le> year_of_days n"
    using assms(2) year_of_days(1) [of n] days_before_year_mono [of "y + 1" "year_of_days n"] by linarith
  ultimately show ?thesis by linarith
qed

lemma int_1_12:
  assumes "1 \<le> (m :: int)" and "m \<le> 12"
  shows "m = 1 \<or> m = 2 \<or> m = 3 \<or> m = 4 \<or> m = 5 \<or> m = 6 \<or> m = 7 \<or> m = 8 \<or> m = 9
    \<or> m = 10 \<or> m = 11 \<or> m = 12"
  using assms by presburger

lemma month_of_yday:
  assumes "0 \<le> n" and "n < (if leap then 366 else 365)"
  defines "m \<equiv> month_of_yday leap n"
  shows "1 \<le> m \<and> m \<le> 12 \<and> days_before_month leap m \<le> n \<and> n < days_before_month leap (m + 1)"
proof -
  define l :: int where "l = (if leap then 1 else 0)"
  have l: "0 \<le> l" "l \<le> 1" "(if leap then 1 else 0 :: int) = l" by (simp_all add: l_def)
  have n: "n < 365 + l" using assms(2) by (simp add: l_def split: if_splits)
  have b: "days_before_month leap 2 = 31" "days_before_month leap 3 = l + 59"
    "days_before_month leap 4 = l + 90" "days_before_month leap 5 = l + 120"
    "days_before_month leap 6 = l + 151" "days_before_month leap 7 = l + 181"
    "days_before_month leap 8 = l + 212" "days_before_month leap 9 = l + 243"
    "days_before_month leap 10 = l + 273" "days_before_month leap 11 = l + 304"
    "days_before_month leap 12 = l + 334" "days_before_month leap 13 = l + 365"
    "days_before_month leap 1 = 0"
    by (simp_all add: days_before_month_def l)
  consider "n < 31" | "\<not> n < 31" "n < l + 59" | "\<not> n < l + 59" "n < l + 90" | "\<not> n < l + 90" "n < l + 120"
    | "\<not> n < l + 120" "n < l + 151" | "\<not> n < l + 151" "n < l + 181" | "\<not> n < l + 181" "n < l + 212"
    | "\<not> n < l + 212" "n < l + 243" | "\<not> n < l + 243" "n < l + 273" | "\<not> n < l + 273" "n < l + 304"
    | "\<not> n < l + 304" "n < l + 334" | "\<not> n < l + 334" by blast
  then show ?thesis
    using l(1,2) n assms(1) unfolding m_def month_of_yday_def Let_def
    by cases (simp_all add: b)
qed

lemma month_of_yday_unique:
  assumes "1 \<le> m" and "m \<le> 12" and "days_before_month leap m \<le> n"
    and "n < days_before_month leap (m + 1)"
  shows "month_of_yday leap n = m"
proof -
  define l :: int where "l = (if leap then 1 else 0)"
  have l: "0 \<le> l" "l \<le> 1" "(if leap then 1 else 0 :: int) = l" by (simp_all add: l_def)
  show ?thesis
    using int_1_12 [OF assms(1,2)]
    by (elim disjE; use assms(3,4) l(1,2) in \<open>simp add: month_of_yday_def days_before_month_def Let_def l(3)\<close>)
qed

lemma days_before_month_range:
  assumes "1 \<le> m" and "m \<le> 12"
  shows "0 \<le> days_before_month leap m \<and>
    days_before_month leap m + 28 \<le> days_before_month leap (m + 1) \<and>
    days_before_month leap (m + 1) \<le> (if leap then 366 else 365)"
  using int_1_12 [OF assms] by (elim disjE) (simp_all add: days_before_month_def)

text \<open>Civil dates and day numbers are inverse to each other.\<close>

lemma month_len_range: "1 \<le> m \<Longrightarrow> m \<le> 12 \<Longrightarrow> 28 \<le> month_len y m"
  using days_before_month_range [of m "is_leap y"] by (simp add: month_len_def)

lemma days_from_civil_plain:
  "1 \<le> m \<Longrightarrow> m \<le> 12 \<Longrightarrow>
   days_from_civil y m d =
     days_before_year y + days_before_month (is_leap y) m + (d - 1) - epoch_days"
  by (simp add: days_from_civil_def Let_def)

lemma days_from_civil_day: "days_from_civil y m (d + k) = days_from_civil y m d + k"
  by (simp add: days_from_civil_def Let_def)

lemma days_from_civil_next_month:
  assumes "1 \<le> m" and "m \<le> 12"
  shows "days_from_civil y (m + 1) d = days_from_civil y m d + month_len y m"
proof (cases "m = 12")
  case True
  then show ?thesis
    by (simp add: days_from_civil_def Let_def month_len_def days_before_year_Suc days_before_month_def)
next
  case False
  with assms have "m + 1 \<le> 12" by simp
  with assms show ?thesis by (simp add: days_from_civil_plain month_len_def)
qed

lemma civil_from_days_valid:
  assumes "civil_from_days n = (y, m, d)"
  shows "valid_civil y m d" and "days_from_civil y m d = n"
proof -
  define k where "k = n + epoch_days"
  have y: "y = year_of_days k" using assms by (simp add: civil_from_days_def Let_def k_def)
  define yd where "yd = k - days_before_year y"
  have m: "m = month_of_yday (is_leap y) yd"
    and d: "d = yd - days_before_month (is_leap y) m + 1"
    using assms unfolding civil_from_days_def Let_def k_def [symmetric] prod.inject
    by (auto simp: yd_def y)
  have "0 \<le> yd" "yd < (if is_leap y then 366 else 365)"
    using year_of_days [of k] by (simp_all add: yd_def y days_before_year_Suc)
  from month_of_yday [OF this]
  have mr: "1 \<le> m" "m \<le> 12" "days_before_month (is_leap y) m \<le> yd"
    "yd < days_before_month (is_leap y) (m + 1)" by (simp_all add: m)
  then show "valid_civil y m d" by (simp add: valid_civil_def month_len_def d)
  show "days_from_civil y m d = n"
    using mr(1,2) by (simp add: days_from_civil_plain d yd_def k_def)
qed

lemma civil_days_civil:
  assumes "valid_civil y m d"
  shows "civil_from_days (days_from_civil y m d) = (y, m, d)"
proof -
  from assms have m: "1 \<le> m" "m \<le> 12" and d: "1 \<le> d" "d \<le> month_len y m"
    by (simp_all add: valid_civil_def)
  define yd where "yd = days_before_month (is_leap y) m + (d - 1)"
  have n: "days_from_civil y m d + epoch_days = days_before_year y + yd"
    using m by (simp add: days_from_civil_plain yd_def)
  have r: "0 \<le> yd" "days_before_month (is_leap y) m \<le> yd" "yd < days_before_month (is_leap y) (m + 1)"
    "yd < (if is_leap y then 366 else 365)"
    using d days_before_month_range [OF m, of "is_leap y"] by (auto simp: yd_def month_len_def)
  have "year_of_days (days_before_year y + yd) = y"
    by (rule year_of_days_unique) (use r in \<open>simp_all add: days_before_year_Suc\<close>)
  moreover have "month_of_yday (is_leap y) yd = m"
    by (rule month_of_yday_unique [OF m r(2,3)])
  ultimately show ?thesis
    unfolding civil_from_days_def n by (simp add: Let_def yd_def)
qed

section \<open>Locations\<close>

text \<open>
  A location: the offset before the first transition, and the transitions as pairs of a Unix second
  and the offset in force from it on, ascending. \<open>lookup\<close> gives the offset at a Unix second
  and the bounds of its zone period, as \<open>Location.lookup\<close> does.
\<close>

record location =
  first_offset :: int
  transitions :: "(int \<times> int) list"

fun lookup_from :: "int \<Rightarrow> int option \<Rightarrow> (int \<times> int) list \<Rightarrow> int \<Rightarrow> int \<times> int option \<times> int option" where
  "lookup_from off start [] sec = (off, start, None)"
| "lookup_from off start ((w, off') # tx) sec =
     (if sec < w then (off, start, Some w) else lookup_from off' (Some w) tx sec)"

definition lookup :: "location \<Rightarrow> int \<Rightarrow> int \<times> int option \<times> int option" where
  "lookup loc sec = lookup_from (first_offset loc) None (transitions loc) sec"

definition offset_at :: "location \<Rightarrow> int \<Rightarrow> int" where
  "offset_at loc sec = fst (lookup loc sec)"

definition utc :: location where
  "utc = \<lparr>first_offset = 0, transitions = []\<rparr>"

text \<open>The offset \<open>time.Date\<close> settles on for a wall-clock second.\<close>

definition wall_offset :: "location \<Rightarrow> int \<Rightarrow> int" where
  "wall_offset loc wall =
     (case lookup loc wall of (off, start, stop) \<Rightarrow>
        if off = 0 then 0
        else
          let u = wall - off
          in if (case start of None \<Rightarrow> False | Some s \<Rightarrow> u < s) \<or> (case stop of None \<Rightarrow> False | Some e \<Rightarrow> e \<le> u)
             then offset_at loc u else off)"

definition midnight :: "int \<Rightarrow> int \<Rightarrow> int \<Rightarrow> location \<Rightarrow> time" where
  "midnight y m d loc =
     (let wall = days_from_civil y m d * 86400 in (wall - wall_offset loc wall) * ns_per_sec)"

definition unix_sec :: "time \<Rightarrow> int" where
  "unix_sec t = t div ns_per_sec"

definition local_day :: "location \<Rightarrow> time \<Rightarrow> int" where
  "local_day loc t = (unix_sec t + offset_at loc (unix_sec t)) div 86400"

definition date_in :: "location \<Rightarrow> time \<Rightarrow> int \<times> int \<times> int" where
  "date_in loc t = civil_from_days (local_day loc t)"

text \<open>A location whose offset never changes, as Istanbul's has not since September 2016.\<close>

definition fixed_zone :: "int \<Rightarrow> location" where
  "fixed_zone off = \<lparr>first_offset = off, transitions = []\<rparr>"

lemma utc_fixed: "utc = fixed_zone 0"
  by (simp add: utc_def fixed_zone_def)

lemma offset_at_fixed [simp]: "offset_at (fixed_zone off) s = off"
  by (simp add: offset_at_def lookup_def fixed_zone_def)

lemma midnight_fixed: "midnight y m d (fixed_zone off) = (days_from_civil y m d * 86400 - off) * ns_per_sec"
  by (simp add: midnight_def wall_offset_def lookup_def fixed_zone_def Let_def)

lemma local_day_fixed:
  "(local_day (fixed_zone off) t * 86400 - off) * ns_per_sec \<le> t"
  "t < ((local_day (fixed_zone off) t + 1) * 86400 - off) * ns_per_sec"
proof -
  define s where "s = t div ns_per_sec"
  have s: "s * ns_per_sec \<le> t" "t < (s + 1) * ns_per_sec"
    using div_lower [of ns_per_sec t] div_upper [of ns_per_sec t]
    by (simp_all add: s_def ns_per_sec_def)
  define n where "n = (s + off) div 86400"
  have n: "n * 86400 \<le> s + off" "s + off + 1 \<le> (n + 1) * 86400"
    using div_lower [of 86400 "s + off"] div_upper [of 86400 "s + off"] by (simp_all add: n_def)
  have l: "local_day (fixed_zone off) t = n" by (simp add: local_day_def unix_sec_def s_def n_def)
  show "(local_day (fixed_zone off) t * 86400 - off) * ns_per_sec \<le> t"
    using s(1) n(1) unfolding l by (simp add: ns_per_sec_def)
  show "t < ((local_day (fixed_zone off) t + 1) * 86400 - off) * ns_per_sec"
    using s(2) n(2) unfolding l by (simp add: ns_per_sec_def)
qed

lemma local_day_midnight_fixed [simp]:
  "local_day (fixed_zone off) ((n * 86400 - off) * ns_per_sec) = n"
  by (simp add: local_day_def unix_sec_def ns_per_sec_def)

lemma date_in_valid: "date_in loc t = (y, m, d) \<Longrightarrow> valid_civil y m d"
  unfolding date_in_def by (rule civil_from_days_valid(1))

lemma date_in_days: "date_in loc t = (y, m, d) \<Longrightarrow> days_from_civil y m d = local_day loc t"
  unfolding date_in_def by (rule civil_from_days_valid(2))

section \<open>Regular locations\<close>

text \<open>
  What the code relies on of a location from an instant on: a local date is reached exactly at its midnight. It holds
  where no transition crosses a local midnight, as in Istanbul over the lifetime of the program; it fails where \<open>time.Date\<close> is asked for a midnight that
  does not exist. \<open>istanbul_2016\<close> is Europe/Istanbul for every instant from 8 November 2015 on: clocks went forward by an
  hour on 27 March 2016 at 01:00 UTC and have not been changed since.
\<close>

definition regular_from :: "location \<Rightarrow> time \<Rightarrow> bool" where
  "regular_from loc start \<longleftrightarrow>
     (\<forall>t \<ge> start. \<forall>y m d. midnight y m d loc \<le> t \<longleftrightarrow> days_from_civil y m d \<le> local_day loc t)"

lemma regular_fromD:
  "regular_from loc start \<Longrightarrow> start \<le> t \<Longrightarrow> midnight y m d loc \<le> t \<longleftrightarrow> days_from_civil y m d \<le> local_day loc t"
  by (simp add: regular_from_def)

lemma regular_from_later: "regular_from loc start \<Longrightarrow> start \<le> start' \<Longrightarrow> regular_from loc start'"
  by (simp add: regular_from_def)

lemma day_reached:
  fixes n s off :: int
  shows "n * 86400 - off \<le> s \<longleftrightarrow> n \<le> (s + off) div 86400"
proof -
  have "n \<le> (s + off) div 86400 \<longleftrightarrow> n * 86400 \<le> s + off"
    using div_lower [of 86400 "s + off"] div_upper [of 86400 "s + off"] by auto
  then show ?thesis by linarith
qed

lemma midnight_reached: "(k * ns_per_sec \<le> t) \<longleftrightarrow> k \<le> unix_sec t"
  using div_lower [of ns_per_sec t] div_upper [of ns_per_sec t] by (auto simp: unix_sec_def ns_per_sec_def)

lemma fixed_regular: "regular_from (fixed_zone off) start"
  by (simp add: regular_from_def midnight_fixed midnight_reached day_reached local_day_def)

definition istanbul_2016 :: location where
  "istanbul_2016 = \<lparr>first_offset = 7200, transitions = [(1459040400, 10800)]\<rparr>"

lemma istanbul_regular: "regular_from istanbul_2016 start"
proof -
  have off: "offset_at istanbul_2016 s = (if s < 1459040400 then 7200 else 10800)" for s
    by (simp add: offset_at_def lookup_def istanbul_2016_def)
  have wall: "wall_offset istanbul_2016 (n * 86400) = (if n \<le> 16887 then 7200 else 10800)" for n
  proof -
    have "n * 86400 < 1459040400 \<longleftrightarrow> n \<le> 16887" by linarith
    then show ?thesis by (auto simp: wall_offset_def off lookup_def Let_def istanbul_2016_def)
  qed
  have "n * 86400 - (if n \<le> 16887 then 7200 else 10800) \<le> s \<longleftrightarrow>
      n \<le> (s + (if s < 1459040400 then 7200 else 10800)) div 86400" for n s :: int
    using day_reached [of n 7200 s] day_reached [of n 10800 s] div_lower [of 86400 "s + 7200"] div_upper [of 86400 "s + 7200"]
      div_lower [of 86400 "s + 10800"] div_upper [of 86400 "s + 10800"] by auto
  then show ?thesis by (simp add: regular_from_def midnight_def Let_def midnight_reached local_day_def off wall)
qed

end
