(* ===== verification/Energy.thy ===== *)
theory Energy
  imports Go_Time
begin

text \<open>
  Package \<open>internal/domain/energy\<close> without the reset rule and the buckets: readings and
  windows (\<open>types.go\<close>), the plain difference of a window (\<open>difference.go\<close>), boundary
  selection (\<open>select.go\<close>), maximum demand (\<open>demand.go\<close>), reactive ratios
  (\<open>ratio.go\<close>) and the activity status (\<open>activity.go\<close>).

  A \<open>map[Register]*decimal.Decimal\<close> of a reading is only ever read through
  \<open>Value\<close>, which gives nil for an absent key and for a nil pointer alike, so it is a partial
  map. The result maps of a derivation distinguish a nil map, an absent key and a nil entry, so
  \<open>d_Values\<close> is an optional map to optional values.
\<close>

section \<open>Readings and windows (types.go)\<close>

datatype register =
    ActiveImport | ReactiveInductiveImport | ReactiveCapacitiveImport
  | T1Import | T2Import | T3Import
  | ActiveExport | ReactiveInductiveExport | ReactiveCapacitiveExport
  | T1Export | T2Export | T3Export

definition allRegisters :: "register list" where
  "allRegisters =
     [ActiveImport, ReactiveInductiveImport, ReactiveCapacitiveImport,
      T1Import, T2Import, T3Import,
      ActiveExport, ReactiveInductiveExport, ReactiveCapacitiveExport,
      T1Export, T2Export, T3Export]"

definition AllRegisters :: "register list" where
  "AllRegisters = allRegisters"

datatype kind = KindLoadProfile | KindDaily | KindBilling | KindReset | KindCurrentIndex | KindOther string

record reading =
  TS :: time
  Kind :: kind
  Values :: "register \<rightharpoonup> dec"
  MaxDemandKw :: "dec option"

definition Value :: "reading option \<Rightarrow> register \<Rightarrow> dec option" where
  "Value r reg = (case r of None \<Rightarrow> None | Some x \<Rightarrow> Values x reg)"

lemma Value_simps [simp]: "Value None reg = None" "Value (Some r) reg = Values r reg"
  by (simp_all add: Value_def)

datatype level = Hourly | Daily | Monthly | Yearly | LevelOther string

record window =
  From :: time
  To :: time

definition Valid :: "window \<Rightarrow> bool" where
  "Valid w \<longleftrightarrow> From w < To w"

definition Contains :: "window \<Rightarrow> time \<Rightarrow> bool" where
  "Contains w ts \<longleftrightarrow> \<not> ts < From w \<and> ts < To w"

datatype reason = ReasonNegativeDelta | ReasonMeterReset | ReasonMissingReadings

record suspicion =
  Reason :: reason
  Delta :: "dec option"
  ResetRows :: nat

record derivation =
  d_Window :: window
  Emitted :: bool
  Source :: "kind option"
  d_Values :: "(register \<rightharpoonup> dec option) option"
  Suspect :: "(register \<rightharpoonup> suspicion) option"

text \<open>\<open>Source\<close> of a derivation that is not emitted is the empty string: \<open>None\<close> here.\<close>

definition no_row :: "window \<Rightarrow> derivation" where
  "no_row w = \<lparr>d_Window = w, Emitted = False, Source = None, d_Values = None, Suspect = None\<rparr>"

text \<open>Reading a result map: an absent key and a nil entry are both nil.\<close>

definition derived :: "derivation \<Rightarrow> register \<Rightarrow> dec option" where
  "derived d reg = (case d_Values d of None \<Rightarrow> None | Some m \<Rightarrow> Option.bind (m reg) id)"

definition suspicion_of :: "derivation \<Rightarrow> register \<Rightarrow> suspicion option" where
  "suspicion_of d reg = (case Suspect d of None \<Rightarrow> None | Some m \<Rightarrow> m reg)"

definition SuspectRegisters :: "derivation \<Rightarrow> register list" where
  "SuspectRegisters d = filter (\<lambda>reg. suspicion_of d reg \<noteq> None) allRegisters"

lemma set_allRegisters [simp]: "set allRegisters = UNIV"
proof -
  have "r \<in> set allRegisters" for r by (cases r) (simp_all add: allRegisters_def)
  then show ?thesis by auto
qed

lemma distinct_allRegisters [simp]: "distinct allRegisters"
  by (simp add: allRegisters_def)

lemma derived_no_row [simp]: "derived (no_row w) reg = None"
  by (simp add: derived_def no_row_def)

section \<open>The difference of one window (difference.go)\<close>

text \<open>The body of the loop for one register: the value and the suspicion it stores.\<close>

definition difference_register :: "reading \<Rightarrow> reading \<Rightarrow> register \<Rightarrow> dec option \<times> suspicion option" where
  "difference_register start stop reg =
     (case (Value (Some start) reg, Value (Some stop) reg) of
        (Some s, Some e) \<Rightarrow>
          (let delta = e - s
           in if delta < 0
              then (None, Some \<lparr>Reason = ReasonNegativeDelta, Delta = Some delta, ResetRows = 0\<rparr>)
              else (Some delta, None))
      | _ \<Rightarrow> (None, None))"

fun store_registers ::
  "(register \<Rightarrow> dec option \<times> suspicion option) \<Rightarrow> register list \<Rightarrow>
   (register \<rightharpoonup> dec option) \<times> (register \<rightharpoonup> suspicion) \<Rightarrow>
   (register \<rightharpoonup> dec option) \<times> (register \<rightharpoonup> suspicion)" where
  "store_registers f [] (vals, susp) = (vals, susp)"
| "store_registers f (reg # regs) (vals, susp) =
     (case f reg of (v, s) \<Rightarrow>
        store_registers f regs
          (vals(reg \<mapsto> v), case s of None \<Rightarrow> susp | Some x \<Rightarrow> susp(reg \<mapsto> x)))"

definition emit_registers :: "derivation \<Rightarrow> (register \<Rightarrow> dec option \<times> suspicion option) \<Rightarrow> derivation" where
  "emit_registers d f =
     (case store_registers f allRegisters (Map.empty, Map.empty) of
        (vals, susp) \<Rightarrow> d\<lparr>d_Values := Some vals, Suspect := Some susp\<rparr>)"

definition Difference :: "window \<Rightarrow> reading option \<Rightarrow> reading option \<Rightarrow> derivation" where
  "Difference w start stop =
     (case (start, stop) of
        (Some s, Some e) \<Rightarrow>
          if TS s = TS e then no_row w
          else if TS e < TS s then no_row w
          else emit_registers ((no_row w)\<lparr>Emitted := True, Source := Some (Kind e)\<rparr>)
                 (difference_register s e)
      | _ \<Rightarrow> no_row w)"

text \<open>What the loop over all registers leaves in the two maps.\<close>

lemma store_registers_eq:
  "distinct regs \<Longrightarrow> store_registers f regs (vals, susp) =
     ((\<lambda>r. if r \<in> set regs then Some (fst (f r)) else vals r),
      (\<lambda>r. if r \<in> set regs \<and> snd (f r) \<noteq> None then snd (f r) else susp r))"
proof (induction regs arbitrary: vals susp)
  case Nil
  then show ?case by simp
next
  case (Cons reg regs)
  then show ?case
    by (cases "f reg"; cases "snd (f reg)") (auto simp: fun_eq_iff split: prod.splits option.splits)
qed

lemma emit_registers_simps [simp]:
  "d_Window (emit_registers d f) = d_Window d" "Emitted (emit_registers d f) = Emitted d"
  "Source (emit_registers d f) = Source d"
  "derived (emit_registers d f) reg = fst (f reg)"
  "suspicion_of (emit_registers d f) reg = snd (f reg)"
  "d_Values (emit_registers d f) = Some (\<lambda>r. Some (fst (f r)))"
  "Suspect (emit_registers d f) = Some (\<lambda>r. snd (f r))"
  by (auto simp: emit_registers_def derived_def suspicion_of_def store_registers_eq fun_eq_iff)

lemma difference_register_fst:
  "fst (difference_register s e reg) =
     (case (Values s reg, Values e reg) of
        (Some a, Some b) \<Rightarrow> if a \<le> b then Some (b - a) else None | _ \<Rightarrow> None)"
  by (auto simp: difference_register_def Let_def split: option.splits)

lemma difference_register_snd:
  "snd (difference_register s e reg) =
     (case (Values s reg, Values e reg) of
        (Some a, Some b) \<Rightarrow>
          if b < a then Some \<lparr>Reason = ReasonNegativeDelta, Delta = Some (b - a), ResetRows = 0\<rparr>
          else None
      | _ \<Rightarrow> None)"
  by (auto simp: difference_register_def Let_def split: option.splits)

lemmas difference_register_simps = difference_register_fst difference_register_snd

lemma Difference_emitted:
  "Emitted (Difference w start stop) \<longleftrightarrow>
     (\<exists>s e. start = Some s \<and> stop = Some e \<and> TS s < TS e)"
  by (auto simp: Difference_def no_row_def split: option.splits)

lemma Difference_rows:
  "TS s < TS e \<Longrightarrow> Difference w (Some s) (Some e) =
     emit_registers \<lparr>d_Window = w, Emitted = True, Source = Some (Kind e), d_Values = None, Suspect = None\<rparr>
       (difference_register s e)"
  by (simp add: Difference_def no_row_def)

section \<open>Boundary selection (select.go)\<close>

definition SelectBoundary :: "reading list \<Rightarrow> time \<Rightarrow> reading option" where
  "SelectBoundary readings bound =
     (let i = sort_Search (length readings) (\<lambda>i. bound < TS (readings ! i))
      in if i = 0 then None else Some (readings ! (i - 1)))"

lemma nth_take_last:
  assumes "take n xs = ys" and "0 < n" and "n = length ys"
  shows "xs ! (n - 1) = last ys"
proof -
  have "ys \<noteq> []" using assms(2,3) by auto
  then have "last ys = ys ! (length ys - 1)" by (rule last_conv_nth)
  also have "\<dots> = take n xs ! (n - 1)" using assms(1,3) by simp
  also have "\<dots> = xs ! (n - 1)" using assms(2) by simp
  finally show ?thesis ..
qed

lemma drop_rejected:
  assumes "take n xs = filter P xs" and "x \<in> set (drop n xs)"
  shows "\<not> P x"
proof -
  have "filter P xs = filter P (take n xs) @ filter P (drop n xs)"
    by (metis append_take_drop_id filter_append)
  then have "filter P (drop n xs) = []" by (simp add: assms(1))
  with assms(2) show ?thesis by (auto simp: filter_empty_conv)
qed

lemma SelectBoundary_eq:
  assumes "sorted (map TS readings)"
  shows "SelectBoundary readings bound =
    (let before = filter (\<lambda>r. TS r \<le> bound) readings
     in if before = [] then None else Some (last before))"
proof -
  note s = bs.search_key_gt [OF assms, of bound]
  show ?thesis
    using nth_take_last [OF s(2)] s(1) unfolding SelectBoundary_def Let_def by auto
qed

section \<open>Maximum demand (demand.go)\<close>

definition MaxDemandKinds :: "kind list" where
  "MaxDemandKinds = [KindLoadProfile, KindDaily, KindBilling]"

fun maxDemandKindAllowed :: "kind list \<Rightarrow> kind \<Rightarrow> bool" where
  "maxDemandKindAllowed [] k = False"
| "maxDemandKindAllowed (allowed # kinds) k =
     (if k = allowed then True else maxDemandKindAllowed kinds k)"

definition MaxDemandKindsFor :: "level \<Rightarrow> kind list" where
  "MaxDemandKindsFor level =
     (case level of
        Hourly \<Rightarrow> [KindLoadProfile]
      | Daily \<Rightarrow> [KindLoadProfile, KindDaily]
      | Monthly \<Rightarrow> [KindLoadProfile, KindDaily, KindBilling]
      | Yearly \<Rightarrow> [KindLoadProfile, KindDaily, KindBilling]
      | LevelOther _ \<Rightarrow> [])"

fun max_demand_loop :: "window \<Rightarrow> kind list \<Rightarrow> reading list \<Rightarrow> dec option \<Rightarrow> dec option" where
  "max_demand_loop w kinds [] best = best"
| "max_demand_loop w kinds (r # rs) best =
     (if \<not> Contains w (TS r) then max_demand_loop w kinds rs best
      else if \<not> maxDemandKindAllowed kinds (Kind r) then max_demand_loop w kinds rs best
      else case MaxDemandKw r of
        None \<Rightarrow> max_demand_loop w kinds rs best
      | Some v \<Rightarrow>
          max_demand_loop w kinds rs
            (case best of None \<Rightarrow> Some v | Some b \<Rightarrow> if b < v then Some v else Some b))"

definition MaxDemandOf :: "window \<Rightarrow> reading list \<Rightarrow> kind list \<Rightarrow> dec option" where
  "MaxDemandOf w readings kinds = max_demand_loop w kinds readings None"

definition MaxDemand :: "window \<Rightarrow> reading list \<Rightarrow> dec option" where
  "MaxDemand w readings = MaxDemandOf w readings MaxDemandKinds"

lemma maxDemandKindAllowed_iff [simp]: "maxDemandKindAllowed kinds k \<longleftrightarrow> k \<in> set kinds"
  by (induction kinds) auto

text \<open>The demands a window and a list of kinds let through, in the order of the readings.\<close>

definition demands :: "window \<Rightarrow> kind list \<Rightarrow> reading list \<Rightarrow> dec list" where
  "demands w kinds readings =
     List.map_filter (\<lambda>r. if Contains w (TS r) \<and> Kind r \<in> set kinds then MaxDemandKw r else None) readings"

lemma demands_simps [simp]:
  "demands w kinds [] = []"
  "demands w kinds (r # rs) =
     (if Contains w (TS r) \<and> Kind r \<in> set kinds
      then (case MaxDemandKw r of None \<Rightarrow> demands w kinds rs | Some v \<Rightarrow> v # demands w kinds rs)
      else demands w kinds rs)"
  by (simp_all add: demands_def List.map_filter_simps split: option.splits)

lemma keep_larger: "(if b < v then Some v else Some b) = Some (max v b)" for b v :: dec
  by (simp add: max_def)

lemma max_demand_loop_eq:
  "max_demand_loop w kinds rs best =
     (case best of
        None \<Rightarrow> (case demands w kinds rs of [] \<Rightarrow> None | d # ds \<Rightarrow> Some (fold max ds d))
      | Some b \<Rightarrow> Some (fold max (demands w kinds rs) b))"
  by (induction rs arbitrary: best) (auto simp: keep_larger split: option.splits)

lemma fold_max_base: "b \<le> fold max xs b" for b :: "'a :: linorder"
proof (induction xs arbitrary: b)
  case (Cons y ys)
  from Cons.IH [of "max y b"] show ?case by simp
qed simp

lemma fold_max_ge: "x \<in> set xs \<Longrightarrow> x \<le> fold max xs b" for b :: "'a :: linorder"
proof (induction xs arbitrary: b)
  case (Cons y ys)
  then show ?case using fold_max_base [of "max y b" ys] by auto
qed simp

lemma fold_max_in: "fold max xs b \<in> insert b (set xs)" for b :: "'a :: linorder"
proof (induction xs arbitrary: b)
  case (Cons y ys)
  from Cons.IH [of "max y b"] show ?case by (auto simp: max_def split: if_splits)
qed simp

lemma MaxDemandOf_cases:
  "MaxDemandOf w readings kinds = None \<longleftrightarrow> demands w kinds readings = []"
  "MaxDemandOf w readings kinds = Some m \<Longrightarrow>
     m \<in> set (demands w kinds readings) \<and> (\<forall>d \<in> set (demands w kinds readings). d \<le> m)"
  using fold_max_base fold_max_ge fold_max_in
  by (fastforce simp: MaxDemandOf_def max_demand_loop_eq split: list.splits)+

lemma set_demands:
  "set (demands w kinds readings) =
     {v. \<exists>r \<in> set readings. Contains w (TS r) \<and> Kind r \<in> set kinds \<and> MaxDemandKw r = Some v}"
  by (induction readings) (auto split: option.splits)

section \<open>Reactive ratios (ratio.go)\<close>

definition DivisionScale :: nat where "DivisionScale = 20"

definition Ratio :: "declib \<Rightarrow> dec option \<Rightarrow> dec option \<Rightarrow> dec option" where
  "Ratio L numerator denominator =
     (case (numerator, denominator) of
        (Some n, Some d) \<Rightarrow> if \<not> 0 < d then None else Some (DivRound L n d DivisionScale)
      | _ \<Rightarrow> None)"

definition Ratios :: "declib \<Rightarrow> derivation \<Rightarrow> dec option \<times> dec option" where
  "Ratios L d =
     (if \<not> Emitted d then (None, None)
      else if suspicion_of d ActiveImport \<noteq> None then (None, None)
      else let active = derived d ActiveImport
           in (Ratio L (derived d ReactiveInductiveImport) active,
               Ratio L (derived d ReactiveCapacitiveImport) active))"

section \<open>Activity of a metering point (activity.go)\<close>

definition ActivityWindow :: duration where "ActivityWindow = 7 * 24 * hour"

datatype status = StatusActive | StatusPassive

definition ActivityStatus :: "time option \<Rightarrow> time \<Rightarrow> status" where
  "ActivityStatus lastReadingAt now =
     (case lastReadingAt of
        None \<Rightarrow> StatusPassive
      | Some l \<Rightarrow> if Sub now l \<le> ActivityWindow then StatusActive else StatusPassive)"

lemma Sub_le_iff: "- (2 ^ 63) \<le> d \<Longrightarrow> d < 2 ^ 63 - 1 \<Longrightarrow> Sub t u \<le> d \<longleftrightarrow> t - u \<le> d"
  by (auto simp: Sub_def)

section \<open>Properties\<close>

text \<open>C32. The difference of a window (02 section 3.1) is a row exactly when both boundaries exist and the
  second is strictly later, and then a register has a value, the exact difference, iff both
  boundaries report it and it did not decrease; it is suspect for a negative delta iff it did; a
  register missing on either side has neither.\<close>

theorem Difference_correct:
  fixes w start stop reg
  defines "d \<equiv> Difference w start stop"
  defines "row \<equiv> (\<exists>s e. start = Some s \<and> stop = Some e \<and> TS s < TS e)"
  shows "(Emitted d = row) \<and>
    (d_Values d = None \<longleftrightarrow> \<not> row) \<and>
    (derived d reg =
      (case (row, Value start reg, Value stop reg) of
      (True, Some a, Some b) \<Rightarrow> if a \<le> b then Some (b - a) else None | _ \<Rightarrow> None)) \<and>
    (suspicion_of d reg =
      (case (row, Value start reg, Value stop reg) of
      (True, Some a, Some b) \<Rightarrow>
      if b < a then Some \<lparr>Reason = ReasonNegativeDelta, Delta = Some (b - a), ResetRows = 0\<rparr>
      else None
      | _ \<Rightarrow> None))"
proof -
  have part1: "Emitted d = row"
    and part2: "d_Values d = None \<longleftrightarrow> \<not> row"
    and part3: "derived d reg =
      (case (row, Value start reg, Value stop reg) of
      (True, Some a, Some b) \<Rightarrow> if a \<le> b then Some (b - a) else None | _ \<Rightarrow> None)"
    and part4: "suspicion_of d reg =
      (case (row, Value start reg, Value stop reg) of
      (True, Some a, Some b) \<Rightarrow>
      if b < a then Some \<lparr>Reason = ReasonNegativeDelta, Delta = Some (b - a), ResetRows = 0\<rparr>
      else None
      | _ \<Rightarrow> None)"
  proof -
    have none: "d = no_row w" if "\<not> row"
      using that by (auto simp: d_def row_def Difference_def split: option.splits)
    have some: "\<exists>s e. start = Some s \<and> stop = Some e \<and> d =
        emit_registers \<lparr>d_Window = w, Emitted = True, Source = Some (Kind e), d_Values = None, Suspect = None\<rparr>
          (difference_register s e)" if row
      using that by (auto simp: d_def row_def Difference_rows)
    show "Emitted d = row" using none some by (cases row) (auto simp: no_row_def)
    show "d_Values d = None \<longleftrightarrow> \<not> row" using none some by (cases row) (auto simp: no_row_def)
    show "derived d reg =
        (case (row, Value start reg, Value stop reg) of
           (True, Some a, Some b) \<Rightarrow> if a \<le> b then Some (b - a) else None | _ \<Rightarrow> None)"
      using none some by (cases row) (auto simp: difference_register_simps split: option.splits)
    show "suspicion_of d reg =
        (case (row, Value start reg, Value stop reg) of
           (True, Some a, Some b) \<Rightarrow>
             if b < a then Some \<lparr>Reason = ReasonNegativeDelta, Delta = Some (b - a), ResetRows = 0\<rparr>
             else None
         | _ \<Rightarrow> None)"
      using none some
      by (cases row) (auto simp: difference_register_simps suspicion_of_def no_row_def split: option.splits)
  qed
  show ?thesis by (rule conjI [OF part1 conjI [OF part2 conjI [OF part3 part4]]])
qed

text \<open>Boundary selection by binary search returns, on readings sorted by time, the last reading not after
  the bound, and nil exactly when every reading is after it.\<close>

theorem SelectBoundary_last:
  assumes "sorted (map TS readings)"
  shows "(SelectBoundary readings bound = None \<longleftrightarrow> (\<forall>r \<in> set readings. bound < TS r)) \<and>
    (\<forall>r. SelectBoundary readings bound = Some r \<longrightarrow>
       (\<exists>i < length readings. readings ! i = r \<and> TS r \<le> bound \<and>
          (\<forall>j < length readings. i < j \<longrightarrow> bound < TS (readings ! j))))"
proof (intro conjI allI impI)
  show "SelectBoundary readings bound = None \<longleftrightarrow> (\<forall>r \<in> set readings. bound < TS r)"
    by (auto simp: SelectBoundary_eq [OF assms] Let_def filter_empty_conv not_le)
next
  fix r assume r: "SelectBoundary readings bound = Some r"
  note s = bs.search_key_gt [OF assms, of bound]
  let ?n = "sort_Search (length readings) (\<lambda>i. bound < TS (readings ! i))"
  have n: "0 < ?n" "?n \<le> length readings" and rn: "readings ! (?n - 1) = r"
    using r s(1) by (auto simp: SelectBoundary_def Let_def split: if_splits)
  have "r \<in> set (take ?n readings)"
    using n rn by (auto simp: in_set_conv_nth intro!: exI [of _ "?n - 1"])
  then have le: "TS r \<le> bound" unfolding s(2) by simp
  have "bound < TS (readings ! j)" if "j < length readings" "?n \<le> j" for j
  proof -
    have "readings ! j \<in> set (drop ?n readings)"
      using that by (auto simp: in_set_conv_nth intro!: exI [of _ "j - ?n"])
    from drop_rejected [OF s(2) this] show ?thesis by simp
  qed
  then show "\<exists>i < length readings. readings ! i = r \<and> TS r \<le> bound \<and>
      (\<forall>j < length readings. i < j \<longrightarrow> bound < TS (readings ! j))"
    using n rn le by (intro exI [of _ "?n - 1"]) auto
qed

definition sample_readings :: "reading list" where
  "sample_readings =
     map (\<lambda>t. \<lparr>TS = t, Kind = KindLoadProfile, Values = Map.empty, MaxDemandKw = None\<rparr>) [10, 20, 30]"

theorem SelectBoundary_last_witness:
  "SelectBoundary sample_readings 25 = Some (sample_readings ! 1) \<and>
   (SelectBoundary sample_readings 5 = None \<longleftrightarrow> (\<forall>r \<in> set sample_readings. 5 < TS r))"
proof -
  have s: "sorted (map TS sample_readings)" by (simp add: sample_readings_def)
  have "SelectBoundary sample_readings 25 = Some (sample_readings ! 1)"
    by (simp add: SelectBoundary_def sort_Search_def search_loop.simps Let_def sample_readings_def)
  then show ?thesis using SelectBoundary_last [OF s, of 5] by simp
qed

text \<open>The maximum demand of a window is the largest demand among the readings in the half-open window
  whose kind is allowed, and nil exactly when none of them carries one.\<close>

theorem MaxDemandOf_max:
  fixes w readings kinds
  defines "S \<equiv> {v. \<exists>r \<in> set readings. From w \<le> TS r \<and> TS r < To w \<and> Kind r \<in> set kinds \<and> MaxDemandKw r = Some v}"
  shows "MaxDemandOf w readings kinds = (if S = {} then None else Some (Max S))"
proof -
  have S: "S = set (demands w kinds readings)"
    by (auto simp: S_def set_demands Contains_def not_less)
  show ?thesis
  proof (cases "MaxDemandOf w readings kinds")
    case None
    then show ?thesis using MaxDemandOf_cases(1) S by auto
  next
    case (Some m)
    then have "m \<in> S" "\<forall>d \<in> S. d \<le> m" using MaxDemandOf_cases(2) S by auto
    then have "Max S = m" unfolding S by (intro Max_eqI) auto
    with Some \<open>m \<in> S\<close> show ?thesis by auto
  qed
qed

end
