(* ===== verification/Energy_Derive.thy ===== *)
theory Energy_Derive
  imports Energy
begin

text \<open>
  The meter reset and replacement rule of \<open>internal/domain/energy/reset.go\<close>:
  \<open>Derive\<close> splits a window at the reset rows inside it, register by register, and either sums
  the segments or leaves the register suspect. The last section gives the rule without the loop
  (\<open>segment_consumption\<close> over \<open>segment_deltas\<close>) and shows that the code computes it.
\<close>

section \<open>Selecting the evidence\<close>

definition inEvidenceWindow :: "reading list \<Rightarrow> time \<Rightarrow> time \<Rightarrow> reading list" where
  "inEvidenceWindow resets startTS endTS = filter (\<lambda>r. startTS < TS r \<and> \<not> endTS < TS r) resets"

definition lastResetAt :: "reading list \<Rightarrow> time \<Rightarrow> reading option" where
  "lastResetAt resets ts =
     (let i = sort_Search (length resets) (\<lambda>i. ts < TS (resets ! i))
      in if i = 0 then None
         else let r = resets ! (i - 1) in if TS r \<noteq> ts then None else Some r)"

text \<open>The slice is returned as it is when every kind matches; otherwise the matching prefix is
  copied and the rest filtered.\<close>

definition filterKind :: "reading list \<Rightarrow> kind \<Rightarrow> reading list" where
  "filterKind readings k =
     (let same = (\<lambda>r. Kind r = k) in
      case dropWhile same readings of
        [] \<Rightarrow> readings
      | _ # rest \<Rightarrow> takeWhile same readings @ filter same rest)"

fun prior_loop :: "reading list \<Rightarrow> register \<Rightarrow> time \<Rightarrow> nat \<Rightarrow> dec option" where
  "prior_loop priors reg after 0 = None"
| "prior_loop priors reg after (Suc i) =
     (let candidate = priors ! i
      in if Kind candidate \<noteq> KindLoadProfile then prior_loop priors reg after i
         else if \<not> after < TS candidate then None
         else Value (Some candidate) reg)"

definition priorValueBefore :: "reading list \<Rightarrow> register \<Rightarrow> time \<Rightarrow> time \<Rightarrow> dec option" where
  "priorValueBefore priors reg after before =
     prior_loop priors reg after (sort_Search (length priors) (\<lambda>i. \<not> TS (priors ! i) < before))"

lemma filterKind_eq: "filterKind readings k = filter (\<lambda>r. Kind r = k) readings"
proof -
  let ?same = "\<lambda>r. Kind r = k"
  have split: "filter ?same readings = takeWhile ?same readings @ filter ?same (dropWhile ?same readings)"
    by (metis filter_True filter_append set_takeWhileD takeWhile_dropWhile_id)
  show ?thesis
  proof (cases "dropWhile ?same readings")
    case Nil
    then have "filter ?same readings = readings"
      by (metis dropWhile_eq_Nil_conv filter_True)
    with Nil show ?thesis by (simp only: filterKind_def Let_def list.simps)
  next
    case (Cons r rest)
    then have "\<not> ?same r" by (simp add: dropWhile_eq_Cons_conv)
    with Cons split show ?thesis by (simp add: filterKind_def Let_def)
  qed
qed

lemma prior_loop_eq:
  "i \<le> length priors \<Longrightarrow>
   prior_loop priors reg after i =
     (let cands = filter (\<lambda>r. Kind r = KindLoadProfile) (take i priors)
      in if cands = [] then None
         else if after < TS (last cands) then Values (last cands) reg else None)"
proof (induction i)
  case (Suc i)
  then have "take (Suc i) priors = take i priors @ [priors ! i]"
    by (simp add: take_Suc_conv_app_nth)
  with Suc show ?case by (simp add: Let_def)
qed simp

lemma priorValueBefore_eq:
  assumes "sorted (map TS priors)"
  shows "priorValueBefore priors reg after before =
    (let cands = filter (\<lambda>r. Kind r = KindLoadProfile) (filter (\<lambda>r. TS r < before) priors)
     in if cands = [] then None
        else if after < TS (last cands) then Values (last cands) reg else None)"
proof -
  note s = bs.search_key_ge [OF assms, of before]
  have le: "sort_Search (length priors) (\<lambda>i. \<not> TS (priors ! i) < before) \<le> length priors"
    unfolding s(1) by (rule length_filter_le)
  show ?thesis unfolding priorValueBefore_def prior_loop_eq [OF le] s(2) by (rule refl)
qed

lemma lastResetAt_None:
  assumes "sorted (map TS resets)"
  shows "lastResetAt resets ts = None \<longleftrightarrow> (\<forall>r \<in> set resets. TS r \<noteq> ts)"
proof -
  note s = bs.search_key_gt [OF assms, of ts]
  let ?n = "sort_Search (length resets) (\<lambda>i. ts < TS (resets ! i))"
  let ?before = "filter (\<lambda>r. TS r \<le> ts) resets"
  have last: "resets ! (?n - 1) = last ?before" if "0 < ?n"
    using nth_take_last [OF s(2) that s(1)] .
  show ?thesis
  proof (cases "?before = []")
    case True
    then show ?thesis using s(1) by (auto simp: lastResetAt_def filter_empty_conv)
  next
    case False
    then have n: "0 < ?n" using s(1) by simp
    have "lastResetAt resets ts = (if TS (last ?before) \<noteq> ts then None else Some (last ?before))"
      using n last by (simp add: lastResetAt_def Let_def)
    moreover have "TS r \<le> TS (last ?before)" if "r \<in> set ?before" for r
      by (rule sorted_last_max [OF sorted_filter [OF assms] that])
    moreover have "last ?before \<in> set ?before" using False by (rule last_in_set)
    ultimately show ?thesis by fastforce
  qed
qed

section \<open>One register\<close>

definition meter_reset :: "nat \<Rightarrow> dec option \<times> suspicion option" where
  "meter_reset rows = (None, Some \<lparr>Reason = ReasonMeterReset, Delta = None, ResetRows = rows\<rparr>)"

definition negative_delta :: "dec \<Rightarrow> nat \<Rightarrow> suspicion" where
  "negative_delta d rows = \<lparr>Reason = ReasonNegativeDelta, Delta = Some d, ResetRows = rows\<rparr>"

record segmentation =
  total :: dec
  segStart :: dec
  prevTS :: time
  negative :: "suspicion option"
  resetProblem :: bool

text \<open>
  The loop that refuses a reset row without the register (R93), giving the instants and values of
  the rows when none lacks it: after it the code dereferences these values.
\<close>

fun carried :: "register \<Rightarrow> reading list \<Rightarrow> (time \<times> dec) list option" where
  "carried reg [] = Some []"
| "carried reg (r # rs) =
     (case Value (Some r) reg of
        None \<Rightarrow> None
      | Some v \<Rightarrow> map_option ((#) (TS r, v)) (carried reg rs))"

text \<open>One iteration of the segmentation loop: the reset at \<open>ts\<close> whose own value is \<open>after\<close>.\<close>

definition segment_step ::
  "reading list \<Rightarrow> register \<Rightarrow> nat \<Rightarrow> time \<times> dec \<Rightarrow> segmentation \<Rightarrow> segmentation" where
  "segment_step priors reg resetRows r st =
     (case r of (ts, after) \<Rightarrow>
        case priorValueBefore priors reg (prevTS st) ts of
          None \<Rightarrow> st\<lparr>resetProblem := True, segStart := after, prevTS := ts\<rparr>
        | Some before \<Rightarrow>
            let delta = before - segStart st;
                st' =
                  (if delta < 0
                   then (if negative st = None
                         then st\<lparr>negative := Some (negative_delta delta resetRows)\<rparr> else st)
                   else if \<not> resetProblem st then st\<lparr>total := total st + delta\<rparr>
                   else st)
            in st'\<lparr>segStart := after, prevTS := ts\<rparr>)"

definition deriveRegister ::
  "register \<Rightarrow> reading \<Rightarrow> reading \<Rightarrow> reading list \<Rightarrow> reading option \<Rightarrow> reading list \<Rightarrow>
   dec option \<times> suspicion option" where
  "deriveRegister reg start stop windowResets startReset priors =
     (case (Value (Some start) reg, Value (Some stop) reg) of
        (Some startValue, Some endValue) \<Rightarrow>
          let inspected = (startReset \<noteq> None \<and> Kind start \<noteq> KindReset);
              resetRows = length windowResets + (if inspected then 1 else 0)
          in if inspected \<and> Value startReset reg \<noteq> Some startValue then meter_reset resetRows
             else (case carried reg windowResets of
               None \<Rightarrow> meter_reset resetRows
             | Some [] \<Rightarrow>
                 let delta = endValue - startValue
                 in if delta < 0 then (None, Some (negative_delta delta resetRows)) else (Some delta, None)
             | Some (r # rs) \<Rightarrow>
                 let regResets = r # rs;
                     st = fold (segment_step priors reg resetRows) regResets
                            \<lparr>total = 0, segStart = startValue, prevTS = TS start, negative = None,
                             resetProblem = False\<rparr>
                 in if resetProblem st then meter_reset resetRows
                    else if fst (last regResets) = TS stop \<and> Kind stop \<noteq> KindReset
                    then (if endValue \<noteq> segStart st then meter_reset resetRows
                          else if negative st \<noteq> None then (None, negative st)
                          else (Some (total st), None))
                    else
                      let finalDelta = endValue - segStart st;
                          neg = (if finalDelta < 0 \<and> negative st = None
                                 then Some (negative_delta finalDelta resetRows) else negative st)
                      in if neg \<noteq> None then (None, neg)
                         else (Some (total st + finalDelta), None))
      | _ \<Rightarrow> (None, None))"

section \<open>A whole window\<close>

definition Derive ::
  "window \<Rightarrow> reading option \<Rightarrow> reading option \<Rightarrow> reading list \<Rightarrow> reading list \<Rightarrow> derivation" where
  "Derive w start stop resets0 priors =
     (case (start, stop) of
        (Some s, Some e) \<Rightarrow>
          if TS s = TS e then no_row w
          else if TS e < TS s then no_row w
          else
            let d = (no_row w)\<lparr>Emitted := True,
                      Source := Some (if Kind e = KindReset then Kind s else Kind e)\<rparr>;
                resets = filterKind resets0 KindReset;
                inWindow = inEvidenceWindow resets (TS s) (TS e);
                atStart = lastResetAt resets (TS s);
                windowResets =
                  (if Kind e = KindReset \<and> lastResetAt resets (TS e) = None then inWindow @ [e] else inWindow);
                startReset = (if Kind s = KindReset \<and> atStart = None then Some s else atStart)
            in if length windowResets = 0 \<and> startReset = None
               then (let plain = Difference w start stop
                     in d\<lparr>d_Values := d_Values plain, Suspect := Suspect plain\<rparr>)
               else emit_registers d (\<lambda>reg. deriveRegister reg s e windowResets startReset priors)
      | _ \<Rightarrow> no_row w)"

section \<open>The rule without the loop\<close>

text \<open>
  The segments of a register: for each reset the last prior value before it minus the value the
  segment starts with, \<open>None\<close> when that prior value is missing; then the trailing segment, which
  is zero when the last reset sits at the end boundary and agrees with it, and \<open>None\<close> when it
  does not agree.
\<close>

fun segment_deltas :: "reading list \<Rightarrow> register \<Rightarrow> time \<Rightarrow> dec \<Rightarrow> (time \<times> dec) list \<Rightarrow> dec option list" where
  "segment_deltas priors reg prev start [] = []"
| "segment_deltas priors reg prev start ((ts, after) # rs) =
     map_option (\<lambda>before. before - start) (priorValueBefore priors reg prev ts) #
     segment_deltas priors reg ts after rs"

definition trailing_delta :: "reading \<Rightarrow> dec \<Rightarrow> time \<times> dec \<Rightarrow> dec option" where
  "trailing_delta stop endValue r =
     (if fst r = TS stop \<and> Kind stop \<noteq> KindReset
      then (if endValue = snd r then Some 0 else None)
      else Some (endValue - snd r))"

definition segment_consumption :: "nat \<Rightarrow> dec option list \<Rightarrow> dec option \<times> suspicion option" where
  "segment_consumption rows ds =
     (if None \<in> set ds then meter_reset rows
      else case filter (\<lambda>d. d < 0) (map the ds) of
        d # _ \<Rightarrow> (None, Some (negative_delta d rows))
      | [] \<Rightarrow> (Some (sum_list (map the ds)), None))"

text \<open>What the loop leaves in its variables.\<close>

lemma segment_loop:
  defines "neg \<equiv> \<lambda>d. d < (0 :: dec)"
  shows "let st' = fold (segment_step priors reg rows) rs st;
       ds = segment_deltas priors reg (prevTS st) (segStart st) rs
     in segStart st' = (if rs = [] then segStart st else snd (last rs)) \<and>
        (resetProblem st' \<longleftrightarrow> resetProblem st \<or> None \<in> set ds) \<and>
        (\<not> resetProblem st' \<longrightarrow>
           negative st' =
             (case negative st of
                Some n \<Rightarrow> Some n
              | None \<Rightarrow>
                  (case filter neg (map the ds) of [] \<Rightarrow> None | d # _ \<Rightarrow> Some (negative_delta d rows))) \<and>
           total st' = total st + sum_list (filter (Not \<circ> neg) (map the ds)))"
proof (induction rs arbitrary: st)
  case Nil
  show ?case by (simp split: option.splits)
next
  case (Cons r rs)
  obtain ts after where r: "r = (ts, after)" by (cases r)
  define s1 where "s1 = segment_step priors reg rows r st"
  have pos: "prevTS s1 = ts" "segStart s1 = after"
    by (simp_all add: s1_def segment_step_def r Let_def split: option.splits)
  note IH = Cons.IH [of s1, unfolded pos Let_def]
  show ?case
  proof (cases "priorValueBefore priors reg (prevTS st) ts")
    case None
    then have "resetProblem s1" by (simp add: s1_def segment_step_def r)
    with IH None show ?thesis by (auto simp: r Let_def s1_def [symmetric, unfolded r])
  next
    case (Some before)
    define d where "d = before - segStart st"
    have s1: "resetProblem s1 = resetProblem st"
      "negative s1 = (if neg d \<and> negative st = None then Some (negative_delta d rows) else negative st)"
      "\<not> resetProblem st \<Longrightarrow> total s1 = total st + (if neg d then 0 else d)"
      using Some by (auto simp: s1_def segment_step_def r Let_def d_def neg_def)
    show ?thesis
      using IH s1 unfolding Let_def r fold_Cons comp_apply segment_deltas.simps Some
        s1_def [symmetric, unfolded r]
      by (cases "neg d"; cases "negative st") (auto simp: d_def [symmetric])
  qed
qed

lemma filter_neg_Nil:
  "filter (\<lambda>d. d < 0) ds = [] \<Longrightarrow> filter (Not \<circ> (\<lambda>d. d < 0)) ds = ds" for ds :: "dec list"
  by (induction ds) (auto split: if_splits)

text \<open>The reset rows that take part in a window, and the deltas of a register over them.\<close>

definition register_deltas ::
  "register \<Rightarrow> reading \<Rightarrow> reading \<Rightarrow> dec \<Rightarrow> dec \<Rightarrow> (time \<times> dec) list \<Rightarrow> reading list \<Rightarrow> dec option list" where
  "register_deltas reg start stop startValue endValue rs priors =
     (if rs = [] then [Some (endValue - startValue)]
      else segment_deltas priors reg (TS start) startValue rs @ [trailing_delta stop endValue (last rs)])"

lemma segment_consumption_trailing:
  assumes "None \<notin> set ds"
  shows "segment_consumption rows (ds @ [t]) =
    (case t of
       None \<Rightarrow> meter_reset rows
     | Some x \<Rightarrow>
         (case filter (\<lambda>d. d < 0) (map the ds) of
            d # _ \<Rightarrow> (None, Some (negative_delta d rows))
          | [] \<Rightarrow> if x < 0 then (None, Some (negative_delta x rows))
                  else (Some (sum_list (map the ds) + x), None)))"
  using assms by (cases t) (auto simp: segment_consumption_def split: list.splits)

lemma trailing_cases:
  assumes "neg = (case ns of [] \<Rightarrow> None | d # _ \<Rightarrow> Some (negative_delta d rows))"
    and "ns = [] \<Longrightarrow> tot = S"
  shows "(if c then (if e \<noteq> v then meter_reset rows
             else if neg \<noteq> None then (None, neg)
             else (Some tot, None))
       else
         let finalDelta = e - v;
             neg' = (if finalDelta < 0 \<and> neg = None
                    then Some (negative_delta finalDelta rows) else neg)
         in if neg' \<noteq> None then (None, neg') else (Some (tot + finalDelta), None)) =
    (case (if c then (if e = v then Some 0 else None) else Some (e - v)) of
       None \<Rightarrow> meter_reset rows
     | Some x \<Rightarrow>
         (case ns of
            d # _ \<Rightarrow> (None, Some (negative_delta d rows))
          | [] \<Rightarrow> if x < 0 then (None, Some (negative_delta x rows)) else (Some (S + x), None)))"
  using assms by (cases ns) (auto simp: Let_def)

lemma deriveRegister_eq:
  fixes start stop :: reading and startReset :: "reading option" and windowResets :: "reading list"
  assumes "Values start reg = Some s" and "Values stop reg = Some e"
  defines "inspected \<equiv> startReset \<noteq> None \<and> Kind start \<noteq> KindReset"
  defines "rows \<equiv> length windowResets + (if inspected then 1 else 0)"
  shows "deriveRegister reg start stop windowResets startReset priors =
    (if inspected \<and> Value startReset reg \<noteq> Some s then meter_reset rows
     else case carried reg windowResets of
       None \<Rightarrow> meter_reset rows
     | Some rs \<Rightarrow> segment_consumption rows (register_deltas reg start stop s e rs priors))"
proof (cases "inspected \<and> Value startReset reg \<noteq> Some s \<or> carried reg windowResets = None
    \<or> carried reg windowResets = Some []")
  case True
  then show ?thesis
    using assms(1,2)
    unfolding deriveRegister_def Let_def inspected_def [symmetric] rows_def [symmetric]
    by (auto simp: segment_consumption_def register_deltas_def)
next
  case False
  then obtain l where l: "carried reg windowResets = Some l" "l \<noteq> []" by fastforce
  then obtain r rs where rs: "carried reg windowResets = Some (r # rs)" by (cases l) simp_all
  define st where "st = fold (segment_step priors reg rows) (r # rs)
     \<lparr>total = 0, segStart = s, prevTS = TS start, negative = None, resetProblem = False\<rparr>"
  define ds where "ds = segment_deltas priors reg (TS start) s (r # rs)"
  note loop = segment_loop [of priors reg rows "r # rs"
      "\<lparr>total = 0, segStart = s, prevTS = TS start, negative = None, resetProblem = False\<rparr>",
      unfolded Let_def st_def [symmetric] segmentation.simps ds_def [symmetric]]
  have code: "deriveRegister reg start stop windowResets startReset priors =
      (if resetProblem st then meter_reset rows
       else if fst (last (r # rs)) = TS stop \<and> Kind stop \<noteq> KindReset
       then (if e \<noteq> segStart st then meter_reset rows
             else if negative st \<noteq> None then (None, negative st)
             else (Some (total st), None))
       else
         let finalDelta = e - segStart st;
             neg = (if finalDelta < 0 \<and> negative st = None
                    then Some (negative_delta finalDelta rows) else negative st)
         in if neg \<noteq> None then (None, neg) else (Some (total st + finalDelta), None))"
    using False assms(1,2) rs
    unfolding deriveRegister_def Let_def inspected_def [symmetric] rows_def [symmetric] st_def
    by (simp only: Value_simps prod.case option.case list.case if_False de_Morgan_disj)
  have spec: "register_deltas reg start stop s e (r # rs) priors = ds @ [trailing_delta stop e (last (r # rs))]"
    by (simp add: register_deltas_def ds_def)
  have "deriveRegister reg start stop windowResets startReset priors =
      segment_consumption rows (ds @ [trailing_delta stop e (last (r # rs))])"
  proof (cases "None \<in> set ds")
    case True
    then show ?thesis using loop unfolding code by (simp add: segment_consumption_def)
  next
    case False
    then have ok: "\<not> resetProblem st" using loop by simp
    have last: "segStart st = snd (last (r # rs))" using loop by simp
    have neg: "negative st = (case filter (\<lambda>d. d < 0) (map the ds) of
        [] \<Rightarrow> None | d # _ \<Rightarrow> Some (negative_delta d rows))"
      and tot: "total st = 0 + sum_list (filter (Not \<circ> (\<lambda>d. d < 0)) (map the ds))"
      using conjunct2 [OF conjunct2 [OF loop]] ok by (simp_all only: option.case not_False_eq_True simp_thms)
    have "filter (\<lambda>d. d < 0) (map the ds) = [] \<Longrightarrow> total st = sum_list (map the ds)"
      using tot by (simp only: filter_neg_Nil add_0)
    then show ?thesis
      unfolding code segment_consumption_trailing [OF False] trailing_delta_def last if_not_P [OF ok]
      by (rule trailing_cases [OF neg])
  qed
  then show ?thesis using False rs spec by (simp del: filter_map) blast
qed

section \<open>A window, register by register\<close>

lemma sum_list_nonneg_filter: "filter (\<lambda>d. d < 0) ds = [] \<Longrightarrow> 0 \<le> sum_list ds" for ds :: "dec list"
  by (induction ds) (auto split: if_splits)

lemma segment_consumption_sound:
  "segment_consumption rows ds = (Some v, x) \<Longrightarrow> 0 \<le> v \<and> x = None"
  "segment_consumption rows ds = (None, x) \<Longrightarrow> x \<noteq> None"
  using sum_list_nonneg_filter [of "map the ds"]
  by (auto simp: segment_consumption_def meter_reset_def split: if_splits list.splits)

lemma deriveRegister_sound:
  "case deriveRegister reg start stop windowResets startReset priors of
     (Some v, s) \<Rightarrow> 0 \<le> v \<and> s = None \<and> Values start reg \<noteq> None \<and> Values stop reg \<noteq> None
   | (None, s) \<Rightarrow> s \<noteq> None \<longleftrightarrow> Values start reg \<noteq> None \<and> Values stop reg \<noteq> None"
proof (cases "Values start reg = None \<or> Values stop reg = None")
  case True
  then show ?thesis by (auto simp: deriveRegister_def split: option.splits)
next
  case False
  then obtain s e where "Values start reg = Some s" "Values stop reg = Some e" by auto
  then show ?thesis
    unfolding deriveRegister_eq [OF \<open>Values start reg = Some s\<close> \<open>Values stop reg = Some e\<close>]
    using False
    by (auto simp: meter_reset_def dest: segment_consumption_sound split: option.splits prod.splits if_splits)
qed

text \<open>The two sources of a row's values: the plain difference, or register by register.\<close>

lemma Derive_no_row: "\<not> (\<exists>s e. start = Some s \<and> stop = Some e \<and> TS s < TS e) \<Longrightarrow>
  Derive w start stop resets priors = no_row w"
  by (auto simp: Derive_def split: option.splits)

lemma Derive_row:
  assumes "TS s < TS e"
  shows "\<exists>src f. Derive w (Some s) (Some e) resets priors =
      emit_registers ((no_row w)\<lparr>Emitted := True, Source := Some src\<rparr>) f \<and>
    (f = difference_register s e \<or> (\<exists>wr sr. f = (\<lambda>reg. deriveRegister reg s e wr sr priors)))"
proof -
  have plain: "d\<lparr>d_Values := d_Values (Difference w (Some s) (Some e)),
      Suspect := Suspect (Difference w (Some s) (Some e))\<rparr> = emit_registers d (difference_register s e)" for d
    using assms by (simp add: Difference_rows emit_registers_def split: prod.splits)
  show ?thesis
    using assms unfolding Derive_def Let_def option.case prod.case plain
    by (simp split: if_split) blast
qed

section \<open>Properties\<close>

text \<open>C1. The segmentation loop of \<open>deriveRegister\<close> computes the rule of section 3.2: a register
  both boundaries report is meter-reset suspect when a start-side reset disagrees with the start
  value, when a reset row in the window lacks it, or when any segment has no before-reset value or
  the end is ambiguous; otherwise the first negative segment makes it negative-delta suspect; otherwise
  its consumption is the sum of the segments. A missing before-reset value wins over a negative
  segment wherever the two occur.\<close>

theorem deriveRegister_segments:
  "deriveRegister reg start stop windowResets startReset priors =
    (case (Values start reg, Values stop reg) of
       (Some s, Some e) \<Rightarrow>
         (let inspected = (startReset \<noteq> None \<and> Kind start \<noteq> KindReset);
              rows = length windowResets + (if inspected then 1 else 0)
          in if inspected \<and> Value startReset reg \<noteq> Some s then meter_reset rows
             else case carried reg windowResets of
               None \<Rightarrow> meter_reset rows
             | Some rs \<Rightarrow> segment_consumption rows (register_deltas reg start stop s e rs priors))
     | _ \<Rightarrow> (None, None))"
proof (cases "Values start reg = None \<or> Values stop reg = None")
  case True
  then show ?thesis by (auto simp: deriveRegister_def split: option.splits)
next
  case False
  then obtain s e where se: "Values start reg = Some s" "Values stop reg = Some e" by auto
  show ?thesis unfolding deriveRegister_eq [OF se] by (simp only: se option.case prod.case Let_def)
qed

text \<open>C5. A derived row never carries a negative consumption, a register with a value is never suspect, a
  register has a value or a suspicion exactly when the row is emitted and both boundaries report it,
  and no row at all is derived from a missing boundary or from boundaries that are not in strict
  time order.\<close>

theorem Derive_sound:
  fixes w start stop resets priors reg
  defines "d \<equiv> Derive w start stop resets priors"
  shows "(Emitted d \<longleftrightarrow> (\<exists>s e. start = Some s \<and> stop = Some e \<and> TS s < TS e)) \<and>
    (case derived d reg of None \<Rightarrow> True | Some v \<Rightarrow> 0 \<le> v \<and> suspicion_of d reg = None) \<and>
    ((derived d reg = None \<and> suspicion_of d reg = None) =
      (\<not> (Emitted d \<and> Value start reg \<noteq> None \<and> Value stop reg \<noteq> None)))"
proof (cases "\<exists>s e. start = Some s \<and> stop = Some e \<and> TS s < TS e")
  case False
  then have d: "d = no_row w" unfolding d_def by (rule Derive_no_row)
  show ?thesis using False unfolding d by (simp add: no_row_def derived_def suspicion_of_def)
next
  case True
  then obtain s e where se: "start = Some s" "stop = Some e" "TS s < TS e" by auto
  obtain src f where d: "d = emit_registers ((no_row w)\<lparr>Emitted := True, Source := Some src\<rparr>) f"
    and f: "f = difference_register s e \<or> (\<exists>wr sr. f = (\<lambda>reg. deriveRegister reg s e wr sr priors))"
    using Derive_row [OF se(3)] unfolding d_def se by blast
  have "case f reg of
      (Some v, x) \<Rightarrow> 0 \<le> v \<and> x = None \<and> Values s reg \<noteq> None \<and> Values e reg \<noteq> None
    | (None, x) \<Rightarrow> x \<noteq> None \<longleftrightarrow> Values s reg \<noteq> None \<and> Values e reg \<noteq> None"
    using f
  proof
    assume "f = difference_register s e"
    then show ?thesis by (auto simp: difference_register_def Let_def split: option.splits)
  next
    assume "\<exists>wr sr. f = (\<lambda>reg. deriveRegister reg s e wr sr priors)"
    then obtain wr sr where f: "f = (\<lambda>reg. deriveRegister reg s e wr sr priors)" by blast
    show ?thesis unfolding f by (rule deriveRegister_sound)
  qed
  then show ?thesis using se unfolding d by (cases "f reg") (auto split: option.splits)
qed

lemma segment_deltas_sum:
  assumes "None \<notin> set (segment_deltas priors reg prev s rs)" and "rs \<noteq> []"
  shows "sum_list (map the (segment_deltas priors reg prev s rs)) =
    snd (last rs) - s +
    sum_list (map2 (\<lambda>p r. the (priorValueBefore priors reg p (fst r)) - snd r) (prev # map fst rs) rs)"
  using assms
proof (induction rs arbitrary: prev s)
  case (Cons r rs)
  obtain ts after where r: "r = (ts, after)" by (cases r)
  from Cons.prems obtain b where b: "priorValueBefore priors reg prev ts = Some b"
    by (auto simp: r)
  show ?case
  proof (cases "rs = []")
    case True
    with b show ?thesis by (simp add: r)
  next
    case False
    with Cons.IH [of ts after] Cons.prems b show ?thesis by (simp add: r)
  qed
qed simp

text \<open>C6. A derived consumption accounts for every jump of the register: it is the difference of the boundary
  values plus, for each reset in the window, what the register lost there (the last prior value minus
  the reset row's own value).\<close>

theorem deriveRegister_conservation:
  assumes "deriveRegister reg start stop windowResets startReset priors = (Some v, susp)"
  shows "\<exists>s e rs. Values start reg = Some s \<and> Values stop reg = Some e \<and>
    carried reg windowResets = Some rs \<and>
    v = e - s + sum_list (map2 (\<lambda>p r. the (priorValueBefore priors reg p (fst r)) - snd r)
                            (TS start # map fst rs) rs)"
proof -
  from assms obtain s e where se: "Values start reg = Some s" "Values stop reg = Some e"
    by (auto simp: deriveRegister_def split: option.splits)
  then obtain rs rows where rs: "carried reg windowResets = Some rs"
    and v: "segment_consumption rows (register_deltas reg start stop s e rs priors) = (Some v, susp)"
    using assms by (auto simp: deriveRegister_eq meter_reset_def split: if_splits option.splits)
  let ?ds = "register_deltas reg start stop s e rs priors"
  have ok: "None \<notin> set ?ds" and sum: "v = sum_list (map the ?ds)"
    using v by (auto simp: segment_consumption_def meter_reset_def split: if_splits list.splits)
  have "sum_list (map the ?ds) = e - s +
      sum_list (map2 (\<lambda>p r. the (priorValueBefore priors reg p (fst r)) - snd r) (TS start # map fst rs) rs)"
  proof (cases "rs = []")
    case True
    then show ?thesis by (simp add: register_deltas_def)
  next
    case False
    with ok have seg: "None \<notin> set (segment_deltas priors reg (TS start) s rs)"
      and tr: "trailing_delta stop e (last rs) \<noteq> None"
      by (cases "trailing_delta stop e (last rs)"; simp add: register_deltas_def)+
    have "the (trailing_delta stop e (last rs)) = e - snd (last rs)"
      using tr by (auto simp: trailing_delta_def split: if_splits)
    then show ?thesis
      using False segment_deltas_sum [OF seg False] by (simp add: register_deltas_def)
  qed
  with se rs sum show ?thesis by blast
qed

definition sample_reading :: "time \<Rightarrow> kind \<Rightarrow> dec \<Rightarrow> reading" where
  "sample_reading t k v = \<lparr>TS = t, Kind = k, Values = [ActiveImport \<mapsto> v], MaxDemandKw = None\<rparr>"

theorem deriveRegister_conservation_witness:
  "\<exists>rs. carried ActiveImport [sample_reading 50 KindReset 0] = Some rs \<and>
     (45 :: dec) = 30 - 100 + sum_list (map2 (\<lambda>p r.
        the (priorValueBefore [sample_reading 40 KindLoadProfile 115] ActiveImport p (fst r)) - snd r)
        (10 # map fst rs) rs)"
proof -
  have "deriveRegister ActiveImport (sample_reading 10 KindLoadProfile 100) (sample_reading 90 KindLoadProfile 30)
      [sample_reading 50 KindReset 0] None [sample_reading 40 KindLoadProfile 115] = (Some 45, None)"
    by (simp add: deriveRegister_def sample_reading_def segment_step_def priorValueBefore_def
        sort_Search_def search_loop.simps Let_def)
  from deriveRegister_conservation [OF this] show ?thesis by (simp add: sample_reading_def)
qed

text \<open>Without reset evidence the reset rule is the plain difference: when no reset row lies between the
  two boundary instants, inclusive, and neither boundary is a reset row, \<open>Derive\<close> gives exactly
  the derivation of \<open>Difference\<close>, whatever the priors.\<close>

theorem Derive_no_evidence:
  assumes "sorted (map TS resets)"
    and "\<forall>r \<in> set resets. Kind r = KindReset \<longrightarrow> TS r < TS s \<or> TS e < TS r"
    and "Kind s \<noteq> KindReset" and "Kind e \<noteq> KindReset"
  shows "Derive w (Some s) (Some e) resets priors = Difference w (Some s) (Some e)"
proof (cases "TS s < TS e")
  case False
  then show ?thesis by (auto simp: Derive_def Difference_def)
next
  case True
  have "lastResetAt (filterKind resets KindReset) (TS s) = None"
    using assms(1,2) True by (subst lastResetAt_None) (auto simp: filterKind_eq sorted_filter)
  moreover have "inEvidenceWindow (filterKind resets KindReset) (TS s) (TS e) = []"
    using assms(2) by (auto simp: inEvidenceWindow_def filterKind_eq filter_empty_conv)
  ultimately show ?thesis
    using True assms(3,4) by (simp add: Derive_def Let_def Difference_rows no_row_def emit_registers_def split: prod.splits)
qed

theorem Derive_no_evidence_witness:
  "Derive \<lparr>From = 10, To = 90\<rparr> (Some (sample_reading 10 KindLoadProfile 100)) (Some (sample_reading 90 KindDaily 130))
     [sample_reading 5 KindReset 0] [] =
   Difference \<lparr>From = 10, To = 90\<rparr> (Some (sample_reading 10 KindLoadProfile 100)) (Some (sample_reading 90 KindDaily 130))"
  by (rule Derive_no_evidence) (simp_all add: sample_reading_def)

end
