(* ===== verification/Energy_Period.thy ===== *)
theory Energy_Period
  imports Energy
begin

text \<open>
  The aggregation buckets of \<open>internal/domain/energy/period.go\<close>. Hourly buckets are UTC hours;
  daily, monthly and yearly ones are built from the wall-clock date in the location. The contract of a
  bucket function (\<open>bucketing\<close>: it contains its instant and the next bucket starts where it
  ends) is a locale; every level is an interpretation of it, the calendar levels for a location of
  fixed offset, which Istanbul has been since September 2016. At a zone transition the code follows
  \<open>time.Date\<close>, which \<open>midnight\<close> models; the example at the end is a 23-hour day.
\<close>

section \<open>Bucket and Buckets\<close>

definition Bucket :: "level \<Rightarrow> time \<Rightarrow> location \<Rightarrow> window" where
  "Bucket level ts loc =
     (if level = Hourly
      then (let from = Truncate ts hour in \<lparr>From = from, To = from + hour\<rparr>)
      else
        case date_in loc ts of (year, month, day) \<Rightarrow>
          (case level of
             Daily \<Rightarrow> \<lparr>From = midnight year month day loc, To = midnight year month (day + 1) loc\<rparr>
           | Monthly \<Rightarrow> \<lparr>From = midnight year month 1 loc, To = midnight year (month + 1) 1 loc\<rparr>
           | Yearly \<Rightarrow> \<lparr>From = midnight year 1 1 loc, To = midnight (year + 1) 1 1 loc\<rparr>
           | _ \<Rightarrow> \<lparr>From = zero_time, To = zero_time\<rparr>))"

text \<open>The loop of \<open>Buckets\<close>, over the bucket function of its level and location. It stops also
  when a step fails to advance.\<close>

function bucket_walk :: "(time \<Rightarrow> window) \<Rightarrow> window \<Rightarrow> window \<Rightarrow> window list" where
  "bucket_walk bucket w cur =
     (if From cur < To w
      then cur # (let next = bucket (To cur)
                  in if \<not> From cur < From next then [] else bucket_walk bucket w next)
      else [])"
  by pat_completeness auto
termination
  by (relation "measure (\<lambda>(bucket, w, cur). nat (To w - From cur))") auto

declare bucket_walk.simps [simp del]

definition Buckets :: "level \<Rightarrow> window \<Rightarrow> location \<Rightarrow> window list" where
  "Buckets level w loc =
     (if \<not> Valid w then []
      else let cur = Bucket level (From w) loc
           in if \<not> Valid cur then []
              else bucket_walk (\<lambda>ts. Bucket level ts loc) w cur)"

section \<open>The contract of a bucket function\<close>

fun contiguous :: "window list \<Rightarrow> bool" where
  "contiguous (a # b # ws) = (To a = From b \<and> contiguous (b # ws))"
| "contiguous _ = True"

locale bucketing =
  fixes bucket :: "time \<Rightarrow> window"
  assumes contains: "From (bucket t) \<le> t" "t < To (bucket t)"
    and next_start: "From (bucket (To (bucket t))) = To (bucket t)"

context bucketing begin

lemma walk_cases:
  "bucket_walk bucket w (bucket t) =
     (if From (bucket t) < To w then bucket t # bucket_walk bucket w (bucket (To (bucket t))) else [])"
proof -
  have "From (bucket t) < From (bucket (To (bucket t)))"
    using contains [of t] by (simp add: next_start)
  then show ?thesis by (subst bucket_walk.simps) (simp add: Let_def)
qed

lemma walk_hd: "bucket_walk bucket w (bucket t) \<noteq> [] \<Longrightarrow> hd (bucket_walk bucket w (bucket t)) = bucket t"
  by (subst walk_cases) (simp add: walk_cases split: if_splits)

lemma walk_spec:
  shows "contiguous (bucket_walk bucket w (bucket t)) \<and>
    (\<forall>b \<in> set (bucket_walk bucket w (bucket t)). Valid b \<and> From b < To w) \<and>
    (\<forall>x. From (bucket t) \<le> x \<longrightarrow> x < To w \<longrightarrow>
      (\<exists>b \<in> set (bucket_walk bucket w (bucket t)). Contains b x))"
proof (induction "nat (To w - From (bucket t))" arbitrary: t rule: less_induct)
  case less
  show ?case
  proof (cases "From (bucket t) < To w")
    case False
    then have "bucket_walk bucket w (bucket t) = []" by (simp add: walk_cases [of w t])
    with False show ?thesis by simp
  next
    case True
    let ?t = "To (bucket t)"
    let ?rest = "bucket_walk bucket w (bucket ?t)"
    have walk: "bucket_walk bucket w (bucket t) = bucket t # ?rest"
      using True by (simp add: walk_cases [of w t])
    have adv: "From (bucket t) < To (bucket t)" using contains [of t] by simp
    with True have "nat (To w - From (bucket ?t)) < nat (To w - From (bucket t))"
      by (simp add: next_start)
    note IH = less [OF this]
    have "contiguous (bucket t # ?rest)"
      using IH walk_hd [of w ?t] next_start [of t] by (cases ?rest) auto
    moreover have "\<exists>b \<in> set (bucket t # ?rest). Contains b x"
      if "From (bucket t) \<le> x" "x < To w" for x
    proof (cases "x < To (bucket t)")
      case True
      with that show ?thesis by (auto simp: Contains_def)
    next
      case False
      with IH that show ?thesis by (auto simp: next_start not_less)
    qed
    ultimately show ?thesis
      using IH True adv unfolding walk by (auto simp: Valid_def)
  qed
qed

end

text \<open>An increasing run of windows holds an instant at most once.\<close>

lemma contiguous_le:
  "contiguous (a # ws) \<Longrightarrow> (\<forall>b \<in> set (a # ws). Valid b) \<Longrightarrow> b \<in> set ws \<Longrightarrow> To a \<le> From b"
proof (induction ws arbitrary: a)
  case (Cons c ws)
  from Cons.prems have c: "contiguous (c # ws)" "To a = From c" "From c < To c"
    by (simp_all add: Valid_def)
  show ?case
  proof (cases "b = c")
    case False
    with Cons.IH [OF c(1)] Cons.prems have "To c \<le> From b" by simp
    with c show ?thesis by simp
  qed (simp add: c)
qed simp

lemma contiguous_disjoint:
  assumes "contiguous ws" and "\<forall>b \<in> set ws. Valid b" and "i < j" and "j < length ws"
  shows "To (ws ! i) \<le> From (ws ! j)"
  using assms
proof (induction ws arbitrary: i j)
  case (Cons a ws)
  have ws: "contiguous ws" using Cons.prems(1) by (cases ws) auto
  show ?case
  proof (cases i)
    case 0
    with Cons.prems contiguous_le [of a ws "ws ! (j - 1)"] show ?thesis
      by (auto simp: nth_Cons')
  next
    case (Suc i')
    with Cons.IH [OF ws, of i' "j - 1"] Cons.prems show ?thesis by (auto simp: nth_Cons')
  qed
qed simp

section \<open>Every level keeps the contract\<close>

interpretation hourly: bucketing "\<lambda>t. Bucket Hourly t loc" for loc
proof unfold_locales
  fix t
  have c: "Truncate (Truncate t hour + hour) hour = Truncate t hour + hour"
    using Truncate_hour_idem [of t 1] by simp
  show "From (Bucket Hourly t loc) \<le> t" "t < To (Bucket Hourly t loc)"
    "From (Bucket Hourly (To (Bucket Hourly t loc)) loc) = To (Bucket Hourly t loc)"
    using Truncate_hour_le [of t] c by (simp_all add: Bucket_def Let_def)
qed

definition fixed_start :: "int \<Rightarrow> int \<Rightarrow> time" where
  "fixed_start off n = (n * 86400 - off) * ns_per_sec"

lemma fixed_start_mono: "fixed_start off m \<le> fixed_start off n \<longleftrightarrow> m \<le> n"
  by (simp add: fixed_start_def ns_per_sec_def)

lemma fixed_start_local_day:
  "n \<le> local_day (fixed_zone off) t \<Longrightarrow> fixed_start off n \<le> t"
  "local_day (fixed_zone off) t < n \<Longrightarrow> t < fixed_start off n"
proof -
  let ?d = "local_day (fixed_zone off) t"
  have d: "fixed_start off ?d \<le> t" "t < fixed_start off (?d + 1)"
    using local_day_fixed [where off = off and t = t] by (simp_all add: fixed_start_def)
  show "n \<le> ?d \<Longrightarrow> fixed_start off n \<le> t"
    using d(1) fixed_start_mono [of off n ?d] by linarith
  show "?d < n \<Longrightarrow> t < fixed_start off n"
    using d(2) fixed_start_mono [of off "?d + 1" n] by linarith
qed

lemma date_in_fixed_start: "date_in (fixed_zone off) (fixed_start off n) = civil_from_days n"
  by (simp add: date_in_def fixed_start_def)

lemma midnight_start: "midnight y m d (fixed_zone off) = fixed_start off (days_from_civil y m d)"
  by (simp add: midnight_fixed fixed_start_def)

lemma first_of_month_valid: "1 \<le> m \<Longrightarrow> m \<le> 12 \<Longrightarrow> valid_civil y m 1"
  using month_len_range [of m y] by (simp add: valid_civil_def)

lemma civil_next_month:
  assumes "1 \<le> m" and "m \<le> 12"
  obtains y' m' where "civil_from_days (days_from_civil y (m + 1) 1) = (y', m', 1)"
    and "days_from_civil y' m' 1 = days_from_civil y (m + 1) 1"
proof -
  define y' m' where "y' = y + m div 12" and "m' = m mod 12 + 1"
  have m': "1 \<le> m'" "m' \<le> 12" unfolding m'_def by simp_all
  have e: "days_from_civil y' m' 1 = days_from_civil y (m + 1) 1"
    using m' unfolding days_from_civil_plain [OF m'] by (simp add: days_from_civil_def Let_def y'_def m'_def)
  from civil_days_civil [OF first_of_month_valid [OF m', of y']] e
  have "civil_from_days (days_from_civil y (m + 1) 1) = (y', m', 1)" by simp
  with e show ?thesis by (rule that [rotated])
qed

lemma calendar_day:
  assumes "date_in (fixed_zone off) t = (y, m, d)"
  shows "1 \<le> m" "m \<le> 12"
    and "days_from_civil y m 1 \<le> local_day (fixed_zone off) t"
    and "local_day (fixed_zone off) t < days_from_civil y (m + 1) 1"
    and "days_from_civil y 1 1 \<le> local_day (fixed_zone off) t"
    and "local_day (fixed_zone off) t < days_from_civil (y + 1) 1 1"
proof -
  from date_in_valid [OF assms] have v: "1 \<le> m" "m \<le> 12" "1 \<le> d" "d \<le> month_len y m"
    by (simp_all add: valid_civil_def)
  have n: "local_day (fixed_zone off) t = days_from_civil y m 1 + (d - 1)"
    using date_in_days [OF assms] days_from_civil_day [of y m 1 "d - 1"] by simp
  show "1 \<le> m" "m \<le> 12" by (fact v)+
  show "days_from_civil y m 1 \<le> local_day (fixed_zone off) t" using n v by simp
  show next_m: "local_day (fixed_zone off) t < days_from_civil y (m + 1) 1"
    using n v by (simp add: days_from_civil_next_month)
  have r: "0 \<le> days_before_month (is_leap y) m"
    "days_before_month (is_leap y) m + (d - 1) < (if is_leap y then 366 else 365)"
    using days_before_month_range [OF v(1,2), of "is_leap y"] v by (auto simp: month_len_def)
  show "days_from_civil y 1 1 \<le> local_day (fixed_zone off) t"
    "local_day (fixed_zone off) t < days_from_civil (y + 1) 1 1"
    using n v r by (simp_all add: days_from_civil_plain days_before_year_Suc days_before_month_def [of _ 1])
qed

interpretation daily: bucketing "\<lambda>t. Bucket Daily t (fixed_zone off)" for off
proof unfold_locales
  fix t
  obtain y m d where ymd: "date_in (fixed_zone off) t = (y, m, d)" by (cases "date_in (fixed_zone off) t")
  let ?n = "local_day (fixed_zone off) t"
  have b: "Bucket Daily t (fixed_zone off) = \<lparr>From = fixed_start off ?n, To = fixed_start off (?n + 1)\<rparr>"
    using ymd date_in_days [OF ymd] by (simp add: Bucket_def midnight_start days_from_civil_day)
  show "From (Bucket Daily t (fixed_zone off)) \<le> t" "t < To (Bucket Daily t (fixed_zone off))"
    unfolding b by (simp_all add: fixed_start_local_day)
  obtain y' m' d' where c: "civil_from_days (?n + 1) = (y', m', d')" by (cases "civil_from_days (?n + 1)")
  show "From (Bucket Daily (To (Bucket Daily t (fixed_zone off))) (fixed_zone off)) =
      To (Bucket Daily t (fixed_zone off))"
    unfolding b using civil_from_days_valid(2) [OF c]
    by (simp add: Bucket_def date_in_fixed_start c midnight_start)
qed

interpretation monthly: bucketing "\<lambda>t. Bucket Monthly t (fixed_zone off)" for off
proof unfold_locales
  fix t
  obtain y m d where ymd: "date_in (fixed_zone off) t = (y, m, d)" by (cases "date_in (fixed_zone off) t")
  note cal = calendar_day [OF ymd]
  have b: "Bucket Monthly t (fixed_zone off) =
      \<lparr>From = fixed_start off (days_from_civil y m 1), To = fixed_start off (days_from_civil y (m + 1) 1)\<rparr>"
    using ymd by (simp add: Bucket_def midnight_start)
  show "From (Bucket Monthly t (fixed_zone off)) \<le> t" "t < To (Bucket Monthly t (fixed_zone off))"
    unfolding b using cal by (simp_all add: fixed_start_local_day)
  obtain y' m' where c: "civil_from_days (days_from_civil y (m + 1) 1) = (y', m', 1)"
    and e: "days_from_civil y' m' 1 = days_from_civil y (m + 1) 1"
    using cal(1,2) by (rule civil_next_month)
  show "From (Bucket Monthly (To (Bucket Monthly t (fixed_zone off))) (fixed_zone off)) =
      To (Bucket Monthly t (fixed_zone off))"
    unfolding b by (simp add: Bucket_def date_in_fixed_start c midnight_start e)
qed

interpretation yearly: bucketing "\<lambda>t. Bucket Yearly t (fixed_zone off)" for off
proof unfold_locales
  fix t
  obtain y m d where ymd: "date_in (fixed_zone off) t = (y, m, d)" by (cases "date_in (fixed_zone off) t")
  note cal = calendar_day [OF ymd]
  have b: "Bucket Yearly t (fixed_zone off) =
      \<lparr>From = fixed_start off (days_from_civil y 1 1), To = fixed_start off (days_from_civil (y + 1) 1 1)\<rparr>"
    using ymd by (simp add: Bucket_def midnight_start)
  show "From (Bucket Yearly t (fixed_zone off)) \<le> t" "t < To (Bucket Yearly t (fixed_zone off))"
    unfolding b using cal by (simp_all add: fixed_start_local_day)
  have c: "civil_from_days (days_from_civil (y + 1) 1 1) = (y + 1, 1, 1)"
    by (rule civil_days_civil) (simp add: first_of_month_valid)
  show "From (Bucket Yearly (To (Bucket Yearly t (fixed_zone off))) (fixed_zone off)) =
      To (Bucket Yearly t (fixed_zone off))"
    unfolding b by (simp add: Bucket_def date_in_fixed_start c midnight_start)
qed

lemma level_bucketing:
  assumes "\<forall>s. level \<noteq> LevelOther s"
  shows "bucketing (\<lambda>t. Bucket level t (fixed_zone off))"
  using assms hourly.bucketing_axioms [of "fixed_zone off"] daily.bucketing_axioms [of off]
    monthly.bucketing_axioms [of off] yearly.bucketing_axioms [of off]
  by (cases level) simp_all

section \<open>Properties\<close>

text \<open>For each of the four levels and a location of fixed offset, the buckets of a valid window are
  non-empty windows in ascending order, each starting where the previous one ends, all starting before
  the window's end, and every instant of the window lies in exactly one of them. The loop ends for
  every input.\<close>

theorem Buckets_tile:
  fixes off :: int
  assumes "\<forall>s. level \<noteq> LevelOther s" and "Valid w"
  defines "bs \<equiv> Buckets level w (fixed_zone off)"
  shows "contiguous bs \<and>
    (\<forall>b \<in> set bs. Valid b \<and> From b < To w) \<and>
    (\<forall>x. Contains w x \<longrightarrow> (\<exists>!i. i < length bs \<and> Contains (bs ! i) x))"
proof -
  have part1: "contiguous bs"
    and part2: "\<forall>b \<in> set bs. Valid b \<and> From b < To w"
    and part3: "\<forall>x. Contains w x \<longrightarrow> (\<exists>!i. i < length bs \<and> Contains (bs ! i) x)"
  proof -
    note law = level_bucketing [OF assms(1), of off]
    note contains = bucketing.contains [OF law]
    let ?cur = "Bucket level (From w) (fixed_zone off)"
    have "Valid ?cur" using contains [of "From w"] by (simp add: Valid_def)
    then have bs: "bs = bucket_walk (\<lambda>t. Bucket level t (fixed_zone off)) w ?cur"
      using assms(2) by (simp add: bs_def Buckets_def Let_def)
    note spec = bucketing.walk_spec [OF law, of w "From w", folded bs]
    show "contiguous bs" and valid: "\<forall>b \<in> set bs. Valid b \<and> From b < To w" using spec by blast+
    show "\<forall>x. Contains w x \<longrightarrow> (\<exists>!i. i < length bs \<and> Contains (bs ! i) x)"
    proof (intro allI impI)
      fix x assume "Contains w x"
      then have "From ?cur \<le> x" "x < To w" using contains [of "From w"] by (auto simp: Contains_def)
      then obtain b where "b \<in> set bs" "Contains b x" using spec by blast
      then obtain i where i: "i < length bs" "Contains (bs ! i) x" by (auto simp: in_set_conv_nth)
      have "j = i" if "j < length bs" "Contains (bs ! j) x" for j
        using contiguous_disjoint [of bs i j] contiguous_disjoint [of bs j i] spec valid that i
        by (cases i j rule: linorder_cases) (auto simp: Contains_def)
      with i show "\<exists>!i. i < length bs \<and> Contains (bs ! i) x" by blast
    qed
  qed
  show ?thesis by (rule conjI [OF part1 conjI [OF part2 part3]])
qed

theorem Buckets_tile_witness:
  "let w = \<lparr>From = 0, To = 3 * 86400 * ns_per_sec\<rparr>; bs = Buckets Daily w (fixed_zone 10800)
   in contiguous bs \<and> (\<forall>b \<in> set bs. Valid b \<and> From b < To w) \<and>
      (\<forall>x. Contains w x \<longrightarrow> (\<exists>!i. i < length bs \<and> Contains (bs ! i) x))"
  unfolding Let_def
  by (intro conjI Buckets_tile) (simp_all add: Valid_def ns_per_sec_def)

text \<open>The daily bucket of the day of a transition is 23 hours long.\<close>

lemma Bucket_spring_forward:
  "Bucket Daily (1459065600 * ns_per_sec) istanbul_2016 =
     \<lparr>From = 1459029600 * ns_per_sec, To = (1459029600 + 23 * 3600) * ns_per_sec\<rparr>"
  by code_simp

end
