(* ===== verification/Model_Types.thy ===== *)
theory Model_Types
  imports Go_Time "HOL-Library.Word" "HOL-Library.Char_ord" "HOL-Library.List_Lexorder"
begin

text \<open>
  Package \<open>internal/domain/model\<close>: the enumerations of \<open>enums.go\<close> and the records the
  domain packages compute with (\<open>tariffs.go\<close>, \<open>billing_parameters.go\<close>,
  \<open>bills.go\<close>).

  A Go enumeration is a string type with declared constants, so a value may be any other string.
  Each enumeration is a datatype with the declared constants as constructors and one constructor
  \<open>Other\<close> for the strings that are none of them (it is never applied to the text of a declared
  constant). A pointer is an option; an identifier (\<open>uuid.UUID\<close>) is a number with
  \<open>uuid.Nil\<close> as 0; a field of raw JSON is a string.
\<close>

section \<open>Identifiers and the shared membership test\<close>

type_synonym uuid = nat

abbreviation (input) uuid_Nil :: uuid where "uuid_Nil \<equiv> 0"

fun contains :: "'a list \<Rightarrow> 'a \<Rightarrow> bool" where
  "contains [] needle = False"
| "contains (v # haystack) needle = (if v = needle then True else contains haystack needle)"

lemma contains_iff [simp]: "contains xs x \<longleftrightarrow> x \<in> set xs"
  by (induction xs) auto

section \<open>Enumerations (enums.go)\<close>

datatype user_role =
    UserRoleAdmin
  | UserRoleCompanyAdmin
  | UserRoleCompanyReadonlyAdmin
  | UserRoleBuildingAdmin
  | UserRoleBuildingReadonlyAdmin
  | UserRoleDemo
  | UserRoleOther string

definition UserRoles :: "user_role list" where
  "UserRoles =
     [UserRoleAdmin,
      UserRoleCompanyAdmin,
      UserRoleCompanyReadonlyAdmin,
      UserRoleBuildingAdmin,
      UserRoleBuildingReadonlyAdmin,
      UserRoleDemo]"

definition UserRole_Valid :: "user_role \<Rightarrow> bool" where
  "UserRole_Valid x = contains UserRoles x"

datatype integration_provider =
    IntegrationProviderOSOS
  | IntegrationProviderGridbox
  | IntegrationProviderARIL
  | IntegrationProviderPM5340
  | IntegrationProviderISolar
  | IntegrationProviderOther string

definition IntegrationProviders :: "integration_provider list" where
  "IntegrationProviders =
     [IntegrationProviderOSOS,
      IntegrationProviderGridbox,
      IntegrationProviderARIL,
      IntegrationProviderPM5340,
      IntegrationProviderISolar]"

definition IntegrationProvider_Valid :: "integration_provider \<Rightarrow> bool" where
  "IntegrationProvider_Valid x = contains IntegrationProviders x"

datatype panel_orientation =
    PanelOrientationN
  | PanelOrientationS
  | PanelOrientationE
  | PanelOrientationW
  | PanelOrientationNE
  | PanelOrientationSE
  | PanelOrientationNW
  | PanelOrientationSW
  | PanelOrientationOther string

definition PanelOrientations :: "panel_orientation list" where
  "PanelOrientations =
     [PanelOrientationN,
      PanelOrientationS,
      PanelOrientationE,
      PanelOrientationW,
      PanelOrientationNE,
      PanelOrientationSE,
      PanelOrientationNW,
      PanelOrientationSW]"

definition PanelOrientation_Valid :: "panel_orientation \<Rightarrow> bool" where
  "PanelOrientation_Valid x = contains PanelOrientations x"

datatype reading_kind =
    ReadingKindLoadProfile
  | ReadingKindDaily
  | ReadingKindBilling
  | ReadingKindReset
  | ReadingKindCurrentIndex
  | ReadingKindOther string

definition ReadingKinds :: "reading_kind list" where
  "ReadingKinds =
     [ReadingKindLoadProfile,
      ReadingKindDaily,
      ReadingKindBilling,
      ReadingKindReset,
      ReadingKindCurrentIndex]"

definition ReadingKind_Valid :: "reading_kind \<Rightarrow> bool" where
  "ReadingKind_Valid x = contains ReadingKinds x"

datatype price_type =
    PriceTypeSingleTime
  | PriceTypeMultiTime
  | PriceTypeOther string

definition PriceTypes :: "price_type list" where
  "PriceTypes =
     [PriceTypeSingleTime, PriceTypeMultiTime]"

definition PriceType_Valid :: "price_type \<Rightarrow> bool" where
  "PriceType_Valid x = contains PriceTypes x"

datatype tariff_term =
    TariffTermMonomial
  | TariffTermBinomial
  | TariffTermOther string

definition TariffTerms :: "tariff_term list" where
  "TariffTerms =
     [TariffTermMonomial, TariffTermBinomial]"

definition TariffTerm_Valid :: "tariff_term \<Rightarrow> bool" where
  "TariffTerm_Valid x = contains TariffTerms x"

datatype energy_type =
    EnergyTypeGrid
  | EnergyTypeGreen
  | EnergyTypeOther string

definition EnergyTypes :: "energy_type list" where
  "EnergyTypes =
     [EnergyTypeGrid, EnergyTypeGreen]"

definition EnergyType_Valid :: "energy_type \<Rightarrow> bool" where
  "EnergyType_Valid x = contains EnergyTypes x"

datatype voltage_level =
    VoltageLevelLV
  | VoltageLevelMV
  | VoltageLevelOther string

definition VoltageLevels :: "voltage_level list" where
  "VoltageLevels =
     [VoltageLevelLV, VoltageLevelMV]"

definition VoltageLevel_Valid :: "voltage_level \<Rightarrow> bool" where
  "VoltageLevel_Valid x = contains VoltageLevels x"

datatype supply_company =
    SupplyCompanyIncumbent
  | SupplyCompanyPrivate
  | SupplyCompanyOther string

definition SupplyCompanies :: "supply_company list" where
  "SupplyCompanies =
     [SupplyCompanyIncumbent, SupplyCompanyPrivate]"

definition SupplyCompany_Valid :: "supply_company \<Rightarrow> bool" where
  "SupplyCompany_Valid x = contains SupplyCompanies x"

datatype generation_usage =
    GenerationUsageNone
  | GenerationUsageSubtractFromConsumption
  | GenerationUsageSubtractFromTotal
  | GenerationUsageOther string

definition GenerationUsages :: "generation_usage list" where
  "GenerationUsages =
     [GenerationUsageNone,
      GenerationUsageSubtractFromConsumption,
      GenerationUsageSubtractFromTotal]"

definition GenerationUsage_Valid :: "generation_usage \<Rightarrow> bool" where
  "GenerationUsage_Valid x = contains GenerationUsages x"

datatype currency_code =
    CurrencyTRY
  | CurrencyUSD
  | CurrencyEUR
  | CurrencyCodeOther string

definition CurrencyCodes :: "currency_code list" where
  "CurrencyCodes =
     [CurrencyTRY, CurrencyUSD, CurrencyEUR]"

definition CurrencyCode_Valid :: "currency_code \<Rightarrow> bool" where
  "CurrencyCode_Valid x = contains CurrencyCodes x"

datatype distribution_user_group =
    UserGroupResidential
  | UserGroupResidentialPlus
  | UserGroupCommercial
  | UserGroupCommercialPlus
  | UserGroupIndustrial
  | UserGroupAgricultural
  | UserGroupLighting
  | UserGroupMartyrsFamilies
  | UserGroupPublicLighting
  | DistributionUserGroupOther string

definition DistributionUserGroups :: "distribution_user_group list" where
  "DistributionUserGroups =
     [UserGroupResidential,
      UserGroupResidentialPlus,
      UserGroupCommercial,
      UserGroupCommercialPlus,
      UserGroupIndustrial,
      UserGroupAgricultural,
      UserGroupLighting,
      UserGroupMartyrsFamilies,
      UserGroupPublicLighting]"

definition DistributionUserGroup_Valid :: "distribution_user_group \<Rightarrow> bool" where
  "DistributionUserGroup_Valid x = contains DistributionUserGroups x"

datatype carbon_scope =
    CarbonScope1
  | CarbonScope2
  | CarbonScope3
  | CarbonScopeOther string

definition CarbonScopes :: "carbon_scope list" where
  "CarbonScopes =
     [CarbonScope1, CarbonScope2, CarbonScope3]"

definition CarbonScope_Valid :: "carbon_scope \<Rightarrow> bool" where
  "CarbonScope_Valid x = contains CarbonScopes x"

datatype carbon_status =
    CarbonStatusPending
  | CarbonStatusApproved
  | CarbonStatusRejected
  | CarbonStatusOther string

definition CarbonStatuses :: "carbon_status list" where
  "CarbonStatuses =
     [CarbonStatusPending, CarbonStatusApproved, CarbonStatusRejected]"

definition CarbonStatus_Valid :: "carbon_status \<Rightarrow> bool" where
  "CarbonStatus_Valid x = contains CarbonStatuses x"

datatype bill_scope =
    BillScopeAnalyzer
  | BillScopeBuilding
  | BillScopeCompany
  | BillScopeOther string

definition BillScopes :: "bill_scope list" where
  "BillScopes =
     [BillScopeAnalyzer, BillScopeBuilding, BillScopeCompany]"

definition BillScope_Valid :: "bill_scope \<Rightarrow> bool" where
  "BillScope_Valid x = contains BillScopes x"

datatype bill_status =
    BillStatusDraft
  | BillStatusIssued
  | BillStatusFlagged
  | BillStatusSuperseded
  | BillStatusOther string

definition BillStatuses :: "bill_status list" where
  "BillStatuses =
     [BillStatusDraft, BillStatusIssued, BillStatusFlagged, BillStatusSuperseded]"

definition BillStatus_Valid :: "bill_status \<Rightarrow> bool" where
  "BillStatus_Valid x = contains BillStatuses x"

datatype report_type =
    ReportTypeMonthly
  | ReportTypeYearly
  | ReportTypeOther string

definition ReportTypes :: "report_type list" where
  "ReportTypes =
     [ReportTypeMonthly, ReportTypeYearly]"

definition ReportType_Valid :: "report_type \<Rightarrow> bool" where
  "ReportType_Valid x = contains ReportTypes x"

datatype report_status =
    ReportStatusPending
  | ReportStatusCompleted
  | ReportStatusError
  | ReportStatusOther string

definition ReportStatuses :: "report_status list" where
  "ReportStatuses =
     [ReportStatusPending, ReportStatusCompleted, ReportStatusError]"

definition ReportStatus_Valid :: "report_status \<Rightarrow> bool" where
  "ReportStatus_Valid x = contains ReportStatuses x"

datatype plant_selection =
    PlantSelectionAll
  | PlantSelectionGrid
  | PlantSelectionRooftop
  | PlantSelectionOther string

definition PlantSelections :: "plant_selection list" where
  "PlantSelections =
     [PlantSelectionAll, PlantSelectionGrid, PlantSelectionRooftop]"

definition PlantSelection_Valid :: "plant_selection \<Rightarrow> bool" where
  "PlantSelection_Valid x = contains PlantSelections x"

datatype alarm_type =
    AlarmTypeReactiveLimit
  | AlarmTypeDataCommunication
  | AlarmTypeCurrentVoltagePower
  | AlarmTypeInvoiceIncrease
  | AlarmTypeOther string

definition AlarmTypes :: "alarm_type list" where
  "AlarmTypes =
     [AlarmTypeReactiveLimit,
      AlarmTypeDataCommunication,
      AlarmTypeCurrentVoltagePower,
      AlarmTypeInvoiceIncrease]"

definition AlarmType_Valid :: "alarm_type \<Rightarrow> bool" where
  "AlarmType_Valid x = contains AlarmTypes x"

datatype period_unit =
    PeriodUnitHours
  | PeriodUnitDays
  | PeriodUnitOther string

definition PeriodUnits :: "period_unit list" where
  "PeriodUnits =
     [PeriodUnitHours, PeriodUnitDays]"

definition PeriodUnit_Valid :: "period_unit \<Rightarrow> bool" where
  "PeriodUnit_Valid x = contains PeriodUnits x"

datatype notify_channel =
    NotifyChannelEmail
  | NotifyChannelSMS
  | NotifyChannelOther string

definition NotifyChannels :: "notify_channel list" where
  "NotifyChannels =
     [NotifyChannelEmail, NotifyChannelSMS]"

definition NotifyChannel_Valid :: "notify_channel \<Rightarrow> bool" where
  "NotifyChannel_Valid x = contains NotifyChannels x"

datatype reactive_penalty_basis =
    ReactivePenaltyBasisWholeQuantity
  | ReactivePenaltyBasisExcessOverLimit
  | ReactivePenaltyBasisOther string

definition ReactivePenaltyBases :: "reactive_penalty_basis list" where
  "ReactivePenaltyBases =
     [ReactivePenaltyBasisWholeQuantity, ReactivePenaltyBasisExcessOverLimit]"

definition ReactivePenaltyBasis_Valid :: "reactive_penalty_basis \<Rightarrow> bool" where
  "ReactivePenaltyBasis_Valid x = contains ReactivePenaltyBases x"

datatype tiering_mode =
    TieringModeSplitAtThreshold
  | TieringModeWholeConsumptionSwitch
  | TieringModeOther string

definition TieringModes :: "tiering_mode list" where
  "TieringModes =
     [TieringModeSplitAtThreshold, TieringModeWholeConsumptionSwitch]"

definition TieringMode_Valid :: "tiering_mode \<Rightarrow> bool" where
  "TieringMode_Valid x = contains TieringModes x"

datatype price_source =
    PriceSourceKbk
  | PriceSourceFixed
  | PriceSourceOther string

definition PriceSources :: "price_source list" where
  "PriceSources =
     [PriceSourceKbk, PriceSourceFixed]"

definition PriceSource_Valid :: "price_source \<Rightarrow> bool" where
  "PriceSource_Valid x = contains PriceSources x"

datatype extra_charge_basis =
    ExtraChargeBasisPerKwh
  | ExtraChargeBasisPerContractedKw
  | ExtraChargeBasisPerMaxDemandKw
  | ExtraChargeBasisFixedPerPeriod
  | ExtraChargeBasisPctOfEnergy
  | ExtraChargeBasisOther string

definition ExtraChargeBases :: "extra_charge_basis list" where
  "ExtraChargeBases =
     [ExtraChargeBasisPerKwh,
      ExtraChargeBasisPerContractedKw,
      ExtraChargeBasisPerMaxDemandKw,
      ExtraChargeBasisFixedPerPeriod,
      ExtraChargeBasisPctOfEnergy]"

definition ExtraChargeBasis_Valid :: "extra_charge_basis \<Rightarrow> bool" where
  "ExtraChargeBasis_Valid x = contains ExtraChargeBases x"

datatype money_rounding_mode =
    MoneyRoundingHalfUp
  | MoneyRoundingHalfEven
  | MoneyRoundingModeOther string

definition MoneyRoundingModes :: "money_rounding_mode list" where
  "MoneyRoundingModes =
     [MoneyRoundingHalfUp, MoneyRoundingHalfEven]"

definition MoneyRoundingMode_Valid :: "money_rounding_mode \<Rightarrow> bool" where
  "MoneyRoundingMode_Valid x = contains MoneyRoundingModes x"

lemmas enum_lists =
  PriceTypes_def TariffTerms_def EnergyTypes_def VoltageLevels_def SupplyCompanies_def
  GenerationUsages_def CurrencyCodes_def DistributionUserGroups_def BillScopes_def BillStatuses_def
  AlarmTypes_def PeriodUnits_def NotifyChannels_def ReactivePenaltyBases_def TieringModes_def
  PriceSources_def ExtraChargeBases_def MoneyRoundingModes_def UserRoles_def

lemmas enum_Valid =
  PriceType_Valid_def TariffTerm_Valid_def EnergyType_Valid_def VoltageLevel_Valid_def
  SupplyCompany_Valid_def GenerationUsage_Valid_def CurrencyCode_Valid_def
  DistributionUserGroup_Valid_def BillScope_Valid_def BillStatus_Valid_def AlarmType_Valid_def
  PeriodUnit_Valid_def NotifyChannel_Valid_def ReactivePenaltyBasis_Valid_def TieringMode_Valid_def
  PriceSource_Valid_def ExtraChargeBasis_Valid_def MoneyRoundingMode_Valid_def UserRole_Valid_def

section \<open>Tariffs (tariffs.go)\<close>

record tariff =
  t_ID :: uuid
  t_CompanyID :: uuid
  t_BuildingID :: "uuid option"
  t_Name :: "string option"
  t_EffectiveFrom :: time
  t_Currency :: currency_code
  t_EnergyType :: energy_type
  t_VoltageLevel :: voltage_level
  t_UserGroup :: distribution_user_group
  t_PriceType :: price_type
  t_Term :: tariff_term
  t_SupplyCompany :: supply_company
  t_SingleTimePrice :: "dec option"
  t_T1Price :: "dec option"
  t_T2Price :: "dec option"
  t_T3Price :: "dec option"
  t_OverusePrice :: "dec option"
  t_OveruseThresholdKwhPerDay :: "dec option"
  t_DistributionCost :: dec
  t_ReactivePowerPrice :: dec
  t_GreenEnergyPrice :: "dec option"
  t_GreenEnergyDistributionCost :: "dec option"
  t_ContractedPowerKw :: "dec option"
  t_PowerUnitPrice :: "dec option"
  t_GenerationUsage :: generation_usage
  t_GenerationPricePerKwh :: "dec option"
  t_VatRate :: dec
  t_UsePtfYekdem :: bool
  t_KbkEnergy :: "dec option"
  t_KbkT1 :: "dec option"
  t_KbkT2 :: "dec option"
  t_KbkT3 :: "dec option"
  t_KbkPowerPrice :: "dec option"
  t_KbkOverusePrice :: "dec option"
  t_KbkReactivePower :: "dec option"
  t_KbkDistributionCostTlPerKwh :: "dec option"
  t_UseManualYekdem :: bool
  t_PowerPriceSource :: price_source
  t_ReactivePriceSource :: price_source
  t_DistributionPriceSource :: price_source
  t_CreatedBy :: "uuid option"
  t_CreatedAt :: time
  t_UpdatedAt :: time
  t_DeletedAt :: "time option"

record tariff_tax =
  x_ID :: uuid
  x_TariffID :: uuid
  x_Name :: string
  x_Rate :: dec
  x_SortOrder :: int

record tariff_extra_charge =
  c_ID :: uuid
  c_TariffID :: uuid
  c_Name :: string
  c_Basis :: extra_charge_basis
  c_Amount :: dec
  c_SortOrder :: int

record tariff_manual_yekdem =
  y_TariffID :: uuid
  y_Year :: int
  y_Month :: int
  y_Value :: dec

record national_tariff_schedule_entry =
  n_ID :: uuid
  n_EffectiveFrom :: time
  n_UserGroup :: distribution_user_group
  n_VoltageLevel :: voltage_level
  n_Term :: tariff_term
  n_EnergyPrice :: dec
  n_T1Price :: "dec option"
  n_T2Price :: "dec option"
  n_T3Price :: "dec option"
  n_DistributionPrice :: dec
  n_PowerPrice :: "dec option"
  n_OverusePrice :: "dec option"
  n_DailyThresholdKwh :: "dec option"
  n_VatRate :: dec
  n_Source :: "string option"
  n_CreatedAt :: time

section \<open>Billing parameters (billing\_parameters.go)\<close>

record reactive_band =
  b_MinKw :: dec
  b_MaxKw :: "dec option"
  b_Inductive :: dec
  b_Capacitive :: dec

record billing_parameters =
  p_EffectiveFrom :: time
  p_ReactivePenaltyBasis :: reactive_penalty_basis
  p_ReactiveExemptBelowKw :: "dec option"
  p_ReactiveExemptTerms :: "tariff_term list"
  p_ReactiveExemptUserGroups :: "distribution_user_group list"
  p_ReactiveGenerationExemptKwh :: dec
  p_ReactiveBands :: "reactive_band list"
  p_TieringGroups :: "(distribution_user_group \<times> dec) list"
  p_TieringMode :: tiering_mode
  p_TieringVoltageLevels :: "voltage_level list"
  p_TieringSupplyCompanies :: "supply_company list"
  p_PTFMissingHourTolerance :: dec
  p_DemandOverrunMultiplier :: dec
  p_MoneyRoundingMode :: money_rounding_mode
  p_CreatedAt :: time

text \<open>
  \<open>TieringGroups\<close> is a Go map: an association list with distinct keys, in the order one
  iteration over the map takes.
\<close>

section \<open>Bills (bills.go)\<close>

definition BillLineEnergy :: string where "BillLineEnergy = ''energy''"
definition BillLineEnergyLowTier :: string where "BillLineEnergyLowTier = ''energy_low_tier''"
definition BillLineEnergyHighTier :: string where "BillLineEnergyHighTier = ''energy_high_tier''"
definition BillLineEnergyT1 :: string where "BillLineEnergyT1 = ''energy_t1''"
definition BillLineEnergyT2 :: string where "BillLineEnergyT2 = ''energy_t2''"
definition BillLineEnergyT3 :: string where "BillLineEnergyT3 = ''energy_t3''"
definition BillLineDistribution :: string where "BillLineDistribution = ''distribution''"
definition BillLineGreenEnergy :: string where "BillLineGreenEnergy = ''green_energy''"
definition BillLinePower :: string where "BillLinePower = ''power''"
definition BillLineDemandOverrun :: string where "BillLineDemandOverrun = ''demand_overrun''"
definition BillLineReactiveInductive :: string where "BillLineReactiveInductive = ''reactive_inductive''"
definition BillLineReactiveCapacitive :: string where "BillLineReactiveCapacitive = ''reactive_capacitive''"
definition BillLineVat :: string where "BillLineVat = ''vat''"
definition BillLineGenerationCredit :: string where "BillLineGenerationCredit = ''generation_credit''"
definition BillLineExtraPrefix :: string where "BillLineExtraPrefix = ''extra:''"
definition BillLineTaxPrefix :: string where "BillLineTaxPrefix = ''tax:''"

lemmas bill_line_codes =
  BillLineEnergy_def BillLineEnergyLowTier_def BillLineEnergyHighTier_def BillLineEnergyT1_def
  BillLineEnergyT2_def BillLineEnergyT3_def BillLineDistribution_def BillLineGreenEnergy_def
  BillLinePower_def BillLineDemandOverrun_def BillLineReactiveInductive_def
  BillLineReactiveCapacitive_def BillLineVat_def BillLineGenerationCredit_def
  BillLineExtraPrefix_def BillLineTaxPrefix_def

record bill_line =
  bl_ID :: uuid
  bl_BillID :: uuid
  bl_Code :: string
  bl_Label :: string
  bl_Quantity :: "dec option"
  bl_Unit :: "string option"
  bl_UnitPrice :: "dec option"
  bl_RatePct :: "dec option"
  bl_Amount :: dec
  bl_SortOrder :: "16 word"

record bill_hourly_detail =
  hd_BillID :: uuid
  hd_Ts :: time
  hd_Consumption :: dec
  hd_PTF :: dec
  hd_Yekdem :: dec
  hd_Kbk :: dec
  hd_UnitPrice :: dec
  hd_Cost :: dec

record bill =
  bill_ID :: uuid
  bill_CompanyID :: uuid
  bill_BuildingID :: "uuid option"
  bill_AnalyzerID :: "uuid option"
  bill_Scope :: bill_scope
  bill_PeriodStart :: time
  bill_PeriodEnd :: time
  bill_PeriodKey :: string
  bill_DaysInPeriod :: "32 word"
  bill_TariffID :: "uuid option"
  bill_TariffEffectiveFrom :: "time option"
  bill_ActiveImport :: dec
  bill_T1Kwh :: dec
  bill_T2Kwh :: dec
  bill_T3Kwh :: dec
  bill_InductiveKvarh :: dec
  bill_CapacitiveKvarh :: dec
  bill_ActiveExport :: dec
  bill_NetConsumption :: dec
  bill_LowTierKwh :: dec
  bill_HighTierKwh :: dec
  bill_MaxDemandKw :: "dec option"
  bill_TieredApplied :: bool
  bill_DemandDataAvailable :: bool
  bill_IndexStart :: string
  bill_IndexEnd :: string
  bill_EffectiveEnergyPrice :: "dec option"
  bill_LowTierPrice :: "dec option"
  bill_HighTierPrice :: "dec option"
  bill_EnergyCost :: dec
  bill_DistributionCost :: dec
  bill_GreenEnergyCost :: dec
  bill_PowerCost :: dec
  bill_DemandOverrunCost :: dec
  bill_ReactivePenalty :: dec
  bill_OtherTaxesCost :: dec
  bill_VatBase :: dec
  bill_VatCost :: dec
  bill_GenerationCredit :: dec
  bill_ExtraChargesCost :: dec
  bill_TotalCost :: dec
  bill_Currency :: currency_code
  bill_InductiveRatio :: "dec option"
  bill_CapacitiveRatio :: "dec option"
  bill_InductiveThreshold :: "dec option"
  bill_CapacitiveThreshold :: "dec option"
  bill_ReactivePenaltyApplied :: bool
  bill_ReactivePowerPrice :: "dec option"
  bill_GenerationUsage :: generation_usage
  bill_GenerationPricePerKwh :: "dec option"
  bill_PtfYekdemUsed :: bool
  bill_PtfHoursMatched :: "32 word option"
  bill_PtfHoursMissing :: "32 word option"
  bill_PtfHoursExpected :: "32 word option"
  bill_ConsumptionHoursMissing :: "32 word option"
  bill_PtfAverage :: "dec option"
  bill_YekdemUsed :: "dec option"
  bill_Status :: bill_status
  bill_FlagReason :: "string option"
  bill_PdfPath :: "string option"
  bill_ComputedAt :: time
  bill_CreatedAt :: time
  bill_UpdatedAt :: time

section \<open>Concrete rows\<close>

text \<open>A parameter set and a tariff at which the theorems are applied.\<close>

definition sample_params :: billing_parameters where
  "sample_params =
     \<lparr>p_EffectiveFrom = 0, p_ReactivePenaltyBasis = ReactivePenaltyBasisWholeQuantity,
      p_ReactiveExemptBelowKw = Some 9, p_ReactiveExemptTerms = [],
      p_ReactiveExemptUserGroups = [UserGroupLighting], p_ReactiveGenerationExemptKwh = 0,
      p_ReactiveBands =
        [\<lparr>b_MinKw = 9, b_MaxKw = Some 30, b_Inductive = 33 / 100, b_Capacitive = 20 / 100\<rparr>,
         \<lparr>b_MinKw = 30, b_MaxKw = None, b_Inductive = 20 / 100, b_Capacitive = 15 / 100\<rparr>],
      p_TieringGroups = [(UserGroupResidential, 8), (UserGroupCommercial, 30)],
      p_TieringMode = TieringModeSplitAtThreshold, p_TieringVoltageLevels = [VoltageLevelLV],
      p_TieringSupplyCompanies = [SupplyCompanyIncumbent], p_PTFMissingHourTolerance = 5 / 100,
      p_DemandOverrunMultiplier = 2, p_MoneyRoundingMode = MoneyRoundingHalfUp, p_CreatedAt = 0\<rparr>"

definition sample_tariff :: tariff where
  "sample_tariff =
     \<lparr>t_ID = 1, t_CompanyID = 1, t_BuildingID = None, t_Name = None, t_EffectiveFrom = 0,
      t_Currency = CurrencyTRY, t_EnergyType = EnergyTypeGrid, t_VoltageLevel = VoltageLevelLV,
      t_UserGroup = UserGroupResidential, t_PriceType = PriceTypeSingleTime,
      t_Term = TariffTermMonomial, t_SupplyCompany = SupplyCompanyIncumbent,
      t_SingleTimePrice = Some 2, t_T1Price = None, t_T2Price = None, t_T3Price = None,
      t_OverusePrice = Some 3, t_OveruseThresholdKwhPerDay = None, t_DistributionCost = 1,
      t_ReactivePowerPrice = 1, t_GreenEnergyPrice = None, t_GreenEnergyDistributionCost = None,
      t_ContractedPowerKw = None, t_PowerUnitPrice = None, t_GenerationUsage = GenerationUsageNone,
      t_GenerationPricePerKwh = None, t_VatRate = 20, t_UsePtfYekdem = False, t_KbkEnergy = None,
      t_KbkT1 = None, t_KbkT2 = None, t_KbkT3 = None, t_KbkPowerPrice = None,
      t_KbkOverusePrice = None, t_KbkReactivePower = None, t_KbkDistributionCostTlPerKwh = None,
      t_UseManualYekdem = False, t_PowerPriceSource = PriceSourceKbk,
      t_ReactivePriceSource = PriceSourceKbk, t_DistributionPriceSource = PriceSourceKbk,
      t_CreatedBy = None, t_CreatedAt = 0, t_UpdatedAt = 0, t_DeletedAt = None\<rparr>"

end
