(* ===== verification/Tariff_Resolve.thy ===== *)
theory Tariff_Resolve
  imports Model_Types "HOL-Library.Product_Lexorder"
begin

text \<open>
  Which row is in force on a day: \<open>tariff/resolve.go\<close> (tariff versions and parameter sets) and
  the schedule picker of \<open>tariff/public.go\<close>. All three follow one contract, the locale
  \<open>effective_dating\<close>: the pick is a qualifying row of the greatest key, and there is none only
  when no row qualifies.
\<close>

section \<open>The contract\<close>

locale effective_dating =
  fixes pick :: "'a list \<Rightarrow> 'a option" and qualifies :: "'a \<Rightarrow> bool" and key :: "'a \<Rightarrow> 'k :: linorder"
  assumes pick_None: "pick xs = None \<longleftrightarrow> (\<forall>x \<in> set xs. \<not> qualifies x)"
    and pick_Some: "pick xs = Some b \<Longrightarrow>
      b \<in> set xs \<and> qualifies b \<and> (\<forall>x \<in> set xs. qualifies x \<longrightarrow> key x \<le> key b)"
    and pick_filter: "pick (filter qualifies xs) = pick xs"

context effective_dating begin

text \<open>Rows that do not qualify, and the order of rows with different keys, do not matter.\<close>

lemma pick_unique:
  assumes "b \<in> set xs" and "qualifies b" and "\<forall>x \<in> set xs. qualifies x \<longrightarrow> x = b \<or> key x < key b"
  shows "pick xs = Some b"
proof (cases "pick xs")
  case None
  then show ?thesis using assms(1,2) pick_None by blast
next
  case (Some c)
  have "c = b \<or> key c < key b" and "key b \<le> key c" using pick_Some [OF Some] assms by blast+
  then have "c = b" by (meson leD)
  then show ?thesis using Some by simp
qed

lemma pick_cong:
  assumes "inj_on key (set xs)" and "set xs = set ys"
  shows "pick xs = pick ys"
proof (cases "pick ys")
  case None
  then have "pick xs = None" using assms(2) unfolding pick_None by simp
  with None show ?thesis by simp
next
  case (Some b)
  have b: "b \<in> set xs" "qualifies b" "\<forall>x \<in> set xs. qualifies x \<longrightarrow> key x \<le> key b"
    using pick_Some [OF Some] assms(2) by auto
  have "\<forall>x \<in> set xs. qualifies x \<longrightarrow> x = b \<or> key x < key b"
    using b assms(1) unfolding inj_on_def by (metis order_le_imp_less_or_eq)
  with b(1,2) Some show ?thesis by (simp add: pick_unique)
qed

text \<open>A row dated later than everything in force takes over; one that does not qualify changes nothing.\<close>

lemma pick_ignores: "\<not> qualifies n \<Longrightarrow> pick (xs @ n # ys) = pick (xs @ ys)"
  using pick_filter [of "xs @ n # ys"] pick_filter [of "xs @ ys"] by simp

lemma pick_superseded:
  assumes "qualifies n" and "\<forall>x \<in> set xs. qualifies x \<longrightarrow> key x < key n"
  shows "pick (xs @ [n]) = Some n"
  by (rule pick_unique) (use assms in auto)

end

section \<open>resolve.go\<close>

definition dayKey :: "location \<Rightarrow> time \<Rightarrow> int" where
  "dayKey loc ts = (case date_in loc ts of (y, m, d) \<Rightarrow> y * 10000 + m * 100 + d)"

text \<open>The loop of \<open>latest\<close>: the best row so far with its day and creation instant.\<close>

fun latest_loop ::
  "location \<Rightarrow> int \<Rightarrow> ('a \<Rightarrow> time \<times> time) \<Rightarrow> 'a list \<Rightarrow> ('a \<times> int \<times> time) option \<Rightarrow> ('a \<times> int \<times> time) option" where
  "latest_loop loc target keys [] best = best"
| "latest_loop loc target keys (it # items) best =
     (case keys it of (eff, created) \<Rightarrow>
        (let day = dayKey loc eff
         in if target < day then latest_loop loc target keys items best
            else
              latest_loop loc target keys items
                (case best of
                   None \<Rightarrow> Some (it, day, created)
                 | Some (b, bestDay, bestCreated) \<Rightarrow>
                     if bestDay < day \<or> day = bestDay \<and> bestCreated < created
                     then Some (it, day, created) else best)))"

definition latest :: "'a list \<Rightarrow> time \<Rightarrow> location \<Rightarrow> ('a \<Rightarrow> time \<times> time) \<Rightarrow> 'a option" where
  "latest items on loc keys = map_option fst (latest_loop loc (dayKey loc on) keys items None)"

definition tariff_keys :: "tariff \<Rightarrow> time \<times> time" where
  "tariff_keys t = (t_EffectiveFrom t, t_CreatedAt t)"

definition params_keys :: "billing_parameters \<Rightarrow> time \<times> time" where
  "params_keys p = (p_EffectiveFrom p, p_CreatedAt p)"

fun partition_versions :: "uuid \<Rightarrow> tariff list \<Rightarrow> tariff list \<times> tariff list \<Rightarrow> tariff list \<times> tariff list" where
  "partition_versions buildingID [] (building, company) = (building, company)"
| "partition_versions buildingID (v # versions) (building, company) =
     partition_versions buildingID versions
       (if t_DeletedAt v \<noteq> None then (building, company)
        else case t_BuildingID v of
          None \<Rightarrow> (building, company @ [v])
        | Some b \<Rightarrow> if b = buildingID then (building @ [v], company) else (building, company))"

definition Resolve :: "tariff list \<Rightarrow> uuid \<Rightarrow> time \<Rightarrow> location \<Rightarrow> tariff option" where
  "Resolve versions buildingID on loc =
     (case partition_versions buildingID versions ([], []) of
        (building, company) \<Rightarrow>
          (case latest building on loc tariff_keys of
             Some t \<Rightarrow> Some t
           | None \<Rightarrow> latest company on loc tariff_keys))"

definition ResolveParams :: "billing_parameters list \<Rightarrow> time \<Rightarrow> location \<Rightarrow> billing_parameters option" where
  "ResolveParams sets on loc = latest sets on loc params_keys"

section \<open>The day key orders like the calendar\<close>

lemma days_from_civil_bounds:
  assumes "valid_civil y m d"
  shows "days_before_year y - epoch_days \<le> days_from_civil y m d"
    and "days_from_civil y m d < days_before_year (y + 1) - epoch_days"
proof -
  from assms have m: "1 \<le> m" "m \<le> 12" and d: "1 \<le> d" "d \<le> month_len y m"
    by (simp_all add: valid_civil_def)
  note r = days_before_month_range [OF m, of "is_leap y"]
  have n: "days_from_civil y m d = days_before_year y + days_before_month (is_leap y) m + (d - 1) - epoch_days"
    by (rule days_from_civil_plain [OF m])
  show "days_before_year y - epoch_days \<le> days_from_civil y m d" using r d n by simp
  show "days_from_civil y m d < days_before_year (y + 1) - epoch_days"
    using r d n unfolding month_len_def days_before_year_Suc by simp
qed

lemma days_from_civil_mono_month:
  assumes "1 \<le> m" and "m \<le> m'" and "m' \<le> 12"
  shows "days_from_civil y m 1 \<le> days_from_civil y m' 1"
  using assms(2,1,3)
proof (induction m' rule: int_ge_induct)
  case (step k)
  then have "days_from_civil y (k + 1) 1 = days_from_civil y k 1 + month_len y k"
    by (intro days_from_civil_next_month) simp_all
  with step month_len_range [of k y] show ?case by simp
qed simp

lemma civil_less_days:
  assumes v: "valid_civil y m d" "valid_civil y' m' d'"
    and less: "y < y' \<or> y = y' \<and> (m < m' \<or> m = m' \<and> d < d')"
  shows "days_from_civil y m d < days_from_civil y' m' d'"
proof -
  have split: "days_from_civil a b c = days_from_civil a b 1 + (c - 1)" for a b c
    using days_from_civil_day [of a b 1 "c - 1"] by simp
  from less consider "y < y'" | "y = y'" "m < m'" | "y = y'" "m = m'" "d < d'" by blast
  then show ?thesis
  proof cases
    case 1
    then have "days_before_year (y + 1) \<le> days_before_year y'" by (simp add: days_before_year_mono)
    then show ?thesis using days_from_civil_bounds(2) [OF v(1)] days_from_civil_bounds(1) [OF v(2)] by simp
  next
    case 2
    have m: "1 \<le> m" "m \<le> 12" "d \<le> month_len y m" "m' \<le> 12" "1 \<le> d'"
      using v by (simp_all add: valid_civil_def)
    have "days_from_civil y (m + 1) 1 \<le> days_from_civil y m' 1"
      by (rule days_from_civil_mono_month) (use m 2 in simp_all)
    then have "days_from_civil y m 1 + month_len y m \<le> days_from_civil y m' 1"
      using days_from_civil_next_month [OF m(1,2), of y 1] by simp
    then show ?thesis using m 2 split [of y m d] split [of y m' d'] by simp
  next
    case 3
    then show ?thesis using split [of y m d] split [of y m d'] by simp
  qed
qed

lemma dayKey_less:
  assumes "local_day loc a < local_day loc b"
  shows "dayKey loc a < dayKey loc b"
proof -
  obtain y m d where a: "date_in loc a = (y, m, d)" by (cases "date_in loc a")
  obtain y' m' d' where b: "date_in loc b = (y', m', d')" by (cases "date_in loc b")
  have v: "valid_civil y m d" "valid_civil y' m' d'" using date_in_valid a b by blast+
  have n: "days_from_civil y m d < days_from_civil y' m' d'"
    using assms date_in_days [OF a] date_in_days [OF b] by simp
  have r: "month_len y m \<le> 31" for y m
    by (simp add: month_len_def days_before_month_def)
  have "y < y' \<or> y = y' \<and> (m < m' \<or> m = m' \<and> d < d')"
  proof (rule ccontr)
    assume "\<not> ?thesis"
    then have "(y' < y \<or> y' = y \<and> (m' < m \<or> m' = m \<and> d' < d)) \<or> (y, m, d) = (y', m', d')" by auto
    then show False using civil_less_days [OF v(2,1)] n by auto
  qed
  moreover have "1 \<le> m" "m \<le> 12" "1 \<le> d" "d \<le> 31" "1 \<le> m'" "m' \<le> 12" "1 \<le> d'" "d' \<le> 31"
    using v r [of y m] r [of y' m'] by (auto simp: valid_civil_def)
  ultimately show ?thesis unfolding dayKey_def a b prod.case by linarith
qed

lemma dayKey_eq: "local_day loc a = local_day loc b \<Longrightarrow> dayKey loc a = dayKey loc b"
  by (simp add: dayKey_def date_in_def)

lemma dayKey_le_iff: "dayKey loc a \<le> dayKey loc b \<longleftrightarrow> local_day loc a \<le> local_day loc b"
  using dayKey_less [of loc a b] dayKey_less [of loc b a] dayKey_eq [of loc a b]
  by (cases "local_day loc a" "local_day loc b" rule: linorder_cases) simp_all

lemma dayKey_less_iff: "dayKey loc a < dayKey loc b \<longleftrightarrow> local_day loc a < local_day loc b"
  using dayKey_le_iff [of loc b a] by linarith

section \<open>The contract holds\<close>

text \<open>A row kept while scanning: the first of the greatest key among those that qualify.\<close>

fun best_by :: "('a \<Rightarrow> bool) \<Rightarrow> ('a \<Rightarrow> 'k :: linorder) \<Rightarrow> 'a list \<Rightarrow> 'a option \<Rightarrow> 'a option" where
  "best_by Q K [] best = best"
| "best_by Q K (x # xs) best =
     (if \<not> Q x then best_by Q K xs best
      else best_by Q K xs (case best of None \<Rightarrow> Some x | Some b \<Rightarrow> if K b < K x then Some x else Some b))"

lemma best_by_spec:
  "case best_by Q K xs best of
     None \<Rightarrow> best = None \<and> (\<forall>x \<in> set xs. \<not> Q x)
   | Some b \<Rightarrow> (best = Some b \<or> b \<in> set xs \<and> Q b) \<and> (\<forall>x \<in> set xs. Q x \<longrightarrow> K x \<le> K b) \<and>
       (case best of None \<Rightarrow> True | Some b' \<Rightarrow> K b' \<le> K b)"
proof (induction xs arbitrary: best)
  case Nil
  show ?case by (simp split: option.split)
next
  case (Cons x xs)
  show ?case
  proof (cases "Q x")
    case False
    then show ?thesis using Cons.IH [of best] by (simp split: option.splits) blast
  next
    case True
    define next_best where
      "next_best = (case best of None \<Rightarrow> x | Some b \<Rightarrow> if K b < K x then x else b)"
    have step: "best_by Q K (x # xs) best = best_by Q K xs (Some next_best)"
      using True by (simp add: next_best_def split: option.split)
    have next_le: "K x \<le> K next_best" "best = Some b \<Longrightarrow> K b \<le> K next_best" for b
      by (auto simp: next_best_def split: option.split)
    have next_in: "next_best = x \<or> best = Some next_best"
      by (simp add: next_best_def split: option.split)
    show ?thesis
    proof (cases "best_by Q K xs (Some next_best)")
      case None
      then show ?thesis using Cons.IH [of "Some next_best"] by simp
    next
      case (Some b)
      then have "next_best = b \<or> b \<in> set xs \<and> Q b" "\<forall>x \<in> set xs. Q x \<longrightarrow> K x \<le> K b"
        and le: "K next_best \<le> K b"
        using Cons.IH [of "Some next_best"] by simp_all
      moreover have "K x \<le> K b" "best = Some b' \<Longrightarrow> K b' \<le> K b" for b'
        using next_le le order_trans by blast+
      ultimately show ?thesis
        using next_in True unfolding step Some by (auto split: option.split)
    qed
  qed
qed

lemma best_by_filter: "best_by Q K (filter P xs) best = best_by (\<lambda>x. P x \<and> Q x) K xs best"
  by (induction xs arbitrary: best) auto

lemma effective_dating_best_by: "effective_dating (\<lambda>xs. best_by Q K xs None) Q K"
proof unfold_locales
  fix xs :: "'a list" and b
  show "(best_by Q K xs None = None) = (\<forall>x \<in> set xs. \<not> Q x)"
    using best_by_spec [where Q = Q and K = K and xs = xs and best = None] by (cases "best_by Q K xs None") auto
  show "best_by Q K (filter Q xs) None = best_by Q K xs None" by (simp add: best_by_filter)
  show "best_by Q K xs None = Some b \<Longrightarrow> b \<in> set xs \<and> Q b \<and> (\<forall>x \<in> set xs. Q x \<longrightarrow> K x \<le> K b)"
    using best_by_spec [where Q = Q and K = K and xs = xs and best = None] by auto
qed

definition day_and_creation :: "location \<Rightarrow> ('a \<Rightarrow> time \<times> time) \<Rightarrow> 'a \<Rightarrow> int \<times> time" where
  "day_and_creation loc keys x = (dayKey loc (fst (keys x)), snd (keys x))"

lemma latest_loop_best_by:
  "latest_loop loc target keys items (map_option (\<lambda>b. (b, day_and_creation loc keys b)) best) =
     map_option (\<lambda>b. (b, day_and_creation loc keys b))
       (best_by (\<lambda>x. \<not> target < dayKey loc (fst (keys x))) (day_and_creation loc keys) items best)"
proof (induction items arbitrary: best)
  case (Cons x items)
  obtain eff created where k: "keys x = (eff, created)" by (cases "keys x")
  have kx: "day_and_creation loc keys x = (dayKey loc eff, created)" by (simp add: day_and_creation_def k)
  show ?case
  proof (cases "target < dayKey loc eff")
    case True
    then show ?thesis using Cons.IH [of best] by (simp add: k Let_def)
  next
    case False
    define next_best where "next_best = (case best of None \<Rightarrow> Some x
      | Some b \<Rightarrow> if day_and_creation loc keys b < day_and_creation loc keys x then Some x else Some b)"
    have "(case map_option (\<lambda>b. (b, day_and_creation loc keys b)) best of
            None \<Rightarrow> Some (x, dayKey loc eff, created)
          | Some (b, bestDay, bestCreated) \<Rightarrow>
              if bestDay < dayKey loc eff \<or> dayKey loc eff = bestDay \<and> bestCreated < created
              then Some (x, dayKey loc eff, created)
              else map_option (\<lambda>b. (b, day_and_creation loc keys b)) best) =
        map_option (\<lambda>b. (b, day_and_creation loc keys b)) next_best"
      unfolding next_best_def
      by (cases best) (auto simp: day_and_creation_def k less_prod_def)
    then show ?thesis
      using Cons.IH [of next_best] False by (simp add: k Let_def next_best_def [symmetric])
  qed
qed simp

lemma latest_best_by:
  "latest items on loc keys =
     best_by (\<lambda>x. local_day loc (fst (keys x)) \<le> local_day loc on) (day_and_creation loc keys) items None"
  using latest_loop_best_by [of loc "dayKey loc on" keys items None]
  by (simp add: latest_def not_less dayKey_le_iff option.map_comp comp_def option.map_ident)

interpretation versions: effective_dating
  "\<lambda>xs. latest xs on loc tariff_keys"
  "\<lambda>t. local_day loc (t_EffectiveFrom t) \<le> local_day loc on" "day_and_creation loc tariff_keys"
  for on loc
  unfolding latest_best_by using effective_dating_best_by [of "\<lambda>t. local_day loc (fst (tariff_keys t)) \<le> local_day loc on"]
  by (simp add: tariff_keys_def)

interpretation param_sets: effective_dating
  "\<lambda>xs. ResolveParams xs on loc"
  "\<lambda>p. local_day loc (p_EffectiveFrom p) \<le> local_day loc on" "day_and_creation loc params_keys"
  for on loc
  unfolding ResolveParams_def latest_best_by
  using effective_dating_best_by [of "\<lambda>t. local_day loc (fst (params_keys t)) \<le> local_day loc on"]
  by (simp add: params_keys_def)

text \<open>\<open>Resolve\<close> itself: the rows that may price a building, and the order it prefers them in.\<close>

definition applicable :: "uuid \<Rightarrow> time \<Rightarrow> location \<Rightarrow> tariff \<Rightarrow> bool" where
  "applicable buildingID on loc t \<longleftrightarrow>
     t_DeletedAt t = None \<and> (t_BuildingID t = None \<or> t_BuildingID t = Some buildingID) \<and>
     local_day loc (t_EffectiveFrom t) \<le> local_day loc on"

definition precedence :: "uuid \<Rightarrow> location \<Rightarrow> tariff \<Rightarrow> bool \<times> int \<times> time" where
  "precedence buildingID loc t =
     (t_BuildingID t = Some buildingID, dayKey loc (t_EffectiveFrom t), t_CreatedAt t)"

lemma partition_versions_eq:
  "partition_versions buildingID vs (building, company) =
     (building @ filter (\<lambda>t. t_DeletedAt t = None \<and> t_BuildingID t = Some buildingID) vs,
      company @ filter (\<lambda>t. t_DeletedAt t = None \<and> t_BuildingID t = None) vs)"
  by (induction vs arbitrary: building company) (auto split: option.split)

lemma Resolve_best_by:
  "Resolve vs buildingID on loc =
     (case best_by (\<lambda>t. applicable buildingID on loc t \<and> t_BuildingID t = Some buildingID)
             (day_and_creation loc tariff_keys) vs None of
        Some t \<Rightarrow> Some t
      | None \<Rightarrow> best_by (\<lambda>t. applicable buildingID on loc t \<and> t_BuildingID t = None)
                  (day_and_creation loc tariff_keys) vs None)"
proof -
  have preds: "(\<lambda>t. (t_DeletedAt t = None \<and> t_BuildingID t = Some buildingID) \<and>
        local_day loc (fst (tariff_keys t)) \<le> local_day loc on) =
      (\<lambda>t. applicable buildingID on loc t \<and> t_BuildingID t = Some buildingID)"
    "(\<lambda>t. (t_DeletedAt t = None \<and> t_BuildingID t = None) \<and>
        local_day loc (fst (tariff_keys t)) \<le> local_day loc on) =
      (\<lambda>t. applicable buildingID on loc t \<and> t_BuildingID t = None)"
    by (auto simp: applicable_def tariff_keys_def)
  show ?thesis
    unfolding Resolve_def partition_versions_eq prod.case append_Nil latest_best_by best_by_filter preds ..
qed

interpretation resolve: effective_dating
  "\<lambda>vs. Resolve vs buildingID on loc" "applicable buildingID on loc" "precedence buildingID loc"
  for buildingID on loc
proof unfold_locales
  fix vs b
  let ?Q = "\<lambda>t. applicable buildingID on loc t \<and> t_BuildingID t = Some buildingID"
  let ?R = "\<lambda>t. applicable buildingID on loc t \<and> t_BuildingID t = None"
  let ?K = "day_and_creation loc tariff_keys"
  note q = effective_dating.pick_None [OF effective_dating_best_by [of ?Q ?K], of vs]
    effective_dating.pick_Some [OF effective_dating_best_by [of ?Q ?K], of vs]
  note r = effective_dating.pick_None [OF effective_dating_best_by [of ?R ?K], of vs]
    effective_dating.pick_Some [OF effective_dating_best_by [of ?R ?K], of vs]
  have scope: "t_BuildingID t = Some buildingID \<or> t_BuildingID t = None" if "applicable buildingID on loc t" for t
    using that by (auto simp: applicable_def)
  have prec: "precedence buildingID loc u \<le> precedence buildingID loc t"
    if "t_BuildingID t = t_BuildingID u" "?K u \<le> ?K t" for t u
    using that by (auto simp: precedence_def day_and_creation_def tariff_keys_def less_eq_prod_def)
  have tier: "precedence buildingID loc u \<le> precedence buildingID loc t"
    if "t_BuildingID t = Some buildingID" "t_BuildingID u = None" for t u
    using that by (simp add: precedence_def less_eq_prod_def)
  show "(Resolve vs buildingID on loc = None) = (\<forall>x \<in> set vs. \<not> applicable buildingID on loc x)"
  proof -
    have "(Resolve vs buildingID on loc = None) =
        (best_by ?Q ?K vs None = None \<and> best_by ?R ?K vs None = None)"
      by (simp add: Resolve_best_by split: option.split)
    then show ?thesis unfolding q(1) r(1) using scope by blast
  qed
  show "b \<in> set vs \<and> applicable buildingID on loc b \<and>
      (\<forall>x \<in> set vs. applicable buildingID on loc x \<longrightarrow> precedence buildingID loc x \<le> precedence buildingID loc b)"
    if "Resolve vs buildingID on loc = Some b"
  proof (cases "best_by ?Q ?K vs None")
    case (Some t)
    with that have "t = b" by (simp add: Resolve_best_by)
    with q(2) [OF Some] have b: "b \<in> set vs" "?Q b" "\<forall>x \<in> set vs. ?Q x \<longrightarrow> ?K x \<le> ?K b" by auto
    have "precedence buildingID loc x \<le> precedence buildingID loc b"
      if "x \<in> set vs" "applicable buildingID on loc x" for x
      using scope [OF that(2)]
    proof
      assume "t_BuildingID x = Some buildingID"
      then have "?K x \<le> ?K b" using that b(3) by blast
      then show ?thesis using \<open>t_BuildingID x = Some buildingID\<close> b(2) by (intro prec) simp_all
    next
      assume "t_BuildingID x = None"
      then show ?thesis using b(2) by (intro tier) simp_all
    qed
    with b(1,2) show ?thesis by blast
  next
    case None
    with that have "best_by ?R ?K vs None = Some b" by (simp add: Resolve_best_by)
    from r(2) [OF this] have b: "b \<in> set vs" "?R b" "\<forall>x \<in> set vs. ?R x \<longrightarrow> ?K x \<le> ?K b" by blast+
    have "precedence buildingID loc x \<le> precedence buildingID loc b"
      if "x \<in> set vs" "applicable buildingID on loc x" for x
    proof -
      have "t_BuildingID x \<noteq> Some buildingID" using q(1) None that by blast
      then have x: "t_BuildingID x = None" using scope [OF that(2)] by blast
      then have "?K x \<le> ?K b" using that b(3) by blast
      then show ?thesis using x b(2) by (intro prec) simp_all
    qed
    with b(1,2) show ?thesis by blast
  qed
  show "Resolve (filter (applicable buildingID on loc) vs) buildingID on loc = Resolve vs buildingID on loc"
    unfolding Resolve_best_by best_by_filter by (simp only: conj_left_absorb)
qed

section \<open>Properties\<close>

text \<open>C4. Which tariff prices a building on a day: there is none exactly when no live row of the building or of
  the whole company has started by that local calendar day; otherwise it is such a row, and no such row
  precedes it: a row of the building beats every company-wide row, then the later effective day, then the later
  creation.\<close>

theorem Resolve_correct:
  "case Resolve vs buildingID on loc of
     None \<Rightarrow> \<forall>t \<in> set vs. \<not> applicable buildingID on loc t
   | Some t \<Rightarrow> t \<in> set vs \<and> applicable buildingID on loc t \<and>
       (\<forall>u \<in> set vs. applicable buildingID on loc u \<longrightarrow>
          precedence buildingID loc u \<le> precedence buildingID loc t)"
proof (cases "Resolve vs buildingID on loc")
  case None
  from None resolve.pick_None [THEN iffD1, OF None] show ?thesis by simp
next
  case (Some t)
  from resolve.pick_Some [OF this] show ?thesis unfolding Some by simp
qed

theorem Resolve_correct_witness:
  "Resolve [sample_tariff, sample_tariff\<lparr>t_BuildingID := Some 7, t_EffectiveFrom := -5\<rparr>] 7 100 utc =
     Some (sample_tariff\<lparr>t_BuildingID := Some 7, t_EffectiveFrom := -5\<rparr>) \<and>
   precedence 7 utc sample_tariff \<le>
     precedence 7 utc (sample_tariff\<lparr>t_BuildingID := Some 7, t_EffectiveFrom := -5\<rparr>)"
proof -
  let ?b = "sample_tariff\<lparr>t_BuildingID := Some 7, t_EffectiveFrom := -5\<rparr>"
  have r: "Resolve [sample_tariff, ?b] 7 100 utc = Some ?b"
    by (rule resolve.pick_unique)
      (simp_all add: applicable_def precedence_def sample_tariff_def local_day_def unix_sec_def
        ns_per_sec_def utc_fixed less_prod_def)
  have "applicable 7 100 utc sample_tariff"
    by (simp add: applicable_def sample_tariff_def local_day_def unix_sec_def ns_per_sec_def utc_fixed)
  then show ?thesis
    using Resolve_correct [of "[sample_tariff, ?b]" 7 100 utc] unfolding r option.case by simp
qed

text \<open>Past periods keep their price: a version that is not applicable on a day, because it starts on a later
  local day, belongs to another building or is deleted, changes nothing of what that day resolves to, wherever the
  database returns it in the list.\<close>

theorem Resolve_ignores_later:
  assumes "t_DeletedAt n \<noteq> None \<or> local_day loc on < local_day loc (t_EffectiveFrom n) \<or>
    (t_BuildingID n \<noteq> None \<and> t_BuildingID n \<noteq> Some buildingID)"
  shows "Resolve (xs @ n # ys) buildingID on loc = Resolve (xs @ ys) buildingID on loc"
  by (rule resolve.pick_ignores) (use assms in \<open>auto simp: applicable_def\<close>)

theorem Resolve_ignores_later_witness:
  "Resolve ([sample_tariff] @ (sample_tariff\<lparr>t_EffectiveFrom := 200000000000000\<rparr>) # []) 7 100 utc =
     Resolve ([sample_tariff] @ []) 7 100 utc"
  by (rule Resolve_ignores_later)
    (simp add: local_day_def unix_sec_def ns_per_sec_def utc_fixed sample_tariff_def)

end
