(* ===== verification/Reactive.thy ===== *)
theory Reactive
  imports Model_Types Energy
begin

text \<open>
  Package \<open>internal/domain/reactive\<close>: the reactive-energy penalty of one invoice
  (\<open>reactive.go\<close>). \<open>Evaluate\<close> decides the exemptions, finds the band of the
  installed power and charges the inductive and the capacitive side. The two reason strings and the
  four missing-data markers are datatypes with the source's constants as constructors.
\<close>

section \<open>Input and result\<close>

datatype exempt_reason = ExemptTerm | ExemptUserGroup | ExemptGeneration | ExemptBelowKw

datatype missing_marker = MissingInstalledPower | MissingInductive | MissingCapacitive | MissingActiveExport

record reactive_input =
  ri_NetConsumption :: dec
  ri_Inductive :: "dec option"
  ri_Capacitive :: "dec option"
  ri_ActiveExport :: "dec option"
  ri_ActiveExportKnownSum :: dec
  ri_ActiveExportPartial :: bool
  ri_InstalledPowerKw :: "dec option"
  ri_Term :: tariff_term
  ri_UserGroup :: distribution_user_group
  ri_UnitPrice :: "dec option"
  ri_Params :: billing_parameters

record reactive_result =
  Exempt :: bool
  ExemptReason :: "exempt_reason option"
  InductiveRatio :: "dec option"
  CapacitiveRatio :: "dec option"
  InductiveLimit :: "dec option"
  CapacitiveLimit :: "dec option"
  InductiveKvarhCharged :: "dec option"
  CapacitiveKvarhCharged :: "dec option"
  InductivePenalty :: dec
  CapacitivePenalty :: dec
  Applied :: bool
  Missing :: "missing_marker list"

definition zero_result :: reactive_result where
  "zero_result =
     \<lparr>Exempt = False, ExemptReason = None, InductiveRatio = None, CapacitiveRatio = None,
      InductiveLimit = None, CapacitiveLimit = None, InductiveKvarhCharged = None,
      CapacitiveKvarhCharged = None, InductivePenalty = 0, CapacitivePenalty = 0, Applied = False,
      Missing = []\<rparr>"

lemma zero_result_simps [simp]:
  "Exempt zero_result = False" "ExemptReason zero_result = None" "InductiveRatio zero_result = None"
  "CapacitiveRatio zero_result = None" "InductiveLimit zero_result = None"
  "CapacitiveLimit zero_result = None" "InductiveKvarhCharged zero_result = None"
  "CapacitiveKvarhCharged zero_result = None" "InductivePenalty zero_result = 0"
  "CapacitivePenalty zero_result = 0" "Applied zero_result = False" "Missing zero_result = []"
  by (simp_all add: zero_result_def)

section \<open>Operations\<close>

definition reactive_divisionScale :: nat where "reactive_divisionScale = 20"

definition ratio :: "declib \<Rightarrow> dec option \<Rightarrow> dec \<Rightarrow> dec option" where
  "ratio L reg net =
     (case reg of
        None \<Rightarrow> None
      | Some r \<Rightarrow> if \<not> 0 < net then None else Some (DivRound L r net reactive_divisionScale))"

fun FindBand :: "reactive_band list \<Rightarrow> dec \<Rightarrow> reactive_band option" where
  "FindBand [] kw = None"
| "FindBand (b # bands) kw =
     (if b_MinKw b \<le> kw \<and> (case b_MaxKw b of None \<Rightarrow> True | Some mx \<Rightarrow> kw < mx) then Some b
      else FindBand bands kw)"

text \<open>The \<open>switch\<close> over the exemptions.\<close>

definition exemption :: "reactive_input \<Rightarrow> exempt_reason option" where
  "exemption inp =
     (let p = ri_Params inp
      in if contains (p_ReactiveExemptTerms p) (ri_Term inp) then Some ExemptTerm
         else if contains (p_ReactiveExemptUserGroups p) (ri_UserGroup inp) then Some ExemptUserGroup
         else if p_ReactiveGenerationExemptKwh p < ri_ActiveExportKnownSum inp then Some ExemptGeneration
         else case (ri_InstalledPowerKw inp, p_ReactiveExemptBelowKw p) of
           (Some kw, Some below) \<Rightarrow> if kw < below then Some ExemptBelowKw else None
         | _ \<Rightarrow> None)"

text \<open>The closure \<open>side\<close>: it returns the charged quantity and the penalty, and updates
  \<open>Applied\<close> and \<open>Missing\<close> of the result under construction.\<close>

definition side ::
  "reactive_input \<Rightarrow> reactive_result \<Rightarrow> dec option \<Rightarrow> dec \<Rightarrow> missing_marker \<Rightarrow>
   dec option \<times> dec \<times> reactive_result" where
  "side inp r reg limit missing =
     (case reg of
        None \<Rightarrow> (None, 0, r\<lparr>Missing := Missing r @ [missing]\<rparr>)
      | Some x \<Rightarrow>
          (let net = ri_NetConsumption inp;
               exceeded = ((0 < net \<and> limit * net < x) \<or> (net = 0 \<and> 0 < x))
           in if \<not> exceeded then (None, 0, r)
              else
                let charged =
                      (if p_ReactivePenaltyBasis (ri_Params inp) = ReactivePenaltyBasisExcessOverLimit
                       then x - limit * net else x);
                    r' = r\<lparr>Applied := True\<rparr>
                in case ri_UnitPrice inp of
                     None \<Rightarrow> (Some charged, 0, r')
                   | Some price \<Rightarrow> (Some charged, charged * price, r')))"

definition Evaluate :: "declib \<Rightarrow> reactive_input \<Rightarrow> reactive_result" where
  "Evaluate L inp =
     (let r = zero_result
            \<lparr>InductiveRatio := ratio L (ri_Inductive inp) (ri_NetConsumption inp),
             CapacitiveRatio := ratio L (ri_Capacitive inp) (ri_NetConsumption inp)\<rparr>
      in case exemption inp of
           Some reason \<Rightarrow> r\<lparr>Exempt := True, ExemptReason := Some reason\<rparr>
         | None \<Rightarrow>
             (let r = (if ri_ActiveExport inp = None \<and> ri_ActiveExportPartial inp
                       then r\<lparr>Missing := Missing r @ [MissingActiveExport]\<rparr> else r)
              in case ri_InstalledPowerKw inp of
                   None \<Rightarrow> r\<lparr>Missing := Missing r @ [MissingInstalledPower]\<rparr>
                 | Some kw \<Rightarrow>
                     (case FindBand (p_ReactiveBands (ri_Params inp)) kw of
                        None \<Rightarrow> r\<lparr>Missing := Missing r @ [MissingInstalledPower]\<rparr>
                      | Some band \<Rightarrow>
                          (let r = r\<lparr>InductiveLimit := Some (b_Inductive band),
                                    CapacitiveLimit := Some (b_Capacitive band)\<rparr>
                           in case side inp r (ri_Inductive inp) (b_Inductive band) MissingInductive of
                                (charged, penalty, r) \<Rightarrow>
                                  (let r = r\<lparr>InductiveKvarhCharged := charged, InductivePenalty := penalty\<rparr>
                                   in case side inp r (ri_Capacitive inp) (b_Capacitive band) MissingCapacitive of
                                        (charged, penalty, r) \<Rightarrow>
                                          r\<lparr>CapacitiveKvarhCharged := charged, CapacitivePenalty := penalty\<rparr>)))))"

section \<open>The rule of one side\<close>

text \<open>What a side is charged, as a formula: nothing up to the limit, and past it the whole quantity
  or the excess. A net of 0 has the limit 0; a negative net is never exceeded.\<close>

definition charge :: "reactive_penalty_basis \<Rightarrow> dec \<Rightarrow> dec \<Rightarrow> dec option \<Rightarrow> dec option" where
  "charge basis net limit reg =
     (case reg of
        None \<Rightarrow> None
      | Some x \<Rightarrow>
          if 0 \<le> net \<and> limit * net < x
          then Some (if basis = ReactivePenaltyBasisExcessOverLimit then x - limit * net else x)
          else None)"

definition penalty_of :: "dec option \<Rightarrow> dec option \<Rightarrow> dec" where
  "penalty_of price charged =
     (case (price, charged) of (Some p, Some c) \<Rightarrow> c * p | _ \<Rightarrow> 0)"

lemma penalty_of_simps [simp]:
  "penalty_of price None = 0" "penalty_of None c = 0" "penalty_of (Some p) (Some q) = q * p"
  by (simp_all add: penalty_of_def split: option.split)

lemma charge_iff: "charge basis net limit reg \<noteq> None \<longleftrightarrow>
  (\<exists>x. reg = Some x \<and> 0 \<le> net \<and> limit * net < x)"
  by (cases reg) (simp_all add: charge_def)

lemma side_eq:
  "side inp r reg limit missing =
     (let c = charge (p_ReactivePenaltyBasis (ri_Params inp)) (ri_NetConsumption inp) limit reg
      in (c, penalty_of (ri_UnitPrice inp) c,
          if reg = None then r\<lparr>Missing := Missing r @ [missing]\<rparr>
          else if c = None then r else r\<lparr>Applied := True\<rparr>))"
  by (cases "ri_NetConsumption inp" "0 :: dec" rule: linorder_cases)
    (simp_all add: side_def charge_def penalty_of_def Let_def split: option.splits)

text \<open>The band an evaluation works with: \<open>None\<close> when it is exempt or has no band.\<close>

definition band_of :: "reactive_input \<Rightarrow> reactive_band option" where
  "band_of inp =
     (if exemption inp \<noteq> None then None
      else Option.bind (ri_InstalledPowerKw inp) (FindBand (p_ReactiveBands (ri_Params inp))))"

definition inductive_charge :: "reactive_input \<Rightarrow> dec option" where
  "inductive_charge inp =
     Option.bind (band_of inp) (\<lambda>b. charge (p_ReactivePenaltyBasis (ri_Params inp))
       (ri_NetConsumption inp) (b_Inductive b) (ri_Inductive inp))"

definition capacitive_charge :: "reactive_input \<Rightarrow> dec option" where
  "capacitive_charge inp =
     Option.bind (band_of inp) (\<lambda>b. charge (p_ReactivePenaltyBasis (ri_Params inp))
       (ri_NetConsumption inp) (b_Capacitive b) (ri_Capacitive inp))"

definition missing_of :: "reactive_input \<Rightarrow> missing_marker list" where
  "missing_of inp =
     (if exemption inp \<noteq> None then []
      else (if ri_ActiveExport inp = None \<and> ri_ActiveExportPartial inp then [MissingActiveExport] else []) @
        (if band_of inp = None then [MissingInstalledPower]
         else (if ri_Inductive inp = None then [MissingInductive] else []) @
              (if ri_Capacitive inp = None then [MissingCapacitive] else [])))"

lemma Evaluate_eq:
  "Evaluate L inp =
     \<lparr>Exempt = (exemption inp \<noteq> None), ExemptReason = exemption inp,
      InductiveRatio = ratio L (ri_Inductive inp) (ri_NetConsumption inp),
      CapacitiveRatio = ratio L (ri_Capacitive inp) (ri_NetConsumption inp),
      InductiveLimit = map_option b_Inductive (band_of inp),
      CapacitiveLimit = map_option b_Capacitive (band_of inp),
      InductiveKvarhCharged = inductive_charge inp, CapacitiveKvarhCharged = capacitive_charge inp,
      InductivePenalty = penalty_of (ri_UnitPrice inp) (inductive_charge inp),
      CapacitivePenalty = penalty_of (ri_UnitPrice inp) (capacitive_charge inp),
      Applied = (inductive_charge inp \<noteq> None \<or> capacitive_charge inp \<noteq> None),
      Missing = missing_of inp\<rparr>"
proof (cases "exemption inp")
  case (Some e)
  then show ?thesis
    by (simp add: Evaluate_def Let_def inductive_charge_def capacitive_charge_def missing_of_def
        band_of_def zero_result_def)
next
  case ex: None
  show ?thesis
  proof (cases "band_of inp")
    case None
    then have "ri_InstalledPowerKw inp = None \<or>
        (\<exists>kw. ri_InstalledPowerKw inp = Some kw \<and> FindBand (p_ReactiveBands (ri_Params inp)) kw = None)"
      using ex by (cases "ri_InstalledPowerKw inp") (simp_all add: band_of_def)
    then show ?thesis
      using None ex by (elim disjE exE conjE)
        (simp_all add: Evaluate_def Let_def inductive_charge_def capacitive_charge_def missing_of_def
          zero_result_def)
  next
    case (Some b)
    then obtain kw where kw: "ri_InstalledPowerKw inp = Some kw"
      and b: "FindBand (p_ReactiveBands (ri_Params inp)) kw = Some b"
      using ex by (cases "ri_InstalledPowerKw inp") (simp_all add: band_of_def)
    define i where "i = charge (p_ReactivePenaltyBasis (ri_Params inp)) (ri_NetConsumption inp)
      (b_Inductive b) (ri_Inductive inp)"
    define c where "c = charge (p_ReactivePenaltyBasis (ri_Params inp)) (ri_NetConsumption inp)
      (b_Capacitive b) (ri_Capacitive inp)"
    have ic: "inductive_charge inp = i" "capacitive_charge inp = c"
      using Some by (simp_all add: inductive_charge_def capacitive_charge_def i_def c_def)
    have i: "ri_Inductive inp = None \<Longrightarrow> i = None" and c: "ri_Capacitive inp = None \<Longrightarrow> c = None"
      by (simp_all add: i_def c_def charge_def)
    have two: "let r1 = (if ri_Inductive inp = None then r\<lparr>Missing := Missing r @ [MissingInductive]\<rparr>
            else if i = None then r else r\<lparr>Applied := True\<rparr>);
          r2 = r1\<lparr>InductiveKvarhCharged := i, InductivePenalty := penalty_of (ri_UnitPrice inp) i\<rparr>;
          r3 = (if ri_Capacitive inp = None then r2\<lparr>Missing := Missing r2 @ [MissingCapacitive]\<rparr>
            else if c = None then r2 else r2\<lparr>Applied := True\<rparr>)
        in r3\<lparr>CapacitiveKvarhCharged := c, CapacitivePenalty := penalty_of (ri_UnitPrice inp) c\<rparr> =
          r\<lparr>InductiveKvarhCharged := i, CapacitiveKvarhCharged := c,
            InductivePenalty := penalty_of (ri_UnitPrice inp) i,
            CapacitivePenalty := penalty_of (ri_UnitPrice inp) c,
            Applied := Applied r \<or> i \<noteq> None \<or> c \<noteq> None,
            Missing := Missing r @ (if ri_Inductive inp = None then [MissingInductive] else []) @
              (if ri_Capacitive inp = None then [MissingCapacitive] else [])\<rparr>" for r
      by (cases r; cases "ri_Inductive inp"; cases "ri_Capacitive inp"; cases i; cases c)
        (use i c in \<open>simp_all add: Let_def\<close>)
    show ?thesis
      unfolding Evaluate_def ex kw b option.case side_eq i_def [symmetric] c_def [symmetric]
        prod.case Let_def two [unfolded Let_def] ic missing_of_def Some
      by (simp add: zero_result_def)
  qed
qed

lemma Evaluate_simps [simp]:
  "Exempt (Evaluate L inp) = (exemption inp \<noteq> None)" "ExemptReason (Evaluate L inp) = exemption inp"
  "InductiveLimit (Evaluate L inp) = map_option b_Inductive (band_of inp)"
  "CapacitiveLimit (Evaluate L inp) = map_option b_Capacitive (band_of inp)"
  "InductiveKvarhCharged (Evaluate L inp) = inductive_charge inp"
  "CapacitiveKvarhCharged (Evaluate L inp) = capacitive_charge inp"
  "InductivePenalty (Evaluate L inp) = penalty_of (ri_UnitPrice inp) (inductive_charge inp)"
  "CapacitivePenalty (Evaluate L inp) = penalty_of (ri_UnitPrice inp) (capacitive_charge inp)"
  "Applied (Evaluate L inp) = (inductive_charge inp \<noteq> None \<or> capacitive_charge inp \<noteq> None)"
  "Missing (Evaluate L inp) = missing_of inp"
  by (simp_all add: Evaluate_eq)

lemma charge_pos:
  assumes "charge basis net limit reg = Some c" and "0 < limit"
  shows "0 < c" and "reg = Some y \<Longrightarrow> c \<le> y"
proof -
  from assms obtain x where x: "reg = Some x" "0 \<le> net" "limit * net < x"
    and c: "c = (if basis = ReactivePenaltyBasisExcessOverLimit then x - limit * net else x)"
    by (auto simp: charge_def split: option.splits if_splits)
  have "0 \<le> limit * net" using x(2) assms(2) by simp
  with x c show "0 < c" "reg = Some y \<Longrightarrow> c \<le> y" for y by auto
qed

lemma charge_mono:
  assumes "charge basis net limit (Some x) = Some c" and "x \<le> x'"
  shows "\<exists>c'. charge basis net limit (Some x') = Some c' \<and> c \<le> c'"
  using assms by (auto simp: charge_def split: if_splits)

lemma FindBand_in: "FindBand bands kw = Some b \<Longrightarrow>
  b \<in> set bands \<and> b_MinKw b \<le> kw \<and> (case b_MaxKw b of None \<Rightarrow> True | Some mx \<Rightarrow> kw < mx)"
  by (induction bands) (auto split: if_splits)

lemma band_of_Some: "band_of inp = Some b \<longleftrightarrow>
  exemption inp = None \<and> (\<exists>kw. ri_InstalledPowerKw inp = Some kw \<and>
    FindBand (p_ReactiveBands (ri_Params inp)) kw = Some b)"
  by (auto simp: band_of_def bind_eq_Some_conv)

text \<open>What a side of the rule promises: \<open>limit\<close> and \<open>reg\<close> are its limit and its register.\<close>

definition side_charged ::
  "reactive_input \<Rightarrow> reactive_result \<Rightarrow> (reactive_band \<Rightarrow> dec) \<Rightarrow> dec option \<Rightarrow> dec option \<Rightarrow> dec \<Rightarrow> bool" where
  "side_charged inp r limit reg charged penalty \<longleftrightarrow>
     (charged \<noteq> None \<longleftrightarrow> \<not> Exempt r \<and> (\<exists>kw b x. ri_InstalledPowerKw inp = Some kw \<and>
        FindBand (p_ReactiveBands (ri_Params inp)) kw = Some b \<and> reg = Some x \<and>
        0 \<le> ri_NetConsumption inp \<and> limit b * ri_NetConsumption inp < x)) \<and>
     (case charged of None \<Rightarrow> penalty = 0
      | Some c \<Rightarrow> 0 < c \<and> c \<le> the reg \<and> Applied r \<and>
          penalty = c * (case ri_UnitPrice inp of None \<Rightarrow> 0 | Some p \<Rightarrow> p))"

lemma side_charge_Some:
  "Option.bind (band_of inp) (\<lambda>b. charge basis (ri_NetConsumption inp) (limit b) reg) \<noteq> None \<longleftrightarrow>
   exemption inp = None \<and> (\<exists>kw b x. ri_InstalledPowerKw inp = Some kw \<and>
    FindBand (p_ReactiveBands (ri_Params inp)) kw = Some b \<and> reg = Some x \<and>
    0 \<le> ri_NetConsumption inp \<and> limit b * ri_NetConsumption inp < x)"
proof (cases "band_of inp")
  case None
  then show ?thesis using band_of_Some [of inp] by auto
next
  case (Some b)
  note band = Some [unfolded band_of_Some]
  have "Option.bind (band_of inp) (\<lambda>b. charge basis (ri_NetConsumption inp) (limit b) reg) \<noteq> None \<longleftrightarrow>
      (\<exists>x. reg = Some x \<and> 0 \<le> ri_NetConsumption inp \<and> limit b * ri_NetConsumption inp < x)"
    using Some by (simp only: bind.simps charge_iff)
  then show ?thesis using band by auto
qed

lemma side_charge_bounds:
  assumes "Option.bind (band_of inp) (\<lambda>b. charge basis (ri_NetConsumption inp) (limit b) reg) = Some c"
    and "\<forall>b \<in> set (p_ReactiveBands (ri_Params inp)). 0 < limit b"
  shows "0 < c \<and> c \<le> the reg"
proof -
  obtain b where "band_of inp = Some b"
    and c: "charge basis (ri_NetConsumption inp) (limit b) reg = Some c"
    using assms(1) by (auto simp: bind_eq_Some_conv)
  then have "0 < limit b" using assms(2) FindBand_in by (auto simp: band_of_Some)
  moreover obtain x where "reg = Some x"
    using c by (auto simp: charge_def split: option.splits)
  ultimately show ?thesis using charge_pos [OF c] by simp
qed

lemma side_charged_bind:
  assumes "charged = Option.bind (band_of inp) (\<lambda>b. charge basis (ri_NetConsumption inp) (limit b) reg)"
    and "\<forall>b \<in> set (p_ReactiveBands (ri_Params inp)). 0 < limit b"
    and "Exempt r = (exemption inp \<noteq> None)" and "charged \<noteq> None \<Longrightarrow> Applied r"
    and "penalty = penalty_of (ri_UnitPrice inp) charged"
  shows "side_charged inp r limit reg charged penalty"
proof -
  have "case charged of None \<Rightarrow> penalty = 0
      | Some c \<Rightarrow> 0 < c \<and> c \<le> the reg \<and> Applied r \<and>
          penalty = c * (case ri_UnitPrice inp of None \<Rightarrow> 0 | Some p \<Rightarrow> p)"
  proof (cases charged)
    case (Some c)
    have "0 < c \<and> c \<le> the reg" by (rule side_charge_bounds [OF _ assms(2)]) (use Some assms(1) in simp)
    then show ?thesis using Some assms(4,5) by (simp split: option.split)
  qed (simp add: assms(5))
  moreover have "charged \<noteq> None \<longleftrightarrow> \<not> Exempt r \<and> (\<exists>kw b x. ri_InstalledPowerKw inp = Some kw \<and>
        FindBand (p_ReactiveBands (ri_Params inp)) kw = Some b \<and> reg = Some x \<and>
        0 \<le> ri_NetConsumption inp \<and> limit b * ri_NetConsumption inp < x)"
    unfolding assms(1,3) side_charge_Some not_not ..
  ultimately show ?thesis unfolding side_charged_def by blast
qed

lemma inductive_charge_bounds:
  assumes "inductive_charge inp = Some c"
    and "\<forall>b \<in> set (p_ReactiveBands (ri_Params inp)). 0 < b_Inductive b"
  shows "0 < c \<and> c \<le> the (ri_Inductive inp)"
  using side_charge_bounds [OF assms(1) [unfolded inductive_charge_def] assms(2)] .

section \<open>Properties\<close>

text \<open>C29. When a penalty is charged: under positive limits a side is charged exactly when the invoice is not
  exempt, the installed power has a band, and the register exceeds limit times net (with a net of 0,
  when it is positive; with a negative net, never). The quantity charged is then positive and at most the register,
  the penalty is that quantity at the unit price, and 0 without a price. \<open>Applied\<close> says
  whether a side was charged, and an exempt invoice has nothing charged and nothing missing.\<close>

theorem Evaluate_charges:
  fixes L inp
  defines "r \<equiv> Evaluate L inp"
  assumes "\<forall>b \<in> set (p_ReactiveBands (ri_Params inp)). 0 < b_Inductive b \<and> 0 < b_Capacitive b"
  shows "side_charged inp r b_Inductive (ri_Inductive inp) (InductiveKvarhCharged r) (InductivePenalty r) \<and>
    side_charged inp r b_Capacitive (ri_Capacitive inp) (CapacitiveKvarhCharged r) (CapacitivePenalty r) \<and>
    Applied r = (InductiveKvarhCharged r \<noteq> None \<or> CapacitiveKvarhCharged r \<noteq> None) \<and>
    (Exempt r \<longrightarrow> \<not> Applied r \<and> Missing r = [] \<and> InductivePenalty r = 0 \<and> CapacitivePenalty r = 0)"
proof -
  have "side_charged inp r b_Inductive (ri_Inductive inp) (InductiveKvarhCharged r) (InductivePenalty r)"
    by (rule side_charged_bind) (use assms in \<open>auto simp: r_def inductive_charge_def\<close>)
  moreover have "side_charged inp r b_Capacitive (ri_Capacitive inp) (CapacitiveKvarhCharged r) (CapacitivePenalty r)"
    by (rule side_charged_bind) (use assms in \<open>auto simp: r_def capacitive_charge_def\<close>)
  moreover have "Exempt r \<longrightarrow> \<not> Applied r \<and> Missing r = [] \<and> InductivePenalty r = 0 \<and> CapacitivePenalty r = 0"
    by (auto simp: r_def inductive_charge_def capacitive_charge_def band_of_def missing_of_def)
  moreover have "Applied r = (InductiveKvarhCharged r \<noteq> None \<or> CapacitiveKvarhCharged r \<noteq> None)" by (simp add: r_def)
  ultimately show ?thesis by blast
qed

definition sample_reactive :: reactive_input where
  "sample_reactive =
     \<lparr>ri_NetConsumption = 1000, ri_Inductive = Some 400, ri_Capacitive = Some 100, ri_ActiveExport = None,
      ri_ActiveExportKnownSum = 0, ri_ActiveExportPartial = False, ri_InstalledPowerKw = Some 20,
      ri_Term = TariffTermMonomial, ri_UserGroup = UserGroupCommercial, ri_UnitPrice = Some 2,
      ri_Params = sample_params\<rparr>"

theorem Evaluate_charges_witness:
  "side_charged sample_reactive (Evaluate std_declib sample_reactive) b_Capacitive (Some 100) None 0 \<and>
   InductivePenalty (Evaluate std_declib sample_reactive) = 800"
proof -
  have "\<forall>b \<in> set (p_ReactiveBands (ri_Params sample_reactive)). 0 < b_Inductive b \<and> 0 < b_Capacitive b"
    by (simp add: sample_reactive_def sample_params_def)
  from Evaluate_charges [OF this, of std_declib, THEN conjunct2, THEN conjunct1] show ?thesis
    by (simp add: sample_reactive_def sample_params_def inductive_charge_def capacitive_charge_def band_of_def
        exemption_def charge_def Let_def)
qed

text \<open>More reactive energy never costs less: with positive limits and a unit price that is not negative, raising
  the inductive register (everything else equal) never lowers the inductive penalty, and never
  uncharges a side that was charged.\<close>

theorem Evaluate_inductive_mono:
  assumes "\<forall>b \<in> set (p_ReactiveBands (ri_Params inp)). 0 < b_Inductive b"
    and "ri_UnitPrice inp = Some price" and "0 \<le> price"
    and "ri_Inductive inp = Some x" and "x \<le> x'"
  shows "(InductivePenalty (Evaluate L inp) \<le> InductivePenalty (Evaluate L (inp\<lparr>ri_Inductive := Some x'\<rparr>))) \<and>
    (InductiveKvarhCharged (Evaluate L inp) \<noteq> None \<longrightarrow>
      InductiveKvarhCharged (Evaluate L (inp\<lparr>ri_Inductive := Some x'\<rparr>)) \<noteq> None)"
proof -
  have part1: "InductivePenalty (Evaluate L inp) \<le> InductivePenalty (Evaluate L (inp\<lparr>ri_Inductive := Some x'\<rparr>))"
    and part2: "InductiveKvarhCharged (Evaluate L inp) \<noteq> None \<Longrightarrow>
      InductiveKvarhCharged (Evaluate L (inp\<lparr>ri_Inductive := Some x'\<rparr>)) \<noteq> None"
  proof -
    let ?inp = "inp\<lparr>ri_Inductive := Some x'\<rparr>"
    have "exemption ?inp = exemption inp" by (cases inp) (simp add: exemption_def)
    then have band: "band_of ?inp = band_of inp" by (simp add: band_of_def)
    have up: "\<exists>c'. inductive_charge ?inp = Some c' \<and> c \<le> c'" if "inductive_charge inp = Some c" for c
      using that assms(4) charge_mono [OF _ assms(5)]
      by (auto simp: inductive_charge_def band bind_eq_Some_conv)
    have pos: "0 < c" if "inductive_charge ?inp = Some c" for c
      using inductive_charge_bounds [OF that] assms(1) by simp
    show "InductivePenalty (Evaluate L inp) \<le> InductivePenalty (Evaluate L ?inp)"
    proof (cases "inductive_charge inp")
      case None
      then show ?thesis
        using pos assms(2,3) by (cases "inductive_charge ?inp") (simp_all add: mult_nonneg_nonneg less_imp_le)
    next
      case (Some c)
      with up obtain c' where "inductive_charge ?inp = Some c'" "c \<le> c'" by blast
      with Some assms(2,3) show ?thesis by (simp add: mult_right_mono)
    qed
    show "InductiveKvarhCharged (Evaluate L inp) \<noteq> None \<Longrightarrow> InductiveKvarhCharged (Evaluate L ?inp) \<noteq> None"
      using up by auto
  qed
  show ?thesis using part1 part2 by blast
qed

theorem Evaluate_inductive_mono_witness:
  "InductivePenalty (Evaluate std_declib sample_reactive) \<le>
     InductivePenalty (Evaluate std_declib (sample_reactive\<lparr>ri_Inductive := Some 500\<rparr>))"
  by (rule Evaluate_inductive_mono [where price = 2 and x = 400, THEN conjunct1])
    (simp_all add: sample_reactive_def sample_params_def)

end
