(* ===== verification/Tariff_Params.thy ===== *)
theory Tariff_Params
  imports Reactive
begin

text \<open>
  \<open>tariff/params.go\<close>: the check of a billing parameter set. Every failure wraps one error
  with a formatted message; \<open>params_error\<close> has one constructor per message, with the values
  the message prints. The result is \<open>Inl\<close> the error or \<open>Inr ()\<close> for nil.
\<close>

section \<open>ValidateParams\<close>

datatype params_error =
    BadEnum
  | BadExemptTerm tariff_term
  | BadExemptUserGroup distribution_user_group
  | BadTieringVoltageLevel voltage_level
  | BadTieringSupplyCompany supply_company
  | NoBands
  | BandStart nat dec dec
  | BandLimits nat
  | OnlyLastUnbounded
  | BandEmpty nat
  | BadTolerance
  | BadMultiplier
  | BadGenerationExempt
  | BadTieringGroup distribution_user_group dec

fun first_invalid :: "('a \<Rightarrow> bool) \<Rightarrow> 'a list \<Rightarrow> 'a option" where
  "first_invalid valid [] = None"
| "first_invalid valid (v # vs) = (if \<not> valid v then Some v else first_invalid valid vs)"

text \<open>The loop over the bands: \<open>i\<close> is the index, \<open>next\<close> where the band must start;
  a band is the last one when nothing follows it.\<close>

fun check_bands :: "nat \<Rightarrow> dec \<Rightarrow> reactive_band list \<Rightarrow> params_error option" where
  "check_bands i nxt [] = None"
| "check_bands i nxt (b # bands) =
     (if b_MinKw b \<noteq> nxt then Some (BandStart i (b_MinKw b) nxt)
      else if \<not> 0 < b_Inductive b \<or> \<not> 0 < b_Capacitive b then Some (BandLimits i)
      else
        let last = (bands = [])
        in if last \<noteq> (b_MaxKw b = None) then Some OnlyLastUnbounded
           else case b_MaxKw b of
             None \<Rightarrow> check_bands (i + 1) nxt bands
           | Some mx \<Rightarrow> if mx \<le> b_MinKw b then Some (BandEmpty i) else check_bands (i + 1) mx bands)"

fun check_groups :: "(distribution_user_group \<times> dec) list \<Rightarrow> params_error option" where
  "check_groups [] = None"
| "check_groups ((g, v) # groups) =
     (if \<not> DistributionUserGroup_Valid g \<or> \<not> 0 < v then Some (BadTieringGroup g v)
      else check_groups groups)"

definition bands_start :: "billing_parameters \<Rightarrow> dec" where
  "bands_start p = (case p_ReactiveExemptBelowKw p of None \<Rightarrow> 0 | Some kw \<Rightarrow> kw)"

definition ValidateParams :: "billing_parameters \<Rightarrow> params_error + unit" where
  "ValidateParams p =
     (if \<not> ReactivePenaltyBasis_Valid (p_ReactivePenaltyBasis p) \<or> \<not> TieringMode_Valid (p_TieringMode p) \<or>
         \<not> MoneyRoundingMode_Valid (p_MoneyRoundingMode p) then Inl BadEnum
      else case first_invalid TariffTerm_Valid (p_ReactiveExemptTerms p) of
        Some v \<Rightarrow> Inl (BadExemptTerm v)
      | None \<Rightarrow>
      case first_invalid DistributionUserGroup_Valid (p_ReactiveExemptUserGroups p) of
        Some v \<Rightarrow> Inl (BadExemptUserGroup v)
      | None \<Rightarrow>
      case first_invalid VoltageLevel_Valid (p_TieringVoltageLevels p) of
        Some v \<Rightarrow> Inl (BadTieringVoltageLevel v)
      | None \<Rightarrow>
      case first_invalid SupplyCompany_Valid (p_TieringSupplyCompanies p) of
        Some v \<Rightarrow> Inl (BadTieringSupplyCompany v)
      | None \<Rightarrow>
      if p_ReactiveBands p = [] then Inl NoBands
      else case check_bands 0 (bands_start p) (p_ReactiveBands p) of
        Some e \<Rightarrow> Inl e
      | None \<Rightarrow>
      if p_PTFMissingHourTolerance p < 0 \<or> 1 < p_PTFMissingHourTolerance p then Inl BadTolerance
      else if p_DemandOverrunMultiplier p < 0 then Inl BadMultiplier
      else if p_ReactiveGenerationExemptKwh p < 0 then Inl BadGenerationExempt
      else case check_groups (p_TieringGroups p) of
        Some e \<Rightarrow> Inl e
      | None \<Rightarrow> Inr ())"

section \<open>What an accepted set looks like\<close>

text \<open>Bands that follow each other from a start, all limits positive, the last one unbounded.\<close>

fun band_chain :: "dec \<Rightarrow> reactive_band list \<Rightarrow> bool" where
  "band_chain start [] \<longleftrightarrow> False"
| "band_chain start [b] \<longleftrightarrow> b_MinKw b = start \<and> 0 < b_Inductive b \<and> 0 < b_Capacitive b \<and> b_MaxKw b = None"
| "band_chain start (b # c # bs) \<longleftrightarrow>
     b_MinKw b = start \<and> 0 < b_Inductive b \<and> 0 < b_Capacitive b \<and>
     (\<exists>mx. b_MaxKw b = Some mx \<and> start < mx \<and> band_chain mx (c # bs))"

lemma first_invalid_None [simp]: "first_invalid valid vs = None \<longleftrightarrow> (\<forall>v \<in> set vs. valid v)"
  by (induction vs) auto

lemma check_groups_None [simp]: "check_groups gs = None \<longleftrightarrow>
  (\<forall>(g, v) \<in> set gs. DistributionUserGroup_Valid g \<and> 0 < v)"
  by (induction gs rule: check_groups.induct) auto

lemma check_bands_None: "bands \<noteq> [] \<Longrightarrow> check_bands i nxt bands = None \<longleftrightarrow> band_chain nxt bands"
proof (induction nxt bands arbitrary: i rule: band_chain.induct)
  case (2 start b)
  then show ?case by (simp add: Let_def split: option.split) auto
next
  case (3 start b c bs)
  then show ?case
    by (cases "b_MaxKw b"; cases "b_MinKw b = start") (simp_all add: Let_def not_less del: check_bands.simps(2)
      add: check_bands.simps(2) [of _ _ b])
qed simp

lemma ValidateParams_iff:
  "ValidateParams p = Inr () \<longleftrightarrow>
     ReactivePenaltyBasis_Valid (p_ReactivePenaltyBasis p) \<and> TieringMode_Valid (p_TieringMode p) \<and>
     MoneyRoundingMode_Valid (p_MoneyRoundingMode p) \<and>
     (\<forall>v \<in> set (p_ReactiveExemptTerms p). TariffTerm_Valid v) \<and>
     (\<forall>v \<in> set (p_ReactiveExemptUserGroups p). DistributionUserGroup_Valid v) \<and>
     (\<forall>v \<in> set (p_TieringVoltageLevels p). VoltageLevel_Valid v) \<and>
     (\<forall>v \<in> set (p_TieringSupplyCompanies p). SupplyCompany_Valid v) \<and>
     band_chain (bands_start p) (p_ReactiveBands p) \<and>
     0 \<le> p_PTFMissingHourTolerance p \<and> p_PTFMissingHourTolerance p \<le> 1 \<and>
     0 \<le> p_DemandOverrunMultiplier p \<and> 0 \<le> p_ReactiveGenerationExemptKwh p \<and>
     (\<forall>(g, v) \<in> set (p_TieringGroups p). DistributionUserGroup_Valid g \<and> 0 < v)"
proof -
  have opt: "(case x of None \<Rightarrow> y | Some e \<Rightarrow> Inl (f e)) = Inr () \<longleftrightarrow> x = None \<and> y = Inr ()"
    for x :: "'a option" and y :: "params_error + unit" and f
    by (simp split: option.split)
  have iff: "(if c then Inl e else y) = Inr () \<longleftrightarrow> \<not> c \<and> y = Inr ()"
    for c and e :: params_error and y :: "params_error + unit"
    by simp
  have bands: "p_ReactiveBands p \<noteq> [] \<and> check_bands 0 (bands_start p) (p_ReactiveBands p) = None \<longleftrightarrow>
      band_chain (bands_start p) (p_ReactiveBands p)"
    by (cases "p_ReactiveBands p = []") (simp_all add: check_bands_None)
  have fin: "(case x of None \<Rightarrow> Inr () | Some e \<Rightarrow> Inl e) = (Inr () :: params_error + unit) \<longleftrightarrow> x = None" for x
    by (simp split: option.split)
  show ?thesis
    unfolding ValidateParams_def iff opt fin first_invalid_None check_groups_None bands [symmetric]
    by (auto simp: not_less)
qed

lemma band_chain_min: "band_chain start bands \<Longrightarrow> b \<in> set bands \<Longrightarrow> start \<le> b_MinKw b"
  by (induction start bands rule: band_chain.induct) (auto intro: order_trans less_imp_le)

lemma band_chain_limits: "band_chain start bands \<Longrightarrow> b \<in> set bands \<Longrightarrow> 0 < b_Inductive b \<and> 0 < b_Capacitive b"
  by (induction start bands rule: band_chain.induct) auto

definition holds_kw :: "reactive_band \<Rightarrow> dec \<Rightarrow> bool" where
  "holds_kw b kw \<longleftrightarrow> b_MinKw b \<le> kw \<and> (case b_MaxKw b of None \<Rightarrow> True | Some mx \<Rightarrow> kw < mx)"

lemma band_chain_below: "band_chain start bands \<Longrightarrow> kw < start \<Longrightarrow> FindBand bands kw = None"
proof (induction start bands rule: band_chain.induct)
  case (3 start b c bs)
  then obtain mx where "start < mx" "band_chain mx (c # bs)" "b_MinKw b = start" by auto
  with 3 show ?case by auto
qed auto

lemma band_chain_holds:
  "band_chain start bands \<Longrightarrow> start \<le> kw \<Longrightarrow>
   \<exists>b. FindBand bands kw = Some b \<and> (\<forall>c \<in> set bands. holds_kw c kw \<longleftrightarrow> c = b)"
proof (induction start bands rule: band_chain.induct)
  case (2 start b)
  then show ?case by (auto simp: holds_kw_def)
next
  case (3 start b c bs)
  then obtain mx where mx: "b_MaxKw b = Some mx" "start < mx" "band_chain mx (c # bs)"
    and min: "b_MinKw b = start" by auto
  show ?case
  proof (cases "kw < mx")
    case True
    have "\<not> holds_kw d kw" if "d \<in> set (c # bs)" for d
      using band_chain_min [OF mx(3) that] True by (simp add: holds_kw_def)
    moreover have "holds_kw b kw" using mx(1) min True "3.prems" by (simp add: holds_kw_def)
    moreover have "FindBand (b # c # bs) kw = Some b" using mx(1) min True "3.prems"(2) by simp
    ultimately show ?thesis by (intro exI [of _ b]) auto
  next
    case False
    then obtain d where d: "FindBand (c # bs) kw = Some d" "\<forall>e \<in> set (c # bs). holds_kw e kw \<longleftrightarrow> e = d"
      using "3.IH" [OF mx(3)] by auto
    have "\<not> holds_kw b kw" using mx(1) False by (simp add: holds_kw_def)
    moreover have "FindBand (b # c # bs) kw = Some d" using d(1) mx(1) min False by simp
    moreover have "b \<noteq> d" using d FindBand_in [OF d(1)] \<open>\<not> holds_kw b kw\<close> by (auto simp: holds_kw_def)
    ultimately show ?thesis using d(2) by (intro exI [of _ d]) auto
  qed
qed simp

lemma ValidateParams_chain: "ValidateParams p = Inr () \<Longrightarrow> band_chain (bands_start p) (p_ReactiveBands p)"
  by (simp add: ValidateParams_iff)

section \<open>Properties\<close>

text \<open>C28. A parameter set the check accepts gives every installed power exactly one reactive band: from the size
  exemption (or 0) upward one band holds the power and it is the one \<open>FindBand\<close> returns, below it there
  is none, and every limit is positive.\<close>

theorem ValidateParams_bands:
  assumes "ValidateParams p = Inr ()"
  shows "(bands_start p \<le> kw \<longrightarrow>
      (\<exists>b. FindBand (p_ReactiveBands p) kw = Some b \<and> (\<forall>c \<in> set (p_ReactiveBands p). holds_kw c kw \<longleftrightarrow> c = b))) \<and>
    (kw < bands_start p \<longrightarrow> FindBand (p_ReactiveBands p) kw = None) \<and>
    (\<forall>b \<in> set (p_ReactiveBands p). 0 < b_Inductive b \<and> 0 < b_Capacitive b)"
proof -
  have part1: "bands_start p \<le> kw \<Longrightarrow>
      \<exists>b. FindBand (p_ReactiveBands p) kw = Some b \<and> (\<forall>c \<in> set (p_ReactiveBands p). holds_kw c kw \<longleftrightarrow> c = b)"
    and part2: "kw < bands_start p \<Longrightarrow> FindBand (p_ReactiveBands p) kw = None"
    and part3: "\<forall>b \<in> set (p_ReactiveBands p). 0 < b_Inductive b \<and> 0 < b_Capacitive b"
    using ValidateParams_chain [OF assms] band_chain_holds band_chain_below band_chain_limits by blast+
  show ?thesis using part1 part2 part3 by blast
qed

lemma sample_params_valid: "ValidateParams sample_params = Inr ()"
  by (simp add: ValidateParams_iff sample_params_def enum_Valid enum_lists bands_start_def)

theorem ValidateParams_bands_witness:
  "\<exists>b. FindBand (p_ReactiveBands sample_params) 30 = Some b \<and>
     (\<forall>c \<in> set (p_ReactiveBands sample_params). holds_kw c 30 \<longleftrightarrow> c = b)"
  by (rule ValidateParams_bands [OF sample_params_valid, THEN conjunct1, rule_format]) (simp add: bands_start_def sample_params_def)

text \<open>Under an accepted parameter set the installed power is reported missing only when it is: an invoice of
  a known power that is not negative either is exempt or has the two limits of its band.\<close>

theorem ValidateParams_Evaluate:
  assumes "ValidateParams (ri_Params inp) = Inr ()"
    and "ri_InstalledPowerKw inp = Some kw" and "0 \<le> kw"
  shows "MissingInstalledPower \<notin> set (Missing (Evaluate L inp)) \<and>
    (Exempt (Evaluate L inp) \<or>
      InductiveLimit (Evaluate L inp) \<noteq> None \<and> CapacitiveLimit (Evaluate L inp) \<noteq> None)"
proof -
  have part1: "MissingInstalledPower \<notin> set (Missing (Evaluate L inp))"
    and part2: "Exempt (Evaluate L inp) \<or>
      InductiveLimit (Evaluate L inp) \<noteq> None \<and> CapacitiveLimit (Evaluate L inp) \<noteq> None"
  proof -
    have band: "band_of inp \<noteq> None" if "exemption inp = None"
    proof -
      have "bands_start (ri_Params inp) \<le> kw"
        using that assms(2,3)
        by (cases "p_ReactiveExemptBelowKw (ri_Params inp)")
          (auto simp: bands_start_def exemption_def Let_def not_less split: if_splits)
      then obtain b where "FindBand (p_ReactiveBands (ri_Params inp)) kw = Some b"
        using band_chain_holds [OF ValidateParams_chain [OF assms(1)]] by blast
      then show ?thesis using that assms(2) by (simp add: band_of_def)
    qed
    then show "MissingInstalledPower \<notin> set (Missing (Evaluate L inp))" by (cases "exemption inp") (auto simp: missing_of_def)
    show "Exempt (Evaluate L inp) \<or>
        InductiveLimit (Evaluate L inp) \<noteq> None \<and> CapacitiveLimit (Evaluate L inp) \<noteq> None"
      using band by (cases "exemption inp") auto
  qed
  show ?thesis by (rule conjI [OF part1 part2])
qed

theorem ValidateParams_Evaluate_witness:
  "MissingInstalledPower \<notin> set (Missing (Evaluate std_declib sample_reactive)) \<and>
   \<not> Exempt (Evaluate std_declib sample_reactive)"
proof -
  have v: "ValidateParams (ri_Params sample_reactive) = Inr ()"
    using sample_params_valid by (simp add: sample_reactive_def)
  have "MissingInstalledPower \<notin> set (Missing (Evaluate std_declib sample_reactive))"
    by (rule ValidateParams_Evaluate [OF v, of 20, THEN conjunct1]) (simp_all add: sample_reactive_def)
  then show ?thesis by (simp add: sample_reactive_def sample_params_def exemption_def)
qed

end
