(* ===== verification/Tariff_Pricing.thy ===== *)
theory Tariff_Pricing
  imports Model_Types Energy
begin

text \<open>
  \<open>tariff/pricing.go\<close>: PTF+YEKDEM pricing of one period. The maps keyed by hour are built
  from their sources in order, a later entry replacing an earlier one. Dereferencing a nil
  \<open>KbkEnergy\<close> panics in Go; that outcome is the error \<open>NilKbkEnergy\<close> here.
\<close>

section \<open>Types\<close>

type_synonym year_month = "int \<times> int"

record market =
  PTF :: "(time \<times> dec) list"
  Yekdem :: "year_month \<rightharpoonup> dec"
  ManualYekdem :: "year_month \<rightharpoonup> dec"

record hour_consumption =
  hc_Hour :: time
  hc_Kwh :: dec

record hour_detail =
  h_Hour :: time
  h_Kwh :: dec
  h_PTF :: dec
  h_Yekdem :: dec
  h_Kbk :: dec
  h_UnitPrice :: dec
  h_Cost :: dec

datatype pricing_method = MethodHourly | MethodPeriodAverage

datatype incomplete_reason = ReasonOverTolerance | ReasonYekdemMissing | ReasonNoPTF

record pricing =
  pr_Method :: pricing_method
  pr_BasePrice :: "dec option"
  pr_EnergyUnitPrice :: "dec option"
  pr_T1 :: "dec option"
  pr_T2 :: "dec option"
  pr_T3 :: "dec option"
  pr_PowerUnitPrice :: "dec option"
  pr_ReactiveUnitPrice :: "dec option"
  pr_DistributionUnitPrice :: "dec option"
  pr_PTFAverage :: "dec option"
  pr_YekdemUsed :: "dec option"
  pr_HoursExpected :: int
  pr_HoursMatched :: int
  pr_HoursMissingPrice :: int
  pr_HoursMissingConsumption :: int
  pr_Hourly :: "hour_detail list"
  pr_Complete :: bool
  pr_Reason :: "incomplete_reason option"

datatype price_error = ErrNotPTF | ErrInvalidPeriod | NilKbkEnergy

section \<open>Price\<close>

definition thousand :: dec where "thousand = 1000"

text \<open>\<open>FixedUnitPrices\<close>: the tariff's own power, reactive and distribution prices.\<close>

definition FixedUnitPrices :: "tariff \<Rightarrow> dec option \<times> dec option \<times> dec option" where
  "FixedUnitPrices t = (t_PowerUnitPrice t, Some (t_ReactivePowerPrice t), Some (t_DistributionCost t))"

text \<open>The closure \<open>yekdem\<close>: the monthly value in force at an instant.\<close>

definition yekdem_at :: "tariff \<Rightarrow> market \<Rightarrow> location \<Rightarrow> time \<Rightarrow> dec option" where
  "yekdem_at t m loc ts =
     (case date_in loc ts of (y, mo, _) \<Rightarrow>
        (case (if t_UseManualYekdem t then ManualYekdem m (y, mo) else None) of
           Some v \<Rightarrow> Some v
         | None \<Rightarrow> Yekdem m (y, mo)))"

definition ptfByHour :: "market \<Rightarrow> time \<rightharpoonup> dec" where
  "ptfByHour m = map_of (rev (PTF m))"

definition kwhByHour :: "hour_consumption list \<Rightarrow> time \<rightharpoonup> dec" where
  "kwhByHour hours = map_of (rev (map (\<lambda>h. (hc_Hour h, hc_Kwh h)) hours))"

text \<open>The variables of the loop over the hours.\<close>

record hour_totals =
  Expected :: int
  Priced :: int
  YekdemMissing :: bool
  PtfSum :: dec
  YekdemSum :: dec
  CostSum :: dec
  KwhSum :: dec
  Matched :: int
  MissingPrice :: int
  MissingConsumption :: int
  Details :: "hour_detail list"

definition no_hours :: hour_totals where
  "no_hours =
     \<lparr>Expected = 0, Priced = 0, YekdemMissing = False, PtfSum = 0, YekdemSum = 0, CostSum = 0,
      KwhSum = 0, Matched = 0, MissingPrice = 0, MissingConsumption = 0, Details = []\<rparr>"

text \<open>One hour; \<open>None\<close> is the nil dereference.\<close>

definition price_hour ::
  "declib \<Rightarrow> tariff \<Rightarrow> bool \<Rightarrow> (time \<rightharpoonup> dec) \<Rightarrow> (time \<rightharpoonup> dec) \<Rightarrow> (time \<rightharpoonup> dec) \<Rightarrow>
   time \<Rightarrow> hour_totals \<Rightarrow> hour_totals option" where
  "price_hour L t hourly yekdem ptf kwh h s =
     (let s = s\<lparr>Expected := Expected s + 1\<rparr>;
          s = (case yekdem h of
                 None \<Rightarrow> s\<lparr>YekdemMissing := True\<rparr>
               | Some y \<Rightarrow> s\<lparr>YekdemSum := YekdemSum s + y\<rparr>);
          s = (case ptf h of
                 None \<Rightarrow> s
               | Some p \<Rightarrow> s\<lparr>Priced := Priced s + 1, PtfSum := PtfSum s + p\<rparr>)
      in if \<not> hourly then Some s
         else case (ptf h, yekdem h) of
           (Some p, Some y) \<Rightarrow>
             (case kwh h of
                None \<Rightarrow> Some (s\<lparr>MissingConsumption := MissingConsumption s + 1\<rparr>)
              | Some k \<Rightarrow>
                  (case t_KbkEnergy t of
                     None \<Rightarrow> None
                   | Some kbk \<Rightarrow>
                       (let unit = DivRound L (p + y) thousand DivisionScale * kbk;
                            cost = k * unit
                        in Some (s\<lparr>Details := Details s @
                               [\<lparr>h_Hour = h, h_Kwh = k, h_PTF = p, h_Yekdem = y, h_Kbk = kbk,
                                 h_UnitPrice = unit, h_Cost = cost\<rparr>],
                             CostSum := CostSum s + cost, KwhSum := KwhSum s + k,
                             Matched := Matched s + 1\<rparr>))))
         | _ \<Rightarrow> Some (s\<lparr>MissingPrice := MissingPrice s + 1\<rparr>))"

function price_loop ::
  "(time \<Rightarrow> hour_totals \<Rightarrow> hour_totals option) \<Rightarrow> time \<Rightarrow> time \<Rightarrow> hour_totals \<Rightarrow> hour_totals option" where
  "price_loop step h stop s =
     (if h < stop
      then (case step h s of None \<Rightarrow> None | Some s' \<Rightarrow> price_loop step (h + hour) stop s')
      else Some s)"
  by pat_completeness auto
termination
  by (relation "measure (\<lambda>(step, h, stop, s). nat (stop - h))") (auto simp: hour_def ns_per_sec_def)

declare price_loop.simps [simp del]

text \<open>What follows the loop.\<close>

definition finish_pricing :: "declib \<Rightarrow> tariff \<Rightarrow> billing_parameters \<Rightarrow> bool \<Rightarrow> hour_totals \<Rightarrow> pricing" where
  "finish_pricing L t p hourly s =
     (let matched = (if hourly then Matched s else Priced s);
          missing_price = (if hourly then MissingPrice s else Expected s - Priced s);
          expected = of_int (Expected s);
          avg = (if 0 < Priced s then Some (DivRound L (PtfSum s) (of_int (Priced s)) DivisionScale) else None);
          used = (if \<not> YekdemMissing s then Some (DivRound L (YekdemSum s) expected DivisionScale) else None);
          base = (case (avg, used) of
                    (Some a, Some y) \<Rightarrow> Some (DivRound L (a + y) thousand DivisionScale) | _ \<Rightarrow> None);
          missing = Expected s - matched;
          reason = (if YekdemMissing s then Some ReasonYekdemMissing
                    else if Priced s = 0 then Some ReasonNoPTF
                    else if p_PTFMissingHourTolerance p < DivRound L (of_int missing) expected DivisionScale
                    then Some ReasonOverTolerance else None);
          times = (\<lambda>c. case (base, c) of (Some b, Some k) \<Rightarrow> Some (b * k) | _ \<Rightarrow> None);
          energy = (if hourly \<and> 0 < KwhSum s then Some (DivRound L (CostSum s) (KwhSum s) DivisionScale)
                    else times (t_KbkEnergy t))
      in case FixedUnitPrices t of (fixedPower, fixedReactive, fixedDistribution) \<Rightarrow>
         \<lparr>pr_Method = (if hourly then MethodHourly else MethodPeriodAverage), pr_BasePrice = base,
          pr_EnergyUnitPrice = energy, pr_T1 = times (t_KbkT1 t), pr_T2 = times (t_KbkT2 t),
          pr_T3 = times (t_KbkT3 t),
          pr_PowerUnitPrice =
            (if t_PowerPriceSource t \<noteq> PriceSourceFixed then times (t_KbkPowerPrice t) else fixedPower),
          pr_ReactiveUnitPrice =
            (if t_ReactivePriceSource t \<noteq> PriceSourceFixed then times (t_KbkReactivePower t) else fixedReactive),
          pr_DistributionUnitPrice =
            (if t_DistributionPriceSource t \<noteq> PriceSourceFixed then t_KbkDistributionCostTlPerKwh t
             else fixedDistribution),
          pr_PTFAverage = avg, pr_YekdemUsed = used, pr_HoursExpected = Expected s,
          pr_HoursMatched = matched, pr_HoursMissingPrice = missing_price,
          pr_HoursMissingConsumption = MissingConsumption s, pr_Hourly = Details s,
          pr_Complete = (reason = None), pr_Reason = reason\<rparr>)"

definition Price ::
  "declib \<Rightarrow> tariff \<Rightarrow> window \<Rightarrow> hour_consumption list \<Rightarrow> bool \<Rightarrow> market \<Rightarrow> billing_parameters \<Rightarrow>
   location \<Rightarrow> price_error + pricing" where
  "Price L t period hours hourlyAvailable m p loc =
     (if \<not> t_UsePtfYekdem t then Inl ErrNotPTF
      else if \<not> Valid period \<or> Truncate (From period) hour \<noteq> From period \<or>
              Truncate (To period) hour \<noteq> To period
      then Inl ErrInvalidPeriod
      else
        let hourly = (hourlyAvailable \<and> t_PriceType t = PriceTypeSingleTime)
        in case price_loop (price_hour L t hourly (yekdem_at t m loc) (ptfByHour m) (kwhByHour hours))
                  (From period) (To period) no_hours of
             None \<Rightarrow> Inl NilKbkEnergy
           | Some s \<Rightarrow> Inr (finish_pricing L t p hourly s))"

section \<open>The loop as a fold over the hours of the period\<close>

fun fold_hours :: "(time \<Rightarrow> hour_totals \<Rightarrow> hour_totals option) \<Rightarrow> time list \<Rightarrow> hour_totals \<Rightarrow> hour_totals option" where
  "fold_hours step [] s = Some s"
| "fold_hours step (h # hs) s = (case step h s of None \<Rightarrow> None | Some s' \<Rightarrow> fold_hours step hs s')"

definition hour_starts :: "time \<Rightarrow> nat \<Rightarrow> time list" where
  "hour_starts h n = map (\<lambda>i. h + int i * hour) [0..<n]"

lemma hour_pos [simp]: "0 < hour"
  by (simp add: hour_def ns_per_sec_def)

lemma hour_starts_Suc: "hour_starts h (Suc n) = h # hour_starts (h + hour) n"
  by (simp add: hour_starts_def map_upt_Suc algebra_simps del: upt_Suc)

lemma length_hour_starts [simp]: "length (hour_starts h n) = n"
  by (simp add: hour_starts_def)

lemma price_loop_fold:
  "price_loop step h (h + int n * hour) s = fold_hours step (hour_starts h n) s"
proof (induction n arbitrary: h s)
  case 0
  then show ?case by (simp add: price_loop.simps hour_starts_def)
next
  case (Suc n)
  have e: "h + int (Suc n) * hour = (h + hour) + int n * hour" by (simp add: algebra_simps)
  have "h < h + int (Suc n) * hour" by (simp add: zero_less_mult_iff)
  then show ?case
    unfolding price_loop.simps [of step h] hour_starts_Suc e
    using Suc.IH [of "h + hour"] by (simp split: option.split)
qed

lemma aligned_period:
  assumes "Truncate a hour = a" and "Truncate b hour = b" and "a < b"
  shows "\<exists>n. b = a + int n * hour \<and> 0 < n"
proof -
  have "a mod hour = 0" "b mod hour = 0" using assms(1,2) by (simp_all add: Truncate_hour)
  then have "hour dvd b - a" by (simp add: mod_eq_0_iff_dvd)
  then obtain k where k: "b - a = hour * k" by (elim dvdE)
  with assms(3) have "0 < hour * k" by simp
  then have "0 < k" using hour_pos by (simp add: zero_less_mult_iff)
  then have "b = a + int (nat k) * hour \<and> 0 < nat k" using k by (simp add: algebra_simps)
  then show ?thesis ..
qed

lemma Price_Inr:
  assumes "Price L t period hours hourlyAvailable m p loc = Inr out"
  obtains n s hourly where
    "To period = From period + int n * hour" and "0 < n" and "t_UsePtfYekdem t"
    and "hourly = (hourlyAvailable \<and> t_PriceType t = PriceTypeSingleTime)"
    and "fold_hours (price_hour L t hourly (yekdem_at t m loc) (ptfByHour m) (kwhByHour hours))
          (hour_starts (From period) n) no_hours = Some s"
    and "out = finish_pricing L t p hourly s"
proof -
  from assms have c: "t_UsePtfYekdem t" "From period < To period" "Truncate (From period) hour = From period"
    "Truncate (To period) hour = To period"
    by (auto simp: Price_def Valid_def split: if_splits)
  from aligned_period [OF c(3,4,2)] obtain n where n: "To period = From period + int n * hour" "0 < n" by blast
  let ?hourly = "hourlyAvailable \<and> t_PriceType t = PriceTypeSingleTime"
  let ?loop = "fold_hours (price_hour L t ?hourly (yekdem_at t m loc) (ptfByHour m) (kwhByHour hours))
    (hour_starts (From period) n) no_hours"
  have "Price L t period hours hourlyAvailable m p loc =
      (case ?loop of None \<Rightarrow> Inl NilKbkEnergy | Some s \<Rightarrow> Inr (finish_pricing L t p ?hourly s))"
    using c by (simp add: Price_def Valid_def Let_def n(1) price_loop_fold)
  with assms obtain s where "?loop = Some s" "out = finish_pricing L t p ?hourly s"
    by (auto split: option.splits)
  then show thesis by (rule that [OF n c(1) refl])
qed

section \<open>What the loop keeps\<close>

lemma fold_hours_invariant:
  assumes "fold_hours step hs s = Some s'" and "I s"
    and "\<And>h s s'. I s \<Longrightarrow> step h s = Some s' \<Longrightarrow> I s'"
  shows "I s'"
  using assms(1,2) by (induction hs arbitrary: s) (auto split: option.splits intro: assms(3))

text \<open>The counters that both methods fill.\<close>

definition known :: "(time \<rightharpoonup> dec) \<Rightarrow> time list \<Rightarrow> dec list" where
  "known f hs = List.map_filter f hs"

lemma known_simps [simp]:
  "known f [] = []" "known f (h # hs) = (case f h of None \<Rightarrow> known f hs | Some v \<Rightarrow> v # known f hs)"
  by (simp_all add: known_def List.map_filter_simps split: option.split)

lemma price_hour_counters:
  assumes "price_hour L t hourly yekdem ptf kwh h s = Some s'"
  shows "Expected s' = Expected s + 1" and "YekdemMissing s' \<longleftrightarrow> YekdemMissing s \<or> yekdem h = None"
    and "Priced s' = Priced s + int (length (known ptf [h]))" and "PtfSum s' = PtfSum s + sum_list (known ptf [h])"
    and "YekdemSum s' = YekdemSum s + sum_list (known yekdem [h])"
  using assms by (auto simp: price_hour_def Let_def split: option.splits if_splits)

lemma fold_hours_counters:
  assumes "fold_hours (price_hour L t hourly yekdem ptf kwh) hs s = Some s'"
  shows "Expected s' = Expected s + int (length hs) \<and>
    (YekdemMissing s' \<longleftrightarrow> YekdemMissing s \<or> (\<exists>h \<in> set hs. yekdem h = None)) \<and>
    Priced s' = Priced s + int (length (known ptf hs)) \<and> PtfSum s' = PtfSum s + sum_list (known ptf hs) \<and>
    YekdemSum s' = YekdemSum s + sum_list (known yekdem hs)"
  using assms
proof (induction hs arbitrary: s)
  case (Cons h hs)
  then obtain s1 where s1: "price_hour L t hourly yekdem ptf kwh h s = Some s1"
    "fold_hours (price_hour L t hourly yekdem ptf kwh) hs s1 = Some s'"
    by (auto split: option.splits)
  show ?case
    using Cons.IH [OF s1(2)] price_hour_counters [OF s1(1)]
    by (cases "ptf h"; cases "yekdem h") simp_all
qed simp

text \<open>The hourly method: every hour is matched, lacks a price or lacks a consumption, and the sums are
  those of the details.\<close>

definition details_account :: "hour_totals \<Rightarrow> bool" where
  "details_account s \<longleftrightarrow>
     Matched s = int (length (Details s)) \<and> 0 \<le> MissingPrice s \<and> 0 \<le> MissingConsumption s \<and>
     CostSum s = sum_list (map h_Cost (Details s)) \<and> KwhSum s = sum_list (map h_Kwh (Details s)) \<and>
     (\<forall>d \<in> set (Details s). h_Cost d = h_Kwh d * h_UnitPrice d)"

lemma price_hour_details:
  assumes "price_hour L t hourly yekdem ptf kwh h s = Some s'" and "details_account s"
  shows "details_account s'"
    and "hourly \<Longrightarrow> Matched s' + MissingPrice s' + MissingConsumption s' =
      Matched s + MissingPrice s + MissingConsumption s + 1"
    and "\<not> hourly \<Longrightarrow> Details s' = Details s \<and> MissingConsumption s' = MissingConsumption s \<and> MissingPrice s' = MissingPrice s"
  using assms by (auto simp: price_hour_def details_account_def Let_def split: option.splits if_splits)

lemma fold_hours_details:
  assumes "fold_hours (price_hour L t hourly yekdem ptf kwh) hs no_hours = Some s"
  shows "details_account s" and "hourly \<Longrightarrow> Matched s + MissingPrice s + MissingConsumption s = Expected s"
    and "\<not> hourly \<Longrightarrow> Details s = [] \<and> MissingConsumption s = 0 \<and> MissingPrice s = 0"
proof -
  have "details_account s \<and> (hourly \<longrightarrow> Matched s + MissingPrice s + MissingConsumption s = Expected s) \<and>
      (\<not> hourly \<longrightarrow> Details s = [] \<and> MissingConsumption s = 0 \<and> MissingPrice s = 0)"
  proof (rule fold_hours_invariant [OF assms])
    show "details_account no_hours \<and>
      (hourly \<longrightarrow> Matched no_hours + MissingPrice no_hours + MissingConsumption no_hours = Expected no_hours) \<and>
      (\<not> hourly \<longrightarrow> Details no_hours = [] \<and> MissingConsumption no_hours = 0 \<and> MissingPrice no_hours = 0)"
      by (simp add: details_account_def no_hours_def)
  qed (use price_hour_details price_hour_counters(1) in auto)
  then show "details_account s" and "hourly \<Longrightarrow> Matched s + MissingPrice s + MissingConsumption s = Expected s"
    and "\<not> hourly \<Longrightarrow> Details s = [] \<and> MissingConsumption s = 0 \<and> MissingPrice s = 0" by auto
qed

lemma no_hours_simps [simp]:
  "Expected no_hours = 0" "Priced no_hours = 0" "YekdemMissing no_hours = False" "PtfSum no_hours = 0"
  "YekdemSum no_hours = 0"
  by (simp_all add: no_hours_def)

lemma finish_pricing_simps:
  "pr_HoursExpected (finish_pricing L t p hourly s) = Expected s"
  "pr_HoursMatched (finish_pricing L t p hourly s) = (if hourly then Matched s else Priced s)"
  "pr_HoursMissingPrice (finish_pricing L t p hourly s) = (if hourly then MissingPrice s else Expected s - Priced s)"
  "pr_HoursMissingConsumption (finish_pricing L t p hourly s) = MissingConsumption s"
  "pr_Hourly (finish_pricing L t p hourly s) = Details s"
  "pr_Method (finish_pricing L t p hourly s) = (if hourly then MethodHourly else MethodPeriodAverage)"
  "pr_Complete (finish_pricing L t p hourly s) = (pr_Reason (finish_pricing L t p hourly s) = None)"
  "pr_PTFAverage (finish_pricing L t p hourly s) =
     (if 0 < Priced s then Some (DivRound L (PtfSum s) (of_int (Priced s)) DivisionScale) else None)"
  "pr_YekdemUsed (finish_pricing L t p hourly s) =
     (if \<not> YekdemMissing s then Some (DivRound L (YekdemSum s) (of_int (Expected s)) DivisionScale) else None)"
  "pr_Reason (finish_pricing L t p hourly s) =
     (if YekdemMissing s then Some ReasonYekdemMissing
      else if Priced s = 0 then Some ReasonNoPTF
      else if p_PTFMissingHourTolerance p <
              DivRound L (of_int (Expected s - (if hourly then Matched s else Priced s))) (of_int (Expected s)) DivisionScale
      then Some ReasonOverTolerance else None)"
  by (simp_all add: finish_pricing_def FixedUnitPrices_def Let_def)

lemma finish_pricing_energy:
  "hourly \<Longrightarrow> 0 < KwhSum s \<Longrightarrow>
     pr_EnergyUnitPrice (finish_pricing L t p hourly s) = Some (DivRound L (CostSum s) (KwhSum s) DivisionScale)"
  by (simp add: finish_pricing_def FixedUnitPrices_def Let_def)

lemma weighted_bounds:
  fixes f g :: "'a \<Rightarrow> dec"
  assumes "\<forall>d \<in> set ds. 0 \<le> f d \<and> lo \<le> g d \<and> g d \<le> hi"
  shows "lo * sum_list (map f ds) \<le> sum_list (map (\<lambda>d. f d * g d) ds)"
    and "sum_list (map (\<lambda>d. f d * g d) ds) \<le> hi * sum_list (map f ds)"
proof -
  have "lo * sum_list (map f ds) \<le> sum_list (map (\<lambda>d. f d * g d) ds) \<and>
      sum_list (map (\<lambda>d. f d * g d) ds) \<le> hi * sum_list (map f ds)"
    using assms
  proof (induction ds)
    case (Cons d ds)
    then have "lo * f d \<le> f d * g d" "f d * g d \<le> hi * f d"
      by (simp_all add: mult.commute [of "f d"] mult_right_mono)
    with Cons show ?case by (simp add: distrib_left add_mono)
  qed simp
  then show "lo * sum_list (map f ds) \<le> sum_list (map (\<lambda>d. f d * g d) ds)"
    and "sum_list (map (\<lambda>d. f d * g d) ds) \<le> hi * sum_list (map f ds)" by simp_all
qed

section \<open>Properties\<close>

text \<open>The hour counts of a priced period account for every hour of it: the hours expected are the hours between
  the two instants, each is matched, lacks a price or lacks a consumption, no count is negative,
  and the hourly method keeps one detail per matched hour.\<close>

theorem Price_hours_account:
  assumes "Price L t period hours hourlyAvailable m p loc = Inr out"
  shows "(To period = From period + pr_HoursExpected out * hour) \<and>
    0 < pr_HoursExpected out \<and>
    (pr_HoursMatched out + pr_HoursMissingPrice out + pr_HoursMissingConsumption out = pr_HoursExpected out) \<and>
    (0 \<le> pr_HoursMatched out \<and> 0 \<le> pr_HoursMissingPrice out \<and> 0 \<le> pr_HoursMissingConsumption out) \<and>
    (pr_Method out = MethodHourly \<longrightarrow> pr_HoursMatched out = int (length (pr_Hourly out))) \<and>
    (pr_Method out = MethodPeriodAverage \<longrightarrow> pr_Hourly out = [] \<and> pr_HoursMissingConsumption out = 0)"
proof -
  have part1: "To period = From period + pr_HoursExpected out * hour"
    and part2: "0 < pr_HoursExpected out"
    and part3: "pr_HoursMatched out + pr_HoursMissingPrice out + pr_HoursMissingConsumption out = pr_HoursExpected out"
    and part4: "0 \<le> pr_HoursMatched out \<and> 0 \<le> pr_HoursMissingPrice out \<and> 0 \<le> pr_HoursMissingConsumption out"
    and part5: "pr_Method out = MethodHourly \<Longrightarrow> pr_HoursMatched out = int (length (pr_Hourly out))"
    and part6: "pr_Method out = MethodPeriodAverage \<Longrightarrow> pr_Hourly out = [] \<and> pr_HoursMissingConsumption out = 0"
  proof -
    from Price_Inr [OF assms] obtain n s hourly where n: "To period = From period + int n * hour" "0 < n"
      and f: "fold_hours (price_hour L t hourly (yekdem_at t m loc) (ptfByHour m) (kwhByHour hours))
            (hour_starts (From period) n) no_hours = Some s" and out: "out = finish_pricing L t p hourly s" by blast
    note c = fold_hours_counters [OF f] and d = fold_hours_details [OF f]
    have "length (known (ptfByHour m) hs) \<le> length hs" for hs
      by (induction hs) (auto split: option.split)
    from this [of "hour_starts (From period) n"] have le: "Priced s \<le> Expected s" "0 \<le> Priced s" using c by simp_all
    show "To period = From period + pr_HoursExpected out * hour" "0 < pr_HoursExpected out"
      using c n by (simp_all add: out finish_pricing_simps)
    show "pr_HoursMatched out + pr_HoursMissingPrice out + pr_HoursMissingConsumption out = pr_HoursExpected out"
      and "0 \<le> pr_HoursMatched out \<and> 0 \<le> pr_HoursMissingPrice out \<and> 0 \<le> pr_HoursMissingConsumption out"
      and "pr_Method out = MethodHourly \<Longrightarrow> pr_HoursMatched out = int (length (pr_Hourly out))"
      and "pr_Method out = MethodPeriodAverage \<Longrightarrow> pr_Hourly out = [] \<and> pr_HoursMissingConsumption out = 0"
      using d le unfolding out finish_pricing_simps details_account_def by (cases hourly; simp)+
  qed
  show ?thesis using part1 part2 part3 part4 part5 part6 by blast
qed

definition sample_ptf_tariff :: tariff where
  "sample_ptf_tariff = sample_tariff\<lparr>t_UsePtfYekdem := True, t_KbkEnergy := Some 2\<rparr>"

definition sample_market :: market where
  "sample_market = \<lparr>PTF = [(0, 1500), (hour, 2500)], Yekdem = (\<lambda>_. Some 500), ManualYekdem = Map.empty\<rparr>"

definition sample_pricing :: pricing where
  "sample_pricing =
     finish_pricing std_declib sample_ptf_tariff sample_params True
       \<lparr>Expected = 2, Priced = 2, YekdemMissing = False, PtfSum = 4000, YekdemSum = 1000, CostSum = 70,
        KwhSum = 15, Matched = 2, MissingPrice = 0, MissingConsumption = 0,
        Details =
          [\<lparr>h_Hour = 0, h_Kwh = 10, h_PTF = 1500, h_Yekdem = 500, h_Kbk = 2, h_UnitPrice = 4, h_Cost = 40\<rparr>,
           \<lparr>h_Hour = hour, h_Kwh = 5, h_PTF = 2500, h_Yekdem = 500, h_Kbk = 2, h_UnitPrice = 6, h_Cost = 30\<rparr>]\<rparr>"

lemma round_away_of_nat [simp]:
  "round_away (numeral k) n = numeral k" "round_away 1 n = 1"
proof -
  have "on_grid n (numeral k :: dec)" "on_grid n (1 :: dec)"
    by (rule on_gridI [where k = "numeral k * 10 ^ n"] on_gridI [where k = "10 ^ n"], simp)+
  then show "round_away (numeral k) n = numeral k" "round_away 1 n = 1" by (simp_all add: round_away_exact)
qed

lemma sample_Price:
  "Price std_declib sample_ptf_tariff \<lparr>From = 0, To = 2 * hour\<rparr>
     [\<lparr>hc_Hour = 0, hc_Kwh = 10\<rparr>, \<lparr>hc_Hour = hour, hc_Kwh = 5\<rparr>] True sample_market sample_params utc = Inr sample_pricing"
proof -
  let ?k = "[\<lparr>hc_Hour = 0, hc_Kwh = 10\<rparr>, \<lparr>hc_Hour = hour, hc_Kwh = 5\<rparr>]"
  let ?step = "price_hour std_declib sample_ptf_tariff True (\<lambda>_. Some 500) (ptfByHour sample_market) (kwhByHour ?k)"
  let ?s1 = "\<lparr>Expected = 1, Priced = 1, YekdemMissing = False, PtfSum = 1500, YekdemSum = 500, CostSum = 40,
      KwhSum = 10, Matched = 1, MissingPrice = 0, MissingConsumption = 0,
      Details = [\<lparr>h_Hour = 0, h_Kwh = 10, h_PTF = 1500, h_Yekdem = 500, h_Kbk = 2, h_UnitPrice = 4, h_Cost = 40\<rparr>]\<rparr>"
  have h: "hour \<noteq> 0" using hour_pos by linarith
  have t: "t_UsePtfYekdem sample_ptf_tariff" "t_PriceType sample_ptf_tariff = PriceTypeSingleTime"
    "t_KbkEnergy sample_ptf_tariff = Some 2" "\<not> t_UseManualYekdem sample_ptf_tariff"
    by (simp_all add: sample_ptf_tariff_def sample_tariff_def)
  have y: "yekdem_at sample_ptf_tariff sample_market utc = (\<lambda>_. Some 500)"
    by (simp add: yekdem_at_def sample_market_def t fun_eq_iff split: prod.split)
  have p: "ptfByHour sample_market 0 = Some 1500" "ptfByHour sample_market hour = Some 2500"
    "kwhByHour ?k 0 = Some 10" "kwhByHour ?k hour = Some 5"
    using h by (simp_all add: ptfByHour_def kwhByHour_def sample_market_def)
  have "?step 0 no_hours = Some ?s1"
    by (simp add: price_hour_def Let_def p t no_hours_def thousand_def)
  moreover have "\<exists>s2. ?step hour ?s1 = Some s2 \<and> sample_pricing = finish_pricing std_declib sample_ptf_tariff sample_params True s2"
    by (simp add: price_hour_def Let_def p t thousand_def sample_pricing_def)
  moreover have "price_loop ?step 0 (2 * hour) no_hours = fold_hours ?step [0, hour] no_hours"
    using price_loop_fold [of ?step 0 2 no_hours] by (simp add: hour_starts_def upt_rec)
  ultimately have "\<exists>s2. price_loop ?step 0 (2 * hour) no_hours = Some s2 \<and>
      sample_pricing = finish_pricing std_declib sample_ptf_tariff sample_params True s2" by auto
  then show ?thesis
    unfolding Price_def y using t by (auto simp: Valid_def Truncate_hour Let_def)
qed

theorem Price_hours_account_witness:
  "(0 :: int) + 2 * hour = 0 + pr_HoursExpected sample_pricing * hour \<and> pr_HoursMatched sample_pricing = 2"
  using Price_hours_account [OF sample_Price]
  by (simp add: sample_pricing_def finish_pricing_simps)

text \<open>The hours the hourly method matches have a price, a monthly value and a consumption.\<close>

lemma price_hour_matched:
  assumes "price_hour L t True yekdem ptf kwh h s = Some s'"
  shows "Matched s' = Matched s + (if ptf h \<noteq> None \<and> yekdem h \<noteq> None \<and> kwh h \<noteq> None then 1 else 0)"
  using assms by (auto simp: price_hour_def Let_def split: option.splits)

lemma fold_hours_matched:
  assumes "fold_hours (price_hour L t True yekdem ptf kwh) hs s = Some s'"
  shows "Matched s' = Matched s + int (length (filter (\<lambda>h. ptf h \<noteq> None \<and> yekdem h \<noteq> None \<and> kwh h \<noteq> None) hs))"
  using assms
proof (induction hs arbitrary: s)
  case (Cons h hs)
  then obtain s1 where s1: "price_hour L t True yekdem ptf kwh h s = Some s1"
    "fold_hours (price_hour L t True yekdem ptf kwh) hs s1 = Some s'"
    by (auto split: option.splits)
  show ?case using Cons.IH [OF s1(2)] price_hour_matched [OF s1(1)] by simp
qed simp

lemma length_known: "length (known f hs) = length (filter (\<lambda>h. f h \<noteq> None) hs)"
  by (induction hs) (auto split: option.split)

lemma ptfByHour_known: "ptfByHour m h \<noteq> None \<longleftrightarrow> h \<in> fst ` set (PTF m)"
  by (simp add: ptfByHour_def map_of_eq_None_iff)

lemma kwhByHour_known: "kwhByHour hours h \<noteq> None \<longleftrightarrow> h \<in> hc_Hour ` set hours"
  by (simp add: kwhByHour_def map_of_eq_None_iff image_image)

text \<open>C27. When pricing is complete, over the hours of the period, from its start in steps of an hour. An hour has a YEKDEM value when
  its month, in the location, has a manual one that the tariff uses or a published one; it has a price when the market data
  names it. An hour is matched when it has a price and, under the hourly method, also a YEKDEM value and a consumption. A complete
  pricing has a YEKDEM value for every hour and a price for some hour, and the share of the hours that are not matched exceeds
  the tolerance by at most half a unit of the 20th decimal place; conversely these suffice when the share is within a
  tolerance of at most 20 places. A missing YEKDEM value is the reason given before all others, then a period without a
  single price.\<close>

theorem Price_complete:
  assumes "decimal_lib L" and "Price L t period hours hourlyAvailable m p loc = Inr out"
  defines "hs \<equiv> map (\<lambda>i. From period + int i * hour) [0..<nat ((To period - From period) div hour)]"
    and "yek \<equiv> \<lambda>h. case date_in loc h of (y, mo, _) \<Rightarrow>
      t_UseManualYekdem t \<and> ManualYekdem m (y, mo) \<noteq> None \<or> Yekdem m (y, mo) \<noteq> None"
    and "priced \<equiv> \<lambda>h. h \<in> fst ` set (PTF m)"
    and "hourly \<equiv> hourlyAvailable \<and> t_PriceType t = PriceTypeSingleTime"
  defines "matched \<equiv> filter (\<lambda>h. priced h \<and> (hourly \<longrightarrow> yek h \<and> h \<in> hc_Hour ` set hours)) hs"
  defines "share \<equiv> (of_nat (length hs) - of_nat (length matched)) / of_nat (length hs) :: dec"
  shows "pr_HoursExpected out = int (length hs) \<and> pr_HoursMatched out = int (length matched) \<and>
    (pr_Complete out \<longrightarrow> (\<forall>h \<in> set hs. yek h) \<and> (\<exists>h \<in> set hs. priced h) \<and>
      (share - p_PTFMissingHourTolerance p) * 10 ^ 20 \<le> 1 / 2) \<and>
    ((\<forall>h \<in> set hs. yek h) \<and> (\<exists>h \<in> set hs. priced h) \<and> on_grid 20 (p_PTFMissingHourTolerance p) \<and>
      share \<le> p_PTFMissingHourTolerance p \<longrightarrow> pr_Complete out) \<and>
    (pr_Reason out = Some ReasonYekdemMissing) = (\<exists>h \<in> set hs. \<not> yek h) \<and>
    (pr_Reason out = Some ReasonNoPTF) = ((\<forall>h \<in> set hs. yek h) \<and> (\<forall>h \<in> set hs. \<not> priced h)) \<and>
    pr_Complete out = (pr_Reason out = None)"
proof -
  obtain n s where n: "0 < n" "To period = From period + int n * hour"
    and f: "fold_hours (price_hour L t hourly (yekdem_at t m loc) (ptfByHour m) (kwhByHour hours))
          (hour_starts (From period) n) no_hours = Some s" and out: "out = finish_pricing L t p hourly s"
    by (rule Price_Inr [OF assms(2)]) (simp add: hourly_def)
  have "hour \<noteq> 0" using hour_pos by linarith
  with n have hs: "hour_starts (From period) n = hs" by (simp add: hs_def hour_starts_def)
  have yek: "(\<lambda>h. yekdem_at t m loc h \<noteq> None) = yek"
    by (rule ext) (auto simp: yekdem_at_def yek_def split: prod.split option.split)
  note f' = f [unfolded hs]
  note c = fold_hours_counters [OF f', unfolded length_known ptfByHour_known, folded priced_def]
  have counted: "(if hourly then Matched s else Priced s) = int (length matched)"
  proof (cases hourly)
    case True
    from fold_hours_matched [OF f' [unfolded eqTrueI [OF True]], unfolded ptfByHour_known kwhByHour_known fun_cong [OF yek]] True
    show ?thesis by (simp add: no_hours_def matched_def priced_def)
  next
    case False
    with c show ?thesis by (simp add: no_hours_def matched_def)
  qed
  have yekdem: "YekdemMissing s \<longleftrightarrow> (\<exists>h \<in> set hs. \<not> yek h)" using c by (simp add: no_hours_def yek [symmetric])
  have price: "Priced s = 0 \<longleftrightarrow> (\<forall>h \<in> set hs. \<not> priced h)" and e: "0 < Expected s" "Expected s = int (length hs)" "0 \<le> Priced s"
    using c n(1) length_hour_starts [of "From period" n, unfolded hs] by (simp_all add: no_hours_def filter_empty_conv)
  have div: "DivRound L (of_int (Expected s - (if hourly then Matched s else Priced s))) (of_int (Expected s)) DivisionScale = round_away share 20"
    using decimal_lib.DivRound_eq [OF assms(1)] e(1) unfolding counted by (simp add: share_def e(2) DivisionScale_def)
  have near: "(share - round_away share 20) * 10 ^ 20 \<le> 1 / 2"
    using round_away_near [of share 20] abs_ge_minus_self [of "round_away share 20 - share"]
    by (simp add: left_diff_distrib)
  have reason: "pr_Reason out = (if \<exists>h \<in> set hs. \<not> yek h then Some ReasonYekdemMissing
      else if \<forall>h \<in> set hs. \<not> priced h then Some ReasonNoPTF
      else if p_PTFMissingHourTolerance p < round_away share 20 then Some ReasonOverTolerance else None)"
    and complete: "pr_Complete out = (pr_Reason out = None)"
    and fields: "pr_HoursExpected out = int (length hs)" "pr_HoursMatched out = int (length matched)"
    unfolding out finish_pricing_simps div unfolding counted yekdem price e(2) by simp_all
  have over: "(share - p_PTFMissingHourTolerance p) * 10 ^ 20 \<le> 1 / 2" if "pr_Reason out = None"
  proof -
    have "round_away share 20 \<le> p_PTFMissingHourTolerance p" using that unfolding reason by (auto split: if_splits)
    then have "(share - p_PTFMissingHourTolerance p) * 10 ^ 20 \<le> (share - round_away share 20) * 10 ^ 20" by simp
    with near show ?thesis by linarith
  qed
  have in_tolerance: "\<not> p_PTFMissingHourTolerance p < round_away share 20"
    if "on_grid 20 (p_PTFMissingHourTolerance p)" "share \<le> p_PTFMissingHourTolerance p"
    using round_away_mono [OF that(2), of 20] round_away_exact [OF that(1)] by simp
  have known: "pr_Reason out = None \<Longrightarrow> \<forall>h \<in> set hs. yek h" "pr_Reason out = None \<Longrightarrow> \<exists>h \<in> set hs. priced h"
    and reasons: "(pr_Reason out = Some ReasonYekdemMissing) = (\<exists>h \<in> set hs. \<not> yek h)"
      "(pr_Reason out = Some ReasonNoPTF) = ((\<forall>h \<in> set hs. yek h) \<and> (\<forall>h \<in> set hs. \<not> priced h))"
    unfolding reason by (auto split: if_splits)
  have enough: "pr_Reason out = None" if "\<forall>h \<in> set hs. yek h" "\<exists>h \<in> set hs. priced h"
    "\<not> p_PTFMissingHourTolerance p < round_away share 20"
    using that unfolding reason by auto
  show ?thesis unfolding complete fields reasons
    by (intro conjI impI refl known over; (elim conjE)?) (assumption | rule enough in_tolerance refl | assumption)+
qed

theorem Price_complete_witness:
  "pr_HoursMatched sample_pricing = 2 \<and> pr_Complete sample_pricing = (pr_Reason sample_pricing = None)"
proof -
  have "pr_HoursMatched sample_pricing = 2" by (simp add: sample_pricing_def finish_pricing_simps)
  with Price_complete [OF std.decimal_lib_axioms sample_Price] show ?thesis by blast
qed

text \<open>The hourly unit price is a weighted average: when the consumption of no matched hour is negative and not all are 0, the
  period's energy price lies between the lowest and the highest hourly unit price (rounded to 20 places), and
  every hour's cost is its consumption times its unit price.\<close>

theorem Price_weighted_average:
  assumes "decimal_lib L" and "Price L t period hours hourlyAvailable m p loc = Inr out"
    and "pr_Method out = MethodHourly"
    and "\<forall>d \<in> set (pr_Hourly out). 0 \<le> h_Kwh d \<and> lo \<le> h_UnitPrice d \<and> h_UnitPrice d \<le> hi"
    and "0 < sum_list (map h_Kwh (pr_Hourly out))"
  shows "(\<exists>v. pr_EnergyUnitPrice out = Some v \<and> round_away lo 20 \<le> v \<and> v \<le> round_away hi 20) \<and>
    (\<forall>d \<in> set (pr_Hourly out). h_Cost d = h_Kwh d * h_UnitPrice d)"
proof -
  have part1: "\<exists>v. pr_EnergyUnitPrice out = Some v \<and> round_away lo 20 \<le> v \<and> v \<le> round_away hi 20"
    and part2: "\<forall>d \<in> set (pr_Hourly out). h_Cost d = h_Kwh d * h_UnitPrice d"
  proof -
    obtain n s hourly where
      f: "fold_hours (price_hour L t hourly (yekdem_at t m loc) (ptfByHour m) (kwhByHour hours))
            (hour_starts (From period) n) no_hours = Some s" and out: "out = finish_pricing L t p hourly s"
      by (rule Price_Inr [OF assms(2)]) (rule that)
    have hourly: "hourly" using assms(3) by (simp add: out finish_pricing_simps split: if_splits)
    have acc: "CostSum s = sum_list (map h_Cost (Details s))" "KwhSum s = sum_list (map h_Kwh (Details s))"
      "\<forall>d \<in> set (Details s). h_Cost d = h_Kwh d * h_UnitPrice d"
      using fold_hours_details(1) [OF f] by (simp_all add: details_account_def)
    have pos: "0 < KwhSum s" using assms(5) acc(2) by (simp add: out finish_pricing_simps)
    have cost: "CostSum s = sum_list (map (\<lambda>d. h_Kwh d * h_UnitPrice d) (Details s))"
      unfolding acc(1) by (rule arg_cong [where f = sum_list]) (use acc(3) in simp)
    have b: "lo * KwhSum s \<le> CostSum s" "CostSum s \<le> hi * KwhSum s"
      using weighted_bounds [of "Details s" h_Kwh lo h_UnitPrice hi] assms(4)
      unfolding cost acc(2) by (simp_all add: out finish_pricing_simps)
    have "lo \<le> CostSum s / KwhSum s" "CostSum s / KwhSum s \<le> hi"
      using b pos by (simp_all add: pos_le_divide_eq pos_divide_le_eq)
    moreover have "DivRound L (CostSum s) (KwhSum s) DivisionScale = round_away (CostSum s / KwhSum s) 20"
      using decimal_lib.DivRound_eq [OF assms(1)] pos by (simp add: DivisionScale_def)
    ultimately show "\<exists>v. pr_EnergyUnitPrice out = Some v \<and> round_away lo 20 \<le> v \<and> v \<le> round_away hi 20"
      using finish_pricing_energy [OF hourly pos] by (simp add: out round_away_mono)
    show "\<forall>d \<in> set (pr_Hourly out). h_Cost d = h_Kwh d * h_UnitPrice d"
      using acc(3) by (simp add: out finish_pricing_simps)
  qed
  show ?thesis by (rule conjI [OF part1 part2])
qed

theorem Price_weighted_average_witness:
  "\<exists>v. pr_EnergyUnitPrice sample_pricing = Some v \<and> round_away 4 20 \<le> v \<and> v \<le> round_away 6 20"
  by (rule Price_weighted_average [OF std.decimal_lib_axioms sample_Price, THEN conjunct1])
    (simp_all add: sample_pricing_def finish_pricing_simps)

end
