(* ===== verification/Tariff_Validate.thy ===== *)
theory Tariff_Validate
  imports Tariff_Pricing
begin

text \<open>
  \<open>tariff/validate.go\<close>: the check of a tariff draft. The code collects a map from failing
  field to error code and keeps the first code of a field; the map is the error value here too. A field
  name is the constructor \<open>Field\<close> with the source's name, or a constructor for each name that
  is printed with an index (\<open>taxes[i].name\<close> and the others). The two \<open>range\<close> loops
  over map literals visit distinct fields and only set codes, so they are lists here.
\<close>

section \<open>Draft, fields and codes\<close>

record draft =
  d_Tariff :: tariff
  d_VatRate :: "dec option"
  d_Taxes :: "tariff_tax list"
  d_ExtraCharges :: "tariff_extra_charge list"
  d_ManualYekdem :: "tariff_manual_yekdem list"

datatype field =
    Field string
  | TaxName nat | TaxRate nat
  | ExtraName nat | ExtraBasis nat
  | YekdemMonth nat | YekdemEntry nat

datatype code =
    CodeRequired | CodeMustBeEmpty | CodeInvalid | CodeNegative | CodeMustBeTRY | CodeDuplicate | CodeOutOfRange

type_synonym field_errors = "field \<rightharpoonup> code"

text \<open>The closure \<open>set\<close>, with the condition that guards the call.\<close>

definition set_code :: "field \<Rightarrow> code \<Rightarrow> field_errors \<Rightarrow> field_errors" where
  "set_code fld code f = (if f fld = None then f(fld \<mapsto> code) else f)"

definition set_when :: "bool \<Rightarrow> field \<Rightarrow> code \<Rightarrow> field_errors \<Rightarrow> field_errors" where
  "set_when c fld code f = (if c then set_code fld code f else f)"

text \<open>\<open>strings.TrimSpace(s) == ""\<close>: every rune of the UTF-8 text is white space.\<close>

fun blank_codes :: "nat list \<Rightarrow> bool" where
  "blank_codes [] = True"
| "blank_codes (c # cs) =
     (if 9 \<le> c \<and> c \<le> 13 \<or> c = 32 then blank_codes cs
      else case cs of
        d # ds \<Rightarrow>
          if c = 194 \<and> (d = 133 \<or> d = 160) then blank_codes ds
          else (case ds of
                  e # es \<Rightarrow>
                    if c = 225 \<and> d = 154 \<and> e = 128 \<or>
                       c = 226 \<and> d = 128 \<and> (128 \<le> e \<and> e \<le> 138 \<or> e = 168 \<or> e = 169 \<or> e = 175) \<or>
                       c = 226 \<and> d = 129 \<and> e = 159 \<or> c = 227 \<and> d = 128 \<and> e = 128
                    then blank_codes es else False
                | [] \<Rightarrow> False)
      | [] \<Rightarrow> False)"

definition blank :: "string \<Rightarrow> bool" where
  "blank s = blank_codes (map of_char s)"

section \<open>Validate, step by step\<close>

definition check_vat :: "dec option \<Rightarrow> field_errors \<Rightarrow> field_errors" where
  "check_vat rate f =
     (case rate of
        None \<Rightarrow> set_code (Field ''vat_rate'') CodeRequired f
      | Some r \<Rightarrow> if r < 0 then set_code (Field ''vat_rate'') CodeNegative f else f)"

definition set_vat :: "dec option \<Rightarrow> tariff \<Rightarrow> tariff" where
  "set_vat rate t = (case rate of None \<Rightarrow> t | Some r \<Rightarrow> if r < 0 then t else t\<lparr>t_VatRate := r\<rparr>)"

definition default_source :: "price_source \<Rightarrow> price_source" where
  "default_source s = (if s = PriceSourceOther [] then PriceSourceKbk else s)"

definition normalise :: "tariff \<Rightarrow> tariff" where
  "normalise t =
     t\<lparr>t_PowerPriceSource := default_source (t_PowerPriceSource t),
       t_ReactivePriceSource := default_source (t_ReactivePriceSource t),
       t_DistributionPriceSource := default_source (t_DistributionPriceSource t)\<rparr>"

fun check_valid :: "(string \<times> bool) list \<Rightarrow> field_errors \<Rightarrow> field_errors" where
  "check_valid [] f = f"
| "check_valid ((name, ok) # fs) f = check_valid fs (set_when (\<not> ok) (Field name) CodeInvalid f)"

definition check_enums :: "tariff \<Rightarrow> field_errors \<Rightarrow> field_errors" where
  "check_enums t =
     check_valid
       [(''currency'', CurrencyCode_Valid (t_Currency t)), (''energy_type'', EnergyType_Valid (t_EnergyType t)),
        (''voltage_level'', VoltageLevel_Valid (t_VoltageLevel t)),
        (''user_group'', DistributionUserGroup_Valid (t_UserGroup t)),
        (''price_type'', PriceType_Valid (t_PriceType t)), (''term'', TariffTerm_Valid (t_Term t)),
        (''supply_company'', SupplyCompany_Valid (t_SupplyCompany t)),
        (''generation_usage'', GenerationUsage_Valid (t_GenerationUsage t)),
        (''power_price_source'', PriceSource_Valid (t_PowerPriceSource t)),
        (''reactive_price_source'', PriceSource_Valid (t_ReactivePriceSource t)),
        (''distribution_price_source'', PriceSource_Valid (t_DistributionPriceSource t))]"

fun requireAll :: "(string \<times> dec option) list \<Rightarrow> field_errors \<Rightarrow> field_errors" where
  "requireAll [] f = f"
| "requireAll ((name, v) # fs) f = requireAll fs (set_when (v = None) (Field name) CodeRequired f)"

definition check_prices :: "tariff \<Rightarrow> field_errors \<Rightarrow> field_errors" where
  "check_prices t f =
     (case t_PriceType t of
        PriceTypeSingleTime \<Rightarrow>
          set_when (\<not> t_UsePtfYekdem t \<and> t_SingleTimePrice t = None) (Field ''single_time_price'') CodeRequired f
      | PriceTypeMultiTime \<Rightarrow>
          if t_UsePtfYekdem t
          then requireAll [(''kbk_t1'', t_KbkT1 t), (''kbk_t2'', t_KbkT2 t), (''kbk_t3'', t_KbkT3 t)] f
          else requireAll [(''t1_price'', t_T1Price t), (''t2_price'', t_T2Price t), (''t3_price'', t_T3Price t)] f
      | PriceTypeOther _ \<Rightarrow> f)"

definition check_ptf :: "tariff \<Rightarrow> field_errors \<Rightarrow> field_errors" where
  "check_ptf t f =
     (if t_UsePtfYekdem t
      then
        (set_when (t_ReactivePriceSource t = PriceSourceKbk \<and> t_KbkReactivePower t = None)
           (Field ''kbk_reactive_power'') CodeRequired
        (set_when (t_DistributionPriceSource t = PriceSourceKbk \<and> t_KbkDistributionCostTlPerKwh t = None)
           (Field ''kbk_distribution_cost_tl_per_kwh'') CodeRequired
        (set_when (t_Currency t \<noteq> CurrencyTRY) (Field ''currency'') CodeMustBeTRY
        (set_when (t_KbkEnergy t = None) (Field ''kbk_energy'') CodeRequired f))))
      else f)"

definition check_generation :: "tariff \<Rightarrow> field_errors \<Rightarrow> field_errors" where
  "check_generation t =
     set_when (t_GenerationUsage t = GenerationUsageSubtractFromTotal \<and> t_GenerationPricePerKwh t = None)
       (Field ''generation_price_per_kwh'') CodeRequired"

definition check_term :: "tariff \<Rightarrow> field_errors \<Rightarrow> field_errors" where
  "check_term t f =
     (case t_Term t of
        TariffTermBinomial \<Rightarrow>
          (let f = set_when (t_ContractedPowerKw t = None) (Field ''contracted_power_kw'') CodeRequired f
           in if t_UsePtfYekdem t \<and> t_PowerPriceSource t = PriceSourceKbk
              then set_when (t_KbkPowerPrice t = None) (Field ''kbk_power_price'') CodeRequired f
              else set_when (t_PowerUnitPrice t = None) (Field ''power_unit_price'') CodeRequired f)
      | TariffTermMonomial \<Rightarrow>
          set_when (t_PowerUnitPrice t \<noteq> None) (Field ''power_unit_price'') CodeMustBeEmpty
            (set_when (t_ContractedPowerKw t \<noteq> None) (Field ''contracted_power_kw'') CodeMustBeEmpty f)
      | TariffTermOther _ \<Rightarrow> f)"

definition check_overuse :: "tariff \<Rightarrow> field_errors \<Rightarrow> field_errors" where
  "check_overuse t =
     set_when (t_OveruseThresholdKwhPerDay t \<noteq> None \<and> t_OverusePrice t = None) (Field ''overuse_price'') CodeRequired"

fun check_taxes :: "nat \<Rightarrow> tariff_tax list \<Rightarrow> field_errors \<Rightarrow> field_errors" where
  "check_taxes i [] f = f"
| "check_taxes i (tax # taxes) f =
     check_taxes (i + 1) taxes
       (set_when (x_Rate tax < 0) (TaxRate i) CodeNegative
         (set_when (blank (x_Name tax)) (TaxName i) CodeRequired f))"

fun check_extras :: "tariff \<Rightarrow> nat \<Rightarrow> tariff_extra_charge list \<Rightarrow> field_errors \<Rightarrow> field_errors" where
  "check_extras t i [] f = f"
| "check_extras t i (c # extras) f =
     check_extras t (i + 1) extras
       (set_when (c_Basis c = ExtraChargeBasisPerContractedKw \<and> t_ContractedPowerKw t = None)
          (ExtraBasis i) CodeRequired
         (set_when (\<not> ExtraChargeBasis_Valid (c_Basis c)) (ExtraBasis i) CodeInvalid
           (set_when (blank (c_Name c)) (ExtraName i) CodeRequired f)))"

fun check_yekdem ::
  "nat \<Rightarrow> (int \<times> int) list \<Rightarrow> tariff_manual_yekdem list \<Rightarrow> field_errors \<Rightarrow> field_errors" where
  "check_yekdem i seen [] f = f"
| "check_yekdem i seen (y # ys) f =
     check_yekdem (i + 1) ((y_Year y, y_Month y) # seen) ys
       (set_when ((y_Year y, y_Month y) \<in> set seen) (YekdemEntry i) CodeDuplicate
         (set_when (y_Month y < 1 \<or> 12 < y_Month y) (YekdemMonth i) CodeOutOfRange f))"

text \<open>\<open>Validate\<close>: \<open>Inl\<close> the field errors, or \<open>Inr\<close> the tariff with its VAT rate set
  and its price sources normalised.\<close>

definition draft_errors :: "draft \<Rightarrow> tariff \<Rightarrow> field_errors" where
  "draft_errors d t =
     check_yekdem 0 [] (d_ManualYekdem d)
       (check_extras t 0 (d_ExtraCharges d)
         (check_taxes 0 (d_Taxes d)
           (check_overuse t (check_term t (check_generation t (check_ptf t (check_prices t
             (check_enums t (check_vat (d_VatRate d) Map.empty)))))))))"

definition Validate :: "draft \<Rightarrow> field_errors + tariff" where
  "Validate d =
     (let t = normalise (set_vat (d_VatRate d) (d_Tariff d));
          f = draft_errors d t
      in if f \<noteq> Map.empty then Inl f else Inr t)"

section \<open>When nothing is collected\<close>

named_theorems no_errors \<open>when a step of the check leaves the map of errors empty\<close>

lemma set_code_empty [no_errors]: "set_code fld code f \<noteq> Map.empty"
  by (auto simp: set_code_def fun_eq_iff)

lemma set_when_empty [no_errors]: "set_when c fld code f = Map.empty \<longleftrightarrow> \<not> c \<and> f = Map.empty"
  using set_code_empty by (auto simp: set_when_def)

lemma check_vat_empty [no_errors]: "check_vat rate f = Map.empty \<longleftrightarrow> (\<exists>r. rate = Some r \<and> 0 \<le> r) \<and> f = Map.empty"
  using set_code_empty by (auto simp: check_vat_def not_less split: option.split)

lemma check_valid_empty [no_errors]: "check_valid fs f = Map.empty \<longleftrightarrow> (\<forall>(n, ok) \<in> set fs. ok) \<and> f = Map.empty"
  by (induction fs f rule: check_valid.induct) (auto simp: no_errors)

lemma requireAll_empty [no_errors]:
  "requireAll fs f = Map.empty \<longleftrightarrow> (\<forall>(n, v) \<in> set fs. v \<noteq> None) \<and> f = Map.empty"
  by (induction fs f rule: requireAll.induct) (auto simp: no_errors)

lemma check_taxes_empty [no_errors]:
  "check_taxes i taxes f = Map.empty \<longleftrightarrow>
     (\<forall>x \<in> set taxes. \<not> blank (x_Name x) \<and> 0 \<le> x_Rate x) \<and> f = Map.empty"
  by (induction i taxes f rule: check_taxes.induct) (auto simp: no_errors not_less)

lemma check_extras_empty [no_errors]:
  "check_extras t i extras f = Map.empty \<longleftrightarrow>
     (\<forall>c \<in> set extras. \<not> blank (c_Name c) \<and> ExtraChargeBasis_Valid (c_Basis c) \<and>
        (c_Basis c = ExtraChargeBasisPerContractedKw \<longrightarrow> t_ContractedPowerKw t \<noteq> None)) \<and> f = Map.empty"
  by (induction t i extras f rule: check_extras.induct) (auto simp: no_errors)

lemma check_yekdem_empty [no_errors]:
  "check_yekdem i seen ys f = Map.empty \<longleftrightarrow>
     (\<forall>y \<in> set ys. 1 \<le> y_Month y \<and> y_Month y \<le> 12) \<and> distinct (map (\<lambda>y. (y_Year y, y_Month y)) ys) \<and>
     (\<forall>y \<in> set ys. (y_Year y, y_Month y) \<notin> set seen) \<and> f = Map.empty"
  by (induction i seen ys f rule: check_yekdem.induct) (auto simp: no_errors not_less image_iff)

text \<open>The conditions on a tariff, as the rules state them.\<close>

definition prices_given :: "tariff \<Rightarrow> bool" where
  "prices_given t \<longleftrightarrow>
     (case t_PriceType t of
        PriceTypeSingleTime \<Rightarrow> t_UsePtfYekdem t \<or> t_SingleTimePrice t \<noteq> None
      | PriceTypeMultiTime \<Rightarrow>
          (if t_UsePtfYekdem t then t_KbkT1 t \<noteq> None \<and> t_KbkT2 t \<noteq> None \<and> t_KbkT3 t \<noteq> None
           else t_T1Price t \<noteq> None \<and> t_T2Price t \<noteq> None \<and> t_T3Price t \<noteq> None)
      | PriceTypeOther _ \<Rightarrow> True)"

definition ptf_given :: "tariff \<Rightarrow> bool" where
  "ptf_given t \<longleftrightarrow>
     t_UsePtfYekdem t \<longrightarrow>
       t_KbkEnergy t \<noteq> None \<and> t_Currency t = CurrencyTRY \<and>
       (t_DistributionPriceSource t = PriceSourceKbk \<longrightarrow> t_KbkDistributionCostTlPerKwh t \<noteq> None) \<and>
       (t_ReactivePriceSource t = PriceSourceKbk \<longrightarrow> t_KbkReactivePower t \<noteq> None)"

definition term_consistent :: "tariff \<Rightarrow> bool" where
  "term_consistent t \<longleftrightarrow>
     (case t_Term t of
        TariffTermBinomial \<Rightarrow>
          t_ContractedPowerKw t \<noteq> None \<and>
          (if t_UsePtfYekdem t \<and> t_PowerPriceSource t = PriceSourceKbk then t_KbkPowerPrice t \<noteq> None
           else t_PowerUnitPrice t \<noteq> None)
      | TariffTermMonomial \<Rightarrow> t_ContractedPowerKw t = None \<and> t_PowerUnitPrice t = None
      | TariffTermOther _ \<Rightarrow> True)"

definition enums_valid :: "tariff \<Rightarrow> bool" where
  "enums_valid t \<longleftrightarrow>
     CurrencyCode_Valid (t_Currency t) \<and> EnergyType_Valid (t_EnergyType t) \<and>
     VoltageLevel_Valid (t_VoltageLevel t) \<and> DistributionUserGroup_Valid (t_UserGroup t) \<and>
     PriceType_Valid (t_PriceType t) \<and> TariffTerm_Valid (t_Term t) \<and>
     SupplyCompany_Valid (t_SupplyCompany t) \<and> GenerationUsage_Valid (t_GenerationUsage t) \<and>
     PriceSource_Valid (t_PowerPriceSource t) \<and> PriceSource_Valid (t_ReactivePriceSource t) \<and>
     PriceSource_Valid (t_DistributionPriceSource t)"

lemma check_enums_empty [no_errors]: "check_enums t f = Map.empty \<longleftrightarrow> enums_valid t \<and> f = Map.empty"
  unfolding check_enums_def check_valid_empty enums_valid_def by simp

lemma check_prices_empty [no_errors]: "check_prices t f = Map.empty \<longleftrightarrow> prices_given t \<and> f = Map.empty"
  by (auto simp: check_prices_def prices_given_def no_errors split: price_type.split)

lemma check_ptf_empty [no_errors]: "check_ptf t f = Map.empty \<longleftrightarrow> ptf_given t \<and> f = Map.empty"
  by (auto simp: check_ptf_def ptf_given_def no_errors)

lemma check_term_empty [no_errors]: "check_term t f = Map.empty \<longleftrightarrow> term_consistent t \<and> f = Map.empty"
  by (auto simp: check_term_def term_consistent_def no_errors Let_def split: tariff_term.split)

lemma draft_errors_empty:
  "draft_errors d t = Map.empty \<longleftrightarrow>
     (\<exists>r. d_VatRate d = Some r \<and> 0 \<le> r) \<and> enums_valid t \<and> prices_given t \<and> ptf_given t \<and>
     (t_GenerationUsage t = GenerationUsageSubtractFromTotal \<longrightarrow> t_GenerationPricePerKwh t \<noteq> None) \<and>
     term_consistent t \<and> (t_OveruseThresholdKwhPerDay t \<noteq> None \<longrightarrow> t_OverusePrice t \<noteq> None) \<and>
     (\<forall>x \<in> set (d_Taxes d). \<not> blank (x_Name x) \<and> 0 \<le> x_Rate x) \<and>
     (\<forall>c \<in> set (d_ExtraCharges d). \<not> blank (c_Name c) \<and> ExtraChargeBasis_Valid (c_Basis c) \<and>
        (c_Basis c = ExtraChargeBasisPerContractedKw \<longrightarrow> t_ContractedPowerKw t \<noteq> None)) \<and>
     (\<forall>y \<in> set (d_ManualYekdem d). 1 \<le> y_Month y \<and> y_Month y \<le> 12) \<and>
     distinct (map (\<lambda>y. (y_Year y, y_Month y)) (d_ManualYekdem d))"
  unfolding draft_errors_def check_generation_def check_overuse_def no_errors
  by (simp only: de_Morgan_conj not_not list.set simp_thms ball_simps empty_iff imp_conv_disj ball_triv conj_ac disj_ac)

lemma Validate_Inr: "Validate d = Inr t \<longleftrightarrow>
  t = normalise (set_vat (d_VatRate d) (d_Tariff d)) \<and> draft_errors d t = Map.empty"
  by (auto simp: Validate_def Let_def)

section \<open>What a field's code is\<close>

lemma set_when_apply:
  "set_when c fld code f g = (if c \<and> g = fld \<and> f g = None then Some code else f g)"
  by (cases "f fld") (auto simp: set_when_def set_code_def)

lemma set_when_other: "g \<noteq> fld \<Longrightarrow> set_when c fld code f g = f g"
  by (simp add: set_when_apply)

lemma check_taxes_keeps: "check_taxes i taxes f (Field n) = f (Field n)"
  by (induction i taxes f rule: check_taxes.induct) (simp_all add: set_when_other)

lemma check_extras_keeps: "check_extras t i extras f (Field n) = f (Field n)"
  by (induction t i extras f rule: check_extras.induct) (simp_all add: set_when_other)

lemma check_yekdem_keeps: "check_yekdem i seen ys f (Field n) = f (Field n)"
  by (induction i seen ys f rule: check_yekdem.induct) (simp_all add: set_when_other)

lemmas indexed_checks_keep_fields = check_taxes_keeps check_extras_keeps check_yekdem_keeps

section \<open>Properties\<close>

text \<open>C30. What \<open>Validate\<close> accepts and returns: exactly the drafts with a VAT rate that is not negative, valid
  enumerations, the prices their price type needs, the coefficients their PTF pricing needs (in TRY), a generation
  price when generation is credited, power data exactly when the term is binomial, an overuse price beside an overuse
  threshold, named taxes of non-negative rates, named extra charges of known bases (with contracted power where they
  need it), and manual YEKDEM months in range without duplicates. The tariff returned is the
  draft's with its VAT rate set and empty price sources defaulted.\<close>

theorem Validate_accepts:
  "Validate d = Inr t \<longleftrightarrow>
     (\<exists>r. d_VatRate d = Some r \<and> 0 \<le> r \<and> t = normalise ((d_Tariff d)\<lparr>t_VatRate := r\<rparr>)) \<and>
     enums_valid t \<and> prices_given t \<and> ptf_given t \<and>
     (t_GenerationUsage t = GenerationUsageSubtractFromTotal \<longrightarrow> t_GenerationPricePerKwh t \<noteq> None) \<and>
     term_consistent t \<and> (t_OveruseThresholdKwhPerDay t \<noteq> None \<longrightarrow> t_OverusePrice t \<noteq> None) \<and>
     (\<forall>x \<in> set (d_Taxes d). \<not> blank (x_Name x) \<and> 0 \<le> x_Rate x) \<and>
     (\<forall>c \<in> set (d_ExtraCharges d). \<not> blank (c_Name c) \<and> ExtraChargeBasis_Valid (c_Basis c) \<and>
        (c_Basis c = ExtraChargeBasisPerContractedKw \<longrightarrow> t_ContractedPowerKw t \<noteq> None)) \<and>
     (\<forall>y \<in> set (d_ManualYekdem d). 1 \<le> y_Month y \<and> y_Month y \<le> 12) \<and>
     distinct (map (\<lambda>y. (y_Year y, y_Month y)) (d_ManualYekdem d))"
proof -
  have vat: "t = normalise (set_vat (d_VatRate d) (d_Tariff d)) \<and> (\<exists>r. d_VatRate d = Some r \<and> 0 \<le> r) \<longleftrightarrow>
      (\<exists>r. d_VatRate d = Some r \<and> 0 \<le> r \<and> t = normalise ((d_Tariff d)\<lparr>t_VatRate := r\<rparr>))"
    by (auto simp: set_vat_def)
  show ?thesis unfolding Validate_Inr draft_errors_empty vat [symmetric] by blast
qed

definition sample_draft :: draft where
  "sample_draft =
     \<lparr>d_Tariff = sample_ptf_tariff\<lparr>t_KbkReactivePower := Some 1, t_KbkDistributionCostTlPerKwh := Some 1,
        t_PowerPriceSource := PriceSourceOther []\<rparr>,
      d_VatRate = Some 20, d_Taxes = [], d_ExtraCharges = [], d_ManualYekdem = []\<rparr>"

lemma sample_draft_accepted:
  "Validate sample_draft =
     Inr (sample_ptf_tariff\<lparr>t_KbkReactivePower := Some 1, t_KbkDistributionCostTlPerKwh := Some 1\<rparr>)"
  by (simp add: Validate_Inr draft_errors_empty sample_draft_def set_vat_def normalise_def default_source_def
      sample_ptf_tariff_def sample_tariff_def enums_valid_def enum_Valid enum_lists prices_given_def
      ptf_given_def term_consistent_def)

theorem Validate_accepts_witness:
  "ptf_given (sample_ptf_tariff\<lparr>t_KbkReactivePower := Some 1, t_KbkDistributionCostTlPerKwh := Some 1\<rparr>)"
  using Validate_accepts [THEN iffD1, OF sample_draft_accepted] by blast

text \<open>The error code of the currency field: \<open>invalid\<close> for an unknown currency, even of a PTF tariff;
  \<open>must_be_try\<close> for a PTF tariff in another known currency; no code otherwise. The first code of a
  field wins.\<close>

theorem Validate_currency_code:
  assumes "Validate d = Inl f"
  shows "f (Field ''currency'') =
    (if \<not> CurrencyCode_Valid (t_Currency (d_Tariff d)) then Some CodeInvalid
     else if t_UsePtfYekdem (d_Tariff d) \<and> t_Currency (d_Tariff d) \<noteq> CurrencyTRY then Some CodeMustBeTRY
     else None)"
proof -
  define t where "t = normalise (set_vat (d_VatRate d) (d_Tariff d))"
  have t: "t_Currency t = t_Currency (d_Tariff d)" "t_UsePtfYekdem t = t_UsePtfYekdem (d_Tariff d)"
    by (simp_all add: t_def normalise_def set_vat_def split: option.split)
  have f: "f = draft_errors d t" using assms by (simp add: Validate_def Let_def t_def split: if_splits)
  have "check_vat r Map.empty (Field ''currency'') = None" for r
    by (simp add: check_vat_def set_code_def split: option.split)
  then have e: "check_enums t (check_vat (d_VatRate d) Map.empty) (Field ''currency'') =
      (if \<not> CurrencyCode_Valid (t_Currency t) then Some CodeInvalid else None)"
    by (simp add: check_enums_def set_when_apply)
  have p: "check_prices t g (Field ''currency'') = g (Field ''currency'')" for g
    by (simp add: check_prices_def set_when_apply split: price_type.split)
  have "check_ptf t g (Field ''currency'') =
      (if t_UsePtfYekdem t \<and> t_Currency t \<noteq> CurrencyTRY \<and> g (Field ''currency'') = None then Some CodeMustBeTRY
       else g (Field ''currency''))" for g
    by (simp add: check_ptf_def set_when_apply)
  moreover have "check_term t g (Field ''currency'') = g (Field ''currency'')" for g
    by (simp add: check_term_def set_when_apply Let_def split: tariff_term.split)
  ultimately show ?thesis
    unfolding f draft_errors_def indexed_checks_keep_fields check_overuse_def check_generation_def t [symmetric]
    by (simp add: set_when_apply p e)
qed

theorem Validate_currency_code_witness:
  "\<exists>f. Validate (sample_draft\<lparr>d_Tariff := sample_ptf_tariff\<lparr>t_Currency := CurrencyUSD\<rparr>\<rparr>) = Inl f \<and>
     f (Field ''currency'') = Some CodeMustBeTRY"
proof -
  let ?d = "sample_draft\<lparr>d_Tariff := sample_ptf_tariff\<lparr>t_Currency := CurrencyUSD\<rparr>\<rparr>"
  have "\<not> ptf_given (normalise (set_vat (d_VatRate ?d) (d_Tariff ?d)))"
    by (simp add: sample_draft_def set_vat_def normalise_def ptf_given_def sample_ptf_tariff_def)
  then have "Validate ?d \<noteq> Inr t" for t by (auto simp: Validate_Inr draft_errors_empty)
  then obtain f where "Validate ?d = Inl f" by (cases "Validate ?d") auto
  with Validate_currency_code [OF this] show ?thesis
    by (simp add: sample_draft_def sample_ptf_tariff_def enum_Valid enum_lists)
qed

lemma price_hour_total: "t_KbkEnergy t \<noteq> None \<Longrightarrow> price_hour L t hourly y ptf kwh h s \<noteq> None"
  by (auto simp: price_hour_def Let_def split: option.splits)

lemma price_loop_total:
  assumes "t_KbkEnergy t \<noteq> None"
  shows "price_loop (price_hour L t hourly y ptf kwh) h stop s \<noteq> None"
proof (induction "price_hour L t hourly y ptf kwh" h stop s rule: price_loop.induct)
  case (1 h stop s)
  show ?case
  proof (cases "price_hour L t hourly y ptf kwh h s")
    case None
    then show ?thesis using price_hour_total [OF assms] by blast
  next
    case (Some s')
    then show ?thesis using 1 by (subst price_loop.simps) simp
  qed
qed

text \<open>Pricing a tariff that passed the check cannot fail on the tariff: a validated PTF tariff is priced for every non-empty
  period of whole hours, whatever the market data and the consumption; in particular the nil coefficient
  is never dereferenced.\<close>

theorem Validate_Price:
  assumes "Validate d = Inr t" and "t_UsePtfYekdem t"
    and "From period < To period" and "From period mod hour = 0" and "To period mod hour = 0"
  shows "\<exists>out. Price L t period hours hourlyAvailable m p loc = Inr out"
proof -
  have "ptf_given t" using assms(1) unfolding Validate_Inr draft_errors_empty by blast
  then have "t_KbkEnergy t \<noteq> None" using assms(2) by (simp add: ptf_given_def)
  from price_loop_total [OF this] show ?thesis
    using assms by (auto simp: Price_def Valid_def Truncate_hour Let_def split: option.split)
qed

theorem Validate_Price_witness:
  "\<exists>out. Price std_declib
     (sample_ptf_tariff\<lparr>t_KbkReactivePower := Some 1, t_KbkDistributionCostTlPerKwh := Some 1\<rparr>)
     \<lparr>From = 0, To = hour\<rparr> [] False sample_market sample_params utc = Inr out"
  by (rule Validate_Price [OF sample_draft_accepted])
    (simp_all add: sample_ptf_tariff_def)

end
