(* ===== verification/Tariff_Public.thy ===== *)
theory Tariff_Public
  imports Tariff_Resolve
begin

text \<open>
  \<open>tariff/public.go\<close>: the public bill estimator. A Go \<open>time.Time\<close> carries its location and
  \<open>civilDay\<close> reads the date in it, so an instant of the input is a pair with its location;
  the rows of the schedule are \<open>date\<close> columns and \<open>rloc\<close> is the location they are scanned in.
  The loop that checks the six optional figures ranges over a Go map: \<open>visit\<close> is the order one run takes.
\<close>

section \<open>Input, result and helpers\<close>

type_synonym public_error = "string \<times> string"

record public_input =
  u_Group :: distribution_user_group
  u_Level :: voltage_level
  u_Term :: tariff_term
  u_MultiTime :: bool
  u_Start :: "time \<times> location"
  u_End :: "time \<times> location"
  u_Total :: "dec option"
  u_T1 :: "dec option"
  u_T2 :: "dec option"
  u_T3 :: "dec option"
  u_Demand :: "dec option"
  u_ContractPower :: "dec option"

record public_result =
  ur_Energy :: dec
  ur_Distribution :: dec
  ur_Power :: dec
  ur_Overuse :: dec
  ur_VatBase :: dec
  ur_Vat :: dec
  ur_Total :: dec
  ur_VatRate :: dec
  ur_Days :: int
  ur_GroupUsed :: distribution_user_group
  ur_Row :: national_tariff_schedule_entry
  ur_Basis :: string

type_synonym picker =
  "distribution_user_group \<Rightarrow> voltage_level \<Rightarrow> tariff_term \<Rightarrow> national_tariff_schedule_entry option"

definition publicGroups :: "distribution_user_group \<Rightarrow> distribution_user_group option" where
  "publicGroups g =
     (case g of
        UserGroupResidential \<Rightarrow> Some UserGroupResidentialPlus
      | UserGroupCommercial \<Rightarrow> Some UserGroupCommercialPlus
      | UserGroupIndustrial \<Rightarrow> Some (DistributionUserGroupOther [])
      | UserGroupAgricultural \<Rightarrow> Some (DistributionUserGroupOther [])
      | UserGroupLighting \<Rightarrow> Some (DistributionUserGroupOther [])
      | _ \<Rightarrow> None)"

definition maxValue :: dec where "maxValue = 1000000000"
definition tolerance :: dec where "tolerance = 1 / 100"

definition zeroIfNil :: "dec option \<Rightarrow> dec" where
  "zeroIfNil v = (case v of None \<Rightarrow> 0 | Some x \<Rightarrow> x)"

definition civilDay :: "time \<times> location \<Rightarrow> time" where
  "civilDay t = (case date_in (snd t) (fst t) of (y, m, d) \<Rightarrow> midnight y m d utc)"

definition duration_days :: "duration \<Rightarrow> int" where
  "duration_days d = d div hour div 24"

section \<open>Consumption and the calculator\<close>

definition consumption :: "public_input \<Rightarrow> public_error + dec \<times> string" where
  "consumption inp =
     (let s = zeroIfNil (u_T1 inp) + zeroIfNil (u_T2 inp) + zeroIfNil (u_T3 inp);
          hasBands = 0 < s;
          hasTotal = (case u_Total inp of None \<Rightarrow> False | Some t \<Rightarrow> 0 < t)
      in if hasTotal \<and> hasBands \<and> tolerance < \<bar>the (u_Total inp) - s\<bar>
         then Inl (''total_consumption'', ''mismatch'')
         else if u_MultiTime inp
         then (if u_T1 inp = None then Inl (''t1'', ''required'')
               else if u_T2 inp = None then Inl (''t2'', ''required'')
               else if u_T3 inp = None then Inl (''t3'', ''required'')
               else Inr (s, ''bands''))
         else if hasTotal then Inr (the (u_Total inp), ''total'')
         else Inr (s, ''total''))"

fun out_of_range :: "(string \<times> dec option) list \<Rightarrow> string option" where
  "out_of_range [] = None"
| "out_of_range ((fld, v) # vs) =
     (case v of
        None \<Rightarrow> out_of_range vs
      | Some x \<Rightarrow> if x < 0 \<or> \<not> x < maxValue then Some fld else out_of_range vs)"

definition public_figures :: "public_input \<Rightarrow> (string \<times> dec option) list" where
  "public_figures inp =
     [(''total_consumption'', u_Total inp), (''t1'', u_T1 inp), (''t2'', u_T2 inp), (''t3'', u_T3 inp),
      (''demand'', u_Demand inp), (''contract_power'', u_ContractPower inp)]"

text \<open>The row that prices the bill: the higher group's when the daily consumption passes the threshold.\<close>

definition choose_row ::
  "declib \<Rightarrow> public_input \<Rightarrow> picker \<Rightarrow> distribution_user_group \<Rightarrow> dec \<Rightarrow> int \<Rightarrow>
   national_tariff_schedule_entry \<Rightarrow> national_tariff_schedule_entry \<times> distribution_user_group" where
  "choose_row L inp pick higher kwh days row =
     (case n_DailyThresholdKwh row of
        None \<Rightarrow> (row, u_Group inp)
      | Some threshold \<Rightarrow>
          if higher \<noteq> DistributionUserGroupOther [] \<and> threshold < Div L kwh (of_int days)
          then (case pick higher (u_Level inp) (u_Term inp) of
                  Some high \<Rightarrow> (high, higher)
                | None \<Rightarrow> (row, u_Group inp))
          else (row, u_Group inp))"

text \<open>The power and the overuse charge.\<close>

definition public_power ::
  "declib \<Rightarrow> public_input \<Rightarrow> int \<Rightarrow> national_tariff_schedule_entry \<Rightarrow> public_error + dec \<times> dec" where
  "public_power L inp days row =
     (if u_Term inp = TariffTermBinomial
      then (case u_ContractPower inp of
              None \<Rightarrow> Inl (''contract_power'', ''required'')
            | Some cp \<Rightarrow>
                if \<not> 0 < cp then Inl (''contract_power'', ''required'')
                else
                  Inr (Div L (zeroIfNil (n_PowerPrice row) * cp * of_int days) 30,
                       case u_Demand inp of
                         None \<Rightarrow> 0
                       | Some dm \<Rightarrow> if cp < dm then (dm - cp) * zeroIfNil (n_OverusePrice row) else 0))
      else Inr (0, 0))"

definition public_amounts ::
  "declib \<Rightarrow> public_input \<Rightarrow> int \<Rightarrow> distribution_user_group \<Rightarrow> national_tariff_schedule_entry \<Rightarrow>
   string \<Rightarrow> dec \<Rightarrow> dec \<Rightarrow> dec \<Rightarrow> public_result" where
  "public_amounts L inp days used row basis kwh pw ou =
     (let energy =
            (if u_MultiTime inp
             then zeroIfNil (u_T1 inp) * the (n_T1Price row) + zeroIfNil (u_T2 inp) * the (n_T2Price row) +
                  zeroIfNil (u_T3 inp) * the (n_T3Price row)
             else kwh * n_EnergyPrice row);
          distribution = kwh * n_DistributionPrice row;
          base = energy + distribution + pw + ou;
          vat = Div L (base * n_VatRate row) 100
      in \<lparr>ur_Energy = Round L energy 2, ur_Distribution = Round L distribution 2, ur_Power = Round L pw 2,
          ur_Overuse = Round L ou 2, ur_VatBase = Round L base 2, ur_Vat = Round L vat 2,
          ur_Total = Round L (base + vat) 2, ur_VatRate = n_VatRate row, ur_Days = days,
          ur_GroupUsed = used, ur_Row = row, ur_Basis = basis\<rparr>)"

definition PublicBill ::
  "declib \<Rightarrow> ((string \<times> dec option) list \<Rightarrow> (string \<times> dec option) list) \<Rightarrow> public_input \<Rightarrow> picker \<Rightarrow>
   public_error + public_result" where
  "PublicBill L visit inp pick =
     (case publicGroups (u_Group inp) of
        None \<Rightarrow> Inl (''group'', ''invalid'')
      | Some higher \<Rightarrow>
        if \<not> VoltageLevel_Valid (u_Level inp) then Inl (''voltage_level'', ''invalid'')
        else if \<not> TariffTerm_Valid (u_Term inp) \<or>
                u_Term inp = TariffTermBinomial \<and> u_Level inp \<noteq> VoltageLevelMV
        then Inl (''term'', ''invalid'')
        else
          let start = civilDay (u_Start inp); stop = civilDay (u_End inp)
          in if stop < start then Inl (''end'', ''invalid_range'')
             else
               let days = duration_days (Sub stop start) + 1
               in if 366 < days then Inl (''end'', ''range_too_long'')
                  else case out_of_range (visit (public_figures inp)) of
                    Some fld \<Rightarrow> Inl (fld, ''out_of_range'')
                  | None \<Rightarrow>
                      (case consumption inp of
                         Inl e \<Rightarrow> Inl e
                       | Inr (kwh, basis) \<Rightarrow>
                           (case pick (u_Group inp) (u_Level inp) (u_Term inp) of
                              None \<Rightarrow> Inl (''start'', ''no_tariff'')
                            | Some row0 \<Rightarrow>
                                (case choose_row L inp pick higher kwh days row0 of
                                   (row, used) \<Rightarrow>
                                     if u_MultiTime inp \<and>
                                        (n_T1Price row = None \<or> n_T2Price row = None \<or> n_T3Price row = None)
                                     then Inl (''multi_time'', ''not_available'')
                                     else (case public_power L inp days row of
                                             Inl e \<Rightarrow> Inl e
                                           | Inr (pw, ou) \<Rightarrow>
                                               Inr (public_amounts L inp days used row basis kwh pw ou))))))"

section \<open>SchedulePicker\<close>

fun schedule_loop ::
  "location \<Rightarrow> time \<Rightarrow> distribution_user_group \<Rightarrow> voltage_level \<Rightarrow> tariff_term \<Rightarrow>
   national_tariff_schedule_entry list \<Rightarrow> national_tariff_schedule_entry option \<Rightarrow>
   national_tariff_schedule_entry option" where
  "schedule_loop rloc day g l t [] best = best"
| "schedule_loop rloc day g l t (r # rows) best =
     (if n_UserGroup r \<noteq> g \<or> n_VoltageLevel r \<noteq> l \<or> n_Term r \<noteq> t \<or> day < civilDay (n_EffectiveFrom r, rloc)
      then schedule_loop rloc day g l t rows best
      else schedule_loop rloc day g l t rows
             (case best of
                None \<Rightarrow> Some r
              | Some b \<Rightarrow> if n_EffectiveFrom b < n_EffectiveFrom r then Some r else best))"

definition SchedulePicker ::
  "location \<Rightarrow> national_tariff_schedule_entry list \<Rightarrow> time \<times> location \<Rightarrow> picker" where
  "SchedulePicker rloc rows on g l t = schedule_loop rloc (civilDay on) g l t rows None"

definition in_schedule ::
  "location \<Rightarrow> time \<Rightarrow> distribution_user_group \<Rightarrow> voltage_level \<Rightarrow> tariff_term \<Rightarrow>
   national_tariff_schedule_entry \<Rightarrow> bool" where
  "in_schedule rloc day g l t r \<longleftrightarrow>
     n_UserGroup r = g \<and> n_VoltageLevel r = l \<and> n_Term r = t \<and> civilDay (n_EffectiveFrom r, rloc) \<le> day"

lemma schedule_loop_best_by:
  "schedule_loop rloc day g l t rows best = best_by (in_schedule rloc day g l t) n_EffectiveFrom rows best"
  by (induction rows arbitrary: best) (auto simp: in_schedule_def split: option.split)

interpretation schedule: effective_dating
  "\<lambda>rows. SchedulePicker rloc rows on g l t" "in_schedule rloc (civilDay on) g l t" n_EffectiveFrom
  for rloc on g l t
  unfolding SchedulePicker_def schedule_loop_best_by by (rule effective_dating_best_by)

section \<open>What a success tells\<close>

lemma PublicBill_Inr:
  assumes "PublicBill L visit inp pick = Inr r"
  obtains days used row basis kwh pw ou where
    "r = public_amounts L inp days used row basis kwh pw ou"
    and "civilDay (u_Start inp) \<le> civilDay (u_End inp)"
    and "days = duration_days (Sub (civilDay (u_End inp)) (civilDay (u_Start inp))) + 1" and "days \<le> 366"
    and "consumption inp = Inr (kwh, basis)" and "public_power L inp days row = Inr (pw, ou)"
proof -
  let ?days = "duration_days (Sub (civilDay (u_End inp)) (civilDay (u_Start inp))) + 1"
  from assms obtain higher where g: "publicGroups (u_Group inp) = Some higher"
    and h: "civilDay (u_Start inp) \<le> civilDay (u_End inp)" "?days \<le> 366"
    by (auto simp: PublicBill_def Let_def split: option.splits if_splits)
  from assms g h obtain kwh basis where c: "consumption inp = Inr (kwh, basis)"
    by (auto simp: PublicBill_def Let_def split: option.splits if_splits sum.splits)
  from assms g h c obtain row0 where p: "pick (u_Group inp) (u_Level inp) (u_Term inp) = Some row0"
    by (auto simp: PublicBill_def Let_def split: option.splits if_splits)
  obtain row used where ch: "choose_row L inp pick higher kwh ?days row0 = (row, used)" by fastforce
  from assms g h c p ch obtain pw ou where pp: "public_power L inp ?days row = Inr (pw, ou)"
    by (auto simp: PublicBill_def Let_def split: option.splits if_splits sum.splits)
  with pp assms g h c p ch have "r = public_amounts L inp ?days used row basis kwh pw ou"
    by (auto simp: PublicBill_def Let_def split: option.splits if_splits)
  then show thesis using that h c pp by blast
qed

lemma lib_round_2_near: "decimal_lib L \<Longrightarrow> \<bar>Round L x 2 - x\<bar> \<le> 1 / 200"
  using decimal_lib.round_near [of L x 2] by (simp add: abs_le_iff field_simps)

lemma out_of_range_Some: "out_of_range vs = Some fld \<Longrightarrow> \<exists>x. (fld, Some x) \<in> set vs \<and> (x < 0 \<or> maxValue \<le> x)"
  by (induction vs rule: out_of_range.induct) (auto split: option.splits if_splits)

lemma out_of_range_None: "out_of_range vs = None \<longleftrightarrow> (\<forall>(fld, v) \<in> set vs. \<forall>x. v = Some x \<longrightarrow> 0 \<le> x \<and> x < maxValue)"
  by (induction vs rule: out_of_range.induct) (auto split: option.splits)

section \<open>Properties\<close>

text \<open>The public estimate adds up: every amount is a number of whole kurus, the VAT base differs from the sum of the four
  charges shown by at most two and a half kurus and the total from VAT base plus VAT by at most one and a half
  (each figure is rounded once, after an unrounded sum), and the days are between 1 and 366.\<close>

theorem PublicBill_adds_up:
  assumes "decimal_lib L" and "PublicBill L visit inp pick = Inr r"
  shows "\<bar>ur_VatBase r - (ur_Energy r + ur_Distribution r + ur_Power r + ur_Overuse r)\<bar> \<le> 5 / 200 \<and>
    \<bar>ur_Total r - (ur_VatBase r + ur_Vat r)\<bar> \<le> 3 / 200 \<and>
    (\<forall>x \<in> {ur_Energy r, ur_Distribution r, ur_Power r, ur_Overuse r, ur_VatBase r, ur_Vat r, ur_Total r}. on_grid 2 x) \<and>
    (1 \<le> ur_Days r \<and> ur_Days r \<le> 366)"
proof -
  have part1: "\<bar>ur_VatBase r - (ur_Energy r + ur_Distribution r + ur_Power r + ur_Overuse r)\<bar> \<le> 5 / 200"
    and part2: "\<bar>ur_Total r - (ur_VatBase r + ur_Vat r)\<bar> \<le> 3 / 200"
    and part3: "\<forall>x \<in> {ur_Energy r, ur_Distribution r, ur_Power r, ur_Overuse r, ur_VatBase r, ur_Vat r, ur_Total r}. on_grid 2 x"
    and part4: "1 \<le> ur_Days r \<and> ur_Days r \<le> 366"
  proof -
    from PublicBill_Inr [OF assms(2)] obtain days used row basis kwh pw ou where
      r: "r = public_amounts L inp days used row basis kwh pw ou"
      and order: "civilDay (u_Start inp) \<le> civilDay (u_End inp)"
      and days: "days = duration_days (Sub (civilDay (u_End inp)) (civilDay (u_Start inp))) + 1" "days \<le> 366"
      by metis
    define energy where "energy = (if u_MultiTime inp
        then zeroIfNil (u_T1 inp) * the (n_T1Price row) + zeroIfNil (u_T2 inp) * the (n_T2Price row) +
          zeroIfNil (u_T3 inp) * the (n_T3Price row)
        else kwh * n_EnergyPrice row)"
    define dist where "dist = kwh * n_DistributionPrice row"
    define vat where "vat = Div L ((energy + dist + pw + ou) * n_VatRate row) 100"
    have f: "ur_Energy r = Round L energy 2" "ur_Distribution r = Round L dist 2" "ur_Power r = Round L pw 2"
      "ur_Overuse r = Round L ou 2" "ur_VatBase r = Round L (energy + dist + pw + ou) 2"
      "ur_Vat r = Round L vat 2" "ur_Total r = Round L (energy + dist + pw + ou + vat) 2" "ur_Days r = days"
      by (simp_all add: r public_amounts_def Let_def energy_def dist_def vat_def)
    note n = lib_round_2_near [OF assms(1)]
    have tri: "\<bar>b - (p + q + u + w)\<bar> \<le> 5 / 200"
      if "\<bar>b - (p' + q' + u' + w')\<bar> \<le> 1 / 200" "\<bar>p - p'\<bar> \<le> 1 / 200" "\<bar>q - q'\<bar> \<le> 1 / 200"
        "\<bar>u - u'\<bar> \<le> 1 / 200" "\<bar>w - w'\<bar> \<le> 1 / 200" for b p q u w p' q' u' w' :: dec
      using that unfolding abs_le_iff by linarith
    show "\<bar>ur_VatBase r - (ur_Energy r + ur_Distribution r + ur_Power r + ur_Overuse r)\<bar> \<le> 5 / 200"
      unfolding f by (rule tri) (rule n)+
    have tri3: "\<bar>b - (p + q)\<bar> \<le> 3 / 200"
      if "\<bar>b - (p' + q')\<bar> \<le> 1 / 200" "\<bar>p - p'\<bar> \<le> 1 / 200" "\<bar>q - q'\<bar> \<le> 1 / 200" for b p q p' q' :: dec
      using that unfolding abs_le_iff by linarith
    show "\<bar>ur_Total r - (ur_VatBase r + ur_Vat r)\<bar> \<le> 3 / 200"
      unfolding f by (rule tri3) (rule n)+
    show "\<forall>x \<in> {ur_Energy r, ur_Distribution r, ur_Power r, ur_Overuse r, ur_VatBase r, ur_Vat r, ur_Total r}. on_grid 2 x"
      unfolding f using decimal_lib.round_grid [OF assms(1)] by simp
    have "0 \<le> Sub (civilDay (u_End inp)) (civilDay (u_Start inp))" using order by (simp add: Sub_def)
    then have "0 \<le> duration_days (Sub (civilDay (u_End inp)) (civilDay (u_Start inp)))"
      by (simp add: duration_days_def pos_imp_zdiv_nonneg_iff hour_def ns_per_sec_def)
    then show "1 \<le> ur_Days r \<and> ur_Days r \<le> 366" using days by (simp add: f)
  qed
  show ?thesis by (rule conjI [OF part1 conjI [OF part2 conjI [OF part3 part4]]])
qed

definition sample_row :: national_tariff_schedule_entry where
  "sample_row =
     \<lparr>n_ID = 1, n_EffectiveFrom = 0, n_UserGroup = UserGroupResidential, n_VoltageLevel = VoltageLevelLV,
      n_Term = TariffTermMonomial, n_EnergyPrice = 1, n_T1Price = None, n_T2Price = None, n_T3Price = None,
      n_DistributionPrice = 1, n_PowerPrice = None, n_OverusePrice = None, n_DailyThresholdKwh = None,
      n_VatRate = 20, n_Source = None, n_CreatedAt = 0\<rparr>"

definition sample_public :: public_input where
  "sample_public =
     \<lparr>u_Group = UserGroupResidential, u_Level = VoltageLevelLV, u_Term = TariffTermMonomial, u_MultiTime = False,
      u_Start = (0, utc), u_End = (0, utc), u_Total = Some 10, u_T1 = None, u_T2 = None, u_T3 = None,
      u_Demand = None, u_ContractPower = None\<rparr>"

lemma sample_PublicBill:
  "PublicBill std_declib (\<lambda>vs. vs) sample_public (\<lambda>_ _ _. Some sample_row) =
     Inr (public_amounts std_declib sample_public 1 UserGroupResidential sample_row ''total'' 10 0 0)"
  by (simp add: PublicBill_def sample_public_def sample_row_def publicGroups_def enum_Valid enum_lists
      Sub_def duration_days_def public_figures_def maxValue_def consumption_def zeroIfNil_def choose_row_def
      public_power_def Let_def)

theorem PublicBill_adds_up_witness:
  "\<bar>ur_Total (public_amounts std_declib sample_public 1 UserGroupResidential sample_row ''total'' 10 0 0) -
     (ur_VatBase (public_amounts std_declib sample_public 1 UserGroupResidential sample_row ''total'' 10 0 0) +
      ur_Vat (public_amounts std_declib sample_public 1 UserGroupResidential sample_row ''total'' 10 0 0))\<bar> \<le> 3 / 200"
  by (rule PublicBill_adds_up [OF std.decimal_lib_axioms sample_PublicBill, THEN conjunct2, THEN conjunct1])

text \<open>What the order of the map iteration may change: for two orders of visiting the six figures the calculator gives the same
  outcome, except that when several figures are out of range each run names one of those; a figure
  named out of range is negative or at least the maximum.\<close>

theorem PublicBill_visit_order:
  assumes "set (visit (public_figures inp)) = set (public_figures inp)"
    and "set (visit' (public_figures inp)) = set (public_figures inp)"
  shows "PublicBill L visit inp pick = PublicBill L visit' inp pick \<or>
    (\<exists>a b x y. PublicBill L visit inp pick = Inl (a, ''out_of_range'') \<and>
       PublicBill L visit' inp pick = Inl (b, ''out_of_range'') \<and>
       (a, Some x) \<in> set (public_figures inp) \<and> (x < 0 \<or> maxValue \<le> x) \<and>
       (b, Some y) \<in> set (public_figures inp) \<and> (y < 0 \<or> maxValue \<le> y))"
proof (cases "out_of_range (visit (public_figures inp))")
  case None
  then have none': "out_of_range (visit' (public_figures inp)) = None"
    unfolding out_of_range_None assms .
  have "PublicBill L visit inp pick = PublicBill L visit' inp pick"
    unfolding PublicBill_def Let_def None none' ..
  then show ?thesis ..
next
  case (Some a)
  have "(out_of_range (visit (public_figures inp)) = None) = (out_of_range (visit' (public_figures inp)) = None)"
    unfolding out_of_range_None assms ..
  with Some obtain b where b: "out_of_range (visit' (public_figures inp)) = Some b" by auto
  have body: "PublicBill L v inp pick =
      (case publicGroups (u_Group inp) of None \<Rightarrow> Inl (''group'', ''invalid'')
       | Some h \<Rightarrow>
         if \<not> VoltageLevel_Valid (u_Level inp) then Inl (''voltage_level'', ''invalid'')
         else if \<not> TariffTerm_Valid (u_Term inp) \<or> u_Term inp = TariffTermBinomial \<and> u_Level inp \<noteq> VoltageLevelMV
         then Inl (''term'', ''invalid'')
         else if civilDay (u_End inp) < civilDay (u_Start inp) then Inl (''end'', ''invalid_range'')
         else if 366 < duration_days (Sub (civilDay (u_End inp)) (civilDay (u_Start inp))) + 1
         then Inl (''end'', ''range_too_long'') else Inl (f, ''out_of_range''))"
    if "out_of_range (v (public_figures inp)) = Some f" for v f
    using that by (simp add: PublicBill_def Let_def split: option.split)
  show ?thesis
    using out_of_range_Some [OF Some] out_of_range_Some [OF b] unfolding assms body [of visit, OF Some] body [of visit', OF b]
    by (simp split: option.split)
qed

theorem PublicBill_visit_order_witness:
  "PublicBill std_declib rev sample_public (\<lambda>_ _ _. Some sample_row) =
     PublicBill std_declib (\<lambda>vs. vs) sample_public (\<lambda>_ _ _. Some sample_row)"
  using PublicBill_visit_order [of rev sample_public "\<lambda>vs. vs" std_declib "\<lambda>_ _ _. Some sample_row"]
  by (simp add: sample_PublicBill)

text \<open>The schedule row of a class: \<open>SchedulePicker\<close> answers none exactly when the schedule has no row of
  the group, voltage level and term whose civil date has come; otherwise such a row of the latest effective instant.
  A row published for a later date never changes the answer.\<close>

theorem SchedulePicker_latest:
  "(case SchedulePicker rloc rows on g l t of
      None \<Rightarrow> \<forall>r \<in> set rows. \<not> in_schedule rloc (civilDay on) g l t r
    | Some r \<Rightarrow> r \<in> set rows \<and> in_schedule rloc (civilDay on) g l t r \<and>
        (\<forall>x \<in> set rows. in_schedule rloc (civilDay on) g l t x \<longrightarrow> n_EffectiveFrom x \<le> n_EffectiveFrom r)) \<and>
   (civilDay on < civilDay (n_EffectiveFrom n, rloc) \<longrightarrow>
      SchedulePicker rloc (rows @ n # rows') on g l t = SchedulePicker rloc (rows @ rows') on g l t)"
proof (intro conjI impI)
  show "case SchedulePicker rloc rows on g l t of
      None \<Rightarrow> \<forall>r \<in> set rows. \<not> in_schedule rloc (civilDay on) g l t r
    | Some r \<Rightarrow> r \<in> set rows \<and> in_schedule rloc (civilDay on) g l t r \<and>
        (\<forall>x \<in> set rows. in_schedule rloc (civilDay on) g l t x \<longrightarrow> n_EffectiveFrom x \<le> n_EffectiveFrom r)"
  proof (cases "SchedulePicker rloc rows on g l t")
    case None
    from None schedule.pick_None [THEN iffD1, OF None] show ?thesis by simp
  next
    case (Some r)
    from schedule.pick_Some [OF this] show ?thesis unfolding Some by simp
  qed
  show "SchedulePicker rloc (rows @ n # rows') on g l t = SchedulePicker rloc (rows @ rows') on g l t"
    if "civilDay on < civilDay (n_EffectiveFrom n, rloc)"
    using that by (intro schedule.pick_ignores) (simp add: in_schedule_def)
qed

theorem SchedulePicker_latest_witness:
  "in_schedule utc (civilDay (0, utc)) UserGroupResidential VoltageLevelLV TariffTermMonomial sample_row"
proof -
  have "SchedulePicker utc [sample_row] (0, utc) UserGroupResidential VoltageLevelLV TariffTermMonomial = Some sample_row"
    by (rule schedule.pick_unique) (simp_all add: in_schedule_def sample_row_def)
  then show ?thesis
    using SchedulePicker_latest [of "[sample_row]" utc "(0, utc)" UserGroupResidential VoltageLevelLV TariffTermMonomial]
    by simp
qed

end
