(* ===== verification/Billing_Money.thy ===== *)
theory Billing_Money
  imports Model_Types
begin

text \<open>
  \<open>billing/flags.go\<close>: the flags of an invoice and the rounding of a money amount. A Go
  \<open>Flag\<close> is a string and the flags are sorted as strings, which is the order instantiated here.
  A \<open>map[Flag]bool\<close> used as a set is the list of its keys in the order one iteration takes.
\<close>

section \<open>Flags\<close>

datatype flag =
    FlagPTFDataMissing
  | FlagReactiveDataMissing
  | FlagInstalledPowerMissing
  | FlagGenerationDataMissing
  | FlagTieringPriceMissing

fun flag_string :: "flag \<Rightarrow> string" where
  "flag_string FlagPTFDataMissing = ''ptf_data_missing''"
| "flag_string FlagReactiveDataMissing = ''reactive_data_missing''"
| "flag_string FlagInstalledPowerMissing = ''installed_power_missing''"
| "flag_string FlagGenerationDataMissing = ''generation_data_missing''"
| "flag_string FlagTieringPriceMissing = ''tiering_price_missing''"

lemma flag_string_inject: "flag_string a = flag_string b \<longleftrightarrow> a = b"
  by (cases a; cases b) simp_all

instantiation flag :: linorder
begin

definition less_eq_flag :: "flag \<Rightarrow> flag \<Rightarrow> bool" where
  "less_eq_flag a b \<longleftrightarrow> flag_string a \<le> flag_string b"

definition less_flag :: "flag \<Rightarrow> flag \<Rightarrow> bool" where
  "less_flag a b \<longleftrightarrow> flag_string a < flag_string b"

instance
proof
  fix a b c :: flag
  show "(a < b) = (a \<le> b \<and> \<not> b \<le> a)" by (auto simp: less_eq_flag_def less_flag_def)
  show "a \<le> a" by (simp add: less_eq_flag_def)
  show "a \<le> b \<Longrightarrow> b \<le> c \<Longrightarrow> a \<le> c" by (auto simp: less_eq_flag_def)
  show "a \<le> b \<Longrightarrow> b \<le> a \<Longrightarrow> a = b" by (auto simp: less_eq_flag_def flag_string_inject)
  show "a \<le> b \<or> b \<le> a" by (auto simp: less_eq_flag_def)
qed

end

definition raise_flag :: "flag \<Rightarrow> flag list \<Rightarrow> flag list" where
  "raise_flag f flags = (if f \<in> set flags then flags else flags @ [f])"

definition raise_when :: "bool \<Rightarrow> flag \<Rightarrow> flag list \<Rightarrow> flag list" where
  "raise_when c f flags = (if c then raise_flag f flags else flags)"

definition sortedFlags :: "flag list \<Rightarrow> flag list" where
  "sortedFlags flags = sort flags"

lemma set_raise_flag [simp]: "set (raise_flag f flags) = insert f (set flags)"
  by (auto simp: raise_flag_def)

lemma set_raise_when [simp]: "set (raise_when c f flags) = (if c then insert f (set flags) else set flags)"
  by (simp add: raise_when_def)

lemma distinct_raise_flag [simp]: "distinct flags \<Longrightarrow> distinct (raise_flag f flags)"
  by (simp add: raise_flag_def)

lemma distinct_raise_when [simp]: "distinct flags \<Longrightarrow> distinct (raise_when c f flags)"
  by (simp add: raise_when_def)

text \<open>The sorted list depends on the set of flags only, not on the order of the map iteration.\<close>

lemma sortedFlags_order:
  "distinct a \<Longrightarrow> distinct b \<Longrightarrow> set a = set b \<Longrightarrow> sortedFlags a = sortedFlags b"
  unfolding sortedFlags_def by (rule sorted_distinct_set_unique) simp_all

lemma sortedFlags_simps [simp]: "set (sortedFlags flags) = set flags" "sorted (sortedFlags flags)"
  "distinct (sortedFlags flags) = distinct flags"
  by (simp_all add: sortedFlags_def)

section \<open>Round2\<close>

definition hundred :: dec where "hundred = 100"

function Round2 :: "declib \<Rightarrow> dec \<Rightarrow> money_rounding_mode \<Rightarrow> dec" where
  "Round2 L x mode =
     (if x < 0 then - Round2 L (- x) mode
      else if mode = MoneyRoundingHalfEven then RoundBank L x 2 else Round L x 2)"
  by pat_completeness auto
termination
  by (relation "measure (\<lambda>(L, x, mode). if x < 0 then 1 else 0)") auto

declare Round2.simps [simp del]

lemma Round2_nonneg_arg:
  assumes "decimal_lib L" and "0 \<le> x"
  shows "Round2 L x mode = (if mode = MoneyRoundingHalfEven then round_even x 2 else round_away x 2)"
  using assms(2) by (simp add: Round2.simps [of L x] decimal_lib.Round_eq [OF assms(1)]
      decimal_lib.RoundBank_eq [OF assms(1)])

lemma Round2_minus: "Round2 L (- x) mode = - Round2 L x mode" if "x \<noteq> 0"
  using that by (cases "x < 0") (simp_all add: Round2.simps [of L x] Round2.simps [of L "- x"])

lemma Round2_0 [simp]: "decimal_lib L \<Longrightarrow> Round2 L 0 mode = 0"
  by (simp add: Round2_nonneg_arg)

lemma Round2_grid [simp]:
  assumes "decimal_lib L"
  shows "on_grid 2 (Round2 L x mode)"
proof (cases "0 \<le> x")
  case True
  then show ?thesis by (simp add: Round2_nonneg_arg [OF assms])
next
  case False
  then have "on_grid 2 (Round2 L (- x) mode)" by (simp add: Round2_nonneg_arg [OF assms])
  with False show ?thesis by (simp add: Round2.simps [of L x])
qed

lemma round_2_near: "\<bar>round_away x 2 - x\<bar> \<le> 1 / 200" "\<bar>round_even x 2 - x\<bar> \<le> 1 / 200"
  using round_away_near [of x 2] round_even_near [of x 2] by (simp_all add: abs_le_iff field_simps)

lemma Round2_near:
  assumes "decimal_lib L"
  shows "\<bar>Round2 L x mode - x\<bar> \<le> 1 / 200"
proof (cases "0 \<le> x")
  case True
  then show ?thesis using round_2_near by (simp add: Round2_nonneg_arg [OF assms])
next
  case False
  then have "\<bar>Round2 L (- x) mode - - x\<bar> \<le> 1 / 200"
    using round_2_near [of "- x"] by (simp add: Round2_nonneg_arg [OF assms])
  moreover have "Round2 L x mode - x = - (Round2 L (- x) mode - - x)"
    using False by (simp add: Round2.simps [of L x])
  ultimately show ?thesis by (simp only: abs_minus_cancel)
qed

lemma Round2_nonneg: "decimal_lib L \<Longrightarrow> 0 \<le> x \<Longrightarrow> 0 \<le> Round2 L x mode"
  by (simp add: Round2_nonneg_arg round_even_nonneg round_away_nonneg)

section \<open>Properties\<close>

text \<open>The rounding of a money amount (R112): the result is whole kurus, at most half a kurus away, exact on whole
  kurus, and a negative amount is rounded like its absolute value under both modes.\<close>

theorem Round2_correct:
  assumes "decimal_lib L"
  shows "on_grid 2 (Round2 L x mode) \<and>
    \<bar>Round2 L x mode - x\<bar> \<le> 1 / 200 \<and>
    (on_grid 2 x \<longrightarrow> Round2 L x mode = x) \<and>
    (Round2 L (- x) mode = - Round2 L x mode) \<and>
    (mode \<noteq> MoneyRoundingHalfEven \<longrightarrow> Round2 L x mode = round_away x 2)"
proof -
  have part1: "on_grid 2 (Round2 L x mode)"
    and part2: "\<bar>Round2 L x mode - x\<bar> \<le> 1 / 200"
    and part3: "on_grid 2 x \<Longrightarrow> Round2 L x mode = x"
    and part4: "Round2 L (- x) mode = - Round2 L x mode"
    and part5: "mode \<noteq> MoneyRoundingHalfEven \<Longrightarrow> Round2 L x mode = round_away x 2"
  proof -
    show "on_grid 2 (Round2 L x mode)" using assms by simp
    show "\<bar>Round2 L x mode - x\<bar> \<le> 1 / 200" using assms by (rule Round2_near)
    have minus: "Round2 L (- y) mode = - Round2 L y mode" for y
      using Round2_minus [of y] assms by (cases "y = 0") simp_all
    then show "Round2 L (- x) mode = - Round2 L x mode" .
    have pos: "on_grid 2 y \<Longrightarrow> 0 \<le> y \<Longrightarrow> Round2 L y mode = y" for y
      by (simp add: Round2_nonneg_arg [OF assms] round_even_exact round_away_exact)
    show "on_grid 2 x \<Longrightarrow> Round2 L x mode = x"
      using pos [of x] pos [of "- x"] minus [of x] by (cases "0 \<le> x") auto
    show "mode \<noteq> MoneyRoundingHalfEven \<Longrightarrow> Round2 L x mode = round_away x 2"
      using minus [of x] by (cases "0 \<le> x") (simp_all add: Round2_nonneg_arg [OF assms] round_away_minus)
  qed
  show ?thesis using part1 part2 part3 part4 part5 by blast
qed

theorem Round2_correct_witness:
  "Round2 std_declib (- (1 / 8)) MoneyRoundingHalfUp = round_away (- (1 / 8)) 2 \<and>
   \<bar>Round2 std_declib (1 / 8) MoneyRoundingHalfEven - 1 / 8\<bar> \<le> 1 / 200"
  using Round2_correct [OF std.decimal_lib_axioms, of "- (1 / 8)" MoneyRoundingHalfUp]
    Round2_correct [OF std.decimal_lib_axioms, of "1 / 8" MoneyRoundingHalfEven] by simp

end
