(* ===== verification/Billing_Compute.thy ===== *)
theory Billing_Compute
  imports Billing_Money Reactive Tariff_Pricing
begin

text \<open>
  \<open>billing/compute.go\<close>: the computation of one invoice, in the numbered steps of the source.
  Each step is a function on the invoice under construction and, where it raises flags, on the list of
  the keys of the flag map. The closures \<open>priced\<close>, \<open>add\<close> and \<open>energyLine\<close> are functions.
\<close>

section \<open>Types\<close>

type_synonym indexes = "string \<rightharpoonup> dec option"

record quantities =
  q_ActiveImport :: "dec option"
  q_T1 :: "dec option"
  q_T2 :: "dec option"
  q_T3 :: "dec option"
  q_ReactiveInductive :: "dec option"
  q_ReactiveCapacitive :: "dec option"
  q_ActiveExport :: "dec option"
  q_ActiveExportKnownSum :: dec
  q_ActiveExportPartial :: bool
  q_MaxDemandKw :: "dec option"
  q_IndexStart :: indexes
  q_IndexEnd :: indexes

record billing_input =
  bi_PeriodKey :: string
  bi_Period :: window
  bi_Days :: int
  bi_Tariff :: tariff
  bi_Taxes :: "tariff_tax list"
  bi_ExtraCharges :: "tariff_extra_charge list"
  bi_Params :: billing_parameters
  bi_Quantities :: quantities
  bi_InstalledPowerKw :: "dec option"
  bi_Pricing :: "pricing option"

record line =
  l_Code :: string
  l_Quantity :: "dec option"
  l_Unit :: string
  l_UnitPrice :: "dec option"
  l_RatePct :: "dec option"
  l_Amount :: dec

definition UnitKwh :: string where "UnitKwh = ''kWh''"
definition UnitKvarh :: string where "UnitKvarh = ''kVArh''"
definition UnitKw :: string where "UnitKw = ''kW''"
definition UnitPeriod :: string where "UnitPeriod = ''period''"
definition UnitPct :: string where "UnitPct = ''%''"

record invoice =
  i_PeriodKey :: string
  i_Period :: window
  i_Days :: int
  i_TariffID :: "uuid option"
  i_TariffEffectiveFrom :: "time option"
  i_Currency :: currency_code
  i_ActiveImport :: dec
  i_T1 :: dec
  i_T2 :: dec
  i_T3 :: dec
  i_Inductive :: dec
  i_Capacitive :: dec
  i_ActiveExport :: dec
  i_NetConsumption :: dec
  i_LowTierKwh :: dec
  i_HighTierKwh :: dec
  i_TieredApplied :: bool
  i_MaxDemandKw :: "dec option"
  i_DemandDataAvailable :: bool
  i_IndexStart :: indexes
  i_IndexEnd :: indexes
  i_EffectiveEnergyPrice :: "dec option"
  i_LowTierPrice :: "dec option"
  i_HighTierPrice :: "dec option"
  i_EnergyCost :: dec
  i_DistributionCost :: dec
  i_GreenEnergyCost :: dec
  i_PowerCost :: dec
  i_DemandOverrunCost :: dec
  i_ReactivePenalty :: dec
  i_ExtraChargesCost :: dec
  i_OtherTaxesCost :: dec
  i_VatBase :: dec
  i_VatCost :: dec
  i_GenerationCredit :: dec
  i_TotalCost :: dec
  i_Reactive :: reactive_result
  i_ReactivePowerPrice :: "dec option"
  i_GenerationUsage :: generation_usage
  i_GenerationPricePerKwh :: "dec option"
  i_PtfYekdemUsed :: bool
  i_Pricing :: "pricing option"
  i_Lines :: "line list"
  i_Flags :: "flag list"

datatype invalid_input =
    ActiveImportNil | BandRegisterNil | PricingNil | BadDays int
  | NoBuildings | MixedCurrencies currency_code currency_code
  | BadPeriodKey string | BadCutoffDay int

section \<open>The pieces of a step\<close>

definition val :: "dec option \<Rightarrow> dec" where
  "val d = (case d of None \<Rightarrow> 0 | Some x \<Rightarrow> x)"

definition zero_invoice :: invoice where
  "zero_invoice =
     \<lparr>i_PeriodKey = [], i_Period = \<lparr>From = zero_time, To = zero_time\<rparr>, i_Days = 0, i_TariffID = None,
      i_TariffEffectiveFrom = None, i_Currency = CurrencyCodeOther [], i_ActiveImport = 0, i_T1 = 0, i_T2 = 0,
      i_T3 = 0, i_Inductive = 0, i_Capacitive = 0, i_ActiveExport = 0, i_NetConsumption = 0, i_LowTierKwh = 0,
      i_HighTierKwh = 0, i_TieredApplied = False, i_MaxDemandKw = None, i_DemandDataAvailable = False,
      i_IndexStart = Map.empty, i_IndexEnd = Map.empty, i_EffectiveEnergyPrice = None, i_LowTierPrice = None,
      i_HighTierPrice = None, i_EnergyCost = 0, i_DistributionCost = 0, i_GreenEnergyCost = 0, i_PowerCost = 0,
      i_DemandOverrunCost = 0, i_ReactivePenalty = 0, i_ExtraChargesCost = 0, i_OtherTaxesCost = 0,
      i_VatBase = 0, i_VatCost = 0, i_GenerationCredit = 0, i_TotalCost = 0, i_Reactive = zero_result,
      i_ReactivePowerPrice = None, i_GenerationUsage = GenerationUsageOther [],
      i_GenerationPricePerKwh = None, i_PtfYekdemUsed = False, i_Pricing = None, i_Lines = [], i_Flags = []\<rparr>"

text \<open>The invoice before the first step.\<close>

definition start_invoice :: "billing_input \<Rightarrow> invoice" where
  "start_invoice inp =
     (let t = bi_Tariff inp; q = bi_Quantities inp
      in zero_invoice
        \<lparr>i_PeriodKey := bi_PeriodKey inp, i_Period := bi_Period inp, i_Days := bi_Days inp,
         i_TariffID := (if t_ID t \<noteq> uuid_Nil then Some (t_ID t) else None),
         i_TariffEffectiveFrom := (if t_ID t \<noteq> uuid_Nil then Some (t_EffectiveFrom t) else None),
         i_Currency := t_Currency t, i_MaxDemandKw := q_MaxDemandKw q,
         i_DemandDataAvailable := q_MaxDemandKw q \<noteq> None, i_IndexStart := q_IndexStart q,
         i_IndexEnd := q_IndexEnd q, i_ActiveImport := val (q_ActiveImport q), i_T1 := val (q_T1 q),
         i_T2 := val (q_T2 q), i_T3 := val (q_T3 q), i_Inductive := val (q_ReactiveInductive q),
         i_Capacitive := val (q_ReactiveCapacitive q), i_GenerationUsage := t_GenerationUsage t,
         i_GenerationPricePerKwh := t_GenerationPricePerKwh t, i_PtfYekdemUsed := t_UsePtfYekdem t,
         i_Pricing := bi_Pricing inp\<rparr>)"

definition add :: "line \<Rightarrow> invoice \<Rightarrow> invoice" where
  "add l iv = iv\<lparr>i_Lines := i_Lines iv @ [l]\<rparr>"

definition priced :: "declib \<Rightarrow> money_rounding_mode \<Rightarrow> string \<Rightarrow> dec \<Rightarrow> string \<Rightarrow> dec \<Rightarrow> line" where
  "priced L mode code qty unit price =
     \<lparr>l_Code = code, l_Quantity = Some qty, l_Unit = unit, l_UnitPrice = Some price, l_RatePct = None,
      l_Amount = Round2 L (qty * price) mode\<rparr>"

text \<open>A line that is a percentage of an amount, as steps 7, 8 and 9 write it.\<close>

definition percent_line :: "declib \<Rightarrow> money_rounding_mode \<Rightarrow> string \<Rightarrow> dec \<Rightarrow> dec \<Rightarrow> line" where
  "percent_line L mode code base rate =
     \<lparr>l_Code = code, l_Quantity = None, l_Unit = UnitPct, l_UnitPrice = None, l_RatePct = Some rate,
      l_Amount = Round2 L (DivRound L (base * rate) hundred DivisionScale) mode\<rparr>"

section \<open>Steps 1 and 2: net consumption and energy\<close>

definition export_kwh :: "quantities \<Rightarrow> dec" where
  "export_kwh q = (case q_ActiveExport q of None \<Rightarrow> 0 | Some x \<Rightarrow> x)"

definition net_step :: "tariff \<Rightarrow> quantities \<Rightarrow> invoice \<times> flag list \<Rightarrow> invoice \<times> flag list" where
  "net_step t q = (\<lambda>(iv, flags).
     (iv\<lparr>i_ActiveExport := export_kwh q,
        i_NetConsumption :=
          (if t_GenerationUsage t = GenerationUsageSubtractFromConsumption
           then max 0 (i_ActiveImport iv - export_kwh q) else i_ActiveImport iv)\<rparr>,
      raise_when (q_ActiveExport q = None \<and> t_GenerationUsage t \<noteq> GenerationUsageNone)
        FlagGenerationDataMissing flags))"

text \<open>\<open>energyLine\<close> threads the invoice and \<open>energyRaw\<close>.\<close>

definition energyLine ::
  "declib \<Rightarrow> money_rounding_mode \<Rightarrow> string \<Rightarrow> dec \<Rightarrow> dec option \<Rightarrow> invoice \<times> dec \<Rightarrow> invoice \<times> dec" where
  "energyLine L mode code qty price = (\<lambda>(iv, raw).
     case price of
       None \<Rightarrow> (iv, raw)
     | Some p \<Rightarrow>
         (let l = priced L mode code qty UnitKwh p
          in ((add l iv)\<lparr>i_EnergyCost := i_EnergyCost iv + l_Amount l\<rparr>, raw + qty * p)))"

definition bands :: "declib \<Rightarrow> tariff \<Rightarrow> quantities \<Rightarrow> dec \<Rightarrow> dec \<times> dec \<times> dec" where
  "bands L t q net =
     (let b1 = val (q_T1 q); b2 = val (q_T2 q); b3 = val (q_T3 q)
      in if t_GenerationUsage t \<noteq> GenerationUsageSubtractFromConsumption then (b1, b2, b3)
         else
           let s = b1 + b2 + b3
           in if s = 0 then (0, 0, 0)
              else (DivRound L (b1 * net) s DivisionScale, DivRound L (b2 * net) s DivisionScale,
                    DivRound L (b3 * net) s DivisionScale))"

definition tieringThreshold :: "tariff \<Rightarrow> billing_parameters \<Rightarrow> dec option" where
  "tieringThreshold t p =
     (case map_of (p_TieringGroups p) (t_UserGroup t) of
        None \<Rightarrow> None
      | Some groupThreshold \<Rightarrow>
          if t_PriceType t \<noteq> PriceTypeSingleTime \<or> \<not> contains (p_TieringVoltageLevels p) (t_VoltageLevel t) \<or>
             \<not> contains (p_TieringSupplyCompanies p) (t_SupplyCompany t)
          then None
          else case t_OveruseThresholdKwhPerDay t of
            Some threshold \<Rightarrow> Some threshold
          | None \<Rightarrow> Some groupThreshold)"

definition wouldTier :: "declib \<Rightarrow> tariff \<Rightarrow> billing_parameters \<Rightarrow> int \<Rightarrow> dec \<Rightarrow> bool" where
  "wouldTier L t p days net =
     (case tieringThreshold t p of
        None \<Rightarrow> False
      | Some threshold \<Rightarrow> threshold < DivRound L net (of_int days) DivisionScale)"

text \<open>The low tier's limit of the split mode (R122).\<close>

definition tier_limit :: "tariff \<Rightarrow> billing_parameters \<Rightarrow> quantities \<Rightarrow> int \<Rightarrow> dec" where
  "tier_limit t p q days =
     (let offset = (if t_GenerationUsage t = GenerationUsageSubtractFromConsumption then export_kwh q else 0)
      in max 0 (of_int days * the (tieringThreshold t p) - offset))"

text \<open>The fixed single-time branch: whole switch, split, or one plain line.\<close>

definition single_time_energy ::
  "declib \<Rightarrow> tariff \<Rightarrow> billing_parameters \<Rightarrow> quantities \<Rightarrow> int \<Rightarrow> dec \<Rightarrow> invoice \<times> dec \<times> flag list \<Rightarrow>
   invoice \<times> dec \<times> flag list" where
  "single_time_energy L t p q days net = (\<lambda>(iv, raw, flags).
     let mode = p_MoneyRoundingMode p; would = wouldTier L t p days net
     in if would \<and> t_OverusePrice t = None
        then (case energyLine L mode BillLineEnergy net (t_SingleTimePrice t) (iv, raw) of
                (iv, raw) \<Rightarrow> (iv, raw, raise_flag FlagTieringPriceMissing flags))
        else if would \<and> p_TieringMode p = TieringModeWholeConsumptionSwitch
        then (case energyLine L mode BillLineEnergyHighTier net (t_OverusePrice t)
                     (iv\<lparr>i_TieredApplied := True, i_HighTierKwh := net, i_LowTierPrice := t_SingleTimePrice t,
                        i_HighTierPrice := t_OverusePrice t\<rparr>, raw) of
                (iv, raw) \<Rightarrow> (iv, raw, flags))
        else if would
        then (let low = min net (tier_limit t p q days);
                  high = max 0 (net - low);
                  s = (iv\<lparr>i_TieredApplied := True, i_LowTierKwh := low, i_HighTierKwh := high,
                         i_LowTierPrice := t_SingleTimePrice t, i_HighTierPrice := t_OverusePrice t\<rparr>, raw);
                  s = (if 0 < low then energyLine L mode BillLineEnergyLowTier low (t_SingleTimePrice t) s else s)
              in case energyLine L mode BillLineEnergyHighTier high (t_OverusePrice t) s of
                   (iv, raw) \<Rightarrow> (iv, raw, flags))
        else (case energyLine L mode BillLineEnergy net (t_SingleTimePrice t) (iv, raw) of
                (iv, raw) \<Rightarrow> (iv, raw, flags)))"

definition energy_charges ::
  "declib \<Rightarrow> billing_input \<Rightarrow> invoice \<times> flag list \<Rightarrow> invoice \<times> dec \<times> flag list" where
  "energy_charges L inp = (\<lambda>(iv, flags).
     let t = bi_Tariff inp; q = bi_Quantities inp; p = bi_Params inp;
         mode = p_MoneyRoundingMode p; net = i_NetConsumption iv
     in if t_PriceType t = PriceTypeMultiTime
        then (case bands L t q net of
                (b1, b2, b3) \<Rightarrow>
                  (case (if t_UsePtfYekdem t
                         then (pr_T1 (the (bi_Pricing inp)), pr_T2 (the (bi_Pricing inp)), pr_T3 (the (bi_Pricing inp)))
                         else (t_T1Price t, t_T2Price t, t_T3Price t)) of
                     (p1, p2, p3) \<Rightarrow>
                       (case energyLine L mode BillLineEnergyT3 b3 p3
                               (energyLine L mode BillLineEnergyT2 b2 p2
                                 (energyLine L mode BillLineEnergyT1 b1 p1 (iv, 0))) of
                          (iv, raw) \<Rightarrow> (iv, raw, flags))))
        else if t_UsePtfYekdem t
        then (case energyLine L mode BillLineEnergy net (pr_EnergyUnitPrice (the (bi_Pricing inp))) (iv, 0) of
                (iv, raw) \<Rightarrow> (iv, raw, flags))
        else single_time_energy L t p q (bi_Days inp) net (iv, 0, flags))"

definition energy_step :: "declib \<Rightarrow> billing_input \<Rightarrow> invoice \<times> flag list \<Rightarrow> invoice \<times> flag list" where
  "energy_step L inp s =
     (case energy_charges L inp s of
        (iv, raw, flags) \<Rightarrow>
          (if 0 < i_NetConsumption iv
           then iv\<lparr>i_EffectiveEnergyPrice := Some (DivRound L raw (i_NetConsumption iv) DivisionScale)\<rparr>
           else iv, flags))"

section \<open>Steps 3 to 6: distribution, green energy, power, reactive\<close>

definition unit_prices :: "billing_input \<Rightarrow> dec option \<times> dec option \<times> dec option" where
  "unit_prices inp =
     (if t_UsePtfYekdem (bi_Tariff inp)
      then (pr_PowerUnitPrice (the (bi_Pricing inp)), pr_ReactiveUnitPrice (the (bi_Pricing inp)),
            pr_DistributionUnitPrice (the (bi_Pricing inp)))
      else FixedUnitPrices (bi_Tariff inp))"

definition pricing_flag :: "billing_input \<Rightarrow> flag list \<Rightarrow> flag list" where
  "pricing_flag inp =
     raise_when (t_UsePtfYekdem (bi_Tariff inp) \<and> \<not> pr_Complete (the (bi_Pricing inp))) FlagPTFDataMissing"

definition distribution_step :: "declib \<Rightarrow> money_rounding_mode \<Rightarrow> dec option \<Rightarrow> invoice \<Rightarrow> invoice" where
  "distribution_step L mode price iv =
     (case price of
        None \<Rightarrow> iv
      | Some p \<Rightarrow>
          (let l = priced L mode BillLineDistribution (i_NetConsumption iv) UnitKwh p
           in (add l iv)\<lparr>i_DistributionCost := l_Amount l\<rparr>))"

definition green_step :: "declib \<Rightarrow> money_rounding_mode \<Rightarrow> tariff \<Rightarrow> invoice \<Rightarrow> invoice" where
  "green_step L mode t iv =
     (if t_GreenEnergyPrice t \<noteq> None \<or> t_GreenEnergyDistributionCost t \<noteq> None
      then (let l = priced L mode BillLineGreenEnergy (i_NetConsumption iv) UnitKwh
                      (val (t_GreenEnergyPrice t) + val (t_GreenEnergyDistributionCost t))
            in (add l iv)\<lparr>i_GreenEnergyCost := l_Amount l\<rparr>)
      else iv)"

definition power_step ::
  "declib \<Rightarrow> billing_parameters \<Rightarrow> tariff \<Rightarrow> quantities \<Rightarrow> dec option \<Rightarrow> invoice \<Rightarrow> invoice" where
  "power_step L p t q price iv =
     (case (t_ContractedPowerKw t, price) of
        (Some contracted, Some pw) \<Rightarrow>
          if t_Term t \<noteq> TariffTermBinomial then iv
          else
            let mode = p_MoneyRoundingMode p;
                l = priced L mode BillLinePower contracted UnitKw pw;
                iv = (add l iv)\<lparr>i_PowerCost := l_Amount l\<rparr>
            in (case q_MaxDemandKw q of
                  None \<Rightarrow> iv
                | Some demand \<Rightarrow>
                    if contracted < demand
                    then (let l = priced L mode BillLineDemandOverrun (demand - contracted) UnitKw
                                    (pw * p_DemandOverrunMultiplier p)
                          in (add l iv)\<lparr>i_DemandOverrunCost := l_Amount l\<rparr>)
                    else iv)
      | _ \<Rightarrow> iv)"

definition reactive_input_of :: "billing_input \<Rightarrow> dec \<Rightarrow> dec option \<Rightarrow> reactive_input" where
  "reactive_input_of inp net price =
     (let t = bi_Tariff inp; q = bi_Quantities inp
      in \<lparr>ri_NetConsumption = net, ri_Inductive = q_ReactiveInductive q, ri_Capacitive = q_ReactiveCapacitive q,
          ri_ActiveExport = q_ActiveExport q, ri_ActiveExportKnownSum = q_ActiveExportKnownSum q,
          ri_ActiveExportPartial = q_ActiveExportPartial q, ri_InstalledPowerKw = bi_InstalledPowerKw inp,
          ri_Term = t_Term t, ri_UserGroup = t_UserGroup t, ri_UnitPrice = price, ri_Params = bi_Params inp\<rparr>)"

fun reactive_flags :: "missing_marker list \<Rightarrow> flag list \<Rightarrow> flag list" where
  "reactive_flags [] flags = flags"
| "reactive_flags (m # ms) flags =
     reactive_flags ms
       (raise_flag
         (case m of
            MissingInstalledPower \<Rightarrow> FlagInstalledPowerMissing
          | MissingActiveExport \<Rightarrow> FlagGenerationDataMissing
          | _ \<Rightarrow> FlagReactiveDataMissing) flags)"

definition reactive_line ::
  "declib \<Rightarrow> money_rounding_mode \<Rightarrow> string \<Rightarrow> dec option \<Rightarrow> dec option \<Rightarrow> invoice \<Rightarrow> invoice" where
  "reactive_line L mode code charged price iv =
     (case (price, charged) of
        (Some p, Some c) \<Rightarrow>
          if 0 < c
          then (let l = priced L mode code c UnitKvarh p
                in (add l iv)\<lparr>i_ReactivePenalty := i_ReactivePenalty iv + l_Amount l\<rparr>)
          else iv
      | _ \<Rightarrow> iv)"

definition reactive_step ::
  "declib \<Rightarrow> billing_input \<Rightarrow> dec option \<Rightarrow> invoice \<times> flag list \<Rightarrow> invoice \<times> flag list" where
  "reactive_step L inp price = (\<lambda>(iv, flags).
     let mode = p_MoneyRoundingMode (bi_Params inp);
         r = Evaluate L (reactive_input_of inp (i_NetConsumption iv) price);
         iv = iv\<lparr>i_ReactivePowerPrice := price, i_Reactive := r\<rparr>
     in (reactive_line L mode BillLineReactiveCapacitive (CapacitiveKvarhCharged r) price
           (reactive_line L mode BillLineReactiveInductive (InductiveKvarhCharged r) price iv),
         reactive_flags (Missing r) flags))"

section \<open>Steps 7 to 10: extra charges, taxes, VAT, total\<close>

text \<open>The line of an extra charge: \<open>None\<close> is the source's \<open>continue\<close>.\<close>

definition extra_line ::
  "declib \<Rightarrow> money_rounding_mode \<Rightarrow> tariff \<Rightarrow> quantities \<Rightarrow> invoice \<Rightarrow> tariff_extra_charge \<Rightarrow> line option" where
  "extra_line L mode t q iv c =
     (let code = BillLineExtraPrefix @ c_Name c
      in case c_Basis c of
           ExtraChargeBasisPerKwh \<Rightarrow> Some (priced L mode code (i_NetConsumption iv) UnitKwh (c_Amount c))
         | ExtraChargeBasisPerContractedKw \<Rightarrow>
             (case t_ContractedPowerKw t of
                None \<Rightarrow> None
              | Some kw \<Rightarrow> Some (priced L mode code kw UnitKw (c_Amount c)))
         | ExtraChargeBasisPerMaxDemandKw \<Rightarrow>
             (case q_MaxDemandKw q of
                None \<Rightarrow> None
              | Some kw \<Rightarrow> Some (priced L mode code kw UnitKw (c_Amount c)))
         | ExtraChargeBasisFixedPerPeriod \<Rightarrow> Some (priced L mode code 1 UnitPeriod (c_Amount c))
         | ExtraChargeBasisPctOfEnergy \<Rightarrow> Some (percent_line L mode code (i_EnergyCost iv) (c_Amount c))
         | ExtraChargeBasisOther _ \<Rightarrow> None)"

fun extras_loop ::
  "declib \<Rightarrow> money_rounding_mode \<Rightarrow> tariff \<Rightarrow> quantities \<Rightarrow> tariff_extra_charge list \<Rightarrow> invoice \<Rightarrow> invoice" where
  "extras_loop L mode t q [] iv = iv"
| "extras_loop L mode t q (c # extras) iv =
     (let iv = (if c_Basis c = ExtraChargeBasisPerMaxDemandKw \<and> q_MaxDemandKw q = None
                 then iv\<lparr>i_DemandDataAvailable := False\<rparr> else iv)
      in extras_loop L mode t q extras
           (case extra_line L mode t q iv c of
              None \<Rightarrow> iv
            | Some l \<Rightarrow> (add l iv)\<lparr>i_ExtraChargesCost := i_ExtraChargesCost iv + l_Amount l\<rparr>))"

fun taxes_loop :: "declib \<Rightarrow> money_rounding_mode \<Rightarrow> tariff_tax list \<Rightarrow> invoice \<Rightarrow> invoice" where
  "taxes_loop L mode [] iv = iv"
| "taxes_loop L mode (x # taxes) iv =
     (let l = percent_line L mode (BillLineTaxPrefix @ x_Name x) (i_EnergyCost iv) (x_Rate x)
      in taxes_loop L mode taxes ((add l iv)\<lparr>i_OtherTaxesCost := i_OtherTaxesCost iv + l_Amount l\<rparr>))"

definition vat_step :: "declib \<Rightarrow> money_rounding_mode \<Rightarrow> tariff \<Rightarrow> invoice \<Rightarrow> invoice" where
  "vat_step L mode t iv =
     (let iv = iv\<lparr>i_VatBase := i_VatBase iv + sum_list (map l_Amount (i_Lines iv))\<rparr>;
          l = percent_line L mode BillLineVat (i_VatBase iv) (t_VatRate t)
      in (add l iv)\<lparr>i_VatCost := l_Amount l\<rparr>)"

definition credit_step :: "declib \<Rightarrow> money_rounding_mode \<Rightarrow> tariff \<Rightarrow> quantities \<Rightarrow> invoice \<Rightarrow> invoice" where
  "credit_step L mode t q iv =
     (case (q_ActiveExport q, t_GenerationPricePerKwh t) of
        (Some ex, Some price) \<Rightarrow>
          if t_GenerationUsage t = GenerationUsageSubtractFromTotal
          then (let credit = priced L mode BillLineGenerationCredit (export_kwh q) UnitKwh price
                in (add (credit\<lparr>l_Amount := - l_Amount credit\<rparr>) iv)\<lparr>i_GenerationCredit := l_Amount credit\<rparr>)
          else iv
      | _ \<Rightarrow> iv)"

definition total_step :: "invoice \<Rightarrow> invoice" where
  "total_step iv = iv\<lparr>i_TotalCost := max 0 (i_VatBase iv + i_VatCost iv - i_GenerationCredit iv)\<rparr>"

section \<open>Compute\<close>

definition check_input :: "billing_input \<Rightarrow> invalid_input option" where
  "check_input inp =
     (let t = bi_Tariff inp; q = bi_Quantities inp
      in if q_ActiveImport q = None then Some ActiveImportNil
         else if t_PriceType t = PriceTypeMultiTime \<and> (q_T1 q = None \<or> q_T2 q = None \<or> q_T3 q = None)
         then Some BandRegisterNil
         else if t_UsePtfYekdem t \<and> bi_Pricing inp = None then Some PricingNil
         else if bi_Days inp \<le> 0 then Some (BadDays (bi_Days inp))
         else None)"

text \<open>Everything up to the VAT line: the invoice whose lines make up the VAT base, and the flags.\<close>

definition charges :: "declib \<Rightarrow> billing_input \<Rightarrow> invoice \<times> flag list" where
  "charges L inp =
     (let t = bi_Tariff inp; q = bi_Quantities inp; p = bi_Params inp; mode = p_MoneyRoundingMode p
      in case unit_prices inp of
           (powerPrice, reactivePrice, distributionPrice) \<Rightarrow>
             (case energy_step L inp (net_step t q (start_invoice inp, [])) of
                (iv, flags) \<Rightarrow>
                  (let iv = power_step L p t q powerPrice
                               (green_step L mode t (distribution_step L mode distributionPrice iv))
                   in case reactive_step L inp reactivePrice (iv, pricing_flag inp flags) of
                        (iv, flags) \<Rightarrow>
                          (taxes_loop L mode (sort_key x_SortOrder (bi_Taxes inp))
                             (extras_loop L mode t q (sort_key c_SortOrder (bi_ExtraCharges inp)) iv),
                           flags))))"

definition Compute :: "declib \<Rightarrow> billing_input \<Rightarrow> invalid_input + invoice" where
  "Compute L inp =
     (case check_input inp of
        Some e \<Rightarrow> Inl e
      | None \<Rightarrow>
          (let t = bi_Tariff inp; q = bi_Quantities inp; mode = p_MoneyRoundingMode (bi_Params inp)
           in case charges L inp of
                (iv, flags) \<Rightarrow>
                  Inr ((total_step (credit_step L mode t q (vat_step L mode t iv)))
                       \<lparr>i_Flags := sortedFlags flags\<rparr>)))"

end
