(* ===== verification/Billing_Laws.thy ===== *)
theory Billing_Laws
  imports Billing_Compute Tariff_Params
begin

text \<open>
  What \<open>Compute\<close> guarantees: which input it refuses, how the amounts of an invoice add up, what its
  lines and flags are, and how the tiers and the bands split the net consumption.
\<close>

section \<open>An invoice that accounts for its lines\<close>

definition category_costs :: "invoice \<Rightarrow> dec" where
  "category_costs iv =
     i_EnergyCost iv + i_DistributionCost iv + i_GreenEnergyCost iv + i_PowerCost iv + i_DemandOverrunCost iv +
     i_ReactivePenalty iv + i_ExtraChargesCost iv + i_OtherTaxesCost iv"

definition lines_total :: "invoice \<Rightarrow> dec" where
  "lines_total iv = sum_list (map l_Amount (i_Lines iv))"

definition whole_kurus :: "invoice \<Rightarrow> bool" where
  "whole_kurus iv \<longleftrightarrow> (\<forall>l \<in> set (i_Lines iv). on_grid 2 (l_Amount l))"

definition accounts :: "invoice \<Rightarrow> bool" where
  "accounts iv \<longleftrightarrow>
     category_costs iv = lines_total iv \<and> whole_kurus iv \<and> on_grid 2 (i_EnergyCost iv) \<and>
     on_grid 2 (i_DistributionCost iv) \<and> on_grid 2 (i_GreenEnergyCost iv) \<and> on_grid 2 (i_PowerCost iv) \<and>
     on_grid 2 (i_DemandOverrunCost iv) \<and> on_grid 2 (i_ReactivePenalty iv) \<and>
     on_grid 2 (i_ExtraChargesCost iv) \<and> on_grid 2 (i_OtherTaxesCost iv)"

lemmas accounts_defs = accounts_def category_costs_def lines_total_def whole_kurus_def

text \<open>The charges the steps after energy assign rather than add to.\<close>

definition fresh :: "invoice \<Rightarrow> bool" where
  "fresh iv \<longleftrightarrow>
     i_DistributionCost iv = 0 \<and> i_GreenEnergyCost iv = 0 \<and> i_PowerCost iv = 0 \<and> i_DemandOverrunCost iv = 0 \<and>
     i_VatBase iv = 0 \<and> i_GenerationCredit iv = 0"

lemma priced_grid [simp]: "decimal_lib L \<Longrightarrow> on_grid 2 (l_Amount (priced L mode code qty unit price))"
  by (simp add: priced_def)

lemma percent_grid [simp]: "decimal_lib L \<Longrightarrow> on_grid 2 (l_Amount (percent_line L mode code base rate))"
  by (simp add: percent_line_def)

lemma start_accounts: "accounts (start_invoice inp)" "fresh (start_invoice inp)"
  by (simp_all add: accounts_defs fresh_def start_invoice_def zero_invoice_def Let_def)

lemma net_step_simps [simp]:
  "accounts (fst (net_step t q s)) = accounts (fst s)" "fresh (fst (net_step t q s)) = fresh (fst s)"
  by (cases s; simp add: net_step_def accounts_defs fresh_def)+

text \<open>What every energy line and every tier choice keeps.\<close>

definition keeps :: "invoice \<Rightarrow> invoice \<Rightarrow> bool" where
  "keeps iv iv' \<longleftrightarrow>
     (accounts iv \<longrightarrow> accounts iv') \<and> (fresh iv \<longrightarrow> fresh iv') \<and> i_NetConsumption iv' = i_NetConsumption iv"

lemma keeps_refl [simp, intro]: "keeps iv iv"
  by (simp add: keeps_def)

lemma keeps_trans [trans]: "keeps a b \<Longrightarrow> keeps b c \<Longrightarrow> keeps a c"
  by (auto simp: keeps_def)

lemma keeps_energyLine: "decimal_lib L \<Longrightarrow> keeps (fst s) (fst (energyLine L mode code qty price s))"
  by (cases s)
    (auto simp: keeps_def energyLine_def accounts_defs fresh_def add_def Let_def split: option.splits)

lemma keeps_tiers: "keeps iv (iv\<lparr>i_TieredApplied := a, i_HighTierKwh := b, i_LowTierPrice := c, i_HighTierPrice := d\<rparr>)"
  "keeps iv (iv\<lparr>i_TieredApplied := a, i_LowTierKwh := e, i_HighTierKwh := b, i_LowTierPrice := c, i_HighTierPrice := d\<rparr>)"
  by (simp_all add: keeps_def accounts_defs fresh_def)

lemma keeps_single_time:
  assumes "decimal_lib L"
  shows "keeps iv (fst (single_time_energy L t p q days net (iv, raw, flags)))"
proof -
  note e = keeps_energyLine [OF assms]
  let ?mode = "p_MoneyRoundingMode p"
  let ?low = "min net (tier_limit t p q days)"
  let ?tiers = "(iv\<lparr>i_TieredApplied := True, i_LowTierKwh := ?low, i_HighTierKwh := max 0 (net - ?low),
      i_LowTierPrice := t_SingleTimePrice t, i_HighTierPrice := t_OverusePrice t\<rparr>, raw)"
  let ?s1 = "if 0 < ?low then energyLine L ?mode BillLineEnergyLowTier ?low (t_SingleTimePrice t) ?tiers else ?tiers"
  have "keeps iv (fst ?s1)"
    using keeps_trans [OF keeps_tiers(2) e [of ?tiers, unfolded fst_conv]] keeps_tiers(2) by simp
  then have split: "keeps iv (fst (energyLine L ?mode BillLineEnergyHighTier (max 0 (net - ?low)) (t_OverusePrice t) ?s1))"
    by (rule keeps_trans) (rule e)
  have whole: "keeps iv (fst (energyLine L ?mode BillLineEnergyHighTier net (t_OverusePrice t)
      (iv\<lparr>i_TieredApplied := True, i_HighTierKwh := net, i_LowTierPrice := t_SingleTimePrice t,
         i_HighTierPrice := t_OverusePrice t\<rparr>, raw)))"
    using keeps_trans [OF keeps_tiers(1) e [of "(_, raw)", unfolded fst_conv]] by blast
  have plain: "keeps iv (fst (energyLine L ?mode BillLineEnergy net (t_SingleTimePrice t) (iv, raw)))"
    using e [of "(iv, raw)"] by simp
  show ?thesis
    using split whole plain unfolding single_time_energy_def Let_def prod.case case_prod_beta fst_conv
    by (simp only: fst_conv snd_conv if_distrib [where f = fst] split: if_split) blast
qed

lemma keeps_energy_charges:
  assumes "decimal_lib L"
  shows "keeps iv (fst (energy_charges L inp (iv, flags)))"
proof -
  note e = keeps_energyLine [OF assms]
  have one: "keeps iv (fst (energyLine L mode code qty price (iv, 0)))" for mode code qty price
    using e [of "(iv, 0)"] by simp
  have three: "keeps iv (fst (energyLine L mode c3 b3 p3 (energyLine L mode c2 b2 p2 (energyLine L mode c1 b1 p1 (iv, 0)))))"
    for mode c1 b1 p1 c2 b2 p2 c3 b3 p3
    by (rule keeps_trans [OF keeps_trans [OF one e] e])
  show ?thesis
    using one three keeps_single_time [OF assms]
    unfolding energy_charges_def Let_def prod.case case_prod_beta
    by (simp only: fst_conv snd_conv if_distrib [where f = fst] split: if_split) blast
qed

lemma keeps_energy_step:
  assumes "decimal_lib L"
  shows "keeps iv (fst (energy_step L inp (iv, flags)))"
proof -
  have "keeps iv1 (if 0 < i_NetConsumption iv1 then iv1\<lparr>i_EffectiveEnergyPrice := v\<rparr> else iv1)" for iv1 v
    by (simp add: keeps_def accounts_defs fresh_def)
  with keeps_energy_charges [OF assms, where iv = iv and inp = inp and flags = flags] show ?thesis
    unfolding energy_step_def case_prod_beta fst_conv snd_conv by (blast intro: keeps_trans)
qed

section \<open>The later steps\<close>

lemma distribution_step_accounts:
  assumes "decimal_lib L" and "accounts iv" and "fresh iv"
  shows "accounts (distribution_step L mode price iv)"
    and "i_GreenEnergyCost (distribution_step L mode price iv) = 0" "i_PowerCost (distribution_step L mode price iv) = 0"
    and "i_DemandOverrunCost (distribution_step L mode price iv) = 0" "i_VatBase (distribution_step L mode price iv) = 0"
    and "i_GenerationCredit (distribution_step L mode price iv) = 0"
    and "i_NetConsumption (distribution_step L mode price iv) = i_NetConsumption iv"
  using assms by (auto simp: distribution_step_def accounts_defs fresh_def add_def Let_def split: option.split)

lemma green_step_accounts:
  assumes "decimal_lib L" and "accounts iv" and "i_GreenEnergyCost iv = 0"
  shows "accounts (green_step L mode t iv)" and "i_PowerCost (green_step L mode t iv) = i_PowerCost iv"
    and "i_DemandOverrunCost (green_step L mode t iv) = i_DemandOverrunCost iv"
    and "i_VatBase (green_step L mode t iv) = i_VatBase iv"
    and "i_GenerationCredit (green_step L mode t iv) = i_GenerationCredit iv"
    and "i_NetConsumption (green_step L mode t iv) = i_NetConsumption iv"
  using assms by (auto simp: green_step_def accounts_defs add_def Let_def)

lemma power_step_accounts:
  assumes "decimal_lib L" and "accounts iv" and "i_PowerCost iv = 0" and "i_DemandOverrunCost iv = 0"
  shows "accounts (power_step L p t q price iv)" and "i_VatBase (power_step L p t q price iv) = i_VatBase iv"
    and "i_GenerationCredit (power_step L p t q price iv) = i_GenerationCredit iv"
    and "i_NetConsumption (power_step L p t q price iv) = i_NetConsumption iv"
  using assms by (auto simp: power_step_def accounts_defs add_def Let_def split: option.split)

lemma reactive_line_accounts:
  assumes "decimal_lib L"
  shows "accounts iv \<Longrightarrow> accounts (reactive_line L mode code charged price iv)"
    and "i_VatBase (reactive_line L mode code charged price iv) = i_VatBase iv"
    and "i_GenerationCredit (reactive_line L mode code charged price iv) = i_GenerationCredit iv"
  using assms by (auto simp: reactive_line_def accounts_defs add_def Let_def split: option.split)

lemma reactive_step_accounts:
  assumes "decimal_lib L"
  shows "accounts iv \<Longrightarrow> accounts (fst (reactive_step L inp price (iv, flags)))"
    and "i_VatBase (fst (reactive_step L inp price (iv, flags))) = i_VatBase iv"
    and "i_GenerationCredit (fst (reactive_step L inp price (iv, flags))) = i_GenerationCredit iv"
proof -
  have "accounts iv \<Longrightarrow> accounts (iv\<lparr>i_ReactivePowerPrice := price, i_Reactive := r\<rparr>)" for r
    by (simp add: accounts_defs)
  then show "accounts iv \<Longrightarrow> accounts (fst (reactive_step L inp price (iv, flags)))"
    by (simp add: reactive_step_def Let_def reactive_line_accounts [OF assms])
qed (simp_all add: reactive_step_def Let_def reactive_line_accounts [OF assms])

lemma extra_line_grid: "decimal_lib L \<Longrightarrow> extra_line L mode t q iv c = Some l \<Longrightarrow> on_grid 2 (l_Amount l)"
  by (auto simp: extra_line_def Let_def split: extra_charge_basis.splits option.splits)

lemma extras_loop_accounts:
  assumes "decimal_lib L"
  shows "(accounts iv \<longrightarrow> accounts (extras_loop L mode t q extras iv)) \<and>
    i_VatBase (extras_loop L mode t q extras iv) = i_VatBase iv \<and>
    i_GenerationCredit (extras_loop L mode t q extras iv) = i_GenerationCredit iv"
proof (induction extras arbitrary: iv)
  case (Cons c extras)
  define iv1 where "iv1 = (if c_Basis c = ExtraChargeBasisPerMaxDemandKw \<and> q_MaxDemandKw q = None
    then iv\<lparr>i_DemandDataAvailable := False\<rparr> else iv)"
  define iv2 where "iv2 = (case extra_line L mode t q iv1 c of None \<Rightarrow> iv1
    | Some l \<Rightarrow> (add l iv1)\<lparr>i_ExtraChargesCost := i_ExtraChargesCost iv1 + l_Amount l\<rparr>)"
  have 1: "(accounts iv \<longrightarrow> accounts iv1) \<and> i_VatBase iv1 = i_VatBase iv \<and> i_GenerationCredit iv1 = i_GenerationCredit iv"
    by (simp add: iv1_def accounts_defs)
  have 2: "(accounts iv1 \<longrightarrow> accounts iv2) \<and> i_VatBase iv2 = i_VatBase iv1 \<and> i_GenerationCredit iv2 = i_GenerationCredit iv1"
    using extra_line_grid [OF assms, of mode t q iv1 c]
    by (cases "extra_line L mode t q iv1 c") (auto simp: iv2_def accounts_defs add_def)
  show ?case
    using 1 2 Cons.IH [of iv2] by (simp add: Let_def iv1_def [symmetric] iv2_def [symmetric])
qed simp

lemma taxes_loop_accounts:
  assumes "decimal_lib L"
  shows "(accounts iv \<longrightarrow> accounts (taxes_loop L mode taxes iv)) \<and>
    i_VatBase (taxes_loop L mode taxes iv) = i_VatBase iv \<and>
    i_GenerationCredit (taxes_loop L mode taxes iv) = i_GenerationCredit iv"
proof (induction taxes arbitrary: iv)
  case (Cons x taxes)
  let ?l = "percent_line L mode (BillLineTaxPrefix @ x_Name x) (i_EnergyCost iv) (x_Rate x)"
  define iv1 where "iv1 = (add ?l iv)\<lparr>i_OtherTaxesCost := i_OtherTaxesCost iv + l_Amount ?l\<rparr>"
  have "(accounts iv \<longrightarrow> accounts iv1) \<and> i_VatBase iv1 = i_VatBase iv \<and> i_GenerationCredit iv1 = i_GenerationCredit iv"
    using assms by (auto simp: iv1_def accounts_defs add_def)
  with Cons.IH [of iv1] show ?case by (simp add: Let_def iv1_def [symmetric])
qed simp

lemma charges_accounts:
  assumes "decimal_lib L"
  shows "accounts (fst (charges L inp))" and "i_VatBase (fst (charges L inp)) = 0"
    and "i_GenerationCredit (fst (charges L inp)) = 0"
proof -
  let ?t = "bi_Tariff inp" and ?q = "bi_Quantities inp" and ?p = "bi_Params inp"
  let ?mode = "p_MoneyRoundingMode ?p"
  obtain pw re di where u: "unit_prices inp = (pw, re, di)" by (cases "unit_prices inp")
  obtain iv0 f0 where 0: "net_step ?t ?q (start_invoice inp, []) = (iv0, f0)" by fastforce
  obtain iv1 f1 where 1: "energy_step L inp (iv0, f0) = (iv1, f1)" by fastforce
  have a0: "accounts iv0" "fresh iv0"
    using net_step_simps [of ?t ?q "(start_invoice inp, [])"] start_accounts by (simp_all add: 0)
  have a1: "accounts iv1" "fresh iv1" using keeps_energy_step [OF assms, where iv = iv0 and inp = inp and flags = f0] a0 by (simp_all add: 1 keeps_def)
  define iv2 where "iv2 = power_step L ?p ?t ?q pw (green_step L ?mode ?t (distribution_step L ?mode di iv1))"
  note d = distribution_step_accounts [OF assms a1, of ?mode di]
  note g = green_step_accounts [OF assms d(1,2), of ?mode ?t]
  have a2: "accounts iv2" "i_VatBase iv2 = 0" "i_GenerationCredit iv2 = 0"
    using power_step_accounts [OF assms g(1), of ?p ?t ?q pw] d g by (simp_all add: iv2_def)
  obtain iv3 f3 where 3: "reactive_step L inp re (iv2, pricing_flag inp f1) = (iv3, f3)" by fastforce
  have a3: "accounts iv3" "i_VatBase iv3 = 0" "i_GenerationCredit iv3 = 0"
    using reactive_step_accounts [OF assms, where iv = iv2 and inp = inp and price = re and flags = "pricing_flag inp f1"] a2 by (simp_all add: 3)
  have "fst (charges L inp) = taxes_loop L ?mode (sort_key x_SortOrder (bi_Taxes inp))
      (extras_loop L ?mode ?t ?q (sort_key c_SortOrder (bi_ExtraCharges inp)) iv3)"
    by (simp add: charges_def Let_def u 0 1 iv2_def [symmetric] 3)
  with a3 show "accounts (fst (charges L inp))" and "i_VatBase (fst (charges L inp)) = 0"
    and "i_GenerationCredit (fst (charges L inp)) = 0"
    using extras_loop_accounts [OF assms] taxes_loop_accounts [OF assms] by simp_all
qed

section \<open>The computed invoice\<close>

lemma Compute_Inr:
  assumes "Compute L inp = Inr iv"
  shows "check_input inp = None"
    and "iv = (total_step (credit_step L (p_MoneyRoundingMode (bi_Params inp)) (bi_Tariff inp) (bi_Quantities inp)
          (vat_step L (p_MoneyRoundingMode (bi_Params inp)) (bi_Tariff inp) (fst (charges L inp)))))
        \<lparr>i_Flags := sortedFlags (snd (charges L inp))\<rparr>"
  using assms by (auto simp: Compute_def Let_def split: option.splits prod.splits)

lemma vat_step_simps:
  fixes L mode t iv
  assumes "i_VatBase iv = 0"
  defines "l \<equiv> percent_line L mode BillLineVat (lines_total iv) (t_VatRate t)"
  shows "i_VatBase (vat_step L mode t iv) = lines_total iv" and "i_VatCost (vat_step L mode t iv) = l_Amount l"
    and "i_Lines (vat_step L mode t iv) = i_Lines iv @ [l]"
    and "i_GenerationCredit (vat_step L mode t iv) = i_GenerationCredit iv"
    and "category_costs (vat_step L mode t iv) = category_costs iv"
  using assms(1) by (simp_all add: vat_step_def add_def Let_def lines_total_def l_def category_costs_def)

lemma credit_step_simps:
  "i_VatBase (credit_step L mode t q iv) = i_VatBase iv" "i_VatCost (credit_step L mode t q iv) = i_VatCost iv"
  "category_costs (credit_step L mode t q iv) = category_costs iv"
  "\<exists>ls. i_Lines (credit_step L mode t q iv) = i_Lines iv @ ls \<and>
     (decimal_lib L \<longrightarrow> (\<forall>l \<in> set ls. l_Code l = BillLineGenerationCredit \<and> on_grid 2 (l_Amount l))) \<and>
     (i_GenerationCredit iv = 0 \<longrightarrow> i_GenerationCredit (credit_step L mode t q iv) = - sum_list (map l_Amount ls))"
  by (auto simp: credit_step_def add_def Let_def category_costs_def priced_def split: option.split)

text \<open>The charges, which the last steps leave alone.\<close>

definition charge_list :: "invoice \<Rightarrow> dec list" where
  "charge_list iv =
     [i_EnergyCost iv, i_DistributionCost iv, i_GreenEnergyCost iv, i_PowerCost iv, i_DemandOverrunCost iv,
      i_ReactivePenalty iv, i_ExtraChargesCost iv, i_OtherTaxesCost iv]"

lemma last_steps_charges:
  "charge_list (credit_step L mode t q iv) = charge_list iv" "charge_list (vat_step L mode t iv) = charge_list iv"
  by (auto simp: charge_list_def credit_step_def vat_step_def add_def Let_def split: option.split)

lemma Compute_check: "(\<exists>iv. Compute L inp = Inr iv) \<longleftrightarrow> check_input inp = None"
  by (cases "charges L inp") (simp add: Compute_def Let_def split: option.split)

section \<open>Properties: amounts\<close>


text \<open>C2. A computed invoice adds up: the VAT base is the sum of the eight charges and of all lines before the VAT line,
  the total is the VAT base plus VAT less the generation credit, never below 0, and equals the sum of all its
  lines unless that is negative; every line, every charge, the VAT and the credit is a number of whole kurus.\<close>

theorem Compute_adds_up:
  assumes "decimal_lib L" and "Compute L inp = Inr iv"
  shows "(i_VatBase iv = category_costs iv) \<and>
    (\<exists>before vat after. i_Lines iv = before @ vat # after \<and> l_Code vat = BillLineVat \<and>
      l_Amount vat = i_VatCost iv \<and> i_VatBase iv = sum_list (map l_Amount before) \<and>
      i_GenerationCredit iv = - sum_list (map l_Amount after) \<and>
      (\<forall>l \<in> set after. l_Code l = BillLineGenerationCredit)) \<and>
    (i_TotalCost iv = max 0 (i_VatBase iv + i_VatCost iv - i_GenerationCredit iv)) \<and>
    (i_TotalCost iv = max 0 (lines_total iv)) \<and>
    ((\<forall>l \<in> set (i_Lines iv). on_grid 2 (l_Amount l)) \<and> on_grid 2 (i_TotalCost iv) \<and> on_grid 2 (i_VatBase iv)) \<and>
    (on_grid 2 (i_EnergyCost iv) \<and> on_grid 2 (i_DistributionCost iv) \<and> on_grid 2 (i_GreenEnergyCost iv) \<and>
     on_grid 2 (i_PowerCost iv) \<and> on_grid 2 (i_DemandOverrunCost iv) \<and> on_grid 2 (i_ReactivePenalty iv) \<and>
     on_grid 2 (i_ExtraChargesCost iv) \<and> on_grid 2 (i_OtherTaxesCost iv) \<and> on_grid 2 (i_VatCost iv) \<and>
     on_grid 2 (i_GenerationCredit iv))"
proof -
  have part1: "i_VatBase iv = category_costs iv"
    and part2: "\<exists>before vat after. i_Lines iv = before @ vat # after \<and> l_Code vat = BillLineVat \<and>
      l_Amount vat = i_VatCost iv \<and> i_VatBase iv = sum_list (map l_Amount before) \<and>
      i_GenerationCredit iv = - sum_list (map l_Amount after) \<and>
      (\<forall>l \<in> set after. l_Code l = BillLineGenerationCredit)"
    and part3: "i_TotalCost iv = max 0 (i_VatBase iv + i_VatCost iv - i_GenerationCredit iv)"
    and part4: "i_TotalCost iv = max 0 (lines_total iv)"
    and part5: "(\<forall>l \<in> set (i_Lines iv). on_grid 2 (l_Amount l)) \<and> on_grid 2 (i_TotalCost iv) \<and> on_grid 2 (i_VatBase iv)"
    and part6: "on_grid 2 (i_EnergyCost iv) \<and> on_grid 2 (i_DistributionCost iv) \<and> on_grid 2 (i_GreenEnergyCost iv) \<and>
     on_grid 2 (i_PowerCost iv) \<and> on_grid 2 (i_DemandOverrunCost iv) \<and> on_grid 2 (i_ReactivePenalty iv) \<and>
     on_grid 2 (i_ExtraChargesCost iv) \<and> on_grid 2 (i_OtherTaxesCost iv) \<and> on_grid 2 (i_VatCost iv) \<and>
     on_grid 2 (i_GenerationCredit iv)"
  proof -
    let ?t = "bi_Tariff inp" and ?q = "bi_Quantities inp" and ?mode = "p_MoneyRoundingMode (bi_Params inp)"
    let ?iv0 = "fst (charges L inp)"
    let ?iv1 = "vat_step L ?mode ?t ?iv0"
    let ?iv2 = "credit_step L ?mode ?t ?q ?iv1"
    note a = charges_accounts [OF assms(1), of inp]
    note v = vat_step_simps [OF a(2), where L = L and mode = ?mode and t = ?t]
    obtain after where after: "i_Lines ?iv2 = i_Lines ?iv1 @ after"
      "\<forall>l \<in> set after. l_Code l = BillLineGenerationCredit \<and> on_grid 2 (l_Amount l)"
      "i_GenerationCredit ?iv2 = - sum_list (map l_Amount after)"
      using credit_step_simps(4) [of L ?mode ?t ?q ?iv1] assms(1) a(3) v(4) by auto
    have iv: "i_VatBase iv = i_VatBase ?iv2" "i_VatCost iv = i_VatCost ?iv2" "i_Lines iv = i_Lines ?iv2"
      "i_GenerationCredit iv = i_GenerationCredit ?iv2" "category_costs iv = category_costs ?iv2"
      "i_TotalCost iv = max 0 (i_VatBase ?iv2 + i_VatCost ?iv2 - i_GenerationCredit ?iv2)"
      unfolding Compute_Inr(2) [OF assms(2)] by (simp_all add: total_step_def category_costs_def)
    have base: "i_VatBase iv = lines_total ?iv0" by (simp only: iv credit_step_simps v)
    have cats: "category_costs ?iv0 = lines_total ?iv0" using a(1) by (simp add: accounts_def)
    let ?vat = "percent_line L ?mode BillLineVat (lines_total ?iv0) (t_VatRate ?t)"
    have lines: "i_Lines iv = i_Lines ?iv0 @ ?vat # after" by (simp add: iv after v)
    show "i_VatBase iv = category_costs iv" using base cats by (simp only: iv credit_step_simps v)
    show "\<exists>before vat after. i_Lines iv = before @ vat # after \<and> l_Code vat = BillLineVat \<and>
        l_Amount vat = i_VatCost iv \<and> i_VatBase iv = sum_list (map l_Amount before) \<and>
        i_GenerationCredit iv = - sum_list (map l_Amount after) \<and>
        (\<forall>l \<in> set after. l_Code l = BillLineGenerationCredit)"
      using lines after base
      by (intro exI [of _ "i_Lines ?iv0"] exI [of _ ?vat] exI [of _ after])
        (simp add: iv credit_step_simps v percent_line_def lines_total_def)
    show total: "i_TotalCost iv = max 0 (i_VatBase iv + i_VatCost iv - i_GenerationCredit iv)" by (simp only: iv)
    show "i_TotalCost iv = max 0 (lines_total iv)"
      unfolding total lines_total_def lines base using after(3)
      by (simp add: iv credit_step_simps v lines_total_def)
    have grid: "\<forall>l \<in> set (i_Lines iv). on_grid 2 (l_Amount l)"
      using a(1) after(2) assms(1) by (auto simp: lines accounts_def whole_kurus_def)
    then have "on_grid 2 (lines_total iv)" unfolding lines_total_def by (intro on_grid_sum_list) auto
    moreover have "on_grid 2 (i_VatBase iv)"
      using a(1) unfolding base lines_total_def by (intro on_grid_sum_list) (auto simp: accounts_def whole_kurus_def)
    ultimately show "(\<forall>l \<in> set (i_Lines iv). on_grid 2 (l_Amount l)) \<and> on_grid 2 (i_TotalCost iv) \<and> on_grid 2 (i_VatBase iv)"
      using grid unfolding \<open>i_TotalCost iv = max 0 (lines_total iv)\<close> by (auto intro: on_grid_max)
    have "on_grid 2 (sum_list (map l_Amount after))" using after(2) assms(1) by (intro on_grid_sum_list) auto
    then have "on_grid 2 (i_GenerationCredit iv)" unfolding iv(4) after(3) by (rule on_grid_minus)
    moreover have "on_grid 2 (i_VatCost iv)" using assms(1) by (simp add: iv credit_step_simps v)
    moreover have "charge_list iv = charge_list ?iv0"
      unfolding Compute_Inr(2) [OF assms(2)]
      by (simp add: total_step_def charge_list_def [of "_\<lparr>i_TotalCost := _\<rparr>"] charge_list_def [of "_\<lparr>i_TotalCost := _, i_Flags := _\<rparr>"])
        (simp add: charge_list_def [symmetric] last_steps_charges)
    ultimately show "on_grid 2 (i_EnergyCost iv) \<and> on_grid 2 (i_DistributionCost iv) \<and> on_grid 2 (i_GreenEnergyCost iv) \<and>
     on_grid 2 (i_PowerCost iv) \<and> on_grid 2 (i_DemandOverrunCost iv) \<and> on_grid 2 (i_ReactivePenalty iv) \<and>
     on_grid 2 (i_ExtraChargesCost iv) \<and> on_grid 2 (i_OtherTaxesCost iv) \<and> on_grid 2 (i_VatCost iv) \<and>
     on_grid 2 (i_GenerationCredit iv)"
      using a(1) by (simp add: accounts_def charge_list_def)
  qed
  show ?thesis by (rule conjI [OF part1 conjI [OF part2 conjI [OF part3 conjI [OF part4 conjI [OF part5 part6]]]]])
qed

definition sample_quantities :: quantities where
  "sample_quantities =
     \<lparr>q_ActiveImport = Some 300, q_T1 = None, q_T2 = None, q_T3 = None, q_ReactiveInductive = Some 20,
      q_ReactiveCapacitive = Some 10, q_ActiveExport = None, q_ActiveExportKnownSum = 0,
      q_ActiveExportPartial = False, q_MaxDemandKw = None, q_IndexStart = Map.empty, q_IndexEnd = Map.empty\<rparr>"

definition sample_input :: billing_input where
  "sample_input =
     \<lparr>bi_PeriodKey = ''2026-01'', bi_Period = \<lparr>From = 0, To = 30 * 24 * hour\<rparr>, bi_Days = 30,
      bi_Tariff = sample_tariff, bi_Taxes = [], bi_ExtraCharges = [], bi_Params = sample_params,
      bi_Quantities = sample_quantities, bi_InstalledPowerKw = Some 20, bi_Pricing = None\<rparr>"

theorem Compute_adds_up_witness:
  "\<exists>iv. Compute std_declib sample_input = Inr iv \<and> i_VatBase iv = category_costs iv \<and>
     i_TotalCost iv = max 0 (lines_total iv)"
proof -
  have "check_input sample_input = None"
    by (simp add: check_input_def sample_input_def sample_quantities_def sample_tariff_def)
  then obtain iv where iv: "Compute std_declib sample_input = Inr iv" using Compute_check by blast
  from Compute_adds_up [OF std.decimal_lib_axioms iv] iv show ?thesis by blast
qed


section \<open>What the energy step decides\<close>

definition tier_part :: "invoice \<Rightarrow> dec \<times> dec \<times> bool \<times> dec option \<times> dec option" where
  "tier_part iv = (i_LowTierKwh iv, i_HighTierKwh iv, i_TieredApplied iv, i_LowTierPrice iv, i_HighTierPrice iv)"

definition energy_part :: "invoice \<Rightarrow> dec \<times> (dec \<times> dec \<times> bool \<times> dec option \<times> dec option) \<times> dec option" where
  "energy_part iv = (i_NetConsumption iv, tier_part iv, i_EffectiveEnergyPrice iv)"

lemmas energy_part_defs = energy_part_def tier_part_def

lemma later_steps_energy_part [simp]:
  "energy_part (distribution_step L mode price iv) = energy_part iv"
  "energy_part (green_step L mode t iv) = energy_part iv"
  "energy_part (power_step L p t q price iv) = energy_part iv"
  "energy_part (reactive_line L mode code charged price iv) = energy_part iv"
  "energy_part (vat_step L mode t iv) = energy_part iv"
  "energy_part (credit_step L mode t q iv) = energy_part iv"
  "energy_part (total_step iv) = energy_part iv"
  "energy_part (iv\<lparr>i_Flags := fl\<rparr>) = energy_part iv"
  "energy_part (iv\<lparr>i_ReactivePowerPrice := price, i_Reactive := r\<rparr>) = energy_part iv"
  by (simp_all add: distribution_step_def green_step_def power_step_def reactive_line_def vat_step_def
      credit_step_def total_step_def energy_part_defs add_def Let_def split: option.split)

lemma updates_energy_part [simp]:
  "energy_part (add l iv) = energy_part iv" "energy_part (iv\<lparr>i_DemandDataAvailable := b\<rparr>) = energy_part iv"
  "energy_part (iv\<lparr>i_ExtraChargesCost := x\<rparr>) = energy_part iv"
  "energy_part (iv\<lparr>i_OtherTaxesCost := x\<rparr>) = energy_part iv"
  by (simp_all add: add_def energy_part_defs)

lemma extras_loop_energy_part [simp]: "energy_part (extras_loop L mode t q extras iv) = energy_part iv"
proof (induction extras arbitrary: iv)
  case (Cons c extras)
  show ?case by (simp add: Let_def Cons.IH split: option.split)
qed simp

lemma taxes_loop_energy_part [simp]: "energy_part (taxes_loop L mode taxes iv) = energy_part iv"
proof (induction taxes arbitrary: iv)
  case (Cons x taxes)
  show ?case by (simp add: Let_def Cons.IH)
qed simp

text \<open>The invoice and the flags after the first two steps.\<close>

definition energy_result :: "declib \<Rightarrow> billing_input \<Rightarrow> invoice \<times> flag list" where
  "energy_result L inp =
     energy_step L inp (net_step (bi_Tariff inp) (bi_Quantities inp) (start_invoice inp, []))"

definition net_kwh :: "billing_input \<Rightarrow> dec" where
  "net_kwh inp =
     (let q = bi_Quantities inp
      in if t_GenerationUsage (bi_Tariff inp) = GenerationUsageSubtractFromConsumption
         then max 0 (val (q_ActiveImport q) - export_kwh q) else val (q_ActiveImport q))"

lemma charges_energy_part:
  "energy_part (fst (charges L inp)) = energy_part (fst (energy_result L inp))"
  "i_NetConsumption iv = i_NetConsumption (fst (energy_result L inp)) \<Longrightarrow>
   snd (charges L inp) = reactive_flags
     (missing_of (reactive_input_of inp (i_NetConsumption iv) (fst (snd (unit_prices inp)))))
     (pricing_flag inp (snd (energy_result L inp)))"
proof -
  let ?t = "bi_Tariff inp" and ?q = "bi_Quantities inp" and ?p = "bi_Params inp"
  let ?mode = "p_MoneyRoundingMode ?p"
  obtain pw re di where u: "unit_prices inp = (pw, re, di)" by (cases "unit_prices inp")
  obtain iv1 f1 where 1: "energy_result L inp = (iv1, f1)" by fastforce
  define iv2 where "iv2 = power_step L ?p ?t ?q pw (green_step L ?mode ?t (distribution_step L ?mode di iv1))"
  obtain iv3 f3 where 3: "reactive_step L inp re (iv2, pricing_flag inp f1) = (iv3, f3)" by fastforce
  have e2: "energy_part iv2 = energy_part iv1" by (simp add: iv2_def)
  have e3: "energy_part iv3 = energy_part iv2" using 3 by (auto simp: reactive_step_def Let_def)
  have c: "charges L inp = (taxes_loop L ?mode (sort_key x_SortOrder (bi_Taxes inp))
      (extras_loop L ?mode ?t ?q (sort_key c_SortOrder (bi_ExtraCharges inp)) iv3), f3)"
    by (simp add: charges_def Let_def u 1 [unfolded energy_result_def] iv2_def [symmetric] 3)
  show "energy_part (fst (charges L inp)) = energy_part (fst (energy_result L inp))"
    by (simp add: c 1 e2 e3)
  have "i_NetConsumption iv2 = i_NetConsumption iv1" using e2 by (simp add: energy_part_def)
  then show "snd (charges L inp) = reactive_flags
     (missing_of (reactive_input_of inp (i_NetConsumption iv) (fst (snd (unit_prices inp)))))
     (pricing_flag inp (snd (energy_result L inp)))"
    if "i_NetConsumption iv = i_NetConsumption (fst (energy_result L inp))"
    using 3 that by (auto simp: c 1 u reactive_step_def Let_def)
qed

lemma Compute_energy_part:
  "Compute L inp = Inr iv \<Longrightarrow> energy_part iv = energy_part (fst (energy_result L inp))"
  unfolding charges_energy_part(1) [symmetric] by (drule Compute_Inr(2)) simp

text \<open>An energy line adds its raw amount and leaves the tiers alone.\<close>

definition raw_amount :: "dec \<Rightarrow> dec option \<Rightarrow> dec" where
  "raw_amount qty price = (case price of None \<Rightarrow> 0 | Some p \<Rightarrow> qty * p)"

lemma raw_amount_None [simp]: "raw_amount qty None = 0"
  by (simp add: raw_amount_def)

lemma energyLine_parts [simp]:
  "tier_part (fst (energyLine L mode code qty price s)) = tier_part (fst s)"
  "i_NetConsumption (fst (energyLine L mode code qty price s)) = i_NetConsumption (fst s)"
  "snd (energyLine L mode code qty price s) = snd s + raw_amount qty price"
  by (cases s; simp add: energyLine_def tier_part_def add_def raw_amount_def Let_def split: option.split)+

definition tiers_apply :: "declib \<Rightarrow> billing_input \<Rightarrow> bool" where
  "tiers_apply L inp \<longleftrightarrow>
     t_PriceType (bi_Tariff inp) = PriceTypeSingleTime \<and> \<not> t_UsePtfYekdem (bi_Tariff inp) \<and>
     wouldTier L (bi_Tariff inp) (bi_Params inp) (bi_Days inp) (net_kwh inp)"

text \<open>The tiers, the raw energy cost and the flag of the fixed single-time branch.\<close>

definition tiers_of :: "declib \<Rightarrow> billing_input \<Rightarrow> dec \<times> dec \<times> bool \<times> dec option \<times> dec option" where
  "tiers_of L inp =
     (let t = bi_Tariff inp; net = net_kwh inp;
          low = min net (tier_limit t (bi_Params inp) (bi_Quantities inp) (bi_Days inp))
      in if \<not> tiers_apply L inp \<or> t_OverusePrice t = None then (0, 0, False, None, None)
         else if p_TieringMode (bi_Params inp) = TieringModeWholeConsumptionSwitch
         then (0, net, True, t_SingleTimePrice t, t_OverusePrice t)
         else (low, max 0 (net - low), True, t_SingleTimePrice t, t_OverusePrice t))"

definition raw_energy :: "declib \<Rightarrow> billing_input \<Rightarrow> dec" where
  "raw_energy L inp =
     (case tiers_of L inp of
        (low, high, _, lowPrice, highPrice) \<Rightarrow>
          (if 0 < low then raw_amount low lowPrice else 0) + raw_amount high highPrice)"

lemma single_time_tiers:
  fixes L inp iv net flags
  assumes "tier_part iv = (0, 0, False, None, None)" and "net = net_kwh inp"
    and "t_PriceType (bi_Tariff inp) = PriceTypeSingleTime" "\<not> t_UsePtfYekdem (bi_Tariff inp)"
  defines "s \<equiv> single_time_energy L (bi_Tariff inp) (bi_Params inp) (bi_Quantities inp) (bi_Days inp) net (iv, 0, flags)"
  shows "tier_part (fst s) = tiers_of L inp"
    and "i_NetConsumption (fst s) = i_NetConsumption iv"
    and "tiers_apply L inp \<Longrightarrow> t_OverusePrice (bi_Tariff inp) \<noteq> None \<Longrightarrow> fst (snd s) = raw_energy L inp"
    and "snd (snd s) = raise_when (tiers_apply L inp \<and> t_OverusePrice (bi_Tariff inp) = None) FlagTieringPriceMissing flags"
proof -
  have a: "tiers_apply L inp \<longleftrightarrow> wouldTier L (bi_Tariff inp) (bi_Params inp) (bi_Days inp) net"
    using assms(2-4) by (simp add: tiers_apply_def)
  have t: "tier_part (iv\<lparr>i_TieredApplied := True, i_HighTierKwh := h, i_LowTierPrice := lp, i_HighTierPrice := hp\<rparr>) =
      (0, h, True, lp, hp)" for h lp hp
    using assms(1) by (simp add: tier_part_def)
  have t': "tier_part (iv\<lparr>i_TieredApplied := True, i_LowTierKwh := l, i_HighTierKwh := h, i_LowTierPrice := lp,
      i_HighTierPrice := hp\<rparr>) = (l, h, True, lp, hp)" for l h lp hp
    by (simp add: tier_part_def)
  show "tier_part (fst s) = tiers_of L inp" "i_NetConsumption (fst s) = i_NetConsumption iv"
    and "snd (snd s) = raise_when (tiers_apply L inp \<and> t_OverusePrice (bi_Tariff inp) = None) FlagTieringPriceMissing flags"
    unfolding s_def single_time_energy_def tiers_of_def a Let_def prod.case assms(2) [symmetric] raise_when_def
    using t t' assms(1) by (simp_all add: case_prod_beta if_distrib [where f = fst])
  show "fst (snd s) = raw_energy L inp" if prem: "tiers_apply L inp" "t_OverusePrice (bi_Tariff inp) \<noteq> None"
  proof -
    have w: "wouldTier L (bi_Tariff inp) (bi_Params inp) (bi_Days inp) net" using prem(1) a by simp
    obtain y where y: "t_OverusePrice (bi_Tariff inp) = Some y" using prem(2) by blast
    show ?thesis
      unfolding s_def single_time_energy_def tiers_of_def raw_energy_def a Let_def prod.case assms(2) [symmetric]
      by (simp add: w y case_prod_beta if_distrib [where f = fst] if_distrib [where f = snd])
  qed
qed

lemma net_step_start:
  fixes t inp
  defines "s \<equiv> net_step t (bi_Quantities inp) (start_invoice inp, [])"
  shows "tier_part (fst s) = (0, 0, False, None, None)"
    and "t = bi_Tariff inp \<Longrightarrow> i_NetConsumption (fst s) = net_kwh inp"
    and "snd s = raise_when (q_ActiveExport (bi_Quantities inp) = None \<and> t_GenerationUsage t \<noteq> GenerationUsageNone)
      FlagGenerationDataMissing []"
  by (simp_all add: s_def net_step_def start_invoice_def zero_invoice_def tier_part_def net_kwh_def Let_def)

lemma energy_result_eq:
  shows "i_NetConsumption (fst (energy_result L inp)) = net_kwh inp"
    and "tier_part (fst (energy_result L inp)) = tiers_of L inp"
    and "snd (snd (tiers_of L inp)) \<noteq> (False, None, None) \<Longrightarrow> 0 < net_kwh inp \<Longrightarrow>
      i_EffectiveEnergyPrice (fst (energy_result L inp)) = Some (DivRound L (raw_energy L inp) (net_kwh inp) DivisionScale)"
    and "snd (energy_result L inp) =
      raise_when (tiers_apply L inp \<and> t_OverusePrice (bi_Tariff inp) = None) FlagTieringPriceMissing
        (raise_when (q_ActiveExport (bi_Quantities inp) = None \<and> t_GenerationUsage (bi_Tariff inp) \<noteq> GenerationUsageNone)
          FlagGenerationDataMissing [])"
proof -
  let ?t = "bi_Tariff inp" and ?q = "bi_Quantities inp" and ?p = "bi_Params inp"
  obtain iv0 f0 where 0: "net_step ?t ?q (start_invoice inp, []) = (iv0, f0)" by fastforce
  note n = net_step_start [of ?t inp, unfolded 0 fst_conv snd_conv]
  define c where "c = energy_charges L inp (iv0, f0)"
  have "fst (energy_result L inp) = (if 0 < i_NetConsumption (fst c)
      then (fst c)\<lparr>i_EffectiveEnergyPrice := Some (DivRound L (fst (snd c)) (i_NetConsumption (fst c)) DivisionScale)\<rparr>
      else fst c)" and f: "snd (energy_result L inp) = snd (snd c)"
    by (simp_all add: energy_result_def 0 energy_step_def c_def case_prod_beta)
  then have r: "i_NetConsumption (fst (energy_result L inp)) = i_NetConsumption (fst c)"
    "tier_part (fst (energy_result L inp)) = tier_part (fst c)"
    "0 < i_NetConsumption (fst c) \<Longrightarrow> i_EffectiveEnergyPrice (fst (energy_result L inp)) =
      Some (DivRound L (fst (snd c)) (i_NetConsumption (fst c)) DivisionScale)"
    by (simp_all add: tier_part_def)
  have "i_NetConsumption (fst c) = net_kwh inp \<and> tier_part (fst c) = tiers_of L inp \<and>
      (snd (snd (tiers_of L inp)) \<noteq> (False, None, None) \<longrightarrow> fst (snd c) = raw_energy L inp) \<and>
      snd (snd c) = raise_when (tiers_apply L inp \<and> t_OverusePrice ?t = None) FlagTieringPriceMissing f0"
  proof (cases "t_PriceType ?t = PriceTypeSingleTime \<and> \<not> t_UsePtfYekdem ?t")
    case True
    then have c: "c = single_time_energy L ?t ?p ?q (bi_Days inp) (net_kwh inp) (iv0, 0, f0)"
      using n(2) by (simp add: c_def energy_charges_def Let_def)
    show ?thesis
      using single_time_tiers [OF n(1) refl, where L = L and flags = f0] True n(2)
      unfolding c by (auto simp: tiers_of_def Let_def)
  next
    case False
    then have none: "\<not> tiers_apply L inp" by (auto simp: tiers_apply_def)
    have wt: "t_PriceType ?t \<noteq> PriceTypeSingleTime \<Longrightarrow> \<not> wouldTier L ?t ?p d k" for d k
      by (simp add: wouldTier_def tieringThreshold_def split: option.split)
    have "i_NetConsumption (fst c) = i_NetConsumption iv0 \<and> tier_part (fst c) = tier_part iv0 \<and> snd (snd c) = f0"
    proof -
      consider "t_PriceType ?t = PriceTypeMultiTime" | "t_PriceType ?t \<noteq> PriceTypeMultiTime" "t_UsePtfYekdem ?t"
        | "t_PriceType ?t \<noteq> PriceTypeMultiTime" "\<not> t_UsePtfYekdem ?t" "t_PriceType ?t \<noteq> PriceTypeSingleTime"
        using False by blast
      then show ?thesis
        by cases (simp_all add: c_def energy_charges_def single_time_energy_def wt case_prod_beta Let_def)
    qed
    then show ?thesis using none n(1,2) by (simp add: tiers_of_def raise_when_def)
  qed
  then show "i_NetConsumption (fst (energy_result L inp)) = net_kwh inp"
    and "tier_part (fst (energy_result L inp)) = tiers_of L inp"
    and "snd (snd (tiers_of L inp)) \<noteq> (False, None, None) \<Longrightarrow> 0 < net_kwh inp \<Longrightarrow>
      i_EffectiveEnergyPrice (fst (energy_result L inp)) = Some (DivRound L (raw_energy L inp) (net_kwh inp) DivisionScale)"
    and "snd (energy_result L inp) =
      raise_when (tiers_apply L inp \<and> t_OverusePrice (bi_Tariff inp) = None) FlagTieringPriceMissing
        (raise_when (q_ActiveExport (bi_Quantities inp) = None \<and> t_GenerationUsage (bi_Tariff inp) \<noteq> GenerationUsageNone)
          FlagGenerationDataMissing [])"
    using r f n(3) by simp_all
qed

lemma Compute_energy:
  assumes "Compute L inp = Inr iv"
  shows "i_NetConsumption iv = net_kwh inp" and "tier_part iv = tiers_of L inp"
    and "i_TieredApplied iv \<Longrightarrow> 0 < net_kwh inp \<Longrightarrow>
      i_EffectiveEnergyPrice iv = Some (DivRound L (raw_energy L inp) (net_kwh inp) DivisionScale)"
proof -
  have e: "i_NetConsumption iv = i_NetConsumption (fst (energy_result L inp))"
    "tier_part iv = tier_part (fst (energy_result L inp))"
    "i_EffectiveEnergyPrice iv = i_EffectiveEnergyPrice (fst (energy_result L inp))"
    using Compute_energy_part [OF assms] by (simp_all add: energy_part_def)
  show "i_NetConsumption iv = net_kwh inp" "tier_part iv = tiers_of L inp" by (simp_all only: e energy_result_eq)
  then show "i_TieredApplied iv \<Longrightarrow> 0 < net_kwh inp \<Longrightarrow>
      i_EffectiveEnergyPrice iv = Some (DivRound L (raw_energy L inp) (net_kwh inp) DivisionScale)"
    unfolding e(3) by (cases "tiers_of L inp") (auto simp: tier_part_def intro!: energy_result_eq(3))
qed

section \<open>Properties: tiers, price and bands\<close>

lemma tieringThreshold_Some:
  "tieringThreshold t p = Some h \<longleftrightarrow>
     t_PriceType t = PriceTypeSingleTime \<and> t_UserGroup t \<in> fst ` set (p_TieringGroups p) \<and>
     t_VoltageLevel t \<in> set (p_TieringVoltageLevels p) \<and> t_SupplyCompany t \<in> set (p_TieringSupplyCompanies p) \<and>
     h = (case t_OveruseThresholdKwhPerDay t of Some h \<Rightarrow> h | None \<Rightarrow> the (map_of (p_TieringGroups p) (t_UserGroup t)))"
  by (cases "map_of (p_TieringGroups p) (t_UserGroup t)")
    (auto simp: tieringThreshold_def map_of_eq_None_iff contains_def dest: map_of_SomeD split: option.splits
       intro: rev_image_eqI)

lemma wouldTier_gates:
  "wouldTier L t p days n \<longleftrightarrow>
     t_PriceType t = PriceTypeSingleTime \<and> t_UserGroup t \<in> fst ` set (p_TieringGroups p) \<and>
     t_VoltageLevel t \<in> set (p_TieringVoltageLevels p) \<and> t_SupplyCompany t \<in> set (p_TieringSupplyCompanies p) \<and>
     (case t_OveruseThresholdKwhPerDay t of Some h \<Rightarrow> h | None \<Rightarrow> the (map_of (p_TieringGroups p) (t_UserGroup t)))
       < DivRound L n (of_int days) 20"
proof -
  have "wouldTier L t p days n \<longleftrightarrow> (\<exists>h. tieringThreshold t p = Some h \<and> h < DivRound L n (of_int days) 20)"
    by (auto simp: wouldTier_def DivisionScale_def split: option.split)
  then show ?thesis unfolding tieringThreshold_Some by blast
qed

lemma tier_limit_nonneg: "0 \<le> tier_limit t p q days"
  by (simp add: tier_limit_def Let_def)

lemma tiers_of_cases:
  assumes "tiers_of L inp = (low, high, applied, lowPrice, highPrice)"
  shows "applied \<longleftrightarrow> tiers_apply L inp \<and> t_OverusePrice (bi_Tariff inp) \<noteq> None"
    and "applied \<Longrightarrow> low + high = net_kwh inp \<and> lowPrice = t_SingleTimePrice (bi_Tariff inp) \<and>
      highPrice = t_OverusePrice (bi_Tariff inp)"
    and "\<not> applied \<Longrightarrow> low = 0 \<and> high = 0"
    and "applied \<Longrightarrow> p_TieringMode (bi_Params inp) \<noteq> TieringModeWholeConsumptionSwitch \<Longrightarrow>
      low = min (net_kwh inp) (tier_limit (bi_Tariff inp) (bi_Params inp) (bi_Quantities inp) (bi_Days inp)) \<and> 0 \<le> high"
    and "applied \<Longrightarrow> p_TieringMode (bi_Params inp) = TieringModeWholeConsumptionSwitch \<Longrightarrow>
      low = 0 \<and> high = net_kwh inp"
  using assms by (auto simp: tiers_of_def Let_def max_def min_def split: if_splits)

lemma wouldTier_threshold:
  assumes "wouldTier L t p days n"
  shows "the (tieringThreshold t p) =
     (case t_OveruseThresholdKwhPerDay t of Some h \<Rightarrow> h | None \<Rightarrow> the (map_of (p_TieringGroups p) (t_UserGroup t)))"
proof -
  obtain h where h: "tieringThreshold t p = Some h" using assms by (auto simp: wouldTier_def split: option.splits)
  show ?thesis using h [unfolded tieringThreshold_Some] h by simp
qed

text \<open>C3. Tiered consumption (R120 to R122). The net consumption is the import, for a netting tariff less the export but not below 0.
  The daily threshold is the tariff's own, else the one of its user group. Tiers apply exactly to a fixed single-time tariff
  with an overuse price, whose group, voltage level and supplier are gated and whose net consumption per day (rounded to 20 places) exceeds the
  threshold; then the two tiers add up to the net consumption. In the whole-switch mode all of it is in the high tier; otherwise
  the low tier is what fits under days times threshold, less the export of a netting tariff, and the high tier is not
  negative. Without tiers both are 0.\<close>

theorem Compute_tiers:
  assumes "Compute L inp = Inr iv"
  shows "let t = bi_Tariff inp; p = bi_Params inp; q = bi_Quantities inp;
        netting = (t_GenerationUsage t = GenerationUsageSubtractFromConsumption);
        export = (case q_ActiveExport q of None \<Rightarrow> 0 | Some x \<Rightarrow> x);
        threshold = (case t_OveruseThresholdKwhPerDay t of Some h \<Rightarrow> h | None \<Rightarrow> the (map_of (p_TieringGroups p) (t_UserGroup t)));
        gated = (t_UserGroup t \<in> fst ` set (p_TieringGroups p) \<and> t_VoltageLevel t \<in> set (p_TieringVoltageLevels p) \<and>
          t_SupplyCompany t \<in> set (p_TieringSupplyCompanies p))
    in (case q_ActiveImport q of None \<Rightarrow> False | Some x \<Rightarrow>
         i_NetConsumption iv = (if netting then max 0 (x - export) else x)) \<and>
       (i_TieredApplied iv \<longleftrightarrow>
         t_PriceType t = PriceTypeSingleTime \<and> \<not> t_UsePtfYekdem t \<and> t_OverusePrice t \<noteq> None \<and> gated \<and>
         threshold < DivRound L (i_NetConsumption iv) (of_int (bi_Days inp)) 20) \<and>
       (if \<not> i_TieredApplied iv then i_LowTierKwh iv = 0 \<and> i_HighTierKwh iv = 0
        else i_LowTierKwh iv + i_HighTierKwh iv = i_NetConsumption iv \<and>
          (if p_TieringMode p = TieringModeWholeConsumptionSwitch then i_LowTierKwh iv = 0
           else i_LowTierKwh iv = min (i_NetConsumption iv) (max 0 (of_int (bi_Days inp) * threshold - (if netting then export else 0))) \<and>
             0 \<le> i_HighTierKwh iv))"
proof -
  let ?t = "bi_Tariff inp" and ?p = "bi_Params inp"
  note e = Compute_energy [OF assms]
  have t: "tiers_of L inp =
      (i_LowTierKwh iv, i_HighTierKwh iv, i_TieredApplied iv, i_LowTierPrice iv, i_HighTierPrice iv)"
    using e(2) by (simp add: tier_part_def)
  note c = tiers_of_cases [OF t]
  obtain x where x: "q_ActiveImport (bi_Quantities inp) = Some x"
    using Compute_Inr(1) [OF assms] by (auto simp: check_input_def Let_def split: if_splits)
  have would: "t_PriceType ?t = PriceTypeSingleTime \<and> wouldTier L ?t ?p (bi_Days inp) n \<longleftrightarrow>
      t_PriceType ?t = PriceTypeSingleTime \<and> t_UserGroup ?t \<in> fst ` set (p_TieringGroups ?p) \<and>
      t_VoltageLevel ?t \<in> set (p_TieringVoltageLevels ?p) \<and> t_SupplyCompany ?t \<in> set (p_TieringSupplyCompanies ?p) \<and>
      (case t_OveruseThresholdKwhPerDay ?t of Some h \<Rightarrow> h | None \<Rightarrow> the (map_of (p_TieringGroups ?p) (t_UserGroup ?t)))
        < DivRound L n (of_int (bi_Days inp)) 20" for n
    using wouldTier_gates by blast
  have limit: "i_TieredApplied iv \<Longrightarrow> the (tieringThreshold ?t ?p) =
      (case t_OveruseThresholdKwhPerDay ?t of Some h \<Rightarrow> h | None \<Rightarrow> the (map_of (p_TieringGroups ?p) (t_UserGroup ?t)))"
    using c(1) wouldTier_threshold unfolding tiers_apply_def by blast
  have net: "i_NetConsumption iv = (if t_GenerationUsage ?t = GenerationUsageSubtractFromConsumption
      then max 0 (x - (case q_ActiveExport (bi_Quantities inp) of None \<Rightarrow> 0 | Some x \<Rightarrow> x)) else x)"
    by (simp add: e(1) net_kwh_def export_kwh_def val_def x)
  have applied: "i_TieredApplied iv \<longleftrightarrow> (t_PriceType ?t = PriceTypeSingleTime \<and> wouldTier L ?t ?p (bi_Days inp) (net_kwh inp)) \<and>
      \<not> t_UsePtfYekdem ?t \<and> t_OverusePrice ?t \<noteq> None"
    unfolding c(1) tiers_apply_def by blast
  have low: "i_LowTierKwh iv = min (i_NetConsumption iv) (max 0 (of_int (bi_Days inp) *
        (case t_OveruseThresholdKwhPerDay ?t of Some h \<Rightarrow> h | None \<Rightarrow> the (map_of (p_TieringGroups ?p) (t_UserGroup ?t))) -
        (if t_GenerationUsage ?t = GenerationUsageSubtractFromConsumption
         then case q_ActiveExport (bi_Quantities inp) of None \<Rightarrow> 0 | Some x \<Rightarrow> x else 0))) \<and> 0 \<le> i_HighTierKwh iv"
    if "i_TieredApplied iv" "p_TieringMode ?p \<noteq> TieringModeWholeConsumptionSwitch"
    using c(4) [OF that] limit [OF that(1)] by (simp add: e(1) tier_limit_def Let_def export_kwh_def)
  have tiers: "if \<not> i_TieredApplied iv then i_LowTierKwh iv = 0 \<and> i_HighTierKwh iv = 0
      else i_LowTierKwh iv + i_HighTierKwh iv = i_NetConsumption iv \<and>
        (p_TieringMode ?p = TieringModeWholeConsumptionSwitch \<longrightarrow> i_LowTierKwh iv = 0)"
    using c(2,3,5) by (simp add: e(1))
  note gates = applied [unfolded would e(1) [symmetric]]
  have a: "case q_ActiveImport (bi_Quantities inp) of None \<Rightarrow> False | Some x \<Rightarrow> i_NetConsumption iv =
      (if t_GenerationUsage ?t = GenerationUsageSubtractFromConsumption
       then max 0 (x - (case q_ActiveExport (bi_Quantities inp) of None \<Rightarrow> 0 | Some x \<Rightarrow> x)) else x)"
    unfolding x option.case by (rule net)
  show ?thesis
    unfolding Let_def using tiers low by (intro conjI a) (use gates in blast, auto)
qed

lemma sample_tariff_overuse: "t_OverusePrice (bi_Tariff sample_input) = Some 3"
  by (simp add: sample_input_def sample_tariff_def)

lemma sample_wouldTier: "wouldTier std_declib sample_tariff sample_params 30 300"
proof -
  have "on_grid 20 (10 :: dec)" by (rule on_gridI [where k = "10 ^ 21"]) simp
  then show ?thesis
    by (simp add: wouldTier_def tieringThreshold_def sample_tariff_def sample_params_def DivisionScale_def
        round_away_exact)
qed

lemma sample_Compute:
  obtains iv where "Compute std_declib sample_input = Inr iv" and "i_NetConsumption iv = 300"
proof -
  have "check_input sample_input = None"
    by (simp add: check_input_def sample_input_def sample_quantities_def sample_tariff_def)
  then obtain iv where iv: "Compute std_declib sample_input = Inr iv" using Compute_check by blast
  have "i_NetConsumption iv = 300"
    using Compute_energy(1) [OF iv]
    by (simp add: net_kwh_def sample_input_def sample_quantities_def sample_tariff_def val_def)
  with iv show thesis by (rule that)
qed

theorem Compute_tiers_witness:
  "\<exists>iv. Compute std_declib sample_input = Inr iv \<and> i_TieredApplied iv \<and> i_LowTierKwh iv = 240 \<and> i_HighTierKwh iv = 60"
proof -
  obtain iv where iv: "Compute std_declib sample_input = Inr iv" and net: "i_NetConsumption iv = 300"
    by (rule sample_Compute)
  have inp: "bi_Tariff sample_input = sample_tariff" "bi_Params sample_input = sample_params" "bi_Days sample_input = 30"
    by (simp_all add: sample_input_def)
  have app: "i_TieredApplied iv"
    using Compute_tiers [OF iv, unfolded Let_def] sample_wouldTier [unfolded wouldTier_gates] inp
    by (simp add: net) (simp add: sample_tariff_def)
  have "p_TieringMode sample_params \<noteq> TieringModeWholeConsumptionSwitch" by (simp add: sample_params_def)
  then have "i_LowTierKwh iv = 240 \<and> i_LowTierKwh iv + i_HighTierKwh iv = 300"
    using Compute_tiers [OF iv, unfolded Let_def inp] app net by (simp add: sample_params_def sample_tariff_def)
  then show ?thesis using iv app by auto
qed

text \<open>The effective energy price of a tiered invoice lies between the low-tier and the high-tier price (both rounded to 20
  places): tiering never prices the energy outside the two prices of the tariff.\<close>

theorem Compute_effective_price:
  assumes "decimal_lib L" and "Compute L inp = Inr iv" and "i_TieredApplied iv" and "0 < i_NetConsumption iv"
    and "t_SingleTimePrice (bi_Tariff inp) = Some a" and "t_OverusePrice (bi_Tariff inp) = Some b" and "a \<le> b"
  shows "\<exists>v. i_EffectiveEnergyPrice iv = Some v \<and> round_away a 20 \<le> v \<and> v \<le> round_away b 20"
proof -
  note e = Compute_energy [OF assms(2)]
  have t: "tiers_of L inp = (i_LowTierKwh iv, i_HighTierKwh iv, True, Some a, Some b)"
  proof -
    have t0: "tiers_of L inp =
        (i_LowTierKwh iv, i_HighTierKwh iv, True, i_LowTierPrice iv, i_HighTierPrice iv)"
      using e(2) assms(3) by (simp add: tier_part_def)
    with tiers_of_cases(2) [OF t0] assms(5,6) show ?thesis by simp
  qed
  note c = tiers_of_cases [OF t, simplified]
  let ?net = "net_kwh inp" and ?low = "i_LowTierKwh iv" and ?high = "i_HighTierKwh iv"
  have net: "0 < ?net" using assms(4) e(1) by simp
  have r: "0 \<le> ?low" "0 \<le> ?high" "?low + ?high = ?net"
    using c(2,4,5) net tier_limit_nonneg [of "bi_Tariff inp" "bi_Params inp" "bi_Quantities inp" "bi_Days inp"]
    by (cases "p_TieringMode (bi_Params inp) = TieringModeWholeConsumptionSwitch"; auto)+
  have raw: "raw_energy L inp = ?low * a + ?high * b"
    using r(1) by (simp add: raw_energy_def t raw_amount_def)
  have "a * ?low \<le> b * ?low" "a * ?high \<le> b * ?high" using assms(7) r by (simp_all add: mult_right_mono)
  then have "a * ?net \<le> raw_energy L inp" "raw_energy L inp \<le> b * ?net"
    unfolding raw r(3) [symmetric] by (simp_all add: algebra_simps)
  then have "a \<le> raw_energy L inp / ?net" "raw_energy L inp / ?net \<le> b"
    using net by (simp_all add: pos_le_divide_eq pos_divide_le_eq)
  moreover have "DivRound L (raw_energy L inp) ?net DivisionScale = round_away (raw_energy L inp / ?net) 20"
    using decimal_lib.DivRound_eq [OF assms(1)] net by (simp add: DivisionScale_def)
  ultimately show ?thesis using e(3) [OF assms(3) net] by (simp add: round_away_mono)
qed

theorem Compute_effective_price_witness:
  "\<exists>iv v. Compute std_declib sample_input = Inr iv \<and> i_EffectiveEnergyPrice iv = Some v \<and>
     round_away 2 20 \<le> v \<and> v \<le> round_away 3 20"
proof -
  obtain iv where iv: "Compute std_declib sample_input = Inr iv" and net: "i_NetConsumption iv = 300"
    by (rule sample_Compute)
  have "tier_part iv = tiers_of std_declib sample_input" by (rule Compute_energy(2) [OF iv])
  moreover have "tiers_apply std_declib sample_input"
    using sample_wouldTier Compute_energy(1) [OF iv] net
    by (simp add: tiers_apply_def) (simp add: sample_input_def sample_tariff_def)
  ultimately have "i_TieredApplied iv"
    using tiers_of_cases(1) by (metis option.discI sample_tariff_overuse tier_part_def)
  with Compute_effective_price [OF std.decimal_lib_axioms iv] net iv show ?thesis
    by (simp add: sample_input_def sample_tariff_def)
qed

text \<open>Netting a multi-time invoice (R123): the three bands scaled to the net consumption add up to it, up to one and a
  half units of the 20th decimal place, and a tariff without netting keeps its band registers.\<close>

theorem bands_sum:
  assumes "decimal_lib L" and "val (q_T1 q) + val (q_T2 q) + val (q_T3 q) \<noteq> 0"
    and "bands L t q net = (b1, b2, b3)"
  shows "(t_GenerationUsage t = GenerationUsageSubtractFromConsumption \<longrightarrow>
      \<bar>b1 + b2 + b3 - net\<bar> * 10 ^ 20 \<le> 3 / 2) \<and>
    (t_GenerationUsage t \<noteq> GenerationUsageSubtractFromConsumption \<longrightarrow>
      (b1, b2, b3) = (val (q_T1 q), val (q_T2 q), val (q_T3 q)))"
proof -
  have part1: "t_GenerationUsage t = GenerationUsageSubtractFromConsumption \<Longrightarrow>
      \<bar>b1 + b2 + b3 - net\<bar> * 10 ^ 20 \<le> 3 / 2"
    and part2: "t_GenerationUsage t \<noteq> GenerationUsageSubtractFromConsumption \<Longrightarrow>
      (b1, b2, b3) = (val (q_T1 q), val (q_T2 q), val (q_T3 q))"
  proof -
    let ?s = "val (q_T1 q) + val (q_T2 q) + val (q_T3 q)"
    show "(b1, b2, b3) = (val (q_T1 q), val (q_T2 q), val (q_T3 q))"
      if "t_GenerationUsage t \<noteq> GenerationUsageSubtractFromConsumption"
      using that assms(3) by (simp add: bands_def Let_def)
    show "\<bar>b1 + b2 + b3 - net\<bar> * 10 ^ 20 \<le> 3 / 2" if "t_GenerationUsage t = GenerationUsageSubtractFromConsumption"
    proof -
      have b: "b1 = round_away (val (q_T1 q) * net / ?s) 20" "b2 = round_away (val (q_T2 q) * net / ?s) 20"
        "b3 = round_away (val (q_T3 q) * net / ?s) 20"
        using that assms(2,3) decimal_lib.DivRound_eq [OF assms(1) assms(2)]
        by (simp_all add: bands_def Let_def DivisionScale_def)
      have split: "val (q_T1 q) * net / ?s + val (q_T2 q) * net / ?s + val (q_T3 q) * net / ?s = net"
        using assms(2) by (simp flip: add_divide_distrib distrib_right)
      have near: "\<bar>(round_away x 20 - x) * 10 ^ 20\<bar> \<le> 1 / 2" for x :: dec
      proof -
        have "\<bar>(10 :: dec) ^ 20\<bar> = 10 ^ 20" by simp
        then show ?thesis using round_away_near [of x 20] unfolding abs_mult by (simp only:)
      qed
      have tri: "\<bar>(r1 + r2 + r3 - n) * k\<bar> \<le> 3 / 2"
        if "\<bar>(r1 - x1) * k\<bar> \<le> 1 / 2" "\<bar>(r2 - x2) * k\<bar> \<le> 1 / 2" "\<bar>(r3 - x3) * k\<bar> \<le> 1 / 2" "x1 + x2 + x3 = n"
        for r1 r2 r3 x1 x2 x3 n k :: dec
      proof -
        have "(r1 + r2 + r3 - n) * k = (r1 - x1) * k + (r2 - x2) * k + (r3 - x3) * k"
          by (simp add: algebra_simps that(4) [symmetric])
        with that(1-3) show ?thesis unfolding abs_le_iff by linarith
      qed
      have "\<bar>(b1 + b2 + b3 - net) * 10 ^ 20\<bar> \<le> 3 / 2"
        unfolding b by (rule tri [OF near near near split])
      moreover have "\<bar>(10 :: dec) ^ 20\<bar> = 10 ^ 20" by simp
      ultimately show ?thesis unfolding abs_mult by (simp only:)
    qed
  qed
  show ?thesis using part1 part2 by blast
qed

definition sample_netting :: tariff where
  "sample_netting = sample_tariff\<lparr>t_GenerationUsage := GenerationUsageSubtractFromConsumption\<rparr>"

definition sample_band_registers :: quantities where
  "sample_band_registers = sample_quantities\<lparr>q_T1 := Some 1, q_T2 := Some 1, q_T3 := Some 1\<rparr>"

theorem bands_sum_witness:
  "\<exists>b1 b2 b3. bands std_declib sample_netting sample_band_registers 100 = (b1, b2, b3) \<and>
     \<bar>b1 + b2 + b3 - 100\<bar> * 10 ^ 20 \<le> 3 / 2"
proof -
  obtain b1 b2 b3 where b: "bands std_declib sample_netting sample_band_registers 100 = (b1, b2, b3)"
    by (cases "bands std_declib sample_netting sample_band_registers 100")
  have "val (q_T1 sample_band_registers) + val (q_T2 sample_band_registers) + val (q_T3 sample_band_registers) \<noteq> 0"
    by (simp add: sample_band_registers_def val_def)
  from bands_sum [OF std.decimal_lib_axioms this b] b show ?thesis by (simp add: sample_netting_def)
qed

section \<open>Properties: flags\<close>

definition marker_flag :: "missing_marker \<Rightarrow> flag" where
  "marker_flag m =
     (case m of
        MissingInstalledPower \<Rightarrow> FlagInstalledPowerMissing
      | MissingActiveExport \<Rightarrow> FlagGenerationDataMissing
      | _ \<Rightarrow> FlagReactiveDataMissing)"

lemma marker_flag_iff:
  "marker_flag m = FlagInstalledPowerMissing \<longleftrightarrow> m = MissingInstalledPower"
  "marker_flag m = FlagGenerationDataMissing \<longleftrightarrow> m = MissingActiveExport"
  "marker_flag m = FlagReactiveDataMissing \<longleftrightarrow> m = MissingInductive \<or> m = MissingCapacitive"
  "marker_flag m \<noteq> FlagPTFDataMissing" "marker_flag m \<noteq> FlagTieringPriceMissing"
  by (cases m; simp add: marker_flag_def)+

lemma reactive_flags_set [simp]: "set (reactive_flags ms flags) = marker_flag ` set ms \<union> set flags"
  by (induction ms flags rule: reactive_flags.induct) (auto simp: marker_flag_def)

lemma reactive_flags_distinct [simp]: "distinct flags \<Longrightarrow> distinct (reactive_flags ms flags)"
  by (induction ms flags rule: reactive_flags.induct) simp_all

text \<open>The reactive evaluation an invoice contains.\<close>

definition reactive_of :: "billing_input \<Rightarrow> reactive_input" where
  "reactive_of inp = reactive_input_of inp (net_kwh inp) (fst (snd (unit_prices inp)))"

lemma charges_flags:
  "snd (charges L inp) = reactive_flags (missing_of (reactive_of inp)) (pricing_flag inp
     (raise_when (tiers_apply L inp \<and> t_OverusePrice (bi_Tariff inp) = None) FlagTieringPriceMissing
        (raise_when (q_ActiveExport (bi_Quantities inp) = None \<and> t_GenerationUsage (bi_Tariff inp) \<noteq> GenerationUsageNone)
          FlagGenerationDataMissing [])))"
  unfolding charges_energy_part(2) [OF refl] energy_result_eq reactive_of_def ..

text \<open>Why an invoice is flagged (R113): its flags are sorted and without repetition, and each is raised exactly for its data
  problem: incomplete PTF pricing; a tier that applies without an overuse price; a netting or crediting tariff, or an undecided
  generation exemption, without export data; an unknown installed power or one without a band; a missing
  reactive register.\<close>

theorem Compute_flags:
  assumes "Compute L inp = Inr iv"
  shows "(sorted (i_Flags iv) \<and> distinct (i_Flags iv)) \<and>
    (FlagPTFDataMissing \<in> set (i_Flags iv) \<longleftrightarrow>
      t_UsePtfYekdem (bi_Tariff inp) \<and> \<not> pr_Complete (the (bi_Pricing inp))) \<and>
    (FlagTieringPriceMissing \<in> set (i_Flags iv) \<longleftrightarrow> tiers_apply L inp \<and> t_OverusePrice (bi_Tariff inp) = None) \<and>
    (FlagGenerationDataMissing \<in> set (i_Flags iv) \<longleftrightarrow>
      q_ActiveExport (bi_Quantities inp) = None \<and>
      (t_GenerationUsage (bi_Tariff inp) \<noteq> GenerationUsageNone \<or>
      q_ActiveExportPartial (bi_Quantities inp) \<and> exemption (reactive_of inp) = None)) \<and>
    (FlagInstalledPowerMissing \<in> set (i_Flags iv) \<longleftrightarrow>
      exemption (reactive_of inp) = None \<and> band_of (reactive_of inp) = None) \<and>
    (FlagReactiveDataMissing \<in> set (i_Flags iv) \<longleftrightarrow> band_of (reactive_of inp) \<noteq> None \<and>
      (q_ReactiveInductive (bi_Quantities inp) = None \<or> q_ReactiveCapacitive (bi_Quantities inp) = None))"
proof -
  have part1: "sorted (i_Flags iv) \<and> distinct (i_Flags iv)"
    and part2: "FlagPTFDataMissing \<in> set (i_Flags iv) \<longleftrightarrow>
      t_UsePtfYekdem (bi_Tariff inp) \<and> \<not> pr_Complete (the (bi_Pricing inp))"
    and part3: "FlagTieringPriceMissing \<in> set (i_Flags iv) \<longleftrightarrow> tiers_apply L inp \<and> t_OverusePrice (bi_Tariff inp) = None"
    and part4: "FlagGenerationDataMissing \<in> set (i_Flags iv) \<longleftrightarrow>
      q_ActiveExport (bi_Quantities inp) = None \<and>
      (t_GenerationUsage (bi_Tariff inp) \<noteq> GenerationUsageNone \<or>
      q_ActiveExportPartial (bi_Quantities inp) \<and> exemption (reactive_of inp) = None)"
    and part5: "FlagInstalledPowerMissing \<in> set (i_Flags iv) \<longleftrightarrow>
      exemption (reactive_of inp) = None \<and> band_of (reactive_of inp) = None"
    and part6: "FlagReactiveDataMissing \<in> set (i_Flags iv) \<longleftrightarrow> band_of (reactive_of inp) \<noteq> None \<and>
      (q_ReactiveInductive (bi_Quantities inp) = None \<or> q_ReactiveCapacitive (bi_Quantities inp) = None)"
  proof -
    have f: "i_Flags iv = sortedFlags (snd (charges L inp))"
      unfolding Compute_Inr(2) [OF assms] by simp
    have d: "distinct (snd (charges L inp))" unfolding charges_flags pricing_flag_def by simp
    then show "sorted (i_Flags iv) \<and> distinct (i_Flags iv)" by (simp add: f)
    have r: "ri_Inductive (reactive_of inp) = q_ReactiveInductive (bi_Quantities inp)"
      "ri_Capacitive (reactive_of inp) = q_ReactiveCapacitive (bi_Quantities inp)"
      "ri_ActiveExport (reactive_of inp) = q_ActiveExport (bi_Quantities inp)"
      "ri_ActiveExportPartial (reactive_of inp) = q_ActiveExportPartial (bi_Quantities inp)"
      by (simp_all add: reactive_of_def reactive_input_of_def Let_def)
    have band: "band_of (reactive_of inp) \<noteq> None \<Longrightarrow> exemption (reactive_of inp) = None"
      by (auto simp: band_of_def split: if_splits)
    have img: "FlagPTFDataMissing \<notin> marker_flag ` ms" "FlagTieringPriceMissing \<notin> marker_flag ` ms"
      "FlagGenerationDataMissing \<in> marker_flag ` ms \<longleftrightarrow> MissingActiveExport \<in> ms"
      "FlagInstalledPowerMissing \<in> marker_flag ` ms \<longleftrightarrow> MissingInstalledPower \<in> ms"
      "FlagReactiveDataMissing \<in> marker_flag ` ms \<longleftrightarrow> MissingInductive \<in> ms \<or> MissingCapacitive \<in> ms" for ms
      using marker_flag_iff(4,5) by (auto simp: image_iff eq_commute [of _ "marker_flag _"] marker_flag_iff)
    have miss: "MissingActiveExport \<in> set (missing_of (reactive_of inp)) \<longleftrightarrow> exemption (reactive_of inp) = None \<and>
          q_ActiveExport (bi_Quantities inp) = None \<and> q_ActiveExportPartial (bi_Quantities inp)"
      "MissingInstalledPower \<in> set (missing_of (reactive_of inp)) \<longleftrightarrow>
          exemption (reactive_of inp) = None \<and> band_of (reactive_of inp) = None"
      "MissingInductive \<in> set (missing_of (reactive_of inp)) \<longleftrightarrow>
          band_of (reactive_of inp) \<noteq> None \<and> q_ReactiveInductive (bi_Quantities inp) = None"
      "MissingCapacitive \<in> set (missing_of (reactive_of inp)) \<longleftrightarrow>
          band_of (reactive_of inp) \<noteq> None \<and> q_ReactiveCapacitive (bi_Quantities inp) = None"
      using band by (cases "exemption (reactive_of inp)"; cases "band_of (reactive_of inp)"; auto simp: missing_of_def r)+
    have s: "set (i_Flags iv) = marker_flag ` set (missing_of (reactive_of inp)) \<union>
        (if t_UsePtfYekdem (bi_Tariff inp) \<and> \<not> pr_Complete (the (bi_Pricing inp)) then {FlagPTFDataMissing} else {}) \<union>
        (if tiers_apply L inp \<and> t_OverusePrice (bi_Tariff inp) = None then {FlagTieringPriceMissing} else {}) \<union>
        (if q_ActiveExport (bi_Quantities inp) = None \<and> t_GenerationUsage (bi_Tariff inp) \<noteq> GenerationUsageNone
         then {FlagGenerationDataMissing} else {})"
      unfolding f sortedFlags_simps charges_flags pricing_flag_def by auto
    show "FlagPTFDataMissing \<in> set (i_Flags iv) \<longleftrightarrow>
        t_UsePtfYekdem (bi_Tariff inp) \<and> \<not> pr_Complete (the (bi_Pricing inp))"
      unfolding s Un_iff by (auto simp: img)
    show "FlagTieringPriceMissing \<in> set (i_Flags iv) \<longleftrightarrow> tiers_apply L inp \<and> t_OverusePrice (bi_Tariff inp) = None"
      unfolding s Un_iff by (auto simp: img)
    show "FlagGenerationDataMissing \<in> set (i_Flags iv) \<longleftrightarrow>
        q_ActiveExport (bi_Quantities inp) = None \<and>
        (t_GenerationUsage (bi_Tariff inp) \<noteq> GenerationUsageNone \<or>
         q_ActiveExportPartial (bi_Quantities inp) \<and> exemption (reactive_of inp) = None)"
      unfolding s Un_iff img miss by auto
    show "FlagInstalledPowerMissing \<in> set (i_Flags iv) \<longleftrightarrow>
        exemption (reactive_of inp) = None \<and> band_of (reactive_of inp) = None"
      unfolding s Un_iff img miss by simp
    show "FlagReactiveDataMissing \<in> set (i_Flags iv) \<longleftrightarrow> band_of (reactive_of inp) \<noteq> None \<and>
        (q_ReactiveInductive (bi_Quantities inp) = None \<or> q_ReactiveCapacitive (bi_Quantities inp) = None)"
      unfolding s Un_iff img miss by auto
  qed
  show ?thesis by (rule conjI [OF part1 conjI [OF part2 conjI [OF part3 conjI [OF part4 conjI [OF part5 part6]]]]])
qed

theorem Compute_flags_witness:
  "\<exists>iv. Compute std_declib (sample_input\<lparr>bi_InstalledPowerKw := None\<rparr>) = Inr iv \<and>
     FlagInstalledPowerMissing \<in> set (i_Flags iv)"
proof -
  let ?inp = "sample_input\<lparr>bi_InstalledPowerKw := None\<rparr>"
  have "check_input ?inp = None"
    by (simp add: check_input_def sample_input_def sample_quantities_def sample_tariff_def)
  then obtain iv where iv: "Compute std_declib ?inp = Inr iv" using Compute_check by blast
  have "exemption (reactive_of ?inp) = None \<and> band_of (reactive_of ?inp) = None"
    by (simp add: reactive_of_def reactive_input_of_def exemption_def band_of_def sample_input_def
        sample_quantities_def sample_tariff_def sample_params_def Let_def)
  with Compute_flags [OF iv] iv show ?thesis by blast
qed

end
