(* ===== verification/Billing_Aggregate.thy ===== *)
theory Billing_Aggregate
  imports Billing_Laws "HOL-Library.Multiset"
begin

text \<open>
  \<open>billing/aggregate.go\<close>: the quantities of several members summed into one invoice subject, and the
  building invoices of a company merged into one. A loop over the keys of an index map stores under each key
  independently, so the resulting map is written as a function of the key. The iteration over the hours of
  \<open>AggregateHours\<close> is followed by a sort; \<open>visit\<close> is the order of one run.
\<close>

section \<open>AggregateQuantities\<close>

text \<open>The closure \<open>sum\<close>: nil as soon as one member is nil.\<close>

fun sum_members :: "('a \<Rightarrow> dec option) \<Rightarrow> 'a list \<Rightarrow> dec \<Rightarrow> dec option" where
  "sum_members get [] acc = Some acc"
| "sum_members get (m # ms) acc =
     (case get m of None \<Rightarrow> None | Some v \<Rightarrow> sum_members get ms (acc + v))"

text \<open>A nil entry and an absent key read alike: \<open>get(m)[k]\<close>.\<close>

definition index_value :: "indexes \<Rightarrow> string \<Rightarrow> dec option" where
  "index_value m k = Option.bind (m k) id"

definition sumIndexes :: "('a \<Rightarrow> indexes) \<Rightarrow> 'a list \<Rightarrow> indexes" where
  "sumIndexes get ms k =
     (if \<exists>m \<in> set ms. get m k \<noteq> None then Some (sum_members (\<lambda>m. index_value (get m) k) ms 0) else None)"

definition zero_quantities :: quantities where
  "zero_quantities =
     \<lparr>q_ActiveImport = None, q_T1 = None, q_T2 = None, q_T3 = None, q_ReactiveInductive = None,
      q_ReactiveCapacitive = None, q_ActiveExport = None, q_ActiveExportKnownSum = 0,
      q_ActiveExportPartial = False, q_MaxDemandKw = None, q_IndexStart = Map.empty, q_IndexEnd = Map.empty\<rparr>"

fun export_loop :: "quantities list \<Rightarrow> dec \<times> nat \<times> bool \<Rightarrow> dec \<times> nat \<times> bool" where
  "export_loop [] s = s"
| "export_loop (m # ms) (kn, reported, partial) =
     export_loop ms
       (kn + q_ActiveExportKnownSum m,
        if q_ActiveExport m \<noteq> None then reported + 1 else reported,
        partial \<or> q_ActiveExportPartial m)"

definition AggregateQuantities :: "quantities list \<Rightarrow> quantities" where
  "AggregateQuantities members =
     (if members = [] then zero_quantities
      else case export_loop members (0, 0, False) of
        (kn, reported, partial) \<Rightarrow>
          \<lparr>q_ActiveImport = sum_members q_ActiveImport members 0, q_T1 = sum_members q_T1 members 0,
           q_T2 = sum_members q_T2 members 0, q_T3 = sum_members q_T3 members 0,
           q_ReactiveInductive = sum_members q_ReactiveInductive members 0,
           q_ReactiveCapacitive = sum_members q_ReactiveCapacitive members 0,
           q_ActiveExport = sum_members q_ActiveExport members 0, q_ActiveExportKnownSum = kn,
           q_ActiveExportPartial = (partial \<or> 0 < reported \<and> reported < length members),
           q_MaxDemandKw = (if length members = 1 then q_MaxDemandKw (hd members) else None),
           q_IndexStart = sumIndexes q_IndexStart members, q_IndexEnd = sumIndexes q_IndexEnd members\<rparr>)"

definition SumInstalledPower :: "dec option list \<Rightarrow> dec option" where
  "SumInstalledPower members = (if members = [] then None else sum_members id members 0)"

section \<open>AggregateHours\<close>

record hour_acc =
  acc_at :: time
  acc_total :: dec
  acc_count :: nat

fun store_hours :: "hour_consumption list \<Rightarrow> (time \<rightharpoonup> hour_acc) \<times> time list \<Rightarrow> (time \<rightharpoonup> hour_acc) \<times> time list" where
  "store_hours [] s = s"
| "store_hours (h # hs) (byHour, keys) =
     (case byHour (hc_Hour h) of
        None \<Rightarrow>
          store_hours hs
            (byHour(hc_Hour h \<mapsto> \<lparr>acc_at = hc_Hour h, acc_total = 0 + hc_Kwh h, acc_count = 1\<rparr>),
             keys @ [hc_Hour h])
      | Some a \<Rightarrow>
          store_hours hs
            (byHour(hc_Hour h \<mapsto> a\<lparr>acc_total := acc_total a + hc_Kwh h, acc_count := acc_count a + 1\<rparr>), keys))"

fun split_hours ::
  "nat \<Rightarrow> hour_acc list \<Rightarrow> hour_consumption list \<times> time list \<Rightarrow> hour_consumption list \<times> time list" where
  "split_hours n [] s = s"
| "split_hours n (a # accs) (whole, missing) =
     (if acc_count a = n
      then split_hours n accs (whole @ [\<lparr>hc_Hour = acc_at a, hc_Kwh = acc_total a\<rparr>], missing)
      else split_hours n accs (whole, missing @ [acc_at a]))"

definition AggregateHours ::
  "(time list \<Rightarrow> time list) \<Rightarrow> hour_consumption list list \<Rightarrow> hour_consumption list \<times> time list" where
  "AggregateHours visit members =
     (case store_hours (concat members) (Map.empty, []) of
        (byHour, keys) \<Rightarrow>
          (case split_hours (length members) (map (\<lambda>k. the (byHour k)) (visit keys)) ([], []) of
             (whole, missing) \<Rightarrow> (sort_key hc_Hour whole, sort missing)))"

section \<open>CombineCompany\<close>

definition cloneLine :: "line \<Rightarrow> line" where
  "cloneLine l = l"

text \<open>The key a line merges under: its code and the printed rate, empty without one.\<close>

definition line_key :: "declib \<Rightarrow> line \<Rightarrow> string \<times> string" where
  "line_key L l = (l_Code l, case l_RatePct l of None \<Rightarrow> [] | Some r \<Rightarrow> DecString L r)"

definition merge_line :: "line \<Rightarrow> line \<Rightarrow> line" where
  "merge_line m l =
     m\<lparr>l_Amount := l_Amount m + l_Amount l,
       l_Quantity :=
         (case (l_Quantity m, l_Quantity l) of (Some a, Some b) \<Rightarrow> Some (a + b) | _ \<Rightarrow> None),
       l_UnitPrice :=
         (case (l_UnitPrice m, l_UnitPrice l) of (Some a, Some b) \<Rightarrow> if a \<noteq> b then None else Some a | _ \<Rightarrow> None)\<rparr>"

text \<open>The loop over the lines: \<open>index\<close> maps a key to its position in the merged lines.\<close>

fun merge_lines ::
  "declib \<Rightarrow> line list \<Rightarrow> (string \<times> string \<rightharpoonup> nat) \<times> line list \<Rightarrow> (string \<times> string \<rightharpoonup> nat) \<times> line list" where
  "merge_lines L [] s = s"
| "merge_lines L (l # ls) (index, merged) =
     (case index (line_key L l) of
        None \<Rightarrow> merge_lines L ls (index(line_key L l \<mapsto> length merged), merged @ [cloneLine l])
      | Some i \<Rightarrow> merge_lines L ls (index, merged[i := merge_line (merged ! i) l]))"

text \<open>One building added to the company invoice: the window, the twenty-two sums, the flags and the conjunctions.\<close>

definition add_building :: "invoice \<Rightarrow> invoice \<Rightarrow> invoice" where
  "add_building b out =
     out\<lparr>i_Period :=
          \<lparr>From = (if From (i_Period b) < From (i_Period out) then From (i_Period b) else From (i_Period out)),
           To = (if To (i_Period out) < To (i_Period b) then To (i_Period b) else To (i_Period out))\<rparr>,
        i_ActiveImport := i_ActiveImport out + i_ActiveImport b, i_T1 := i_T1 out + i_T1 b,
        i_T2 := i_T2 out + i_T2 b, i_T3 := i_T3 out + i_T3 b,
        i_Inductive := i_Inductive out + i_Inductive b, i_Capacitive := i_Capacitive out + i_Capacitive b,
        i_ActiveExport := i_ActiveExport out + i_ActiveExport b,
        i_NetConsumption := i_NetConsumption out + i_NetConsumption b,
        i_LowTierKwh := i_LowTierKwh out + i_LowTierKwh b, i_HighTierKwh := i_HighTierKwh out + i_HighTierKwh b,
        i_EnergyCost := i_EnergyCost out + i_EnergyCost b,
        i_DistributionCost := i_DistributionCost out + i_DistributionCost b,
        i_GreenEnergyCost := i_GreenEnergyCost out + i_GreenEnergyCost b,
        i_PowerCost := i_PowerCost out + i_PowerCost b,
        i_DemandOverrunCost := i_DemandOverrunCost out + i_DemandOverrunCost b,
        i_ReactivePenalty := i_ReactivePenalty out + i_ReactivePenalty b,
        i_ExtraChargesCost := i_ExtraChargesCost out + i_ExtraChargesCost b,
        i_OtherTaxesCost := i_OtherTaxesCost out + i_OtherTaxesCost b,
        i_VatBase := i_VatBase out + i_VatBase b, i_VatCost := i_VatCost out + i_VatCost b,
        i_GenerationCredit := i_GenerationCredit out + i_GenerationCredit b,
        i_TotalCost := i_TotalCost out + i_TotalCost b,
        i_TieredApplied := i_TieredApplied out \<or> i_TieredApplied b,
        i_DemandDataAvailable := i_DemandDataAvailable out \<and> i_DemandDataAvailable b,
        i_PtfYekdemUsed := i_PtfYekdemUsed out \<or> i_PtfYekdemUsed b,
        i_Reactive := (i_Reactive out)\<lparr>Applied := Applied (i_Reactive out) \<or> Applied (i_Reactive b)\<rparr>,
        i_GenerationUsage :=
          (if i_GenerationUsage b \<noteq> i_GenerationUsage out then GenerationUsageNone else i_GenerationUsage out)\<rparr>"

fun add_flags :: "flag list \<Rightarrow> flag list \<Rightarrow> flag list" where
  "add_flags [] flags = flags"
| "add_flags (f # fs) flags = add_flags fs (raise_flag f flags)"

fun combine_loop ::
  "declib \<Rightarrow> invoice list \<Rightarrow> invoice \<times> (string \<times> string \<rightharpoonup> nat) \<times> line list \<times> flag list \<Rightarrow>
   invalid_input + invoice \<times> line list \<times> flag list" where
  "combine_loop L [] (out, index, lines, flags) = Inr (out, lines, flags)"
| "combine_loop L (b # bs) (out, index, lines, flags) =
     (if i_Currency b \<noteq> i_Currency out then Inl (MixedCurrencies (i_Currency out) (i_Currency b))
      else case merge_lines L (i_Lines b) (index, lines) of
        (index', lines') \<Rightarrow> combine_loop L bs (add_building b out, index', lines', add_flags (i_Flags b) flags))"

definition line_rank :: "line \<Rightarrow> nat" where
  "line_rank l =
     (if l_Code l = BillLineVat then 1 else if l_Code l = BillLineGenerationCredit then 2 else 0)"

definition finish_company :: "declib \<Rightarrow> invoice \<Rightarrow> line list \<Rightarrow> flag list \<Rightarrow> invoice" where
  "finish_company L out lines flags =
     out\<lparr>i_Lines := sort_key line_rank lines,
        i_Days := quot (Sub (To (i_Period out)) (From (i_Period out)) + 12 * hour) (24 * hour),
        i_EffectiveEnergyPrice :=
          (if 0 < i_NetConsumption out
           then Some (DivRound L (i_EnergyCost out) (i_NetConsumption out) DivisionScale)
           else i_EffectiveEnergyPrice out),
        i_Flags := sortedFlags flags\<rparr>"

definition CombineCompany :: "declib \<Rightarrow> string \<Rightarrow> invoice list \<Rightarrow> invalid_input + invoice" where
  "CombineCompany L periodKey buildings =
     (case buildings of
        [] \<Rightarrow> Inl NoBuildings
      | first # _ \<Rightarrow>
          (case combine_loop L buildings
                 (zero_invoice\<lparr>i_PeriodKey := periodKey, i_Period := i_Period first,
                    i_Currency := i_Currency first, i_DemandDataAvailable := True,
                    i_GenerationUsage := i_GenerationUsage first\<rparr>, Map.empty, [], []) of
             Inl e \<Rightarrow> Inl e
           | Inr (out, lines, flags) \<Rightarrow> Inr (finish_company L out lines flags)))"

section \<open>What the sums are\<close>

lemma sum_members_eq:
  "sum_members get ms acc =
     (if \<exists>m \<in> set ms. get m = None then None else Some (acc + sum_list (map (\<lambda>m. the (get m)) ms)))"
proof (induction ms arbitrary: acc)
  case (Cons m ms)
  show ?case by (cases "get m") (auto simp: Cons.IH)
qed simp

lemma sum_members_single: "sum_members get [m] 0 = get m"
  by (cases "get m") simp_all

lemma sumIndexes_single [simp]: "sumIndexes get [m] = get m"
proof
  fix k
  show "sumIndexes get [m] k = get m k"
    by (cases "get m k") (simp_all add: sumIndexes_def index_value_def sum_members_single del: sum_members.simps)
qed

lemma export_loop_eq:
  "export_loop ms (kn, reported, partial) =
     (kn + sum_list (map q_ActiveExportKnownSum ms),
      reported + length (filter (\<lambda>m. q_ActiveExport m \<noteq> None) ms),
      partial \<or> (\<exists>m \<in> set ms. q_ActiveExportPartial m))"
proof (induction ms arbitrary: kn reported partial)
  case (Cons m ms)
  show ?case by (simp only: export_loop.simps Cons.IH) auto
qed simp

lemma AggregateQuantities_single: "AggregateQuantities [m] = m"
  by (cases m) (simp add: AggregateQuantities_def sum_members_single del: sum_members.simps)

lemma some_filter: "0 < length (filter P xs) \<longleftrightarrow> (\<exists>x \<in> set xs. P x)"
  by (induction xs) auto

lemma all_filter: "length (filter P xs) < length xs \<longleftrightarrow> (\<exists>x \<in> set xs. \<not> P x)"
  by (metis filter_True length_filter_less less_irrefl)

section \<open>Properties: quantities\<close>

text \<open>Aggregating members (R116): every register is nil as soon as one member lacks it and the sum of the members' otherwise,
  a single member is unchanged, the known export is the sum of what was reported, and the export is partial
  exactly when a member says so or some but not all members report it.\<close>

theorem AggregateQuantities_correct:
  fixes ms
  defines "a \<equiv> AggregateQuantities ms"
  shows "(ms \<noteq> [] \<longrightarrow> g \<in> {q_ActiveImport, q_T1, q_T2, q_T3, q_ReactiveInductive, q_ReactiveCapacitive, q_ActiveExport} \<longrightarrow>
      g a = (if \<exists>m \<in> set ms. g m = None then None else Some (sum_list (map (\<lambda>m. the (g m)) ms)))) \<and>
    (ms = [m] \<longrightarrow> a = m) \<and>
    (q_ActiveExportKnownSum a = sum_list (map q_ActiveExportKnownSum ms)) \<and>
    (q_ActiveExportPartial a \<longleftrightarrow> (\<exists>m \<in> set ms. q_ActiveExportPartial m) \<or>
      (\<exists>m \<in> set ms. q_ActiveExport m \<noteq> None) \<and> (\<exists>m \<in> set ms. q_ActiveExport m = None))"
proof -
  have part1: "ms \<noteq> [] \<Longrightarrow> g \<in> {q_ActiveImport, q_T1, q_T2, q_T3, q_ReactiveInductive, q_ReactiveCapacitive, q_ActiveExport} \<Longrightarrow>
      g a = (if \<exists>m \<in> set ms. g m = None then None else Some (sum_list (map (\<lambda>m. the (g m)) ms)))"
    and part2: "ms = [m] \<Longrightarrow> a = m"
    and part3: "q_ActiveExportKnownSum a = sum_list (map q_ActiveExportKnownSum ms)"
    and part4: "q_ActiveExportPartial a \<longleftrightarrow> (\<exists>m \<in> set ms. q_ActiveExportPartial m) \<or>
      (\<exists>m \<in> set ms. q_ActiveExport m \<noteq> None) \<and> (\<exists>m \<in> set ms. q_ActiveExport m = None)"
  proof -
    show "ms = [m] \<Longrightarrow> a = m" by (simp add: a_def AggregateQuantities_single)
    have x: "ms \<noteq> [] \<Longrightarrow> q_ActiveExportPartial a \<longleftrightarrow> (\<exists>m \<in> set ms. q_ActiveExportPartial m) \<or>
        0 < length (filter (\<lambda>m. q_ActiveExport m \<noteq> None) ms) \<and>
        length (filter (\<lambda>m. q_ActiveExport m \<noteq> None) ms) < length ms"
      unfolding a_def AggregateQuantities_def export_loop_eq by simp
    show "q_ActiveExportPartial a \<longleftrightarrow> (\<exists>m \<in> set ms. q_ActiveExportPartial m) \<or>
        (\<exists>m \<in> set ms. q_ActiveExport m \<noteq> None) \<and> (\<exists>m \<in> set ms. q_ActiveExport m = None)"
      using x unfolding some_filter all_filter
      by (cases "ms = []") (auto simp: a_def AggregateQuantities_def zero_quantities_def)
    show "q_ActiveExportKnownSum a = sum_list (map q_ActiveExportKnownSum ms)"
      by (simp add: a_def AggregateQuantities_def export_loop_eq zero_quantities_def)
    show "g a = (if \<exists>m \<in> set ms. g m = None then None else Some (sum_list (map (\<lambda>m. the (g m)) ms)))"
      if "ms \<noteq> []" "g \<in> {q_ActiveImport, q_T1, q_T2, q_T3, q_ReactiveInductive, q_ReactiveCapacitive, q_ActiveExport}"
      using that unfolding a_def AggregateQuantities_def export_loop_eq
      by (elim insertE emptyE) (simp_all add: sum_members_eq)
  qed
  show ?thesis using part1 part2 part3 part4 by blast
qed

theorem AggregateQuantities_correct_witness:
  "q_ActiveImport (AggregateQuantities [sample_quantities, sample_quantities]) = Some 600 \<and>
   q_T1 (AggregateQuantities [sample_quantities, sample_quantities]) = None"
  using AggregateQuantities_correct [of "[sample_quantities, sample_quantities]" q_ActiveImport]
    AggregateQuantities_correct [of "[sample_quantities, sample_quantities]" q_T1]
  by (simp add: sample_quantities_def)

section \<open>What the merged lines are\<close>

definition amounts :: "line list \<Rightarrow> dec" where
  "amounts ls = sum_list (map l_Amount ls)"

lemma merge_line_simps [simp]:
  "l_Amount (merge_line m l) = l_Amount m + l_Amount l" "line_key L (merge_line m l) = line_key L m"
  "l_Code (merge_line m l) = l_Code m"
  by (simp_all add: merge_line_def line_key_def)

lemma amounts_update: "i < length ls \<Longrightarrow> amounts (ls[i := x]) = amounts ls - l_Amount (ls ! i) + l_Amount x"
  by (induction ls arbitrary: i) (auto simp: amounts_def split: nat.split)

text \<open>The index is right: it gives each key of the merged lines its one position.\<close>

definition indexed :: "declib \<Rightarrow> (string \<times> string \<rightharpoonup> nat) \<Rightarrow> line list \<Rightarrow> bool" where
  "indexed L index ls \<longleftrightarrow>
     (\<forall>i < length ls. index (line_key L (ls ! i)) = Some i) \<and>
     (\<forall>k i. index k = Some i \<longrightarrow> i < length ls \<and> line_key L (ls ! i) = k)"

lemma indexed_distinct: "indexed L index ls \<Longrightarrow> distinct (map (line_key L) ls)"
  by (auto simp: indexed_def distinct_conv_nth) (metis option.inject)

lemma merge_lines_spec:
  assumes "merge_lines L new (index, ls) = (index', ls')" and "indexed L index ls"
  shows "indexed L index' ls' \<and> amounts ls' = amounts ls + amounts new \<and>
    set (map (line_key L) ls') = set (map (line_key L) ls) \<union> set (map (line_key L) new)"
  using assms
proof (induction new arbitrary: index ls)
  case Nil
  then show ?case by (simp add: amounts_def)
next
  case (Cons l new)
  show ?case
  proof (cases "index (line_key L l)")
    case None
    have fresh: "line_key L l \<notin> set (map (line_key L) ls)"
      using Cons.prems(2) None by (auto simp: indexed_def in_set_conv_nth)
    have ix: "indexed L (index(line_key L l \<mapsto> length ls)) (ls @ [l])"
      using Cons.prems(2) None fresh by (fastforce simp: indexed_def nth_append less_Suc_eq in_set_conv_nth)
    have "merge_lines L new (index(line_key L l \<mapsto> length ls), ls @ [l]) = (index', ls')"
      using Cons.prems(1) None by (simp add: cloneLine_def)
    from Cons.IH [OF this ix] show ?thesis by (simp add: amounts_def)
  next
    case (Some i)
    let ?ls = "ls[i := merge_line (ls ! i) l]"
    have i: "i < length ls" "line_key L (ls ! i) = line_key L l"
      using Cons.prems(2) Some unfolding indexed_def by blast+
    have nth: "line_key L (?ls ! j) = line_key L (ls ! j)" for j
      using i by (cases "j = i") simp_all
    have keys: "map (line_key L) ?ls = map (line_key L) ls"
      by (rule nth_equalityI) (simp_all add: nth)
    have "indexed L index ?ls"
      using Cons.prems(2) unfolding indexed_def by (simp only: nth length_list_update)
    moreover have "merge_lines L new (index, ?ls) = (index', ls')" using Cons.prems(1) Some by simp
    ultimately have "indexed L index' ls' \<and> amounts ls' = amounts ?ls + amounts new \<and>
        set (map (line_key L) ls') = set (map (line_key L) ls) \<union> set (map (line_key L) new)"
      using Cons.IH [of index ?ls] unfolding keys by blast
    moreover have "amounts ?ls = amounts ls + l_Amount l" using amounts_update [OF i(1)] by simp
    moreover have "line_key L l \<in> set (map (line_key L) ls)"
      unfolding i(2) [symmetric] set_map by (intro imageI nth_mem i(1))
    ultimately show ?thesis by (auto simp: amounts_def)
  qed
qed

definition invoice_sums :: "(invoice \<Rightarrow> dec) set" where
  "invoice_sums =
     {i_ActiveImport, i_T1, i_T2, i_T3, i_Inductive, i_Capacitive, i_ActiveExport, i_NetConsumption, i_LowTierKwh,
      i_HighTierKwh, i_EnergyCost, i_DistributionCost, i_GreenEnergyCost, i_PowerCost, i_DemandOverrunCost,
      i_ReactivePenalty, i_ExtraChargesCost, i_OtherTaxesCost, i_VatBase, i_VatCost, i_GenerationCredit, i_TotalCost}"

lemma add_building_sums: "f \<in> invoice_sums \<Longrightarrow> f (add_building b out) = f out + f b"
  by (auto simp: invoice_sums_def add_building_def)

lemma finish_company_sums: "f \<in> invoice_sums \<Longrightarrow> f (finish_company L out lines flags) = f out"
  by (auto simp: invoice_sums_def finish_company_def)

lemma add_flags_set [simp]: "set (add_flags fs flags) = set fs \<union> set flags"
  by (induction fs flags rule: add_flags.induct) auto

lemma add_flags_distinct [simp]: "distinct flags \<Longrightarrow> distinct (add_flags fs flags)"
  by (induction fs flags rule: add_flags.induct) auto

lemma combine_loop_spec:
  assumes "combine_loop L bs (out, index, ls, flags) = Inr (out', ls', flags')" and "indexed L index ls"
  shows "(\<forall>b \<in> set bs. i_Currency b = i_Currency out) \<and> i_Currency out' = i_Currency out \<and>
    (\<forall>f \<in> invoice_sums. f out' = f out + sum_list (map f bs)) \<and>
    amounts ls' = amounts ls + sum_list (map lines_total bs) \<and> distinct (map (line_key L) ls') \<and>
    set (map (line_key L) ls') = set (map (line_key L) ls) \<union> (\<Union>b \<in> set bs. set (map (line_key L) (i_Lines b))) \<and>
    set flags' = set flags \<union> (\<Union>b \<in> set bs. set (i_Flags b)) \<and> (distinct flags \<longrightarrow> distinct flags')"
  using assms
proof (induction bs arbitrary: out index ls flags)
  case Nil
  then show ?case using indexed_distinct by auto
next
  case (Cons b bs)
  obtain index1 ls1 where m: "merge_lines L (i_Lines b) (index, ls) = (index1, ls1)" by fastforce
  note m' = merge_lines_spec [OF m Cons.prems(2)]
  have cur: "i_Currency b = i_Currency out" using Cons.prems(1) by (simp split: if_splits)
  have rest: "combine_loop L bs (add_building b out, index1, ls1, add_flags (i_Flags b) flags) = Inr (out', ls', flags')"
    using Cons.prems(1) cur m by simp
  have "i_Currency (add_building b out) = i_Currency out" by (simp add: add_building_def)
  with Cons.IH [OF rest conjunct1 [OF m']] m' cur show ?case
    by (auto simp: add_building_sums amounts_def lines_total_def)
qed

section \<open>What the hours are\<close>

definition hour_count :: "hour_consumption list \<Rightarrow> time \<Rightarrow> nat" where
  "hour_count hs h = length (filter (\<lambda>x. hc_Hour x = h) hs)"

definition hour_total :: "hour_consumption list \<Rightarrow> time \<Rightarrow> dec" where
  "hour_total hs h = sum_list (map hc_Kwh (filter (\<lambda>x. hc_Hour x = h) hs))"

lemma hour_count_pos: "0 < hour_count hs h \<longleftrightarrow> h \<in> hc_Hour ` set hs"
  unfolding hour_count_def some_filter by auto

text \<open>What the accumulators hold after some hours: the state the loop keeps.\<close>

definition stored :: "hour_consumption list \<Rightarrow> (time \<rightharpoonup> hour_acc) \<Rightarrow> time list \<Rightarrow> bool" where
  "stored hs byHour ks \<longleftrightarrow>
     distinct ks \<and> set ks = hc_Hour ` set hs \<and>
     (\<forall>h. byHour h = (if h \<in> hc_Hour ` set hs
        then Some \<lparr>acc_at = h, acc_total = hour_total hs h, acc_count = hour_count hs h\<rparr> else None))"

lemma store_hours_spec:
  assumes "stored hs0 byHour ks"
  shows "\<exists>byHour' ks'. store_hours hs (byHour, ks) = (byHour', ks') \<and> stored (hs0 @ hs) byHour' ks'"
  using assms
proof (induction hs arbitrary: hs0 byHour ks)
  case Nil
  then show ?case by simp
next
  case (Cons h hs)
  let ?k = "hc_Hour h"
  show ?case
  proof (cases "?k \<in> hc_Hour ` set hs0")
    case False
    then have none: "byHour ?k = None" using Cons.prems by (simp add: stored_def)
    have "filter (\<lambda>x. hc_Hour x = ?k) hs0 = []" using False by (auto simp: filter_empty_conv image_iff)
    then have zero: "hour_count hs0 ?k = 0" "hour_total hs0 ?k = 0"
      by (simp_all add: hour_count_def hour_total_def)
    have "stored (hs0 @ [h]) (byHour(?k \<mapsto> \<lparr>acc_at = ?k, acc_total = 0 + hc_Kwh h, acc_count = 1\<rparr>)) (ks @ [?k])"
      using Cons.prems False zero by (auto simp: stored_def hour_count_def hour_total_def)
    from Cons.IH [OF this] show ?thesis using none by (simp del: fun_upd_apply)
  next
    case True
    then have a: "byHour ?k = Some \<lparr>acc_at = ?k, acc_total = hour_total hs0 ?k, acc_count = hour_count hs0 ?k\<rparr>"
      using Cons.prems by (simp add: stored_def)
    have "stored (hs0 @ [h]) (byHour(?k \<mapsto> \<lparr>acc_at = ?k, acc_total = hour_total hs0 ?k + hc_Kwh h,
        acc_count = hour_count hs0 ?k + 1\<rparr>)) ks"
      using Cons.prems True by (auto simp: stored_def hour_count_def hour_total_def)
    from Cons.IH [OF this] show ?thesis using a by (simp del: fun_upd_apply)
  qed
qed

lemma split_hours_eq:
  "split_hours n accs (whole, missing) =
     (whole @ map (\<lambda>a. \<lparr>hc_Hour = acc_at a, hc_Kwh = acc_total a\<rparr>) (filter (\<lambda>a. acc_count a = n) accs),
      missing @ map acc_at (filter (\<lambda>a. acc_count a \<noteq> n) accs))"
  by (induction n accs "(whole, missing)" arbitrary: whole missing rule: split_hours.induct) auto

lemma sort_key_distinct_set:
  assumes "inj_on f (set xs)" and "set xs = set ys" and "distinct xs" and "distinct ys" and "sorted (map f ys)"
  shows "sort_key f xs = ys"
proof -
  have "sorted (map f (sort_key f xs))" "distinct (sort_key f xs)" "set (sort_key f xs) = set ys"
    using assms by simp_all
  with assms show ?thesis by (intro map_sorted_distinct_set_unique [where f = f]) (auto simp: distinct_map inj_on_def)
qed

lemma AggregateHours_eq:
  fixes visit members
  assumes "\<And>ks. distinct ks \<Longrightarrow> distinct (visit ks) \<and> set (visit ks) = set ks"
  defines "hs \<equiv> concat members" and "n \<equiv> length members"
  defines "all \<equiv> hc_Hour ` set hs"
  shows "AggregateHours visit members =
    (map (\<lambda>h. \<lparr>hc_Hour = h, hc_Kwh = hour_total hs h\<rparr>) (sorted_list_of_set {h \<in> all. hour_count hs h = n}),
     sorted_list_of_set {h \<in> all. hour_count hs h \<noteq> n})"
proof -
  obtain byHour ks where st: "store_hours hs (Map.empty, []) = (byHour, ks)" and s: "stored hs byHour ks"
    using store_hours_spec [of "[]" Map.empty "[]" hs] by (auto simp: stored_def)
  define vs where "vs = visit ks"
  have vs: "distinct vs" "set vs = all" using s assms(1) by (simp_all add: stored_def vs_def all_def)
  have accs: "map (\<lambda>k. the (byHour k)) vs =
      map (\<lambda>h. \<lparr>acc_at = h, acc_total = hour_total hs h, acc_count = hour_count hs h\<rparr>) vs"
    using s vs(2) by (simp add: stored_def all_def)
  let ?f = "\<lambda>h. \<lparr>hc_Hour = h, hc_Kwh = hour_total hs h\<rparr>"
  have sp: "split_hours n (map (\<lambda>k. the (byHour k)) vs) ([], []) =
      (map ?f (filter (\<lambda>h. hour_count hs h = n) vs), filter (\<lambda>h. hour_count hs h \<noteq> n) vs)"
    unfolding accs split_hours_eq by (simp add: filter_map comp_def)
  have "sort_key hc_Hour (map ?f (filter (\<lambda>h. hour_count hs h = n) vs)) =
      map ?f (sorted_list_of_set {h \<in> all. hour_count hs h = n})"
    by (rule sort_key_distinct_set)
      (use vs in \<open>auto simp: inj_on_def distinct_map comp_def all_def image_iff\<close>)
  moreover have "sort (filter (\<lambda>h. hour_count hs h \<noteq> n) vs) = sorted_list_of_set {h \<in> all. hour_count hs h \<noteq> n}"
    by (rule sort_key_distinct_set) (use vs in \<open>auto simp: all_def\<close>)
  ultimately show ?thesis
    unfolding AggregateHours_def hs_def [symmetric] n_def [symmetric] st prod.case vs_def [symmetric] sp by simp
qed

text \<open>When no series repeats an hour, the count of an hour is the number of series that have it.\<close>

lemma hour_count_members:
  assumes "\<forall>s \<in> set members. distinct (map hc_Hour s)"
  shows "hour_count (concat members) h = length (filter (\<lambda>s. h \<in> hc_Hour ` set s) members)"
  using assms
proof (induction members)
  case (Cons s members)
  have "hour_count s h = (if h \<in> hc_Hour ` set s then 1 else 0)"
  proof (cases "h \<in> hc_Hour ` set s")
    case True
    then obtain x where x: "x \<in> set s" "hc_Hour x = h" by auto
    have "inj_on hc_Hour (set s)" "distinct s" using Cons.prems by (auto simp: distinct_map)
    then have "set (filter (\<lambda>x. hc_Hour x = h) s) = {x}" using x by (auto simp: inj_on_def)
    then have "length (filter (\<lambda>x. hc_Hour x = h) s) = 1"
      using distinct_card [of "filter (\<lambda>x. hc_Hour x = h) s"] \<open>distinct s\<close> by simp
    then show ?thesis using True by (simp add: hour_count_def)
  next
    case False
    then show ?thesis using hour_count_pos [of s h] by simp
  qed
  moreover have "hour_count (concat (s # members)) h = hour_count s h + hour_count (concat members) h"
    by (simp add: hour_count_def)
  ultimately show ?case using Cons by simp
qed (simp add: hour_count_def)

section \<open>Properties: hours and the company invoice\<close>

text \<open>Hours of several series: with no hour repeated inside a series, the result is independent of the iteration order of the
  map; its first part has, in ascending order, exactly the hours every series has, each with the sum of the
  consumptions, and its second part, ascending, the hours some but not all series have.\<close>

theorem AggregateHours_correct:
  assumes "\<And>ks. distinct ks \<Longrightarrow> distinct (visit ks) \<and> set (visit ks) = set ks"
    and "\<forall>s \<in> set members. distinct (map hc_Hour s)"
  shows "AggregateHours visit members =
    (map (\<lambda>h. \<lparr>hc_Hour = h, hc_Kwh = hour_total (concat members) h\<rparr>)
       (sorted_list_of_set {h \<in> hc_Hour ` set (concat members). \<forall>s \<in> set members. h \<in> hc_Hour ` set s}),
     sorted_list_of_set {h \<in> hc_Hour ` set (concat members). \<exists>s \<in> set members. h \<notin> hc_Hour ` set s})"
proof -
  have c: "hour_count (concat members) h = length members \<longleftrightarrow> (\<forall>s \<in> set members. h \<in> hc_Hour ` set s)" for h
    unfolding hour_count_members [OF assms(2)]
    using all_filter [of "\<lambda>s. h \<in> hc_Hour ` set s" members] length_filter_le [of "\<lambda>s. h \<in> hc_Hour ` set s" members]
    by (metis (no_types, lifting) nat_less_le)
  have "AggregateHours visit members =
      (map (\<lambda>h. \<lparr>hc_Hour = h, hc_Kwh = hour_total (concat members) h\<rparr>)
         (sorted_list_of_set {h \<in> hc_Hour ` set (concat members). hour_count (concat members) h = length members}),
       sorted_list_of_set {h \<in> hc_Hour ` set (concat members). hour_count (concat members) h \<noteq> length members})"
    by (rule AggregateHours_eq) (rule assms(1))
  then show ?thesis unfolding c by simp
qed

theorem AggregateHours_correct_witness:
  "AggregateHours rev [[\<lparr>hc_Hour = 2, hc_Kwh = 5\<rparr>, \<lparr>hc_Hour = 1, hc_Kwh = 3\<rparr>], [\<lparr>hc_Hour = 1, hc_Kwh = 4\<rparr>]] =
     ([\<lparr>hc_Hour = 1, hc_Kwh = 7\<rparr>], [2])"
proof -
  let ?ms = "[[\<lparr>hc_Hour = 2, hc_Kwh = 5\<rparr>, \<lparr>hc_Hour = 1, hc_Kwh = 3\<rparr>], [\<lparr>hc_Hour = 1, hc_Kwh = 4\<rparr>]]"
  have "{h \<in> hc_Hour ` set (concat ?ms). \<forall>s \<in> set ?ms. h \<in> hc_Hour ` set s} = {1}"
    "{h \<in> hc_Hour ` set (concat ?ms). \<exists>s \<in> set ?ms. h \<notin> hc_Hour ` set s} = {2}" by auto
  then show ?thesis using AggregateHours_correct [of rev ?ms] by (simp add: hour_total_def)
qed

text \<open>C31. The company invoice (R115): every quantity and charge is the sum of the buildings', all in one currency; the merged
  lines have one line per code and rate, for exactly the codes and rates of the buildings, their amounts add up to those of all
  building lines, and VAT and then the generation credit come last; the flags are those of any building.\<close>

theorem CombineCompany_correct:
  assumes "CombineCompany L key buildings = Inr out"
  shows "(\<forall>f \<in> invoice_sums. f out = sum_list (map f buildings)) \<and>
    (\<forall>b \<in> set buildings. i_Currency b = i_Currency out) \<and>
    (lines_total out = sum_list (map lines_total buildings)) \<and>
    distinct (map (line_key L) (i_Lines out)) \<and>
    (set (map (line_key L) (i_Lines out)) = (\<Union>b \<in> set buildings. set (map (line_key L) (i_Lines b)))) \<and>
    sorted (map line_rank (i_Lines out)) \<and>
    (sorted (i_Flags out) \<and> distinct (i_Flags out) \<and> set (i_Flags out) = (\<Union>b \<in> set buildings. set (i_Flags b)))"
proof -
  have part1: "\<forall>f \<in> invoice_sums. f out = sum_list (map f buildings)"
    and part2: "\<forall>b \<in> set buildings. i_Currency b = i_Currency out"
    and part3: "lines_total out = sum_list (map lines_total buildings)"
    and part4: "distinct (map (line_key L) (i_Lines out))"
    and part5: "set (map (line_key L) (i_Lines out)) = (\<Union>b \<in> set buildings. set (map (line_key L) (i_Lines b)))"
    and part6: "sorted (map line_rank (i_Lines out))"
    and part7: "sorted (i_Flags out) \<and> distinct (i_Flags out) \<and> set (i_Flags out) = (\<Union>b \<in> set buildings. set (i_Flags b))"
  proof -
    obtain first rest where bs: "buildings = first # rest"
      using assms by (cases buildings) (simp_all add: CombineCompany_def)
    define out0 where "out0 = zero_invoice\<lparr>i_PeriodKey := key, i_Period := i_Period first,
        i_Currency := i_Currency first, i_DemandDataAvailable := True, i_GenerationUsage := i_GenerationUsage first\<rparr>"
    obtain out1 ls flags where c: "combine_loop L buildings (out0, Map.empty, [], []) = Inr (out1, ls, flags)"
      and out: "out = finish_company L out1 ls flags"
      using assms unfolding CombineCompany_def by (auto simp: bs out0_def split: sum.splits)
    have ix: "indexed L Map.empty []" by (simp add: indexed_def)
    note s = combine_loop_spec [OF c ix]
    have z: "f out0 = 0" if "f \<in> invoice_sums" for f
      using that by (auto simp: invoice_sums_def out0_def zero_invoice_def)
    have lines: "i_Lines out = sort_key line_rank ls" by (simp add: out finish_company_def)
    have perm: "mset (sort_key line_rank ls) = mset ls" by simp
    show "\<forall>f \<in> invoice_sums. f out = sum_list (map f buildings)"
    proof
      fix f assume f: "f \<in> invoice_sums"
      then have "f out1 = f out0 + sum_list (map f buildings)" using s by blast
      then show "f out = sum_list (map f buildings)" by (simp add: out finish_company_sums f z)
    qed
    show "\<forall>b \<in> set buildings. i_Currency b = i_Currency out"
      using s by (simp add: out finish_company_def)
    have "lines_total out = amounts ls"
      unfolding lines_total_def amounts_def lines sum_mset_sum_list [symmetric] mset_map perm ..
    then show "lines_total out = sum_list (map lines_total buildings)" using s by (simp add: amounts_def)
    have "mset (map (line_key L) (i_Lines out)) = mset (map (line_key L) ls)" unfolding lines by simp
    then have "distinct (map (line_key L) (i_Lines out)) = distinct (map (line_key L) ls)"
      by (rule mset_eq_imp_distinct_iff)
    then show "distinct (map (line_key L) (i_Lines out))" using s by (simp only:)
    show "set (map (line_key L) (i_Lines out)) = (\<Union>b \<in> set buildings. set (map (line_key L) (i_Lines b)))"
      using s unfolding lines by simp
    show "sorted (map line_rank (i_Lines out))" by (simp add: lines)
    show "sorted (i_Flags out) \<and> distinct (i_Flags out) \<and> set (i_Flags out) = (\<Union>b \<in> set buildings. set (i_Flags b))"
      using s by (simp add: out finish_company_def)
  qed
  show ?thesis by (rule conjI [OF part1 conjI [OF part2 conjI [OF part3 conjI [OF part4 conjI [OF part5 conjI [OF part6 part7]]]]]])
qed

theorem CombineCompany_correct_witness:
  "\<exists>out. CombineCompany std_declib ''2026-01'' [zero_invoice\<lparr>i_TotalCost := 3\<rparr>, zero_invoice\<lparr>i_TotalCost := 4\<rparr>] = Inr out \<and>
     i_TotalCost out = 7"
proof -
  let ?bs = "[zero_invoice\<lparr>i_TotalCost := 3\<rparr>, zero_invoice\<lparr>i_TotalCost := 4\<rparr>]"
  have "\<exists>out. CombineCompany std_declib ''2026-01'' ?bs = Inr out"
    by (simp add: CombineCompany_def zero_invoice_def add_building_def)
  then obtain out where out: "CombineCompany std_declib ''2026-01'' ?bs = Inr out" ..
  have "i_TotalCost \<in> invoice_sums" by (simp add: invoice_sums_def)
  with CombineCompany_correct [OF out] have "i_TotalCost out = sum_list (map i_TotalCost ?bs)" by blast
  with out show ?thesis by (simp add: zero_invoice_def)
qed

text \<open>An hour one series repeats counts twice, so it can pass as present in a series that lacks it.\<close>

lemma AggregateHours_repeated:
  "AggregateHours id [[\<lparr>hc_Hour = 1, hc_Kwh = 3\<rparr>, \<lparr>hc_Hour = 1, hc_Kwh = 3\<rparr>], []] = ([\<lparr>hc_Hour = 1, hc_Kwh = 6\<rparr>], [])"
  by (simp add: AggregateHours_def)

end
