(* ===== verification/Go_Text.thy ===== *)
theory Go_Text
  imports Go_Time "HOL-Library.Char_ord" "HOL-Library.List_Lexorder"
begin

text \<open>
  What the program uses of Go's packages \<open>strconv\<close>, \<open>strings\<close> and \<open>fmt\<close>, on strings as
  lists of bytes: decimal printing with padding, \<open>Atoi\<close>, \<open>Split\<close> and \<open>Join\<close>, and the calendar
  operations of \<open>time\<close> that print or shift a date (\<open>AddDate\<close>, \<open>Weekday\<close> as \<open>weekday_of\<close>, \<open>Format\<close>).
\<close>

section \<open>Decimal numbers\<close>

definition digit :: "nat \<Rightarrow> char" where "digit n = char_of (48 + n)"

fun nat_digits :: "nat \<Rightarrow> string" where
  "nat_digits n = (if n < 10 then [digit n] else nat_digits (n div 10) @ [digit (n mod 10)])"

declare nat_digits.simps [simp del]

definition zero_pad :: "nat \<Rightarrow> string \<Rightarrow> string" where
  "zero_pad k s = replicate (k - length s) CHR ''0'' @ s"

text \<open>\<open>Sprintf("%0kd", i)\<close>: the sign counts in the width. \<open>itoa\<close> is \<open>"%d"\<close>.\<close>

definition fmt_int :: "nat \<Rightarrow> int \<Rightarrow> string" where
  "fmt_int k i = (if i < 0 then CHR ''-'' # zero_pad (k - 1) (nat_digits (nat (- i)))
                  else zero_pad k (nat_digits (nat i)))"

definition itoa :: "int \<Rightarrow> string" where "itoa i = fmt_int 0 i"

definition is_digit :: "char \<Rightarrow> bool" where
  "is_digit c \<longleftrightarrow> 48 \<le> (of_char c :: nat) \<and> (of_char c :: nat) \<le> 57"

definition digit_val :: "char \<Rightarrow> int" where
  "digit_val c = int (of_char c) - 48"

definition digits_val :: "string \<Rightarrow> int" where
  "digits_val s = fold (\<lambda>c n. n * 10 + digit_val c) s 0"

text \<open>\<open>strconv.Atoi\<close>: an optional sign and at least one digit, in the range of a 64-bit integer.\<close>

definition atoi :: "string \<Rightarrow> int option" where
  "atoi s =
     (let (neg, ds) = (case s of c # cs \<Rightarrow> if c = CHR ''-'' then (True, cs) else if c = CHR ''+'' then (False, cs) else (False, s)
                       | [] \<Rightarrow> (False, []));
          v = (if neg then - digits_val ds else digits_val ds)
      in if ds = [] \<or> \<not> list_all is_digit ds \<or> v < - (2 ^ 63) \<or> 2 ^ 63 \<le> v then None else Some v)"

lemma digit_simps [simp]: "n < 10 \<Longrightarrow> is_digit (digit n)" "n < 10 \<Longrightarrow> digit_val (digit n) = int n"
  by (simp_all add: is_digit_def digit_val_def digit_def of_char_of take_bit_eq_mod)

lemma digit_0: "digit 0 = CHR ''0''"
  by (simp add: digit_def char_of_def bit_0)

lemma digits_val_snoc: "digits_val (s @ [c]) = digits_val s * 10 + digit_val c"
  by (simp add: digits_val_def)

lemma digits_val_Nil [simp]: "digits_val [] = 0"
  by (simp add: digits_val_def)

lemma digit_val_0 [simp]: "digit_val CHR ''0'' = 0" "is_digit CHR ''0''"
  by (simp_all add: digit_val_def is_digit_def)

lemma digits_val_pad [simp]: "digits_val (zero_pad k s) = digits_val s"
proof -
  have "digits_val (replicate n CHR ''0'' @ s) = digits_val s" for n
    by (induction n) (simp_all add: digits_val_def)
  then show ?thesis by (simp add: zero_pad_def)
qed

lemma nat_digits_val [simp]: "digits_val (nat_digits n) = int n"
proof (induction n rule: nat_digits.induct)
  case (1 n)
  show ?case
  proof (cases "n < 10")
    case True
    then show ?thesis by (simp add: nat_digits.simps [of n] digits_val_def)
  next
    case False
    then have "digits_val (nat_digits n) = digits_val (nat_digits (n div 10)) * 10 + int (n mod 10)"
      by (simp add: nat_digits.simps [of n] digits_val_snoc)
    with 1 [OF False] show ?thesis by (simp add: zdiv_int zmod_int)
  qed
qed

lemma nat_digits_digits [simp]: "list_all is_digit (nat_digits n)"
  by (induction n rule: nat_digits.induct) (subst nat_digits.simps, simp)

lemma nat_digits_nonempty [simp]: "nat_digits n \<noteq> []"
  by (subst nat_digits.simps) simp

lemma zero_pad_digits [simp]: "list_all is_digit (zero_pad k s) = list_all is_digit s"
  by (auto simp: zero_pad_def list_all_iff in_set_replicate)

lemma length_nat_digits: "0 < k \<Longrightarrow> n < 10 ^ k \<Longrightarrow> length (nat_digits n) \<le> k"
proof (induction n arbitrary: k rule: nat_digits.induct)
  case (1 n)
  show ?case
  proof (cases "n < 10")
    case True
    then show ?thesis using "1.prems" by (simp add: nat_digits.simps [of n])
  next
    case False
    with "1.prems" have k: "k = Suc (k - 1)" "0 < k - 1"
      by (cases k; cases "k - 1"; simp)+
    have "n < 10 * 10 ^ (k - 1)" using "1.prems"(2) k by (metis power_Suc)
    then have "n div 10 < 10 ^ (k - 1)" by (simp add: less_mult_imp_div_less mult.commute)
    from "1.IH" [OF False k(2) this] False k show ?thesis by (simp add: nat_digits.simps [of n])
  qed
qed

lemma length_zero_pad: "0 < k \<Longrightarrow> n < 10 ^ k \<Longrightarrow> length (zero_pad k (nat_digits n)) = k"
  using length_nat_digits [of k n] by (simp add: zero_pad_def)

text \<open>Printing and reading back a number.\<close>

lemma digit_not_sign: "is_digit c \<Longrightarrow> c \<noteq> CHR ''-'' \<and> c \<noteq> CHR ''+''"
  by (auto simp: is_digit_def)

lemma atoi_fmt_int:
  assumes "- (2 ^ 63) \<le> i" and "i < 2 ^ 63"
  shows "atoi (fmt_int k i) = Some i"
proof (cases "i < 0")
  case True
  then show ?thesis using assms by (simp add: atoi_def fmt_int_def) (simp add: zero_pad_def)
next
  case False
  define ds where "ds = zero_pad k (nat_digits (nat i))"
  have all: "list_all is_digit ds" "digits_val ds = i" using False by (simp_all add: ds_def)
  obtain c cs where ds: "ds = c # cs" by (cases ds) (simp_all add: ds_def zero_pad_def)
  then have "c \<noteq> CHR ''-''" "c \<noteq> CHR ''+''" using all(1) digit_not_sign [of c] by auto
  then show ?thesis
    using assms all unfolding fmt_int_def if_not_P [OF False] ds_def [symmetric] ds atoi_def by simp
qed

section \<open>Splitting and joining\<close>

text \<open>\<open>strings.Split(s, "-")\<close> for a separator of one byte, and \<open>strings.Join\<close>.\<close>

fun split_on :: "char \<Rightarrow> string \<Rightarrow> string list" where
  "split_on sep [] = [[]]"
| "split_on sep (c # s) =
     (if c = sep then [] # split_on sep s
      else (case split_on sep s of [] \<Rightarrow> [[c]] | p # ps \<Rightarrow> (c # p) # ps))"

fun str_join :: "string \<Rightarrow> string list \<Rightarrow> string" where
  "str_join sep [] = []"
| "str_join sep [s] = s"
| "str_join sep (s # t # ss) = s @ sep @ str_join sep (t # ss)"

lemma split_on_nonempty [simp]: "split_on sep s \<noteq> []"
  by (cases s) (auto split: list.splits)

lemma split_on_word: "sep \<notin> set w \<Longrightarrow> split_on sep w = [w]"
  by (induction w) auto

lemma split_on_append:
  "sep \<notin> set w \<Longrightarrow> split_on sep (w @ sep # s) = w # split_on sep s"
  by (induction w) auto

lemma split_join: "split_on sep s = ps \<Longrightarrow> str_join [sep] ps = s"
proof (induction s arbitrary: ps)
  case (Cons c s)
  obtain q qs where q: "split_on sep s = q # qs" by (cases "split_on sep s") auto
  from Cons.IH [OF q] Cons.prems q show ?case by (cases qs) (auto split: if_splits)
qed auto

lemma split_on_join:
  "ws \<noteq> [] \<Longrightarrow> (\<And>w. w \<in> set ws \<Longrightarrow> sep \<notin> set w) \<Longrightarrow> split_on sep (str_join [sep] ws) = ws"
proof (induction ws rule: induct_list012)
  case (3 s t ss)
  then have "split_on sep (str_join [sep] (t # ss)) = t # ss" by simp
  then show ?case using 3 by (simp add: split_on_append)
qed (simp_all add: split_on_word)

text \<open>\<open>strings.Contains(s, pat)\<close>.\<close>

fun str_contains :: "string \<Rightarrow> string \<Rightarrow> bool" where
  "str_contains pat [] = (pat = [])"
| "str_contains pat (c # s) = (take (length pat) (c # s) = pat \<or> str_contains pat s)"

lemma str_contains_iff: "str_contains pat s \<longleftrightarrow> (\<exists>a b. s = a @ pat @ b)"
proof (induction s)
  case (Cons c s)
  have "take (length pat) (c # s) = pat \<longleftrightarrow> (\<exists>b. c # s = pat @ b)"
    by (metis append_eq_conv_conj append_take_drop_id)
  moreover have "(\<exists>a b. c # s = a @ pat @ b) \<longleftrightarrow> (\<exists>b. c # s = pat @ b) \<or> (\<exists>a b. s = a @ pat @ b)"
    by (metis append_Cons append_Nil list.exhaust list.sel(3))
  ultimately show ?case using Cons.IH by simp
qed simp

lemma str_contains_sep:
  assumes "sep \<notin> set pat" and "pat \<noteq> []"
  shows "str_contains pat (w @ sep # s) \<longleftrightarrow> str_contains pat w \<or> str_contains pat s"
proof
  assume "str_contains pat (w @ sep # s)"
  then obtain a b where ab: "w @ sep # s = a @ pat @ b" by (auto simp: str_contains_iff)
  then obtain us where "w = a @ us \<and> us @ sep # s = pat @ b \<or> w @ us = a \<and> sep # s = us @ pat @ b"
    using append_eq_append_conv2 [of w "sep # s" a "pat @ b"] by auto
  then show "str_contains pat w \<or> str_contains pat s"
  proof
    assume us: "w = a @ us \<and> us @ sep # s = pat @ b"
    have "length pat \<le> length us"
    proof (rule ccontr)
      assume "\<not> length pat \<le> length us"
      then have "(pat @ b) ! length us \<in> set pat" by (simp add: nth_append)
      moreover have "(pat @ b) ! length us = sep" using us by (metis nth_append_length)
      ultimately show False using assms(1) by simp
    qed
    then have "us = pat @ drop (length pat) us"
      using us by (metis append_eq_append_conv_if append_take_drop_id)
    then have "w = a @ pat @ drop (length pat) us" using us by simp
    then show ?thesis unfolding str_contains_iff by blast
  next
    assume us: "w @ us = a \<and> sep # s = us @ pat @ b"
    show ?thesis
    proof (cases us)
      case Nil
      with us assms show ?thesis by (cases pat) auto
    next
      case (Cons c cs)
      with us show ?thesis by (auto simp: str_contains_iff)
    qed
  qed
next
  assume "str_contains pat w \<or> str_contains pat s"
  then show "str_contains pat (w @ sep # s)"
    unfolding str_contains_iff by (metis append.assoc append_Cons)
qed

lemma str_contains_join:
  assumes "sep \<notin> set pat" and "pat \<noteq> []"
  shows "str_contains pat (str_join [sep] ws) \<longleftrightarrow> (\<exists>w \<in> set ws. str_contains pat w)"
proof (induction ws rule: induct_list012)
  case (3 s t ss)
  then show ?case using str_contains_sep [OF assms, of s "str_join [sep] (t # ss)"] by simp
qed (use assms(2) in simp_all)

section \<open>Dates: AddDate, Weekday, Format\<close>

definition wall_sec :: "location \<Rightarrow> time \<Rightarrow> int" where
  "wall_sec loc t = unix_sec t + offset_at loc (unix_sec t)"

text \<open>\<open>time.Date(y, m, d, \<dots>, loc)\<close> with the clock given as seconds of the day and nanoseconds.\<close>

definition date_clock :: "int \<Rightarrow> int \<Rightarrow> int \<Rightarrow> int \<Rightarrow> int \<Rightarrow> location \<Rightarrow> time" where
  "date_clock y m d sec nsec loc =
     (let wall = days_from_civil y m d * 86400 + sec in (wall - wall_offset loc wall) * ns_per_sec + nsec)"

definition AddDate :: "location \<Rightarrow> time \<Rightarrow> int \<Rightarrow> int \<Rightarrow> int \<Rightarrow> time" where
  "AddDate loc t years months days =
     (case date_in loc t of (y, m, d) \<Rightarrow>
        date_clock (y + years) (m + months) (d + days) (wall_sec loc t mod 86400) (t mod ns_per_sec) loc)"

text \<open>Sunday is 0; 1 January 1970 was a Thursday.\<close>

definition weekday_of :: "location \<Rightarrow> time \<Rightarrow> int" where
  "weekday_of loc t = (local_day loc t + 4) mod 7"

text \<open>A layout pads a negative year after its sign.\<close>

definition layout_year :: "int \<Rightarrow> string" where
  "layout_year y = (if y < 0 then CHR ''-'' # fmt_int 4 (- y) else fmt_int 4 y)"

definition fmt_date :: "int \<times> int \<times> int \<Rightarrow> string" where
  "fmt_date = (\<lambda>(y, m, d). layout_year y @ ''-'' @ fmt_int 2 m @ ''-'' @ fmt_int 2 d)"

definition DateOnly :: "location \<Rightarrow> time \<Rightarrow> string" where
  "DateOnly loc t = fmt_date (date_in loc t)"

text \<open>The layout \<open>time.RFC3339\<close>: a \<open>Z\<close> for a zero offset, else the offset in hours and minutes.\<close>

definition fmt_zone :: "int \<Rightarrow> string" where
  "fmt_zone off =
     (if off = 0 then ''Z''
      else let minutes = quot off 60; a = abs minutes
           in (if minutes < 0 then ''-'' else ''+'') @ fmt_int 2 (a div 60) @ '':'' @ fmt_int 2 (a mod 60))"

definition RFC3339 :: "location \<Rightarrow> time \<Rightarrow> string" where
  "RFC3339 loc t =
     (let s = wall_sec loc t mod 86400
      in fmt_date (date_in loc t) @ ''T'' @ fmt_int 2 (s div 3600) @ '':'' @ fmt_int 2 (s div 60 mod 60) @ '':'' @
         fmt_int 2 (s mod 60) @ fmt_zone (offset_at loc (unix_sec t)))"

lemma wall_sec_day: "local_day loc t = wall_sec loc t div 86400"
  by (simp add: local_day_def wall_sec_def)

lemma date_clock_fixed:
  "date_clock y m d sec nsec (fixed_zone off) = (days_from_civil y m d * 86400 + sec - off) * ns_per_sec + nsec"
  by (simp add: date_clock_def wall_offset_def lookup_def fixed_zone_def Let_def)

lemma unix_sec_split: "unix_sec t * ns_per_sec + t mod ns_per_sec = t"
  unfolding unix_sec_def by (rule div_mult_mod_eq)

text \<open>In a location of fixed offset, adding days adds multiples of 24 hours.\<close>

lemma AddDate_days_fixed: "AddDate (fixed_zone off) t 0 0 k = t + k * 86400 * ns_per_sec"
proof -
  obtain y m d where ymd: "date_in (fixed_zone off) t = (y, m, d)" by (cases "date_in (fixed_zone off) t")
  let ?w = "wall_sec (fixed_zone off) t"
  have n: "days_from_civil y m (d + k) = ?w div 86400 + k"
    using date_in_days [OF ymd] by (simp add: days_from_civil_day wall_sec_day)
  have "AddDate (fixed_zone off) t 0 0 k =
      ((?w div 86400 + k) * 86400 + ?w mod 86400 - off) * ns_per_sec + t mod ns_per_sec"
    by (simp add: AddDate_def ymd date_clock_fixed n)
  also have "(?w div 86400 + k) * 86400 + ?w mod 86400 - off = unix_sec t + k * 86400"
    using div_mult_mod_eq [of ?w 86400] by (simp add: distrib_right wall_sec_def)
  also have "(unix_sec t + k * 86400) * ns_per_sec + t mod ns_per_sec = t + k * 86400 * ns_per_sec"
    using unix_sec_split [of t] by (simp add: distrib_right)
  finally show ?thesis .
qed

text \<open>At midnight, adding months gives the midnight of the shifted civil date.\<close>

lemma AddDate_midnight_fixed:
  assumes "valid_civil y m d"
  shows "AddDate (fixed_zone off) (midnight y m d (fixed_zone off)) years months days =
    midnight (y + years) (m + months) (d + days) (fixed_zone off)"
proof -
  let ?n = "days_from_civil y m d"
  let ?t = "(?n * 86400 - off) * ns_per_sec"
  have u: "unix_sec ?t = ?n * 86400 - off" "?t mod ns_per_sec = 0" by (simp_all add: unix_sec_def ns_per_sec_def)
  have "date_in (fixed_zone off) ?t = (y, m, d)"
    unfolding date_in_def local_day_midnight_fixed by (rule civil_days_civil [OF assms])
  moreover have "wall_sec (fixed_zone off) ?t mod 86400 = 0" by (simp add: wall_sec_def u)
  ultimately show ?thesis by (simp add: AddDate_def midnight_fixed date_clock_fixed u)
qed

section \<open>Printed dates sort like dates\<close>

text \<open>Strings are compared byte by byte: fields of a fixed width compare one after the other.\<close>

lemma append_less:
  fixes a b :: "'a :: linorder list"
  assumes "length a = length b"
  shows "a @ x < b @ y \<longleftrightarrow> a < b \<or> (a = b \<and> x < y)"
  using assms by (induction a b rule: list_induct2) auto

lemma digits_val_Cons: "digits_val (c # s) = digit_val c * 10 ^ length s + digits_val s"
proof (induction s rule: rev_induct)
  case (snoc d s)
  then show ?case
    using digits_val_snoc [of "c # s" d] by (simp add: digits_val_snoc distrib_right)
qed (simp add: digits_val_def)

lemma digits_val_bounds: "list_all is_digit s \<Longrightarrow> 0 \<le> digits_val s \<and> digits_val s < 10 ^ length s"
proof (induction s)
  case (Cons c s)
  then have c: "0 \<le> digit_val c" "digit_val c + 1 \<le> 10" by (auto simp: is_digit_def digit_val_def)
  define p :: int where "p = 10 ^ length s"
  have p: "0 < p" by (simp add: p_def)
  have "(digit_val c + 1) * p \<le> 10 * p" "0 \<le> digit_val c * p" using c p by (auto intro: mult_right_mono)
  moreover have "0 \<le> digits_val s" "digits_val s < p" using Cons by (simp_all add: p_def)
  ultimately have "0 \<le> digit_val c * p + digits_val s \<and> digit_val c * p + digits_val s < 10 * p"
    unfolding distrib_right by linarith
  then show ?case by (simp add: digits_val_Cons p_def)
qed simp

lemma digits_val_less:
  assumes "length s = length t" and "list_all is_digit s" and "list_all is_digit t"
  shows "s < t \<longleftrightarrow> digits_val s < digits_val t"
  using assms
proof (induction s t rule: list_induct2)
  case (Cons c s d t)
  let ?p = "(10 :: int) ^ length t"
  have b: "0 \<le> digits_val s" "digits_val s < ?p" "0 \<le> digits_val t" "digits_val t < ?p"
    using Cons digits_val_bounds [of s] digits_val_bounds [of t] by simp_all
  have v: "digits_val (c # s) = digit_val c * ?p + digits_val s" "digits_val (d # t) = digit_val d * ?p + digits_val t"
    using Cons.hyps by (simp_all add: digits_val_Cons)
  have order: "c < d \<longleftrightarrow> digit_val c < digit_val d" "c = d \<longleftrightarrow> digit_val c = digit_val d"
    by (simp_all add: less_char_def digit_val_def)
  consider "digit_val c + 1 \<le> digit_val d" | "digit_val c = digit_val d" | "digit_val d + 1 \<le> digit_val c" by linarith
  then show ?case
  proof cases
    case 1
    then have "(digit_val c + 1) * ?p \<le> digit_val d * ?p" by (intro mult_right_mono) simp_all
    then show ?thesis using 1 b unfolding v Cons_less_Cons order by (simp add: distrib_right)
  next
    case 2
    then show ?thesis using Cons unfolding v Cons_less_Cons order by simp
  next
    case 3
    then have "(digit_val d + 1) * ?p \<le> digit_val c * ?p" by (intro mult_right_mono) simp_all
    then show ?thesis using 3 b unfolding v Cons_less_Cons order by (simp add: distrib_right)
  qed
qed simp

lemma length_fmt_int: "0 < k \<Longrightarrow> 0 \<le> i \<Longrightarrow> i < 10 ^ k \<Longrightarrow> length (fmt_int k i) = k"
  using length_zero_pad [of k "nat i"] by (simp add: fmt_int_def nat_less_iff)

lemma fmt_int_less:
  assumes "0 < k" and "0 \<le> i" "i < 10 ^ k" and "0 \<le> j" "j < 10 ^ k"
  shows "fmt_int k i < fmt_int k j \<longleftrightarrow> i < j"
  using digits_val_less [of "fmt_int k i" "fmt_int k j"] assms
  by (simp add: length_fmt_int) (simp add: fmt_int_def)

lemma fmt_int_inject:
  assumes "0 < k" and "0 \<le> i" "i < 10 ^ k" and "0 \<le> j" "j < 10 ^ k"
  shows "fmt_int k i = fmt_int k j \<longleftrightarrow> i = j"
  using fmt_int_less [OF assms] fmt_int_less [OF assms(1,4,5,2,3)] by (metis less_irrefl not_less_iff_gr_or_eq)

text \<open>Years from 0 to 9999 are printed with four digits.\<close>

definition date_less :: "int \<times> int \<times> int \<Rightarrow> int \<times> int \<times> int \<Rightarrow> bool" where
  "date_less = (\<lambda>(y, m, d) (y', m', d'). y < y' \<or> y = y' \<and> (m < m' \<or> m = m' \<and> d < d'))"

lemma month_len_le:
  assumes "1 \<le> m" and "m \<le> 12"
  shows "month_len y m \<le> 31"
  using int_1_12 [OF assms] by (elim disjE) (simp_all add: month_len_def days_before_month_def)

lemma fmt_date_less:
  assumes "valid_civil y m d" and "valid_civil y' m' d'" and "0 \<le> y" "y < 10000" and "0 \<le> y'" "y' < 10000"
  shows "fmt_date (y, m, d) < fmt_date (y', m', d') \<longleftrightarrow> date_less (y, m, d) (y', m', d')"
proof -
  have r: "0 \<le> m" "m < 10 ^ 2" "0 \<le> d" "d < 10 ^ 2" "0 \<le> m'" "m' < 10 ^ 2" "0 \<le> d'" "d' < 10 ^ 2"
    using assms(1,2) month_len_le [of m y] month_len_le [of m' y'] by (auto simp: valid_civil_def)
  have y: "y < 10 ^ 4" "y' < 10 ^ 4" using assms(4,6) by simp_all
  show ?thesis
    using assms(3,5) y r
    by (simp add: fmt_date_def layout_year_def append_less length_fmt_int fmt_int_less fmt_int_inject date_less_def
        del: append_assoc power_numeral)
qed

lemma days_before_month_mono:
  assumes "m \<le> m'" and "1 \<le> m" and "m' \<le> 13"
  shows "days_before_month leap m \<le> days_before_month leap m'"
  using assms
proof (induction m' rule: int_ge_induct)
  case (step k)
  then show ?case using days_before_month_range [of k leap] by simp
qed simp

lemma date_less_days:
  assumes "valid_civil y m d" and "valid_civil y' m' d'" and "date_less (y, m, d) (y', m', d')"
  shows "days_from_civil y m d < days_from_civil y' m' d'"
proof -
  have m: "1 \<le> m" "m \<le> 12" "1 \<le> m'" "m' \<le> 12" and d: "1 \<le> d" "d \<le> month_len y m" "1 \<le> d'"
    using assms(1,2) by (simp_all add: valid_civil_def)
  note plain = days_from_civil_plain [OF m(1,2), of y d] days_from_civil_plain [OF m(3,4), of y' d']
  have yd: "days_before_month (is_leap y) m + (d - 1) < days_before_month (is_leap y) (m + 1)"
    using d by (simp add: month_len_def)
  note range = days_before_month_range [OF m(1,2), of "is_leap y"] days_before_month_range [OF m(3,4), of "is_leap y'"]
  consider "y + 1 \<le> y'" | "y = y'" "m + 1 \<le> m'" | "y = y'" "m = m'" "d < d'"
    using assms(3) by (auto simp: date_less_def)
  then show ?thesis
  proof cases
    case 1
    then have "days_before_year (y + 1) \<le> days_before_year y'" by (rule days_before_year_mono)
    then show ?thesis unfolding plain using range yd d(3) by (simp add: days_before_year_Suc split: if_splits)
  next
    case 2
    then have "days_before_month (is_leap y) (m + 1) \<le> days_before_month (is_leap y) m'"
      using m by (intro days_before_month_mono) simp_all
    then show ?thesis unfolding plain using yd d(3) 2(1) by simp
  next
    case 3
    then show ?thesis unfolding plain by simp
  qed
qed

lemma date_less_iff:
  assumes "valid_civil y m d" and "valid_civil y' m' d'"
  shows "date_less (y, m, d) (y', m', d') \<longleftrightarrow> days_from_civil y m d < days_from_civil y' m' d'"
proof -
  have "date_less (y, m, d) (y', m', d') \<or> (y, m, d) = (y', m', d') \<or> date_less (y', m', d') (y, m, d)"
    by (auto simp: date_less_def)
  then show ?thesis
    using date_less_days [OF assms] date_less_days [OF assms(2,1)] by fastforce
qed

text \<open>The string of a day, and the days whose year has four digits.\<close>

definition day_string :: "int \<Rightarrow> string" where "day_string n = fmt_date (civil_from_days n)"

definition four_digit_day :: "int \<Rightarrow> bool" where
  "four_digit_day n \<longleftrightarrow> (case civil_from_days n of (y, _, _) \<Rightarrow> 0 \<le> y \<and> y < 10000)"

lemma day_string_less:
  assumes "four_digit_day a" and "four_digit_day b"
  shows "day_string a < day_string b \<longleftrightarrow> a < b"
proof -
  obtain y m d y' m' d' where c: "civil_from_days a = (y, m, d)" "civil_from_days b = (y', m', d')"
    by (metis prod_cases3)
  note v = civil_from_days_valid [OF c(1)] civil_from_days_valid [OF c(2)]
  show ?thesis
    using fmt_date_less [OF v(1,3)] date_less_iff [OF v(1,3)] assms
    by (simp add: day_string_def four_digit_day_def c v(2,4))
qed

end
