(* ===== verification/Billing_Period.thy ===== *)
theory Billing_Period
  imports Energy Go_Text
begin

text \<open>
  \<open>billing/period.go\<close>: the invoice period of a key \<open>"YYYY-MM"\<close> and a cut-off day, the days of a
  period, and the latest key whose period is closed. The search for that key goes back month by month
  and need not end, so it is a \<open>partial_function\<close> and that it returns is part of what is proved.
\<close>

section \<open>Keys\<close>

text \<open>The loop over the bytes of the key, from index \<open>i\<close>.\<close>

fun key_digits :: "nat \<Rightarrow> string \<Rightarrow> bool" where
  "key_digits i [] = True"
| "key_digits i (c # cs) = (if i \<noteq> 4 \<and> \<not> is_digit c then False else key_digits (i + 1) cs)"

definition parseKey :: "string \<Rightarrow> (int \<times> int) option" where
  "parseKey key =
     (if length key \<noteq> 7 \<or> key ! 4 \<noteq> CHR ''-'' then None
      else if \<not> key_digits 0 key then None
      else let year = digit_val (key ! 0) * 1000 + digit_val (key ! 1) * 100 + digit_val (key ! 2) * 10 + digit_val (key ! 3);
               month = digit_val (key ! 5) * 10 + digit_val (key ! 6)
           in if 1900 \<le> year \<and> 1 \<le> month \<and> month \<le> 12 then Some (year, month) else None)"

definition period_key :: "int \<Rightarrow> int \<Rightarrow> string" where
  "period_key y m = fmt_int 4 y @ ''-'' @ fmt_int 2 m"

section \<open>Periods\<close>

datatype period_error = PeriodKeyError string | CutoffDayError int

text \<open>The closure \<open>at\<close>: the cut-off instant of a month, on its last day when it is shorter.\<close>

definition cutoff_at :: "location \<Rightarrow> int \<Rightarrow> int \<Rightarrow> int \<Rightarrow> time" where
  "cutoff_at loc cutoffDay y m =
     (case date_in loc (midnight y (m + 1) 0 loc) of (_, _, lastDay) \<Rightarrow> midnight y m (min cutoffDay lastDay) loc)"

definition Period :: "string \<Rightarrow> int \<Rightarrow> location \<Rightarrow> period_error + window" where
  "Period key cutoffDay loc =
     (case parseKey key of
        None \<Rightarrow> Inl (PeriodKeyError key)
      | Some (year, month) \<Rightarrow>
          if cutoffDay < 1 \<or> 31 < cutoffDay then Inl (CutoffDayError cutoffDay)
          else case date_in loc (midnight year (month + 1) 1 loc) of (ny, nm, _) \<Rightarrow>
            Inr \<lparr>From = cutoff_at loc cutoffDay year month, To = cutoff_at loc cutoffDay ny nm\<rparr>)"

definition DaysInPeriod :: "window \<Rightarrow> location \<Rightarrow> int" where
  "DaysInPeriod w loc =
     (let date = (\<lambda>ts. case date_in loc ts of (y, m, d) \<Rightarrow> midnight y m d utc)
      in quot (Sub (date (To w)) (date (From w))) (24 * hour))"

text \<open>One step per month, back from \<open>m\<close>.\<close>

partial_function (option) closed_search :: "int \<Rightarrow> time \<Rightarrow> duration \<Rightarrow> location \<Rightarrow> time \<Rightarrow> string option" where
  "closed_search cutoffDay now settle loc m =
     (let key = (case date_in loc m of (y, mo, _) \<Rightarrow> period_key y mo)
      in if (case Period key cutoffDay loc of Inl _ \<Rightarrow> False | Inr w \<Rightarrow> \<not> now < To w + settle)
         then Some key
         else closed_search cutoffDay now settle loc (AddDate loc m 0 (- 1) 0))"

definition LatestClosedPeriodKey :: "int \<Rightarrow> time \<Rightarrow> duration \<Rightarrow> location \<Rightarrow> string option" where
  "LatestClosedPeriodKey cutoffDay now settle loc =
     (case date_in loc now of (y, m, _) \<Rightarrow> closed_search cutoffDay now settle loc (midnight y m 1 loc))"

section \<open>Keys are read back\<close>

lemma digit_of_nat: "n < 10 \<Longrightarrow> nat_digits n = [digit n]"
  by (simp add: nat_digits.simps [of n])

lemma four_digits:
  assumes "1000 \<le> n" and "n \<le> 9999"
  shows "nat_digits n = [digit (n div 1000), digit (n div 100 mod 10), digit (n div 10 mod 10), digit (n mod 10)]"
proof -
  have d: "n div 10 div 10 = n div 100" "n div 100 div 10 = n div 1000" by (simp_all add: div_mult2_eq [symmetric])
  have "n div 1000 < 10" "10 \<le> n" "10 \<le> n div 10" "10 \<le> n div 100" using assms by linarith+
  then show ?thesis
    by (simp add: nat_digits.simps [of n] nat_digits.simps [of "n div 10"] nat_digits.simps [of "n div 100"]
        digit_of_nat d)
qed

lemma two_digits: "n \<le> 99 \<Longrightarrow> zero_pad 2 (nat_digits n) = [digit (n div 10), digit (n mod 10)]"
  by (cases "n < 10", simp_all add: zero_pad_def nat_digits.simps [of n] digit_of_nat digit_0)

lemma period_key_bytes:
  assumes "1900 \<le> y" and "y \<le> 9999" and "1 \<le> m" and "m \<le> 12"
  defines "n \<equiv> nat y" and "k \<equiv> nat m"
  shows "period_key y m = [digit (n div 1000), digit (n div 100 mod 10), digit (n div 10 mod 10), digit (n mod 10),
     CHR ''-'', digit (k div 10), digit (k mod 10)]"
proof -
  have n: "1000 \<le> n" "n \<le> 9999" "k \<le> 99" using assms by (simp_all add: n_def k_def)
  have "zero_pad 4 (nat_digits n) = nat_digits n" unfolding four_digits [OF n(1,2)] by (simp add: zero_pad_def)
  then show ?thesis
    using assms(1,3) four_digits [OF n(1,2)] two_digits [OF n(3)]
    by (simp add: period_key_def fmt_int_def n_def [symmetric] k_def [symmetric])
qed

lemma decimal_places: "n = n div 1000 * 1000 + n div 100 mod 10 * 100 + n div 10 mod 10 * 10 + n mod 10" for n :: nat
proof -
  have "n div 10 div 10 = n div 100" "n div 100 div 10 = n div 1000" by (simp_all add: div_mult2_eq [symmetric])
  then show ?thesis
    using div_mult_mod_eq [of n 10] div_mult_mod_eq [of "n div 10" 10] div_mult_mod_eq [of "n div 100" 10] by linarith
qed

lemma digit_of_val: "is_digit c \<Longrightarrow> digit (nat (digit_val c)) = c"
  by (simp add: digit_def digit_val_def is_digit_def nat_diff_distrib)

lemma digit_val_range: "is_digit c \<Longrightarrow> 0 \<le> digit_val c \<and> digit_val c \<le> 9"
  by (simp add: digit_val_def is_digit_def)

lemma key_parts: "length key = 7 \<Longrightarrow> \<exists>a b c d e f g. key = [a, b, c, d, e, f, g]"
  by (auto simp: eval_nat_numeral length_Suc_conv)

lemma parseKey_bytes:
  "parseKey [a, b, c, d, e, f, g] =
     (if e = CHR ''-'' \<and> list_all is_digit [a, b, c, d, f, g]
      then let year = digit_val a * 1000 + digit_val b * 100 + digit_val c * 10 + digit_val d;
               month = digit_val f * 10 + digit_val g
           in if 1900 \<le> year \<and> 1 \<le> month \<and> month \<le> 12 then Some (year, month) else None
      else None)"
proof -
  have "key_digits 0 [a, b, c, d, e, f, g] = list_all is_digit [a, b, c, d, f, g]"
    by (simp add: eval_nat_numeral)
  moreover have "length [a, b, c, d, e, f, g] = 7" by simp
  ultimately show ?thesis unfolding parseKey_def by (simp del: list.pred_inject) (simp add: Let_def)
qed

lemma parseKey_period_key:
  assumes "1900 \<le> y" and "y \<le> 9999" and "1 \<le> m" and "m \<le> 12"
  shows "parseKey (period_key y m) = Some (y, m)"
proof -
  define n where "n = nat y"
  define k where "k = nat m"
  have nk: "int n = y" "int k = m" "n \<le> 9999" "k \<le> 12" using assms by (simp_all add: n_def k_def)
  have d: "n div 1000 < 10" "k div 10 < 10" using nk by linarith+
  have y: "int (n div 1000) * 1000 + int (n div 100 mod 10) * 100 + int (n div 10 mod 10) * 10 + int (n mod 10) = y"
    using decimal_places [of n] nk(1) by linarith
  have m: "int (k div 10) * 10 + int (k mod 10) = m" using div_mult_mod_eq [of k 10] nk(2) by linarith
  show ?thesis
    unfolding period_key_bytes [OF assms, folded n_def k_def] parseKey_bytes
    using d assms by (simp add: Let_def y m)
qed

lemma places:
  assumes "(n :: nat) = a * 1000 + b * 100 + c * 10 + d" and "a \<le> 9" "b \<le> 9" "c \<le> 9" "d \<le> 9"
  shows "n div 1000 = a" "n div 100 mod 10 = b" "n div 10 mod 10 = c" "n mod 10 = d"
proof -
  have m: "(k * 10 + x) mod 10 = x" if "x \<le> 9" for k x :: nat using that by simp
  have d: "n div 10 = (a * 10 + b) * 10 + c" "n div 100 = a * 10 + b" "n div 1000 = a" "n = ((a * 10 + b) * 10 + c) * 10 + d"
    using assms by (simp_all add: div_nat_eqI)
  show "n div 1000 = a" "n div 100 mod 10 = b" "n div 10 mod 10 = c"
    unfolding d(1-3) using assms by (simp_all only: m)
  show "n mod 10 = d" by (subst d(4)) (rule m [OF assms(5)])
qed

lemma parseKey_Some:
  assumes "parseKey key = Some (y, m)"
  shows "1900 \<le> y \<and> y \<le> 9999 \<and> 1 \<le> m \<and> m \<le> 12 \<and> key = period_key y m"
proof -
  obtain a b c d e f g where key: "key = [a, b, c, d, e, f, g]"
    using assms key_parts [of key] by (auto simp: parseKey_def split: if_splits)
  have dg: "is_digit a" "is_digit b" "is_digit c" "is_digit d" "is_digit f" "is_digit g" and e: "e = CHR ''-''"
    and ym: "y = digit_val a * 1000 + digit_val b * 100 + digit_val c * 10 + digit_val d"
      "m = digit_val f * 10 + digit_val g" and bounds: "1900 \<le> y" "1 \<le> m" "m \<le> 12"
    using assms unfolding key parseKey_bytes by (simp_all add: Let_def split: if_splits)
  note r = dg [THEN digit_val_range]
  have le: "y \<le> 9999" using r ym(1) by linarith
  have yn: "nat y = nat (digit_val a) * 1000 + nat (digit_val b) * 100 + nat (digit_val c) * 10 + nat (digit_val d)"
    and mn: "nat m = 0 * 1000 + 0 * 100 + nat (digit_val f) * 10 + nat (digit_val g)"
    using r unfolding ym by (simp_all add: nat_add_distrib nat_mult_distrib)
  have r9: "nat (digit_val a) \<le> 9" "nat (digit_val b) \<le> 9" "nat (digit_val c) \<le> 9" "nat (digit_val d) \<le> 9"
    "nat (digit_val f) \<le> 9" "nat (digit_val g) \<le> 9" using r by (simp_all add: nat_le_iff)
  note n = places [OF yn r9(1-4)]
  have "nat m mod 10 = nat (digit_val g)" by (rule places(4) [OF mn]) (use r9 in simp_all)
  moreover have "nat m div 10 = nat (digit_val f)" by (rule div_nat_eqI) (use r9 mn in simp_all)
  ultimately have n': "nat m div 10 = nat (digit_val f)" "nat m mod 10 = nat (digit_val g)" by simp_all
  show ?thesis
    unfolding key using bounds le dg e
    by (simp add: period_key_bytes n n' digit_of_val)
qed

section \<open>The periods of consecutive months\<close>

definition cutoff_day :: "int \<Rightarrow> int \<Rightarrow> int \<Rightarrow> int" where
  "cutoff_day c y m = days_from_civil y m (min c (month_len y m))"

lemma cutoff_month_len_le: "1 \<le> m \<Longrightarrow> m \<le> 12 \<Longrightarrow> month_len y m \<le> 31"
  by (drule int_1_12, assumption, elim disjE) (simp_all add: month_len_def days_before_month_def)

lemma cutoff_at_fixed:
  assumes "1 \<le> m" and "m \<le> 12"
  shows "cutoff_at (fixed_zone off) c y m = (cutoff_day c y m * 86400 - off) * ns_per_sec"
proof -
  have "days_from_civil y (m + 1) 0 = days_from_civil y m (month_len y m)"
    using days_from_civil_next_month [OF assms, of y 0] days_from_civil_day [of y m 0 "month_len y m"] by simp
  moreover have "valid_civil y m (month_len y m)"
    using assms month_len_range [OF assms, of y] by (simp add: valid_civil_def)
  ultimately have "civil_from_days (days_from_civil y (m + 1) 0) = (y, m, month_len y m)"
    by (simp add: civil_days_civil)
  then show ?thesis by (simp add: cutoff_at_def date_in_def midnight_fixed cutoff_day_def)
qed

definition next_month :: "int \<times> int \<Rightarrow> int \<times> int" where
  "next_month = (\<lambda>(y, m). if m = 12 then (y + 1, 1) else (y, m + 1))"

lemma next_month_first:
  assumes "1 \<le> m" and "m \<le> 12" and "next_month (y, m) = (y', m')"
  shows "1 \<le> m' \<and> m' \<le> 12 \<and> days_from_civil y' m' 1 = days_from_civil y (m + 1) 1 \<and>
    date_in (fixed_zone off) (midnight y (m + 1) 1 (fixed_zone off)) = (y', m', 1)"
proof -
  have m': "1 \<le> m'" "m' \<le> 12" using assms by (auto simp: next_month_def split: if_splits)
  moreover have d: "days_from_civil y' m' 1 = days_from_civil y (m + 1) 1"
    using assms by (auto simp: next_month_def days_from_civil_def Let_def split: if_splits)
  moreover have "valid_civil y' m' 1" using m' month_len_range [OF m', of y'] by (simp add: valid_civil_def)
  ultimately show ?thesis by (simp add: date_in_def midnight_fixed civil_days_civil flip: d)
qed

lemma cutoff_day_next:
  assumes "1 \<le> m" and "m \<le> 12" and "next_month (y, m) = (y', m')" and "1 \<le> c"
  shows "cutoff_day c y m + 28 \<le> cutoff_day c y' m'" and "cutoff_day c y' m' \<le> cutoff_day c y m + 31"
proof -
  note m' = next_month_first [OF assms(1-3)]
  define base where "base = days_from_civil y m 0"
  have day: "days_from_civil y m d = base + d" for d
    using days_from_civil_day [of y m 0 d] by (simp add: base_def)
  have step: "days_from_civil y' m' d = base + month_len y m + d" for d
    using m' days_from_civil_day [of y' m' 1 "d - 1"] days_from_civil_next_month [OF assms(1,2), of y 1] day [of 1]
    by simp
  have len: "28 \<le> month_len y m" "month_len y m \<le> 31" "28 \<le> month_len y' m'" "month_len y' m' \<le> 31"
    using assms(1,2) m' by (simp_all add: month_len_range cutoff_month_len_le)
  show "cutoff_day c y m + 28 \<le> cutoff_day c y' m'" "cutoff_day c y' m' \<le> cutoff_day c y m + 31"
    unfolding cutoff_day_def step day using len assms(4) by (auto simp: min_def)
qed

lemma Period_fixed:
  assumes "1900 \<le> y" "y \<le> 9999" "1 \<le> m" "m \<le> 12" and "1 \<le> c" "c \<le> 31" and "next_month (y, m) = (y', m')"
  shows "Period (period_key y m) c (fixed_zone off) =
    Inr \<lparr>From = (cutoff_day c y m * 86400 - off) * ns_per_sec, To = (cutoff_day c y' m' * 86400 - off) * ns_per_sec\<rparr>"
  using next_month_first [OF assms(3,4,7), of off] assms
  by (simp add: Period_def parseKey_period_key cutoff_at_fixed)

section \<open>Days of a period\<close>

lemma civil_date_utc:
  assumes "unix_sec ts = D * 86400 - off"
  shows "(case date_in (fixed_zone off) ts of (y, m, d) \<Rightarrow> midnight y m d utc) = D * 86400 * ns_per_sec"
proof -
  obtain y m d where c: "civil_from_days D = (y, m, d)" by (cases "civil_from_days D")
  have "local_day (fixed_zone off) ts = D" by (simp add: local_day_def assms)
  then show ?thesis using civil_from_days_valid(2) [OF c] by (simp add: date_in_def c utc_fixed midnight_fixed)
qed

lemma DaysInPeriod_fixed:
  assumes "D \<le> E" and "E \<le> D + 31"
  shows "DaysInPeriod \<lparr>From = (D * 86400 - off) * ns_per_sec, To = (E * 86400 - off) * ns_per_sec\<rparr> (fixed_zone off) = E - D"
proof -
  have u: "unix_sec ((k * 86400 - off) * ns_per_sec) = k * 86400 - off" for k
    by (simp add: unix_sec_def ns_per_sec_def)
  have "E * 86400 * ns_per_sec - D * 86400 * ns_per_sec = (E - D) * (24 * hour)"
    by (simp add: hour_def algebra_simps)
  moreover have "Sub (E * 86400 * ns_per_sec) (D * 86400 * ns_per_sec) = E * 86400 * ns_per_sec - D * 86400 * ns_per_sec"
    using assms by (simp add: Sub_def ns_per_sec_def)
  ultimately show ?thesis
    unfolding DaysInPeriod_def window.select_convs civil_date_utc [OF u] Let_def
    using assms(1) by (simp add: quot_def hour_def ns_per_sec_def)
qed

section \<open>Months by number\<close>

text \<open>Month number \<open>n\<close> is month \<open>n mod 12 + 1\<close> of year \<open>n div 12\<close>.\<close>

definition month_of :: "int \<Rightarrow> int \<times> int" where
  "month_of n = (n div 12, n mod 12 + 1)"

definition cutoff_of :: "int \<Rightarrow> int \<Rightarrow> int" where
  "cutoff_of c n = (case month_of n of (y, m) \<Rightarrow> cutoff_day c y m)"

definition key_of :: "int \<Rightarrow> string" where
  "key_of n = (case month_of n of (y, m) \<Rightarrow> period_key y m)"

lemma div_mod_12:
  fixes n q r :: int
  assumes "n = 12 * q + r" and "0 \<le> r" and "r < 12"
  shows "n div 12 = q" and "n mod 12 = r"
  by (rule int_div_pos_eq [OF assms], rule int_mod_pos_eq [OF assms])

lemma next_month_of: "next_month (month_of n) = month_of (n + 1)"
proof (cases "n mod 12 = 11")
  case True
  then have "n + 1 = 12 * (n div 12 + 1) + 0" using mult_div_mod_eq [of 12 n] by (simp add: distrib_left)
  note d = div_mod_12 [OF this]
  from True d show ?thesis by (simp add: next_month_def month_of_def)
next
  case False
  then have r: "n + 1 = 12 * (n div 12) + (n mod 12 + 1)" "0 \<le> n mod 12 + 1" "n mod 12 + 1 < 12"
    using mult_div_mod_eq [of 12 n] pos_mod_bound [of 12 n] pos_mod_sign [of 12 n] by linarith+
  from False div_mod_12 [OF r] show ?thesis by (simp add: next_month_def month_of_def)
qed

lemma month_of_range: "month_of n = (y, m) \<Longrightarrow> 1 \<le> m \<and> m \<le> 12"
  using pos_mod_bound [of 12 n] pos_mod_sign [of 12 n] by (auto simp: month_of_def)

lemma month_of_number:
  assumes "1 \<le> m" and "m \<le> 12"
  shows "month_of (y * 12 + m - 1) = (y, m)"
proof -
  have "y * 12 + m - 1 = 12 * y + (m - 1)" by simp
  from div_mod_12 [OF this] assms show ?thesis by (simp add: month_of_def)
qed

lemma days_from_civil_cong:
  assumes "y + (m - 1) div 12 = y' + (m' - 1) div 12" and "(m - 1) mod 12 = (m' - 1) mod 12"
  shows "days_from_civil y m d = days_from_civil y' m' d"
  using assms by (simp only: days_from_civil_def)

lemma month_of_first:
  assumes "month_of n = (y, m)"
  shows "days_from_civil y (m + k) d = days_from_civil 0 (n + k + 1) d"
proof -
  have ym: "y = n div 12" "m = n mod 12 + 1" using assms by (simp_all add: month_of_def)
  have e: "n + k = (n mod 12 + k) + n div 12 * 12" using div_mult_mod_eq [of n 12] by linarith
  have "(n + k) div 12 = n div 12 + (n mod 12 + k) div 12"
    by (rule trans [OF arg_cong [OF e, of "\<lambda>x. x div 12"] div_mult_self1]) simp
  moreover have "(n + k) mod 12 = (n mod 12 + k) mod 12" by (rule mod_add_left_eq [symmetric])
  moreover have "n mod 12 + 1 + k - 1 = n mod 12 + k" "n + k + 1 - 1 = n + k" by linarith+
  ultimately show ?thesis unfolding ym by (intro days_from_civil_cong) (simp_all only: add_0)
qed

lemma cutoff_of_step:
  assumes "1 \<le> c"
  shows "cutoff_of c n + 28 \<le> cutoff_of c (n + 1)" and "cutoff_of c (n + 1) \<le> cutoff_of c n + 31"
proof -
  obtain y m y' m' where a: "month_of n = (y, m)" "month_of (n + 1) = (y', m')"
    by (cases "month_of n"; cases "month_of (n + 1)")
  then have "next_month (y, m) = (y', m')" using next_month_of [of n] by simp
  from cutoff_day_next [OF _ _ this assms] month_of_range [OF a(1)]
  show "cutoff_of c n + 28 \<le> cutoff_of c (n + 1)" "cutoff_of c (n + 1) \<le> cutoff_of c n + 31"
    by (simp_all add: cutoff_of_def a)
qed

lemma cutoff_of_mono:
  assumes "1 \<le> c" and "n \<le> k"
  shows "cutoff_of c n \<le> cutoff_of c k"
  using assms(2)
proof (induction k rule: int_ge_induct)
  case (step k)
  with cutoff_of_step(1) [OF assms(1), of k] show ?case by linarith
qed simp

lemma Period_key_of:
  assumes "1900 * 12 \<le> n" and "n < 10000 * 12" and "1 \<le> c" and "c \<le> 31"
  shows "Period (key_of n) c (fixed_zone off) =
    Inr \<lparr>From = (cutoff_of c n * 86400 - off) * ns_per_sec, To = (cutoff_of c (n + 1) * 86400 - off) * ns_per_sec\<rparr>"
proof -
  obtain y m y' m' where a: "month_of n = (y, m)" "month_of (n + 1) = (y', m')"
    by (cases "month_of n"; cases "month_of (n + 1)")
  then have "next_month (y, m) = (y', m')" using next_month_of [of n] by simp
  moreover have "1900 \<le> y" "y \<le> 9999" using a(1) assms(1,2) by (auto simp: month_of_def)
  ultimately show ?thesis
    using month_of_range [OF a(1)] assms(3,4) by (simp add: key_of_def cutoff_of_def a Period_fixed)
qed

lemma parseKey_number:
  assumes "parseKey key = Some (y, m)"
  obtains n where "1900 * 12 \<le> n" and "n < 10000 * 12" and "key = key_of n" and "month_of n = (y, m)"
proof -
  note b = parseKey_Some [OF assms]
  have n: "month_of (y * 12 + m - 1) = (y, m)" using b by (simp add: month_of_number)
  show thesis by (rule that [of "y * 12 + m - 1"]) (use b n in \<open>simp_all add: key_of_def\<close>)
qed

lemma Period_number:
  assumes "Period key c (fixed_zone off) = Inr w"
  obtains n where "1900 * 12 \<le> n" and "n < 10000 * 12" and "key = key_of n" and "1 \<le> c" and "c \<le> 31"
    and "w = \<lparr>From = (cutoff_of c n * 86400 - off) * ns_per_sec, To = (cutoff_of c (n + 1) * 86400 - off) * ns_per_sec\<rparr>"
proof -
  obtain y m where "parseKey key = Some (y, m)" using assms by (auto simp: Period_def split: option.splits)
  then obtain n where n: "1900 * 12 \<le> n" "n < 10000 * 12" "key = key_of n" by (rule parseKey_number)
  have c: "1 \<le> c" "c \<le> 31" using assms by (auto simp: Period_def split: option.splits if_splits)
  show thesis by (rule that [OF n c]) (use assms Period_key_of [OF n(1,2) c, of off] n(3) in simp)
qed

section \<open>The search for the latest closed period\<close>

definition closed :: "int \<Rightarrow> time \<Rightarrow> duration \<Rightarrow> int \<Rightarrow> int \<Rightarrow> bool" where
  "closed c now settle off n \<longleftrightarrow> (cutoff_of c (n + 1) * 86400 - off) * ns_per_sec + settle \<le> now"

definition first_of :: "int \<Rightarrow> int \<Rightarrow> time" where
  "first_of off n = (days_from_civil 0 (n + 1) 1 * 86400 - off) * ns_per_sec"

lemma first_of_date:
  assumes "month_of n = (y, m)"
  shows "date_in (fixed_zone off) (first_of off n) = (y, m, 1)" and "first_of off n = midnight y m 1 (fixed_zone off)"
proof -
  note m = month_of_range [OF assms]
  have d: "days_from_civil 0 (n + 1) 1 = days_from_civil y m 1" using month_of_first [OF assms, of 0 1] by simp
  have "valid_civil y m 1" using m month_len_range [of m y] by (simp add: valid_civil_def)
  then show "date_in (fixed_zone off) (first_of off n) = (y, m, 1)"
    by (simp add: first_of_def date_in_def d civil_days_civil)
  show "first_of off n = midnight y m 1 (fixed_zone off)" by (simp add: first_of_def midnight_fixed d)
qed

lemma first_of_back: "AddDate (fixed_zone off) (first_of off n) 0 (- 1) 0 = first_of off (n - 1)"
proof -
  obtain y m where ym: "month_of n = (y, m)" by (cases "month_of n")
  note m = month_of_range [OF ym]
  have "valid_civil y m 1" using m month_len_range [of m y] by (simp add: valid_civil_def)
  from AddDate_midnight_fixed [OF this, of off 0 "- 1" 0]
  have "AddDate (fixed_zone off) (first_of off n) 0 (- 1) 0 = midnight y (m + - 1) 1 (fixed_zone off)"
    by (simp add: first_of_date(2) [OF ym])
  also have "\<dots> = first_of off (n - 1)"
    using month_of_first [OF ym, of "- 1" 1] by (simp add: midnight_fixed first_of_def)
  finally show ?thesis .
qed

lemma closed_search_step:
  assumes "1900 * 12 \<le> n" and "n < 10000 * 12" and "1 \<le> c" and "c \<le> 31"
  shows "closed_search c now settle (fixed_zone off) (first_of off n) =
    (if closed c now settle off n then Some (key_of n)
     else closed_search c now settle (fixed_zone off) (first_of off (n - 1)))"
proof -
  obtain y m where ym: "month_of n = (y, m)" by (cases "month_of n")
  have key: "(case date_in (fixed_zone off) (first_of off n) of (y, mo, _) \<Rightarrow> period_key y mo) = key_of n"
    by (simp add: first_of_date(1) [OF ym] key_of_def ym)
  show ?thesis
    by (subst closed_search.simps, unfold key Let_def Period_key_of [OF assms] sum.case window.select_convs not_less first_of_back)
      (simp add: closed_def)
qed

lemma closed_search_finds:
  assumes "closed c now settle off n0" and "1900 * 12 \<le> n0" and "n0 \<le> n" and "n < 10000 * 12"
    and "1 \<le> c" and "c \<le> 31" and "\<not> closed c now settle off (n + 1)"
  shows "\<exists>k. n0 \<le> k \<and> k \<le> n \<and> closed c now settle off k \<and> \<not> closed c now settle off (k + 1) \<and>
    closed_search c now settle (fixed_zone off) (first_of off n) = Some (key_of k)"
  using assms(3,4,7)
proof (induction n rule: int_ge_induct)
  case base
  then show ?case
    using closed_search_step [OF assms(2) _ assms(5,6), of now settle off] assms(1) by auto
next
  case (step n)
  have s: "closed_search c now settle (fixed_zone off) (first_of off (n + 1)) =
    (if closed c now settle off (n + 1) then Some (key_of (n + 1))
     else closed_search c now settle (fixed_zone off) (first_of off n))"
    using closed_search_step [OF _ step.prems(1) assms(5,6), of now settle off] assms(2) step.hyps by simp
  show ?case
  proof (cases "closed c now settle off (n + 1)")
    case True
    with s step.prems step.hyps show ?thesis by (intro exI [of _ "n + 1"]) simp
  next
    case False
    then obtain k where "n0 \<le> k \<and> k \<le> n \<and> closed c now settle off k \<and> \<not> closed c now settle off (k + 1) \<and>
        closed_search c now settle (fixed_zone off) (first_of off n) = Some (key_of k)"
      using step.IH step.prems by force
    with s False show ?thesis by (intro exI [of _ k]) simp
  qed
qed

lemma current_month_open:
  assumes "date_in (fixed_zone off) now = (y, m, d)" and "0 \<le> settle" and "1 \<le> c"
  shows "\<not> closed c now settle off (y * 12 + m - 1)"
proof -
  have v: "1 \<le> m" "m \<le> 12" "d \<le> month_len y m" using date_in_valid [OF assms(1)] by (simp_all add: valid_civil_def)
  note n = month_of_number [OF v(1,2), of y]
  obtain y' m' where nx: "month_of (y * 12 + m - 1 + 1) = (y', m')" by (cases "month_of (y * 12 + m - 1 + 1)")
  have "next_month (y, m) = (y', m')" using next_month_of [of "y * 12 + m - 1"] n nx by simp
  note m' = next_month_first [OF v(1,2) this]
  have "local_day (fixed_zone off) now + 1 \<le> days_from_civil y m 1 + month_len y m"
    using date_in_days [OF assms(1)] v(3) days_from_civil_day [of y m 1 "d - 1"] by simp
  also have "\<dots> = days_from_civil y' m' 1" using m' days_from_civil_next_month [OF v(1,2)] by simp
  also have "\<dots> \<le> cutoff_of c (y * 12 + m - 1 + 1)"
    unfolding cutoff_of_def nx prod.case cutoff_day_def
    using days_from_civil_day [of y' m' 1 "min c (month_len y' m') - 1"] month_len_range [of m' y'] m' assms(3) by simp
  finally have "(local_day (fixed_zone off) now + 1) * 86400 - off \<le> cutoff_of c (y * 12 + m - 1 + 1) * 86400 - off" by simp
  then have "((local_day (fixed_zone off) now + 1) * 86400 - off) * ns_per_sec \<le>
      (cutoff_of c (y * 12 + m - 1 + 1) * 86400 - off) * ns_per_sec"
    by (rule mult_right_mono) (simp add: ns_per_sec_def)
  then show ?thesis using local_day_fixed(2) [of now off] assms(2) unfolding closed_def by linarith
qed

text \<open>With a cut-off day out of range no period exists, and the search would go back for ever: its callers pass a
  column the database checks to be from 1 to 31.\<close>

lemma closed_search_diverges:
  assumes "c < 1 \<or> 31 < c"
  shows "closed_search c now settle loc m = None"
proof -
  have "\<not> (c < 1 \<or> 31 < c)" if "closed_search c now settle loc m = Some key" for key
    using that
  proof (rule closed_search.raw_induct [where P = "\<lambda>c _ _ _ _ _. \<not> (c < 1 \<or> 31 < c)", rotated])
    fix search :: "int \<Rightarrow> time \<Rightarrow> duration \<Rightarrow> location \<Rightarrow> time \<Rightarrow> string option" and c now settle loc m r
    assume ih: "\<And>c now settle loc m r. search c now settle loc m = Some r \<Longrightarrow> \<not> (c < 1 \<or> 31 < c)"
      and r: "(let key = case date_in loc m of (y, mo, _) \<Rightarrow> period_key y mo
        in if (case Period key c loc of Inl _ \<Rightarrow> False | Inr w \<Rightarrow> \<not> now < To w + settle) then Some key
           else search c now settle loc (AddDate loc m 0 (- 1) 0)) = Some r"
    show "\<not> (c < 1 \<or> 31 < c)"
    proof
      assume c: "c < 1 \<or> 31 < c"
      then have "(case Period key c loc of Inl _ \<Rightarrow> False | Inr w \<Rightarrow> \<not> now < To w + settle) = False" for key
        by (auto simp: Period_def split: option.splits)
      with r have "search c now settle loc (AddDate loc m 0 (- 1) 0) = Some r" by (simp add: Let_def)
      from ih [OF this] c show False by blast
    qed
  qed
  with assms show ?thesis by (cases "closed_search c now settle loc m") auto
qed

section \<open>Properties\<close>

text \<open>Period keys: \<open>parseKey\<close> accepts exactly the keys printed for the years 1900 to 9999 and the
  months 1 to 12, and reads back the year and the month; two printings are never read as the same month.\<close>

theorem parseKey_roundtrip:
  "(parseKey key = Some (y, m)) =
     (1900 \<le> y \<and> y \<le> 9999 \<and> 1 \<le> m \<and> m \<le> 12 \<and> key = period_key y m)"
  using parseKey_Some [of key y m] parseKey_period_key [of y m] by blast

text \<open>The invoice periods of consecutive months tile the calendar: a period of a key and a cut-off day ends
  exactly where the period of the next key begins (whatever the lengths of the two months), it is 28 to 31 days long,
  and its days are the whole days between its ends.\<close>

theorem Period_consecutive:
  assumes "Period key c (fixed_zone off) = Inr w" and "parseKey key = Some (y, m)" and "next_month (y, m) = (y', m')"
    and "y' \<le> 9999"
  shows "(\<exists>w'. Period (period_key y' m') c (fixed_zone off) = Inr w' \<and> From w' = To w) \<and>
    28 \<le> DaysInPeriod w (fixed_zone off) \<and> DaysInPeriod w (fixed_zone off) \<le> 31 \<and>
    To w = From w + DaysInPeriod w (fixed_zone off) * (24 * hour)"
proof -
  obtain n where n: "1900 * 12 \<le> n" "n < 10000 * 12" "key = key_of n" "1 \<le> c" "c \<le> 31"
    and w: "w = \<lparr>From = (cutoff_of c n * 86400 - off) * ns_per_sec, To = (cutoff_of c (n + 1) * 86400 - off) * ns_per_sec\<rparr>"
    using assms(1) by (rule Period_number)
  note step = cutoff_of_step [OF n(4), of n]
  have days: "DaysInPeriod w (fixed_zone off) = cutoff_of c (n + 1) - cutoff_of c n"
    unfolding w by (rule DaysInPeriod_fixed) (use step in simp_all)
  have "month_of n = (y, m)"
    using parseKey_period_key [of "n div 12" "n mod 12 + 1"] n(1,2) assms(2) month_of_range [of n "n div 12" "n mod 12 + 1"]
    by (simp add: n(3) key_of_def month_of_def)
  then have next_n: "month_of (n + 1) = (y', m')" using next_month_of [of n] assms(3) by simp
  then have "n + 1 < 10000 * 12" using assms(4) by (auto simp: month_of_def)
  from Period_key_of [OF _ this n(4,5), of off] n(1)
  have "Period (period_key y' m') c (fixed_zone off) =
      Inr \<lparr>From = To w, To = (cutoff_of c (n + 1 + 1) * 86400 - off) * ns_per_sec\<rparr>"
    by (simp add: key_of_def next_n w)
  with step show ?thesis unfolding days by (simp add: w hour_def algebra_simps)
qed

theorem Period_consecutive_witness:
  "\<exists>w. Period ''2024-01'' 31 (fixed_zone 10800) = Inr w \<and> To w = From w + DaysInPeriod w (fixed_zone 10800) * (24 * hour)"
proof -
  have key: "''2024-01'' = period_key 2024 1"
    by (simp add: period_key_bytes) (simp add: digit_def char_of_def bit_0)
  have p: "parseKey ''2024-01'' = Some (2024, 1)" unfolding key by (rule parseKey_period_key) simp_all
  have nx: "next_month (2024, 1) = (2024, 2)" by (simp add: next_month_def)
  obtain w where w: "Period ''2024-01'' 31 (fixed_zone 10800) = Inr w"
    using Period_fixed [of 2024 1 31 2024 2 10800] nx unfolding key by simp
  from Period_consecutive [OF w p nx] w show ?thesis by simp
qed

text \<open>The latest closed period: from the first month on whose period is closed, the backward search returns, for
  any cut-off day from 1 to 31 and any settling time that is not negative; the key it returns is closed (its end
  plus the settling time has passed) and every key of a later month is still open.\<close>

theorem LatestClosedPeriodKey_latest:
  assumes "Period key0 c (fixed_zone off) = Inr w0" and "To w0 + settle \<le> now" and "0 \<le> settle"
    and "date_in (fixed_zone off) now = (yn, mn, dn)" and "yn \<le> 9999"
  shows "\<exists>key w. LatestClosedPeriodKey c now settle (fixed_zone off) = Some key \<and>
    Period key c (fixed_zone off) = Inr w \<and> To w + settle \<le> now \<and>
    (\<forall>key' w'. Period key' c (fixed_zone off) = Inr w' \<longrightarrow> From w < From w' \<longrightarrow> now < To w' + settle)"
proof -
  obtain n0 where n0: "1900 * 12 \<le> n0" "n0 < 10000 * 12" "key0 = key_of n0" "1 \<le> c" "c \<le> 31"
    and w0: "w0 = \<lparr>From = (cutoff_of c n0 * 86400 - off) * ns_per_sec, To = (cutoff_of c (n0 + 1) * 86400 - off) * ns_per_sec\<rparr>"
    using assms(1) by (rule Period_number)
  have closed0: "closed c now settle off n0" using assms(2) by (simp add: closed_def w0)
  have mono: "closed c now settle off i" if "closed c now settle off j" "i \<le> j" for i j
  proof -
    have "cutoff_of c (i + 1) \<le> cutoff_of c (j + 1)" using that(2) by (intro cutoff_of_mono [OF n0(4)]) simp
    then have "(cutoff_of c (i + 1) * 86400 - off) * ns_per_sec \<le> (cutoff_of c (j + 1) * 86400 - off) * ns_per_sec"
      by (intro mult_right_mono) (simp_all add: ns_per_sec_def)
    with that(1) show ?thesis by (simp add: closed_def)
  qed
  define s where "s = yn * 12 + mn - 1"
  have v: "1 \<le> mn" "mn \<le> 12" using date_in_valid [OF assms(4)] by (simp_all add: valid_civil_def)
  have ms: "month_of s = (yn, mn)" unfolding s_def by (rule month_of_number [OF v])
  have op: "\<not> closed c now settle off s" unfolding s_def by (rule current_month_open [OF assms(4,3) n0(4)])
  then have "n0 \<le> s" "\<not> closed c now settle off (s + 1)" using mono closed0 by (meson linear, meson less_add_one less_imp_le mono op)
  moreover have "s < 10000 * 12" using assms(5) v by (simp add: s_def)
  ultimately obtain k where k: "n0 \<le> k" "k \<le> s" "closed c now settle off k" "\<not> closed c now settle off (k + 1)"
    and found: "closed_search c now settle (fixed_zone off) (first_of off s) = Some (key_of k)"
    using closed_search_finds [OF closed0 n0(1) _ _ n0(4,5)] by blast
  have pk: "Period (key_of k) c (fixed_zone off) =
      Inr \<lparr>From = (cutoff_of c k * 86400 - off) * ns_per_sec, To = (cutoff_of c (k + 1) * 86400 - off) * ns_per_sec\<rparr>"
    (is "_ = Inr ?w") by (rule Period_key_of) (use k n0 \<open>s < 10000 * 12\<close> in simp_all)
  have later: "now < To w' + settle" if p: "Period key' c (fixed_zone off) = Inr w'" and lt: "From ?w < From w'" for key' w'
  proof -
    obtain n where n: "w' = \<lparr>From = (cutoff_of c n * 86400 - off) * ns_per_sec, To = (cutoff_of c (n + 1) * 86400 - off) * ns_per_sec\<rparr>"
      by (rule Period_number [OF p])
    have "\<not> n \<le> k"
    proof
      assume "n \<le> k"
      then have "(cutoff_of c n * 86400 - off) * ns_per_sec \<le> (cutoff_of c k * 86400 - off) * ns_per_sec"
        using cutoff_of_mono [OF n0(4)] by (intro mult_right_mono) (simp_all add: ns_per_sec_def)
      with lt show False by (simp add: n)
    qed
    then have "\<not> closed c now settle off n" using mono [of n "k + 1"] k(4) by force
    then show ?thesis by (simp add: closed_def n)
  qed
  have "LatestClosedPeriodKey c now settle (fixed_zone off) = Some (key_of k)"
    using found by (simp add: LatestClosedPeriodKey_def assms(4) first_of_date(2) [OF ms])
  with pk k(3) later show ?thesis by (intro exI [of _ "key_of k"] exI [of _ ?w]) (simp add: closed_def)
qed

theorem LatestClosedPeriodKey_latest_witness:
  "\<exists>key w. LatestClosedPeriodKey 31 (19797 * 86400 * ns_per_sec) (24 * hour) (fixed_zone 0) = Some key \<and>
     Period key 31 (fixed_zone 0) = Inr w \<and> To w + 24 * hour \<le> 19797 * 86400 * ns_per_sec"
proof -
  have civil: "days_from_civil 2024 3 15 = 19797" "days_from_civil 2024 2 29 = 19782" "month_len 2024 2 = 29"
    by (simp_all add: days_from_civil_def days_before_year_def days_before_month_def is_leap_def epoch_days_def Let_def
        month_len_def)
  have "valid_civil 2024 3 15" by (simp add: valid_civil_def month_len_def days_before_month_def)
  then have now: "date_in (fixed_zone 0) (19797 * 86400 * ns_per_sec) = (2024, 3, 15)"
    using local_day_midnight_fixed [of 0 19797] civil_days_civil [of 2024 3 15] by (simp add: date_in_def civil)
  have nx: "next_month (2024, 1) = (2024, 2)" by (simp add: next_month_def)
  obtain w where w: "Period (period_key 2024 1) 31 (fixed_zone 0) = Inr w"
    and e: "To w = 19782 * 86400 * ns_per_sec"
    using Period_fixed [of 2024 1 31 2024 2 0] nx by (simp add: cutoff_day_def civil)
  show ?thesis
    using LatestClosedPeriodKey_latest [OF w _ _ now, of "24 * hour"] by (auto simp: e hour_def ns_per_sec_def)
qed

end
