(* ===== verification/Keyed_Groups.thy ===== *)
theory Keyed_Groups
  imports Prelude
begin

text \<open>
  A loop several packages share: rows are collected in a map by a key, and a slice beside the map keeps the keys
  in the order of their first row, so that the result does not depend on the iteration order of the map. \<open>group_add\<close> is
  the body of that loop; the lemmas say which groups it leaves, in which order, and what a running total holds
  (the locale \<open>group_total\<close>, interpreted by the packages on their own totals).
\<close>

section \<open>The keys in the order of their first row\<close>

definition first_keys :: "'k list \<Rightarrow> 'k list" where
  "first_keys ks = rev (remdups (rev ks))"

lemma first_keys_Nil [simp]: "first_keys [] = []"
  by (simp add: first_keys_def)

lemma first_keys_snoc [simp]:
  "first_keys (ks @ [k]) = (if k \<in> set ks then first_keys ks else first_keys ks @ [k])"
  by (simp add: first_keys_def)

lemma set_first_keys [simp]: "set (first_keys ks) = set ks"
  by (simp add: first_keys_def)

lemma distinct_first_keys [simp]: "distinct (first_keys ks)"
  by (simp add: first_keys_def)

section \<open>The loop\<close>

definition group_add ::
  "('a \<Rightarrow> 'k) \<Rightarrow> ('a \<Rightarrow> 'g) \<Rightarrow> ('a \<Rightarrow> 'g \<Rightarrow> 'g) \<Rightarrow> 'a \<Rightarrow> 'k list \<times> ('k \<rightharpoonup> 'g) \<Rightarrow> 'k list \<times> ('k \<rightharpoonup> 'g)" where
  "group_add key fresh upd x = (\<lambda>(order, groups).
     (case groups (key x) of
        None \<Rightarrow> (order @ [key x], groups(key x \<mapsto> upd x (fresh x)))
      | Some g \<Rightarrow> (order, groups(key x \<mapsto> upd x g))))"

abbreviation groups_of ::
  "('a \<Rightarrow> 'k) \<Rightarrow> ('a \<Rightarrow> 'g) \<Rightarrow> ('a \<Rightarrow> 'g \<Rightarrow> 'g) \<Rightarrow> 'a list \<Rightarrow> 'k list \<times> ('k \<rightharpoonup> 'g)" where
  "groups_of key fresh upd xs \<equiv> fold (group_add key fresh upd) xs ([], Map.empty)"

abbreviation members :: "('a \<Rightarrow> 'k) \<Rightarrow> 'k \<Rightarrow> 'a list \<Rightarrow> 'a list" where
  "members key k xs \<equiv> filter (\<lambda>x. key x = k) xs"

lemma groups_of_spec:
  "fst (groups_of key fresh upd xs) = first_keys (map key xs) \<and>
   (\<forall>k. snd (groups_of key fresh upd xs) k =
      (case members key k xs of [] \<Rightarrow> None | y # ys \<Rightarrow> Some (fold upd (y # ys) (fresh y))))"
proof (induction xs rule: rev_induct)
  case (snoc x xs)
  obtain order groups where g: "groups_of key fresh upd xs = (order, groups)"
    by (cases "groups_of key fresh upd xs")
  have order: "order = first_keys (map key xs)"
    and groups: "groups k = (case members key k xs of [] \<Rightarrow> None | y # ys \<Rightarrow> Some (fold upd (y # ys) (fresh y)))" for k
    using snoc.IH unfolding g by simp_all
  have step: "groups_of key fresh upd (xs @ [x]) = group_add key fresh upd x (order, groups)" by (simp add: g)
  show ?case
  proof (cases "members key (key x) xs")
    case Nil
    then have "key x \<notin> set (map key xs)" by (auto simp: filter_empty_conv)
    with Nil show ?thesis unfolding step by (auto simp: group_add_def groups order)
  next
    case (Cons y ys)
    then have "y \<in> set xs \<and> key y = key x" using filter_eq_ConsD [OF Cons] by auto
    then have "key x \<in> set (map key xs)" by (metis image_eqI list.set_map)
    with Cons show ?thesis unfolding step by (auto simp: group_add_def groups order split: list.splits)
  qed
qed simp

lemma groups_of_order: "fst (groups_of key fresh upd xs) = first_keys (map key xs)"
  by (rule groups_of_spec [THEN conjunct1])

lemma groups_of_lookup:
  "snd (groups_of key fresh upd xs) k =
     (case members key k xs of [] \<Rightarrow> None | y # ys \<Rightarrow> Some (fold upd (y # ys) (fresh y)))"
  by (rule groups_of_spec [THEN conjunct2, rule_format])

lemma groups_of_dom: "dom (snd (groups_of key fresh upd xs)) = key ` set xs"
proof -
  have "snd (groups_of key fresh upd xs) k = None \<longleftrightarrow> members key k xs = []" for k
    unfolding groups_of_lookup by (simp split: list.split)
  moreover have "members key k xs = [] \<longleftrightarrow> k \<notin> key ` set xs" for k by (auto simp: filter_empty_conv)
  ultimately have "snd (groups_of key fresh upd xs) k = None \<longleftrightarrow> k \<notin> key ` set xs" for k by simp
  then show ?thesis by (simp add: dom_def)
qed

lemma members_in_order: "k \<in> set (first_keys (map key xs)) \<longleftrightarrow> members key k xs \<noteq> []"
  by (auto simp: filter_empty_conv)

lemma groups_of_Some:
  assumes "k \<in> key ` set xs"
  obtains y ys where "members key k xs = y # ys" and "key y = k" and "y \<in> set xs"
    and "snd (groups_of key fresh upd xs) k = Some (fold upd (members key k xs) (fresh y))"
proof (cases "members key k xs")
  case Nil
  with assms show thesis by (auto simp: filter_empty_conv)
next
  case (Cons y ys)
  then have "key y = k" "y \<in> set xs" using filter_eq_ConsD [OF Cons] by auto
  with Cons show thesis by (intro that) (simp_all add: groups_of_lookup)
qed

section \<open>Running totals\<close>

text \<open>Every row is in exactly one group, so a sum over all rows is the sum of the sums of the groups.\<close>

lemma sum_members:
  fixes f :: "'a \<Rightarrow> 'b :: comm_monoid_add"
  assumes "distinct ks" and "key ` set xs \<subseteq> set ks"
  shows "(\<Sum>k \<leftarrow> ks. sum_list (map f (members key k xs))) = sum_list (map f xs)"
  using assms(2)
proof (induction xs)
  case (Cons x xs)
  have "(\<Sum>k \<leftarrow> ks. sum_list (map f (members key k (x # xs)))) =
      (\<Sum>k \<leftarrow> ks. (if key x = k then f x else 0) + sum_list (map f (members key k xs)))"
    by (rule arg_cong [where f = sum_list]) (simp add: map_eq_conv)
  also have "\<dots> = (\<Sum>k \<leftarrow> ks. if key x = k then f x else 0) + sum_list (map f xs)"
    using Cons by (simp add: sum_list_addf)
  also have "(\<Sum>k \<leftarrow> ks. if key x = k then f x else 0) = f x"
    using assms(1) Cons.prems by (simp add: sum_list_distinct_conv_sum_set)
  finally show ?case by simp
qed (simp add: sum_list_0)

lemma sum_groups:
  fixes f :: "'a \<Rightarrow> 'b :: comm_monoid_add"
  shows "(\<Sum>k \<leftarrow> first_keys (map key xs). sum_list (map f (members key k xs))) = sum_list (map f xs)"
  by (rule sum_members) simp_all

locale group_total =
  fixes fresh :: "'a \<Rightarrow> 'g" and upd :: "'a \<Rightarrow> 'g \<Rightarrow> 'g"
    and total_of :: "'g \<Rightarrow> 'b :: comm_monoid_add" and part_of :: "'a \<Rightarrow> 'b"
  assumes total_fresh: "total_of (fresh x) = 0"
    and total_upd: "total_of (upd x g) = total_of g + part_of x"

context group_total begin

lemma total_fold: "total_of (fold upd xs g) = total_of g + sum_list (map part_of xs)"
  by (induction xs arbitrary: g) (simp_all add: total_upd add.assoc)

lemma total_group:
  "snd (groups_of key fresh upd xs) k = Some g \<Longrightarrow> total_of g = sum_list (map part_of (members key k xs))"
  unfolding groups_of_lookup
  by (auto simp: total_fold total_fresh total_upd add.assoc simp del: fold_simps split: list.splits)

end

end
