(* ===== verification/Billing_Dashboard.thy ===== *)
theory Billing_Dashboard
  imports Billing_Money Keyed_Groups
begin

text \<open>
  \<open>billing/dashboard.go\<close>: the invoice dashboard of a month. Its rows are grouped by building and
  netted per currency; both loops keep a map of pointers and a slice with the order of first appearance
  (\<open>groups_of\<close>). The plant section is filled by another module and is only its zero value here.
\<close>

section \<open>Rows and sections\<close>

record dashboard_row =
  dr_BillID :: uuid
  dr_BuildingID :: "uuid option"
  dr_AnalyzerID :: "uuid option"
  dr_BuildingName :: string
  dr_AnalyzerName :: string
  dr_InstallationNumber :: string
  dr_EtsoCode :: string
  dr_PeriodKey :: string
  dr_Consumption :: dec
  dr_Production :: dec
  dr_ConsumptionPrice :: "dec option"
  dr_ProductionPrice :: "dec option"
  dr_Invoice :: dec
  dr_Currency :: currency_code
  dr_Superseded :: bool

record dashboard_building =
  db_BuildingID :: uuid
  db_BuildingName :: string
  db_Rows :: "dashboard_row list"
  db_TotalConsumption :: dec
  db_TotalProduction :: dec
  db_TotalInvoice :: dec
  db_Currency :: currency_code
  db_BuildingBill :: "dashboard_row option"
  db_DivergesFromRows :: bool

datatype net_status = NetStatusConsumption | NetStatusProduction

record dashboard_netting =
  dn_Currency :: currency_code
  dn_TotalConsumption :: dec
  dn_TotalProduction :: dec
  dn_Net :: dec
  dn_NetStatus :: "net_status option"
  dn_TotalInvoice :: dec
  dn_EfficiencyPct :: "dec option"
  dn_PeriodKey :: string
  dn_CompanyBillID :: "uuid option"

text \<open>The status of a netting that the last loop has not reached is the empty string, \<open>None\<close> here.\<close>

record dashboard_plant_row =
  dp_PlantID :: uuid
  dp_PlantName :: string
  dp_AnalyzerName :: "string option"
  dp_InstallationNumber :: "string option"
  dp_ProductionKwh :: "dec option"
  dp_ProductionPrice :: "dec option"
  dp_ProductionCurrency :: "currency_code option"
  dp_ConsumptionPrice :: "dec option"
  dp_InvoiceAmount :: "dec option"
  dp_BillID :: "uuid option"

record dashboard_money =
  dm_Currency :: currency_code
  dm_Amount :: dec

record dashboard_plants =
  Available :: bool
  Plants_Reason :: string
  Plants_Rows :: "dashboard_plant_row list"
  Plants_TotalProductionKwh :: "dec option"
  Plants_TotalInvoice :: "dashboard_money list"

definition no_plants :: dashboard_plants where
  "no_plants = \<lparr>Available = False, Plants_Reason = [], Plants_Rows = [], Plants_TotalProductionKwh = None,
     Plants_TotalInvoice = []\<rparr>"

record dashboard_result =
  Buildings :: "dashboard_building list"
  Netting :: "dashboard_netting list"
  Plants :: dashboard_plants

definition divergenceTolerance :: dec where "divergenceTolerance = 1 / 100"

section \<open>The building sections\<close>

definition building_key :: "dashboard_row \<Rightarrow> uuid" where
  "building_key r = (case dr_BuildingID r of None \<Rightarrow> uuid_Nil | Some i \<Rightarrow> i)"

definition new_building :: "dashboard_row \<Rightarrow> dashboard_building" where
  "new_building r =
     \<lparr>db_BuildingID = building_key r, db_BuildingName = dr_BuildingName r, db_Rows = [], db_TotalConsumption = 0,
      db_TotalProduction = 0, db_TotalInvoice = 0, db_Currency = dr_Currency r, db_BuildingBill = None,
      db_DivergesFromRows = False\<rparr>"

definition add_row :: "dashboard_row \<Rightarrow> dashboard_building \<Rightarrow> dashboard_building" where
  "add_row r b =
     b\<lparr>db_Rows := db_Rows b @ [r], db_TotalConsumption := db_TotalConsumption b + dr_Consumption r,
       db_TotalProduction := db_TotalProduction b + dr_Production r,
       db_TotalInvoice := db_TotalInvoice b + dr_Invoice r\<rparr>"

text \<open>The second loop: a building-scope invoice is shown beside the rows of its building.\<close>

definition attach_bill ::
  "dashboard_row \<Rightarrow> (uuid \<rightharpoonup> dashboard_building) \<Rightarrow> (uuid \<rightharpoonup> dashboard_building)" where
  "attach_bill bill byID =
     (case dr_BuildingID bill of
        None \<Rightarrow> byID
      | Some i \<Rightarrow>
          (case byID i of
             None \<Rightarrow> byID
           | Some b \<Rightarrow> byID(i \<mapsto> b\<lparr>db_BuildingBill := Some bill,
               db_DivergesFromRows := (divergenceTolerance < \<bar>dr_Invoice bill - db_TotalInvoice b\<bar>)\<rparr>)))"

definition groupByBuilding :: "dashboard_row list \<Rightarrow> dashboard_row list \<Rightarrow> dashboard_building list" where
  "groupByBuilding rows buildingBills =
     (case groups_of building_key new_building add_row rows of
        (order, byID) \<Rightarrow> map (\<lambda>i. the (fold attach_bill buildingBills byID i)) order)"

section \<open>The netting per currency\<close>

definition new_netting :: "dashboard_row \<Rightarrow> dashboard_netting" where
  "new_netting r =
     \<lparr>dn_Currency = dr_Currency r, dn_TotalConsumption = 0, dn_TotalProduction = 0, dn_Net = 0, dn_NetStatus = None,
      dn_TotalInvoice = 0, dn_EfficiencyPct = None, dn_PeriodKey = dr_PeriodKey r, dn_CompanyBillID = None\<rparr>"

definition net_row :: "dashboard_row \<Rightarrow> dashboard_netting \<Rightarrow> dashboard_netting" where
  "net_row r n =
     n\<lparr>dn_TotalConsumption := dn_TotalConsumption n + dr_Consumption r,
       dn_TotalProduction := dn_TotalProduction n + dr_Production r,
       dn_TotalInvoice := dn_TotalInvoice n + dr_Invoice r\<rparr>"

definition company_bill ::
  "dashboard_row \<Rightarrow> (currency_code \<rightharpoonup> dashboard_netting) \<Rightarrow> (currency_code \<rightharpoonup> dashboard_netting)" where
  "company_bill bill byCurrency =
     (case byCurrency (dr_Currency bill) of
        None \<Rightarrow> byCurrency
      | Some n \<Rightarrow> if dn_CompanyBillID n = None
                  then byCurrency(dr_Currency bill \<mapsto> n\<lparr>dn_CompanyBillID := Some (dr_BillID bill)\<rparr>)
                  else byCurrency)"

definition finish_netting :: "declib \<Rightarrow> dashboard_netting \<Rightarrow> dashboard_netting" where
  "finish_netting L n =
     (let net = dn_TotalConsumption n - dn_TotalProduction n
      in n\<lparr>dn_Net := net,
           dn_NetStatus := Some (if net < 0 then NetStatusProduction else NetStatusConsumption),
           dn_EfficiencyPct :=
             (if 0 < dn_TotalConsumption n
              then Some (Round L (Div L (dn_TotalProduction n) (dn_TotalConsumption n) * hundred) 2)
              else dn_EfficiencyPct n)\<rparr>)"

definition netPerCurrency :: "declib \<Rightarrow> dashboard_row list \<Rightarrow> dashboard_row list \<Rightarrow> dashboard_netting list" where
  "netPerCurrency L rows companyBills =
     (case groups_of dr_Currency new_netting net_row rows of
        (order, byCurrency) \<Rightarrow>
          map (\<lambda>c. finish_netting L (the (fold company_bill companyBills byCurrency c))) order)"

definition BuildDashboard ::
  "declib \<Rightarrow> dashboard_row list \<Rightarrow> dashboard_row list \<Rightarrow> dashboard_row list \<Rightarrow> dashboard_result" where
  "BuildDashboard L rows buildingBills companyBills =
     \<lparr>Buildings = groupByBuilding rows buildingBills, Netting = netPerCurrency L rows companyBills, Plants = no_plants\<rparr>"

section \<open>What the loops leave\<close>

interpretation consumption: group_total new_building add_row db_TotalConsumption dr_Consumption
  by unfold_locales (simp_all add: new_building_def add_row_def)

interpretation production: group_total new_building add_row db_TotalProduction dr_Production
  by unfold_locales (simp_all add: new_building_def add_row_def)

interpretation invoice: group_total new_building add_row db_TotalInvoice dr_Invoice
  by unfold_locales (simp_all add: new_building_def add_row_def)

interpretation net_consumption: group_total new_netting net_row dn_TotalConsumption dr_Consumption
  by unfold_locales (simp_all add: new_netting_def net_row_def)

interpretation net_production: group_total new_netting net_row dn_TotalProduction dr_Production
  by unfold_locales (simp_all add: new_netting_def net_row_def)

interpretation net_invoice: group_total new_netting net_row dn_TotalInvoice dr_Invoice
  by unfold_locales (simp_all add: new_netting_def net_row_def)

lemma add_rows_simps [simp]:
  "db_BuildingID (fold add_row rs b) = db_BuildingID b" "db_BuildingName (fold add_row rs b) = db_BuildingName b"
  "db_Currency (fold add_row rs b) = db_Currency b" "db_BuildingBill (fold add_row rs b) = db_BuildingBill b"
  "db_DivergesFromRows (fold add_row rs b) = db_DivergesFromRows b" "db_Rows (fold add_row rs b) = db_Rows b @ rs"
  by (induction rs arbitrary: b) (simp_all add: add_row_def)

lemma net_rows_simps [simp]:
  "dn_Currency (fold net_row rs n) = dn_Currency n" "dn_PeriodKey (fold net_row rs n) = dn_PeriodKey n"
  "dn_CompanyBillID (fold net_row rs n) = dn_CompanyBillID n" "dn_EfficiencyPct (fold net_row rs n) = dn_EfficiencyPct n"
  by (induction rs arbitrary: n) (simp_all add: net_row_def)

abbreviation bills_of :: "uuid \<Rightarrow> dashboard_row list \<Rightarrow> dashboard_row list" where
  "bills_of i bills \<equiv> filter (\<lambda>b. dr_BuildingID b = Some i) bills"

lemma attach_bills:
  "fold attach_bill bills byID i =
     (case byID i of
        None \<Rightarrow> None
      | Some b \<Rightarrow> Some (if bills_of i bills = [] then b
          else b\<lparr>db_BuildingBill := Some (last (bills_of i bills)),
             db_DivergesFromRows := (divergenceTolerance < \<bar>dr_Invoice (last (bills_of i bills)) - db_TotalInvoice b\<bar>)\<rparr>))"
proof (induction bills rule: rev_induct)
  case (snoc bill bills)
  show ?case
  proof (cases "dr_BuildingID bill = Some i")
    case True
    with snoc show ?thesis by (cases "byID i") (simp_all add: attach_bill_def)
  next
    case False
    then have "attach_bill bill m i = m i" for m :: "uuid \<rightharpoonup> dashboard_building"
      by (auto simp: attach_bill_def split: option.split)
    with False snoc show ?thesis by (cases "byID i") simp_all
  qed
qed (simp split: option.split)

lemma company_bills:
  "fold company_bill bills m c =
     (case m c of
        None \<Rightarrow> None
      | Some n \<Rightarrow> Some (n\<lparr>dn_CompanyBillID :=
          (case (dn_CompanyBillID n, members dr_Currency c bills) of
             (None, b # _) \<Rightarrow> Some (dr_BillID b) | (x, _) \<Rightarrow> x)\<rparr>))"
proof (induction bills arbitrary: m)
  case Nil
  show ?case by (cases "m c") (simp_all split: option.split)
next
  case (Cons b bills)
  show ?case
  proof (cases "dr_Currency b = c")
    case True
    then show ?thesis unfolding fold_simps comp_apply Cons.IH
      by (cases "m c") (auto simp: company_bill_def split: option.split)
  next
    case False
    then have "company_bill b m c = m c" by (auto simp: company_bill_def split: option.split)
    with False show ?thesis unfolding fold_simps comp_apply Cons.IH by (cases "m c") simp_all
  qed
qed

lemma groupByBuilding_section:
  assumes "b \<in> set (groupByBuilding rows bills)"
  obtains i y g where "i \<in> building_key ` set rows" and "y \<in> set rows" and "building_key y = i"
    and "g = fold add_row (members building_key i rows) (new_building y)"
    and "snd (groups_of building_key new_building add_row rows) i = Some g"
    and "b = (if bills_of i bills = [] then g
          else g\<lparr>db_BuildingBill := Some (last (bills_of i bills)),
             db_DivergesFromRows := (divergenceTolerance < \<bar>dr_Invoice (last (bills_of i bills)) - db_TotalInvoice g\<bar>)\<rparr>)"
proof -
  obtain order byID where g: "groups_of building_key new_building add_row rows = (order, byID)"
    by (cases "groups_of building_key new_building add_row rows")
  have "order = first_keys (map building_key rows)"
    using groups_of_order [of building_key new_building add_row rows] g by simp
  then obtain i where i: "i \<in> building_key ` set rows" "b = the (fold attach_bill bills byID i)"
    using assms unfolding groupByBuilding_def g by auto
  show thesis
    by (rule groups_of_Some [OF i(1), of new_building add_row], rule that [OF i(1) _ _ refl])
      (use i(2) g in \<open>auto simp: attach_bills\<close>)
qed

lemma groupByBuilding_ids: "map db_BuildingID (groupByBuilding rows bills) = first_keys (map building_key rows)"
proof -
  obtain order byID where g: "groups_of building_key new_building add_row rows = (order, byID)"
    by (cases "groups_of building_key new_building add_row rows")
  have order: "order = first_keys (map building_key rows)"
    using groups_of_order [of building_key new_building add_row rows] g by simp
  have "db_BuildingID (the (fold attach_bill bills byID i)) = i" if "i \<in> set order" for i
  proof -
    have "i \<in> building_key ` set rows" using that order by simp
    then show ?thesis
      by (rule groups_of_Some [where fresh = new_building and upd = add_row])
        (use g in \<open>auto simp: attach_bills new_building_def add_row_def\<close>)
  qed
  then have "map db_BuildingID (map (\<lambda>i. the (fold attach_bill bills byID i)) order) = order"
    by (simp add: map_idI)
  then show ?thesis by (simp add: groupByBuilding_def g order)
qed

lemma groupByBuilding_totals:
  assumes "b \<in> set (groupByBuilding rows bills)"
  defines "i \<equiv> db_BuildingID b"
  shows "db_Rows b = members building_key i rows"
    and "db_TotalConsumption b = sum_list (map dr_Consumption (members building_key i rows))"
    and "db_TotalProduction b = sum_list (map dr_Production (members building_key i rows))"
    and "db_TotalInvoice b = sum_list (map dr_Invoice (members building_key i rows))"
    and "db_BuildingBill b = (if bills_of i bills = [] then None else Some (last (bills_of i bills)))"
    and "db_DivergesFromRows b \<longleftrightarrow> bills_of i bills \<noteq> [] \<and>
      1 / 100 < \<bar>dr_Invoice (last (bills_of i bills)) - db_TotalInvoice b\<bar>"
proof -
  obtain j y g where y: "building_key y = j" and g: "g = fold add_row (members building_key j rows) (new_building y)"
    and look: "snd (groups_of building_key new_building add_row rows) j = Some g"
    and b: "b = (if bills_of j bills = [] then g
          else g\<lparr>db_BuildingBill := Some (last (bills_of j bills)),
             db_DivergesFromRows := (divergenceTolerance < \<bar>dr_Invoice (last (bills_of j bills)) - db_TotalInvoice g\<bar>)\<rparr>)"
    using assms(1) by (rule groupByBuilding_section)
  have i: "i = j" unfolding i_def b using y by (simp add: g new_building_def)
  note t = consumption.total_group [OF look] production.total_group [OF look] invoice.total_group [OF look]
  have g0: "db_Rows g = members building_key j rows" "db_BuildingBill g = None" "\<not> db_DivergesFromRows g"
    by (simp_all add: g new_building_def)
  show "db_Rows b = members building_key i rows"
    "db_TotalConsumption b = sum_list (map dr_Consumption (members building_key i rows))"
    "db_TotalProduction b = sum_list (map dr_Production (members building_key i rows))"
    "db_TotalInvoice b = sum_list (map dr_Invoice (members building_key i rows))"
    "db_BuildingBill b = (if bills_of i bills = [] then None else Some (last (bills_of i bills)))"
    "db_DivergesFromRows b \<longleftrightarrow> bills_of i bills \<noteq> [] \<and>
      1 / 100 < \<bar>dr_Invoice (last (bills_of i bills)) - db_TotalInvoice b\<bar>"
    unfolding i using t g0 by (simp_all add: b divergenceTolerance_def)
qed

lemma netPerCurrency_entry:
  assumes "n \<in> set (netPerCurrency L rows bills)"
  obtains c y g where "c \<in> dr_Currency ` set rows" and "dr_Currency y = c"
    and "g = fold net_row (members dr_Currency c rows) (new_netting y)"
    and "snd (groups_of dr_Currency new_netting net_row rows) c = Some g"
    and "n = finish_netting L (g\<lparr>dn_CompanyBillID :=
      (case members dr_Currency c bills of [] \<Rightarrow> None | b # _ \<Rightarrow> Some (dr_BillID b))\<rparr>)"
proof -
  obtain order byC where g: "groups_of dr_Currency new_netting net_row rows = (order, byC)"
    by (cases "groups_of dr_Currency new_netting net_row rows")
  have "order = first_keys (map dr_Currency rows)"
    using groups_of_order [of dr_Currency new_netting net_row rows] g by simp
  then obtain c where c: "c \<in> dr_Currency ` set rows" "n = finish_netting L (the (fold company_bill bills byC c))"
    using assms unfolding netPerCurrency_def g by auto
  show thesis
  proof (rule groups_of_Some [OF c(1), of new_netting net_row])
    fix y ys
    assume y: "dr_Currency y = c"
      and look: "snd (groups_of dr_Currency new_netting net_row rows) c =
        Some (fold net_row (members dr_Currency c rows) (new_netting y))"
    then have byC: "byC c = Some (fold net_row (members dr_Currency c rows) (new_netting y))" by (simp add: g)
    have "dn_CompanyBillID (fold net_row (members dr_Currency c rows) (new_netting y)) = None"
      by (simp add: new_netting_def)
    with byC c(2) look y show thesis
      by (intro that [OF c(1) y refl look]) (simp add: company_bills split: list.split)
  qed
qed

lemma netPerCurrency_currencies: "map dn_Currency (netPerCurrency L rows bills) = first_keys (map dr_Currency rows)"
proof -
  obtain order byC where g: "groups_of dr_Currency new_netting net_row rows = (order, byC)"
    by (cases "groups_of dr_Currency new_netting net_row rows")
  have order: "order = first_keys (map dr_Currency rows)"
    using groups_of_order [of dr_Currency new_netting net_row rows] g by simp
  have "dn_Currency (finish_netting L (the (fold company_bill bills byC c))) = c" if "c \<in> set order" for c
  proof -
    have "c \<in> dr_Currency ` set rows" using that order by simp
    then show ?thesis
      by (rule groups_of_Some [where fresh = new_netting and upd = net_row])
        (use g in \<open>auto simp: company_bills new_netting_def net_row_def finish_netting_def Let_def\<close>)
  qed
  then have "map dn_Currency (map (\<lambda>c. finish_netting L (the (fold company_bill bills byC c))) order) = order"
    by (simp add: map_idI)
  then show ?thesis by (simp add: netPerCurrency_def g order)
qed

lemma netPerCurrency_totals:
  assumes "n \<in> set (netPerCurrency L rows bills)"
  defines "c \<equiv> dn_Currency n"
  shows "dn_TotalConsumption n = sum_list (map dr_Consumption (members dr_Currency c rows))"
    and "dn_TotalProduction n = sum_list (map dr_Production (members dr_Currency c rows))"
    and "dn_TotalInvoice n = sum_list (map dr_Invoice (members dr_Currency c rows))"
    and "dn_Net n = dn_TotalConsumption n - dn_TotalProduction n"
    and "dn_NetStatus n = Some (if dn_TotalConsumption n < dn_TotalProduction n then NetStatusProduction else NetStatusConsumption)"
    and "dn_EfficiencyPct n = (if 0 < dn_TotalConsumption n
      then Some (Round L (Div L (dn_TotalProduction n) (dn_TotalConsumption n) * 100) 2) else None)"
    and "dn_CompanyBillID n = (case members dr_Currency c bills of [] \<Rightarrow> None | b # _ \<Rightarrow> Some (dr_BillID b))"
proof -
  obtain d y g where y: "dr_Currency y = d"
    and g: "g = fold net_row (members dr_Currency d rows) (new_netting y)"
    and look: "snd (groups_of dr_Currency new_netting net_row rows) d = Some g"
    and n: "n = finish_netting L (g\<lparr>dn_CompanyBillID :=
      (case members dr_Currency d bills of [] \<Rightarrow> None | b # _ \<Rightarrow> Some (dr_BillID b))\<rparr>)"
    using assms(1) by (rule netPerCurrency_entry)
  have c: "c = d" unfolding c_def n using y by (simp add: finish_netting_def Let_def g new_netting_def)
  note t = net_consumption.total_group [OF look] net_production.total_group [OF look] net_invoice.total_group [OF look]
  have g0: "dn_EfficiencyPct g = None" by (simp add: g new_netting_def)
  show "dn_TotalConsumption n = sum_list (map dr_Consumption (members dr_Currency c rows))"
    "dn_TotalProduction n = sum_list (map dr_Production (members dr_Currency c rows))"
    "dn_TotalInvoice n = sum_list (map dr_Invoice (members dr_Currency c rows))"
    "dn_Net n = dn_TotalConsumption n - dn_TotalProduction n"
    "dn_NetStatus n = Some (if dn_TotalConsumption n < dn_TotalProduction n then NetStatusProduction else NetStatusConsumption)"
    "dn_EfficiencyPct n = (if 0 < dn_TotalConsumption n
      then Some (Round L (Div L (dn_TotalProduction n) (dn_TotalConsumption n) * 100) 2) else None)"
    "dn_CompanyBillID n = (case members dr_Currency c bills of [] \<Rightarrow> None | b # _ \<Rightarrow> Some (dr_BillID b))"
    unfolding c using t g0 by (simp_all add: n finish_netting_def Let_def hundred_def)
qed

section \<open>Properties\<close>

text \<open>The totals of a building do not look at the currency of its rows: rows of two currencies are added under the
  currency of the first.\<close>

lemma groupByBuilding_mixed_currencies:
  assumes "dr_BuildingID r = Some i" and "dr_BuildingID s = Some i"
  shows "map (\<lambda>b. (db_TotalInvoice b, db_Currency b)) (groupByBuilding [r, s] []) = [(dr_Invoice r + dr_Invoice s, dr_Currency r)]"
  using assms by (simp add: groupByBuilding_def group_add_def building_key_def new_building_def add_row_def)

text \<open>The dashboard is arithmetic over the rows it shows. Its building sections come in the order of each
  building's first row and split the rows between them; a section's totals are the sums of its rows, its building-scope
  invoice is the last one given for that building, and it diverges exactly when that invoice differs from the sum by
  more than a kurus. The netting has one entry per currency with the sums of the rows in that currency, and the sections and
  the netting both add up to the total of all rows.\<close>

theorem BuildDashboard_adds_up:
  fixes L rows buildingBills companyBills
  defines "d \<equiv> BuildDashboard L rows buildingBills companyBills"
  shows "map db_BuildingID (Buildings d) = first_keys (map building_key rows) \<and>
    (\<forall>b \<in> set (Buildings d). let own = members building_key (db_BuildingID b) rows; bills = bills_of (db_BuildingID b) buildingBills
       in db_Rows b = own \<and> db_TotalConsumption b = sum_list (map dr_Consumption own) \<and>
          db_TotalProduction b = sum_list (map dr_Production own) \<and> db_TotalInvoice b = sum_list (map dr_Invoice own) \<and>
          db_BuildingBill b = (if bills = [] then None else Some (last bills)) \<and>
          db_DivergesFromRows b = (bills \<noteq> [] \<and> 1 / 100 < \<bar>dr_Invoice (last bills) - db_TotalInvoice b\<bar>)) \<and>
    map dn_Currency (Netting d) = first_keys (map dr_Currency rows) \<and>
    (\<forall>n \<in> set (Netting d). let own = members dr_Currency (dn_Currency n) rows
       in dn_TotalConsumption n = sum_list (map dr_Consumption own) \<and> dn_TotalProduction n = sum_list (map dr_Production own) \<and>
          dn_TotalInvoice n = sum_list (map dr_Invoice own) \<and> dn_Net n = dn_TotalConsumption n - dn_TotalProduction n \<and>
          (dn_NetStatus n = Some NetStatusProduction) = (dn_Net n < 0)) \<and>
    sum_list (map db_TotalInvoice (Buildings d)) = sum_list (map dr_Invoice rows) \<and>
    sum_list (map dn_TotalInvoice (Netting d)) = sum_list (map dr_Invoice rows)"
proof -
  let ?bs = "groupByBuilding rows buildingBills" and ?ns = "netPerCurrency L rows companyBills"
  have d: "Buildings d = ?bs" "Netting d = ?ns" by (simp_all add: d_def BuildDashboard_def)
  have "map db_TotalInvoice ?bs = map (\<lambda>i. sum_list (map dr_Invoice (members building_key i rows))) (map db_BuildingID ?bs)"
    using groupByBuilding_totals(4) [of _ rows buildingBills] by simp
  then have b: "sum_list (map db_TotalInvoice ?bs) = sum_list (map dr_Invoice rows)"
    by (simp only: groupByBuilding_ids sum_groups)
  have "map dn_TotalInvoice ?ns = map (\<lambda>c. sum_list (map dr_Invoice (members dr_Currency c rows))) (map dn_Currency ?ns)"
    using netPerCurrency_totals(3) [of _ L rows companyBills] by simp
  then have n: "sum_list (map dn_TotalInvoice ?ns) = sum_list (map dr_Invoice rows)"
    by (simp only: netPerCurrency_currencies sum_groups)
  have bs: "\<forall>x \<in> set ?bs. let own = members building_key (db_BuildingID x) rows; bills = bills_of (db_BuildingID x) buildingBills
       in db_Rows x = own \<and> db_TotalConsumption x = sum_list (map dr_Consumption own) \<and>
          db_TotalProduction x = sum_list (map dr_Production own) \<and> db_TotalInvoice x = sum_list (map dr_Invoice own) \<and>
          db_BuildingBill x = (if bills = [] then None else Some (last bills)) \<and>
          db_DivergesFromRows x = (bills \<noteq> [] \<and> 1 / 100 < \<bar>dr_Invoice (last bills) - db_TotalInvoice x\<bar>)"
    unfolding Let_def by (intro ballI conjI; erule groupByBuilding_totals)
  have ns: "\<forall>n \<in> set ?ns. let own = members dr_Currency (dn_Currency n) rows
       in dn_TotalConsumption n = sum_list (map dr_Consumption own) \<and> dn_TotalProduction n = sum_list (map dr_Production own) \<and>
          dn_TotalInvoice n = sum_list (map dr_Invoice own) \<and> dn_Net n = dn_TotalConsumption n - dn_TotalProduction n \<and>
          (dn_NetStatus n = Some NetStatusProduction) = (dn_Net n < 0)"
    unfolding Let_def by (intro ballI conjI, (erule netPerCurrency_totals)+) (simp add: netPerCurrency_totals)
  show ?thesis unfolding d by (intro conjI groupByBuilding_ids netPerCurrency_currencies bs ns b n)
qed

definition sample_dashboard_row :: "uuid \<Rightarrow> currency_code \<Rightarrow> dec \<Rightarrow> dashboard_row" where
  "sample_dashboard_row i c amount =
     \<lparr>dr_BillID = 1, dr_BuildingID = Some i, dr_AnalyzerID = None, dr_BuildingName = ''b'', dr_AnalyzerName = ''a'',
      dr_InstallationNumber = [], dr_EtsoCode = [], dr_PeriodKey = ''2024-01'', dr_Consumption = 10, dr_Production = 4,
      dr_ConsumptionPrice = None, dr_ProductionPrice = None, dr_Invoice = amount, dr_Currency = c, dr_Superseded = False\<rparr>"

theorem BuildDashboard_adds_up_witness:
  "let rows = [sample_dashboard_row 1 CurrencyTRY 100, sample_dashboard_row 2 CurrencyTRY 30, sample_dashboard_row 1 CurrencyTRY 5];
       d = BuildDashboard std_declib rows [sample_dashboard_row 1 CurrencyTRY 105] []
   in map db_BuildingID (Buildings d) = [1, 2] \<and> sum_list (map db_TotalInvoice (Buildings d)) = 135"
  using BuildDashboard_adds_up [of std_declib
      "[sample_dashboard_row 1 CurrencyTRY 100, sample_dashboard_row 2 CurrencyTRY 30, sample_dashboard_row 1 CurrencyTRY 5]"
      "[sample_dashboard_row 1 CurrencyTRY 105]" "[]"]
  by (simp add: Let_def sample_dashboard_row_def building_key_def first_keys_def del: One_nat_def)

end
