(* ===== verification/Billing_Rows.thy ===== *)
theory Billing_Rows
  imports Billing_Laws Go_Text
begin

text \<open>
  \<open>billing/lines.go\<close>: the persisted rows of an invoice. The flags become one comma-separated column,
  the counts 32-bit integers and the line order a 16-bit one, where the conversions of Go keep the low bits.
  \<open>json.Marshal\<close> on a map of strings is the parameter \<open>Marshal\<close>. \<open>containsFlag\<close> of the legacy
  reconciliation (\<open>migrate/legacy/reconcile.go\<close>) reads the flag column back.
\<close>

section \<open>ToModel\<close>

definition indexJSON :: "((string \<rightharpoonup> string option) \<Rightarrow> string) \<Rightarrow> declib \<Rightarrow> indexes \<Rightarrow> string" where
  "indexJSON Marshal L m = Marshal (\<lambda>k. map_option (map_option (DecString L)) (m k))"

definition flag_reason :: "flag list \<Rightarrow> string" where
  "flag_reason flags = str_join '','' (map flag_string flags)"

text \<open>The row a Go literal starts from: every field it does not name has its zero value.\<close>

definition zero_bill :: bill where
  "zero_bill =
     \<lparr>bill_ID = uuid_Nil, bill_CompanyID = uuid_Nil, bill_BuildingID = None, bill_AnalyzerID = None,
      bill_Scope = BillScopeOther [], bill_PeriodStart = zero_time, bill_PeriodEnd = zero_time, bill_PeriodKey = [],
      bill_DaysInPeriod = 0, bill_TariffID = None, bill_TariffEffectiveFrom = None, bill_ActiveImport = 0,
      bill_T1Kwh = 0, bill_T2Kwh = 0, bill_T3Kwh = 0, bill_InductiveKvarh = 0, bill_CapacitiveKvarh = 0,
      bill_ActiveExport = 0, bill_NetConsumption = 0, bill_LowTierKwh = 0, bill_HighTierKwh = 0,
      bill_MaxDemandKw = None, bill_TieredApplied = False, bill_DemandDataAvailable = False, bill_IndexStart = [],
      bill_IndexEnd = [], bill_EffectiveEnergyPrice = None, bill_LowTierPrice = None, bill_HighTierPrice = None,
      bill_EnergyCost = 0, bill_DistributionCost = 0, bill_GreenEnergyCost = 0, bill_PowerCost = 0,
      bill_DemandOverrunCost = 0, bill_ReactivePenalty = 0, bill_OtherTaxesCost = 0, bill_VatBase = 0,
      bill_VatCost = 0, bill_GenerationCredit = 0, bill_ExtraChargesCost = 0, bill_TotalCost = 0,
      bill_Currency = CurrencyCodeOther [], bill_InductiveRatio = None, bill_CapacitiveRatio = None,
      bill_InductiveThreshold = None, bill_CapacitiveThreshold = None, bill_ReactivePenaltyApplied = False,
      bill_ReactivePowerPrice = None, bill_GenerationUsage = GenerationUsageOther [],
      bill_GenerationPricePerKwh = None, bill_PtfYekdemUsed = False, bill_PtfHoursMatched = None,
      bill_PtfHoursMissing = None, bill_PtfHoursExpected = None, bill_ConsumptionHoursMissing = None,
      bill_PtfAverage = None, bill_YekdemUsed = None, bill_Status = BillStatusOther [], bill_FlagReason = None,
      bill_PdfPath = None, bill_ComputedAt = zero_time, bill_CreatedAt = zero_time, bill_UpdatedAt = zero_time\<rparr>"

text \<open>The fields a computed invoice sets; identifiers, owner and times of the row are left to the caller.\<close>

definition bill_of :: "((string \<rightharpoonup> string option) \<Rightarrow> string) \<Rightarrow> declib \<Rightarrow> invoice \<Rightarrow> bill_scope \<Rightarrow> bill" where
  "bill_of Marshal L iv scope =
     zero_bill\<lparr>bill_Scope := scope, bill_PeriodKey := i_PeriodKey iv, bill_PeriodStart := From (i_Period iv),
       bill_PeriodEnd := To (i_Period iv), bill_DaysInPeriod := word_of_int (i_Days iv), bill_TariffID := i_TariffID iv,
       bill_TariffEffectiveFrom := i_TariffEffectiveFrom iv, bill_Currency := i_Currency iv,
       bill_ActiveImport := i_ActiveImport iv, bill_T1Kwh := i_T1 iv, bill_T2Kwh := i_T2 iv, bill_T3Kwh := i_T3 iv,
       bill_InductiveKvarh := i_Inductive iv, bill_CapacitiveKvarh := i_Capacitive iv, bill_ActiveExport := i_ActiveExport iv,
       bill_NetConsumption := i_NetConsumption iv, bill_LowTierKwh := i_LowTierKwh iv, bill_HighTierKwh := i_HighTierKwh iv,
       bill_MaxDemandKw := i_MaxDemandKw iv, bill_TieredApplied := i_TieredApplied iv,
       bill_DemandDataAvailable := i_DemandDataAvailable iv, bill_IndexStart := indexJSON Marshal L (i_IndexStart iv),
       bill_IndexEnd := indexJSON Marshal L (i_IndexEnd iv), bill_EffectiveEnergyPrice := i_EffectiveEnergyPrice iv,
       bill_LowTierPrice := i_LowTierPrice iv, bill_HighTierPrice := i_HighTierPrice iv,
       bill_EnergyCost := i_EnergyCost iv, bill_DistributionCost := i_DistributionCost iv,
       bill_GreenEnergyCost := i_GreenEnergyCost iv, bill_PowerCost := i_PowerCost iv,
       bill_DemandOverrunCost := i_DemandOverrunCost iv, bill_ReactivePenalty := i_ReactivePenalty iv,
       bill_ExtraChargesCost := i_ExtraChargesCost iv, bill_OtherTaxesCost := i_OtherTaxesCost iv,
       bill_VatBase := i_VatBase iv, bill_VatCost := i_VatCost iv, bill_GenerationCredit := i_GenerationCredit iv,
       bill_TotalCost := i_TotalCost iv, bill_InductiveRatio := InductiveRatio (i_Reactive iv),
       bill_CapacitiveRatio := CapacitiveRatio (i_Reactive iv), bill_InductiveThreshold := InductiveLimit (i_Reactive iv),
       bill_CapacitiveThreshold := CapacitiveLimit (i_Reactive iv), bill_ReactivePenaltyApplied := Applied (i_Reactive iv),
       bill_ReactivePowerPrice := i_ReactivePowerPrice iv, bill_GenerationUsage := i_GenerationUsage iv,
       bill_GenerationPricePerKwh := i_GenerationPricePerKwh iv, bill_PtfYekdemUsed := i_PtfYekdemUsed iv,
       bill_Status := BillStatusIssued\<rparr>"

definition with_flags :: "flag list \<Rightarrow> bill \<Rightarrow> bill" where
  "with_flags flags b =
     (if flags \<noteq> [] then b\<lparr>bill_Status := BillStatusFlagged, bill_FlagReason := Some (flag_reason flags)\<rparr> else b)"

definition with_pricing :: "pricing option \<Rightarrow> bill \<Rightarrow> bill" where
  "with_pricing pr b =
     (case pr of
        None \<Rightarrow> b
      | Some pr \<Rightarrow>
          let expected = word_of_int (pr_HoursExpected pr); matched = word_of_int (pr_HoursMatched pr)
          in b\<lparr>bill_PtfHoursExpected := Some expected, bill_PtfHoursMatched := Some matched,
               bill_PtfHoursMissing := Some (expected - matched),
               bill_ConsumptionHoursMissing := Some (word_of_int (pr_HoursMissingConsumption pr)),
               bill_PtfAverage := pr_PTFAverage pr, bill_YekdemUsed := pr_YekdemUsed pr\<rparr>)"

definition hourly_row :: "hour_detail \<Rightarrow> bill_hourly_detail" where
  "hourly_row h =
     \<lparr>hd_BillID = uuid_Nil, hd_Ts = h_Hour h, hd_Consumption = h_Kwh h, hd_PTF = h_PTF h, hd_Yekdem = h_Yekdem h,
      hd_Kbk = h_Kbk h, hd_UnitPrice = h_UnitPrice h, hd_Cost = h_Cost h\<rparr>"

definition line_row :: "nat \<Rightarrow> line \<Rightarrow> bill_line" where
  "line_row i l =
     \<lparr>bl_ID = uuid_Nil, bl_BillID = uuid_Nil, bl_Code = l_Code l, bl_Label = l_Code l, bl_Quantity = l_Quantity l,
      bl_Unit = Some (l_Unit l), bl_UnitPrice = l_UnitPrice l, bl_RatePct = l_RatePct l, bl_Amount = l_Amount l,
      bl_SortOrder = word_of_nat i\<rparr>"

definition ToModel ::
  "((string \<rightharpoonup> string option) \<Rightarrow> string) \<Rightarrow> declib \<Rightarrow> invoice \<Rightarrow> bill_scope \<Rightarrow>
   bill \<times> bill_line list \<times> bill_hourly_detail list" where
  "ToModel Marshal L iv scope =
     (with_pricing (i_Pricing iv) (with_flags (i_Flags iv) (bill_of Marshal L iv scope)),
      map2 line_row [0..<length (i_Lines iv)] (i_Lines iv),
      (case i_Pricing iv of None \<Rightarrow> [] | Some pr \<Rightarrow> map hourly_row (pr_Hourly pr)))"

section \<open>Reading the flag column back\<close>

definition containsFlag :: "string \<Rightarrow> string \<Rightarrow> bool" where
  "containsFlag reason f = str_contains f reason"

lemma flag_string_comma: "CHR '','' \<notin> set (flag_string f)"
  by (cases f) simp_all

lemma flag_reason_split: "flags \<noteq> [] \<Longrightarrow> split_on CHR '','' (flag_reason flags) = map flag_string flags"
  unfolding flag_reason_def by (rule split_on_join) (auto simp: flag_string_comma)

lemma flag_reason_contains:
  "containsFlag (flag_reason flags) (flag_string FlagPTFDataMissing) \<longleftrightarrow> FlagPTFDataMissing \<in> set flags"
proof -
  have "str_contains (flag_string FlagPTFDataMissing) (flag_string f) \<longleftrightarrow> f = FlagPTFDataMissing" for f
    by (cases f) simp_all
  moreover have "CHR '','' \<notin> set (flag_string FlagPTFDataMissing)" by (rule flag_string_comma)
  ultimately show ?thesis
    using str_contains_join [of "CHR '',''" "flag_string FlagPTFDataMissing" "map flag_string flags"]
    by (auto simp: containsFlag_def flag_reason_def)
qed

section \<open>What the rows carry\<close>

lemma with_flags_simps [simp]:
  "bill_Status (with_flags fs b) = (if fs = [] then bill_Status b else BillStatusFlagged)"
  "bill_FlagReason (with_flags fs b) = (if fs = [] then bill_FlagReason b else Some (flag_reason fs))"
  "bill_TotalCost (with_flags fs b) = bill_TotalCost b" "bill_VatCost (with_flags fs b) = bill_VatCost b"
  by (simp_all add: with_flags_def)

lemma with_pricing_simps [simp]:
  "bill_Status (with_pricing pr b) = bill_Status b" "bill_FlagReason (with_pricing pr b) = bill_FlagReason b"
  "bill_TotalCost (with_pricing pr b) = bill_TotalCost b" "bill_VatCost (with_pricing pr b) = bill_VatCost b"
  by (simp_all add: with_pricing_def Let_def split: option.split)

lemma line_rows_nth: "i < length ls \<Longrightarrow> map2 line_row [0..<length ls] ls ! i = line_row i (ls ! i)"
  by simp

lemma line_rows_amounts: "map bl_Amount (map2 line_row [0..<length ls] ls) = map l_Amount ls"
  by (rule nth_equalityI) (simp_all add: line_row_def)

lemma sint_int16: "- 32768 \<le> k \<Longrightarrow> k < 32768 \<Longrightarrow> sint (word_of_int k :: 16 word) = k"
  by (simp add: int_word_sint)

lemma sint_int32: "- (2 ^ 31) \<le> k \<Longrightarrow> k < 2 ^ 31 \<Longrightarrow> sint (word_of_int k :: 32 word) = k"
  by (simp add: int_word_sint)

lemma sort_order: "i < 32768 \<Longrightarrow> sint (bl_SortOrder (line_row i l)) = int i"
  using sint_int16 [of "int i"] by (simp add: line_row_def)

section \<open>Properties\<close>

text \<open>The rows of an invoice lose nothing: the bill is flagged exactly when the invoice has flags, splitting its
  reason at the commas gives the flags back and the search the legacy reconciliation makes in it finds
  \<open>ptf_data_missing\<close> exactly when that flag was raised; the lines carry the amounts in order and their 16-bit sort
  order reproduces that order for every invoice of at most 32768 lines; the missing hours are the expected
  less the matched ones as long as the counts fit into 32 bits.\<close>

theorem ToModel_carries:
  assumes "ToModel Marshal L iv scope = (b, lines, hourly)"
  shows "(bill_Status b = BillStatusFlagged) = (i_Flags iv \<noteq> []) \<and>
    (case bill_FlagReason b of None \<Rightarrow> i_Flags iv = []
     | Some r \<Rightarrow> split_on CHR '','' r = map flag_string (i_Flags iv) \<and>
         containsFlag r (flag_string FlagPTFDataMissing) = (FlagPTFDataMissing \<in> set (i_Flags iv))) \<and>
    bill_TotalCost b = i_TotalCost iv \<and> map bl_Amount lines = map l_Amount (i_Lines iv) \<and>
    (length (i_Lines iv) \<le> 32768 \<longrightarrow> map (\<lambda>l. sint (bl_SortOrder l)) lines = map int [0..<length (i_Lines iv)]) \<and>
    (\<forall>pr. i_Pricing iv = Some pr \<and> 0 \<le> pr_HoursMatched pr \<and> pr_HoursMatched pr \<le> pr_HoursExpected pr \<and>
       pr_HoursExpected pr < 2 ^ 31 \<longrightarrow>
       map_option sint (bill_PtfHoursMissing b) = Some (pr_HoursExpected pr - pr_HoursMatched pr))"
proof -
  have b: "b = with_pricing (i_Pricing iv) (with_flags (i_Flags iv) (bill_of Marshal L iv scope))"
    and lines: "lines = map2 line_row [0..<length (i_Lines iv)] (i_Lines iv)"
    using assms(1) by (simp_all add: ToModel_def)
  have z: "bill_FlagReason (bill_of Marshal L iv scope) = None" "bill_Status (bill_of Marshal L iv scope) = BillStatusIssued"
    "bill_TotalCost (bill_of Marshal L iv scope) = i_TotalCost iv"
    by (simp_all add: bill_of_def zero_bill_def)
  have orders: "map (\<lambda>l. sint (bl_SortOrder l)) lines = map int [0..<length (i_Lines iv)]" if "length (i_Lines iv) \<le> 32768"
    unfolding lines by (rule nth_equalityI) (use that in \<open>simp_all add: sort_order\<close>)
  have missing: "map_option sint (bill_PtfHoursMissing b) = Some (pr_HoursExpected pr - pr_HoursMatched pr)"
    if "i_Pricing iv = Some pr" "0 \<le> pr_HoursMatched pr" "pr_HoursMatched pr \<le> pr_HoursExpected pr" "pr_HoursExpected pr < 2 ^ 31" for pr
  proof -
    have "(word_of_int (pr_HoursExpected pr) - word_of_int (pr_HoursMatched pr) :: 32 word) =
        word_of_int (pr_HoursExpected pr - pr_HoursMatched pr)" by (rule wi_hom_sub)
    moreover have "sint (word_of_int (pr_HoursExpected pr - pr_HoursMatched pr) :: 32 word) = pr_HoursExpected pr - pr_HoursMatched pr"
      using that(2-4) by (intro sint_int32) simp_all
    ultimately show ?thesis by (simp add: b that(1) with_pricing_def Let_def)
  qed
  have reason: "bill_FlagReason b = (if i_Flags iv = [] then None else Some (flag_reason (i_Flags iv)))"
    and status: "bill_Status b = (if i_Flags iv = [] then BillStatusIssued else BillStatusFlagged)"
    by (simp_all add: b z)
  have read: "case bill_FlagReason b of None \<Rightarrow> i_Flags iv = []
     | Some r \<Rightarrow> split_on CHR '','' r = map flag_string (i_Flags iv) \<and>
         containsFlag r (flag_string FlagPTFDataMissing) = (FlagPTFDataMissing \<in> set (i_Flags iv))"
  proof (cases "i_Flags iv = []")
    case True
    then show ?thesis by (simp add: reason)
  next
    case False
    then show ?thesis using flag_reason_split flag_reason_contains by (simp add: reason del: flag_string.simps)
  qed
  have "bill_TotalCost b = i_TotalCost iv" by (simp add: b z)
  with status read line_rows_amounts [of "i_Lines iv"] orders missing show ?thesis by (simp add: lines)
qed

theorem ToModel_carries_witness:
  "bill_FlagReason (fst (ToModel (\<lambda>_. []) std_declib (zero_invoice\<lparr>i_Flags := [FlagPTFDataMissing]\<rparr>) BillScopeCompany)) =
     Some (flag_string FlagPTFDataMissing) \<and>
   bill_Status (fst (ToModel (\<lambda>_. []) std_declib (zero_invoice\<lparr>i_Flags := [FlagPTFDataMissing]\<rparr>) BillScopeCompany)) =
     BillStatusFlagged"
proof -
  let ?iv = "zero_invoice\<lparr>i_Flags := [FlagPTFDataMissing]\<rparr>"
  obtain b ls hs where t: "ToModel (\<lambda>_. []) std_declib ?iv BillScopeCompany = (b, ls, hs)"
    by (cases "ToModel (\<lambda>_. []) std_declib ?iv BillScopeCompany")
  have "bill_Status b = BillStatusFlagged" using ToModel_carries [OF t] by simp
  moreover have "bill_FlagReason b = Some (flag_string FlagPTFDataMissing)"
    using t by (auto simp: ToModel_def zero_invoice_def bill_of_def zero_bill_def flag_reason_def)
  ultimately show ?thesis by (simp add: t)
qed

end
