(* ===== verification/Alarm_Rules.thy ===== *)
theory Alarm_Rules
  imports Model_Types Go_Text
begin

text \<open>
  \<open>domain/alarm\<close>: the alarm rule, its validation (\<open>alarm.go\<close>), the lookback window
  (\<open>window.go\<close>) and the suppression of notifications (\<open>frequency.go\<close>). A rule is one wide row with a
  threshold group per type. Its counts are 32-bit integers and the duration of a window is computed in 64 bits, so both
  are written at their width.
\<close>

section \<open>The rule (model/alarms.go)\<close>

type_synonym int32 = "32 word"

record alarm =
  a_ID :: uuid
  a_CompanyID :: uuid
  a_Name :: string
  a_Type :: alarm_type
  a_IsEnabled :: bool
  a_InductiveRatioThreshold :: "dec option"
  a_InductivePeriodValue :: "int32 option"
  a_InductivePeriodUnit :: "period_unit option"
  a_CapacitiveRatioThreshold :: "dec option"
  a_CapacitivePeriodValue :: "int32 option"
  a_CapacitivePeriodUnit :: "period_unit option"
  a_ActiveConsumptionMax :: "dec option"
  a_ActiveConsumptionMaxPeriodValue :: "int32 option"
  a_ActiveConsumptionMaxPeriodUnit :: "period_unit option"
  a_ActiveConsumptionMin :: "dec option"
  a_ActiveConsumptionMinPeriodValue :: "int32 option"
  a_ActiveConsumptionMinPeriodUnit :: "period_unit option"
  a_CommunicationThresholdHours :: "int32 option"
  a_VoltageMax :: "dec option"
  a_VoltageMin :: "dec option"
  a_PowerMax :: "dec option"
  a_PowerMin :: "dec option"
  a_InvoiceThresholdPct :: "dec option"
  a_NotificationFrequencyValue :: "int32 option"
  a_NotificationFrequencyUnit :: "period_unit option"
  a_CreatedAt :: time
  a_UpdatedAt :: time
  a_DeletedAt :: "time option"

section \<open>Fields and codes (alarm.go)\<close>

datatype alarm_field =
    FieldType | FieldAnalyzers | FieldSettings | FieldFrequencyValue
  | FieldInductive | FieldCapacitive | FieldActiveMax | FieldActiveMin
  | FieldCommsHours | FieldPowerMax | FieldPowerMin | FieldVoltageMax | FieldVoltageMin | FieldInvoicePct

fun field_name :: "alarm_field \<Rightarrow> string" where
  "field_name FieldType = ''type''"
| "field_name FieldAnalyzers = ''analyzer_ids''"
| "field_name FieldSettings = ''settings''"
| "field_name FieldFrequencyValue = ''notification_frequency_value''"
| "field_name FieldInductive = ''inductive_ratio_threshold''"
| "field_name FieldCapacitive = ''capacitive_ratio_threshold''"
| "field_name FieldActiveMax = ''active_consumption_max''"
| "field_name FieldActiveMin = ''active_consumption_min''"
| "field_name FieldCommsHours = ''communication_threshold_hours''"
| "field_name FieldPowerMax = ''power_max''"
| "field_name FieldPowerMin = ''power_min''"
| "field_name FieldVoltageMax = ''voltage_max''"
| "field_name FieldVoltageMin = ''voltage_min''"
| "field_name FieldInvoicePct = ''invoice_threshold_pct''"

datatype alarm_code = CodeRequired | CodeUnsupported | CodeAtLeastOne | CodeRange

definition maxPeriodHours :: int where "maxPeriodHours = 8760"

type_synonym alarm_errors = "alarm_field \<rightharpoonup> alarm_code list"

section \<open>Validate\<close>

text \<open>The bound of a period, a frequency or a communication threshold, on the signed value.\<close>

definition period_in_range :: "int32 \<Rightarrow> bool" where
  "period_in_range v \<longleftrightarrow> \<not> (sint v < 1 \<or> maxPeriodHours < sint v)"

definition validateFrequency :: "alarm \<Rightarrow> alarm_errors \<Rightarrow> alarm_errors" where
  "validateFrequency a f =
     (let v = a_NotificationFrequencyValue a; u = a_NotificationFrequencyUnit a
      in if (v = None) \<noteq> (u = None) then f(FieldFrequencyValue \<mapsto> [CodeRequired])
         else if (case v of None \<Rightarrow> False | Some x \<Rightarrow> \<not> period_in_range x) then f(FieldFrequencyValue \<mapsto> [CodeRange])
         else if (case u of None \<Rightarrow> False | Some x \<Rightarrow> \<not> PeriodUnit_Valid x) then f(FieldFrequencyValue \<mapsto> [CodeRange])
         else f)"

record threshold_group =
  threshold :: "dec option"
  period_value :: "int32 option"
  period_unit :: "period_unit option"

definition complete :: "threshold_group \<Rightarrow> bool" where
  "complete g \<longleftrightarrow>
     threshold g \<noteq> None \<and>
     (case (period_value g, period_unit g) of
        (Some v, Some u) \<Rightarrow> period_in_range v \<and> PeriodUnit_Valid u | _ \<Rightarrow> False)"

definition groups :: "alarm \<Rightarrow> alarm_field \<rightharpoonup> threshold_group" where
  "groups a =
     [FieldInductive \<mapsto> \<lparr>threshold = a_InductiveRatioThreshold a, period_value = a_InductivePeriodValue a,
                        period_unit = a_InductivePeriodUnit a\<rparr>,
      FieldCapacitive \<mapsto> \<lparr>threshold = a_CapacitiveRatioThreshold a, period_value = a_CapacitivePeriodValue a,
                        period_unit = a_CapacitivePeriodUnit a\<rparr>,
      FieldActiveMax \<mapsto> \<lparr>threshold = a_ActiveConsumptionMax a, period_value = a_ActiveConsumptionMaxPeriodValue a,
                        period_unit = a_ActiveConsumptionMaxPeriodUnit a\<rparr>,
      FieldActiveMin \<mapsto> \<lparr>threshold = a_ActiveConsumptionMin a, period_value = a_ActiveConsumptionMinPeriodValue a,
                        period_unit = a_ActiveConsumptionMinPeriodUnit a\<rparr>]"

text \<open>The range over the map of groups stops at the first complete one; the result does not depend on the order.\<close>

definition reactive_fields :: "alarm_field list" where
  "reactive_fields = [FieldInductive, FieldCapacitive, FieldActiveMax, FieldActiveMin]"

definition validateReactive :: "alarm \<Rightarrow> alarm_errors \<Rightarrow> alarm_errors" where
  "validateReactive a f =
     (if list_ex (\<lambda>x. complete (the (groups a x))) reactive_fields then f else f(FieldSettings \<mapsto> [CodeAtLeastOne]))"

definition validateComms :: "alarm \<Rightarrow> alarm_errors \<Rightarrow> alarm_errors" where
  "validateComms a f =
     (case a_CommunicationThresholdHours a of
        None \<Rightarrow> f(FieldCommsHours \<mapsto> [CodeRequired])
      | Some h \<Rightarrow> if \<not> period_in_range h then f(FieldCommsHours \<mapsto> [CodeRange]) else f)"

definition validatePower :: "alarm \<Rightarrow> alarm_errors \<Rightarrow> alarm_errors" where
  "validatePower a f =
     (let f = (if a_VoltageMax a \<noteq> None then f(FieldVoltageMax \<mapsto> [CodeUnsupported]) else f);
          f = (if a_VoltageMin a \<noteq> None then f(FieldVoltageMin \<mapsto> [CodeUnsupported]) else f)
      in if a_PowerMax a = None \<and> a_PowerMin a = None then f(FieldSettings \<mapsto> [CodeAtLeastOne]) else f)"

definition validateInvoice :: "alarm \<Rightarrow> alarm_errors \<Rightarrow> alarm_errors" where
  "validateInvoice a f =
     (case a_InvoiceThresholdPct a of
        None \<Rightarrow> f(FieldInvoicePct \<mapsto> [CodeRequired])
      | Some p \<Rightarrow> if \<not> 0 < p then f(FieldInvoicePct \<mapsto> [CodeRange]) else f)"

definition alarm_errors_of :: "alarm \<Rightarrow> int \<Rightarrow> alarm_errors" where
  "alarm_errors_of a analyzerCount =
     (let f = (if analyzerCount < 1 then [FieldAnalyzers \<mapsto> [CodeRequired]] else Map.empty);
          f = validateFrequency a f
      in case a_Type a of
           AlarmTypeReactiveLimit \<Rightarrow> validateReactive a f
         | AlarmTypeDataCommunication \<Rightarrow> validateComms a f
         | AlarmTypeCurrentVoltagePower \<Rightarrow> validatePower a f
         | AlarmTypeInvoiceIncrease \<Rightarrow> validateInvoice a f
         | _ \<Rightarrow> f(FieldType \<mapsto> [CodeUnsupported]))"

text \<open>\<open>len(f) == 0\<close>, over the keys a map of errors can have.\<close>

definition alarm_fields :: "alarm_field list" where
  "alarm_fields =
     [FieldType, FieldAnalyzers, FieldSettings, FieldFrequencyValue, FieldInductive, FieldCapacitive, FieldActiveMax,
      FieldActiveMin, FieldCommsHours, FieldPowerMax, FieldPowerMin, FieldVoltageMax, FieldVoltageMin, FieldInvoicePct]"

definition error_free :: "alarm_errors \<Rightarrow> bool" where
  "error_free f = list_all (\<lambda>x. f x = None) alarm_fields"

definition Validate_alarm :: "alarm \<Rightarrow> int \<Rightarrow> alarm_errors + unit" where
  "Validate_alarm a analyzerCount =
     (let f = alarm_errors_of a analyzerCount in if error_free f then Inr () else Inl f)"

section \<open>Windows and frequency (window.go, frequency.go)\<close>

record alarm_window =
  w_From :: time
  w_To :: time

text \<open>\<open>-time.Duration(value) * time.Hour\<close> in 64 bits.\<close>

definition hours_back :: "int32 \<Rightarrow> duration" where
  "hours_back value = sint (- (word_of_int (sint value) :: 64 word) * word_of_int hour)"

definition NewWindow :: "location \<Rightarrow> time \<Rightarrow> int32 \<Rightarrow> period_unit \<Rightarrow> alarm_window" where
  "NewWindow loc now value u =
     (if u = PeriodUnitDays then \<lparr>w_From = AddDate loc now 0 0 (- sint value), w_To = now\<rparr>
      else \<lparr>w_From = now + hours_back value, w_To = now\<rparr>)"

definition Suppressed :: "alarm \<Rightarrow> location \<Rightarrow> time option \<Rightarrow> time \<Rightarrow> bool" where
  "Suppressed a loc lastNotifiedAt now =
     (case (lastNotifiedAt, a_NotificationFrequencyValue a, a_NotificationFrequencyUnit a) of
        (Some t, Some v, Some u) \<Rightarrow> w_From (NewWindow loc now v u) < t
      | _ \<Rightarrow> False)"

section \<open>What validation accepts\<close>

lemma error_free_iff: "error_free f \<longleftrightarrow> (\<forall>x. f x = None)"
proof -
  have "x \<in> set alarm_fields" for x by (cases x) (simp_all add: alarm_fields_def)
  then show ?thesis by (auto simp: error_free_def list_all_iff)
qed

lemma error_free_empty [simp]: "error_free Map.empty"
  by (simp add: error_free_iff)

lemma error_free_upd [simp]: "\<not> error_free (f(x \<mapsto> c))"
  by (auto simp: error_free_iff)

definition frequency_ok :: "alarm \<Rightarrow> bool" where
  "frequency_ok a \<longleftrightarrow>
     (case (a_NotificationFrequencyValue a, a_NotificationFrequencyUnit a) of
        (None, None) \<Rightarrow> True | (Some v, Some u) \<Rightarrow> period_in_range v \<and> PeriodUnit_Valid u | _ \<Rightarrow> False)"

lemma validateFrequency_ok: "error_free (validateFrequency a f) \<longleftrightarrow> error_free f \<and> frequency_ok a"
  by (cases "a_NotificationFrequencyValue a"; cases "a_NotificationFrequencyUnit a")
    (simp_all add: validateFrequency_def frequency_ok_def)

lemma validateReactive_ok:
  "error_free (validateReactive a f) \<longleftrightarrow> error_free f \<and> (\<exists>x \<in> set reactive_fields. complete (the (groups a x)))"
  by (auto simp: validateReactive_def list_ex_iff)

lemma validateComms_ok:
  "error_free (validateComms a f) \<longleftrightarrow>
     error_free f \<and> (\<exists>h. a_CommunicationThresholdHours a = Some h \<and> period_in_range h)"
  by (auto simp: validateComms_def split: option.split)

lemma validatePower_ok:
  "error_free (validatePower a f) \<longleftrightarrow>
     error_free f \<and> a_VoltageMax a = None \<and> a_VoltageMin a = None \<and> (a_PowerMax a \<noteq> None \<or> a_PowerMin a \<noteq> None)"
  by (auto simp: validatePower_def Let_def)

lemma validateInvoice_ok:
  "error_free (validateInvoice a f) \<longleftrightarrow> error_free f \<and> (\<exists>p. a_InvoiceThresholdPct a = Some p \<and> 0 < p)"
  by (auto simp: validateInvoice_def split: option.split)

lemmas validate_ok = validateFrequency_ok validateReactive_ok validateComms_ok validatePower_ok validateInvoice_ok

definition settings_ok :: "alarm \<Rightarrow> bool" where
  "settings_ok a \<longleftrightarrow>
     (case a_Type a of
        AlarmTypeReactiveLimit \<Rightarrow> (\<exists>x \<in> set reactive_fields. complete (the (groups a x)))
      | AlarmTypeDataCommunication \<Rightarrow> (\<exists>h. a_CommunicationThresholdHours a = Some h \<and> period_in_range h)
      | AlarmTypeCurrentVoltagePower \<Rightarrow>
          a_VoltageMax a = None \<and> a_VoltageMin a = None \<and> (a_PowerMax a \<noteq> None \<or> a_PowerMin a \<noteq> None)
      | AlarmTypeInvoiceIncrease \<Rightarrow> (\<exists>p. a_InvoiceThresholdPct a = Some p \<and> 0 < p)
      | AlarmTypeOther _ \<Rightarrow> False)"

lemma Validate_alarm_Inr: "Validate_alarm a n = Inr () \<longleftrightarrow> 1 \<le> n \<and> frequency_ok a \<and> settings_ok a"
  by (cases "a_Type a") (auto simp: Validate_alarm_def alarm_errors_of_def Let_def validate_ok settings_ok_def)

section \<open>Windows of validated counts\<close>

lemma sint_int64: "- (2 ^ 63) \<le> k \<Longrightarrow> k < 2 ^ 63 \<Longrightarrow> sint (word_of_int k :: 64 word) = k"
  by (simp add: int_word_sint)

lemma hours_back_exact:
  assumes "- 2562047 \<le> sint v" and "sint v \<le> 2562047"
  shows "hours_back v = - sint v * hour"
proof -
  have "(- (word_of_int (sint v) :: 64 word) * word_of_int hour) = word_of_int (- sint v * hour)"
    by (simp only: wi_hom_neg wi_hom_mult)
  moreover have "sint (word_of_int (- sint v * hour) :: 64 word) = - sint v * hour"
    by (rule sint_int64) (use assms in \<open>simp_all add: hour_def ns_per_sec_def\<close>)
  ultimately show ?thesis by (simp only: hours_back_def)
qed

text \<open>One hour more and the 64-bit duration wraps to a positive number: the window would start in the future.\<close>

lemma hours_back_wraps: "0 < hours_back (word_of_int 2562048)"
proof -
  have "sint (word_of_int 2562048 :: int32) = 2562048" by (simp add: int_word_sint)
  then have "(- (word_of_int (sint (word_of_int 2562048 :: int32)) :: 64 word) * word_of_int hour) = word_of_int (- 2562048 * hour)"
    by (simp only: wi_hom_neg wi_hom_mult)
  then show ?thesis unfolding hours_back_def by (simp add: int_word_sint hour_def ns_per_sec_def)
qed

lemma NewWindow_exact:
  assumes "period_in_range v"
  shows "NewWindow (fixed_zone off) now v u =
    \<lparr>w_From = now - sint v * (if u = PeriodUnitDays then 24 * hour else hour), w_To = now\<rparr>"
proof -
  have "hours_back v = - sint v * hour"
    by (rule hours_back_exact) (use assms in \<open>simp_all add: period_in_range_def maxPeriodHours_def\<close>)
  then show ?thesis by (simp add: NewWindow_def AddDate_days_fixed hour_def)
qed

end
