(* ===== verification/Model_Rows.thy ===== *)
theory Model_Rows
  imports Model_Types
begin

text \<open>
  Further records of \<open>internal/domain/model\<close>: the stored meter reading of \<open>timeseries.go\<close>.
\<close>

record meter_reading =
  mr_AnalyzerID :: uuid
  mr_Ts :: time
  mr_Kind :: reading_kind
  mr_ActiveImport :: "dec option"
  mr_ReactiveInductiveImport :: "dec option"
  mr_ReactiveCapacitiveImport :: "dec option"
  mr_T1Import :: "dec option"
  mr_T2Import :: "dec option"
  mr_T3Import :: "dec option"
  mr_ActiveExport :: "dec option"
  mr_ReactiveInductiveExport :: "dec option"
  mr_ReactiveCapacitiveExport :: "dec option"
  mr_T1Export :: "dec option"
  mr_T2Export :: "dec option"
  mr_T3Export :: "dec option"
  mr_MaxDemandKw :: "dec option"
  mr_IntervalGenerationKwh :: "dec option"
  mr_MeterSerial :: "string option"
  mr_MultiplierApplied :: dec
  mr_SourceProvider :: integration_provider
  mr_IngestedAt :: time
  mr_Raw :: string

end
