(* ===== verification/Alarm_Evaluate.thy ===== *)
theory Alarm_Evaluate
  imports Alarm_Rules Model_Rows
begin

text \<open>
  \<open>alarm/evaluate.go\<close>: the verdict of one analyzer for one rule. A verdict is threaded through the
  checks of a rule; what could not be decided for lack of data is kept apart from what was breached. The text of an identifier
  (\<open>uuid.UUID.String\<close>) and the conversion of a number of hours through \<open>float64\<close> are parameters.
\<close>

section \<open>Verdicts\<close>

definition alarm_divisionScale :: nat where "alarm_divisionScale = 20"
definition alarm_hundred :: dec where "alarm_hundred = 100"

text \<open>The zero window of a point-in-time check is \<open>None\<close>.\<close>

record breach =
  br_Field :: alarm_field
  br_Measured :: dec
  br_Threshold :: dec
  br_Window :: "alarm_window option"
  br_Extra :: "(string \<times> string) list"

record verdict =
  v_AnalyzerID :: uuid
  v_Breaches :: "breach list"
  v_NoVerdict :: "alarm_field list"

definition new_verdict :: "uuid \<Rightarrow> verdict" where
  "new_verdict i = \<lparr>v_AnalyzerID = i, v_Breaches = [], v_NoVerdict = []\<rparr>"

definition Fired :: "verdict \<Rightarrow> bool" where "Fired v \<longleftrightarrow> 0 < length (v_Breaches v)"

definition undecided :: "alarm_field \<Rightarrow> verdict \<Rightarrow> verdict" where
  "undecided fld v = v\<lparr>v_NoVerdict := v_NoVerdict v @ [fld]\<rparr>"

definition breached :: "alarm_field \<Rightarrow> dec \<Rightarrow> dec \<Rightarrow> alarm_window option \<Rightarrow> (string \<times> string) list \<Rightarrow> verdict \<Rightarrow> verdict" where
  "breached fld measured limit w extra v =
     v\<lparr>v_Breaches := v_Breaches v @
        [\<lparr>br_Field = fld, br_Measured = measured, br_Threshold = limit, br_Window = w, br_Extra = extra\<rparr>]\<rparr>"

section \<open>The reactive groups\<close>

record reactive_alarm_input =
  rai_AnalyzerID :: uuid
  rai_Inductive :: "meter_reading list"
  rai_Capacitive :: "meter_reading list"
  rai_ActiveMax :: "meter_reading list"
  rai_ActiveMin :: "meter_reading list"
  rai_Windows :: "alarm_field \<rightharpoonup> alarm_window"

text \<open>\<open>diff\<close>: last minus first reading of a register, \<open>None\<close> when it cannot be told.\<close>

definition diff :: "meter_reading list \<Rightarrow> (meter_reading \<Rightarrow> dec option) \<Rightarrow> dec option" where
  "diff rows pick =
     (if length rows < 2 then None
      else case (pick (hd rows), pick (last rows)) of (Some first, Some lst) \<Rightarrow> Some (lst - first) | _ \<Rightarrow> None)"

definition ratio_group ::
  "declib \<Rightarrow> alarm_field \<Rightarrow> threshold_group \<Rightarrow> meter_reading list \<Rightarrow> (meter_reading \<Rightarrow> dec option) \<Rightarrow>
   alarm_window option \<Rightarrow> verdict \<Rightarrow> verdict" where
  "ratio_group L fld g rows pick w v =
     (case threshold g of
        None \<Rightarrow> v
      | Some limit \<Rightarrow>
          (case (diff rows pick, diff rows mr_ActiveImport) of
             (Some reactiveDiff, Some activeDiff) \<Rightarrow>
               let pct = (if 0 < activeDiff then DivRound L reactiveDiff activeDiff alarm_divisionScale * alarm_hundred else 0)
               in if limit < pct then breached fld pct limit w [] v else v
           | _ \<Rightarrow> undecided fld v))"

definition bound_group ::
  "alarm_field \<Rightarrow> threshold_group \<Rightarrow> meter_reading list \<Rightarrow> bool \<Rightarrow> alarm_window option \<Rightarrow> verdict \<Rightarrow> verdict" where
  "bound_group fld g rows over w v =
     (case threshold g of
        None \<Rightarrow> v
      | Some limit \<Rightarrow>
          (case diff rows mr_ActiveImport of
             None \<Rightarrow> undecided fld v
           | Some d \<Rightarrow> if over \<and> limit < d \<or> \<not> over \<and> d < limit then breached fld d limit w [] v else v))"

definition EvaluateReactive :: "declib \<Rightarrow> alarm \<Rightarrow> reactive_alarm_input \<Rightarrow> verdict" where
  "EvaluateReactive L a inp =
     (let gs = (\<lambda>x. the (groups a x)); w = rai_Windows inp;
          v = new_verdict (rai_AnalyzerID inp);
          v = ratio_group L FieldInductive (gs FieldInductive) (rai_Inductive inp) mr_ReactiveInductiveImport (w FieldInductive) v;
          v = ratio_group L FieldCapacitive (gs FieldCapacitive) (rai_Capacitive inp) mr_ReactiveCapacitiveImport (w FieldCapacitive) v;
          v = bound_group FieldActiveMax (gs FieldActiveMax) (rai_ActiveMax inp) True (w FieldActiveMax) v
      in bound_group FieldActiveMin (gs FieldActiveMin) (rai_ActiveMin inp) False (w FieldActiveMin) v)"

section \<open>Communication, power, invoice\<close>

definition EvaluateComms ::
  "declib \<Rightarrow> (duration \<Rightarrow> dec) \<Rightarrow> location \<Rightarrow> alarm \<Rightarrow> uuid \<Rightarrow> time option \<Rightarrow> time \<Rightarrow> verdict" where
  "EvaluateComms L float_hours loc a analyzerID lastReadingAt now =
     (let v = new_verdict analyzerID
      in case a_CommunicationThresholdHours a of
           None \<Rightarrow> v
         | Some h \<Rightarrow>
             (case lastReadingAt of
                None \<Rightarrow> undecided FieldCommsHours v
              | Some t \<Rightarrow>
                  let limit = of_int (sint h); measured = Round L (float_hours (Sub now t)) 3
                  in if limit < measured
                     then breached FieldCommsHours measured limit None [(''last_reading_at'', RFC3339 loc t)] v
                     else v))"

definition EvaluatePower :: "alarm \<Rightarrow> uuid \<Rightarrow> meter_reading option \<Rightarrow> alarm_window \<Rightarrow> verdict" where
  "EvaluatePower a analyzerID latest w =
     (let v = new_verdict analyzerID
      in case (case latest of None \<Rightarrow> None | Some r \<Rightarrow> mr_MaxDemandKw r) of
           None \<Rightarrow>
             (let v = (if a_PowerMax a \<noteq> None then undecided FieldPowerMax v else v)
              in if a_PowerMin a \<noteq> None then undecided FieldPowerMin v else v)
         | Some kw \<Rightarrow>
             (let v = (case a_PowerMax a of
                         None \<Rightarrow> v | Some mx \<Rightarrow> if mx < kw then breached FieldPowerMax kw mx (Some w) [] v else v)
              in case a_PowerMin a of
                   None \<Rightarrow> v | Some mn \<Rightarrow> if kw < mn then breached FieldPowerMin kw mn (Some w) [] v else v))"

definition EvaluateInvoice ::
  "declib \<Rightarrow> (uuid \<Rightarrow> string) \<Rightarrow> alarm \<Rightarrow> uuid \<Rightarrow> bill option \<Rightarrow> bill option \<Rightarrow> verdict" where
  "EvaluateInvoice L uuid_String a analyzerID latest previous =
     (let v = new_verdict analyzerID
      in case a_InvoiceThresholdPct a of
           None \<Rightarrow> v
         | Some limit \<Rightarrow>
             (case (latest, previous) of
                (Some l, Some p) \<Rightarrow>
                  if bill_TotalCost p = 0 then undecided FieldInvoicePct v
                  else
                    let pct = DivRound L (bill_TotalCost l - bill_TotalCost p) (bill_TotalCost p) alarm_divisionScale * alarm_hundred
                    in if limit < pct
                       then breached FieldInvoicePct pct limit None
                              [(''period_key'', bill_PeriodKey l), (''bill_id'', uuid_String (bill_ID l)),
                               (''previous_key'', bill_PeriodKey p), (''latest_total'', DecString L (bill_TotalCost l)),
                               (''previous_total'', DecString L (bill_TotalCost p))] v
                       else v
              | _ \<Rightarrow> undecided FieldInvoicePct v))"

section \<open>One setting\<close>

text \<open>Every check is the same judgement of a setting: nothing without a threshold, undecided without a measurement, a breach when
  the measurement crosses the threshold.\<close>

definition judge ::
  "alarm_field \<Rightarrow> dec option \<Rightarrow> dec option \<Rightarrow> bool \<Rightarrow> alarm_window option \<Rightarrow> (string \<times> string) list \<Rightarrow> verdict \<Rightarrow> verdict" where
  "judge fld limit measured over w extra v =
     (case (limit, measured) of
        (None, _) \<Rightarrow> v
      | (Some t, None) \<Rightarrow> undecided fld v
      | (Some t, Some m) \<Rightarrow> if over \<and> t < m \<or> \<not> over \<and> m < t then breached fld m t w extra v else v)"

definition crossed :: "dec option \<Rightarrow> dec option \<Rightarrow> bool \<Rightarrow> bool" where
  "crossed limit measured over =
     (case (limit, measured) of (Some t, Some m) \<Rightarrow> (if over then t < m else m < t) | _ \<Rightarrow> False)"

definition unknown :: "dec option \<Rightarrow> dec option \<Rightarrow> bool" where
  "unknown limit measured \<longleftrightarrow> limit \<noteq> None \<and> measured = None"

lemma judge_breaches:
  "v_Breaches (judge fld limit measured over w extra v) = v_Breaches v @
     (if crossed limit measured over
      then [\<lparr>br_Field = fld, br_Measured = the measured, br_Threshold = the limit, br_Window = w, br_Extra = extra\<rparr>] else [])"
  by (auto simp: judge_def crossed_def undecided_def breached_def split: option.split)

lemma judge_no_verdict:
  "v_NoVerdict (judge fld limit measured over w extra v) = v_NoVerdict v @ (if unknown limit measured then [fld] else [])"
  by (simp add: judge_def unknown_def undecided_def breached_def split: option.split)

lemmas judge_simps = judge_breaches judge_no_verdict

lemma new_verdict_simps [simp]: "v_Breaches (new_verdict i) = []" "v_NoVerdict (new_verdict i) = []"
  by (simp_all add: new_verdict_def)

definition ratio_measure :: "declib \<Rightarrow> meter_reading list \<Rightarrow> (meter_reading \<Rightarrow> dec option) \<Rightarrow> dec option" where
  "ratio_measure L rows pick =
     (case (diff rows pick, diff rows mr_ActiveImport) of
        (Some r, Some a) \<Rightarrow> Some (if 0 < a then DivRound L r a 20 * 100 else 0) | _ \<Rightarrow> None)"

lemma ratio_group_judge:
  "ratio_group L fld g rows pick w v = judge fld (threshold g) (ratio_measure L rows pick) True w [] v"
  by (simp add: ratio_group_def judge_def ratio_measure_def alarm_divisionScale_def alarm_hundred_def Let_def split: option.split)

lemma bound_group_judge:
  "bound_group fld g rows over w v = judge fld (threshold g) (diff rows mr_ActiveImport) over w [] v"
  by (simp add: bound_group_def judge_def split: option.split)

lemma EvaluatePower_judge:
  "EvaluatePower a i latest w =
     (let kw = (case latest of None \<Rightarrow> None | Some r \<Rightarrow> mr_MaxDemandKw r)
      in judge FieldPowerMin (a_PowerMin a) kw False (Some w) [] (judge FieldPowerMax (a_PowerMax a) kw True (Some w) [] (new_verdict i)))"
  by (simp add: EvaluatePower_def judge_def Let_def split: option.split)

lemma EvaluateComms_judge:
  "EvaluateComms L float_hours loc a i lastReadingAt now =
     judge FieldCommsHours (map_option (\<lambda>h. of_int (sint h)) (a_CommunicationThresholdHours a))
       (map_option (\<lambda>t. Round L (float_hours (Sub now t)) 3) lastReadingAt) True None
       [(''last_reading_at'', RFC3339 loc (the lastReadingAt))] (new_verdict i)"
  by (simp add: EvaluateComms_def judge_def Let_def split: option.split)

definition invoice_change :: "declib \<Rightarrow> bill option \<Rightarrow> bill option \<Rightarrow> dec option" where
  "invoice_change L latest previous =
     (case (latest, previous) of
        (Some l, Some p) \<Rightarrow>
          if bill_TotalCost p = 0 then None
          else Some (DivRound L (bill_TotalCost l - bill_TotalCost p) (bill_TotalCost p) 20 * 100)
      | _ \<Rightarrow> None)"

lemma EvaluateInvoice_fields:
  "map br_Field (v_Breaches (EvaluateInvoice L us a i latest previous)) =
     (if crossed (a_InvoiceThresholdPct a) (invoice_change L latest previous) True then [FieldInvoicePct] else [])"
  "v_NoVerdict (EvaluateInvoice L us a i latest previous) =
     (if unknown (a_InvoiceThresholdPct a) (invoice_change L latest previous) then [FieldInvoicePct] else [])"
  by (simp_all add: EvaluateInvoice_def crossed_def unknown_def invoice_change_def undecided_def breached_def
      alarm_divisionScale_def alarm_hundred_def Let_def split: option.split)

text \<open>The measurement of each reactive setting.\<close>

fun reactive_measure :: "declib \<Rightarrow> reactive_alarm_input \<Rightarrow> alarm_field \<Rightarrow> dec option" where
  "reactive_measure L inp FieldInductive = ratio_measure L (rai_Inductive inp) mr_ReactiveInductiveImport"
| "reactive_measure L inp FieldCapacitive = ratio_measure L (rai_Capacitive inp) mr_ReactiveCapacitiveImport"
| "reactive_measure L inp FieldActiveMax = diff (rai_ActiveMax inp) mr_ActiveImport"
| "reactive_measure L inp FieldActiveMin = diff (rai_ActiveMin inp) mr_ActiveImport"
| "reactive_measure L inp _ = None"

abbreviation limit_of :: "alarm \<Rightarrow> alarm_field \<Rightarrow> dec option" where
  "limit_of a x \<equiv> threshold (the (groups a x))"

lemma EvaluateReactive_judge:
  "EvaluateReactive L a inp =
     fold (\<lambda>x. judge x (limit_of a x) (reactive_measure L inp x) (x \<noteq> FieldActiveMin) (rai_Windows inp x) []) reactive_fields
       (new_verdict (rai_AnalyzerID inp))"
  by (simp add: EvaluateReactive_def Let_def ratio_group_judge bound_group_judge reactive_fields_def)

lemma fold_judge:
  "map br_Field (v_Breaches (fold (\<lambda>x. judge x (lm x) (m x) (over x) (w x) []) xs v)) =
     map br_Field (v_Breaches v) @ filter (\<lambda>x. crossed (lm x) (m x) (over x)) xs"
  "v_NoVerdict (fold (\<lambda>x. judge x (lm x) (m x) (over x) (w x) []) xs v) =
     v_NoVerdict v @ filter (\<lambda>x. unknown (lm x) (m x)) xs"
  by (induction xs arbitrary: v) (simp_all add: judge_simps)

lemma crossed_figures: "crossed limit measured over \<Longrightarrow> measured = Some (the measured) \<and> limit = Some (the limit)"
  by (simp add: crossed_def split: option.splits)

lemma judge_figures:
  assumes "b \<in> set (v_Breaches (judge fld limit measured over w extra v))"
  shows "b \<in> set (v_Breaches v) \<or>
    br_Field b = fld \<and> measured = Some (br_Measured b) \<and> limit = Some (br_Threshold b)"
  using assms crossed_figures [of limit measured over] by (auto simp: judge_breaches split: if_splits)

lemma fold_judge_figures:
  assumes "b \<in> set (v_Breaches (fold (\<lambda>x. judge x (lm x) (m x) (over x) (w x) []) xs v))"
  shows "b \<in> set (v_Breaches v) \<or> m (br_Field b) = Some (br_Measured b) \<and> lm (br_Field b) = Some (br_Threshold b)"
  using assms
proof (induction xs arbitrary: v)
  case (Cons x xs)
  then have "b \<in> set (v_Breaches (fold (\<lambda>x. judge x (lm x) (m x) (over x) (w x) []) xs
      (judge x (lm x) (m x) (over x) (w x) [] v)))" by simp
  from Cons.IH [OF this] judge_figures show ?case by blast
qed simp

section \<open>Properties\<close>

text \<open>What an alarm rule accepts: exactly the rules with at least one analyzer, a notification frequency that is
  absent or complete (a count from 1 to 8760 and a known unit), and settings of their own type: one complete reactive group, a
  communication threshold from 1 to 8760 hours, a power bound and no voltage bound, or a positive invoice percentage. A rule
  that is accepted gives windows and frequencies that are exact: no 64-bit duration wraps.\<close>

theorem Validate_alarm_accepts:
  "(Validate_alarm a n = Inr ()) = (1 \<le> n \<and> frequency_ok a \<and> settings_ok a) \<and>
   (Validate_alarm a n = Inr () \<longrightarrow> a_NotificationFrequencyValue a = Some v \<longrightarrow>
      w_From (NewWindow (fixed_zone off) now v PeriodUnitHours) = now - sint v * hour \<and>
      w_From (NewWindow (fixed_zone off) now v PeriodUnitDays) = now - sint v * (24 * hour))"
proof (intro conjI impI)
  show "(Validate_alarm a n = Inr ()) = (1 \<le> n \<and> frequency_ok a \<and> settings_ok a)" by (rule Validate_alarm_Inr)
  assume "Validate_alarm a n = Inr ()" and v: "a_NotificationFrequencyValue a = Some v"
  then have "frequency_ok a" by (simp add: Validate_alarm_Inr)
  with v have "period_in_range v" by (simp add: frequency_ok_def split: option.splits)
  then show "w_From (NewWindow (fixed_zone off) now v PeriodUnitHours) = now - sint v * hour"
    and "w_From (NewWindow (fixed_zone off) now v PeriodUnitDays) = now - sint v * (24 * hour)"
    by (simp_all add: NewWindow_exact)
qed

text \<open>The reactive verdict: its breaches are exactly the settings whose measurement crosses the threshold and what it
  leaves undecided exactly the settings with a threshold and no measurement, both in the fixed order of the settings; no setting
  is in both, and every breach carries the measurement and the threshold of its own setting.\<close>

theorem EvaluateReactive_exact:
  fixes L a inp
  defines "v \<equiv> EvaluateReactive L a inp"
  shows "map br_Field (v_Breaches v) =
      filter (\<lambda>x. crossed (limit_of a x) (reactive_measure L inp x) (x \<noteq> FieldActiveMin)) reactive_fields \<and>
    v_NoVerdict v = filter (\<lambda>x. unknown (limit_of a x) (reactive_measure L inp x)) reactive_fields \<and>
    set (map br_Field (v_Breaches v)) \<inter> set (v_NoVerdict v) = {} \<and>
    (\<forall>b \<in> set (v_Breaches v). reactive_measure L inp (br_Field b) = Some (br_Measured b) \<and>
       limit_of a (br_Field b) = Some (br_Threshold b))"
proof -
  have v: "map br_Field (v_Breaches v) =
      filter (\<lambda>x. crossed (limit_of a x) (reactive_measure L inp x) (x \<noteq> FieldActiveMin)) reactive_fields"
    "v_NoVerdict v = filter (\<lambda>x. unknown (limit_of a x) (reactive_measure L inp x)) reactive_fields"
    unfolding v_def EvaluateReactive_judge fold_judge by simp_all
  moreover have "\<not> (crossed l m o1 \<and> unknown l m)" for l m o1 by (auto simp: crossed_def unknown_def split: option.splits)
  then have "set (map br_Field (v_Breaches v)) \<inter> set (v_NoVerdict v) = {}" unfolding v by auto
  moreover have "\<forall>b \<in> set (v_Breaches v). reactive_measure L inp (br_Field b) = Some (br_Measured b) \<and>
       limit_of a (br_Field b) = Some (br_Threshold b)"
    unfolding v_def EvaluateReactive_judge using fold_judge_figures by fastforce
  ultimately show ?thesis by blast
qed

text \<open>Silence: whatever the library's rounding and the detour through a floating-point number of hours (accurate to a
  millionth of an hour), an analyzer breaches its communication threshold only when it has been silent for longer than the threshold,
  it does breach it once it has been silent for the threshold and 3.6 seconds, and an analyzer that never sent anything is left
  undecided instead.\<close>

theorem EvaluateComms_silence:
  assumes "decimal_lib L" and "\<forall>d. \<bar>float_hours d - of_int d / of_int hour\<bar> \<le> 1 / 10 ^ 6"
    and "a_CommunicationThresholdHours a = Some h" and "\<bar>now - t\<bar> < 2 ^ 63"
  shows "(Fired (EvaluateComms L float_hours loc a i (Some t) now) \<longrightarrow> sint h * hour < now - t) \<and>
    (sint h * hour + 3600000000 \<le> now - t \<longrightarrow> Fired (EvaluateComms L float_hours loc a i (Some t) now)) \<and>
    v_NoVerdict (EvaluateComms L float_hours loc a i (Some t) now) = [] \<and>
    \<not> Fired (EvaluateComms L float_hours loc a i None now) \<and>
    v_NoVerdict (EvaluateComms L float_hours loc a i None now) = [FieldCommsHours]"
proof -
  define m where "m = Round L (float_hours (Sub now t)) 3"
  have sub: "Sub now t = now - t" using assms(4) by (simp add: Sub_def)
  obtain n where n: "sint h = n" by blast
  have limit: "map_option (\<lambda>h. of_int (sint h)) (a_CommunicationThresholdHours a) = Some (of_int n :: dec)"
    by (simp only: assms(3) option.map n)
  have fired: "Fired (EvaluateComms L float_hours loc a i (Some t) now) \<longleftrightarrow> of_int n < m"
    unfolding EvaluateComms_judge limit by (simp add: Fired_def judge_breaches crossed_def m_def)
  obtain k where k: "m = of_int k / 10 ^ 3"
    using decimal_lib.round_grid [OF assms(1)] on_gridE unfolding m_def by blast
  have near: "\<bar>m - float_hours (now - t)\<bar> \<le> 1 / 2000"
    using decimal_lib.round_near [OF assms(1), of "float_hours (now - t)" 3] by (simp add: m_def sub)
  define q :: dec where "q = of_int (now - t) / of_int hour"
  have ten6: "(10 :: dec) ^ 6 = 1000000" by simp
  have hours: "\<bar>float_hours (now - t) - q\<bar> \<le> 1 / 1000000"
    using assms(2) [rule_format, of "now - t"] unfolding q_def ten6 .
  have "n * hour < now - t" if f: "of_int n < m"
  proof -
    have "of_int (n * 1000) < (of_int k :: dec)" using f by (simp add: k pos_less_divide_eq)
    then have "n * 1000 + 1 \<le> k" by (simp only: of_int_less_iff)
    then have "of_int (n * 1000 + 1) \<le> (of_int k :: dec)" by (simp only: of_int_le_iff)
    then have "of_int n + 1 / 1000 \<le> m" by (simp add: k)
    then have "of_int n < q" using near hours unfolding abs_le_iff by linarith
    then have "of_int (n * hour) < (of_int (now - t) :: dec)"
      by (simp add: q_def hour_def ns_per_sec_def pos_less_divide_eq)
    then show ?thesis by (simp only: of_int_less_iff)
  qed
  moreover have "of_int n < m" if "n * hour + 3600000000 \<le> now - t"
  proof -
    have "(of_int (n * hour + 3600000000) :: dec) \<le> of_int (now - t)" using that by (simp only: of_int_le_iff)
    then have "of_int n + 1 / 1000 \<le> q" by (simp add: q_def hour_def ns_per_sec_def pos_le_divide_eq)
    then show ?thesis using near hours unfolding abs_le_iff by linarith
  qed
  ultimately show ?thesis
    unfolding fired n unfolding EvaluateComms_judge limit by (simp add: judge_simps Fired_def crossed_def unknown_def)
qed

section \<open>Concrete rules\<close>

definition sample_alarm :: alarm where
  "sample_alarm =
     \<lparr>a_ID = 1, a_CompanyID = 1, a_Name = ''reactive'', a_Type = AlarmTypeReactiveLimit, a_IsEnabled = True,
      a_InductiveRatioThreshold = Some 20, a_InductivePeriodValue = Some 1, a_InductivePeriodUnit = Some PeriodUnitDays,
      a_CapacitiveRatioThreshold = Some 15, a_CapacitivePeriodValue = Some 1, a_CapacitivePeriodUnit = Some PeriodUnitDays,
      a_ActiveConsumptionMax = None, a_ActiveConsumptionMaxPeriodValue = None, a_ActiveConsumptionMaxPeriodUnit = None,
      a_ActiveConsumptionMin = None, a_ActiveConsumptionMinPeriodValue = None, a_ActiveConsumptionMinPeriodUnit = None,
      a_CommunicationThresholdHours = Some 6, a_VoltageMax = None, a_VoltageMin = None, a_PowerMax = None, a_PowerMin = None,
      a_InvoiceThresholdPct = None, a_NotificationFrequencyValue = Some 12, a_NotificationFrequencyUnit = Some PeriodUnitHours,
      a_CreatedAt = 0, a_UpdatedAt = 0, a_DeletedAt = None\<rparr>"

definition sample_meter_reading :: "time \<Rightarrow> dec \<Rightarrow> dec option \<Rightarrow> meter_reading" where
  "sample_meter_reading t active inductive =
     \<lparr>mr_AnalyzerID = 1, mr_Ts = t, mr_Kind = ReadingKindLoadProfile, mr_ActiveImport = Some active,
      mr_ReactiveInductiveImport = inductive, mr_ReactiveCapacitiveImport = None, mr_T1Import = None, mr_T2Import = None,
      mr_T3Import = None, mr_ActiveExport = None, mr_ReactiveInductiveExport = None, mr_ReactiveCapacitiveExport = None,
      mr_T1Export = None, mr_T2Export = None, mr_T3Export = None, mr_MaxDemandKw = None, mr_IntervalGenerationKwh = None,
      mr_MeterSerial = None, mr_MultiplierApplied = 1, mr_SourceProvider = IntegrationProviderOSOS, mr_IngestedAt = 0,
      mr_Raw = []\<rparr>"

definition sample_reactive_input :: reactive_alarm_input where
  "sample_reactive_input =
     (let rows = [sample_meter_reading 0 100 (Some 10), sample_meter_reading 9 200 (Some 40)]
      in \<lparr>rai_AnalyzerID = 1, rai_Inductive = rows, rai_Capacitive = rows, rai_ActiveMax = [], rai_ActiveMin = [],
          rai_Windows = Map.empty\<rparr>)"

theorem Validate_alarm_accepts_witness:
  "Validate_alarm sample_alarm 1 = Inr () \<and>
   w_From (NewWindow (fixed_zone 10800) 0 12 PeriodUnitHours) = - 12 * hour"
proof -
  have ok: "Validate_alarm sample_alarm 1 = Inr ()"
    using Validate_alarm_accepts [of sample_alarm 1]
    by (simp add: sample_alarm_def frequency_ok_def settings_ok_def period_in_range_def maxPeriodHours_def PeriodUnit_Valid_def
        PeriodUnits_def reactive_fields_def groups_def complete_def)
  then show ?thesis
    using Validate_alarm_accepts [of sample_alarm 1 12 10800 0] by (simp add: sample_alarm_def)
qed

lemma half_away_numeral [simp]: "half_away (numeral k) = numeral k"
  using half_away_of_int [of "numeral k"] by simp

lemma sample_measures:
  "reactive_measure std_declib sample_reactive_input FieldInductive = Some 30"
  "reactive_measure std_declib sample_reactive_input FieldCapacitive = None"
  by (simp_all add: sample_reactive_input_def Let_def ratio_measure_def diff_def sample_meter_reading_def round_away_def)

lemma sample_limits:
  "limit_of sample_alarm FieldInductive = Some 20" "limit_of sample_alarm FieldCapacitive = Some 15"
  "limit_of sample_alarm FieldActiveMax = None" "limit_of sample_alarm FieldActiveMin = None"
  by (simp_all add: groups_def sample_alarm_def)

theorem EvaluateReactive_exact_witness:
  "map br_Field (v_Breaches (EvaluateReactive std_declib sample_alarm sample_reactive_input)) = [FieldInductive] \<and>
   v_NoVerdict (EvaluateReactive std_declib sample_alarm sample_reactive_input) = [FieldCapacitive]"
  using EvaluateReactive_exact [of std_declib sample_alarm sample_reactive_input]
  by (simp add: reactive_fields_def sample_measures sample_limits crossed_def unknown_def del: reactive_measure.simps)

theorem EvaluateComms_silence_witness:
  "Fired (EvaluateComms std_declib (\<lambda>d. of_int d / of_int hour) utc sample_alarm 1 (Some 0) (7 * hour)) \<and>
   \<not> Fired (EvaluateComms std_declib (\<lambda>d. of_int d / of_int hour) utc sample_alarm 1 (Some 0) (6 * hour))"
proof -
  have h: "a_CommunicationThresholdHours sample_alarm = Some 6" by (simp add: sample_alarm_def)
  have s: "sint (6 :: int32) = 6" by simp
  have "\<bar>7 * hour - 0\<bar> < 2 ^ 63" "\<bar>6 * hour - 0\<bar> < 2 ^ 63" by (simp_all add: hour_def ns_per_sec_def)
  from this [THEN EvaluateComms_silence [OF std.decimal_lib_axioms _ h, of "\<lambda>d. of_int d / of_int hour", rotated]]
  show ?thesis by (simp add: s hour_def ns_per_sec_def)
qed

end
