(* ===== verification/Alarm_Message.thy ===== *)
theory Alarm_Message
  imports Alarm_Evaluate
begin

text \<open>
  \<open>alarm/message.go\<close>: the sentences of a verdict in Turkish and English and the detail stored with an
  event. \<open>fmt.Sprintf\<close> is modelled for the verbs the sentences use (\<open>%s\<close> and \<open>%%\<close>), with its marks
  for missing and extra arguments; text outside ASCII is given by its UTF-8 bytes.
\<close>

section \<open>Sprintf\<close>

fun sprintf :: "string \<Rightarrow> string list \<Rightarrow> string" where
  "sprintf [] args =
     (if args = [] then [] else ''%!(EXTRA '' @ str_join '', '' (map (\<lambda>a. ''string='' @ a) args) @ '')'')"
| "sprintf [c] args = (if c = CHR ''%'' then ''%!(NOVERB)'' else [c]) @ sprintf [] args"
| "sprintf (c # d # f) args =
     (if c \<noteq> CHR ''%'' then c # sprintf (d # f) args
      else if d = CHR ''%'' then CHR ''%'' # sprintf f args
      else (case args of [] \<Rightarrow> ''%!s(MISSING)'' @ sprintf f [] | a # as \<Rightarrow> a @ sprintf f as))"

section \<open>The sentences\<close>

fun phrase_tr :: "alarm_field \<Rightarrow> string" where
  "phrase_tr FieldInductive = ''End'' @ [CHR 0xC3, CHR 0xBC] @ ''ktif oran %%%s e'' @ [CHR 0xC5, CHR 0x9F] @
     ''i'' @ [CHR 0xC4, CHR 0x9F] @ ''i a'' @ [CHR 0xC5, CHR 0x9F] @ ''t'' @ [CHR 0xC4, CHR 0xB1] @ '' (%%%s)''"
| "phrase_tr FieldCapacitive = ''Kapasitif oran %%%s e'' @ [CHR 0xC5, CHR 0x9F] @ ''i'' @ [CHR 0xC4, CHR 0x9F] @
     ''i a'' @ [CHR 0xC5, CHR 0x9F] @ ''t'' @ [CHR 0xC4, CHR 0xB1] @ '' (%%%s)''"
| "phrase_tr FieldActiveMax = ''Aktif t'' @ [CHR 0xC3, CHR 0xBC] @ ''ketim %s kWh maksimum limiti a'' @
     [CHR 0xC5, CHR 0x9F] @ ''t'' @ [CHR 0xC4, CHR 0xB1] @ '' (%s kWh)''"
| "phrase_tr FieldActiveMin = ''Aktif t'' @ [CHR 0xC3, CHR 0xBC] @ ''ketim %s kWh minimum limitin alt'' @
     [CHR 0xC4, CHR 0xB1] @ ''na d'' @ [CHR 0xC3, CHR 0xBC, CHR 0xC5, CHR 0x9F] @ ''t'' @ [CHR 0xC3, CHR 0xBC] @ '' (%s kWh)''"
| "phrase_tr FieldCommsHours = ''Analiz'' @ [CHR 0xC3, CHR 0xB6] @ ''r %s saattir veri g'' @ [CHR 0xC3, CHR 0xB6] @
     ''ndermiyor (e'' @ [CHR 0xC5, CHR 0x9F] @ ''ik: %s saat)''"
| "phrase_tr FieldPowerMax = ''G'' @ [CHR 0xC3, CHR 0xBC, CHR 0xC3, CHR 0xA7] @ '' %s kW maksimum limiti a'' @
     [CHR 0xC5, CHR 0x9F] @ ''t'' @ [CHR 0xC4, CHR 0xB1] @ '' (%s kW)''"
| "phrase_tr FieldPowerMin = ''G'' @ [CHR 0xC3, CHR 0xBC, CHR 0xC3, CHR 0xA7] @ '' %s kW minimum limitin alt'' @
     [CHR 0xC4, CHR 0xB1] @ ''na d'' @ [CHR 0xC3, CHR 0xBC, CHR 0xC5, CHR 0x9F] @ ''t'' @ [CHR 0xC3, CHR 0xBC] @ '' (%s kW)''"
| "phrase_tr FieldInvoicePct = ''Fatura %%%s artt'' @ [CHR 0xC4, CHR 0xB1] @ '' (e'' @ [CHR 0xC5, CHR 0x9F] @
     ''ik: %%%s)''"
| "phrase_tr _ = []"

fun phrase_en :: "alarm_field \<Rightarrow> string" where
  "phrase_en FieldInductive = ''Inductive ratio %s%% exceeded the threshold (%s%%)''"
| "phrase_en FieldCapacitive = ''Capacitive ratio %s%% exceeded the threshold (%s%%)''"
| "phrase_en FieldActiveMax = ''Active consumption %s kWh exceeded the maximum (%s kWh)''"
| "phrase_en FieldActiveMin = ''Active consumption %s kWh fell below the minimum (%s kWh)''"
| "phrase_en FieldCommsHours = ''The analyzer has sent no data for %s hours (threshold: %s hours)''"
| "phrase_en FieldPowerMax = ''Power %s kW exceeded the maximum (%s kW)''"
| "phrase_en FieldPowerMin = ''Power %s kW fell below the minimum (%s kW)''"
| "phrase_en FieldInvoicePct = ''The invoice rose by %s%% (threshold: %s%%)''"
| "phrase_en _ = []"


definition defaultLocale :: string where "defaultLocale = ''tr''"

definition phrases :: "string \<rightharpoonup> (alarm_field \<Rightarrow> string)" where
  "phrases = [''tr'' \<mapsto> phrase_tr, ''en'' \<mapsto> phrase_en]"

definition DescribableFields :: "alarm_field list" where
  "DescribableFields =
     [FieldInductive, FieldCapacitive, FieldActiveMax, FieldActiveMin, FieldCommsHours, FieldPowerMax, FieldPowerMin,
      FieldInvoicePct]"

definition normaliseLocale :: "string \<Rightarrow> string" where
  "normaliseLocale locale = (if phrases locale = None then defaultLocale else locale)"

definition PhraseFor :: "string \<Rightarrow> alarm_field \<Rightarrow> string" where
  "PhraseFor locale fld = the (phrases (normaliseLocale locale)) fld"

section \<open>Describe\<close>

record alarm_detail =
  de_Analyzer :: string
  de_AlarmType :: string
  de_Breaches :: "(string \<rightharpoonup> string) list"
  de_Lines :: "string list"
  de_NoVerdict :: "alarm_field list option"

fun alarm_type_string :: "alarm_type \<Rightarrow> string" where
  "alarm_type_string AlarmTypeReactiveLimit = ''reactive_limit''"
| "alarm_type_string AlarmTypeDataCommunication = ''data_communication''"
| "alarm_type_string AlarmTypeCurrentVoltagePower = ''current_voltage_power''"
| "alarm_type_string AlarmTypeInvoiceIncrease = ''invoice_increase''"
| "alarm_type_string (AlarmTypeOther s) = s"

definition breach_line :: "declib \<Rightarrow> string \<Rightarrow> breach \<Rightarrow> string" where
  "breach_line L locale b =
     sprintf (the (phrases locale) (br_Field b)) [DecString L (br_Measured b), DecString L (br_Threshold b)]"

text \<open>The extra entries are written last and may replace an earlier one.\<close>

definition breach_row :: "declib \<Rightarrow> location \<Rightarrow> breach \<Rightarrow> string \<rightharpoonup> string" where
  "breach_row L loc b =
     (let row = [''field'' \<mapsto> field_name (br_Field b), ''measured'' \<mapsto> DecString L (br_Measured b),
                 ''threshold'' \<mapsto> DecString L (br_Threshold b)];
          row = (case br_Window b of
                   None \<Rightarrow> row
                 | Some w \<Rightarrow> if w_From w = zero_time then row
                            else row(''window_from'' \<mapsto> RFC3339 loc (w_From w), ''window_to'' \<mapsto> RFC3339 loc (w_To w)))
      in fold (\<lambda>(k, x) r. r(k \<mapsto> x)) (br_Extra b) row)"

definition em_dash :: string where
  "em_dash = '' '' @ [CHR 0xE2, CHR 0x80, CHR 0x94] @ '' ''"

definition Describe ::
  "declib \<Rightarrow> location \<Rightarrow> alarm \<Rightarrow> verdict \<Rightarrow> string \<Rightarrow> string \<Rightarrow> string \<times> string list \<times> alarm_detail" where
  "Describe L loc a v analyzerLabel locale =
     (let locale = normaliseLocale locale;
          lines = map (breach_line L locale) (v_Breaches v);
          rows = map (breach_row L loc) (v_Breaches v)
      in (a_Name a @ em_dash @ analyzerLabel, lines,
          \<lparr>de_Analyzer = analyzerLabel, de_AlarmType = alarm_type_string (a_Type a), de_Breaches = rows, de_Lines = lines,
           de_NoVerdict = (if 0 < length (v_NoVerdict v) then Some (v_NoVerdict v) else None)\<rparr>))"

section \<open>Every sentence takes the two numbers in order\<close>

definition sentence :: "string \<Rightarrow> bool" where
  "sentence t \<longleftrightarrow> (\<exists>pre mid suf. \<forall>x y. sprintf t [x, y] = pre @ x @ mid @ y @ suf)"

text \<open>A template is scanned once: what precedes the first verb, what is between the two, and the rest.\<close>

fun literal :: "string \<Rightarrow> string \<times> string" where
  "literal [] = ([], [])"
| "literal [c] = ([c], [])"
| "literal (c # d # f) =
     (if c \<noteq> CHR ''%'' then (case literal (d # f) of (p, r) \<Rightarrow> (c # p, r))
      else if d = CHR ''%'' then (case literal f of (p, r) \<Rightarrow> (CHR ''%'' # p, r))
      else ([], c # d # f))"

definition two_verbs :: "string \<Rightarrow> bool" where
  "two_verbs t =
     (case literal t of (_, r) \<Rightarrow> r \<noteq> [] \<and> (case literal (drop 2 r) of (_, r') \<Rightarrow> r' \<noteq> [] \<and> snd (literal (drop 2 r')) = [] \<and>
        (drop 2 r' = [] \<or> last (drop 2 r') \<noteq> CHR ''%'')))"

lemma sprintf_literal:
  "literal t = (p, r) \<Longrightarrow> r \<noteq> [] \<Longrightarrow> sprintf t (a # as) = p @ a @ sprintf (drop 2 r) as"
  by (induction t arbitrary: p r rule: literal.induct) (auto split: if_splits prod.splits)

lemma sprintf_rest:
  "snd (literal t) = [] \<Longrightarrow> t = [] \<or> last t \<noteq> CHR ''%'' \<Longrightarrow> sprintf t [] = fst (literal t)"
  by (induction t rule: literal.induct) (auto split: if_splits prod.splits)

lemma two_verbs_sentence:
  assumes "two_verbs t"
  shows "sentence t"
proof -
  obtain p r where p: "literal t = (p, r)" by (cases "literal t")
  obtain q r' where q: "literal (drop 2 r) = (q, r')" by (cases "literal (drop 2 r)")
  have a: "r \<noteq> []" "r' \<noteq> []" "snd (literal (drop 2 r')) = []" "drop 2 r' = [] \<or> last (drop 2 r') \<noteq> CHR ''%''"
    using assms by (simp_all add: two_verbs_def p q)
  have "sprintf t [x, y] = p @ x @ q @ y @ fst (literal (drop 2 r'))" for x y
    by (simp only: sprintf_literal [OF p a(1)] sprintf_literal [OF q a(2)] sprintf_rest [OF a(3,4)])
  then show ?thesis unfolding sentence_def by blast
qed


lemma phrases_sentence:
  assumes "fld \<in> set DescribableFields"
  shows "sentence (phrase_tr fld) \<and> sentence (phrase_en fld)"
proof -
  have "two_verbs (phrase_tr fld) \<and> two_verbs (phrase_en fld)"
    using assms by (auto simp: DescribableFields_def two_verbs_def)
  then show ?thesis using two_verbs_sentence by blast
qed

lemma PhraseFor_cases: "PhraseFor lang = phrase_tr \<or> PhraseFor lang = phrase_en"
  by (auto simp: PhraseFor_def normaliseLocale_def phrases_def defaultLocale_def fun_eq_iff split: if_splits)

lemma PhraseFor_sentence: "fld \<in> set DescribableFields \<Longrightarrow> sentence (PhraseFor lang fld)"
  using phrases_sentence [of fld] PhraseFor_cases [of lang] by auto

section \<open>Every breach of the evaluators can be told\<close>

text \<open>The verdicts that the evaluators give for a rule.\<close>

inductive verdict_of :: "declib \<Rightarrow> alarm \<Rightarrow> verdict \<Rightarrow> bool" for L :: declib and a :: alarm where
  reactive: "verdict_of L a (EvaluateReactive L a inp)"
| comms: "verdict_of L a (EvaluateComms L float_hours loc a i last_reading now)"
| power: "verdict_of L a (EvaluatePower a i latest w)"
| invoice: "verdict_of L a (EvaluateInvoice L uuid_string a i current previous)"

lemma verdict_of_describable:
  assumes "verdict_of L a v"
  shows "set (map br_Field (v_Breaches v)) \<subseteq> set DescribableFields"
  using assms
proof cases
  case (reactive inp)
  have "set (map br_Field (v_Breaches v)) \<subseteq> set reactive_fields"
    unfolding reactive EvaluateReactive_judge fold_judge by (simp add: new_verdict_def)
  also have "\<dots> \<subseteq> set DescribableFields" by (simp add: reactive_fields_def DescribableFields_def)
  finally show ?thesis .
next
  case (comms float_hours loc i last_reading now)
  then show ?thesis
    by (auto simp: EvaluateComms_def new_verdict_def Let_def undecided_def breached_def DescribableFields_def
        split: option.splits)
next
  case (power i latest w)
  then show ?thesis
    by (auto simp: EvaluatePower_def new_verdict_def Let_def undecided_def breached_def DescribableFields_def
        split: option.splits if_splits)
next
  case (invoice uuid_string i current previous)
  then show ?thesis by (auto simp: EvaluateInvoice_fields DescribableFields_def)
qed

text \<open>Telling an alarm: whatever the recipient's language (an unknown one reads Turkish), every breach that an evaluator
  finds becomes one line, in order, that is a fixed sentence of its setting with the measured value first and the threshold second:
  no breach lacks a sentence, no verb is left without its argument and no argument without its verb. The stored detail keeps the
  same lines, one row per breach with its measurement and threshold, and the settings left undecided.\<close>

theorem Describe_sentences:
  assumes "verdict_of L a v" and "Describe L loc a v label lang = (title, told, detail)"
  shows "title = a_Name a @ em_dash @ label \<and> de_Lines detail = told \<and> length told = length (v_Breaches v) \<and>
    (\<exists>pre mid suf. \<forall>k < length told.
       told ! k = pre (br_Field (v_Breaches v ! k)) @ DecString L (br_Measured (v_Breaches v ! k)) @
         mid (br_Field (v_Breaches v ! k)) @ DecString L (br_Threshold (v_Breaches v ! k)) @
         suf (br_Field (v_Breaches v ! k))) \<and>
    length (de_Breaches detail) = length told \<and> (de_NoVerdict detail = None) = (v_NoVerdict v = [])"
proof -
  have told: "told = map (breach_line L (normaliseLocale lang)) (v_Breaches v)"
    and rest: "title = a_Name a @ em_dash @ label" "de_Lines detail = told" "length (de_Breaches detail) = length told"
      "(de_NoVerdict detail = None) = (v_NoVerdict v = [])"
    using assms(2) by (auto simp: Describe_def Let_def split: if_splits)
  have "\<forall>fld. \<exists>pre mid suf. fld \<in> set DescribableFields \<longrightarrow> (\<forall>x y. sprintf (PhraseFor lang fld) [x, y] = pre @ x @ mid @ y @ suf)"
    using PhraseFor_sentence [of _ lang] unfolding sentence_def by blast
  then obtain pre mid suf where sent: "\<And>fld x y. fld \<in> set DescribableFields \<Longrightarrow>
      sprintf (PhraseFor lang fld) [x, y] = pre fld @ x @ mid fld @ y @ suf fld"
    by metis
  have "told ! k = pre (br_Field (v_Breaches v ! k)) @ DecString L (br_Measured (v_Breaches v ! k)) @
         mid (br_Field (v_Breaches v ! k)) @ DecString L (br_Threshold (v_Breaches v ! k)) @
         suf (br_Field (v_Breaches v ! k))" if k: "k < length told" for k
  proof -
    have "v_Breaches v ! k \<in> set (v_Breaches v)" using k told by simp
    then have "br_Field (v_Breaches v ! k) \<in> set DescribableFields"
      using verdict_of_describable [OF assms(1)] by auto
    from sent [OF this] show ?thesis using k by (simp add: told breach_line_def PhraseFor_def)
  qed
  then have "\<exists>pre mid suf. \<forall>k < length told.
       told ! k = pre (br_Field (v_Breaches v ! k)) @ DecString L (br_Measured (v_Breaches v ! k)) @
         mid (br_Field (v_Breaches v ! k)) @ DecString L (br_Threshold (v_Breaches v ! k)) @
         suf (br_Field (v_Breaches v ! k))" by blast
  with rest told show ?thesis by simp
qed

theorem Describe_sentences_witness:
  "\<exists>told detail. Describe std_declib utc sample_alarm (EvaluateReactive std_declib sample_alarm sample_reactive_input) ''m1'' ''fr'' =
     (''reactive'' @ em_dash @ ''m1'', told, detail) \<and> length told = 1 \<and> de_Lines detail = told \<and>
     (de_NoVerdict detail = None) = False"
proof -
  obtain title told detail where d: "Describe std_declib utc sample_alarm
      (EvaluateReactive std_declib sample_alarm sample_reactive_input) ''m1'' ''fr'' = (title, told, detail)"
    by (metis prod_cases3)
  note s = Describe_sentences [OF verdict_of.reactive d]
  have "length (map br_Field (v_Breaches (EvaluateReactive std_declib sample_alarm sample_reactive_input))) = 1"
    "v_NoVerdict (EvaluateReactive std_declib sample_alarm sample_reactive_input) = [FieldCapacitive]"
    unfolding EvaluateReactive_judge fold_judge
    by (simp_all add: reactive_fields_def sample_measures sample_limits crossed_def unknown_def new_verdict_def
        del: reactive_measure.simps)
  then show ?thesis using s d by (simp add: sample_alarm_def)
qed

end
