(* ===== verification/Load_Profile.thy ===== *)
theory Load_Profile
  imports Go_Text
begin

text \<open>
  Package \<open>loadprofile\<close>: the classification of a calendar date (\<open>classify.go\<close>), the mean consumption of each hour of
  the day per profile (\<open>profile.go\<close>) and the statistics of a profile (\<open>statistics.go\<close>). A profile's array of 24
  pointers is a list of 24 options; an hour outside the array is the panic it is in the code, \<open>None\<close> of \<open>Build\<close>.
\<close>

section \<open>Classification (classify.go)\<close>

datatype day_type = Weekday | Weekend
datatype season = Winter | Spring | Summer | Autumn

fun day_type_string :: "day_type \<Rightarrow> string" where
  "day_type_string Weekday = ''weekday''"
| "day_type_string Weekend = ''weekend''"

fun season_string :: "season \<Rightarrow> string" where
  "season_string Winter = ''winter''"
| "season_string Spring = ''spring''"
| "season_string Summer = ''summer''"
| "season_string Autumn = ''autumn''"

record date_range =
  vr_Start :: time
  vr_End :: time

text \<open>A day absent from the map \<open>WeekendDays\<close> reads \<open>false\<close>.\<close>

record lp_config =
  WeekendDays :: "int \<rightharpoonup> bool"
  Vacations :: "date_range list"
  Location :: "location option"

definition loc_or_utc :: "location option \<Rightarrow> location" where
  "loc_or_utc loc = (case loc of None \<Rightarrow> utc | Some l \<Rightarrow> l)"

definition calendarDate :: "time \<Rightarrow> location option \<Rightarrow> time" where
  "calendarDate t loc =
     (let loc = loc_or_utc loc in case date_in loc t of (y, m, day) \<Rightarrow> midnight y m day loc)"

text \<open>The weekday is asked of the date in the same location.\<close>

definition Classify :: "time \<Rightarrow> lp_config \<Rightarrow> day_type" where
  "Classify day cfg =
     (let cal = calendarDate day (Location cfg)
      in if WeekendDays cfg (weekday_of (loc_or_utc (Location cfg)) cal) = Some True then Weekend
         else if list_ex (\<lambda>v. \<not> cal < calendarDate (vr_Start v) (Location cfg) \<and>
                              \<not> calendarDate (vr_End v) (Location cfg) < cal) (Vacations cfg) then Weekend
         else Weekday)"

definition SeasonOf :: "time \<Rightarrow> location option \<Rightarrow> season" where
  "SeasonOf day loc =
     (case date_in (loc_or_utc loc) day of (_, m, _) \<Rightarrow>
        if m = 12 \<or> m = 1 \<or> m = 2 then Winter
        else if m = 3 \<or> m = 4 \<or> m = 5 then Spring
        else if m = 6 \<or> m = 7 \<or> m = 8 then Summer
        else Autumn)"

definition KeysFor :: "day_type \<Rightarrow> season \<Rightarrow> string list" where
  "KeysFor dt s = [day_type_string dt, season_string s @ ''_'' @ day_type_string dt]"

section \<open>Profiles (profile.go)\<close>

definition lp_DivisionScale :: nat where "lp_DivisionScale = 20"

record hour_value =
  hv_Day :: time
  hv_Hour :: int
  hv_Value :: dec

record profile =
  pr_Key :: string
  pr_Hours :: "dec option list"
  pr_Days :: nat

record day_accumulator =
  da_sums :: "dec list"
  da_counts :: "nat list"
  da_days :: "time set"

definition new_accumulator :: day_accumulator where
  "new_accumulator = \<lparr>da_sums = replicate 24 0, da_counts = replicate 24 0, da_days = {}\<rparr>"

definition add_value :: "lp_config \<Rightarrow> hour_value \<Rightarrow> day_accumulator \<Rightarrow> day_accumulator" where
  "add_value cfg v acc =
     (let h = nat (hv_Hour v)
      in acc\<lparr>da_sums := (da_sums acc)[h := da_sums acc ! h + hv_Value v],
             da_counts := (da_counts acc)[h := da_counts acc ! h + 1],
             da_days := insert (calendarDate (hv_Day v) (Location cfg)) (da_days acc)\<rparr>)"

definition accumulate_key ::
  "lp_config \<Rightarrow> hour_value \<Rightarrow> string \<Rightarrow> (string \<rightharpoonup> day_accumulator) \<Rightarrow> (string \<rightharpoonup> day_accumulator)" where
  "accumulate_key cfg v key accs =
     accs(key \<mapsto> add_value cfg v (case accs key of None \<Rightarrow> new_accumulator | Some acc \<Rightarrow> acc))"

definition keys_of :: "lp_config \<Rightarrow> hour_value \<Rightarrow> string list" where
  "keys_of cfg v = KeysFor (Classify (hv_Day v) cfg) (SeasonOf (hv_Day v) (Location cfg))"

definition hour_in_array :: "hour_value \<Rightarrow> bool" where
  "hour_in_array v \<longleftrightarrow> 0 \<le> hv_Hour v \<and> hv_Hour v < 24"

fun accumulate ::
  "lp_config \<Rightarrow> hour_value list \<Rightarrow> (string \<rightharpoonup> day_accumulator) \<Rightarrow> (string \<rightharpoonup> day_accumulator) option" where
  "accumulate cfg [] accs = Some accs"
| "accumulate cfg (v # vs) accs =
     (if hour_in_array v then accumulate cfg vs (fold (accumulate_key cfg v) (keys_of cfg v) accs) else None)"

definition profile_of :: "declib \<Rightarrow> string \<Rightarrow> day_accumulator \<Rightarrow> profile" where
  "profile_of L key acc =
     \<lparr>pr_Key = key,
      pr_Hours = map (\<lambda>h. if da_counts acc ! h = 0 then None
                        else Some (DivRound L (da_sums acc ! h) (of_nat (da_counts acc ! h)) lp_DivisionScale)) [0..<24],
      pr_Days = card (da_days acc)\<rparr>"

definition Build :: "declib \<Rightarrow> hour_value list \<Rightarrow> lp_config \<Rightarrow> (string \<rightharpoonup> profile) option" where
  "Build L values cfg =
     map_option (\<lambda>accs key. map_option (profile_of L key) (accs key)) (accumulate cfg values Map.empty)"

section \<open>Statistics (statistics.go)\<close>

text \<open>\<open>PowWithPrecision\<close> of the library is the parameter \<open>pow\<close>; \<open>None\<close> is its error.\<close>

definition oneHalf :: dec where "oneHalf = 1 / 2"

record lp_statistics =
  st_Max :: "dec option"
  st_Min :: "dec option"
  st_HourOfMax :: "nat option"
  st_Mean :: "dec option"
  st_StdDev :: "dec option"
  st_Range :: "dec option"
  st_LoadFactor :: "dec option"

definition no_statistics :: lp_statistics where
  "no_statistics =
     \<lparr>st_Max = None, st_Min = None, st_HourOfMax = None, st_Mean = None, st_StdDev = None, st_Range = None,
      st_LoadFactor = None\<rparr>"

text \<open>The two slices \<open>values\<close> and \<open>hours\<close> as one list of pairs.\<close>

definition hour_points :: "profile \<Rightarrow> (nat \<times> dec) list" where
  "hour_points p =
     concat (map (\<lambda>h. case pr_Hours p ! h of None \<Rightarrow> [] | Some v \<Rightarrow> [(h, v)]) [0..<length (pr_Hours p)])"

definition stats_step :: "nat \<times> dec \<Rightarrow> dec \<times> dec \<times> nat \<times> dec \<Rightarrow> dec \<times> dec \<times> nat \<times> dec" where
  "stats_step = (\<lambda>(h, v) (mx, mn, hourOfMax, sum_so_far).
     (if mx < v then v else mx, if v < mn then v else mn, if mx < v then h else hourOfMax, sum_so_far + v))"

definition variance_of :: "declib \<Rightarrow> dec \<Rightarrow> dec list \<Rightarrow> dec" where
  "variance_of L mean values =
     DivRound L (fold (\<lambda>v s. s + (v - mean) * (v - mean)) values 0) (of_nat (length values)) lp_DivisionScale"

definition Stats :: "declib \<Rightarrow> (dec \<Rightarrow> dec \<Rightarrow> nat \<Rightarrow> dec option) \<Rightarrow> profile \<Rightarrow> lp_statistics" where
  "Stats L pow p =
     (case hour_points p of
        [] \<Rightarrow> no_statistics
      | (h0, v0) # ps \<Rightarrow>
          (case fold stats_step (hour_points p) (v0, v0, h0, 0) of (mx, mn, hourOfMax, values_sum) \<Rightarrow>
             let n = of_nat (length (hour_points p));
                 mean = DivRound L values_sum n lp_DivisionScale;
                 variance = variance_of L mean (map snd (hour_points p));
                 loadFactor = (if mx = 0 then 0 else DivRound L mean mx lp_DivisionScale)
             in \<lparr>st_Max = Some mx, st_Min = Some mn, st_HourOfMax = Some hourOfMax, st_Mean = Some mean,
                 st_StdDev = pow variance oneHalf lp_DivisionScale, st_Range = Some (mx - mn),
                 st_LoadFactor = Some loadFactor\<rparr>))"

section \<open>Dates in a zone of fixed offset\<close>

lemma calendarDate_fixed:
  "calendarDate t (Some (fixed_zone off)) = (local_day (fixed_zone off) t * 86400 - off) * ns_per_sec"
proof -
  obtain y m d where "date_in (fixed_zone off) t = (y, m, d)" by (cases "date_in (fixed_zone off) t")
  then show ?thesis by (simp add: calendarDate_def loc_or_utc_def Let_def midnight_fixed date_in_days)
qed

lemma calendarDate_less:
  "calendarDate s (Some (fixed_zone off)) < calendarDate t (Some (fixed_zone off)) \<longleftrightarrow>
   local_day (fixed_zone off) s < local_day (fixed_zone off) t"
  by (simp add: calendarDate_fixed ns_per_sec_def)

lemma Classify_fixed:
  assumes "Location cfg = Some (fixed_zone off)"
  shows "Classify day cfg = Weekend \<longleftrightarrow>
    WeekendDays cfg ((local_day (fixed_zone off) day + 4) mod 7) = Some True \<or>
    (\<exists>v \<in> set (Vacations cfg). local_day (fixed_zone off) (vr_Start v) \<le> local_day (fixed_zone off) day \<and>
       local_day (fixed_zone off) day \<le> local_day (fixed_zone off) (vr_End v))"
proof -
  have w: "weekday_of (loc_or_utc (Location cfg)) (calendarDate day (Location cfg)) = (local_day (fixed_zone off) day + 4) mod 7"
    unfolding assms calendarDate_fixed by (simp add: weekday_of_def loc_or_utc_def)
  show ?thesis
    unfolding Classify_def Let_def w unfolding assms calendarDate_less by (auto simp: list_ex_iff not_less)
qed

section \<open>What the accumulators hold\<close>

lemma underscore_free: "CHR ''_'' \<notin> set (day_type_string dt)"
  by (cases dt) simp_all

lemma KeysFor_distinct [simp]: "distinct (KeysFor dt s)"
  using underscore_free [of dt] by (auto simp: KeysFor_def)

lemma keys_of_distinct [simp]: "distinct (keys_of cfg v)"
  by (simp add: keys_of_def)

text \<open>The values of a profile, and those of one hour among them.\<close>

definition matching :: "lp_config \<Rightarrow> string \<Rightarrow> hour_value list \<Rightarrow> hour_value list" where
  "matching cfg key vs = filter (\<lambda>v. key \<in> set (keys_of cfg v)) vs"

definition at_hour :: "nat \<Rightarrow> hour_value list \<Rightarrow> dec list" where
  "at_hour h vs = map hv_Value (filter (\<lambda>v. hv_Hour v = int h) vs)"

lemma accumulate_eq:
  "accumulate cfg vs accs =
     (if list_all hour_in_array vs then Some (fold (\<lambda>v. fold (accumulate_key cfg v) (keys_of cfg v)) vs accs) else None)"
  by (induction vs arbitrary: accs) simp_all

lemma fold_accumulate_key:
  "distinct ks \<Longrightarrow> fold (accumulate_key cfg v) ks accs key =
     (if key \<in> set ks then Some (add_value cfg v (case accs key of None \<Rightarrow> new_accumulator | Some acc \<Rightarrow> acc)) else accs key)"
  by (induction ks arbitrary: accs) (auto simp: accumulate_key_def)

lemma fold_accumulate:
  "fold (\<lambda>v. fold (accumulate_key cfg v) (keys_of cfg v)) vs accs key =
     (if matching cfg key vs = [] then accs key
      else Some (fold (add_value cfg) (matching cfg key vs) (case accs key of None \<Rightarrow> new_accumulator | Some acc \<Rightarrow> acc)))"
  by (induction vs arbitrary: accs) (simp_all add: matching_def fold_accumulate_key)

text \<open>One accumulator after its values.\<close>

definition acc_ok :: "day_accumulator \<Rightarrow> bool" where
  "acc_ok acc \<longleftrightarrow> length (da_sums acc) = 24 \<and> length (da_counts acc) = 24"

lemma fold_add_value:
  assumes "acc_ok acc" and "list_all hour_in_array vs" and "h < 24"
  shows "acc_ok (fold (add_value cfg) vs acc) \<and>
    da_sums (fold (add_value cfg) vs acc) ! h = da_sums acc ! h + sum_list (at_hour h vs) \<and>
    da_counts (fold (add_value cfg) vs acc) ! h = da_counts acc ! h + length (at_hour h vs) \<and>
    da_days (fold (add_value cfg) vs acc) = da_days acc \<union> (\<lambda>v. calendarDate (hv_Day v) (Location cfg)) ` set vs"
  using assms(1,2)
proof (induction vs arbitrary: acc)
  case (Cons v vs)
  have "acc_ok (add_value cfg v acc)" using Cons.prems(1) by (simp add: acc_ok_def add_value_def Let_def)
  moreover have "nat (hv_Hour v) = h \<longleftrightarrow> hv_Hour v = int h" "nat (hv_Hour v) < 24"
    using Cons.prems(2) by (auto simp: hour_in_array_def)
  ultimately show ?case
    using Cons.IH [of "add_value cfg v acc"] Cons.prems assms(3)
    by (auto simp: at_hour_def add_value_def Let_def acc_ok_def nth_list_update)
qed (simp add: at_hour_def)

lemma Build_profile:
  assumes "Build L values cfg = Some profiles"
  shows "profiles key =
    (if matching cfg key values = [] then None
     else Some \<lparr>pr_Key = key,
       pr_Hours = map (\<lambda>h. if at_hour h (matching cfg key values) = [] then None
         else Some (DivRound L (sum_list (at_hour h (matching cfg key values)))
           (of_nat (length (at_hour h (matching cfg key values)))) lp_DivisionScale)) [0..<24],
       pr_Days = card ((\<lambda>v. calendarDate (hv_Day v) (Location cfg)) ` set (matching cfg key values))\<rparr>)"
proof -
  let ?m = "matching cfg key values"
  have all: "list_all hour_in_array values"
    and p: "profiles key = map_option (profile_of L key)
      (fold (\<lambda>v. fold (accumulate_key cfg v) (keys_of cfg v)) values Map.empty key)"
    using assms by (auto simp: Build_def accumulate_eq split: if_splits)
  have m: "list_all hour_in_array ?m" using all by (auto simp: matching_def list_all_iff)
  have new: "acc_ok new_accumulator" by (simp add: acc_ok_def new_accumulator_def)
  have "profile_of L key (fold (add_value cfg) ?m new_accumulator) =
    \<lparr>pr_Key = key, pr_Hours = map (\<lambda>h. if at_hour h ?m = [] then None
         else Some (DivRound L (sum_list (at_hour h ?m)) (of_nat (length (at_hour h ?m))) lp_DivisionScale)) [0..<24],
       pr_Days = card ((\<lambda>v. calendarDate (hv_Day v) (Location cfg)) ` set ?m)\<rparr>"
    using fold_add_value [OF new m, of _ cfg] fold_add_value [OF new m, of 0 cfg]
    by (simp add: profile_of_def new_accumulator_def)
  then show ?thesis unfolding p by (simp add: fold_accumulate)
qed

section \<open>What the statistics loop finds\<close>

lemma hour_points_set: "(h, v) \<in> set (hour_points p) \<longleftrightarrow> h < length (pr_Hours p) \<and> pr_Hours p ! h = Some v"
  by (auto simp: hour_points_def split: option.splits)

lemma hour_points_Nil: "hour_points p = [] \<longleftrightarrow> (\<forall>h < length (pr_Hours p). pr_Hours p ! h = None)"
  by (auto simp: hour_points_def split: option.splits)

lemma hour_points_sorted: "sorted_wrt (<) (map fst (hour_points p))"
proof -
  have "sorted_wrt (<) (map fst (concat (map (\<lambda>h. case hs ! h of None \<Rightarrow> [] | Some v \<Rightarrow> [(h, v)]) [0..<n])))"
    for hs :: "dec option list" and n
    by (induction n) (auto simp: sorted_wrt_append split: option.splits)
  then show ?thesis unfolding hour_points_def .
qed

lemma fold_stats_step:
  assumes "sorted_wrt (<) (map fst ((h0, v0) # ps))"
    and "fold stats_step ((h0, v0) # ps) (v0, v0, h0, 0) = (mx, mn, hm, s)"
  shows "(hm, mx) \<in> set ((h0, v0) # ps) \<and> mn \<in> set (map snd ((h0, v0) # ps)) \<and>
    (\<forall>(h, v) \<in> set ((h0, v0) # ps). mn \<le> v \<and> v \<le> mx \<and> (h < hm \<longrightarrow> v < mx)) \<and>
    s = sum_list (map snd ((h0, v0) # ps))"
  using assms
proof (induction ps arbitrary: mx mn hm s rule: rev_induct)
  case Nil
  then show ?case by (simp add: stats_step_def)
next
  case (snoc x ps)
  obtain h v where x: "x = (h, v)" by (cases x)
  obtain mx' mn' hm' s' where r: "fold stats_step ((h0, v0) # ps) (v0, v0, h0, 0) = (mx', mn', hm', s')"
    by (metis prod_cases4)
  have sorted: "sorted_wrt (<) (map fst ((h0, v0) # ps))" and later: "\<forall>(k, u) \<in> set ((h0, v0) # ps). k < h"
    using snoc.prems(1) by (auto simp: x sorted_wrt_append)
  note IH = snoc.IH [OF sorted r]
  have new: "mx = (if mx' < v then v else mx')" "mn = (if v < mn' then v else mn')"
    "hm = (if mx' < v then h else hm')" "s = s' + v"
    using snoc.prems(2) r by (auto simp: x stats_step_def split: if_splits)
  have "hm' < h" using IH later by blast
  moreover have bounds: "mn' \<le> u \<and> u \<le> mx' \<and> (k < hm' \<longrightarrow> u < mx')" if "(k, u) \<in> set ((h0, v0) # ps)" for k u
    using IH that by blast
  ultimately have "\<forall>(k, u) \<in> set ((h0, v0) # ps @ [x]). mn \<le> u \<and> u \<le> mx \<and> (k < hm \<longrightarrow> u < mx)"
  proof -
    have old: "mn \<le> u \<and> u \<le> mx \<and> (k < hm \<longrightarrow> u < mx)" if "(k, u) \<in> set ((h0, v0) # ps)" for k u
      using bounds [OF that] later that unfolding new by fastforce
    have "mn \<le> v \<and> v \<le> mx \<and> (h < hm \<longrightarrow> v < mx)" unfolding new using \<open>hm' < h\<close> by auto
    with old show ?thesis unfolding x by auto
  qed
  then show ?case using IH unfolding new x by auto
qed

lemma Stats_points:
  assumes "hour_points p \<noteq> []"
  obtains mx mn hm where "st_Max (Stats L pow p) = Some mx" and "st_Min (Stats L pow p) = Some mn"
    and "st_HourOfMax (Stats L pow p) = Some hm" and "st_Range (Stats L pow p) = Some (mx - mn)"
    and "(hm, mx) \<in> set (hour_points p)" and "mn \<in> set (map snd (hour_points p))"
    and "\<And>h v. (h, v) \<in> set (hour_points p) \<Longrightarrow> mn \<le> v \<and> v \<le> mx \<and> (h < hm \<longrightarrow> v < mx)"
    and "st_Mean (Stats L pow p) = Some (DivRound L (sum_list (map snd (hour_points p))) (of_nat (length (hour_points p))) 20)"
    and "st_StdDev (Stats L pow p) = pow (variance_of L (the (st_Mean (Stats L pow p))) (map snd (hour_points p))) (1 / 2) 20"
    and "st_LoadFactor (Stats L pow p) = Some (if mx = 0 then 0 else DivRound L (the (st_Mean (Stats L pow p))) mx 20)"
proof -
  obtain h0 v0 ps where ps: "hour_points p = (h0, v0) # ps" using assms by (cases "hour_points p") auto
  obtain mx mn hm s where r: "fold stats_step ((h0, v0) # ps) (v0, v0, h0, 0) = (mx, mn, hm, s)"
    by (metis prod_cases4)
  note f = fold_stats_step [OF hour_points_sorted [of p, unfolded ps] r]
  note st = Stats_def [of L pow p, unfolded ps list.case prod.case r, unfolded Let_def lp_DivisionScale_def oneHalf_def]
  show thesis
    by (rule that [of mx mn hm]) (use f in \<open>auto simp: st ps simp del: fold_simps\<close>)
qed

text \<open>The mean of numbers on the grid, rounded to the grid, stays between the least and the greatest.\<close>

lemma mean_between:
  assumes "vs \<noteq> []" and "\<And>v. v \<in> set vs \<Longrightarrow> mn \<le> v \<and> v \<le> mx"
  shows "mn \<le> sum_list vs / of_nat (length vs) \<and> sum_list vs / of_nat (length vs) \<le> (mx :: dec)"
proof -
  have "of_nat (length vs) * mn \<le> sum_list vs \<and> sum_list vs \<le> of_nat (length vs) * mx"
    using assms(2) by (induction vs) (force simp: distrib_right)+
  moreover have "0 < (of_nat (length vs) :: dec)" using assms(1) by simp
  ultimately show ?thesis by (simp add: pos_le_divide_eq pos_divide_le_eq mult.commute)
qed

lemma round_away_between:
  "on_grid n mn \<Longrightarrow> on_grid n mx \<Longrightarrow> mn \<le> x \<Longrightarrow> x \<le> mx \<Longrightarrow> mn \<le> round_away x n \<and> round_away x n \<le> mx"
  using round_away_mono [of mn x n] round_away_mono [of x mx n] by (simp add: round_away_exact)

lemma on_grid_1 [simp]: "on_grid n 1"
  by (rule on_gridI [of _ _ "10 ^ n"]) simp

lemma Build_hours:
  assumes "Build L values cfg = Some profiles" and "profiles key = Some p"
  shows "p = \<lparr>pr_Key = key,
       pr_Hours = map (\<lambda>h. if at_hour h (matching cfg key values) = [] then None
         else Some (DivRound L (sum_list (at_hour h (matching cfg key values)))
           (of_nat (length (at_hour h (matching cfg key values)))) lp_DivisionScale)) [0..<24],
       pr_Days = card ((\<lambda>v. calendarDate (hv_Day v) (Location cfg)) ` set (matching cfg key values))\<rparr>"
  using Build_profile [OF assms(1), of key] assms(2) by (simp split: if_splits)

lemma Build_points:
  assumes "decimal_lib L" and "Build L values cfg = Some profiles" and "profiles key = Some p"
  shows "hour_points p \<noteq> []" and "length (pr_Hours p) = 24"
    and "(h, v) \<in> set (hour_points p) \<Longrightarrow> on_grid 20 v"
    and "\<forall>v \<in> set values. 0 \<le> hv_Value v \<Longrightarrow> (h, v) \<in> set (hour_points p) \<Longrightarrow> 0 \<le> v"
proof -
  note p = Build_hours [OF assms(2,3)]
  let ?ws = "\<lambda>h. at_hour h (matching cfg key values)"
  show len: "length (pr_Hours p) = 24" by (simp add: p)
  have nth: "pr_Hours p ! h = (if ?ws h = [] then None
      else Some (round_away (sum_list (?ws h) / of_nat (length (?ws h))) 20))" if "h < 24" for h
    using that by (simp add: p decimal_lib.DivRound_eq [OF assms(1)] lp_DivisionScale_def)
  have "matching cfg key values \<noteq> []" using Build_profile [OF assms(2), of key] assms(3) by (auto split: if_splits)
  then obtain u where u: "u \<in> set (matching cfg key values)" by (meson last_in_set)
  moreover have "list_all hour_in_array values"
    using assms(2) by (simp add: Build_def accumulate_eq split: if_splits)
  ultimately have "hour_in_array u" by (auto simp: matching_def list_all_iff)
  then have "nat (hv_Hour u) < 24" "?ws (nat (hv_Hour u)) \<noteq> []"
    using u by (auto simp: hour_in_array_def at_hour_def filter_empty_conv)
  then show "hour_points p \<noteq> []" using nth [of "nat (hv_Hour u)"] len unfolding hour_points_Nil by auto
  show "on_grid 20 v" if "(h, v) \<in> set (hour_points p)"
    using that nth [of h] len by (auto simp: hour_points_set split: if_splits)
  show "0 \<le> v" if pos: "\<forall>v \<in> set values. 0 \<le> hv_Value v" and hv: "(h, v) \<in> set (hour_points p)"
  proof -
    have "0 \<le> sum_list (?ws h)" using pos by (intro sum_list_nonneg) (auto simp: at_hour_def matching_def)
    then have "0 \<le> round_away (sum_list (?ws h) / of_nat (length (?ws h))) 20" by (intro round_away_nonneg) simp
    then show ?thesis using hv nth [of h] len by (auto simp: hour_points_set split: if_splits)
  qed
qed

section \<open>Properties\<close>

text \<open>The profiles of a load curve: building them fails exactly on an hour outside 0 to 23; a profile exists exactly for
  the keys that some value's day belongs to; its figure for an hour is missing exactly when no matching value has that hour, and
  is the mean of the matching values of that hour to 20 places otherwise; and it counts the distinct calendar
  dates that contributed. A day's keys are its day type and its season with the day type.\<close>

theorem Build_means:
  assumes "decimal_lib L"
  shows "(Build L values cfg = None) = list_ex (\<lambda>v. hv_Hour v < 0 \<or> 24 \<le> hv_Hour v) values \<and>
    (\<forall>profiles key. Build L values cfg = Some profiles \<longrightarrow>
       (case profiles key of
          None \<Rightarrow> matching cfg key values = []
        | Some p \<Rightarrow> matching cfg key values \<noteq> [] \<and> pr_Key p = key \<and> length (pr_Hours p) = 24 \<and>
            (\<forall>h < 24. case (pr_Hours p ! h, at_hour h (matching cfg key values)) of
                (None, []) \<Rightarrow> True
              | (Some m, w # ws) \<Rightarrow> \<bar>m - sum_list (w # ws) / of_nat (length (w # ws))\<bar> * 10 ^ 20 \<le> 1 / 2
              | _ \<Rightarrow> False) \<and>
            pr_Days p = card ((\<lambda>v. calendarDate (hv_Day v) (Location cfg)) ` set (matching cfg key values))))"
proof (intro conjI allI impI)
  show "(Build L values cfg = None) = list_ex (\<lambda>v. hv_Hour v < 0 \<or> 24 \<le> hv_Hour v) values"
    by (simp add: Build_def accumulate_eq list_all_iff list_ex_iff hour_in_array_def de_Morgan_conj not_le not_less)
  fix profiles key
  assume B: "Build L values cfg = Some profiles"
  have near: "\<bar>DivRound L a (of_nat (Suc n)) 20 - a / of_nat (Suc n)\<bar> * 10 ^ 20 \<le> 1 / 2" for a n
    unfolding decimal_lib.DivRound_eq [OF assms of_nat_neq_0] by (rule round_away_near)
  show "case profiles key of
          None \<Rightarrow> matching cfg key values = []
        | Some p \<Rightarrow> matching cfg key values \<noteq> [] \<and> pr_Key p = key \<and> length (pr_Hours p) = 24 \<and>
            (\<forall>h < 24. case (pr_Hours p ! h, at_hour h (matching cfg key values)) of
                (None, []) \<Rightarrow> True
              | (Some m, w # ws) \<Rightarrow> \<bar>m - sum_list (w # ws) / of_nat (length (w # ws))\<bar> * 10 ^ 20 \<le> 1 / 2
              | _ \<Rightarrow> False) \<and>
            pr_Days p = card ((\<lambda>v. calendarDate (hv_Day v) (Location cfg)) ` set (matching cfg key values))"
    unfolding Build_profile [OF B] lp_DivisionScale_def
    using near by (auto split: list.split simp del: of_nat_Suc)
qed

text \<open>The statistics of a built profile, for consumption that is not negative: they are all there, since a built profile has
  at least one hour; the hour of the maximum is the first hour that attains it; the mean lies between the minimum and
  the maximum, rounding included; the load factor lies between 0 and 1; and the branch of the code without a standard
  deviation is not reachable, because the variance (population divisor) is not negative. The library's root only
  has to succeed on numbers that are not negative.\<close>

theorem Build_Stats:
  assumes "decimal_lib L" and "\<forall>v. 0 \<le> v \<longrightarrow> pow v (1 / 2) 20 \<noteq> None"
    and "Build L values cfg = Some profiles" and "profiles key = Some p" and "\<forall>v \<in> set values. 0 \<le> hv_Value v"
  shows "\<exists>mx mn hm mean lf sd. Stats L pow p =
      \<lparr>st_Max = Some mx, st_Min = Some mn, st_HourOfMax = Some hm, st_Mean = Some mean, st_StdDev = Some sd,
       st_Range = Some (mx - mn), st_LoadFactor = Some lf\<rparr> \<and>
    hm < 24 \<and> pr_Hours p ! hm = Some mx \<and>
    (\<forall>h < 24. case pr_Hours p ! h of None \<Rightarrow> True | Some v \<Rightarrow> mn \<le> v \<and> v \<le> mx \<and> (v = mx \<longrightarrow> hm \<le> h)) \<and>
    0 \<le> mn \<and> mn \<le> mean \<and> mean \<le> mx \<and> 0 \<le> lf \<and> lf \<le> 1 \<and>
    (\<exists>var. 0 \<le> var \<and> pow var (1 / 2) 20 = Some sd \<and>
      \<bar>var - (\<Sum>x \<leftarrow> hour_points p. (snd x - mean)\<^sup>2) / of_nat (length (hour_points p))\<bar> * 10 ^ 20 \<le> 1 / 2)"
proof -
  note pts = Build_points [OF assms(1,3,4)]
  obtain mx mn hm where st: "st_Max (Stats L pow p) = Some mx" "st_Min (Stats L pow p) = Some mn"
    "st_HourOfMax (Stats L pow p) = Some hm" "st_Range (Stats L pow p) = Some (mx - mn)"
    and hm: "(hm, mx) \<in> set (hour_points p)" and mn: "mn \<in> set (map snd (hour_points p))"
    and all: "\<And>h v. (h, v) \<in> set (hour_points p) \<Longrightarrow> mn \<le> v \<and> v \<le> mx \<and> (h < hm \<longrightarrow> v < mx)"
    and mean: "st_Mean (Stats L pow p) =
      Some (DivRound L (sum_list (map snd (hour_points p))) (of_nat (length (hour_points p))) 20)"
    and sd: "st_StdDev (Stats L pow p) =
      pow (variance_of L (the (st_Mean (Stats L pow p))) (map snd (hour_points p))) (1 / 2) 20"
    and lf: "st_LoadFactor (Stats L pow p) = Some (if mx = 0 then 0 else DivRound L (the (st_Mean (Stats L pow p))) mx 20)"
    by (rule Stats_points [OF pts(1), of L pow]) blast
  define m where "m = the (st_Mean (Stats L pow p))"
  define f where "f = (if mx = 0 then 0 else DivRound L m mx 20)"
  define var where "var = variance_of L m (map snd (hour_points p))"
  define n :: dec where "n = of_nat (length (hour_points p))"
  have n: "n \<noteq> 0" "0 < n" using pts(1) by (simp_all add: n_def)
  have grid: "on_grid 20 mx" "on_grid 20 mn" "0 \<le> mn"
    using pts(4) [OF assms(5)] pts(3) hm mn by auto
  have "mn \<le> sum_list (map snd (hour_points p)) / of_nat (length (map snd (hour_points p))) \<and>
      sum_list (map snd (hour_points p)) / of_nat (length (map snd (hour_points p))) \<le> mx"
    by (rule mean_between) (use pts(1) all in auto)
  then have "mn \<le> m \<and> m \<le> mx"
    using round_away_between [OF grid(2,1)] by (simp add: m_def mean decimal_lib.DivRound_eq [OF assms(1)] pts(1))
  moreover have "0 \<le> f \<and> f \<le> 1"
  proof (cases "mx = 0")
    case False
    then have "0 < mx" using grid(3) calculation by linarith
    then have "0 \<le> m / mx" "m / mx \<le> 1" using calculation grid(3) by (simp_all add: pos_divide_le_eq)
    then show ?thesis
      using False round_away_between [OF on_grid_0 on_grid_1] by (simp add: f_def decimal_lib.DivRound_eq [OF assms(1)])
  qed (simp add: f_def)
  moreover have "fold (\<lambda>v s. s + (v - m) * (v - m)) vs a = a + (\<Sum>v \<leftarrow> vs. (v - m)\<^sup>2)" for vs a
    by (induction vs arbitrary: a) (simp_all add: power2_eq_square)
  then have v: "var = round_away ((\<Sum>x \<leftarrow> hour_points p. (snd x - m)\<^sup>2) / n) 20"
    using n by (simp add: var_def variance_of_def lp_DivisionScale_def decimal_lib.DivRound_eq [OF assms(1)] n_def comp_def)
  have "0 \<le> (\<Sum>x \<leftarrow> hour_points p. (snd x - m)\<^sup>2)" by (intro sum_list_nonneg) auto
  then have var: "0 \<le> var" unfolding v using n(2) by (intro round_away_nonneg) simp
  then obtain s where s: "pow var (1 / 2) 20 = Some s" using assms(2) by blast
  have "Stats L pow p =
      \<lparr>st_Max = Some mx, st_Min = Some mn, st_HourOfMax = Some hm, st_Mean = Some m, st_StdDev = Some s,
       st_Range = Some (mx - mn), st_LoadFactor = Some f\<rparr>"
    by (rule lp_statistics.equality) (simp_all add: st sd [folded m_def var_def] s lf [folded m_def] f_def m_def mean)
  moreover have "hm < 24" "pr_Hours p ! hm = Some mx" using hm pts(2) by (simp_all add: hour_points_set)
  moreover have "\<forall>h < 24. case pr_Hours p ! h of None \<Rightarrow> True | Some v \<Rightarrow> mn \<le> v \<and> v \<le> mx \<and> (v = mx \<longrightarrow> hm \<le> h)"
    using all pts(2) by (force simp: hour_points_set not_less [symmetric] split: option.split)
  moreover have "\<bar>var - (\<Sum>x \<leftarrow> hour_points p. (snd x - m)\<^sup>2) / of_nat (length (hour_points p))\<bar> * 10 ^ 20 \<le> 1 / 2"
    unfolding v n_def by (rule round_away_near)
  ultimately show ?thesis using grid(3) var s by blast
qed

section \<open>A concrete week\<close>

definition sample_lp_config :: lp_config where
  "sample_lp_config = \<lparr>WeekendDays = [0 \<mapsto> True, 6 \<mapsto> True], Vacations = [], Location = Some utc\<rparr>"

definition sample_curve :: "hour_value list" where
  "sample_curve =
     [\<lparr>hv_Day = 0, hv_Hour = 0, hv_Value = 10\<rparr>, \<lparr>hv_Day = 0, hv_Hour = 1, hv_Value = 30\<rparr>,
      \<lparr>hv_Day = 24 * hour, hv_Hour = 0, hv_Value = 20\<rparr>]"

lemma sample_built:
  "\<exists>profiles p. Build std_declib sample_curve sample_lp_config = Some profiles \<and> profiles ''weekday'' = Some p \<and>
     profiles ''winter_weekend'' = None \<and> pr_Days p = 2 \<and> take 3 (pr_Hours p) = [Some 15, Some 30, None]"
proof -
  define B where "B = Build std_declib sample_curve sample_lp_config"
  have "case B of None \<Rightarrow> False | Some profiles \<Rightarrow> profiles ''winter_weekend'' = None \<and>
      (case profiles ''weekday'' of None \<Rightarrow> False
       | Some p \<Rightarrow> pr_Days p = 2 \<and> take 3 (pr_Hours p) = [Some 15, Some 30, None])"
    unfolding B_def by code_simp
  then show ?thesis unfolding B_def [symmetric] by (auto split: option.splits)
qed

theorem Build_means_witness:
  "\<exists>profiles p m. Build std_declib sample_curve sample_lp_config = Some profiles \<and> profiles ''weekday'' = Some p \<and>
     pr_Days p = 2 \<and> pr_Hours p ! 0 = Some m \<and> \<bar>m - 15\<bar> * 10 ^ 20 \<le> 1 / 2"
proof -
  obtain profiles p where b: "Build std_declib sample_curve sample_lp_config = Some profiles"
    "profiles ''weekday'' = Some p" "pr_Days p = 2" "take 3 (pr_Hours p) = [Some 15, Some 30, None]"
    using sample_built by blast
  then have "pr_Hours p ! 0 = Some 15" by (cases "pr_Hours p") auto
  with Build_means [OF std.decimal_lib_axioms, of sample_curve sample_lp_config] b show ?thesis by auto
qed

theorem Build_Stats_witness:
  "\<exists>profiles p. Build std_declib sample_curve sample_lp_config = Some profiles \<and> profiles ''weekday'' = Some p \<and>
     st_HourOfMax (Stats std_declib (\<lambda>x _ _. Some x) p) \<noteq> None \<and>
     (\<exists>lf. st_LoadFactor (Stats std_declib (\<lambda>x _ _. Some x) p) = Some lf \<and> 0 \<le> lf \<and> lf \<le> 1)"
proof -
  obtain profiles p where b: "Build std_declib sample_curve sample_lp_config = Some profiles"
    "profiles ''weekday'' = Some p" using sample_built by blast
  have "\<forall>v \<in> set sample_curve. 0 \<le> hv_Value v" by (simp add: sample_curve_def)
  from Build_Stats [OF std.decimal_lib_axioms _ b this, of "\<lambda>x _ _. Some x"] b show ?thesis by auto
qed

end
