(* ===== verification/Go_Sort.thy ===== *)
theory Go_Sort
  imports Prelude "HOL-Library.Multiset"
begin

text \<open>
  \<open>sort.Slice\<close> and \<open>slices.SortFunc\<close> of Go's library for a comparison \<open>lt\<close>. The library's sort is not stable;
  this one is, and \<open>sort_Slice_unique\<close> says that it does not matter when no two elements tie. The locale \<open>slice_order\<close> is
  what the library asks of a comparison; the packages interpret it on theirs.
\<close>

fun insert_by :: "('a \<Rightarrow> 'a \<Rightarrow> bool) \<Rightarrow> 'a \<Rightarrow> 'a list \<Rightarrow> 'a list" where
  "insert_by lt x [] = [x]"
| "insert_by lt x (y # ys) = (if lt y x then y # insert_by lt x ys else x # y # ys)"

definition sort_Slice :: "('a \<Rightarrow> 'a \<Rightarrow> bool) \<Rightarrow> 'a list \<Rightarrow> 'a list" where
  "sort_Slice lt xs = foldr (insert_by lt) xs []"

lemma sort_Slice_simps [simp]:
  "sort_Slice lt [] = []" "sort_Slice lt (x # xs) = insert_by lt x (sort_Slice lt xs)"
  by (simp_all add: sort_Slice_def)

lemma mset_insert_by [simp]: "mset (insert_by lt x xs) = add_mset x (mset xs)"
  by (induction xs) simp_all

lemma mset_sort_Slice [simp]: "mset (sort_Slice lt xs) = mset xs"
  by (induction xs) simp_all

lemma set_sort_Slice [simp]: "set (sort_Slice lt xs) = set xs"
  by (rule mset_eq_setD) simp

lemma distinct_sort_Slice [simp]: "distinct (sort_Slice lt xs) = distinct xs"
  by (rule mset_eq_imp_distinct_iff) simp

lemma length_sort_Slice [simp]: "length (sort_Slice lt xs) = length xs"
  by (metis mset_sort_Slice size_mset)

lemma set_insert_by [simp]: "set (insert_by lt x xs) = insert x (set xs)"
  by (metis mset_insert_by set_mset_add_mset_insert set_mset_mset)

locale slice_order =
  fixes lt :: "'a \<Rightarrow> 'a \<Rightarrow> bool"
  assumes irrefl: "\<not> lt x x"
    and chain: "lt x y \<Longrightarrow> lt y z \<Longrightarrow> lt x z"
    and between: "lt x z \<Longrightarrow> lt x y \<or> lt y z"

context slice_order begin

lemma asym: "lt x y \<Longrightarrow> \<not> lt y x"
  using irrefl chain by blast

lemma not_less_trans: "\<not> lt y x \<Longrightarrow> \<not> lt z y \<Longrightarrow> \<not> lt z x"
  using between by blast

lemma insert_by_sorted:
  "sorted_wrt (\<lambda>a b. \<not> lt b a) xs \<Longrightarrow> sorted_wrt (\<lambda>a b. \<not> lt b a) (insert_by lt x xs)"
proof (induction xs)
  case (Cons y ys)
  show ?case
  proof (cases "lt y x")
    case True
    then show ?thesis using Cons asym by simp
  next
    case False
    then have "\<not> lt z x" if "z \<in> set ys" for z using not_less_trans [OF False] Cons.prems that by simp
    then show ?thesis using Cons.prems False by simp
  qed
qed simp

lemma sort_sorted: "sorted_wrt (\<lambda>a b. \<not> lt b a) (sort_Slice lt xs)"
  by (induction xs) (simp_all add: insert_by_sorted)

text \<open>Any sorted permutation is this one when no two elements tie.\<close>

lemma sort_unique:
  assumes "distinct xs" and "mset ys = mset xs" and "sorted_wrt (\<lambda>a b. \<not> lt b a) ys"
    and "\<And>a b. a \<in> set xs \<Longrightarrow> b \<in> set xs \<Longrightarrow> a \<noteq> b \<Longrightarrow> lt a b \<or> lt b a"
  shows "ys = sort_Slice lt xs"
proof -
  have "us = vs" if "distinct us" "mset us = mset vs" "sorted_wrt (\<lambda>a b. \<not> lt b a) us"
    "sorted_wrt (\<lambda>a b. \<not> lt b a) vs" "\<forall>a \<in> set us. \<forall>b \<in> set us. a \<noteq> b \<longrightarrow> lt a b \<or> lt b a" for us vs
    using that
  proof (induction us arbitrary: vs)
    case (Cons u us)
    then obtain v vs' where vs: "vs = v # vs'" by (cases vs) auto
    have sets: "set vs = set (u # us)" using mset_eq_setD [OF Cons.prems(2)] by simp
    have "v = u"
    proof (rule ccontr)
      assume "v \<noteq> u"
      then have "v \<in> set us" "u \<in> set vs'" using sets vs by auto
      then have "\<not> lt v u" "\<not> lt u v" using Cons.prems(3,4) vs by auto
      then show False using Cons.prems(5) \<open>v \<noteq> u\<close> \<open>v \<in> set us\<close> by auto
    qed
    with Cons.IH [of vs'] Cons.prems vs show ?case by simp
  qed simp
  from this [of ys "sort_Slice lt xs"] assms show ?thesis
    using sort_sorted [of xs] mset_eq_imp_distinct_iff [OF assms(2)] mset_eq_setD [OF assms(2)] by auto
qed

end

text \<open>Comparing by a key is such an order.\<close>

lemma key_order: "slice_order (\<lambda>x y. (f x :: 'k :: linorder) < f y)"
  by unfold_locales auto

text \<open>Only the comparisons between its elements matter to a sort.\<close>

lemma sort_Slice_cong:
  assumes "\<And>x y. x \<in> set xs \<Longrightarrow> y \<in> set xs \<Longrightarrow> lt x y = lt' x y"
  shows "sort_Slice lt xs = sort_Slice lt' xs"
  using assms
proof (induction xs)
  case (Cons x xs)
  have "insert_by lt x ws = insert_by lt' x ws" if "set ws \<subseteq> set xs" for ws
    using that Cons.prems by (induction ws) auto
  from this [of "sort_Slice lt' xs"] Cons show ?case by simp
qed simp

lemma sort_Slice_sorted_list:
  assumes "distinct xs" and "\<And>x y. x \<in> set xs \<Longrightarrow> y \<in> set xs \<Longrightarrow> lt x y = ((f x :: 'k :: linorder) < f y)"
    and "inj_on f (set xs)"
  shows "map f (sort_Slice lt xs) = sorted_list_of_set (f ` set xs)"
proof -
  define s where "s = sort_Slice (\<lambda>x y. f x < f y) xs"
  have "sorted_wrt (\<lambda>a b. \<not> f b < f a) s"
    unfolding s_def by (rule slice_order.sort_sorted [OF key_order])
  then have "sorted (map f s)" by (simp add: sorted_wrt_map not_less)
  moreover have "distinct (map f s)" using assms(1,3) by (simp add: distinct_map s_def)
  ultimately have "map f s = sorted_list_of_set (set (map f s))"
    by (metis sorted_list_of_set.idem_if_sorted_distinct)
  moreover have "sort_Slice lt xs = s" unfolding s_def by (rule sort_Slice_cong) (rule assms(2))
  ultimately show ?thesis by (simp add: s_def)
qed

end
