(* ===== verification/Grouping.thy ===== *)
theory Grouping
  imports Load_Profile Keyed_Groups Go_Sort
begin

text \<open>
  Package \<open>grouping\<close>: the daily consumption of the detailed graphs, bucketed by day, week, day type, season
  or season and day type. The buckets are collected in a map with a slice of keys beside it (\<open>groups_of\<close>) and the keys
  are sorted with a comparison of their own per mode.
\<close>

section \<open>Modes, days and buckets\<close>

datatype group_by = Daily | Week | DayType | Season | SeasonDayType | ByOther string

record grouped_day =
  gd_Date :: time
  gd_Active :: "dec option"
  gd_Inductive :: "dec option"
  gd_Capacitive :: "dec option"
  gd_Partial :: bool

record bucket =
  bk_Key :: string
  bk_Days :: int
  bk_Active :: "dec option"
  bk_Inductive :: "dec option"
  bk_Capacitive :: "dec option"
  bk_Partial :: bool

record extreme =
  ex_Key :: string
  ex_Value :: dec

record group_statistics =
  gs_Total :: "dec option"
  gs_Average :: "dec option"
  gs_Peak :: "extreme option"
  gs_Valley :: "extreme option"

definition Valid_by :: "group_by \<Rightarrow> bool" where
  "Valid_by m = (case m of ByOther _ \<Rightarrow> False | _ \<Rightarrow> True)"

section \<open>The key of a day\<close>

text \<open>The season is asked with the location as configured, the year and the month of the local date.\<close>

definition seasonKey :: "time \<Rightarrow> lp_config \<Rightarrow> string" where
  "seasonKey local cfg =
     (let season = SeasonOf local (Location cfg)
      in case date_in (loc_or_utc (Location cfg)) local of (year, month, _) \<Rightarrow>
           season_string season @ ''-'' @ itoa (if season = Winter \<and> month \<noteq> 12 then year - 1 else year))"

definition keyOf :: "time \<Rightarrow> group_by \<Rightarrow> lp_config \<Rightarrow> string" where
  "keyOf day m cfg =
     (let loc = loc_or_utc (Location cfg)
      in case m of
           Week \<Rightarrow> DateOnly loc (AddDate loc day 0 0 (- ((weekday_of loc day + 6) mod 7)))
         | DayType \<Rightarrow> day_type_string (Classify day cfg)
         | Season \<Rightarrow> seasonKey day cfg
         | SeasonDayType \<Rightarrow> seasonKey day cfg @ ''-'' @ day_type_string (Classify day cfg)
         | _ \<Rightarrow> DateOnly loc day)"

section \<open>The order of the keys\<close>

definition dayTypeOrder :: "string \<Rightarrow> int" where
  "dayTypeOrder t = (if t = ''weekday'' then 0 else if t = ''weekend'' then 1 else 0)"

definition seasonOrder :: "string \<Rightarrow> int" where
  "seasonOrder s =
     (if s = ''winter'' then 0 else if s = ''spring'' then 1 else if s = ''summer'' then 2
      else if s = ''autumn'' then 3 else 0)"

text \<open>The error of \<open>Atoi\<close> is dropped: a part that is no number reads 0.\<close>

definition splitSeasonKey :: "string \<Rightarrow> string \<times> int \<times> string" where
  "splitSeasonKey key =
     (let parts = split_on CHR ''-'' key
      in (if 0 < length parts then parts ! 0 else [],
          if 1 < length parts then (case atoi (parts ! 1) of None \<Rightarrow> 0 | Some y \<Rightarrow> y) else 0,
          if 2 < length parts then parts ! 2 else []))"

definition seasonLess :: "string \<Rightarrow> string \<Rightarrow> bool" where
  "seasonLess a b =
     (case (splitSeasonKey a, splitSeasonKey b) of
        ((seasonA, yearA, typeA), (seasonB, yearB, typeB)) \<Rightarrow>
          if yearA \<noteq> yearB then yearA < yearB
          else if seasonA \<noteq> seasonB then seasonOrder seasonA < seasonOrder seasonB
          else dayTypeOrder typeA < dayTypeOrder typeB)"

definition less_by :: "group_by \<Rightarrow> string \<Rightarrow> string \<Rightarrow> bool" where
  "less_by m a b =
     (case m of
        DayType \<Rightarrow> dayTypeOrder a < dayTypeOrder b
      | Season \<Rightarrow> seasonLess a b
      | SeasonDayType \<Rightarrow> seasonLess a b
      | _ \<Rightarrow> a < b)"

section \<open>Grouping and statistics\<close>

definition add_register :: "dec option \<Rightarrow> dec option \<Rightarrow> dec option" where
  "add_register acc v =
     (case v of None \<Rightarrow> acc | Some x \<Rightarrow> (case acc of None \<Rightarrow> Some x | Some s \<Rightarrow> Some (s + x)))"

definition new_bucket :: "string \<Rightarrow> bucket" where
  "new_bucket key =
     \<lparr>bk_Key = key, bk_Days = 0, bk_Active = None, bk_Inductive = None, bk_Capacitive = None, bk_Partial = False\<rparr>"

definition add_day :: "grouped_day \<Rightarrow> bucket \<Rightarrow> bucket" where
  "add_day d b =
     b\<lparr>bk_Days := bk_Days b + 1, bk_Active := add_register (bk_Active b) (gd_Active d),
       bk_Inductive := add_register (bk_Inductive b) (gd_Inductive d),
       bk_Capacitive := add_register (bk_Capacitive b) (gd_Capacitive d),
       bk_Partial := (if gd_Partial d \<or> gd_Active d = None \<or> gd_Inductive d = None \<or> gd_Capacitive d = None
                      then True else bk_Partial b)\<rparr>"

definition Group :: "grouped_day list \<Rightarrow> group_by \<Rightarrow> lp_config \<Rightarrow> bucket list" where
  "Group days m cfg =
     (case groups_of (\<lambda>d. keyOf (gd_Date d) m cfg) (\<lambda>d. new_bucket (keyOf (gd_Date d) m cfg)) add_day days of
        (order, index) \<Rightarrow> map (\<lambda>key. the (index key)) (sort_Slice (less_by m) order))"

definition group_stats_step ::
  "bucket \<Rightarrow> dec \<times> int \<times> extreme option \<times> extreme option \<Rightarrow> dec \<times> int \<times> extreme option \<times> extreme option" where
  "group_stats_step b = (\<lambda>(acc, counted, peak, valley).
     (case bk_Active b of
        None \<Rightarrow> (acc, counted, peak, valley)
      | Some v \<Rightarrow>
          (acc + v, counted + 1,
           (case peak of None \<Rightarrow> Some \<lparr>ex_Key = bk_Key b, ex_Value = v\<rparr>
            | Some p \<Rightarrow> if ex_Value p < v then Some \<lparr>ex_Key = bk_Key b, ex_Value = v\<rparr> else peak),
           (case valley of None \<Rightarrow> Some \<lparr>ex_Key = bk_Key b, ex_Value = v\<rparr>
            | Some p \<Rightarrow> if v < ex_Value p then Some \<lparr>ex_Key = bk_Key b, ex_Value = v\<rparr> else valley))))"

definition Group_Stats :: "declib \<Rightarrow> bucket list \<Rightarrow> group_statistics" where
  "Group_Stats L buckets =
     (case fold group_stats_step buckets (0, 0, None, None) of (acc, counted, peak, valley) \<Rightarrow>
        if counted = 0 then \<lparr>gs_Total = None, gs_Average = None, gs_Peak = None, gs_Valley = None\<rparr>
        else \<lparr>gs_Total = Some acc, gs_Average = Some (RoundBank L (Div L acc (of_int counted)) 3),
              gs_Peak = peak, gs_Valley = valley\<rparr>)"

section \<open>What a bucket holds\<close>

text \<open>The sum of the values that are there, \<open>None\<close> when there is none.\<close>

definition register_sum :: "dec option list \<Rightarrow> dec option" where
  "register_sum xs = (if list_all (\<lambda>x. x = None) xs then None else Some (sum_list (map (case_option 0 id) xs)))"

lemma register_sum_snoc: "register_sum (xs @ [x]) = add_register (register_sum xs) x"
proof -
  have "sum_list (map (case_option 0 id) xs) = 0" if "list_all (\<lambda>x. x = None) xs" for xs :: "dec option list"
    using that by (induction xs) auto
  then show ?thesis by (cases x) (auto simp: register_sum_def add_register_def)
qed

definition incomplete_day :: "grouped_day \<Rightarrow> bool" where
  "incomplete_day d \<longleftrightarrow> gd_Partial d \<or> gd_Active d = None \<or> gd_Inductive d = None \<or> gd_Capacitive d = None"

definition bucket_of :: "string \<Rightarrow> grouped_day list \<Rightarrow> bucket" where
  "bucket_of key ds =
     \<lparr>bk_Key = key, bk_Days = int (length ds), bk_Active = register_sum (map gd_Active ds),
      bk_Inductive = register_sum (map gd_Inductive ds), bk_Capacitive = register_sum (map gd_Capacitive ds),
      bk_Partial = list_ex incomplete_day ds\<rparr>"

lemma fold_add_day: "fold add_day ds (new_bucket key) = bucket_of key ds"
proof (induction ds rule: rev_induct)
  case Nil
  show ?case by (simp add: new_bucket_def bucket_of_def register_sum_def)
next
  case (snoc d ds)
  then show ?case by (auto simp: add_day_def bucket_of_def register_sum_snoc incomplete_day_def)
qed

lemma Group_buckets:
  "Group days m cfg =
     map (\<lambda>key. bucket_of key (filter (\<lambda>d. keyOf (gd_Date d) m cfg = key) days))
       (sort_Slice (less_by m) (first_keys (map (\<lambda>d. keyOf (gd_Date d) m cfg) days)))"
proof -
  let ?key = "\<lambda>d. keyOf (gd_Date d) m cfg"
  obtain order index where g: "groups_of ?key (\<lambda>d. new_bucket (?key d)) add_day days = (order, index)"
    by (cases "groups_of ?key (\<lambda>d. new_bucket (?key d)) add_day days")
  have order: "order = first_keys (map ?key days)"
    using groups_of_order [of ?key "\<lambda>d. new_bucket (?key d)" add_day days] by (simp add: g)
  have "the (index key) = bucket_of key (filter (\<lambda>d. ?key d = key) days)" if "key \<in> set order" for key
  proof -
    have "key \<in> ?key ` set days" using that by (simp add: order)
    from groups_of_Some [OF this, of "\<lambda>d. new_bucket (?key d)" add_day] show ?thesis
      by (metis fold_add_day g option.sel snd_conv)
  qed
  then show ?thesis by (simp add: Group_def g order)
qed

text \<open>Each mode compares keys by a rank.\<close>

definition season_rank :: "string \<Rightarrow> int" where
  "season_rank key = (case splitSeasonKey key of (s, y, t) \<Rightarrow> y * 8 + seasonOrder s * 2 + dayTypeOrder t)"

interpretation date_keys: slice_order "less_by Daily"
  by unfold_locales (auto simp: less_by_def)

interpretation day_type_keys: slice_order "less_by DayType"
  by unfold_locales (auto simp: less_by_def)

lemma itoa_no_dash: "0 \<le> y \<Longrightarrow> CHR ''-'' \<notin> set (itoa y)"
  using nat_digits_digits [of "nat y"] by (auto simp: itoa_def fmt_int_def zero_pad_def list_all_iff is_digit_def)

lemma atoi_itoa: "0 \<le> y \<Longrightarrow> y < 2 ^ 63 \<Longrightarrow> atoi (itoa y) = Some y"
  unfolding itoa_def by (rule atoi_fmt_int) simp_all

lemma no_dash: "CHR ''-'' \<notin> set (season_string s)" "CHR ''-'' \<notin> set (day_type_string t)"
  by (cases s; simp) (cases t; simp)

text \<open>Taking a key apart gives back what it was made of.\<close>

lemma splitSeasonKey_season:
  assumes "0 \<le> y" and "y < 2 ^ 63"
  shows "splitSeasonKey (season_string s @ ''-'' @ itoa y) = (season_string s, y, [])"
    and "splitSeasonKey (season_string s @ ''-'' @ itoa y @ ''-'' @ day_type_string t) = (season_string s, y, day_type_string t)"
proof -
  have "split_on CHR ''-'' (str_join ''-'' ws) = ws" if "\<forall>w \<in> set ws. CHR ''-'' \<notin> set w" "ws \<noteq> []" for ws
    using split_on_join [of ws "CHR ''-''"] that by simp
  from this [of "[season_string s, itoa y]"] this [of "[season_string s, itoa y, day_type_string t]"]
  show "splitSeasonKey (season_string s @ ''-'' @ itoa y) = (season_string s, y, [])"
    and "splitSeasonKey (season_string s @ ''-'' @ itoa y @ ''-'' @ day_type_string t) = (season_string s, y, day_type_string t)"
    using no_dash itoa_no_dash [OF assms(1)] atoi_itoa [OF assms]
    by (simp_all add: splitSeasonKey_def Let_def)
qed

lemma seasonOrder_string: "seasonOrder (season_string s) = (case s of Winter \<Rightarrow> 0 | Spring \<Rightarrow> 1 | Summer \<Rightarrow> 2 | Autumn \<Rightarrow> 3)"
  by (cases s) (simp_all add: seasonOrder_def)

lemma dayTypeOrder_string: "dayTypeOrder (day_type_string t) = (case t of Weekday \<Rightarrow> 0 | Weekend \<Rightarrow> 1)" "dayTypeOrder [] = 0"
  by (cases t) (simp_all add: dayTypeOrder_def)

section \<open>The order of the buckets\<close>

lemma sorted_strings:
  assumes "finite N" and "\<And>a. a \<in> N \<Longrightarrow> four_digit_day a"
  shows "sorted_list_of_set (day_string ` N) = map day_string (sorted_list_of_set N)"
proof -
  have "sorted_wrt (\<lambda>a b. day_string a < day_string b) (sorted_list_of_set N)"
    by (rule sorted_wrt_mono_rel [OF _ strict_sorted_list_of_set])
      (use assms in \<open>simp add: day_string_less\<close>)
  then have "sorted_wrt (<) (map day_string (sorted_list_of_set N))" by (simp add: sorted_wrt_map)
  then have "sorted (map day_string (sorted_list_of_set N)) \<and> distinct (map day_string (sorted_list_of_set N))"
    by (simp add: strict_sorted_iff)
  then show ?thesis using sorted_list_of_set.idem_if_sorted_distinct [of "map day_string (sorted_list_of_set N)"] assms(1)
    by simp
qed

lemma Group_date_keys:
  assumes "m = Daily \<or> m = Week" and "\<And>d. d \<in> set days \<Longrightarrow> keyOf (gd_Date d) m cfg = day_string (f d) \<and> four_digit_day (f d)"
  shows "map bk_Key (Group days m cfg) = map day_string (sorted_list_of_set (f ` set days))"
proof -
  let ?keys = "first_keys (map (\<lambda>d. keyOf (gd_Date d) m cfg) days)"
  have "map bk_Key (Group days m cfg) = sort_Slice (less_by m) ?keys"
    by (simp add: Group_buckets bucket_of_def comp_def)
  also have "\<dots> = sorted_list_of_set (set ?keys)"
    using sort_Slice_sorted_list [of ?keys "less_by m" "\<lambda>x. x"] assms(1) by (auto simp: less_by_def)
  also have "set ?keys = day_string ` f ` set days" using assms(2) by (force simp: image_image)
  also have "sorted_list_of_set \<dots> = map day_string (sorted_list_of_set (f ` set days))"
    by (rule sorted_strings) (use assms(2) in auto)
  finally show ?thesis .
qed

text \<open>Years from 1 to 9999, so that the week and the winter of a date still have a year of four digits.\<close>

definition plain_year :: "lp_config \<Rightarrow> grouped_day \<Rightarrow> bool" where
  "plain_year cfg d \<longleftrightarrow>
     (case date_in (loc_or_utc (Location cfg)) (gd_Date d) of (y, _, _) \<Rightarrow> 1 \<le> y \<and> y < 10000)"

lemma four_digit_day_iff:
  "four_digit_day n \<longleftrightarrow> days_before_year 0 \<le> n + epoch_days \<and> n + epoch_days < days_before_year 10000"
proof -
  define y where "y = year_of_days (n + epoch_days)"
  have y: "days_before_year y \<le> n + epoch_days" "n + epoch_days < days_before_year (y + 1)"
    using year_of_days [of "n + epoch_days"] by (simp_all add: y_def)
  have "0 \<le> y \<longleftrightarrow> days_before_year 0 \<le> n + epoch_days"
    using y days_before_year_mono [of 0 y] days_before_year_mono [of "y + 1" 0] by (cases "0 \<le> y") auto
  moreover have "y < 10000 \<longleftrightarrow> n + epoch_days < days_before_year 10000"
    using y days_before_year_mono [of "y + 1" 10000] days_before_year_mono [of 10000 y] by (cases "y < 10000") auto
  moreover have "fst (civil_from_days n) = y" by (simp add: civil_from_days_def Let_def y_def)
  ultimately show ?thesis by (auto simp: four_digit_day_def split: prod.splits)
qed

lemma plain_year_days:
  assumes "plain_year cfg d" and "0 \<le> k" and "k \<le> 6"
  shows "four_digit_day (local_day (loc_or_utc (Location cfg)) (gd_Date d) - k)"
proof -
  define n where "n = local_day (loc_or_utc (Location cfg)) (gd_Date d)"
  define y where "y = year_of_days (n + epoch_days)"
  have y: "days_before_year y \<le> n + epoch_days" "n + epoch_days < days_before_year (y + 1)"
    using year_of_days [of "n + epoch_days"] by (simp_all add: y_def)
  have "1 \<le> y" "y + 1 \<le> 10000"
    using assms(1) by (simp_all add: plain_year_def date_in_def civil_from_days_def Let_def n_def y_def)
  then have "days_before_year 1 \<le> n + epoch_days" "n + epoch_days < days_before_year 10000"
    using y days_before_year_mono [of 1 y] days_before_year_mono [of "y + 1" 10000] by linarith+
  moreover have "days_before_year 0 + 6 \<le> days_before_year 1" by (simp add: days_before_year_def)
  ultimately show ?thesis using assms(2,3) unfolding four_digit_day_iff n_def [symmetric] by linarith
qed

definition week_start :: "int \<Rightarrow> int" where "week_start n = n - (n + 3) mod 7"

lemma keyOf_dates:
  assumes "Location cfg = Some (fixed_zone off)"
  shows "keyOf t Daily cfg = day_string (local_day (fixed_zone off) t)"
    and "keyOf t Week cfg = day_string (week_start (local_day (fixed_zone off) t))"
proof -
  let ?z = "fixed_zone off"
  show "keyOf t Daily cfg = day_string (local_day ?z t)"
    by (simp add: keyOf_def Let_def assms loc_or_utc_def DateOnly_def date_in_def day_string_def)
  have "local_day ?z (t - k * (86400 * ns_per_sec)) = local_day ?z t - k" for k
  proof -
    have "unix_sec (t - k * (86400 * ns_per_sec)) = unix_sec t - k * 86400"
      using div_mult_self1 [of ns_per_sec t "- k * 86400"]
      by (simp add: unix_sec_def ns_per_sec_def mult.assoc)
    moreover have "(a - k * 86400) div 86400 = a div 86400 - k" for a :: int
      using div_mult_self1 [of 86400 a "- k"] by simp
    ultimately show ?thesis unfolding local_day_def offset_at_fixed by (metis add_diff_eq add.commute)
  qed
  moreover have "((n + 4) mod 7 + 6) mod 7 = (n + 3) mod 7" for n :: int
    using mod_add_left_eq [of "n + 4" 7 6] mod_add_self2 [of "n + 3" 7] by simp
  ultimately show "keyOf t Week cfg = day_string (week_start (local_day ?z t))"
    by (simp add: keyOf_def Let_def assms loc_or_utc_def DateOnly_def date_in_def day_string_def AddDate_days_fixed
        weekday_of_def week_start_def mult.assoc)
qed

text \<open>The keys of the season modes.\<close>

definition season_key :: "season \<Rightarrow> int \<Rightarrow> day_type option \<Rightarrow> string" where
  "season_key s y t =
     season_string s @ ''-'' @ itoa y @ (case t of None \<Rightarrow> [] | Some t \<Rightarrow> ''-'' @ day_type_string t)"

lemma season_key_split:
  "0 \<le> y \<Longrightarrow> y < 2 ^ 63 \<Longrightarrow>
   splitSeasonKey (season_key s y t) = (season_string s, y, case t of None \<Rightarrow> [] | Some t \<Rightarrow> day_type_string t)"
  using splitSeasonKey_season [of y s] by (cases t) (simp_all add: season_key_def)

lemma keyOf_season:
  assumes "plain_year cfg d" and "m = Season \<or> m = SeasonDayType"
  shows "\<exists>s y. keyOf (gd_Date d) m cfg =
      season_key s y (if m = Season then None else Some (Classify (gd_Date d) cfg)) \<and> 0 \<le> y \<and> y < 2 ^ 63"
proof -
  obtain y mo da where ymd: "date_in (loc_or_utc (Location cfg)) (gd_Date d) = (y, mo, da)"
    by (metis prod_cases3)
  define sy where "sy = (if SeasonOf (gd_Date d) (Location cfg) = Winter \<and> mo \<noteq> 12 then y - 1 else y)"
  have "1 \<le> y" "y < 10000" using assms(1) ymd by (simp_all add: plain_year_def)
  then have "0 \<le> sy" "sy < 2 ^ 63" by (simp_all add: sy_def)
  moreover have "keyOf (gd_Date d) m cfg =
      season_key (SeasonOf (gd_Date d) (Location cfg)) sy (if m = Season then None else Some (Classify (gd_Date d) cfg))"
    using assms(2) by (elim disjE) (simp_all add: keyOf_def Let_def seasonKey_def season_key_def ymd sy_def)
  ultimately show ?thesis by blast
qed

lemma rank_digits:
  assumes "0 \<le> (a :: int)" "a \<le> 3" "0 \<le> b" "b \<le> 1" and "0 \<le> a'" "a' \<le> 3" "0 \<le> b'" "b' \<le> 1"
  shows "y * 8 + a * 2 + b = y' * 8 + a' * 2 + b' \<longleftrightarrow> y = y' \<and> a = a' \<and> b = b'"
proof
  assume eq: "y * 8 + a * 2 + b = y' * 8 + a' * 2 + b'"
  then have y: "y = y'" using assms by linarith
  then have "a = a'" using eq assms by linarith
  with y eq show "y = y' \<and> a = a' \<and> b = b'" by simp
qed simp

lemma season_key_rank:
  assumes "0 \<le> y" "y < 2 ^ 63" and "0 \<le> y'" "y' < 2 ^ 63" and "(t = None) = (t' = None)"
  shows "seasonLess (season_key s y t) (season_key s' y' t') \<longleftrightarrow>
      season_rank (season_key s y t) < season_rank (season_key s' y' t')"
    and "season_rank (season_key s y t) = season_rank (season_key s' y' t') \<longleftrightarrow> season_key s y t = season_key s' y' t'"
proof -
  note split = season_key_split [OF assms(1,2), of s t] season_key_split [OF assms(3,4), of s' t']
  define so where "so s = (case s of Winter \<Rightarrow> 0 | Spring \<Rightarrow> 1 | Summer \<Rightarrow> 2 | Autumn \<Rightarrow> (3 :: int))" for s
  define dt where "dt t = (case t of None \<Rightarrow> 0 | Some Weekday \<Rightarrow> 0 | Some Weekend \<Rightarrow> (1 :: int))" for t
  have so: "0 \<le> so s" "so s \<le> 3" "so s = so r \<longleftrightarrow> s = r" for s r
    by (cases s; cases r; simp add: so_def)+
  have dt: "0 \<le> dt t" "dt t \<le> 1" for t by (auto simp: dt_def split: option.split day_type.split)
  have dt_eq: "dt t = dt t' \<longleftrightarrow> t = t'"
    using assms(5) by (auto simp: dt_def split: option.splits day_type.splits)
  have inj: "season_string s = season_string s' \<longleftrightarrow> s = s'" by (cases s; cases s'; simp)
  have types: "dayTypeOrder (case t of None \<Rightarrow> [] | Some t \<Rightarrow> day_type_string t) = dt t" for t
    by (cases t) (simp_all add: dt_def dayTypeOrder_string split: day_type.split)
  have rank: "season_rank (season_key s y t) = y * 8 + so s * 2 + dt t"
    "season_rank (season_key s' y' t') = y' * 8 + so s' * 2 + dt t'"
    by (simp_all add: season_rank_def split seasonOrder_string so_def [symmetric] types)
  have "seasonLess (season_key s y t) (season_key s' y' t') \<longleftrightarrow>
      (if y \<noteq> y' then y < y' else if s \<noteq> s' then so s < so s' else dt t < dt t')"
    by (simp add: seasonLess_def split inj seasonOrder_string so_def [symmetric] types)
  also have "\<dots> \<longleftrightarrow> y * 8 + so s * 2 + dt t < y' * 8 + so s' * 2 + dt t'"
    using so(1,2) [of s] so(1,2) [of s'] so(3) [of s s'] dt [of t] dt [of t'] by (auto split: if_splits)
  finally show "seasonLess (season_key s y t) (season_key s' y' t') \<longleftrightarrow>
      season_rank (season_key s y t) < season_rank (season_key s' y' t')" unfolding rank .
  have "y * 8 + so s * 2 + dt t = y' * 8 + so s' * 2 + dt t' \<longleftrightarrow> y = y' \<and> so s = so s' \<and> dt t = dt t'"
    by (rule rank_digits [OF so(1,2) dt so(1,2) dt])
  also have "\<dots> \<longleftrightarrow> y = y' \<and> s = s' \<and> t = t'" using so(3) [of s s'] dt_eq by auto
  also have "\<dots> \<longleftrightarrow> season_key s y t = season_key s' y' t'"
  proof
    assume eq: "season_key s y t = season_key s' y' t'"
    then have "y = y'" "s = s'" using split inj by auto
    moreover have "(case t of None \<Rightarrow> [] | Some t \<Rightarrow> day_type_string t) = (case t' of None \<Rightarrow> [] | Some t \<Rightarrow> day_type_string t)"
      using split eq by simp
    then have "dt t = dt t'" using types [of t] types [of t'] by simp
    then have "t = t'" by (simp add: dt_eq)
    ultimately show "y = y' \<and> s = s' \<and> t = t'" by simp
  qed simp
  finally show "season_rank (season_key s y t) = season_rank (season_key s' y' t') \<longleftrightarrow>
      season_key s y t = season_key s' y' t'" unfolding rank .
qed

lemma sorted_by_rank:
  assumes "distinct xs" and "\<And>x y. x \<in> set xs \<Longrightarrow> y \<in> set xs \<Longrightarrow> lt x y = ((f x :: int) < f y)" and "inj_on f (set xs)"
  shows "sorted_wrt (\<lambda>a b. f a < f b) (sort_Slice lt xs)"
proof -
  have "sorted_wrt (<) (map f (sort_Slice lt xs))"
    using sort_Slice_sorted_list [OF assms] by simp
  then show ?thesis by (simp add: sorted_wrt_map)
qed

lemma Group_season_keys:
  assumes "m = Season \<or> m = SeasonDayType" and "\<And>d. d \<in> set days \<Longrightarrow> plain_year cfg d"
  shows "sorted_wrt (\<lambda>a b. season_rank (bk_Key a) < season_rank (bk_Key b)) (Group days m cfg)"
proof -
  let ?keys = "first_keys (map (\<lambda>d. keyOf (gd_Date d) m cfg) days)"
  have shape: "\<exists>s y t. x = season_key s y t \<and> 0 \<le> y \<and> y < 2 ^ 63 \<and> (t = None) = (m = Season)" if "x \<in> set ?keys" for x
    using that keyOf_season [OF assms(2) assms(1)] by fastforce
  have "sorted_wrt (\<lambda>a b. season_rank a < season_rank b) (sort_Slice (less_by m) ?keys)"
  proof (rule sorted_by_rank)
    fix x y assume "x \<in> set ?keys" "y \<in> set ?keys"
    from this [THEN shape] show "less_by m x y = (season_rank x < season_rank y)"
      using season_key_rank(1) assms(1) by (auto simp: less_by_def)
  next
    show "inj_on season_rank (set ?keys)"
    proof (rule inj_onI)
      fix x y assume "x \<in> set ?keys" "y \<in> set ?keys" "season_rank x = season_rank y"
      moreover obtain s n t where "x = season_key s n t" "0 \<le> n" "n < 2 ^ 63" "(t = None) = (m = Season)"
        using shape [OF calculation(1)] by blast
      moreover obtain s' y' t' where "y = season_key s' y' t'" "0 \<le> y'" "y' < 2 ^ 63" "(t' = None) = (m = Season)"
        using shape [OF calculation(2)] by blast
      ultimately show "x = y" by (simp add: season_key_rank(2))
    qed
  qed simp
  then show ?thesis by (simp add: Group_buckets sorted_wrt_map bucket_of_def)
qed

section \<open>Properties\<close>

text \<open>Grouping in any mode: every day falls into exactly one bucket; the buckets have the keys of the days, each once; a
  bucket counts its days, sums each register over the days that have a value (no value at all when none has, never a zero),
  and is partial exactly when one of its days is partial or lacks a register. The day counts add up to the days given.\<close>

theorem Group_partition:
  "distinct (map bk_Key (Group days m cfg)) \<and>
   set (map bk_Key (Group days m cfg)) = (\<lambda>d. keyOf (gd_Date d) m cfg) ` set days \<and>
   (\<forall>b \<in> set (Group days m cfg). let ds = filter (\<lambda>d. keyOf (gd_Date d) m cfg = bk_Key b) days in
      bk_Days b = int (length ds) \<and> 0 < bk_Days b \<and> bk_Active b = register_sum (map gd_Active ds) \<and>
      bk_Inductive b = register_sum (map gd_Inductive ds) \<and> bk_Capacitive b = register_sum (map gd_Capacitive ds) \<and>
      bk_Partial b = list_ex incomplete_day ds) \<and>
   (\<Sum>b \<leftarrow> Group days m cfg. bk_Days b) = int (length days)"
proof -
  let ?key = "\<lambda>d. keyOf (gd_Date d) m cfg"
  let ?keys = "first_keys (map ?key days)"
  have g: "Group days m cfg = map (\<lambda>k. bucket_of k (filter (\<lambda>d. ?key d = k) days)) (sort_Slice (less_by m) ?keys)"
    by (rule Group_buckets)
  have keys: "map bk_Key (Group days m cfg) = sort_Slice (less_by m) ?keys"
    by (simp add: g comp_def bucket_of_def)
  have "(\<Sum>b \<leftarrow> Group days m cfg. bk_Days b) = (\<Sum>k \<leftarrow> sort_Slice (less_by m) ?keys. sum_list (map (\<lambda>_. 1) (filter (\<lambda>d. ?key d = k) days)))"
    by (simp add: g comp_def bucket_of_def sum_list_triv)
  also have "\<dots> = sum_list (map (\<lambda>_. 1) days)" by (rule sum_members) simp_all
  finally have count: "(\<Sum>b \<leftarrow> Group days m cfg. bk_Days b) = int (length days)" by (simp add: sum_list_triv)
  have "filter (\<lambda>d. ?key d = k) days \<noteq> []" if "k \<in> set ?keys" for k
    using that by (auto simp: filter_empty_conv)
  then show ?thesis unfolding keys count by (auto simp: g bucket_of_def Let_def)
qed

text \<open>The order of the buckets, in a zone of fixed offset and for years of four digits: by day and by week the keys are the dates of
  the days and of the Mondays of their weeks in chronological order, though they are sorted as strings; in the
  season modes the keys are sorted by year, then season, then day type, and in the day-type mode weekdays come first. No two
  keys tie, so the unstable sort of the library has one result.\<close>

theorem Group_order:
  assumes "Location cfg = Some (fixed_zone off)" and "\<forall>d \<in> set days. plain_year cfg d"
  shows "map bk_Key (Group days Daily cfg) =
      map day_string (sorted_list_of_set ((\<lambda>d. local_day (fixed_zone off) (gd_Date d)) ` set days)) \<and>
    map bk_Key (Group days Week cfg) =
      map day_string (sorted_list_of_set ((\<lambda>d. week_start (local_day (fixed_zone off) (gd_Date d))) ` set days)) \<and>
    sorted_wrt (\<lambda>a b. season_rank (bk_Key a) < season_rank (bk_Key b)) (Group days Season cfg) \<and>
    sorted_wrt (\<lambda>a b. season_rank (bk_Key a) < season_rank (bk_Key b)) (Group days SeasonDayType cfg) \<and>
    sorted_wrt (\<lambda>a b. dayTypeOrder (bk_Key a) < dayTypeOrder (bk_Key b)) (Group days DayType cfg)"
proof (intro conjI)
  have four: "four_digit_day (local_day (fixed_zone off) (gd_Date d) - k)" if "d \<in> set days" "0 \<le> k" "k \<le> 6" for d k
    using plain_year_days [of cfg d k] assms that by (simp add: loc_or_utc_def)
  show "map bk_Key (Group days Daily cfg) =
      map day_string (sorted_list_of_set ((\<lambda>d. local_day (fixed_zone off) (gd_Date d)) ` set days))"
    by (rule Group_date_keys) (use four [of _ 0] keyOf_dates(1) [OF assms(1)] in auto)
  have "0 \<le> (n + 3) mod 7 \<and> (n + 3) mod 7 \<le> 6" for n :: int
    using pos_mod_bound [of 7 "n + 3"] by simp
  then show "map bk_Key (Group days Week cfg) =
      map day_string (sorted_list_of_set ((\<lambda>d. week_start (local_day (fixed_zone off) (gd_Date d))) ` set days))"
    by (intro Group_date_keys) (use four keyOf_dates(2) [OF assms(1)] in \<open>auto simp: week_start_def\<close>)
  show "sorted_wrt (\<lambda>a b. season_rank (bk_Key a) < season_rank (bk_Key b)) (Group days Season cfg)"
    "sorted_wrt (\<lambda>a b. season_rank (bk_Key a) < season_rank (bk_Key b)) (Group days SeasonDayType cfg)"
    using Group_season_keys assms(2) by simp_all
  have "sorted_wrt (\<lambda>a b. dayTypeOrder a < dayTypeOrder b)
      (sort_Slice (less_by DayType) (first_keys (map (\<lambda>d. keyOf (gd_Date d) DayType cfg) days)))"
  proof (rule sorted_by_rank)
    have "dayTypeOrder (day_type_string s) = dayTypeOrder (day_type_string t) \<longleftrightarrow> s = t" for s t
      by (simp add: dayTypeOrder_string split: day_type.split)
    then show "inj_on dayTypeOrder (set (first_keys (map (\<lambda>d. keyOf (gd_Date d) DayType cfg) days)))"
      by (auto simp: inj_on_def keyOf_def)
  qed (simp_all add: less_by_def)
  then show "sorted_wrt (\<lambda>a b. dayTypeOrder (bk_Key a) < dayTypeOrder (bk_Key b)) (Group days DayType cfg)"
    by (simp add: Group_buckets sorted_wrt_map bucket_of_def)
qed

section \<open>The peak and the valley\<close>

text \<open>The statistics row: nothing without a bucket that has a value; otherwise the sum of the values, and as peak the first bucket
  with the greatest value, as valley the first with the least.\<close>

lemma group_stats_fold:
  assumes "fold group_stats_step bs (0, 0, None, None) = (acc, counted, peak, valley)"
  shows "acc = sum_list (map (case_option 0 id \<circ> bk_Active) bs) \<and>
    counted = int (length (filter (\<lambda>b. bk_Active b \<noteq> None) bs)) \<and>
    (case peak of None \<Rightarrow> \<forall>b \<in> set bs. bk_Active b = None
     | Some p \<Rightarrow> (\<exists>b \<in> set bs. bk_Key b = ex_Key p \<and> bk_Active b = Some (ex_Value p)) \<and>
         (\<forall>b \<in> set bs. \<forall>v. bk_Active b = Some v \<longrightarrow> v \<le> ex_Value p)) \<and>
    (case valley of None \<Rightarrow> \<forall>b \<in> set bs. bk_Active b = None
     | Some p \<Rightarrow> (\<exists>b \<in> set bs. bk_Key b = ex_Key p \<and> bk_Active b = Some (ex_Value p)) \<and>
         (\<forall>b \<in> set bs. \<forall>v. bk_Active b = Some v \<longrightarrow> ex_Value p \<le> v))"
  using assms
proof (induction bs arbitrary: acc counted peak valley rule: rev_induct)
  case (snoc b bs)
  obtain acc' counted' peak' valley' where r: "fold group_stats_step bs (0, 0, None, None) = (acc', counted', peak', valley')"
    by (metis prod_cases4)
  note IH = snoc.IH [OF r]
  show ?case
  proof (cases "bk_Active b")
    case None
    have "fold group_stats_step (bs @ [b]) (0, 0, None, None) = (acc', counted', peak', valley')"
      by (simp add: r) (simp add: group_stats_step_def None)
    then have same: "acc = acc'" "counted = counted'" "peak = peak'" "valley = valley'" using snoc.prems by simp_all
    show ?thesis unfolding same using IH None by (cases peak'; cases valley'; auto)
  next
    case (Some v)
    have "fold group_stats_step (bs @ [b]) (0, 0, None, None) = group_stats_step b (acc', counted', peak', valley')"
      by (simp add: r)
    then have step: "(acc, counted, peak, valley) = group_stats_step b (acc', counted', peak', valley')"
      using snoc.prems by simp
    have new: "acc = acc' + v" "counted = counted' + 1"
      "peak = (case peak' of None \<Rightarrow> Some \<lparr>ex_Key = bk_Key b, ex_Value = v\<rparr>
        | Some p \<Rightarrow> if ex_Value p < v then Some \<lparr>ex_Key = bk_Key b, ex_Value = v\<rparr> else peak')"
      "valley = (case valley' of None \<Rightarrow> Some \<lparr>ex_Key = bk_Key b, ex_Value = v\<rparr>
        | Some p \<Rightarrow> if v < ex_Value p then Some \<lparr>ex_Key = bk_Key b, ex_Value = v\<rparr> else valley')"
      using step by (simp_all add: group_stats_step_def Some)
    have "case peak of None \<Rightarrow> \<forall>b \<in> set (bs @ [b]). bk_Active b = None
       | Some p \<Rightarrow> (\<exists>b \<in> set (bs @ [b]). bk_Key b = ex_Key p \<and> bk_Active b = Some (ex_Value p)) \<and>
           (\<forall>b \<in> set (bs @ [b]). \<forall>v. bk_Active b = Some v \<longrightarrow> v \<le> ex_Value p)"
      using IH Some unfolding new(3) by (cases peak') force+
    moreover have "case valley of None \<Rightarrow> \<forall>b \<in> set (bs @ [b]). bk_Active b = None
       | Some p \<Rightarrow> (\<exists>b \<in> set (bs @ [b]). bk_Key b = ex_Key p \<and> bk_Active b = Some (ex_Value p)) \<and>
           (\<forall>b \<in> set (bs @ [b]). \<forall>v. bk_Active b = Some v \<longrightarrow> ex_Value p \<le> v)"
      using IH Some unfolding new(4) by (cases valley') force+
    ultimately show ?thesis using IH Some by (simp add: new(1,2))
  qed
qed simp

section \<open>Concrete days\<close>

definition istanbul_config :: lp_config where
  "istanbul_config = \<lparr>WeekendDays = [0 \<mapsto> True, 6 \<mapsto> True], Vacations = [], Location = Some (fixed_zone 10800)\<rparr>"

definition sample_day :: "int \<Rightarrow> dec \<Rightarrow> grouped_day" where
  "sample_day n v =
     \<lparr>gd_Date = (n * 86400 - 10800) * ns_per_sec, gd_Active = Some v, gd_Inductive = None, gd_Capacitive = None, gd_Partial = False\<rparr>"

lemma sample_day_simps [simp]:
  "local_day (fixed_zone 10800) (gd_Date (sample_day n v)) = n" "gd_Active (sample_day n v) = Some v"
  by (simp_all add: sample_day_def)

lemma istanbul_zone: "Location istanbul_config = Some (fixed_zone 10800)"
  by (simp add: istanbul_config_def)

lemma sample_plain: "civil_from_days n = (1970, m, d) \<Longrightarrow> plain_year istanbul_config (sample_day n v)"
  by (simp add: plain_year_def istanbul_config_def loc_or_utc_def date_in_def)

theorem Group_partition_witness:
  "set (map bk_Key (Group [sample_day 0 5, sample_day 1 7] Week istanbul_config)) = {day_string (- 3)} \<and>
   (\<Sum>b \<leftarrow> Group [sample_day 0 5, sample_day 1 7] Week istanbul_config. bk_Days b) = 2"
  using Group_partition [of "[sample_day 0 5, sample_day 1 7]" Week istanbul_config]
  by (simp add: keyOf_dates(2) [OF istanbul_zone] week_start_def)

theorem Group_order_witness:
  "map bk_Key (Group [sample_day 11 5, sample_day 1 7, sample_day 9 1] Daily istanbul_config) =
     [day_string 1, day_string 9, day_string 11]"
proof -
  have civil: "civil_from_days 11 = (1970, 1, 12)" "civil_from_days 1 = (1970, 1, 2)" "civil_from_days 9 = (1970, 1, 10)"
    by code_simp+
  have "\<forall>d \<in> set [sample_day 11 5, sample_day 1 7, sample_day 9 1]. plain_year istanbul_config d"
    using civil [THEN sample_plain] by simp
  from Group_order [OF istanbul_zone this] show ?thesis by simp
qed

text \<open>The key of a winter names the year it starts in, but winter is the first season of a year in the order of the keys: the
  December of a year is listed before the summer of that year.\<close>

lemma winter_before_summer: "seasonLess ''winter-2025'' ''summer-2025''"
  by (simp add: seasonLess_def splitSeasonKey_def Let_def atoi_def digits_val_def digit_val_def is_digit_def seasonOrder_def)

end
