(* ===== verification/Comparison.thy ===== *)
theory Comparison
  imports Prelude "HOL-Library.Word"
begin

text \<open>
  Package \<open>comparison\<close>: a building against its sector. A metric is a value, the sector's average over the
  buildings that have the value, and a competition rank; a sector with too few buildings is not compared.
\<close>

section \<open>The comparison\<close>

definition ReasonSectorTooSmall :: string where "ReasonSectorTooSmall = ''sector_too_small''"
definition MinPeers :: nat where "MinPeers = 3"
definition divPrecision :: nat where "divPrecision = 6"

record figures =
  fg_BuildingID :: nat
  fg_Daily :: "dec option"
  fg_Monthly :: "dec option"
  fg_Personnel :: "32 word option"
  fg_AreaM2 :: "dec option"

record metric =
  me_Value :: "dec option"
  me_Average :: "dec option"
  me_Rank :: nat
  me_Ranked :: nat

record comparison_result =
  cr_Available :: bool
  cr_Reason :: string
  cr_Peers :: nat
  cr_Daily :: metric
  cr_Monthly :: metric
  cr_CO2 :: metric
  cr_PerCapita :: metric
  cr_PerArea :: metric

definition no_metric :: metric where
  "no_metric = \<lparr>me_Value = None, me_Average = None, me_Rank = 0, me_Ranked = 0\<rparr>"

text \<open>The loop: the values, their sum and the building's own value (the last one, should the building be listed twice).\<close>

fun metric_loop ::
  "nat \<Rightarrow> (figures \<Rightarrow> dec option) \<Rightarrow> figures list \<Rightarrow> dec list \<times> dec \<times> dec option \<Rightarrow> dec list \<times> dec \<times> dec option" where
  "metric_loop self value_of [] st = st"
| "metric_loop self value_of (p # ps) (vals, acc, own) =
     (case value_of p of
        None \<Rightarrow> metric_loop self value_of ps (vals, acc, own)
      | Some v \<Rightarrow> metric_loop self value_of ps
          (vals @ [v], acc + v, if fg_BuildingID p = self then Some v else own))"

definition rank_of :: "dec list \<Rightarrow> dec \<Rightarrow> nat" where
  "rank_of vals own = fold (\<lambda>v rank. if v < own then rank + 1 else rank) vals 1"

definition metric_of :: "declib \<Rightarrow> nat \<Rightarrow> figures list \<Rightarrow> (figures \<Rightarrow> dec option) \<Rightarrow> metric" where
  "metric_of L self peers value_of =
     (case metric_loop self value_of peers ([], 0, None) of (vals, acc, own) \<Rightarrow>
        \<lparr>me_Value = own,
         me_Average = (if 0 < length vals then Some (DivRound L acc (of_nat (length vals)) divPrecision) else None),
         me_Rank = (case own of None \<Rightarrow> 0 | Some o' \<Rightarrow> rank_of vals o'),
         me_Ranked = length vals\<rparr>)"

definition co2_of :: "dec \<Rightarrow> figures \<Rightarrow> dec option" where
  "co2_of gridFactor f = map_option (\<lambda>m. m * gridFactor) (fg_Monthly f)"

definition per_capita :: "declib \<Rightarrow> figures \<Rightarrow> dec option" where
  "per_capita L f =
     (case (fg_Monthly f, fg_Personnel f) of
        (Some m, Some n) \<Rightarrow> if sint n \<le> 0 then None else Some (DivRound L m (of_int (sint n)) divPrecision)
      | _ \<Rightarrow> None)"

definition per_area :: "declib \<Rightarrow> figures \<Rightarrow> dec option" where
  "per_area L f =
     (case (fg_Monthly f, fg_AreaM2 f) of
        (Some m, Some a) \<Rightarrow> if \<not> 0 < a then None else Some (DivRound L m a divPrecision)
      | _ \<Rightarrow> None)"

definition Compare :: "declib \<Rightarrow> nat \<Rightarrow> figures list \<Rightarrow> dec option \<Rightarrow> comparison_result" where
  "Compare L self peers gridFactor =
     (let none = \<lparr>cr_Available = False, cr_Reason = [], cr_Peers = length peers, cr_Daily = no_metric, cr_Monthly = no_metric,
                  cr_CO2 = no_metric, cr_PerCapita = no_metric, cr_PerArea = no_metric\<rparr>;
          withMonthly = fold (\<lambda>p n. if fg_Monthly p \<noteq> None then n + 1 else n) peers 0
      in if withMonthly < MinPeers then none\<lparr>cr_Reason := ReasonSectorTooSmall\<rparr>
         else none\<lparr>cr_Available := True,
                cr_Daily := metric_of L self peers fg_Daily,
                cr_Monthly := metric_of L self peers fg_Monthly,
                cr_CO2 := (case gridFactor of None \<Rightarrow> no_metric | Some g \<Rightarrow> metric_of L self peers (co2_of g)),
                cr_PerCapita := metric_of L self peers (per_capita L),
                cr_PerArea := metric_of L self peers (per_area L)\<rparr>)"

section \<open>What a metric says\<close>

abbreviation values_of :: "(figures \<Rightarrow> dec option) \<Rightarrow> figures list \<Rightarrow> dec list" where
  "values_of value_of peers \<equiv> map (\<lambda>p. the (value_of p)) (filter (\<lambda>p. value_of p \<noteq> None) peers)"

lemma metric_loop_vals:
  "metric_loop self value_of ps (vals, acc, own) = (vals', acc', own') \<Longrightarrow>
   vals' = vals @ values_of value_of ps \<and> acc' = acc + sum_list (values_of value_of ps)"
proof (induction ps arbitrary: vals acc own)
  case (Cons p ps)
  show ?case
  proof (cases "value_of p")
    case (Some v)
    then have "metric_loop self value_of ps (vals @ [v], acc + v, if fg_BuildingID p = self then Some v else own) =
        (vals', acc', own')" using Cons.prems by simp
    from Cons.IH [OF this] Some show ?thesis by simp
  qed (use Cons in simp)
qed simp

lemma metric_loop_own:
  assumes "metric_loop self value_of ps (vals, acc, own) = (vals', acc', own')"
    and "distinct (map fg_BuildingID ps)"
  shows "own' = (case find (\<lambda>p. fg_BuildingID p = self \<and> value_of p \<noteq> None) ps of None \<Rightarrow> own | Some p \<Rightarrow> value_of p)"
  using assms
proof (induction ps arbitrary: vals acc own)
  case (Cons p ps)
  show ?case
  proof (cases "value_of p")
    case None
    then show ?thesis using Cons by (auto split: option.split)
  next
    case (Some v)
    show ?thesis
    proof (cases "fg_BuildingID p = self")
      case True
      then have "find (\<lambda>q. fg_BuildingID q = self \<and> value_of q \<noteq> None) ps = None"
        using Cons.prems(2) by (auto simp: find_None_iff) (metis image_eqI)
      then show ?thesis using Cons.IH Cons.prems Some True by auto
    next
      case False
      then show ?thesis using Cons.IH Cons.prems Some by auto
    qed
  qed
qed simp

lemma rank_of_eq: "rank_of vals own = 1 + length (filter (\<lambda>v. v < own) vals)"
proof -
  have "fold (\<lambda>v rank. if v < own then rank + 1 else rank) vals k = k + length (filter (\<lambda>v. v < own) vals)" for k
    by (induction vals arbitrary: k) simp_all
  then show ?thesis by (simp add: rank_of_def)
qed

lemma with_monthly: "fold (\<lambda>p n. if fg_Monthly p \<noteq> None then n + 1 else n) peers (k :: nat) =
    k + length (filter (\<lambda>p. fg_Monthly p \<noteq> None) peers)"
  by (induction peers arbitrary: k) simp_all

lemma length_filter_less:
  assumes "\<And>z. z \<in> set zs \<Longrightarrow> P z \<Longrightarrow> Q z" and "y \<in> set zs" and "Q y" "\<not> P y"
  shows "length (filter P zs) < length (filter Q zs)"
  using assms(1,2)
proof (induction zs)
  case (Cons z zs)
  have le: "length (filter P ws) \<le> length (filter Q ws)" if "\<And>w. w \<in> set ws \<Longrightarrow> P w \<Longrightarrow> Q w" for ws
    using that by (induction ws) auto
  show ?case
  proof (cases "y \<in> set zs")
    case True
    then show ?thesis using Cons by auto
  next
    case False
    then show ?thesis using Cons.prems assms(3,4) le [of zs] by auto
  qed
qed simp

text \<open>What a metric promises, for the measure \<open>value_of\<close>.\<close>

definition metric_ok :: "nat \<Rightarrow> figures list \<Rightarrow> (figures \<Rightarrow> dec option) \<Rightarrow> metric \<Rightarrow> bool" where
  "metric_ok self peers value_of m \<longleftrightarrow>
     me_Value m = (case find (\<lambda>p. fg_BuildingID p = self \<and> value_of p \<noteq> None) peers of None \<Rightarrow> None | Some p \<Rightarrow> value_of p) \<and>
     me_Ranked m = length (values_of value_of peers) \<and>
     (case me_Average m of
        None \<Rightarrow> me_Ranked m = 0
      | Some a \<Rightarrow> 0 < me_Ranked m \<and> \<bar>a - sum_list (values_of value_of peers) / of_nat (me_Ranked m)\<bar> * 10 ^ 6 \<le> 1 / 2) \<and>
     (case me_Value m of
        None \<Rightarrow> me_Rank m = 0
      | Some v \<Rightarrow> me_Rank m = 1 + length (filter (\<lambda>x. x < v) (values_of value_of peers)) \<and> me_Rank m \<le> me_Ranked m)"

lemma metric_of_ok:
  assumes "decimal_lib L" and "distinct (map fg_BuildingID peers)"
  shows "metric_ok self peers value_of (metric_of L self peers value_of)"
proof -
  obtain vals acc own where r: "metric_loop self value_of peers ([], 0, None) = (vals, acc, own)"
    by (metis prod_cases3)
  note vals = metric_loop_vals [OF r]
  note own = metric_loop_own [OF r assms(2)]
  have avg: "\<bar>DivRound L acc (of_nat (length vals)) 6 - acc / of_nat (length vals)\<bar> * 10 ^ 6 \<le> 1 / 2" if "vals \<noteq> []"
  proof -
    have "(of_nat (length vals) :: dec) \<noteq> 0" using that by simp
    from decimal_lib.DivRound_eq [OF assms(1) this] show ?thesis using round_away_near by (simp only:)
  qed
  have "1 + length (filter (\<lambda>x. x < v) vals) \<le> length vals" if "own = Some v" for v
  proof -
    have "v \<in> set vals"
      using own vals that by (auto simp: find_Some_iff in_set_conv_nth split: option.splits) (force simp: in_set_conv_nth)
    then have "length (filter (\<lambda>x. x < v) vals) < length (filter (\<lambda>x. True) vals)"
      by (rule length_filter_less [rotated]) simp_all
    then show ?thesis by simp
  qed
  then show ?thesis
    using avg vals own
    by (auto simp: metric_ok_def metric_of_def r rank_of_eq divPrecision_def split: option.split)
qed

text \<open>Competition ranks: the order of the ranks is the order of the values, and equal values share a rank.\<close>

lemma rank_less:
  assumes "x \<in> set vals"
  shows "rank_of vals x < rank_of vals y \<longleftrightarrow> x < y"
proof
  assume "x < y"
  then show "rank_of vals x < rank_of vals y"
    unfolding rank_of_eq using length_filter_less [of vals "\<lambda>v. v < x" "\<lambda>v. v < y" x] assms by auto
next
  assume l: "rank_of vals x < rank_of vals y"
  have "length (filter (\<lambda>v. v < y) ws) \<le> length (filter (\<lambda>v. v < x) ws)" if "\<not> x < y" for ws
    using that by (induction ws) auto
  from this [of vals] l show "x < y" unfolding rank_of_eq by (cases "x < y") simp_all
qed

section \<open>Properties\<close>

lemma Compare_small:
  "length (filter (\<lambda>p. fg_Monthly p \<noteq> None) peers) < 3 \<Longrightarrow>
   Compare L self peers g =
     \<lparr>cr_Available = False, cr_Reason = ReasonSectorTooSmall, cr_Peers = length peers, cr_Daily = no_metric,
      cr_Monthly = no_metric, cr_CO2 = no_metric, cr_PerCapita = no_metric, cr_PerArea = no_metric\<rparr>"
  by (simp add: Compare_def Let_def with_monthly [of peers 0, simplified] MinPeers_def)

lemma Compare_large:
  "\<not> length (filter (\<lambda>p. fg_Monthly p \<noteq> None) peers) < 3 \<Longrightarrow>
   Compare L self peers g =
     \<lparr>cr_Available = True, cr_Reason = [], cr_Peers = length peers, cr_Daily = metric_of L self peers fg_Daily,
      cr_Monthly = metric_of L self peers fg_Monthly,
      cr_CO2 = (case g of None \<Rightarrow> no_metric | Some g \<Rightarrow> metric_of L self peers (co2_of g)),
      cr_PerCapita = metric_of L self peers (per_capita L), cr_PerArea = metric_of L self peers (per_area L)\<rparr>"
  by (simp add: Compare_def Let_def with_monthly [of peers 0, simplified] MinPeers_def)

text \<open>A sector comparison: it is available exactly when three buildings have a monthly figure, and says nothing otherwise; when it
  is, each metric has the building's own value, the average of the buildings that have the value (to 6 places), their number, and
  the competition rank of the building among them, which is 0 exactly without a value. Two buildings are ranked as their
  monthly figures are ordered, so equal figures share a rank.\<close>

theorem Compare_correct:
  fixes L self peers g
  defines "r \<equiv> Compare L self peers g"
  assumes "decimal_lib L" and "distinct (map fg_BuildingID peers)"
  shows "cr_Available r = (3 \<le> length (filter (\<lambda>p. fg_Monthly p \<noteq> None) peers)) \<and>
    (if cr_Available r
     then metric_ok self peers fg_Daily (cr_Daily r) \<and> metric_ok self peers fg_Monthly (cr_Monthly r) \<and>
       (case g of None \<Rightarrow> cr_CO2 r = no_metric | Some k \<Rightarrow> metric_ok self peers (co2_of k) (cr_CO2 r)) \<and>
       metric_ok self peers (per_capita L) (cr_PerCapita r) \<and> metric_ok self peers (per_area L) (cr_PerArea r) \<and>
       (\<forall>other v w. me_Value (cr_Monthly r) = Some v \<and> me_Value (cr_Monthly (Compare L other peers g)) = Some w \<longrightarrow>
         (me_Rank (cr_Monthly r) < me_Rank (cr_Monthly (Compare L other peers g))) = (v < w))
     else cr_Reason r = ReasonSectorTooSmall \<and> cr_Daily r = no_metric \<and> cr_Monthly r = no_metric \<and>
       cr_CO2 r = no_metric \<and> cr_PerCapita r = no_metric \<and> cr_PerArea r = no_metric)"
proof (cases "length (filter (\<lambda>p. fg_Monthly p \<noteq> None) peers) < 3")
  case True
  then show ?thesis by (simp add: r_def Compare_small)
next
  case False
  note large = Compare_large [OF False, of L]
  note ok = metric_of_ok [OF assms(2,3)]
  have ranks: "(me_Rank (metric_of L self peers fg_Monthly) < me_Rank (metric_of L other peers fg_Monthly)) = (v < w)"
    if v: "me_Value (metric_of L self peers fg_Monthly) = Some v" and w: "me_Value (metric_of L other peers fg_Monthly) = Some w"
    for other v w
  proof -
    have "v \<in> set (values_of fg_Monthly peers)"
      using ok [of self fg_Monthly] v unfolding metric_ok_def
      by (auto simp: find_Some_iff split: option.splits) (metis (mono_tags, lifting) CollectI imageI nth_mem option.sel)
    from rank_less [OF this, of w] show ?thesis
      using ok [of self fg_Monthly] ok [of other fg_Monthly] v w by (simp add: metric_ok_def rank_of_eq)
  qed
  show ?thesis unfolding r_def large using False ok ranks by (auto split: option.split)
qed

section \<open>Three buildings\<close>

definition sample_figures :: "nat \<Rightarrow> dec \<Rightarrow> 32 word option \<Rightarrow> figures" where
  "sample_figures i m n = \<lparr>fg_BuildingID = i, fg_Daily = None, fg_Monthly = Some m, fg_Personnel = n, fg_AreaM2 = None\<rparr>"

definition sample_sector :: "figures list" where
  "sample_sector = [sample_figures 5 100 (Some 10), sample_figures 6 300 (Some 10), sample_figures 7 200 None]"

theorem Compare_correct_witness:
  "cr_Available (Compare std_declib 5 sample_sector None) \<and>
   metric_ok 5 sample_sector fg_Monthly (cr_Monthly (Compare std_declib 5 sample_sector None))"
proof -
  have "distinct (map fg_BuildingID sample_sector)" by (simp add: sample_sector_def sample_figures_def)
  note c = Compare_correct [OF std.decimal_lib_axioms this, of 5 None]
  have "cr_Available (Compare std_declib 5 sample_sector None)"
    using c [THEN conjunct1] by (simp add: sample_sector_def sample_figures_def)
  with c show ?thesis by simp
qed

text \<open>The guard counts monthly figures only. A metric that fewer buildings have is shown all the same: here two of the three
  buildings know their personnel, and building 5 learns the figure of building 6, twice the average minus its own.\<close>

lemma Compare_two_ranked:
  "cr_Available (Compare std_declib 5 sample_sector None)"
  "cr_PerCapita (Compare std_declib 5 sample_sector None) =
     \<lparr>me_Value = Some 10, me_Average = Some 20, me_Rank = 1, me_Ranked = 2\<rparr>"
  "per_capita std_declib (sample_figures 6 300 (Some 10)) = Some (2 * 20 - 10)"
  by code_simp+

end
