(* ===== verification/Carbon.thy ===== *)
theory Carbon
  imports Go_Text Model_Types "HOL-Library.AList"
begin

text \<open>
  Package \<open>carbon\<close>: the activity catalogue with its scopes and ISO categories (\<open>catalogue.go\<close>), emissions and the shares
  of a dated value (\<open>emission.go\<close>), the figures of a year (\<open>aggregate.go\<close>) and the groups of a report (\<open>report.go\<close>). A
  \<open>time.Time\<close> whose own location matters is a pair of a location and an instant.
\<close>

section \<open>The catalogue (catalogue.go)\<close>

record carbon_sub =
  su_Key :: string
  su_Main :: string
  su_Scope :: carbon_scope
  su_ISO :: string

definition no_sub :: carbon_sub where
  "no_sub = \<lparr>su_Key = [], su_Main = [], su_Scope = CarbonScopeOther [], su_ISO = []\<rparr>"

definition sub_of :: "string \<Rightarrow> string \<times> carbon_scope \<times> string \<Rightarrow> carbon_sub" where
  "sub_of main = (\<lambda>(key, scope, iso). \<lparr>su_Key = key, su_Main = main, su_Scope = scope, su_ISO = iso\<rparr>)"

definition catalogue :: "(string \<times> carbon_sub list) list" where
  "catalogue = map (\<lambda>(main, subs). (main, map (sub_of main) subs))
     [(''cat_stationary'',
        [(''sub_space_heating'', CarbonScope1, ''category_1''),
         (''sub_process_combustion'', CarbonScope1, ''category_1''),
         (''sub_other_combustion'', CarbonScope1, ''category_1'')]),
      (''cat_mobility'',
        [(''sub_passenger_transport'', CarbonScope1, ''category_1''),
         (''sub_business_travel'', CarbonScope3, ''category_3''),
         (''sub_employee_commuting'', CarbonScope3, ''category_3'')]),
      (''cat_logistics'',
        [(''sub_inbound_freight'', CarbonScope3, ''category_3''),
         (''sub_outbound_freight'', CarbonScope3, ''category_3'')]),
      (''cat_gas_emissions'',
        [(''sub_process_emissions'', CarbonScope1, ''category_1''),
         (''sub_fugitive_emissions'', CarbonScope1, ''category_1'')]),
      (''cat_electricity'',
        [(''sub_grid_electricity'', CarbonScope2, ''category_2''),
         (''sub_elec_generation'', CarbonScope1, ''category_1'')]),
      (''cat_external_energy'',
        [(''sub_purchased_hc'', CarbonScope2, ''category_2''),
         (''sub_purchased_steam'', CarbonScope2, ''category_2'')]),
      (''cat_products'',
        [(''sub_purchased_goods'', CarbonScope3, ''category_4''),
         (''sub_eol_sold_products'', CarbonScope3, ''category_5''),
         (''sub_capital_goods'', CarbonScope3, ''category_4'')]),
      (''cat_waste'',
        [(''sub_waste_disposal'', CarbonScope3, ''category_6'')])]"

definition ISOCategories :: "string list" where
  "ISOCategories = [''category_1'', ''category_2'', ''category_3'', ''category_4'', ''category_5'', ''category_6'']"

definition SubGrid :: string where "SubGrid = ''sub_grid_electricity''"
definition SubGeneration :: string where "SubGeneration = ''sub_elec_generation''"

definition Mains :: "string list" where "Mains = map fst catalogue"

fun subs_loop :: "string \<Rightarrow> (string \<times> carbon_sub list) list \<Rightarrow> carbon_sub list option" where
  "subs_loop main [] = None"
| "subs_loop main ((m, subs) # cs) = (if m = main then Some subs else subs_loop main cs)"

definition Subs :: "string \<Rightarrow> carbon_sub list option" where
  "Subs main = subs_loop main catalogue"

definition SubByKey :: "string \<Rightarrow> carbon_sub \<times> bool" where
  "SubByKey key =
     (case find (\<lambda>s. su_Key s = key) (concat (map snd catalogue)) of None \<Rightarrow> (no_sub, False) | Some s \<Rightarrow> (s, True))"

section \<open>Emissions and shares (emission.go)\<close>

type_synonym located = "location \<times> time"

definition Emission :: "declib \<Rightarrow> dec \<Rightarrow> dec \<Rightarrow> dec \<Rightarrow> dec" where
  "Emission L quantity multiplier factor = Round L (quantity * multiplier * factor) 6"

record dated =
  da_Start :: located
  da_End :: located
  da_Value :: dec

definition civil :: "located \<Rightarrow> time" where
  "civil t = (case date_in (fst t) (snd t) of (y, m, d) \<Rightarrow> midnight y m d utc)"

text \<open>The instant of a civil date is asked for its date again, in UTC. The hours are a whole number of days, so the division by 24
  in \<open>float64\<close> is exact.\<close>

definition utc_time :: "time \<Rightarrow> located" where "utc_time t = (utc, t)"

definition days :: "located \<Rightarrow> located \<Rightarrow> int" where
  "days from_t to_t = quot (Sub (civil to_t) (civil from_t)) (24 * hour) + 1"

definition Share :: "declib \<Rightarrow> dated \<Rightarrow> located \<Rightarrow> located \<Rightarrow> dec" where
  "Share L d from_t to_t =
     (let start = civil (da_Start d); ed = civil (da_End d);
          start = (if start < civil from_t then civil from_t else start);
          ed = (if civil to_t < ed then civil to_t else ed)
      in if ed < start then 0
         else let span = days (da_Start d) (da_End d)
              in if span \<le> 0 then 0
                 else Div L (da_Value d * of_int (days (utc_time start) (utc_time ed))) (of_int span))"

section \<open>The catalogue is consistent\<close>

lemma catalogue_subs:
  "distinct (map su_Key (concat (map snd catalogue)))"
  "\<forall>s \<in> set (concat (map snd catalogue)). su_Main s \<in> set Mains \<and> su_Scope s \<in> set CarbonScopes \<and> su_ISO s \<in> set ISOCategories"
  by code_simp+

lemma Mains_distinct: "distinct Mains"
  by (simp add: Mains_def catalogue_def)

definition known_sub :: "string \<Rightarrow> bool" where
  "known_sub key \<longleftrightarrow> snd (SubByKey key)"

lemma find_SomeD: "find P xs = Some x \<Longrightarrow> x \<in> set xs \<and> P x"
  by (induction xs) (auto split: if_splits)

lemma SubByKey_known:
  assumes "known_sub key"
  shows "fst (SubByKey key) \<in> set (concat (map snd catalogue)) \<and> su_Key (fst (SubByKey key)) = key"
proof -
  define subs where "subs = concat (map snd catalogue)"
  have k: "SubByKey key = (case find (\<lambda>s. su_Key s = key) subs of None \<Rightarrow> (no_sub, False) | Some s \<Rightarrow> (s, True))"
    by (simp only: SubByKey_def subs_def)
  then obtain s where "find (\<lambda>s. su_Key s = key) subs = Some s"
    using assms by (cases "find (\<lambda>s. su_Key s = key) subs") (simp_all add: known_sub_def)
  with find_SomeD [OF this] k show ?thesis by (simp flip: subs_def)
qed

lemma SubByKey_unknown: "\<not> known_sub key \<Longrightarrow> fst (SubByKey key) = no_sub"
  by (cases "find (\<lambda>s. su_Key s = key) (concat (map snd catalogue))") (simp_all only: known_sub_def SubByKey_def option.case fst_conv snd_conv simp_thms)

section \<open>Shares by days\<close>

definition day_of :: "located \<Rightarrow> int" where
  "day_of t = local_day (fst t) (snd t)"

lemma civil_day: "civil t = day_of t * 86400 * ns_per_sec"
proof -
  obtain y m d where "date_in (fst t) (snd t) = (y, m, d)" by (cases "date_in (fst t) (snd t)")
  then show ?thesis using date_in_days by (auto simp: civil_def day_of_def utc_fixed midnight_fixed)
qed

lemma day_of_utc [simp]: "day_of (utc_time (n * 86400 * ns_per_sec)) = n"
  using local_day_midnight_fixed [of 0 n] by (simp add: day_of_def utc_time_def utc_fixed)

lemma civil_le: "civil s < civil t \<longleftrightarrow> day_of s < day_of t"
  by (simp add: civil_day ns_per_sec_def)

text \<open>A duration holds less than 106752 days; a longer span saturates.\<close>

lemma days_exact:
  assumes "\<bar>day_of t - day_of s\<bar> \<le> 106751"
  shows "days s t = day_of t - day_of s + 1"
proof -
  define n where "n = day_of t - day_of s"
  have "civil t - civil s = n * (24 * hour)" by (simp add: civil_day n_def hour_def left_diff_distrib)
  moreover have "\<bar>n * (24 * hour)\<bar> < 2 ^ 63"
    using assms unfolding n_def [symmetric] by (simp add: abs_mult hour_def ns_per_sec_def)
  ultimately have "Sub (civil t) (civil s) = n * (24 * hour)" by (simp add: Sub_def)
  moreover have "quot (n * (24 * hour)) (24 * hour) = n"
    using nonzero_mult_div_cancel_right [of "24 * hour" "- n"] by (simp add: quot_def hour_def ns_per_sec_def)
  ultimately show ?thesis by (simp add: days_def n_def)
qed

text \<open>The days of an inclusive interval that fall into a window.\<close>

definition overlap :: "int \<Rightarrow> int \<Rightarrow> int \<Rightarrow> int \<Rightarrow> int" where
  "overlap s e f t = max 0 (min e t - max s f + 1)"

lemma Share_eq:
  assumes "day_of (da_Start d) \<le> day_of (da_End d)" and "day_of (da_End d) - day_of (da_Start d) \<le> 106750"
  defines "s \<equiv> day_of (da_Start d)" and "e \<equiv> day_of (da_End d)"
  shows "Share L d from_t to_t =
    (if overlap s e (day_of from_t) (day_of to_t) = 0 then 0
     else Div L (da_Value d * of_int (overlap s e (day_of from_t) (day_of to_t))) (of_int (e - s + 1)))"
proof -
  define s' where "s' = max s (day_of from_t)"
  define e' where "e' = min e (day_of to_t)"
  have start: "(if civil (da_Start d) < civil from_t then civil from_t else civil (da_Start d)) = s' * 86400 * ns_per_sec"
    unfolding civil_le by (auto simp: civil_day s'_def s_def max_def)
  have ed: "(if civil to_t < civil (da_End d) then civil to_t else civil (da_End d)) = e' * 86400 * ns_per_sec"
    unfolding civil_le by (auto simp: civil_day e'_def e_def min_def)
  have span: "days (da_Start d) (da_End d) = e - s + 1" "0 < e - s + 1"
    using assms days_exact [of "da_End d" "da_Start d"] by auto
  have before: "e' * 86400 * ns_per_sec < s' * 86400 * ns_per_sec \<longleftrightarrow> e' < s'" by (simp add: ns_per_sec_def)
  have ov: "overlap s e (day_of from_t) (day_of to_t) = max 0 (e' - s' + 1)" by (simp add: overlap_def e'_def s'_def)
  show ?thesis
  proof (cases "e' < s'")
    case True
    then show ?thesis unfolding Share_def Let_def start ed before ov by simp
  next
    case False
    have "\<bar>e' - s'\<bar> \<le> 106751" using False assms by (simp add: s'_def e'_def)
    then have "days (utc_time (s' * 86400 * ns_per_sec)) (utc_time (e' * 86400 * ns_per_sec)) = e' - s' + 1"
      by (subst days_exact) simp_all
    moreover have "max 0 (e' - s' + 1) = e' - s' + 1" "e' - s' + 1 \<noteq> 0" using False by auto
    ultimately show ?thesis unfolding Share_def Let_def start ed before ov span(1) using False span(2) by simp
  qed
qed

text \<open>The exact part of a value in a window, and how close \<open>Share\<close> comes to it.\<close>

definition exact_share :: "dated \<Rightarrow> located \<Rightarrow> located \<Rightarrow> dec" where
  "exact_share d from_t to_t =
     da_Value d * of_int (overlap (day_of (da_Start d)) (day_of (da_End d)) (day_of from_t) (day_of to_t)) /
       of_int (day_of (da_End d) - day_of (da_Start d) + 1)"

lemma Share_near:
  assumes "decimal_lib L" and "day_of (da_Start d) \<le> day_of (da_End d)"
    and "day_of (da_End d) - day_of (da_Start d) \<le> 106750"
  shows "\<bar>Share L d from_t to_t - exact_share d from_t to_t\<bar> * 10 ^ 16 \<le> 1 / 2"
proof -
  have "0 < day_of (da_End d) - day_of (da_Start d) + 1" using assms(2) by simp
  then have "(of_int (day_of (da_End d) - day_of (da_Start d) + 1) :: dec) \<noteq> 0" by (simp only: of_int_eq_0_iff)
  then have "Share L d from_t to_t = 0 \<and> exact_share d from_t to_t = 0 \<or>
      Share L d from_t to_t = round_away (exact_share d from_t to_t) 16"
    unfolding Share_eq [OF assms(2,3)] exact_share_def by (simp add: decimal_lib.Div_eq [OF assms(1)])
  then show ?thesis using round_away_near [of "exact_share d from_t to_t" 16] by auto
qed

end
