(* ===== verification/Carbon_Year.thy ===== *)
theory Carbon_Year
  imports Carbon "HOL-Library.Multiset"
begin

text \<open>
  \<open>carbon/aggregate.go\<close> and \<open>carbon/report.go\<close>: the figures of a calendar year, the groups of a report and the figures
  of the meters. A map that is only added to and read by key is a map; one whose keys are sorted afterwards is an
  association list. The assignment into a group that does not exist is the panic it is in Go, \<open>None\<close>.
\<close>

section \<open>The year (aggregate.go)\<close>

record carbon_record =
  cr_Sub :: string
  cr_Start :: located
  cr_End :: located
  cr_KgCO2e :: dec
  cr_Quantity :: dec
  cr_Status :: carbon_status
  cr_Automated :: bool

record sub_total =
  sb_Sub :: string
  sb_KgCO2e :: dec

record overview =
  ov_Total :: dec
  ov_Count :: nat
  ov_Pending :: nat
  ov_ByMain :: "string \<rightharpoonup> dec"
  ov_ByScope :: "carbon_scope \<rightharpoonup> dec"
  ov_Monthly :: "dec list"
  ov_Highest :: "sub_total option"

definition counts :: "carbon_record \<Rightarrow> bool" where
  "counts r \<longleftrightarrow> cr_Status r \<noteq> CarbonStatusRejected"

definition add_to :: "'k \<Rightarrow> dec \<Rightarrow> ('k \<rightharpoonup> dec) \<Rightarrow> ('k \<rightharpoonup> dec)" where
  "add_to k v m = m(k \<mapsto> (case m k of None \<Rightarrow> 0 | Some x \<Rightarrow> x) + v)"

definition add_key :: "string \<Rightarrow> dec \<Rightarrow> (string \<times> dec) list \<Rightarrow> (string \<times> dec) list" where
  "add_key k v al = AList.update k ((case map_of al k of None \<Rightarrow> 0 | Some x \<Rightarrow> x) + v) al"

definition sortedKeys :: "(string \<times> dec) list \<Rightarrow> string list" where
  "sortedKeys al = sort (map fst al)"

definition empty_year :: overview where
  "empty_year =
     \<lparr>ov_Total = 0, ov_Count = 0, ov_Pending = 0,
      ov_ByMain = fold (\<lambda>m mp. mp(m \<mapsto> 0)) Mains Map.empty,
      ov_ByScope = fold (\<lambda>s mp. mp(s \<mapsto> 0)) CarbonScopes Map.empty,
      ov_Monthly = replicate 12 0, ov_Highest = None\<rparr>"

definition month_start :: "int \<Rightarrow> nat \<Rightarrow> time" where
  "month_start year m = midnight year (int m + 1) 1 utc"

definition dated_of :: "carbon_record \<Rightarrow> dated" where
  "dated_of r = \<lparr>da_Start = cr_Start r, da_End = cr_End r, da_Value = cr_KgCO2e r\<rparr>"

definition month_share :: "declib \<Rightarrow> int \<Rightarrow> carbon_record \<Rightarrow> nat \<Rightarrow> dec" where
  "month_share L year r m =
     (let from_t = month_start year m
      in Share L (dated_of r) (utc_time from_t) (utc_time (AddDate utc from_t 0 1 (- 1))))"

definition add_month ::
  "declib \<Rightarrow> int \<Rightarrow> carbon_record \<Rightarrow> carbon_sub \<Rightarrow> nat \<Rightarrow> overview \<times> (string \<times> dec) list \<Rightarrow> overview \<times> (string \<times> dec) list" where
  "add_month L year r sub m = (\<lambda>(o', bySub).
     (let v = month_share L year r m
      in if v = 0 then (o', bySub)
         else (o'\<lparr>ov_Monthly := (ov_Monthly o')[m := ov_Monthly o' ! m + v], ov_Total := ov_Total o' + v,
                 ov_ByMain := add_to (su_Main sub) v (ov_ByMain o'),
                 ov_ByScope := add_to (su_Scope sub) v (ov_ByScope o')\<rparr>,
               add_key (cr_Sub r) v bySub)))"

definition outside :: "carbon_record \<Rightarrow> time \<Rightarrow> time \<Rightarrow> bool" where
  "outside r first lst \<longleftrightarrow> civil (cr_End r) < first \<or> lst < civil (cr_Start r)"

definition add_record ::
  "declib \<Rightarrow> int \<Rightarrow> carbon_record \<Rightarrow> overview \<times> (string \<times> dec) list \<Rightarrow> overview \<times> (string \<times> dec) list" where
  "add_record L year r = (\<lambda>(o', bySub).
     (if \<not> counts r \<or> outside r (midnight year 1 1 utc) (midnight year 12 31 utc) then (o', bySub)
      else
        let o' = o'\<lparr>ov_Count := ov_Count o' + 1\<rparr>;
            o' = (if cr_Status r = CarbonStatusPending then o'\<lparr>ov_Pending := ov_Pending o' + 1\<rparr> else o')
        in fold (add_month L year r (fst (SubByKey (cr_Sub r)))) [0..<12] (o', bySub)))"

definition highest_step :: "(string \<times> dec) list \<Rightarrow> string \<Rightarrow> sub_total option \<Rightarrow> sub_total option" where
  "highest_step bySub k h =
     (let v = the (map_of bySub k)
      in case h of
           None \<Rightarrow> Some \<lparr>sb_Sub = k, sb_KgCO2e = v\<rparr>
         | Some s \<Rightarrow> if sb_KgCO2e s < v then Some \<lparr>sb_Sub = k, sb_KgCO2e = v\<rparr> else h)"

definition BuildYear :: "declib \<Rightarrow> carbon_record list \<Rightarrow> int \<Rightarrow> overview" where
  "BuildYear L records year =
     (case fold (add_record L year) records (empty_year, []) of (o', bySub) \<Rightarrow>
        o'\<lparr>ov_Highest := fold (highest_step bySub) (sortedKeys bySub) (ov_Highest o')\<rparr>)"

section \<open>The report (report.go)\<close>

record report_group =
  gr_Key :: string
  gr_Total :: dec
  gr_Lines :: "sub_total list"

fun scope_string :: "carbon_scope \<Rightarrow> string" where
  "scope_string CarbonScope1 = ''scope_1''"
| "scope_string CarbonScope2 = ''scope_2''"
| "scope_string CarbonScope3 = ''scope_3''"
| "scope_string (CarbonScopeOther s) = s"

definition group_order :: "string \<Rightarrow> string list" where
  "group_order kind = (if kind = ''ghg'' then map scope_string CarbonScopes else ISOCategories)"

definition group_key :: "string \<Rightarrow> carbon_sub \<Rightarrow> string" where
  "group_key kind sub = (if kind = ''ghg'' then scope_string (su_Scope sub) else su_ISO sub)"

fun groups_loop ::
  "declib \<Rightarrow> string \<Rightarrow> located \<Rightarrow> located \<Rightarrow> carbon_record list \<Rightarrow> (string \<rightharpoonup> (string \<times> dec) list) \<Rightarrow> dec \<Rightarrow> nat \<Rightarrow>
   ((string \<rightharpoonup> (string \<times> dec) list) \<times> dec \<times> nat) option" where
  "groups_loop L kind from_t to_t [] lines acc pending = Some (lines, acc, pending)"
| "groups_loop L kind from_t to_t (r # rs) lines acc pending =
     (if \<not> counts r \<or> outside r (civil from_t) (civil to_t) then groups_loop L kind from_t to_t rs lines acc pending
      else
        let v = Share L (dated_of r) from_t to_t;
            pending = (if cr_Status r = CarbonStatusPending then pending + 1 else pending);
            key = group_key kind (fst (SubByKey (cr_Sub r)))
        in case lines key of
             None \<Rightarrow> None
           | Some al \<Rightarrow> groups_loop L kind from_t to_t rs (lines(key \<mapsto> add_key (cr_Sub r) v al)) (acc + v) pending)"

definition group_of :: "(string \<rightharpoonup> (string \<times> dec) list) \<Rightarrow> string \<Rightarrow> report_group" where
  "group_of lines k =
     (let al = the (lines k); subs = sortedKeys al
      in \<lparr>gr_Key = k, gr_Total = fold (\<lambda>s t. t + the (map_of al s)) subs 0,
          gr_Lines = map (\<lambda>s. \<lparr>sb_Sub = s, sb_KgCO2e = the (map_of al s)\<rparr>) subs\<rparr>)"

definition Groups ::
  "declib \<Rightarrow> carbon_record list \<Rightarrow> string \<Rightarrow> located \<Rightarrow> located \<Rightarrow> (report_group list \<times> dec \<times> nat) option" where
  "Groups L records kind from_t to_t =
     map_option (\<lambda>(lines, acc, pending). (map (group_of lines) (group_order kind), acc, pending))
       (groups_loop L kind from_t to_t records (fold (\<lambda>k m. m(k \<mapsto> [])) (group_order kind) Map.empty) 0 0)"

record figures94 =
  f94_ConsumptionKwh :: dec
  f94_GenerationKwh :: dec
  f94_Factor :: dec
  f94_ConsumptionT :: dec
  f94_ReductionT :: dec
  f94_NetT :: dec

definition meter_step ::
  "declib \<Rightarrow> located \<Rightarrow> located \<Rightarrow> carbon_record \<Rightarrow> dec \<times> dec \<times> bool \<Rightarrow> dec \<times> dec \<times> bool" where
  "meter_step L from_t to_t r = (\<lambda>(cons, gen, found).
     (if \<not> cr_Automated r \<or> \<not> counts r \<or> outside r (civil from_t) (civil to_t) then (cons, gen, found)
      else
        let q = Share L \<lparr>da_Start = cr_Start r, da_End = cr_End r, da_Value = cr_Quantity r\<rparr> from_t to_t
        in if cr_Sub r = SubGrid then (cons + q, gen, True)
           else if cr_Sub r = SubGeneration then (cons, gen + q, True)
           else (cons, gen, found)))"

definition Report94 :: "declib \<Rightarrow> carbon_record list \<Rightarrow> located \<Rightarrow> located \<Rightarrow> dec \<Rightarrow> figures94 option" where
  "Report94 L records from_t to_t factor =
     (case fold (meter_step L from_t to_t) records (0, 0, False) of (cons, gen, found) \<Rightarrow>
        if \<not> found then None
        else let c = Div L (cons * factor) 1000; g = Div L (gen * factor) 1000
             in Some \<lparr>f94_ConsumptionKwh = cons, f94_GenerationKwh = gen, f94_Factor = factor,
                      f94_ConsumptionT = c, f94_ReductionT = g, f94_NetT = c - g\<rparr>)"

section \<open>The months tile the year\<close>

lemma month_windows:
  assumes "m < 12"
  shows "day_of (utc_time (month_start year m)) = days_from_civil year (int m + 1) 1"
    and "day_of (utc_time (AddDate utc (month_start year m) 0 1 (- 1))) = days_from_civil year (int m + 2) 1 - 1"
proof -
  have v: "valid_civil year (int m + 1) 1"
    using assms month_len_range [of "int m + 1" year] by (simp add: valid_civil_def)
  have z: "midnight y mo d utc = days_from_civil y mo d * 86400 * ns_per_sec" for y mo d
    by (simp add: utc_fixed midnight_fixed)
  show "day_of (utc_time (month_start year m)) = days_from_civil year (int m + 1) 1"
    by (simp add: month_start_def z)
  have "AddDate utc (month_start year m) 0 1 (- 1) = midnight year (int m + 2) 0 utc"
    using AddDate_midnight_fixed [OF v, of 0 0 1 "- 1"] by (simp add: month_start_def utc_fixed add.commute)
  also have "\<dots> = (days_from_civil year (int m + 2) 1 - 1) * 86400 * ns_per_sec"
    using days_from_civil_day [of year "int m + 2" 1 "- 1"] unfolding z by simp
  finally show "day_of (utc_time (AddDate utc (month_start year m) 0 1 (- 1))) = days_from_civil year (int m + 2) 1 - 1"
    by (simp only: day_of_utc)
qed

text \<open>What an interval shares with consecutive windows is a difference of clamped bounds, so it telescopes.\<close>

lemma overlap_clamp:
  assumes "s \<le> e" and "f \<le> f'"
  shows "overlap s e f (f' - 1) = min (max f' s) (e + 1) - min (max f s) (e + 1)"
  using assms by (auto simp: overlap_def max_def min_def)

lemma month_step:
  assumes "m < 12"
  shows "days_from_civil year (int m + 1) 1 \<le> days_from_civil year (int m + 2) 1"
proof -
  have "int m + 1 + 1 = int m + 2" by simp
  from days_from_civil_next_month [of "int m + 1" year 1, unfolded this] show ?thesis
    using month_len_range [of "int m + 1" year] assms by simp
qed

lemma overlap_months:
  assumes "s \<le> e" and "days_from_civil year 1 1 \<le> s" and "e \<le> days_from_civil year 12 31"
  shows "(\<Sum>m \<leftarrow> [0..<12]. overlap s e (days_from_civil year (int m + 1) 1) (days_from_civil year (int m + 2) 1 - 1)) = e - s + 1"
proof -
  define g where "g m = min (max (days_from_civil year (int m + 1) 1) s) (e + 1)" for m :: nat
  have step: "overlap s e (days_from_civil year (int m + 1) 1) (days_from_civil year (int m + 2) 1 - 1) = g (Suc m) - g m"
    if "m < 12" for m
    using overlap_clamp [OF assms(1) month_step [OF that]] by (simp add: g_def add.commute)
  have "(\<Sum>m \<leftarrow> [0..<k]. overlap s e (days_from_civil year (int m + 1) 1) (days_from_civil year (int m + 2) 1 - 1)) = g k - g 0"
    if "k \<le> 12" for k
    using that by (induction k) (simp_all add: step)
  moreover have "days_from_civil year 13 1 = days_from_civil year 12 31 + 1"
    by (simp add: days_from_civil_def Let_def days_before_year_Suc days_before_month_def)
  then have "g 12 = e + 1" "g 0 = s" using assms by (simp_all add: g_def)
  ultimately show ?thesis by simp
qed

lemma month_share_near:
  assumes "decimal_lib L" and "day_of (cr_Start r) \<le> day_of (cr_End r)" and "day_of (cr_End r) - day_of (cr_Start r) \<le> 106750"
    and "m < 12"
  shows "\<bar>month_share L year r m - cr_KgCO2e r * of_int (overlap (day_of (cr_Start r)) (day_of (cr_End r))
      (days_from_civil year (int m + 1) 1) (days_from_civil year (int m + 2) 1 - 1)) /
      of_int (day_of (cr_End r) - day_of (cr_Start r) + 1)\<bar> * 10 ^ 16 \<le> 1 / 2"
proof -
  have d: "da_Start (dated_of r) = cr_Start r" "da_End (dated_of r) = cr_End r" "da_Value (dated_of r) = cr_KgCO2e r"
    by (simp_all add: dated_of_def)
  note near = Share_near [OF assms(1), of "dated_of r", unfolded d exact_share_def, OF assms(2,3)]
  show ?thesis unfolding month_share_def Let_def month_windows [OF assms(4), symmetric] by (rule near)
qed

section \<open>What a month adds\<close>

text \<open>A key that is absent reads 0.\<close>

abbreviation amount :: "('k \<rightharpoonup> dec) \<Rightarrow> 'k \<Rightarrow> dec" where
  "amount m k \<equiv> (case m k of None \<Rightarrow> 0 | Some x \<Rightarrow> x)"

lemma amount_add_to [simp]: "amount (add_to k v m) k' = amount m k' + (if k' = k then v else 0)"
  by (simp add: add_to_def)

lemma amount_add_key [simp]: "amount (map_of (add_key k v al)) k' = amount (map_of al) k' + (if k' = k then v else 0)"
  by (simp add: add_key_def update_conv')

lemma distinct_add_key [simp]: "distinct (map fst (add_key k v al)) = distinct (map fst al)"
  unfolding add_key_def by (induction al) (auto simp: update_keys)

lemma keys_add_key [simp]: "fst ` set (add_key k v al) = insert k (fst ` set al)"
  by (simp add: add_key_def dom_map_of_conv_image_fst [symmetric] update_conv')

definition months_total :: "declib \<Rightarrow> int \<Rightarrow> carbon_record \<Rightarrow> nat list \<Rightarrow> dec" where
  "months_total L year r ms = (\<Sum>m \<leftarrow> ms. month_share L year r m)"

lemma fold_add_month:
  assumes "fold (add_month L year r sub) ms (o1, b1) = (o2, b2)" and "length (ov_Monthly o1) = 12" and "\<forall>m \<in> set ms. m < 12"
    and "distinct ms"
  shows "ov_Total o2 = ov_Total o1 + months_total L year r ms \<and> ov_Count o2 = ov_Count o1 \<and> ov_Pending o2 = ov_Pending o1 \<and>
    ov_Highest o2 = ov_Highest o1 \<and> length (ov_Monthly o2) = 12 \<and>
    (\<forall>m < 12. ov_Monthly o2 ! m = ov_Monthly o1 ! m + (if m \<in> set ms then month_share L year r m else 0)) \<and>
    (\<forall>k. amount (ov_ByMain o2) k = amount (ov_ByMain o1) k + (if k = su_Main sub then months_total L year r ms else 0)) \<and>
    (\<forall>k. amount (ov_ByScope o2) k = amount (ov_ByScope o1) k + (if k = su_Scope sub then months_total L year r ms else 0)) \<and>
    (\<forall>k. amount (map_of b2) k = amount (map_of b1) k + (if k = cr_Sub r then months_total L year r ms else 0)) \<and>
    distinct (map fst b2) = distinct (map fst b1) \<and>
    fst ` set b2 = fst ` set b1 \<union> (if \<exists>m \<in> set ms. month_share L year r m \<noteq> 0 then {cr_Sub r} else {})"
  using assms
proof (induction ms arbitrary: o1 b1)
  case Nil
  then show ?case by (simp add: months_total_def)
next
  case (Cons m ms)
  obtain o3 b3 where st: "add_month L year r sub m (o1, b1) = (o3, b3)" by (cases "add_month L year r sub m (o1, b1)")
  let ?v = "month_share L year r m"
  have one: "ov_Total o3 = ov_Total o1 + ?v \<and> ov_Count o3 = ov_Count o1 \<and> ov_Pending o3 = ov_Pending o1 \<and>
    ov_Highest o3 = ov_Highest o1 \<and> length (ov_Monthly o3) = 12 \<and>
    (\<forall>k < 12. ov_Monthly o3 ! k = ov_Monthly o1 ! k + (if k = m then ?v else 0)) \<and>
    (\<forall>k. amount (ov_ByMain o3) k = amount (ov_ByMain o1) k + (if k = su_Main sub then ?v else 0)) \<and>
    (\<forall>k. amount (ov_ByScope o3) k = amount (ov_ByScope o1) k + (if k = su_Scope sub then ?v else 0)) \<and>
    (\<forall>k. amount (map_of b3) k = amount (map_of b1) k + (if k = cr_Sub r then ?v else 0)) \<and>
    distinct (map fst b3) = distinct (map fst b1)"
    using st Cons.prems(2,3) by (cases "?v = 0") (auto simp: add_month_def Let_def nth_list_update)
  have keys: "fst ` set b3 = fst ` set b1 \<union> (if ?v \<noteq> 0 then {cr_Sub r} else {})"
  proof (cases "?v = 0")
    case False
    then have "b3 = add_key (cr_Sub r) ?v b1" using st by (simp add: add_month_def Let_def)
    then show ?thesis using False by simp
  qed (use st in \<open>simp add: add_month_def\<close>)
  have "fold (add_month L year r sub) ms (o3, b3) = (o2, b2)" using Cons.prems(1) st by simp
  note IH = Cons.IH [OF this, unfolded keys]
  show ?case using IH one Cons.prems(3,4) by (auto simp: months_total_def)
qed

section \<open>What the records add\<close>

definition counted :: "int \<Rightarrow> carbon_record \<Rightarrow> bool" where
  "counted year r \<longleftrightarrow> counts r \<and> \<not> outside r (midnight year 1 1 utc) (midnight year 12 31 utc)"

abbreviation year_share :: "declib \<Rightarrow> int \<Rightarrow> carbon_record \<Rightarrow> dec" where
  "year_share L year r \<equiv> months_total L year r [0..<12]"

abbreviation sub_of_record :: "carbon_record \<Rightarrow> carbon_sub" where
  "sub_of_record r \<equiv> fst (SubByKey (cr_Sub r))"

text \<open>The sum of the shares of the records that satisfy \<open>P\<close>.\<close>

definition shares_where :: "declib \<Rightarrow> int \<Rightarrow> carbon_record list \<Rightarrow> (carbon_record \<Rightarrow> bool) \<Rightarrow> dec" where
  "shares_where L year rs P = (\<Sum>r \<leftarrow> rs. if P r then year_share L year r else 0)"

lemma shares_where_Nil [simp]: "shares_where L year [] P = 0"
  by (simp add: shares_where_def)

lemma shares_where_Cons [simp]:
  "shares_where L year (r # rs) P = (if P r then year_share L year r else 0) + shares_where L year rs P"
  by (simp add: shares_where_def)

text \<open>A record has a share of the year when one of its months is not zero.\<close>

definition has_share :: "declib \<Rightarrow> int \<Rightarrow> carbon_record \<Rightarrow> bool" where
  "has_share L year r \<longleftrightarrow> (\<exists>m \<in> set [0..<12]. month_share L year r m \<noteq> 0)"

lemma fold_add_record:
  assumes "fold (add_record L year) rs (o1, b1) = (o2, b2)" and "length (ov_Monthly o1) = 12"
  defines "cs \<equiv> filter (counted year) rs"
  shows "ov_Total o2 = ov_Total o1 + shares_where L year cs (\<lambda>_. True) \<and> ov_Count o2 = ov_Count o1 + length cs \<and>
    ov_Pending o2 = ov_Pending o1 + length (filter (\<lambda>r. cr_Status r = CarbonStatusPending) cs) \<and>
    ov_Highest o2 = ov_Highest o1 \<and> length (ov_Monthly o2) = 12 \<and>
    (\<forall>m < 12. ov_Monthly o2 ! m = ov_Monthly o1 ! m + (\<Sum>r \<leftarrow> cs. month_share L year r m)) \<and>
    (\<forall>k. amount (ov_ByMain o2) k = amount (ov_ByMain o1) k + shares_where L year cs (\<lambda>r. k = su_Main (sub_of_record r))) \<and>
    (\<forall>k. amount (ov_ByScope o2) k = amount (ov_ByScope o1) k + shares_where L year cs (\<lambda>r. k = su_Scope (sub_of_record r))) \<and>
    (\<forall>k. amount (map_of b2) k = amount (map_of b1) k + shares_where L year cs (\<lambda>r. k = cr_Sub r)) \<and>
    distinct (map fst b2) = distinct (map fst b1) \<and>
    fst ` set b2 = fst ` set b1 \<union> cr_Sub ` set (filter (has_share L year) cs)"
  using assms(1,2) unfolding cs_def
proof (induction rs arbitrary: o1 b1)
  case (Cons r rs)
  show ?case
  proof (cases "counted year r")
    case False
    then have "add_record L year r (o1, b1) = (o1, b1)" by (auto simp: counted_def add_record_def)
    with Cons False show ?thesis by simp
  next
    case True
    define p where "p = (if cr_Status r = CarbonStatusPending then 1 else 0 :: nat)"
    define o0 where "o0 = o1\<lparr>ov_Count := ov_Count o1 + 1, ov_Pending := ov_Pending o1 + p\<rparr>"
    obtain o3 b3 where st: "fold (add_month L year r (sub_of_record r)) [0..<12] (o0, b1) = (o3, b3)"
      by (cases "fold (add_month L year r (sub_of_record r)) [0..<12] (o0, b1)")
    have "add_record L year r (o1, b1) = (o3, b3)"
      using True st by (auto simp: counted_def add_record_def Let_def o0_def p_def)
    then have "fold (add_record L year) rs (o3, b3) = (o2, b2)" using Cons.prems(1) by simp
    note IH = Cons.IH [OF this]
    have "length (ov_Monthly o0) = 12" using Cons.prems(2) by (simp add: o0_def)
    note one = fold_add_month [OF st this, folded has_share_def]
    have o0: "ov_Total o0 = ov_Total o1" "ov_Count o0 = Suc (ov_Count o1)" "ov_Pending o0 = ov_Pending o1 + p"
      "ov_Monthly o0 = ov_Monthly o1" "ov_ByMain o0 = ov_ByMain o1" "ov_ByScope o0 = ov_ByScope o1"
      "ov_Highest o0 = ov_Highest o1" by (simp_all add: o0_def)
    show ?thesis using one IH True by (auto simp: o0 p_def)
  qed
qed simp

lemma amount_zero_fold: "amount mp j = 0 \<Longrightarrow> amount (fold (\<lambda>k mp. mp(k \<mapsto> 0)) ks mp) j = 0"
  by (induction ks arbitrary: mp) (simp_all split: option.splits)

lemma empty_year_amounts:
  "amount (ov_ByMain empty_year) k = 0" "amount (ov_ByScope empty_year) s = 0" "length (ov_Monthly empty_year) = 12"
  "m < 12 \<Longrightarrow> ov_Monthly empty_year ! m = 0" "ov_Total empty_year = 0" "ov_Count empty_year = 0" "ov_Pending empty_year = 0"
  "ov_Highest empty_year = None"
  by (simp_all add: empty_year_def amount_zero_fold)

text \<open>Every record has one category, so a sum over the categories is the sum over the records.\<close>

lemma shares_by_category:
  assumes "distinct ks" and "\<And>r. r \<in> set rs \<Longrightarrow> f r \<in> set ks"
  shows "(\<Sum>k \<leftarrow> ks. shares_where L year rs (\<lambda>r. k = f r)) = shares_where L year rs (\<lambda>_. True)"
  using assms(2)
proof (induction rs)
  case (Cons r rs)
  have "(\<Sum>k \<leftarrow> ks. if k = f r then year_share L year r else 0) = year_share L year r"
    using assms(1) Cons.prems by (simp add: sum_list_distinct_conv_sum_set)
  then show ?case using Cons by (simp add: sum_list_addf)
qed (simp add: sum_list_0)

lemma highest_spec:
  "sorted ks \<Longrightarrow> case fold (highest_step al) ks None of
     None \<Rightarrow> ks = []
   | Some s \<Rightarrow> sb_Sub s \<in> set ks \<and> sb_KgCO2e s = the (map_of al (sb_Sub s)) \<and>
       (\<forall>k \<in> set ks. the (map_of al k) \<le> sb_KgCO2e s \<and> (the (map_of al k) = sb_KgCO2e s \<longrightarrow> sb_Sub s \<le> k))"
proof (induction ks rule: rev_induct)
  case (snoc k ks)
  define h where "h = fold (highest_step al) ks None"
  have step: "fold (highest_step al) (ks @ [k]) None = highest_step al k h" by (simp add: h_def)
  have "sorted ks" "\<forall>j \<in> set ks. j \<le> k" using snoc.prems by (simp_all add: sorted_append)
  with snoc.IH show ?case unfolding step h_def [symmetric] by (cases h) (auto simp: highest_step_def Let_def)
qed simp

section \<open>What the groups hold\<close>

definition lines_sum :: "string set \<Rightarrow> (string \<rightharpoonup> (string \<times> dec) list) \<Rightarrow> dec" where
  "lines_sum K lines = (\<Sum>k \<in> K. sum_list (map snd (the (lines k))))"

lemma sum_add_key:
  "distinct (map fst xs) \<Longrightarrow> sum_list (map snd (add_key k v xs)) = sum_list (map snd xs) + v"
  unfolding add_key_def by (induction xs) auto

text \<open>A record of the window: not rejected, and its civil dates overlap the window.\<close>

definition in_window :: "located \<Rightarrow> located \<Rightarrow> carbon_record \<Rightarrow> bool" where
  "in_window from_t to_t r \<longleftrightarrow> counts r \<and> \<not> outside r (civil from_t) (civil to_t)"

lemma groups_loop_skip:
  "\<not> in_window from_t to_t r \<Longrightarrow>
   groups_loop L kind from_t to_t (r # rs) lines acc pending = groups_loop L kind from_t to_t rs lines acc pending"
  by (auto simp: in_window_def)

lemma groups_loop_spec:
  assumes "groups_loop L kind from_t to_t rs lines acc pending = Some (lines', acc', pending')"
    and "finite K" and "dom lines = K" and "\<forall>k \<in> K. distinct (map fst (the (lines k)))"
  defines "ws \<equiv> filter (in_window from_t to_t) rs"
  shows "dom lines' = K \<and> (\<forall>k \<in> K. distinct (map fst (the (lines' k)))) \<and>
    lines_sum K lines' - lines_sum K lines = acc' - acc \<and>
    acc' = acc + (\<Sum>r \<leftarrow> ws. Share L (dated_of r) from_t to_t) \<and>
    (\<forall>k. fst ` set (the (lines' k)) =
      fst ` set (the (lines k)) \<union> cr_Sub ` set (filter (\<lambda>r. group_key kind (sub_of_record r) = k) ws)) \<and>
    (\<forall>k i. amount (map_of (the (lines' k))) i = amount (map_of (the (lines k))) i +
      (\<Sum>r \<leftarrow> filter (\<lambda>r. group_key kind (sub_of_record r) = k \<and> cr_Sub r = i) ws. Share L (dated_of r) from_t to_t)) \<and>
    pending' = pending + length (filter (\<lambda>r. cr_Status r = CarbonStatusPending) ws)"
  using assms(1,3,4) unfolding ws_def
proof (induction rs arbitrary: lines acc pending)
  case (Cons r rs)
  show ?case
  proof (cases "in_window from_t to_t r")
    case False
    then have same: "filter (in_window from_t to_t) (r # rs) = filter (in_window from_t to_t) rs" by simp
    show ?thesis unfolding same by (rule Cons.IH [OF Cons.prems(1) [unfolded groups_loop_skip [OF False]] Cons.prems(2,3)])
  next
    case True
    define v where "v = Share L (dated_of r) from_t to_t"
    define key where "key = group_key kind (sub_of_record r)"
    define p where "p = (if cr_Status r = CarbonStatusPending then pending + 1 else pending)"
    obtain al where al: "lines key = Some al"
      and rest: "groups_loop L kind from_t to_t rs (lines(key \<mapsto> add_key (cr_Sub r) v al)) (acc + v) p = Some (lines', acc', pending')"
      using Cons.prems(1) True by (auto simp: in_window_def Let_def v_def key_def p_def split: option.splits)
    define lines1 where "lines1 = lines(key \<mapsto> add_key (cr_Sub r) v al)"
    have K: "key \<in> K" using al Cons.prems(2) by auto
    have al_distinct: "distinct (map fst al)" using bspec [OF Cons.prems(3) K] al by simp
    have dom: "dom lines1 = K" using Cons.prems(2) K by (auto simp: lines1_def)
    have dist: "\<forall>k \<in> K. distinct (map fst (the (lines1 k)))"
      using Cons.prems(3) al_distinct by (simp add: lines1_def)
    from al_distinct have one: "lines_sum K lines1 = lines_sum K lines + v"
      unfolding lines_sum_def sum.remove [OF assms(2) K] using al
      by (simp add: lines1_def sum_add_key)
    have keys: "fst ` set (the (lines1 k)) = fst ` set (the (lines k)) \<union> (if key = k then {cr_Sub r} else {})" for k
      using al by (cases "key = k") (simp_all add: lines1_def)
    have amounts: "amount (map_of (the (lines1 k))) i = amount (map_of (the (lines k))) i + (if key = k \<and> cr_Sub r = i then v else 0)" for k i
      using al by (auto simp: lines1_def)
    note IH = Cons.IH [OF rest [folded lines1_def] dom dist, unfolded keys amounts one, unfolded v_def key_def p_def]
    show ?thesis using IH True by (simp add: add_ac) force
  qed
qed simp

text \<open>The loop only stops at a record whose group does not exist.\<close>

lemma groups_loop_None:
  "groups_loop L kind from_t to_t rs lines acc pending = None \<longleftrightarrow>
   (\<exists>r \<in> set rs. counts r \<and> \<not> outside r (civil from_t) (civil to_t) \<and> group_key kind (sub_of_record r) \<notin> dom lines)"
proof (induction rs arbitrary: lines acc pending)
  case (Cons r rs)
  show ?case
  proof (cases "counts r \<and> \<not> outside r (civil from_t) (civil to_t)")
    case False
    then show ?thesis using Cons.IH by auto
  next
    case True
    show ?thesis
    proof (cases "lines (group_key kind (sub_of_record r))")
      case None
      then show ?thesis using True by (auto simp: Let_def)
    next
      case (Some al)
      then have dom: "dom (lines(group_key kind (sub_of_record r) \<mapsto> xs)) = dom lines" "group_key kind (sub_of_record r) \<in> dom lines"
        for xs by auto
      have step: "groups_loop L kind from_t to_t (r # rs) lines acc pending =
          groups_loop L kind from_t to_t rs
            (lines(group_key kind (sub_of_record r) \<mapsto> add_key (cr_Sub r) (Share L (dated_of r) from_t to_t) al))
            (acc + Share L (dated_of r) from_t to_t) (if cr_Status r = CarbonStatusPending then pending + 1 else pending)"
        using True Some by (simp add: Let_def)
      show ?thesis unfolding step Cons.IH dom(1) using dom(2) by auto
    qed
  qed
qed simp

lemma group_order_distinct: "distinct (group_order kind)"
  by (simp add: group_order_def CarbonScopes_def ISOCategories_def)

lemma group_key_known:
  assumes "known_sub (cr_Sub r)"
  shows "group_key kind (sub_of_record r) \<in> set (group_order kind)"
proof -
  have "su_Scope (sub_of_record r) \<in> set CarbonScopes \<and> su_ISO (sub_of_record r) \<in> set ISOCategories"
    using catalogue_subs(2) SubByKey_known [OF assms] by blast
  then show ?thesis by (simp add: group_key_def group_order_def)
qed

lemma group_key_unknown:
  assumes "\<not> known_sub (cr_Sub r)"
  shows "group_key kind (sub_of_record r) \<notin> set (group_order kind)"
  by (simp add: SubByKey_unknown [OF assms] group_key_def no_sub_def group_order_def CarbonScopes_def ISOCategories_def)

lemma group_of_total:
  assumes "distinct (map fst (the (lines k)))"
  shows "gr_Total (group_of lines k) = sum_list (map snd (the (lines k)))"
    and "sum_list (map sb_KgCO2e (gr_Lines (group_of lines k))) = gr_Total (group_of lines k)"
proof -
  define al where "al = the (lines k)"
  have f: "fold (\<lambda>s t. t + f s) xs a = a + sum_list (map f xs)" for f :: "string \<Rightarrow> dec" and xs a
    by (induction xs arbitrary: a) simp_all
  have "sum_list (map f (sort (map fst al))) = sum_list (map f (map fst al))" for f :: "string \<Rightarrow> dec"
    using sum_mset_sum_list [of "map f (sort (map fst al))"] sum_mset_sum_list [of "map f (map fst al)"]
    by (metis mset_map mset_sort)
  moreover have "map (\<lambda>s. the (map_of al s)) (map fst al) = map snd al"
    using assms unfolding al_def [symmetric] by (auto simp: map_of_is_SomeI)
  ultimately have total: "sum_list (map (\<lambda>s. the (map_of al s)) (sort (map fst al))) = sum_list (map snd al)"
    by (metis)
  show "gr_Total (group_of lines k) = sum_list (map snd (the (lines k)))"
    unfolding group_of_def Let_def sortedKeys_def f al_def [symmetric] using total by simp
  then show "sum_list (map sb_KgCO2e (gr_Lines (group_of lines k))) = gr_Total (group_of lines k)"
    using total unfolding al_def by (simp add: group_of_def Let_def sortedKeys_def comp_def)
qed

section \<open>Properties\<close>

text \<open>C38. The year's figures reconcile exactly although every share is rounded. A record counts when it is not rejected and its civil
  dates overlap the year. The total is the sum of the twelve months; a month is the sum of the shares of the records that
  count, which \<open>Count\<close> counts; every main category and every scope holds the sum of the shares of its records, and when the
  catalogue knows all the sub-categories the main categories and the scopes each add up to the total. There is a highest
  sub-category exactly when a record that counts has a month with a share other than zero; it is the sub-category of such a
  record, its amount is the sum of its records, no sub-category with a share has more, and among equal ones it is the first by
  key.\<close>

theorem BuildYear_reconciles:
  fixes L records year
  defines "o' \<equiv> BuildYear L records year"
    and "cs \<equiv> filter (\<lambda>r. cr_Status r \<noteq> CarbonStatusRejected \<and>
      midnight year 1 1 utc \<le> civil (cr_End r) \<and> civil (cr_Start r) \<le> midnight year 12 31 utc) records"
    and "share \<equiv> \<lambda>r. \<Sum>m \<leftarrow> [0..<12]. month_share L year r m"
    and "shares \<equiv> \<lambda>r. \<exists>m < 12. month_share L year r m \<noteq> 0"
  shows "ov_Total o' = sum_list (ov_Monthly o') \<and>
    (\<forall>m < 12. ov_Monthly o' ! m = (\<Sum>r \<leftarrow> cs. month_share L year r m)) \<and>
    ov_Count o' = length cs \<and> ov_Pending o' = length (filter (\<lambda>r. cr_Status r = CarbonStatusPending) cs) \<and>
    (\<forall>k. amount (ov_ByMain o') k = (\<Sum>r \<leftarrow> filter (\<lambda>r. su_Main (sub_of_record r) = k) cs. share r)) \<and>
    (\<forall>k. amount (ov_ByScope o') k = (\<Sum>r \<leftarrow> filter (\<lambda>r. su_Scope (sub_of_record r) = k) cs. share r)) \<and>
    (list_all (\<lambda>r. known_sub (cr_Sub r)) cs \<longrightarrow>
      (\<Sum>k \<leftarrow> Mains. amount (ov_ByMain o') k) = ov_Total o' \<and> (\<Sum>s \<leftarrow> CarbonScopes. amount (ov_ByScope o') s) = ov_Total o') \<and>
    (ov_Highest o' \<noteq> None) = list_ex shares cs \<and>
    (\<forall>h. ov_Highest o' = Some h \<longrightarrow>
      (\<exists>r \<in> set cs. shares r \<and> cr_Sub r = sb_Sub h) \<and>
      sb_KgCO2e h = (\<Sum>r \<leftarrow> filter (\<lambda>r. cr_Sub r = sb_Sub h) cs. share r) \<and>
      (\<forall>r \<in> set cs. shares r \<longrightarrow> (let x = \<Sum>q \<leftarrow> filter (\<lambda>q. cr_Sub q = cr_Sub r) cs. share q
        in x \<le> sb_KgCO2e h \<and> (x = sb_KgCO2e h \<longrightarrow> sb_Sub h \<le> cr_Sub r))))"
proof -
  obtain o2 b2 where f: "fold (add_record L year) records (empty_year, []) = (o2, b2)"
    by (cases "fold (add_record L year) records (empty_year, [])")
  have counted: "(\<lambda>r. cr_Status r \<noteq> CarbonStatusRejected \<and>
      midnight year 1 1 utc \<le> civil (cr_End r) \<and> civil (cr_Start r) \<le> midnight year 12 31 utc) = counted year"
    by (rule ext) (auto simp: counted_def counts_def outside_def)
  have share: "share = year_share L year" and shares: "shares = has_share L year"
    by (rule ext, force simp: share_def shares_def months_total_def has_share_def)+
  note cs = cs_def [unfolded counted]
  note spec = fold_add_record [OF f empty_year_amounts(3), folded cs, unfolded empty_year_amounts]
  have by_cat: "shares_where L year cs P = (\<Sum>r \<leftarrow> filter P cs. share r)" for P
    by (simp add: shares_where_def share sum_list_map_filter' [symmetric])
  have fields: "ov_Total o' = ov_Total o2" "ov_Monthly o' = ov_Monthly o2" "ov_Count o' = ov_Count o2" "ov_Pending o' = ov_Pending o2"
    "ov_ByMain o' = ov_ByMain o2" "ov_ByScope o' = ov_ByScope o2"
    "ov_Highest o' = fold (highest_step b2) (sortedKeys b2) None"
    using spec by (simp_all add: o'_def BuildYear_def f)
  have months: "\<forall>m < 12. ov_Monthly o2 ! m = (\<Sum>r \<leftarrow> cs. month_share L year r m)" using spec empty_year_amounts(4) by simp
  have "ov_Monthly o2 = map (\<lambda>m. \<Sum>r \<leftarrow> cs. month_share L year r m) [0..<12]"
    by (rule nth_equalityI) (use spec months in simp_all)
  then have "sum_list (ov_Monthly o2) = (\<Sum>m \<leftarrow> [0..<12]. \<Sum>r \<leftarrow> cs. month_share L year r m)" by (simp only:)
  also have "\<dots> = (\<Sum>r \<leftarrow> cs. year_share L year r)"
    unfolding months_total_def by (induction cs) (simp_all add: sum_list_addf sum_list_0)
  finally have total: "ov_Total o2 = sum_list (ov_Monthly o2)" using spec by (simp add: shares_where_def)
  have cats: "(\<Sum>k \<leftarrow> Mains. amount (ov_ByMain o2) k) = ov_Total o2 \<and> (\<Sum>s \<leftarrow> CarbonScopes. amount (ov_ByScope o2) s) = ov_Total o2"
    if "list_all (\<lambda>r. known_sub (cr_Sub r)) cs"
  proof -
    have "su_Main (sub_of_record r) \<in> set Mains \<and> su_Scope (sub_of_record r) \<in> set CarbonScopes" if "r \<in> set cs" for r
    proof -
      have "known_sub (cr_Sub r)" using \<open>list_all (\<lambda>r. known_sub (cr_Sub r)) cs\<close> that by (simp add: list_all_iff)
      from SubByKey_known [OF this] show ?thesis using catalogue_subs(2) by blast
    qed
    then show ?thesis
      using spec shares_by_category [OF Mains_distinct, of cs "\<lambda>r. su_Main (sub_of_record r)"]
        shares_by_category [of CarbonScopes cs "\<lambda>r. su_Scope (sub_of_record r)"]
      by (simp add: CarbonScopes_def)
  qed
  have by_sub: "amount (map_of b2) k = shares_where L year cs (\<lambda>r. cr_Sub r = k)" for k
    using spec by (simp add: shares_where_def eq_commute [of k])
  have keys: "set (sortedKeys b2) = cr_Sub ` set (filter shares cs)" using spec by (simp add: sortedKeys_def shares)
  have known: "the (map_of b2 k) = shares_where L year cs (\<lambda>r. cr_Sub r = k)" if "k \<in> set (sortedKeys b2)" for k
  proof -
    have "k \<in> dom (map_of b2)" using that by (simp add: sortedKeys_def dom_map_of_conv_image_fst)
    then show ?thesis by (auto simp flip: by_sub)
  qed
  have top: "(ov_Highest o' \<noteq> None) = list_ex shares cs \<and> (\<forall>h. ov_Highest o' = Some h \<longrightarrow>
      sb_Sub h \<in> set (sortedKeys b2) \<and> sb_KgCO2e h = shares_where L year cs (\<lambda>r. cr_Sub r = sb_Sub h) \<and>
      (\<forall>k \<in> set (sortedKeys b2). shares_where L year cs (\<lambda>r. cr_Sub r = k) \<le> sb_KgCO2e h \<and>
        (shares_where L year cs (\<lambda>r. cr_Sub r = k) = sb_KgCO2e h \<longrightarrow> sb_Sub h \<le> k)))"
  proof -
    have "sorted (sortedKeys b2)" by (simp add: sortedKeys_def)
    note high = highest_spec [OF this, of b2, folded fields(7)]
    have "list_ex shares cs \<longleftrightarrow> sortedKeys b2 \<noteq> []"
      using arg_cong [OF keys, of "\<lambda>s. s = {}"] by (auto simp: list_ex_iff filter_empty_conv)
    with high known show ?thesis by (cases "ov_Highest o'") auto
  qed
  have "ov_Count o2 = length cs" "ov_Pending o2 = length (filter (\<lambda>r. cr_Status r = CarbonStatusPending) cs)"
    "amount (ov_ByMain o2) k = shares_where L year cs (\<lambda>r. su_Main (sub_of_record r) = k)"
    "amount (ov_ByScope o2) s = shares_where L year cs (\<lambda>r. su_Scope (sub_of_record r) = s)" for k s
    using spec by (simp_all add: shares_where_def eq_commute [of k] eq_commute [of s])
  with total months cats have "ov_Total o' = sum_list (ov_Monthly o')" "\<forall>m < 12. ov_Monthly o' ! m = (\<Sum>r \<leftarrow> cs. month_share L year r m)"
    "ov_Count o' = length cs" "ov_Pending o' = length (filter (\<lambda>r. cr_Status r = CarbonStatusPending) cs)"
    "\<forall>k. amount (ov_ByMain o') k = (\<Sum>r \<leftarrow> filter (\<lambda>r. su_Main (sub_of_record r) = k) cs. share r)"
    "\<forall>k. amount (ov_ByScope o') k = (\<Sum>r \<leftarrow> filter (\<lambda>r. su_Scope (sub_of_record r) = k) cs. share r)"
    "list_all (\<lambda>r. known_sub (cr_Sub r)) cs \<longrightarrow>
      (\<Sum>k \<leftarrow> Mains. amount (ov_ByMain o') k) = ov_Total o' \<and> (\<Sum>s \<leftarrow> CarbonScopes. amount (ov_ByScope o') s) = ov_Total o'"
    unfolding fields(1-6) by_cat by auto
  moreover have "\<forall>h. ov_Highest o' = Some h \<longrightarrow>
      (\<exists>r \<in> set cs. shares r \<and> cr_Sub r = sb_Sub h) \<and>
      sb_KgCO2e h = (\<Sum>r \<leftarrow> filter (\<lambda>r. cr_Sub r = sb_Sub h) cs. share r) \<and>
      (\<forall>r \<in> set cs. shares r \<longrightarrow> (let x = \<Sum>q \<leftarrow> filter (\<lambda>q. cr_Sub q = cr_Sub r) cs. share q
        in x \<le> sb_KgCO2e h \<and> (x = sb_KgCO2e h \<longrightarrow> sb_Sub h \<le> cr_Sub r)))"
    using conjunct2 [OF top] unfolding keys by_cat Let_def by auto metis
  ultimately show ?thesis using conjunct1 [OF top] by (intro conjI)
qed

text \<open>The months of a dated value: when its civil dates lie in the year, the twelve monthly shares add up to the value up to
  one rounding to 16 places per month, because the months tile the year; each is the value by the days of the month it covers.\<close>

theorem month_shares_add_up:
  assumes "decimal_lib L" and "day_of (cr_Start r) \<le> day_of (cr_End r)"
    and "days_from_civil year 1 1 \<le> day_of (cr_Start r)" and "day_of (cr_End r) \<le> days_from_civil year 12 31"
  shows "\<bar>(\<Sum>m \<leftarrow> [0..<12]. month_share L year r m) - cr_KgCO2e r\<bar> * 10 ^ 16 \<le> 6 \<and>
    (\<forall>m < 12. \<bar>month_share L year r m - cr_KgCO2e r *
        of_int (overlap (day_of (cr_Start r)) (day_of (cr_End r)) (days_from_civil year (int m + 1) 1)
          (days_from_civil year (int m + 2) 1 - 1)) /
        of_int (day_of (cr_End r) - day_of (cr_Start r) + 1)\<bar> * 10 ^ 16 \<le> 1 / 2)"
proof -
  let ?s = "day_of (cr_Start r)" and ?e = "day_of (cr_End r)"
  let ?ov = "\<lambda>m. overlap ?s ?e (days_from_civil year (int m + 1) 1) (days_from_civil year (int m + 2) 1 - 1)"
  let ?n = "of_int (?e - ?s + 1) :: dec"
  have "days_from_civil year 12 31 \<le> days_from_civil year 1 1 + 365"
    by (simp add: days_from_civil_def Let_def days_before_month_def)
  then have short: "?e - ?s \<le> 106750" using assms(3,4) by linarith
  have near: "\<bar>month_share L year r m - cr_KgCO2e r * of_int (?ov m) / ?n\<bar> * 10 ^ 16 \<le> 1 / 2" if "m < 12" for m
    using month_share_near [OF assms(1,2) short that] .
  have sum_near: "\<bar>(\<Sum>m \<leftarrow> [0..<k]. month_share L year r m) - cr_KgCO2e r * of_int (\<Sum>m \<leftarrow> [0..<k]. ?ov m) / ?n\<bar> * 10 ^ 16 \<le> of_nat k / 2"
    if "k \<le> 12" for k
    using that
  proof (induction k)
    case (Suc k)
    define a where "a = (\<Sum>m \<leftarrow> [0..<k]. month_share L year r m) - cr_KgCO2e r * of_int (\<Sum>m \<leftarrow> [0..<k]. ?ov m) / ?n"
    define b where "b = month_share L year r k - cr_KgCO2e r * of_int (?ov k) / ?n"
    have "\<bar>a\<bar> * 10 ^ 16 \<le> of_nat k / 2" "\<bar>b\<bar> * 10 ^ 16 \<le> 1 / 2" using Suc near [of k] by (simp_all add: a_def b_def)
    moreover have "\<bar>a + b\<bar> * 10 ^ 16 \<le> \<bar>a\<bar> * 10 ^ 16 + \<bar>b\<bar> * 10 ^ 16"
      unfolding distrib_right [symmetric] by (intro mult_right_mono abs_triangle_ineq) simp
    moreover have "(\<Sum>m \<leftarrow> [0..<Suc k]. month_share L year r m) - cr_KgCO2e r * of_int (\<Sum>m \<leftarrow> [0..<Suc k]. ?ov m) / ?n = a + b"
      by (simp add: a_def b_def distrib_left add_divide_distrib)
    ultimately show ?case by (simp add: field_simps)
  qed simp
  have "?n \<noteq> 0" using assms(2) by (simp only: of_int_eq_0_iff)
  then have "cr_KgCO2e r * of_int (\<Sum>m \<leftarrow> [0..<12]. ?ov m) / ?n = cr_KgCO2e r"
    unfolding overlap_months [OF assms(2-4)] by simp
  then have "\<bar>(\<Sum>m \<leftarrow> [0..<12]. month_share L year r m) - cr_KgCO2e r\<bar> * 10 ^ 16 \<le> 6"
    using sum_near [of 12] by simp
  with near show ?thesis by blast
qed

text \<open>C39. A report's groups, over the records of the window: those not rejected whose civil dates overlap it. The grouping fails
  exactly when the catalogue does not know the sub-category of a record of the window (the assignment into a group that does not
  exist). Otherwise every group of the kind is there in its order, even when empty; its lines are the sub-categories of its
  records, each once and sorted by key, with the sum of the shares that their records have of the window; its total is the sum
  of its lines; and the overall total is the sum of all shares and the sum of the group totals.\<close>

theorem Groups_reconcile:
  fixes L records kind from_t to_t
  defines "ws \<equiv> filter (\<lambda>r. cr_Status r \<noteq> CarbonStatusRejected \<and>
      civil from_t \<le> civil (cr_End r) \<and> civil (cr_Start r) \<le> civil to_t) records"
    and "key \<equiv> \<lambda>r. if kind = ''ghg'' then scope_string (su_Scope (sub_of_record r)) else su_ISO (sub_of_record r)"
    and "share \<equiv> \<lambda>r. Share L (dated_of r) from_t to_t"
  shows "(Groups L records kind from_t to_t = None) = list_ex (\<lambda>r. \<not> known_sub (cr_Sub r)) ws \<and>
   (case Groups L records kind from_t to_t of
      None \<Rightarrow> True
    | Some (gs, acc, pending) \<Rightarrow>
        map gr_Key gs = group_order kind \<and>
        list_all (\<lambda>g. sorted (map sb_Sub (gr_Lines g)) \<and> distinct (map sb_Sub (gr_Lines g)) \<and>
          set (map sb_Sub (gr_Lines g)) = cr_Sub ` set (filter (\<lambda>r. key r = gr_Key g) ws) \<and>
          list_all (\<lambda>l. sb_KgCO2e l = (\<Sum>r \<leftarrow> filter (\<lambda>r. cr_Sub r = sb_Sub l) ws. share r)) (gr_Lines g) \<and>
          gr_Total g = (\<Sum>l \<leftarrow> gr_Lines g. sb_KgCO2e l)) gs \<and>
        acc = (\<Sum>r \<leftarrow> ws. share r) \<and> acc = (\<Sum>g \<leftarrow> gs. gr_Total g) \<and>
        pending = length (filter (\<lambda>r. cr_Status r = CarbonStatusPending) ws))"
proof -
  have "(\<lambda>r. cr_Status r \<noteq> CarbonStatusRejected \<and> civil from_t \<le> civil (cr_End r) \<and> civil (cr_Start r) \<le> civil to_t) =
      in_window from_t to_t"
    by (rule ext) (auto simp: in_window_def counts_def outside_def)
  note ws = ws_def [unfolded this]
  have key_eq: "key r = group_key kind (sub_of_record r)" for r by (simp add: key_def group_key_def)
  let ?ks = "group_order kind"
  define start where "start = fold (\<lambda>k m. m(k \<mapsto> [])) ?ks (Map.empty :: string \<rightharpoonup> (string \<times> dec) list)"
  have start: "dom start = set ?ks \<and> (\<forall>k \<in> set ?ks. the (start k) = [])"
  proof -
    have "dom (fold (\<lambda>k m. m(k \<mapsto> [])) ks m) = set ks \<union> dom m \<and>
        (\<forall>k. k \<in> set ks \<or> m k = Some [] \<longrightarrow> fold (\<lambda>k m. m(k \<mapsto> [])) ks m k = Some [])"
      for ks and m :: "string \<rightharpoonup> (string \<times> dec) list"
      by (induction ks arbitrary: m) auto
    from this [of ?ks Map.empty] show ?thesis by (simp add: start_def)
  qed
  have g: "Groups L records kind from_t to_t = map_option (\<lambda>(lines, acc, pending). (map (group_of lines) ?ks, acc, pending))
      (groups_loop L kind from_t to_t records start 0 0)" by (simp add: Groups_def start_def)
  have key: "group_key kind (sub_of_record r) \<notin> set ?ks \<longleftrightarrow> \<not> known_sub (cr_Sub r)" for r
    using group_key_known group_key_unknown by blast
  have none: "(Groups L records kind from_t to_t = None) = list_ex (\<lambda>r. \<not> known_sub (cr_Sub r)) ws"
    unfolding g option.map_disc_iff groups_loop_None using start key by (auto simp: list_ex_iff ws in_window_def)
  show ?thesis
  proof (cases "groups_loop L kind from_t to_t records start 0 0")
    case None
    then show ?thesis using none g by simp
  next
    case (Some st)
    then obtain lines acc pending where st: "groups_loop L kind from_t to_t records start 0 0 = Some (lines, acc, pending)"
      by (metis prod_cases3)
    have sum0: "lines_sum (set ?ks) start = 0" using start by (simp add: lines_sum_def)
    note spec = groups_loop_spec [OF st, of "set ?ks", folded ws, unfolded sum0 key_eq [symmetric]]
    have empty: "the (start k) = []" if "k \<in> set ?ks" for k using start that by simp
    have s: "\<forall>k \<in> set ?ks. distinct (map fst (the (lines k)))" "lines_sum (set ?ks) lines = acc"
      "acc = (\<Sum>r \<leftarrow> ws. share r)" "pending = length (filter (\<lambda>r. cr_Status r = CarbonStatusPending) ws)"
      using spec start by (simp_all add: share_def)
    have keys: "fst ` set (the (lines k)) = cr_Sub ` set (filter (\<lambda>r. key r = k) ws)"
      and amounts: "amount (map_of (the (lines k))) i = (\<Sum>r \<leftarrow> filter (\<lambda>r. key r = k \<and> cr_Sub r = i) ws. share r)"
      if "k \<in> set ?ks" for k i
      using spec start empty [OF that] by (simp_all add: share_def)
    have total: "(\<Sum>g \<leftarrow> map (group_of lines) ?ks. gr_Total g) = acc"
      using s(1,2) group_of_total(1) group_order_distinct [of kind]
      by (simp add: lines_sum_def sum_list_distinct_conv_sum_set comp_def cong: sum.cong)
    have group: "sorted (map sb_Sub (gr_Lines (group_of lines k))) \<and> distinct (map sb_Sub (gr_Lines (group_of lines k))) \<and>
          set (map sb_Sub (gr_Lines (group_of lines k))) = cr_Sub ` set (filter (\<lambda>r. key r = k) ws) \<and>
          list_all (\<lambda>l. sb_KgCO2e l = (\<Sum>r \<leftarrow> filter (\<lambda>r. cr_Sub r = sb_Sub l) ws. share r)) (gr_Lines (group_of lines k)) \<and>
          gr_Total (group_of lines k) = (\<Sum>l \<leftarrow> gr_Lines (group_of lines k). sb_KgCO2e l)" if k: "k \<in> set ?ks" for k
    proof -
      have subs: "map sb_Sub (gr_Lines (group_of lines k)) = sortedKeys (the (lines k))"
        by (simp add: group_of_def Let_def comp_def)
      have line: "the (map_of (the (lines k)) i) = (\<Sum>r \<leftarrow> filter (\<lambda>r. cr_Sub r = i) ws. share r)"
        if i: "i \<in> set (sortedKeys (the (lines k)))" for i
      proof -
        have "i \<in> fst ` set (the (lines k))" using i by (simp add: sortedKeys_def)
        then obtain q where q: "q \<in> set ws" "key q = k" "cr_Sub q = i" unfolding keys [OF k] by auto
        then have "key r = k \<and> cr_Sub r = i \<longleftrightarrow> cr_Sub r = i" for r by (auto simp: key_def)
        moreover have "i \<in> dom (map_of (the (lines k)))"
          using \<open>i \<in> fst ` set (the (lines k))\<close> by (simp add: dom_map_of_conv_image_fst)
        then have "the (map_of (the (lines k)) i) = amount (map_of (the (lines k))) i" by auto
        ultimately show ?thesis using amounts [OF k, of i] by simp
      qed
      have "list_all (\<lambda>l. sb_KgCO2e l = (\<Sum>r \<leftarrow> filter (\<lambda>r. cr_Sub r = sb_Sub l) ws. share r)) (gr_Lines (group_of lines k))"
        by (simp add: group_of_def Let_def list_all_iff line)
      then show ?thesis unfolding subs using group_of_total(2) [of lines k] s(1) k
        by (simp add: sortedKeys_def keys [OF k])
    qed
    have gkey: "gr_Key (group_of lines k) = k" for k by (simp add: group_of_def Let_def)
    define ok where "ok g \<longleftrightarrow> sorted (map sb_Sub (gr_Lines g)) \<and> distinct (map sb_Sub (gr_Lines g)) \<and>
          set (map sb_Sub (gr_Lines g)) = cr_Sub ` set (filter (\<lambda>r. key r = gr_Key g) ws) \<and>
          list_all (\<lambda>l. sb_KgCO2e l = (\<Sum>r \<leftarrow> filter (\<lambda>r. cr_Sub r = sb_Sub l) ws. share r)) (gr_Lines g) \<and>
          gr_Total g = (\<Sum>l \<leftarrow> gr_Lines g. sb_KgCO2e l)" for g :: report_group
    have "ok (group_of lines k)" if "k \<in> set ?ks" for k
      unfolding ok_def gkey by (rule group [OF that])
    then have "list_all ok (map (group_of lines) ?ks)" by (simp add: list_all_iff)
    moreover have "map gr_Key (map (group_of lines) ?ks) = ?ks" by (simp add: comp_def gkey)
    ultimately show ?thesis using total none s(3,4)
      by (simp only: ok_def [symmetric] g st option.map option.case prod.case simp_thms)
  qed
qed

section \<open>Concrete records\<close>

definition sample_carbon :: "int \<Rightarrow> int \<Rightarrow> dec \<Rightarrow> carbon_record" where
  "sample_carbon s e v =
     \<lparr>cr_Sub = SubGrid, cr_Start = utc_time (s * 86400 * ns_per_sec), cr_End = utc_time (e * 86400 * ns_per_sec),
      cr_KgCO2e = v, cr_Quantity = v, cr_Status = CarbonStatusPending, cr_Automated = True\<rparr>"

lemma sample_carbon_days [simp]:
  "day_of (cr_Start (sample_carbon s e v)) = s" "day_of (cr_End (sample_carbon s e v)) = e" "cr_KgCO2e (sample_carbon s e v) = v"
  "counts (sample_carbon s e v)"
  by (simp_all add: sample_carbon_def counts_def)

theorem month_shares_add_up_witness:
  "\<bar>(\<Sum>m \<leftarrow> [0..<12]. month_share std_declib 1970 (sample_carbon 30 59 (7 / 10)) m) - 7 / 10\<bar> * 10 ^ 16 \<le> 6"
proof -
  have y: "days_from_civil 1970 1 1 = 0" "days_from_civil 1970 12 31 = 364" by code_simp+
  with month_shares_add_up [OF std.decimal_lib_axioms, of "sample_carbon 30 59 (7 / 10)" 1970] show ?thesis by simp
qed

theorem BuildYear_reconciles_witness:
  "ov_Total (BuildYear std_declib [sample_carbon 30 59 (7 / 10)] 1970) =
     sum_list (ov_Monthly (BuildYear std_declib [sample_carbon 30 59 (7 / 10)] 1970)) \<and>
   ov_Count (BuildYear std_declib [sample_carbon 30 59 (7 / 10)] 1970) = 1"
proof -
  have y: "midnight 1970 1 1 utc = 0" "midnight 1970 12 31 utc = 364 * 86400 * ns_per_sec"
    by (simp_all add: utc_fixed midnight_fixed days_from_civil_def Let_def days_before_year_def days_before_month_def epoch_days_def is_leap_def)
  have "midnight 1970 1 1 utc \<le> civil (cr_End (sample_carbon 30 59 (7 / 10)))"
    "civil (cr_Start (sample_carbon 30 59 (7 / 10))) \<le> midnight 1970 12 31 utc"
    unfolding civil_day y by (simp_all add: ns_per_sec_def)
  moreover have "cr_Status (sample_carbon 30 59 (7 / 10)) = CarbonStatusPending" by (simp add: sample_carbon_def)
  ultimately show ?thesis using BuildYear_reconciles [of std_declib "[sample_carbon 30 59 (7 / 10)]" 1970] by simp
qed

text \<open>A share is rounded after all, to the 16 places of \<open>Div\<close>: the three days of one kilogram add up to less than it.\<close>

lemma shares_are_rounded:
  fixes third
  defines "third \<equiv> \<lambda>n. Share std_declib (dated_of (sample_carbon 30 32 1)) (utc_time (n * 86400 * ns_per_sec)) (utc_time (n * 86400 * ns_per_sec))"
  shows "third 30 + third 31 + third 32 < 1"
proof -
  have d: "da_Start (dated_of (sample_carbon 30 32 1)) = cr_Start (sample_carbon 30 32 1)"
    "da_End (dated_of (sample_carbon 30 32 1)) = cr_End (sample_carbon 30 32 1)" "da_Value (dated_of (sample_carbon 30 32 1)) = 1"
    by (simp_all add: dated_of_def)
  have "third n = round_away (1 / 3) 16" if "30 \<le> n" "n \<le> 32" for n
    unfolding third_def using that by (subst Share_eq) (simp_all add: d overlap_def max_def min_def)
  moreover have "half_away (1 / 3 * 10 ^ 16) = 3333333333333333" by (simp add: half_away_def floor_eq_iff)
  then have "round_away (1 / 3) 16 = 3333333333333333 / 10 ^ 16" by (simp add: round_away_def)
  ultimately have "third 30 = 3333333333333333 / 10 ^ 16" "third 31 = 3333333333333333 / 10 ^ 16"
    "third 32 = 3333333333333333 / 10 ^ 16" by simp_all
  then show ?thesis by (simp only:) simp
qed

end
