(* ===== verification/Icmal_Numbers.thy ===== *)
theory Icmal_Numbers
  imports Go_Text
begin

text \<open>
  \<open>tariff/icmal/columns.go\<close> and \<open>numbers.go\<close>: the columns of a supplier's settlement sheet and the numbers in its
  cells. Text is its UTF-8 bytes. The Unicode tables behind \<open>NormaliseHeader\<close> and \<open>ToUpperSpecial\<close> and the library's
  \<open>NewFromString\<close> are parameters; the locale \<open>cell_text\<close> says what the number parser relies on.
\<close>

section \<open>Columns (columns.go)\<close>

datatype icmal_field =
    fPeriod | fEtso | fSubscriberGroup | fTotalKwh | fT0Kwh | fT1Kwh | fT2Kwh | fT3Kwh
  | fSupplementaryKwh | fEnergyCharge | fDistributionCharge | fReactiveCharge | fPowerCharge | fOveruseCharge | fInductiveKvarh | fCapacitiveKvarh
  | fDemand | fVatBase | fVat | fBtv | fEnergyFund | fTrt | fPriceDifference | fCorrection
  | fCancelled | fTerm | fVoltage | fTimeType

fun icmal_field_name :: "icmal_field \<Rightarrow> string" where
  "icmal_field_name fPeriod = ''period''"
| "icmal_field_name fEtso = ''etso''"
| "icmal_field_name fSubscriberGroup = ''subscriber_group''"
| "icmal_field_name fTotalKwh = ''total_kwh''"
| "icmal_field_name fT0Kwh = ''t0_kwh''"
| "icmal_field_name fT1Kwh = ''t1_kwh''"
| "icmal_field_name fT2Kwh = ''t2_kwh''"
| "icmal_field_name fT3Kwh = ''t3_kwh''"
| "icmal_field_name fSupplementaryKwh = ''supplementary_kwh''"
| "icmal_field_name fEnergyCharge = ''energy_charge''"
| "icmal_field_name fDistributionCharge = ''distribution_charge''"
| "icmal_field_name fReactiveCharge = ''reactive_charge''"
| "icmal_field_name fPowerCharge = ''power_charge''"
| "icmal_field_name fOveruseCharge = ''overuse_charge''"
| "icmal_field_name fInductiveKvarh = ''inductive_kvarh''"
| "icmal_field_name fCapacitiveKvarh = ''capacitive_kvarh''"
| "icmal_field_name fDemand = ''demand_kw''"
| "icmal_field_name fVatBase = ''vat_base''"
| "icmal_field_name fVat = ''vat''"
| "icmal_field_name fBtv = ''btv''"
| "icmal_field_name fEnergyFund = ''energy_fund''"
| "icmal_field_name fTrt = ''trt''"
| "icmal_field_name fPriceDifference = ''price_difference''"
| "icmal_field_name fCorrection = ''correction_amount''"
| "icmal_field_name fCancelled = ''cancelled''"
| "icmal_field_name fTerm = ''term''"
| "icmal_field_name fVoltage = ''voltage_level''"
| "icmal_field_name fTimeType = ''time_type''"

definition aliases :: "(icmal_field \<times> bool \<times> string list) list" where
  "aliases =
     [(fPeriod, False, [''Muhasebe D'' @ [CHR 0xC3, CHR 0xB6] @ ''nemi'', ''D'' @ [CHR 0xC3, CHR 0xB6] @ ''nem'']),
      (fEtso, False, [''ETSO Kodu'', ''ETSO'']),
      (fSubscriberGroup, False, [''Fatura Abone Grubu'', ''Abone Grubu'']),
      (fTotalKwh, True, [''Toplam Kwh'']),
      (fT0Kwh, True, [''T0 Kwh'']),
      (fT1Kwh, True, [''T1 Kwh'']),
      (fT2Kwh, True, [''T2 Kwh'']),
      (fT3Kwh, True, [''T3 Kwh'']),
      (fSupplementaryKwh, True, [''Ek T'' @ [CHR 0xC3, CHR 0xBC] @ ''ketim T0 Kwh'']),
      (fEnergyCharge, True, [''Enerji Bedeli Toplam'', ''Enerji Bedeli'']),
      (fDistributionCharge, True, [''Toplam Da'' @ [CHR 0xC4, CHR 0x9F, CHR 0xC4, CHR 0xB1] @ ''t'' @ [CHR 0xC4, CHR 0xB1] @ ''m Bedeli'', ''Da'' @ [CHR 0xC4, CHR 0x9F, CHR 0xC4, CHR 0xB1] @ ''t'' @ [CHR 0xC4, CHR 0xB1] @ ''m Bedeli'']),
      (fReactiveCharge, True, [''Reaktif Bedel'', ''Reaktif Bedeli'']),
      (fPowerCharge, True, [''G'' @ [CHR 0xC3, CHR 0xBC, CHR 0xC3, CHR 0xA7] @ '' Bedeli'']),
      (fOveruseCharge, True, [''G'' @ [CHR 0xC3, CHR 0xBC, CHR 0xC3, CHR 0xA7] @ '' A'' @ [CHR 0xC5, CHR 0x9F, CHR 0xC4, CHR 0xB1] @ ''m Bedeli'']),
      (fInductiveKvarh, True, [''Reaktif Induktif Kwh'', ''Induktif Kwh'']),
      (fCapacitiveKvarh, True, [''Reaktif Kapasitif Kwh'', ''Kapasitif Kwh'']),
      (fDemand, True, [''Demant'', ''Talep'', ''Demand'']),
      (fVatBase, True, [''KDV Matrah'' @ [CHR 0xC4, CHR 0xB1], ''Matrah'']),
      (fVat, True, [''KDV'']),
      (fBtv, True, [''Btv Bedeli'', ''Btv'', ''Belediye T'' @ [CHR 0xC3, CHR 0xBC] @ ''ketim Vergisi'']),
      (fEnergyFund, True, [''Enerji Fonu'']),
      (fTrt, True, [''Trt Bedeli'']),
      (fPriceDifference, True, [''Fiyat Fark'' @ [CHR 0xC4, CHR 0xB1]]),
      (fCorrection, True, [''D'' @ [CHR 0xC3, CHR 0xBC] @ ''zeltme Tutar'' @ [CHR 0xC4, CHR 0xB1]]),
      (fCancelled, False, [''Fatura '' @ [CHR 0xC4, CHR 0xB0] @ ''ptal Mi?'', [CHR 0xC4, CHR 0xB0] @ ''ptal'']),
      (fTerm, False, [''Terim'', ''Tarife Terimi'']),
      (fVoltage, False, [''AG/OG'', ''Gerilim'']),
      (fTimeType, False, [''TekZaman/'' @ [CHR 0xC3, CHR 0x9C, CHR 0xC3, CHR 0xA7] @ '' Zaman'', ''Zaman Tipi''])]"


text \<open>The index of the first string that equals \<open>w\<close>.\<close>

fun index_of :: "string \<Rightarrow> string list \<Rightarrow> nat option" where
  "index_of w [] = None"
| "index_of w (x # xs) = (if x = w then Some 0 else map_option Suc (index_of w xs))"

fun alias_column :: "(string \<Rightarrow> string) \<Rightarrow> string list \<Rightarrow> string list \<Rightarrow> nat option" where
  "alias_column fold_hdr normalised [] = None"
| "alias_column fold_hdr normalised (name # names) =
     (case index_of (fold_hdr name) normalised of None \<Rightarrow> alias_column fold_hdr normalised names | Some i \<Rightarrow> Some i)"

definition columnIndex :: "(string \<Rightarrow> string) \<Rightarrow> string list \<Rightarrow> (icmal_field \<rightharpoonup> nat)" where
  "columnIndex fold_hdr header =
     (let normalised = map fold_hdr header
      in fold (\<lambda>(fld, _, names) out.
           (case alias_column fold_hdr normalised names of None \<Rightarrow> out | Some i \<Rightarrow> out(fld \<mapsto> i))) aliases Map.empty)"

definition HeaderScore :: "(string \<Rightarrow> string) \<Rightarrow> string list \<Rightarrow> nat" where
  "HeaderScore fold_hdr row =
     (let known_names = concat (map (\<lambda>(_, _, names). map fold_hdr names) aliases)
      in fold (\<lambda>c n. if fold_hdr c \<in> set known_names then n + 1 else n) row 0)"

section \<open>Trimming\<close>

text \<open>The runes of white space, as \<open>unicode.IsSpace\<close> has them.\<close>

definition space_runes :: "string list" where
  "space_runes =
     map (map char_of)
       ([[9], [10], [11], [12], [13], [32], [194, 133], [194, 160 :: nat], [225, 154, 128]] @
        map (\<lambda>k. [226, 128, k]) ([128..<139] @ [168, 169, 175]) @ [[226, 129, 159], [227, 128, 128]])"

fun drop_runes :: "nat \<Rightarrow> string list \<Rightarrow> string \<Rightarrow> string" where
  "drop_runes 0 ws s = s"
| "drop_runes (Suc n) ws s =
     (case find (\<lambda>w. take (length w) s = w) ws of None \<Rightarrow> s | Some w \<Rightarrow> drop_runes n ws (drop (length w) s))"

text \<open>One rune is dropped per step, so the length of the string is enough.\<close>

definition TrimSpace :: "string \<Rightarrow> string" where
  "TrimSpace s =
     (let l = drop_runes (length s) space_runes s
      in rev (drop_runes (length l) (map rev space_runes) (rev l)))"

definition trim_char :: "char \<Rightarrow> string \<Rightarrow> string" where
  "trim_char c s = rev (dropWhile (\<lambda>x. x = c) (rev (dropWhile (\<lambda>x. x = c) s)))"

section \<open>Numbers (numbers.go)\<close>

datatype number_format = FormatTurkish | FormatUS

record sheet_table =
  tb_Header :: "string list"
  tb_Rows :: "string list list"

definition trimCell :: "string \<Rightarrow> string" where
  "trimCell s = trim_char CHR 0x22 (TrimSpace s)"

definition digits :: "string \<Rightarrow> bool" where
  "digits s \<longleftrightarrow> list_all is_digit s \<and> s \<noteq> []"

text \<open>\<open>strings.Cut\<close> at the first occurrence of a byte, and \<open>TrimPrefix(s, "-")\<close>.\<close>

definition str_cut :: "char \<Rightarrow> string \<Rightarrow> string \<times> string \<times> bool" where
  "str_cut c s =
     (if c \<in> set s then (takeWhile (\<lambda>x. x \<noteq> c) s, tl (dropWhile (\<lambda>x. x \<noteq> c) s), True) else (s, [], False))"

fun trim_minus :: "string \<Rightarrow> string" where
  "trim_minus [] = []"
| "trim_minus (c # s) = (if c = CHR ''-'' then s else c # s)"

definition grouped :: "string \<Rightarrow> char \<Rightarrow> char \<Rightarrow> bool" where
  "grouped s grp dc =
     (case str_cut dc (trim_minus s) of (intPart, fracPart, ok) \<Rightarrow>
        if \<not> ok \<or> fracPart = [] \<or> \<not> digits fracPart then False
        else (case split_on grp intPart of
                [] \<Rightarrow> False
              | p # ps \<Rightarrow>
                  if length p < 1 \<or> 3 < length p \<or> \<not> digits p then False
                  else list_all (\<lambda>q. length q = 3 \<and> digits q) ps))"

lemma aliases_distinct: "distinct (map fst aliases)"
  by (simp add: aliases_def)

text \<open>Each numeric column with its cells.\<close>

definition scan_cell :: "nat \<Rightarrow> string list \<Rightarrow> bool \<times> bool \<Rightarrow> bool \<times> bool" where
  "scan_cell i row = (\<lambda>(turkish, us).
     (if length row \<le> i then (turkish, us)
      else let c = trimCell (row ! i)
           in (turkish \<or> grouped c CHR ''.'' CHR '','', us \<or> grouped c CHR '','' CHR ''.'')))"

definition scan_numbers :: "(string \<Rightarrow> string) \<Rightarrow> sheet_table \<Rightarrow> bool \<times> bool" where
  "scan_numbers fold_hdr t =
     (let cols = columnIndex fold_hdr (tb_Header t)
      in fold (\<lambda>(fld, numeric, _) st.
           (case cols fld of
              Some i \<Rightarrow> if numeric then fold (scan_cell i) (tb_Rows t) st else st
            | None \<Rightarrow> st)) aliases (False, False))"

text \<open>\<open>Inl ()\<close> is \<open>ErrMixedNumberFormats\<close>.\<close>

definition DetectNumberFormat :: "(string \<Rightarrow> string) \<Rightarrow> sheet_table \<Rightarrow> unit + number_format" where
  "DetectNumberFormat fold_hdr t =
     (case scan_numbers fold_hdr t of (turkish, us) \<Rightarrow>
        if turkish \<and> us then Inl () else if us then Inr FormatUS else Inr FormatTurkish)"

definition bos :: string where "bos = ''BO'' @ [CHR 0xC5, CHR 0x9E]"

text \<open>The two marks of a convention.\<close>

definition group_char :: "number_format \<Rightarrow> char" where
  "group_char fmt = (if fmt = FormatUS then CHR '','' else CHR ''.'')"

definition dec_char :: "number_format \<Rightarrow> char" where
  "dec_char fmt = (if fmt = FormatUS then CHR ''.'' else CHR '','')"

definition ParseNumber ::
  "(string \<Rightarrow> string) \<Rightarrow> (string \<Rightarrow> dec option) \<Rightarrow> string \<Rightarrow> number_format \<Rightarrow> string + dec option" where
  "ParseNumber upper_tr NewFromString s fmt =
     (let c = trimCell s
      in if c = [] \<or> c = ''-'' \<or> upper_tr c = bos then Inr None
         else
           let neg = (take 1 c = ''-'');
               body = filter (\<lambda>x. x \<noteq> group_char fmt) (trim_minus c);
               (intPart, fracPart, hasDec) = str_cut (dec_char fmt) body
           in if \<not> digits intPart \<or> hasDec \<and> \<not> digits fracPart then Inl s
              else
                let txt = intPart @ (if hasDec then ''.'' @ fracPart else []);
                    txt = (if neg then ''-'' @ txt else txt)
                in (case NewFromString txt of None \<Rightarrow> Inl s | Some v \<Rightarrow> Inr (Some v)))"

section \<open>Numbers as the sheets write them\<close>

text \<open>The parts between the group separators, and the decimals if there are any.\<close>

definition number_cell :: "number_format \<Rightarrow> bool \<Rightarrow> string list \<Rightarrow> string option \<Rightarrow> string" where
  "number_cell fmt neg parts dcs =
     (if neg then ''-'' else []) @ str_join [group_char fmt] parts @
       (case dcs of None \<Rightarrow> [] | Some ds \<Rightarrow> dec_char fmt # ds)"

definition number_value :: "bool \<Rightarrow> string \<Rightarrow> string option \<Rightarrow> dec" where
  "number_value neg ip dcs =
     (if neg then - 1 else 1) *
       (of_int (digits_val ip) + (case dcs of None \<Rightarrow> 0 | Some ds \<Rightarrow> of_int (digits_val ds) / 10 ^ length ds))"

definition plain_char :: "char \<Rightarrow> bool" where
  "plain_char c \<longleftrightarrow> is_digit c \<or> c = CHR ''.'' \<or> c = CHR '','' \<or> c = CHR ''-''"

definition decimals_ok :: "string option \<Rightarrow> bool" where
  "decimals_ok dcs = (case dcs of None \<Rightarrow> True | Some ds \<Rightarrow> digits ds)"

text \<open>What the parser relies on: upper-casing leaves digits and the marks of a number alone, and \<open>NewFromString\<close> reads
  plain decimals.\<close>

locale cell_text =
  fixes upper_tr :: "string \<Rightarrow> string" and NewFromString :: "string \<Rightarrow> dec option"
  assumes upper_plain: "list_all plain_char c \<Longrightarrow> upper_tr c = c"
    and read_plain: "digits ip \<Longrightarrow> decimals_ok dcs \<Longrightarrow>
      NewFromString ((if neg then ''-'' else []) @ ip @ (case dcs of None \<Rightarrow> [] | Some ds \<Rightarrow> CHR ''.'' # ds)) =
        Some (number_value neg ip dcs)"

text \<open>An instance: ASCII upper-casing and the obvious reader.\<close>

definition std_upper :: "string \<Rightarrow> string" where
  "std_upper = map (\<lambda>c. if 97 \<le> (of_char c :: nat) \<and> of_char c \<le> (122 :: nat) then char_of (of_char c - 32 :: nat) else c)"

definition std_read :: "string \<Rightarrow> dec option" where
  "std_read s =
     (case str_cut CHR ''.'' (trim_minus s) of (ip, ds, hasDec) \<Rightarrow>
        if digits ip \<and> (hasDec \<longrightarrow> digits ds)
        then Some (number_value (take 1 s = ''-'') ip (if hasDec then Some ds else None)) else None)"

lemma digit_plain: "is_digit c \<Longrightarrow> plain_char c \<and> c \<noteq> CHR ''.'' \<and> c \<noteq> CHR '','' \<and> c \<noteq> CHR ''-''"
  by (auto simp: plain_char_def is_digit_def)

lemma digits_no_mark:
  assumes "digits ds"
  shows "CHR ''.'' \<notin> set ds" "CHR '','' \<notin> set ds" "CHR ''-'' \<notin> set ds" "ds \<noteq> []" "group_char f \<notin> set ds" "dec_char f \<notin> set ds"
proof -
  show m: "CHR ''.'' \<notin> set ds" "CHR '','' \<notin> set ds" "CHR ''-'' \<notin> set ds" "ds \<noteq> []"
    using assms digit_plain by (auto simp: digits_def list_all_iff)
  then show "group_char f \<notin> set ds" "dec_char f \<notin> set ds" by (simp_all add: group_char_def dec_char_def)
qed

lemma str_cut_at: "c \<notin> set a \<Longrightarrow> str_cut c (a @ c # b) = (a, b, True)"
  by (simp add: str_cut_def takeWhile_append dropWhile_append)

lemma str_cut_none: "c \<notin> set a \<Longrightarrow> str_cut c a = (a, [], False)"
  by (simp add: str_cut_def)

lemma trim_minus_sign: "s \<noteq> [] \<Longrightarrow> hd s \<noteq> CHR ''-'' \<Longrightarrow> trim_minus ((if neg then ''-'' else []) @ s) = s"
  by (cases s) auto

lemma digits_hd: "digits ds \<Longrightarrow> ds \<noteq> [] \<and> hd ds \<noteq> CHR ''-''"
  using digits_no_mark(3,4) [of ds] by (cases ds) auto

interpretation std_text: cell_text std_upper std_read
proof unfold_locales
  fix c assume "list_all plain_char c"
  moreover have "\<not> (97 \<le> (of_char x :: nat) \<and> of_char x \<le> (122 :: nat))" if "plain_char x" for x
    using that by (auto simp: plain_char_def is_digit_def)
  ultimately show "std_upper c = c" unfolding std_upper_def by (induction c) auto
next
  fix ip :: string and dcs neg assume ip: "digits ip" and dcs: "decimals_ok dcs"
  let ?s = "ip @ (case dcs of None \<Rightarrow> [] | Some ds \<Rightarrow> CHR ''.'' # ds)"
  have "trim_minus ((if neg then ''-'' else []) @ ?s) = ?s"
    using digits_hd [OF ip] by (intro trim_minus_sign) simp_all
  moreover have "str_cut CHR ''.'' ?s = (ip, (case dcs of None \<Rightarrow> [] | Some ds \<Rightarrow> ds), dcs \<noteq> None)"
    using digits_no_mark(1) [OF ip] by (cases dcs) (simp_all add: str_cut_at str_cut_none)
  moreover have "take 1 ((if neg then ''-'' else []) @ ?s) = ''-'' \<longleftrightarrow> neg"
    using digits_hd [OF ip] by (cases ip) auto
  ultimately show "std_read ((if neg then ''-'' else []) @ ?s) = Some (number_value neg ip dcs)"
    using ip dcs by (cases dcs) (simp_all add: std_read_def decimals_ok_def)
qed

section \<open>Trimming leaves a number alone\<close>

lemma plain_char_code:
  "plain_char c \<longleftrightarrow> (let n = of_char c :: nat in n = 44 \<or> n = 45 \<or> n = 46 \<or> 48 \<le> n \<and> n \<le> 57)"
proof -
  have eq: "c = d \<longleftrightarrow> (of_char c :: nat) = of_char d" for d by (simp add: of_char_eq_iff)
  show ?thesis by (auto simp: plain_char_def is_digit_def eq [of "CHR ''.''"] eq [of "CHR '',''"] eq [of "CHR ''-''"] Let_def)
qed

lemma space_runes_ends: "list_all (\<lambda>w. w \<noteq> [] \<and> \<not> plain_char (hd w) \<and> \<not> plain_char (last w)) space_runes"
  by (simp add: space_runes_def plain_char_code of_char_of)

lemma drop_runes_id:
  assumes "\<And>w. w \<in> set ws \<Longrightarrow> w \<noteq> [] \<and> \<not> plain_char (hd w)" and "s \<noteq> [] \<Longrightarrow> plain_char (hd s)"
  shows "drop_runes n ws s = s"
proof (cases n)
  case (Suc k)
  have "take (length w) s \<noteq> w" if "w \<in> set ws" for w
  proof
    assume eq: "take (length w) s = w"
    from assms(1) [OF that] obtain x xs where w: "w = x # xs" "\<not> plain_char x" by (cases w) auto
    with eq have "s \<noteq> [] \<and> hd s = x" by (cases s) auto
    with w assms(2) show False by simp
  qed
  then have "find (\<lambda>w. take (length w) s = w) ws = None" by (simp add: find_None_iff)
  then show ?thesis by (simp add: Suc)
qed simp

lemma TrimSpace_plain:
  assumes "list_all plain_char c"
  shows "TrimSpace c = c"
proof -
  have ends: "w \<noteq> [] \<and> \<not> plain_char (hd w)" "rev w \<noteq> [] \<and> \<not> plain_char (hd (rev w))" if "w \<in> set space_runes" for w
    using that space_runes_ends by (auto simp: list_all_iff hd_rev)
  have "drop_runes n space_runes c = c" for n
    using ends(1) assms by (intro drop_runes_id) (simp_all add: list_all_iff)
  moreover have "drop_runes n (map rev space_runes) (rev c) = rev c" for n
    using ends(2) assms by (intro drop_runes_id) (auto simp: list_all_iff hd_rev)
  ultimately show ?thesis by (simp add: TrimSpace_def)
qed

lemma trimCell_plain:
  assumes "list_all plain_char c"
  shows "trimCell c = c"
proof -
  have "dropWhile (\<lambda>x. x = CHR 0x22) s = s" if "list_all plain_char s" for s
    using that by (cases s) (auto simp: plain_char_def is_digit_def)
  then show ?thesis using assms by (simp add: trimCell_def TrimSpace_plain trim_char_def)
qed

section \<open>Reading a number back\<close>

lemma str_join_mem: "x \<in> set (str_join sep ws) \<Longrightarrow> x \<in> set sep \<or> (\<exists>w \<in> set ws. x \<in> set w)"
  by (induction sep ws rule: str_join.induct) auto

lemma str_join_hd:
  assumes "list_all digits parts" and "parts \<noteq> []"
  shows "str_join sep parts \<noteq> [] \<and> hd (str_join sep parts) \<noteq> CHR ''-''"
proof -
  obtain p ps where "parts = p # ps" "digits p" using assms by (cases parts) auto
  then show ?thesis using digits_hd [of p] by (cases ps) simp_all
qed

lemma filter_join:
  "\<forall>w \<in> set ws. c \<notin> set w \<Longrightarrow> filter (\<lambda>x. x \<noteq> c) (str_join [c] ws) = concat ws"
proof (induction ws rule: induct_list012)
  case (3 a b ws)
  have "filter (\<lambda>x. x \<noteq> c) a = a" using 3 by (auto simp: filter_id_conv)
  with 3 show ?case by simp
next
  case (2 a)
  then show ?case by (auto simp: filter_id_conv)
qed simp

lemma number_cell_plain:
  assumes "list_all digits parts" and "decimals_ok dcs"
  shows "list_all plain_char (number_cell fmt neg parts dcs)"
proof -
  have d: "plain_char x" if "digits ds" "x \<in> set ds" for x ds
    using that digit_plain by (auto simp: digits_def list_all_iff)
  have "plain_char x" if "x \<in> set (str_join [group_char fmt] parts)" for x
    using str_join_mem [OF that] assms(1) d by (auto simp: list_all_iff group_char_def plain_char_def split: if_splits)
  moreover have "list_all plain_char (case dcs of None \<Rightarrow> [] | Some ds \<Rightarrow> dec_char fmt # ds)"
    using assms(2) d by (cases dcs) (auto simp: decimals_ok_def list_all_iff dec_char_def plain_char_def)
  ultimately show ?thesis by (auto simp: number_cell_def list_all_iff plain_char_def)
qed

lemma marks: "group_char f \<noteq> dec_char f" "group_char f \<noteq> CHR ''-''"
  by (simp_all add: group_char_def dec_char_def)

context cell_text begin

lemma ParseNumber_cell:
  assumes "list_all digits parts" and "parts \<noteq> []" and "decimals_ok dcs"
  shows "ParseNumber upper_tr NewFromString (number_cell fmt neg parts dcs) fmt = Inr (Some (number_value neg (concat parts) dcs))"
proof -
  let ?c = "number_cell fmt neg parts dcs"
  let ?tail = "case dcs of None \<Rightarrow> [] | Some ds \<Rightarrow> dec_char fmt # ds"
  let ?j = "str_join [group_char fmt] parts"
  have plain: "list_all plain_char ?c" using assms by (intro number_cell_plain)
  have j: "?j \<noteq> []" "hd ?j \<noteq> CHR ''-''" using str_join_hd [OF assms(1,2)] by simp_all
  have minus: "trim_minus ?c = ?j @ ?tail"
    unfolding number_cell_def by (rule trim_minus_sign) (use j in simp_all)
  have neg: "take 1 ?c = ''-'' \<longleftrightarrow> neg" using j by (cases ?j) (auto simp: number_cell_def)
  have no_group: "\<forall>w \<in> set parts. group_char fmt \<notin> set w" using assms(1) digits_no_mark(5) by (auto simp: list_all_iff)
  have tail: "filter (\<lambda>x. x \<noteq> group_char fmt) ?tail = ?tail"
    using assms(3) digits_no_mark(5) [of _ fmt] marks(1) [of fmt] by (cases dcs) (auto simp: decimals_ok_def filter_id_conv)
  have body: "filter (\<lambda>x. x \<noteq> group_char fmt) (trim_minus ?c) = concat parts @ ?tail"
    by (simp only: minus filter_append filter_join [OF no_group] tail)
  have int: "digits (concat parts)" using assms(1,2) by (cases parts) (auto simp: digits_def list_all_iff)
  have cut: "str_cut (dec_char fmt) (concat parts @ ?tail) =
      (concat parts, (case dcs of None \<Rightarrow> [] | Some ds \<Rightarrow> ds), dcs \<noteq> None)"
    using digits_no_mark(6) [OF int, of fmt] by (cases dcs) (simp_all add: str_cut_at str_cut_none)
  have not_blank: "?c \<noteq> []" "?c \<noteq> ''-''" using j minus by (auto simp: number_cell_def)
  have not_bos: "upper_tr ?c \<noteq> bos"
  proof
    assume "upper_tr ?c = bos"
    then have "list_all plain_char bos" using upper_plain [OF plain] plain by simp
    then show False by (simp add: bos_def plain_char_def is_digit_def)
  qed
  show ?thesis
    using not_blank not_bos int assms(3) read_plain [OF int assms(3), of neg]
    unfolding ParseNumber_def Let_def trimCell_plain [OF plain] neg body cut prod.case
    by (cases dcs; cases neg) (simp_all add: decimals_ok_def)
qed

end

section \<open>Detecting the convention\<close>

text \<open>Groups of three digits, the first of one to three.\<close>

definition groups_ok :: "string list \<Rightarrow> bool" where
  "groups_ok parts =
     (case parts of [] \<Rightarrow> False | p # ps \<Rightarrow> digits p \<and> length p \<le> 3 \<and> list_all (\<lambda>q. length q = 3 \<and> digits q) ps)"

lemma groups_ok_digits: "groups_ok parts \<Longrightarrow> list_all digits parts \<and> parts \<noteq> []"
  by (auto simp: groups_ok_def list_all_iff split: list.splits)

lemma grouped_cell:
  assumes "groups_ok parts" and "digits ds"
  shows "grouped (number_cell fmt neg parts (Some ds)) (group_char fmt) (dec_char fmt)"
proof -
  note ok = groups_ok_digits [OF assms(1)]
  let ?j = "str_join [group_char fmt] parts"
  have "trim_minus (number_cell fmt neg parts (Some ds)) = ?j @ dec_char fmt # ds"
    unfolding number_cell_def option.case by (rule trim_minus_sign) (use str_join_hd [of parts] ok in auto)
  moreover have no_dec: "dec_char fmt \<notin> set ?j"
    using str_join_mem [of "dec_char fmt" "[group_char fmt]" parts] marks(1) [of fmt] ok digits_no_mark(6)
    by (force simp: list_all_iff)
  moreover have "split_on (group_char fmt) ?j = parts"
    using ok digits_no_mark(5) by (intro split_on_join) (auto simp: list_all_iff)
  ultimately show ?thesis
    using assms digits_no_mark(4) [OF assms(2)]
    by (auto simp: grouped_def str_cut_at groups_ok_def digits_def Suc_le_eq split: list.splits)
qed

text \<open>No cell is in both conventions.\<close>

lemma grouped_cut:
  assumes "grouped s g c"
  obtains a b where "trim_minus s = a @ c # b" and "c \<notin> set a" and "digits b"
proof -
  have c: "c \<in> set (trim_minus s)" using assms by (auto simp: grouped_def str_cut_def split: if_splits)
  then obtain b where "dropWhile (\<lambda>x. x \<noteq> c) (trim_minus s) = c # b"
    by (metis (mono_tags, lifting) dropWhile_eq_Nil_conv hd_dropWhile list.collapse)
  moreover have "c \<notin> set (takeWhile (\<lambda>x. x \<noteq> c) (trim_minus s))" using set_takeWhileD by fastforce
  moreover have "digits (tl (dropWhile (\<lambda>x. x \<noteq> c) (trim_minus s)))"
    using assms c by (auto simp: grouped_def str_cut_def split: if_splits)
  ultimately show thesis using that takeWhile_dropWhile_id [of "\<lambda>x. x \<noteq> c" "trim_minus s"] by (metis list.sel(3))
qed

lemma grouped_exclusive: "\<not> (grouped s CHR ''.'' CHR '','' \<and> grouped s CHR '','' CHR ''.'')"
proof
  assume both: "grouped s CHR ''.'' CHR '','' \<and> grouped s CHR '','' CHR ''.''"
  obtain a b where t: "trim_minus s = a @ CHR '','' # b" "CHR '','' \<notin> set a" "digits b"
    using grouped_cut both by blast
  obtain a' b' where u: "trim_minus s = a' @ CHR ''.'' # b'" "CHR ''.'' \<notin> set a'" "digits b'"
    using grouped_cut both by blast
  have "a @ CHR '','' # b = a' @ CHR ''.'' # b'" using t(1) u(1) by simp
  then obtain us where "a = a' @ us \<and> us @ CHR '','' # b = CHR ''.'' # b' \<or> a @ us = a' \<and> CHR '','' # b = us @ CHR ''.'' # b'"
    by (auto simp: append_eq_append_conv2)
  then have "CHR '','' \<in> set b' \<or> CHR ''.'' \<in> set b" by (cases us) auto
  then show False using digits_no_mark(2) [OF u(3)] digits_no_mark(1) [OF t(3)] by blast
qed

text \<open>The trimmed cells of the numeric columns.\<close>

definition numeric_cells :: "(string \<Rightarrow> string) \<Rightarrow> sheet_table \<Rightarrow> string list" where
  "numeric_cells fold_hdr t =
     concat (map (\<lambda>(fld, numeric, _).
       case columnIndex fold_hdr (tb_Header t) fld of
         Some i \<Rightarrow> if numeric then map (\<lambda>row. trimCell (row ! i)) (filter (\<lambda>row. i < length row) (tb_Rows t)) else []
       | None \<Rightarrow> []) aliases)"

lemma fold_scan_cell:
  "fold (scan_cell i) rows (tr, us) =
     (let cells = map (\<lambda>row. trimCell (row ! i)) (filter (\<lambda>row. i < length row) rows)
      in (tr \<or> list_ex (\<lambda>c. grouped c CHR ''.'' CHR '','') cells, us \<or> list_ex (\<lambda>c. grouped c CHR '','' CHR ''.'') cells))"
  by (induction rows arbitrary: tr us) (auto simp: scan_cell_def Let_def)

lemma scan_numbers_eq:
  "scan_numbers fold_hdr t =
     (list_ex (\<lambda>c. grouped c CHR ''.'' CHR '','') (numeric_cells fold_hdr t),
      list_ex (\<lambda>c. grouped c CHR '','' CHR ''.'') (numeric_cells fold_hdr t))"
proof -
  define cols where "cols = columnIndex fold_hdr (tb_Header t)"
  have "fold (\<lambda>(fld, numeric, names) st.
           (case cols fld of Some i \<Rightarrow> if numeric then fold (scan_cell i) (tb_Rows t) st else st | None \<Rightarrow> st)) as (tr, us) =
      (tr \<or> list_ex (\<lambda>c. grouped c CHR ''.'' CHR '','') (concat (map (\<lambda>(fld, numeric, names). case cols fld of
         Some i \<Rightarrow> if numeric then map (\<lambda>row. trimCell (row ! i)) (filter (\<lambda>row. i < length row) (tb_Rows t)) else []
       | None \<Rightarrow> []) as)),
       us \<or> list_ex (\<lambda>c. grouped c CHR '','' CHR ''.'') (concat (map (\<lambda>(fld, numeric, names). case cols fld of
         Some i \<Rightarrow> if numeric then map (\<lambda>row. trimCell (row ! i)) (filter (\<lambda>row. i < length row) (tb_Rows t)) else []
       | None \<Rightarrow> []) as)))" for as :: "(icmal_field \<times> bool \<times> string list) list" and tr us
    by (induction as arbitrary: tr us) (auto simp: fold_scan_cell Let_def split: option.split)
  from this [of aliases False False] show ?thesis
    by (simp only: scan_numbers_def numeric_cells_def cols_def [symmetric] Let_def) simp
qed

section \<open>Properties\<close>

text \<open>Numbers of a sheet: detection fails exactly when numeric cells of both conventions occur, and answers the US
  convention exactly when only US cells occur; no cell counts for both. A number with decimals that stands in a numeric column is
  then read in the convention it was written in, with its exact value: sign, groups of three digits and decimals.\<close>

theorem Detect_Parse:
  assumes "cell_text upper_tr NewFromString"
  shows "(DetectNumberFormat fold_hdr t = Inl ()) =
      (list_ex (\<lambda>c. grouped c CHR ''.'' CHR '','') (numeric_cells fold_hdr t) \<and>
       list_ex (\<lambda>c. grouped c CHR '','' CHR ''.'') (numeric_cells fold_hdr t)) \<and>
    (DetectNumberFormat fold_hdr t = Inr FormatUS) =
      (list_ex (\<lambda>c. grouped c CHR '','' CHR ''.'') (numeric_cells fold_hdr t) \<and>
       \<not> list_ex (\<lambda>c. grouped c CHR ''.'' CHR '','') (numeric_cells fold_hdr t)) \<and>
    (\<forall>f g neg parts ds. DetectNumberFormat fold_hdr t = Inr f \<and> groups_ok parts \<and> digits ds \<and>
       number_cell g neg parts (Some ds) \<in> set (numeric_cells fold_hdr t) \<longrightarrow>
       g = f \<and> ParseNumber upper_tr NewFromString (number_cell g neg parts (Some ds)) f =
         Inr (Some (number_value neg (concat parts) (Some ds))))"
proof (intro conjI allI impI)
  show "(DetectNumberFormat fold_hdr t = Inl ()) =
      (list_ex (\<lambda>c. grouped c CHR ''.'' CHR '','') (numeric_cells fold_hdr t) \<and>
       list_ex (\<lambda>c. grouped c CHR '','' CHR ''.'') (numeric_cells fold_hdr t))"
    "(DetectNumberFormat fold_hdr t = Inr FormatUS) =
      (list_ex (\<lambda>c. grouped c CHR '','' CHR ''.'') (numeric_cells fold_hdr t) \<and>
       \<not> list_ex (\<lambda>c. grouped c CHR ''.'' CHR '','') (numeric_cells fold_hdr t))"
    by (auto simp: DetectNumberFormat_def scan_numbers_eq)
  fix f g neg parts ds
  assume a: "DetectNumberFormat fold_hdr t = Inr f \<and> groups_ok parts \<and> digits ds \<and>
       number_cell g neg parts (Some ds) \<in> set (numeric_cells fold_hdr t)"
  then have "grouped (number_cell g neg parts (Some ds)) (group_char g) (dec_char g)" using grouped_cell by blast
  then have "list_ex (\<lambda>c. grouped c (group_char g) (dec_char g)) (numeric_cells fold_hdr t)"
    using a by (auto simp: list_ex_iff)
  then show g: "g = f"
    using a by (cases g; cases f) (auto simp: DetectNumberFormat_def scan_numbers_eq group_char_def dec_char_def split: if_splits)
  have "list_all digits parts" "parts \<noteq> []" using a groups_ok_digits by auto
  then show "ParseNumber upper_tr NewFromString (number_cell g neg parts (Some ds)) f =
         Inr (Some (number_value neg (concat parts) (Some ds)))"
    using cell_text.ParseNumber_cell [OF assms, of parts "Some ds" f neg] a unfolding g by (simp add: decimals_ok_def)
qed

definition sample_sheet :: sheet_table where
  "sample_sheet = \<lparr>tb_Header = [''D'' @ [CHR 0xC3, CHR 0xB6] @ ''nem'', ''Toplam Kwh''],
     tb_Rows = [[''202601'', ''1.234,56''], [''202602'', ''-7,5'']]\<rparr>"

lemma columnIndex_alias:
  assumes "(fld, numeric, names) \<in> set aliases"
  shows "columnIndex fold_hdr header fld = alias_column fold_hdr (map fold_hdr header) names"
proof -
  have other: "fold (\<lambda>(fld, _, names) out. (case f names of None \<Rightarrow> out | Some i \<Rightarrow> out(fld \<mapsto> i))) as m fld = m fld"
    if "fld \<notin> fst ` set as" for as :: "(icmal_field \<times> bool \<times> string list) list" and f m
    using that by (induction as arbitrary: m) (auto split: option.split)
  have "fold (\<lambda>(fld, _, names) out. (case f names of None \<Rightarrow> out | Some i \<Rightarrow> out(fld \<mapsto> i))) as m fld =
      (case f names of None \<Rightarrow> m fld | Some i \<Rightarrow> Some i)"
    if "(fld, numeric, names) \<in> set as" "distinct (map fst as)" for as :: "(icmal_field \<times> bool \<times> string list) list" and f m
    using that
  proof (induction as arbitrary: m)
    case (Cons a as)
    obtain fld' numeric' names' where a: "a = (fld', numeric', names')" by (cases a)
    show ?case
    proof (cases "a = (fld, numeric, names)")
      case True
      then have "fld \<notin> fst ` set as" using Cons.prems(2) by auto
      then show ?thesis using True other [of as f] by (simp split: option.split)
    next
      case False
      then have "(fld, numeric, names) \<in> set as" using Cons.prems(1) by auto
      moreover from this have "fld' \<noteq> fld" using Cons.prems(2) a by (metis distinct.simps(2) fst_conv image_eqI list.simps(9) list.set_map)
      ultimately show ?thesis using Cons.IH Cons.prems(2) by (simp add: a split: option.split)
    qed
  qed simp
  from this [OF assms, of "alias_column fold_hdr (map fold_hdr header)" Map.empty] show ?thesis
    by (simp add: columnIndex_def Let_def aliases_distinct split: option.splits)
qed

lemma numeric_cells_alias:
  "numeric_cells fold_hdr t =
     concat (map (\<lambda>(fld, numeric, names).
       if numeric then
         (case alias_column fold_hdr (map fold_hdr (tb_Header t)) names of
            Some i \<Rightarrow> map (\<lambda>row. trimCell (row ! i)) (filter (\<lambda>row. i < length row) (tb_Rows t))
          | None \<Rightarrow> [])
       else []) aliases)"
  unfolding numeric_cells_def
  by (rule arg_cong [where f = concat], rule map_cong [OF refl])
    (auto simp: columnIndex_alias split: option.split)

lemma sample_cells: "numeric_cells (\<lambda>s. s) sample_sheet = map trimCell [''1.234,56'', ''-7,5'']"
  unfolding numeric_cells_alias by (simp add: aliases_def sample_sheet_def)

lemma sample_trim: "trimCell ''1.234,56'' = ''1.234,56''" "trimCell ''-7,5'' = ''-7,5''"
  by (rule trimCell_plain, code_simp)+

lemma sample_turkish: "grouped ''1.234,56'' CHR ''.'' CHR '',''" "\<not> grouped ''1.234,56'' CHR '','' CHR ''.''"
  "\<not> grouped ''-7,5'' CHR '','' CHR ''.''"
  by code_simp+

theorem Detect_Parse_witness:
  "DetectNumberFormat (\<lambda>s. s) sample_sheet = Inr FormatTurkish \<and>
   ParseNumber std_upper std_read ''1.234,56'' FormatTurkish = Inr (Some (123456 / 100))"
proof -
  have d: "DetectNumberFormat (\<lambda>s. s) sample_sheet = Inr FormatTurkish"
    by (simp add: DetectNumberFormat_def scan_numbers_eq sample_cells sample_trim sample_turkish)
  have c: "''1.234,56'' = number_cell FormatTurkish False [''1'', ''234''] (Some ''56'')"
    "groups_ok [''1'', ''234'']" "digits ''56''" "number_value False (concat [''1'', ''234'']) (Some ''56'') = 123456 / 100"
    by code_simp+
  have m: "''1.234,56'' \<in> set (numeric_cells (\<lambda>s. s) sample_sheet)" by (simp add: sample_cells sample_trim)
  show ?thesis
    using Detect_Parse [OF std_text.cell_text_axioms, of "\<lambda>s. s" sample_sheet] d m c(2-4) unfolding c(1) by metis
qed

text \<open>A US integer with its thousands separated is a Turkish number with three decimals to the scanner, so a US sheet that has one is
  rejected as mixed.\<close>

lemma us_integer_is_turkish:
  "grouped ''1,234'' CHR ''.'' CHR '',''" "\<not> grouped ''1,234'' CHR '','' CHR ''.''"
  by code_simp+

end
