(* ===== verification/Store_Scope.thy ===== *)
theory Store_Scope
  imports Model_Types Go_Time
begin

text \<open>
  \<open>internal/store/scope.go\<close>, \<open>errors.go\<close> and \<open>TimeRange\<close>: the tenant boundary every repository method
  is given, and the errors it answers with. The predicate the generated queries carry in their \<open>where\<close> clause
  (\<open>scope_predicate\<close>) is here too, with its relation to the in-memory check \<open>AllowsBuilding\<close>.
\<close>

record scope =
  sc_CompanyID :: uuid
  sc_BuildingIDs :: "uuid list"
  sc_AllBuildings :: bool

definition Valid_scope :: "scope \<Rightarrow> bool" where
  "Valid_scope s \<longleftrightarrow> sc_CompanyID s \<noteq> uuid_Nil"

definition SystemScope :: "uuid \<Rightarrow> scope" where
  "SystemScope companyID = \<lparr>sc_CompanyID = companyID, sc_BuildingIDs = [], sc_AllBuildings = True\<rparr>"

fun allowed_in :: "uuid \<Rightarrow> uuid list \<Rightarrow> bool" where
  "allowed_in b [] = False"
| "allowed_in b (allowed # ids) = (if allowed = b then True else allowed_in b ids)"

definition AllowsBuilding :: "scope \<Rightarrow> uuid \<Rightarrow> bool" where
  "AllowsBuilding s b =
     (if \<not> Valid_scope s \<or> b = uuid_Nil then False
      else if sc_AllBuildings s then True
      else allowed_in b (sc_BuildingIDs s))"

definition BuildingFilter :: "scope \<Rightarrow> uuid list \<times> bool" where
  "BuildingFilter s =
     (if \<not> Valid_scope s then ([], False)
      else if sc_AllBuildings s then ([], True)
      else (sc_BuildingIDs s, False))"

datatype store_error = ErrNotFound | ErrConflict | ErrInvalidScope | ErrInvalidRange | ErrUnknownView | ErrDatabase

record time_range =
  tr_From :: time
  tr_To :: time

definition Valid_range :: "time_range \<Rightarrow> bool" where
  "Valid_range r \<longleftrightarrow> tr_From r \<noteq> zero_time \<and> tr_To r \<noteq> zero_time \<and> tr_From r < tr_To r"

text \<open>The condition \<open>company_id = $1 and ($2::boolean or building_id = any($3::uuid[])) and deleted_at is null\<close>
  of the generated queries, on the columns of a row; a NULL building satisfies no \<open>any\<close>.\<close>

definition scope_predicate :: "uuid \<Rightarrow> bool \<Rightarrow> uuid list \<Rightarrow> uuid \<Rightarrow> uuid option \<Rightarrow> time option \<Rightarrow> bool" where
  "scope_predicate company all_buildings ids company_id building_id deleted_at \<longleftrightarrow>
     company_id = company \<and> (all_buildings \<or> (case building_id of None \<Rightarrow> False | Some b \<Rightarrow> b \<in> set ids)) \<and> deleted_at = None"

lemma allowed_in_iff [simp]: "allowed_in b ids \<longleftrightarrow> b \<in> set ids"
  by (induction ids) auto

text \<open>The filter a repository passes on selects, of the rows of its company that carry a building, those of the
  buildings the scope allows; an invalid scope and an empty set of buildings select nothing.\<close>

lemma BuildingFilter_predicate:
  assumes "Valid_scope s" and "b \<noteq> uuid_Nil"
  shows "scope_predicate (sc_CompanyID s) (snd (BuildingFilter s)) (fst (BuildingFilter s)) c (Some b) d \<longleftrightarrow>
    c = sc_CompanyID s \<and> AllowsBuilding s b \<and> d = None"
  using assms by (auto simp: scope_predicate_def BuildingFilter_def AllowsBuilding_def)

lemma no_buildings_nothing:
  assumes "\<not> sc_AllBuildings s" and "sc_BuildingIDs s = []"
  shows "\<not> scope_predicate (sc_CompanyID s) (snd (BuildingFilter s)) (fst (BuildingFilter s)) c b d"
  using assms by (auto simp: scope_predicate_def BuildingFilter_def split: option.splits)

end
