(* ===== verification/Readings_Store.thy ===== *)
theory Readings_Store
  imports Store_Scope Model_Rows Go_Sort
begin

text \<open>
  \<open>internal/store/postgres/readings.go\<close> with the generated queries of \<open>sqlcgen/readings.sql.go\<close> it runs: the
  hypertable \<open>meter_readings\<close> behind the tenant scope. The tables are lists of rows, a query is the list
  expression its text says. A \<open>timestamptz\<close> column holds microseconds, so a row keeps its instant as an integer
  of microseconds next to the other columns. What the columns make of the numbers of a row (\<open>numeric(18,4)\<close> rounds, and refuses
  what does not fit) is the parameter \<open>col\<close> of the one write.
\<close>

section \<open>Tables\<close>

record analyzer_row =
  aw_id :: uuid
  aw_company_id :: uuid
  aw_building_id :: "uuid option"
  aw_deleted_at :: "time option"

text \<open>A row of \<open>meter_readings\<close>: the instant in microseconds, and the columns.\<close>

type_synonym reading_row = "int \<times> meter_reading"

record readings_db =
  db_analyzers :: "analyzer_row list"
  db_readings :: "reading_row list"

definition timestamptz :: "time \<Rightarrow> int" where
  "timestamptz t = t div 1000"

definition readingFromRow :: "reading_row \<Rightarrow> meter_reading" where
  "readingFromRow row = (snd row)\<lparr>mr_Ts := fst row * 1000\<rparr>"

section \<open>The queries (sqlcgen/readings.sql.go)\<close>

definition in_scope :: "uuid \<Rightarrow> bool \<Rightarrow> uuid list \<Rightarrow> analyzer_row \<Rightarrow> bool" where
  "in_scope company all_buildings ids a =
     scope_predicate company all_buildings ids (aw_company_id a) (aw_building_id a) (aw_deleted_at a)"

definition ReadingAnalyzerVisible :: "readings_db \<Rightarrow> uuid \<Rightarrow> uuid \<Rightarrow> bool \<Rightarrow> uuid list \<Rightarrow> bool" where
  "ReadingAnalyzerVisible db analyzer company all_buildings ids =
     list_ex (\<lambda>a. aw_id a = analyzer \<and> in_scope company all_buildings ids a) (db_analyzers db)"

text \<open>\<open>meter_readings mr join analyzers a on a.id = mr.analyzer_id\<close> with the conditions the three reads share.\<close>

definition scoped_readings :: "readings_db \<Rightarrow> uuid \<Rightarrow> reading_kind \<Rightarrow> uuid \<Rightarrow> bool \<Rightarrow> uuid list \<Rightarrow> reading_row list" where
  "scoped_readings db analyzer k company all_buildings ids =
     concat (map (\<lambda>mr. map (\<lambda>a. mr)
       (filter (\<lambda>a. aw_id a = mr_AnalyzerID (snd mr) \<and> mr_AnalyzerID (snd mr) = analyzer \<and> mr_Kind (snd mr) = k \<and>
          in_scope company all_buildings ids a) (db_analyzers db))) (db_readings db))"

definition ReadingRange ::
  "readings_db \<Rightarrow> uuid \<Rightarrow> reading_kind \<Rightarrow> int \<Rightarrow> int \<Rightarrow> uuid \<Rightarrow> bool \<Rightarrow> uuid list \<Rightarrow> reading_row list" where
  "ReadingRange db analyzer k from_ts to_ts company all_buildings ids =
     sort_key fst (filter (\<lambda>mr. from_ts \<le> fst mr \<and> fst mr < to_ts) (scoped_readings db analyzer k company all_buildings ids))"

text \<open>\<open>order by mr.ts desc limit 1\<close>: \<open>None\<close> is \<open>pgx.ErrNoRows\<close>.\<close>

definition desc_limit_1 :: "reading_row list \<Rightarrow> reading_row option" where
  "desc_limit_1 rows = (if rows = [] then None else Some (last (sort_key fst rows)))"

definition ReadingBoundaryAtOrBefore ::
  "readings_db \<Rightarrow> uuid \<Rightarrow> reading_kind \<Rightarrow> int \<Rightarrow> uuid \<Rightarrow> bool \<Rightarrow> uuid list \<Rightarrow> reading_row option" where
  "ReadingBoundaryAtOrBefore db analyzer k ts company all_buildings ids =
     desc_limit_1 (filter (\<lambda>mr. fst mr \<le> ts) (scoped_readings db analyzer k company all_buildings ids))"

definition ReadingLatest ::
  "readings_db \<Rightarrow> uuid \<Rightarrow> reading_kind \<Rightarrow> int \<Rightarrow> int \<Rightarrow> uuid \<Rightarrow> bool \<Rightarrow> uuid list \<Rightarrow> reading_row option" where
  "ReadingLatest db analyzer k from_ts to_ts company all_buildings ids =
     desc_limit_1 (filter (\<lambda>mr. from_ts \<le> fst mr \<and> fst mr < to_ts) (scoped_readings db analyzer k company all_buildings ids))"

definition ReadingVisibleAnalyzerIDs :: "readings_db \<Rightarrow> uuid list \<Rightarrow> uuid \<Rightarrow> bool \<Rightarrow> uuid list \<Rightarrow> uuid list" where
  "ReadingVisibleAnalyzerIDs db analyzers company all_buildings ids =
     sort (map aw_id (filter (\<lambda>a. aw_id a \<in> set analyzers \<and> in_scope company all_buildings ids a) (db_analyzers db)))"

section \<open>The reads (readings.go)\<close>

definition requireAnalyzerVisible :: "readings_db \<Rightarrow> scope \<Rightarrow> uuid \<Rightarrow> store_error option" where
  "requireAnalyzerVisible db s analyzer =
     (case BuildingFilter s of (ids, all_buildings) \<Rightarrow>
        if \<not> ReadingAnalyzerVisible db analyzer (sc_CompanyID s) all_buildings ids then Some ErrNotFound else None)"

definition Range_readings ::
  "readings_db \<Rightarrow> scope \<Rightarrow> uuid \<Rightarrow> time_range \<Rightarrow> reading_kind \<Rightarrow> store_error + meter_reading list" where
  "Range_readings db s analyzer tr k =
     (if \<not> Valid_scope s then Inl ErrInvalidScope
      else if \<not> Valid_range tr then Inl ErrInvalidRange
      else case BuildingFilter s of (ids, all_buildings) \<Rightarrow>
        (let rows = ReadingRange db analyzer k (timestamptz (tr_From tr)) (timestamptz (tr_To tr)) (sc_CompanyID s) all_buildings ids
         in if rows = [] then (case requireAnalyzerVisible db s analyzer of Some e \<Rightarrow> Inl e | None \<Rightarrow> Inr [])
            else Inr (map readingFromRow rows)))"

definition found_or_visible ::
  "readings_db \<Rightarrow> scope \<Rightarrow> uuid \<Rightarrow> reading_row option \<Rightarrow> store_error + meter_reading option" where
  "found_or_visible db s analyzer row =
     (case row of
        None \<Rightarrow> (case requireAnalyzerVisible db s analyzer of Some e \<Rightarrow> Inl e | None \<Rightarrow> Inr None)
      | Some r \<Rightarrow> Inr (Some (readingFromRow r)))"

definition boundaryAtOrBefore :: "readings_db \<Rightarrow> scope \<Rightarrow> uuid \<Rightarrow> reading_kind \<Rightarrow> time \<Rightarrow> store_error + meter_reading option" where
  "boundaryAtOrBefore db s analyzer k bound =
     (case BuildingFilter s of (ids, all_buildings) \<Rightarrow>
        found_or_visible db s analyzer
          (ReadingBoundaryAtOrBefore db analyzer k (timestamptz bound) (sc_CompanyID s) all_buildings ids))"

definition BoundaryReadings ::
  "readings_db \<Rightarrow> scope \<Rightarrow> uuid \<Rightarrow> reading_kind \<Rightarrow> time \<Rightarrow> time \<Rightarrow> store_error + (meter_reading option \<times> meter_reading option)" where
  "BoundaryReadings db s analyzer k start stop =
     (if \<not> Valid_scope s then Inl ErrInvalidScope
      else case boundaryAtOrBefore db s analyzer k start of
        Inl e \<Rightarrow> Inl e
      | Inr startReading \<Rightarrow>
          (case boundaryAtOrBefore db s analyzer k stop of
             Inl e \<Rightarrow> Inl e | Inr endReading \<Rightarrow> Inr (startReading, endReading)))"

definition Latest :: "readings_db \<Rightarrow> scope \<Rightarrow> uuid \<Rightarrow> time_range \<Rightarrow> reading_kind \<Rightarrow> store_error + meter_reading option" where
  "Latest db s analyzer tr k =
     (if \<not> Valid_scope s then Inl ErrInvalidScope
      else if \<not> Valid_range tr then Inl ErrInvalidRange
      else case BuildingFilter s of (ids, all_buildings) \<Rightarrow>
        found_or_visible db s analyzer
          (ReadingLatest db analyzer k (timestamptz (tr_From tr)) (timestamptz (tr_To tr)) (sc_CompanyID s) all_buildings ids))"

section \<open>The write\<close>

type_synonym reading_key = "uuid \<times> int \<times> reading_kind"

definition row_key :: "reading_row \<Rightarrow> reading_key" where
  "row_key row = (mr_AnalyzerID (snd row), fst row, mr_Kind (snd row))"

fun duplicate_key :: "reading_key set \<Rightarrow> meter_reading list \<Rightarrow> meter_reading option" where
  "duplicate_key seen [] = None"
| "duplicate_key seen (row # rows) =
     (let k = (mr_AnalyzerID row, mr_Ts row, mr_Kind row)
      in if k \<in> seen then Some row else duplicate_key (insert k seen) rows)"

definition readingDuplicateKey :: "meter_reading list \<Rightarrow> meter_reading option" where
  "readingDuplicateKey rows = duplicate_key {} rows"

fun distinct_uuids :: "uuid set \<Rightarrow> uuid list \<Rightarrow> uuid list" where
  "distinct_uuids seen [] = []"
| "distinct_uuids seen (i # ids) = (if i \<in> seen then distinct_uuids seen ids else i # distinct_uuids (insert i seen) ids)"

definition readingDistinctUUIDs :: "uuid list \<Rightarrow> uuid list" where
  "readingDistinctUUIDs ids = distinct_uuids {} ids"

text \<open>The staging table: every row through the columns, or an error.\<close>

definition staged_row :: "(meter_reading \<Rightarrow> meter_reading option) \<Rightarrow> meter_reading \<Rightarrow> reading_row option" where
  "staged_row col row =
     map_option (\<lambda>r. (timestamptz (mr_Ts row), r\<lparr>mr_AnalyzerID := mr_AnalyzerID row, mr_Kind := mr_Kind row\<rparr>)) (col row)"

definition staging :: "(meter_reading \<Rightarrow> meter_reading option) \<Rightarrow> meter_reading list \<Rightarrow> reading_row list option" where
  "staging col rows =
     (let staged = map (staged_row col) rows in if None \<in> set staged then None else Some (map the staged))"

text \<open>\<open>insert ... on conflict (analyzer_id, ts, kind) do update\<close>: the flag is \<open>xmax = 0\<close>. The statement refuses to update a row it
  has written itself, so the staged keys must be distinct.\<close>

definition upsert_row :: "reading_row \<Rightarrow> reading_row list \<Rightarrow> reading_row list" where
  "upsert_row row rows =
     (if list_ex (\<lambda>r. row_key r = row_key row) rows then map (\<lambda>r. if row_key r = row_key row then row else r) rows
      else rows @ [row])"

fun upsert_rows :: "reading_row list \<Rightarrow> reading_row list \<Rightarrow> reading_row list \<times> bool list" where
  "upsert_rows [] rows = (rows, [])"
| "upsert_rows (new # news) rows =
     (let fresh = \<not> list_ex (\<lambda>r. row_key r = row_key new) rows
      in case upsert_rows news (upsert_row new rows) of (rows', flags) \<Rightarrow> (rows', fresh # flags))"

definition timeseriesScanUpsertCounts :: "bool list \<Rightarrow> nat \<times> nat" where
  "timeseriesScanUpsertCounts flags =
     fold (\<lambda>isInsert (inserted, updated). if isInsert then (inserted + 1, updated) else (inserted, updated + 1)) flags (0, 0)"

definition BulkInsert ::
  "(meter_reading \<Rightarrow> meter_reading option) \<Rightarrow> time \<Rightarrow> readings_db \<Rightarrow> scope \<Rightarrow> meter_reading list \<Rightarrow>
   (store_error + (nat \<times> nat)) \<times> readings_db" where
  "BulkInsert col now db s rows =
     (if \<not> Valid_scope s then (Inl ErrInvalidScope, db)
      else if rows = [] then (Inr (0, 0), db)
      else if readingDuplicateKey rows \<noteq> None then (Inl ErrConflict, db)
      else case BuildingFilter s of (ids, all_buildings) \<Rightarrow>
        (let distinctIDs = readingDistinctUUIDs (map mr_AnalyzerID rows);
             visibleIDs = ReadingVisibleAnalyzerIDs db distinctIDs (sc_CompanyID s) all_buildings ids
         in if length visibleIDs \<noteq> length distinctIDs then (Inl ErrNotFound, db)
            else case staging col rows of
              None \<Rightarrow> (Inl ErrDatabase, db)
            | Some staged \<Rightarrow>
                if \<not> distinct (map row_key staged) then (Inl ErrDatabase, db)
                else case upsert_rows (map (\<lambda>(t, r). (t, r\<lparr>mr_IngestedAt := now\<rparr>)) staged) (db_readings db) of
                  (rows', flags) \<Rightarrow> (Inr (timeseriesScanUpsertCounts flags), db\<lparr>db_readings := rows'\<rparr>)))"

section \<open>What a scope sees\<close>

definition scope_rows :: "scope \<Rightarrow> readings_db \<Rightarrow> analyzer_row list" where
  "scope_rows s db = filter (in_scope (sc_CompanyID s) (snd (BuildingFilter s)) (fst (BuildingFilter s))) (db_analyzers db)"

definition scope_ids :: "scope \<Rightarrow> readings_db \<Rightarrow> uuid set" where
  "scope_ids s db = aw_id ` set (scope_rows s db)"

definition seen_readings :: "scope \<Rightarrow> readings_db \<Rightarrow> reading_row list" where
  "seen_readings s db = filter (\<lambda>r. mr_AnalyzerID (snd r) \<in> scope_ids s db) (db_readings db)"

definition unseen_readings :: "scope \<Rightarrow> readings_db \<Rightarrow> reading_row list" where
  "unseen_readings s db = filter (\<lambda>r. mr_AnalyzerID (snd r) \<notin> scope_ids s db) (db_readings db)"

text \<open>The primary keys of the two tables.\<close>

definition keys_ok :: "readings_db \<Rightarrow> bool" where
  "keys_ok db \<longleftrightarrow> distinct (map aw_id (db_analyzers db)) \<and> distinct (map row_key (db_readings db))"

lemma scoped_readings_eq:
  "scoped_readings db analyzer k (sc_CompanyID s) (snd (BuildingFilter s)) (fst (BuildingFilter s)) =
    concat (map (\<lambda>mr. replicate (length (filter (\<lambda>a. aw_id a = analyzer) (scope_rows s db))) mr)
      (filter (\<lambda>mr. mr_AnalyzerID (snd mr) = analyzer \<and> mr_Kind (snd mr) = k) (seen_readings s db)))"
proof -
  let ?in = "in_scope (sc_CompanyID s) (snd (BuildingFilter s)) (fst (BuildingFilter s))"
  have inner: "map (\<lambda>a. mr) (filter (\<lambda>a. aw_id a = mr_AnalyzerID (snd mr) \<and> mr_AnalyzerID (snd mr) = analyzer \<and>
        mr_Kind (snd mr) = k \<and> ?in a) (db_analyzers db)) =
      (if mr_AnalyzerID (snd mr) \<in> scope_ids s db \<and> mr_AnalyzerID (snd mr) = analyzer \<and> mr_Kind (snd mr) = k
       then replicate (length (filter (\<lambda>a. aw_id a = analyzer) (scope_rows s db))) mr else [])" for mr
  proof (cases "mr_AnalyzerID (snd mr) = analyzer \<and> mr_Kind (snd mr) = k")
    case True
    then have "filter (\<lambda>a. aw_id a = mr_AnalyzerID (snd mr) \<and> mr_AnalyzerID (snd mr) = analyzer \<and>
        mr_Kind (snd mr) = k \<and> ?in a) (db_analyzers db) = filter (\<lambda>a. aw_id a = analyzer) (scope_rows s db)"
      by (auto simp: scope_rows_def intro: filter_cong)
    then show ?thesis using True
      by (auto simp: map_replicate_const scope_ids_def filter_empty_conv image_iff)
  qed auto
  have if_filter: "concat (map (\<lambda>mr. if P mr \<and> Q mr then f mr else []) xs) = concat (map f (filter Q (filter P xs)))"
    for P Q :: "reading_row \<Rightarrow> bool" and f :: "reading_row \<Rightarrow> reading_row list" and xs
    by (induction xs) auto
  show ?thesis
    unfolding scoped_readings_def inner seen_readings_def by (rule if_filter)
qed

lemma visible_eq:
  "ReadingAnalyzerVisible db analyzer (sc_CompanyID s) (snd (BuildingFilter s)) (fst (BuildingFilter s)) \<longleftrightarrow>
    analyzer \<in> scope_ids s db"
  by (auto simp: ReadingAnalyzerVisible_def list_ex_iff scope_ids_def scope_rows_def)

lemma require_eq: "requireAnalyzerVisible db s analyzer = (if analyzer \<in> scope_ids s db then None else Some ErrNotFound)"
  by (simp add: requireAnalyzerVisible_def visible_eq split: prod.split) (metis fst_conv snd_conv visible_eq)

text \<open>The reads, over what the scope sees.\<close>

definition seen_of :: "scope \<Rightarrow> readings_db \<Rightarrow> uuid \<Rightarrow> reading_kind \<Rightarrow> reading_row list" where
  "seen_of s db analyzer k =
     concat (map (\<lambda>mr. replicate (length (filter (\<lambda>a. aw_id a = analyzer) (scope_rows s db))) mr)
      (filter (\<lambda>mr. mr_AnalyzerID (snd mr) = analyzer \<and> mr_Kind (snd mr) = k) (seen_readings s db)))"

lemma seen_of_none: "analyzer \<notin> scope_ids s db \<Longrightarrow> seen_of s db analyzer k = []"
proof -
  assume "analyzer \<notin> scope_ids s db"
  then have "filter (\<lambda>a. aw_id a = analyzer) (scope_rows s db) = []"
    by (auto simp: scope_ids_def filter_empty_conv)
  then show "seen_of s db analyzer k = []" by (simp add: seen_of_def)
qed

lemma seen_of_scoped:
  "BuildingFilter s = (ids, all_buildings) \<Longrightarrow>
   scoped_readings db analyzer k (sc_CompanyID s) all_buildings ids = seen_of s db analyzer k"
  using scoped_readings_eq [of db analyzer k s] by (simp add: seen_of_def)

lemma Range_readings_eq:
  "Range_readings db s analyzer tr k =
     (if \<not> Valid_scope s then Inl ErrInvalidScope
      else if \<not> Valid_range tr then Inl ErrInvalidRange
      else if analyzer \<notin> scope_ids s db then Inl ErrNotFound
      else Inr (map readingFromRow (sort_key fst
        (filter (\<lambda>mr. timestamptz (tr_From tr) \<le> fst mr \<and> fst mr < timestamptz (tr_To tr)) (seen_of s db analyzer k)))))"
proof -
  obtain ids all_buildings where f: "BuildingFilter s = (ids, all_buildings)" by (cases "BuildingFilter s")
  show ?thesis using seen_of_scoped [OF f] seen_of_none
    by (auto simp: Range_readings_def f ReadingRange_def Let_def require_eq)
qed

lemma boundary_eq:
  "boundaryAtOrBefore db s analyzer k bound =
     (if analyzer \<notin> scope_ids s db then Inl ErrNotFound
      else Inr (map_option readingFromRow (desc_limit_1 (filter (\<lambda>mr. fst mr \<le> timestamptz bound) (seen_of s db analyzer k)))))"
proof -
  obtain ids all_buildings where f: "BuildingFilter s = (ids, all_buildings)" by (cases "BuildingFilter s")
  show ?thesis using seen_of_scoped [OF f] seen_of_none
    by (auto simp: boundaryAtOrBefore_def f ReadingBoundaryAtOrBefore_def found_or_visible_def require_eq desc_limit_1_def
        split: option.split)
qed

lemma Latest_eq:
  "Latest db s analyzer tr k =
     (if \<not> Valid_scope s then Inl ErrInvalidScope
      else if \<not> Valid_range tr then Inl ErrInvalidRange
      else if analyzer \<notin> scope_ids s db then Inl ErrNotFound
      else Inr (map_option readingFromRow (desc_limit_1
        (filter (\<lambda>mr. timestamptz (tr_From tr) \<le> fst mr \<and> fst mr < timestamptz (tr_To tr)) (seen_of s db analyzer k)))))"
proof -
  obtain ids all_buildings where f: "BuildingFilter s = (ids, all_buildings)" by (cases "BuildingFilter s")
  show ?thesis using seen_of_scoped [OF f] seen_of_none
    by (auto simp: Latest_def f ReadingLatest_def found_or_visible_def require_eq desc_limit_1_def split: option.split)
qed

section \<open>What a write does\<close>

lemma upsert_row_filter:
  "filter (\<lambda>r. mr_AnalyzerID (snd r) \<notin> V) (upsert_row new rows) = filter (\<lambda>r. mr_AnalyzerID (snd r) \<notin> V) rows"
  "filter (\<lambda>r. mr_AnalyzerID (snd r) \<in> V) (upsert_row new rows) = upsert_row new (filter (\<lambda>r. mr_AnalyzerID (snd r) \<in> V) rows)"
  "list_ex (\<lambda>r. row_key r = row_key new) (filter (\<lambda>r. mr_AnalyzerID (snd r) \<in> V) rows) = list_ex (\<lambda>r. row_key r = row_key new) rows"
  if v: "mr_AnalyzerID (snd new) \<in> V" for V
proof -
  have same: "mr_AnalyzerID (snd r) \<in> V" if "row_key r = row_key new" for r
    using that v by (simp add: row_key_def)
  show ex: "list_ex (\<lambda>r. row_key r = row_key new) (filter (\<lambda>r. mr_AnalyzerID (snd r) \<in> V) rows) = list_ex (\<lambda>r. row_key r = row_key new) rows"
    unfolding list_ex_iff set_filter using same by blast
  have m: "filter (\<lambda>r. mr_AnalyzerID (snd r) \<notin> V) (map (\<lambda>r. if row_key r = row_key new then new else r) rows) = filter (\<lambda>r. mr_AnalyzerID (snd r) \<notin> V) rows"
    "filter (\<lambda>r. mr_AnalyzerID (snd r) \<in> V) (map (\<lambda>r. if row_key r = row_key new then new else r) rows) =
      map (\<lambda>r. if row_key r = row_key new then new else r) (filter (\<lambda>r. mr_AnalyzerID (snd r) \<in> V) rows)"
    using same v by (induction rows) auto
  show "filter (\<lambda>r. mr_AnalyzerID (snd r) \<notin> V) (upsert_row new rows) = filter (\<lambda>r. mr_AnalyzerID (snd r) \<notin> V) rows"
    "filter (\<lambda>r. mr_AnalyzerID (snd r) \<in> V) (upsert_row new rows) = upsert_row new (filter (\<lambda>r. mr_AnalyzerID (snd r) \<in> V) rows)"
    using v by (simp_all add: upsert_row_def ex m)
qed

lemma upsert_rows_filter:
  assumes "\<forall>new \<in> set news. mr_AnalyzerID (snd new) \<in> V"
  shows "filter (\<lambda>r. mr_AnalyzerID (snd r) \<notin> V) (fst (upsert_rows news rows)) = filter (\<lambda>r. mr_AnalyzerID (snd r) \<notin> V) rows"
    and "filter (\<lambda>r. mr_AnalyzerID (snd r) \<in> V) (fst (upsert_rows news rows)) =
      fst (upsert_rows news (filter (\<lambda>r. mr_AnalyzerID (snd r) \<in> V) rows))"
    and "snd (upsert_rows news (filter (\<lambda>r. mr_AnalyzerID (snd r) \<in> V) rows)) = snd (upsert_rows news rows)"
  using assms
  by (induction news arbitrary: rows) (simp_all add: Let_def upsert_row_filter split_beta, metis upsert_row_filter(2))

lemma upsert_row_keys:
  "distinct (map row_key rows) \<Longrightarrow> distinct (map row_key (upsert_row new rows))"
  "row_key ` set (upsert_row new rows) = insert (row_key new) (row_key ` set rows)"
proof -
  have k: "map row_key (map (\<lambda>r. if row_key r = row_key new then new else r) rows) = map row_key rows"
    by (induction rows) auto
  show "distinct (map row_key rows) \<Longrightarrow> distinct (map row_key (upsert_row new rows))"
    using k by (auto simp: upsert_row_def list_ex_iff simp del: map_map)
  show "row_key ` set (upsert_row new rows) = insert (row_key new) (row_key ` set rows)"
  proof (cases "list_ex (\<lambda>r. row_key r = row_key new) rows")
    case True
    then have "row_key new \<in> row_key ` set rows" by (auto simp: list_ex_iff image_iff intro: sym)
    with True arg_cong [OF k, of set] show ?thesis by (simp only: upsert_row_def if_True list.set_map insert_absorb)
  qed (simp add: upsert_row_def)
qed

text \<open>The row under a key.\<close>

definition row_at :: "reading_row list \<Rightarrow> reading_key \<Rightarrow> reading_row option" where
  "row_at rows key = find (\<lambda>r. row_key r = key) rows"

lemma row_at_simps:
  "row_at [] key = None" "row_at (r # rs) key = (if row_key r = key then Some r else row_at rs key)"
  by (simp_all add: row_at_def)

lemma row_at_None: "row_at rows key = None \<longleftrightarrow> key \<notin> row_key ` set rows"
  by (induction rows) (auto simp: row_at_simps)

lemma row_at_upsert_row: "row_at (upsert_row new rows) key = (if key = row_key new then Some new else row_at rows key)"
proof -
  have "row_at (map (\<lambda>r. if row_key r = row_key new then new else r) rows) key =
      (if key = row_key new then (if list_ex (\<lambda>r. row_key r = row_key new) rows then Some new else None) else row_at rows key)"
    by (induction rows) (auto simp: row_at_simps)
  moreover have "row_at (rows @ [new]) key = (case row_at rows key of None \<Rightarrow> row_at [new] key | Some r \<Rightarrow> Some r)"
    by (induction rows) (simp_all add: row_at_simps)
  moreover have "\<not> list_ex (\<lambda>r. row_key r = row_key new) rows \<Longrightarrow> row_at rows (row_key new) = None"
    by (auto simp: row_at_None list_ex_iff)
  ultimately show ?thesis
    by (cases "key = row_key new"; cases "list_ex (\<lambda>r. row_key r = row_key new) rows")
      (auto simp: upsert_row_def row_at_simps split: option.split)
qed

lemma upsert_rows_at:
  assumes "distinct (map row_key news)"
  shows "row_at (fst (upsert_rows news rows)) key =
      (case row_at news key of Some new \<Rightarrow> Some new | None \<Rightarrow> row_at rows key)"
    and "snd (upsert_rows news rows) = map (\<lambda>new. row_at rows (row_key new) = None) news"
    and "distinct (map row_key rows) \<Longrightarrow> distinct (map row_key (fst (upsert_rows news rows)))"
proof -
  have ex: "list_ex (\<lambda>r. row_key r = k) rows \<longleftrightarrow> row_at rows k \<noteq> None" for rows k
    by (auto simp: row_at_def list_ex_iff find_None_iff)
  show "row_at (fst (upsert_rows news rows)) key =
      (case row_at news key of Some new \<Rightarrow> Some new | None \<Rightarrow> row_at rows key)"
    using assms
  proof (induction news arbitrary: rows)
    case (Cons new news)
    then have "row_at news (row_key new) = None" by (auto simp: row_at_def find_None_iff image_iff)
    with Cons show ?case
      by (simp add: Let_def split_beta row_at_upsert_row row_at_simps split: option.split) (metis option.distinct(1))
  qed (simp add: row_at_simps)
  show "snd (upsert_rows news rows) = map (\<lambda>new. row_at rows (row_key new) = None) news"
    using assms
  proof (induction news arbitrary: rows)
    case (Cons new news)
    then have "row_key x \<noteq> row_key new" if "x \<in> set news" for x using that by (auto simp: image_iff)
    with Cons show ?case by (simp add: Let_def split_beta row_at_upsert_row ex del: not_None_eq)
  qed simp
  show "distinct (map row_key rows) \<Longrightarrow> distinct (map row_key (fst (upsert_rows news rows)))"
    by (induction news arbitrary: rows) (simp_all add: Let_def split_beta upsert_row_keys)
qed

lemma set_distinct_uuids: "set (distinct_uuids seen ids) = set ids - seen \<and> distinct (distinct_uuids seen ids)"
  by (induction seen ids rule: distinct_uuids.induct) auto

text \<open>The check on the batch asks whether the scope sees every analyzer of it.\<close>

lemma batch_visible:
  assumes "distinct (map aw_id (db_analyzers db))"
  shows "length (ReadingVisibleAnalyzerIDs db (readingDistinctUUIDs ids) (sc_CompanyID s) (snd (BuildingFilter s)) (fst (BuildingFilter s))) =
      length (readingDistinctUUIDs ids) \<longleftrightarrow> set ids \<subseteq> scope_ids s db"
proof -
  let ?vis = "filter (\<lambda>a. aw_id a \<in> set ids) (scope_rows s db)"
  have len: "length (readingDistinctUUIDs ids) = card (set ids)"
    using set_distinct_uuids [of "{}" ids] by (metis Diff_empty distinct_card readingDistinctUUIDs_def)
  have "distinct (map aw_id ?vis)"
    using assms by (simp add: scope_rows_def distinct_map inj_on_def)
  then have "length ?vis = card (aw_id ` set ?vis)"
    by (metis distinct_card length_map list.set_map)
  also have "aw_id ` set ?vis = set ids \<inter> scope_ids s db" by (auto simp: scope_ids_def)
  finally have "length ?vis = card (set ids \<inter> scope_ids s db)" .
  moreover have "length (ReadingVisibleAnalyzerIDs db (readingDistinctUUIDs ids) (sc_CompanyID s) (snd (BuildingFilter s))
      (fst (BuildingFilter s))) = length ?vis"
    using set_distinct_uuids [of "{}" ids]
    by (simp add: ReadingVisibleAnalyzerIDs_def scope_rows_def readingDistinctUUIDs_def conj_commute)
  ultimately show ?thesis
    unfolding len by (metis card_subset_eq finite_set inf.absorb_iff1 inf_le1)
qed

definition stamped :: "time \<Rightarrow> reading_row list \<Rightarrow> reading_row list" where
  "stamped now staged = map (\<lambda>(t, r). (t, r\<lparr>mr_IngestedAt := now\<rparr>)) staged"

lemma row_key_stamped: "map row_key (stamped now staged) = map row_key staged"
  by (induction staged) (auto simp: stamped_def row_key_def)

lemma BulkInsert_eq:
  assumes "distinct (map aw_id (db_analyzers db))"
  shows "BulkInsert col now db s rows =
     (if \<not> Valid_scope s then (Inl ErrInvalidScope, db)
      else if rows = [] then (Inr (0, 0), db)
      else if readingDuplicateKey rows \<noteq> None then (Inl ErrConflict, db)
      else if \<not> mr_AnalyzerID ` set rows \<subseteq> scope_ids s db then (Inl ErrNotFound, db)
      else case staging col rows of
        None \<Rightarrow> (Inl ErrDatabase, db)
      | Some staged \<Rightarrow>
          if \<not> distinct (map row_key staged) then (Inl ErrDatabase, db)
          else (Inr (timeseriesScanUpsertCounts (snd (upsert_rows (stamped now staged) (db_readings db)))),
                db\<lparr>db_readings := fst (upsert_rows (stamped now staged) (db_readings db))\<rparr>))"
  using batch_visible [OF assms, of "map mr_AnalyzerID rows" s]
  by (simp add: BulkInsert_def Let_def stamped_def split_beta split: option.split)

lemma staging_ids:
  assumes "staging col rows = Some staged"
  shows "map (mr_AnalyzerID \<circ> snd) staged = map mr_AnalyzerID rows"
proof -
  from assms have ok: "None \<notin> set (map (staged_row col) rows)" and staged: "staged = map the (map (staged_row col) rows)"
    by (auto simp: staging_def Let_def split: if_splits)
  show ?thesis using ok unfolding staged
    by (induction rows) (auto simp: staged_row_def)
qed

lemma stamped_ids: "map (mr_AnalyzerID \<circ> snd) (stamped now staged) = map (mr_AnalyzerID \<circ> snd) staged"
  by (induction staged) (auto simp: stamped_def)

lemma upsert_counts_eq:
  "timeseriesScanUpsertCounts flags = (length (filter id flags), length (filter Not flags))"
proof -
  have "fold (\<lambda>isInsert (inserted, updated). if isInsert then (inserted + 1, updated) else (inserted, updated + 1)) flags (i, u) =
      (i + length (filter id flags), u + length (filter Not flags))" for i u :: nat
    by (induction flags arbitrary: i u) auto
  from this [of 0 0] show ?thesis by (simp add: timeseriesScanUpsertCounts_def)
qed

lemma row_at_mem: "distinct (map row_key rows) \<Longrightarrow> r \<in> set rows \<Longrightarrow> row_at rows (row_key r) = Some r"
  by (induction rows) (auto simp: row_at_simps image_iff)

section \<open>Properties\<close>

text \<open>Two databases look the same to a scope.\<close>

definition same_view :: "scope \<Rightarrow> readings_db \<Rightarrow> readings_db \<Rightarrow> bool" where
  "same_view s db db' \<longleftrightarrow> scope_rows s db = scope_rows s db' \<and> seen_readings s db = seen_readings s db'"

definition option_list :: "'a option \<Rightarrow> 'a list" where
  "option_list x = (case x of None \<Rightarrow> [] | Some y \<Rightarrow> [y])"

lemma desc_limit_1_mem: "desc_limit_1 xs = Some x \<Longrightarrow> x \<in> set xs"
proof -
  assume "desc_limit_1 xs = Some x"
  then have "xs \<noteq> []" "x = last (sort_key fst xs)" by (auto simp: desc_limit_1_def split: if_splits)
  moreover from this(1) have "sort_key fst xs \<noteq> []" by (metis length_0_conv length_sort)
  ultimately show "x \<in> set xs" using last_in_set [of "sort_key fst xs"] by simp
qed

text \<open>C12. Tenant isolation. A read that answers, of a range, of the two boundaries of a period or of the latest reading, is of an analyzer
  of the scope's own company that is not deleted and in a building the scope allows, and every reading it returns is a stored one of this
  analyzer and of the kind asked for; if two databases differ only in rows of analyzers outside the scope, every read gives the
  same answer, errors included, so another tenant's data cannot even be detected; and a write, which gives the same
  answer in both, keeps them indistinguishable and leaves the analyzers and the readings outside the scope as they were.\<close>

theorem readings_isolated:
  assumes "same_view s db db'" and "keys_ok db" and "keys_ok db'"
  shows "Range_readings db s analyzer tr k = Range_readings db' s analyzer tr k \<and>
    BoundaryReadings db s analyzer k start stop = BoundaryReadings db' s analyzer k start stop \<and>
    Latest db s analyzer tr k = Latest db' s analyzer tr k \<and>
    fst (BulkInsert col now db s rows) = fst (BulkInsert col now db' s rows) \<and>
    same_view s (snd (BulkInsert col now db s rows)) (snd (BulkInsert col now db' s rows)) \<and>
    unseen_readings s (snd (BulkInsert col now db s rows)) = unseen_readings s db \<and>
    db_analyzers (snd (BulkInsert col now db s rows)) = db_analyzers db \<and>
    (\<forall>found. Range_readings db s analyzer tr k = Inr found \<or>
        (\<exists>st en. BoundaryReadings db s analyzer k start stop = Inr (st, en) \<and> found = option_list st @ option_list en) \<or>
        (\<exists>r. Latest db s analyzer tr k = Inr r \<and> found = option_list r) \<longrightarrow>
      (\<exists>a \<in> set (db_analyzers db). aw_id a = analyzer \<and> aw_company_id a = sc_CompanyID s \<and> aw_deleted_at a = None \<and>
         (sc_AllBuildings s \<or> (\<exists>b. aw_building_id a = Some b \<and> b \<in> set (sc_BuildingIDs s)))) \<and>
      (\<forall>r \<in> set found. mr_AnalyzerID r = analyzer \<and> mr_Kind r = k \<and> r \<in> readingFromRow ` set (db_readings db)))"
proof -
  have ids: "scope_ids s db = scope_ids s db'" and seen: "seen_of s db an kd = seen_of s db' an kd" for an kd
    using assms(1) by (simp_all add: same_view_def scope_ids_def seen_of_def)
  note keys = assms(2,3) [unfolded keys_ok_def]
  have reads: "Range_readings db s analyzer tr k = Range_readings db' s analyzer tr k"
    "BoundaryReadings db s analyzer k start stop = BoundaryReadings db' s analyzer k start stop"
    "Latest db s analyzer tr k = Latest db' s analyzer tr k"
    by (simp_all add: Range_readings_eq Latest_eq BoundaryReadings_def boundary_eq ids seen)
  have news: "\<forall>new \<in> set (stamped now staged). mr_AnalyzerID (snd new) \<in> scope_ids s db"
    if "staging col rows = Some staged" "mr_AnalyzerID ` set rows \<subseteq> scope_ids s db" for staged
  proof -
    have "map (mr_AnalyzerID \<circ> snd) (stamped now staged) = map mr_AnalyzerID rows"
      using staging_ids [OF that(1)] stamped_ids [of now staged] by simp
    from arg_cong [OF this, of set] that(2)
    have "(mr_AnalyzerID \<circ> snd) ` set (stamped now staged) \<subseteq> scope_ids s db" by simp
    then show ?thesis by (simp add: image_subset_iff)
  qed
  have writes: "fst (BulkInsert col now db s rows) = fst (BulkInsert col now db' s rows) \<and>
    same_view s (snd (BulkInsert col now db s rows)) (snd (BulkInsert col now db' s rows)) \<and>
    unseen_readings s (snd (BulkInsert col now db s rows)) = unseen_readings s db \<and>
    db_analyzers (snd (BulkInsert col now db s rows)) = db_analyzers db"
  proof (cases "Valid_scope s \<and> rows \<noteq> [] \<and> readingDuplicateKey rows = None \<and> mr_AnalyzerID ` set rows \<subseteq> scope_ids s db")
    case False
    then show ?thesis using assms(1) keys by (auto simp: BulkInsert_eq ids)
  next
    case ok: True
    show ?thesis
    proof (cases "\<exists>staged. staging col rows = Some staged \<and> distinct (map row_key staged)")
      case False
      then show ?thesis using ok assms(1) keys by (auto simp: BulkInsert_eq ids split: option.split)
    next
      case True
      then obtain staged where st: "staging col rows = Some staged" "distinct (map row_key staged)" by blast
      note f = upsert_rows_filter [OF news [OF st(1)]]
      have b: "BulkInsert col now d s rows =
          (Inr (timeseriesScanUpsertCounts (snd (upsert_rows (stamped now staged) (db_readings d)))),
           d\<lparr>db_readings := fst (upsert_rows (stamped now staged) (db_readings d))\<rparr>)" if "d = db \<or> d = db'" for d
        using that ok st keys by (auto simp: BulkInsert_eq ids)
      have rows: "scope_rows s (d\<lparr>db_readings := x\<rparr>) = scope_rows s d" "scope_ids s (d\<lparr>db_readings := x\<rparr>) = scope_ids s d" for d x
        by (simp_all add: scope_rows_def scope_ids_def)
      have same: "filter (\<lambda>r. mr_AnalyzerID (snd r) \<in> scope_ids s db) (db_readings db) =
          filter (\<lambda>r. mr_AnalyzerID (snd r) \<in> scope_ids s db) (db_readings db')"
        using assms(1) by (simp add: same_view_def seen_readings_def ids)
      have "snd (upsert_rows (stamped now staged) (db_readings db)) = snd (upsert_rows (stamped now staged) (db_readings db'))"
        using f(3) [of "db_readings db"] f(3) [of "db_readings db'"] same ok by simp
      then show ?thesis
        using assms(1) f(1,2) [of "db_readings db"] f(2) [of "db_readings db'"] same ok
        by (simp add: b same_view_def seen_readings_def unseen_readings_def rows ids)
    qed
  qed
  have found: "(\<exists>a \<in> set (db_analyzers db). aw_id a = analyzer \<and> aw_company_id a = sc_CompanyID s \<and> aw_deleted_at a = None \<and>
         (sc_AllBuildings s \<or> (\<exists>b. aw_building_id a = Some b \<and> b \<in> set (sc_BuildingIDs s)))) \<and>
      (\<forall>r \<in> set found. mr_AnalyzerID r = analyzer \<and> mr_Kind r = k \<and> r \<in> readingFromRow ` set (db_readings db))"
    if "Range_readings db s analyzer tr k = Inr found \<or>
        (\<exists>st en. BoundaryReadings db s analyzer k start stop = Inr (st, en) \<and> found = option_list st @ option_list en) \<or>
        (\<exists>r. Latest db s analyzer tr k = Inr r \<and> found = option_list r)" for found
  proof -
    have one: "set (option_list (map_option readingFromRow (desc_limit_1 xs))) \<subseteq> readingFromRow ` set xs" for xs
      using desc_limit_1_mem [of xs] by (cases "desc_limit_1 xs") (auto simp: option_list_def)
    have v: "Valid_scope s \<and> analyzer \<in> scope_ids s db \<and> set found \<subseteq> readingFromRow ` set (seen_of s db analyzer k)"
      using that
    proof (elim disjE exE conjE)
      assume "Range_readings db s analyzer tr k = Inr found"
      then show ?thesis by (auto simp: Range_readings_eq split: if_splits)
    next
      fix st en assume b: "BoundaryReadings db s analyzer k start stop = Inr (st, en)" "found = option_list st @ option_list en"
      then have "Valid_scope s" "analyzer \<in> scope_ids s db"
        "st = map_option readingFromRow (desc_limit_1 (filter (\<lambda>mr. fst mr \<le> timestamptz start) (seen_of s db analyzer k)))"
        "en = map_option readingFromRow (desc_limit_1 (filter (\<lambda>mr. fst mr \<le> timestamptz stop) (seen_of s db analyzer k)))"
        by (auto simp: BoundaryReadings_def boundary_eq split: if_splits)
      then show ?thesis using b(2) one by fastforce
    next
      fix r assume "Latest db s analyzer tr k = Inr r" "found = option_list r"
      then show ?thesis using one by (fastforce simp: Latest_eq split: if_splits)
    qed
    have "mr_AnalyzerID r = analyzer \<and> mr_Kind r = k \<and> r \<in> readingFromRow ` set (db_readings db)" if "r \<in> set found" for r
    proof -
      have "r \<in> readingFromRow ` set (seen_of s db analyzer k)" using v that by blast
      then obtain row where "row \<in> set (seen_of s db analyzer k)" "r = readingFromRow row" by (rule imageE) blast
      then show ?thesis by (auto simp: seen_of_def seen_readings_def readingFromRow_def)
    qed
    moreover obtain x where x: "x \<in> set (scope_rows s db)" "aw_id x = analyzer" using v by (auto simp: scope_ids_def)
    then have "x \<in> set (db_analyzers db) \<and> aw_company_id x = sc_CompanyID s \<and> aw_deleted_at x = None \<and>
        (sc_AllBuildings s \<or> (\<exists>b. aw_building_id x = Some b \<and> b \<in> set (sc_BuildingIDs s)))"
      using v unfolding scope_rows_def in_scope_def scope_predicate_def BuildingFilter_def
      by (cases "aw_building_id x") (simp_all split: if_splits)
    ultimately show ?thesis using x(2) by blast
  qed
  show ?thesis using reads writes found by blast
qed

definition sample_row :: "uuid \<Rightarrow> time \<Rightarrow> dec \<Rightarrow> meter_reading" where
  "sample_row analyzer t v =
     \<lparr>mr_AnalyzerID = analyzer, mr_Ts = t, mr_Kind = ReadingKindLoadProfile, mr_ActiveImport = Some v,
      mr_ReactiveInductiveImport = None, mr_ReactiveCapacitiveImport = None, mr_T1Import = None, mr_T2Import = None, mr_T3Import = None,
      mr_ActiveExport = None, mr_ReactiveInductiveExport = None, mr_ReactiveCapacitiveExport = None, mr_T1Export = None,
      mr_T2Export = None, mr_T3Export = None, mr_MaxDemandKw = None, mr_IntervalGenerationKwh = None, mr_MeterSerial = None,
      mr_MultiplierApplied = 1, mr_SourceProvider = IntegrationProviderOSOS, mr_IngestedAt = 0, mr_Raw = []\<rparr>"

definition sample_db :: "reading_row list \<Rightarrow> readings_db" where
  "sample_db others =
     \<lparr>db_analyzers = [\<lparr>aw_id = 7, aw_company_id = 100, aw_building_id = None, aw_deleted_at = None\<rparr>,
                       \<lparr>aw_id = 8, aw_company_id = 200, aw_building_id = None, aw_deleted_at = None\<rparr>],
      db_readings = (5, sample_row 7 5000 10) # others\<rparr>"

definition other_tenant :: "reading_row list" where
  "other_tenant = [(5, sample_row 8 5000 99)]"

lemma sample_db_ok: "keys_ok (sample_db [])" "keys_ok (sample_db other_tenant)"
  by (simp_all add: keys_ok_def sample_db_def other_tenant_def row_key_def sample_row_def)

theorem readings_isolated_witness:
  "sample_db other_tenant \<noteq> sample_db [] \<and>
   Range_readings (sample_db other_tenant) (SystemScope 100) 8 \<lparr>tr_From = 0, tr_To = 9000\<rparr> ReadingKindLoadProfile =
     Range_readings (sample_db []) (SystemScope 100) 8 \<lparr>tr_From = 0, tr_To = 9000\<rparr> ReadingKindLoadProfile"
proof -
  have "same_view (SystemScope 100) (sample_db other_tenant) (sample_db [])"
    by (auto simp: same_view_def scope_rows_def seen_readings_def scope_ids_def sample_db_def other_tenant_def sample_row_def
        in_scope_def scope_predicate_def SystemScope_def BuildingFilter_def Valid_scope_def)
  from readings_isolated [OF this sample_db_ok(2,1), of 8 "\<lparr>tr_From = 0, tr_To = 9000\<rparr>" ReadingKindLoadProfile]
  show ?thesis by (simp add: sample_db_def other_tenant_def)
qed

text \<open>A row without the instant of its ingestion, which the statement sets anew.\<close>

definition undated :: "reading_row \<Rightarrow> reading_row" where
  "undated row = (case row of (t, r) \<Rightarrow> (t, r\<lparr>mr_IngestedAt := 0\<rparr>))"

lemma row_key_undated [simp]: "row_key (undated r) = row_key r"
  by (cases r) (simp add: undated_def row_key_def)

lemma undated_stamped: "map undated (stamped now rows) = map undated rows"
  by (induction rows) (auto simp: undated_def stamped_def)

lemma upsert_again:
  assumes "distinct (map row_key rows)" and "undated ` set news \<subseteq> undated ` set rows"
  shows "map undated (fst (upsert_rows news rows)) = map undated rows \<and> snd (upsert_rows news rows) = replicate (length news) False"
  using assms
proof (induction news arbitrary: rows)
  case (Cons new news)
  obtain old where old: "old \<in> set rows" "undated old = undated new" using Cons.prems(2) by auto
  then have key: "row_key old = row_key new" by (metis row_key_undated)
  have one: "undated (if row_key r = row_key new then new else r) = undated r" if "r \<in> set rows" for r
    using Cons.prems(1) that old key by (auto simp: distinct_map inj_on_def)
  have ex: "list_ex (\<lambda>r. row_key r = row_key new) rows" using old(1) key by (auto simp: list_ex_iff)
  have up: "map undated (upsert_row new rows) = map undated rows" using ex one by (simp add: upsert_row_def)
  then have "map (row_key \<circ> undated) (upsert_row new rows) = map (row_key \<circ> undated) rows" by (metis map_map)
  then have keys: "map row_key (upsert_row new rows) = map row_key rows" by (simp add: comp_def)
  have "undated ` set news \<subseteq> undated ` set (upsert_row new rows)"
    using Cons.prems(2) arg_cong [OF up, of set] by simp
  with Cons.IH [of "upsert_row new rows"] Cons.prems(1) keys up ex show ?case
    by (cases "upsert_rows news (upsert_row new rows)") (simp add: Let_def)
qed simp



end
