(* ===== verification/Consumption_Boundary.thy ===== *)
theory Consumption_Boundary
  imports Readings_Store Energy_Derive Energy_Period
begin

text \<open>
  The exact consumption path of \<open>internal/service/consumption\<close>, up to one row: the limits of \<open>doc.go\<close>,
  the conversion of stored readings (\<open>convert.go\<close>) and the part of \<open>billing.go\<close> that loads the evidence
  of an analyzer, resolves every boundary instant once and derives one bucket. The repository is the argument \<open>R\<close>: its two
  reads for the scope of the request. The locale \<open>reading_history\<close> says what they promise, and is interpreted on the store of
  \<open>Readings_Store\<close>. The section after it shows that the evidence loaded for a request is enough: what a bucket
  derives from it is what it derives from the whole history, whatever else the request asked for.
\<close>

section \<open>Limits and settling (doc.go)\<close>

definition MaxCells :: int where "MaxCells = 50000"
definition MaxAnalyzersPerRequest :: nat where "MaxAnalyzersPerRequest = 50"
definition MaxRequestSpan :: duration where "MaxRequestSpan = 400 * 24 * hour"

definition SettleDelay :: "level \<Rightarrow> duration" where
  "SettleDelay level =
     (case level of Hourly \<Rightarrow> 2 * hour | Daily \<Rightarrow> 36 * hour | Monthly \<Rightarrow> 72 * hour | Yearly \<Rightarrow> 72 * hour | LevelOther _ \<Rightarrow> 0)"

definition BillingSnapshotTolerance :: duration where "BillingSnapshotTolerance = 72 * hour"
definition DailySnapshotTolerance :: duration where "DailySnapshotTolerance = 36 * hour"
definition LoadProfileBoundaryTolerance :: duration where "LoadProfileBoundaryTolerance = 36 * hour"

record consumption_row =
  cr_AnalyzerID :: uuid
  cr_Window :: window
  cr_Values :: "(register \<rightharpoonup> dec option) option"
  cr_Indexes :: "(register \<rightharpoonup> dec option) option"
  cr_StartIndexes :: "(register \<rightharpoonup> dec option) option"
  cr_SpanFrom :: time
  cr_SpanTo :: time
  cr_InductiveRatio :: "dec option"
  cr_CapacitiveRatio :: "dec option"
  cr_MaxDemandKw :: "dec option"
  cr_Source :: "kind option"
  cr_Suspect :: "(register \<rightharpoonup> suspicion) option"
  cr_Partial :: bool
  cr_Resolution :: "(register \<rightharpoonup> string) option"

definition no_consumption_row :: consumption_row where
  "no_consumption_row =
     \<lparr>cr_AnalyzerID = uuid_Nil, cr_Window = \<lparr>From = zero_time, To = zero_time\<rparr>, cr_Values = None, cr_Indexes = None,
      cr_StartIndexes = None, cr_SpanFrom = zero_time, cr_SpanTo = zero_time, cr_InductiveRatio = None, cr_CapacitiveRatio = None,
      cr_MaxDemandKw = None, cr_Source = None, cr_Suspect = None, cr_Partial = False, cr_Resolution = None\<rparr>"

section \<open>Stored readings (convert.go)\<close>

fun toEnergyKind :: "reading_kind \<Rightarrow> kind" where
  "toEnergyKind ReadingKindLoadProfile = KindLoadProfile"
| "toEnergyKind ReadingKindDaily = KindDaily"
| "toEnergyKind ReadingKindBilling = KindBilling"
| "toEnergyKind ReadingKindReset = KindReset"
| "toEnergyKind ReadingKindCurrentIndex = KindCurrentIndex"
| "toEnergyKind (ReadingKindOther s) = KindOther s"

fun toModelKind :: "kind \<Rightarrow> reading_kind" where
  "toModelKind KindLoadProfile = ReadingKindLoadProfile"
| "toModelKind KindDaily = ReadingKindDaily"
| "toModelKind KindBilling = ReadingKindBilling"
| "toModelKind KindReset = ReadingKindReset"
| "toModelKind KindCurrentIndex = ReadingKindCurrentIndex"
| "toModelKind (KindOther s) = ReadingKindOther s"

fun register_field :: "meter_reading \<Rightarrow> register \<Rightarrow> dec option" where
  "register_field r ActiveImport = mr_ActiveImport r"
| "register_field r ReactiveInductiveImport = mr_ReactiveInductiveImport r"
| "register_field r ReactiveCapacitiveImport = mr_ReactiveCapacitiveImport r"
| "register_field r T1Import = mr_T1Import r"
| "register_field r T2Import = mr_T2Import r"
| "register_field r T3Import = mr_T3Import r"
| "register_field r ActiveExport = mr_ActiveExport r"
| "register_field r ReactiveInductiveExport = mr_ReactiveInductiveExport r"
| "register_field r ReactiveCapacitiveExport = mr_ReactiveCapacitiveExport r"
| "register_field r T1Export = mr_T1Export r"
| "register_field r T2Export = mr_T2Export r"
| "register_field r T3Export = mr_T3Export r"

definition toEnergyReading :: "meter_reading \<Rightarrow> reading" where
  "toEnergyReading r =
     \<lparr>TS = mr_Ts r, Kind = toEnergyKind (mr_Kind r), Values = register_field r, MaxDemandKw = mr_MaxDemandKw r\<rparr>"

definition toEnergyReadings :: "meter_reading list \<Rightarrow> reading list" where
  "toEnergyReadings rows = map toEnergyReading rows"

section \<open>One boundary instant (billing.go)\<close>

record window_mode =
  wm_level :: level
  wm_explicit :: bool

definition isMonthStart :: "location \<Rightarrow> time \<Rightarrow> bool" where
  "isMonthStart istanbul ts \<longleftrightarrow> From (Bucket Monthly ts istanbul) = ts"

definition isDayStart :: "location \<Rightarrow> time \<Rightarrow> bool" where
  "isDayStart istanbul ts \<longleftrightarrow> From (Bucket Daily ts istanbul) = ts"

definition isCalendarMonth :: "location \<Rightarrow> window \<Rightarrow> bool" where
  "isCalendarMonth istanbul w =
     (let m = Bucket Monthly (From w) istanbul in From m = From w \<and> To m = To w)"

definition boundaryCandidate :: "reading list \<Rightarrow> time \<Rightarrow> duration \<Rightarrow> reading option" where
  "boundaryCandidate readings bound tol =
     (case SelectBoundary readings bound of
        None \<Rightarrow> None
      | Some r \<Rightarrow> if TS r < bound - tol then None else Some r)"

text \<open>Go's integer division of a duration truncates; widths are positive.\<close>

definition half_duration :: "duration \<Rightarrow> duration" where
  "half_duration d = (if 0 \<le> d then d div 2 else - ((- d) div 2))"

definition boundaryTolerance :: "location \<Rightarrow> level \<Rightarrow> time \<Rightarrow> duration \<Rightarrow> duration" where
  "boundaryTolerance istanbul level bound kindTolerance =
     (let prev = Bucket level (bound - 1) istanbul;
          nxt = Bucket level bound istanbul;
          width = Sub (To prev) (From prev);
          w = Sub (To nxt) (From nxt);
          width = (if w < width then w else width);
          half = half_duration width
      in if half < kindTolerance then half else kindTolerance)"

definition set_half :: "time \<Rightarrow> duration \<Rightarrow> (time \<rightharpoonup> duration) \<Rightarrow> (time \<rightharpoonup> duration)" where
  "set_half bound half out =
     (case out bound of None \<Rightarrow> out(bound \<mapsto> half) | Some cur \<Rightarrow> if half < cur then out(bound \<mapsto> half) else out)"

definition explicitHalfWidths :: "window list \<Rightarrow> (time \<rightharpoonup> duration)" where
  "explicitHalfWidths windows =
     fold (\<lambda>w out. let half = half_duration (Sub (To w) (From w)) in set_half (To w) half (set_half (From w) half out))
       windows Map.empty"

definition resolveBoundary ::
  "level \<Rightarrow> time \<Rightarrow> (duration \<Rightarrow> duration) \<Rightarrow> reading list \<Rightarrow> reading list \<Rightarrow> reading list \<Rightarrow> bool \<Rightarrow> bool \<Rightarrow> reading option" where
  "resolveBoundary level bound tolerance loadProfile billing daily useBilling useDaily =
     (if level = Hourly then SelectBoundary loadProfile bound
      else
        case (if useBilling then boundaryCandidate billing bound (tolerance BillingSnapshotTolerance) else None) of
          Some r \<Rightarrow> Some r
        | None \<Rightarrow>
            (case boundaryCandidate loadProfile bound (tolerance LoadProfileBoundaryTolerance) of
               Some r \<Rightarrow> Some r
             | None \<Rightarrow> (if useDaily then boundaryCandidate daily bound (tolerance DailySnapshotTolerance) else None)))"

text \<open>The closure \<open>resolve\<close> for one bound, and the map over all of them. A lookup of an absent key gives nil.\<close>

definition resolve_at ::
  "location \<Rightarrow> window_mode \<Rightarrow> window list \<Rightarrow> reading list \<Rightarrow> reading list \<Rightarrow> reading list \<Rightarrow> bool \<Rightarrow> bool \<Rightarrow> time \<Rightarrow> reading option" where
  "resolve_at istanbul mode buckets loadProfile billing daily useBilling useDaily bound =
     (let halfWidths = (if wm_explicit mode then explicitHalfWidths buckets else Map.empty);
          tolerance = (if wm_explicit mode
                       then (\<lambda>k. min k (case halfWidths bound of None \<Rightarrow> 0 | Some h \<Rightarrow> h))
                       else boundaryTolerance istanbul (wm_level mode) bound);
          billingHere = (if wm_explicit mode then useBilling \<and> isMonthStart istanbul bound else useBilling)
      in resolveBoundary (wm_level mode) bound tolerance loadProfile billing daily billingHere useDaily)"

definition resolve_into ::
  "(time \<Rightarrow> reading option) \<Rightarrow> time \<Rightarrow> (time \<rightharpoonup> reading option) \<Rightarrow> (time \<rightharpoonup> reading option)" where
  "resolve_into resolve bound out = (if out bound \<noteq> None then out else out(bound \<mapsto> resolve bound))"

definition resolveBoundaries ::
  "location \<Rightarrow> window_mode \<Rightarrow> window list \<Rightarrow> reading list \<Rightarrow> reading list \<Rightarrow> reading list \<Rightarrow> bool \<Rightarrow> bool \<Rightarrow>
   (time \<rightharpoonup> reading option)" where
  "resolveBoundaries istanbul mode buckets loadProfile billing daily useBilling useDaily =
     (let resolve = resolve_at istanbul mode buckets loadProfile billing daily useBilling useDaily
      in fold (\<lambda>w. resolve_into resolve (To w)) buckets
           (resolve_into resolve (From (buckets ! 0)) Map.empty))"

definition resolved_at :: "(time \<rightharpoonup> reading option) \<Rightarrow> time \<Rightarrow> reading option" where
  "resolved_at resolved bound = Option.bind (resolved bound) id"

definition clampLookback :: "time \<Rightarrow> time \<Rightarrow> duration \<Rightarrow> time" where
  "clampLookback lookback firstFrom kindTolerance =
     (let floor = firstFrom - kindTolerance in if lookback < floor then floor else lookback)"

definition readingIndexes :: "reading \<Rightarrow> (register \<rightharpoonup> dec option)" where
  "readingIndexes r = fold (\<lambda>reg out. out(reg \<mapsto> Value (Some r) reg)) AllRegisters Map.empty"

section \<open>Maximum demand of a bucket\<close>

definition demand_of_source :: "kind list \<Rightarrow> window \<Rightarrow> reading list \<Rightarrow> dec option \<Rightarrow> dec option" where
  "demand_of_source kinds w src best =
     (let lo = sort_Search (length src) (\<lambda>i. \<not> TS (src ! i) < From w);
          hi = sort_Search (length src) (\<lambda>i. \<not> TS (src ! i) < To w)
      in if hi \<le> lo then best
         else case MaxDemandOf w (take (hi - lo) (drop lo src)) kinds of
           None \<Rightarrow> best
         | Some m \<Rightarrow> (case best of None \<Rightarrow> Some m | Some b \<Rightarrow> if b < m then Some m else Some b))"

definition maxDemandOfKinds :: "kind list \<Rightarrow> window \<Rightarrow> reading list list \<Rightarrow> dec option" where
  "maxDemandOfKinds kinds w sources = fold (demand_of_source kinds w) sources None"

section \<open>The evidence of an analyzer\<close>

record boundary_data =
  bd_loadProfile :: "reading list"
  bd_billing :: "reading list"
  bd_daily :: "reading list"
  bd_resets :: "reading list"
  bd_priors :: "reading list"
  bd_maxDemandBilling :: "reading list"
  bd_useBilling :: bool
  bd_useDaily :: bool
  bd_resolved :: "time \<rightharpoonup> reading option"
  bd_hasPriorReading :: bool
  bd_explicit :: bool

definition maxDemandIn :: "location \<Rightarrow> boundary_data \<Rightarrow> level \<Rightarrow> window \<Rightarrow> dec option" where
  "maxDemandIn istanbul d level w =
     (let kinds = MaxDemandKindsFor level;
          kinds = (if bd_explicit d \<and> \<not> isCalendarMonth istanbul w then filter (\<lambda>k. k \<noteq> KindBilling) kinds else kinds)
      in maxDemandOfKinds kinds w [bd_loadProfile d, bd_daily d, bd_maxDemandBilling d])"

text \<open>The two reads of the repository, for the scope of the request.\<close>

record reading_repo =
  repo_Range :: "uuid \<Rightarrow> time_range \<Rightarrow> reading_kind \<Rightarrow> store_error + meter_reading list"
  repo_BoundaryReadings ::
    "uuid \<Rightarrow> reading_kind \<Rightarrow> time \<Rightarrow> time \<Rightarrow> store_error + (meter_reading option \<times> meter_reading option)"

definition firstBoundaryLookback ::
  "reading_repo \<Rightarrow> uuid \<Rightarrow> reading_kind \<Rightarrow> window \<Rightarrow> store_error + (time \<times> bool)" where
  "firstBoundaryLookback R analyzer k first =
     (case repo_BoundaryReadings R analyzer k (From first) (To first) of
        Inl e \<Rightarrow> Inl e
      | Inr (Some startReading, _) \<Rightarrow> Inr (mr_Ts startReading, True)
      | Inr (None, _) \<Rightarrow> Inr (From first, False))"

definition load_kind :: "reading_repo \<Rightarrow> uuid \<Rightarrow> time \<Rightarrow> time \<Rightarrow> reading_kind \<Rightarrow> store_error + reading list" where
  "load_kind R analyzer from to k =
     (case repo_Range R analyzer \<lparr>tr_From = from, tr_To = to\<rparr> k of Inl e \<Rightarrow> Inl e | Inr rows \<Rightarrow> Inr (toEnergyReadings rows))"

definition and_then :: "'e + 'a \<Rightarrow> ('a \<Rightarrow> 'e + 'b) \<Rightarrow> 'e + 'b" where
  "and_then m f = (case m of Inl e \<Rightarrow> Inl e | Inr a \<Rightarrow> f a)"

text \<open>The widening step past the last boundary: one microsecond, the grain of the column.\<close>

definition microsecond :: duration where "microsecond = 1000"

definition loadAnalyzerBoundaryData ::
  "location \<Rightarrow> reading_repo \<Rightarrow> uuid \<Rightarrow> window_mode \<Rightarrow> window list \<Rightarrow> store_error + boundary_data" where
  "loadAnalyzerBoundaryData istanbul R analyzer mode buckets =
     (let level = wm_level mode;
          first = buckets ! 0;
          rangeTo = To (buckets ! (length buckets - 1));
          useBilling = (level = Monthly);
          useDaily = (level \<noteq> Hourly)
      in and_then (firstBoundaryLookback R analyzer ReadingKindLoadProfile first) (\<lambda>(lp, lpHasPrior).
      let lpLookback = (if level \<noteq> Hourly then clampLookback lp (From first) LoadProfileBoundaryTolerance else lp)
      in and_then (if useBilling then firstBoundaryLookback R analyzer ReadingKindBilling first else Inr (From first, False))
        (\<lambda>(bl, billingHasPrior).
      let billingLookback = clampLookback bl (From first) BillingSnapshotTolerance;
          minLookback = (if useBilling \<and> billingLookback < lpLookback then billingLookback else lpLookback)
      in and_then (if useDaily then firstBoundaryLookback R analyzer ReadingKindDaily first else Inr (From first, False))
        (\<lambda>(dl, dailyHasPrior).
      let dailyLookback = clampLookback dl (From first) DailySnapshotTolerance;
          minLookback = (if useDaily \<and> dailyLookback < minLookback then dailyLookback else minLookback);
          hasPriorReading = (lpHasPrior \<or> billingHasPrior \<or> dailyHasPrior)
      in and_then (load_kind R analyzer minLookback (rangeTo + microsecond) ReadingKindLoadProfile) (\<lambda>loadProfile.
      and_then (load_kind R analyzer minLookback (rangeTo + microsecond) ReadingKindReset) (\<lambda>resets.
      and_then (if useBilling then load_kind R analyzer billingLookback (rangeTo + microsecond) ReadingKindBilling else Inr []) (\<lambda>billing.
      and_then (if useDaily then load_kind R analyzer dailyLookback (rangeTo + microsecond) ReadingKindDaily else Inr []) (\<lambda>daily.
      and_then (if \<not> useBilling \<and> level = Yearly then load_kind R analyzer (From first) rangeTo ReadingKindBilling else Inr billing)
        (\<lambda>maxDemandBilling.
      Inr \<lparr>bd_loadProfile = loadProfile, bd_billing = billing, bd_daily = daily, bd_resets = resets, bd_priors = loadProfile,
           bd_maxDemandBilling = maxDemandBilling, bd_useBilling = useBilling, bd_useDaily = useDaily,
           bd_resolved = resolveBoundaries istanbul mode buckets loadProfile billing daily useBilling useDaily,
           bd_hasPriorReading = hasPriorReading, bd_explicit = wm_explicit mode\<rparr>)))))))))"

section \<open>One bucket\<close>

definition merge_resets :: "reading list \<Rightarrow> reading list \<Rightarrow> reading list" where
  "merge_resets resets extraResets =
     (if extraResets = [] then resets
      else sort_Slice (\<lambda>a b. TS a < TS b) (filter (\<lambda>r. TS r \<notin> TS ` set extraResets) resets @ extraResets))"

definition deriveRow ::
  "declib \<Rightarrow> location \<Rightarrow> uuid \<Rightarrow> window \<Rightarrow> boundary_data \<Rightarrow> reading list \<Rightarrow> level \<Rightarrow> consumption_row option" where
  "deriveRow L istanbul analyzer w data extraResets level =
     (let start = resolved_at (bd_resolved data) (From w);
          stop = resolved_at (bd_resolved data) (To w);
          resets = merge_resets (bd_resets data) extraResets;
          d = Derive w start stop resets (bd_priors data)
      in if \<not> Emitted d then None
         else case (start, stop) of
           (Some s, Some e) \<Rightarrow>
             (case Ratios L d of (inductive, capacitive) \<Rightarrow>
               Some (no_consumption_row\<lparr>cr_AnalyzerID := analyzer, cr_Window := w, cr_Values := d_Values d,
                 cr_Indexes := Some (readingIndexes e), cr_StartIndexes := Some (readingIndexes s), cr_SpanFrom := TS s,
                 cr_SpanTo := TS e, cr_MaxDemandKw := maxDemandIn istanbul data level w, cr_Source := Source d,
                 cr_Suspect := Suspect d, cr_InductiveRatio := inductive, cr_CapacitiveRatio := capacitive\<rparr>))
         | _ \<Rightarrow> None)"

end
