(* ===== verification/Consumption_Evidence.thy ===== *)
theory Consumption_Evidence
  imports Consumption_Boundary
begin

text \<open>
  Why the evidence that \<open>loadAnalyzerBoundaryData\<close> loads is enough. The locale \<open>reading_history\<close> is the contract of
  the two reads of the repository; \<open>Readings_Store\<close> keeps it. Under it a derived row is a function of the analyzer's history
  and its own window (\<open>whole_history\<close>): neither the clamped look-back nor the extent of the request shows in it.
\<close>

section \<open>A derivation looks only between its boundaries\<close>

lemma sorted_filter_TS: "sorted (map TS rs) \<Longrightarrow> sorted (map TS (filter P rs))"
  by (rule sorted_filter)

lemma last_filter_suffix:
  assumes "sorted (map TS rs)" and "filter (\<lambda>r. Q r \<and> lo < TS r) rs \<noteq> []"
  shows "last (filter Q rs) = last (filter (\<lambda>r. Q r \<and> lo < TS r) rs)"
  using assms
proof (induction rs rule: rev_induct)
  case (snoc x xs)
  show ?case
  proof (cases "Q x \<and> lo < TS x")
    case False
    have "filter (\<lambda>r. Q r \<and> lo < TS r) xs \<noteq> []" using snoc.prems(2) False by auto
    then obtain y where "y \<in> set xs" "Q y" "lo < TS y" by (auto simp: filter_empty_conv)
    moreover from this have "TS y \<le> TS x" using snoc.prems(1) by (auto simp: sorted_append)
    ultimately have "\<not> Q x" using False by auto
    with snoc False show ?thesis by (simp add: sorted_append)
  qed simp
qed simp

lemma prior_local:
  assumes "sorted (map TS priors)" and "lo \<le> after" and "before \<le> hi"
  shows "priorValueBefore priors reg after before =
    priorValueBefore (filter (\<lambda>r. lo < TS r \<and> TS r < hi) priors) reg after before"
proof -
  let ?Q = "\<lambda>r. TS r < before \<and> Kind r = KindLoadProfile"
  have narrow: "filter (\<lambda>r. Kind r = KindLoadProfile) (filter (\<lambda>r. TS r < before) (filter (\<lambda>r. lo < TS r \<and> TS r < hi) priors)) =
      filter (\<lambda>r. ?Q r \<and> lo < TS r) priors"
    using assms(3) by (auto simp: filter_filter intro!: filter_cong)
  have wide: "filter (\<lambda>r. Kind r = KindLoadProfile) (filter (\<lambda>r. TS r < before) priors) = filter ?Q priors"
    by (simp add: conj_commute)
  note eqs = priorValueBefore_eq [OF assms(1)] priorValueBefore_eq [OF sorted_filter_TS [OF assms(1)]]
  show ?thesis
  proof (cases "filter (\<lambda>r. ?Q r \<and> lo < TS r) priors = []")
    case True
    then have "TS r \<le> after" if "r \<in> set (filter ?Q priors)" for r
      using that assms(2) by (fastforce simp: filter_empty_conv)
    then have "filter ?Q priors \<noteq> [] \<Longrightarrow> \<not> after < TS (last (filter ?Q priors))"
      using last_in_set [of "filter ?Q priors"] by fastforce
    then show ?thesis using True unfolding eqs narrow wide by (auto simp: Let_def)
  next
    case False
    then have "filter ?Q priors \<noteq> []" by (auto simp: filter_empty_conv)
    then show ?thesis
      using False last_filter_suffix [OF assms(1) False] unfolding eqs narrow wide by (simp add: Let_def)
  qed
qed

lemma segment_deltas_cong:
  assumes "\<And>after before. lo \<le> after \<Longrightarrow> before \<le> hi \<Longrightarrow> priorValueBefore p reg after before = priorValueBefore q reg after before"
    and "lo \<le> prev" and "\<forall>x \<in> set rs. lo \<le> fst x \<and> fst x \<le> hi"
  shows "segment_deltas p reg prev start rs = segment_deltas q reg prev start rs"
  using assms(2,3) by (induction rs arbitrary: prev start) (auto simp: assms(1))

lemma carried_times: "carried reg rs = Some xs \<Longrightarrow> map fst xs = map TS rs"
  by (induction rs arbitrary: xs) (auto split: option.splits)

lemma deriveRegister_local:
  assumes "\<And>after before. TS s \<le> after \<Longrightarrow> before \<le> TS e \<Longrightarrow> priorValueBefore p reg after before = priorValueBefore q reg after before"
    and "\<forall>r \<in> set wr. TS s \<le> TS r \<and> TS r \<le> TS e"
  shows "deriveRegister reg s e wr sr p = deriveRegister reg s e wr sr q"
proof (cases "Values s reg"; cases "Values e reg")
  fix a b assume v: "Values s reg = Some a" "Values e reg = Some b"
  have "register_deltas reg s e a b xs p = register_deltas reg s e a b xs q" if "carried reg wr = Some xs" for xs
  proof -
    have "fst ` set xs = TS ` set wr" using arg_cong [OF carried_times [OF that], of set] by simp
    then have "\<forall>x \<in> set xs. TS s \<le> fst x \<and> fst x \<le> TS e" using assms(2) by (metis image_iff)
    then show ?thesis
      using segment_deltas_cong [of "TS s" "TS e" p reg q, OF assms(1)] by (simp add: register_deltas_def)
  qed
  then show ?thesis unfolding deriveRegister_eq [OF v] by (simp split: option.split)
qed (simp_all add: deriveRegister_def)

lemma lastResetAt_eq:
  assumes "sorted (map TS resets)"
  shows "lastResetAt resets ts =
    (let same = filter (\<lambda>r. TS r = ts) resets in if same = [] then None else Some (last same))"
proof -
  note s = bs.search_key_gt [OF assms, of ts]
  let ?before = "filter (\<lambda>r. TS r \<le> ts) resets"
  have code: "lastResetAt resets ts =
      (if ?before = [] then None else if TS (last ?before) \<noteq> ts then None else Some (last ?before))"
    using nth_take_last [OF s(2)] s(1) unfolding lastResetAt_def Let_def by auto
  have "filter (\<lambda>r. TS r \<le> ts \<and> ts - 1 < TS r) resets = filter (\<lambda>r. TS r = ts) resets" by (rule filter_cong) auto
  note suffix = last_filter_suffix [OF assms, of "\<lambda>r. TS r \<le> ts" "ts - 1", unfolded this]
  show ?thesis
  proof (cases "filter (\<lambda>r. TS r = ts) resets = []")
    case True
    then have "?before \<noteq> [] \<Longrightarrow> TS (last ?before) \<noteq> ts"
      using last_in_set [of ?before] by (auto simp: filter_empty_conv)
    with True show ?thesis by (auto simp: code)
  next
    case False
    then have "last (filter (\<lambda>r. TS r = ts) resets) \<in> set (filter (\<lambda>r. TS r = ts) resets)" by (rule last_in_set)
    moreover have "?before \<noteq> []" using False by (auto simp: filter_empty_conv)
    ultimately show ?thesis using False suffix [OF False] by (auto simp: code)
  qed
qed

lemma Derive_local:
  assumes "sorted (map TS resets)" and "sorted (map TS resets')" and "sorted (map TS priors)" and "sorted (map TS priors')"
    and "filter (\<lambda>r. TS s \<le> TS r \<and> TS r \<le> TS e) resets = filter (\<lambda>r. TS s \<le> TS r \<and> TS r \<le> TS e) resets'"
    and "filter (\<lambda>r. TS s < TS r \<and> TS r < TS e) priors = filter (\<lambda>r. TS s < TS r \<and> TS r < TS e) priors'"
  shows "Derive w (Some s) (Some e) resets priors = Derive w (Some s) (Some e) resets' priors'"
proof (cases "TS s < TS e")
  case True
  let ?in = "\<lambda>r. TS s \<le> TS r \<and> TS r \<le> TS e"
  have window: "inEvidenceWindow (filterKind rs KindReset) (TS s) (TS e) =
      filter (\<lambda>r. TS s < TS r \<and> Kind r = KindReset) (filter ?in rs)" for rs
    by (auto simp: inEvidenceWindow_def filterKind_eq filter_filter intro!: filter_cong)
  have "sorted (map TS (filterKind rs KindReset))" if "sorted (map TS rs)" for rs
    using that by (simp add: filterKind_eq sorted_filter)
  then have at: "lastResetAt (filterKind rs KindReset) t =
      (let same = filter (\<lambda>r. TS r = t \<and> Kind r = KindReset) (filter ?in rs) in if same = [] then None else Some (last same))"
    if "sorted (map TS rs)" "t = TS s \<or> t = TS e" for rs t
  proof -
    have "filter (\<lambda>r. TS r = t) (filterKind rs KindReset) = filter (\<lambda>r. TS r = t \<and> Kind r = KindReset) (filter ?in rs)"
      using that(2) True by (auto simp: filterKind_eq filter_filter intro!: filter_cong)
    then show ?thesis
      using lastResetAt_eq \<open>\<And>rs. sorted (map TS rs) \<Longrightarrow> sorted (map TS (filterKind rs KindReset))\<close> that(1) by simp
  qed
  have same: "inEvidenceWindow (filterKind resets KindReset) (TS s) (TS e) = inEvidenceWindow (filterKind resets' KindReset) (TS s) (TS e)"
    "lastResetAt (filterKind resets KindReset) (TS s) = lastResetAt (filterKind resets' KindReset) (TS s)"
    "lastResetAt (filterKind resets KindReset) (TS e) = lastResetAt (filterKind resets' KindReset) (TS e)"
    using assms(1,2,5) by (simp_all add: window at)
  have prior: "priorValueBefore priors reg after before = priorValueBefore priors' reg after before"
    if "TS s \<le> after" "before \<le> TS e" for reg after before
    using prior_local [OF assms(3) that] prior_local [OF assms(4) that] assms(6) by simp
  have evidence: "\<forall>r \<in> set (inEvidenceWindow rs (TS s) (TS e)). TS s \<le> TS r \<and> TS r \<le> TS e" for rs
    by (auto simp: inEvidenceWindow_def)
  have reg: "(\<lambda>reg. deriveRegister reg s e wr sr priors) = (\<lambda>reg. deriveRegister reg s e wr sr priors')"
    if "\<forall>r \<in> set wr. TS s \<le> TS r \<and> TS r \<le> TS e" for wr sr
    using prior by (intro ext deriveRegister_local) (use that in auto)
  let ?in' = "inEvidenceWindow (filterKind resets' KindReset) (TS s) (TS e)"
  have wr: "\<forall>r \<in> set (if c then ?in' @ [e] else ?in'). TS s \<le> TS r \<and> TS r \<le> TS e" for c
    using evidence [of "filterKind resets' KindReset"] True by auto
  show ?thesis unfolding Derive_def Let_def prod.case option.case same reg [OF wr] ..
qed (auto simp: Derive_def)

section \<open>The contract of the repository\<close>

text \<open>\<open>H analyzer k\<close> is the history of one kind as the scope of the request sees it.\<close>

definition last_before :: "meter_reading list \<Rightarrow> time \<Rightarrow> meter_reading option" where
  "last_before rows t = (let before = filter (\<lambda>r. mr_Ts r \<le> t) rows in if before = [] then None else Some (last before))"

lemma le_div_mult: "0 < c \<Longrightarrow> m \<le> t div c \<longleftrightarrow> m * c \<le> t" for m t c :: int
proof
  assume "0 < c" "m \<le> t div c"
  then have "m * c \<le> t div c * c" by simp
  also have "\<dots> \<le> t" using \<open>0 < c\<close> by (simp add: minus_mod_eq_div_mult [symmetric])
  finally show "m * c \<le> t" .
next
  assume "0 < c" "m * c \<le> t"
  then have "m * c div c \<le> t div c" by (intro zdiv_mono1)
  with \<open>0 < c\<close> show "m \<le> t div c" by simp
qed

locale reading_history =
  fixes R :: reading_repo and H :: "uuid \<Rightarrow> reading_kind \<Rightarrow> meter_reading list"
  assumes range_rows: "repo_Range R a tr k = Inr rows \<Longrightarrow>
      rows = filter (\<lambda>r. tr_From tr div 1000 \<le> mr_Ts r div 1000 \<and> mr_Ts r div 1000 < tr_To tr div 1000) (H a k)"
    and boundary_rows: "repo_BoundaryReadings R a k start stop = Inr (s, e) \<Longrightarrow> s = last_before (H a k) start"
    and history_sorted: "sorted (map mr_Ts (H a k))"
    and history_grain: "r \<in> set (H a k) \<Longrightarrow> mr_Ts r mod 1000 = 0"

definition repo_of :: "readings_db \<Rightarrow> scope \<Rightarrow> reading_repo" where
  "repo_of db s = \<lparr>repo_Range = Range_readings db s, repo_BoundaryReadings = BoundaryReadings db s\<rparr>"

definition history_of :: "readings_db \<Rightarrow> scope \<Rightarrow> uuid \<Rightarrow> reading_kind \<Rightarrow> meter_reading list" where
  "history_of db s analyzer k = map readingFromRow (sort_key fst (seen_of s db analyzer k))"

lemma readingFromRow_Ts [simp]: "mr_Ts (readingFromRow row) = fst row * 1000"
  by (simp add: readingFromRow_def)

interpretation stored: reading_history "repo_of db s" "history_of db s" for db s
proof unfold_locales
  fix a tr k rows assume "repo_Range (repo_of db s) a tr k = Inr rows"
  then have rows: "rows = map readingFromRow (sort_key fst
      (filter (\<lambda>mr. timestamptz (tr_From tr) \<le> fst mr \<and> fst mr < timestamptz (tr_To tr)) (seen_of s db a k)))"
    by (auto simp: repo_of_def Range_readings_eq split: if_splits)
  show "rows = filter (\<lambda>r. tr_From tr div 1000 \<le> mr_Ts r div 1000 \<and> mr_Ts r div 1000 < tr_To tr div 1000) (history_of db s a k)"
    unfolding rows history_of_def filter_map filter_sort by (simp add: comp_def timestamptz_def)
next
  fix a k start stop st e assume "repo_BoundaryReadings (repo_of db s) a k start stop = Inr (st, e)"
  then have st: "st = map_option readingFromRow (desc_limit_1 (filter (\<lambda>mr. fst mr \<le> timestamptz start) (seen_of s db a k)))"
    by (auto simp: repo_of_def BoundaryReadings_def boundary_eq split: if_splits)
  have le: "fst mr \<le> timestamptz start \<longleftrightarrow> fst mr * 1000 \<le> start" for mr :: reading_row
    unfolding timestamptz_def by (rule le_div_mult) simp
  show "st = last_before (history_of db s a k) start"
  proof (cases "filter (\<lambda>mr. fst mr * 1000 \<le> start) (seen_of s db a k) = []")
    case True
    then show ?thesis
      unfolding st last_before_def history_of_def Let_def filter_map filter_sort by (simp add: desc_limit_1_def comp_def le)
  next
    case False
    let ?rows = "filter (\<lambda>mr. fst mr * 1000 \<le> start) (seen_of s db a k)"
    have "sort_key fst ?rows \<noteq> []" using False length_sort [of fst ?rows] by (metis length_0_conv)
    moreover have "st = Some (readingFromRow (last (sort_key fst ?rows)))"
      using False unfolding st le by (simp add: desc_limit_1_def)
    moreover have "filter (\<lambda>r. mr_Ts r \<le> start) (history_of db s a k) = map readingFromRow (sort_key fst ?rows)"
      unfolding history_of_def filter_map filter_sort by (simp add: comp_def)
    ultimately show ?thesis by (simp add: last_before_def last_map)
  qed
next
  fix a k show "sorted (map mr_Ts (history_of db s a k))"
    using sorted_sort_key [of fst "seen_of s db a k"] by (simp add: history_of_def sorted_iff_nth_mono)
next
  fix r a k assume "r \<in> set (history_of db s a k)"
  then show "mr_Ts r mod 1000 = 0" by (auto simp: history_of_def)
qed

section \<open>Boundary selection on a loaded slice\<close>

definition hist :: "(uuid \<Rightarrow> reading_kind \<Rightarrow> meter_reading list) \<Rightarrow> uuid \<Rightarrow> reading_kind \<Rightarrow> reading list" where
  "hist H a k = toEnergyReadings (H a k)"

text \<open>Where a look-back may begin: at the last reading not after the start of the first bucket, or there if none is.\<close>

definition lookback_of :: "reading list \<Rightarrow> time \<Rightarrow> time \<Rightarrow> bool" where
  "lookback_of rs first t \<longleftrightarrow>
     (t \<le> first \<and> (\<exists>r \<in> set rs. TS r = t) \<and> (\<forall>r \<in> set rs. TS r \<le> first \<longrightarrow> TS r \<le> t)) \<or>
     (t = first \<and> (\<forall>r \<in> set rs. first < TS r))"

lemma slice_last:
  assumes "sorted (map TS rs)" and "bound \<le> to"
    and "filter (\<lambda>r. TS r \<le> bound) (filter (\<lambda>r. lo \<le> TS r \<and> TS r \<le> to) rs) \<noteq> []"
  shows "last (filter (\<lambda>r. TS r \<le> bound) (filter (\<lambda>r. lo \<le> TS r \<and> TS r \<le> to) rs)) = last (filter (\<lambda>r. TS r \<le> bound) rs)"
proof -
  have slice: "filter (\<lambda>r. TS r \<le> bound) (filter (\<lambda>r. lo \<le> TS r \<and> TS r \<le> to) rs) = filter (\<lambda>r. TS r \<le> bound \<and> lo - 1 < TS r) rs"
    using assms(2) by (auto simp: filter_filter intro!: filter_cong)
  show ?thesis using last_filter_suffix [OF assms(1), of "\<lambda>r. TS r \<le> bound" "lo - 1"] assms(3) unfolding slice by simp
qed

lemma slice_empty:
  assumes "sorted (map TS rs)" and "lookback_of rs first t" and "first \<le> bound" and "bound \<le> to"
    and "lo \<le> t \<or> lo \<le> clampLookback t first ktol \<and> 0 \<le> ktol"
    and "filter (\<lambda>r. TS r \<le> bound) (filter (\<lambda>r. lo \<le> TS r \<and> TS r \<le> to) rs) = []" and "filter (\<lambda>r. TS r \<le> bound) rs \<noteq> []"
  shows "\<not> lo \<le> t \<and> TS (last (filter (\<lambda>r. TS r \<le> bound) rs)) < first - ktol"
proof -
  let ?r = "last (filter (\<lambda>r. TS r \<le> bound) rs)"
  have r: "?r \<in> set rs" "TS ?r \<le> bound" using last_in_set [OF assms(7)] by auto
  have max: "TS x \<le> TS ?r" if "x \<in> set rs" "TS x \<le> bound" for x
    by (rule sorted_last_max [OF sorted_filter [OF assms(1)]]) (use that in simp)
  have lo: "TS ?r < lo" using r assms(4,6) by (force simp: filter_empty_conv)
  have clamp: "clampLookback t first ktol = max t (first - ktol)" by (simp add: clampLookback_def Let_def max_def)
  have t: "t \<le> first" using assms(2) by (auto simp: lookback_of_def)
  have not_t: "\<not> TS ?r < t"
  proof
    assume less: "TS ?r < t"
    then have "TS ?r \<le> first" using t by simp
    with assms(2) r(1) obtain x where "x \<in> set rs" "TS x = t" by (fastforce simp: lookback_of_def)
    with max [of x] less t assms(3) show False by simp
  qed
  then show ?thesis using lo assms(5) by (auto simp: clamp)
qed

lemma SelectBoundary_slice:
  assumes "sorted (map TS rs)" and "lookback_of rs first t" and "first \<le> bound" and "bound \<le> to" and "lo \<le> t"
  shows "SelectBoundary (filter (\<lambda>r. lo \<le> TS r \<and> TS r \<le> to) rs) bound = SelectBoundary rs bound"
  using slice_last [OF assms(1,4), of lo] slice_empty [OF assms(1-4), of lo 0] assms(5)
  by (auto simp: SelectBoundary_eq assms(1) sorted_filter Let_def filter_empty_conv)

lemma boundaryCandidate_slice:
  assumes "sorted (map TS rs)" and "lookback_of rs first t" and "first \<le> bound" and "bound \<le> to"
    and "lo \<le> clampLookback t first ktol" and "0 \<le> ktol" and "tol \<le> ktol"
  shows "boundaryCandidate (filter (\<lambda>r. lo \<le> TS r \<and> TS r \<le> to) rs) bound tol = boundaryCandidate rs bound tol"
proof (cases "filter (\<lambda>r. TS r \<le> bound) (filter (\<lambda>r. lo \<le> TS r \<and> TS r \<le> to) rs) = [] \<and> filter (\<lambda>r. TS r \<le> bound) rs \<noteq> []")
  case True
  with slice_empty [OF assms(1-4), of lo ktol] assms(5,6)
  have "TS (last (filter (\<lambda>r. TS r \<le> bound) rs)) < first - ktol" by blast
  then have "TS (last (filter (\<lambda>r. TS r \<le> bound) rs)) < bound - tol" using assms(3,7) by simp
  then show ?thesis using True
    by (simp add: boundaryCandidate_def SelectBoundary_eq assms(1) sorted_filter Let_def)
next
  case False
  then have "SelectBoundary (filter (\<lambda>r. lo \<le> TS r \<and> TS r \<le> to) rs) bound = SelectBoundary rs bound"
    using slice_last [OF assms(1,4), of lo]
    by (auto simp: SelectBoundary_eq assms(1) sorted_filter Let_def filter_empty_conv)
  then show ?thesis by (simp add: boundaryCandidate_def)
qed

lemma clampLookback_le: "t \<le> first \<Longrightarrow> 0 \<le> ktol \<Longrightarrow> clampLookback t first ktol \<le> first"
  by (simp add: clampLookback_def Let_def)

lemma tolerances_nonneg [simp]:
  "0 \<le> BillingSnapshotTolerance" "0 \<le> DailySnapshotTolerance" "0 \<le> LoadProfileBoundaryTolerance"
  by (simp_all add: BillingSnapshotTolerance_def DailySnapshotTolerance_def LoadProfileBoundaryTolerance_def hour_def ns_per_sec_def)

section \<open>Maximum demand on a loaded slice\<close>

lemma sorted_split_at:
  "sorted (map TS xs) \<Longrightarrow> a \<le> b \<Longrightarrow>
   filter (\<lambda>r. TS r < b) xs = filter (\<lambda>r. TS r < a) xs @ filter (\<lambda>r. a \<le> TS r \<and> TS r < b) xs"
proof (induction xs)
  case (Cons x xs)
  then have "a \<le> TS x \<Longrightarrow> filter (\<lambda>r. TS r < a) xs = []" by (auto simp: filter_empty_conv)
  with Cons show ?case by auto
qed simp

lemma demand_of_source_eq:
  assumes "sorted (map TS src)" and "Valid w"
  shows "demand_of_source kinds w src best =
    (case MaxDemandOf w (filter (\<lambda>r. Contains w (TS r)) src) kinds of
       None \<Rightarrow> best | Some m \<Rightarrow> (case best of None \<Rightarrow> Some m | Some b \<Rightarrow> if b < m then Some m else Some b))"
proof -
  let ?lo = "sort_Search (length src) (\<lambda>i. \<not> TS (src ! i) < From w)"
  let ?hi = "sort_Search (length src) (\<lambda>i. \<not> TS (src ! i) < To w)"
  note lo = bs.search_key_ge [OF assms(1), of "From w"] and hi = bs.search_key_ge [OF assms(1), of "To w"]
  have "filter (\<lambda>r. TS r < To w) src = filter (\<lambda>r. TS r < From w) src @ filter (\<lambda>r. Contains w (TS r)) src"
    using sorted_split_at [OF assms(1), of "From w" "To w"] assms(2) by (simp add: Valid_def Contains_def not_less)
  then have "drop ?lo (take ?hi src) = filter (\<lambda>r. Contains w (TS r)) src"
    and "?hi - ?lo = length (filter (\<lambda>r. Contains w (TS r)) src)"
    unfolding hi(2) using lo(1) hi(1) by simp_all
  then have "take (?hi - ?lo) (drop ?lo src) = filter (\<lambda>r. Contains w (TS r)) src"
    and "?hi - ?lo = length (filter (\<lambda>r. Contains w (TS r)) src)"
    by (simp_all only: drop_take)
  moreover have "MaxDemandOf w [] kinds = None" by (simp add: MaxDemandOf_def)
  ultimately show ?thesis
    by (cases "?hi \<le> ?lo") (simp_all add: demand_of_source_def Let_def)
qed

lemma maxDemandOfKinds_cong:
  assumes "\<forall>s \<in> set ss. sorted (map TS s)" and "\<forall>s \<in> set ss'. sorted (map TS s)" and "Valid w"
    and "map (filter (\<lambda>r. Contains w (TS r))) ss = map (filter (\<lambda>r. Contains w (TS r))) ss'"
  shows "maxDemandOfKinds kinds w ss = maxDemandOfKinds kinds w ss'"
proof -
  have "fold (demand_of_source kinds w) ss best = fold (demand_of_source kinds w) ss' best" for best
    using assms by (induction ss ss' arbitrary: best rule: list_induct2') (auto simp: demand_of_source_eq)
  then show ?thesis by (simp add: maxDemandOfKinds_def)
qed

section \<open>A request loads enough\<close>

text \<open>The evidence of an analyzer if everything were loaded.\<close>

definition whole_history ::
  "location \<Rightarrow> (uuid \<Rightarrow> reading_kind \<Rightarrow> meter_reading list) \<Rightarrow> uuid \<Rightarrow> window_mode \<Rightarrow> window list \<Rightarrow> boundary_data" where
  "whole_history istanbul H a mode buckets =
     (let level = wm_level mode;
          loadProfile = hist H a ReadingKindLoadProfile;
          billing = (if level = Monthly then hist H a ReadingKindBilling else []);
          daily = (if level \<noteq> Hourly then hist H a ReadingKindDaily else [])
      in \<lparr>bd_loadProfile = loadProfile, bd_billing = billing, bd_daily = daily, bd_resets = hist H a ReadingKindReset,
          bd_priors = loadProfile,
          bd_maxDemandBilling = (if level = Monthly \<or> level = Yearly then hist H a ReadingKindBilling else []),
          bd_useBilling = (level = Monthly), bd_useDaily = (level \<noteq> Hourly),
          bd_resolved = (\<lambda>b. Some (resolve_at istanbul mode buckets loadProfile billing daily (level = Monthly) (level \<noteq> Hourly) b)),
          bd_hasPriorReading = False, bd_explicit = wm_explicit mode\<rparr>)"

text \<open>The windows of a request: contiguous, non-empty, on the grain of the column.\<close>

definition bucket_run :: "window list \<Rightarrow> bool" where
  "bucket_run bs \<longleftrightarrow> bs \<noteq> [] \<and> contiguous bs \<and> (\<forall>b \<in> set bs. Valid b) \<and> To (last bs) mod 1000 = 0"

definition bounds :: "window list \<Rightarrow> time set" where
  "bounds bs = insert (From (hd bs)) (To ` set bs)"

lemma run_bounds:
  assumes "bucket_run bs" and "w \<in> set bs"
  shows "From (hd bs) \<le> From w" "To w \<le> To (last bs)" "From w < To w" "From w \<in> bounds bs" "To w \<in> bounds bs"
proof -
  have c: "contiguous bs" "\<forall>b \<in> set bs. From b < To b" "bs \<noteq> []"
    using assms(1) by (auto simp: bucket_run_def Valid_def)
  then show "From w < To w" using assms(2) by blast
  show "To w \<in> bounds bs" using assms(2) by (simp add: bounds_def)
  have gen: "From (hd bs) \<le> From v \<and> To v \<le> To (last bs) \<and> From v \<in> bounds bs" if "v \<in> set bs" for v
    using c that
  proof (induction bs arbitrary: v rule: contiguous.induct)
    case (1 x y ws)
    then have ih: "From y \<le> From u" "To u \<le> To (last (y # ws))" "From u \<in> bounds (y # ws)" if "u \<in> set (y # ws)" for u
      using that by auto
    have xy: "From x < To x" "To x = From y" using 1 by auto
    show ?case
    proof (cases "v = x")
      case True
      have "From y < To y" using 1 by simp
      then have "To x \<le> To (last (y # ws))" using ih(2) [of y] xy by simp
      then show ?thesis using True by (simp add: bounds_def)
    next
      case False
      then have v: "v \<in> set (y # ws)" using 1 by simp
      have "From x \<le> From v" using ih(1) [OF v] xy by simp
      moreover have "From v \<in> bounds (x # y # ws)" using ih(3) [OF v] xy by (auto simp: bounds_def)
      ultimately show ?thesis using ih(2) [OF v] by simp
    qed
  qed (auto simp: bounds_def)
  from gen [OF assms(2)] show "From (hd bs) \<le> From w" "To w \<le> To (last bs)" "From w \<in> bounds bs" by blast+
qed

lemma resolve_into_at: "resolved_at (resolve_into f b out) x = (if x = b \<and> out b = None then f b else resolved_at out x)"
  by (auto simp: resolve_into_def resolved_at_def)

lemma resolved_at_bounds:
  assumes "bs \<noteq> []" and "b \<in> bounds bs"
  shows "resolved_at (resolveBoundaries istanbul mode bs lp bl dl ub ud) b = resolve_at istanbul mode bs lp bl dl ub ud b"
proof -
  define f where "f = resolve_at istanbul mode bs lp bl dl ub ud"
  define inv where "inv = (\<lambda>out. \<forall>x. out x = None \<or> out x = Some (f x))"
  have step: "inv (resolve_into f x out)" "resolve_into f x out x \<noteq> None" "out y \<noteq> None \<Longrightarrow> resolve_into f x out y \<noteq> None"
    if "inv out" for x y out
    using that by (auto simp: inv_def resolve_into_def)
  have all: "inv (fold (\<lambda>w. resolve_into f (To w)) ws out) \<and>
      (\<forall>x. out x \<noteq> None \<or> x \<in> To ` set ws \<longrightarrow> fold (\<lambda>w. resolve_into f (To w)) ws out x \<noteq> None)" if "inv out" for ws out
    using that
  proof (induction ws arbitrary: out)
    case (Cons w ws)
    from Cons.IH [OF step(1) [OF Cons.prems, of "To w"]] step(2,3) [OF Cons.prems] show ?case by auto
  qed simp
  define first where "first = resolve_into f (From (bs ! 0)) Map.empty"
  have "inv first" "first (From (bs ! 0)) \<noteq> None" by (auto simp: first_def inv_def resolve_into_def)
  with all [of first bs] assms have "inv (fold (\<lambda>w. resolve_into f (To w)) bs first)"
    "fold (\<lambda>w. resolve_into f (To w)) bs first b \<noteq> None"
    by (auto simp: bounds_def hd_conv_nth)
  then have "resolveBoundaries istanbul mode bs lp bl dl ub ud b = Some (f b)"
    unfolding resolveBoundaries_def Let_def f_def [symmetric] first_def [symmetric] inv_def by metis
  then show ?thesis by (simp add: resolved_at_def f_def)
qed

context reading_history begin

lemma hist_sorted: "sorted (map TS (hist H a k))"
  using history_sorted [of a k] by (simp add: hist_def toEnergyReadings_def toEnergyReading_def comp_def)

lemma hist_grain: "r \<in> set (hist H a k) \<Longrightarrow> TS r mod 1000 = 0"
  using history_grain by (auto simp: hist_def toEnergyReadings_def toEnergyReading_def)

lemma load_kind_rows:
  assumes "load_kind R a from to k = Inr rs"
  shows "rs = filter (\<lambda>r. from - from mod 1000 \<le> TS r \<and> TS r < to - to mod 1000) (hist H a k)"
proof -
  obtain rows where rows: "repo_Range R a \<lparr>tr_From = from, tr_To = to\<rparr> k = Inr rows" "rs = toEnergyReadings rows"
    using assms by (auto simp: load_kind_def split: sum.splits)
  have grain: "from div 1000 \<le> t div 1000 \<and> t div 1000 < to div 1000 \<longleftrightarrow> from - from mod 1000 \<le> t \<and> t < to - to mod 1000"
    if "t mod 1000 = 0" for t :: time
    using that by (simp add: minus_mod_eq_mult_div) (auto elim!: dvdE simp: mod_0_imp_dvd dest!: mod_0_imp_dvd)
  show ?thesis
    unfolding rows(2) range_rows [OF rows(1)] hist_def toEnergyReadings_def filter_map
    using history_grain [of _ a k] grain
    by (auto simp: toEnergyReading_def comp_def intro!: arg_cong [where f = "map _"] filter_cong)
qed

lemma load_kind_wide:
  assumes "load_kind R a from (to + microsecond) k = Inr rs" and "to mod 1000 = 0"
  shows "rs = filter (\<lambda>r. from - from mod 1000 \<le> TS r \<and> TS r \<le> to) (hist H a k)"
proof -
  have "TS r < to + 1000 \<longleftrightarrow> TS r \<le> to" if "r \<in> set (hist H a k)" for r
    using hist_grain [OF that] assms(2) by (auto elim!: dvdE dest!: mod_0_imp_dvd)
  moreover have "(to + 1000) mod 1000 = 0" using assms(2) by simp
  ultimately show ?thesis
    unfolding load_kind_rows [OF assms(1)] microsecond_def by (auto intro!: filter_cong)
qed

lemma lookback_rows:
  assumes "firstBoundaryLookback R a k first = Inr (t, prior)"
  shows "lookback_of (hist H a k) (From first) t" and "prior \<longleftrightarrow> (\<exists>r \<in> set (hist H a k). TS r \<le> From first)" and "t \<le> From first"
proof -
  have mem: "(\<exists>r \<in> set (hist H a k). P (TS r)) \<longleftrightarrow> (\<exists>r \<in> set (H a k). P (mr_Ts r))" for P
    by (auto simp: hist_def toEnergyReadings_def toEnergyReading_def)
  have all: "(\<forall>r \<in> set (hist H a k). P (TS r)) \<longleftrightarrow> (\<forall>r \<in> set (H a k). P (mr_Ts r))" for P
    by (auto simp: hist_def toEnergyReadings_def toEnergyReading_def)
  obtain s e where b: "repo_BoundaryReadings R a k (From first) (To first) = Inr (s, e)"
    "(t, prior) = (case s of None \<Rightarrow> (From first, False) | Some r \<Rightarrow> (mr_Ts r, True))"
    using assms by (auto simp: firstBoundaryLookback_def split: sum.splits option.splits)
  let ?before = "filter (\<lambda>r. mr_Ts r \<le> From first) (H a k)"
  have s: "s = (if ?before = [] then None else Some (last ?before))"
    using boundary_rows [OF b(1)] by (simp add: last_before_def Let_def)
  have max: "mr_Ts r \<le> mr_Ts (last ?before)" if "r \<in> set (H a k)" "mr_Ts r \<le> From first" for r
    by (rule sorted_last_max [OF sorted_filter [OF history_sorted]]) (use that in simp)
  have "?before \<noteq> [] \<Longrightarrow> last ?before \<in> set (H a k) \<and> mr_Ts (last ?before) \<le> From first"
    using last_in_set [of ?before] by auto
  then show "lookback_of (hist H a k) (From first) t" "prior \<longleftrightarrow> (\<exists>r \<in> set (hist H a k). TS r \<le> From first)" "t \<le> From first"
    using b(2) s max
    by (auto simp: lookback_of_def mem [of "\<lambda>x. x = t"] mem [of "\<lambda>x. x \<le> From first"] all [of "\<lambda>x. x \<le> From first \<longrightarrow> x \<le> t"]
        all [of "\<lambda>x. From first < x"] filter_empty_conv not_le split: if_splits)
qed

end

text \<open>What a successful load holds: a slice of every history, the widest for load profiles and resets.\<close>

definition slice :: "(uuid \<Rightarrow> reading_kind \<Rightarrow> meter_reading list) \<Rightarrow> uuid \<Rightarrow> time \<Rightarrow> time \<Rightarrow> reading_kind \<Rightarrow> reading list" where
  "slice H a lo to k = filter (\<lambda>r. lo \<le> TS r \<and> TS r \<le> to) (hist H a k)"

lemma and_then_Inr: "and_then m f = Inr y \<longleftrightarrow> (\<exists>x. m = Inr x \<and> f x = Inr y)"
  by (auto simp: and_then_def split: sum.splits)

lemma floor_grain_mono: "x \<le> y \<Longrightarrow> x - x mod 1000 \<le> y - y mod (1000 :: int)"
  by (simp add: minus_mod_eq_mult_div zdiv_mono1)

lemma floor_grain_le: "x - x mod 1000 \<le> (x :: int)"
  by simp

context reading_history begin

lemma loaded_parts:
  assumes load: "loadAnalyzerBoundaryData istanbul R a mode bs = Inr d" and run: "bucket_run bs"
  defines "level \<equiv> wm_level mode" and "first \<equiv> From (hd bs)" and "to \<equiv> To (last bs)"
  obtains lo lob lod lp bl dl where
    "lookback_of (hist H a ReadingKindLoadProfile) first lp" "lo \<le> (if level \<noteq> Hourly then clampLookback lp first LoadProfileBoundaryTolerance else lp)"
    "level = Monthly \<Longrightarrow> lookback_of (hist H a ReadingKindBilling) first bl" "lob \<le> clampLookback bl first BillingSnapshotTolerance"
    "level \<noteq> Hourly \<Longrightarrow> lookback_of (hist H a ReadingKindDaily) first dl" "lod \<le> clampLookback dl first DailySnapshotTolerance"
    "lo \<le> first" "lob \<le> first" "lod \<le> first" "level = Monthly \<Longrightarrow> lo \<le> lob" "level \<noteq> Hourly \<Longrightarrow> lo \<le> lod"
    "bd_loadProfile d = slice H a lo to ReadingKindLoadProfile" "bd_priors d = slice H a lo to ReadingKindLoadProfile"
    "bd_resets d = slice H a lo to ReadingKindReset"
    "bd_billing d = (if level = Monthly then slice H a lob to ReadingKindBilling else [])"
    "bd_daily d = (if level \<noteq> Hourly then slice H a lod to ReadingKindDaily else [])"
    "bd_maxDemandBilling d = (if level = Monthly then slice H a lob to ReadingKindBilling
       else if level = Yearly then filter (\<lambda>r. first - first mod 1000 \<le> TS r \<and> TS r < to) (hist H a ReadingKindBilling) else [])"
    "bd_useBilling d = (level = Monthly)" "bd_useDaily d = (level \<noteq> Hourly)" "bd_explicit d = wm_explicit mode"
    "bd_resolved d = resolveBoundaries istanbul mode bs (bd_loadProfile d) (bd_billing d) (bd_daily d) (level = Monthly) (level \<noteq> Hourly)"
    "bd_hasPriorReading d = ((\<exists>r \<in> set (hist H a ReadingKindLoadProfile). TS r \<le> first) \<or>
       level = Monthly \<and> (\<exists>r \<in> set (hist H a ReadingKindBilling). TS r \<le> first) \<or>
       level \<noteq> Hourly \<and> (\<exists>r \<in> set (hist H a ReadingKindDaily). TS r \<le> first))"
proof -
  have ne: "bs ! 0 = hd bs" "bs ! (length bs - 1) = last bs"
    using run by (simp_all add: bucket_run_def hd_conv_nth last_conv_nth)
  have grain: "to mod 1000 = 0" using run by (simp add: bucket_run_def to_def)
  obtain lp lpP bl blP dl dlP loadProfile resets billing daily maxDemandBilling where
    lp: "firstBoundaryLookback R a ReadingKindLoadProfile (hd bs) = Inr (lp, lpP)"
    and bl: "(if level = Monthly then firstBoundaryLookback R a ReadingKindBilling (hd bs) else Inr (first, False)) = Inr (bl, blP)"
    and dl: "(if level \<noteq> Hourly then firstBoundaryLookback R a ReadingKindDaily (hd bs) else Inr (first, False)) = Inr (dl, dlP)"
    and parts: "let lpLookback = (if level \<noteq> Hourly then clampLookback lp first LoadProfileBoundaryTolerance else lp);
        billingLookback = clampLookback bl first BillingSnapshotTolerance;
        m = (if level = Monthly \<and> billingLookback < lpLookback then billingLookback else lpLookback);
        dailyLookback = clampLookback dl first DailySnapshotTolerance;
        m = (if level \<noteq> Hourly \<and> dailyLookback < m then dailyLookback else m)
      in load_kind R a m (to + microsecond) ReadingKindLoadProfile = Inr loadProfile \<and>
         load_kind R a m (to + microsecond) ReadingKindReset = Inr resets \<and>
         (if level = Monthly then load_kind R a billingLookback (to + microsecond) ReadingKindBilling else Inr []) = Inr billing \<and>
         (if level \<noteq> Hourly then load_kind R a dailyLookback (to + microsecond) ReadingKindDaily else Inr []) = Inr daily \<and>
         (if level \<noteq> Monthly \<and> level = Yearly then load_kind R a first to ReadingKindBilling else Inr billing) = Inr maxDemandBilling"
    and d: "d = \<lparr>bd_loadProfile = loadProfile, bd_billing = billing, bd_daily = daily, bd_resets = resets, bd_priors = loadProfile,
           bd_maxDemandBilling = maxDemandBilling, bd_useBilling = (level = Monthly), bd_useDaily = (level \<noteq> Hourly),
           bd_resolved = resolveBoundaries istanbul mode bs loadProfile billing daily (level = Monthly) (level \<noteq> Hourly),
           bd_hasPriorReading = (lpP \<or> blP \<or> dlP), bd_explicit = wm_explicit mode\<rparr>"
    using load
    unfolding loadAnalyzerBoundaryData_def Let_def and_then_Inr split_paired_Ex prod.case sum.inject ne
      level_def [symmetric] first_def [symmetric] to_def [symmetric]
    by (elim exE conjE) (rule that; (assumption | erule sym | simp only: Let_def simp_thms))
  define lpL where "lpL = (if level \<noteq> Hourly then clampLookback lp first LoadProfileBoundaryTolerance else lp)"
  define blL where "blL = clampLookback bl first BillingSnapshotTolerance"
  define dlL where "dlL = clampLookback dl first DailySnapshotTolerance"
  define m where "m = (if level = Monthly \<and> blL < lpL then blL else lpL)"
  define m' where "m' = (if level \<noteq> Hourly \<and> dlL < m then dlL else m)"
  have rows: "load_kind R a m' (to + microsecond) ReadingKindLoadProfile = Inr loadProfile"
    "load_kind R a m' (to + microsecond) ReadingKindReset = Inr resets"
    "(if level = Monthly then load_kind R a blL (to + microsecond) ReadingKindBilling else Inr []) = Inr billing"
    "(if level \<noteq> Hourly then load_kind R a dlL (to + microsecond) ReadingKindDaily else Inr []) = Inr daily"
    "(if level \<noteq> Monthly \<and> level = Yearly then load_kind R a first to ReadingKindBilling else Inr billing) = Inr maxDemandBilling"
    using parts unfolding Let_def m'_def m_def lpL_def blL_def dlL_def by blast+
  have le: "m' \<le> lpL" "level = Monthly \<Longrightarrow> m' \<le> blL" "level \<noteq> Hourly \<Longrightarrow> m' \<le> dlL"
    by (auto simp: m'_def m_def)
  have lpb: "lookback_of (hist H a ReadingKindLoadProfile) first lp" "lp \<le> first"
    "lpP \<longleftrightarrow> (\<exists>r \<in> set (hist H a ReadingKindLoadProfile). TS r \<le> first)"
    using lookback_rows [OF lp] by (simp_all add: first_def)
  have blb: "level = Monthly \<Longrightarrow> lookback_of (hist H a ReadingKindBilling) first bl" "bl \<le> first"
    "blP \<longleftrightarrow> level = Monthly \<and> (\<exists>r \<in> set (hist H a ReadingKindBilling). TS r \<le> first)"
    using bl lookback_rows [of a ReadingKindBilling "hd bs" bl blP] by (auto simp: first_def split: if_splits)
  have dlb: "level \<noteq> Hourly \<Longrightarrow> lookback_of (hist H a ReadingKindDaily) first dl" "dl \<le> first"
    "dlP \<longleftrightarrow> level \<noteq> Hourly \<and> (\<exists>r \<in> set (hist H a ReadingKindDaily). TS r \<le> first)"
    using dl lookback_rows [of a ReadingKindDaily "hd bs" dl dlP] by (auto simp: first_def split: if_splits)
  have first: "lpL \<le> first" "blL \<le> first" "dlL \<le> first"
    using lpb(2) blb(2) dlb(2) by (simp_all add: lpL_def blL_def dlL_def clampLookback_le)
  show thesis
  proof (rule that [of lp "m' - m' mod 1000" bl "blL - blL mod 1000" dl "dlL - dlL mod 1000"])
    show "m' - m' mod 1000 \<le> (if level \<noteq> Hourly then clampLookback lp first LoadProfileBoundaryTolerance else lp)"
      using le(1) floor_grain_le [of m'] unfolding lpL_def by linarith
    show "blL - blL mod 1000 \<le> clampLookback bl first BillingSnapshotTolerance" unfolding blL_def by (rule floor_grain_le)
    show "dlL - dlL mod 1000 \<le> clampLookback dl first DailySnapshotTolerance" unfolding dlL_def by (rule floor_grain_le)
    show "m' - m' mod 1000 \<le> first" "blL - blL mod 1000 \<le> first" "dlL - dlL mod 1000 \<le> first"
      using le(1) first floor_grain_le [of m'] floor_grain_le [of blL] floor_grain_le [of dlL] by linarith+
    show "m' - m' mod 1000 \<le> blL - blL mod 1000" if "level = Monthly" using le(2) [OF that] by (rule floor_grain_mono)
    show "m' - m' mod 1000 \<le> dlL - dlL mod 1000" if "level \<noteq> Hourly" using le(3) [OF that] by (rule floor_grain_mono)
    show "bd_loadProfile d = slice H a (m' - m' mod 1000) to ReadingKindLoadProfile"
      "bd_priors d = slice H a (m' - m' mod 1000) to ReadingKindLoadProfile"
      "bd_resets d = slice H a (m' - m' mod 1000) to ReadingKindReset"
      using load_kind_wide [OF rows(1) grain] load_kind_wide [OF rows(2) grain] by (simp_all add: d slice_def)
    show "bd_billing d = (if level = Monthly then slice H a (blL - blL mod 1000) to ReadingKindBilling else [])"
      "bd_daily d = (if level \<noteq> Hourly then slice H a (dlL - dlL mod 1000) to ReadingKindDaily else [])"
      using rows(3,4) load_kind_wide [OF _ grain] by (auto simp: d slice_def)
    show "bd_maxDemandBilling d = (if level = Monthly then slice H a (blL - blL mod 1000) to ReadingKindBilling
       else if level = Yearly then filter (\<lambda>r. first - first mod 1000 \<le> TS r \<and> TS r < to) (hist H a ReadingKindBilling) else [])"
      using rows(3,5) load_kind_wide [OF _ grain] load_kind_rows [of a first to ReadingKindBilling] grain by (auto simp: d slice_def)
  qed (use lpb blb dlb in \<open>simp_all add: d\<close>)
qed

lemma resolve_at_slice:
  assumes load: "loadAnalyzerBoundaryData istanbul R a mode bs = Inr d" and run: "bucket_run bs"
    and b: "From (hd bs) \<le> b" "b \<le> To (last bs)"
  defines "level \<equiv> wm_level mode"
  shows "resolve_at istanbul mode bs (bd_loadProfile d) (bd_billing d) (bd_daily d) (level = Monthly) (level \<noteq> Hourly) b =
    resolved_at (bd_resolved (whole_history istanbul H a mode bs)) b"
proof -
  obtain lo lob lod lp bl dl where p:
    "lookback_of (hist H a ReadingKindLoadProfile) (From (hd bs)) lp"
    "lo \<le> (if level \<noteq> Hourly then clampLookback lp (From (hd bs)) LoadProfileBoundaryTolerance else lp)"
    "level = Monthly \<Longrightarrow> lookback_of (hist H a ReadingKindBilling) (From (hd bs)) bl"
    "lob \<le> clampLookback bl (From (hd bs)) BillingSnapshotTolerance"
    "level \<noteq> Hourly \<Longrightarrow> lookback_of (hist H a ReadingKindDaily) (From (hd bs)) dl"
    "lod \<le> clampLookback dl (From (hd bs)) DailySnapshotTolerance"
    "bd_loadProfile d = slice H a lo (To (last bs)) ReadingKindLoadProfile"
    "bd_billing d = (if level = Monthly then slice H a lob (To (last bs)) ReadingKindBilling else [])"
    "bd_daily d = (if level \<noteq> Hourly then slice H a lod (To (last bs)) ReadingKindDaily else [])"
    by (rule loaded_parts [OF load run], rule that, unfold level_def) (assumption | blast)+
  define tol where "tol = (if wm_explicit mode
     then (\<lambda>k. min k (case explicitHalfWidths bs b of None \<Rightarrow> 0 | Some h \<Rightarrow> h)) else boundaryTolerance istanbul level b)"
  have tol: "tol k \<le> k" for k by (simp add: tol_def boundaryTolerance_def Let_def)
  have lp: "boundaryCandidate (bd_loadProfile d) b (tol LoadProfileBoundaryTolerance) =
      boundaryCandidate (hist H a ReadingKindLoadProfile) b (tol LoadProfileBoundaryTolerance)" if "level \<noteq> Hourly"
    unfolding p(7) slice_def
    by (rule boundaryCandidate_slice [OF hist_sorted p(1) b _ tolerances_nonneg(3) tol]) (use p(2) that in simp)
  have hourly: "SelectBoundary (bd_loadProfile d) b = SelectBoundary (hist H a ReadingKindLoadProfile) b" if "level = Hourly"
    unfolding p(7) slice_def by (rule SelectBoundary_slice [OF hist_sorted p(1) b]) (use p(2) that in simp)
  have bl: "boundaryCandidate (bd_billing d) b (tol BillingSnapshotTolerance) =
      boundaryCandidate (hist H a ReadingKindBilling) b (tol BillingSnapshotTolerance)" if "level = Monthly"
    unfolding p(8) slice_def if_P [OF that]
    by (rule boundaryCandidate_slice [OF hist_sorted p(3) [OF that] b p(4) tolerances_nonneg(1) tol])
  have dl: "boundaryCandidate (bd_daily d) b (tol DailySnapshotTolerance) =
      boundaryCandidate (hist H a ReadingKindDaily) b (tol DailySnapshotTolerance)" if "level \<noteq> Hourly"
    unfolding p(9) slice_def if_P [OF that]
    by (rule boundaryCandidate_slice [OF hist_sorted p(5) [OF that] b p(6) tolerances_nonneg(2) tol])
  have code: "resolve_at istanbul mode bs x y z ub ud b = resolveBoundary level b tol x y z
      (if wm_explicit mode then ub \<and> isMonthStart istanbul b else ub) ud" for x y z ub ud
    by (auto simp: resolve_at_def Let_def tol_def level_def)
  show ?thesis
    using lp hourly bl dl
    by (simp add: whole_history_def resolved_at_def Let_def code resolveBoundary_def level_def [symmetric] cong: option.case_cong)
qed

lemma SelectBoundary_mem: "SelectBoundary rs b = Some r \<Longrightarrow> sorted (map TS rs) \<Longrightarrow> r \<in> set rs \<and> TS r \<le> b"
  using last_in_set [of "filter (\<lambda>r. TS r \<le> b) rs"] by (auto simp: SelectBoundary_eq Let_def split: if_splits)

lemma resolve_at_mem:
  assumes "resolve_at istanbul mode bs lp bl dl ub ud b = Some r" and "sorted (map TS lp)" "sorted (map TS bl)" "sorted (map TS dl)"
  shows "r \<in> set lp \<union> (if ub then set bl else {}) \<union> (if ud then set dl else {}) \<and> TS r \<le> b"
proof -
  have cand: "r \<in> set rs \<and> TS r \<le> b" if "boundaryCandidate rs b tol = Some r" "sorted (map TS rs)" for rs tol
    using that SelectBoundary_mem [of rs b r] by (auto simp: boundaryCandidate_def split: option.splits if_splits)
  define tol where "tol = (if wm_explicit mode
     then (\<lambda>k. min k (case explicitHalfWidths bs b of None \<Rightarrow> 0 | Some h \<Rightarrow> h)) else boundaryTolerance istanbul (wm_level mode) b)"
  have "resolve_at istanbul mode bs lp bl dl ub ud b = resolveBoundary (wm_level mode) b tol lp bl dl
      (if wm_explicit mode then ub \<and> isMonthStart istanbul b else ub) ud"
    by (auto simp: resolve_at_def Let_def tol_def)
  then show ?thesis
    using assms cand SelectBoundary_mem [of lp b r] by (auto simp: resolveBoundary_def split: option.splits if_splits)
qed

text \<open>A row derived from the loaded evidence is the row of the whole history.\<close>

lemma deriveRow_whole:
  assumes load: "loadAnalyzerBoundaryData istanbul R a mode bs = Inr d" and run: "bucket_run bs" and w: "w \<in> set bs"
  shows "deriveRow L istanbul analyzer w d [] (wm_level mode) =
    deriveRow L istanbul analyzer w (whole_history istanbul H a mode bs) [] (wm_level mode)"
proof -
  let ?first = "From (hd bs)" and ?to = "To (last bs)"
  note rb = run_bounds [OF run w]
  obtain lo lob lod where p: "lo \<le> ?first" "lob \<le> ?first" "lod \<le> ?first" "wm_level mode = Monthly \<Longrightarrow> lo \<le> lob"
    "wm_level mode \<noteq> Hourly \<Longrightarrow> lo \<le> lod"
    and lp: "bd_loadProfile d = slice H a lo ?to ReadingKindLoadProfile" and pr: "bd_priors d = slice H a lo ?to ReadingKindLoadProfile"
    and rs: "bd_resets d = slice H a lo ?to ReadingKindReset"
    and bl: "bd_billing d = (if wm_level mode = Monthly then slice H a lob ?to ReadingKindBilling else [])"
    and dl: "bd_daily d = (if wm_level mode \<noteq> Hourly then slice H a lod ?to ReadingKindDaily else [])"
    and mb: "bd_maxDemandBilling d = (if wm_level mode = Monthly then slice H a lob ?to ReadingKindBilling
       else if wm_level mode = Yearly then filter (\<lambda>r. ?first - ?first mod 1000 \<le> TS r \<and> TS r < ?to) (hist H a ReadingKindBilling) else [])"
    and ex: "bd_explicit d = wm_explicit mode"
    and rd: "bd_resolved d = resolveBoundaries istanbul mode bs (bd_loadProfile d) (bd_billing d) (bd_daily d)
       (wm_level mode = Monthly) (wm_level mode \<noteq> Hourly)"
    by (rule loaded_parts [OF load run], rule that) (assumption | (erule meta_mp, assumption))+
  have ne: "bs \<noteq> []" using run by (simp add: bucket_run_def)
  have resolved: "resolved_at (bd_resolved d) b = resolved_at (bd_resolved (whole_history istanbul H a mode bs)) b"
    if "b = From w \<or> b = To w" for b
  proof -
    have b: "b \<in> bounds bs" "?first \<le> b" "b \<le> ?to" using that rb by auto
    show ?thesis
      unfolding rd resolved_at_bounds [OF ne b(1)] by (rule resolve_at_slice [OF load run]) (use b in simp_all)
  qed
  have sorted: "sorted (map TS (slice H a l ?to k))" for l k by (simp add: slice_def sorted_filter hist_sorted)
  have mem: "lo \<le> TS r \<and> TS r \<le> b" if "resolved_at (bd_resolved d) b = Some r" "b = From w \<or> b = To w" for r b
  proof -
    have b: "b \<in> bounds bs" using that rb by auto
    have "r \<in> set (bd_loadProfile d) \<union> (if wm_level mode = Monthly then set (bd_billing d) else {}) \<union>
        (if wm_level mode \<noteq> Hourly then set (bd_daily d) else {}) \<and> TS r \<le> b"
      by (rule resolve_at_mem [OF that(1) [unfolded rd resolved_at_bounds [OF ne b]]]) (auto simp: lp bl dl sorted)
    then show ?thesis using p(4,5) by (auto simp: lp bl dl slice_def split: if_splits)
  qed
  let ?W = "whole_history istanbul H a mode bs"
  have W: "bd_loadProfile ?W = hist H a ReadingKindLoadProfile" "bd_priors ?W = hist H a ReadingKindLoadProfile"
    "bd_resets ?W = hist H a ReadingKindReset" "bd_daily ?W = (if wm_level mode \<noteq> Hourly then hist H a ReadingKindDaily else [])"
    "bd_maxDemandBilling ?W = (if wm_level mode = Monthly \<or> wm_level mode = Yearly then hist H a ReadingKindBilling else [])"
    "bd_explicit ?W = wm_explicit mode"
    by (simp_all add: whole_history_def Let_def)
  have inside: "filter (\<lambda>r. Contains w (TS r)) (slice H a l ?to k) = filter (\<lambda>r. Contains w (TS r)) (hist H a k)" if "l \<le> ?first" for l k
    using that rb by (auto simp: slice_def Contains_def filter_filter intro!: filter_cong)
  have yearly: "filter (\<lambda>r. Contains w (TS r)) (filter (\<lambda>r. ?first - ?first mod 1000 \<le> TS r \<and> TS r < ?to) (hist H a k)) =
      filter (\<lambda>r. Contains w (TS r)) (hist H a k)" for k
    using rb floor_grain_le [of ?first] by (auto simp: Contains_def filter_filter intro!: filter_cong)
  have demand: "maxDemandIn istanbul d (wm_level mode) w = maxDemandIn istanbul ?W (wm_level mode) w"
    unfolding maxDemandIn_def Let_def ex W(6)
  proof (rule maxDemandOfKinds_cong)
    show "\<forall>s \<in> set [bd_loadProfile d, bd_daily d, bd_maxDemandBilling d]. sorted (map TS s)"
      by (simp add: lp dl mb sorted sorted_filter hist_sorted)
    show "\<forall>s \<in> set [bd_loadProfile ?W, bd_daily ?W, bd_maxDemandBilling ?W]. sorted (map TS s)" by (simp add: W hist_sorted)
    show "Valid w" using rb by (simp add: Valid_def)
    show "map (filter (\<lambda>r. Contains w (TS r))) [bd_loadProfile d, bd_daily d, bd_maxDemandBilling d] =
        map (filter (\<lambda>r. Contains w (TS r))) [bd_loadProfile ?W, bd_daily ?W, bd_maxDemandBilling ?W]"
      by (simp add: lp dl mb W inside p yearly del: filter_filter)
  qed
  have derive: "Derive w (resolved_at (bd_resolved d) (From w)) (resolved_at (bd_resolved d) (To w)) (bd_resets d) (bd_priors d) =
      Derive w (resolved_at (bd_resolved d) (From w)) (resolved_at (bd_resolved d) (To w)) (bd_resets ?W) (bd_priors ?W)"
  proof (cases "resolved_at (bd_resolved d) (From w)"; cases "resolved_at (bd_resolved d) (To w)")
    fix s e assume se: "resolved_at (bd_resolved d) (From w) = Some s" "resolved_at (bd_resolved d) (To w) = Some e"
    have "lo \<le> TS s" "TS e \<le> ?to" using mem [OF se(1)] mem [OF se(2)] rb by auto
    then show ?thesis
      unfolding se rs pr W
      by (intro Derive_local sorted hist_sorted) (auto simp: slice_def filter_filter intro!: filter_cong)
  qed (simp_all add: Derive_def)
  note r = resolved [OF disjI1 [OF refl]] resolved [OF disjI2 [OF refl]]
  show ?thesis
    unfolding deriveRow_def Let_def merge_resets_def if_P [OF refl] r derive [unfolded r] demand ..
qed

end

section \<open>Property\<close>

text \<open>C9. A bucket derives the same row whatever else the request asks for. Two calendar requests of one level for one
  analyzer load evidence over their own ranges, each from where its own first bucket makes it look back; when both loads succeed and both
  requests contain the bucket, its row, suspicions, ratios and maximum demand included, is the same, and it is the one the
  whole stored history of the analyzer gives.\<close>

theorem request_independence:
  assumes "loadAnalyzerBoundaryData istanbul (repo_of db s) a \<lparr>wm_level = level, wm_explicit = False\<rparr> bs1 = Inr d1"
    and "loadAnalyzerBoundaryData istanbul (repo_of db s) a \<lparr>wm_level = level, wm_explicit = False\<rparr> bs2 = Inr d2"
    and "bucket_run bs1" and "bucket_run bs2" and "w \<in> set bs1" and "w \<in> set bs2"
  shows "deriveRow L istanbul a w d1 [] level = deriveRow L istanbul a w d2 [] level \<and>
    deriveRow L istanbul a w d1 [] level =
      deriveRow L istanbul a w (whole_history istanbul (history_of db s) a \<lparr>wm_level = level, wm_explicit = False\<rparr> [w]) [] level"
proof -
  let ?m = "\<lparr>wm_level = level, wm_explicit = False\<rparr>"
  have same: "whole_history istanbul H a ?m bs = whole_history istanbul H a ?m bs'" for H bs bs'
    by (simp add: whole_history_def resolve_at_def)
  show ?thesis
    using stored.deriveRow_whole [OF assms(1,3,5), of L a] stored.deriveRow_whole [OF assms(2,4,6), of L a]
      same [of "history_of db s" bs1 "[w]"] same [of "history_of db s" bs2 "[w]"] by simp
qed

definition evidence_row :: "int \<Rightarrow> dec \<Rightarrow> reading_row" where
  "evidence_row h v = (h * 3600000000, sample_row 7 (h * hour) v)"

definition evidence_db :: readings_db where
  "evidence_db = (sample_db [])\<lparr>db_readings := [evidence_row 23 100, evidence_row 47 130, evidence_row 72 170]\<rparr>"

definition utc_day :: "int \<Rightarrow> window" where
  "utc_day n = \<lparr>From = n * (24 * hour), To = (n + 1) * (24 * hour)\<rparr>"

theorem request_independence_witness:
  "let m = \<lparr>wm_level = Daily, wm_explicit = False\<rparr>;
       load = loadAnalyzerBoundaryData (fixed_zone 0) (repo_of evidence_db (SystemScope 100)) 7 m
   in case (load [utc_day 1], load [utc_day 0, utc_day 1, utc_day 2]) of
        (Inr d1, Inr d2) \<Rightarrow> deriveRow std_declib (fixed_zone 0) 7 (utc_day 1) d1 [] Daily = deriveRow std_declib (fixed_zone 0) 7 (utc_day 1) d2 [] Daily
      | _ \<Rightarrow> False"
proof -
  let ?m = "\<lparr>wm_level = Daily, wm_explicit = False\<rparr>"
  let ?load = "loadAnalyzerBoundaryData (fixed_zone 0) (repo_of evidence_db (SystemScope 100)) 7 ?m"
  have ok: "isl (?load [utc_day 1]) = False" "isl (?load [utc_day 0, utc_day 1, utc_day 2]) = False" by code_simp+
  then obtain d1 d2 where d: "?load [utc_day 1] = Inr d1" "?load [utc_day 0, utc_day 1, utc_day 2] = Inr d2"
    by (metis isl_def sum.exhaust)
  have run: "bucket_run [utc_day 1]" "bucket_run [utc_day 0, utc_day 1, utc_day 2]"
    by (simp_all add: bucket_run_def utc_day_def Valid_def hour_def ns_per_sec_def)
  show ?thesis unfolding Let_def d using request_independence [OF d run, of "utc_day 1" std_declib] by simp
qed

end
