(* ===== verification/Go_Json.thy ===== *)
theory Go_Json
  imports Go_Text
begin

text \<open>
  What the program uses of \<open>encoding/json\<close>. A \<open>json.RawMessage\<close> that comes from or goes to a \<open>jsonb\<close> column
  is the document it holds (\<open>None\<close> for no bytes); the text between document and bytes is not part of the model. \<open>Unmarshal\<close> into
  a struct matches object keys to field names up to case folding, leaves a field alone on null, and fails on a value of another
  type.
\<close>

datatype json =
    JNull | JBool bool | JNumber rat | JString string | JArray "json list" | JObject "(string \<times> json) list"

type_synonym raw_message = "json option"

text \<open>Case folding against the ASCII names of the fields: besides the upper-case letters, the long s and the Kelvin sign
  fold to an ASCII letter.\<close>

definition lower_char :: "char \<Rightarrow> char" where
  "lower_char c = (let n = of_char c :: nat in if 65 \<le> n \<and> n \<le> 90 then char_of (n + 32) else c)"

fun fold_name :: "string \<Rightarrow> string" where
  "fold_name (a # b # c # s) =
     (if (of_char a :: nat) = 197 \<and> (of_char b :: nat) = 191 then CHR ''s'' # fold_name (c # s)
      else if (of_char a :: nat) = 226 \<and> (of_char b :: nat) = 132 \<and> (of_char c :: nat) = 170 then CHR ''k'' # fold_name s
      else lower_char a # fold_name (b # c # s))"
| "fold_name (a # b # s) =
     (if (of_char a :: nat) = 197 \<and> (of_char b :: nat) = 191 then CHR ''s'' # fold_name s
      else lower_char a # fold_name (b # s))"
| "fold_name (a # s) = lower_char a # fold_name s"
| "fold_name [] = []"

definition field_values :: "string \<Rightarrow> (string \<times> json) list \<Rightarrow> json list" where
  "field_values name kvs = map snd (filter (\<lambda>(k, v). fold_name k = name) kvs)"

fun string_or_null :: "json \<Rightarrow> bool" where
  "string_or_null (JString s) = True"
| "string_or_null JNull = True"
| "string_or_null _ = False"

text \<open>The value of a string field after all its occurrences: the last string, or the zero value.\<close>

definition string_field :: "string \<Rightarrow> (string \<times> json) list \<Rightarrow> string" where
  "string_field name kvs =
     fold (\<lambda>v old. case v of JString s \<Rightarrow> s | _ \<Rightarrow> old) (field_values name kvs) []"

text \<open>A struct with the given string fields and no others that are decoded.\<close>

definition unmarshal_strings :: "string list \<Rightarrow> raw_message \<Rightarrow> (string \<Rightarrow> string) option" where
  "unmarshal_strings names raw =
     (case raw of
        Some JNull \<Rightarrow> Some (\<lambda>_. [])
      | Some (JObject kvs) \<Rightarrow>
          if list_all (\<lambda>n. list_all string_or_null (field_values n kvs)) names
          then Some (\<lambda>n. if n \<in> set names then string_field n kvs else [])
          else None
      | _ \<Rightarrow> None)"

text \<open>\<open>map[string]string\<close>: a null element is the empty string, a later key replaces an earlier one.\<close>

definition unmarshal_string_map :: "raw_message \<Rightarrow> (string \<times> string) list option" where
  "unmarshal_string_map raw =
     (case raw of
        Some JNull \<Rightarrow> Some []
      | Some (JObject kvs) \<Rightarrow>
          if list_all (\<lambda>(k, v). string_or_null v) kvs
          then Some (map (\<lambda>(k, v). (k, case v of JString s \<Rightarrow> s | _ \<Rightarrow> [])) kvs)
          else None
      | _ \<Rightarrow> None)"

end
