(* ===== verification/Anomalies_Store.thy ===== *)
theory Anomalies_Store
  imports Readings_Store Go_Json
begin

text \<open>
  The tables \<open>consumption_anomalies\<close> and \<open>operational_messages\<close> behind their repositories
  (\<open>internal/store/postgres/anomalies.go\<close>, the message part of \<open>ops.go\<close>) and the generated queries these run. An
  anomaly has no company of its own, so every query joins it to its analyzer and puts the tenant scope there. The generated
  identifiers and the clock of the database are arguments of the writes.
\<close>

section \<open>Rows\<close>

record consumption_anomaly =
  ca_ID :: uuid
  ca_AnalyzerID :: uuid
  ca_PeriodStart :: time
  ca_PeriodEnd :: time
  ca_Reason :: string
  ca_Detail :: raw_message
  ca_ResolvedAt :: "time option"
  ca_ResolvedBy :: "uuid option"
  ca_Resolution :: "string option"
  ca_OverrideValues :: raw_message
  ca_CreatedAt :: time

record operational_message =
  om_ID :: int
  om_CompanyID :: "uuid option"
  om_Kind :: string
  om_Category :: string
  om_Status :: string
  om_Message :: string
  om_Detail :: "string option"
  om_RelatedType :: "string option"
  om_RelatedID :: "uuid option"
  om_Metadata :: raw_message
  om_CreatedAt :: time

record user_row =
  ur_id :: uuid
  ur_company_id :: uuid
  ur_deleted_at :: "time option"

record consumption_db =
  cd_readings :: readings_db
  cd_anomalies :: "consumption_anomaly list"
  cd_users :: "user_row list"
  cd_messages :: "operational_message list"

text \<open>An instant as its column keeps it: whole microseconds.\<close>

definition stored_ts :: "time \<Rightarrow> time" where
  "stored_ts t = timestamptz t * 1000"

record page =
  pg_Limit :: int
  pg_Offset :: int

record anomaly_filter =
  af_AnalyzerIDs :: "uuid list"
  af_Unresolved :: bool
  af_Reason :: "string option"
  af_Range :: "time_range option"
  af_Page :: page

section \<open>Anomalies\<close>

definition anomaly_in_scope :: "consumption_db \<Rightarrow> uuid \<Rightarrow> bool \<Rightarrow> uuid list \<Rightarrow> consumption_anomaly \<Rightarrow> bool" where
  "anomaly_in_scope db company all_buildings ids an = ReadingAnalyzerVisible (cd_readings db) (ca_AnalyzerID an) company all_buildings ids"

definition AnomalyGet :: "consumption_db \<Rightarrow> uuid \<Rightarrow> uuid \<Rightarrow> bool \<Rightarrow> uuid list \<Rightarrow> consumption_anomaly option" where
  "AnomalyGet db i company all_buildings ids =
     List.find (\<lambda>an. ca_ID an = i \<and> anomaly_in_scope db company all_buildings ids an) (cd_anomalies db)"

text \<open>The \<open>where\<close> clause, the order and the page of \<open>AnomalyList\<close>; a NULL bound of the range is absent.\<close>

definition anomaly_matches :: "uuid list \<Rightarrow> bool \<Rightarrow> string option \<Rightarrow> int option \<Rightarrow> int option \<Rightarrow> consumption_anomaly \<Rightarrow> bool" where
  "anomaly_matches analyzers unresolved reason from_ts to_ts an \<longleftrightarrow>
     (analyzers = [] \<or> ca_AnalyzerID an \<in> set analyzers) \<and>
     (\<not> unresolved \<or> ca_ResolvedAt an = None) \<and>
     (case reason of None \<Rightarrow> True | Some r \<Rightarrow> ca_Reason an = r) \<and>
     (case from_ts of None \<Rightarrow> True | Some t \<Rightarrow> t \<le> timestamptz (ca_PeriodStart an)) \<and>
     (case to_ts of None \<Rightarrow> True | Some t \<Rightarrow> timestamptz (ca_PeriodStart an) < t)"

definition anomalies_matching ::
  "consumption_db \<Rightarrow> uuid \<Rightarrow> bool \<Rightarrow> uuid list \<Rightarrow> uuid list \<Rightarrow> bool \<Rightarrow> string option \<Rightarrow> int option \<Rightarrow> int option \<Rightarrow>
   consumption_anomaly list" where
  "anomalies_matching db company all_buildings ids analyzers unresolved reason from_ts to_ts =
     sort_key (\<lambda>an. - ca_PeriodStart an) (sort_key ca_ID
       (filter (\<lambda>an. anomaly_in_scope db company all_buildings ids an \<and>
          anomaly_matches analyzers unresolved reason from_ts to_ts an) (cd_anomalies db)))"

definition AnomalyList ::
  "consumption_db \<Rightarrow> uuid \<Rightarrow> bool \<Rightarrow> uuid list \<Rightarrow> uuid list \<Rightarrow> bool \<Rightarrow> string option \<Rightarrow> int option \<Rightarrow> int option \<Rightarrow> int \<Rightarrow> int \<Rightarrow>
   consumption_anomaly list" where
  "AnomalyList db company all_buildings ids analyzers unresolved reason from_ts to_ts page_limit page_offset =
     take (nat page_limit) (drop (nat page_offset)
       (anomalies_matching db company all_buildings ids analyzers unresolved reason from_ts to_ts))"

definition Get_anomaly :: "consumption_db \<Rightarrow> scope \<Rightarrow> uuid \<Rightarrow> store_error + consumption_anomaly" where
  "Get_anomaly db s i =
     (if \<not> Valid_scope s then Inl ErrInvalidScope
      else case BuildingFilter s of (ids, all_buildings) \<Rightarrow>
        (case AnomalyGet db i (sc_CompanyID s) all_buildings ids of None \<Rightarrow> Inl ErrNotFound | Some an \<Rightarrow> Inr an))"

definition anomalyDefaultPageLimit :: int where "anomalyDefaultPageLimit = 100"
definition anomalyMaxPageLimit :: int where "anomalyMaxPageLimit = 1000"

text \<open>A negative offset is an error of the database.\<close>

definition List_anomalies :: "consumption_db \<Rightarrow> scope \<Rightarrow> anomaly_filter \<Rightarrow> store_error + consumption_anomaly list" where
  "List_anomalies db s f =
     (if \<not> Valid_scope s then Inl ErrInvalidScope
      else if (case af_Range f of None \<Rightarrow> False | Some r \<Rightarrow> \<not> Valid_range r) then Inl ErrInvalidRange
      else case BuildingFilter s of (ids, all_buildings) \<Rightarrow>
        let from_ts = map_option (\<lambda>r. timestamptz (tr_From r)) (af_Range f);
            to_ts = map_option (\<lambda>r. timestamptz (tr_To r)) (af_Range f);
            limit = pg_Limit (af_Page f);
            limit = (if limit \<le> 0 then anomalyDefaultPageLimit else limit);
            limit = (if limit > anomalyMaxPageLimit then anomalyMaxPageLimit else limit)
        in if pg_Offset (af_Page f) < 0 then Inl ErrDatabase
           else Inr (AnomalyList db (sc_CompanyID s) all_buildings ids (af_AnalyzerIDs f) (af_Unresolved f) (af_Reason f)
             from_ts to_ts limit (pg_Offset (af_Page f))))"

definition Create_anomaly ::
  "uuid \<Rightarrow> time \<Rightarrow> consumption_db \<Rightarrow> scope \<Rightarrow> consumption_anomaly \<Rightarrow> (store_error + consumption_anomaly) \<times> consumption_db" where
  "Create_anomaly new_id now db s a =
     (if \<not> Valid_scope s then (Inl ErrInvalidScope, db)
      else case BuildingFilter s of (ids, all_buildings) \<Rightarrow>
        if \<not> ReadingAnalyzerVisible (cd_readings db) (ca_AnalyzerID a) (sc_CompanyID s) all_buildings ids then (Inl ErrNotFound, db)
        else
          let row = \<lparr>ca_ID = new_id, ca_AnalyzerID = ca_AnalyzerID a, ca_PeriodStart = stored_ts (ca_PeriodStart a),
                     ca_PeriodEnd = stored_ts (ca_PeriodEnd a), ca_Reason = ca_Reason a, ca_Detail = ca_Detail a,
                     ca_ResolvedAt = None, ca_ResolvedBy = None, ca_Resolution = None, ca_OverrideValues = None,
                     ca_CreatedAt = stored_ts now\<rparr>
          in (Inr row, db\<lparr>cd_anomalies := cd_anomalies db @ [row]\<rparr>))"

definition AnomalyResolve ::
  "consumption_db \<Rightarrow> time \<Rightarrow> uuid \<Rightarrow> string \<Rightarrow> raw_message \<Rightarrow> uuid \<Rightarrow> uuid \<Rightarrow> bool \<Rightarrow> uuid list \<Rightarrow> consumption_anomaly option \<times> consumption_db" where
  "AnomalyResolve db ts resolved_by resolution overrides i company all_buildings ids =
     (let hit = (\<lambda>an. ca_ID an = i \<and> anomaly_in_scope db company all_buildings ids an \<and>
                   list_ex (\<lambda>u. ur_id u = resolved_by \<and> ur_company_id u = company \<and> ur_deleted_at u = None) (cd_users db));
          upd = (\<lambda>an. an\<lparr>ca_ResolvedAt := Some (stored_ts ts), ca_ResolvedBy := Some resolved_by,
                   ca_Resolution := Some resolution, ca_OverrideValues := overrides\<rparr>)
      in (map_option upd (List.find hit (cd_anomalies db)),
          db\<lparr>cd_anomalies := map (\<lambda>an. if hit an then upd an else an) (cd_anomalies db)\<rparr>))"

definition Resolve_anomaly ::
  "consumption_db \<Rightarrow> scope \<Rightarrow> uuid \<Rightarrow> uuid \<Rightarrow> string \<Rightarrow> raw_message \<Rightarrow> time \<Rightarrow> (store_error + consumption_anomaly) \<times> consumption_db" where
  "Resolve_anomaly db s i resolved_by resolution overrides ts =
     (if \<not> Valid_scope s then (Inl ErrInvalidScope, db)
      else case BuildingFilter s of (ids, all_buildings) \<Rightarrow>
        (case AnomalyResolve db ts resolved_by resolution overrides i (sc_CompanyID s) all_buildings ids of
           (None, db') \<Rightarrow> (Inl ErrNotFound, db')
         | (Some an, db') \<Rightarrow> (Inr an, db')))"

section \<open>Operational messages\<close>

record message_filter =
  mf_Kinds :: "string list"
  mf_Categories :: "string list"
  mf_Statuses :: "string list"
  mf_RelatedType :: "string option"
  mf_RelatedID :: "uuid option"
  mf_Q :: string
  mf_Range :: "time_range option"
  mf_Page :: page

definition any_message :: message_filter where
  "any_message = \<lparr>mf_Kinds = [], mf_Categories = [], mf_Statuses = [], mf_RelatedType = None, mf_RelatedID = None, mf_Q = [],
     mf_Range = None, mf_Page = \<lparr>pg_Limit = 0, pg_Offset = 0\<rparr>\<rparr>"

definition opsListDefaultLimit :: int where "opsListDefaultLimit = 100"
definition opsListMaxLimit :: int where "opsListMaxLimit = 1000"

definition opsPageBounds :: "page \<Rightarrow> int \<times> int" where
  "opsPageBounds p =
     (let limit = pg_Limit p;
          limit = (if limit \<le> 0 then opsListDefaultLimit else limit);
          limit = (if limit > opsListMaxLimit then opsListMaxLimit else limit);
          offset = (if pg_Offset p < 0 then 0 else pg_Offset p)
      in (limit, offset))"

definition AppendMessage ::
  "int \<Rightarrow> time \<Rightarrow> consumption_db \<Rightarrow> scope \<Rightarrow> operational_message \<Rightarrow> (store_error + operational_message) \<times> consumption_db" where
  "AppendMessage new_id now db s m =
     (if \<not> Valid_scope s then (Inl ErrInvalidScope, db)
      else if om_CompanyID m \<noteq> Some (sc_CompanyID s) then (Inl ErrNotFound, db)
      else let row = m\<lparr>om_ID := new_id, om_CreatedAt := stored_ts now\<rparr>
           in (Inr row, db\<lparr>cd_messages := cd_messages db @ [row]\<rparr>))"

text \<open>\<open>lower\<close> is the collation's lower-casing in the database.\<close>

definition message_matches :: "(string \<Rightarrow> string) \<Rightarrow> uuid \<Rightarrow> message_filter \<Rightarrow> operational_message \<Rightarrow> bool" where
  "message_matches lower company f m \<longleftrightarrow>
     om_CompanyID m = Some company \<and>
     (mf_Kinds f = [] \<or> om_Kind m \<in> set (mf_Kinds f)) \<and>
     (mf_Categories f = [] \<or> om_Category m \<in> set (mf_Categories f)) \<and>
     (mf_Statuses f = [] \<or> om_Status m \<in> set (mf_Statuses f)) \<and>
     (case mf_RelatedType f of None \<Rightarrow> True | Some t \<Rightarrow> om_RelatedType m = Some t) \<and>
     (case mf_RelatedID f of None \<Rightarrow> True | Some i \<Rightarrow> om_RelatedID m = Some i) \<and>
     (case mf_Range f of None \<Rightarrow> True
      | Some r \<Rightarrow> timestamptz (tr_From r) \<le> timestamptz (om_CreatedAt m) \<and> timestamptz (om_CreatedAt m) < timestamptz (tr_To r)) \<and>
     (mf_Q f = [] \<or> str_contains (lower (mf_Q f)) (lower (om_Message m)) \<or>
      str_contains (lower (mf_Q f)) (lower (case om_Detail m of None \<Rightarrow> [] | Some d \<Rightarrow> d)))"

definition OpsListMessages :: "(string \<Rightarrow> string) \<Rightarrow> consumption_db \<Rightarrow> uuid \<Rightarrow> message_filter \<Rightarrow> int \<Rightarrow> int \<Rightarrow> operational_message list" where
  "OpsListMessages lower db company f offset limit =
     take (nat limit) (drop (nat offset)
       (sort_key (\<lambda>m. - om_CreatedAt m) (sort_key om_ID (filter (message_matches lower company f) (cd_messages db)))))"

definition ListMessages :: "(string \<Rightarrow> string) \<Rightarrow> consumption_db \<Rightarrow> scope \<Rightarrow> message_filter \<Rightarrow> store_error + operational_message list" where
  "ListMessages lower db s f =
     (if \<not> Valid_scope s then Inl ErrInvalidScope
      else if (case mf_Range f of None \<Rightarrow> False | Some r \<Rightarrow> \<not> Valid_range r) then Inl ErrInvalidRange
      else case opsPageBounds (mf_Page f) of (limit, offset) \<Rightarrow> Inr (OpsListMessages lower db (sc_CompanyID s) f offset limit))"

end
