(* ===== verification/Consumption_Rows.thy ===== *)
theory Consumption_Rows
  imports Consumption_Evidence Anomalies_Store
begin

text \<open>
  The public operations of the exact consumption path: the requests and their validation (\<open>doc.go\<close>, \<open>period.go\<close>), the
  loop of \<open>billing.go\<close> over the buckets of an analyzer, which gives rows and gaps, and the application of resolved
  anomalies (\<open>billing.go\<close>, \<open>anomalies.go\<close>). The anomalies come from the tables of \<open>Anomalies_Store\<close>. The loop of
  \<open>listAllAnomalies\<close> ends because a full page is a part of the table. The clock may move between analyzers, so it is a
  function of the position of the analyzer. The order in which a Go map is visited is the argument \<open>visit\<close>.
\<close>

section \<open>Requests\<close>

datatype consumption_error =
    ErrInvalidRequest | ErrConflictRequest | StoreFailed store_error | GapInvariant window | BadOverride | BadDetail
  | LockBusy | LockBroken

record series_request =
  sr_AnalyzerIDs :: "uuid list"
  sr_Level :: level
  sr_Range :: time_range

definition MaxPeriodWindows :: nat where "MaxPeriodWindows = 13"

record period_request =
  pr_AnalyzerIDs :: "uuid list"
  pr_Windows :: "window list"

fun duplicate_id :: "uuid set \<Rightarrow> uuid list \<Rightarrow> bool" where
  "duplicate_id seen [] = False"
| "duplicate_id seen (i # ids) = (if i \<in> seen then True else duplicate_id (insert i seen) ids)"

definition hasDuplicateAnalyzerID :: "uuid list \<Rightarrow> bool" where
  "hasDuplicateAnalyzerID ids = duplicate_id {} ids"

fun validLevel :: "level \<Rightarrow> bool" where
  "validLevel Hourly = True"
| "validLevel Daily = True"
| "validLevel Monthly = True"
| "validLevel Yearly = True"
| "validLevel (LevelOther s) = False"

text \<open>The counting loop of \<open>cellsExceed\<close>, which stops as soon as the cap is passed.\<close>

function cells_walk :: "(time \<Rightarrow> window) \<Rightarrow> window \<Rightarrow> int \<Rightarrow> int \<Rightarrow> int \<Rightarrow> window \<Rightarrow> bool" where
  "cells_walk bucket w analyzerCount mx n cur =
     (if From cur < To w
      then let n = n + 1
           in if mx < n * analyzerCount then True
              else let next = bucket (To cur)
                   in if \<not> From cur < From next then False else cells_walk bucket w analyzerCount mx n next
      else False)"
  by pat_completeness auto
termination
  by (relation "measure (\<lambda>(bucket, w, c, mx, n, cur). nat (To w - From cur))") auto

declare cells_walk.simps [simp del]

definition cellsExceed :: "level \<Rightarrow> window \<Rightarrow> location \<Rightarrow> int \<Rightarrow> int \<Rightarrow> bool" where
  "cellsExceed level w loc analyzerCount mx =
     (if analyzerCount \<le> 0 then False
      else if \<not> Valid w then False
      else let cur = Bucket level (From w) loc
           in if \<not> Valid cur then False
              else cells_walk (\<lambda>ts. Bucket level ts loc) w analyzerCount mx 0 cur)"

definition validateRequest :: "location \<Rightarrow> scope \<Rightarrow> series_request \<Rightarrow> consumption_error option" where
  "validateRequest istanbul s req =
     (if \<not> Valid_scope s then Some ErrInvalidRequest
      else if length (sr_AnalyzerIDs req) = 0 then Some ErrInvalidRequest
      else if length (sr_AnalyzerIDs req) > MaxAnalyzersPerRequest then Some ErrInvalidRequest
      else if hasDuplicateAnalyzerID (sr_AnalyzerIDs req) then Some ErrInvalidRequest
      else if \<not> validLevel (sr_Level req) then Some ErrInvalidRequest
      else if \<not> Valid_range (sr_Range req) then Some ErrInvalidRequest
      else if Sub (tr_To (sr_Range req)) (tr_From (sr_Range req)) > MaxRequestSpan then Some ErrInvalidRequest
      else if cellsExceed (sr_Level req) \<lparr>From = tr_From (sr_Range req), To = tr_To (sr_Range req)\<rparr> istanbul
          (int (length (sr_AnalyzerIDs req))) MaxCells then Some ErrInvalidRequest
      else None)"

definition validPeriodWindow :: "location \<Rightarrow> window \<Rightarrow> consumption_error option" where
  "validPeriodWindow istanbul w =
     (if \<not> Valid w \<or> \<not> isDayStart istanbul (From w) \<or> \<not> isDayStart istanbul (To w) \<or> Sub (To w) (From w) > MaxRequestSpan
      then Some ErrInvalidRequest else None)"

text \<open>The loop over the windows: each is checked, and starts where the one before it ends.\<close>

fun valid_windows :: "location \<Rightarrow> window option \<Rightarrow> window list \<Rightarrow> consumption_error option" where
  "valid_windows istanbul prev [] = None"
| "valid_windows istanbul prev (w # ws) =
     (case validPeriodWindow istanbul w of
        Some e \<Rightarrow> Some e
      | None \<Rightarrow> if (case prev of None \<Rightarrow> False | Some p \<Rightarrow> To p \<noteq> From w) then Some ErrInvalidRequest
                else valid_windows istanbul (Some w) ws)"

definition validatePeriodRequest :: "location \<Rightarrow> scope \<Rightarrow> period_request \<Rightarrow> consumption_error option" where
  "validatePeriodRequest istanbul s req =
     (if \<not> Valid_scope s then Some ErrInvalidRequest
      else if length (pr_AnalyzerIDs req) = 0 \<or> length (pr_AnalyzerIDs req) > MaxAnalyzersPerRequest \<or>
          hasDuplicateAnalyzerID (pr_AnalyzerIDs req) then Some ErrInvalidRequest
      else if length (pr_Windows req) = 0 \<or> length (pr_Windows req) > MaxPeriodWindows then Some ErrInvalidRequest
      else case valid_windows istanbul None (pr_Windows req) of
        Some e \<Rightarrow> Some e
      | None \<Rightarrow>
          if Sub (To (pr_Windows req ! (length (pr_Windows req) - 1))) (From (pr_Windows req ! 0)) > MaxRequestSpan
          then Some ErrInvalidRequest
          else if int (length (pr_AnalyzerIDs req) * length (pr_Windows req)) > MaxCells then Some ErrInvalidRequest
          else None)"

section \<open>What an anomaly says\<close>

fun register_string :: "register \<Rightarrow> string" where
  "register_string ActiveImport = ''active_import''"
| "register_string ReactiveInductiveImport = ''reactive_inductive_import''"
| "register_string ReactiveCapacitiveImport = ''reactive_capacitive_import''"
| "register_string T1Import = ''t1_import''"
| "register_string T2Import = ''t2_import''"
| "register_string T3Import = ''t3_import''"
| "register_string ActiveExport = ''active_export''"
| "register_string ReactiveInductiveExport = ''reactive_inductive_export''"
| "register_string ReactiveCapacitiveExport = ''reactive_capacitive_export''"
| "register_string T1Export = ''t1_export''"
| "register_string T2Export = ''t2_export''"
| "register_string T3Export = ''t3_export''"

fun reason_string :: "reason \<Rightarrow> string" where
  "reason_string ReasonNegativeDelta = ''negative_delta''"
| "reason_string ReasonMeterReset = ''meter_reset''"
| "reason_string ReasonMissingReadings = ''missing_readings''"

datatype resolution_mode = ResolveByRegisteringReset | ResolveByOverride | ResolveByAccepting | ResolutionOther string

fun mode_string :: "resolution_mode \<Rightarrow> string" where
  "mode_string ResolveByRegisteringReset = ''reset_registered''"
| "mode_string ResolveByOverride = ''manual_override''"
| "mode_string ResolveByAccepting = ''accepted''"
| "mode_string (ResolutionOther s) = s"

definition anomalyDetailCode :: string where "anomalyDetailCode = ''consumption.suspect_period''"

definition hasSuspectPeriodCode :: "raw_message \<Rightarrow> bool" where
  "hasSuspectPeriodCode detail =
     (case unmarshal_strings [''code''] detail of None \<Rightarrow> False | Some d \<Rightarrow> d ''code'' = anomalyDetailCode)"

text \<open>Decoding of the struct \<open>anomalyDetail\<close>: every field must have its type; the keys of \<open>registers\<close> after all its
  occurrences, where a null empties the map.\<close>

fun register_detail_ok :: "json \<Rightarrow> bool" where
  "register_detail_ok JNull = True"
| "register_detail_ok (JObject kvs) =
     (list_all string_or_null (field_values ''reason'' kvs) \<and> list_all string_or_null (field_values ''delta'' kvs) \<and>
      list_all (\<lambda>v. case v of JNull \<Rightarrow> True | JNumber r \<Rightarrow> r \<in> \<int> \<and> \<bar>r\<bar> < 2 ^ 63 | _ \<Rightarrow> False) (field_values ''reset_rows'' kvs))"
| "register_detail_ok _ = False"

fun registers_ok :: "json \<Rightarrow> bool" where
  "registers_ok JNull = True"
| "registers_ok (JObject kvs) = list_all (\<lambda>(k, v). register_detail_ok v) kvs"
| "registers_ok _ = False"

fun boundaries_ok :: "json \<Rightarrow> bool" where
  "boundaries_ok JNull = True"
| "boundaries_ok (JArray vs) = list_all string_or_null vs"
| "boundaries_ok _ = False"

fun registers_add :: "json \<Rightarrow> string list \<Rightarrow> string list" where
  "registers_add (JObject kvs) ks = ks @ map fst kvs"
| "registers_add _ ks = []"

definition suspectRegistersFromDetail :: "raw_message \<Rightarrow> string list option" where
  "suspectRegistersFromDetail detail =
     (case detail of
        Some JNull \<Rightarrow> Some []
      | Some (JObject kvs) \<Rightarrow>
          if list_all (\<lambda>n. list_all string_or_null (field_values n kvs)) [''code'', ''period_start'', ''period_end''] \<and>
             list_all registers_ok (field_values ''registers'' kvs) \<and> list_all boundaries_ok (field_values ''boundaries'' kvs)
          then Some (fold registers_add (field_values ''registers'' kvs) []) else None
      | _ \<Rightarrow> None)"

text \<open>The override map: for each register, the last value under its name. A key that names none of the twelve
  registers has its number checked and is then out of sight, since every reader goes over the registers.\<close>

definition decodeOverrideValues :: "(string \<Rightarrow> dec option) \<Rightarrow> raw_message \<Rightarrow> (register \<rightharpoonup> dec) option" where
  "decodeOverrideValues NewFromString raw =
     (case raw of
        None \<Rightarrow> Some Map.empty
      | Some j \<Rightarrow>
          (case unmarshal_string_map (Some j) of
             None \<Rightarrow> None
           | Some m \<Rightarrow>
               let kvs = rev m
               in if list_all (\<lambda>k. NewFromString (the (map_of kvs k)) \<noteq> None) (map fst kvs)
                  then Some (\<lambda>reg. Option.bind (map_of kvs (register_string reg)) NewFromString)
                  else None))"

section \<open>Listing every anomaly\<close>

definition anomalyPageSize :: int where "anomalyPageSize = 500"

lemma AnomalyList_length:
  "length (AnomalyList db c ab ids ans u r f t limit off) \<le> length (cd_anomalies db) - nat off"
  by (simp add: AnomalyList_def anomalies_matching_def min.coboundedI1 diff_le_mono)

lemma List_anomalies_page:
  assumes "List_anomalies db s (f\<lparr>af_Page := \<lparr>pg_Limit = anomalyPageSize, pg_Offset = off\<rparr>\<rparr>) = Inr page"
  shows "length page \<le> length (cd_anomalies db) - nat off" and "0 \<le> off"
  using assms AnomalyList_length by (auto simp: List_anomalies_def Let_def anomalyPageSize_def split: if_splits prod.splits)

function (sequential) list_pages ::
  "consumption_db \<Rightarrow> scope \<Rightarrow> anomaly_filter \<Rightarrow> int \<Rightarrow> consumption_anomaly list \<Rightarrow> store_error + consumption_anomaly list" where
  "list_pages db s f offset out =
     (case List_anomalies db s (f\<lparr>af_Page := \<lparr>pg_Limit = anomalyPageSize, pg_Offset = offset\<rparr>\<rparr>) of
        Inl e \<Rightarrow> Inl e
      | Inr page \<Rightarrow>
          if int (length page) < anomalyPageSize then Inr (out @ page)
          else list_pages db s f (offset + anomalyPageSize) (out @ page))"
  by pat_completeness auto
termination
proof (relation "measure (\<lambda>(db, s, f, offset, out). length (cd_anomalies db) - nat offset)", goal_cases)
  case (2 db s f offset out page)
  from List_anomalies_page [OF 2(1)] 2(2) show ?case by (simp add: anomalyPageSize_def)
qed simp

declare list_pages.simps [simp del]

definition listAllAnomalies ::
  "consumption_db \<Rightarrow> scope \<Rightarrow> anomaly_filter \<Rightarrow> store_error + consumption_anomaly list" where
  "listAllAnomalies db s f = list_pages db s f (pg_Offset (af_Page f)) []"

text \<open>Every anomaly a filter matches in the scope, in the order of the query.\<close>

definition all_matching :: "consumption_db \<Rightarrow> scope \<Rightarrow> anomaly_filter \<Rightarrow> consumption_anomaly list" where
  "all_matching db s f =
     (case BuildingFilter s of (ids, all_buildings) \<Rightarrow>
        anomalies_matching db (sc_CompanyID s) all_buildings ids (af_AnalyzerIDs f) (af_Unresolved f) (af_Reason f)
          (map_option (\<lambda>r. timestamptz (tr_From r)) (af_Range f)) (map_option (\<lambda>r. timestamptz (tr_To r)) (af_Range f)))"

lemma List_page:
  assumes "Valid_scope s" and "case af_Range f of None \<Rightarrow> True | Some r \<Rightarrow> Valid_range r" and "0 \<le> off"
  shows "List_anomalies db s (f\<lparr>af_Page := \<lparr>pg_Limit = anomalyPageSize, pg_Offset = off\<rparr>\<rparr>) =
    Inr (take 500 (drop (nat off) (all_matching db s f)))"
  using assms
  by (auto simp: List_anomalies_def Let_def anomalyPageSize_def anomalyMaxPageLimit_def AnomalyList_def all_matching_def
      split: option.splits prod.splits)

lemma list_pages_all:
  assumes "Valid_scope s" and "case af_Range f of None \<Rightarrow> True | Some r \<Rightarrow> Valid_range r" and "0 \<le> off"
  shows "list_pages db s f off out = Inr (out @ drop (nat off) (all_matching db s f))"
  using assms(3)
proof (induction "length (all_matching db s f) - nat off" arbitrary: off out rule: less_induct)
  case less
  note page = List_page [OF assms(1,2) less.prems, of db]
  show ?case
  proof (cases "length (drop (nat off) (all_matching db s f)) < 500")
    case True
    then show ?thesis by (subst list_pages.simps, subst page) (simp add: anomalyPageSize_def)
  next
    case False
    have nat: "nat (off + 500) = nat off + 500" using less.prems by simp
    have "length (all_matching db s f) - nat (off + 500) < length (all_matching db s f) - nat off"
      using False unfolding nat by simp
    note IH = less.hyps [OF this, of "out @ take 500 (drop (nat off) (all_matching db s f))"]
    have "take 500 (drop (nat off) (all_matching db s f)) @ drop (nat off + 500) (all_matching db s f) =
        drop (nat off) (all_matching db s f)"
      by (metis add.commute append_take_drop_id drop_drop)
    then show ?thesis
      using False less.prems IH by (subst list_pages.simps, subst page) (simp add: anomalyPageSize_def nat)
  qed
qed

section \<open>One bucket or a gap (billing.go)\<close>

definition closedBucket :: "window \<Rightarrow> time \<Rightarrow> level \<Rightarrow> bool" where
  "closedBucket w now level \<longleftrightarrow> \<not> now < To w + SettleDelay level"

record bucket_gap =
  bg_Window :: window
  bg_Boundaries :: "string list"

definition classifyGap :: "window \<Rightarrow> (time \<rightharpoonup> reading option) \<Rightarrow> consumption_error + string list" where
  "classifyGap w resolved =
     (case (resolved_at resolved (From w), resolved_at resolved (To w)) of
        (None, None) \<Rightarrow> Inr [''start'', ''end'']
      | (None, Some e) \<Rightarrow> Inr [''start'']
      | (Some s, None) \<Rightarrow> Inr [''end'']
      | (Some s, Some e) \<Rightarrow> if TS s = TS e then Inr [''end''] else Inl (GapInvariant w))"

definition earliest_of :: "reading list \<Rightarrow> time option \<Rightarrow> time option" where
  "earliest_of readings earliest =
     (case readings of
        [] \<Rightarrow> earliest
      | r # _ \<Rightarrow> (case earliest of None \<Rightarrow> Some (TS r) | Some e \<Rightarrow> if TS r < e then Some (TS r) else Some e))"

definition earliestBoundaryReading :: "boundary_data \<Rightarrow> time option" where
  "earliestBoundaryReading data =
     (let e = earliest_of (bd_loadProfile data) None;
          e = (if bd_useBilling data then earliest_of (bd_billing data) e else e)
      in if bd_useDaily data then earliest_of (bd_daily data) e else e)"

text \<open>The body of the loop over the buckets of an analyzer.\<close>

definition bucket_step ::
  "declib \<Rightarrow> location \<Rightarrow> uuid \<Rightarrow> boundary_data \<Rightarrow> level \<Rightarrow> time \<Rightarrow> bool \<Rightarrow> time option \<Rightarrow> window \<Rightarrow>
   consumption_row list \<times> bucket_gap list \<Rightarrow> consumption_error + (consumption_row list \<times> bucket_gap list)" where
  "bucket_step L istanbul analyzer data level now anyReadings earliest w acc =
     (case acc of (rows, gaps) \<Rightarrow>
        if \<not> closedBucket w now level then Inr (rows, gaps)
        else case deriveRow L istanbul analyzer w data [] level of
          Some row \<Rightarrow> Inr (rows @ [row], gaps)
        | None \<Rightarrow>
            if \<not> anyReadings then Inr (rows, gaps)
            else if level = Hourly then Inr (rows, gaps)
            else if (case earliest of None \<Rightarrow> False | Some e \<Rightarrow> \<not> e < To w) then Inr (rows, gaps)
            else and_then (classifyGap w (bd_resolved data)) (\<lambda>boundaries.
              Inr (rows, gaps @ [\<lparr>bg_Window = w, bg_Boundaries = boundaries\<rparr>])))"

fun bucket_loop ::
  "declib \<Rightarrow> location \<Rightarrow> uuid \<Rightarrow> boundary_data \<Rightarrow> level \<Rightarrow> time \<Rightarrow> bool \<Rightarrow> time option \<Rightarrow> window list \<Rightarrow>
   consumption_row list \<times> bucket_gap list \<Rightarrow> consumption_error + (consumption_row list \<times> bucket_gap list)" where
  "bucket_loop L istanbul analyzer data level now anyReadings earliest [] acc = Inr acc"
| "bucket_loop L istanbul analyzer data level now anyReadings earliest (w # ws) acc =
     and_then (bucket_step L istanbul analyzer data level now anyReadings earliest w acc)
       (bucket_loop L istanbul analyzer data level now anyReadings earliest ws)"

definition any_readings :: "boundary_data \<Rightarrow> bool" where
  "any_readings data \<longleftrightarrow>
     bd_hasPriorReading data \<or> length (bd_loadProfile data) > 0 \<or> (bd_useBilling data \<and> length (bd_billing data) > 0) \<or>
     (bd_useDaily data \<and> length (bd_daily data) > 0)"

section \<open>Gaps an operator has filled\<close>

definition store_result :: "store_error + 'a \<Rightarrow> consumption_error + 'a" where
  "store_result r = (case r of Inl e \<Rightarrow> Inl (StoreFailed e) | Inr a \<Rightarrow> Inr a)"

definition any_anomaly :: anomaly_filter where
  "any_anomaly = \<lparr>af_AnalyzerIDs = [], af_Unresolved = False, af_Reason = None, af_Range = None,
     af_Page = \<lparr>pg_Limit = 0, pg_Offset = 0\<rparr>\<rparr>"

definition override_of :: "consumption_anomaly list \<Rightarrow> window \<Rightarrow> consumption_anomaly option" where
  "override_of anomalies w =
     fold (\<lambda>a found.
         if ca_ResolvedAt a = None \<or> ca_Resolution a \<noteq> Some (mode_string ResolveByOverride) then found
         else if ca_PeriodStart a = From w \<and> ca_PeriodEnd a = To w then Some a else found)
       anomalies None"

definition override_row ::
  "declib \<Rightarrow> location \<Rightarrow> uuid \<Rightarrow> level \<Rightarrow> boundary_data \<Rightarrow> window \<Rightarrow> (register \<rightharpoonup> dec) \<Rightarrow> consumption_row" where
  "override_row L istanbul analyzer level data w overrides =
     (let start = resolved_at (bd_resolved data) (From w);
          stop = resolved_at (bd_resolved data) (To w);
          values = (\<lambda>reg. map_option Some (overrides reg));
          row = no_consumption_row\<lparr>cr_AnalyzerID := analyzer, cr_Window := w, cr_Values := Some values,
                  cr_MaxDemandKw := maxDemandIn istanbul data level w,
                  cr_Resolution := Some (\<lambda>reg. map_option (\<lambda>_. mode_string ResolveByOverride) (overrides reg))\<rparr>;
          row = (case start of None \<Rightarrow> row | Some s \<Rightarrow> row\<lparr>cr_StartIndexes := Some (readingIndexes s)\<rparr>);
          row = (case stop of None \<Rightarrow> row | Some e \<Rightarrow> row\<lparr>cr_Source := Some (Kind e), cr_Indexes := Some (readingIndexes e)\<rparr>)
      in row\<lparr>cr_InductiveRatio := Ratio L (overrides ReactiveInductiveImport) (overrides ActiveImport),
             cr_CapacitiveRatio := Ratio L (overrides ReactiveCapacitiveImport) (overrides ActiveImport)\<rparr>)"

fun override_gaps ::
  "declib \<Rightarrow> (string \<Rightarrow> dec option) \<Rightarrow> location \<Rightarrow> uuid \<Rightarrow> level \<Rightarrow> boundary_data \<Rightarrow> consumption_anomaly list \<Rightarrow> bucket_gap list \<Rightarrow>
   consumption_row list \<times> bucket_gap list \<Rightarrow> consumption_error + (consumption_row list \<times> bucket_gap list)" where
  "override_gaps L NewFromString istanbul analyzer level data anomalies [] acc = Inr acc"
| "override_gaps L NewFromString istanbul analyzer level data anomalies (g # gs) (rows, remaining) =
     (case override_of anomalies (bg_Window g) of
        None \<Rightarrow> override_gaps L NewFromString istanbul analyzer level data anomalies gs (rows, remaining @ [g])
      | Some a \<Rightarrow>
          (case decodeOverrideValues NewFromString (ca_OverrideValues a) of
             None \<Rightarrow> Inl BadOverride
           | Some overrides \<Rightarrow>
               override_gaps L NewFromString istanbul analyzer level data anomalies gs
                 (rows @ [override_row L istanbul analyzer level data (bg_Window g) overrides], remaining)))"

definition widest :: "window list \<Rightarrow> time \<times> time" where
  "widest ws =
     fold (\<lambda>w (from, to). (if From w < from then From w else from, if to < To w then To w else to)) (tl ws)
       (From (hd ws), To (hd ws))"

definition applyResolvedGapOverrides ::
  "declib \<Rightarrow> (string \<Rightarrow> dec option) \<Rightarrow> location \<Rightarrow> consumption_db \<Rightarrow> scope \<Rightarrow> uuid \<Rightarrow> level \<Rightarrow> bucket_gap list \<Rightarrow> boundary_data \<Rightarrow>
   consumption_error + (consumption_row list \<times> bucket_gap list)" where
  "applyResolvedGapOverrides L NewFromString istanbul db s analyzer level gaps data =
     (case widest (map bg_Window gaps) of (from, to) \<Rightarrow>
        and_then (store_result (listAllAnomalies db s (any_anomaly\<lparr>af_AnalyzerIDs := [analyzer],
            af_Reason := Some (reason_string ReasonMissingReadings),
            af_Range := Some \<lparr>tr_From = from, tr_To = to + microsecond\<rparr>\<rparr>))) (\<lambda>anomalies.
        override_gaps L NewFromString istanbul analyzer level data anomalies gaps ([], [])))"

section \<open>The rows of an analyzer\<close>

definition consumptionForAnalyzer ::
  "declib \<Rightarrow> (string \<Rightarrow> dec option) \<Rightarrow> location \<Rightarrow> time \<Rightarrow> consumption_db \<Rightarrow> scope \<Rightarrow> uuid \<Rightarrow> window_mode \<Rightarrow> window list \<Rightarrow>
   consumption_error + (consumption_row list \<times> bucket_gap list)" where
  "consumptionForAnalyzer L NewFromString istanbul now db s analyzer mode buckets =
     (let level = wm_level mode
      in and_then (store_result (loadAnalyzerBoundaryData istanbul (repo_of (cd_readings db) s) analyzer mode buckets)) (\<lambda>data.
      let earliest = (if \<not> bd_hasPriorReading data then earliestBoundaryReading data else None)
      in and_then (bucket_loop L istanbul analyzer data level now (any_readings data) earliest buckets ([], [])) (\<lambda>(rows, gaps).
      if length gaps > 0
      then and_then (applyResolvedGapOverrides L NewFromString istanbul db s analyzer level gaps data) (\<lambda>(overrideRows, remaining).
        Inr (if length overrideRows > 0
             then sort_Slice (\<lambda>a b. From (cr_Window a) < From (cr_Window b)) (rows @ overrideRows) else rows, remaining))
      else Inr (rows, gaps))))"

section \<open>Resolved anomalies of derived rows (anomalies.go)\<close>

definition entry :: "(register \<rightharpoonup> 'a option) option \<Rightarrow> register \<Rightarrow> 'a option" where
  "entry m reg = (case m of None \<Rightarrow> None | Some f \<Rightarrow> Option.bind (f reg) id)"

definition suspect_at :: "(register \<rightharpoonup> suspicion) option \<Rightarrow> register \<Rightarrow> bool" where
  "suspect_at m reg \<longleftrightarrow> (case m of None \<Rightarrow> False | Some f \<Rightarrow> f reg \<noteq> None)"

definition override_registers :: "(register \<rightharpoonup> dec) \<Rightarrow> consumption_row \<Rightarrow> consumption_row" where
  "override_registers overrides row =
     (let values = (case cr_Values row of None \<Rightarrow> Map.empty | Some m \<Rightarrow> m);
          resolution = (case cr_Resolution row of None \<Rightarrow> Map.empty | Some m \<Rightarrow> m)
      in row\<lparr>cr_Values := Some (\<lambda>reg. case overrides reg of Some v \<Rightarrow> Some (Some v) | None \<Rightarrow> values reg),
             cr_Resolution := Some (\<lambda>reg. case overrides reg of Some v \<Rightarrow> Some (mode_string ResolveByOverride) | None \<Rightarrow> resolution reg),
             cr_Suspect := map_option (\<lambda>m reg. if overrides reg = None then m reg else None) (cr_Suspect row)\<rparr>)"

definition accept_registers :: "string list \<Rightarrow> consumption_row \<Rightarrow> consumption_row" where
  "accept_registers names row =
     (let resolution = (case cr_Resolution row of None \<Rightarrow> Map.empty | Some m \<Rightarrow> m);
          hit = (\<lambda>reg. register_string reg \<in> set names \<and> suspect_at (cr_Suspect row) reg)
      in row\<lparr>cr_Values := map_option (\<lambda>m reg. if hit reg then Some None else m reg) (cr_Values row),
             cr_Resolution := Some (\<lambda>reg. if hit reg then Some (mode_string ResolveByAccepting) else resolution reg)\<rparr>)"

definition applyResolvedAnomaly ::
  "(string \<Rightarrow> dec option) \<Rightarrow> consumption_row \<Rightarrow> consumption_anomaly \<Rightarrow> consumption_error + consumption_row" where
  "applyResolvedAnomaly NewFromString row a =
     (case ca_Resolution a of
        None \<Rightarrow> Inr row
      | Some r \<Rightarrow>
          if r = mode_string ResolveByOverride
          then (case decodeOverrideValues NewFromString (ca_OverrideValues a) of
                  None \<Rightarrow> Inl BadOverride | Some overrides \<Rightarrow> Inr (override_registers overrides row))
          else if r = mode_string ResolveByAccepting
          then (case suspectRegistersFromDetail (ca_Detail a) of
                  None \<Rightarrow> Inl BadDetail | Some names \<Rightarrow> Inr (accept_registers names row))
          else Inr row)"

definition recomputeRatios :: "declib \<Rightarrow> consumption_row \<Rightarrow> consumption_row" where
  "recomputeRatios L row =
     (let active = entry (cr_Values row) ActiveImport
      in if suspect_at (cr_Suspect row) ActiveImport then row\<lparr>cr_InductiveRatio := None, cr_CapacitiveRatio := None\<rparr>
         else row\<lparr>cr_InductiveRatio := Ratio L (entry (cr_Values row) ReactiveInductiveImport) active,
                  cr_CapacitiveRatio := Ratio L (entry (cr_Values row) ReactiveCapacitiveImport) active\<rparr>)"

fun apply_matches ::
  "(string \<Rightarrow> dec option) \<Rightarrow> consumption_anomaly list \<Rightarrow> consumption_row \<Rightarrow> consumption_error + consumption_row" where
  "apply_matches NewFromString [] row = Inr row"
| "apply_matches NewFromString (a # as) row = and_then (applyResolvedAnomaly NewFromString row a) (apply_matches NewFromString as)"

definition substitutes :: "consumption_anomaly \<Rightarrow> bool" where
  "substitutes a \<longleftrightarrow> \<not> (ca_ResolvedAt a = None \<or> ca_Resolution a = None \<or> \<not> hasSuspectPeriodCode (ca_Detail a)) \<and>
     ca_Reason a \<noteq> reason_string ReasonMissingReadings"

fun map_rows :: "('a \<Rightarrow> consumption_error + 'a) \<Rightarrow> 'a list \<Rightarrow> consumption_error + 'a list" where
  "map_rows f [] = Inr []"
| "map_rows f (x # xs) = and_then (f x) (\<lambda>y. and_then (map_rows f xs) (\<lambda>ys. Inr (y # ys)))"

text \<open>The rows of one analyzer are resolved in place; rows of the others are passed over.\<close>

definition resolve_row ::
  "declib \<Rightarrow> (string \<Rightarrow> dec option) \<Rightarrow> uuid \<Rightarrow> consumption_anomaly list \<Rightarrow> consumption_row \<Rightarrow> consumption_error + consumption_row" where
  "resolve_row L NewFromString analyzer anomalies row =
     (if cr_AnalyzerID row \<noteq> analyzer then Inr row
      else let matches = filter (\<lambda>a. substitutes a \<and> ca_PeriodStart a = From (cr_Window row) \<and> ca_PeriodEnd a = To (cr_Window row)) anomalies
           in if matches = [] then Inr row
              else and_then (apply_matches NewFromString matches row) (\<lambda>row. Inr (recomputeRatios L row)))"

definition resolve_analyzer ::
  "declib \<Rightarrow> (string \<Rightarrow> dec option) \<Rightarrow> consumption_db \<Rightarrow> scope \<Rightarrow> uuid \<Rightarrow> consumption_row list \<Rightarrow>
   consumption_error + consumption_row list" where
  "resolve_analyzer L NewFromString db s analyzer rows =
     (case widest (map cr_Window (filter (\<lambda>r. cr_AnalyzerID r = analyzer) rows)) of (from, to) \<Rightarrow>
        and_then (store_result (listAllAnomalies db s (any_anomaly\<lparr>af_AnalyzerIDs := [analyzer],
            af_Range := Some \<lparr>tr_From = from, tr_To = to + microsecond\<rparr>\<rparr>))) (\<lambda>anomalies.
        map_rows (resolve_row L NewFromString analyzer anomalies) rows))"

fun resolve_analyzers ::
  "declib \<Rightarrow> (string \<Rightarrow> dec option) \<Rightarrow> consumption_db \<Rightarrow> scope \<Rightarrow> uuid list \<Rightarrow> consumption_row list \<Rightarrow>
   consumption_error + consumption_row list" where
  "resolve_analyzers L NewFromString db s [] rows = Inr rows"
| "resolve_analyzers L NewFromString db s (a # as) rows =
     and_then (resolve_analyzer L NewFromString db s a rows) (resolve_analyzers L NewFromString db s as)"

definition applyResolvedAnomalies ::
  "declib \<Rightarrow> (string \<Rightarrow> dec option) \<Rightarrow> (uuid list \<Rightarrow> uuid list) \<Rightarrow> consumption_db \<Rightarrow> scope \<Rightarrow> consumption_row list \<Rightarrow>
   consumption_error + consumption_row list" where
  "applyResolvedAnomalies L NewFromString visit db s rows =
     (if rows = [] then Inr rows
      else resolve_analyzers L NewFromString db s (visit (remdups (map cr_AnalyzerID rows))) rows)"

section \<open>The public operations\<close>

fun analyzers_loop ::
  "declib \<Rightarrow> (string \<Rightarrow> dec option) \<Rightarrow> location \<Rightarrow> (nat \<Rightarrow> time) \<Rightarrow> consumption_db \<Rightarrow> scope \<Rightarrow> window_mode \<Rightarrow> window list \<Rightarrow>
   nat \<Rightarrow> uuid list \<Rightarrow> consumption_row list \<times> (uuid \<times> bucket_gap list) list \<Rightarrow>
   consumption_error + (consumption_row list \<times> (uuid \<times> bucket_gap list) list)" where
  "analyzers_loop L NewFromString istanbul clock db s mode buckets i [] acc = Inr acc"
| "analyzers_loop L NewFromString istanbul clock db s mode buckets i (a # as) (rows, gapsBy) =
     and_then (consumptionForAnalyzer L NewFromString istanbul (clock i) db s a mode buckets) (\<lambda>(analyzerRows, gaps).
       analyzers_loop L NewFromString istanbul clock db s mode buckets (i + 1) as
         (rows @ analyzerRows, if length gaps > 0 then gapsBy @ [(a, gaps)] else gapsBy))"

definition consumptionOverWindows ::
  "declib \<Rightarrow> (string \<Rightarrow> dec option) \<Rightarrow> (uuid list \<Rightarrow> uuid list) \<Rightarrow> location \<Rightarrow> (nat \<Rightarrow> time) \<Rightarrow> consumption_db \<Rightarrow> scope \<Rightarrow>
   uuid list \<Rightarrow> window_mode \<Rightarrow> window list \<Rightarrow> consumption_error + (consumption_row list \<times> (uuid \<times> bucket_gap list) list)" where
  "consumptionOverWindows L NewFromString visit istanbul clock db s analyzers mode buckets =
     and_then (analyzers_loop L NewFromString istanbul clock db s mode buckets 0 analyzers ([], [])) (\<lambda>(rows, gapsBy).
     and_then (applyResolvedAnomalies L NewFromString visit db s rows) (\<lambda>rows. Inr (rows, gapsBy)))"

definition consumptionWithGaps ::
  "declib \<Rightarrow> (string \<Rightarrow> dec option) \<Rightarrow> (uuid list \<Rightarrow> uuid list) \<Rightarrow> location \<Rightarrow> (nat \<Rightarrow> time) \<Rightarrow> consumption_db \<Rightarrow> scope \<Rightarrow>
   series_request \<Rightarrow> consumption_error + (consumption_row list \<times> (uuid \<times> bucket_gap list) list)" where
  "consumptionWithGaps L NewFromString visit istanbul clock db s req =
     (case validateRequest istanbul s req of
        Some e \<Rightarrow> Inl e
      | None \<Rightarrow>
          let window = \<lparr>From = tr_From (sr_Range req), To = tr_To (sr_Range req)\<rparr>;
              buckets = Buckets (sr_Level req) window istanbul
          in if length buckets = 0 then Inr ([], [])
             else consumptionOverWindows L NewFromString visit istanbul clock db s (sr_AnalyzerIDs req)
               \<lparr>wm_level = sr_Level req, wm_explicit = False\<rparr> buckets)"

definition Consumption ::
  "declib \<Rightarrow> (string \<Rightarrow> dec option) \<Rightarrow> (uuid list \<Rightarrow> uuid list) \<Rightarrow> location \<Rightarrow> (nat \<Rightarrow> time) \<Rightarrow> consumption_db \<Rightarrow> scope \<Rightarrow>
   series_request \<Rightarrow> consumption_error + consumption_row list" where
  "Consumption L NewFromString visit istanbul clock db s req =
     map_sum id fst (consumptionWithGaps L NewFromString visit istanbul clock db s req)"

definition periodConsumptionWithGaps ::
  "declib \<Rightarrow> (string \<Rightarrow> dec option) \<Rightarrow> (uuid list \<Rightarrow> uuid list) \<Rightarrow> location \<Rightarrow> (nat \<Rightarrow> time) \<Rightarrow> consumption_db \<Rightarrow> scope \<Rightarrow>
   period_request \<Rightarrow> consumption_error + (consumption_row list \<times> (uuid \<times> bucket_gap list) list)" where
  "periodConsumptionWithGaps L NewFromString visit istanbul clock db s req =
     (case validatePeriodRequest istanbul s req of
        Some e \<Rightarrow> Inl e
      | None \<Rightarrow> consumptionOverWindows L NewFromString visit istanbul clock db s (pr_AnalyzerIDs req)
          \<lparr>wm_level = Monthly, wm_explicit = True\<rparr> (pr_Windows req))"

definition PeriodConsumption ::
  "declib \<Rightarrow> (string \<Rightarrow> dec option) \<Rightarrow> (uuid list \<Rightarrow> uuid list) \<Rightarrow> location \<Rightarrow> (nat \<Rightarrow> time) \<Rightarrow> consumption_db \<Rightarrow> scope \<Rightarrow>
   period_request \<Rightarrow> consumption_error + consumption_row list" where
  "PeriodConsumption L NewFromString visit istanbul clock db s req =
     map_sum id fst (periodConsumptionWithGaps L NewFromString visit istanbul clock db s req)"

end
