(* ===== verification/Consumption_Laws.thy ===== *)
theory Consumption_Laws
  imports Consumption_Rows
begin

text \<open>
  The properties of the exact consumption path. First the contracts of its parts (the loop
  over the buckets, the gap overrides), then what a request answers: which buckets become rows, which become gaps, and why
  nothing else can happen.
\<close>

section \<open>The loop over the buckets\<close>

definition bucket_row ::
  "declib \<Rightarrow> location \<Rightarrow> uuid \<Rightarrow> boundary_data \<Rightarrow> level \<Rightarrow> time \<Rightarrow> window \<Rightarrow> consumption_row option" where
  "bucket_row L istanbul a data level now w =
     (if closedBucket w now level then deriveRow L istanbul a w data [] level else None)"

definition is_gap ::
  "declib \<Rightarrow> location \<Rightarrow> uuid \<Rightarrow> boundary_data \<Rightarrow> level \<Rightarrow> time \<Rightarrow> bool \<Rightarrow> time option \<Rightarrow> window \<Rightarrow> bool" where
  "is_gap L istanbul a data level now anyReadings earliest w \<longleftrightarrow>
     closedBucket w now level \<and> deriveRow L istanbul a w data [] level = None \<and> anyReadings \<and> level \<noteq> Hourly \<and>
     \<not> (case earliest of None \<Rightarrow> False | Some e \<Rightarrow> \<not> e < To w)"

lemma bucket_step_eq:
  "bucket_step L istanbul a data level now anyReadings earliest w (rows, gaps) =
   (case bucket_row L istanbul a data level now w of
      Some r \<Rightarrow> Inr (rows @ [r], gaps)
    | None \<Rightarrow> if is_gap L istanbul a data level now anyReadings earliest w
        then and_then (classifyGap w (bd_resolved data)) (\<lambda>b. Inr (rows, gaps @ [\<lparr>bg_Window = w, bg_Boundaries = b\<rparr>]))
        else Inr (rows, gaps))"
  by (cases "deriveRow L istanbul a w data [] level") (auto simp: bucket_step_def bucket_row_def is_gap_def)

lemma bucket_loop_spec:
  fixes data a L istanbul level now anyReadings earliest
  defines "R \<equiv> bucket_row L istanbul a data level now" and "G \<equiv> is_gap L istanbul a data level now anyReadings earliest"
    and "cls \<equiv> \<lambda>w. classifyGap w (bd_resolved data)"
  shows "bucket_loop L istanbul a data level now anyReadings earliest ws (rows, gaps) =
   (case List.find (\<lambda>w. isl (cls w)) (filter G ws) of
      Some w \<Rightarrow> Inl (projl (cls w))
    | None \<Rightarrow> Inr (rows @ List.map_filter R ws, gaps @ map (\<lambda>w. \<lparr>bg_Window = w, bg_Boundaries = projr (cls w)\<rparr>) (filter G ws)))"
proof (induction ws arbitrary: rows gaps)
  case Nil
  then show ?case by (simp add: map_filter_simps)
next
  case (Cons w ws)
  note step = bucket_step_eq [of L istanbul a data level now anyReadings earliest w rows gaps, folded R_def G_def]
  show ?case
  proof (cases "R w")
    case (Some r)
    have "\<not> G w" using Some by (auto simp: R_def G_def bucket_row_def is_gap_def)
    then show ?thesis using Some by (simp add: step and_then_def Cons.IH map_filter_simps cong: option.case_cong)
  next
    case None
    show ?thesis
    proof (cases "G w")
      case True
      show ?thesis
        using None True unfolding bucket_loop.simps step
        by (cases "cls w") (simp_all add: and_then_def Cons.IH map_filter_simps cls_def cong: option.case_cong)
    qed (use None in \<open>simp add: step and_then_def Cons.IH map_filter_simps cong: option.case_cong\<close>)
  qed
qed

lemma bucket_loop_error:
  assumes "bucket_loop L istanbul a data level now anyReadings earliest ws (rows, gaps) = Inl e"
  shows "\<exists>w \<in> set ws. is_gap L istanbul a data level now anyReadings earliest w \<and> isl (classifyGap w (bd_resolved data))"
proof -
  obtain w where "List.find (\<lambda>w. isl (classifyGap w (bd_resolved data)))
      (filter (is_gap L istanbul a data level now anyReadings earliest) ws) = Some w"
    using assms by (auto simp: bucket_loop_spec split: option.splits)
  then obtain i where "i < length (filter (is_gap L istanbul a data level now anyReadings earliest) ws)"
    "isl (classifyGap w (bd_resolved data))" "w = filter (is_gap L istanbul a data level now anyReadings earliest) ws ! i"
    by (auto simp: find_Some_iff)
  then have "w \<in> set (filter (is_gap L istanbul a data level now anyReadings earliest) ws)" using nth_mem by blast
  with \<open>isl (classifyGap w (bd_resolved data))\<close> show ?thesis by auto
qed

lemma deriveRow_window: "deriveRow L istanbul a w data ex level = Some row \<Longrightarrow> cr_Window row = w \<and> cr_AnalyzerID row = a"
  by (auto simp: deriveRow_def Let_def split: if_splits option.splits prod.splits)

lemma derived_windows:
  "map cr_Window (List.map_filter (bucket_row L istanbul a data level now) ws) =
     filter (\<lambda>w. bucket_row L istanbul a data level now w \<noteq> None) ws"
  by (induction ws) (auto simp: bucket_row_def map_filter_simps dest: deriveRow_window split: option.splits)

section \<open>Gap overrides\<close>

lemma override_gaps_spec:
  assumes "override_gaps L NewFromString istanbul a level data anomalies gs (rows, rest) = Inr (rows', rest')"
  shows "rest' = rest @ filter (\<lambda>g. override_of anomalies (bg_Window g) = None) gs"
    and "map cr_Window rows' = map cr_Window rows @ map bg_Window (filter (\<lambda>g. override_of anomalies (bg_Window g) \<noteq> None) gs)"
  using assms
proof (induction gs arbitrary: rows rest)
  case (Cons g gs)
  { case 1 then show ?case using Cons.IH(1) by (fastforce split: option.splits) }
  { case 2
    have w: "cr_Window (override_row L istanbul a level data w ov) = w" for w ov
      by (simp add: override_row_def Let_def split: option.splits)
    from 2 show ?case using Cons.IH(2) by (fastforce simp: w split: option.splits) }
qed simp_all

section \<open>Before the meter was installed\<close>

definition boundary_kinds :: "level \<Rightarrow> reading_kind list" where
  "boundary_kinds level = ReadingKindLoadProfile # (if level = Monthly then [ReadingKindBilling] else []) @
     (if level \<noteq> Hourly then [ReadingKindDaily] else [])"

lemma earliest_of_le:
  assumes "sorted (map TS rs)" and "earliest_of rs e0 = Some e"
  shows "r \<in> set rs \<Longrightarrow> e \<le> TS r" and "e0 = Some x \<Longrightarrow> e \<le> x"
  using assms by (auto simp: earliest_of_def split: list.splits option.splits if_splits)

lemma earliest_of_None: "earliest_of rs e0 = None \<longleftrightarrow> rs = [] \<and> e0 = None"
  by (auto simp: earliest_of_def split: list.splits option.splits)

definition loaded :: "boundary_data \<Rightarrow> reading list list" where
  "loaded d = bd_loadProfile d # (if bd_useBilling d then [bd_billing d] else []) @ (if bd_useDaily d then [bd_daily d] else [])"

lemma earliestBoundaryReading_le:
  assumes "\<forall>rs \<in> set (loaded d). sorted (map TS rs)" and "rs \<in> set (loaded d)" and "r \<in> set rs"
  shows "\<exists>e. earliestBoundaryReading d = Some e \<and> e \<le> TS r"
proof -
  define e1 where "e1 = earliest_of (bd_loadProfile d) None"
  define e2 where "e2 = (if bd_useBilling d then earliest_of (bd_billing d) e1 else e1)"
  define e3 where "e3 = (if bd_useDaily d then earliest_of (bd_daily d) e2 else e2)"
  have keep: "\<exists>z. earliest_of xs (Some x) = Some z \<and> z \<le> x" if "sorted (map TS xs)" for xs x
    using earliest_of_le(2) [OF that] earliest_of_None [of xs "Some x"] by fastforce
  have here: "\<exists>z. earliest_of xs e0 = Some z \<and> z \<le> TS r" if "sorted (map TS xs)" "r \<in> set xs" for xs e0
    using earliest_of_le(1) [OF that(1) _ that(2), of e0] earliest_of_None [of xs e0] that(2) by fastforce
  have 1: "r \<in> set (bd_loadProfile d) \<Longrightarrow> \<exists>z. e1 = Some z \<and> z \<le> TS r"
    using assms(1) here by (simp add: e1_def loaded_def)
  have 2: "(\<exists>z. e1 = Some z \<and> z \<le> TS r) \<or> bd_useBilling d \<and> r \<in> set (bd_billing d) \<Longrightarrow> \<exists>z. e2 = Some z \<and> z \<le> TS r"
    using assms(1) here [of "bd_billing d" e1] keep [of "bd_billing d"] by (fastforce simp: e2_def loaded_def)
  have 3: "(\<exists>z. e2 = Some z \<and> z \<le> TS r) \<or> bd_useDaily d \<and> r \<in> set (bd_daily d) \<Longrightarrow> \<exists>z. e3 = Some z \<and> z \<le> TS r"
    using assms(1) here [of "bd_daily d" e2] keep [of "bd_daily d"] by (fastforce simp: e3_def loaded_def)
  have "earliestBoundaryReading d = e3" by (simp add: earliestBoundaryReading_def Let_def e1_def e2_def e3_def)
  moreover have "\<exists>z. e3 = Some z \<and> z \<le> TS r" using 1 2 3 assms(2,3) by (auto simp: loaded_def split: if_splits)
  ultimately show ?thesis by simp
qed

lemma any_readings_loaded: "any_readings d \<longleftrightarrow> bd_hasPriorReading d \<or> (\<exists>rs \<in> set (loaded d). rs \<noteq> [])"
  by (auto simp: any_readings_def loaded_def)

context reading_history begin

lemma loaded_kinds:
  assumes load: "loadAnalyzerBoundaryData istanbul R a mode bs = Inr d" and run: "bucket_run bs"
    and k: "k \<in> set (boundary_kinds (wm_level mode))"
  shows "\<exists>lo \<le> From (hd bs). slice H a lo (To (last bs)) k \<in> set (loaded d)"
    and "r \<in> set (hist H a k) \<Longrightarrow> TS r \<le> From (hd bs) \<Longrightarrow> bd_hasPriorReading d"
    and "\<forall>rs \<in> set (loaded d). sorted (map TS rs)"
proof -
  have sorted: "sorted (map TS (slice H a l to k))" for l to k by (simp add: slice_def sorted_filter hist_sorted)
  obtain lo lob lod where p: "lo \<le> From (hd bs)" "lob \<le> From (hd bs)" "lod \<le> From (hd bs)"
    and d: "bd_loadProfile d = slice H a lo (To (last bs)) ReadingKindLoadProfile"
      "bd_billing d = (if wm_level mode = Monthly then slice H a lob (To (last bs)) ReadingKindBilling else [])"
      "bd_daily d = (if wm_level mode \<noteq> Hourly then slice H a lod (To (last bs)) ReadingKindDaily else [])"
      "bd_useBilling d = (wm_level mode = Monthly)" "bd_useDaily d = (wm_level mode \<noteq> Hourly)"
    and prior: "bd_hasPriorReading d = ((\<exists>r \<in> set (hist H a ReadingKindLoadProfile). TS r \<le> From (hd bs)) \<or>
       wm_level mode = Monthly \<and> (\<exists>r \<in> set (hist H a ReadingKindBilling). TS r \<le> From (hd bs)) \<or>
       wm_level mode \<noteq> Hourly \<and> (\<exists>r \<in> set (hist H a ReadingKindDaily). TS r \<le> From (hd bs)))"
    by (rule loaded_parts [OF load run], rule that) (assumption | (erule meta_mp, assumption))+
  show "\<exists>lo \<le> From (hd bs). slice H a lo (To (last bs)) k \<in> set (loaded d)"
    using k p by (auto simp: loaded_def d boundary_kinds_def split: if_splits)
  show "r \<in> set (hist H a k) \<Longrightarrow> TS r \<le> From (hd bs) \<Longrightarrow> bd_hasPriorReading d"
    using k by (auto simp: prior boundary_kinds_def split: if_splits)
  show "\<forall>rs \<in> set (loaded d). sorted (map TS rs)" by (auto simp: loaded_def d sorted)
qed

text \<open>A closed bucket that gives neither a row nor a gap above the hourly level ends before the first reading.\<close>

lemma not_installed:
  assumes load: "loadAnalyzerBoundaryData istanbul R a mode bs = Inr d" and run: "bucket_run bs" and w: "w \<in> set bs"
    and earliest: "earliest = (if \<not> bd_hasPriorReading d then earliestBoundaryReading d else None)"
    and skipped: "\<not> any_readings d \<or> (case earliest of None \<Rightarrow> False | Some e \<Rightarrow> \<not> e < To w)"
    and k: "k \<in> set (boundary_kinds (wm_level mode))" and r: "r \<in> set (hist H a k)"
  shows "To w \<le> TS r"
proof (rule ccontr)
  assume less: "\<not> To w \<le> TS r"
  have prior: "\<not> bd_hasPriorReading d" using skipped by (auto simp: earliest any_readings_def)
  have "From (hd bs) < TS r" using loaded_kinds(2) [OF load run k r] prior by fastforce
  obtain lo where lo: "lo \<le> From (hd bs)" "slice H a lo (To (last bs)) k \<in> set (loaded d)"
    using loaded_kinds(1) [OF load run k] by blast
  have mem: "r \<in> set (slice H a lo (To (last bs)) k)"
    using r lo(1) less \<open>From (hd bs) < TS r\<close> run_bounds(2) [OF run w] by (simp add: slice_def)
  then have "any_readings d" using lo(2) by (metis any_readings_loaded empty_iff list.set(1))
  moreover obtain e where "earliestBoundaryReading d = Some e" "e \<le> TS r"
    using earliestBoundaryReading_le [OF loaded_kinds(3) [OF load run k] lo(2) mem] by blast
  ultimately show False using skipped prior less by (simp add: earliest)
qed

end

section \<open>What a request answers\<close>

lemma run_sorted:
  assumes "bucket_run bs"
  shows "sorted_wrt (\<lambda>a b. To a \<le> From b) bs"
  using contiguous_disjoint [of bs] assms by (auto simp: bucket_run_def sorted_wrt_iff_nth_less)

lemma run_windows:
  assumes "bucket_run bs"
  shows "distinct bs" and "a \<in> set bs \<Longrightarrow> b \<in> set bs \<Longrightarrow> From a = From b \<Longrightarrow> a = b"
    and "a \<in> set bs \<Longrightarrow> b \<in> set bs \<Longrightarrow> From a < From b \<Longrightarrow> To a \<le> From b"
proof -
  have valid: "\<forall>b \<in> set bs. From b < To b" using assms by (simp add: bucket_run_def Valid_def)
  have nth: "i < j \<Longrightarrow> j < length bs \<Longrightarrow> To (bs ! i) \<le> From (bs ! j)" for i j
    using run_sorted [OF assms] by (simp add: sorted_wrt_iff_nth_less)
  have lt: "i < j \<Longrightarrow> j < length bs \<Longrightarrow> From (bs ! i) < From (bs ! j)" for i j
    using nth [of i j] valid nth_mem [of i bs] by fastforce
  show "distinct bs" unfolding distinct_conv_nth using lt by (metis less_irrefl nat_neq_iff)
  show "a \<in> set bs \<Longrightarrow> b \<in> set bs \<Longrightarrow> From a = From b \<Longrightarrow> a = b"
    unfolding in_set_conv_nth using lt by (metis less_irrefl nat_neq_iff)
  show "a \<in> set bs \<Longrightarrow> b \<in> set bs \<Longrightarrow> From a < From b \<Longrightarrow> To a \<le> From b"
    unfolding in_set_conv_nth using lt nth by (metis less_asym less_irrefl nat_neq_iff)
qed

text \<open>Rows sorted by the start of their windows stand in the order of the windows.\<close>

lemma sorted_rows:
  fixes rows :: "consumption_row list"
  assumes run: "bucket_run bs" and sub: "set (map cr_Window rows) \<subseteq> set bs" and dist: "distinct (map cr_Window rows)"
  defines "out \<equiv> sort_Slice (\<lambda>a b. From (cr_Window a) < From (cr_Window b)) rows"
  shows "sorted_wrt (\<lambda>a b. To a \<le> From b) (map cr_Window out)"
proof -
  have s: "sorted_wrt (\<lambda>a b. \<not> From (cr_Window b) < From (cr_Window a)) out"
    unfolding out_def by (rule slice_order.sort_sorted [OF key_order])
  have "mset (map cr_Window out) = mset (map cr_Window rows)" by (simp add: out_def)
  then have d: "distinct (map cr_Window out)" and mem: "set (map cr_Window out) \<subseteq> set bs"
    using dist sub mset_eq_imp_distinct_iff mset_eq_setD by blast+
  show ?thesis
    unfolding sorted_wrt_iff_nth_less
  proof (intro allI impI)
    fix i j assume ij: "i < j" "j < length (map cr_Window out)"
    let ?a = "map cr_Window out ! i" and ?b = "map cr_Window out ! j"
    have ab: "?a \<in> set bs" "?b \<in> set bs" using mem ij nth_mem [of _ "map cr_Window out"] by auto
    have "?a \<noteq> ?b" using d ij by (simp add: nth_eq_iff_index_eq del: nth_map)
    moreover have "\<not> From ?b < From ?a" using s ij by (simp add: sorted_wrt_iff_nth_less)
    ultimately have "From ?a < From ?b" using run_windows(2) [OF run ab] by linarith
    then show "To ?a \<le> From ?b" by (rule run_windows(3) [OF run ab])
  qed
qed

lemma consumption_parts:
  assumes "consumptionForAnalyzer L NewFromString istanbul now db s a mode bs = Inr (rows, gaps)" and run: "bucket_run bs"
  defines "level \<equiv> wm_level mode"
  obtains d earliest over where
    "loadAnalyzerBoundaryData istanbul (repo_of (cd_readings db) s) a mode bs = Inr d"
    "earliest = (if \<not> bd_hasPriorReading d then earliestBoundaryReading d else None)"
    "map bg_Window gaps = filter (\<lambda>w. is_gap L istanbul a d level now (any_readings d) earliest w \<and> \<not> over w) bs"
    "\<forall>g \<in> set gaps. classifyGap (bg_Window g) (bd_resolved d) = Inr (bg_Boundaries g)"
    "set (map cr_Window rows) = {w \<in> set bs. bucket_row L istanbul a d level now w \<noteq> None \<or>
       is_gap L istanbul a d level now (any_readings d) earliest w \<and> over w}"
    "sorted_wrt (\<lambda>a b. To a \<le> From b) (map cr_Window rows)"
    "level = Hourly \<Longrightarrow> rows = List.map_filter (bucket_row L istanbul a d level now) bs"
proof -
  obtain d where d: "loadAnalyzerBoundaryData istanbul (repo_of (cd_readings db) s) a mode bs = Inr d"
    using assms(1) by (auto simp: consumptionForAnalyzer_def and_then_Inr store_result_def Let_def split: sum.splits)
  define earliest where "earliest = (if \<not> bd_hasPriorReading d then earliestBoundaryReading d else None)"
  define G where "G = is_gap L istanbul a d level now (any_readings d) earliest"
  define R where "R = bucket_row L istanbul a d level now"
  define cls where "cls = (\<lambda>w. classifyGap w (bd_resolved d))"
  define gp where "gp = map (\<lambda>w. \<lparr>bg_Window = w, bg_Boundaries = projr (cls w)\<rparr>) (filter G bs)"
  obtain rs gs where loop: "bucket_loop L istanbul a d level now (any_readings d) earliest bs ([], []) = Inr (rs, gs)"
    and rest: "(if length gs > 0
      then and_then (applyResolvedGapOverrides L NewFromString istanbul db s a level gs d) (\<lambda>(overrideRows, remaining).
        Inr (if length overrideRows > 0
             then sort_Slice (\<lambda>a b. From (cr_Window a) < From (cr_Window b)) (rs @ overrideRows) else rs, remaining))
      else Inr (rs, gs)) = Inr (rows, gaps)"
    using assms(1)
    unfolding consumptionForAnalyzer_def Let_def and_then_Inr store_result_def d level_def [symmetric] split_paired_Ex prod.case
      sum.case sum.inject simp_thms earliest_def [symmetric]
    by (auto simp: earliest_def)
  note spec = bucket_loop_spec [of L istanbul a d level now "any_readings d" earliest bs "[]" "[]",
      folded G_def R_def cls_def, unfolded loop]
  have find: "List.find (\<lambda>w. isl (cls w)) (filter G bs) = None" using spec by (auto simp: cls_def split: option.splits)
  with spec have rs: "rs = List.map_filter R bs" and gs: "gs = gp" by (simp_all add: gp_def cls_def)
  have cl: "cls w = Inr (projr (cls w))" if "w \<in> set (filter G bs)" for w
    using find that by (cases "cls w") (force simp: find_None_iff)+
  have rw: "map cr_Window rs = filter (\<lambda>w. R w \<noteq> None) bs" unfolding rs R_def by (rule derived_windows)
  have gw: "map bg_Window gs = filter G bs" by (simp add: gs gp_def comp_def)
  have excl: "R w \<noteq> None \<Longrightarrow> \<not> G w" for w by (auto simp: R_def G_def bucket_row_def is_gap_def)
  have sorted: "sorted_wrt (\<lambda>a b. To a \<le> From b) (map cr_Window rs)" unfolding rw by (rule sorted_wrt_filter [OF run_sorted [OF run]])
  show thesis
  proof (cases "length gs > 0")
    case False
    then have "rows = rs" "gaps = gs" "filter G bs = []" using rest gw by auto
    then show thesis
      using d earliest_def gw rw sorted rs
      by (intro that [of d earliest "\<lambda>_. False"]) (auto simp: G_def R_def level_def filter_empty_conv)
  next
    case True
    then obtain ov rem where ap: "applyResolvedGapOverrides L NewFromString istanbul db s a level gs d = Inr (ov, rem)"
      and out: "rows = (if length ov > 0 then sort_Slice (\<lambda>a b. From (cr_Window a) < From (cr_Window b)) (rs @ ov) else rs)" "gaps = rem"
      using rest by (auto simp: and_then_Inr)
    then obtain anomalies where og: "override_gaps L NewFromString istanbul a level d anomalies gs ([], []) = Inr (ov, rem)"
      by (auto simp: applyResolvedGapOverrides_def and_then_Inr split: prod.splits)
    define over where "over = (\<lambda>w. override_of anomalies w \<noteq> None)"
    note og' = override_gaps_spec [OF og]
    have rem: "rem = filter (\<lambda>g. \<not> over (bg_Window g)) gs" and ovw: "map cr_Window ov = map bg_Window (filter (\<lambda>g. over (bg_Window g)) gs)"
      using og' by (simp_all add: over_def)
    have sub: "map bg_Window (filter (\<lambda>g. P (bg_Window g)) gs) = filter (\<lambda>w. G w \<and> P w) bs" for P
      using arg_cong [OF gw, of "filter P"] by (simp add: filter_map comp_def)
    have ovw: "map cr_Window ov = filter (\<lambda>w. G w \<and> over w) bs" unfolding ovw by (rule sub)
    have remw: "map bg_Window rem = filter (\<lambda>w. G w \<and> \<not> over w) bs" unfolding rem by (rule sub)
    have windows: "set (map cr_Window rows) = {w \<in> set bs. R w \<noteq> None \<or> G w \<and> over w}"
    proof -
      have "set (map cr_Window rows) = set (map cr_Window (rs @ ov))" unfolding out by (simp add: image_Un)
      then show ?thesis unfolding map_append rw ovw by auto
    qed
    have dist: "distinct (map cr_Window (rs @ ov))"
      unfolding map_append rw ovw using run_windows(1) [OF run] excl by auto
    have sub: "set (map cr_Window (rs @ ov)) \<subseteq> set bs" unfolding map_append rw ovw by auto
    have "sorted_wrt (\<lambda>a b. To a \<le> From b) (map cr_Window rows)"
      using sorted_rows [OF run sub dist] sorted by (simp add: out)
    moreover have "\<forall>g \<in> set gaps. classifyGap (bg_Window g) (bd_resolved d) = Inr (bg_Boundaries g)"
      using cl by (auto simp: out rem gs gp_def cls_def)
    ultimately show thesis
      using d earliest_def remw windows True gw
      by (intro that [of d earliest over]) (auto simp: G_def R_def out is_gap_def)
  qed
qed

text \<open>The hourly level: the boundaries are the last load profile readings, without a tolerance, so a bucket gives a row exactly
  when there is a reading before it and one in it, and a row opens where the row before it closed.\<close>

lemma hourly_chain:
  fixes last_ts :: "time \<Rightarrow> time option" and settled :: "window \<Rightarrow> bool" and R :: "window \<Rightarrow> consumption_row option"
  assumes mono: "\<And>b b' x. last_ts b = Some x \<Longrightarrow> b \<le> b' \<Longrightarrow> \<exists>x'. last_ts b' = Some x' \<and> x \<le> x'"
    and rows: "\<forall>w \<in> set ws. \<forall>r. R w = Some r \<longrightarrow> last_ts (From w) = Some (cr_SpanFrom r) \<and> last_ts (To w) = Some (cr_SpanTo r)"
    and none: "\<forall>w \<in> set ws. \<forall>x y. R w = None \<longrightarrow> settled w \<longrightarrow> last_ts (From w) = Some x \<longrightarrow> last_ts (To w) = Some y \<longrightarrow> y \<le> x"
    and settled: "\<And>v w. To v \<le> To w \<Longrightarrow> settled w \<Longrightarrow> settled v" "\<And>w r. R w = Some r \<Longrightarrow> settled w"
    and ws: "contiguous ws" "\<forall>w \<in> set ws. From w < To w"
  shows "successively (\<lambda>r r'. cr_SpanTo r = cr_SpanFrom r') (List.map_filter R ws) \<and>
    (\<forall>x. ws \<noteq> [] \<longrightarrow> last_ts (From (hd ws)) = Some x \<longrightarrow> List.map_filter R ws \<noteq> [] \<longrightarrow> cr_SpanFrom (hd (List.map_filter R ws)) = x)"
  using rows none ws
proof (induction ws)
  case Nil
  then show ?case by (simp add: map_filter_simps)
next
  case (Cons w ws)
  have tail: "contiguous ws" "ws \<noteq> [] \<Longrightarrow> From (hd ws) = To w" using Cons.prems(3) by (cases ws; simp)+
  have after: "To w \<le> From v" if v: "v \<in> set ws" for v
  proof -
    obtain i where "i < length ws" "v = ws ! i" using v by (auto simp: in_set_conv_nth)
    then show ?thesis
      using contiguous_disjoint [of "w # ws" 0 "Suc i"] Cons.prems(3,4) by (simp add: Valid_def)
  qed
  have IH: "successively (\<lambda>r r'. cr_SpanTo r = cr_SpanFrom r') (List.map_filter R ws)"
    "\<And>x. ws \<noteq> [] \<Longrightarrow> last_ts (To w) = Some x \<Longrightarrow> List.map_filter R ws \<noteq> [] \<Longrightarrow> cr_SpanFrom (hd (List.map_filter R ws)) = x"
    using Cons.IH [OF _ _ tail(1)] Cons.prems(1,2,4) tail(2) by simp_all
  show ?case
  proof (cases "R w")
    case (Some r)
    then have "last_ts (From w) = Some (cr_SpanFrom r)" "last_ts (To w) = Some (cr_SpanTo r)" using Cons.prems(1) by auto
    then show ?thesis using Some IH
      by (cases "ws = []"; cases "List.map_filter R ws = []") (auto simp: map_filter_simps successively_Cons)
  next
    case None
    have "cr_SpanFrom (hd (List.map_filter R ws)) = x" if x: "last_ts (From w) = Some x" and ne: "List.map_filter R ws \<noteq> []" for x
    proof -
      obtain v r where v: "v \<in> set ws" "R v = Some r" using ne by (induction ws) (auto simp: map_filter_simps split: option.splits)
      have "To w \<le> To v" using after [OF v(1)] bspec [OF Cons.prems(4), of v] v(1) by simp
      then have "settled w" using settled(1) settled(2) [OF v(2)] by blast
      moreover obtain y where "last_ts (To w) = Some y" "x \<le> y" using mono [OF x, of "To w"] bspec [OF Cons.prems(4), of w] by auto
      moreover from this have "y \<le> x" using Cons.prems(2) None x \<open>settled w\<close> by simp
      moreover have "ws \<noteq> []" using v(1) by auto
      ultimately show ?thesis using IH(2) [of y] ne by simp
    qed
    then show ?thesis using None IH(1) by (simp add: map_filter_simps)
  qed
qed

lemma SelectBoundary_latest:
  assumes "sorted (map TS rs)"
  shows "SelectBoundary rs b = Some r \<Longrightarrow> r \<in> set rs \<and> TS r \<le> b \<and> (\<forall>x \<in> set rs. TS x \<le> b \<longrightarrow> TS x \<le> TS r)"
    and "SelectBoundary rs b = None \<longleftrightarrow> (\<forall>x \<in> set rs. b < TS x)"
proof -
  show "SelectBoundary rs b = Some r \<Longrightarrow> r \<in> set rs \<and> TS r \<le> b \<and> (\<forall>x \<in> set rs. TS x \<le> b \<longrightarrow> TS x \<le> TS r)"
    using sorted_last_max [OF sorted_filter [OF assms], of _ "\<lambda>x. TS x \<le> b"] last_in_set [of "filter (\<lambda>x. TS x \<le> b) rs"]
    by (auto simp: SelectBoundary_eq [OF assms] Let_def split: if_splits)
  show "SelectBoundary rs b = None \<longleftrightarrow> (\<forall>x \<in> set rs. b < TS x)"
    by (auto simp: SelectBoundary_eq [OF assms] Let_def filter_empty_conv not_le)
qed

lemma deriveRow_both:
  assumes "resolved_at (bd_resolved d) (From w) = Some st" and "resolved_at (bd_resolved d) (To w) = Some en" and "TS st < TS en"
  shows "deriveRow L istanbul a w d [] level \<noteq> None"
proof -
  obtain src f where "Derive w (Some st) (Some en) (bd_resets d) (bd_priors d) =
      emit_registers ((no_row w)\<lparr>Emitted := True, Source := Some src\<rparr>) f"
    using Derive_row [OF assms(3)] by blast
  then have "Emitted (Derive w (Some st) (Some en) (bd_resets d) (bd_priors d))" by simp
  then show ?thesis by (simp add: deriveRow_def Let_def assms(1,2) merge_resets_def split: prod.splits)
qed

lemma deriveRow_parts:
  assumes "deriveRow L istanbul a w d [] level = Some row"
  obtains st en where "resolved_at (bd_resolved d) (From w) = Some st" "resolved_at (bd_resolved d) (To w) = Some en" "TS st < TS en"
    "cr_StartIndexes row = Some (readingIndexes st)" "cr_Indexes row = Some (readingIndexes en)" "cr_SpanFrom row = TS st"
    "cr_SpanTo row = TS en" "cr_Values row = d_Values (Derive w (Some st) (Some en) (bd_resets d) (bd_priors d))"
proof -
  let ?s = "resolved_at (bd_resolved d) (From w)" and ?e = "resolved_at (bd_resolved d) (To w)"
  have em: "Emitted (Derive w ?s ?e (bd_resets d) (bd_priors d))"
    using assms by (auto simp: deriveRow_def Let_def merge_resets_def split: if_splits)
  obtain st en where se: "?s = Some st" "?e = Some en" "TS st < TS en"
  proof (rule ccontr)
    assume no: "\<not> thesis"
    have "Derive w ?s ?e (bd_resets d) (bd_priors d) = no_row w"
      by (rule Derive_no_row) (use no that in blast)
    then show False using em by (simp add: no_row_def)
  qed
  show thesis
    using assms em unfolding deriveRow_def Let_def merge_resets_def se if_P [OF refl]
    by (intro that [OF se]) (auto simp: no_consumption_row_def split: prod.splits)
qed

context reading_history begin

lemma hourly_rows:
  fixes L now
  assumes load: "loadAnalyzerBoundaryData istanbul R a mode bs = Inr d" and run: "bucket_run bs" and level: "wm_level mode = Hourly"
  defines "lp \<equiv> hist H a ReadingKindLoadProfile" and "row \<equiv> bucket_row L istanbul a d Hourly now"
  shows "successively (\<lambda>r r'. cr_SpanTo r = cr_SpanFrom r') (List.map_filter row bs)"
    and "w \<in> set bs \<Longrightarrow> row w \<noteq> None \<longleftrightarrow> closedBucket w now Hourly \<and>
      (\<exists>r \<in> set lp. TS r \<le> From w) \<and> (\<exists>r \<in> set lp. From w < TS r \<and> TS r \<le> To w)"
proof -
  have sorted: "sorted (map TS lp)" unfolding lp_def by (rule hist_sorted)
  note latest = SelectBoundary_latest [OF sorted]
  have ne: "bs \<noteq> []" using run by (simp add: bucket_run_def)
  have at_b: "resolved_at (bd_resolved d) b = SelectBoundary lp b" if b: "b \<in> bounds bs" "From (hd bs) \<le> b" "b \<le> To (last bs)" for b
  proof -
    obtain lo lp' where p: "lookback_of lp (From (hd bs)) lp'" "lo \<le> lp'"
      and d: "bd_loadProfile d = slice H a lo (To (last bs)) ReadingKindLoadProfile"
      and rd: "bd_resolved d = resolveBoundaries istanbul mode bs (bd_loadProfile d) (bd_billing d) (bd_daily d)
        (wm_level mode = Monthly) (wm_level mode \<noteq> Hourly)"
      by (rule loaded_parts [OF load run]) (use level in \<open>auto simp: lp_def\<close>)
    show ?thesis
      unfolding rd resolved_at_bounds [OF ne b(1)]
      using SelectBoundary_slice [OF sorted p(1) b(2,3) p(2)] level
      by (simp add: resolve_at_def resolveBoundary_def d slice_def lp_def Let_def)
  qed
  have from_to: "resolved_at (bd_resolved d) (From w) = SelectBoundary lp (From w)"
    "resolved_at (bd_resolved d) (To w) = SelectBoundary lp (To w)" if w: "w \<in> set bs" for w
    using at_b [of "From w"] at_b [of "To w"] run_bounds [OF run w] by auto
  have some: "row w \<noteq> None \<longleftrightarrow> closedBucket w now Hourly \<and> (\<exists>st en. SelectBoundary lp (From w) = Some st \<and>
      SelectBoundary lp (To w) = Some en \<and> TS st < TS en)" if w: "w \<in> set bs" for w
  proof -
    have "\<exists>st en. SelectBoundary lp (From w) = Some st \<and> SelectBoundary lp (To w) = Some en \<and> TS st < TS en"
      if "deriveRow L istanbul a w d [] Hourly = Some r" for r
    proof (rule deriveRow_parts [OF that])
      fix st en assume "resolved_at (bd_resolved d) (From w) = Some st" "resolved_at (bd_resolved d) (To w) = Some en" "TS st < TS en"
      then show ?thesis unfolding from_to [OF w] by blast
    qed
    then show ?thesis using deriveRow_both [of d w _ _ L istanbul a Hourly] from_to [OF w] by (auto simp: row_def bucket_row_def)
  qed
  have spans: "map_option TS (SelectBoundary lp (From w)) = Some (cr_SpanFrom r) \<and>
      map_option TS (SelectBoundary lp (To w)) = Some (cr_SpanTo r)" if w: "w \<in> set bs" and r: "row w = Some r" for w r
  proof -
    have der: "deriveRow L istanbul a w d [] Hourly = Some r" using r by (simp add: row_def bucket_row_def split: if_splits)
    show ?thesis
    proof (rule deriveRow_parts [OF der])
      fix st en assume "resolved_at (bd_resolved d) (From w) = Some st" "resolved_at (bd_resolved d) (To w) = Some en"
        "cr_SpanFrom r = TS st" "cr_SpanTo r = TS en"
      then show ?thesis unfolding from_to [OF w] by simp
    qed
  qed
  have "successively (\<lambda>r r'. cr_SpanTo r = cr_SpanFrom r') (List.map_filter row bs) \<and>
    (\<forall>x. bs \<noteq> [] \<longrightarrow> map_option TS (SelectBoundary lp (From (hd bs))) = Some x \<longrightarrow> List.map_filter row bs \<noteq> [] \<longrightarrow>
       cr_SpanFrom (hd (List.map_filter row bs)) = x)"
  proof (rule hourly_chain [where settled = "\<lambda>w. closedBucket w now Hourly" and last_ts = "\<lambda>b. map_option TS (SelectBoundary lp b)"])
    fix b b' x assume x: "map_option TS (SelectBoundary lp b) = Some x" "b \<le> b'"
    then obtain r where r: "SelectBoundary lp b = Some r" "x = TS r" by auto
    note l = latest(1) [OF r(1)]
    then obtain r' where r': "SelectBoundary lp b' = Some r'" using latest(2) [of b'] x(2) by (cases "SelectBoundary lp b'") force+
    then show "\<exists>x'. map_option TS (SelectBoundary lp b') = Some x' \<and> x \<le> x'" using latest(1) [OF r'] l x(2) r(2) by auto
  next
    show "\<forall>w \<in> set bs. \<forall>x y. row w = None \<longrightarrow> closedBucket w now Hourly \<longrightarrow> map_option TS (SelectBoundary lp (From w)) = Some x \<longrightarrow>
        map_option TS (SelectBoundary lp (To w)) = Some y \<longrightarrow> y \<le> x"
      using some by (fastforce simp: not_less)
  next
    fix v w :: window assume "To v \<le> To w" "closedBucket w now Hourly"
    then show "closedBucket v now Hourly" by (simp add: closedBucket_def)
  qed (use run run_bounds(3) [OF run] spans in \<open>auto simp: bucket_run_def row_def bucket_row_def split: if_splits\<close>)
  then show "successively (\<lambda>r r'. cr_SpanTo r = cr_SpanFrom r') (List.map_filter row bs)" by blast
  show "row w \<noteq> None \<longleftrightarrow> closedBucket w now Hourly \<and>
      (\<exists>r \<in> set lp. TS r \<le> From w) \<and> (\<exists>r \<in> set lp. From w < TS r \<and> TS r \<le> To w)" if w: "w \<in> set bs"
  proof -
    have "(\<exists>st en. SelectBoundary lp (From w) = Some st \<and> SelectBoundary lp (To w) = Some en \<and> TS st < TS en) \<longleftrightarrow>
        (\<exists>r \<in> set lp. TS r \<le> From w) \<and> (\<exists>r \<in> set lp. From w < TS r \<and> TS r \<le> To w)"
    proof
      assume "\<exists>st en. SelectBoundary lp (From w) = Some st \<and> SelectBoundary lp (To w) = Some en \<and> TS st < TS en"
      then obtain st en where "SelectBoundary lp (From w) = Some st" "SelectBoundary lp (To w) = Some en" "TS st < TS en" by blast
      with latest(1) [of "From w" st] latest(1) [of "To w" en] have "st \<in> set lp \<and> TS st \<le> From w" "en \<in> set lp \<and> TS en \<le> To w"
        "\<not> TS en \<le> From w" by fastforce+
      then show "(\<exists>r \<in> set lp. TS r \<le> From w) \<and> (\<exists>r \<in> set lp. From w < TS r \<and> TS r \<le> To w)" by (auto simp: not_le)
    next
      assume "(\<exists>r \<in> set lp. TS r \<le> From w) \<and> (\<exists>r \<in> set lp. From w < TS r \<and> TS r \<le> To w)"
      then obtain p q where pq: "p \<in> set lp" "TS p \<le> From w" "q \<in> set lp" "From w < TS q" "TS q \<le> To w" by blast
      obtain st where st: "SelectBoundary lp (From w) = Some st" using latest(2) [of "From w"] pq by (cases "SelectBoundary lp (From w)") force+
      obtain en where en: "SelectBoundary lp (To w) = Some en" using latest(2) [of "To w"] pq by (cases "SelectBoundary lp (To w)") force+
      have "TS st \<le> From w" "TS q \<le> TS en" using latest(1) [OF st] latest(1) [OF en] pq by auto
      then show "\<exists>st en. SelectBoundary lp (From w) = Some st \<and> SelectBoundary lp (To w) = Some en \<and> TS st < TS en"
        using st en pq by auto
    qed
    then show ?thesis using some [OF w] by simp
  qed
qed

end

text \<open>C7. The exact path accounts for every bucket of a request. When it answers for an analyzer, its rows stand in the order
  of their windows, which do not overlap, every row and every gap is one of the requested buckets and had settled, and no bucket is both.
  Above the hourly level a settled bucket that is neither ends before the first reading the tenant can see of any kind that may bound it:
  the meter was not installed yet. At the hourly level there are no gaps; a settled bucket gives a row exactly when there is a load
  profile reading at or before its start and one in it; and every row opens at the instant the row before it closed, so the
  consumption of the buckets in between is in the later row.\<close>

theorem consumption_accounts:
  assumes "consumptionForAnalyzer L NewFromString istanbul now db s a mode bs = Inr (rows, gaps)" and "bucket_run bs"
  shows "sorted_wrt (\<lambda>v w. To v \<le> From w) (map cr_Window rows) \<and>
    sorted_wrt (\<lambda>v w. To v \<le> From w) (map bg_Window gaps) \<and>
    set (map cr_Window rows) \<inter> set (map bg_Window gaps) = {} \<and>
    (\<forall>w \<in> set (map cr_Window rows) \<union> set (map bg_Window gaps). w \<in> set bs \<and> To w + SettleDelay (wm_level mode) \<le> now) \<and>
    (wm_level mode \<noteq> Hourly \<longrightarrow>
      (\<forall>w \<in> set bs. To w + SettleDelay (wm_level mode) \<le> now \<and> w \<notin> set (map cr_Window rows) \<union> set (map bg_Window gaps) \<longrightarrow>
        (\<forall>k \<in> set (boundary_kinds (wm_level mode)). \<forall>r \<in> set (history_of (cd_readings db) s a k). To w \<le> mr_Ts r))) \<and>
    (wm_level mode = Hourly \<longrightarrow> gaps = [] \<and> successively (\<lambda>r r'. cr_SpanTo r = cr_SpanFrom r') rows \<and>
      (\<forall>w \<in> set bs. To w + SettleDelay Hourly \<le> now \<longrightarrow>
        (w \<in> set (map cr_Window rows) \<longleftrightarrow>
          (\<exists>r \<in> set (history_of (cd_readings db) s a ReadingKindLoadProfile). mr_Ts r \<le> From w) \<and>
          (\<exists>r \<in> set (history_of (cd_readings db) s a ReadingKindLoadProfile). From w < mr_Ts r \<and> mr_Ts r \<le> To w))))"
proof -
  obtain d earliest over where
    d: "loadAnalyzerBoundaryData istanbul (repo_of (cd_readings db) s) a mode bs = Inr d"
    and e: "earliest = (if \<not> bd_hasPriorReading d then earliestBoundaryReading d else None)"
    and gaps: "map bg_Window gaps = filter (\<lambda>w. is_gap L istanbul a d (wm_level mode) now (any_readings d) earliest w \<and> \<not> over w) bs"
    and rows: "set (map cr_Window rows) = {w \<in> set bs. bucket_row L istanbul a d (wm_level mode) now w \<noteq> None \<or>
       is_gap L istanbul a d (wm_level mode) now (any_readings d) earliest w \<and> over w}"
    and sorted: "sorted_wrt (\<lambda>a b. To a \<le> From b) (map cr_Window rows)"
    and hourly: "wm_level mode = Hourly \<Longrightarrow> rows = List.map_filter (bucket_row L istanbul a d (wm_level mode) now) bs"
    by (rule consumption_parts [OF assms], rule that)
  have gap_set: "set (map bg_Window gaps) = {w \<in> set bs. is_gap L istanbul a d (wm_level mode) now (any_readings d) earliest w \<and> \<not> over w}"
    unfolding gaps by auto
  have closed: "closedBucket w now (wm_level mode) \<longleftrightarrow> To w + SettleDelay (wm_level mode) \<le> now" for w
    by (auto simp: closedBucket_def)
  have rest: "To w \<le> mr_Ts r"
    if "w \<in> set bs" "closedBucket w now (wm_level mode)" "w \<notin> set (map cr_Window rows) \<union> set (map bg_Window gaps)"
      "wm_level mode \<noteq> Hourly" "k \<in> set (boundary_kinds (wm_level mode))" "r \<in> set (history_of (cd_readings db) s a k)" for w k r
  proof -
    have "\<not> any_readings d \<or> (case earliest of None \<Rightarrow> False | Some e \<Rightarrow> \<not> e < To w)"
      using that unfolding rows gap_set by (auto simp: is_gap_def bucket_row_def)
    from stored.not_installed [OF d assms(2) that(1) e this that(5), of "toEnergyReading r"] that(6)
    show ?thesis by (simp add: hist_def toEnergyReadings_def) (simp add: toEnergyReading_def)
  qed
  have "sorted_wrt (\<lambda>v w. To v \<le> From w) (map bg_Window gaps)"
    unfolding gaps by (rule sorted_wrt_filter [OF run_sorted [OF assms(2)]])
  moreover have "set (map cr_Window rows) \<inter> set (map bg_Window gaps) = {}"
    unfolding rows gap_set by (auto simp: is_gap_def bucket_row_def)
  moreover have "\<forall>w \<in> set (map cr_Window rows) \<union> set (map bg_Window gaps). w \<in> set bs \<and> closedBucket w now (wm_level mode)"
    unfolding rows gap_set by (auto simp: is_gap_def bucket_row_def split: if_splits)
  moreover have "gaps = [] \<and> successively (\<lambda>r r'. cr_SpanTo r = cr_SpanFrom r') rows \<and>
      (\<forall>w \<in> set bs. To w + SettleDelay Hourly \<le> now \<longrightarrow>
        (w \<in> set (map cr_Window rows) \<longleftrightarrow>
          (\<exists>r \<in> set (history_of (cd_readings db) s a ReadingKindLoadProfile). mr_Ts r \<le> From w) \<and>
          (\<exists>r \<in> set (history_of (cd_readings db) s a ReadingKindLoadProfile). From w < mr_Ts r \<and> mr_Ts r \<le> To w)))"
    if h: "wm_level mode = Hourly"
  proof -
    note hr = stored.hourly_rows [OF d assms(2) h, where L = L and now = now]
    have "gaps = []" using gap_set h by (auto simp: is_gap_def)
    moreover have "successively (\<lambda>r r'. cr_SpanTo r = cr_SpanFrom r') rows" using hr(1) hourly [OF h] h by simp
    moreover have "w \<in> set (map cr_Window rows) \<longleftrightarrow> bucket_row L istanbul a d Hourly now w \<noteq> None" if "w \<in> set bs" for w
      using that unfolding rows h by (auto simp: is_gap_def)
    ultimately show ?thesis
      using hr(2) closed h by (auto simp: hist_def toEnergyReadings_def toEnergyReading_def)
  qed
  ultimately show ?thesis using sorted rest unfolding closed by blast
qed

definition evidence_consumption_db :: consumption_db where
  "evidence_consumption_db = \<lparr>cd_readings = evidence_db, cd_anomalies = [], cd_users = [], cd_messages = []\<rparr>"

lemma evidence_answer:
  "map_sum id (\<lambda>(rows, gaps). (map cr_Window rows, gaps))
     (consumptionForAnalyzer std_declib (\<lambda>_. None) (fixed_zone 0) (1000 * hour) evidence_consumption_db (SystemScope 100) 7
       \<lparr>wm_level = Daily, wm_explicit = False\<rparr> [utc_day 0, utc_day 1, utc_day 2]) =
   Inr ([utc_day 1, utc_day 2], [\<lparr>bg_Window = utc_day 0, bg_Boundaries = [''start'']\<rparr>])"
  by code_simp

theorem consumption_accounts_witness:
  "case consumptionForAnalyzer std_declib (\<lambda>_. None) (fixed_zone 0) (1000 * hour) evidence_consumption_db (SystemScope 100) 7
       \<lparr>wm_level = Daily, wm_explicit = False\<rparr> [utc_day 0, utc_day 1, utc_day 2] of
     Inl e \<Rightarrow> False
   | Inr (rows, gaps) \<Rightarrow> map cr_Window rows = [utc_day 1, utc_day 2] \<and> map bg_Window gaps = [utc_day 0] \<and>
       set (map cr_Window rows) \<inter> set (map bg_Window gaps) = {}"
proof -
  let ?c = "consumptionForAnalyzer std_declib (\<lambda>_. None) (fixed_zone 0) (1000 * hour) evidence_consumption_db (SystemScope 100) 7
       \<lparr>wm_level = Daily, wm_explicit = False\<rparr> [utc_day 0, utc_day 1, utc_day 2]"
  obtain rows gaps where c: "?c = Inr (rows, gaps)" and w: "map cr_Window rows = [utc_day 1, utc_day 2]"
    "gaps = [\<lparr>bg_Window = utc_day 0, bg_Boundaries = [''start'']\<rparr>]"
    using evidence_answer by (cases ?c) auto
  have run: "bucket_run [utc_day 0, utc_day 1, utc_day 2]"
    by (simp add: bucket_run_def utc_day_def Valid_def hour_def ns_per_sec_def)
  show ?thesis
    unfolding c sum.case prod.case w(1) using consumption_accounts [OF c run, unfolded w(1)] by (simp add: w(2))
qed

section \<open>Why a bucket is a gap\<close>

lemma days_month:
  assumes "1 \<le> m" and "m \<le> 12" and "days_from_civil y m 1 \<le> n" and "n < days_from_civil y (m + 1) 1"
  shows "civil_from_days n = (y, m, n - days_from_civil y m 1 + 1)"
proof -
  let ?d = "n - days_from_civil y m 1 + 1"
  have "days_from_civil y (m + 1) 1 = days_from_civil y m 1 + month_len y m"
    using assms(1,2) by (rule days_from_civil_next_month)
  then have "valid_civil y m ?d" using assms by (simp add: valid_civil_def)
  moreover have "days_from_civil y m ?d = n" using days_from_civil_day [of y m 1 "?d - 1"] by (simp add: add.commute)
  ultimately show ?thesis using civil_days_civil [of y m ?d] by simp
qed

text \<open>In a regular location the last instant of a bucket lies in it.\<close>

lemma Bucket_end:
  assumes "\<forall>s. level \<noteq> LevelOther s" and reg: "regular_from loc t0" and "t0 \<le> From (Bucket level t loc)"
    and "From (Bucket level t loc) < To (Bucket level t loc)"
  shows "Bucket level (To (Bucket level t loc) - 1) loc = Bucket level t loc"
proof -
  define x where "x = To (Bucket level t loc) - 1"
  have x: "t0 \<le> x" "From (Bucket level t loc) \<le> x" "x < To (Bucket level t loc)" using assms(3,4) by (simp_all add: x_def)
  note law = regular_fromD [OF reg x(1)]
  obtain y m d where ymd: "date_in loc t = (y, m, d)" by (cases "date_in loc t")
  have v: "valid_civil y m d" by (rule date_in_valid [OF ymd])
  then have m: "1 \<le> m" "m \<le> 12" by (simp_all add: valid_civil_def)
  obtain y' m' d' where ymd': "date_in loc x = (y', m', d')" by (cases "date_in loc x")
  have civil: "civil_from_days (local_day loc x) = (y', m', d')" using ymd' by (simp add: date_in_def)
  show ?thesis
  proof (cases level)
    case Hourly
    have grid: "Truncate u hour = zero_time + hour * ((u - zero_time) div hour)" for u
      using mult_div_mod_eq [of hour "u - zero_time"] unfolding Truncate_def by linarith
    have b: "Truncate t hour \<le> x" "x < Truncate t hour + hour"
      using x(2,3) Hourly by (simp_all add: Bucket_def Let_def)
    have "(x - zero_time) div hour = (t - zero_time) div hour"
      by (rule int_div_pos_eq [where r = "x - Truncate t hour"]) (use b in \<open>simp_all add: grid\<close>)
    then have "Truncate x hour = Truncate t hour" by (simp add: grid)
    then show ?thesis unfolding x_def [symmetric] by (simp add: Hourly Bucket_def Let_def)
  next
    case Daily
    have "days_from_civil y m d \<le> local_day loc x" "local_day loc x < days_from_civil y m (d + 1)"
      using x(2,3) law [of y m d] law [of y m "d + 1"] by (auto simp: Daily Bucket_def ymd)
    then have "local_day loc x = days_from_civil y m d" using days_from_civil_day [of y m d 1] by simp
    then have "date_in loc x = (y, m, d)" using civil_days_civil [OF v] by (simp add: date_in_def)
    then show ?thesis unfolding x_def [symmetric] by (simp add: Daily Bucket_def ymd)
  next
    case Monthly
    have "days_from_civil y m 1 \<le> local_day loc x" "local_day loc x < days_from_civil y (m + 1) 1"
      using x(2,3) law [of y m 1] law [of y "m + 1" 1] by (auto simp: Monthly Bucket_def ymd)
    from days_month [OF m this] civil have "y' = y" "m' = m" by simp_all
    then show ?thesis unfolding x_def [symmetric] by (simp add: Monthly Bucket_def ymd ymd')
  next
    case Yearly
    have in_y: "days_from_civil y 1 1 \<le> local_day loc x" "local_day loc x < days_from_civil (y + 1) 1 1"
      using x(2,3) law [of y 1 1] law [of "y + 1" 1 1] by (auto simp: Yearly Bucket_def ymd)
    have mono: "days_from_civil a 1 1 \<le> days_from_civil b 1 1" if "a \<le> b" for a b
      using days_before_year_mono [OF that] by (simp add: days_from_civil_plain days_before_month_def)
    have v': "valid_civil y' m' d'" by (rule date_in_valid [OF ymd'])
    then have r: "1 \<le> m'" "m' \<le> 12" "1 \<le> d'" "d' \<le> month_len y' m'" by (simp_all add: valid_civil_def)
    have n: "local_day loc x = days_from_civil y' m' d'" using date_in_days [OF ymd'] by simp
    have "days_from_civil y' 1 1 \<le> local_day loc x" "local_day loc x < days_from_civil (y' + 1) 1 1"
      using r days_before_month_range [OF r(1,2), of "is_leap y'"] unfolding n
      by (auto simp: days_from_civil_plain days_before_year_Suc days_before_month_def [of _ 1] month_len_def)
    then have "\<not> y + 1 \<le> y'" "\<not> y' + 1 \<le> y" using mono [of "y + 1" y'] mono [of "y' + 1" y] in_y by auto
    then have "y' = y" by simp
    then show ?thesis unfolding x_def [symmetric] by (simp add: Yearly Bucket_def ymd ymd')
  qed (use assms in simp)
qed

lemma Buckets_are_buckets: "w \<in> set (Buckets level v loc) \<Longrightarrow> \<exists>t. w = Bucket level t loc"
proof -
  have walk: "w \<in> set (bucket_walk (\<lambda>ts. Bucket level ts loc) v (Bucket level t loc)) \<Longrightarrow> \<exists>t. w = Bucket level t loc" for t
  proof (induction "nat (To v - From (Bucket level t loc))" arbitrary: t rule: less_induct)
    case less
    from less.prems show ?case
    proof (subst (asm) bucket_walk.simps, goal_cases)
      case 1
      let ?t = "To (Bucket level t loc)"
      have "w = Bucket level t loc \<or> From (Bucket level t loc) < To v \<and> From (Bucket level t loc) < From (Bucket level ?t loc) \<and>
          w \<in> set (bucket_walk (\<lambda>ts. Bucket level ts loc) v (Bucket level ?t loc))"
        using 1 by (auto simp: Let_def split: if_splits)
      then show ?case using less.hyps [of ?t] by auto
    qed
  qed
  show "w \<in> set (Buckets level v loc) \<Longrightarrow> \<exists>t. w = Bucket level t loc"
    using walk by (auto simp: Buckets_def Let_def split: if_splits)
qed

text \<open>The windows of a request: the calendar buckets of its range, or explicit windows at the monthly level.\<close>

definition request_windows :: "location \<Rightarrow> window_mode \<Rightarrow> window list \<Rightarrow> bool" where
  "request_windows loc mode bs \<longleftrightarrow> bucket_run bs \<and>
     (if wm_explicit mode then wm_level mode = Monthly
      else validLevel (wm_level mode) \<and> (\<exists>v. bs = Buckets (wm_level mode) v loc))"

lemma half_within: "0 < d \<Longrightarrow> half_duration d < d" by (simp add: half_duration_def)

lemma half_duration_mono: "d \<le> e \<Longrightarrow> half_duration d \<le> half_duration e"
  by (auto simp: half_duration_def zdiv_mono1 intro: order.trans [of _ 0] div_int_pos_iff)

lemma Sub_le: "0 \<le> t - u \<Longrightarrow> Sub t u \<le> t - u" by (simp add: Sub_def)

lemma explicitHalfWidths_le:
  assumes "w \<in> set bs"
  shows "\<exists>h. explicitHalfWidths bs (To w) = Some h \<and> h \<le> half_duration (Sub (To w) (From w))"
proof -
  define step where "step = (\<lambda>w :: window. \<lambda>out :: time \<rightharpoonup> duration.
    let half = half_duration (Sub (To w) (From w)) in set_half (To w) half (set_half (From w) half out))"
  have shrink: "\<exists>h'. set_half b half out x = Some h' \<and> h' \<le> h" if "out x = Some h" for out x h b half
    using that by (auto simp: set_half_def split: option.splits)
  have keep: "\<exists>h'. fold step ws out x = Some h' \<and> h' \<le> h" if "out x = Some h" for ws out x h
    using that
  proof (induction ws arbitrary: out h)
    case (Cons v ws)
    let ?half = "half_duration (Sub (To v) (From v))"
    obtain h0 where h0: "set_half (From v) ?half out x = Some h0" "h0 \<le> h"
      using shrink [where out = out and x = x and h = h and b = "From v" and half = ?half] Cons.prems by blast
    obtain h1 where "step v out x = Some h1" "h1 \<le> h0"
      using shrink [where out = "set_half (From v) ?half out" and x = x and h = h0 and b = "To v" and half = ?half] h0(1) by (auto simp: step_def Let_def)
    then have "step v out x = Some h1" "h1 \<le> h" using h0(2) by simp_all
    with Cons.IH [of "step v out" h1] show ?case by (auto intro: order.trans)
  qed simp
  have here: "\<exists>h. step w out (To w) = Some h \<and> h \<le> half_duration (Sub (To w) (From w))" for out
    by (auto simp: step_def Let_def set_half_def split: option.splits)
  obtain us vs where bs: "bs = us @ w # vs" using split_list [OF assms] by blast
  obtain h where h: "step w (fold step us Map.empty) (To w) = Some h" "h \<le> half_duration (Sub (To w) (From w))"
    using here by blast
  from keep [where out = "step w (fold step us Map.empty)" and x = "To w" and h = h and ws = vs] h show ?thesis
    by (auto simp: explicitHalfWidths_def step_def [symmetric] bs intro: order.trans)
qed

lemma end_after_start:
  assumes reg: "regular_from loc (From (hd bs))" and req: "request_windows loc mode bs" and w: "w \<in> set bs" and level: "wm_level mode \<noteq> Hourly"
    and e: "resolve_at loc mode bs lp bl dl ub ud (To w) = Some r"
  shows "From w < TS r"
proof -
  define tol where "tol = (if wm_explicit mode
     then (\<lambda>k. min k (case explicitHalfWidths bs (To w) of None \<Rightarrow> 0 | Some h \<Rightarrow> h))
     else boundaryTolerance loc (wm_level mode) (To w))"
  have run: "bucket_run bs" using req by (simp add: request_windows_def)
  have valid: "From w < To w" using run_bounds(3) [OF run w] .
  have sub: "half_duration (Sub (To w) (From w)) < To w - From w"
    using half_duration_mono [OF Sub_le [of "To w" "From w"]] half_within [of "To w - From w"] valid by linarith
  have tol: "tol k \<le> half_duration (Sub (To w) (From w))" for k
  proof (cases "wm_explicit mode")
    case True
    obtain h where "explicitHalfWidths bs (To w) = Some h" "h \<le> half_duration (Sub (To w) (From w))"
      using explicitHalfWidths_le [OF w] by blast
    then show ?thesis using True by (simp add: tol_def)
  next
    case False
    have lv: "\<forall>s. wm_level mode \<noteq> LevelOther s" and cal: "\<exists>v. bs = Buckets (wm_level mode) v loc"
      using req False by (auto simp: request_windows_def)
    obtain t where t: "w = Bucket (wm_level mode) t loc" using cal w Buckets_are_buckets by blast
    have "Bucket (wm_level mode) (To w - 1) loc = w"
      using Bucket_end [OF lv reg] run_bounds(1) [OF run w] valid unfolding t by blast
    then show ?thesis
      using half_duration_mono by (auto simp: tol_def False boundaryTolerance_def Let_def not_less intro: order.trans)
  qed
  have "To w - tol k \<le> TS r" if "boundaryCandidate rs (To w) (tol k) = Some r" for rs k
    using that by (auto simp: boundaryCandidate_def split: option.splits if_splits)
  moreover have "resolve_at loc mode bs lp bl dl ub ud (To w) = resolveBoundary (wm_level mode) (To w) tol lp bl dl
      (if wm_explicit mode then ub \<and> isMonthStart loc (To w) else ub) ud"
    by (auto simp: resolve_at_def Let_def tol_def)
  ultimately obtain k where "To w - tol k \<le> TS r"
    using e level by (auto simp: resolveBoundary_def split: option.splits if_splits)
  then show ?thesis using tol [of k] sub by linarith
qed

text \<open>C10. A gap always names the boundaries that are missing. In a location that is regular from the start of the request on (a local
  date is reached at its midnight, as in Istanbul), for the calendar buckets of the four levels and for explicit
  monthly windows, the answer for an analyzer is never the internal error of \<open>classifyGap\<close>, and each gap lists exactly those
  of its two instants, at least one, for which the whole history of the analyzer has no reading within the tolerances: the case of two boundaries resolved
  to one reading, which the code still handles, does not arise.\<close>

theorem gap_reasons:
  fixes db s a
  assumes "regular_from loc (From (hd bs))" and "request_windows loc mode bs"
  defines "at_bound \<equiv> resolved_at (bd_resolved (whole_history loc (history_of (cd_readings db) s) a mode bs))"
  shows "case consumptionForAnalyzer L NewFromString loc now db s a mode bs of
      Inl e \<Rightarrow> \<forall>w. e \<noteq> GapInvariant w
    | Inr (rows, gaps) \<Rightarrow> \<forall>g \<in> set gaps. bg_Boundaries g \<noteq> [] \<and>
        bg_Boundaries g = (if at_bound (From (bg_Window g)) = None then [''start''] else []) @
                          (if at_bound (To (bg_Window g)) = None then [''end''] else [])"
proof -
  let ?c = "consumptionForAnalyzer L NewFromString loc now db s a mode bs"
  let ?load = "loadAnalyzerBoundaryData loc (repo_of (cd_readings db) s) a mode bs"
  let ?level = "wm_level mode"
  have run: "bucket_run bs" using assms(2) by (simp add: request_windows_def)
  have gap: "\<not> (\<exists>st en. resolved_at (bd_resolved d) (From w) = Some st \<and> resolved_at (bd_resolved d) (To w) = Some en) \<and>
      resolved_at (bd_resolved d) (From w) = at_bound (From w) \<and> resolved_at (bd_resolved d) (To w) = at_bound (To w)"
    if load: "?load = Inr d" and w: "w \<in> set bs" and g: "is_gap L loc a d ?level now any earliest w" for d w any earliest
  proof -
    have ne: "bs \<noteq> []" using w by auto
    note rb = run_bounds [OF run w]
    have rd: "bd_resolved d = resolveBoundaries loc mode bs (bd_loadProfile d) (bd_billing d) (bd_daily d)
        (?level = Monthly) (?level \<noteq> Hourly)"
      and sorted: "sorted (map TS (bd_loadProfile d))" "sorted (map TS (bd_billing d))" "sorted (map TS (bd_daily d))"
      by (rule stored.loaded_parts [OF load run]; simp add: slice_def sorted_filter stored.hist_sorted)+
    have whole: "resolved_at (bd_resolved d) b = at_bound b" if "b = From w \<or> b = To w" for b
    proof -
      have b: "b \<in> bounds bs" "From (hd bs) \<le> b" "b \<le> To (last bs)" using that rb by auto
      show ?thesis unfolding rd resolved_at_bounds [OF ne b(1)] at_bound_def by (rule stored.resolve_at_slice [OF load run b(2,3)])
    qed
    have False if se: "resolved_at (bd_resolved d) (From w) = Some st" "resolved_at (bd_resolved d) (To w) = Some en" for st en
    proof -
      have "TS st \<le> From w"
        using stored.resolve_at_mem [OF se(1) [unfolded rd resolved_at_bounds [OF ne rb(4)]] sorted] by blast
      also have "From w < TS en"
        by (rule end_after_start [OF assms(1,2) w _ se(2) [unfolded rd resolved_at_bounds [OF ne rb(5)]]]) (use g in \<open>simp add: is_gap_def\<close>)
      finally show False using deriveRow_both [OF se, of L loc a ?level] g by (simp add: is_gap_def)
    qed
    then show ?thesis using whole by blast
  qed
  show ?thesis
  proof (cases ?c)
    case (Inl e)
    have "e \<noteq> GapInvariant w" for w
    proof
      assume e: "e = GapInvariant w"
      then obtain d where load: "?load = Inr d"
        using Inl by (cases ?load) (auto simp: consumptionForAnalyzer_def and_then_def store_result_def Let_def)
      define earliest where "earliest = (if \<not> bd_hasPriorReading d then earliestBoundaryReading d else None)"
      have over: "override_gaps L NewFromString z a lv d as gs acc \<noteq> Inl (GapInvariant w)" for z lv as gs acc
        by (induction gs arbitrary: acc) (auto split: option.splits)
      have "applyResolvedGapOverrides L NewFromString z db s a lv gs d \<noteq> Inl (GapInvariant w)" for z lv gs
        using over by (auto simp: applyResolvedGapOverrides_def and_then_def store_result_def split: prod.splits sum.splits)
      then have "bucket_loop L loc a d ?level now (any_readings d) earliest bs ([], []) = Inl (GapInvariant w)"
        using Inl e load by (auto simp: consumptionForAnalyzer_def and_then_def store_result_def Let_def earliest_def split: sum.splits if_splits prod.splits)
      from bucket_loop_error [OF this] obtain v where v: "v \<in> set bs"
        "is_gap L loc a d ?level now (any_readings d) earliest v" "isl (classifyGap v (bd_resolved d))" by blast
      from gap [OF load v(1,2)] v(3) show False by (auto simp: classifyGap_def split: option.splits)
    qed
    then show ?thesis using Inl by simp
  next
    case (Inr res)
    obtain rows gaps where res: "res = (rows, gaps)" by (cases res)
    obtain d earliest over where load: "?load = Inr d"
      and gaps: "map bg_Window gaps = filter (\<lambda>w. is_gap L loc a d ?level now (any_readings d) earliest w \<and> \<not> over w) bs"
      and cls: "\<forall>g \<in> set gaps. classifyGap (bg_Window g) (bd_resolved d) = Inr (bg_Boundaries g)"
      by (rule consumption_parts [OF Inr [unfolded res] run], rule that)
    have "bg_Boundaries g \<noteq> [] \<and> bg_Boundaries g = (if at_bound (From (bg_Window g)) = None then [''start''] else []) @
        (if at_bound (To (bg_Window g)) = None then [''end''] else [])" if "g \<in> set gaps" for g
    proof -
      have "bg_Window g \<in> set (map bg_Window gaps)" using that by simp
      then have "bg_Window g \<in> set bs" "is_gap L loc a d ?level now (any_readings d) earliest (bg_Window g)"
        unfolding gaps by auto
      from gap [OF load this] bspec [OF cls that] show ?thesis by (auto simp: classifyGap_def split: option.splits)
    qed
    then show ?thesis unfolding Inr res sum.case prod.case by blast
  qed
qed

lemma evidence_explicit:
  "map_sum id (\<lambda>(rows, gaps). (map cr_Window rows, gaps))
     (consumptionForAnalyzer std_declib (\<lambda>_. None) istanbul_2016 (1000 * hour) evidence_consumption_db (SystemScope 100) 7
       \<lparr>wm_level = Monthly, wm_explicit = True\<rparr> [utc_day 0, utc_day 1, utc_day 2]) =
   Inr ([utc_day 1, utc_day 2], [\<lparr>bg_Window = utc_day 0, bg_Boundaries = [''start'']\<rparr>])"
  by code_simp

theorem gap_reasons_witness:
  "case consumptionForAnalyzer std_declib (\<lambda>_. None) istanbul_2016 (1000 * hour) evidence_consumption_db (SystemScope 100) 7
       \<lparr>wm_level = Monthly, wm_explicit = True\<rparr> [utc_day 0, utc_day 1, utc_day 2] of
     Inl e \<Rightarrow> False
   | Inr (rows, gaps) \<Rightarrow> gaps = [\<lparr>bg_Window = utc_day 0, bg_Boundaries = [''start'']\<rparr>] \<and> (\<forall>g \<in> set gaps. bg_Boundaries g \<noteq> [])"
proof -
  let ?m = "\<lparr>wm_level = Monthly, wm_explicit = True\<rparr>"
  let ?c = "consumptionForAnalyzer std_declib (\<lambda>_. None) istanbul_2016 (1000 * hour) evidence_consumption_db (SystemScope 100) 7
       ?m [utc_day 0, utc_day 1, utc_day 2]"
  obtain rows gaps where c: "?c = Inr (rows, gaps)" and w: "gaps = [\<lparr>bg_Window = utc_day 0, bg_Boundaries = [''start'']\<rparr>]"
    using evidence_explicit by (cases ?c) auto
  have "request_windows istanbul_2016 ?m [utc_day 0, utc_day 1, utc_day 2]"
    by (simp add: request_windows_def bucket_run_def utc_day_def Valid_def hour_def ns_per_sec_def)
  from gap_reasons [OF istanbul_regular this, where L = std_declib and NewFromString = "\<lambda>_. None" and now = "1000 * hour"
      and db = evidence_consumption_db and s = "SystemScope 100" and a = 7]
  show ?thesis unfolding c by (simp add: w)
qed

section \<open>Consecutive rows telescope\<close>

lemma entry_readingIndexes: "entry (Some (readingIndexes r)) reg = Values r reg"
  by (cases reg) (simp_all add: entry_def readingIndexes_def AllRegisters_def allRegisters_def)

lemma entry_derived: "entry (d_Values d) reg = derived d reg"
  by (simp add: entry_def derived_def id_def split: option.splits)

lemma stored_kinds: "r \<in> set (hist (history_of db s) a k) \<Longrightarrow> Kind r = toEnergyKind k"
  by (auto simp: hist_def toEnergyReadings_def toEnergyReading_def history_of_def seen_of_def readingFromRow_def)

lemma plain_value:
  assumes "TS st < TS en" and "sorted (map TS resets)"
    and "\<forall>r \<in> set resets. Kind r = KindReset \<longrightarrow> TS r < TS st \<or> TS en < TS r" and "Kind st \<noteq> KindReset" and "Kind en \<noteq> KindReset"
    and "entry (d_Values (Derive w (Some st) (Some en) resets priors)) reg = Some v"
  shows "\<exists>x y. Values st reg = Some x \<and> Values en reg = Some y \<and> v = y - x"
  using assms(6) unfolding Derive_no_evidence [OF assms(2-5)] entry_derived Difference_rows [OF assms(1)]
  by (auto simp: difference_register_fst split: option.splits if_splits)

text \<open>The chain of rows of consecutive windows.\<close>

fun row_chain :: "consumption_row list \<Rightarrow> bool" where
  "row_chain (r # r' # rs) \<longleftrightarrow> cr_Indexes r = cr_StartIndexes r' \<and> cr_SpanTo r = cr_SpanFrom r' \<and> row_chain (r' # rs)"
| "row_chain _ \<longleftrightarrow> True"

lemma rows_chain:
  assumes "contiguous ws" and "map (\<lambda>w. deriveRow L istanbul a w d [] level) ws = map Some rows"
  shows "row_chain rows"
  using assms
proof (induction rows arbitrary: ws rule: row_chain.induct)
  case (1 r r' rs)
  then obtain w w' ws' where ws: "ws = w # w' # ws'" by (auto simp: map_eq_Cons_conv)
  have "deriveRow L istanbul a w d [] level = Some r" "deriveRow L istanbul a w' d [] level = Some r'" "To w = From w'"
    using 1(2,3) by (auto simp: ws)
  then have "cr_Indexes r = cr_StartIndexes r' \<and> cr_SpanTo r = cr_SpanFrom r'"
    by (auto elim!: deriveRow_parts)
  then show ?case using 1(1) [of "w' # ws'"] 1(2,3) by (auto simp: ws)
qed simp_all

lemma chain_sum:
  assumes "row_chain rows" and "rows \<noteq> []"
    and "\<forall>row \<in> set rows. \<exists>x y. entry (cr_StartIndexes row) reg = Some x \<and> entry (cr_Indexes row) reg = Some y \<and>
      entry (cr_Values row) reg = Some (y - x)"
  shows "\<exists>x y. entry (cr_StartIndexes (hd rows)) reg = Some x \<and> entry (cr_Indexes (last rows)) reg = Some y \<and>
    sum_list (map (\<lambda>row. the (entry (cr_Values row) reg)) rows) = y - x"
  using assms
proof (induction rows rule: row_chain.induct)
  case (1 r r' rs)
  then show ?case by fastforce
qed auto

lemma chain_span:
  assumes "row_chain rows" and "\<forall>row \<in> set rows. cr_SpanFrom row \<le> cr_SpanTo row" and "row \<in> set rows"
  shows "cr_SpanFrom (hd rows) \<le> cr_SpanFrom row \<and> cr_SpanTo row \<le> cr_SpanTo (last rows)"
  using assms
proof (induction rows arbitrary: row rule: row_chain.induct)
  case (1 r r' rs)
  from 1(1) [of r'] 1(1) [of row] 1(2-) show ?case by force
qed auto

text \<open>C8. Consecutive rows telescope. When every window of a contiguous run, calendar buckets or explicit billing periods, gives a row, each
  row opens with the index, and at the instant, the one before it closed with. When moreover no reset reading of the analyzer lies in the
  span from the first opening to the last closing, and the register has a consumption in every row, these consumptions add up to
  its last closing index minus its first opening index: nothing is counted twice and nothing is lost between periods.\<close>

theorem rows_telescope:
  assumes load: "loadAnalyzerBoundaryData istanbul (repo_of db s) a mode ws = Inr d" and run: "bucket_run ws"
    and rows: "map (\<lambda>w. deriveRow L istanbul a w d [] (wm_level mode)) ws = map Some rows"
  shows "row_chain rows \<and>
    ((\<forall>r \<in> set (history_of db s a ReadingKindReset). mr_Ts r < cr_SpanFrom (hd rows) \<or> cr_SpanTo (last rows) < mr_Ts r) \<longrightarrow>
     (\<forall>row \<in> set rows. entry (cr_Values row) reg \<noteq> None) \<longrightarrow>
     (\<exists>x y. entry (cr_StartIndexes (hd rows)) reg = Some x \<and> entry (cr_Indexes (last rows)) reg = Some y \<and>
       sum_list (map (\<lambda>row. the (entry (cr_Values row) reg)) rows) = y - x))"
proof -
  have ne: "ws \<noteq> []" "rows \<noteq> []" using run rows by (auto simp: bucket_run_def)
  have chain: "row_chain rows" by (rule rows_chain [OF _ rows]) (use run in \<open>simp add: bucket_run_def\<close>)
  have at_w: "\<exists>w \<in> set ws. deriveRow L istanbul a w d [] (wm_level mode) = Some row" if "row \<in> set rows" for row
  proof -
    have "Some row \<in> set (map Some rows)" using that by simp
    then show ?thesis unfolding rows [symmetric] by auto
  qed
  have "cr_SpanFrom row \<le> cr_SpanTo row" if "row \<in> set rows" for row
    using at_w [OF that] by (auto elim!: deriveRow_parts)
  then have span: "cr_SpanFrom (hd rows) \<le> cr_SpanFrom row \<and> cr_SpanTo row \<le> cr_SpanTo (last rows)" if "row \<in> set rows" for row
    using chain_span [OF chain _ that] by blast
  have rd: "bd_resolved d = resolveBoundaries istanbul mode ws (bd_loadProfile d) (bd_billing d) (bd_daily d)
      (wm_level mode = Monthly) (wm_level mode \<noteq> Hourly)"
    and sorted: "sorted (map TS (bd_loadProfile d))" "sorted (map TS (bd_billing d))" "sorted (map TS (bd_daily d))"
      "sorted (map TS (bd_resets d))"
    and sub: "set (bd_resets d) \<subseteq> set (hist (history_of db s) a ReadingKindReset)"
      "set (bd_loadProfile d) \<subseteq> set (hist (history_of db s) a ReadingKindLoadProfile)"
      "set (bd_billing d) \<subseteq> set (hist (history_of db s) a ReadingKindBilling)"
      "set (bd_daily d) \<subseteq> set (hist (history_of db s) a ReadingKindDaily)"
    by (rule stored.loaded_parts [OF load run]; auto simp: slice_def sorted_filter stored.hist_sorted)+
  have nk: "Kind r \<noteq> KindReset" if "resolved_at (bd_resolved d) b = Some r" "b \<in> bounds ws" for r b
  proof -
    have "r \<in> set (bd_loadProfile d) \<union> (if wm_level mode = Monthly then set (bd_billing d) else {}) \<union>
        (if wm_level mode \<noteq> Hourly then set (bd_daily d) else {})"
      using stored.resolve_at_mem [OF that(1) [unfolded rd resolved_at_bounds [OF ne(1) that(2)]] sorted(1-3)] by blast
    then have "\<exists>k \<in> {ReadingKindLoadProfile, ReadingKindBilling, ReadingKindDaily}. r \<in> set (hist (history_of db s) a k)"
      using sub(2-4) by (auto split: if_splits)
    then show ?thesis using stored_kinds by fastforce
  qed
  have vals: "\<exists>x y. entry (cr_StartIndexes row) reg = Some x \<and> entry (cr_Indexes row) reg = Some y \<and>
      entry (cr_Values row) reg = Some (y - x)"
    if resets: "\<forall>r \<in> set (history_of db s a ReadingKindReset). mr_Ts r < cr_SpanFrom (hd rows) \<or> cr_SpanTo (last rows) < mr_Ts r"
      and sound: "\<forall>row \<in> set rows. entry (cr_Values row) reg \<noteq> None" and row: "row \<in> set rows" for row
  proof -
    obtain w where w: "w \<in> set ws" "deriveRow L istanbul a w d [] (wm_level mode) = Some row" using at_w [OF row] by blast
    obtain st en where p: "resolved_at (bd_resolved d) (From w) = Some st" "resolved_at (bd_resolved d) (To w) = Some en" "TS st < TS en"
      and ix: "cr_StartIndexes row = Some (readingIndexes st)" "cr_Indexes row = Some (readingIndexes en)"
      and sp: "cr_SpanFrom row = TS st" "cr_SpanTo row = TS en"
      and val: "cr_Values row = d_Values (Derive w (Some st) (Some en) (bd_resets d) (bd_priors d))"
      by (rule deriveRow_parts [OF w(2)], rule that)
    have "TS r < TS st \<or> TS en < TS r" if "r \<in> set (bd_resets d)" for r
      using that sub(1) resets span [OF row] sp by (fastforce simp: hist_def toEnergyReadings_def toEnergyReading_def)
    then have quiet: "\<forall>r \<in> set (bd_resets d). Kind r = KindReset \<longrightarrow> TS r < TS st \<or> TS en < TS r" by blast
    obtain v where v: "entry (cr_Values row) reg = Some v" using sound row by blast
    from plain_value [OF p(3) sorted(4) quiet nk [OF p(1)] nk [OF p(2)] v [unfolded val]] run_bounds(4,5) [OF run w(1)] v
    show ?thesis by (auto simp: ix entry_readingIndexes)
  qed
  from chain_sum [OF chain ne(2)] vals chain show ?thesis by blast
qed

definition evidence_rows :: "boundary_data \<Rightarrow> consumption_row list" where
  "evidence_rows d = map (\<lambda>w. the (deriveRow std_declib (fixed_zone 0) 7 w d [] Daily)) [utc_day 1, utc_day 2]"

lemma evidence_loaded:
  "case loadAnalyzerBoundaryData (fixed_zone 0) (repo_of evidence_db (SystemScope 100)) 7 \<lparr>wm_level = Daily, wm_explicit = False\<rparr>
       [utc_day 1, utc_day 2] of
     Inl e \<Rightarrow> False
   | Inr d \<Rightarrow> list_all (\<lambda>w. \<not> Option.is_none (deriveRow std_declib (fixed_zone 0) 7 w d [] Daily)) [utc_day 1, utc_day 2] \<and>
       map (\<lambda>row. entry (cr_Values row) ActiveImport) (evidence_rows d) = [Some 30, Some 40]"
  by code_simp

theorem rows_telescope_witness:
  "case loadAnalyzerBoundaryData (fixed_zone 0) (repo_of evidence_db (SystemScope 100)) 7 \<lparr>wm_level = Daily, wm_explicit = False\<rparr>
       [utc_day 1, utc_day 2] of
     Inl e \<Rightarrow> False
   | Inr d \<Rightarrow> row_chain (evidence_rows d) \<and>
       (\<exists>x y. entry (cr_StartIndexes (hd (evidence_rows d))) ActiveImport = Some x \<and>
         entry (cr_Indexes (last (evidence_rows d))) ActiveImport = Some y \<and> 30 + 40 = y - x)"
proof -
  let ?m = "\<lparr>wm_level = Daily, wm_explicit = False\<rparr>"
  let ?load = "loadAnalyzerBoundaryData (fixed_zone 0) (repo_of evidence_db (SystemScope 100)) 7 ?m [utc_day 1, utc_day 2]"
  obtain d where d: "?load = Inr d" and some: "list_all (\<lambda>w. \<not> Option.is_none (deriveRow std_declib (fixed_zone 0) 7 w d [] Daily)) [utc_day 1, utc_day 2]"
    and vals: "map (\<lambda>row. entry (cr_Values row) ActiveImport) (evidence_rows d) = [Some 30, Some 40]"
    using evidence_loaded by (cases ?load) auto
  have run: "bucket_run [utc_day 1, utc_day 2]" by (simp add: bucket_run_def utc_day_def Valid_def hour_def ns_per_sec_def)
  have rows: "map (\<lambda>w. deriveRow std_declib (fixed_zone 0) 7 w d [] (wm_level ?m)) [utc_day 1, utc_day 2] = map Some (evidence_rows d)"
    using some by (auto simp: evidence_rows_def Option.is_none_def)
  have none: "history_of evidence_db (SystemScope 100) 7 ReadingKindReset = []" by code_simp
  have sound: "\<forall>row \<in> set (evidence_rows d). entry (cr_Values row) ActiveImport \<noteq> None"
    using vals by (auto simp: evidence_rows_def)
  have sum: "map (\<lambda>row. the (entry (cr_Values row) ActiveImport)) (evidence_rows d) = [30, 40]"
    using arg_cong [OF vals, of "map the"] by (simp add: comp_def)
  from rows_telescope [OF d run rows, of ActiveImport] sound show ?thesis unfolding d sum.case none sum by simp
qed

end
