(* ===== verification/Consumption_Record.thy ===== *)
theory Consumption_Record
  imports Consumption_Rows
begin

text \<open>
  The write path of the exact consumption service (\<open>anomalies.go\<close>): for every suspect register and every gap of a
  derivation one row of \<open>consumption_anomalies\<close> and one operator message, created at most once. The state is the database of
  \<open>Anomalies_Store\<close>. What the world outside decides (generated identifiers, the clock of the database, a failing
  append, the answers of the lock) is the record \<open>world\<close>, whose fields are functions of the state.
\<close>

datatype lock_answer = Acquired | NotAcquired | LockFailed

record world =
  new_anomaly_id :: "consumption_db \<Rightarrow> uuid"
  new_message_id :: "consumption_db \<Rightarrow> int"
  db_now :: "consumption_db \<Rightarrow> time"
  append_fails :: "consumption_db \<Rightarrow> bool"
  lock_attempt :: "consumption_db \<Rightarrow> string \<Rightarrow> nat \<Rightarrow> lock_answer"
  uuid_text :: "uuid \<Rightarrow> string"
  lower_text :: "string \<Rightarrow> string"

section \<open>Details and messages\<close>

definition jstr :: "string \<Rightarrow> json" where "jstr s = JString s"

definition register_detail :: "declib \<Rightarrow> suspicion \<Rightarrow> json" where
  "register_detail L susp =
     JObject ([(''reason'', jstr (reason_string (Reason susp)))] @
       (case Delta susp of None \<Rightarrow> [] | Some d \<Rightarrow> [(''delta'', jstr (DecString L d))]) @
       [(''reset_rows'', JNumber (of_nat (ResetRows susp)))])"

text \<open>The map is encoded with its keys in order; an empty one is omitted.\<close>

definition buildAnomalyDetail :: "declib \<Rightarrow> window \<Rightarrow> (register \<rightharpoonup> suspicion) \<Rightarrow> json" where
  "buildAnomalyDetail L period regs =
     (let entries = map (\<lambda>reg. (register_string reg, register_detail L (the (regs reg))))
            (sort_key register_string (filter (\<lambda>reg. regs reg \<noteq> None) AllRegisters))
      in JObject ([(''code'', jstr anomalyDetailCode), (''period_start'', jstr (RFC3339 utc (From period))),
                   (''period_end'', jstr (RFC3339 utc (To period)))] @
                  (if entries = [] then [] else [(''registers'', JObject entries)])))"

definition buildMissingReadingsDetail :: "window \<Rightarrow> string list \<Rightarrow> json" where
  "buildMissingReadingsDetail period boundaries =
     JObject ([(''code'', jstr anomalyDetailCode), (''period_start'', jstr (RFC3339 utc (From period))),
               (''period_end'', jstr (RFC3339 utc (To period)))] @
              (if boundaries = [] then [] else [(''boundaries'', JArray (map jstr boundaries))]))"

definition missingReadingsMessageText :: "(uuid \<Rightarrow> string) \<Rightarrow> uuid \<Rightarrow> bucket_gap \<Rightarrow> string" where
  "missingReadingsMessageText uuid_string analyzer gap =
     ''Analyzer '' @ uuid_string analyzer @ '': consumption for '' @ RFC3339 utc (From (bg_Window gap)) @ '' to '' @
     RFC3339 utc (To (bg_Window gap)) @ '' is missing readings at the '' @ str_join '' and '' (bg_Boundaries gap) @ '' boundary.''"

definition anomalyMessageText :: "(uuid \<Rightarrow> string) \<Rightarrow> consumption_row \<Rightarrow> string \<Rightarrow> (register \<rightharpoonup> suspicion) \<Rightarrow> string" where
  "anomalyMessageText uuid_string row reason regs =
     (let names = sort (map register_string (filter (\<lambda>reg. regs reg \<noteq> None) AllRegisters))
      in ''Analyzer '' @ uuid_string (cr_AnalyzerID row) @ '': consumption for '' @ RFC3339 utc (From (cr_Window row)) @ '' to '' @
         RFC3339 utc (To (cr_Window row)) @ '' is suspect ('' @ reason @ '') for register(s) '' @ str_join '', '' names @ ''.'')"

definition reasonOrder :: "reason list" where
  "reasonOrder = [ReasonNegativeDelta, ReasonMeterReset, ReasonMissingReadings]"

definition groupSuspectByReason :: "(register \<rightharpoonup> suspicion) \<Rightarrow> reason \<Rightarrow> (register \<rightharpoonup> suspicion)" where
  "groupSuspectByReason suspect r = (\<lambda>reg. case suspect reg of Some x \<Rightarrow> if Reason x = r then Some x else None | None \<Rightarrow> None)"

definition orderedReasons :: "(reason \<Rightarrow> (register \<rightharpoonup> suspicion)) \<Rightarrow> reason list" where
  "orderedReasons groups = filter (\<lambda>r. list_ex (\<lambda>reg. groups r reg \<noteq> None) AllRegisters) reasonOrder"

section \<open>The lock\<close>

definition anomalyLockAcquireAttempts :: nat where "anomalyLockAcquireAttempts = 5"

definition anomalyLockKey :: "(uuid \<Rightarrow> string) \<Rightarrow> uuid \<Rightarrow> time \<Rightarrow> string" where
  "anomalyLockKey uuid_string analyzer periodStart =
     ''consumption.anomaly:'' @ uuid_string analyzer @ '':'' @ RFC3339 utc periodStart"

text \<open>The attempts that are left, from number \<open>i\<close> on; \<open>None\<close> is success.\<close>

fun acquire_from :: "world \<Rightarrow> consumption_db \<Rightarrow> string \<Rightarrow> nat \<Rightarrow> nat \<Rightarrow> consumption_error option" where
  "acquire_from W db key i 0 = Some LockBusy"
| "acquire_from W db key i (Suc n) =
     (case lock_attempt W db key i of
        Acquired \<Rightarrow> None
      | LockFailed \<Rightarrow> Some LockBroken
      | NotAcquired \<Rightarrow> acquire_from W db key (Suc i) n)"

definition acquireAnomalyLock :: "world \<Rightarrow> consumption_db \<Rightarrow> uuid \<Rightarrow> time \<Rightarrow> consumption_error option" where
  "acquireAnomalyLock W db analyzer periodStart =
     acquire_from W db (anomalyLockKey (uuid_text W) analyzer periodStart) 0 anomalyLockAcquireAttempts"

section \<open>Check, then create\<close>

definition suspect_message :: "scope \<Rightarrow> uuid \<Rightarrow> string \<Rightarrow> json \<Rightarrow> operational_message" where
  "suspect_message s anomaly_id message detail =
     \<lparr>om_ID = 0, om_CompanyID = Some (sc_CompanyID s), om_Kind = ''system'', om_Category = ''consumption-suspect-period'',
      om_Status = ''error'', om_Message = message, om_Detail = None, om_RelatedType = Some ''consumption_anomaly'',
      om_RelatedID = Some anomaly_id, om_Metadata = Some detail, om_CreatedAt = zero_time\<rparr>"

definition append_suspect_message ::
  "world \<Rightarrow> consumption_db \<Rightarrow> scope \<Rightarrow> uuid \<Rightarrow> string \<Rightarrow> json \<Rightarrow> (consumption_error + unit) \<times> consumption_db" where
  "append_suspect_message W db s anomaly_id message detail =
     (if append_fails W db then (Inl (StoreFailed ErrDatabase), db)
      else case AppendMessage (new_message_id W db) (db_now W db) db s (suspect_message s anomaly_id message detail) of
        (Inl e, db') \<Rightarrow> (Inl (StoreFailed e), db')
      | (Inr m, db') \<Rightarrow> (Inr (), db'))"

definition ensureAnomalyMessage ::
  "world \<Rightarrow> consumption_db \<Rightarrow> scope \<Rightarrow> consumption_anomaly \<Rightarrow> string \<Rightarrow> json \<Rightarrow> (consumption_error + unit) \<times> consumption_db" where
  "ensureAnomalyMessage W db s a message detail =
     (case ListMessages (lower_text W) db s (any_message\<lparr>mf_RelatedID := Some (ca_ID a)\<rparr>) of
        Inl e \<Rightarrow> (Inl (StoreFailed e), db)
      | Inr msgs \<Rightarrow>
          if length msgs > 0 then (Inr (), db) else append_suspect_message W db s (ca_ID a) message detail)"

definition dedup_filter :: "uuid \<Rightarrow> window \<Rightarrow> string \<Rightarrow> anomaly_filter" where
  "dedup_filter analyzer w reason =
     any_anomaly\<lparr>af_AnalyzerIDs := [analyzer], af_Reason := Some reason,
       af_Range := Some \<lparr>tr_From = From w, tr_To = From w + microsecond\<rparr>\<rparr>"

definition covers :: "window \<Rightarrow> consumption_anomaly \<Rightarrow> bool" where
  "covers w a \<longleftrightarrow> hasSuspectPeriodCode (ca_Detail a) \<and> ca_PeriodStart a = From w \<and> ca_PeriodEnd a = To w"

definition dedupAndCreateAnomaly ::
  "world \<Rightarrow> consumption_db \<Rightarrow> scope \<Rightarrow> uuid \<Rightarrow> window \<Rightarrow> string \<Rightarrow> json \<Rightarrow> string \<Rightarrow> (consumption_error + unit) \<times> consumption_db" where
  "dedupAndCreateAnomaly W db s analyzer w reason detail message =
     (case listAllAnomalies db s (dedup_filter analyzer w reason) of
        Inl e \<Rightarrow> (Inl (StoreFailed e), db)
      | Inr existing \<Rightarrow>
          (case List.find (covers w) existing of
             Some a \<Rightarrow> if ca_ResolvedAt a = None then ensureAnomalyMessage W db s a message detail else (Inr (), db)
           | None \<Rightarrow>
               (case Create_anomaly (new_anomaly_id W db) (db_now W db) db s
                   \<lparr>ca_ID = uuid_Nil, ca_AnalyzerID = analyzer, ca_PeriodStart = From w, ca_PeriodEnd = To w, ca_Reason = reason,
                    ca_Detail = Some detail, ca_ResolvedAt = None, ca_ResolvedBy = None, ca_Resolution = None,
                    ca_OverrideValues = None, ca_CreatedAt = zero_time\<rparr> of
                  (Inl e, db') \<Rightarrow> (Inl (StoreFailed e), db')
                | (Inr created, db') \<Rightarrow> append_suspect_message W db' s (ca_ID created) message detail)))"

section \<open>Recording a derivation\<close>

definition createAnomalyForReason ::
  "declib \<Rightarrow> world \<Rightarrow> consumption_db \<Rightarrow> scope \<Rightarrow> consumption_row \<Rightarrow> reason \<Rightarrow> (register \<rightharpoonup> suspicion) \<Rightarrow>
   (consumption_error + unit) \<times> consumption_db" where
  "createAnomalyForReason L W db s row reason regs =
     dedupAndCreateAnomaly W db s (cr_AnalyzerID row) (cr_Window row) (reason_string reason)
       (buildAnomalyDetail L (cr_Window row) regs) (anomalyMessageText (uuid_text W) row (reason_string reason) regs)"

fun create_for_reasons ::
  "declib \<Rightarrow> world \<Rightarrow> scope \<Rightarrow> consumption_row \<Rightarrow> (reason \<Rightarrow> (register \<rightharpoonup> suspicion)) \<Rightarrow> reason list \<Rightarrow> consumption_db \<Rightarrow>
   (consumption_error + unit) \<times> consumption_db" where
  "create_for_reasons L W s row groups [] db = (Inr (), db)"
| "create_for_reasons L W s row groups (r # rs) db =
     (case createAnomalyForReason L W db s row r (groups r) of
        (Inl e, db') \<Rightarrow> (Inl e, db')
      | (Inr u, db') \<Rightarrow> create_for_reasons L W s row groups rs db')"

definition recordSuspectPeriod ::
  "declib \<Rightarrow> world \<Rightarrow> consumption_db \<Rightarrow> scope \<Rightarrow> consumption_row \<Rightarrow> (consumption_error + unit) \<times> consumption_db" where
  "recordSuspectPeriod L W db s row =
     (let groups = groupSuspectByReason (case cr_Suspect row of None \<Rightarrow> Map.empty | Some m \<Rightarrow> m);
          reasons = orderedReasons groups
      in if reasons = [] then (Inr (), db)
         else case acquireAnomalyLock W db (cr_AnalyzerID row) (From (cr_Window row)) of
           Some e \<Rightarrow> (Inl e, db)
         | None \<Rightarrow> create_for_reasons L W s row groups reasons db)"

definition createMissingReadingsAnomaly ::
  "world \<Rightarrow> consumption_db \<Rightarrow> scope \<Rightarrow> uuid \<Rightarrow> bucket_gap \<Rightarrow> (consumption_error + unit) \<times> consumption_db" where
  "createMissingReadingsAnomaly W db s analyzer gap =
     dedupAndCreateAnomaly W db s analyzer (bg_Window gap) (reason_string ReasonMissingReadings)
       (buildMissingReadingsDetail (bg_Window gap) (bg_Boundaries gap)) (missingReadingsMessageText (uuid_text W) analyzer gap)"

definition recordMissingReadingsGap ::
  "world \<Rightarrow> consumption_db \<Rightarrow> scope \<Rightarrow> uuid \<Rightarrow> bucket_gap \<Rightarrow> (consumption_error + unit) \<times> consumption_db" where
  "recordMissingReadingsGap W db s analyzer gap =
     (case acquireAnomalyLock W db analyzer (From (bg_Window gap)) of
        Some e \<Rightarrow> (Inl e, db)
      | None \<Rightarrow> createMissingReadingsAnomaly W db s analyzer gap)"

fun record_rows ::
  "declib \<Rightarrow> world \<Rightarrow> scope \<Rightarrow> consumption_row list \<Rightarrow> consumption_db \<Rightarrow> (consumption_error + unit) \<times> consumption_db" where
  "record_rows L W s [] db = (Inr (), db)"
| "record_rows L W s (row # rows) db =
     (if (case cr_Suspect row of None \<Rightarrow> True | Some m \<Rightarrow> \<not> list_ex (\<lambda>reg. m reg \<noteq> None) AllRegisters) then record_rows L W s rows db
      else case recordSuspectPeriod L W db s row of
        (Inl e, db') \<Rightarrow> (Inl e, db')
      | (Inr u, db') \<Rightarrow> record_rows L W s rows db')"

text \<open>The gaps, flattened in the order the map is visited.\<close>

fun record_gaps ::
  "world \<Rightarrow> scope \<Rightarrow> (uuid \<times> bucket_gap) list \<Rightarrow> consumption_db \<Rightarrow> (consumption_error + unit) \<times> consumption_db" where
  "record_gaps W s [] db = (Inr (), db)"
| "record_gaps W s ((analyzer, gap) # gaps) db =
     (case recordMissingReadingsGap W db s analyzer gap of
        (Inl e, db') \<Rightarrow> (Inl e, db')
      | (Inr u, db') \<Rightarrow> record_gaps W s gaps db')"

definition recordRowsAndGaps ::
  "declib \<Rightarrow> world \<Rightarrow> ((uuid \<times> bucket_gap list) list \<Rightarrow> (uuid \<times> bucket_gap list) list) \<Rightarrow> consumption_db \<Rightarrow> scope \<Rightarrow>
   consumption_row list \<Rightarrow> (uuid \<times> bucket_gap list) list \<Rightarrow> (consumption_error + unit) \<times> consumption_db" where
  "recordRowsAndGaps L W visit db s rows gapsBy =
     (case record_rows L W s rows db of
        (Inl e, db') \<Rightarrow> (Inl e, db')
      | (Inr u, db') \<Rightarrow> record_gaps W s (concat (map (\<lambda>(a, gs). map (Pair a) gs) (visit gapsBy))) db')"

definition ConsumptionAndRecord ::
  "declib \<Rightarrow> (string \<Rightarrow> dec option) \<Rightarrow> world \<Rightarrow> (uuid list \<Rightarrow> uuid list) \<Rightarrow>
   ((uuid \<times> bucket_gap list) list \<Rightarrow> (uuid \<times> bucket_gap list) list) \<Rightarrow> location \<Rightarrow> (nat \<Rightarrow> time) \<Rightarrow> consumption_db \<Rightarrow> scope \<Rightarrow>
   series_request \<Rightarrow> (consumption_error + consumption_row list) \<times> consumption_db" where
  "ConsumptionAndRecord L NewFromString W visit visit_gaps istanbul clock db s req =
     (case consumptionWithGaps L NewFromString visit istanbul clock db s req of
        Inl e \<Rightarrow> (Inl e, db)
      | Inr (rows, gapsBy) \<Rightarrow>
          (case recordRowsAndGaps L W visit_gaps db s rows gapsBy of
             (Inl e, db') \<Rightarrow> (Inl e, db')
           | (Inr u, db') \<Rightarrow> (Inr rows, db')))"

definition PeriodConsumptionAndRecord ::
  "declib \<Rightarrow> (string \<Rightarrow> dec option) \<Rightarrow> world \<Rightarrow> (uuid list \<Rightarrow> uuid list) \<Rightarrow>
   ((uuid \<times> bucket_gap list) list \<Rightarrow> (uuid \<times> bucket_gap list) list) \<Rightarrow> location \<Rightarrow> (nat \<Rightarrow> time) \<Rightarrow> consumption_db \<Rightarrow> scope \<Rightarrow>
   period_request \<Rightarrow> (consumption_error + consumption_row list) \<times> consumption_db" where
  "PeriodConsumptionAndRecord L NewFromString W visit visit_gaps istanbul clock db s req =
     (case periodConsumptionWithGaps L NewFromString visit istanbul clock db s req of
        Inl e \<Rightarrow> (Inl e, db)
      | Inr (rows, gapsBy) \<Rightarrow>
          (case recordRowsAndGaps L W visit_gaps db s rows gapsBy of
             (Inl e, db') \<Rightarrow> (Inl e, db')
           | (Inr u, db') \<Rightarrow> (Inr rows, db')))"

section \<open>At most one row, and a message with it\<close>

text \<open>The rows of this package for one analyzer, period and reason.\<close>

definition recorded :: "uuid \<Rightarrow> window \<Rightarrow> string \<Rightarrow> consumption_db \<Rightarrow> consumption_anomaly list" where
  "recorded analyzer w reason db =
     filter (\<lambda>an. ca_AnalyzerID an = analyzer \<and> ca_Reason an = reason \<and> covers w an) (cd_anomalies db)"

definition at_most_once :: "consumption_db \<Rightarrow> bool" where
  "at_most_once db \<longleftrightarrow> (\<forall>analyzer w reason. length (recorded analyzer w reason db) \<le> 1)"

definition announced :: "scope \<Rightarrow> consumption_db \<Rightarrow> consumption_anomaly \<Rightarrow> bool" where
  "announced s db an \<longleftrightarrow> (\<exists>m \<in> set (cd_messages db). om_CompanyID m = Some (sc_CompanyID s) \<and> om_RelatedID m = Some (ca_ID an))"

text \<open>A window as the columns can hold it.\<close>

definition storable :: "window \<Rightarrow> bool" where
  "storable w \<longleftrightarrow> From w mod 1000 = 0 \<and> To w mod 1000 = 0 \<and> From w \<noteq> zero_time \<and> From w + microsecond \<noteq> zero_time"

lemma stored_ts_grain: "t mod 1000 = 0 \<Longrightarrow> stored_ts t = t"
  using mult_div_mod_eq [of 1000 t] by (simp add: stored_ts_def timestamptz_def)

definition seen :: "consumption_db \<Rightarrow> scope \<Rightarrow> uuid \<Rightarrow> bool" where
  "seen db s analyzer \<longleftrightarrow> Valid_scope s \<and>
     ReadingAnalyzerVisible (cd_readings db) analyzer (sc_CompanyID s) (snd (BuildingFilter s)) (fst (BuildingFilter s))"

lemma dedup_listing:
  assumes "Valid_scope s" and "storable w"
  shows "\<exists>existing. listAllAnomalies db s (dedup_filter analyzer w reason) = Inr existing \<and>
    set (filter (covers w) existing) = (if seen db s analyzer then set (recorded analyzer w reason db) else {})"
proof -
  have range: "case af_Range (dedup_filter analyzer w reason) of None \<Rightarrow> True | Some r \<Rightarrow> Valid_range r"
    using assms(2) by (simp add: dedup_filter_def Valid_range_def storable_def microsecond_def)
  have all: "listAllAnomalies db s (dedup_filter analyzer w reason) = Inr (all_matching db s (dedup_filter analyzer w reason))"
    using list_pages_all [OF assms(1) range, of 0 db "[]"] by (simp add: listAllAnomalies_def dedup_filter_def any_anomaly_def)
  have "From w div 1000 < (From w + 1000) div 1000" by simp
  then have "set (filter (covers w) (all_matching db s (dedup_filter analyzer w reason))) =
      (if seen db s analyzer then set (recorded analyzer w reason db) else {})"
    using assms(1) by (cases "BuildingFilter s")
      (auto simp: all_matching_def anomalies_matching_def anomaly_matches_def anomaly_in_scope_def dedup_filter_def any_anomaly_def
        recorded_def covers_def seen_def timestamptz_def microsecond_def split: prod.splits)
  with all show ?thesis by blast
qed

lemma find_filter: "List.find P xs = (case filter P xs of [] \<Rightarrow> None | x # _ \<Rightarrow> Some x)"
  by (induction xs) auto

lemma ListMessages_related:
  assumes "Valid_scope s"
  shows "\<exists>msgs. ListMessages lower db s (any_message\<lparr>mf_RelatedID := Some i\<rparr>) = Inr msgs \<and>
    (msgs = [] \<longleftrightarrow> \<not> (\<exists>m \<in> set (cd_messages db). om_CompanyID m = Some (sc_CompanyID s) \<and> om_RelatedID m = Some i))"
proof -
  define f where "f = any_message\<lparr>mf_RelatedID := Some i\<rparr>"
  define msgs where "msgs = take 100 (sort_key (\<lambda>m. - om_CreatedAt m) (sort_key om_ID (filter (message_matches lower (sc_CompanyID s) f) (cd_messages db))))"
  have "ListMessages lower db s f = Inr msgs"
    using assms by (simp add: ListMessages_def opsPageBounds_def OpsListMessages_def f_def any_message_def msgs_def opsListDefaultLimit_def opsListMaxLimit_def)
  moreover have "msgs = [] \<longleftrightarrow> filter (message_matches lower (sc_CompanyID s) f) (cd_messages db) = []"
    unfolding msgs_def by (simp flip: length_0_conv add: min_def)
  moreover have "message_matches lower (sc_CompanyID s) f m \<longleftrightarrow> om_CompanyID m = Some (sc_CompanyID s) \<and> om_RelatedID m = Some i" for m
    by (simp add: message_matches_def f_def any_message_def)
  ultimately show ?thesis by (auto simp: f_def filter_empty_conv)
qed

lemma announced_append:
  assumes "append_suspect_message W db s i message detail = (res, db')"
  shows "cd_anomalies db' = cd_anomalies db \<and> cd_readings db' = cd_readings db \<and>
    (\<exists>new. cd_messages db' = cd_messages db @ new) \<and>
    (res = Inr () \<longrightarrow> (\<exists>m \<in> set (cd_messages db'). om_CompanyID m = Some (sc_CompanyID s) \<and> om_RelatedID m = Some i))"
  using assms by (auto simp: append_suspect_message_def AppendMessage_def suspect_message_def Let_def split: if_splits)

text \<open>A call whose row is there and announced does nothing.\<close>

lemma dedup_settled:
  assumes "Valid_scope s" and "storable w" and "seen db s analyzer" and "recorded analyzer w reason db = [an]"
    and "ca_ResolvedAt an = None \<longrightarrow> announced s db an"
  shows "dedupAndCreateAnomaly W db s analyzer w reason detail message = (Inr (), db)"
proof -
  obtain existing where ex: "listAllAnomalies db s (dedup_filter analyzer w reason) = Inr existing"
    and set: "set (filter (covers w) existing) = {an}"
    using dedup_listing [OF assms(1,2), of db analyzer reason] assms(3,4) by auto
  then obtain rest where "filter (covers w) existing = an # rest"
    by (cases "filter (covers w) existing") auto
  then have find: "List.find (covers w) existing = Some an" by (simp add: find_filter)
  obtain msgs where "ListMessages (lower_text W) db s (any_message\<lparr>mf_RelatedID := Some (ca_ID an)\<rparr>) = Inr msgs"
    "ca_ResolvedAt an = None \<Longrightarrow> msgs \<noteq> []"
    using ListMessages_related [OF assms(1), of "lower_text W" db "ca_ID an"] assms(5) by (auto simp: announced_def)
  then show ?thesis by (auto simp: dedupAndCreateAnomaly_def ex find ensureAnomalyMessage_def)
qed

lemma recorded_append: "cd_anomalies db' = cd_anomalies db @ [an] \<Longrightarrow>
  recorded a w r db' = recorded a w r db @ (if ca_AnalyzerID an = a \<and> ca_Reason an = r \<and> covers w an then [an] else [])"
  by (simp add: recorded_def)


text \<open>The two shapes of detail this service writes both carry its code.\<close>

lemma names_fold: "fold_name ''code'' = ''code''" "fold_name ''period_start'' = ''period_start''"
  "fold_name ''period_end'' = ''period_end''" "fold_name ''registers'' = ''registers''" "fold_name ''boundaries'' = ''boundaries''"
  by code_simp+

lemma detail_code:
  "hasSuspectPeriodCode (Some (buildAnomalyDetail L period regs))"
  "hasSuspectPeriodCode (Some (buildMissingReadingsDetail period boundaries))"
  by (simp_all add: hasSuspectPeriodCode_def unmarshal_strings_def buildAnomalyDetail_def buildMissingReadingsDetail_def Let_def
      field_values_def string_field_def names_fold jstr_def anomalyDetailCode_def del: fold_name.simps)

definition quiet_world :: world where
  "quiet_world = \<lparr>new_anomaly_id = \<lambda>db. 500 + length (cd_anomalies db), new_message_id = \<lambda>db. 900 + int (length (cd_messages db)),
     db_now = \<lambda>_. 1000 * hour, append_fails = \<lambda>_. False, lock_attempt = \<lambda>_ _ _. Acquired, uuid_text = \<lambda>_. ''u'', lower_text = id\<rparr>"

definition day_zero :: window where "day_zero = \<lparr>From = 0, To = 24 * hour\<rparr>"

definition bare_db :: consumption_db where
  "bare_db = \<lparr>cd_readings = sample_db [], cd_anomalies = [], cd_users = [], cd_messages = []\<rparr>"

lemma bare_call:
  "case dedupAndCreateAnomaly quiet_world bare_db (SystemScope 100) 7 day_zero reason detail message of
     (res, db) \<Rightarrow> res = Inr () \<and> length (cd_anomalies db) = 1 \<and> length (cd_messages db) = 1"
  by code_simp


end
