(* ===== verification/Platform_Lock.thy ===== *)
theory Platform_Lock
  imports Go_Text "HOL-Library.Word"
begin

text \<open>
  The locks of \<open>src/internal/platform/lock\<close>: the in-process locker \<open>Memory\<close> of
  \<open>memory.go\<close>.

  A lease is bounded by its time to live and names its holder by a token drawn from a counter of
  64 bits. Every method body runs under one mutex, so it is a single step on the state; what
  interleaves are the steps. \<open>Acquire\<close> is a loop around \<open>tryAcquire\<close>: between two
  polls the other callers and the clock move. The step relation \<open>lock_step\<close> has one rule per
  such step: a call begins (its token is drawn once, before the loop), it polls, it gives up, a
  lease is released (also a stale one, and more than once), a key is consumed, time passes.

  The relation keeps two histories beside the state of the code: the leases granted and the
  consumptions that succeeded. They are what the theorems speak about.
\<close>

section \<open>The locker and its operations\<close>

datatype lock_error = ErrNotAcquired | ErrInvalidTTL

type_synonym token = "64 word"

record memoryEntry =
  me_token :: token
  me_expiry :: time

record Memory =
  held :: "string \<rightharpoonup> memoryEntry"
  consumed :: "string \<rightharpoonup> time"

definition NewMemory :: Memory where
  "NewMemory = \<lparr>held = Map.empty, consumed = Map.empty\<rparr>"

text \<open>The counter of the tokens; the printed form of a token is \<open>strconv.FormatUint(_, 36)\<close>.\<close>

definition newMemoryToken :: "64 word \<Rightarrow> 64 word \<times> token" where
  "newMemoryToken seqn = (seqn + 1, seqn + 1)"

record memoryLease =
  ml_key :: string
  ml_token :: token

definition tryAcquire :: "Memory \<Rightarrow> time \<Rightarrow> string \<Rightarrow> duration \<Rightarrow> token \<Rightarrow> Memory \<times> memoryLease option" where
  "tryAcquire m now key ttl tok =
     (case held m key of
        Some entry \<Rightarrow>
          if now < me_expiry entry then (m, None)
          else (m\<lparr>held := (held m)(key \<mapsto> \<lparr>me_token = tok, me_expiry = now + ttl\<rparr>)\<rparr>,
                Some \<lparr>ml_key = key, ml_token = tok\<rparr>)
      | None \<Rightarrow>
          (m\<lparr>held := (held m)(key \<mapsto> \<lparr>me_token = tok, me_expiry = now + ttl\<rparr>)\<rparr>,
           Some \<lparr>ml_key = key, ml_token = tok\<rparr>))"

text \<open>\<open>ctx_err\<close> is what \<open>ctx.Err()\<close> reports.\<close>

datatype 'e consume_error = Consume_invalid lock_error | Consume_ctx 'e

definition Consume :: "Memory \<Rightarrow> 'e option \<Rightarrow> time \<Rightarrow> string \<Rightarrow> duration \<Rightarrow> Memory \<times> ('e consume_error + bool)" where
  "Consume m ctx_err now key ttl =
     (if ttl \<le> 0 then (m, Inl (Consume_invalid ErrInvalidTTL))
      else case ctx_err of
        Some e \<Rightarrow> (m, Inl (Consume_ctx e))
      | None \<Rightarrow>
          (case consumed m key of
             Some expiry \<Rightarrow>
               if now < expiry then (m, Inr False)
               else (m\<lparr>consumed := (consumed m)(key \<mapsto> now + ttl)\<rparr>, Inr True)
           | None \<Rightarrow> (m\<lparr>consumed := (consumed m)(key \<mapsto> now + ttl)\<rparr>, Inr True)))"

definition Release :: "Memory \<Rightarrow> memoryLease \<Rightarrow> Memory" where
  "Release m l =
     (case held m (ml_key l) of
        Some entry \<Rightarrow>
          if me_token entry = ml_token l then m\<lparr>held := (held m)(ml_key l := None)\<rparr> else m
      | None \<Rightarrow> m)"

text \<open>
  One round of the loop of \<open>Acquire\<close>, on the value \<open>ctx.Err()\<close> has at its head: it
  returns, or it waits \<open>memoryPollInterval\<close> and starts over (\<open>None\<close>).
\<close>

definition acquire_round ::
    "Memory \<Rightarrow> bool \<Rightarrow> time \<Rightarrow> string \<Rightarrow> duration \<Rightarrow> token \<Rightarrow> Memory \<times> (lock_error + memoryLease) option" where
  "acquire_round m ctx_done now key ttl tok =
     (if ctx_done then (m, Some (Inl ErrNotAcquired))
      else let (m', l) = tryAcquire m now key ttl tok
           in (m', map_option Inr l))"

text \<open>
  \<open>Acquire\<close> against the rounds it lives through: before each, the other callers have made
  \<open>m\<close> what the environment says, the clock shows a time and the context is done or not. It ends
  because the list of rounds does; \<open>None\<close> is a call that still waits.
\<close>

fun Acquire_rounds ::
    "string \<Rightarrow> duration \<Rightarrow> token \<Rightarrow> (Memory \<Rightarrow> Memory) \<Rightarrow> Memory \<Rightarrow> (bool \<times> time) list
     \<Rightarrow> Memory \<times> (lock_error + memoryLease) option" where
  "Acquire_rounds key ttl tok env m [] = (m, None)"
| "Acquire_rounds key ttl tok env m ((ctx_done, now) # rounds) =
     (case acquire_round (env m) ctx_done now key ttl tok of
        (m', Some r) \<Rightarrow> (m', Some r)
      | (m', None) \<Rightarrow> Acquire_rounds key ttl tok env m' rounds)"

definition Acquire ::
    "64 word \<Rightarrow> (Memory \<Rightarrow> Memory) \<Rightarrow> Memory \<Rightarrow> (bool \<times> time) list \<Rightarrow> string \<Rightarrow> duration
     \<Rightarrow> 64 word \<times> Memory \<times> (lock_error + memoryLease) option" where
  "Acquire seqn env m rounds key ttl =
     (if ttl \<le> 0 then (seqn, m, Some (Inl ErrInvalidTTL))
      else let (seqn', tok) = newMemoryToken seqn
           in (seqn', Acquire_rounds key ttl tok env m rounds))"

lemmas lock_ops = tryAcquire_def Release_def acquire_round_def

section \<open>The steps\<close>

text \<open>A call of \<open>Acquire\<close> that has passed its guard and drawn its token.\<close>

record call =
  ca_key :: string
  ca_ttl :: duration
  ca_token :: token

record grant =
  gr_key :: string
  gr_token :: token
  gr_until :: time
  gr_released :: bool

record key_use =
  co_key :: string
  co_at :: time
  co_until :: time

record lock_state =
  clock_now :: time
  mem :: Memory
  token_seq :: "64 word"
  issued :: nat
  calls :: "call set"
  grants :: "grant set"
  consumptions :: "key_use list"

definition lock_start :: "time \<Rightarrow> lock_state" where
  "lock_start t =
     \<lparr>clock_now = t, mem = NewMemory, token_seq = 0, issued = 0, calls = {}, grants = {},
      consumptions = []\<rparr>"

definition mark_released :: "memoryLease \<Rightarrow> grant \<Rightarrow> grant" where
  "mark_released l g =
     (if gr_key g = ml_key l \<and> gr_token g = ml_token l then g\<lparr>gr_released := True\<rparr> else g)"

inductive lock_step :: "lock_state \<Rightarrow> lock_state \<Rightarrow> bool" where
  step_time: "clock_now s \<le> t \<Longrightarrow> lock_step s (s\<lparr>clock_now := t\<rparr>)"
| step_begin:
    "0 < ttl \<Longrightarrow> newMemoryToken (token_seq s) = (n, tok) \<Longrightarrow>
     lock_step s (s\<lparr>token_seq := n, issued := Suc (issued s),
                    calls := insert \<lparr>ca_key = key, ca_ttl = ttl, ca_token = tok\<rparr> (calls s)\<rparr>)"
| step_poll:
    "c \<in> calls s \<Longrightarrow>
     acquire_round (mem s) False (clock_now s) (ca_key c) (ca_ttl c) (ca_token c) = (m', None) \<Longrightarrow>
     lock_step s (s\<lparr>mem := m'\<rparr>)"
| step_grant:
    "c \<in> calls s \<Longrightarrow>
     acquire_round (mem s) False (clock_now s) (ca_key c) (ca_ttl c) (ca_token c)
       = (m', Some (Inr l)) \<Longrightarrow>
     lock_step s (s\<lparr>mem := m', calls := calls s - {c},
                    grants := insert \<lparr>gr_key = ml_key l, gr_token = ml_token l,
                                      gr_until = clock_now s + ca_ttl c, gr_released = False\<rparr>
                                (grants s)\<rparr>)"
| step_give_up:
    "c \<in> calls s \<Longrightarrow>
     acquire_round (mem s) True (clock_now s) (ca_key c) (ca_ttl c) (ca_token c)
       = (m', Some (Inl ErrNotAcquired)) \<Longrightarrow>
     lock_step s (s\<lparr>mem := m', calls := calls s - {c}\<rparr>)"
| step_release:
    "g \<in> grants s \<Longrightarrow> l = \<lparr>ml_key = gr_key g, ml_token = gr_token g\<rparr> \<Longrightarrow>
     lock_step s (s\<lparr>mem := Release (mem s) l, grants := mark_released l ` grants s\<rparr>)"
| step_consumed:
    "Consume (mem s) (None :: unit option) (clock_now s) key ttl = (m', Inr True) \<Longrightarrow>
     lock_step s (s\<lparr>mem := m',
                    consumptions := \<lparr>co_key = key, co_at = clock_now s,
                                     co_until = clock_now s + ttl\<rparr> # consumptions s\<rparr>)"
| step_not_consumed:
    "Consume (mem s) (ctx_err :: unit option) (clock_now s) key ttl = (m', r) \<Longrightarrow> r \<noteq> Inr True \<Longrightarrow>
     lock_step s (s\<lparr>mem := m'\<rparr>)"

abbreviation lock_steps :: "lock_state \<Rightarrow> lock_state \<Rightarrow> bool" where
  "lock_steps \<equiv> lock_step\<^sup>*\<^sup>*"

section \<open>What one operation does\<close>

lemma tryAcquire_busy:
  assumes "held m key = Some e" and "now < me_expiry e"
  shows "tryAcquire m now key ttl tok = (m, None)"
  using assms by (simp add: tryAcquire_def)

lemma tryAcquire_free:
  assumes "\<And>e. held m key = Some e \<Longrightarrow> me_expiry e \<le> now"
  shows "tryAcquire m now key ttl tok =
           (m\<lparr>held := (held m)(key \<mapsto> \<lparr>me_token = tok, me_expiry = now + ttl\<rparr>)\<rparr>,
            Some \<lparr>ml_key = key, ml_token = tok\<rparr>)"
  using assms by (auto simp: tryAcquire_def split: option.split)

lemma tryAcquire_cases:
  assumes "tryAcquire m now key ttl tok = (m', r)"
  obtains (busy) e where "held m key = Some e" "now < me_expiry e" "m' = m" "r = None"
  | (free) "\<And>e. held m key = Some e \<Longrightarrow> me_expiry e \<le> now"
      "m' = m\<lparr>held := (held m)(key \<mapsto> \<lparr>me_token = tok, me_expiry = now + ttl\<rparr>)\<rparr>"
      "r = Some \<lparr>ml_key = key, ml_token = tok\<rparr>"
  using assms by (fastforce simp: tryAcquire_def split: option.splits if_splits)

lemma acquire_round_None:
  assumes "acquire_round m d now key ttl tok = (m', None)"
  shows "m' = m"
  using assms
  by (auto simp: acquire_round_def tryAcquire_def split: if_splits option.splits)

lemma acquire_round_lease:
  assumes "acquire_round m d now key ttl tok = (m', Some (Inr l))"
  obtains "\<And>e. held m key = Some e \<Longrightarrow> me_expiry e \<le> now"
    "m' = m\<lparr>held := (held m)(key \<mapsto> \<lparr>me_token = tok, me_expiry = now + ttl\<rparr>)\<rparr>"
    "l = \<lparr>ml_key = key, ml_token = tok\<rparr>"
  using assms
  by (fastforce simp: acquire_round_def tryAcquire_def split: if_splits option.splits)

lemma acquire_round_error:
  assumes "acquire_round m d now key ttl tok = (m', Some (Inl e))"
  shows "m' = m" and "d"
  using assms by (auto simp: acquire_round_def split: if_splits prod.splits)

lemma Consume_true:
  assumes "Consume m ctx_err now key ttl = (m', Inr True)"
  obtains "0 < ttl" "\<And>u. consumed m key = Some u \<Longrightarrow> u \<le> now"
    "m' = m\<lparr>consumed := (consumed m)(key \<mapsto> now + ttl)\<rparr>"
  using assms by (fastforce simp: Consume_def split: if_splits option.splits)

lemma Consume_other:
  assumes "Consume m ctx_err now key ttl = (m', r)" and "r \<noteq> Inr True"
  shows "m' = m"
  using assms by (auto simp: Consume_def split: if_splits option.splits)

lemma held_Release [simp]:
  "held (Release m l) =
     (case held m (ml_key l) of
        Some e \<Rightarrow> if me_token e = ml_token l then (held m)(ml_key l := None) else held m
      | None \<Rightarrow> held m)"
  by (simp add: Release_def split: option.split)

lemma consumed_Release [simp]: "consumed (Release m l) = consumed m"
  by (simp add: Release_def split: option.split)

lemma mark_released_sel [simp]:
  "gr_key (mark_released l g) = gr_key g" "gr_token (mark_released l g) = gr_token g"
  "gr_until (mark_released l g) = gr_until g"
  "\<not> gr_released (mark_released l g) \<longleftrightarrow>
     \<not> gr_released g \<and> \<not> (gr_key g = ml_key l \<and> gr_token g = ml_token l)"
  by (simp_all add: mark_released_def)

section \<open>The invariants\<close>

text \<open>
  Tokens: the counter is the number of tokens issued, every token in use is one of them, and no two
  calls or grants share one.
\<close>

definition tokens_known :: "lock_state \<Rightarrow> bool" where
  "tokens_known s \<longleftrightarrow>
     token_seq s = of_nat (issued s) \<and>
     (\<forall>t \<in> ca_token ` calls s \<union> gr_token ` grants s. \<exists>i. i \<le> issued s \<and> t = of_nat i)"

definition tokens_apart :: "lock_state \<Rightarrow> bool" where
  "tokens_apart s \<longleftrightarrow>
     inj_on ca_token (calls s) \<and> inj_on gr_token (grants s) \<and>
     ca_token ` calls s \<inter> gr_token ` grants s = {}"

text \<open>Every entry of the map is a grant, and every grant that is live is its key's entry.\<close>

definition live :: "lock_state \<Rightarrow> grant \<Rightarrow> bool" where
  "live s g \<longleftrightarrow> g \<in> grants s \<and> \<not> gr_released g \<and> clock_now s < gr_until g"

definition entry_of :: "grant \<Rightarrow> memoryEntry" where
  "entry_of g = \<lparr>me_token = gr_token g, me_expiry = gr_until g\<rparr>"

definition live_held :: "lock_state \<Rightarrow> bool" where
  "live_held s \<longleftrightarrow> (\<forall>g. live s g \<longrightarrow> held (mem s) (gr_key g) = Some (entry_of g))"

lemma issued_mono: "lock_step s s' \<Longrightarrow> issued s \<le> issued s'"
  by (induction rule: lock_step.induct) auto

lemma tokens_known_step:
  assumes "lock_step s s'" and "tokens_known s"
  shows "tokens_known s'"
  using assms
proof (induction rule: lock_step.induct)
  case (step_begin ttl s n tok key)
  then have "n = of_nat (Suc (issued s))" "tok = of_nat (Suc (issued s))"
    by (auto simp: newMemoryToken_def tokens_known_def)
  with step_begin.prems show ?case
    by (auto simp: tokens_known_def intro: le_SucI)
next
  case (step_grant c s m' l)
  from step_grant.hyps(2) have "ml_token l = ca_token c"
    by (auto elim: acquire_round_lease)
  with step_grant show ?case by (auto simp: tokens_known_def)
next
  case (step_release g s l)
  then show ?case by (auto simp: tokens_known_def)
qed (auto simp: tokens_known_def)

lemma fresh_token:
  assumes "tokens_known s" and "Suc (issued s) < 2 ^ 64" and "newMemoryToken (token_seq s) = (n, tok)"
  shows "tok \<notin> ca_token ` calls s \<union> gr_token ` grants s"
proof
  assume "tok \<in> ca_token ` calls s \<union> gr_token ` grants s"
  with assms(1) obtain i where i: "i \<le> issued s" "tok = of_nat i"
    unfolding tokens_known_def by blast
  have "tok = of_nat (Suc (issued s))"
    using assms(1,3) by (auto simp: newMemoryToken_def tokens_known_def)
  with i have "(of_nat i :: 64 word) = of_nat (Suc (issued s))" by simp
  then have "unat (of_nat i :: 64 word) = unat (of_nat (Suc (issued s)) :: 64 word)"
    by (rule arg_cong)
  moreover have "unat (of_nat j :: 64 word) = j" if "j < 2 ^ 64" for j
    using that by (simp add: unat_of_nat take_bit_nat_eq_self)
  ultimately have "i = Suc (issued s)"
    using i(1) assms(2) by (metis le_SucI order_le_less_trans)
  with i(1) show False by simp
qed

lemma tokens_apart_step:
  assumes "lock_step s s'" and "tokens_known s" and "tokens_apart s" and "issued s' < 2 ^ 64"
  shows "tokens_apart s'"
  using assms
proof (induction rule: lock_step.induct)
  case (step_begin ttl s n tok key)
  then have "tok \<notin> ca_token ` calls s \<union> gr_token ` grants s"
    by (intro fresh_token) simp_all
  with step_begin.prems(2) show ?case by (auto simp: tokens_apart_def)
next
  case (step_grant c s m' l)
  from step_grant.hyps(2) have tok: "ml_token l = ca_token c"
    by (auto elim: acquire_round_lease)
  have inj: "inj_on ca_token (calls s)" "inj_on gr_token (grants s)"
    and disj: "ca_token ` calls s \<inter> gr_token ` grants s = {}"
    using step_grant.prems(2) by (simp_all add: tokens_apart_def)
  have c: "ca_token c \<in> ca_token ` calls s" using step_grant.hyps(1) by simp
  with disj have "ca_token c \<notin> gr_token ` grants s" by blast
  moreover have "ca_token c \<notin> ca_token ` (calls s - {c})"
    using inj(1) step_grant.hyps(1) by (auto dest: inj_onD)
  moreover have "inj_on ca_token (calls s - {c})"
    using inj(1) by (rule inj_on_diff)
  moreover have "ca_token ` (calls s - {c}) \<inter> gr_token ` grants s = {}"
    using disj by blast
  ultimately show ?case
    using inj(2) by (auto simp: tokens_apart_def tok)
next
  case (step_release g s l)
  then have "inj_on gr_token (mark_released l ` grants s)"
    unfolding tokens_apart_def by (intro inj_onI) (auto dest: inj_onD)
  moreover have "gr_token ` mark_released l ` grants s = gr_token ` grants s"
    by (simp add: image_image)
  ultimately show ?case
    using step_release.prems(2) by (simp add: tokens_apart_def)
next
  case (step_give_up c s m')
  then show ?case
    by (auto simp: tokens_apart_def intro: inj_on_diff)
qed (simp_all add: tokens_apart_def)

text \<open>A release takes the entry away from its own grant only: a stale one finds another token.\<close>

lemma live_held_step:
  assumes "lock_step s s'" and "tokens_apart s" and "live_held s"
  shows "live_held s'"
  using assms
proof (induction rule: lock_step.induct)
  case (step_poll c s m')
  then show ?case by (auto simp: live_held_def live_def dest: acquire_round_None)
next
  case (step_grant c s m' l)
  from step_grant.hyps(2) show ?case
  proof (rule acquire_round_lease)
    assume free: "\<And>e. held (mem s) (ca_key c) = Some e \<Longrightarrow> me_expiry e \<le> clock_now s"
      and m': "m' = (mem s)\<lparr>held := (held (mem s))(ca_key c \<mapsto>
                 \<lparr>me_token = ca_token c, me_expiry = clock_now s + ca_ttl c\<rparr>)\<rparr>"
      and l: "l = \<lparr>ml_key = ca_key c, ml_token = ca_token c\<rparr>"
    have "gr_key g \<noteq> ca_key c" if "live s g" for g
      using that free [of "entry_of g"] step_grant.prems(2)
      by (auto simp: live_held_def live_def entry_of_def)
    with step_grant.prems(2) m' l show ?thesis
      by (auto simp: live_held_def live_def entry_of_def)
  qed
next
  case (step_give_up c s m')
  then show ?case
    by (auto simp: live_held_def live_def dest: acquire_round_error(1))
next
  case (step_release g s l)
  show ?case
    unfolding live_held_def
  proof (intro allI impI)
    fix h assume h: "live (s\<lparr>mem := Release (mem s) l, grants := mark_released l ` grants s\<rparr>) h"
    then obtain h0 where h0: "h0 \<in> grants s" "h = mark_released l h0"
      by (auto simp: live_def)
    with h have live0: "live s h0" and not_l: "\<not> (gr_key h0 = ml_key l \<and> gr_token h0 = ml_token l)"
      by (auto simp: live_def)
    from live0 step_release.prems(2) have "held (mem s) (gr_key h0) = Some (entry_of h0)"
      by (simp add: live_held_def)
    with not_l show "held (mem (s\<lparr>mem := Release (mem s) l, grants := mark_released l ` grants s\<rparr>))
                       (gr_key h) = Some (entry_of h)"
      by (auto simp: h0(2) entry_of_def split: option.split)
  qed
next
  case (step_consumed s key ttl m')
  then show ?case
    by (auto simp: live_held_def live_def elim!: Consume_true)
next
  case (step_not_consumed s ctx_err key ttl m' r)
  then show ?case
    by (auto simp: live_held_def live_def dest: Consume_other)
qed (auto simp: live_held_def live_def)

lemma reachable_invariants:
  assumes "lock_steps (lock_start t) s" and "issued s < 2 ^ 64"
  shows "tokens_known s \<and> tokens_apart s \<and> live_held s"
  using assms
proof (induction rule: rtranclp_induct)
  case base
  show ?case
    by (simp add: lock_start_def tokens_known_def tokens_apart_def live_held_def live_def)
next
  case (step s s')
  then have "issued s < 2 ^ 64" using issued_mono [of s s'] by simp
  with step show ?case
    using tokens_known_step tokens_apart_step live_held_step by blast
qed

text \<open>Consumptions of a key are apart in time; the newest is the mark in the map.\<close>

definition apart :: "key_use \<Rightarrow> key_use \<Rightarrow> bool" where
  "apart c d \<longleftrightarrow> (co_key c = co_key d \<longrightarrow> co_until d \<le> co_at c)"

definition consumptions_apart :: "lock_state \<Rightarrow> bool" where
  "consumptions_apart s \<longleftrightarrow>
     sorted_wrt apart (consumptions s) \<and>
     (\<forall>c \<in> set (consumptions s).
        co_at c < co_until c \<and> co_at c \<le> clock_now s \<and>
        (\<exists>u. consumed (mem s) (co_key c) = Some u \<and> co_until c \<le> u))"

lemma consumptions_apart_step:
  assumes "lock_step s s'" and "consumptions_apart s"
  shows "consumptions_apart s'"
  using assms
proof (induction rule: lock_step.induct)
  case (step_poll c s m')
  then show ?case by (auto simp: consumptions_apart_def dest: acquire_round_None)
next
  case (step_grant c s m' l)
  then show ?case by (auto simp: consumptions_apart_def elim!: acquire_round_lease)
next
  case (step_give_up c s m')
  then show ?case by (auto simp: consumptions_apart_def dest: acquire_round_error(1))
next
  case (step_consumed s key ttl m')
  from step_consumed.hyps show ?case
  proof (rule Consume_true)
    assume ttl: "0 < ttl"
      and free: "\<And>u. consumed (mem s) key = Some u \<Longrightarrow> u \<le> clock_now s"
      and m': "m' = (mem s)\<lparr>consumed := (consumed (mem s))(key \<mapsto> clock_now s + ttl)\<rparr>"
    have old: "co_until c \<le> clock_now s" if "c \<in> set (consumptions s)" "co_key c = key" for c
      using that step_consumed.prems free by (fastforce simp: consumptions_apart_def)
    with ttl step_consumed.prems m' show ?thesis
      by (auto simp: consumptions_apart_def apart_def)
         (fastforce dest: old)+
  qed
next
  case (step_not_consumed s ctx_err key ttl m' r)
  then show ?case by (auto simp: consumptions_apart_def dest: Consume_other)
qed (auto simp: consumptions_apart_def intro: order.trans)

lemma reachable_consumptions_apart:
  assumes "lock_steps (lock_start t) s"
  shows "consumptions_apart s"
  using assms
proof (induction rule: rtranclp_induct)
  case base
  show ?case by (simp add: lock_start_def consumptions_apart_def)
next
  case (step s s')
  then show ?case by (blast intro: consumptions_apart_step)
qed

section \<open>What the lock promises\<close>

lemma lock_excludes:
  assumes "lock_steps (lock_start t) s" and "issued s < 2 ^ 64"
    and "live s g" and "live s h" and "gr_key g = gr_key h"
  shows "g = h"
proof -
  from assms(1,2) have "live_held s" and "tokens_apart s"
    by (simp_all add: reachable_invariants)
  have "held (mem s) (gr_key g) = Some (entry_of g)" "held (mem s) (gr_key h) = Some (entry_of h)"
    using \<open>live_held s\<close> assms(3,4) unfolding live_held_def by blast+
  with assms(5) have "entry_of g = entry_of h" by simp
  then have "gr_token g = gr_token h" by (simp add: entry_of_def)
  with \<open>tokens_apart s\<close> assms(3,4) show ?thesis
    by (auto simp: tokens_apart_def live_def dest: inj_onD)
qed

lemma Acquire_waits:
  assumes "\<And>now. (False, now) \<in> set rounds \<Longrightarrow> \<exists>e. held m key = Some e \<and> now < me_expiry e"
    and "\<And>now. (True, now) \<notin> set rounds"
  shows "Acquire_rounds key ttl tok (\<lambda>m. m) m rounds = (m, None)"
  using assms
proof (induction rounds)
  case (Cons r rounds)
  obtain d now where r: "r = (d, now)" by (cases r)
  with Cons.prems(2) [of now] have "\<not> d" by auto
  with Cons.prems(1) [of now] r obtain e where "held m key = Some e" "now < me_expiry e" by auto
  with r \<open>\<not> d\<close> Cons show ?case
    by (simp add: acquire_round_def tryAcquire_busy)
qed simp

lemma Acquire_obtains:
  assumes "\<And>now. (False, now) \<in> set before \<Longrightarrow> \<exists>e. held m key = Some e \<and> now < me_expiry e"
    and "\<And>now. (True, now) \<notin> set before"
    and "\<And>e. held m key = Some e \<Longrightarrow> me_expiry e \<le> now"
  shows "Acquire_rounds key ttl tok (\<lambda>m. m) m (before @ (False, now) # rest) =
           (m\<lparr>held := (held m)(key \<mapsto> \<lparr>me_token = tok, me_expiry = now + ttl\<rparr>)\<rparr>,
            Some (Inr \<lparr>ml_key = key, ml_token = tok\<rparr>))"
  using assms
proof (induction before)
  case Nil
  then have "tryAcquire m now key ttl tok =
      (m\<lparr>held := (held m)(key \<mapsto> \<lparr>me_token = tok, me_expiry = now + ttl\<rparr>)\<rparr>,
       Some \<lparr>ml_key = key, ml_token = tok\<rparr>)"
    by (intro tryAcquire_free) blast
  then show ?case by (simp add: acquire_round_def fun_upd_def)
next
  case (Cons r rs)
  obtain d at0 where r: "r = (d, at0)" by (cases r)
  with Cons.prems(2) [of at0] have "\<not> d" by auto
  with Cons.prems(1) [of at0] r obtain e where "held m key = Some e" "at0 < me_expiry e" by auto
  with r \<open>\<not> d\<close> Cons show ?case
    by (simp add: acquire_round_def tryAcquire_busy)
qed

text \<open>C23. Mutual exclusion. In every state the callers can reach, as long as fewer than
  \<open>2\<^sup>6\<^sup>4\<close> leases were ever asked for: a lease that was granted, has not been released by its
  holder and has not run out is the entry of its key, and there is no second one for the same key.
  Nothing another caller does takes it away before its time: neither a poll, nor the release of
  an older lease whose time ran out and whose key was granted again, nor an \<open>Acquire\<close> that
  gives up, nor a consumption of the same key.\<close>

theorem leases_exclude:
  assumes "lock_steps (lock_start t) s" and "issued s < 2 ^ 64"
    and "live s g" and "live s h" and "gr_key g = gr_key h"
  shows "g = h \<and> held (mem s) (gr_key g) = Some \<lparr>me_token = gr_token g, me_expiry = gr_until g\<rparr>
       \<and> tryAcquire (mem s) (clock_now s) (gr_key g) ttl tok = (mem s, None)"
proof -
  have entry: "held (mem s) (gr_key g) = Some (entry_of g)"
    using reachable_invariants [OF assms(1,2)] assms(3) by (simp add: live_held_def)
  moreover have "clock_now s < gr_until g" using assms(3) by (simp add: live_def)
  ultimately have "tryAcquire (mem s) (clock_now s) (gr_key g) ttl tok = (mem s, None)"
    by (intro tryAcquire_busy [where e = "entry_of g"]) (simp_all add: entry_of_def)
  with entry lock_excludes [OF assms] show ?thesis by (simp add: entry_of_def)
qed

text \<open>C25. A key is consumed once. In every reachable state two different consumptions of one key
  that both reported a first use lie apart: the later one began no earlier than the time to live of the
  earlier one had passed. A replay within that time is told so.\<close>

theorem consumed_once:
  assumes "lock_steps (lock_start t) s"
    and "i < j" and "j < List.length (consumptions s)"
    and "co_key (consumptions s ! i) = co_key (consumptions s ! j)"
  shows "co_until (consumptions s ! j) \<le> co_at (consumptions s ! i)
       \<and> (clock_now s < co_until (consumptions s ! i) \<and> 0 < ttl \<longrightarrow>
            Consume (mem s) (None :: unit option) (clock_now s) (co_key (consumptions s ! i)) ttl
              = (mem s, Inr False))"
proof -
  have inv: "consumptions_apart s" by (rule reachable_consumptions_apart [OF assms(1)])
  then have "apart (consumptions s ! i) (consumptions s ! j)"
    using assms(2,3) by (auto simp: consumptions_apart_def dest: sorted_wrt_nth_less)
  moreover have "\<exists>u. consumed (mem s) (co_key (consumptions s ! i)) = Some u
                   \<and> co_until (consumptions s ! i) \<le> u"
    using inv assms(2,3) by (simp add: consumptions_apart_def)
  ultimately show ?thesis
    using assms(4) by (auto simp: apart_def Consume_def)
qed

section \<open>A run\<close>

text \<open>
  The first caller holds \<open>k\<close> for 5 from time 0; at 7 a second caller is granted \<open>k\<close> for 5;
  then the first one releases its stale lease.
\<close>

definition run_call :: "64 word \<Rightarrow> call" where
  "run_call tok = \<lparr>ca_key = ''k'', ca_ttl = 5, ca_token = tok\<rparr>"

definition run_grant :: "64 word \<Rightarrow> time \<Rightarrow> bool \<Rightarrow> grant" where
  "run_grant tok u r = \<lparr>gr_key = ''k'', gr_token = tok, gr_until = u, gr_released = r\<rparr>"

definition run_state :: "time \<Rightarrow> (string \<rightharpoonup> memoryEntry) \<Rightarrow> nat \<Rightarrow> call set \<Rightarrow> grant set \<Rightarrow> lock_state" where
  "run_state t h n cs gs =
     \<lparr>clock_now = t, mem = \<lparr>held = h, consumed = Map.empty\<rparr>, token_seq = of_nat n, issued = n,
      calls = cs, grants = gs, consumptions = []\<rparr>"

definition run_entry :: "64 word \<Rightarrow> time \<Rightarrow> string \<rightharpoonup> memoryEntry" where
  "run_entry tok u = [''k'' \<mapsto> \<lparr>me_token = tok, me_expiry = u\<rparr>]"

lemmas run_defs = run_state_def run_call_def run_grant_def run_entry_def

lemma run_begin: "lock_step (run_state t h n {} gs)
    (run_state t h (Suc n) {run_call (of_nat (Suc n))} gs)"
  using step_begin [of 5 "run_state t h n {} gs" "of_nat (Suc n)" "of_nat (Suc n)" "''k''"]
  by (simp add: run_defs newMemoryToken_def add.commute)

lemma run_grants:
  assumes "h = Map.empty \<or> (\<exists>tok0 u. h = run_entry tok0 u \<and> u \<le> t)"
  shows "lock_step (run_state t h n {run_call tok} gs)
           (run_state t (run_entry tok (t + 5)) n {} (insert (run_grant tok (t + 5) False) gs))"
proof -
  have "lock_step (run_state t h n {run_call tok} gs)
      ((run_state t h n {run_call tok} gs)\<lparr>
         mem := (mem (run_state t h n {run_call tok} gs))\<lparr>held := h(''k'' \<mapsto>
                    \<lparr>me_token = tok, me_expiry = t + 5\<rparr>)\<rparr>,
         calls := calls (run_state t h n {run_call tok} gs) - {run_call tok},
         grants := insert \<lparr>gr_key = ml_key \<lparr>ml_key = ''k'', ml_token = tok\<rparr>,
                      gr_token = ml_token \<lparr>ml_key = ''k'', ml_token = tok\<rparr>,
                      gr_until = clock_now (run_state t h n {run_call tok} gs) + ca_ttl (run_call tok),
                      gr_released = False\<rparr> (grants (run_state t h n {run_call tok} gs))\<rparr>)"
    by (rule step_grant) (use assms in \<open>auto simp: run_defs acquire_round_def tryAcquire_def\<close>)
  moreover have "h(''k'' \<mapsto> e) = [''k'' \<mapsto> e]" for e :: memoryEntry
    using assms by (auto simp: run_entry_def)
  ultimately show ?thesis by (simp add: run_defs)
qed

lemma run_stale:
  "lock_steps (lock_start 0)
     (run_state 8 (run_entry 2 12) 2 {} {run_grant 2 12 False, run_grant 1 5 True})"
proof -
  have start: "lock_start 0 = run_state 0 Map.empty 0 {} {}"
    by (simp add: lock_start_def run_state_def NewMemory_def)
  have "lock_step (lock_start 0) (run_state 0 Map.empty 1 {run_call 1} {})"
    using run_begin [of 0 Map.empty 0 "{}"] by (simp add: start)
  then have "lock_steps (lock_start 0) (run_state 0 Map.empty 1 {run_call 1} {})" ..
  also have "lock_step \<dots> (run_state 0 (run_entry 1 5) 1 {} {run_grant 1 5 False})"
    using run_grants [of Map.empty 0 1 1 "{}"] by simp
  also have "lock_step \<dots> (run_state 7 (run_entry 1 5) 1 {} {run_grant 1 5 False})"
    using step_time [of "run_state 0 (run_entry 1 5) 1 {} {run_grant 1 5 False}" 7]
    by (simp add: run_defs)
  also have "lock_step \<dots> (run_state 7 (run_entry 1 5) 2 {run_call 2} {run_grant 1 5 False})"
    using run_begin [of 7 "run_entry 1 5" 1 "{run_grant 1 5 False}"]
    by (simp add: numeral_2_eq_2)
  also have "lock_step \<dots> (run_state 7 (run_entry 2 12) 2 {} {run_grant 2 12 False, run_grant 1 5 False})"
  proof -
    have "\<exists>tok0 u. run_entry 1 5 = run_entry tok0 u \<and> u \<le> 7"
      by (intro exI [of _ 1] exI [of _ 5]) simp
    then show ?thesis
      using run_grants [of "run_entry 1 5" 7 2 2 "{run_grant 1 5 False}"] by simp
  qed
  also have "lock_step \<dots> (run_state 7 (run_entry 2 12) 2 {} {run_grant 2 12 False, run_grant 1 5 True})"
    using step_release [of "run_grant 1 5 False"
        "run_state 7 (run_entry 2 12) 2 {} {run_grant 2 12 False, run_grant 1 5 False}"
        "\<lparr>ml_key = ''k'', ml_token = 1\<rparr>"]
    by (simp add: run_defs mark_released_def Release_def)
  also have "lock_step \<dots> (run_state 8 (run_entry 2 12) 2 {} {run_grant 2 12 False, run_grant 1 5 True})"
    using step_time [of "run_state 7 (run_entry 2 12) 2 {} {run_grant 2 12 False, run_grant 1 5 True}" 8]
    by (simp add: run_defs)
  finally show ?thesis .
qed

theorem leases_exclude_witness:
  "let s = run_state 8 (run_entry 2 12) 2 {} {run_grant 2 12 False, run_grant 1 5 True}
   in tryAcquire (mem s) 8 ''k'' 5 3 = (mem s, None)"
proof -
  let ?s = "run_state 8 (run_entry 2 12) 2 {} {run_grant 2 12 False, run_grant 1 5 True}"
  have "live ?s (run_grant 2 12 False)" by (simp add: live_def run_defs)
  from leases_exclude [OF run_stale _ this this, of 5 3] show ?thesis
    by (simp add: run_defs)
qed

text \<open>A nonce used at 0 for 10 and again at 12 for 10, and refused at 15.\<close>

definition used_twice :: lock_state where
  "used_twice = (lock_start 0)\<lparr>clock_now := 15,
     mem := \<lparr>held = Map.empty, consumed = [''n'' \<mapsto> 22]\<rparr>,
     consumptions := [\<lparr>co_key = ''n'', co_at = 12, co_until = 22\<rparr>,
                      \<lparr>co_key = ''n'', co_at = 0, co_until = 10\<rparr>]\<rparr>"

lemma run_used_twice: "lock_steps (lock_start 0) used_twice"
proof -
  let ?s1 = "(lock_start 0)\<lparr>mem := \<lparr>held = Map.empty, consumed = [''n'' \<mapsto> 10]\<rparr>,
      consumptions := [\<lparr>co_key = ''n'', co_at = 0, co_until = 10\<rparr>]\<rparr>"
  let ?s2 = "?s1\<lparr>clock_now := 12\<rparr>"
  let ?s3 = "?s2\<lparr>mem := \<lparr>held = Map.empty, consumed = [''n'' \<mapsto> 22]\<rparr>,
      consumptions := [\<lparr>co_key = ''n'', co_at = 12, co_until = 22\<rparr>,
                       \<lparr>co_key = ''n'', co_at = 0, co_until = 10\<rparr>]\<rparr>"
  have "lock_step (lock_start 0) ?s1"
    using step_consumed [of "lock_start 0" "''n''" 10 "\<lparr>held = Map.empty, consumed = [''n'' \<mapsto> 10]\<rparr>"]
    by (simp add: lock_start_def NewMemory_def Consume_def)
  then have "lock_steps (lock_start 0) ?s1" ..
  moreover have "lock_step ?s1 ?s2"
    using step_time [of ?s1 12] by (simp add: lock_start_def)
  moreover have "lock_step ?s2 ?s3"
    using step_consumed [of ?s2 "''n''" 10 "\<lparr>held = Map.empty, consumed = [''n'' \<mapsto> 22]\<rparr>"]
    by (simp add: lock_start_def Consume_def)
  moreover have "lock_step ?s3 used_twice"
    using step_time [of ?s3 15] by (simp add: used_twice_def lock_start_def)
  ultimately show ?thesis
    by (blast intro: rtranclp.rtrancl_into_rtrancl)
qed

theorem consumed_once_witness:
  "Consume (mem used_twice) (None :: unit option) 15 ''n'' 10 = (mem used_twice, Inr False)"
  using consumed_once [OF run_used_twice, of 0 1 10]
  by (simp add: used_twice_def lock_start_def)

end
