(* ===== verification/Scheduler_Elector.thy ===== *)
theory Scheduler_Elector
  imports Go_Time
begin

text \<open>
  The election of the scheduler, \<open>src/internal/scheduler/elector.go\<close>: every replica campaigns in
  \<open>Run\<close>; the one whose database session holds the advisory lock leads.

  First the arithmetic of the waits. Then the system of all replicas as a step relation: the
  steps of \<open>attempt\<close> and of its monitor goroutine in the order of the code, of the sessions (one
  may die at any time, and Postgres then gives up its locks) and of the callers' contexts. What
  Postgres does is in the relation as its manual documents it: one session at a time holds an
  advisory lock. A query that fails leaves the session without the lock: it fails because the session
  is gone, or pgx closes the connection whose query it gave up.
\<close>

section \<open>Waiting\<close>

definition backoffBase :: duration where "backoffBase = 10 * ns_per_sec"
definition backoffMax :: duration where "backoffMax = 5 * (60 * ns_per_sec)"
definition maxWatchInterval :: duration where "maxWatchInterval = 2 * ns_per_sec"

text \<open>The loop of \<open>backoffDuration\<close>, with \<open>k\<close> rounds left.\<close>

fun backoff_loop :: "nat \<Rightarrow> duration \<Rightarrow> duration" where
  "backoff_loop 0 d = (if backoffMax < d then backoffMax else d)"
| "backoff_loop (Suc k) d = (if backoffMax \<le> d then backoffMax else backoff_loop k (d * 2))"

definition backoffDuration :: "int \<Rightarrow> duration" where
  "backoffDuration n = (if n \<le> 1 then backoffBase else backoff_loop (nat (n - 1)) backoffBase)"

text \<open>The wait of \<open>Run\<close> after one attempt, and its count of consecutive failures.\<close>

definition run_retry :: "duration \<Rightarrow> duration" where
  "run_retry retry = (if retry \<le> 0 then maxWatchInterval else retry)"

definition run_wait :: "duration \<Rightarrow> nat \<Rightarrow> bool \<Rightarrow> bool \<Rightarrow> nat \<times> duration" where
  "run_wait retry failures failed ctx_done =
     (if failed \<and> \<not> ctx_done then (Suc failures, backoffDuration (int (Suc failures)))
      else (0, run_retry retry))"

definition monitor_interval :: "duration \<Rightarrow> duration" where
  "monitor_interval retry =
     (if retry \<le> 0 \<or> maxWatchInterval < retry then maxWatchInterval else retry)"

lemma backoff_loop_eq:
  assumes "0 < d"
  shows "backoff_loop k d = min (d * 2 ^ k) backoffMax"
  using assms
proof (induction k arbitrary: d)
  case (Suc k)
  show ?case
  proof (cases "backoffMax \<le> d")
    case True
    have "d * 1 \<le> d * 2 ^ Suc k"
      by (intro mult_left_mono one_le_power) (use Suc.prems in simp_all)
    with True show ?thesis by simp
  next
    case False
    with Suc show ?thesis by (simp add: mult.assoc)
  qed
qed (simp add: min_def)

text \<open>The wait after \<open>n\<close> failures in a row is 10 seconds doubled \<open>n - 1\<close> times, and never
  more than five minutes. It does not shrink as failures add up.\<close>

theorem backoffDuration_correct:
  "backoffDuration (int (Suc n)) = min (backoffBase * 2 ^ n) backoffMax
   \<and> backoffBase \<le> backoffDuration m \<and> backoffDuration m \<le> backoffMax
   \<and> backoffDuration (int (Suc n)) \<le> backoffDuration (int (Suc (n + k)))"
proof -
  have eq: "backoffDuration (int (Suc n)) = min (backoffBase * 2 ^ n) backoffMax" for n
    by (simp add: backoffDuration_def backoff_loop_eq min_def backoffBase_def backoffMax_def
        ns_per_sec_def)
  have cap: "backoffBase \<le> backoffMax" "0 < backoffBase"
    by (simp_all add: backoffBase_def backoffMax_def ns_per_sec_def)
  have grow: "backoffBase * 2 ^ i \<le> backoffBase * 2 ^ (i + j)" for i j
    using cap by (intro mult_left_mono power_increasing) auto
  have between: "backoffBase \<le> backoffDuration m \<and> backoffDuration m \<le> backoffMax"
  proof (cases "m \<le> 1")
    case True
    with cap show ?thesis by (simp add: backoffDuration_def)
  next
    case False
    then have "m = int (Suc (nat (m - 1)))" by simp
    with eq [of "nat (m - 1)"] have "backoffDuration m = min (backoffBase * 2 ^ nat (m - 1)) backoffMax"
      by simp
    with cap grow [of 0 "nat (m - 1)"] show ?thesis by simp
  qed
  show ?thesis
    using eq [of n] eq [of "n + k"] grow [of n k] between by (auto simp: min_def)
qed

section \<open>The replicas\<close>

text \<open>
  Where the goroutine of \<open>Run\<close> is. \<open>Won\<close>: the lock query said yes; \<open>Flagged\<close>: after
  \<open>leader.Store(true)\<close>; \<open>Leading\<close>: inside \<open>lead\<close>; the others are the stations of the
  deferred function, after \<open>stopMonitor()\<close>, after \<open><-monitorDone\<close>, after \<open>cancelLead()\<close>, after
  \<open>leader.Store(false)\<close> and after \<open>releaseAdvisoryLock\<close>.
\<close>

datatype phase =
  Campaigning | Connected | Won | Flagged | Leading
  | Stopping | Joined | Cancelled | Cleared | Unlocked | Returned

datatype monitor_phase = Not_started | Watching | Flag_cleared | Monitor_done

record replica =
  phase :: phase
  leader :: bool
  lead_cancelled :: bool
  monitor :: monitor_phase
  ctx_done :: bool
  session_alive :: bool
  failures :: nat
  attempt_failed :: bool

record 'i cluster =
  replicas :: "'i \<Rightarrow> replica"
  lock_holder :: "'i option"

definition new_replica :: replica where
  "new_replica =
     \<lparr>phase = Campaigning, leader = False, lead_cancelled = False, monitor = Not_started,
      ctx_done = False, session_alive = False, failures = 0, attempt_failed = False\<rparr>"

definition new_cluster :: "'i cluster" where
  "new_cluster = \<lparr>replicas = (\<lambda>_. new_replica), lock_holder = None\<rparr>"

definition IsLeader :: "replica \<Rightarrow> bool" where
  "IsLeader r = leader r"

abbreviation at_replica :: "'i cluster \<Rightarrow> 'i \<Rightarrow> (replica \<Rightarrow> replica) \<Rightarrow> 'i cluster" where
  "at_replica c i f \<equiv> c\<lparr>replicas := (replicas c)(i := f (replicas c i))\<rparr>"

text \<open>The end of a session: Postgres releases what it held.\<close>

definition drop_lock :: "'i \<Rightarrow> 'i cluster \<Rightarrow> 'i cluster" where
  "drop_lock i c = (if lock_holder c = Some i then c\<lparr>lock_holder := None\<rparr> else c)"

text \<open>\<open>attempt\<close> returns to \<open>Run\<close>, with an error or not.\<close>

definition attempt_returns :: "bool \<Rightarrow> replica \<Rightarrow> replica" where
  "attempt_returns failed r =
     r\<lparr>phase := Campaigning, session_alive := False,
       failures := fst (run_wait 0 (failures r) failed (ctx_done r))\<rparr>"

inductive elect :: "'i cluster \<Rightarrow> 'i cluster \<Rightarrow> bool" where
  acquire_fails:
    "phase (replicas c i) = Campaigning \<Longrightarrow> elect c (at_replica c i (attempt_returns True))"
| acquire_ok:
    "phase (replicas c i) = Campaigning \<Longrightarrow>
     elect c (at_replica c i (\<lambda>r. r\<lparr>phase := Connected, session_alive := True\<rparr>))"
| query_fails:
    "phase (replicas c i) = Connected \<Longrightarrow>
     elect c (at_replica (drop_lock i c) i (attempt_returns True))"
| not_acquired:
    "phase (replicas c i) = Connected \<Longrightarrow> session_alive (replicas c i) \<Longrightarrow>
     lock_holder c = Some j \<Longrightarrow> j \<noteq> i \<Longrightarrow>
     elect c (at_replica c i (attempt_returns False))"
| acquired:
    "phase (replicas c i) = Connected \<Longrightarrow> session_alive (replicas c i) \<Longrightarrow>
     lock_holder c = None \<or> lock_holder c = Some i \<Longrightarrow>
     elect c ((at_replica c i (\<lambda>r. r\<lparr>phase := Won\<rparr>))\<lparr>lock_holder := Some i\<rparr>)"
| store_true:
    "phase (replicas c i) = Won \<Longrightarrow>
     elect c (at_replica c i (\<lambda>r. r\<lparr>phase := Flagged, leader := True\<rparr>))"
| start_lead:
    "phase (replicas c i) = Flagged \<Longrightarrow>
     elect c (at_replica c i (\<lambda>r. r\<lparr>phase := Leading, lead_cancelled := False, monitor := Watching\<rparr>))"
| monitor_clears:
    "monitor (replicas c i) = Watching \<Longrightarrow>
     elect c (at_replica c i (\<lambda>r. r\<lparr>leader := False, monitor := Flag_cleared\<rparr>))"
| monitor_cancels:
    "monitor (replicas c i) = Flag_cleared \<Longrightarrow>
     elect c (at_replica c i (\<lambda>r. r\<lparr>lead_cancelled := True, monitor := Monitor_done\<rparr>))"
| lead_returns:
    "phase (replicas c i) = Leading \<Longrightarrow>
     elect c (at_replica c i (\<lambda>r. r\<lparr>phase := Stopping, attempt_failed := failed\<rparr>))"
| monitor_joined:
    "phase (replicas c i) = Stopping \<Longrightarrow> monitor (replicas c i) = Monitor_done \<Longrightarrow>
     elect c (at_replica c i (\<lambda>r. r\<lparr>phase := Joined\<rparr>))"
| defer_cancel:
    "phase (replicas c i) = Joined \<Longrightarrow>
     elect c (at_replica c i (\<lambda>r. r\<lparr>phase := Cancelled, lead_cancelled := True\<rparr>))"
| defer_clear:
    "phase (replicas c i) = Cancelled \<Longrightarrow>
     elect c (at_replica c i (\<lambda>r. r\<lparr>phase := Cleared, leader := False\<rparr>))"
| unlock:
    "phase (replicas c i) = Cleared \<Longrightarrow>
     elect c (at_replica (drop_lock i c) i (\<lambda>r. r\<lparr>phase := Unlocked, session_alive := alive \<and> session_alive r\<rparr>))"
| conn_release:
    "phase (replicas c i) = Unlocked \<Longrightarrow>
     elect c (at_replica c i (\<lambda>r. attempt_returns (attempt_failed r) r))"
| session_dies:
    "session_alive (replicas c i) \<Longrightarrow>
     elect c (at_replica (drop_lock i c) i (\<lambda>r. r\<lparr>session_alive := False\<rparr>))"
| ctx_ends: "elect c (at_replica c i (\<lambda>r. r\<lparr>ctx_done := True\<rparr>))"
| run_returns:
    "phase (replicas c i) = Campaigning \<Longrightarrow> ctx_done (replicas c i) \<Longrightarrow>
     elect c (at_replica c i (\<lambda>r. r\<lparr>phase := Returned\<rparr>))"

abbreviation elects :: "'i cluster \<Rightarrow> 'i cluster \<Rightarrow> bool" where
  "elects \<equiv> elect\<^sup>*\<^sup>*"

section \<open>What holds in every reachable state\<close>

definition leading_phases :: "phase set" where
  "leading_phases = {Won, Flagged, Leading, Stopping, Joined, Cancelled, Cleared}"

definition before_monitor :: "phase set" where
  "before_monitor = {Campaigning, Connected, Won, Flagged, Returned}"

definition after_join :: "phase set" where
  "after_join = {Joined, Cancelled, Cleared, Unlocked}"

lemmas phase_sets = leading_phases_def before_monitor_def after_join_def

text \<open>The flag and the leadership context of one replica.\<close>

definition flag_ok :: "replica \<Rightarrow> bool" where
  "flag_ok r \<longleftrightarrow>
     (phase r \<in> before_monitor \<longrightarrow> monitor r \<notin> {Watching, Flag_cleared}) \<and>
     (phase r \<in> {Leading, Stopping} \<longrightarrow>
        monitor r \<noteq> Not_started \<and> (lead_cancelled r \<longleftrightarrow> monitor r = Monitor_done)) \<and>
     (phase r \<in> after_join \<longrightarrow> monitor r = Monitor_done \<and> lead_cancelled r) \<and>
     (leader r \<longrightarrow> phase r = Flagged \<or> phase r \<in> {Leading, Stopping} \<and> monitor r = Watching)"

text \<open>The lock and the sessions.\<close>

definition holds :: "replica \<Rightarrow> bool" where
  "holds r \<longleftrightarrow> phase r \<in> leading_phases \<and> session_alive r"

definition lock_ok :: "'i cluster \<Rightarrow> bool" where
  "lock_ok c \<longleftrightarrow> (\<forall>i. holds (replicas c i) \<longleftrightarrow> lock_holder c = Some i)"

lemma lock_holder_drop [simp]:
  "lock_holder (drop_lock i c) = (if lock_holder c = Some i then None else lock_holder c)"
  by (simp add: drop_lock_def)

lemma replicas_drop [simp]: "replicas (drop_lock i c) = replicas c"
  by (simp add: drop_lock_def)

lemma attempt_returns_sel [simp]:
  "phase (attempt_returns f r) = Campaigning" "leader (attempt_returns f r) = leader r"
  "session_alive (attempt_returns f r) = False" "monitor (attempt_returns f r) = monitor r"
  "lead_cancelled (attempt_returns f r) = lead_cancelled r"
  by (simp_all add: attempt_returns_def)

lemma flag_ok_at:
  assumes "\<forall>j. flag_ok (replicas c j)" and "flag_ok (replicas c i) \<Longrightarrow> flag_ok (f (replicas c i))"
  shows "\<forall>j. flag_ok (replicas (at_replica c i f) j)"
  using assms by simp

lemma lock_ok_keep:
  assumes "lock_ok c" and "holds (f (replicas c i)) = holds (replicas c i)"
  shows "lock_ok (at_replica c i f)"
  using assms by (auto simp: lock_ok_def)

lemma lock_ok_drop:
  assumes "lock_ok c" and "\<not> holds (f (replicas c i))"
  shows "lock_ok (at_replica (drop_lock i c) i f)"
  using assms by (auto simp: lock_ok_def)

lemma lock_ok_take:
  assumes "lock_ok c" and "lock_holder c = None \<or> lock_holder c = Some i"
    and "holds (f (replicas c i))"
  shows "lock_ok ((at_replica c i f)\<lparr>lock_holder := Some i\<rparr>)"
  using assms by (auto simp: lock_ok_def)

lemmas flag_ok_sets = flag_ok_def phase_sets

lemma flag_ok_elect:
  assumes "elect c c'" and "\<forall>i. flag_ok (replicas c i)"
  shows "\<forall>i. flag_ok (replicas c' i)"
  using assms
proof (induction rule: elect.induct)
  case (query_fails c i)
  then show ?case by (intro flag_ok_at) (auto simp: flag_ok_sets)
next
  case (acquired c i)
  then have "\<forall>j. flag_ok (replicas (at_replica c i (\<lambda>r. r\<lparr>phase := Won\<rparr>)) j)"
    by (intro flag_ok_at) (auto simp: flag_ok_sets)
  then show ?case by simp
next
  case (unlock c i alive)
  then show ?case by (intro flag_ok_at) (auto simp: flag_ok_sets)
next
  case (session_dies c i)
  then show ?case by (intro flag_ok_at) (auto simp: flag_ok_sets)
next
  case (monitor_clears c i)
  then show ?case by (intro flag_ok_at) (auto simp: flag_ok_sets)
next
  case (monitor_cancels c i)
  then show ?case by (intro flag_ok_at) (auto simp: flag_ok_sets)
qed (rule flag_ok_at, assumption, simp add: flag_ok_sets)+

lemma lock_ok_elect:
  assumes "elect c c'" and "lock_ok c"
  shows "lock_ok c'"
  using assms
proof (induction rule: elect.induct)
  case (query_fails c i)
  then show ?case by (intro lock_ok_drop) (simp_all add: holds_def)
next
  case (acquired c i)
  then show ?case by (intro lock_ok_take) (simp_all add: holds_def phase_sets)
next
  case (unlock c i alive)
  then show ?case by (intro lock_ok_drop) (simp_all add: holds_def phase_sets)
next
  case (session_dies c i)
  then show ?case by (intro lock_ok_drop) (simp_all add: holds_def)
qed (rule lock_ok_keep, assumption, simp add: holds_def phase_sets)+

lemma reachable_elect:
  assumes "elects new_cluster c"
  shows "(\<forall>i. flag_ok (replicas c i)) \<and> lock_ok c"
  using assms
proof (induction rule: rtranclp_induct)
  case base
  show ?case
    by (simp add: new_cluster_def new_replica_def flag_ok_def lock_ok_def holds_def phase_sets)
next
  case (step c c')
  then show ?case using flag_ok_elect lock_ok_elect by blast
qed

section \<open>What the election promises\<close>

text \<open>C22. One leader. In every reachable state of the replicas at most one that reports
  \<open>IsLeader\<close> still has the session it won the lock on, and that session holds the lock. A second
  one that still reports it has lost its session, which is what its monitor watches for.\<close>

theorem one_leader:
  assumes "elects new_cluster c"
    and "IsLeader (replicas c i)" and "session_alive (replicas c i)"
    and "IsLeader (replicas c j)" and "session_alive (replicas c j)"
  shows "i = j \<and> lock_holder c = Some i"
proof -
  have ok: "\<forall>i. flag_ok (replicas c i)" "lock_ok c"
    using reachable_elect [OF assms(1)] by simp_all
  have "holds (replicas c k)" if "IsLeader (replicas c k)" "session_alive (replicas c k)" for k
    using that ok(1) by (auto simp: IsLeader_def holds_def flag_ok_def leading_phases_def)
  then have "lock_holder c = Some k" if "IsLeader (replicas c k)" "session_alive (replicas c k)" for k
    using that ok(2) by (simp add: lock_ok_def)
  from this [OF assms(2,3)] this [OF assms(4,5)]
  have "lock_holder c = Some i" "lock_holder c = Some j" by simp_all
  then show ?thesis by simp
qed

text \<open>C24. The order of giving up. In every reachable state a replica whose leadership context is
  cancelled no longer reports \<open>IsLeader\<close>, from the moment \<open>lead\<close> starts until \<open>attempt\<close> has
  returned; when the deferred function has waited for the monitor, the monitor has already cleared the
  flag and cancelled the context; from then on, and so whenever the replica uses its session again, to unlock or
  to campaign anew, no monitor goroutine runs; and a replica that is not in its term holds no lock, reports
  nothing and runs no monitor: every way out of \<open>attempt\<close>, a panic of \<open>lead\<close> included, gives the
  lock back.\<close>

theorem leadership_given_up:
  assumes "elects new_cluster c"
  shows "(phase (replicas c i) \<in> {Leading, Stopping, Joined, Cancelled, Cleared, Unlocked}
            \<and> lead_cancelled (replicas c i) \<longrightarrow> \<not> IsLeader (replicas c i))
       \<and> (phase (replicas c i) = Joined \<longrightarrow>
            lead_cancelled (replicas c i) \<and> \<not> IsLeader (replicas c i))
       \<and> (phase (replicas c i) \<in> {Joined, Cancelled, Cleared} \<longrightarrow> monitor (replicas c i) \<notin> {Watching, Flag_cleared})
       \<and> (phase (replicas c i) \<in> {Campaigning, Connected, Unlocked, Returned} \<longrightarrow>
            lock_holder c \<noteq> Some i \<and> \<not> IsLeader (replicas c i) \<and> monitor (replicas c i) \<notin> {Watching, Flag_cleared})"
proof -
  have f: "flag_ok (replicas c i)" and l: "lock_ok c"
    using reachable_elect [OF assms] by simp_all
  have 1: "\<not> leader (replicas c i)"
    if "phase (replicas c i) \<in> {Leading, Stopping, Joined, Cancelled, Cleared, Unlocked}"
      "lead_cancelled (replicas c i)"
    using f that by (auto simp: flag_ok_def)
  have 2: "lead_cancelled (replicas c i) \<and> \<not> leader (replicas c i)" if "phase (replicas c i) = Joined"
    using f that by (auto simp: flag_ok_sets)
  have 4: "monitor (replicas c i) \<notin> {Watching, Flag_cleared}"
    if "phase (replicas c i) \<in> before_monitor \<union> after_join"
    using f that by (auto simp: flag_ok_def)
  have 3: "lock_holder c \<noteq> Some i \<and> \<not> leader (replicas c i)"
    if "phase (replicas c i) \<in> {Campaigning, Connected, Unlocked, Returned}"
  proof -
    from that have "\<not> holds (replicas c i)" by (auto simp: holds_def phase_sets)
    moreover have "leader (replicas c i) \<longrightarrow> phase (replicas c i) = Flagged \<or> phase (replicas c i) \<in> {Leading, Stopping}"
      using f unfolding flag_ok_def by blast
    then have "\<not> leader (replicas c i)" using that by auto
    ultimately show ?thesis using l by (simp add: lock_ok_def)
  qed
  have "monitor (replicas c i) \<notin> {Watching, Flag_cleared}"
    if "phase (replicas c i) \<in> {Joined, Cancelled, Cleared} \<union> {Campaigning, Connected, Unlocked, Returned}"
    by (rule 4) (use that in \<open>auto simp: phase_sets\<close>)
  with 1 2 3 show ?thesis unfolding IsLeader_def by (simp only: Un_iff) blast
qed

section \<open>A run\<close>

text \<open>Replica 0 leads and its session dies; before its monitor notices, replica 1 has won.\<close>

definition replica_at :: "phase \<Rightarrow> bool \<Rightarrow> monitor_phase \<Rightarrow> bool \<Rightarrow> replica" where
  "replica_at p l m a =
     \<lparr>phase = p, leader = l, lead_cancelled = False, monitor = m, ctx_done = False,
      session_alive = a, failures = 0, attempt_failed = False\<rparr>"

definition pair :: "replica \<Rightarrow> replica \<Rightarrow> nat option \<Rightarrow> nat cluster" where
  "pair r0 r1 h = \<lparr>replicas = (\<lambda>_. new_replica)(0 := r0, 1 := r1), lock_holder = h\<rparr>"

lemmas pair_defs = pair_def replica_at_def new_replica_def

lemma pair_eqI:
  "replicas c 0 = r0 \<Longrightarrow> replicas c 1 = r1 \<Longrightarrow> (\<And>i. 2 \<le> i \<Longrightarrow> replicas c i = new_replica) \<Longrightarrow>
   lock_holder c = h \<Longrightarrow> c = pair r0 r1 h"
proof (cases c)
  case (fields rs lh)
  assume a: "replicas c 0 = r0" "replicas c 1 = r1" "\<And>i. 2 \<le> i \<Longrightarrow> replicas c i = new_replica"
    "lock_holder c = h"
  have "replicas c i = replicas (pair r0 r1 h) i" for i
    using a by (cases "i = 0 \<or> i = 1") (auto simp: pair_def not_less_eq_eq)
  then have "replicas c = replicas (pair r0 r1 h)" by (rule ext)
  with a(4) show ?thesis by (simp add: pair_def)
qed

lemma elect_to:
  assumes "elect c c'" and "c' = d"
  shows "elect c d"
  using assms by simp

definition stale_leader :: "nat cluster" where
  "stale_leader =
     pair (replica_at Leading True Watching False) (replica_at Flagged True Not_started True) (Some 1)"

lemma run_stale_leader: "elects new_cluster stale_leader"
proof -
  let ?n = "replica_at Campaigning False Not_started False"
  have start: "(new_cluster :: nat cluster) = pair ?n ?n None"
    by (rule pair_eqI) (simp_all add: new_cluster_def pair_defs)
  have one: "elect (pair a b h) (pair a' b h')"
    if "elect (pair a b h) ((at_replica (pair a b h) 0 f)\<lparr>lock_holder := h'\<rparr>)" "f a = a'"
    for a b h f a' h'
    using that(1) by (rule elect_to) (rule pair_eqI; use that(2) in \<open>simp add: pair_def\<close>)
  have two: "elect (pair a b h) (pair a b' h')"
    if "elect (pair a b h) ((at_replica (pair a b h) 1 f)\<lparr>lock_holder := h'\<rparr>)" "f b = b'"
    for a b h f b' h'
    using that(1) by (rule elect_to) (rule pair_eqI; use that(2) in \<open>simp add: pair_def\<close>)
  have "elect new_cluster (pair (replica_at Connected False Not_started True) ?n None)"
    unfolding start
    using acquire_ok [of "pair ?n ?n None" 0] by (intro one) (simp_all add: pair_defs)
  then have "elects new_cluster (pair (replica_at Connected False Not_started True) ?n None)" ..
  also have "elect \<dots> (pair (replica_at Won False Not_started True) ?n (Some 0))"
    using acquired [of "pair (replica_at Connected False Not_started True) ?n None" 0]
    by (intro one) (simp_all add: pair_defs)
  also have "elect \<dots> (pair (replica_at Flagged True Not_started True) ?n (Some 0))"
    using store_true [of "pair (replica_at Won False Not_started True) ?n (Some 0)" 0]
    by (intro one) (simp_all add: pair_defs)
  also have "elect \<dots> (pair (replica_at Leading True Watching True) ?n (Some 0))"
    using start_lead [of "pair (replica_at Flagged True Not_started True) ?n (Some 0)" 0]
    by (intro one) (simp_all add: pair_defs)
  also have "elect \<dots> (pair (replica_at Leading True Watching False) ?n None)"
    using session_dies [of "pair (replica_at Leading True Watching True) ?n (Some 0)" 0]
    by (intro one) (simp_all add: pair_defs drop_lock_def)
  also have "elect \<dots> (pair (replica_at Leading True Watching False)
                         (replica_at Connected False Not_started True) None)"
    using acquire_ok [of "pair (replica_at Leading True Watching False) ?n None" 1]
    by (intro two) (simp_all add: pair_defs)
  also have "elect \<dots> (pair (replica_at Leading True Watching False)
                         (replica_at Won False Not_started True) (Some 1))"
    using acquired [of "pair (replica_at Leading True Watching False)
                         (replica_at Connected False Not_started True) None" 1]
    by (intro two) (simp_all add: pair_defs)
  also have "elect \<dots> stale_leader"
    unfolding stale_leader_def
    using store_true [of "pair (replica_at Leading True Watching False)
                         (replica_at Won False Not_started True) (Some 1)" 1]
    by (intro two) (simp_all add: pair_defs)
  finally show ?thesis .
qed

theorem one_leader_witness:
  "IsLeader (replicas stale_leader 0) \<and> lock_holder stale_leader = Some 1"
  using one_leader [OF run_stale_leader, of 1 1]
  by (simp add: stale_leader_def pair_defs IsLeader_def)

theorem leadership_given_up_witness:
  "lock_holder stale_leader \<noteq> Some 5 \<and> \<not> IsLeader (replicas stale_leader 5) \<and> monitor (replicas stale_leader 5) \<noteq> Watching"
  using leadership_given_up [OF run_stale_leader, of 5]
  by (simp add: stale_leader_def pair_defs)

end
