(* ===== verification/Http_Errors.thy ===== *)
theory Http_Errors
  imports Icmal_Numbers
begin

text \<open>
  The errors of the integration adapters and what is decided from them:
  \<open>src/internal/integration/errors.go\<close> (the six kinds, \<open>Retryable\<close>, \<open>RetryAfter\<close>),
  \<open>src/internal/job/retry.go\<close> (\<open>ClassifyForRetry\<close>, \<open>RetryDelay\<close>) and the arithmetic of the
  waits in \<open>src/internal/integration/httpx\<close> (\<open>retry.go\<close>, \<open>classify.go\<close>).

  An error value of Go is the tree its \<open>Unwrap\<close> methods span. The random number of a jitter is
  an argument of the definition that draws it, with the range \<open>rand.Int64N\<close> documents.
\<close>

section \<open>Error values\<close>

datatype fault =
  ErrAuth | ErrRateLimited | ErrUpstreamUnavailable | ErrMalformedPayload | ErrNotFound | ErrConfig

text \<open>
  A sentinel, \<open>asynq.SkipRetry\<close>, the error of a context, any other error, an error made with
  \<open>%w\<close>, and the \<open>*integration.Error\<close>.
\<close>

datatype go_error =
  Sentinel fault
| SkipRetry_mark
| Context_error string
| Other_error string
| Wraps "go_error list"
| Integration_Error (err_Kind: go_error) (err_Provider: string) (err_Op: string)
    (err_HTTPStatus: int) (err_RetryAfter: duration)

text \<open>\<open>errors.Is\<close>; the targets are sentinels.\<close>

fun errors_Is :: "go_error \<Rightarrow> go_error \<Rightarrow> bool" where
  "errors_Is (Wraps es) t \<longleftrightarrow> Wraps es = t \<or> (\<exists>e \<in> set es. errors_Is e t)"
| "errors_Is (Integration_Error k p q h r) t \<longleftrightarrow> Integration_Error k p q h r = t \<or> errors_Is k t"
| "errors_Is e t \<longleftrightarrow> e = t"

abbreviation is_kind :: "go_error \<Rightarrow> fault \<Rightarrow> bool" where
  "is_kind e k \<equiv> errors_Is e (Sentinel k)"

text \<open>\<open>errors.As\<close> for \<open>*integration.Error\<close>: the first one on a walk from the root.\<close>

fun errors_As :: "go_error \<Rightarrow> go_error option" where
  "errors_As (Integration_Error k p q h r) = Some (Integration_Error k p q h r)"
| "errors_As (Wraps es) = (case filter (\<lambda>e. e \<noteq> None) (map errors_As es) of x # _ \<Rightarrow> x | [] \<Rightarrow> None)"
| "errors_As _ = None"

definition sentinel_text :: "fault \<Rightarrow> string" where
  "sentinel_text k =
     ''integration: '' @
     (case k of
        ErrAuth \<Rightarrow> ''authentication failed''
      | ErrRateLimited \<Rightarrow> ''rate limited''
      | ErrUpstreamUnavailable \<Rightarrow> ''upstream unavailable''
      | ErrMalformedPayload \<Rightarrow> ''malformed payload''
      | ErrNotFound \<Rightarrow> ''not found''
      | ErrConfig \<Rightarrow> ''configuration incomplete or invalid'')"

definition kindText :: "go_error \<Rightarrow> string" where
  "kindText e =
     (if is_kind e ErrAuth then sentinel_text ErrAuth
      else if is_kind e ErrRateLimited then sentinel_text ErrRateLimited
      else if is_kind e ErrUpstreamUnavailable then sentinel_text ErrUpstreamUnavailable
      else if is_kind e ErrMalformedPayload then sentinel_text ErrMalformedPayload
      else if is_kind e ErrNotFound then sentinel_text ErrNotFound
      else if is_kind e ErrConfig then sentinel_text ErrConfig
      else ''unknown'')"

definition Error_text :: "go_error \<Rightarrow> string" where
  "Error_text e =
     err_Provider e @ '' '' @ err_Op e @ '': '' @ kindText (err_Kind e) @ '' (HTTP ''
       @ itoa (err_HTTPStatus e) @ '')''"

definition Retryable :: "go_error \<Rightarrow> bool" where
  "Retryable e \<longleftrightarrow> is_kind e ErrRateLimited \<or> is_kind e ErrUpstreamUnavailable"

definition RetryAfter :: "go_error \<Rightarrow> duration option" where
  "RetryAfter e =
     (case errors_As e of
        None \<Rightarrow> None
      | Some ie \<Rightarrow>
          if \<not> is_kind (err_Kind ie) ErrRateLimited \<or> err_RetryAfter ie \<le> 0 then None
          else Some (err_RetryAfter ie))"

section \<open>The retries of a job\<close>

text \<open>\<open>None\<close> is the nil error.\<close>

definition SkipRetry :: "go_error option \<Rightarrow> go_error option" where
  "SkipRetry e = map_option (\<lambda>e. Wraps [e, SkipRetry_mark]) e"

definition ClassifyForRetry :: "go_error option \<Rightarrow> go_error option" where
  "ClassifyForRetry err =
     (case err of
        None \<Rightarrow> None
      | Some e \<Rightarrow>
          if is_kind e ErrAuth \<or> is_kind e ErrMalformedPayload \<or> is_kind e ErrNotFound
             \<or> is_kind e ErrConfig
          then SkipRetry (Some e) else Some e)"

definition integRetryBase :: duration where "integRetryBase = 30 * ns_per_sec"
definition integRetryCap :: duration where "integRetryCap = 30 * (60 * ns_per_sec)"

fun integ_loop :: "nat \<Rightarrow> duration \<Rightarrow> duration" where
  "integ_loop 0 d = min d integRetryCap"
| "integ_loop (Suc k) d = (if integRetryCap \<le> d then integRetryCap else integ_loop k (d * 2))"

definition integBackoff :: "int \<Rightarrow> duration" where
  "integBackoff n = integ_loop (nat n) integRetryBase"

text \<open>\<open>draw span\<close> is what \<open>rand.Int64N(span)\<close> returns.\<close>

definition integJitter :: "(int \<Rightarrow> int) \<Rightarrow> duration \<Rightarrow> duration" where
  "integJitter draw d =
     (if d \<le> 0 then 0
      else let half = quot d 2; width = d - half + 1 in half + draw width)"

definition RetryDelay :: "(int \<Rightarrow> int) \<Rightarrow> int \<Rightarrow> go_error \<Rightarrow> duration" where
  "RetryDelay draw n e =
     (case RetryAfter e of
        Some d \<Rightarrow> min d integRetryCap
      | None \<Rightarrow> integJitter draw (integBackoff n))"

section \<open>The waits and classes of the HTTP client\<close>

fun attempt_loop :: "nat \<Rightarrow> duration \<Rightarrow> duration \<Rightarrow> duration" where
  "attempt_loop 0 cap backoff = backoff"
| "attempt_loop (Suc k) cap backoff =
     (if cap \<le> backoff then cap
      else attempt_loop k cap (if cap < backoff * 2 then cap else backoff * 2))"

definition backoffForAttempt :: "(int \<Rightarrow> int) \<Rightarrow> duration \<Rightarrow> duration \<Rightarrow> int \<Rightarrow> duration" where
  "backoffForAttempt draw base maxBackoff attempt =
     (let base = (if base \<le> 0 then ns_per_sec else base);
          maxBackoff = (if maxBackoff \<le> 0 then 30 * ns_per_sec else maxBackoff);
          backoff = attempt_loop (nat (attempt - 1)) maxBackoff base;
          half = quot backoff 2
      in if half \<le> 0 then backoff else half + draw (half + 1))"

definition classifyStatus :: "int \<Rightarrow> fault" where
  "classifyStatus status =
     (if status = 401 \<or> status = 403 then ErrAuth
      else if status = 404 then ErrNotFound
      else if status = 429 then ErrRateLimited
      else if status = 408 \<or> 500 \<le> status then ErrUpstreamUnavailable
      else ErrMalformedPayload)"

text \<open>
  \<open>strconv.ParseInt(v, 10, 64)\<close>: the loop of \<open>ParseUint\<close> reports a range error as soon as the
  number is too large, whatever follows.
\<close>

datatype num_error = ErrSyntax | ErrRange

fun parse_uint :: "int \<Rightarrow> string \<Rightarrow> num_error + int" where
  "parse_uint n [] = Inr n"
| "parse_uint n (c # cs) =
     (if \<not> is_digit c then Inl ErrSyntax
      else if 1844674407370955162 \<le> n then Inl ErrRange
      else let n1 = n * 10 + digit_val c
           in if 2 ^ 64 \<le> n1 then Inl ErrRange else parse_uint n1 cs)"

definition ParseInt :: "string \<Rightarrow> num_error + int" where
  "ParseInt v =
     (let (neg, ds) = (case v of c # cs \<Rightarrow> if c = CHR ''-'' then (True, cs)
                                        else if c = CHR ''+'' then (False, cs) else (False, v)
                       | [] \<Rightarrow> (False, []))
      in if ds = [] then Inl ErrSyntax
         else case parse_uint 0 ds of
           Inl ErrSyntax \<Rightarrow> Inl ErrSyntax
         | Inl ErrRange \<Rightarrow> Inl ErrRange
         | Inr un \<Rightarrow>
             if \<not> neg \<and> 2 ^ 63 \<le> un then Inl ErrRange
             else if neg \<and> 2 ^ 63 < un then Inl ErrRange
             else Inr (if neg then - un else un))"

definition maxRetryAfterSeconds :: int where "maxRetryAfterSeconds = 2147483647"

text \<open>\<open>http_date\<close> is \<open>http.ParseTime\<close>.\<close>

definition parseRetryAfter :: "(string \<Rightarrow> time option) \<Rightarrow> string \<Rightarrow> time \<Rightarrow> duration option" where
  "parseRetryAfter http_date v now =
     (if v = [] then None
      else case ParseInt v of
        Inr secs \<Rightarrow>
          (let secs = (if secs < 0 then 0 else secs);
               secs = (if maxRetryAfterSeconds < secs then maxRetryAfterSeconds else secs)
           in Some (secs * ns_per_sec))
      | Inl ErrRange \<Rightarrow>
          if take 1 (TrimSpace v) = ''-'' then Some 0
          else Some (maxRetryAfterSeconds * ns_per_sec)
      | Inl ErrSyntax \<Rightarrow>
          (case http_date v of
             Some t \<Rightarrow> (let d = t - now in Some (if d < 0 then 0 else d))
           | None \<Rightarrow> None))"

section \<open>What the classification keeps\<close>

lemma errors_Is_SkipRetry [simp]:
  "errors_Is (Wraps [e, SkipRetry_mark]) (Sentinel k) = is_kind e k"
  "errors_Is (Wraps [e, SkipRetry_mark]) SkipRetry_mark"
  "errors_As (Wraps [e, SkipRetry_mark]) = errors_As e"
  by (simp_all split: option.split)

lemma kindText_cases: "kindText e \<in> insert ''unknown'' (range sentinel_text)"
  by (simp add: kindText_def)

text \<open>The text of an integration error is its provider, its operation, its status and one of
  seven fixed words: two errors that agree on the first three and match the same sentinels read the same,
  whatever else their kinds wrap. Nothing an adapter put into a kind reaches a message.\<close>

theorem Error_text_fixed:
  "\<exists>w \<in> insert ''unknown'' (range sentinel_text).
     (\<forall>e'. err_Provider e' = err_Provider e \<and> err_Op e' = err_Op e
         \<and> err_HTTPStatus e' = err_HTTPStatus e
         \<and> (\<forall>k. is_kind (err_Kind e') k = is_kind (err_Kind e) k) \<longrightarrow>
         Error_text e' = err_Provider e @ '' '' @ err_Op e @ '': '' @ w @ '' (HTTP ''
                           @ itoa (err_HTTPStatus e) @ '')'')"
  by (rule bexI [of _ "kindText (err_Kind e)"])
     (auto simp: Error_text_def kindText_def)

theorem Error_text_fixed_witness:
  "\<exists>w \<in> insert ''unknown'' (range sentinel_text).
     Error_text (Integration_Error (Other_error ''password'') ''osos'' ''authentication'' 0 0)
       = ''osos authentication: '' @ w @ '' (HTTP 0)''"
proof -
  let ?e = "Integration_Error (Other_error ''password'') ''osos'' ''authentication'' 0 0"
  from Error_text_fixed [of ?e] obtain w where
    "w \<in> insert ''unknown'' (range sentinel_text)" and
    "\<forall>e'. err_Provider e' = err_Provider ?e \<and> err_Op e' = err_Op ?e
         \<and> err_HTTPStatus e' = err_HTTPStatus ?e
         \<and> (\<forall>k. is_kind (err_Kind e') k = is_kind (err_Kind ?e) k) \<longrightarrow>
         Error_text e' = err_Provider ?e @ '' '' @ err_Op ?e @ '': '' @ w @ '' (HTTP ''
                           @ itoa (err_HTTPStatus ?e) @ '')''" by (rule bexE)
  then have "Error_text ?e = ''osos authentication: '' @ w @ '' (HTTP '' @ itoa 0 @ '')''" by simp
  moreover have "itoa 0 = ''0''"
    by (simp add: itoa_def fmt_int_def zero_pad_def nat_digits.simps digit_0)
  ultimately show ?thesis using \<open>w \<in> _\<close> by (intro bexI [of _ w]) simp_all
qed

text \<open>C26. What a failed job does next. The classified error matches the same kinds and carries the same
  Retry-After as the error it came from, so a log or a metric sees no difference; and it tells the queue to
  stop exactly when the error did already, or is one of the four kinds that cannot get better.\<close>

theorem ClassifyForRetry_correct:
  assumes "ClassifyForRetry (Some e) = Some f"
  shows "(\<forall>k. is_kind f k = is_kind e k) \<and> Retryable f = Retryable e \<and> RetryAfter f = RetryAfter e
       \<and> (errors_Is f SkipRetry_mark \<longleftrightarrow>
            errors_Is e SkipRetry_mark \<or> is_kind e ErrAuth \<or> is_kind e ErrMalformedPayload
            \<or> is_kind e ErrNotFound \<or> is_kind e ErrConfig)"
  using assms
  by (auto simp: ClassifyForRetry_def SkipRetry_def Retryable_def RetryAfter_def split: if_splits
      simp del: errors_Is.simps(1) errors_As.simps(2))

theorem ClassifyForRetry_correct_witness:
  "let f = Wraps [Integration_Error (Sentinel ErrAuth) ''osos'' ''login'' 401 0, SkipRetry_mark]
   in errors_Is f SkipRetry_mark \<and> is_kind f ErrAuth \<and> \<not> Retryable f"
  using ClassifyForRetry_correct [of "Integration_Error (Sentinel ErrAuth) ''osos'' ''login'' 401 0"]
  by (simp add: ClassifyForRetry_def SkipRetry_def Retryable_def)

section \<open>What the waits are\<close>

definition draws :: "(int \<Rightarrow> int) \<Rightarrow> bool" where
  "draws draw \<longleftrightarrow> (\<forall>w > 0. 0 \<le> draw w \<and> draw w < w)"

lemma drawsD: "draws draw \<Longrightarrow> 0 < w \<Longrightarrow> 0 \<le> draw w \<and> draw w < w"
  by (simp add: draws_def)

lemma double_le: "0 < d \<Longrightarrow> d \<le> d * 2 ^ k" for d :: int
  using mult_left_mono [of 1 "2 ^ k" d] by simp

lemma integ_loop_eq: "0 < d \<Longrightarrow> integ_loop k d = min (d * 2 ^ k) integRetryCap"
proof (induction k arbitrary: d)
  case (Suc k)
  show ?case
  proof (cases "integRetryCap \<le> d")
    case True
    then have "integRetryCap \<le> d * 2 ^ Suc k" by (rule order.trans [OF _ double_le [OF Suc.prems]])
    with True show ?thesis by (simp del: power_Suc)
  next
    case False
    with Suc show ?thesis by (simp add: mult.assoc)
  qed
qed simp

lemma integBackoff_eq: "integBackoff n = min (integRetryBase * 2 ^ nat n) integRetryCap"
  by (simp add: integBackoff_def integ_loop_eq integRetryBase_def ns_per_sec_def)

lemma attempt_loop_eq:
  "0 < d \<Longrightarrow> attempt_loop (Suc k) cap d = min (d * 2 ^ Suc k) cap"
proof (induction k arbitrary: d)
  case 0
  then show ?case by auto
next
  case (Suc k)
  show ?case
  proof (cases "cap \<le> d")
    case True
    then have "cap \<le> d * 2 ^ Suc (Suc k)" by (rule order.trans [OF _ double_le [OF Suc.prems]])
    with True show ?thesis by (simp del: power_Suc)
  next
    case False
    then have "attempt_loop (Suc (Suc k)) cap d = attempt_loop (Suc k) cap (min (d * 2) cap)"
      by (subst attempt_loop.simps) (auto simp: min_def simp del: attempt_loop.simps)
    also have "\<dots> = min (min (d * 2) cap * 2 ^ Suc k) cap"
      using False Suc.prems by (intro Suc.IH) simp
    also have "\<dots> = min (d * 2 ^ Suc (Suc k)) cap"
    proof (cases "cap \<le> d * 2")
      case True
      then have "0 < cap" using False Suc.prems by simp
      then have "cap \<le> cap * 2 ^ Suc k" by (rule double_le)
      moreover have "d * 2 \<le> d * 2 * 2 ^ Suc k" using Suc.prems by (intro double_le) simp
      then have "cap \<le> d * 2 ^ Suc (Suc k)" using True by (simp add: mult.assoc del: mult_le_cancel_left1)
      ultimately show ?thesis
        using True by (simp del: power_Suc)
    qed (simp add: mult.assoc)
    finally show ?thesis .
  qed
qed

text \<open>A failed job waits as long as the provider asked, or between half of and all of 30 seconds
  doubled \<open>n\<close> times; in every case more than nothing and never more than thirty minutes.\<close>

theorem RetryDelay_bounds:
  assumes "draws draw"
  shows "0 < RetryDelay draw n e \<and> RetryDelay draw n e \<le> integRetryCap
       \<and> (case RetryAfter e of
            Some d \<Rightarrow> RetryDelay draw n e = min d integRetryCap
          | None \<Rightarrow> integBackoff n div 2 \<le> RetryDelay draw n e \<and> RetryDelay draw n e \<le> integBackoff n)
       \<and> integBackoff n = min (integRetryBase * 2 ^ nat n) integRetryCap"
proof -
  have cap: "0 < integRetryCap" "0 < integRetryBase" "integRetryBase \<le> integRetryCap"
    by (simp_all add: integRetryCap_def integRetryBase_def ns_per_sec_def)
  have b: "integRetryBase \<le> integBackoff n" "integBackoff n \<le> integRetryCap"
    using double_le [of integRetryBase "nat n"] cap by (simp_all add: integBackoff_eq)
  have jitter: "d div 2 \<le> integJitter draw d \<and> integJitter draw d \<le> d" if "0 < d" for d
  proof -
    have half: "0 \<le> d - d div 2" using that by simp
    then have "0 \<le> draw (d - d div 2 + 1) \<and> draw (d - d div 2 + 1) < d - d div 2 + 1"
      by (intro drawsD [OF assms]) simp
    with that show ?thesis by (simp add: integJitter_def quot_def Let_def)
  qed
  show ?thesis
  proof (cases "RetryAfter e")
    case None
    have "0 < integBackoff n div 2"
      using b(1) by (simp add: integRetryBase_def ns_per_sec_def)
    with None b jitter [of "integBackoff n"] cap show ?thesis
      by (auto simp: RetryDelay_def integBackoff_eq [symmetric])
  next
    case (Some d)
    then have "0 < d" by (auto simp: RetryAfter_def split: option.splits if_splits)
    with Some cap show ?thesis by (simp add: RetryDelay_def integBackoff_eq)
  qed
qed

theorem RetryDelay_bounds_witness:
  "RetryDelay (\<lambda>_. 0) 3 (Sentinel ErrUpstreamUnavailable) \<le> 240 * ns_per_sec
   \<and> 120 * ns_per_sec \<le> RetryDelay (\<lambda>_. 0) 3 (Sentinel ErrUpstreamUnavailable)"
proof -
  have "draws (\<lambda>_. 0)" by (simp add: draws_def)
  from RetryDelay_bounds [OF this, of 3 "Sentinel ErrUpstreamUnavailable"]
  have "(case RetryAfter (Sentinel ErrUpstreamUnavailable) of
            Some d \<Rightarrow> RetryDelay (\<lambda>_. 0) 3 (Sentinel ErrUpstreamUnavailable) = min d integRetryCap
          | None \<Rightarrow> integBackoff 3 div 2 \<le> RetryDelay (\<lambda>_. 0) 3 (Sentinel ErrUpstreamUnavailable)
              \<and> RetryDelay (\<lambda>_. 0) 3 (Sentinel ErrUpstreamUnavailable) \<le> integBackoff 3)"
    and "integBackoff 3 = min (integRetryBase * 2 ^ nat 3) integRetryCap"
    by (rule conjunct1 [OF conjunct2 [OF conjunct2]], rule conjunct2 [OF conjunct2 [OF conjunct2]])
  moreover have "RetryAfter (Sentinel ErrUpstreamUnavailable) = None" by (simp add: RetryAfter_def)
  moreover have "min (integRetryBase * 2 ^ nat 3) integRetryCap = 240 * ns_per_sec"
    by (simp add: integRetryBase_def integRetryCap_def ns_per_sec_def)
  ultimately show ?thesis by (simp add: ns_per_sec_def integRetryBase_def)
qed

text \<open>The wait before the retry that follows attempt number \<open>Suc k\<close>. The first wait is not cut off
  at \<open>maxBackoff\<close>: the loop that compares has not run.\<close>

lemma backoffForAttempt_bounds:
  assumes "draws draw" and "0 < base" and "0 < cap"
  shows "(let b = (if k = 0 then base else min (base * 2 ^ k) cap)
          in b div 2 \<le> backoffForAttempt draw base cap (int (Suc k))
             \<and> backoffForAttempt draw base cap (int (Suc k)) \<le> b)"
proof -
  define b where "b = (if k = 0 then base else min (base * 2 ^ k) cap)"
  have loop: "attempt_loop k cap base = b"
    using assms(2) by (cases k) (simp_all add: b_def attempt_loop_eq del: power_Suc attempt_loop.simps(2))
  have "0 < b" using assms(2,3) by (auto simp: b_def)
  have "b div 2 \<le> backoffForAttempt draw base cap (int (Suc k))
        \<and> backoffForAttempt draw base cap (int (Suc k)) \<le> b"
  proof (cases "b div 2 \<le> 0")
    case True
    with assms \<open>0 < b\<close> loop show ?thesis by (simp add: backoffForAttempt_def quot_def)
  next
    case False
    then have "0 \<le> draw (b div 2 + 1) \<and> draw (b div 2 + 1) < b div 2 + 1"
      by (intro drawsD [OF assms(1)]) simp
    moreover have "b div 2 + b div 2 \<le> b" by simp
    ultimately show ?thesis
      using False assms(2,3) \<open>0 < b\<close> loop by (simp add: backoffForAttempt_def quot_def Let_def)
  qed
  then show ?thesis by (simp add: b_def)
qed

section \<open>Retry-After\<close>

lemma parse_uint_nat_digits:
  assumes "n < 2 ^ 64" and "list_all is_digit ds" and "digits_val ds = int n"
  shows "parse_uint 0 ds = Inr (int n)"
proof -
  have nonneg: "0 \<le> digit_val c" "digit_val c \<le> 9" if "is_digit c" for c
    using that by (auto simp: is_digit_def digit_val_def)
  have gen: "parse_uint m ds = Inr (m * 10 ^ length ds + digits_val ds)"
    if "0 \<le> m" "m * 10 ^ length ds + digits_val ds < 2 ^ 64" "list_all is_digit ds" for m ds
    using that
  proof (induction ds arbitrary: m)
    case (Cons c cs)
    have c: "is_digit c" "list_all is_digit cs" using Cons.prems(3) by simp_all
    have cs: "0 \<le> digits_val cs" using digits_val_bounds [OF c(2)] by simp
    have split: "m * 10 ^ length (c # cs) + digits_val (c # cs)
                 = (m * 10 + digit_val c) * 10 ^ length cs + digits_val cs"
      by (simp add: digits_val_Cons distrib_right)
    have n1: "0 \<le> m * 10 + digit_val c" using Cons.prems(1) nonneg [OF c(1)] by simp
    then have "m * 10 + digit_val c \<le> (m * 10 + digit_val c) * 10 ^ length cs"
      using mult_left_mono [of 1 "10 ^ length cs" "m * 10 + digit_val c"] by simp
    with Cons.prems(2) cs split have small: "m * 10 + digit_val c < 2 ^ 64" by linarith
    then have "m < 1844674407370955162" using nonneg [OF c(1)] by simp
    with small n1 c Cons.IH [of "m * 10 + digit_val c"] Cons.prems(2) split show ?case
      by (simp add: Let_def)
  qed simp
  from gen [of 0 ds] assms show ?thesis by simp
qed

lemma ParseInt_itoa:
  assumes "- (2 ^ 63) \<le> i" and "i < 2 ^ 63"
  shows "ParseInt (itoa i) = Inr i"
proof (cases "i < 0")
  case True
  have "parse_uint 0 (nat_digits (nat (- i))) = Inr (int (nat (- i)))"
    using assms True by (intro parse_uint_nat_digits) simp_all
  with True assms show ?thesis
    by (simp add: ParseInt_def itoa_def fmt_int_def zero_pad_def)
next
  case False
  define ds where "ds = nat_digits (nat i)"
  have p: "parse_uint 0 ds = Inr i"
    using parse_uint_nat_digits [of "nat i" ds] assms False by (simp add: ds_def)
  obtain c cs where ds: "ds = c # cs" by (cases ds) (simp_all add: ds_def)
  then have "is_digit c" using nat_digits_digits [of "nat i"] by (simp add: ds_def [symmetric])
  then have "c \<noteq> CHR ''-''" "c \<noteq> CHR ''+''" using digit_not_sign by auto
  moreover have "itoa i = ds" using False by (simp add: itoa_def fmt_int_def zero_pad_def ds_def)
  ultimately show ?thesis using p assms ds by (simp add: ParseInt_def)
qed

lemma parseRetryAfter_seconds:
  assumes "ParseInt v = Inr n" and "v \<noteq> []"
  shows "parseRetryAfter dt v now = Some (max 0 (min n maxRetryAfterSeconds) * ns_per_sec)"
  using assms by (auto simp: parseRetryAfter_def maxRetryAfterSeconds_def max_def min_def)

text \<open>A Retry-After header that is a number of seconds is read as that number, cut off at zero and at
  \<open>MaxInt32\<close>, for every 64-bit number printed in decimal; a header that is no date gives at most
  \<open>MaxInt32\<close> seconds however many digits it has, so the product with a second stays in 64 bits; and the
  delay is never negative.\<close>

theorem parseRetryAfter_reads:
  assumes "- (2 ^ 63) \<le> n" and "n < 2 ^ 63"
  shows "parseRetryAfter http_date (itoa n) now = Some (max 0 (min n maxRetryAfterSeconds) * ns_per_sec)
       \<and> (\<forall>v. case parseRetryAfter http_date v now of
             None \<Rightarrow> v = [] \<or> http_date v = None
           | Some d \<Rightarrow> 0 \<le> d \<and> (http_date v = None \<longrightarrow> d < 2 ^ 63))"
proof -
  have "itoa n \<noteq> []" by (simp add: itoa_def fmt_int_def zero_pad_def)
  with ParseInt_itoa [OF assms]
  have "parseRetryAfter http_date (itoa n) now = Some (max 0 (min n maxRetryAfterSeconds) * ns_per_sec)"
    by (rule parseRetryAfter_seconds)
  moreover have "case parseRetryAfter http_date v now of
             None \<Rightarrow> v = [] \<or> http_date v = None
           | Some d \<Rightarrow> 0 \<le> d \<and> (http_date v = None \<longrightarrow> d < 2 ^ 63)" for v
    by (auto simp: parseRetryAfter_def maxRetryAfterSeconds_def ns_per_sec_def Let_def
        split: sum.split num_error.split option.split)
  ultimately show ?thesis by blast
qed

theorem parseRetryAfter_reads_witness:
  "parseRetryAfter (\<lambda>_. None) (itoa 65) 0 = Some (65 * ns_per_sec)"
  using parseRetryAfter_reads [of 65 "\<lambda>_. None" 0] by (simp add: maxRetryAfterSeconds_def)

end
