(* ===== verification/Ingest_Checks.thy ===== *)
theory Ingest_Checks
  imports Readings_Store Keyed_Groups
begin

text \<open>
  What the ingestion does with a page of readings before and after it is stored
  (\<open>src/internal/ingest\<close>): duplicates (\<open>dedupe.go\<close>), attribution (\<open>filterAttribution\<close> of
  \<open>fetch.go\<close>), decreasing registers (\<open>anomaly.go\<close>), and the running total of a meter that reports
  intervals (\<open>generation/accumulate.go\<close>). The theorems say that every row of a page is kept or
  rejected for one reason, that what is kept is a batch \<open>BulkInsert\<close> takes, and that the two
  directions of the running total are inverse.
\<close>

section \<open>Registers (validate.go)\<close>

datatype reject_reason =
  RejectUnparseableTs | RejectFuture | RejectAllNull | RejectNegative | RejectSanityJump
| RejectConflictingDuplicate | RejectWrongAnalyzer | RejectWrongKind

record rejection =
  rj_Ts :: time
  rj_Kind :: reading_kind
  rj_Reason :: reject_reason
  rj_Register :: string

definition reject :: "meter_reading \<Rightarrow> reject_reason \<Rightarrow> string \<Rightarrow> rejection" where
  "reject r reason reg =
     \<lparr>rj_Ts = mr_Ts r, rj_Kind = mr_Kind r, rj_Reason = reason, rj_Register = reg\<rparr>"

type_synonym register_accessor = "string \<times> (meter_reading \<Rightarrow> dec option)"

definition ingest_registers :: "register_accessor list" where
  "ingest_registers =
     [(''active_import'', mr_ActiveImport),
      (''reactive_inductive_import'', mr_ReactiveInductiveImport),
      (''reactive_capacitive_import'', mr_ReactiveCapacitiveImport),
      (''t1_import'', mr_T1Import), (''t2_import'', mr_T2Import), (''t3_import'', mr_T3Import),
      (''active_export'', mr_ActiveExport),
      (''reactive_inductive_export'', mr_ReactiveInductiveExport),
      (''reactive_capacitive_export'', mr_ReactiveCapacitiveExport),
      (''t1_export'', mr_T1Export), (''t2_export'', mr_T2Export), (''t3_export'', mr_T3Export),
      (''max_demand_kw'', mr_MaxDemandKw),
      (''interval_generation_kwh'', mr_IntervalGenerationKwh)]"

definition cumulativeRegisters :: "register_accessor list" where
  "cumulativeRegisters = take 12 ingest_registers"

section \<open>Duplicates (dedupe.go)\<close>

fun registers_equal :: "register_accessor list \<Rightarrow> meter_reading \<Rightarrow> meter_reading \<Rightarrow> bool" where
  "registers_equal [] a b = True"
| "registers_equal ((_, get) # regs) a b = (get a = get b \<and> registers_equal regs a b)"

definition registersEqual :: "meter_reading \<Rightarrow> meter_reading \<Rightarrow> bool" where
  "registersEqual a b = registers_equal ingest_registers a b"

definition dedupe_key :: "meter_reading \<Rightarrow> reading_key" where
  "dedupe_key r = (mr_AnalyzerID r, mr_Ts r, mr_Kind r)"

text \<open>The rows of one key, in the order of the page.\<close>

definition dedupe_group :: "meter_reading list \<Rightarrow> meter_reading list \<times> rejection list" where
  "dedupe_group rows =
     (case rows of
        [] \<Rightarrow> ([], [])
      | r # rs \<Rightarrow>
          if rs = [] then ([r], [])
          else if list_all (registersEqual r) rs then ([r], [])
          else ([], map (\<lambda>x. reject x RejectConflictingDuplicate []) rows))"

definition Dedupe :: "meter_reading list \<Rightarrow> meter_reading list \<times> rejection list" where
  "Dedupe rows =
     (let (order, groups) = groups_of dedupe_key (\<lambda>_. []) (\<lambda>r g. g @ [r]) rows;
          outs = map (\<lambda>k. case groups k of Some g \<Rightarrow> dedupe_group g | None \<Rightarrow> ([], [])) order
      in (concat (map fst outs), concat (map snd outs)))"

section \<open>Attribution (fetch.go)\<close>

fun filterAttribution ::
    "uuid \<Rightarrow> reading_kind \<Rightarrow> meter_reading list \<Rightarrow> meter_reading list \<times> rejection list" where
  "filterAttribution analyzerID knd [] = ([], [])"
| "filterAttribution analyzerID knd (r # rs) =
     (let (kept, rejected) = filterAttribution analyzerID knd rs
      in if mr_AnalyzerID r \<noteq> analyzerID then (kept, reject r RejectWrongAnalyzer [] # rejected)
         else if mr_Kind r \<noteq> knd \<and> mr_Kind r \<noteq> ReadingKindReset
         then (kept, reject r RejectWrongKind [] # rejected)
         else (r # kept, rejected))"

definition readingsOfKind :: "meter_reading list \<Rightarrow> reading_kind \<Rightarrow> meter_reading list" where
  "readingsOfKind rows knd = filter (\<lambda>r. mr_Kind r = knd) rows"

fun ts_bounds :: "time \<times> time \<Rightarrow> meter_reading list \<Rightarrow> time \<times> time" where
  "ts_bounds (lo, hi) [] = (lo, hi)"
| "ts_bounds (lo, hi) (r # rs) =
     ts_bounds (if mr_Ts r < lo then mr_Ts r else lo, if hi < mr_Ts r then mr_Ts r else hi) rs"

text \<open>Called on a non-empty slice only; an empty one would panic.\<close>

definition readingTsBounds :: "meter_reading list \<Rightarrow> (time \<times> time) option" where
  "readingTsBounds rows =
     (case rows of [] \<Rightarrow> None | r # rs \<Rightarrow> Some (ts_bounds (mr_Ts r, mr_Ts r) rs))"

section \<open>Decreasing registers (anomaly.go)\<close>

record negative_delta_at =
  nd_Register :: string
  nd_PrevTs :: time
  nd_CurTs :: time

fun resetBetween :: "meter_reading list \<Rightarrow> time \<Rightarrow> time \<Rightarrow> bool" where
  "resetBetween [] from to = False"
| "resetBetween (r # rs) from to = (if from < mr_Ts r \<and> \<not> to < mr_Ts r then True else resetBetween rs from to)"

definition register_decreased :: "meter_reading \<Rightarrow> meter_reading \<Rightarrow> register_accessor \<Rightarrow> bool" where
  "register_decreased p c reg =
     (case (snd reg p, snd reg c) of (Some pv, Some cv) \<Rightarrow> cv < pv | _ \<Rightarrow> False)"

definition pair_deltas :: "meter_reading list \<Rightarrow> meter_reading \<Rightarrow> meter_reading \<Rightarrow> negative_delta_at list" where
  "pair_deltas resets p c =
     (if mr_Kind p \<noteq> mr_Kind c then []
      else let suppressed = resetBetween resets (mr_Ts p) (mr_Ts c)
           in map (\<lambda>reg. \<lparr>nd_Register = fst reg, nd_PrevTs = mr_Ts p, nd_CurTs = mr_Ts c\<rparr>)
                (filter (\<lambda>reg. register_decreased p c reg \<and> \<not> suppressed) cumulativeRegisters))"

fun sequence_deltas :: "meter_reading list \<Rightarrow> meter_reading list \<Rightarrow> negative_delta_at list" where
  "sequence_deltas resets (p # c # rest) = pair_deltas resets p c @ sequence_deltas resets (c # rest)"
| "sequence_deltas resets _ = []"

definition DetectNegativeDeltas ::
    "meter_reading option \<Rightarrow> meter_reading list \<Rightarrow> meter_reading list \<Rightarrow> negative_delta_at list" where
  "DetectNegativeDeltas prev rows resets =
     sequence_deltas resets ((case prev of None \<Rightarrow> [] | Some p \<Rightarrow> [p]) @ rows)"

section \<open>The running total (generation/accumulate.go)\<close>

definition interval_of :: "meter_reading \<Rightarrow> dec" where
  "interval_of r = (case mr_IntervalGenerationKwh r of None \<Rightarrow> 0 | Some v \<Rightarrow> v)"

fun Accumulate :: "dec \<Rightarrow> meter_reading list \<Rightarrow> dec list" where
  "Accumulate cur [] = []"
| "Accumulate cur (row # rows) =
     (let cur = (case mr_IntervalGenerationKwh row of None \<Rightarrow> cur | Some v \<Rightarrow> cur + v)
      in cur # Accumulate cur rows)"

text \<open>The loop from the last row to the first.\<close>

definition AccumulateBackward :: "dec \<Rightarrow> dec \<Rightarrow> meter_reading list \<Rightarrow> dec list \<times> dec" where
  "AccumulateBackward refVal sumAfter rows =
     foldr (\<lambda>row (out, sumAfter).
        ((refVal - sumAfter) # out,
         case mr_IntervalGenerationKwh row of None \<Rightarrow> sumAfter | Some v \<Rightarrow> sumAfter + v)) rows
       ([], sumAfter)"

section \<open>Statuses (report.go)\<close>

definition countsStatus :: "int \<Rightarrow> int \<Rightarrow> int \<Rightarrow> string" where
  "countsStatus processed skipped failed =
     (if failed = 0 then ''success''
      else if 0 < processed \<or> 0 < skipped then ''partial'' else ''failed'')"

definition fetchRunStatus :: "int \<Rightarrow> bool \<Rightarrow> string" where
  "fetchRunStatus failedPages anyPersisted =
     (if failedPages = 0 then ''success'' else if anyPersisted then ''partial'' else ''failed'')"

fun partitionSanityFlags :: "rejection list \<Rightarrow> rejection list \<times> rejection list" where
  "partitionSanityFlags [] = ([], [])"
| "partitionSanityFlags (r # rs) =
     (let (real_ones, flags) = partitionSanityFlags rs
      in if rj_Reason r = RejectSanityJump \<and> rj_Register r = ''sustained''
         then (real_ones, r # flags) else (r # real_ones, flags))"

section \<open>Duplicates: what is kept\<close>

definition uniform :: "meter_reading list \<Rightarrow> reading_key \<Rightarrow> bool" where
  "uniform rows k \<longleftrightarrow>
     (\<forall>a \<in> set (members dedupe_key k rows). \<forall>b \<in> set (members dedupe_key k rows). registersEqual a b)"

lemma registers_equal_iff:
  "registers_equal regs a b \<longleftrightarrow> (\<forall>reg \<in> set regs. snd reg a = snd reg b)"
  by (induction regs a b rule: registers_equal.induct) auto

lemma registersEqual_iff: "registersEqual a b \<longleftrightarrow> (\<forall>reg \<in> set ingest_registers. snd reg a = snd reg b)"
  by (simp add: registersEqual_def registers_equal_iff)

lemma uniform_hd:
  assumes "members dedupe_key k rows = r # rs"
  shows "uniform rows k \<longleftrightarrow> list_all (registersEqual r) rs"
proof
  assume "uniform rows k"
  with assms show "list_all (registersEqual r) rs" by (auto simp: uniform_def list_all_iff)
next
  assume "list_all (registersEqual r) rs"
  then have "snd reg x = snd reg r" if "x \<in> set (members dedupe_key k rows)" "reg \<in> set ingest_registers"
    for x reg
    using that unfolding assms list_all_iff registersEqual_iff by (metis set_ConsD)
  then show "uniform rows k" unfolding uniform_def registersEqual_iff by metis
qed

lemma dedupe_group_eq:
  assumes "members dedupe_key k rows = g" and "g \<noteq> []"
  shows "dedupe_group g =
           (if uniform rows k then ([hd g], [])
            else ([], map (\<lambda>x. reject x RejectConflictingDuplicate []) g))"
  using assms uniform_hd [of k rows]
  by (cases g) (auto simp: dedupe_group_def)

lemma Dedupe_eq:
  "Dedupe rows =
     (map (\<lambda>k. hd (members dedupe_key k rows)) (filter (uniform rows) (first_keys (map dedupe_key rows))),
      map (\<lambda>x. reject x RejectConflictingDuplicate [])
        (concat (map (\<lambda>k. members dedupe_key k rows)
           (filter (\<lambda>k. \<not> uniform rows k) (first_keys (map dedupe_key rows))))))"
proof -
  obtain order groups where g: "groups_of dedupe_key (\<lambda>_. []) (\<lambda>r g. g @ [r]) rows = (order, groups)"
    by (cases "groups_of dedupe_key (\<lambda>_. [] :: meter_reading list) (\<lambda>r g. g @ [r]) rows")
  have order: "order = first_keys (map dedupe_key rows)"
    and groups: "\<And>k. groups k = (case members dedupe_key k rows of [] \<Rightarrow> None
                   | y # ys \<Rightarrow> Some (fold (\<lambda>r g. g @ [r]) (y # ys) []))"
    using groups_of_spec [of dedupe_key "\<lambda>_. []" "\<lambda>r g. g @ [r]" rows] unfolding g
    by (simp_all del: split_paired_All)
  have app: "fold (\<lambda>r g. g @ [r]) ys acc = acc @ ys" for ys acc :: "meter_reading list"
    by (induction ys arbitrary: acc) simp_all
  have out: "(case groups k of Some g \<Rightarrow> dedupe_group g | None \<Rightarrow> ([], [])) =
      (if uniform rows k then ([hd (members dedupe_key k rows)], [])
       else ([], map (\<lambda>x. reject x RejectConflictingDuplicate []) (members dedupe_key k rows)))"
    if "k \<in> set order" for k
  proof -
    from that order have "members dedupe_key k rows \<noteq> []" by (auto simp: filter_empty_conv)
    then have "groups k = Some (members dedupe_key k rows)"
      by (simp add: groups app split: list.split)
    with dedupe_group_eq [OF refl \<open>members dedupe_key k rows \<noteq> []\<close>] show ?thesis by simp
  qed
  have split: "concat (map (\<lambda>k. fst (h k)) ks) = map u (filter P ks)
      \<and> concat (map (\<lambda>k. snd (h k)) ks) = map w (concat (map v (filter (\<lambda>k. \<not> P k) ks)))"
    if "\<And>k. k \<in> set ks \<Longrightarrow> h k = (if P k then ([u k], []) else ([], map w (v k)))"
    for ks and h :: "'k \<Rightarrow> 'a list \<times> 'b list" and P u w and v :: "'k \<Rightarrow> 'c list"
    using that by (induction ks) auto
  define h where "h = (\<lambda>k. case groups k of Some g \<Rightarrow> dedupe_group g | None \<Rightarrow> ([], []))"
  have "Dedupe rows = (concat (map (\<lambda>k. fst (h k)) order), concat (map (\<lambda>k. snd (h k)) order))"
    by (simp add: Dedupe_def g h_def o_def)
  with split [of order h "uniform rows" "\<lambda>k. hd (members dedupe_key k rows)"
      "\<lambda>x. reject x RejectConflictingDuplicate []" "\<lambda>k. members dedupe_key k rows"] out
  show ?thesis by (simp add: h_def order)
qed

lemma duplicate_key_iff:
  "duplicate_key ks rows = None \<longleftrightarrow>
     distinct (map dedupe_key rows) \<and> ks \<inter> dedupe_key ` set rows = {}"
  by (induction ks rows rule: duplicate_key.induct) (auto simp: dedupe_key_def Let_def)

lemma readingDuplicateKey_iff: "readingDuplicateKey rows = None \<longleftrightarrow> distinct (map dedupe_key rows)"
  by (simp add: readingDuplicateKey_def duplicate_key_iff)

lemma hd_members:
  assumes "k \<in> dedupe_key ` set rows"
  shows "hd (members dedupe_key k rows) \<in> set rows" and "dedupe_key (hd (members dedupe_key k rows)) = k"
proof -
  from assms have "members dedupe_key k rows \<noteq> []" by (auto simp: filter_empty_conv)
  from hd_in_set [OF this] show "hd (members dedupe_key k rows) \<in> set rows"
    "dedupe_key (hd (members dedupe_key k rows)) = k" by auto
qed

lemma Dedupe_kept:
  assumes "Dedupe rows = (kept, rejected)"
  shows "distinct (map dedupe_key kept)" and "set kept \<subseteq> set rows"
proof -
  let ?ks = "filter (uniform rows) (first_keys (map dedupe_key rows))"
  have kept: "kept = map (\<lambda>k. hd (members dedupe_key k rows)) ?ks"
    using assms by (simp add: Dedupe_eq)
  have "map dedupe_key kept = ?ks"
    unfolding kept by (simp add: o_def) (rule map_idI, use hd_members(2) in auto)
  then show "distinct (map dedupe_key kept)" by simp
  have "hd (members dedupe_key k rows) \<in> set rows" if "k \<in> set ?ks" for k
    by (rule hd_members(1)) (use that in simp)
  then show "set kept \<subseteq> set rows" unfolding kept set_map by blast
qed

text \<open>Duplicates. Of the rows of a page that share analyzer, instant and kind, the first is kept when all
  of them carry the same fourteen registers, and every one is rejected when two of them differ; the kept
  rows keep the order in which their keys were first seen, and the batch they form is one that
  \<open>BulkInsert\<close> does not refuse for a repeated key.\<close>

theorem Dedupe_correct:
  "Dedupe rows =
     (map (\<lambda>k. hd (members dedupe_key k rows)) (filter (uniform rows) (first_keys (map dedupe_key rows))),
      map (\<lambda>x. reject x RejectConflictingDuplicate [])
        (concat (map (\<lambda>k. members dedupe_key k rows)
           (filter (\<lambda>k. \<not> uniform rows k) (first_keys (map dedupe_key rows))))))
   \<and> readingDuplicateKey (fst (Dedupe rows)) = None"
  using Dedupe_eq [of rows] Dedupe_kept(1) [OF prod.collapse [symmetric], of rows]
  by (simp add: readingDuplicateKey_iff)

section \<open>Attribution: what is kept\<close>

lemma filterAttribution_eq:
  "filterAttribution a knd rows =
     (filter (\<lambda>r. mr_AnalyzerID r = a \<and> (mr_Kind r = knd \<or> mr_Kind r = ReadingKindReset)) rows,
      map (\<lambda>r. reject r (if mr_AnalyzerID r \<noteq> a then RejectWrongAnalyzer else RejectWrongKind) [])
        (filter (\<lambda>r. \<not> (mr_AnalyzerID r = a \<and> (mr_Kind r = knd \<or> mr_Kind r = ReadingKindReset))) rows))"
  by (induction rows) auto

lemma partitionSanityFlags_eq:
  "partitionSanityFlags rs =
     (filter (\<lambda>r. \<not> (rj_Reason r = RejectSanityJump \<and> rj_Register r = ''sustained'')) rs,
      filter (\<lambda>r. rj_Reason r = RejectSanityJump \<and> rj_Register r = ''sustained'') rs)"
  by (induction rs) auto

lemma ts_bounds_eq:
  "ts_bounds (lo, hi) rs =
     (fold (\<lambda>r m. min m (mr_Ts r)) rs lo, fold (\<lambda>r m. max m (mr_Ts r)) rs hi)"
  by (induction rs arbitrary: lo hi) (simp_all add: min_def max_def not_less)

lemma ts_bounds_bounds:
  "ts_bounds (lo, hi) rs = (lo', hi') \<Longrightarrow>
     lo' \<le> lo \<and> hi \<le> hi' \<and> (\<forall>r \<in> set rs. lo' \<le> mr_Ts r \<and> mr_Ts r \<le> hi')
     \<and> lo' \<in> insert lo (mr_Ts ` set rs) \<and> hi' \<in> insert hi (mr_Ts ` set rs)"
  by (induction rs arbitrary: lo hi) (fastforce split: if_splits)+

section \<open>Decreasing registers: exactly those not explained by a reset\<close>

lemma resetBetween_iff: "resetBetween resets f t \<longleftrightarrow> (\<exists>r \<in> set resets. f < mr_Ts r \<and> mr_Ts r \<le> t)"
  by (induction resets) auto

lemma set_pair_deltas:
  "d \<in> set (pair_deltas resets p c) \<longleftrightarrow>
     mr_Kind p = mr_Kind c \<and> \<not> (\<exists>r \<in> set resets. mr_Ts p < mr_Ts r \<and> mr_Ts r \<le> mr_Ts c) \<and>
     (\<exists>reg \<in> set cumulativeRegisters. register_decreased p c reg \<and>
        d = \<lparr>nd_Register = fst reg, nd_PrevTs = mr_Ts p, nd_CurTs = mr_Ts c\<rparr>)"
  by (auto simp: pair_deltas_def resetBetween_iff Let_def)

lemma set_sequence_deltas:
  "d \<in> set (sequence_deltas resets seqs) \<longleftrightarrow>
     (\<exists>i. Suc i < length seqs \<and> d \<in> set (pair_deltas resets (seqs ! i) (seqs ! Suc i)))"
proof (induction resets seqs rule: sequence_deltas.induct)
  case (1 resets p c rest)
  show ?case
  proof
    assume "d \<in> set (sequence_deltas resets (p # c # rest))"
    then consider "d \<in> set (pair_deltas resets p c)" | "d \<in> set (sequence_deltas resets (c # rest))"
      by auto
    then show "\<exists>i. Suc i < length (p # c # rest) \<and>
        d \<in> set (pair_deltas resets ((p # c # rest) ! i) ((p # c # rest) ! Suc i))"
    proof cases
      case 1
      then show ?thesis by (intro exI [of _ 0]) simp
    next
      case 2
      with "1.IH" obtain i where "Suc i < length (c # rest)"
        "d \<in> set (pair_deltas resets ((c # rest) ! i) ((c # rest) ! Suc i))" by blast
      then show ?thesis by (intro exI [of _ "Suc i"]) simp
    qed
  next
    assume "\<exists>i. Suc i < length (p # c # rest) \<and>
        d \<in> set (pair_deltas resets ((p # c # rest) ! i) ((p # c # rest) ! Suc i))"
    then obtain i where i: "Suc i < length (p # c # rest)"
      "d \<in> set (pair_deltas resets ((p # c # rest) ! i) ((p # c # rest) ! Suc i))" by blast
    show "d \<in> set (sequence_deltas resets (p # c # rest))"
    proof (cases i)
      case 0
      with i(2) show ?thesis by simp
    next
      case (Suc j)
      with i have "Suc j < length (c # rest)"
        "d \<in> set (pair_deltas resets ((c # rest) ! j) ((c # rest) ! Suc j))" by simp_all
      with "1.IH" show ?thesis by auto
    qed
  qed
qed simp_all

text \<open>C21. Decreasing registers. A register of two readings that follow each other and have the same kind is
  reported if and only if both carry it, the later value is less, it is one of the twelve cumulative
  registers, and no reset reading lies after the earlier and not after the later one; a reset inside one pair
  hides nothing in another.\<close>

theorem DetectNegativeDeltas_exact:
  "d \<in> set (DetectNegativeDeltas prev rows resets) \<longleftrightarrow>
     (\<exists>i. let rs = (case prev of None \<Rightarrow> [] | Some p \<Rightarrow> [p]) @ rows in
        Suc i < length rs \<and> mr_Kind (rs ! i) = mr_Kind (rs ! Suc i) \<and>
        \<not> (\<exists>r \<in> set resets. mr_Ts (rs ! i) < mr_Ts r \<and> mr_Ts r \<le> mr_Ts (rs ! Suc i)) \<and>
        (\<exists>reg \<in> set cumulativeRegisters. \<exists>pv cv.
           snd reg (rs ! i) = Some pv \<and> snd reg (rs ! Suc i) = Some cv \<and> cv < pv \<and>
           d = \<lparr>nd_Register = fst reg, nd_PrevTs = mr_Ts (rs ! i), nd_CurTs = mr_Ts (rs ! Suc i)\<rparr>))"
proof -
  have dec: "register_decreased p c reg \<longleftrightarrow> (\<exists>pv cv. snd reg p = Some pv \<and> snd reg c = Some cv \<and> cv < pv)"
    for p c and reg :: register_accessor
    by (auto simp: register_decreased_def split: option.split)
  show ?thesis
    unfolding DetectNegativeDeltas_def set_sequence_deltas set_pair_deltas dec Let_def by blast
qed

section \<open>The running total: forward and backward\<close>

lemma Accumulate_eq:
  "Accumulate base rows = map (\<lambda>i. base + sum_list (map interval_of (take (Suc i) rows))) [0..<length rows]"
proof (induction rows arbitrary: base)
  case (Cons row rows)
  have cur: "(case mr_IntervalGenerationKwh row of None \<Rightarrow> base | Some v \<Rightarrow> base + v) = base + interval_of row"
    by (simp add: interval_of_def split: option.split)
  show ?case
    unfolding Accumulate.simps cur Let_def Cons.IH
    by (simp add: upt_conv_Cons map_Suc_upt [symmetric] add.assoc del: upt_Suc)
qed simp

lemma AccumulateBackward_eq:
  "AccumulateBackward ref after rows =
     (map (\<lambda>i. ref - after - sum_list (map interval_of (drop (Suc i) rows))) [0..<length rows],
      after + sum_list (map interval_of rows))"
proof (induction rows)
  case Nil
  show ?case by (simp add: AccumulateBackward_def)
next
  case (Cons row rows)
  have step: "AccumulateBackward ref after (row # rows) =
      (case AccumulateBackward ref after rows of
         (out, s) \<Rightarrow> ((ref - s) # out, s + interval_of row))"
    by (simp add: AccumulateBackward_def interval_of_def split: prod.split option.split)
  show ?case
    unfolding step Cons.IH
    by (simp add: upt_conv_Cons map_Suc_upt [symmetric] algebra_simps del: upt_Suc)
qed

text \<open>The two directions agree. Walking back from the last total over the same rows gives every total of the
  forward walk, and hands on the sum of the intervals; a long span cut into two parts and walked back
  from its end, the later part first, gives what one walk over all of it gives; and a row without an interval
  carries the total on.\<close>

theorem AccumulateBackward_inverts:
  "AccumulateBackward (base + sum_list (map interval_of rows)) 0 rows
     = (Accumulate base rows, sum_list (map interval_of rows))
   \<and> AccumulateBackward ref after (earlier @ later) =
       (let (out2, after2) = AccumulateBackward ref after later;
            (out1, after1) = AccumulateBackward ref after2 earlier
        in (out1 @ out2, after1))
   \<and> length (Accumulate base rows) = length rows"
proof -
  have "sum_list (map interval_of rows)
      = sum_list (map interval_of (take (Suc i) rows)) + sum_list (map interval_of (drop (Suc i) rows))" for i
    by (metis append_take_drop_id map_append sum_list.append)
  then have 1: "AccumulateBackward (base + sum_list (map interval_of rows)) 0 rows
     = (Accumulate base rows, sum_list (map interval_of rows))"
    by (auto simp: AccumulateBackward_eq Accumulate_eq algebra_simps)
  have 2: "AccumulateBackward ref after (earlier @ later) =
       (let (out2, after2) = AccumulateBackward ref after later;
            (out1, after1) = AccumulateBackward ref after2 earlier
        in (out1 @ out2, after1))"
  proof (induction earlier)
    case Nil
    show ?case by (simp add: AccumulateBackward_def split: prod.split)
  next
    case (Cons row rows)
    then show ?case by (simp add: AccumulateBackward_def Let_def split: prod.splits)
  qed
  from 1 2 show ?thesis by (simp add: Accumulate_eq)
qed

end
