(* ===== verification/Ingest_Validate.thy ===== *)
theory Ingest_Validate
  imports Ingest_Checks Go_Sort "HOL-Library.Sublist"
begin

text \<open>
  The validation of a page (\<open>src/internal/ingest/validate.go\<close>): four checks that look at one row, and the
  sanity check that compares a row with the last one accepted and with the typical consumption of the last
  seven days. The streak of rejected jumps is a state that \<open>FetchReadings\<close> threads through every
  page of a run; here it is an argument and a result. The theorems say what a stored row satisfies, that every
  row is accounted for, and that the check gives up after three jumps in a row, for the rest of the run.
\<close>

section \<open>Typical consumption\<close>

record sanity_streak =
  consecutive :: nat
  tripped :: bool

definition new_streak :: sanity_streak where
  "new_streak = \<lparr>consecutive = 0, tripped = False\<rparr>"

record ingest_options =
  io_FutureTolerance :: duration
  io_SanityMultiple :: dec
  io_InitialLookback :: duration
  io_MaxPagesPerRun :: int

record sanity_threshold =
  st_medianDelta :: dec
  st_spacing :: duration
  st_ok :: bool

definition sanityMinHistorySamples :: nat where "sanityMinHistorySamples = 24"
definition sanityMaxConsecutiveJumps :: nat where "sanityMaxConsecutiveJumps = 3"

text \<open>The loop of \<open>registerDeltaSamples\<close>: the last value seen and its instant, and the samples.\<close>

fun delta_samples ::
    "(meter_reading \<Rightarrow> dec option) \<Rightarrow> (dec \<times> time) option \<Rightarrow> meter_reading list \<Rightarrow> (dec \<times> duration) list" where
  "delta_samples get prev [] = []"
| "delta_samples get prev (r # rs) =
     (case get r of
        None \<Rightarrow> delta_samples get prev rs
      | Some v \<Rightarrow>
          (case prev of
             None \<Rightarrow> []
           | Some (prevVal, prevTs) \<Rightarrow>
               let gap = mr_Ts r - prevTs; delta = v - prevVal
               in if 0 < gap \<and> 0 < delta then [(delta, gap)] else [])
          @ delta_samples get (Some (v, mr_Ts r)) rs)"

definition registerDeltaSamples :: "meter_reading list \<Rightarrow> register_accessor \<Rightarrow> dec list \<times> duration list" where
  "registerDeltaSamples history reg =
     (let samples = delta_samples (snd reg) None history in (map fst samples, map snd samples))"

text \<open>Called with at least \<open>sanityMinHistorySamples\<close> values; the index panics on an empty slice.\<close>

definition median :: "declib \<Rightarrow> dec list \<Rightarrow> dec" where
  "median L vals =
     (let sorted = sort_Slice (<) vals; n = length sorted
      in if n mod 2 = 1 then sorted ! (n div 2)
         else Div L (sorted ! (n div 2 - 1) + sorted ! (n div 2)) 2)"

definition medianDuration :: "duration list \<Rightarrow> duration" where
  "medianDuration vals =
     (let sorted = sort_Slice (<) vals; n = length sorted
      in if n mod 2 = 1 then sorted ! (n div 2)
         else quot (sorted ! (n div 2 - 1) + sorted ! (n div 2)) 2)"

definition sanity_threshold_of :: "declib \<Rightarrow> meter_reading list \<Rightarrow> register_accessor \<Rightarrow> sanity_threshold" where
  "sanity_threshold_of L history reg =
     (let (deltas, spacings) = registerDeltaSamples history reg
      in if length deltas < sanityMinHistorySamples
         then \<lparr>st_medianDelta = 0, st_spacing = 0, st_ok = False\<rparr>
         else \<lparr>st_medianDelta = median L deltas, st_spacing = medianDuration spacings, st_ok = True\<rparr>)"

definition sanityThresholds :: "declib \<Rightarrow> meter_reading list \<Rightarrow> string \<rightharpoonup> sanity_threshold" where
  "sanityThresholds L history =
     map_of (map (\<lambda>reg. (fst reg, sanity_threshold_of L history reg)) cumulativeRegisters)"

section \<open>The sanity check\<close>

definition sanity_limit :: "declib \<Rightarrow> dec \<Rightarrow> sanity_threshold \<Rightarrow> duration \<Rightarrow> dec" where
  "sanity_limit L multiple th tsGap =
     (let elapsedIntervals = Div L (of_int tsGap) (of_int (st_spacing th));
          limit = multiple * st_medianDelta th * elapsedIntervals
      in if limit < 1 then 1 else limit)"

fun jump_loop ::
    "declib \<Rightarrow> dec \<Rightarrow> (string \<rightharpoonup> sanity_threshold) \<Rightarrow> duration \<Rightarrow> meter_reading \<Rightarrow> meter_reading
     \<Rightarrow> register_accessor list \<Rightarrow> string option" where
  "jump_loop L multiple thresholds tsGap prev row [] = None"
| "jump_loop L multiple thresholds tsGap prev row (reg # regs) =
     (case thresholds (fst reg) of
        None \<Rightarrow> jump_loop L multiple thresholds tsGap prev row regs
      | Some th \<Rightarrow>
          if \<not> st_ok th then jump_loop L multiple thresholds tsGap prev row regs
          else case (snd reg prev, snd reg row) of
            (Some pv, Some cv) \<Rightarrow>
              if \<not> 0 < cv - pv then jump_loop L multiple thresholds tsGap prev row regs
              else if sanity_limit L multiple th tsGap < cv - pv then Some (fst reg)
              else jump_loop L multiple thresholds tsGap prev row regs
          | _ \<Rightarrow> jump_loop L multiple thresholds tsGap prev row regs)"

text \<open>The register that jumped, if one did.\<close>

definition isSanityJump ::
    "declib \<Rightarrow> meter_reading option \<Rightarrow> meter_reading \<Rightarrow> (string \<rightharpoonup> sanity_threshold) \<Rightarrow> dec \<Rightarrow> string option" where
  "isSanityJump L prev row thresholds multiple =
     (case prev of
        None \<Rightarrow> None
      | Some p \<Rightarrow>
          let tsGap = mr_Ts row - mr_Ts p
          in if tsGap \<le> 0 then None else jump_loop L multiple thresholds tsGap p row cumulativeRegisters)"

section \<open>Validate\<close>

fun first_negative :: "register_accessor list \<Rightarrow> meter_reading \<Rightarrow> string option" where
  "first_negative [] row = None"
| "first_negative (reg # regs) row =
     (case snd reg row of
        Some v \<Rightarrow> if v < 0 then Some (fst reg) else first_negative regs row
      | None \<Rightarrow> first_negative regs row)"

definition anyRegisterNegative :: "meter_reading \<Rightarrow> string option" where
  "anyRegisterNegative row = first_negative ingest_registers row"

definition allRegistersNil :: "meter_reading \<Rightarrow> bool" where
  "allRegistersNil row \<longleftrightarrow> list_all (\<lambda>reg. snd reg row = None) ingest_registers"

text \<open>The checks of one row that look at nothing else.\<close>

definition row_rejection :: "time \<Rightarrow> ingest_options \<Rightarrow> meter_reading \<Rightarrow> rejection option" where
  "row_rejection now opts row =
     (if mr_Ts row = zero_time then Some (reject row RejectUnparseableTs [])
      else if now + io_FutureTolerance opts < mr_Ts row then Some (reject row RejectFuture [])
      else if allRegistersNil row then Some (reject row RejectAllNull [])
      else case anyRegisterNegative row of
        Some reg \<Rightarrow> Some (reject row RejectNegative reg)
      | None \<Rightarrow> None)"

text \<open>The sanity check of one row: whether the row is kept, what is reported, and the streak.\<close>

definition sanity_step ::
    "declib \<Rightarrow> ingest_options \<Rightarrow> (string \<rightharpoonup> sanity_threshold) \<Rightarrow> meter_reading option \<Rightarrow> meter_reading
     \<Rightarrow> sanity_streak \<Rightarrow> bool \<times> rejection list \<times> sanity_streak" where
  "sanity_step L opts thresholds effectivePrev row streak =
     (if tripped streak then (True, [], streak)
      else case isSanityJump L effectivePrev row thresholds (io_SanityMultiple opts) of
        None \<Rightarrow> (True, [], streak\<lparr>consecutive := 0\<rparr>)
      | Some reg \<Rightarrow>
          let streak = streak\<lparr>consecutive := consecutive streak + 1\<rparr>
          in if consecutive streak \<le> sanityMaxConsecutiveJumps
             then (False, [reject row RejectSanityJump reg], streak)
             else (True, [reject row RejectSanityJump ''sustained''], streak\<lparr>tripped := True\<rparr>))"

fun validate_loop ::
    "declib \<Rightarrow> time \<Rightarrow> ingest_options \<Rightarrow> (string \<rightharpoonup> sanity_threshold) \<Rightarrow> meter_reading option
     \<Rightarrow> sanity_streak \<Rightarrow> meter_reading list \<Rightarrow> meter_reading list \<times> rejection list \<times> sanity_streak" where
  "validate_loop L now opts ths effectivePrev streak [] = ([], [], streak)"
| "validate_loop L now opts ths effectivePrev streak (row # rows) =
     (case row_rejection now opts row of
        Some rej \<Rightarrow>
          (let (valid, rejected, streak') = validate_loop L now opts ths effectivePrev streak rows
           in (valid, rej # rejected, streak'))
      | None \<Rightarrow>
          (let (keep, rejs, streak1) = sanity_step L opts ths effectivePrev row streak;
               prev1 = (if keep then Some row else effectivePrev);
               (valid, rejected, streak') = validate_loop L now opts ths prev1 streak1 rows
           in ((if keep then row # valid else valid), rejs @ rejected, streak')))"

definition Validate_readings ::
    "declib \<Rightarrow> meter_reading option \<Rightarrow> meter_reading list \<Rightarrow> meter_reading list \<Rightarrow> time \<Rightarrow> ingest_options
     \<Rightarrow> sanity_streak \<Rightarrow> meter_reading list \<times> rejection list \<times> sanity_streak" where
  "Validate_readings L prev history rows now opts streak =
     validate_loop L now opts (sanityThresholds L history) prev streak rows"

section \<open>No division by zero\<close>

lemma delta_samples_pos: "(d, g) \<in> set (delta_samples get prev rs) \<Longrightarrow> 0 < d \<and> 0 < g"
proof (induction get prev rs rule: delta_samples.induct)
  case (2 get prev r rs)
  then show ?case by (auto split: option.splits if_splits simp: Let_def)
qed simp

lemma sort_Slice_nth:
  assumes "i < length xs"
  shows "sort_Slice lt xs ! i \<in> set xs"
  using assms nth_mem [of i "sort_Slice lt xs"] by simp

lemma medianDuration_pos:
  assumes "xs \<noteq> []" and "\<forall>x \<in> set xs. 0 < x"
  shows "0 < medianDuration xs"
proof -
  let ?s = "sort_Slice (<) xs"
  have len: "0 < length xs" using assms(1) by simp
  have pos: "0 < ?s ! i" if "i < length xs" for i
    using sort_Slice_nth [OF that, of "(<)"] assms(2) by blast
  show ?thesis
  proof (cases "length xs mod 2 = 1")
    case True
    with pos [of "length xs div 2"] len show ?thesis by (simp add: medianDuration_def Let_def)
  next
    case False
    then have "length xs div 2 - 1 < length xs" "length xs div 2 < length xs" using len by presburger+
    from pos [OF this(1)] pos [OF this(2)] have "2 \<le> ?s ! (length xs div 2 - 1) + ?s ! (length xs div 2)"
      by simp
    with False show ?thesis by (simp add: medianDuration_def Let_def quot_def)
  qed
qed

lemma threshold_spacing_pos:
  assumes "sanityThresholds L history name = Some th" and "st_ok th"
  shows "0 < st_spacing th"
proof -
  from assms obtain reg where th: "th = sanity_threshold_of L history reg"
    by (auto simp: sanityThresholds_def dest!: map_of_SomeD)
  let ?s = "delta_samples (snd reg) None history"
  from assms(2) have "sanityMinHistorySamples \<le> length ?s"
    and sp: "st_spacing th = medianDuration (map snd ?s)"
    by (auto simp: th sanity_threshold_of_def registerDeltaSamples_def Let_def split: if_splits)
  then have "map snd ?s \<noteq> []" by (auto simp: sanityMinHistorySamples_def)
  moreover have "\<forall>x \<in> set (map snd ?s). 0 < x" by (auto dest: delta_samples_pos)
  ultimately show ?thesis using medianDuration_pos sp by simp
qed

section \<open>What Validate returns\<close>

lemma first_negative_None: "first_negative regs row = None \<longleftrightarrow> (\<forall>reg \<in> set regs. \<forall>v. snd reg row = Some v \<longrightarrow> 0 \<le> v)"
  by (induction regs row rule: first_negative.induct) (auto split: option.split)

definition storable_row :: "time \<Rightarrow> ingest_options \<Rightarrow> meter_reading \<Rightarrow> bool" where
  "storable_row now opts r \<longleftrightarrow>
     mr_Ts r \<noteq> zero_time \<and> mr_Ts r \<le> now + io_FutureTolerance opts \<and>
     (\<exists>reg \<in> set ingest_registers. snd reg r \<noteq> None) \<and>
     (\<forall>reg \<in> set ingest_registers. \<forall>v. snd reg r = Some v \<longrightarrow> 0 \<le> v)"

lemma row_rejection_None: "row_rejection now opts r = None \<longleftrightarrow> storable_row now opts r"
proof -
  have "storable_row now opts r \<longleftrightarrow>
      mr_Ts r \<noteq> zero_time \<and> mr_Ts r \<le> now + io_FutureTolerance opts \<and> \<not> allRegistersNil r
      \<and> anyRegisterNegative r = None"
    by (simp add: storable_row_def allRegistersNil_def anyRegisterNegative_def first_negative_None
        list_all_iff)
  then show ?thesis by (auto simp: row_rejection_def split: option.split)
qed

lemma row_rejection_reason:
  "row_rejection now opts r = Some rej \<Longrightarrow> rj_Reason rej \<noteq> RejectSanityJump \<and> rj_Ts rej = mr_Ts r \<and> rj_Kind rej = mr_Kind r"
  by (auto simp: row_rejection_def reject_def split: if_splits option.splits)

lemma jump_loop_name: "jump_loop L multiple ths gap p row regs = Some name \<Longrightarrow> name \<in> fst ` set regs"
  by (induction L multiple ths gap p row regs rule: jump_loop.induct) (auto split: option.splits if_splits)

lemma sustained_no_register: "''sustained'' \<notin> fst ` set cumulativeRegisters"
  by (simp add: cumulativeRegisters_def ingest_registers_def)

lemma isSanityJump_name: "isSanityJump L prev row ths multiple = Some name \<Longrightarrow> name \<noteq> ''sustained''"
  using sustained_no_register
  by (auto simp: isSanityJump_def Let_def dest: jump_loop_name split: option.splits if_splits)

abbreviation is_flag :: "rejection \<Rightarrow> bool" where
  "is_flag r \<equiv> rj_Reason r = RejectSanityJump \<and> rj_Register r = ''sustained''"

text \<open>What one sanity step can do.\<close>

lemma sanity_step_cases:
  assumes "sanity_step L opts ths prev row streak = (keep, rejs, streak')"
  obtains (off) "tripped streak" "keep" "rejs = []" "streak' = streak"
  | (calm) "\<not> tripped streak" "keep" "rejs = []" "streak' = streak\<lparr>consecutive := 0\<rparr>"
  | (jump) reg where "\<not> tripped streak" "\<not> keep" "rejs = [reject row RejectSanityJump reg]"
      "reg \<noteq> ''sustained''" "streak' = streak\<lparr>consecutive := consecutive streak + 1\<rparr>"
      "consecutive streak + 1 \<le> sanityMaxConsecutiveJumps"
  | (flag) "\<not> tripped streak" "keep" "rejs = [reject row RejectSanityJump ''sustained'']"
      "streak' = \<lparr>consecutive = consecutive streak + 1, tripped = True\<rparr>"
  using assms
  by (cases "tripped streak"; cases "isSanityJump L prev row ths (io_SanityMultiple opts)";
      cases "consecutive streak + 1 \<le> sanityMaxConsecutiveJumps";
      auto simp: sanity_step_def Let_def dest: isSanityJump_name)

lemma validate_loop_facts:
  assumes "validate_loop L now opts ths prev streak rows = (valid, rejected, streak')"
  shows "subseq valid rows \<and> (\<forall>r \<in> set valid. storable_row now opts r) \<and>
         length valid + length (filter (\<lambda>r. \<not> is_flag r) rejected) = length rows \<and>
         length (filter is_flag rejected) = (if tripped streak' \<and> \<not> tripped streak then 1 else 0) \<and>
         (tripped streak \<longrightarrow> tripped streak' \<and> (\<forall>r \<in> set rejected. rj_Reason r \<noteq> RejectSanityJump))"
  using assms
proof (induction rows arbitrary: prev streak valid rejected streak')
  case (Cons row rows)
  show ?case
  proof (cases "row_rejection now opts row")
    case (Some rej)
    obtain v r s where rec: "validate_loop L now opts ths prev streak rows = (v, r, s)"
      by (cases "validate_loop L now opts ths prev streak rows")
    with Cons.prems Some have "valid = v" "rejected = rej # r" "streak' = s" by simp_all
    with Cons.IH [OF rec] row_rejection_reason [OF Some] show ?thesis
      by (auto intro: list_emb_Cons)
  next
    case None
    obtain keep rejs s1 where step: "sanity_step L opts ths prev row streak = (keep, rejs, s1)"
      by (cases "sanity_step L opts ths prev row streak")
    obtain v r s where rec: "validate_loop L now opts ths (if keep then Some row else prev) s1 rows = (v, r, s)"
      by (cases "validate_loop L now opts ths (if keep then Some row else prev) s1 rows")
    have out: "valid = (if keep then row # v else v)" "rejected = rejs @ r" "streak' = s"
      using Cons.prems None step rec by (simp_all add: Let_def)
    have row: "storable_row now opts row" using None by (simp add: row_rejection_None)
    from step show ?thesis
      by (cases rule: sanity_step_cases)
        (use Cons.IH [OF rec] out row in \<open>auto simp: reject_def intro: list_emb_Cons\<close>)
  qed
qed auto

text \<open>Rows that pass the other checks are refused only one after the other, as long as the streak lasts, and each is counted
  in it.\<close>

lemma validate_loop_refused:
  assumes "validate_loop L now opts ths prev streak rows = ([], rejected, streak')"
    and "\<forall>r \<in> set rows. storable_row now opts r"
  shows "streak' = streak\<lparr>consecutive := consecutive streak + length rows\<rparr> \<and>
    (rows \<noteq> [] \<longrightarrow> \<not> tripped streak \<and> consecutive streak + length rows \<le> sanityMaxConsecutiveJumps)"
  using assms
proof (induction rows arbitrary: streak rejected streak')
  case (Cons row rows)
  have None: "row_rejection now opts row = None" using Cons.prems(2) by (simp add: row_rejection_None)
  obtain keep rejs s1 where step: "sanity_step L opts ths prev row streak = (keep, rejs, s1)"
    by (cases "sanity_step L opts ths prev row streak")
  obtain v r s where rec: "validate_loop L now opts ths (if keep then Some row else prev) s1 rows = (v, r, s)"
    by (cases "validate_loop L now opts ths (if keep then Some row else prev) s1 rows")
  have out: "\<not> keep" "v = []" "streak' = s" using Cons.prems(1) None step rec by (auto simp: Let_def split: if_splits)
  from step out(1) have s1: "\<not> tripped streak" "s1 = streak\<lparr>consecutive := consecutive streak + 1\<rparr>"
    "consecutive streak + 1 \<le> sanityMaxConsecutiveJumps"
    by (auto elim: sanity_step_cases)
  have "validate_loop L now opts ths prev s1 rows = ([], r, s)" using rec out by simp
  from Cons.IH [OF this] Cons.prems(2) s1 out(3) show ?case by (cases "rows = []") simp_all
qed simp

text \<open>Once the streak has tripped the sanity check is off.\<close>

lemma validate_loop_off:
  assumes "validate_loop L now opts ths prev streak rows = (valid, rejected, streak')"
    and "\<forall>r \<in> set rows. storable_row now opts r" and "tripped streak"
  shows "valid = rows \<and> streak' = streak"
  using assms
proof (induction rows arbitrary: prev valid rejected)
  case (Cons row rows)
  then have "row_rejection now opts row = None" "sanity_step L opts ths prev row streak = (True, [], streak)"
    by (simp_all add: row_rejection_None sanity_step_def)
  moreover obtain v r s where "validate_loop L now opts ths (Some row) streak rows = (v, r, s)"
    by (cases "validate_loop L now opts ths (Some row) streak rows")
  ultimately show ?case using Cons.IH [of "Some row" v r] Cons.prems by simp
qed simp

lemma validate_loop_append:
  "validate_loop L now opts ths prev streak (xs @ ys) =
     (let (v1, r1, s1) = validate_loop L now opts ths prev streak xs;
          (v2, r2, s2) = validate_loop L now opts ths (if v1 = [] then prev else Some (last v1)) s1 ys
      in (v1 @ v2, r1 @ r2, s2))"
proof (induction xs arbitrary: prev streak)
  case (Cons x xs)
  show ?case
    by (cases "row_rejection now opts x")
      (auto simp: Cons.IH Let_def split: prod.splits)
qed (simp split: prod.split)

text \<open>C18. What a validated page is. The rows kept are rows of the page in its order; each has a real
  instant no later than the tolerance after now, at least one register, and no negative one. Every row of the page
  is either kept or counted as one rejection: the flag of a sustained jump goes with a row that is
  kept. There is at most one such flag, exactly when the streak trips here; a streak that has tripped stays so, and
  no row is called a jump any more for the rest of the run.\<close>

theorem Validate_accounts:
  assumes "Validate_readings L prev history rows now opts streak = (valid, rejected, streak')"
  shows "subseq valid rows \<and> (\<forall>r \<in> set valid. storable_row now opts r)
       \<and> length valid + length (fst (partitionSanityFlags rejected)) = length rows
       \<and> length (snd (partitionSanityFlags rejected)) = (if tripped streak' \<and> \<not> tripped streak then 1 else 0)
       \<and> (tripped streak \<longrightarrow> tripped streak' \<and> (\<forall>r \<in> set rejected. rj_Reason r \<noteq> RejectSanityJump))"
  using validate_loop_facts [OF assms [unfolded Validate_readings_def]]
  by (simp add: partitionSanityFlags_eq)

text \<open>C19. A genuine step is not discarded for ever. A run validates its pages one after the other, each with the reading
  before it, the history and the streak that the page before it returned. Of rows that pass the other checks, as long as every
  page is refused as a whole, each row is counted in the streak, which has not tripped and stays at three or below; so over
  four such rows, on however many pages, a run stores one. Once the streak has tripped, every such row of every later page
  is stored.\<close>

theorem Validate_progress:
  assumes "\<forall>i < n. Validate_readings L (prev i) (history i) (page i) now opts (streak i) = (valid i, rejected i, streak (Suc i))"
    and "\<forall>i < n. \<forall>r \<in> set (page i). storable_row now opts r"
  shows "(4 \<le> (\<Sum>i < n. length (page i)) \<longrightarrow> (\<exists>i < n. valid i \<noteq> [])) \<and>
    ((\<forall>i < n. valid i = []) \<longrightarrow> tripped (streak n) = tripped (streak 0) \<and>
      consecutive (streak n) = consecutive (streak 0) + (\<Sum>i < n. length (page i)) \<and>
      (0 < (\<Sum>i < n. length (page i)) \<longrightarrow> \<not> tripped (streak n) \<and> consecutive (streak n) \<le> 3)) \<and>
    (\<forall>i < n. tripped (streak i) \<longrightarrow> (\<forall>j < n. i \<le> j \<longrightarrow> valid j = page j))"
proof -
  have loop: "validate_loop L now opts (sanityThresholds L (history i)) (prev i) (streak i) (page i) = (valid i, rejected i, streak (Suc i))"
    if "i < n" for i
    using assms(1) that by (simp add: Validate_readings_def)
  have refused: "tripped (streak m) = tripped (streak 0) \<and>
      consecutive (streak m) = consecutive (streak 0) + (\<Sum>i < m. length (page i)) \<and>
      (0 < (\<Sum>i < m. length (page i)) \<longrightarrow> \<not> tripped (streak m) \<and> consecutive (streak m) \<le> 3)"
    if "m \<le> n" and "\<forall>i < n. valid i = []" for m
    using that(1)
  proof (induction m)
    case (Suc m)
    then have "m < n" by simp
    with validate_loop_refused [OF loop [OF this, unfolded that(2) [rule_format, OF this]]] assms(2) Suc show ?case
      by (cases "page m = []") (auto simp: sanityMaxConsecutiveJumps_def)
  qed simp
  have off: "tripped (streak i) \<Longrightarrow> i + k < n \<Longrightarrow> tripped (streak (i + k)) \<and> valid (i + k) = page (i + k)" for i k
  proof (induction k)
    case 0
    with validate_loop_off [OF loop [of i]] assms(2) show ?case by simp
  next
    case (Suc k)
    then have "i + k < n" and t: "tripped (streak (i + k))" by simp_all
    from validate_loop_off [OF loop [OF this(1)] _ t] assms(2) this(1) have "streak (i + Suc k) = streak (i + k)" by simp
    with validate_loop_off [OF loop [OF Suc.prems(2)]] assms(2) Suc.prems(2) t show ?case by simp
  qed
  have "\<exists>i < n. valid i \<noteq> []" if "4 \<le> (\<Sum>i < n. length (page i))"
    using refused [of n] that by fastforce
  moreover have "valid j = page j" if "i < n" "tripped (streak i)" "j < n" "i \<le> j" for i j
    using off [of i "j - i"] that by simp
  ultimately show ?thesis using refused [of n] by blast
qed

section \<open>Samples\<close>

definition sample_opts :: ingest_options where
  "sample_opts = \<lparr>io_FutureTolerance = 900 * ns_per_sec, io_SanityMultiple = 10,
     io_InitialLookback = 0, io_MaxPagesPerRun = 1000\<rparr>"

theorem Validate_accounts_witness:
  "\<exists>valid rejected s. Validate_readings std_declib None [] [sample_row 7 5 3, sample_row 7 9 (- 1)] 9 sample_opts new_streak
       = (valid, rejected, s)
     \<and> length valid + length (fst (partitionSanityFlags rejected)) = 2"
proof -
  obtain valid rejected s where
    "Validate_readings std_declib None [] [sample_row 7 5 3, sample_row 7 9 (- 1)] 9 sample_opts new_streak
       = (valid, rejected, s)"
    by (cases "Validate_readings std_declib None [] [sample_row 7 5 3, sample_row 7 9 (- 1)] 9 sample_opts new_streak")
  from Validate_accounts [OF this] this show ?thesis by simp
qed

text \<open>A week of hourly readings that go up by one, and a row that goes up by a million.\<close>

definition steady_history :: "meter_reading list" where
  "steady_history = map (\<lambda>i. sample_row 7 (int i) (of_nat i)) [1..<26]"

lemma steady_jump:
  "Validate_readings std_declib (Some (sample_row 7 25 25)) steady_history [sample_row 7 26 1000000] 30
     sample_opts new_streak
   = ([], [reject (sample_row 7 26 1000000) RejectSanityJump ''active_import''], \<lparr>consecutive = 1, tripped = False\<rparr>)"
  by code_simp

text \<open>Two pages of that row: both are refused, and the streak of the second goes on where the first ended.\<close>

lemma steady_jumps:
  "Validate_readings std_declib (Some (sample_row 7 25 25)) steady_history [sample_row 7 26 1000000] 30
     sample_opts \<lparr>consecutive = 1, tripped = False\<rparr>
   = ([], [reject (sample_row 7 26 1000000) RejectSanityJump ''active_import''], \<lparr>consecutive = 2, tripped = False\<rparr>)"
  by code_simp

theorem Validate_progress_witness:
  "consecutive \<lparr>consecutive = 2, tripped = False\<rparr> = 0 + (\<Sum>i < (2::nat). length [sample_row 7 26 1000000])"
proof -
  have "storable_row 30 sample_opts (sample_row 7 26 1000000)"
    by (simp add: storable_row_def sample_row_def sample_opts_def ingest_registers_def zero_time_def ns_per_sec_def)
  moreover have "\<forall>i < 2. Validate_readings std_declib (Some (sample_row 7 25 25)) steady_history [sample_row 7 26 1000000] 30
      sample_opts \<lparr>consecutive = i, tripped = False\<rparr>
    = ([], [reject (sample_row 7 26 1000000) RejectSanityJump ''active_import''], \<lparr>consecutive = Suc i, tripped = False\<rparr>)"
    using steady_jump steady_jumps by (auto simp: less_Suc_eq numeral_2_eq_2 new_streak_def)
  ultimately show ?thesis
    using Validate_progress [of 2 std_declib "\<lambda>_. Some (sample_row 7 25 25)" "\<lambda>_. steady_history"
        "\<lambda>_. [sample_row 7 26 1000000]" 30 sample_opts "\<lambda>i. \<lparr>consecutive = i, tripped = False\<rparr>" "\<lambda>_. []"
        "\<lambda>_. [reject (sample_row 7 26 1000000) RejectSanityJump ''active_import'']"]
    by simp
qed

end
