(* ===== verification/Normalize.thy ===== *)
theory Normalize
  imports Icmal_Numbers Energy_Period
begin

text \<open>
  The normalisation of provider data, \<open>src/internal/integration/normalize\<close>: the windows a
  fetch is cut into (\<open>window.go\<close>), the numbers providers write (\<open>decimal.go\<close>) and the units
  (\<open>units.go\<close>). The location \<open>Istanbul\<close> and the reader of the decimal library are arguments; the
  locale \<open>next_midnight\<close> says what the windows rely on, and \<open>cell_text\<close> what the reader does.
\<close>

section \<open>Windows (window.go)\<close>

definition day_ns :: duration where "day_ns = 24 * hour"

definition chunk_end :: "location \<Rightarrow> time \<Rightarrow> time \<Rightarrow> duration \<Rightarrow> time" where
  "chunk_end loc cur to mx =
     (case date_in loc cur of (y, m, d) \<Rightarrow>
        let e = (if mx < day_ns
                 then (let e = midnight y m (d + 1) loc in if cur + mx < e then cur + mx else e)
                 else midnight y m (d + quot mx day_ns) loc)
        in if to < e then to else e)"

text \<open>The loop: \<open>None\<close> is a run that does not end.\<close>

partial_function (option) chunk_loop :: "location \<Rightarrow> time \<Rightarrow> duration \<Rightarrow> time \<Rightarrow> window list option" where
  "chunk_loop loc to mx cur =
     (if cur < to
      then Option.bind (chunk_loop loc to mx (chunk_end loc cur to mx))
             (\<lambda>ws. Some (\<lparr>From = cur, To = chunk_end loc cur to mx\<rparr> # ws))
      else Some [])"

definition Chunk :: "location \<Rightarrow> time \<Rightarrow> time \<Rightarrow> duration \<Rightarrow> window list option" where
  "Chunk loc from to mx = (if \<not> from < to \<or> mx \<le> 0 then Some [] else chunk_loop loc to mx from)"

section \<open>Numbers (decimal.go)\<close>

datatype number_error = ErrEmpty | Invalid_number string | Library_error string

text \<open>A space, a no-break space and an apostrophe are dropped.\<close>

fun strip_thousands :: "string \<Rightarrow> string" where
  "strip_thousands [] = []"
| "strip_thousands (c # cs) =
     (if c = CHR '' '' \<or> c = CHR 0x27 then strip_thousands cs
      else if c = CHR 0xC2 \<and> take 1 cs = [CHR 0xA0] then strip_thousands (tl cs)
      else c # strip_thousands cs)"

fun last_index :: "char \<Rightarrow> string \<Rightarrow> nat option" where
  "last_index c [] = None"
| "last_index c (x # xs) =
     (case last_index c xs of Some i \<Rightarrow> Some (Suc i) | None \<Rightarrow> if x = c then Some 0 else None)"

text \<open>The loop that writes the decimal point at one index and drops every other mark.\<close>

fun sep_loop :: "nat \<Rightarrow> nat \<Rightarrow> string \<Rightarrow> string" where
  "sep_loop i lastDecIdx [] = []"
| "sep_loop i lastDecIdx (c # cs) =
     (if c = CHR '','' \<or> c = CHR ''.''
      then (if i = lastDecIdx then CHR ''.'' # sep_loop (Suc i) lastDecIdx cs
            else sep_loop (Suc i) lastDecIdx cs)
      else c # sep_loop (Suc i) lastDecIdx cs)"

text \<open>\<open>strings.Replace(s, ",", ".", 1)\<close>.\<close>

fun replace_first :: "char \<Rightarrow> char \<Rightarrow> string \<Rightarrow> string" where
  "replace_first a b [] = []"
| "replace_first a b (c # cs) = (if c = a then b # cs else c # replace_first a b cs)"

definition normalise_separators :: "string \<Rightarrow> string" where
  "normalise_separators s =
     (case (last_index CHR '','' s, last_index CHR ''.'' s) of
        (Some ci, Some di) \<Rightarrow> sep_loop 0 (if di < ci then ci else di) s
      | (Some _, None) \<Rightarrow>
          if count_list s CHR '','' = 1 then replace_first CHR '','' CHR ''.'' s
          else filter (\<lambda>c. c \<noteq> CHR '','') s
      | (None, Some _) \<Rightarrow>
          if count_list s CHR ''.'' = 1 then s else filter (\<lambda>c. c \<noteq> CHR ''.'') s
      | (None, None) \<Rightarrow> s)"

text \<open>\<open>^-?\d+(\.\d+)?$\<close>.\<close>

definition numberPattern :: "string \<Rightarrow> bool" where
  "numberPattern s =
     (case str_cut CHR ''.'' (trim_minus s) of (ip, fp, hasDec) \<Rightarrow>
        digits ip \<and> (hasDec \<longrightarrow> digits fp))"

definition ProviderNumber :: "(string \<Rightarrow> dec option) \<Rightarrow> string \<Rightarrow> number_error + dec" where
  "ProviderNumber NewFromString raw =
     (let s = TrimSpace raw
      in if s = [] then Inl ErrEmpty
         else
           let neg = (take 1 s = ''-'');
               s = (if neg \<or> take 1 s = ''+'' then drop 1 s else s);
               normalised = normalise_separators (strip_thousands s)
           in if \<not> numberPattern normalised then Inl (Invalid_number raw)
              else let normalised = (if neg then ''-'' @ normalised else normalised)
                   in (case NewFromString normalised of
                         Some v \<Rightarrow> Inr v | None \<Rightarrow> Inl (Library_error normalised)))"

definition OptionalNumber :: "(string \<Rightarrow> dec option) \<Rightarrow> string \<Rightarrow> number_error + dec option" where
  "OptionalNumber NewFromString raw =
     (let s = TrimSpace raw
      in if s = [] \<or> s = ''null'' \<or> s = ''-'' then Inr None
         else map_sum id Some (ProviderNumber NewFromString s))"

definition JSONNumber :: "(string \<Rightarrow> dec option) \<Rightarrow> string \<Rightarrow> number_error + dec" where
  "JSONNumber NewFromString n =
     (let s = TrimSpace n
      in if s = [] then Inl ErrEmpty
         else case NewFromString s of Some v \<Rightarrow> Inr v | None \<Rightarrow> Inl (Library_error s))"

definition OptionalJSONNumber :: "(string \<Rightarrow> dec option) \<Rightarrow> string option \<Rightarrow> number_error + dec option" where
  "OptionalJSONNumber NewFromString n =
     (case n of None \<Rightarrow> Inr None | Some s \<Rightarrow> map_sum id Some (JSONNumber NewFromString s))"

section \<open>Units (units.go)\<close>

definition quarterHour :: dec where "quarterHour = 1 / 4"

definition Multiply :: "dec option \<Rightarrow> dec \<Rightarrow> dec option" where
  "Multiply v m = map_option (\<lambda>x. x * m) v"

definition shift :: "dec option \<Rightarrow> int \<Rightarrow> dec option" where
  "shift v k = map_option (\<lambda>x. x * (if 0 \<le> k then 10 ^ nat k else 1 / 10 ^ nat (- k))) v"

definition WhToKWh :: "dec option \<Rightarrow> dec option" where "WhToKWh v = shift v (- 3)"
definition WToKW :: "dec option \<Rightarrow> dec option" where "WToKW v = shift v (- 3)"

definition KWFor15MinToKWh :: "dec option \<Rightarrow> dec option" where
  "KWFor15MinToKWh v = map_option (\<lambda>x. x * quarterHour) v"

section \<open>The windows cover the range\<close>

text \<open>What the loop needs of a location: from an instant on, the midnight of a later civil day comes later.\<close>

locale next_midnight =
  fixes loc :: location and start :: time
  assumes midnight_after: "start \<le> t \<Longrightarrow> date_in loc t = (y, m, d) \<Longrightarrow> 1 \<le> n \<Longrightarrow> t < midnight y m (d + n) loc"
begin

lemma chunk_end_after:
  assumes "start \<le> cur" and "cur < to" and "0 < mx"
  shows "cur < chunk_end loc cur to mx \<and> chunk_end loc cur to mx \<le> to"
proof -
  obtain y m d where ymd: "date_in loc cur = (y, m, d)" by (cases "date_in loc cur")
  have 1: "cur < midnight y m (d + 1) loc" using midnight_after [OF assms(1) ymd] by simp
  have "1 \<le> quot mx day_ns" if "\<not> mx < day_ns"
    using that zdiv_mono1 [of day_ns mx day_ns]
    by (simp add: quot_def day_ns_def hour_def ns_per_sec_def)
  then have 2: "cur < midnight y m (d + quot mx day_ns) loc" if "\<not> mx < day_ns"
    using midnight_after [OF assms(1) ymd] that by simp
  show ?thesis using 1 2 assms by (auto simp: chunk_end_def ymd Let_def)
qed

lemma chunk_loop_tiles:
  assumes "0 < mx" and "start \<le> cur"
  shows "\<exists>ws. chunk_loop loc to mx cur = Some ws \<and> contiguous ws \<and>
     (cur < to \<longrightarrow> ws \<noteq> [] \<and> From (hd ws) = cur \<and> To (last ws) = to) \<and>
     (\<forall>w \<in> set ws. From w < To w \<and> To w = chunk_end loc (From w) to mx)"
  using assms(2)
proof (induction "nat (to - cur)" arbitrary: cur rule: less_induct)
  case less
  show ?case
  proof (cases "cur < to")
    case False
    then show ?thesis by (subst chunk_loop.simps) simp
  next
    case True
    let ?e = "chunk_end loc cur to mx"
    have e: "cur < ?e" "?e \<le> to" using chunk_end_after [OF less.prems True assms(1)] by simp_all
    then have "nat (to - ?e) < nat (to - cur)" "start \<le> ?e" using True less.prems by simp_all
    from less.hyps [OF this] obtain ws where ws: "chunk_loop loc to mx ?e = Some ws" "contiguous ws"
      "?e < to \<longrightarrow> ws \<noteq> [] \<and> From (hd ws) = ?e \<and> To (last ws) = to"
      "\<forall>w \<in> set ws. From w < To w \<and> To w = chunk_end loc (From w) to mx" by blast
    have empty: "ws = []" if "\<not> ?e < to" using ws(1) that by (subst (asm) chunk_loop.simps) simp
    have "chunk_loop loc to mx cur = Some (\<lparr>From = cur, To = ?e\<rparr> # ws)"
      using True ws(1) by (subst chunk_loop.simps) simp
    moreover have "contiguous (\<lparr>From = cur, To = ?e\<rparr> # ws)"
      using ws(2,3) empty by (cases ws) auto
    moreover have "To (last (\<lparr>From = cur, To = ?e\<rparr> # ws)) = to"
      using ws(3) e(2) empty by (cases "?e < to") auto
    ultimately show ?thesis using ws(4) e(1) by auto
  qed
qed

end

lemma regular_next_midnight:
  assumes "regular_from loc start"
  shows "next_midnight loc start"
proof unfold_locales
  fix t y m d and n :: int
  assume t: "start \<le> t" "date_in loc t = (y, m, d)" "1 \<le> n"
  have "days_from_civil y m (d + n) = local_day loc t + n" using date_in_days [OF t(2)] by (simp add: days_from_civil_day)
  with t(3) regular_fromD [OF assms t(1), of y m "d + n"] show "t < midnight y m (d + n) loc" by simp
qed

interpretation fixed_days: next_midnight "fixed_zone off" start for off start
  by (rule regular_next_midnight [OF fixed_regular])

interpretation istanbul_days: next_midnight istanbul_2016 start for start
  by (rule regular_next_midnight [OF istanbul_regular])

text \<open>In a regular location the loop ends.\<close>

lemma Chunk_ends:
  assumes "regular_from loc start" and "start \<le> f"
  shows "\<exists>ws. Chunk loc f t mx = Some ws"
proof (cases "\<not> f < t \<or> mx \<le> 0")
  case False
  then obtain ws where "chunk_loop loc t mx f = Some ws"
    using next_midnight.chunk_loop_tiles [OF regular_next_midnight [OF assms(1)], of mx f t] assms(2) by auto
  with False show ?thesis by (simp add: Chunk_def)
qed (simp add: Chunk_def)

text \<open>The windows of a fetch. In a location of fixed offset the loop ends, and what it returns for a
  non-empty range and a positive size starts at the start, ends at the end, leaves no gap and no
  overlap, and has no empty window. Every window but the last ends at a local midnight, or, when windows are
  shorter than a day, after the full size; so no local day is split over more windows than its size demands.
  A window shorter than a day never crosses a midnight.\<close>

theorem Chunk_tiles:
  assumes "start < to" and "0 < mx"
  shows "\<exists>ws. Chunk (fixed_zone off) start to mx = Some ws \<and> ws \<noteq> [] \<and> From (hd ws) = start \<and> To (last ws) = to
     \<and> contiguous ws
     \<and> (\<forall>w \<in> set ws. From w < To w \<and>
          (To w = to
           \<or> mx < day_ns \<and> To w = From w + mx
           \<or> (\<exists>k \<ge> 1. (mx < day_ns \<longrightarrow> k = 1) \<and> (\<not> mx < day_ns \<longrightarrow> k = mx div day_ns) \<and>
                To w = ((local_day (fixed_zone off) (From w) + k) * 86400 - off) * ns_per_sec)))
     \<and> (mx < day_ns \<longrightarrow> (\<forall>w \<in> set ws. To w - From w \<le> mx \<and>
          To w \<le> ((local_day (fixed_zone off) (From w) + 1) * 86400 - off) * ns_per_sec))"
proof -
  let ?loc = "fixed_zone off"
  obtain ws where ws: "chunk_loop ?loc to mx start = Some ws" "contiguous ws" "ws \<noteq> []"
    "From (hd ws) = start" "To (last ws) = to"
    "\<forall>w \<in> set ws. From w < To w \<and> To w = chunk_end ?loc (From w) to mx"
    using fixed_days.chunk_loop_tiles [OF assms(2) order.refl, of off to start] assms(1) by blast
  have mid: "midnight y m (d + k) ?loc = ((local_day ?loc t + k) * 86400 - off) * ns_per_sec"
    if "date_in ?loc t = (y, m, d)" for t y m d k
    using date_in_days [OF that] by (simp add: midnight_fixed days_from_civil_day)
  have k: "1 \<le> mx div day_ns" if "\<not> mx < day_ns"
    using that zdiv_mono1 [of day_ns mx day_ns] by (simp add: day_ns_def hour_def ns_per_sec_def)
  have e: "(chunk_end ?loc t to mx = to
           \<or> mx < day_ns \<and> chunk_end ?loc t to mx = t + mx
           \<or> (\<exists>k \<ge> 1. (mx < day_ns \<longrightarrow> k = 1) \<and> (\<not> mx < day_ns \<longrightarrow> k = mx div day_ns) \<and>
                chunk_end ?loc t to mx = ((local_day ?loc t + k) * 86400 - off) * ns_per_sec))
      \<and> (mx < day_ns \<longrightarrow> chunk_end ?loc t to mx - t \<le> mx \<and>
          chunk_end ?loc t to mx \<le> ((local_day ?loc t + 1) * 86400 - off) * ns_per_sec)" for t
  proof -
    obtain y m d where ymd: "date_in ?loc t = (y, m, d)" by (cases "date_in ?loc t")
    show ?thesis
    proof (cases "mx < day_ns")
      case True
      then show ?thesis by (auto simp: chunk_end_def ymd mid [OF ymd] Let_def)
    next
      case False
      with assms(2) have "quot mx day_ns = mx div day_ns" by (simp add: quot_def)
      with False k show ?thesis
        by (auto simp: chunk_end_def ymd mid [OF ymd] Let_def)
    qed
  qed
  have "Chunk ?loc start to mx = Some ws" using assms ws(1) by (simp add: Chunk_def)
  moreover have "\<forall>w \<in> set ws. From w < To w \<and>
          (To w = to
           \<or> mx < day_ns \<and> To w = From w + mx
           \<or> (\<exists>k \<ge> 1. (mx < day_ns \<longrightarrow> k = 1) \<and> (\<not> mx < day_ns \<longrightarrow> k = mx div day_ns) \<and>
                To w = ((local_day ?loc (From w) + k) * 86400 - off) * ns_per_sec))"
  proof
    fix w assume "w \<in> set ws"
    then have w: "From w < To w" "To w = chunk_end ?loc (From w) to mx" using ws(6) by blast+
    from e [of "From w"] show "From w < To w \<and>
          (To w = to
           \<or> mx < day_ns \<and> To w = From w + mx
           \<or> (\<exists>k \<ge> 1. (mx < day_ns \<longrightarrow> k = 1) \<and> (\<not> mx < day_ns \<longrightarrow> k = mx div day_ns) \<and>
                To w = ((local_day ?loc (From w) + k) * 86400 - off) * ns_per_sec))"
      unfolding w(2) [symmetric] using w(1) by blast
  qed
  moreover have "mx < day_ns \<longrightarrow> (\<forall>w \<in> set ws. To w - From w \<le> mx \<and>
          To w \<le> ((local_day ?loc (From w) + 1) * 86400 - off) * ns_per_sec)"
  proof (intro impI ballI)
    fix w assume "mx < day_ns" "w \<in> set ws"
    moreover from this have "To w = chunk_end ?loc (From w) to mx" using ws(6) by blast
    ultimately show "To w - From w \<le> mx \<and>
          To w \<le> ((local_day ?loc (From w) + 1) * 86400 - off) * ns_per_sec"
      using e [of "From w"] by simp
  qed
  ultimately show ?thesis using ws(2-5) by blast
qed

theorem Chunk_tiles_witness:
  "\<exists>ws. Chunk (fixed_zone 10800) 0 (3 * day_ns) day_ns = Some ws \<and> To (last ws) = 3 * day_ns \<and> contiguous ws"
  using Chunk_tiles [of 0 "3 * day_ns" day_ns 10800]
  by (auto simp: day_ns_def hour_def ns_per_sec_def)

section \<open>The numbers providers write\<close>

lemma last_index_None: "last_index c s = None \<longleftrightarrow> c \<notin> set s"
  by (induction s) (auto split: option.split)

lemma last_index_at: "c \<notin> set b \<Longrightarrow> last_index c (a @ c # b) = Some (length a)"
  by (induction a) (simp_all add: last_index_None [THEN iffD2])

lemma sep_loop_drop:
  assumes "n \<notin> {i..<i + length s}"
  shows "sep_loop i n (s @ t) = filter (\<lambda>c. c \<noteq> CHR '','' \<and> c \<noteq> CHR ''.'') s @ sep_loop (i + length s) n t"
  using assms by (induction s arbitrary: i) auto

lemma strip_plain: "list_all plain_char s \<Longrightarrow> strip_thousands s = s"
proof (induction s rule: strip_thousands.induct)
  case (2 c cs)
  then have "c \<noteq> CHR '' ''" "c \<noteq> CHR 0x27" "c \<noteq> CHR 0xC2"
    by (auto simp: plain_char_def is_digit_def)
  with 2 show ?case by simp
qed simp

lemma replace_first_at: "a \<notin> set xs \<Longrightarrow> replace_first a b (xs @ a # ys) = xs @ b # ys"
  by (induction xs) auto

lemma count_join:
  assumes "\<forall>w \<in> set ws. c \<notin> set w"
  shows "count_list (str_join [c] ws) c = length ws - 1"
  using assms
proof (induction ws rule: induct_list012)
  case (3 a b ws)
  then have "count_list a c = 0" by (simp add: count_list_0_iff)
  with 3 show ?case by (simp)
qed (auto simp: count_list_0_iff)

text \<open>The marks of the two conventions are the comma and the point, one each.\<close>

lemma fmt_marks:
  "group_char fmt = CHR ''.'' \<and> dec_char fmt = CHR '','' \<or> group_char fmt = CHR '','' \<and> dec_char fmt = CHR ''.''"
  by (simp add: group_char_def dec_char_def)

lemma normalise_both:
  assumes "list_all digits parts" and "2 \<le> length parts" and "digits ds"
  shows "normalise_separators (str_join [group_char fmt] parts @ dec_char fmt # ds) = concat parts @ ''.'' @ ds"
proof -
  let ?g = "group_char fmt" and ?d = "dec_char fmt" and ?j = "str_join [group_char fmt] parts"
  let ?s = "?j @ ?d # ds"
  have parts: "CHR ''.'' \<notin> set w" "CHR '','' \<notin> set w" if "w \<in> set parts" for w
    using that assms(1) digits_no_mark(1,2) by (auto simp: list_all_iff)
  have no_g: "\<forall>w \<in> set parts. ?g \<notin> set w" using parts fmt_marks [of fmt] by auto
  have d_j: "?d \<notin> set ?j"
    using str_join_mem [of ?d "[?g]" parts] parts marks(1) [of fmt] fmt_marks [of fmt] by auto
  have ds: "CHR ''.'' \<notin> set ds" "CHR '','' \<notin> set ds" using digits_no_mark(1,2) [OF assms(3)] by simp_all
  have g_j: "?g \<in> set ?j"
  proof -
    have "count_list ?j ?g \<noteq> 0" using count_join [OF no_g] assms(2) by simp
    then show ?thesis by (simp add: count_list_0_iff)
  qed
  have ld: "last_index ?d ?s = Some (length ?j)" using ds fmt_marks [of fmt] by (intro last_index_at) auto
  obtain gi where lg: "last_index ?g ?s = Some gi" and gi: "gi < length ?j"
  proof -
    from split_list_last [OF g_j] obtain a b where j: "?j = a @ ?g # b" "?g \<notin> set b" by blast
    have "?g \<notin> set (b @ ?d # ds)" using j(2) ds marks(1) [of fmt] fmt_marks [of fmt] by auto
    then have "last_index ?g (a @ ?g # (b @ ?d # ds)) = Some (length a)" by (rule last_index_at)
    with that show ?thesis by (simp add: j(1))
  qed
  have filt: "filter (\<lambda>c. c \<noteq> CHR '','' \<and> c \<noteq> CHR ''.'') ?j = concat parts"
  proof -
    have "filter (\<lambda>c. c \<noteq> CHR '','' \<and> c \<noteq> CHR ''.'') ?j = filter (\<lambda>c. c \<noteq> ?g) ?j"
      using d_j fmt_marks [of fmt] by (intro filter_cong) auto
    then show ?thesis using filter_join [OF no_g] by simp
  qed
  have "sep_loop 0 (length ?j) ?s = concat parts @ sep_loop (length ?j) (length ?j) (?d # ds)"
    using sep_loop_drop [of "length ?j" 0 ?j "?d # ds"] filt by simp
  also have "sep_loop (length ?j) (length ?j) (?d # ds) = CHR ''.'' # sep_loop (Suc (length ?j)) (length ?j) ds"
    using fmt_marks [of fmt] by auto
  also have "sep_loop (Suc (length ?j)) (length ?j) ds = ds"
    using sep_loop_drop [of "length ?j" "Suc (length ?j)" ds "[]"] ds by (simp add: filter_id_conv) blast
  finally have "sep_loop 0 (length ?j) ?s = concat parts @ ''.'' @ ds" by simp
  then show ?thesis
    using fmt_marks [of fmt] ld lg gi by (auto simp: normalise_separators_def)
qed

lemma normalise_one_mark:
  assumes "digits a" and "digits b" and "c = CHR '','' \<or> c = CHR ''.''"
  shows "normalise_separators (a @ c # b) = a @ ''.'' @ b"
proof -
  have no: "CHR ''.'' \<notin> set a" "CHR '','' \<notin> set a" "CHR ''.'' \<notin> set b" "CHR '','' \<notin> set b"
    using digits_no_mark(1,2) [OF assms(1)] digits_no_mark(1,2) [OF assms(2)] by simp_all
  then have c: "c \<notin> set a" "c \<notin> set b" using assms(3) by auto
  have one: "count_list (a @ c # b) c = 1"
    using c by (simp add: count_list_0_iff [THEN iffD2])
  have at: "last_index c (a @ c # b) = Some (length a)" using c(2) by (rule last_index_at)
  have none: "last_index x (a @ c # b) = None" if "x \<noteq> c" "x = CHR '','' \<or> x = CHR ''.''" for x
    using that no by (auto simp: last_index_None)
  from assms(3) show ?thesis
  proof
    assume eq: "c = CHR '',''"
    with at one none [of "CHR ''.''"] c show ?thesis
      by (simp add: normalise_separators_def replace_first_at)
  next
    assume eq: "c = CHR ''.''"
    with at one none [of "CHR '',''"] show ?thesis by (simp add: normalise_separators_def)
  qed
qed

lemma normalise_groups:
  assumes "list_all digits parts" and "3 \<le> length parts"
  shows "normalise_separators (str_join [group_char fmt] parts) = concat parts"
proof -
  let ?g = "group_char fmt" and ?j = "str_join [group_char fmt] parts"
  have parts: "CHR ''.'' \<notin> set w" "CHR '','' \<notin> set w" if "w \<in> set parts" for w
    using that assms(1) digits_no_mark(1,2) by (auto simp: list_all_iff)
  have no_g: "\<forall>w \<in> set parts. ?g \<notin> set w" using parts fmt_marks [of fmt] by auto
  have cnt: "count_list ?j ?g = length parts - 1" by (rule count_join [OF no_g])
  then have "?g \<in> set ?j" using assms(2) count_list_0_iff [of ?j ?g] by auto
  then obtain gi where gi: "last_index ?g ?j = Some gi" by (cases "last_index ?g ?j") (auto simp: last_index_None)
  have other: "dec_char fmt \<notin> set ?j"
    using str_join_mem [of "dec_char fmt" "[?g]" parts] parts marks(1) [of fmt] fmt_marks [of fmt] by auto
  have filt: "filter (\<lambda>c. c \<noteq> ?g) ?j = concat parts" by (rule filter_join [OF no_g])
  have dn: "last_index (dec_char fmt) ?j = None" using other by (simp add: last_index_None)
  have "length parts - 1 \<noteq> 1" using assms(2) by simp
  with fmt_marks [of fmt] show ?thesis
    using cnt gi dn filt by (elim disjE) (simp_all add: normalise_separators_def)
qed

text \<open>Which number the marks of a cell denote: two groups without decimals are read as a decimal fraction.\<close>

definition cell_value :: "bool \<Rightarrow> string list \<Rightarrow> string option \<Rightarrow> dec" where
  "cell_value neg parts dcs =
     (if dcs = None \<and> length parts = 2 then number_value neg (parts ! 0) (Some (parts ! 1))
      else number_value neg (concat parts) dcs)"

lemma normalise_cell:
  assumes "list_all digits parts" and "parts \<noteq> []" and "decimals_ok dcs"
  shows "normalise_separators
      (str_join [group_char fmt] parts @ (case dcs of None \<Rightarrow> [] | Some ds \<Rightarrow> dec_char fmt # ds)) =
     (if dcs = None \<and> length parts = 2 then parts ! 0 @ ''.'' @ parts ! 1
      else concat parts @ (case dcs of None \<Rightarrow> [] | Some ds \<Rightarrow> CHR ''.'' # ds))"
proof (cases dcs)
  case (Some ds)
  then have ds: "digits ds" using assms(3) by (simp add: decimals_ok_def)
  show ?thesis
  proof (cases "2 \<le> length parts")
    case True
    with Some normalise_both [OF assms(1) True ds] show ?thesis by simp
  next
    case False
    with assms(2) obtain p where p: "parts = [p]" by (cases parts; cases "tl parts") auto
    with Some assms(1) ds normalise_one_mark [of p ds "dec_char fmt"] fmt_marks [of fmt] show ?thesis by auto
  qed
next
  case None
  consider "length parts = 1" | "length parts = 2" | "3 \<le> length parts"
    using assms(2) by (cases "length parts") (auto, linarith)
  then show ?thesis
  proof cases
    case 1
    then obtain p where p: "parts = [p]" by (cases parts) auto
    with assms(1) have "last_index CHR ''.'' p = None" "last_index CHR '','' p = None"
      using digits_no_mark(1,2) [of p] by (simp_all add: last_index_None)
    with None p show ?thesis by (simp add: normalise_separators_def)
  next
    case 2
    then obtain p q where p: "parts = [p, q]" by (cases parts; cases "tl parts") auto
    with None assms(1) normalise_one_mark [of p q "group_char fmt"] fmt_marks [of fmt] show ?thesis by auto
  next
    case 3
    with None normalise_groups [OF assms(1) 3] show ?thesis by simp
  qed
qed

context cell_text begin

lemma ProviderNumber_cell:
  assumes "list_all digits parts" and "parts \<noteq> []" and "decimals_ok dcs"
  shows "ProviderNumber NewFromString (number_cell fmt neg parts dcs) = Inr (cell_value neg parts dcs)"
proof -
  let ?c = "number_cell fmt neg parts dcs"
  let ?body = "str_join [group_char fmt] parts @ (case dcs of None \<Rightarrow> [] | Some ds \<Rightarrow> dec_char fmt # ds)"
  have plain: "list_all plain_char ?c" using assms by (intro number_cell_plain)
  have j: "str_join [group_char fmt] parts \<noteq> []" "hd (str_join [group_char fmt] parts) \<noteq> CHR ''-''"
    using str_join_hd [OF assms(1,2)] by simp_all
  have "hd (str_join [group_char fmt] parts) \<in> set ?c"
    using hd_in_set [OF j(1)] by (simp add: number_cell_def)
  then have "plain_char (hd (str_join [group_char fmt] parts))" using plain by (simp add: list_all_iff)
  then have plus: "hd (str_join [group_char fmt] parts) \<noteq> CHR ''+''"
    by (auto simp: plain_char_def is_digit_def)
  have c: "?c = (if neg then ''-'' else []) @ ?body" by (simp add: number_cell_def)
  have "?body \<noteq> []" "hd ?body \<noteq> CHR ''-''" "hd ?body \<noteq> CHR ''+''" using j plus by simp_all
  then have sign: "?c \<noteq> []" "take 1 ?c = ''-'' \<longleftrightarrow> neg" "take 1 ?c \<noteq> ''+''"
    "(if neg then drop 1 ?c else ?c) = ?body"
    unfolding c by (cases ?body; auto)+
  have strip: "strip_thousands ?body = ?body"
    using plain c by (intro strip_plain) simp
  define ip where "ip = (if dcs = None \<and> length parts = 2 then parts ! 0 else concat parts)"
  define fp where "fp = (if dcs = None \<and> length parts = 2 then Some (parts ! 1) else dcs)"
  have ip: "digits ip"
    using assms(1,2) by (cases parts) (auto simp: ip_def digits_def list_all_iff)
  have fp: "decimals_ok fp"
    using assms(1,3) by (auto simp: fp_def decimals_ok_def list_all_length)
  have norm: "normalise_separators ?body = ip @ (case fp of None \<Rightarrow> [] | Some ds \<Rightarrow> CHR ''.'' # ds)"
    unfolding normalise_cell [OF assms] by (simp add: ip_def fp_def)
  have num: "number_value neg ip fp = cell_value neg parts dcs"
    by (simp add: cell_value_def ip_def fp_def)
  have pat: "numberPattern (ip @ (case fp of None \<Rightarrow> [] | Some ds \<Rightarrow> CHR ''.'' # ds))"
  proof -
    have "trim_minus (ip @ (case fp of None \<Rightarrow> [] | Some ds \<Rightarrow> CHR ''.'' # ds))
        = ip @ (case fp of None \<Rightarrow> [] | Some ds \<Rightarrow> CHR ''.'' # ds)"
      using trim_minus_sign [of "ip @ (case fp of None \<Rightarrow> [] | Some ds \<Rightarrow> CHR ''.'' # ds)" False]
        digits_hd [OF ip] by simp
    with ip fp digits_no_mark(1) [OF ip] show ?thesis
      by (cases fp) (simp_all add: numberPattern_def decimals_ok_def str_cut_at str_cut_none)
  qed
  show ?thesis
    unfolding ProviderNumber_def TrimSpace_plain [OF plain] Let_def
    using sign strip norm pat read_plain [OF ip fp, of neg] num
    by (cases neg) simp_all
qed

end

text \<open>Numbers with separators. A cell of digit groups joined by one mark, with or without decimals after the
  other mark and with or without a sign, is read as the number it denotes in either convention: the
  right-most mark is the decimal one when both occur, and a mark that occurs twice or more separates groups. A
  single mark is a decimal one, so two groups without decimals are read as a fraction.\<close>

theorem ProviderNumber_reads:
  assumes "list_all digits parts" and "parts \<noteq> []" and "decimals_ok dcs"
  shows "ProviderNumber std_read (number_cell fmt neg parts dcs) =
     Inr (if dcs = None \<and> length parts = 2 then number_value neg (parts ! 0) (Some (parts ! 1))
          else number_value neg (concat parts) dcs)"
  using std_text.ProviderNumber_cell [OF assms] by (simp add: cell_value_def)

theorem ProviderNumber_reads_witness:
  "ProviderNumber std_read (number_cell FormatTurkish True [''1'', ''234''] (Some ''5''))
     = Inr (number_value True ''1234'' (Some ''5''))"
  using ProviderNumber_reads [of "[''1'', ''234'']" "Some ''5''" FormatTurkish True]
  by (simp add: digits_def decimals_ok_def is_digit_def)

end
