(* ===== verification/Cursors_Store.thy ===== *)
theory Cursors_Store
  imports Readings_Store
begin

text \<open>
  The cursors of the ingestion, \<open>src/internal/store/postgres/cursors.go\<close> with the queries of
  \<open>sqlcgen/cursors.sql.go\<close>, the last-reading column of the analyzers (\<open>analyzers.go\<close>,
  \<open>TouchLastReading\<close>) and the anchors of a meter that reports intervals (\<open>generation.go\<close>). None of the three
  has a company of its own: a write selects the analyzer it is for in the statement itself, and a select
  that finds none writes nothing. The theorems say that the high-water mark never moves back and that
  a scope reaches its own analyzers only.
\<close>

section \<open>Cursors\<close>

record ingestion_cursor =
  ic_AnalyzerID :: uuid
  ic_Kind :: reading_kind
  ic_LastTs :: "time option"
  ic_LastSuccessAt :: "time option"
  ic_LastError :: "string option"
  ic_LastErrorAt :: "time option"
  ic_ConsecutiveFailures :: int

text \<open>An instant as the column holds it.\<close>

definition column_ts :: "time \<Rightarrow> time" where
  "column_ts t = timestamptz t * 1000"

definition cursor_key :: "ingestion_cursor \<Rightarrow> uuid \<times> reading_kind" where
  "cursor_key c = (ic_AnalyzerID c, ic_Kind c)"

text \<open>The join to the analyzer every statement has; identifiers are unique there.\<close>

definition visible :: "readings_db \<Rightarrow> scope \<Rightarrow> uuid \<Rightarrow> bool" where
  "visible db s a =
     (case BuildingFilter s of (ids, all_buildings) \<Rightarrow>
        ReadingAnalyzerVisible db a (sc_CompanyID s) all_buildings ids)"

definition Get_cursor ::
    "readings_db \<Rightarrow> ingestion_cursor list \<Rightarrow> scope \<Rightarrow> uuid \<Rightarrow> reading_kind \<Rightarrow> store_error + ingestion_cursor" where
  "Get_cursor db cs s a k =
     (if \<not> Valid_scope s then Inl ErrInvalidScope
      else if \<not> visible db s a then Inl ErrNotFound
      else case List.find (\<lambda>c. cursor_key c = (a, k)) cs of
        None \<Rightarrow> Inl ErrNotFound
      | Some c \<Rightarrow> Inr c)"

text \<open>\<open>key_of_kind\<close> is the order of the enumeration in the database.\<close>

definition List_cursors ::
    "(reading_kind \<Rightarrow> nat) \<Rightarrow> readings_db \<Rightarrow> ingestion_cursor list \<Rightarrow> scope \<Rightarrow> uuid list \<Rightarrow> store_error + ingestion_cursor list" where
  "List_cursors key_of_kind db cs s analyzerIDs =
     (if \<not> Valid_scope s then Inl ErrInvalidScope
      else Inr (sort_key ic_AnalyzerID (sort_key (\<lambda>c. key_of_kind (ic_Kind c))
             (filter (\<lambda>c. visible db s (ic_AnalyzerID c) \<and> ic_AnalyzerID c \<in> set analyzerIDs) cs))))"

text \<open>\<open>insert \<dots> on conflict do update\<close>: the row \<open>fresh\<close>, or the change \<open>upd\<close> of the one there is.\<close>

definition upsert_cursor ::
    "ingestion_cursor \<Rightarrow> (ingestion_cursor \<Rightarrow> ingestion_cursor) \<Rightarrow> ingestion_cursor list \<Rightarrow> ingestion_cursor list" where
  "upsert_cursor fresh upd cs =
     (if list_ex (\<lambda>c. cursor_key c = cursor_key fresh) cs
      then map (\<lambda>c. if cursor_key c = cursor_key fresh then upd c else c) cs
      else cs @ [fresh])"

text \<open>\<open>greatest\<close> of the database ignores a NULL.\<close>

definition greatest :: "time option \<Rightarrow> time \<Rightarrow> time" where
  "greatest old t = (case old of None \<Rightarrow> t | Some o' \<Rightarrow> max o' t)"

definition RecordSuccess ::
    "readings_db \<Rightarrow> ingestion_cursor list \<Rightarrow> scope \<Rightarrow> uuid \<Rightarrow> reading_kind \<Rightarrow> time \<Rightarrow> time
     \<Rightarrow> store_error option \<times> ingestion_cursor list" where
  "RecordSuccess db cs s a k lastTs now =
     (if \<not> Valid_scope s then (Some ErrInvalidScope, cs)
      else if \<not> visible db s a then (Some ErrNotFound, cs)
      else (None, upsert_cursor
              \<lparr>ic_AnalyzerID = a, ic_Kind = k, ic_LastTs = Some (column_ts lastTs),
               ic_LastSuccessAt = Some (column_ts now), ic_LastError = None, ic_LastErrorAt = None,
               ic_ConsecutiveFailures = 0\<rparr>
              (\<lambda>c. c\<lparr>ic_LastTs := Some (greatest (ic_LastTs c) (column_ts lastTs)),
                     ic_LastSuccessAt := Some (column_ts now), ic_ConsecutiveFailures := 0\<rparr>) cs))"

definition RecordFailure ::
    "readings_db \<Rightarrow> ingestion_cursor list \<Rightarrow> scope \<Rightarrow> uuid \<Rightarrow> reading_kind \<Rightarrow> string \<Rightarrow> time
     \<Rightarrow> store_error option \<times> ingestion_cursor list" where
  "RecordFailure db cs s a k message now =
     (if \<not> Valid_scope s then (Some ErrInvalidScope, cs)
      else if \<not> visible db s a then (Some ErrNotFound, cs)
      else (None, upsert_cursor
              \<lparr>ic_AnalyzerID = a, ic_Kind = k, ic_LastTs = None, ic_LastSuccessAt = None,
               ic_LastError = Some message, ic_LastErrorAt = Some (column_ts now),
               ic_ConsecutiveFailures = 1\<rparr>
              (\<lambda>c. c\<lparr>ic_LastError := Some message, ic_LastErrorAt := Some (column_ts now),
                     ic_ConsecutiveFailures := ic_ConsecutiveFailures c + 1\<rparr>) cs))"

section \<open>The last reading of an analyzer\<close>

text \<open>The column \<open>last_reading_at\<close> as a map; NULL counts as minus infinity.\<close>

definition TouchLastReading ::
    "readings_db \<Rightarrow> (uuid \<rightharpoonup> time) \<Rightarrow> scope \<Rightarrow> uuid \<Rightarrow> time \<Rightarrow> store_error option \<times> (uuid \<rightharpoonup> time)" where
  "TouchLastReading db lasts s a t =
     (if \<not> Valid_scope s then (Some ErrInvalidScope, lasts)
      else if \<not> visible db s a then (Some ErrNotFound, lasts)
      else (None, lasts(a \<mapsto> greatest (lasts a) (column_ts t))))"

section \<open>Anchors\<close>

record generation_anchor =
  ga_AnalyzerID :: uuid
  ga_AnchorTs :: time
  ga_ActiveExport :: dec
  ga_Source :: string
  ga_UpdatedAt :: time

definition Anchor ::
    "readings_db \<Rightarrow> (uuid \<rightharpoonup> generation_anchor) \<Rightarrow> scope \<Rightarrow> uuid \<Rightarrow> store_error + generation_anchor" where
  "Anchor db anchors s a =
     (if \<not> Valid_scope s then Inl ErrInvalidScope
      else if \<not> visible db s a then Inl ErrNotFound
      else case anchors a of None \<Rightarrow> Inl ErrNotFound | Some ga \<Rightarrow> Inr ga)"

text \<open>\<open>num\<close> is what the column makes of a number, \<open>now\<close> the clock of the database.\<close>

definition SetAnchor ::
    "(dec \<Rightarrow> dec) \<Rightarrow> time \<Rightarrow> readings_db \<Rightarrow> (uuid \<rightharpoonup> generation_anchor) \<Rightarrow> scope \<Rightarrow> generation_anchor
     \<Rightarrow> store_error option \<times> (uuid \<rightharpoonup> generation_anchor)" where
  "SetAnchor num now db anchors s a =
     (if \<not> Valid_scope s then (Some ErrInvalidScope, anchors)
      else if \<not> visible db s (ga_AnalyzerID a) then (Some ErrNotFound, anchors)
      else (None, anchors(ga_AnalyzerID a \<mapsto>
              a\<lparr>ga_AnchorTs := column_ts (ga_AnchorTs a), ga_ActiveExport := num (ga_ActiveExport a),
                ga_UpdatedAt := column_ts now\<rparr>)))"

section \<open>Keys and marks\<close>

definition cursors_ok :: "ingestion_cursor list \<Rightarrow> bool" where
  "cursors_ok cs \<longleftrightarrow> distinct (map cursor_key cs)"

definition mark_of :: "ingestion_cursor list \<Rightarrow> uuid \<Rightarrow> reading_kind \<Rightarrow> time option" where
  "mark_of cs a k = (case List.find (\<lambda>c. cursor_key c = (a, k)) cs of None \<Rightarrow> None | Some c \<Rightarrow> ic_LastTs c)"

lemma visible_iff: "visible db s a \<longleftrightarrow> a \<in> scope_ids s db"
  by (simp add: visible_def split_beta visible_eq)

lemma find_upsert:
  assumes "\<And>c. cursor_key (upd c) = cursor_key c"
  shows "List.find (\<lambda>c. cursor_key c = key) (upsert_cursor fresh upd cs) =
     (if key = cursor_key fresh
      then (case List.find (\<lambda>c. cursor_key c = key) cs of None \<Rightarrow> Some fresh | Some c \<Rightarrow> Some (upd c))
      else List.find (\<lambda>c. cursor_key c = key) cs)"
proof (cases "list_ex (\<lambda>c. cursor_key c = cursor_key fresh) cs")
  case True
  have "List.find (\<lambda>c. cursor_key c = key) (map (\<lambda>c. if cursor_key c = cursor_key fresh then upd c else c) xs) =
      (if key = cursor_key fresh then map_option upd (List.find (\<lambda>c. cursor_key c = key) xs)
       else List.find (\<lambda>c. cursor_key c = key) xs)" for xs
    by (induction xs) (auto simp: assms)
  moreover have "List.find (\<lambda>c. cursor_key c = cursor_key fresh) cs \<noteq> None"
    using True by (auto simp: find_None_iff list_ex_iff)
  ultimately show ?thesis using True by (auto simp: upsert_cursor_def)
next
  case False
  have "List.find P (xs @ ys) = (case List.find P xs of None \<Rightarrow> List.find P ys | Some x \<Rightarrow> Some x)"
    for P and xs ys :: "ingestion_cursor list"
    by (induction xs) auto
  moreover have "List.find (\<lambda>c. cursor_key c = cursor_key fresh) cs = None"
    using False by (auto simp: find_None_iff list_ex_iff)
  ultimately show ?thesis using False by (auto simp: upsert_cursor_def split: option.split)
qed

lemma upsert_cursor_ok:
  assumes "\<And>c. cursor_key (upd c) = cursor_key c" and "cursors_ok cs"
  shows "cursors_ok (upsert_cursor fresh upd cs)"
proof -
  have "map cursor_key (map (\<lambda>c. if cursor_key c = cursor_key fresh then upd c else c) cs) = map cursor_key cs"
    by (simp add: assms(1))
  then show ?thesis
    using assms(2) by (auto simp: cursors_ok_def upsert_cursor_def list_ex_iff simp del: map_map)
qed

lemma mark_upsert:
  assumes "\<And>c. cursor_key (upd c) = cursor_key c"
  shows "mark_of (upsert_cursor fresh upd cs) a k =
     (if (a, k) = cursor_key fresh
      then (case List.find (\<lambda>c. cursor_key c = (a, k)) cs of None \<Rightarrow> ic_LastTs fresh | Some c \<Rightarrow> ic_LastTs (upd c))
      else mark_of cs a k)"
  unfolding mark_of_def find_upsert [OF assms] by (simp split: option.split)

lemma mark_RecordSuccess:
  "mark_of (snd (RecordSuccess db cs s a k lastTs now)) a' k' =
     (if a' = a \<and> k' = k \<and> Valid_scope s \<and> a \<in> scope_ids s db
      then Some (greatest (mark_of cs a k) (column_ts lastTs)) else mark_of cs a' k')"
proof (cases "Valid_scope s \<and> a \<in> scope_ids s db")
  case True
  let ?upd = "\<lambda>c. c\<lparr>ic_LastTs := Some (greatest (ic_LastTs c) (column_ts lastTs)),
                     ic_LastSuccessAt := Some (column_ts now), ic_ConsecutiveFailures := 0\<rparr>"
  let ?fresh = "\<lparr>ic_AnalyzerID = a, ic_Kind = k, ic_LastTs = Some (column_ts lastTs),
               ic_LastSuccessAt = Some (column_ts now), ic_LastError = None, ic_LastErrorAt = None,
               ic_ConsecutiveFailures = 0\<rparr>"
  have key: "cursor_key ?fresh = (a, k)" "\<And>c. cursor_key (?upd c) = cursor_key c"
    by (simp_all add: cursor_key_def)
  have "snd (RecordSuccess db cs s a k lastTs now) = upsert_cursor ?fresh ?upd cs"
    using True by (simp add: RecordSuccess_def visible_iff)
  then show ?thesis
    using True by (simp add: mark_upsert [OF key(2)] key(1)) (simp add: mark_of_def greatest_def split: option.split)
next
  case False
  then show ?thesis by (auto simp: RecordSuccess_def visible_iff)
qed

lemma mark_RecordFailure:
  "mark_of (snd (RecordFailure db cs s a k message now)) a' k' = mark_of cs a' k'"
proof -
  have key: "cursor_key (c\<lparr>ic_LastError := x, ic_LastErrorAt := y, ic_ConsecutiveFailures := z\<rparr>) = cursor_key c" for c x y z
    by (simp add: cursor_key_def)
  show ?thesis
    by (simp add: RecordFailure_def visible_iff mark_upsert key)
      (simp add: mark_of_def cursor_key_def split: option.split)
qed

text \<open>The cursor of a key.\<close>

definition cursor_at :: "ingestion_cursor list \<Rightarrow> uuid \<Rightarrow> reading_kind \<Rightarrow> ingestion_cursor option" where
  "cursor_at cs a k = List.find (\<lambda>c. cursor_key c = (a, k)) cs"

definition failures_of :: "ingestion_cursor list \<Rightarrow> uuid \<Rightarrow> reading_kind \<Rightarrow> int" where
  "failures_of cs a k = (case cursor_at cs a k of None \<Rightarrow> 0 | Some c \<Rightarrow> ic_ConsecutiveFailures c)"

lemma cursor_key_simps:
  "cursor_key \<lparr>ic_AnalyzerID = a, ic_Kind = k, ic_LastTs = t, ic_LastSuccessAt = x, ic_LastError = e, ic_LastErrorAt = y,
     ic_ConsecutiveFailures = n\<rparr> = (a, k)"
  "cursor_key (c\<lparr>ic_LastTs := t\<rparr>) = cursor_key c" "cursor_key (c\<lparr>ic_LastSuccessAt := x\<rparr>) = cursor_key c"
  "cursor_key (c\<lparr>ic_LastError := e\<rparr>) = cursor_key c" "cursor_key (c\<lparr>ic_LastErrorAt := y\<rparr>) = cursor_key c"
  "cursor_key (c\<lparr>ic_ConsecutiveFailures := n\<rparr>) = cursor_key c"
  by (simp_all add: cursor_key_def)

lemma cursor_at_RecordSuccess:
  "(a', k') \<noteq> (a, k) \<Longrightarrow> cursor_at (snd (RecordSuccess db cs s a k lastTs now)) a' k' = cursor_at cs a' k'"
  "Valid_scope s \<Longrightarrow> a \<in> scope_ids s db \<Longrightarrow> \<exists>c. cursor_at (snd (RecordSuccess db cs s a k lastTs now)) a k = Some c \<and>
     ic_ConsecutiveFailures c = 0 \<and> ic_LastSuccessAt c = Some (column_ts now)"
  by (auto simp: cursor_at_def RecordSuccess_def visible_iff find_upsert cursor_key_simps split: option.split)

lemma cursor_at_RecordFailure:
  "(a', k') \<noteq> (a, k) \<Longrightarrow> cursor_at (snd (RecordFailure db cs s a k message now)) a' k' = cursor_at cs a' k'"
  "Valid_scope s \<Longrightarrow> a \<in> scope_ids s db \<Longrightarrow> \<exists>c. cursor_at (snd (RecordFailure db cs s a k message now)) a k = Some c \<and>
     ic_ConsecutiveFailures c = failures_of cs a k + 1 \<and> ic_LastError c = Some message"
  by (auto simp: cursor_at_def failures_of_def RecordFailure_def visible_iff find_upsert cursor_key_simps split: option.split)

text \<open>C20. The high-water mark. Whatever a scope records, and in whatever order, the mark of a cursor never moves back:
  a recorded success sets it to the later of the old mark and the instant given and clears the count of failures; a failure leaves every
  mark as it was, adds one to the count (from 0 where there was no cursor) and keeps the message. No cursor of another analyzer or kind
  is touched. An analyzer the scope does not see is answered with not found by both and by the read, as if it did not exist, and
  nothing is written.\<close>

theorem cursor_high_water:
  "(\<forall>t. mark_of cs a' k' = Some t \<longrightarrow>
       (\<exists>t'. mark_of (snd (RecordSuccess db cs s a k lastTs now)) a' k' = Some t' \<and> t \<le> t'))
   \<and> mark_of (snd (RecordFailure db cs s a k message now)) a' k' = mark_of cs a' k'
   \<and> ((a', k') \<noteq> (a, k) \<longrightarrow> cursor_at (snd (RecordSuccess db cs s a k lastTs now)) a' k' = cursor_at cs a' k'
       \<and> cursor_at (snd (RecordFailure db cs s a k message now)) a' k' = cursor_at cs a' k')
   \<and> (Valid_scope s \<and> a \<in> scope_ids s db \<longrightarrow>
       fst (RecordSuccess db cs s a k lastTs now) = None \<and> fst (RecordFailure db cs s a k message now) = None
       \<and> mark_of (snd (RecordSuccess db cs s a k lastTs now)) a k =
           Some (case mark_of cs a k of None \<Rightarrow> column_ts lastTs | Some t \<Rightarrow> max t (column_ts lastTs))
       \<and> failures_of (snd (RecordSuccess db cs s a k lastTs now)) a k = 0
       \<and> failures_of (snd (RecordFailure db cs s a k message now)) a k = failures_of cs a k + 1
       \<and> map_option ic_LastError (cursor_at (snd (RecordFailure db cs s a k message now)) a k) = Some (Some message))
   \<and> (Valid_scope s \<and> a \<notin> scope_ids s db \<longrightarrow>
       RecordSuccess db cs s a k lastTs now = (Some ErrNotFound, cs) \<and> RecordFailure db cs s a k message now = (Some ErrNotFound, cs)
       \<and> Get_cursor db cs s a k = Inl ErrNotFound)"
proof -
  have 1: "\<exists>t'. mark_of (snd (RecordSuccess db cs s a k lastTs now)) a' k' = Some t' \<and> t \<le> t'"
    if "mark_of cs a' k' = Some t" for t
    using that by (auto simp: mark_RecordSuccess greatest_def)
  have 2: "fst (RecordSuccess db cs s a k lastTs now) = None \<and> fst (RecordFailure db cs s a k message now) = None
       \<and> mark_of (snd (RecordSuccess db cs s a k lastTs now)) a k =
           Some (case mark_of cs a k of None \<Rightarrow> column_ts lastTs | Some t \<Rightarrow> max t (column_ts lastTs))
       \<and> failures_of (snd (RecordSuccess db cs s a k lastTs now)) a k = 0
       \<and> failures_of (snd (RecordFailure db cs s a k message now)) a k = failures_of cs a k + 1
       \<and> map_option ic_LastError (cursor_at (snd (RecordFailure db cs s a k message now)) a k) = Some (Some message)"
    if v: "Valid_scope s" "a \<in> scope_ids s db"
  proof -
    have "failures_of (snd (RecordSuccess db cs s a k lastTs now)) a k = 0"
      using cursor_at_RecordSuccess(2) [OF v, of cs k lastTs now] by (auto simp: failures_of_def)
    moreover have "failures_of (snd (RecordFailure db cs s a k message now)) a k = failures_of cs a k + 1"
      "map_option ic_LastError (cursor_at (snd (RecordFailure db cs s a k message now)) a k) = Some (Some message)"
      using cursor_at_RecordFailure(2) [OF v, of cs k message now] by (auto simp: failures_of_def [of "snd _"])
    moreover have "fst (RecordSuccess db cs s a k lastTs now) = None" "fst (RecordFailure db cs s a k message now) = None"
      using v by (simp_all add: RecordSuccess_def RecordFailure_def visible_iff)
    moreover have "mark_of (snd (RecordSuccess db cs s a k lastTs now)) a k =
           Some (case mark_of cs a k of None \<Rightarrow> column_ts lastTs | Some t \<Rightarrow> max t (column_ts lastTs))"
      using v by (simp add: mark_RecordSuccess greatest_def)
    ultimately show ?thesis by blast
  qed
  have 3: "RecordSuccess db cs s a k lastTs now = (Some ErrNotFound, cs) \<and> RecordFailure db cs s a k message now = (Some ErrNotFound, cs)
       \<and> Get_cursor db cs s a k = Inl ErrNotFound" if "Valid_scope s" "a \<notin> scope_ids s db"
    using that by (simp add: RecordSuccess_def RecordFailure_def Get_cursor_def visible_iff)
  have 4: "cursor_at (snd (RecordSuccess db cs s a k lastTs now)) a' k' = cursor_at cs a' k'
       \<and> cursor_at (snd (RecordFailure db cs s a k message now)) a' k' = cursor_at cs a' k'" if "(a', k') \<noteq> (a, k)"
    using that cursor_at_RecordSuccess(1) cursor_at_RecordFailure(1) by simp
  show ?thesis
    by (intro conjI [OF allI [OF impI [OF 1]]] conjI [OF mark_RecordFailure] conjI [OF impI [OF 4]] conjI [OF impI [OF 2]] impI [OF 3])
      (assumption | erule conjunct1 | erule conjunct2)+
qed

theorem cursor_high_water_witness:
  "\<exists>t'. mark_of (snd (RecordSuccess (sample_db [])
       (snd (RecordSuccess (sample_db []) [] (SystemScope 100) 7 ReadingKindDaily 9000 0))
       (SystemScope 100) 7 ReadingKindDaily 5000 0)) 7 ReadingKindDaily = Some t' \<and> 9000 \<le> t'"
proof -
  let ?cs = "snd (RecordSuccess (sample_db []) [] (SystemScope 100) 7 ReadingKindDaily 9000 0)"
  have "7 \<in> scope_ids (SystemScope 100) (sample_db [])"
    by (simp add: scope_ids_def scope_rows_def SystemScope_def sample_db_def in_scope_def scope_predicate_def
        BuildingFilter_def Valid_scope_def)
  then have "mark_of ?cs 7 ReadingKindDaily = Some 9000"
    unfolding mark_RecordSuccess
    by (simp add: SystemScope_def Valid_scope_def mark_of_def greatest_def column_ts_def timestamptz_def)
  with cursor_high_water [of ?cs 7 ReadingKindDaily "sample_db []" "SystemScope 100" 7 ReadingKindDaily 5000 0 "[]"]
  show ?thesis by blast
qed

end
