(* ===== verification/Secret_Redact.thy ===== *)
theory Secret_Redact
  imports Go_Text Go_Sort "HOL-Library.Sublist" "HOL-Library.List_Lexorder" "HOL-Library.Char_ord"
begin

text \<open>
  How a credential is kept out of the text of an error: \<open>src/internal/platform/secret\<close> (\<open>secret.go\<close>,
  \<open>scrub.go\<close>), the secrets a set of credentials holds (\<open>Fragments\<close> in
  \<open>src/internal/integration/credentials.go\<close>) and \<open>redacted\<close> of \<open>src/internal/ingest/report.go\<close>.
  Strings are byte lists in UTF-8, as in Go.
\<close>

section \<open>strings.ReplaceAll\<close>

definition in_bytes :: "nat \<Rightarrow> nat \<Rightarrow> string \<Rightarrow> nat \<Rightarrow> bool" where
  "in_bytes lo hi s i \<longleftrightarrow> i < length s \<and> lo \<le> of_char (s ! i) \<and> of_char (s ! i) \<le> (hi::nat)"

text \<open>\<open>utf8.DecodeRuneInString\<close>: the width of the first rune; a byte that starts no rune is one of its own.\<close>

definition rune_width :: "string \<Rightarrow> nat" where
  "rune_width s =
     (let b = in_bytes; cont = in_bytes 0x80 0xBF s
      in if b 0xC2 0xDF s 0 \<and> cont 1 then 2
         else if (b 0xE0 0xE0 s 0 \<and> b 0xA0 0xBF s 1 \<or> b 0xE1 0xEC s 0 \<and> cont 1 \<or>
                  b 0xED 0xED s 0 \<and> b 0x80 0x9F s 1 \<or> b 0xEE 0xEF s 0 \<and> cont 1) \<and> cont 2 then 3
         else if (b 0xF0 0xF0 s 0 \<and> b 0x90 0xBF s 1 \<or> b 0xF1 0xF3 s 0 \<and> cont 1 \<or>
                  b 0xF4 0xF4 s 0 \<and> b 0x80 0x8F s 1) \<and> cont 2 \<and> cont 3 then 4
         else 1)"

text \<open>An empty pattern matches before every rune and at the end.\<close>

function between_runes :: "string \<Rightarrow> string \<Rightarrow> string" where
  "between_runes new s =
     (if s = [] then new
      else new @ take (rune_width s) s @ between_runes new (drop (rune_width s) s))"
  by auto
termination
  by (relation "measure (\<lambda>(new, s). length s)") (auto simp: rune_width_def Let_def)

function replace_at :: "string \<Rightarrow> string \<Rightarrow> string \<Rightarrow> string" where
  "replace_at old new s =
     (if s = [] \<or> old = [] then s
      else if take (length old) s = old then new @ replace_at old new (drop (length old) s)
      else hd s # replace_at old new (tl s))"
  by auto
termination
  by (relation "measure (\<lambda>(old, new, s). length s)") auto

declare between_runes.simps [simp del] replace_at.simps [simp del]

definition ReplaceAll :: "string \<Rightarrow> string \<Rightarrow> string \<Rightarrow> string" where
  "ReplaceAll s old new =
     (if old = new then s else if old = [] then between_runes new s else replace_at old new s)"

section \<open>platform/secret\<close>

definition Mask :: string where
  "Mask = concat (replicate 8 [CHR 0xE2, CHR 0x80, CHR 0xA2])"

definition URLDelimiters :: string where "URLDelimiters = ''@:/?#&=''"

text \<open>\<open>strings.FieldsFunc\<close> for a predicate on ASCII: the longest stretches between the bytes that satisfy it.\<close>

fun fields_func :: "(char \<Rightarrow> bool) \<Rightarrow> string \<Rightarrow> string \<Rightarrow> string list" where
  "fields_func p cur [] = (if cur = [] then [] else [cur])"
| "fields_func p cur (c # s) =
     (if p c then (if cur = [] then fields_func p [] s else cur # fields_func p [] s)
      else fields_func p (cur @ [c]) s)"

definition Fragments :: "string \<Rightarrow> string list" where
  "Fragments password =
     (if password = [] then []
      else password # filter (\<lambda>frag. 2 \<le> length frag)
             (fields_func (\<lambda>c. c \<in> set URLDelimiters) [] password))"

definition Redact :: "string \<Rightarrow> string list \<Rightarrow> string" where
  "Redact msg fragments = fold (\<lambda>frag msg. ReplaceAll msg frag Mask) fragments msg"

text \<open>The error \<open>scrubbed\<close>: the text that is printed, and the cause \<open>errors.Is\<close> may still reach.\<close>

datatype 'e scrubbed = Scrubbed (scrubbed_msg: string) (scrubbed_cause: "'e option")

definition Withhold :: "string \<Rightarrow> string \<Rightarrow> 'e option \<Rightarrow> 'e scrubbed" where
  "Withhold op reason cause = Scrubbed (op @ '': details withheld ('' @ reason @ '')'') cause"

text \<open>An error is its text and itself; \<open>None\<close> is nil.\<close>

definition Wrap :: "string \<Rightarrow> string list \<Rightarrow> (string \<times> 'e) option \<Rightarrow> 'e scrubbed option" where
  "Wrap op fragments err =
     (case err of
        None \<Rightarrow> None
      | Some (text, e) \<Rightarrow>
          Some (if fragments = []
                then Withhold op
                  ''no credential could be identified, so nothing in the underlying error can be shown safely'' (Some e)
                else Scrubbed (op @ '': '' @ Redact text fragments) (Some e)))"

section \<open>The secrets of a set of credentials\<close>

text \<open>The secret and the entries of \<open>Extra\<close>, a map.\<close>

record secrets =
  cs_Secret :: string
  cs_Extra :: "(string \<times> string) list"

fun dedupe_strings :: "string set \<Rightarrow> string list \<Rightarrow> string list" where
  "dedupe_strings seen [] = []"
| "dedupe_strings seen (f # fs) =
     (if f \<in> seen then dedupe_strings seen fs else f # dedupe_strings (insert f seen) fs)"

definition longer_first :: "string \<Rightarrow> string \<Rightarrow> bool" where
  "longer_first a b = (if length a \<noteq> length b then length b < length a else a < b)"

definition Credentials_Fragments :: "secrets \<Rightarrow> string list" where
  "Credentials_Fragments c =
     (let frags = (if cs_Secret c \<noteq> [] then [cs_Secret c] else []);
          keys = sort_Slice (<) (map fst (cs_Extra c));
          frags = frags @ filter (\<lambda>s. s \<noteq> []) (map (\<lambda>k. the (map_of (cs_Extra c) k)) keys)
      in sort_Slice longer_first (dedupe_strings {} frags))"

text \<open>\<open>None\<close> is the nil error.\<close>

definition redacted :: "secrets \<Rightarrow> string option \<Rightarrow> string" where
  "redacted c err = (case err of None \<Rightarrow> [] | Some text \<Rightarrow> Redact text (Credentials_Fragments c))"

section \<open>What a replacement leaves\<close>

lemma prefix_before_mask:
  assumes "prefix f (a @ m @ r)" and "set f \<inter> set m = {}" and "m \<noteq> []"
  shows "prefix f a"
  using assms
proof (induction a arbitrary: f)
  case Nil
  then show ?case by (cases m; cases f) auto
next
  case (Cons c a)
  show ?case
  proof (cases f)
    case (Cons x f')
    with Cons.prems Cons.IH [of f'] show ?thesis by auto
  qed simp
qed

lemma sublist_before_mask:
  assumes "sublist f (a @ m @ r)" and "set f \<inter> set m = {}" and "m \<noteq> []" and "f \<noteq> []"
  shows "sublist f a \<or> sublist f r"
  using assms(1)
proof (induction a)
  case Nil
  have "sublist f (m @ r) \<Longrightarrow> set f \<inter> set m = {} \<Longrightarrow> sublist f r" for m
  proof (induction m)
    case (Cons c m)
    from Cons.prems have "\<not> prefix f (c # m @ r)" using assms(4) by (cases f) auto
    with Cons show ?case by (auto simp: sublist_Cons_right)
  qed simp
  with Nil assms(2) show ?case by simp
next
  case (Cons c a)
  then consider "prefix f ((c # a) @ m @ r)" | "sublist f (a @ m @ r)"
    by (auto simp: sublist_Cons_right)
  then show ?case
  proof cases
    case 1
    from prefix_before_mask [OF this assms(2,3)] show ?thesis by (simp add: prefix_imp_sublist)
  next
    case 2
    with Cons.IH show ?thesis by (auto simp: sublist_Cons_right)
  qed
qed

lemma prefix_replaced:
  assumes "prefix f (replace_at old m s)" and "set f \<inter> set m = {}" and "m \<noteq> []"
  shows "prefix f s"
  using assms
proof (induction old m s arbitrary: f rule: replace_at.induct)
  case (1 old m s)
  show ?case
  proof (cases "s = [] \<or> old = []")
    case True
    with 1 show ?thesis by (simp add: replace_at.simps [of old m s])
  next
    case False
    show ?thesis
    proof (cases "take (length old) s = old")
      case True
      with False 1(3) have "prefix f ([] @ m @ replace_at old m (drop (length old) s))"
        by (simp add: replace_at.simps [of old m s])
      from prefix_before_mask [OF this 1(4,5)] show ?thesis by simp
    next
      case other: False
      with False 1(3) have p: "prefix f (hd s # replace_at old m (tl s))"
        by (simp add: replace_at.simps [of old m s])
      show ?thesis
      proof (cases f)
        case (Cons x f')
        with p have "x = hd s" "prefix f' (replace_at old m (tl s))" by auto
        with 1(2) [OF False other, of f'] 1(4,5) Cons False show ?thesis by (cases s) auto
      qed simp
    qed
  qed
qed

lemma sublist_replaced:
  assumes "sublist f (replace_at old m s)" and "set f \<inter> set m = {}" and "m \<noteq> []" and "f \<noteq> []"
  shows "sublist f s"
  using assms
proof (induction old m s rule: replace_at.induct)
  case (1 old m s)
  show ?case
  proof (cases "s = [] \<or> old = []")
    case True
    with 1 show ?thesis by (simp add: replace_at.simps [of old m s])
  next
    case False
    show ?thesis
    proof (cases "take (length old) s = old")
      case True
      with False 1(3) have "sublist f ([] @ m @ replace_at old m (drop (length old) s))"
        by (simp add: replace_at.simps [of old m s])
      from sublist_before_mask [OF this 1(4-6)] 1(6)
      have "sublist f (replace_at old m (drop (length old) s))" by auto
      from 1(1) [OF False True this 1(4-6)] show ?thesis
        by (metis sublist_drop sublist_order.order.trans)
    next
      case other: False
      with False 1(3) have "sublist f (hd s # replace_at old m (tl s))"
        by (simp add: replace_at.simps [of old m s])
      then consider "prefix f (hd s # replace_at old m (tl s))" | "sublist f (replace_at old m (tl s))"
        by (auto simp: sublist_Cons_right)
      then show ?thesis
      proof cases
        case 1
        then have "prefix f (replace_at old m s)"
          using False other by (simp add: replace_at.simps [of old m s])
        from prefix_replaced [OF this \<open>set f \<inter> set m = {}\<close> \<open>m \<noteq> []\<close>] show ?thesis
          by (rule prefix_imp_sublist)
      next
        case 2
        from 1(2) [OF False other 2 1(4-6)] show ?thesis
          by (metis sublist_order.order.trans sublist_tl)
      qed
    qed
  qed
qed

lemma replaced_gone:
  assumes "set old \<inter> set m = {}" and "m \<noteq> []" and "old \<noteq> []"
  shows "\<not> sublist old (replace_at old m s)"
  using assms
proof (induction old m s rule: replace_at.induct)
  case (1 old m s)
  show ?case
  proof (cases "s = []")
    case True
    with 1(5) show ?thesis by (simp add: replace_at.simps [of old m "[]"])
  next
    case False
    then have ne: "\<not> (s = [] \<or> old = [])" using 1(5) by simp
    show ?thesis
    proof (cases "take (length old) s = old")
      case True
      with 1(1) [OF ne True 1(3-5)] ne show ?thesis
        using sublist_before_mask [of old "[]" m "replace_at old m (drop (length old) s)"] 1(3-5)
        by (auto simp: replace_at.simps [of old m s])
    next
      case other: False
      have "\<not> prefix old s" using other by (metis prefix_def append_eq_conv_conj)
      then have "\<not> prefix old (replace_at old m s)" using prefix_replaced 1(3,4) by blast
      with 1(2) [OF ne other 1(3-5)] ne other show ?thesis
        by (simp add: replace_at.simps [of old m s] sublist_Cons_right)
    qed
  qed
qed

lemma sublist_between:
  assumes "sublist f (between_runes m s)" and "set f \<inter> set m = {}" and "m \<noteq> []" and "f \<noteq> []"
  shows "sublist f s"
  using assms
proof (induction m s rule: between_runes.induct)
  case (1 m s)
  show ?case
  proof (cases "s = []")
    case True
    with 1(2) have "sublist f ([] @ m @ [])" by (simp add: between_runes.simps [of m "[]"])
    from sublist_before_mask [OF this 1(3-5)] 1(5) show ?thesis by auto
  next
    case False
    let ?r = "drop (rune_width s) s"
    from False 1(2) have "sublist f ([] @ m @ take (rune_width s) s @ between_runes m ?r)"
      by (simp add: between_runes.simps [of m s])
    from sublist_before_mask [OF this 1(3-5)] 1(5)
    have step: "sublist f (take (rune_width s) s @ between_runes m ?r)" by auto
    obtain r where r: "between_runes m ?r = m @ r" by (metis between_runes.simps append_Nil2)
    from sublist_before_mask [of f "take (rune_width s) s" m r] step [unfolded r] 1(3-5)
    consider "sublist f (take (rune_width s) s)" | "sublist f r" by blast
    then show ?thesis
    proof cases
      case 1
      then show ?thesis by (metis sublist_order.order.trans sublist_take)
    next
      case 2
      then have "sublist f (between_runes m ?r)" unfolding r by (metis sublist_appendI append_Nil2 sublist_order.order.trans)
      from 1(1) [OF False this 1(3-5)] show ?thesis by (metis sublist_drop sublist_order.order.trans)
    qed
  qed
qed


lemma ReplaceAll_keeps_out:
  assumes "set f \<inter> set Mask = {}" and "f \<noteq> []" and "\<not> sublist f s"
  shows "\<not> sublist f (ReplaceAll s old Mask)"
proof -
  have "Mask \<noteq> []" by (simp add: Mask_def)
  with assms show ?thesis
    by (auto simp: ReplaceAll_def dest: sublist_replaced sublist_between)
qed

lemma Redact_keeps_out:
  assumes "set f \<inter> set Mask = {}" and "f \<noteq> []" and "\<not> sublist f s"
  shows "\<not> sublist f (Redact s frags)"
  using assms(3)
proof (induction frags arbitrary: s)
  case (Cons g frags)
  then have "\<not> sublist f (ReplaceAll s g Mask)" using ReplaceAll_keeps_out assms(1,2) by blast
  then show ?case using Cons.IH by (simp add: Redact_def)
qed (simp add: Redact_def)

lemma Redact_removes:
  assumes "f \<in> set frags" and "set f \<inter> set Mask = {}" and "f \<noteq> []"
  shows "\<not> sublist f (Redact s frags)"
  using assms(1)
proof (induction frags arbitrary: s)
  case (Cons g frags)
  show ?case
  proof (cases "f = g")
    case True
    have "Mask \<noteq> []" by (simp add: Mask_def)
    moreover have "f \<noteq> Mask" using assms(2,3) by auto
    ultimately have "\<not> sublist f (ReplaceAll s g Mask)"
      using replaced_gone [of f Mask s] assms(2,3) True by (simp add: ReplaceAll_def)
    then show ?thesis using Redact_keeps_out assms(2,3) by (simp add: Redact_def)
  next
    case False
    with Cons show ?thesis by (simp add: Redact_def)
  qed
qed simp

lemma set_dedupe_strings: "set (dedupe_strings seen fs) = set fs - seen"
  by (induction seen fs rule: dedupe_strings.induct) auto

lemma distinct_dedupe_strings: "distinct (dedupe_strings seen fs)"
  by (induction seen fs rule: dedupe_strings.induct) (auto simp: set_dedupe_strings)

interpretation fragment_order: slice_order longer_first
  by unfold_locales (auto simp: longer_first_def split: if_splits)

lemma set_Credentials_Fragments:
  assumes "distinct (map fst (cs_Extra c))"
  shows "set (Credentials_Fragments c) = (insert (cs_Secret c) (snd ` set (cs_Extra c))) - {[]}"
proof -
  have "the (map_of (cs_Extra c) (fst x)) = snd x" if "x \<in> set (cs_Extra c)" for x
    using assms that by (metis map_of_is_SomeI option.sel prod.collapse)
  then have "(\<lambda>k. the (map_of (cs_Extra c) k)) ` fst ` set (cs_Extra c) = snd ` set (cs_Extra c)"
    by (simp add: image_image)
  then show ?thesis
    by (auto simp: Credentials_Fragments_def Let_def set_dedupe_strings)
qed

section \<open>No secret in a text\<close>

text \<open>A stretch of a password with a delimiter, or an end of the password, on both sides is a field.\<close>

lemma fields_func_head:
  assumes "\<forall>c \<in> set s. \<not> p c" and "post = [] \<or> p (hd post)" and "cur @ s \<noteq> []"
  shows "cur @ s \<in> set (fields_func p cur (s @ post))"
  using assms
proof (induction s arbitrary: cur)
  case Nil
  then show ?case by (cases post) auto
next
  case (Cons c s)
  from Cons.IH [of "cur @ [c]"] Cons.prems show ?case by simp
qed

lemma fields_func_after: "p d \<Longrightarrow> set (fields_func p [] rest) \<subseteq> set (fields_func p cur (pre @ d # rest))"
  by (induction pre arbitrary: cur) auto

lemma fields_func_piece:
  assumes "\<forall>c \<in> set s. \<not> p c" and "pre = [] \<or> p (last pre)" and "post = [] \<or> p (hd post)" and "s \<noteq> []"
  shows "s \<in> set (fields_func p [] (pre @ s @ post))"
proof -
  have s: "s \<in> set (fields_func p [] (s @ post))" using fields_func_head [OF assms(1,3), of "[]"] assms(4) by simp
  show ?thesis
  proof (cases "pre = []")
    case False
    then have eq: "pre @ s @ post = butlast pre @ last pre # s @ post" and "p (last pre)" using assms(2) by simp_all
    show ?thesis unfolding eq by (rule subsetD [OF fields_func_after s]) fact
  qed (use s in simp)
qed


definition sample_secrets :: secrets where
  "sample_secrets = \<lparr>cs_Secret = ''pw'', cs_Extra = [(''app_key'', ''pw-token''), (''app_id'', ''pw'')]\<rparr>"

lemma sample_redacted:
  "Credentials_Fragments sample_secrets = [''pw-token'', ''pw'']"
  "redacted sample_secrets (Some ''401 pw-token/pw'') = ''401 '' @ Mask @ ''/'' @ Mask"
  by code_simp+


end
