(* ===== verification/Ingest_State.thy ===== *)
theory Ingest_State
  imports Ingest_Validate Cursors_Store Normalize Anomalies_Store Http_Errors Secret_Redact
begin

text \<open>
  What one fetch of \<open>src/internal/ingest\<close> works on: the rows and calls of the repositories it uses
  (\<open>store/postgres/analyzers.go\<close>, \<open>ops.go\<close>, \<open>provider_series.go\<close>, next to the ones of
  \<open>Readings_Store\<close>, \<open>Cursors_Store\<close> and \<open>Anomalies_Store\<close>), the types of the adapters
  (\<open>integration/source.go\<close>) and the accumulator of a run (\<open>fetch.go\<close>).

  What the fetch does not decide is the record \<open>ingest_world\<close>: which call of a repository fails and how
  (\<open>iw_outage\<close>, by the number of the call), what the provider answers (\<open>iw_answer\<close>, by the number of the
  request), generated identifiers, clocks, what columns make of numbers, the hooks and the texts of errors.
\<close>

section \<open>Adapters (integration/source.go)\<close>

datatype provider =
  ProviderOSOS | ProviderGridBox | ProviderARIL | ProviderPM5340 | ProviderISolar | ProviderEPIAS
| ProviderWeather | ProviderOther string

fun ModelProvider :: "provider \<Rightarrow> integration_provider option" where
  "ModelProvider ProviderOSOS = Some IntegrationProviderOSOS"
| "ModelProvider ProviderGridBox = Some IntegrationProviderGridbox"
| "ModelProvider ProviderARIL = Some IntegrationProviderARIL"
| "ModelProvider ProviderPM5340 = Some IntegrationProviderPM5340"
| "ModelProvider ProviderISolar = Some IntegrationProviderISolar"
| "ModelProvider _ = None"

fun provider_string :: "provider \<Rightarrow> string" where
  "provider_string ProviderOSOS = ''osos''"
| "provider_string ProviderGridBox = ''gridbox''"
| "provider_string ProviderARIL = ''aril''"
| "provider_string ProviderPM5340 = ''pm5340''"
| "provider_string ProviderISolar = ''isolar''"
| "provider_string ProviderEPIAS = ''epias''"
| "provider_string ProviderWeather = ''weather''"
| "provider_string (ProviderOther s) = s"

record metering_point =
  mp_InstallationNumber :: string
  mp_CustomerName :: "string option"
  mp_Address :: "string option"
  mp_Province :: "string option"
  mp_District :: "string option"
  mp_Neighbourhood :: "string option"
  mp_Street :: "string option"
  mp_TariffType :: "string option"
  mp_TariffKind :: "string option"
  mp_InstallationKind :: "string option"
  mp_InstalledPowerKw :: "dec option"
  mp_ContractedPowerKw :: "dec option"
  mp_MeterNumber :: "string option"
  mp_MeterModel :: "string option"
  mp_MeterMultiplier :: "dec option"
  mp_CounterpartyNo :: "string option"
  mp_MeteringPointName :: "string option"
  mp_EtsoCode :: "string option"
  mp_Latitude :: "dec option"
  mp_Longitude :: "dec option"
  mp_DefinitionType :: "int option"
  mp_ProviderHighWater :: "reading_kind \<rightharpoonup> time"

record fetch_request =
  rq_Point :: metering_point
  rq_AnalyzerID :: uuid
  rq_Multiplier :: dec
  rq_Kind :: reading_kind
  rq_From :: time
  rq_To :: time

record resolved_multiplier =
  rm_Value :: dec
  rm_Source :: string
  rm_ProviderResolved :: bool

record warning =
  wr_Code :: string
  wr_Detail :: string

record hourly_value =
  hv_Ts :: time
  hv_ActiveConsumption :: "dec option"
  hv_ActiveGeneration :: "dec option"

record fetch_result =
  fr_Readings :: "meter_reading list"
  fr_ResolvedMultiplier :: "resolved_multiplier option"
  fr_NextCursor :: "time option"
  fr_Warnings :: "warning list"
  fr_HourlyValues :: "hourly_value list"

text \<open>Of the credentials, what the fetch reads itself.\<close>

record credentials =
  cr_Provider :: provider
  cr_Subtype :: string
  cr_Secrets :: secrets
  cr_IsActive :: bool

section \<open>Rows\<close>

record analyzer =
  an_ID :: uuid
  an_CompanyID :: uuid
  an_BuildingID :: "uuid option"
  an_Provider :: integration_provider
  an_ProviderSubtype :: string
  an_InstallationNumber :: string
  an_CustomerName :: "string option"
  an_Address :: "string option"
  an_Province :: "string option"
  an_District :: "string option"
  an_Neighbourhood :: "string option"
  an_Street :: "string option"
  an_TariffType :: "string option"
  an_TariffKind :: "string option"
  an_InstallationKind :: "string option"
  an_InstalledPowerKw :: "dec option"
  an_MeterNumber :: "string option"
  an_MeterModel :: "string option"
  an_MeterMultiplier :: dec
  an_CounterpartyNo :: "string option"
  an_MeteringPointName :: "string option"
  an_Latitude :: "dec option"
  an_Longitude :: "dec option"
  an_EtsoCode :: "string option"
  an_DefinitionType :: "int option"
  an_LastReadingAt :: "time option"
  an_IsActive :: bool
  an_CreatedAt :: time
  an_UpdatedAt :: time
  an_DeletedAt :: "time option"

record job_run =
  jr_ID :: uuid
  jr_CompanyID :: "uuid option"
  jr_JobType :: string
  jr_Scope :: raw_message
  jr_Status :: string
  jr_Processed :: int
  jr_Skipped :: int
  jr_Failed :: int
  jr_Error :: "string option"
  jr_Detail :: raw_message
  jr_FinishedAt :: "time option"

record provider_hourly_value =
  ph_AnalyzerID :: uuid
  ph_Ts :: time
  ph_ActiveConsumption :: "dec option"
  ph_ActiveGeneration :: "dec option"
  ph_SourceProvider :: integration_provider

record refresh_payload =
  rp_CompanyID :: uuid
  rp_AnalyzerID :: uuid
  rp_From :: time
  rp_To :: time

text \<open>
  The state: the tables, the tasks enqueued, and the requests the provider has been sent. The columns of an analyzer that
  decide who sees it, and its identifiers, are in \<open>db_analyzers\<close>, \<open>last_reading_at\<close> in \<open>fd_lasts\<close>, the others
  in \<open>fd_analyzers\<close>. \<open>fd_calls\<close> numbers the calls of the repositories.
\<close>

record fetch_db =
  fd_store :: consumption_db
  fd_cursors :: "ingestion_cursor list"
  fd_analyzers :: "uuid \<rightharpoonup> analyzer"
  fd_lasts :: "uuid \<rightharpoonup> time"
  fd_runs :: "job_run list"
  fd_anchors :: "uuid \<rightharpoonup> generation_anchor"
  fd_hourly :: "(int \<times> provider_hourly_value) list"
  fd_refreshes :: "refresh_payload list"
  fd_requests :: "fetch_request list"
  fd_calls :: nat

datatype fetch_error =
  Store_failed store_error
| Source_failed go_error
| Hook_failed string
| Page_limit int
| Skip_retry fetch_error
| Redacted string fetch_error

type_synonym fetch_hook =
  "scope \<Rightarrow> analyzer \<Rightarrow> reading_kind \<Rightarrow> time \<Rightarrow> time \<Rightarrow> fetch_db \<Rightarrow> (fetch_error + unit) \<times> fetch_db"

record ingest_world =
  iw_lib :: declib
  iw_opts :: ingest_options
  iw_refresh_enabled :: bool
  iw_location :: location
  iw_outage :: "nat \<Rightarrow> store_error option"
  iw_answer :: "nat \<Rightarrow> fetch_request \<Rightarrow> go_error + fetch_result"
  iw_max_window :: "provider \<Rightarrow> reading_kind \<Rightarrow> duration"
  iw_source :: "provider \<Rightarrow> go_error option"
  iw_credentials :: "fetch_db \<Rightarrow> uuid \<Rightarrow> fetch_error + credentials"
  iw_hooks :: "integration_provider \<Rightarrow> fetch_hook list"
  iw_reading_columns :: "meter_reading \<Rightarrow> meter_reading option"
  iw_hourly_columns :: "provider_hourly_value \<Rightarrow> provider_hourly_value option"
  iw_anchor_column :: "dec \<Rightarrow> dec"
  iw_analyzer_columns :: "analyzer \<Rightarrow> analyzer option"
  iw_building_live :: "fetch_db \<Rightarrow> uuid \<Rightarrow> uuid \<Rightarrow> bool"
  iw_db_now :: "fetch_db \<Rightarrow> time"
  iw_new_id :: "fetch_db \<Rightarrow> uuid"
  iw_message_id :: "fetch_db \<Rightarrow> int"
  iw_uuid_string :: "uuid \<Rightarrow> string"
  iw_error_text :: "fetch_error \<Rightarrow> string"
  iw_enqueuer :: "(fetch_db \<Rightarrow> refresh_payload \<Rightarrow> string option) option"

abbreviation fd_db :: "fetch_db \<Rightarrow> readings_db" where
  "fd_db d \<equiv> cd_readings (fd_store d)"

section \<open>The calls of the repositories\<close>

text \<open>A call that the database does not answer changes nothing.\<close>

definition repo :: "ingest_world \<Rightarrow> (fetch_db \<Rightarrow> (store_error + 'a) \<times> fetch_db) \<Rightarrow> fetch_db \<Rightarrow> (store_error + 'a) \<times> fetch_db" where
  "repo W op d =
     (let d' = d\<lparr>fd_calls := Suc (fd_calls d)\<rparr>
      in case iw_outage W (fd_calls d) of Some e \<Rightarrow> (Inl e, d') | None \<Rightarrow> op d')"

definition unit_result :: "store_error option \<Rightarrow> store_error + unit" where
  "unit_result e = (case e of None \<Rightarrow> Inr () | Some e \<Rightarrow> Inl e)"

definition with_readings :: "readings_db \<Rightarrow> fetch_db \<Rightarrow> fetch_db" where
  "with_readings r d = d\<lparr>fd_store := (fd_store d)\<lparr>cd_readings := r\<rparr>\<rparr>"

definition read_readings :: "(readings_db \<Rightarrow> store_error + 'a) \<Rightarrow> fetch_db \<Rightarrow> (store_error + 'a) \<times> fetch_db" where
  "read_readings q d = (q (fd_db d), d)"

definition bulk_insert :: "ingest_world \<Rightarrow> scope \<Rightarrow> meter_reading list \<Rightarrow> fetch_db \<Rightarrow> (store_error + nat \<times> nat) \<times> fetch_db" where
  "bulk_insert W s rows d =
     (case BulkInsert (iw_reading_columns W) (iw_db_now W d) (fd_db d) s rows of
        (res, r) \<Rightarrow> (res, with_readings r d))"

definition get_cursor :: "scope \<Rightarrow> uuid \<Rightarrow> reading_kind \<Rightarrow> fetch_db \<Rightarrow> (store_error + ingestion_cursor) \<times> fetch_db" where
  "get_cursor s a k d = (Get_cursor (fd_db d) (fd_cursors d) s a k, d)"

definition record_success :: "scope \<Rightarrow> uuid \<Rightarrow> reading_kind \<Rightarrow> time \<Rightarrow> time \<Rightarrow> fetch_db \<Rightarrow> (store_error + unit) \<times> fetch_db" where
  "record_success s a k lastTs now d =
     (case RecordSuccess (fd_db d) (fd_cursors d) s a k lastTs now of
        (e, cs) \<Rightarrow> (unit_result e, d\<lparr>fd_cursors := cs\<rparr>))"

definition record_failure :: "scope \<Rightarrow> uuid \<Rightarrow> reading_kind \<Rightarrow> string \<Rightarrow> time \<Rightarrow> fetch_db \<Rightarrow> (store_error + unit) \<times> fetch_db" where
  "record_failure s a k message now d =
     (case RecordFailure (fd_db d) (fd_cursors d) s a k message now of
        (e, cs) \<Rightarrow> (unit_result e, d\<lparr>fd_cursors := cs\<rparr>))"

definition touch_last_reading :: "scope \<Rightarrow> uuid \<Rightarrow> time \<Rightarrow> fetch_db \<Rightarrow> (store_error + unit) \<times> fetch_db" where
  "touch_last_reading s a t d =
     (case TouchLastReading (fd_db d) (fd_lasts d) s a t of
        (e, ls) \<Rightarrow> (unit_result e, d\<lparr>fd_lasts := ls\<rparr>))"

definition get_anchor :: "scope \<Rightarrow> uuid \<Rightarrow> fetch_db \<Rightarrow> (store_error + generation_anchor) \<times> fetch_db" where
  "get_anchor s a d = (Anchor (fd_db d) (fd_anchors d) s a, d)"

definition set_anchor :: "ingest_world \<Rightarrow> scope \<Rightarrow> generation_anchor \<Rightarrow> fetch_db \<Rightarrow> (store_error + unit) \<times> fetch_db" where
  "set_anchor W s ga d =
     (case SetAnchor (iw_anchor_column W) (iw_db_now W d) (fd_db d) (fd_anchors d) s ga of
        (e, as) \<Rightarrow> (unit_result e, d\<lparr>fd_anchors := as\<rparr>))"

definition Get_analyzer :: "scope \<Rightarrow> uuid \<Rightarrow> fetch_db \<Rightarrow> (store_error + analyzer) \<times> fetch_db" where
  "Get_analyzer s a d =
     ((if \<not> Valid_scope s then Inl ErrInvalidScope
       else if \<not> visible (fd_db d) s a then Inl Store_Scope.ErrNotFound
       else case fd_analyzers d a of
         None \<Rightarrow> Inl Store_Scope.ErrNotFound
       | Some an \<Rightarrow> Inr (an\<lparr>an_ID := a, an_CompanyID := sc_CompanyID s, an_LastReadingAt := fd_lasts d a\<rparr>)), d)"

text \<open>The building an update names must be one the scope may use; the identity of the row is not written.\<close>

definition building_allowed :: "ingest_world \<Rightarrow> fetch_db \<Rightarrow> scope \<Rightarrow> uuid option \<Rightarrow> bool" where
  "building_allowed W d s b =
     (case BuildingFilter s of (ids, all_buildings) \<Rightarrow>
        case b of
          None \<Rightarrow> all_buildings
        | Some b \<Rightarrow> iw_building_live W d (sc_CompanyID s) b \<and> (all_buildings \<or> b \<in> set ids))"

definition Update_analyzer :: "ingest_world \<Rightarrow> scope \<Rightarrow> analyzer \<Rightarrow> fetch_db \<Rightarrow> (store_error + analyzer) \<times> fetch_db" where
  "Update_analyzer W s a d =
     (if \<not> Valid_scope s then (Inl ErrInvalidScope, d)
      else if an_CompanyID a \<noteq> sc_CompanyID s then (Inl Store_Scope.ErrNotFound, d)
      else case iw_analyzer_columns W a of
        None \<Rightarrow> (Inl ErrDatabase, d)
      | Some cols \<Rightarrow>
          if \<not> visible (fd_db d) s (an_ID a) \<or> \<not> building_allowed W d s (an_BuildingID a)
          then (Inl Store_Scope.ErrNotFound, d)
          else case fd_analyzers d (an_ID a) of
            None \<Rightarrow> (Inl Store_Scope.ErrNotFound, d)
          | Some old \<Rightarrow>
              let row = cols\<lparr>an_ID := an_ID a, an_CompanyID := an_CompanyID a, an_Provider := an_Provider old,
                    an_ProviderSubtype := an_ProviderSubtype old, an_InstallationNumber := an_InstallationNumber old,
                    an_LastReadingAt := fd_lasts d (an_ID a), an_CreatedAt := an_CreatedAt old,
                    an_UpdatedAt := column_ts (an_UpdatedAt a), an_DeletedAt := an_DeletedAt old\<rparr>;
                  rows = map (\<lambda>r. if aw_id r = an_ID a then r\<lparr>aw_building_id := an_BuildingID a\<rparr> else r) (db_analyzers (fd_db d))
              in (Inr row, (with_readings ((fd_db d)\<lparr>db_analyzers := rows\<rparr>) d)
                    \<lparr>fd_analyzers := (fd_analyzers d)(an_ID a \<mapsto> row)\<rparr>))"

definition list_anomalies :: "scope \<Rightarrow> anomaly_filter \<Rightarrow> fetch_db \<Rightarrow> (store_error + consumption_anomaly list) \<times> fetch_db" where
  "list_anomalies s f d = (List_anomalies (fd_store d) s f, d)"

definition create_anomaly :: "ingest_world \<Rightarrow> scope \<Rightarrow> consumption_anomaly \<Rightarrow> fetch_db \<Rightarrow> (store_error + consumption_anomaly) \<times> fetch_db" where
  "create_anomaly W s a d =
     (case Create_anomaly (iw_new_id W d) (iw_db_now W d) (fd_store d) s a of (res, st) \<Rightarrow> (res, d\<lparr>fd_store := st\<rparr>))"

definition append_message :: "ingest_world \<Rightarrow> scope \<Rightarrow> operational_message \<Rightarrow> fetch_db \<Rightarrow> (store_error + operational_message) \<times> fetch_db" where
  "append_message W s m d =
     (case AppendMessage (iw_message_id W d) (iw_db_now W d) (fd_store d) s m of (res, st) \<Rightarrow> (res, d\<lparr>fd_store := st\<rparr>))"

definition StartRun :: "scope \<Rightarrow> job_run \<Rightarrow> fetch_db \<Rightarrow> (store_error + job_run) \<times> fetch_db" where
  "StartRun s run d =
     (if \<not> Valid_scope s then (Inl ErrInvalidScope, d)
      else if jr_CompanyID run \<noteq> Some (sc_CompanyID s) then (Inl Store_Scope.ErrNotFound, d)
      else let row = run\<lparr>jr_Scope := (case jr_Scope run of None \<Rightarrow> Some (JObject []) | Some j \<Rightarrow> Some j), jr_Status := ''running''\<rparr>
           in (Inr row, d\<lparr>fd_runs := fd_runs d @ [row]\<rparr>))"

definition FinishRun ::
    "scope \<Rightarrow> uuid \<Rightarrow> string \<Rightarrow> int \<Rightarrow> int \<Rightarrow> int \<Rightarrow> string option \<Rightarrow> raw_message \<Rightarrow> time \<Rightarrow> fetch_db
     \<Rightarrow> (store_error + job_run) \<times> fetch_db" where
  "FinishRun s i status processed skipped failed errText detail now d =
     (if \<not> Valid_scope s then (Inl ErrInvalidScope, d)
      else let hit = (\<lambda>r. jr_ID r = i \<and> jr_CompanyID r = Some (sc_CompanyID s));
               upd = (\<lambda>r. r\<lparr>jr_FinishedAt := Some (column_ts now), jr_Status := status, jr_Processed := processed,
                        jr_Skipped := skipped, jr_Failed := failed, jr_Error := errText, jr_Detail := detail\<rparr>)
           in (case List.find hit (fd_runs d) of None \<Rightarrow> Inl Store_Scope.ErrNotFound | Some r \<Rightarrow> Inr (upd r),
               d\<lparr>fd_runs := map (\<lambda>r. if hit r then upd r else r) (fd_runs d)\<rparr>))"

text \<open>\<open>UpsertHourly\<close>: the batch is staged, refused on a repeated key, and upserted on analyzer and instant.\<close>

definition hourly_key :: "int \<times> provider_hourly_value \<Rightarrow> uuid \<times> int" where
  "hourly_key r = (ph_AnalyzerID (snd r), fst r)"

definition UpsertHourly ::
    "ingest_world \<Rightarrow> scope \<Rightarrow> provider_hourly_value list \<Rightarrow> fetch_db \<Rightarrow> (store_error + nat) \<times> fetch_db" where
  "UpsertHourly W s rows d =
     (if \<not> Valid_scope s then (Inl ErrInvalidScope, d)
      else if rows = [] then (Inr 0, d)
      else if \<not> distinct (map (\<lambda>r. (ph_AnalyzerID r, ph_Ts r)) rows) then (Inl ErrConflict, d)
      else if \<not> list_all (\<lambda>r. visible (fd_db d) s (ph_AnalyzerID r)) rows then (Inl Store_Scope.ErrNotFound, d)
      else let staged = map (\<lambda>r. map_option (\<lambda>c. (timestamptz (ph_Ts r), c)) (iw_hourly_columns W r)) rows
           in if None \<in> set staged then (Inl ErrDatabase, d)
              else let news = map the staged
                   in if \<not> distinct (map hourly_key news) then (Inl ErrDatabase, d)
                      else (Inr (length news),
                            d\<lparr>fd_hourly := filter (\<lambda>r. hourly_key r \<notin> hourly_key ` set news) (fd_hourly d) @ news\<rparr>))"

section \<open>The accumulator (fetch.go)\<close>

text \<open>The counters are 32-bit in the code; a run reads far fewer rows than would wrap.\<close>

record accumulator =
  ac_processed :: int
  ac_skipped :: int
  ac_rejections :: "reject_reason \<Rightarrow> nat"
  ac_warnings :: "string list"
  ac_anomaliesCreated :: int
  ac_affectedFrom :: "time option"
  ac_affectedTo :: "time option"
  ac_hasLoadProfile :: bool

definition newFetchAccumulator :: accumulator where
  "newFetchAccumulator =
     \<lparr>ac_processed = 0, ac_skipped = 0, ac_rejections = (\<lambda>_. 0), ac_warnings = [], ac_anomaliesCreated = 0,
      ac_affectedFrom = None, ac_affectedTo = None, ac_hasLoadProfile = False\<rparr>"

definition noteLoadProfilePersisted :: "reading_kind \<Rightarrow> nat \<Rightarrow> accumulator \<Rightarrow> accumulator" where
  "noteLoadProfilePersisted k n a =
     (if k = ReadingKindLoadProfile \<and> 0 < n then a\<lparr>ac_hasLoadProfile := True\<rparr> else a)"

definition addRejections :: "rejection list \<Rightarrow> accumulator \<Rightarrow> accumulator" where
  "addRejections rs a =
     a\<lparr>ac_skipped := ac_skipped a + int (length rs),
       ac_rejections := fold (\<lambda>r f. f(rj_Reason r := f (rj_Reason r) + 1)) rs (ac_rejections a)\<rparr>"

text \<open>The codes as they came; the map of the code counts each.\<close>

definition addWarnings :: "warning list \<Rightarrow> accumulator \<Rightarrow> accumulator" where
  "addWarnings ws a = a\<lparr>ac_warnings := ac_warnings a @ map wr_Code ws\<rparr>"

definition touchAffected :: "time \<Rightarrow> time \<Rightarrow> accumulator \<Rightarrow> accumulator" where
  "touchAffected lo hi a =
     a\<lparr>ac_affectedFrom := (case ac_affectedFrom a of None \<Rightarrow> Some lo | Some f \<Rightarrow> if lo < f then Some lo else Some f),
       ac_affectedTo := (case ac_affectedTo a of None \<Rightarrow> Some hi | Some t \<Rightarrow> if t < hi then Some hi else Some t)\<rparr>"

definition sortedWarningCodes :: "string list \<Rightarrow> string list" where
  "sortedWarningCodes codes = sort (remdups codes)"

fun reject_reason_string :: "reject_reason \<Rightarrow> string" where
  "reject_reason_string RejectUnparseableTs = ''unparseable_timestamp''"
| "reject_reason_string RejectFuture = ''future_timestamp''"
| "reject_reason_string RejectAllNull = ''all_registers_null''"
| "reject_reason_string RejectNegative = ''negative_value''"
| "reject_reason_string RejectSanityJump = ''sanity_jump''"
| "reject_reason_string RejectConflictingDuplicate = ''conflicting_duplicate''"
| "reject_reason_string RejectWrongAnalyzer = ''wrong_analyzer''"
| "reject_reason_string RejectWrongKind = ''wrong_kind''"

fun reading_kind_string :: "reading_kind \<Rightarrow> string" where
  "reading_kind_string ReadingKindLoadProfile = ''load_profile''"
| "reading_kind_string ReadingKindDaily = ''daily''"
| "reading_kind_string ReadingKindBilling = ''billing''"
| "reading_kind_string ReadingKindReset = ''reset''"
| "reading_kind_string ReadingKindCurrentIndex = ''current_index''"
| "reading_kind_string (ReadingKindOther s) = s"

text \<open>Maps are encoded with their keys in order.\<close>

definition rejections_json :: "(reject_reason \<Rightarrow> nat) \<Rightarrow> json" where
  "rejections_json f =
     JObject (map (\<lambda>r. (reject_reason_string r, JNumber (of_nat (f r))))
       (filter (\<lambda>r. 0 < f r)
          [RejectAllNull, RejectConflictingDuplicate, RejectFuture, RejectNegative, RejectSanityJump,
           RejectUnparseableTs, RejectWrongAnalyzer, RejectWrongKind]))"

definition warnings_json :: "string list \<Rightarrow> json" where
  "warnings_json codes =
     JObject (map (\<lambda>c. (c, JNumber (of_nat (count_list codes c)))) (sortedWarningCodes codes))"

text \<open>\<open>time.MarshalJSON\<close> of a time in UTC.\<close>

definition RFC3339Nano :: "time \<Rightarrow> string" where
  "RFC3339Nano t =
     (let s = wall_sec utc t mod 86400; ns = t mod ns_per_sec;
          digits = rev (dropWhile (\<lambda>c. c = CHR ''0'') (rev (fmt_int 9 ns)))
      in fmt_date (date_in utc t) @ ''T'' @ fmt_int 2 (s div 3600) @ '':'' @ fmt_int 2 (s div 60 mod 60) @ '':'' @
         fmt_int 2 (s mod 60) @ (if ns = 0 then [] else ''.'' @ digits) @ ''Z'')"

definition time_json :: "time \<Rightarrow> json" where "time_json t = JString (RFC3339Nano t)"

definition detail :: "accumulator \<Rightarrow> json" where
  "detail a =
     JObject ((if \<exists>r \<in> {RejectAllNull, RejectConflictingDuplicate, RejectFuture, RejectNegative, RejectSanityJump,
                  RejectUnparseableTs, RejectWrongAnalyzer, RejectWrongKind}. 0 < ac_rejections a r
               then [(''rejections_by_reason'', rejections_json (ac_rejections a))] else []) @
              (if ac_warnings a \<noteq> [] then [(''warnings_by_code'', warnings_json (ac_warnings a))] else []) @
              (case ac_affectedFrom a of None \<Rightarrow> [] | Some t \<Rightarrow> [(''affected_from'', time_json t)]) @
              (case ac_affectedTo a of None \<Rightarrow> [] | Some t \<Rightarrow> [(''affected_to'', time_json t)]) @
              [(''anomalies_created'', JNumber (of_int (ac_anomaliesCreated a)))])"

section \<open>Points and hourly values\<close>

definition meteringPointFromAnalyzer :: "analyzer \<Rightarrow> metering_point" where
  "meteringPointFromAnalyzer a =
     \<lparr>mp_InstallationNumber = an_InstallationNumber a, mp_CustomerName = an_CustomerName a, mp_Address = an_Address a,
      mp_Province = an_Province a, mp_District = an_District a, mp_Neighbourhood = an_Neighbourhood a,
      mp_Street = an_Street a, mp_TariffType = an_TariffType a, mp_TariffKind = an_TariffKind a,
      mp_InstallationKind = an_InstallationKind a, mp_InstalledPowerKw = an_InstalledPowerKw a,
      mp_ContractedPowerKw = None, mp_MeterNumber = an_MeterNumber a, mp_MeterModel = an_MeterModel a,
      mp_MeterMultiplier = Some (an_MeterMultiplier a), mp_CounterpartyNo = an_CounterpartyNo a,
      mp_MeteringPointName = an_MeteringPointName a, mp_EtsoCode = an_EtsoCode a, mp_Latitude = an_Latitude a,
      mp_Longitude = an_Longitude a, mp_DefinitionType = an_DefinitionType a, mp_ProviderHighWater = (\<lambda>_. None)\<rparr>"

definition provider_hour_row :: "uuid \<Rightarrow> integration_provider \<Rightarrow> hourly_value \<Rightarrow> provider_hourly_value" where
  "provider_hour_row a p v =
     \<lparr>ph_AnalyzerID = a, ph_Ts = hv_Ts v, ph_ActiveConsumption = hv_ActiveConsumption v,
      ph_ActiveGeneration = hv_ActiveGeneration v, ph_SourceProvider = p\<rparr>"

text \<open>A repeated instant replaces the row there is, in its place.\<close>

fun hourly_loop :: "uuid \<Rightarrow> integration_provider \<Rightarrow> provider_hourly_value list \<Rightarrow> hourly_value list \<Rightarrow> provider_hourly_value list" where
  "hourly_loop a p out [] = out"
| "hourly_loop a p out (v # vs) =
     (if list_ex (\<lambda>r. ph_Ts r = hv_Ts v) out
      then hourly_loop a p (map (\<lambda>r. if ph_Ts r = hv_Ts v then provider_hour_row a p v else r) out) vs
      else hourly_loop a p (out @ [provider_hour_row a p v]) vs)"

definition convertHourlyValues :: "uuid \<Rightarrow> integration_provider \<Rightarrow> hourly_value list \<Rightarrow> provider_hourly_value list" where
  "convertHourlyValues a p values = hourly_loop a p [] values"

lemma hourly_loop_distinct:
  assumes "distinct (map ph_Ts out)" and "\<forall>r \<in> set out. ph_AnalyzerID r = a"
  shows "distinct (map ph_Ts (hourly_loop a p out vs)) \<and> (\<forall>r \<in> set (hourly_loop a p out vs). ph_AnalyzerID r = a)
       \<and> ph_Ts ` set (hourly_loop a p out vs) = ph_Ts ` set out \<union> hv_Ts ` set vs"
  using assms
proof (induction a p out vs rule: hourly_loop.induct)
  case (2 a p out v vs)
  show ?case
  proof (cases "list_ex (\<lambda>r. ph_Ts r = hv_Ts v) out")
    case True
    let ?out = "map (\<lambda>r. if ph_Ts r = hv_Ts v then provider_hour_row a p v else r) out"
    have ts: "map ph_Ts ?out = map ph_Ts out" by (simp add: provider_hour_row_def)
    then have img: "ph_Ts ` set ?out = ph_Ts ` set out" by (metis list.set_map)
    from True obtain r where r: "r \<in> set out" "ph_Ts r = hv_Ts v" by (auto simp: list_ex_iff)
    then have "hv_Ts v \<in> ph_Ts ` set out" by (simp add: rev_image_eqI)
    then have union: "ph_Ts ` set out \<union> hv_Ts ` set (v # vs) = ph_Ts ` set ?out \<union> hv_Ts ` set vs"
      unfolding img by auto
    have own: "\<forall>r \<in> set ?out. ph_AnalyzerID r = a" using "2.prems"(2) by (auto simp: provider_hour_row_def)
    have "distinct (map ph_Ts ?out)" unfolding ts by (rule "2.prems"(1))
    from "2.IH"(1) [OF True this own] show ?thesis unfolding union using True by simp
  next
    case False
    then have "hv_Ts v \<notin> ph_Ts ` set out" unfolding list_ex_iff by (metis image_iff)
    then show ?thesis using "2.IH"(2) [OF False] "2.prems" False by (auto simp: provider_hour_row_def)
  qed
qed simp

text \<open>So a page never asks \<open>UpsertHourly\<close> for a repeated key, and no hour is lost.\<close>

lemma convertHourlyValues_keys:
  "distinct (map (\<lambda>r. (ph_AnalyzerID r, ph_Ts r)) (convertHourlyValues a p vs)) \<and>
   ph_Ts ` set (convertHourlyValues a p vs) = hv_Ts ` set vs"
proof -
  have "distinct (map ph_Ts (convertHourlyValues a p vs))" and "ph_Ts ` set (convertHourlyValues a p vs) = hv_Ts ` set vs"
    using hourly_loop_distinct [of "[]" a p vs] by (simp_all add: convertHourlyValues_def)
  then show ?thesis by (simp add: distinct_map inj_on_def)
qed

section \<open>The refresh of the aggregates\<close>

definition consumptionRefreshThreshold :: duration where
  "consumptionRefreshThreshold = 29 * 24 * hour"

definition shouldEnqueueConsumptionRefresh :: "bool \<Rightarrow> bool \<Rightarrow> bool \<Rightarrow> time option \<Rightarrow> time \<Rightarrow> bool" where
  "shouldEnqueueConsumptionRefresh hasEnqueuer enabled hasLoadProfile affectedFrom now =
     (case affectedFrom of
        None \<Rightarrow> False
      | Some f \<Rightarrow> hasEnqueuer \<and> enabled \<and> hasLoadProfile \<and> f < now - consumptionRefreshThreshold)"

text \<open>Called with both bounds present.\<close>

definition refreshRangeFor :: "accumulator \<Rightarrow> (time \<times> time) option" where
  "refreshRangeFor a =
     (case (ac_affectedFrom a, ac_affectedTo a) of
        (Some f, Some t) \<Rightarrow> Some (f, t + 1000)
      | _ \<Rightarrow> None)"

end
