(* ===== verification/Ingest_Fetch.thy ===== *)
theory Ingest_Fetch
  imports Ingest_State
begin

text \<open>
  \<open>FetchReadings\<close> of \<open>src/internal/ingest/fetch.go\<close>: the window of a run, its chunks and pages, what a page
  stores, and how a run ends. A run is a composition of steps on \<open>fetch_state\<close> that stop at the first error; every
  error of the page loop ends in \<open>failFetchRun\<close>. The page loop ends because the pages are numbered and
  \<open>MaxPagesPerRun\<close> bounds their number.
\<close>

section \<open>Steps\<close>

record fetch_payload =
  pl_CompanyID :: uuid
  pl_CredentialID :: uuid
  pl_AnalyzerID :: uuid
  pl_Kind :: reading_kind
  pl_Window :: "window option"

text \<open>What does not change during a run.\<close>

record fetch_context =
  cx_world :: ingest_world
  cx_company :: uuid
  cx_kind :: reading_kind
  cx_creds :: credentials
  cx_now :: time
  cx_allow :: bool

text \<open>The local variables: the request's \<open>From\<close> is \<open>rs_from\<close>.\<close>

record fetch_state =
  rs_db :: fetch_db
  rs_acc :: accumulator
  rs_streak :: sanity_streak
  rs_analyzer :: analyzer
  rs_prev :: "meter_reading option"
  rs_history :: "meter_reading list"
  rs_from :: time

abbreviation cx_scope :: "fetch_context \<Rightarrow> scope" where
  "cx_scope C \<equiv> SystemScope (cx_company C)"

type_synonym 'a step = "fetch_state \<Rightarrow> (fetch_error + 'a) \<times> fetch_state"

definition ok :: "'a \<Rightarrow> 's \<Rightarrow> ('e + 'a) \<times> 's" where
  "ok x s = (Inr x, s)"

definition bnd :: "('s \<Rightarrow> ('e + 'a) \<times> 's) \<Rightarrow> ('a \<Rightarrow> 's \<Rightarrow> ('e + 'b) \<times> 's) \<Rightarrow> 's \<Rightarrow> ('e + 'b) \<times> 's" where
  "bnd m f s = (case m s of (Inl e, s') \<Rightarrow> (Inl e, s') | (Inr x, s') \<Rightarrow> f x s')"

definition modify :: "(fetch_state \<Rightarrow> fetch_state) \<Rightarrow> unit step" where
  "modify f s = (Inr (), f s)"

definition reading_state :: "(fetch_state \<Rightarrow> 'a step) \<Rightarrow> 'a step" where
  "reading_state f s = f s s"

text \<open>The same on the database alone, for the hooks.\<close>

definition db_calls :: "ingest_world \<Rightarrow> (fetch_db \<Rightarrow> (store_error + 'a) \<times> fetch_db) \<Rightarrow> fetch_db \<Rightarrow> (fetch_error + 'a) \<times> fetch_db" where
  "db_calls W op d =
     (case repo W op d of (Inl e, d) \<Rightarrow> (Inl (Store_failed e), d) | (Inr x, d) \<Rightarrow> (Inr x, d))"

definition calls :: "fetch_context \<Rightarrow> (fetch_db \<Rightarrow> (store_error + 'a) \<times> fetch_db) \<Rightarrow> 'a step" where
  "calls C op s =
     (case repo (cx_world C) op (rs_db s) of
        (Inl e, d) \<Rightarrow> (Inl (Store_failed e), s\<lparr>rs_db := d\<rparr>)
      | (Inr x, d) \<Rightarrow> (Inr x, s\<lparr>rs_db := d\<rparr>))"

fun each :: "('x \<Rightarrow> unit step) \<Rightarrow> 'x list \<Rightarrow> unit step" where
  "each f [] = ok ()"
| "each f (x # xs) = bnd (f x) (\<lambda>_. each f xs)"

text \<open>Calls whose failure is only logged.\<close>

definition finishRun ::
    "ingest_world \<Rightarrow> scope \<Rightarrow> uuid \<Rightarrow> string \<Rightarrow> int \<Rightarrow> int \<Rightarrow> int \<Rightarrow> string option \<Rightarrow> raw_message \<Rightarrow> time \<Rightarrow> fetch_db \<Rightarrow> fetch_db" where
  "finishRun W sc i status processed skipped failed errText det now d =
     snd (repo W (FinishRun sc i status processed skipped failed errText det now) d)"

definition appendMessage ::
    "ingest_world \<Rightarrow> scope \<Rightarrow> uuid \<Rightarrow> string \<Rightarrow> string \<Rightarrow> string \<Rightarrow> string \<Rightarrow> raw_message \<Rightarrow> fetch_db \<Rightarrow> fetch_db" where
  "appendMessage W sc company knd category status message metadata d =
     snd (repo W (append_message W sc
       \<lparr>om_ID = 0, om_CompanyID = Some company, om_Kind = knd, om_Category = category, om_Status = status,
        om_Message = message, om_Detail = None, om_RelatedType = None, om_RelatedID = None, om_Metadata = metadata,
        om_CreatedAt = zero_time\<rparr>) d)"

abbreviation message_of_run :: "fetch_context \<Rightarrow> string \<Rightarrow> string \<Rightarrow> raw_message \<Rightarrow> fetch_db \<Rightarrow> fetch_db" where
  "message_of_run C status message metadata \<equiv>
     appendMessage (cx_world C) (cx_scope C) (cx_company C) ''job'' ''analyzer-refresh'' status message metadata"

section \<open>One page\<close>

definition load_evidence :: "fetch_context \<Rightarrow> window \<Rightarrow> unit step" where
  "load_evidence C chunk = reading_state (\<lambda>s.
     let a = an_ID (rs_analyzer s); sc = cx_scope C; k = cx_kind C
     in bnd (calls C (read_readings (\<lambda>r. Latest r sc a \<lparr>tr_From = From chunk - 35 * 24 * hour, tr_To = From chunk\<rparr> k)))
          (\<lambda>prev. bnd (calls C (read_readings (\<lambda>r. Range_readings r sc a \<lparr>tr_From = From chunk - 7 * 24 * hour, tr_To = From chunk\<rparr> k)))
          (\<lambda>history. modify (\<lambda>s. s\<lparr>rs_prev := prev, rs_history := history\<rparr>))))"

definition request_of :: "fetch_context \<Rightarrow> window \<Rightarrow> fetch_state \<Rightarrow> fetch_request" where
  "request_of C chunk s =
     \<lparr>rq_Point = meteringPointFromAnalyzer (rs_analyzer s), rq_AnalyzerID = an_ID (rs_analyzer s),
      rq_Multiplier = an_MeterMultiplier (rs_analyzer s), rq_Kind = cx_kind C, rq_From = rs_from s, rq_To = To chunk\<rparr>"

definition send :: "fetch_context \<Rightarrow> window \<Rightarrow> fetch_result step" where
  "send C chunk s =
     (let rq = request_of C chunk s; d = rs_db s; s' = s\<lparr>rs_db := d\<lparr>fd_requests := fd_requests d @ [rq]\<rparr>\<rparr>
      in case iw_answer (cx_world C) (length (fd_requests d)) rq of
           Inl e \<Rightarrow> (Inl (Source_failed e), s')
         | Inr res \<Rightarrow> (Inr res, s'))"

text \<open>The rows of the answer that may be stored; the others are counted.\<close>

definition check_page :: "fetch_context \<Rightarrow> fetch_result \<Rightarrow> meter_reading list step" where
  "check_page C res s =
     (let W = cx_world C; a = an_ID (rs_analyzer s);
          (kept, dedupeRejected) = Dedupe (fr_Readings res);
          (attributed, attributionRejected) = filterAttribution a (cx_kind C) kept;
          (valid, validateRejected, streak) =
             Validate_readings (iw_lib W) (rs_prev s) (rs_history s) attributed (cx_now C) (iw_opts W) (rs_streak s);
          (realRejected, sanityFlags) = partitionSanityFlags validateRejected;
          acc = addWarnings (fr_Warnings res) (addRejections realRejected
                  (addRejections attributionRejected (addRejections dedupeRejected (rs_acc s))));
          d = fold (\<lambda>f. message_of_run C ''error'' (''sustained register jump '' @ [CHR 0xE2, CHR 0x80, CHR 0x94] @ '' review'')
                 (Some (JObject [(''analyzer_id'', JString (iw_uuid_string W a)),
                                 (''kind'', JString (reading_kind_string (cx_kind C))),
                                 (''ts'', time_json (rj_Ts f))]))) sanityFlags (rs_db s)
      in (Inr valid, s\<lparr>rs_streak := streak, rs_acc := acc, rs_db := d\<rparr>))"

definition run_hook :: "fetch_context \<Rightarrow> time \<Rightarrow> time \<Rightarrow> fetch_hook \<Rightarrow> unit step" where
  "run_hook C lo hi h s =
     (case h (cx_scope C) (rs_analyzer s) (cx_kind C) lo hi (rs_db s) of (r, d) \<Rightarrow> (r, s\<lparr>rs_db := d\<rparr>))"

definition same_delta :: "negative_delta_at \<Rightarrow> consumption_anomaly \<Rightarrow> bool" where
  "same_delta nd an \<longleftrightarrow>
     ca_PeriodStart an = nd_PrevTs nd \<and> ca_PeriodEnd an = nd_CurTs nd \<and>
     (case unmarshal_strings [''register''] (ca_Detail an) of None \<Rightarrow> False | Some f \<Rightarrow> f ''register'' = nd_Register nd)"

definition negativeDeltaAnomalyExists :: "fetch_context \<Rightarrow> uuid \<Rightarrow> negative_delta_at \<Rightarrow> bool step" where
  "negativeDeltaAnomalyExists C a nd =
     bnd (calls C (list_anomalies (cx_scope C)
            \<lparr>af_AnalyzerIDs = [a], af_Unresolved = False, af_Reason = Some ''negative_delta'',
             af_Range = Some \<lparr>tr_From = nd_PrevTs nd, tr_To = nd_CurTs nd + 1\<rparr>, af_Page = \<lparr>pg_Limit = 0, pg_Offset = 0\<rparr>\<rparr>))
       (\<lambda>anomalies. ok (list_ex (same_delta nd) anomalies))"

definition record_delta :: "fetch_context \<Rightarrow> uuid \<Rightarrow> negative_delta_at \<Rightarrow> unit step" where
  "record_delta C a nd =
     bnd (negativeDeltaAnomalyExists C a nd) (\<lambda>exists.
       if exists then ok ()
       else bnd (calls C (create_anomaly (cx_world C) (cx_scope C)
              \<lparr>ca_ID = uuid_Nil, ca_AnalyzerID = a, ca_PeriodStart = nd_PrevTs nd, ca_PeriodEnd = nd_CurTs nd,
               ca_Reason = ''negative_delta'',
               ca_Detail = Some (JObject [(''kind'', JString (reading_kind_string (cx_kind C))),
                                          (''register'', JString (nd_Register nd))]),
               ca_ResolvedAt = None, ca_ResolvedBy = None, ca_Resolution = None, ca_OverrideValues = None,
               ca_CreatedAt = zero_time\<rparr>))
         (\<lambda>_. modify (\<lambda>s. s\<lparr>rs_acc := (rs_acc s)\<lparr>ac_anomaliesCreated := ac_anomaliesCreated (rs_acc s) + 1\<rparr>\<rparr>)))"

definition advance_cursor :: "fetch_context \<Rightarrow> uuid \<Rightarrow> time \<Rightarrow> unit step" where
  "advance_cursor C a kindMaxTs =
     (if cx_allow C
      then bnd (calls C (record_success (cx_scope C) a (cx_kind C) kindMaxTs (cx_now C)))
             (\<lambda>_. calls C (touch_last_reading (cx_scope C) a kindMaxTs))
      else ok ())"

text \<open>The rows of the requested kind: deltas, cursor, and the reading before the next page.\<close>

definition follow_kind_rows :: "fetch_context \<Rightarrow> meter_reading list \<Rightarrow> meter_reading list \<Rightarrow> unit step" where
  "follow_kind_rows C valid kindRows = reading_state (\<lambda>s.
     let a = an_ID (rs_analyzer s)
     in case readingTsBounds kindRows of
          None \<Rightarrow> ok ()
        | Some (kindMinTs, kindMaxTs) \<Rightarrow>
            bnd (calls C (read_readings (\<lambda>r. Range_readings r (cx_scope C) a
                  \<lparr>tr_From = kindMinTs, tr_To = kindMaxTs + 1000\<rparr> ReadingKindReset))) (\<lambda>rangeResets.
            bnd (each (record_delta C a)
                  (DetectNegativeDeltas (rs_prev s) kindRows (readingsOfKind valid ReadingKindReset @ rangeResets))) (\<lambda>_.
            bnd (advance_cursor C a kindMaxTs) (\<lambda>_.
            modify (\<lambda>s. s\<lparr>rs_prev := Some (last kindRows)\<rparr>)))))"

definition store_hourly :: "fetch_context \<Rightarrow> fetch_result \<Rightarrow> unit step" where
  "store_hourly C res = reading_state (\<lambda>s.
     let hourly = convertHourlyValues (an_ID (rs_analyzer s)) (an_Provider (rs_analyzer s)) (fr_HourlyValues res)
     in if hourly = [] then ok ()
        else bnd (calls C (UpsertHourly (cx_world C) (cx_scope C) hourly)) (\<lambda>_. ok ()))"

text \<open>A failure here is logged, and the run goes on with the multiplier it has.\<close>

definition update_multiplier :: "fetch_context \<Rightarrow> fetch_result \<Rightarrow> unit step" where
  "update_multiplier C res s =
     (Inr (), case fr_ResolvedMultiplier res of
        None \<Rightarrow> s
      | Some rm \<Rightarrow>
          if \<not> rm_ProviderResolved rm \<or> rm_Value rm = an_MeterMultiplier (rs_analyzer s) then s
          else case repo (cx_world C) (Get_analyzer (cx_scope C) (an_ID (rs_analyzer s))) (rs_db s) of
            (Inl _, d) \<Rightarrow> s\<lparr>rs_db := d\<rparr>
          | (Inr fresh, d) \<Rightarrow>
              (case repo (cx_world C) (Update_analyzer (cx_world C) (cx_scope C)
                       (fresh\<lparr>an_MeterMultiplier := rm_Value rm, an_UpdatedAt := cx_now C\<rparr>)) d of
                 (Inl _, d) \<Rightarrow> s\<lparr>rs_db := d\<rparr>
               | (Inr newA, d) \<Rightarrow>
                   s\<lparr>rs_analyzer := newA,
                     rs_db := message_of_run C ''warning'' ''meter multiplier changed''
                       (Some (JObject [(''analyzer_id'', JString (iw_uuid_string (cx_world C) (an_ID newA))),
                                       (''multiplier'', JString (DecString (iw_lib (cx_world C)) (an_MeterMultiplier newA)))])) d\<rparr>))"

definition persist_page :: "fetch_context \<Rightarrow> fetch_result \<Rightarrow> meter_reading list \<Rightarrow> unit step" where
  "persist_page C res valid =
     (case readingTsBounds valid of
        None \<Rightarrow> ok ()
      | Some (pageMinTs, pageMaxTs) \<Rightarrow>
          bnd (calls C (bulk_insert (cx_world C) (cx_scope C) valid)) (\<lambda>(inserted, updated).
          bnd (modify (\<lambda>s. s\<lparr>rs_acc := touchAffected pageMinTs pageMaxTs
                  ((rs_acc s)\<lparr>ac_processed := ac_processed (rs_acc s) + int (inserted + updated)\<rparr>)\<rparr>)) (\<lambda>_.
          bnd (reading_state (\<lambda>s. each (run_hook C pageMinTs pageMaxTs)
                  (iw_hooks (cx_world C) (an_Provider (rs_analyzer s))))) (\<lambda>_.
          let kindRows = readingsOfKind valid (cx_kind C)
          in bnd (modify (\<lambda>s. s\<lparr>rs_acc := noteLoadProfilePersisted (cx_kind C) (length kindRows) (rs_acc s)\<rparr>)) (\<lambda>_.
             bnd (follow_kind_rows C valid kindRows) (\<lambda>_.
             bnd (store_hourly C res) (\<lambda>_.
             update_multiplier C res)))))))"

definition bad_cursor :: "fetch_context \<Rightarrow> fetch_error" where
  "bad_cursor C =
     Source_failed (Integration_Error (Sentinel ErrMalformedPayload) (provider_string (cr_Provider (cx_creds C)))
       ''fetch_readings.next_cursor'' 0 0)"

text \<open>Whether there is another page.\<close>

definition next_page :: "fetch_context \<Rightarrow> fetch_result \<Rightarrow> bool step" where
  "next_page C res s =
     (case fr_NextCursor res of
        None \<Rightarrow> (Inr False, s)
      | Some t \<Rightarrow> if \<not> rs_from s < t then (Inl (bad_cursor C), s) else (Inr True, s\<lparr>rs_from := t\<rparr>))"

definition fetch_page :: "fetch_context \<Rightarrow> window \<Rightarrow> bool \<Rightarrow> bool step" where
  "fetch_page C chunk loaded =
     bnd (if loaded then ok () else load_evidence C chunk) (\<lambda>_.
     bnd (send C chunk) (\<lambda>res.
     bnd (check_page C res) (\<lambda>valid.
     bnd (persist_page C res valid) (\<lambda>_.
     next_page C res))))"

section \<open>Pages and chunks\<close>

text \<open>\<open>pages\<close> counts the pages of the run so far.\<close>

function chunk_pages :: "fetch_context \<Rightarrow> window \<Rightarrow> bool \<Rightarrow> nat \<Rightarrow> nat step" where
  "chunk_pages C chunk loaded pages s =
     (if io_MaxPagesPerRun (iw_opts (cx_world C)) < int pages + 1
      then (Inl (Page_limit (io_MaxPagesPerRun (iw_opts (cx_world C)))), s)
      else case fetch_page C chunk loaded s of
        (Inl e, s') \<Rightarrow> (Inl e, s')
      | (Inr again, s') \<Rightarrow>
          if again then chunk_pages C chunk True (pages + 1) s' else (Inr (pages + 1), s'))"
  by auto
termination
  by (relation "measure (\<lambda>(C, chunk, loaded, pages, s). nat (io_MaxPagesPerRun (iw_opts (cx_world C)) - int pages))") auto

declare chunk_pages.simps [simp del]

definition open_chunk :: "window \<Rightarrow> fetch_state \<Rightarrow> fetch_state" where
  "open_chunk chunk s = s\<lparr>rs_prev := None, rs_history := [], rs_from := From chunk\<rparr>"

fun all_chunks :: "fetch_context \<Rightarrow> window list \<Rightarrow> nat \<Rightarrow> nat step" where
  "all_chunks C [] pages s = (Inr pages, s)"
| "all_chunks C (chunk # chunks) pages s =
     (case chunk_pages C chunk False pages (open_chunk chunk s) of
        (Inl e, s') \<Rightarrow> (Inl e, s')
      | (Inr pages', s') \<Rightarrow> all_chunks C chunks pages' s')"

section \<open>A run\<close>

definition resolveFetchWindow ::
    "ingest_world \<Rightarrow> scope \<Rightarrow> fetch_payload \<Rightarrow> time \<Rightarrow> fetch_db \<Rightarrow> (store_error + time \<times> time \<times> bool) \<times> fetch_db" where
  "resolveFetchWindow W sc p now d =
     (case repo W (get_cursor sc (pl_AnalyzerID p) (pl_Kind p)) d of (cur, d') \<Rightarrow>
        (case pl_Window p of
           Some w \<Rightarrow>
             (case cur of
                Inr c \<Rightarrow> (case ic_LastTs c of Some t \<Rightarrow> Inr (From w, To w, \<not> t < From w) | None \<Rightarrow> Inr (From w, To w, False))
              | Inl e \<Rightarrow> if e = Store_Scope.ErrNotFound then Inr (From w, To w, False) else Inl e)
         | None \<Rightarrow>
             (case cur of
                Inr c \<Rightarrow> (case ic_LastTs c of Some t \<Rightarrow> Inr (t, now, True)
                           | None \<Rightarrow> Inr (now - io_InitialLookback (iw_opts W), now, True))
              | Inl e \<Rightarrow> if e = Store_Scope.ErrNotFound
                         then Inr (now - io_InitialLookback (iw_opts W), now, True) else Inl e), d'))"

definition maybeEnqueueConsumptionRefresh :: "fetch_context \<Rightarrow> uuid \<Rightarrow> accumulator \<Rightarrow> fetch_db \<Rightarrow> fetch_db" where
  "maybeEnqueueConsumptionRefresh C a acc d =
     (let W = cx_world C
      in if \<not> shouldEnqueueConsumptionRefresh (iw_enqueuer W \<noteq> None) (iw_refresh_enabled W) (ac_hasLoadProfile acc)
              (ac_affectedFrom acc) (cx_now C) then d
         else case (iw_enqueuer W, refreshRangeFor acc) of
           (Some enqueue, Some (f, t)) \<Rightarrow>
             (let rp = \<lparr>rp_CompanyID = cx_company C, rp_AnalyzerID = a, rp_From = f, rp_To = t\<rparr>
              in case enqueue d rp of
                   None \<Rightarrow> d\<lparr>fd_refreshes := fd_refreshes d @ [rp]\<rparr>
                 | Some err \<Rightarrow> message_of_run C ''warning'' ''consumption.refresh enqueue failed''
                                 (Some (JObject [(''error'', JString err)])) d)
         | _ \<Rightarrow> d)"

definition shown :: "ingest_world \<Rightarrow> credentials \<Rightarrow> fetch_error \<Rightarrow> string" where
  "shown W creds e = redacted (cr_Secrets creds) (Some (iw_error_text W e))"

definition failFetchRun :: "fetch_context \<Rightarrow> uuid \<Rightarrow> fetch_error \<Rightarrow> fetch_state \<Rightarrow> fetch_error option \<times> fetch_db" where
  "failFetchRun C run cause s =
     (let W = cx_world C; a = an_ID (rs_analyzer s); acc = rs_acc s; errText = shown W (cx_creds C) cause;
          d = snd (repo W (record_failure (cx_scope C) a (cx_kind C) errText (cx_now C)) (rs_db s));
          d = finishRun W (cx_scope C) run (fetchRunStatus 1 (0 < ac_processed acc)) (ac_processed acc) (ac_skipped acc) 1
                (Some errText) (Some (detail acc)) (cx_now C) d;
          d = message_of_run C ''error'' errText None d
      in (Some (Redacted errText cause), maybeEnqueueConsumptionRefresh C a acc d))"

definition finish_run :: "fetch_context \<Rightarrow> uuid \<Rightarrow> fetch_state \<Rightarrow> fetch_error option \<times> fetch_db" where
  "finish_run C run s =
     (let W = cx_world C; acc = rs_acc s;
          d = finishRun W (cx_scope C) run (fetchRunStatus 0 (0 < ac_processed acc)) (ac_processed acc) (ac_skipped acc) 0
                None (Some (detail acc)) (cx_now C) (rs_db s);
          d = (if 0 < ac_skipped acc
               then message_of_run C ''warning'' (itoa (ac_skipped acc) @ '' readings rejected'')
                      (Some (rejections_json (ac_rejections acc))) d
               else d);
          d = fold (\<lambda>code. message_of_run C ''warning'' code
                      (Some (JObject [(''count'', JNumber (of_nat (count_list (ac_warnings acc) code)))])))
                (sortedWarningCodes (ac_warnings acc)) d
      in (None, maybeEnqueueConsumptionRefresh C (an_ID (rs_analyzer s)) acc d))"

fun classifyStoreErr :: "fetch_error \<Rightarrow> fetch_error" where
  "classifyStoreErr (Store_failed e) =
     (if e = Store_Scope.ErrNotFound \<or> e = ErrInvalidScope then Skip_retry (Store_failed e) else Store_failed e)"
| "classifyStoreErr e = e"

definition start_error :: "fetch_context \<Rightarrow> fault \<Rightarrow> string \<Rightarrow> fetch_error" where
  "start_error C k op =
     Source_failed (Integration_Error (Sentinel k) (provider_string (cr_Provider (cx_creds C))) op 0 0)"

text \<open>Once the analyzer and the credentials are known to fit: the window, the chunks, the end.\<close>

definition fetch_window :: "fetch_context \<Rightarrow> fetch_payload \<Rightarrow> uuid \<Rightarrow> analyzer \<Rightarrow> fetch_db \<Rightarrow> (fetch_error option \<times> fetch_db) option" where
  "fetch_window C p run an d =
     (let W = cx_world C; sc = cx_scope C; acc = newFetchAccumulator
      in case resolveFetchWindow W sc p (cx_now C) d of
        (Inl e, d) \<Rightarrow>
          Some (Some (Store_failed e),
                finishRun W sc run ''failed'' (ac_processed acc) (ac_skipped acc) 1
                  (Some (iw_error_text W (Store_failed e))) (Some (detail acc)) (cx_now C) d)
      | (Inr (f, t, allow), d) \<Rightarrow>
          map_option (\<lambda>chunks.
            if chunks = []
            then (None, finishRun W sc run ''success'' 0 0 0 None (Some (detail acc)) (cx_now C) d)
            else let C = C\<lparr>cx_allow := allow\<rparr>
                 in case all_chunks C chunks 0
                      \<lparr>rs_db = d, rs_acc = acc, rs_streak = new_streak, rs_analyzer = an, rs_prev = None,
                       rs_history = [], rs_from = f\<rparr> of
                      (Inl cause, s) \<Rightarrow> failFetchRun C run cause s
                    | (Inr _, s) \<Rightarrow> finish_run C run s)
          (Chunk (iw_location W) f t (iw_max_window W (cr_Provider (cx_creds C)) (cx_kind C))))"

text \<open>A run that ends before its window is known.\<close>

definition refuse ::
    "ingest_world \<Rightarrow> scope \<Rightarrow> uuid \<Rightarrow> time \<Rightarrow> string \<Rightarrow> fetch_error \<Rightarrow> fetch_db \<Rightarrow> fetch_error option \<times> fetch_db" where
  "refuse W sc run now errText e d =
     (Some e, finishRun W sc run ''failed'' 0 0 1 (Some errText) None now d)"

text \<open>The checks of the credentials against the analyzer.\<close>

definition fetch_checked :: "fetch_context \<Rightarrow> fetch_payload \<Rightarrow> uuid \<Rightarrow> analyzer \<Rightarrow> fetch_db \<Rightarrow> (fetch_error option \<times> fetch_db) option" where
  "fetch_checked C p run an d =
     (let W = cx_world C; creds = cx_creds C;
          stop = (\<lambda>e. refuse W (cx_scope C) run (cx_now C) (shown W creds e) (Redacted (shown W creds e) e) d);
          inactive = start_error C ErrConfig ''fetch_readings.credential_inactive''
      in if \<not> cr_IsActive creds
         then Some (fst (stop inactive), message_of_run C ''error'' (shown W creds inactive) None (snd (stop inactive)))
         else case iw_source W (cr_Provider creds) of
           Some e \<Rightarrow> Some (stop (Source_failed e))
         | None \<Rightarrow>
             if ModelProvider (cr_Provider creds) \<noteq> Some (an_Provider an)
             then Some (stop (start_error C ErrMalformedPayload ''fetch_readings.provider_mismatch''))
             else if an_ProviderSubtype an \<noteq> cr_Subtype creds
             then Some (stop (start_error C ErrConfig ''fetch_readings.subtype_mismatch''))
             else fetch_window C p run an d)"

definition fetch_started ::
    "ingest_world \<Rightarrow> time \<Rightarrow> fetch_payload \<Rightarrow> uuid \<Rightarrow> fetch_db \<Rightarrow> (fetch_error option \<times> fetch_db) option" where
  "fetch_started W now p run d =
     (let sc = SystemScope (pl_CompanyID p); company = pl_CompanyID p
      in case repo W (Get_analyzer sc (pl_AnalyzerID p)) d of
        (Inl e, d) \<Rightarrow>
          Some (refuse W sc run now (iw_error_text W (Store_failed e)) (classifyStoreErr (Store_failed e)) d)
      | (Inr an, d) \<Rightarrow>
          if \<not> an_IsActive an \<or> an_DeletedAt an \<noteq> None
          then Some (None, appendMessage W sc company ''job'' ''analyzer-refresh'' ''info'' ''analyzer inactive'' None
                 (finishRun W sc run ''success'' 0 1 0 None None now d))
          else case iw_credentials W d (pl_CredentialID p) of
            Inl e \<Rightarrow> Some (refuse W sc run now (iw_error_text W e) (classifyStoreErr e) d)
          | Inr creds \<Rightarrow>
              fetch_checked \<lparr>cx_world = W, cx_company = company, cx_kind = pl_Kind p, cx_creds = creds, cx_now = now,
                 cx_allow = False\<rparr> p run an d)"

definition run_row :: "ingest_world \<Rightarrow> fetch_payload \<Rightarrow> fetch_db \<Rightarrow> job_run" where
  "run_row W p d =
     \<lparr>jr_ID = iw_new_id W d, jr_CompanyID = Some (pl_CompanyID p), jr_JobType = ''integration.fetch_readings'',
      jr_Scope = Some (JObject ([(''analyzer_id'', JString (iw_uuid_string W (pl_AnalyzerID p))),
                                 (''kind'', JString (reading_kind_string (pl_Kind p)))] @
                 (case pl_Window p of None \<Rightarrow> []
                  | Some w \<Rightarrow> [(''window'', JObject [(''from'', time_json (From w)), (''to'', time_json (To w))])]))),
      jr_Status = [], jr_Processed = 0, jr_Skipped = 0, jr_Failed = 0, jr_Error = None, jr_Detail = None,
      jr_FinishedAt = None\<rparr>"

definition FetchReadings ::
    "ingest_world \<Rightarrow> time \<Rightarrow> fetch_payload \<Rightarrow> fetch_db \<Rightarrow> (fetch_error option \<times> fetch_db) option" where
  "FetchReadings W now p d =
     (case repo W (StartRun (SystemScope (pl_CompanyID p)) (run_row W p d)) d of
        (Inl e, d) \<Rightarrow> Some (Some (Store_failed e), d)
      | (Inr run, d) \<Rightarrow> fetch_started W now p (jr_ID run) d)"

section \<open>Who changes the streak\<close>

text \<open>Only the validation of a page changes the streak; every other step of a page hands it on, so a page is validated with the
  streak the page before it returned.\<close>

definition keeps_streak :: "'a step \<Rightarrow> bool" where
  "keeps_streak m \<longleftrightarrow> (\<forall>s. rs_streak (snd (m s)) = rs_streak s)"

named_theorems streak

lemma keeps_streak_ok [streak]: "keeps_streak (ok x)"
  by (simp add: keeps_streak_def ok_def)

lemma keeps_streak_bnd [streak]: "keeps_streak m \<Longrightarrow> (\<And>x. keeps_streak (f x)) \<Longrightarrow> keeps_streak (bnd m f)"
  by (auto simp: keeps_streak_def bnd_def split: prod.split sum.split) (metis snd_conv)+

lemma keeps_streak_modify [streak]: "(\<And>s. rs_streak (f s) = rs_streak s) \<Longrightarrow> keeps_streak (modify f)"
  by (simp add: keeps_streak_def modify_def)

lemma keeps_streak_reading_state [streak]: "(\<And>s. keeps_streak (f s)) \<Longrightarrow> keeps_streak (reading_state f)"
  by (simp add: keeps_streak_def reading_state_def)

lemma keeps_streak_calls [streak]: "keeps_streak (calls C op)"
  by (simp add: keeps_streak_def calls_def split: prod.split sum.split)

lemma keeps_streak_each [streak]: "(\<And>x. keeps_streak (f x)) \<Longrightarrow> keeps_streak (each f xs)"
  by (induction xs) (simp_all add: streak)

lemma keeps_streak_hook [streak]: "keeps_streak (run_hook C lo hi h)"
  by (simp add: keeps_streak_def run_hook_def split: prod.split)

lemma keeps_streak_send [streak]: "keeps_streak (send C chunk)"
  by (simp add: keeps_streak_def send_def Let_def split: sum.split)

lemma keeps_streak_load [streak]: "keeps_streak (load_evidence C chunk)"
  unfolding load_evidence_def Let_def by (intro streak) simp

lemma keeps_streak_delta [streak]: "keeps_streak (record_delta C a nd)"
  unfolding record_delta_def negativeDeltaAnomalyExists_def by (auto intro!: streak)

lemma keeps_streak_follow [streak]: "keeps_streak (follow_kind_rows C valid kindRows)"
  unfolding follow_kind_rows_def Let_def advance_cursor_def by (intro streak) (auto intro!: streak split: option.split)

lemma keeps_streak_hourly [streak]: "keeps_streak (store_hourly C res)"
  unfolding store_hourly_def Let_def by (auto intro!: streak)

lemma keeps_streak_multiplier [streak]: "keeps_streak (update_multiplier C res)"
  by (auto simp: keeps_streak_def update_multiplier_def split: option.split prod.split sum.split)

lemma keeps_streak_persist [streak]: "keeps_streak (persist_page C res valid)"
  unfolding persist_page_def Let_def by (auto intro!: streak split: option.split)

lemma keeps_streak_next [streak]: "keeps_streak (next_page C res)"
  by (simp add: keeps_streak_def next_page_def split: option.split)

lemma fetch_page_streak:
  assumes "fetch_page C chunk loaded s = (Inr again, s')"
  shows "\<exists>s0 res s1 valid s2. (if loaded then ok () else load_evidence C chunk) s = (Inr (), s0) \<and> send C chunk s0 = (Inr res, s1) \<and>
    rs_streak s1 = rs_streak s \<and> check_page C res s1 = (Inr valid, s2) \<and> rs_streak s' = rs_streak s2"
proof -
  define m where "m = (if loaded then ok () else load_evidence C chunk)"
  have k: "keeps_streak m" by (simp add: m_def streak)
  from assms obtain s0 res s1 valid s2 where st: "m s = (Inr (), s0)" "send C chunk s0 = (Inr res, s1)"
      "check_page C res s1 = (Inr valid, s2)" "bnd (persist_page C res valid) (\<lambda>_. next_page C res) s2 = (Inr again, s')"
    unfolding fetch_page_def m_def [symmetric] by (auto simp: bnd_def split: prod.splits sum.splits)
  have "rs_streak s1 = rs_streak s"
    using k keeps_streak_send [of C chunk] st(1,2) unfolding keeps_streak_def by (metis snd_conv)
  moreover have "keeps_streak (bnd (persist_page C res valid) (\<lambda>_. next_page C res))" by (intro streak)
  then have "rs_streak s' = rs_streak s2" using st(4) unfolding keeps_streak_def by (metis snd_conv)
  ultimately show ?thesis using st unfolding m_def by blast
qed

end
