(* ===== verification/Ingest_Run.thy ===== *)
theory Ingest_Run
  imports Ingest_Fetch
begin

text \<open>
  What a run of \<open>FetchReadings\<close> may do to the tables, and what it keeps. \<open>grows\<close> relates the state before and
  after any part of a run; \<open>keeps\<close> says of a step that it stays within that relation, and composes along \<open>bnd\<close>.
\<close>

section \<open>The relation\<close>

abbreviation stored_at :: "fetch_db \<Rightarrow> reading_key \<Rightarrow> reading_row option" where
  "stored_at d key \<equiv> row_at (db_readings (fd_db d)) key"

definition mark :: "fetch_db \<Rightarrow> uuid \<Rightarrow> reading_kind \<Rightarrow> time option" where
  "mark d a k = mark_of (fd_cursors d) a k"

abbreviation analyzer_ids :: "fetch_db \<Rightarrow> uuid list" where
  "analyzer_ids d \<equiv> map aw_id (db_analyzers (fd_db d))"

text \<open>Rows appear and change only under the keys of the analyzer, of the kind asked for or resets; none is lost.\<close>

definition rows_grow :: "uuid \<Rightarrow> reading_kind \<Rightarrow> fetch_db \<Rightarrow> fetch_db \<Rightarrow> bool" where
  "rows_grow a k d d' \<longleftrightarrow>
     (\<forall>key. stored_at d' key = stored_at d key \<or>
        fst key = a \<and> (snd (snd key) = k \<or> snd (snd key) = ReadingKindReset) \<and> stored_at d' key \<noteq> None)"

text \<open>A mark moves only when it is allowed to, only this one, forward, and to the instant of a row of its kind.\<close>

definition marks_follow :: "uuid \<Rightarrow> reading_kind \<Rightarrow> bool \<Rightarrow> fetch_db \<Rightarrow> fetch_db \<Rightarrow> bool" where
  "marks_follow a k allow d d' \<longleftrightarrow>
     (\<forall>a' k'. mark d' a' k' = mark d a' k' \<or>
        allow \<and> a' = a \<and> k' = k \<and>
        (\<exists>t. mark d' a k = Some (t * 1000) \<and> (\<forall>t0. mark d a k = Some t0 \<longrightarrow> t0 \<le> t * 1000) \<and> stored_at d' (a, t, k) \<noteq> None))"

definition asks :: "uuid \<Rightarrow> reading_kind \<Rightarrow> nat \<Rightarrow> fetch_db \<Rightarrow> fetch_db \<Rightarrow> bool" where
  "asks a k n d d' \<longleftrightarrow>
     (\<exists>new. fd_requests d' = fd_requests d @ new \<and> length new \<le> n \<and> (\<forall>rq \<in> set new. rq_AnalyzerID rq = a \<and> rq_Kind rq = k))"

definition grows :: "uuid \<Rightarrow> reading_kind \<Rightarrow> bool \<Rightarrow> nat \<Rightarrow> fetch_db \<Rightarrow> fetch_db \<Rightarrow> bool" where
  "grows a k allow n d d' \<longleftrightarrow>
     rows_grow a k d d' \<and> marks_follow a k allow d d' \<and> asks a k n d d' \<and> analyzer_ids d' = analyzer_ids d"

lemma rows_grow_stored: "rows_grow a k d d' \<Longrightarrow> stored_at d key \<noteq> None \<Longrightarrow> stored_at d' key \<noteq> None"
  by (metis rows_grow_def)

lemma rows_grow_trans: "rows_grow a k d1 d2 \<Longrightarrow> rows_grow a k d2 d3 \<Longrightarrow> rows_grow a k d1 d3"
  unfolding rows_grow_def by metis

lemma marks_follow_trans:
  assumes "marks_follow a k allow d1 d2" and "marks_follow a k allow d2 d3" and "rows_grow a k d2 d3"
  shows "marks_follow a k allow d1 d3"
  unfolding marks_follow_def
proof (intro allI)
  fix a' k'
  show "mark d3 a' k' = mark d1 a' k' \<or> allow \<and> a' = a \<and> k' = k \<and>
      (\<exists>t. mark d3 a k = Some (t * 1000) \<and> (\<forall>t0. mark d1 a k = Some t0 \<longrightarrow> t0 \<le> t * 1000) \<and> stored_at d3 (a, t, k) \<noteq> None)"
  proof (cases "mark d2 a' k' = mark d1 a' k'")
    case True
    with assms(2) show ?thesis unfolding marks_follow_def by metis
  next
    case False
    with assms(1) obtain t where t: "allow" "a' = a" "k' = k" "mark d2 a k = Some (t * 1000)"
      "\<forall>t0. mark d1 a k = Some t0 \<longrightarrow> t0 \<le> t * 1000" "stored_at d2 (a, t, k) \<noteq> None"
      unfolding marks_follow_def by metis
    show ?thesis
    proof (cases "mark d3 a k = mark d2 a k")
      case True
      with t rows_grow_stored [OF assms(3) t(6)] show ?thesis by auto
    next
      case False
      with assms(2) obtain u where "mark d3 a k = Some (u * 1000)"
        "\<forall>t0. mark d2 a k = Some t0 \<longrightarrow> t0 \<le> u * 1000" "stored_at d3 (a, u, k) \<noteq> None"
        unfolding marks_follow_def by metis
      with t show ?thesis by fastforce
    qed
  qed
qed

lemma asks_trans: "asks a k n d1 d2 \<Longrightarrow> asks a k m d2 d3 \<Longrightarrow> asks a k (n + m) d1 d3"
proof -
  assume "asks a k n d1 d2" and "asks a k m d2 d3"
  then obtain xs ys where xs: "fd_requests d2 = fd_requests d1 @ xs" "length xs \<le> n" "\<forall>rq \<in> set xs. rq_AnalyzerID rq = a \<and> rq_Kind rq = k"
    and ys: "fd_requests d3 = fd_requests d2 @ ys" "length ys \<le> m" "\<forall>rq \<in> set ys. rq_AnalyzerID rq = a \<and> rq_Kind rq = k"
    unfolding asks_def by blast
  then show ?thesis unfolding asks_def by (intro exI [of _ "xs @ ys"]) auto
qed

lemma grows_trans: "grows a k allow n d1 d2 \<Longrightarrow> grows a k allow m d2 d3 \<Longrightarrow> grows a k allow (n + m) d1 d3"
  unfolding grows_def using rows_grow_trans marks_follow_trans asks_trans by metis

lemma grows_mono: "grows a k allow n d d' \<Longrightarrow> n \<le> m \<Longrightarrow> grows a k allow m d d'"
  unfolding grows_def asks_def by fastforce

text \<open>What touches none of the four.\<close>

definition quiet :: "fetch_db \<Rightarrow> fetch_db \<Rightarrow> bool" where
  "quiet d d' \<longleftrightarrow>
     db_readings (fd_db d') = db_readings (fd_db d) \<and> mark d' = mark d \<and> fd_requests d' = fd_requests d \<and>
     analyzer_ids d' = analyzer_ids d"

lemma quiet_grows: "quiet d d' \<Longrightarrow> grows a k allow n d d'"
  by (simp add: quiet_def grows_def rows_grow_def marks_follow_def asks_def)

lemma quiet_refl [simp]: "quiet d d"
  by (simp add: quiet_def)

lemma quiet_trans [trans]: "quiet d1 d2 \<Longrightarrow> quiet d2 d3 \<Longrightarrow> quiet d1 d3"
  by (simp add: quiet_def)

lemma grows_refl [simp]: "grows a k allow n d d"
  by (simp add: quiet_grows)

section \<open>The calls that are quiet\<close>

named_theorems quiet

lemma quiet_calls [simp]: "quiet (d\<lparr>fd_calls := n\<rparr>) d' = quiet d d'" "quiet d (d'\<lparr>fd_calls := n\<rparr>) = quiet d d'"
  by (simp_all add: quiet_def mark_def [abs_def])

lemma quiet_repo: "(\<And>d. quiet d (snd (op d))) \<Longrightarrow> quiet d (snd (repo W op d))"
  by (auto simp: repo_def Let_def split: option.split intro: quiet_trans)
    (metis quiet_calls(1))

lemma quiet_read [quiet]: "quiet d (snd (read_readings q d))"
  by (simp add: read_readings_def)

lemma quiet_get_cursor [quiet]: "quiet d (snd (get_cursor s a k d))"
  by (simp add: get_cursor_def)

lemma quiet_get_analyzer [quiet]: "quiet d (snd (Get_analyzer s a d))"
  by (simp add: Get_analyzer_def)

lemma quiet_touch [quiet]: "quiet d (snd (touch_last_reading s a t d))"
  by (simp add: touch_last_reading_def quiet_def mark_def [abs_def] split: prod.split)

lemma quiet_failure [quiet]: "quiet d (snd (record_failure s a k message now d))"
  using mark_RecordFailure [of "fd_db d" "fd_cursors d" s a k message now]
  by (auto simp: record_failure_def quiet_def mark_def [abs_def] fun_eq_iff split: prod.split)

lemma quiet_update [quiet]: "quiet d (snd (Update_analyzer W s an d))"
  by (auto simp: Update_analyzer_def quiet_def mark_def [abs_def] with_readings_def Let_def comp_def split: option.split)

lemma quiet_list_anomalies [quiet]: "quiet d (snd (list_anomalies s f d))"
  by (simp add: list_anomalies_def)

lemma quiet_create_anomaly [quiet]: "quiet d (snd (create_anomaly W s an d))"
  by (auto simp: create_anomaly_def Create_anomaly_def quiet_def mark_def [abs_def] Let_def split: prod.split)

lemma quiet_append_message [quiet]: "quiet d (snd (append_message W s m d))"
  by (auto simp: append_message_def AppendMessage_def quiet_def mark_def [abs_def] Let_def split: prod.split)

lemma quiet_StartRun [quiet]: "quiet d (snd (StartRun s run d))"
  by (simp add: StartRun_def quiet_def mark_def [abs_def] Let_def)

lemma quiet_FinishRun [quiet]: "quiet d (snd (FinishRun s i st p q f e j now d))"
  by (simp add: FinishRun_def quiet_def mark_def [abs_def] Let_def)

lemma quiet_UpsertHourly [quiet]: "quiet d (snd (UpsertHourly W s rows d))"
  by (auto simp: UpsertHourly_def quiet_def mark_def [abs_def] Let_def)

lemma quiet_finishRun [quiet]: "quiet d (finishRun W sc i st p q f e j now d)"
  unfolding finishRun_def by (intro quiet_repo quiet)

lemma quiet_appendMessage [quiet]: "quiet d (appendMessage W sc c kn cat st msg j d)"
  unfolding appendMessage_def by (intro quiet_repo quiet)

lemma quiet_fold: "(\<And>x d. quiet d (f x d)) \<Longrightarrow> quiet d (fold f xs d)"
  by (induction xs arbitrary: d) (auto intro: quiet_trans)

lemma quiet_refresh [quiet]: "quiet d (maybeEnqueueConsumptionRefresh C a acc d)"
  by (auto simp: maybeEnqueueConsumptionRefresh_def Let_def intro: quiet split: option.split)
    (simp add: quiet_def mark_def [abs_def])


section \<open>The calls that are not\<close>

lemma grows_repo:
  assumes "\<And>d. P d \<Longrightarrow> grows a k allow 0 d (snd (op d))" and "P d" and "\<And>d n. P d \<Longrightarrow> P (d\<lparr>fd_calls := n\<rparr>)"
  shows "grows a k allow 0 d (snd (repo W op d))"
proof -
  let ?d = "d\<lparr>fd_calls := Suc (fd_calls d)\<rparr>"
  have "grows a k allow 0 d ?d" by (rule quiet_grows) simp
  moreover have "grows a k allow 0 ?d (snd (op ?d))" using assms by simp
  ultimately show ?thesis using grows_trans [of a k allow 0 d ?d 0] by (auto simp: repo_def Let_def split: option.split)
qed

text \<open>Every row of a batch that was inserted is there.\<close>

definition all_stored :: "meter_reading list \<Rightarrow> fetch_db \<Rightarrow> bool" where
  "all_stored valid d \<longleftrightarrow> (\<forall>r \<in> set valid. stored_at d (mr_AnalyzerID r, timestamptz (mr_Ts r), mr_Kind r) \<noteq> None)"

lemma all_stored_grows: "grows a k allow n d d' \<Longrightarrow> all_stored valid d \<Longrightarrow> all_stored valid d'"
  using rows_grow_stored unfolding grows_def all_stored_def by metis

lemma staging_keys:
  assumes "staging col rows = Some staged"
  shows "map row_key staged = map (\<lambda>r. (mr_AnalyzerID r, timestamptz (mr_Ts r), mr_Kind r)) rows"
proof -
  have "None \<notin> set (map (staged_row col) rows)" and "staged = map the (map (staged_row col) rows)"
    using assms by (auto simp: staging_def Let_def split: if_splits)
  then show ?thesis by (induction rows arbitrary: staged) (auto simp: staged_row_def row_key_def)
qed

definition own_rows :: "uuid \<Rightarrow> reading_kind \<Rightarrow> meter_reading list \<Rightarrow> bool" where
  "own_rows a k valid \<longleftrightarrow> (\<forall>r \<in> set valid. mr_AnalyzerID r = a \<and> (mr_Kind r = k \<or> mr_Kind r = ReadingKindReset))"

lemma bulk_insert_grows:
  assumes "own_rows a k valid" and "distinct (analyzer_ids d)"
  shows "grows a k allow 0 d (snd (bulk_insert W s valid d))"
    and "fst (bulk_insert W s valid d) = Inr x \<Longrightarrow> all_stored valid (snd (bulk_insert W s valid d))"
proof -
  let ?res = "BulkInsert (iw_reading_columns W) (iw_db_now W d) (fd_db d) s valid"
  note eq = BulkInsert_eq [OF assms(2), of "iw_reading_columns W" "iw_db_now W d" s valid]
  show "grows a k allow 0 d (snd (bulk_insert W s valid d))"
  proof (cases "fst ?res")
    case (Inl e)
    then have "snd ?res = fd_db d" by (auto simp: eq split: if_splits option.splits)
    then have "quiet d (snd (bulk_insert W s valid d))"
      by (simp add: bulk_insert_def split_beta with_readings_def quiet_def mark_def [abs_def])
    then show ?thesis by (rule quiet_grows)
  next
    case (Inr c)
    show ?thesis
    proof (cases "valid = []")
      case True
      then have "snd ?res = fd_db d" by (simp add: BulkInsert_def)
      then have "quiet d (snd (bulk_insert W s valid d))"
        by (simp add: bulk_insert_def split_beta with_readings_def quiet_def mark_def [abs_def])
      then show ?thesis by (rule quiet_grows)
    next
      case False
      with Inr obtain staged where st: "staging (iw_reading_columns W) valid = Some staged" "distinct (map row_key staged)"
        and db: "snd ?res = (fd_db d)\<lparr>db_readings := fst (upsert_rows (stamped (iw_db_now W d) staged) (db_readings (fd_db d)))\<rparr>"
        by (auto simp: eq split: if_splits option.splits)
      let ?new = "stamped (iw_db_now W d) staged"
      have at: "row_at (fst (upsert_rows ?new (db_readings (fd_db d)))) key =
          (case row_at ?new key of Some r \<Rightarrow> Some r | None \<Rightarrow> stored_at d key)" for key
        by (rule upsert_rows_at(1)) (simp add: row_key_stamped st(2))
      have keys: "key \<in> (\<lambda>r. (mr_AnalyzerID r, timestamptz (mr_Ts r), mr_Kind r)) ` set valid" if "row_at ?new key \<noteq> None" for key
      proof -
        have "key \<in> set (map row_key ?new)" using that by (simp add: row_at_None)
        then show ?thesis unfolding row_key_stamped staging_keys [OF st(1)] by simp
      qed
      have "rows_grow a k d (snd (bulk_insert W s valid d))"
        unfolding rows_grow_def
      proof (intro allI)
        fix key
        show "stored_at (snd (bulk_insert W s valid d)) key = stored_at d key \<or>
          fst key = a \<and> (snd (snd key) = k \<or> snd (snd key) = ReadingKindReset) \<and>
          stored_at (snd (bulk_insert W s valid d)) key \<noteq> None"
        proof (cases "row_at ?new key = None")
          case True
          then show ?thesis by (simp add: bulk_insert_def split_beta with_readings_def db at)
        next
          case False
          from keys [OF this] assms(1) have "fst key = a \<and> (snd (snd key) = k \<or> snd (snd key) = ReadingKindReset)"
            by (auto simp: own_rows_def)
          with False show ?thesis by (auto simp: bulk_insert_def split_beta with_readings_def db at)
        qed
      qed
      moreover have "mark (snd (bulk_insert W s valid d)) = mark d" "fd_requests (snd (bulk_insert W s valid d)) = fd_requests d"
        "analyzer_ids (snd (bulk_insert W s valid d)) = analyzer_ids d"
        by (simp_all add: bulk_insert_def split_beta with_readings_def db mark_def [abs_def])
      ultimately show ?thesis by (simp add: grows_def marks_follow_def asks_def)
    qed
  qed
  assume "fst (bulk_insert W s valid d) = Inr x"
  then have res: "fst ?res = Inr x" by (simp add: bulk_insert_def split_beta)
  show "all_stored valid (snd (bulk_insert W s valid d))"
  proof (cases "valid = []")
    case False
    with res obtain staged where st: "staging (iw_reading_columns W) valid = Some staged" "distinct (map row_key staged)"
      and db: "snd ?res = (fd_db d)\<lparr>db_readings := fst (upsert_rows (stamped (iw_db_now W d) staged) (db_readings (fd_db d)))\<rparr>"
      by (auto simp: eq split: if_splits option.splits)
    let ?new = "stamped (iw_db_now W d) staged"
    have "row_at ?new (mr_AnalyzerID r, timestamptz (mr_Ts r), mr_Kind r) \<noteq> None" if "r \<in> set valid" for r
    proof -
      have "(mr_AnalyzerID r, timestamptz (mr_Ts r), mr_Kind r) \<in> set (map row_key ?new)"
        unfolding row_key_stamped staging_keys [OF st(1)] using that by simp
      then show ?thesis by (simp add: row_at_None)
    qed
    then have "stored_at (snd (bulk_insert W s valid d)) (mr_AnalyzerID r, timestamptz (mr_Ts r), mr_Kind r) \<noteq> None"
      if "r \<in> set valid" for r
      using that by (fastforce simp: bulk_insert_def split_beta with_readings_def db upsert_rows_at(1) row_key_stamped st(2))
    then show ?thesis unfolding all_stored_def by blast
  qed (simp add: all_stored_def)
qed

text \<open>The mark of a success is the instant of a row that is there.\<close>

lemma record_success_grows:
  assumes "allow" and "stored_at d (a, timestamptz t, k) \<noteq> None"
  shows "grows a k allow 0 d (snd (record_success s a k t now d))"
proof -
  let ?d = "snd (record_success s a k t now d)"
  have m: "mark ?d a' k' =
     (if a' = a \<and> k' = k \<and> Valid_scope s \<and> a \<in> scope_ids s (fd_db d) then Some (greatest (mark d a k) (column_ts t))
      else mark d a' k')" for a' k'
    using mark_RecordSuccess [of "fd_db d" "fd_cursors d" s a k t now a' k']
    by (simp add: record_success_def split_beta mark_def)
  have same: "fd_db ?d = fd_db d" "fd_requests ?d = fd_requests d"
    by (simp_all add: record_success_def split_beta)
  have "marks_follow a k allow d ?d"
    unfolding marks_follow_def
  proof (intro allI)
    fix a' k'
    show "mark ?d a' k' = mark d a' k' \<or> allow \<and> a' = a \<and> k' = k \<and>
      (\<exists>u. mark ?d a k = Some (u * 1000) \<and> (\<forall>t0. mark d a k = Some t0 \<longrightarrow> t0 \<le> u * 1000) \<and> stored_at ?d (a, u, k) \<noteq> None)"
    proof (cases "mark ?d a' k' = mark d a' k'")
      case False
      then have here: "a' = a" "k' = k" "mark ?d a k = Some (greatest (mark d a k) (column_ts t))"
        by (auto simp: m split: if_splits)
      with False have "greatest (mark d a k) (column_ts t) = column_ts t \<and> (\<forall>t0. mark d a k = Some t0 \<longrightarrow> t0 \<le> column_ts t)"
        by (auto simp: greatest_def max_def split: option.splits if_splits)
      with here assms same show ?thesis by (auto simp: column_ts_def)
    qed simp
  qed
  then show ?thesis by (simp add: grows_def rows_grow_def asks_def same)
qed

section \<open>Steps that stay within the relation\<close>

definition ready :: "uuid \<Rightarrow> fetch_state \<Rightarrow> bool" where
  "ready a s \<longleftrightarrow> distinct (analyzer_ids (rs_db s)) \<and> an_ID (rs_analyzer s) = a"

definition keeps_to :: "uuid \<Rightarrow> fetch_context \<Rightarrow> nat \<Rightarrow> (fetch_db \<Rightarrow> bool) \<Rightarrow> 'a step \<Rightarrow> bool" where
  "keeps_to a C n P m \<longleftrightarrow>
     (\<forall>s. ready a s \<and> P (rs_db s) \<longrightarrow>
        ready a (snd (m s)) \<and> grows a (cx_kind C) (cx_allow C) n (rs_db s) (rs_db (snd (m s))))"

definition stable :: "uuid \<Rightarrow> fetch_context \<Rightarrow> (fetch_db \<Rightarrow> bool) \<Rightarrow> bool" where
  "stable a C P \<longleftrightarrow> (\<forall>n d d'. grows a (cx_kind C) (cx_allow C) n d d' \<and> P d \<longrightarrow> P d')"

named_theorems keeps_to

lemma stable_True [keeps_to]: "stable a C (\<lambda>_. True)"
  by (simp add: stable_def)

lemma stable_all_stored [keeps_to]: "stable a C (all_stored valid)"
  using all_stored_grows by (auto simp: stable_def)

lemma keeps_mono: "keeps_to a C n P m \<Longrightarrow> n \<le> n' \<Longrightarrow> (\<And>d. Q d \<Longrightarrow> P d) \<Longrightarrow> keeps_to a C n' Q m"
  unfolding keeps_to_def using grows_mono by metis

lemma keeps_bnd_post:
  assumes m: "keeps_to a C n P m" and f: "\<And>x. keeps_to a C n' (Q x) (f x)"
    and post: "\<And>s x s'. ready a s \<Longrightarrow> P (rs_db s) \<Longrightarrow> m s = (Inr x, s') \<Longrightarrow> Q x (rs_db s')"
  shows "keeps_to a C (n + n') P (bnd m f)"
  unfolding keeps_to_def
proof (intro allI impI)
  fix s assume s: "ready a s \<and> P (rs_db s)"
  obtain r s' where ms: "m s = (r, s')" by (cases "m s")
  from m s have 1: "ready a s'" "grows a (cx_kind C) (cx_allow C) n (rs_db s) (rs_db s')"
    unfolding keeps_to_def by (metis ms snd_conv)+
  show "ready a (snd (bnd m f s)) \<and> grows a (cx_kind C) (cx_allow C) (n + n') (rs_db s) (rs_db (snd (bnd m f s)))"
  proof (cases r)
    case (Inl e)
    with 1 grows_mono show ?thesis by (simp add: bnd_def ms)
  next
    case (Inr x)
    with post s ms have "Q x (rs_db s')" by blast
    with f [of x] 1 have 2: "ready a (snd (f x s'))" "grows a (cx_kind C) (cx_allow C) n' (rs_db s') (rs_db (snd (f x s')))"
      unfolding keeps_to_def by blast+
    with 1 grows_trans [OF 1(2) 2(2)] Inr show ?thesis by (simp add: bnd_def ms)
  qed
qed

lemma keeps_bnd:
  assumes "stable a C P" and "keeps_to a C n P m" and "\<And>x. keeps_to a C n' P (f x)"
  shows "keeps_to a C (n + n') P (bnd m f)"
proof (rule keeps_bnd_post [OF assms(2,3)])
  fix s x s' assume "ready a s" "P (rs_db s)" "m s = (Inr x, s')"
  with assms(1,2) show "P (rs_db s')" unfolding stable_def keeps_to_def by (metis snd_conv)
qed

lemma keeps_bnd0: "stable a C P \<Longrightarrow> keeps_to a C 0 P m \<Longrightarrow> (\<And>x. keeps_to a C 0 P (f x)) \<Longrightarrow> keeps_to a C 0 P (bnd m f)"
  using keeps_bnd [of a C P 0 m 0 f] by simp

lemma keeps_ok [keeps_to]: "keeps_to a C 0 P (ok x)"
  by (simp add: keeps_to_def ok_def)

lemma keeps_modify:
  "(\<And>s. rs_db (f s) = rs_db s \<and> an_ID (rs_analyzer (f s)) = an_ID (rs_analyzer s)) \<Longrightarrow> keeps_to a C 0 P (modify f)"
  by (simp add: keeps_to_def modify_def ready_def)

lemma keeps_reading_state: "(\<And>s. ready a s \<Longrightarrow> P (rs_db s) \<Longrightarrow> keeps_to a C n P (f s)) \<Longrightarrow> keeps_to a C n P (reading_state f)"
  unfolding keeps_to_def reading_state_def by blast

lemma ready_grows:
  "ready a s \<Longrightarrow> grows a k allow n (rs_db s) d \<Longrightarrow> ready a (s\<lparr>rs_db := d\<rparr>)"
  by (simp add: ready_def grows_def)

lemma keeps_calls:
  assumes "\<And>d. distinct (analyzer_ids d) \<Longrightarrow> P d \<Longrightarrow> grows a (cx_kind C) (cx_allow C) 0 d (snd (op d))"
    and "\<And>d n. P d \<Longrightarrow> P (d\<lparr>fd_calls := n\<rparr>)"
  shows "keeps_to a C 0 P (calls C op)"
  unfolding keeps_to_def
proof (intro allI impI)
  fix s assume s: "ready a s \<and> P (rs_db s)"
  then have "grows a (cx_kind C) (cx_allow C) 0 (rs_db s) (snd (repo (cx_world C) op (rs_db s)))"
    by (intro grows_repo [where P = "\<lambda>d. distinct (analyzer_ids d) \<and> P d"]) (auto simp: assms ready_def)
  moreover have "snd (calls C op s) = s\<lparr>rs_db := snd (repo (cx_world C) op (rs_db s))\<rparr>"
    by (auto simp: calls_def split: prod.split sum.split)
  ultimately show "ready a (snd (calls C op s)) \<and> grows a (cx_kind C) (cx_allow C) 0 (rs_db s) (rs_db (snd (calls C op s)))"
    using s ready_grows by auto
qed

lemma stable_calls: "stable a C P \<Longrightarrow> P d \<Longrightarrow> P (d\<lparr>fd_calls := n\<rparr>)"
proof -
  assume st: "stable a C P" and d: "P d"
  have "grows a (cx_kind C) (cx_allow C) 0 d (d\<lparr>fd_calls := n\<rparr>)" by (rule quiet_grows) simp
  with st d show ?thesis unfolding stable_def by blast
qed

lemma keeps_quiet: "stable a C P \<Longrightarrow> (\<And>d. quiet d (snd (op d))) \<Longrightarrow> keeps_to a C 0 P (calls C op)"
  by (intro keeps_calls) (auto intro: quiet_grows stable_calls)

lemma keeps_each: "stable a C P \<Longrightarrow> (\<And>x. x \<in> set xs \<Longrightarrow> keeps_to a C 0 P (f x)) \<Longrightarrow> keeps_to a C 0 P (each f xs)"
  by (induction xs) (auto intro: keeps_to keeps_bnd0)

lemma keeps_if: "(b \<Longrightarrow> keeps_to a C n P m) \<Longrightarrow> (\<not> b \<Longrightarrow> keeps_to a C n P m') \<Longrightarrow> keeps_to a C n P (if b then m else m')"
  by simp


section \<open>The steps of a page\<close>

lemma grows_allow: "grows a k False n d d' \<Longrightarrow> grows a k allow n d d'"
  by (simp add: grows_def marks_follow_def)

lemma keeps_load: "keeps_to a C 0 (\<lambda>_. True) (load_evidence C chunk)"
  unfolding load_evidence_def Let_def
  by (intro keeps_reading_state keeps_bnd0 keeps_quiet keeps_modify keeps_to quiet) simp

lemma keeps_send: "keeps_to a C 1 (\<lambda>_. True) (send C chunk)"
  unfolding keeps_to_def
proof (intro allI impI)
  fix s assume "ready a s \<and> True"
  then have r: "ready a s" by simp
  have "snd (send C chunk s) = s\<lparr>rs_db := (rs_db s)\<lparr>fd_requests := fd_requests (rs_db s) @ [request_of C chunk s]\<rparr>\<rparr>"
    by (auto simp: send_def Let_def split: sum.split)
  moreover have "grows a (cx_kind C) (cx_allow C) 1 (rs_db s) ((rs_db s)\<lparr>fd_requests := fd_requests (rs_db s) @ [request_of C chunk s]\<rparr>)"
    using r by (simp add: grows_def rows_grow_def marks_follow_def asks_def mark_def request_of_def ready_def)
  ultimately show "ready a (snd (send C chunk s)) \<and> grows a (cx_kind C) (cx_allow C) 1 (rs_db s) (rs_db (snd (send C chunk s)))"
    using ready_grows [OF r] by auto
qed

lemma keeps_check: "keeps_to a C 0 (\<lambda>_. True) (check_page C res)"
  unfolding keeps_to_def
proof (intro allI impI)
  fix s assume "ready a s \<and> True"
  then have r: "ready a s" by simp
  have "quiet (rs_db s) (rs_db (snd (check_page C res s)))"
    unfolding check_page_def Let_def by (auto simp: split_beta intro!: quiet_fold quiet)
  moreover have "rs_analyzer (snd (check_page C res s)) = rs_analyzer s"
    unfolding check_page_def Let_def by (simp add: split_beta)
  ultimately show "ready a (snd (check_page C res s)) \<and> grows a (cx_kind C) (cx_allow C) 0 (rs_db s) (rs_db (snd (check_page C res s)))"
    using r quiet_grows by (auto simp: ready_def quiet_def)
qed

lemma check_page_own:
  assumes "ready a s" and "check_page C res s = (Inr valid, s')"
  shows "own_rows a (cx_kind C) valid"
proof -
  let ?att = "fst (filterAttribution (an_ID (rs_analyzer s)) (cx_kind C) (fst (Dedupe (fr_Readings res))))"
  obtain v rej st where v: "validate_loop (iw_lib (cx_world C)) (cx_now C) (iw_opts (cx_world C))
      (sanityThresholds (iw_lib (cx_world C)) (rs_history s)) (rs_prev s) (rs_streak s) ?att = (v, rej, st)"
    by (metis prod_cases3)
  then have "valid = v" using assms(2)
    by (simp add: check_page_def Let_def split_beta Validate_readings_def)
  moreover have "subseq v ?att" using validate_loop_facts [OF v] by blast
  ultimately have "set valid \<subseteq> set ?att" by (blast elim: list_emb_set)
  then show ?thesis using assms(1) by (auto simp: own_rows_def filterAttribution_eq ready_def)
qed

text \<open>\<open>PostPersistHook\<close> as the run needs it: rows of the analyzer and kind it was called for, no cursor, no request.\<close>

locale post_persist_hook =
  fixes h :: fetch_hook and a :: uuid and k :: reading_kind
  assumes stays: "an_ID an = a \<Longrightarrow> distinct (analyzer_ids d) \<Longrightarrow> grows a k False 0 d (snd (h s an k lo hi d))"
begin

lemma keeps_hook:
  assumes "cx_kind C = k"
  shows "keeps_to a C 0 P (run_hook C lo hi h)"
  unfolding keeps_to_def
proof (intro allI impI)
  fix s assume s: "ready a s \<and> P (rs_db s)"
  let ?d = "snd (h (cx_scope C) (rs_analyzer s) (cx_kind C) lo hi (rs_db s))"
  have "snd (run_hook C lo hi h s) = s\<lparr>rs_db := ?d\<rparr>" by (simp add: run_hook_def split: prod.split)
  moreover have "grows a k False 0 (rs_db s) ?d" using stays s assms by (simp add: ready_def)
  then have "grows a (cx_kind C) (cx_allow C) 0 (rs_db s) ?d" unfolding assms by (rule grows_allow)
  ultimately show "ready a (snd (run_hook C lo hi h s)) \<and> grows a (cx_kind C) (cx_allow C) 0 (rs_db s) (rs_db (snd (run_hook C lo hi h s)))"
    using s ready_grows by auto
qed

end

definition hooks_keep :: "ingest_world \<Rightarrow> uuid \<Rightarrow> reading_kind \<Rightarrow> bool" where
  "hooks_keep W a k \<longleftrightarrow> (\<forall>p. \<forall>h \<in> set (iw_hooks W p). post_persist_hook h a k)"

lemma keeps_hooks:
  "hooks_keep (cx_world C) a (cx_kind C) \<Longrightarrow> h \<in> set (iw_hooks (cx_world C) p) \<Longrightarrow> keeps_to a C 0 P (run_hook C lo hi h)"
  using post_persist_hook.keeps_hook unfolding hooks_keep_def by blast

lemma keeps_delta: "stable a C P \<Longrightarrow> keeps_to a C 0 P (record_delta C a nd)"
  unfolding record_delta_def negativeDeltaAnomalyExists_def
  by (intro keeps_bnd0 keeps_quiet keeps_if keeps_modify keeps_to quiet) simp_all

lemma keeps_advance:
  assumes "stable a C P" and "\<And>d. P d \<Longrightarrow> stored_at d (a, timestamptz t, cx_kind C) \<noteq> None"
  shows "keeps_to a C 0 P (advance_cursor C a t)"
proof (cases "cx_allow C")
  case True
  then have "keeps_to a C 0 P (calls C (record_success (cx_scope C) a (cx_kind C) t (cx_now C)))"
    by (intro keeps_calls record_success_grows) (use assms stable_calls in auto)
  with True show ?thesis
    by (simp add: advance_cursor_def keeps_bnd0 [OF assms(1)] keeps_quiet [OF assms(1) quiet_touch])
qed (simp add: advance_cursor_def keeps_to)

lemma readingTsBounds_last:
  assumes "readingTsBounds rows = Some (lo, hi)"
  shows "\<exists>r \<in> set rows. mr_Ts r = hi"
  using assms ts_bounds_bounds by (fastforce simp: readingTsBounds_def split: list.splits)

lemma keeps_follow:
  assumes own: "own_rows a (cx_kind C) valid"
  shows "keeps_to a C 0 (all_stored valid) (follow_kind_rows C valid (readingsOfKind valid (cx_kind C)))"
proof -
  let ?rows = "readingsOfKind valid (cx_kind C)"
  have here: "stored_at d (a, timestamptz hi, cx_kind C) \<noteq> None"
    if "readingTsBounds ?rows = Some (lo, hi)" "all_stored valid d" for lo hi d
  proof -
    from readingTsBounds_last [OF that(1)] obtain r where "r \<in> set valid" "mr_Kind r = cx_kind C" "mr_Ts r = hi"
      by (auto simp: readingsOfKind_def)
    with that(2) own show ?thesis unfolding all_stored_def own_rows_def by fastforce
  qed
  show ?thesis
    unfolding follow_kind_rows_def Let_def
  proof (rule keeps_reading_state)
    fix s assume "ready a s"
    then have id: "an_ID (rs_analyzer s) = a" by (simp add: ready_def)
    show "keeps_to a C 0 (all_stored valid) (case readingTsBounds ?rows of None \<Rightarrow> ok () | Some (lo, hi) \<Rightarrow>
        bnd (calls C (read_readings (\<lambda>r. Range_readings r (cx_scope C) (an_ID (rs_analyzer s)) \<lparr>tr_From = lo, tr_To = hi + 1000\<rparr> ReadingKindReset)))
          (\<lambda>rangeResets. bnd (each (record_delta C (an_ID (rs_analyzer s)))
             (DetectNegativeDeltas (rs_prev s) ?rows (readingsOfKind valid ReadingKindReset @ rangeResets)))
          (\<lambda>_. bnd (advance_cursor C (an_ID (rs_analyzer s)) hi) (\<lambda>_. modify (\<lambda>s. s\<lparr>rs_prev := Some (last ?rows)\<rparr>)))))"
    proof (cases "readingTsBounds ?rows")
      case (Some b)
      then obtain lo hi where b: "readingTsBounds ?rows = Some (lo, hi)" by (cases b) auto
      show ?thesis
        unfolding b id
        by (simp del: not_None_eq) (intro keeps_bnd0 keeps_quiet keeps_each keeps_delta keeps_advance keeps_modify keeps_to quiet,
          use here [OF b] in auto)
    qed (simp add: keeps_to)
  qed
qed

lemma keeps_hourly: "stable a C P \<Longrightarrow> keeps_to a C 0 P (store_hourly C res)"
  unfolding store_hourly_def Let_def
  by (intro keeps_reading_state keeps_if keeps_bnd0 keeps_quiet keeps_to quiet)

lemma Update_analyzer_id: "Update_analyzer W s an d = (Inr row, d') \<Longrightarrow> an_ID row = an_ID an"
  by (auto simp: Update_analyzer_def Let_def split: if_splits option.splits)

lemma repo_Inr: "repo W op d = (Inr x, d') \<Longrightarrow> \<exists>d0. op d0 = (Inr x, d')"
  by (auto simp: repo_def Let_def split: option.splits)

lemma keeps_multiplier: "keeps_to a C 0 P (update_multiplier C res)"
  unfolding keeps_to_def
proof (intro allI impI)
  fix s assume "ready a s \<and> P (rs_db s)"
  then have r: "ready a s" by simp
  let ?get = "repo (cx_world C) (Get_analyzer (cx_scope C) (an_ID (rs_analyzer s)))"
  let ?upd = "\<lambda>fresh. repo (cx_world C) (Update_analyzer (cx_world C) (cx_scope C) fresh)"
  have g: "quiet d (snd (?get d))" and u: "quiet d (snd (?upd fresh d))" for d fresh
    by (intro quiet_repo quiet)+
  have gid: "an_ID fresh = a" if "?get d = (Inr fresh, d')" for fresh d d'
    using repo_Inr [OF that] r by (auto simp: Get_analyzer_def ready_def split: if_splits option.splits)
  have uid: "an_ID newA = an_ID fresh" if "?upd fresh d = (Inr newA, d')" for fresh newA d d'
    using repo_Inr [OF that] Update_analyzer_id by blast
  have "quiet (rs_db s) (rs_db (snd (update_multiplier C res s))) \<and> an_ID (rs_analyzer (snd (update_multiplier C res s))) = a"
  proof -
    consider (none) "snd (update_multiplier C res s) = s"
      | (get) "snd (update_multiplier C res s) = s\<lparr>rs_db := snd (?get (rs_db s))\<rparr>"
      | (put) fresh where "snd (update_multiplier C res s) = s\<lparr>rs_db := snd (?upd fresh (snd (?get (rs_db s))))\<rparr>"
      | (new) fresh0 fresh d newA d' st msg j where "?get (rs_db s) = (Inr fresh0, d)" "an_ID fresh = an_ID fresh0"
          "?upd fresh d = (Inr newA, d')"
          "snd (update_multiplier C res s) = s\<lparr>rs_analyzer := newA, rs_db := message_of_run C st msg j d'\<rparr>"
    proof (cases "fr_ResolvedMultiplier res")
      case (Some rm)
      show ?thesis
      proof (cases "\<not> rm_ProviderResolved rm \<or> rm_Value rm = an_MeterMultiplier (rs_analyzer s)")
        case False
        show ?thesis
        proof (cases "?get (rs_db s)")
          case (Pair e d)
          show ?thesis
          proof (cases e)
            case (Inl x)
            with Some False Pair show ?thesis by (intro get) (simp add: update_multiplier_def)
          next
            case fr: (Inr fresh0)
            let ?fresh = "fresh0\<lparr>an_MeterMultiplier := rm_Value rm, an_UpdatedAt := cx_now C\<rparr>"
            show ?thesis
            proof (cases "?upd ?fresh d")
              case up: (Pair e' d')
              show ?thesis
              proof (cases e')
                case (Inl x)
                with Some False Pair fr up show ?thesis by (intro put [of ?fresh]) (simp add: update_multiplier_def)
              next
                case (Inr newA)
                show ?thesis
                  by (rule new [of fresh0 d ?fresh newA d'])
                    (use Some False Pair fr up Inr in \<open>simp_all add: update_multiplier_def\<close>)
              qed
            qed
          qed
        qed
      qed (use Some none in \<open>auto simp: update_multiplier_def\<close>)
    qed (use none in \<open>simp add: update_multiplier_def\<close>)
    then show ?thesis
    proof cases
      case none
      then show ?thesis using r by (simp add: ready_def)
    next
      case get
      then show ?thesis using r g by (simp add: ready_def)
    next
      case (put fresh)
      then show ?thesis using r quiet_trans [OF g u] by (simp add: ready_def)
    next
      case (new fresh0 fresh d newA d' st msg j)
      have q: "quiet (rs_db s) d" "quiet d d'" using g [of "rs_db s"] new(1) u [of d fresh] new(3) by simp_all
      have "quiet (rs_db s) (message_of_run C st msg j d')"
        by (rule quiet_trans [OF quiet_trans [OF q] quiet_appendMessage])
      moreover have "an_ID newA = a" using gid [OF new(1)] uid [OF new(3)] new(2) by simp
      ultimately show ?thesis unfolding new(4) by simp
    qed
  qed
  then show "ready a (snd (update_multiplier C res s)) \<and>
      grows a (cx_kind C) (cx_allow C) 0 (rs_db s) (rs_db (snd (update_multiplier C res s)))"
    using r quiet_grows by (auto simp: ready_def quiet_def)
qed

lemma keeps_persist:
  assumes hooks: "hooks_keep (cx_world C) a (cx_kind C)" and own: "own_rows a (cx_kind C) valid"
  shows "keeps_to a C 0 (\<lambda>_. True) (persist_page C res valid)"
proof (cases "readingTsBounds valid")
  case (Some b)
  let ?k = "readingsOfKind valid (cx_kind C)"
  let ?rest = "\<lambda>(inserted, updated).
      bnd (modify (\<lambda>s. s\<lparr>rs_acc := touchAffected (fst b) (snd b)
        ((rs_acc s)\<lparr>ac_processed := ac_processed (rs_acc s) + int (inserted + updated)\<rparr>)\<rparr>)) (\<lambda>_.
      bnd (reading_state (\<lambda>s. each (run_hook C (fst b) (snd b)) (iw_hooks (cx_world C) (an_Provider (rs_analyzer s))))) (\<lambda>_.
      bnd (modify (\<lambda>s. s\<lparr>rs_acc := noteLoadProfilePersisted (cx_kind C) (length ?k) (rs_acc s)\<rparr>)) (\<lambda>_.
      bnd (follow_kind_rows C valid ?k) (\<lambda>_. bnd (store_hourly C res) (\<lambda>_. update_multiplier C res)))))"
  have rest: "keeps_to a C 0 (all_stored valid) (?rest c)" for c
    unfolding split_beta
    by (intro keeps_bnd0 keeps_modify keeps_reading_state keeps_each keeps_hooks [OF hooks] keeps_follow [OF own] keeps_hourly
        keeps_multiplier keeps_to) auto
  have ins: "keeps_to a C 0 (\<lambda>_. True) (calls C (bulk_insert (cx_world C) (cx_scope C) valid))"
    by (intro keeps_calls bulk_insert_grows(1) own) simp_all
  have "all_stored valid (rs_db s')" if r: "ready a s" and call: "calls C (bulk_insert (cx_world C) (cx_scope C) valid) s = (Inr x, s')" for s x s'
  proof -
    let ?d = "(rs_db s)\<lparr>fd_calls := Suc (fd_calls (rs_db s))\<rparr>"
    from call have "bulk_insert (cx_world C) (cx_scope C) valid ?d = (Inr x, rs_db s')"
      by (auto simp: calls_def repo_def Let_def split: prod.splits sum.splits option.splits)
    with bulk_insert_grows(2) [OF own, of ?d "cx_world C" "cx_scope C" x] r show ?thesis by (simp add: ready_def)
  qed
  then have "keeps_to a C (0 + 0) (\<lambda>_. True) (bnd (calls C (bulk_insert (cx_world C) (cx_scope C) valid)) ?rest)"
    by (intro keeps_bnd_post [where Q = "\<lambda>_. all_stored valid"] ins rest)
  with Some show ?thesis by (simp add: persist_page_def Let_def split_beta)
qed (simp add: persist_page_def keeps_to)

lemma keeps_next: "keeps_to a C 0 P (next_page C res)"
  unfolding keeps_to_def by (auto simp: next_page_def ready_def split: option.split)

lemma keeps_page:
  assumes "hooks_keep (cx_world C) a (cx_kind C)"
  shows "keeps_to a C 1 (\<lambda>_. True) (fetch_page C chunk loaded)"
proof -
  have page: "keeps_to a C 0 (\<lambda>_. own_rows a (cx_kind C) valid) (bnd (persist_page C res valid) (\<lambda>_. next_page C res))" for res valid
  proof (cases "own_rows a (cx_kind C) valid")
    case True
    then have "keeps_to a C 0 (\<lambda>_. True) (bnd (persist_page C res valid) (\<lambda>_. next_page C res))"
      by (intro keeps_bnd0 keeps_persist assms keeps_next keeps_to)
    then show ?thesis by (rule keeps_mono) simp_all
  qed (simp add: keeps_to_def)
  have "keeps_to a C (0 + 0) (\<lambda>_. True) (bnd (check_page C res) (\<lambda>valid. bnd (persist_page C res valid) (\<lambda>_. next_page C res)))" for res
    using check_page_own by (intro keeps_bnd_post [where Q = "\<lambda>valid _. own_rows a (cx_kind C) valid"] keeps_check page) auto
  then have "keeps_to a C (1 + 0) (\<lambda>_. True) (bnd (send C chunk) (\<lambda>res. bnd (check_page C res)
      (\<lambda>valid. bnd (persist_page C res valid) (\<lambda>_. next_page C res))))"
    by (intro keeps_bnd [OF stable_True keeps_send]) simp
  then have "keeps_to a C (0 + 1) (\<lambda>_. True) (fetch_page C chunk loaded)"
    unfolding fetch_page_def by (intro keeps_bnd [OF stable_True]) (auto intro: keeps_load keeps_ok)
  then show ?thesis by simp
qed

section \<open>Pages, chunks, runs\<close>

text \<open>The pages that are left bound the requests that are still sent.\<close>

definition pages_left :: "fetch_context \<Rightarrow> nat \<Rightarrow> nat" where
  "pages_left C pages = nat (io_MaxPagesPerRun (iw_opts (cx_world C)) - int pages)"

lemma chunk_pages_grows:
  assumes "hooks_keep (cx_world C) a (cx_kind C)" and "ready a s"
  shows "ready a (snd (chunk_pages C chunk loaded pages s)) \<and>
    (\<exists>n. grows a (cx_kind C) (cx_allow C) n (rs_db s) (rs_db (snd (chunk_pages C chunk loaded pages s))) \<and>
      (case fst (chunk_pages C chunk loaded pages s) of
         Inl _ \<Rightarrow> n \<le> pages_left C pages
       | Inr pages' \<Rightarrow> n + pages_left C pages' \<le> pages_left C pages))"
  using assms
proof (induction C chunk loaded pages s rule: chunk_pages.induct)
  case (1 C chunk loaded pages s)
  show ?case
  proof (cases "io_MaxPagesPerRun (iw_opts (cx_world C)) < int pages + 1")
    case True
    with 1(3) show ?thesis
      by (auto simp: chunk_pages.simps [of C chunk loaded pages s] intro!: exI [of _ 0])
  next
    case False
    obtain r s' where page: "fetch_page C chunk loaded s = (r, s')" by (cases "fetch_page C chunk loaded s")
    have s': "ready a s'" "grows a (cx_kind C) (cx_allow C) 1 (rs_db s) (rs_db s')"
      using keeps_page [OF 1(2), of chunk loaded] 1(3) page unfolding keeps_to_def by (metis snd_conv)+
    have left: "1 + pages_left C (pages + 1) = pages_left C pages" using False by (simp add: pages_left_def nat_diff_distrib')
    have eq: "chunk_pages C chunk loaded pages s =
        (case r of Inl e \<Rightarrow> (Inl e, s')
         | Inr again \<Rightarrow> if again then chunk_pages C chunk True (pages + 1) s' else (Inr (pages + 1), s'))"
      using False by (simp add: chunk_pages.simps [of C chunk loaded pages s] page split: sum.split)
    show ?thesis
    proof (cases r)
      case (Inl e)
      with s' left show ?thesis unfolding eq by (intro conjI exI [of _ 1]) simp_all
    next
      case (Inr again)
      show ?thesis
      proof (cases again)
        case True
        from 1(1) [OF False page [symmetric] Inr True 1(2) s'(1)]
        obtain n where n: "ready a (snd (chunk_pages C chunk True (pages + 1) s'))"
          "grows a (cx_kind C) (cx_allow C) n (rs_db s') (rs_db (snd (chunk_pages C chunk True (pages + 1) s')))"
          "case fst (chunk_pages C chunk True (pages + 1) s') of Inl _ \<Rightarrow> n \<le> pages_left C (pages + 1)
           | Inr pages' \<Rightarrow> n + pages_left C pages' \<le> pages_left C (pages + 1)" by blast
        have eq': "chunk_pages C chunk loaded pages s = chunk_pages C chunk True (pages + 1) s'"
          by (simp add: eq Inr True)
        from grows_trans [OF s'(2) n(2)] n(1,3) left show ?thesis
          unfolding eq' by (intro conjI exI [of _ "1 + n"]) (auto split: sum.splits)
      next
        case no: False
        with s' left Inr show ?thesis unfolding eq by (intro conjI exI [of _ 1]) simp_all
      qed
    qed
  qed
qed

lemma all_chunks_grows:
  assumes "hooks_keep (cx_world C) a (cx_kind C)" and "ready a s"
  shows "ready a (snd (all_chunks C chunks pages s)) \<and>
    grows a (cx_kind C) (cx_allow C) (pages_left C pages) (rs_db s) (rs_db (snd (all_chunks C chunks pages s)))"
  using assms(2)
proof (induction chunks arbitrary: pages s)
  case (Cons chunk chunks)
  have "ready a (open_chunk chunk s)" "rs_db (open_chunk chunk s) = rs_db s"
    using Cons.prems by (simp_all add: open_chunk_def ready_def)
  with chunk_pages_grows [OF assms(1), of "open_chunk chunk s" chunk False pages]
  obtain r s' n where ch: "chunk_pages C chunk False pages (open_chunk chunk s) = (r, s')" "ready a s'"
    "grows a (cx_kind C) (cx_allow C) n (rs_db s) (rs_db s')"
    "case r of Inl _ \<Rightarrow> n \<le> pages_left C pages | Inr pages' \<Rightarrow> n + pages_left C pages' \<le> pages_left C pages"
    by (metis prod.collapse)
  show ?case
  proof (cases r)
    case (Inl e)
    with ch grows_mono show ?thesis by fastforce
  next
    case (Inr pages')
    from Cons.IH [OF ch(2), of pages']
    have "grows a (cx_kind C) (cx_allow C) (n + pages_left C pages') (rs_db s) (rs_db (snd (all_chunks C chunks pages' s')))"
      using grows_trans [OF ch(3)] by blast
    with Cons.IH [OF ch(2), of pages'] Inr ch(1,4) grows_mono show ?thesis by fastforce
  qed
qed (simp add: ready_def)

lemma quiet_failFetchRun: "quiet (rs_db s) (snd (failFetchRun C run cause s))"
proof -
  let ?e = "shown (cx_world C) (cx_creds C) cause" and ?a = "an_ID (rs_analyzer s)"
  let ?d1 = "snd (repo (cx_world C) (record_failure (cx_scope C) ?a (cx_kind C) ?e (cx_now C)) (rs_db s))"
  have "quiet (rs_db s) ?d1" by (intro quiet_repo quiet)
  also note quiet_finishRun
  also note quiet_appendMessage
  also note quiet_refresh
  finally show ?thesis unfolding failFetchRun_def Let_def snd_conv .
qed

lemma quiet_finish_run: "quiet (rs_db s) (snd (finish_run C run s))"
proof -
  have "quiet d (if b then message_of_run C st msg j d else d)" for b st msg j d by (simp add: quiet)
  note this [of _ "0 < ac_skipped (rs_acc s)" "''warning''" "itoa (ac_skipped (rs_acc s)) @ '' readings rejected''"
      "Some (rejections_json (ac_rejections (rs_acc s)))"]
  note skipped = this
  note quiet_finishRun
  also note skipped
  also note quiet_fold [OF quiet_appendMessage]
  also note quiet_refresh
  finally show ?thesis unfolding finish_run_def Let_def snd_conv .
qed

end
