(* ===== verification/Generation_Hook.thy ===== *)
theory Generation_Hook
  imports Ingest_Run
begin

text \<open>
  \<open>src/internal/ingest/generation/hook.go\<close>: the hook that turns the interval generation of a PM5340 into the
  cumulative register \<open>active_export\<close>. It is the one provider of \<open>post_persist_hook\<close>, and interprets it. The forward
  recomputation reads slices of seven days and writes batches of 5000 rows.
\<close>

definition initialAnchorLookback :: duration where "initialAnchorLookback = 7 * 24 * hour"
definition initialAnchorOffset :: duration where "initialAnchorOffset = 15 * (60 * ns_per_sec)"
definition rangeSliceWindow :: duration where "rangeSliceWindow = 7 * 24 * hour"
definition writeBatchSize :: nat where "writeBatchSize = 5000"

text \<open>The clock, the tolerance, and the answer of the lock.\<close>

record generation_world =
  gw_now :: "fetch_db \<Rightarrow> time"
  gw_futureTolerance :: duration
  gw_lock :: "fetch_db \<Rightarrow> string \<Rightarrow> fetch_error option"

type_synonym 'a hook_step = "fetch_db \<Rightarrow> (fetch_error + 'a) \<times> fetch_db"

definition generationLockKey :: "(uuid \<Rightarrow> string) \<Rightarrow> uuid \<Rightarrow> string" where
  "generationLockKey uuid_string a = ''generation:'' @ uuid_string a"

text \<open>The lease excludes other runs of the hook; here the body runs as one.\<close>

definition withAnalyzerLock :: "generation_world \<Rightarrow> ingest_world \<Rightarrow> uuid \<Rightarrow> unit hook_step \<Rightarrow> unit hook_step" where
  "withAnalyzerLock G W a body d =
     (case gw_lock G d (generationLockKey (iw_uuid_string W) a) of Some e \<Rightarrow> (Inl e, d) | None \<Rightarrow> body d)"

section \<open>Batches\<close>

definition flush :: "ingest_world \<Rightarrow> scope \<Rightarrow> meter_reading list \<Rightarrow> unit hook_step" where
  "flush W s batch =
     (if batch = [] then ok () else bnd (db_calls W (bulk_insert W s batch)) (\<lambda>_. ok ()))"

text \<open>The rows of one slice join the batch, which is written when it is full.\<close>

fun add_rows :: "ingest_world \<Rightarrow> scope \<Rightarrow> meter_reading list \<Rightarrow> meter_reading list \<Rightarrow> meter_reading list hook_step" where
  "add_rows W s batch [] = ok batch"
| "add_rows W s batch (r # rs) =
     (if writeBatchSize \<le> length batch + 1
      then bnd (flush W s (batch @ [r])) (\<lambda>_. add_rows W s [] rs)
      else add_rows W s (batch @ [r]) rs)"

definition with_export :: "meter_reading list \<Rightarrow> dec list \<Rightarrow> meter_reading list" where
  "with_export rows vals = map2 (\<lambda>r v. r\<lparr>mr_ActiveExport := Some v\<rparr>) rows vals"

definition load_profile_range :: "ingest_world \<Rightarrow> scope \<Rightarrow> uuid \<Rightarrow> time \<Rightarrow> time \<Rightarrow> meter_reading list hook_step" where
  "load_profile_range W s a lo hi =
     db_calls W (read_readings (\<lambda>r. Range_readings r s a \<lparr>tr_From = lo, tr_To = hi\<rparr> ReadingKindLoadProfile))"

section \<open>Forward\<close>

definition slice_end :: "time \<Rightarrow> time \<Rightarrow> time" where
  "slice_end windowFrom upper =
     (let windowTo = windowFrom + rangeSliceWindow in if upper < windowTo then upper else windowTo)"

lemma slice_end_after: "windowFrom < upper \<Longrightarrow> windowFrom < slice_end windowFrom upper \<and> slice_end windowFrom upper \<le> upper"
  by (auto simp: slice_end_def Let_def rangeSliceWindow_def hour_def ns_per_sec_def)

definition forward_slice :: "ingest_world \<Rightarrow> scope \<Rightarrow> dec \<Rightarrow> meter_reading list \<Rightarrow> meter_reading list \<Rightarrow> (dec \<times> meter_reading list) hook_step" where
  "forward_slice W s cur batch rows =
     (if rows = [] then ok (cur, batch)
      else let cums = Accumulate cur rows
           in bnd (add_rows W s batch (with_export rows cums)) (\<lambda>batch. ok (last cums, batch)))"

function forward_loop :: "ingest_world \<Rightarrow> scope \<Rightarrow> uuid \<Rightarrow> time \<Rightarrow> time \<Rightarrow> dec \<Rightarrow> meter_reading list \<Rightarrow> unit hook_step" where
  "forward_loop W s a upper windowFrom cur batch =
     (if windowFrom < upper
      then bnd (load_profile_range W s a windowFrom (slice_end windowFrom upper)) (\<lambda>rows.
           bnd (forward_slice W s cur batch rows) (\<lambda>x.
           forward_loop W s a upper (slice_end windowFrom upper) (fst x) (snd x)))
      else flush W s batch)"
  by auto
termination
  by (relation "measure (\<lambda>(W, s, a, upper, windowFrom, cur, batch). nat (upper - windowFrom))")
    (use slice_end_after in \<open>auto simp: less_diff_eq\<close>)

declare forward_loop.simps [simp del]

definition recomputeForward :: "generation_world \<Rightarrow> ingest_world \<Rightarrow> scope \<Rightarrow> uuid \<Rightarrow> dec \<Rightarrow> time \<Rightarrow> time \<Rightarrow> unit hook_step" where
  "recomputeForward G W s a baseVal baseTs now =
     (let upper = now + gw_futureTolerance G; windowFrom = baseTs + 1000
      in if \<not> windowFrom < upper then ok () else forward_loop W s a upper windowFrom baseVal [])"

section \<open>Before the anchor\<close>

definition slice_start :: "time \<Rightarrow> time \<Rightarrow> time" where
  "slice_start windowTo lo =
     (let windowFrom = windowTo - rangeSliceWindow in if windowFrom < lo then lo else windowFrom)"

lemma slice_start_before: "lo < windowTo \<Longrightarrow> slice_start windowTo lo < windowTo \<and> lo \<le> slice_start windowTo lo"
  by (auto simp: slice_start_def Let_def rangeSliceWindow_def hour_def ns_per_sec_def)

definition backward_slice :: "ingest_world \<Rightarrow> scope \<Rightarrow> dec \<Rightarrow> dec \<Rightarrow> meter_reading list \<Rightarrow> meter_reading list \<Rightarrow> (dec \<times> meter_reading list) hook_step" where
  "backward_slice W s refVal sumAfter batch rows =
     (if rows = [] then ok (sumAfter, batch)
      else case AccumulateBackward refVal sumAfter rows of (vals, sumAfter) \<Rightarrow>
        bnd (add_rows W s batch (with_export rows vals)) (\<lambda>batch. ok (sumAfter, batch)))"

function older_loop :: "ingest_world \<Rightarrow> scope \<Rightarrow> uuid \<Rightarrow> dec \<Rightarrow> time \<Rightarrow> time \<Rightarrow> dec \<Rightarrow> meter_reading list \<Rightarrow> unit hook_step" where
  "older_loop W s a refVal lo windowTo sumAfter batch =
     (if lo < windowTo
      then bnd (load_profile_range W s a (slice_start windowTo lo) windowTo) (\<lambda>rows.
           bnd (backward_slice W s refVal sumAfter batch rows) (\<lambda>x.
           older_loop W s a refVal lo (slice_start windowTo lo) (fst x) (snd x)))
      else flush W s batch)"
  by auto
termination
  by (relation "measure (\<lambda>(W, s, a, refVal, lo, windowTo, sumAfter, batch). nat (windowTo - lo))")
    (use slice_start_before in \<open>auto simp: less_diff_eq\<close>)

declare older_loop.simps [simp del]

definition deriveOlderRows :: "ingest_world \<Rightarrow> scope \<Rightarrow> uuid \<Rightarrow> generation_anchor \<Rightarrow> time \<Rightarrow> unit hook_step" where
  "deriveOlderRows W s a anchor lo = older_loop W s a (ga_ActiveExport anchor) lo (ga_AnchorTs anchor + 1000) 0 []"

section \<open>Anchors\<close>

definition initial_anchor :: "uuid \<Rightarrow> time \<Rightarrow> generation_anchor" where
  "initial_anchor a firstTs =
     \<lparr>ga_AnalyzerID = a, ga_AnchorTs = firstTs - initialAnchorOffset, ga_ActiveExport = 0, ga_Source = ''initial'',
      ga_UpdatedAt = zero_time\<rparr>"

definition moveAnchorBack :: "ingest_world \<Rightarrow> scope \<Rightarrow> uuid \<Rightarrow> time \<Rightarrow> generation_anchor hook_step" where
  "moveAnchorBack W s a earliestTs =
     bnd (db_calls W (set_anchor W s (initial_anchor a earliestTs))) (\<lambda>_. ok (initial_anchor a earliestTs))"

definition createInitialAnchor :: "ingest_world \<Rightarrow> scope \<Rightarrow> uuid \<Rightarrow> time \<Rightarrow> time \<Rightarrow> generation_anchor hook_step" where
  "createInitialAnchor W s a lo hi =
     bnd (load_profile_range W s a (lo - initialAnchorLookback) (hi + 1000)) (\<lambda>rows.
       case rows of
         [] \<Rightarrow> (\<lambda>d. (Inl (Hook_failed (''generation: no load_profile rows in ['' @ RFC3339 utc (lo - initialAnchorLookback) @
                  '', '' @ RFC3339 utc hi @ ''] to anchor analyzer '' @ iw_uuid_string W a)), d))
       | first # _ \<Rightarrow> moveAnchorBack W s a (mr_Ts first))"

definition deriveBeforeAnchor :: "ingest_world \<Rightarrow> scope \<Rightarrow> uuid \<Rightarrow> generation_anchor \<Rightarrow> time \<Rightarrow> generation_anchor hook_step" where
  "deriveBeforeAnchor W s a anchor lo =
     bnd (load_profile_range W s a lo (ga_AnchorTs anchor + 1000)) (\<lambda>older.
       case older of
         [] \<Rightarrow> ok anchor
       | first # _ \<Rightarrow>
           if ga_Source anchor = ''initial'' then moveAnchorBack W s a (mr_Ts first)
           else bnd (deriveOlderRows W s a anchor lo) (\<lambda>_. ok anchor))"

text \<open>A missing anchor is created; any other error ends the hook.\<close>

definition current_anchor :: "ingest_world \<Rightarrow> scope \<Rightarrow> uuid \<Rightarrow> time \<Rightarrow> time \<Rightarrow> generation_anchor hook_step" where
  "current_anchor W s a lo hi d =
     (case repo W (get_anchor s a) d of
        (Inl e, d) \<Rightarrow> if e = Store_Scope.ErrNotFound then createInitialAnchor W s a lo hi d else (Inl (Store_failed e), d)
      | (Inr anchor, d) \<Rightarrow> (Inr anchor, d))"

text \<open>The last derived row before the page, or the anchor.\<close>

definition forward_base :: "ingest_world \<Rightarrow> scope \<Rightarrow> uuid \<Rightarrow> generation_anchor \<Rightarrow> time \<Rightarrow> (dec \<times> time) hook_step" where
  "forward_base W s a anchor lo =
     (if ga_AnchorTs anchor < lo
      then bnd (db_calls W (read_readings (\<lambda>r. Latest r s a \<lparr>tr_From = ga_AnchorTs anchor, tr_To = lo\<rparr> ReadingKindLoadProfile))) (\<lambda>latest.
        ok (case latest of
              None \<Rightarrow> (ga_ActiveExport anchor, ga_AnchorTs anchor)
            | Some r \<Rightarrow> (case mr_ActiveExport r of
                None \<Rightarrow> (ga_ActiveExport anchor, ga_AnchorTs anchor)
              | Some v \<Rightarrow> (v, mr_Ts r))))
      else ok (ga_ActiveExport anchor, ga_AnchorTs anchor))"

definition afterPersistLocked :: "generation_world \<Rightarrow> ingest_world \<Rightarrow> scope \<Rightarrow> uuid \<Rightarrow> time \<Rightarrow> time \<Rightarrow> unit hook_step" where
  "afterPersistLocked G W s a lo hi d =
     (let now = gw_now G d
      in bnd (current_anchor W s a lo hi) (\<lambda>anchor.
         bnd (if \<not> ga_AnchorTs anchor < lo then deriveBeforeAnchor W s a anchor lo else ok anchor) (\<lambda>anchor.
         bnd (forward_base W s a anchor lo) (\<lambda>(baseVal, baseTs).
         recomputeForward G W s a baseVal baseTs now))) d)"

definition AfterPersist :: "generation_world \<Rightarrow> ingest_world \<Rightarrow> fetch_hook" where
  "AfterPersist G W s an k lo hi =
     (if k \<noteq> ReadingKindLoadProfile \<or> an_Provider an \<noteq> IntegrationProviderPM5340 then ok ()
      else withAnalyzerLock G W (an_ID an) (afterPersistLocked G W s (an_ID an) lo hi))"

definition Recompute :: "generation_world \<Rightarrow> ingest_world \<Rightarrow> scope \<Rightarrow> uuid \<Rightarrow> unit hook_step" where
  "Recompute G W s a =
     withAnalyzerLock G W a (bnd (db_calls W (get_anchor s a)) (\<lambda>anchor d.
       recomputeForward G W s a (ga_ActiveExport anchor) (ga_AnchorTs anchor) (gw_now G d) d))"

section \<open>The contract of a hook\<close>

definition stays :: "uuid \<Rightarrow> 'a hook_step \<Rightarrow> bool" where
  "stays a m \<longleftrightarrow> (\<forall>d. distinct (analyzer_ids d) \<longrightarrow> grows a ReadingKindLoadProfile False 0 d (snd (m d)))"

lemma stays_post:
  assumes m: "stays a m" and f: "\<And>x. Q x \<Longrightarrow> stays a (f x)" and post: "\<And>d x d'. distinct (analyzer_ids d) \<Longrightarrow> m d = (Inr x, d') \<Longrightarrow> Q x"
  shows "stays a (bnd m f)"
  unfolding stays_def
proof (intro allI impI)
  fix d assume d: "distinct (analyzer_ids d)"
  obtain r d' where md: "m d = (r, d')" by (cases "m d")
  from m d have 1: "grows a ReadingKindLoadProfile False 0 d d'" unfolding stays_def by (metis md snd_conv)
  show "grows a ReadingKindLoadProfile False 0 d (snd (bnd m f d))"
  proof (cases r)
    case (Inr x)
    from 1 d have "distinct (analyzer_ids d')" by (simp add: grows_def)
    with f [OF post [OF d md [unfolded Inr]]] have "grows a ReadingKindLoadProfile False 0 d' (snd (f x d'))" by (simp add: stays_def)
    with grows_trans [OF 1 this] Inr show ?thesis by (simp add: bnd_def md)
  qed (use 1 in \<open>simp add: bnd_def md\<close>)
qed

named_theorems stays_intros

lemma stays_bnd [stays_intros]: "stays a m \<Longrightarrow> (\<And>x. stays a (f x)) \<Longrightarrow> stays a (bnd m f)"
  by (rule stays_post [where Q = "\<lambda>_. True"]) auto

lemma stays_ok [stays_intros]: "stays a (ok x)"
  by (simp add: stays_def ok_def)

lemma stays_if [stays_intros]: "stays a m \<Longrightarrow> stays a m' \<Longrightarrow> stays a (if b then m else m')"
  by simp

lemma db_calls_snd: "snd (db_calls W op d) = snd (repo W op d)"
  by (auto simp: db_calls_def split: prod.split sum.split)

lemma stays_quiet: "(\<And>d. quiet d (snd (op d))) \<Longrightarrow> stays a (db_calls W op)"
  unfolding stays_def db_calls_snd by (intro allI impI quiet_grows quiet_repo)

lemma stays_range [stays_intros]: "stays a (load_profile_range W s a' lo hi)"
  unfolding load_profile_range_def by (intro stays_quiet quiet)

lemma stays_set_anchor [stays_intros]: "stays a (db_calls W (set_anchor W s ga))"
  by (intro stays_quiet) (simp add: set_anchor_def quiet_def mark_def [abs_def] split: prod.split)

lemma stays_flush [stays_intros]: "own_rows a ReadingKindLoadProfile batch \<Longrightarrow> stays a (flush W s batch)"
proof -
  assume own: "own_rows a ReadingKindLoadProfile batch"
  have "stays a (db_calls W (bulk_insert W s batch))"
    unfolding stays_def db_calls_snd
    by (intro allI impI grows_repo [where P = "\<lambda>d. distinct (analyzer_ids d)"] bulk_insert_grows(1) own) simp_all
  then show ?thesis unfolding flush_def by (intro stays_intros)
qed

lemma own_rows_simps [simp]: "own_rows a k []" "own_rows a k (xs @ ys) \<longleftrightarrow> own_rows a k xs \<and> own_rows a k ys"
  "own_rows a k (r # rs) \<longleftrightarrow> (mr_AnalyzerID r = a \<and> (mr_Kind r = k \<or> mr_Kind r = ReadingKindReset)) \<and> own_rows a k rs"
  by (auto simp: own_rows_def)

lemma stays_add_rows:
  "own_rows a ReadingKindLoadProfile batch \<Longrightarrow> own_rows a ReadingKindLoadProfile rs \<Longrightarrow> stays a (add_rows W s batch rs)"
proof (induction W s batch rs rule: add_rows.induct)
  case (2 W s batch r rs)
  then show ?case by (simp, intro conjI impI stays_intros) auto
qed (simp add: stays_ok)

lemma own_add_rows:
  "own_rows a k batch \<Longrightarrow> own_rows a k rs \<Longrightarrow> add_rows W s batch rs d = (Inr b, d') \<Longrightarrow> own_rows a k b"
proof (induction W s batch rs arbitrary: d rule: add_rows.induct)
  case (2 W s batch r rs)
  then show ?case by (auto simp: bnd_def split: if_splits prod.splits sum.splits)
qed (simp add: ok_def)

lemma own_with_export: "own_rows a k rows \<Longrightarrow> own_rows a k (with_export rows vals)"
  by (auto simp: own_rows_def with_export_def dest: set_zip_leftD)

lemma own_range:
  assumes "load_profile_range W s a lo hi d = (Inr rows, d')"
  shows "own_rows a ReadingKindLoadProfile rows"
proof -
  from assms have "\<exists>r. Range_readings r s a \<lparr>tr_From = lo, tr_To = hi\<rparr> ReadingKindLoadProfile = Inr rows"
    by (auto simp: load_profile_range_def db_calls_def repo_def read_readings_def Let_def split: prod.splits sum.splits option.splits)
  then show ?thesis by (auto simp: Range_readings_eq seen_of_def readingFromRow_def own_rows_def split: if_splits)
qed

lemma stays_forward_loop: "own_rows a ReadingKindLoadProfile batch \<Longrightarrow> stays a (forward_loop W s a upper windowFrom cur batch)"
proof (induction W s a upper windowFrom cur batch rule: forward_loop.induct)
  case (1 W s a upper windowFrom cur batch)
  show ?case
  proof (cases "windowFrom < upper")
    case True
    have slice: "stays a (forward_slice W s cur batch rows)" if "own_rows a ReadingKindLoadProfile rows" for rows
      unfolding forward_slice_def Let_def by (intro stays_intros stays_add_rows own_with_export that 1(2))
    have rest: "own_rows a ReadingKindLoadProfile (snd x)"
      if "own_rows a ReadingKindLoadProfile rows" "forward_slice W s cur batch rows d = (Inr x, d')" for rows d x d'
      using own_add_rows [OF 1(2) own_with_export [OF that(1)]] that(2) 1(2)
      by (auto simp: forward_slice_def bnd_def ok_def Let_def split: if_splits prod.splits sum.splits)
    have "stays a (bnd (load_profile_range W s a windowFrom (slice_end windowFrom upper)) (\<lambda>rows.
           bnd (forward_slice W s cur batch rows) (\<lambda>x.
           forward_loop W s a upper (slice_end windowFrom upper) (fst x) (snd x))))"
    proof (rule stays_post [where Q = "own_rows a ReadingKindLoadProfile"])
      show "stays a (bnd (forward_slice W s cur batch rows) (\<lambda>x.
           forward_loop W s a upper (slice_end windowFrom upper) (fst x) (snd x)))" if own: "own_rows a ReadingKindLoadProfile rows" for rows
        by (rule stays_post [where Q = "\<lambda>x. own_rows a ReadingKindLoadProfile (snd x)", OF slice [OF own]])
          (use 1(1) [OF True] rest [OF own] in auto)
    qed (use own_range stays_range in auto)
    with True show ?thesis by (subst forward_loop.simps) simp
  next
    case False
    with 1(2) show ?thesis by (subst forward_loop.simps) (simp add: stays_flush)
  qed
qed

lemma stays_older_loop: "own_rows a ReadingKindLoadProfile batch \<Longrightarrow> stays a (older_loop W s a refVal lo windowTo sumAfter batch)"
proof (induction W s a refVal lo windowTo sumAfter batch rule: older_loop.induct)
  case (1 W s a refVal lo windowTo sumAfter batch)
  show ?case
  proof (cases "lo < windowTo")
    case True
    have slice: "stays a (backward_slice W s refVal sumAfter batch rows)" if "own_rows a ReadingKindLoadProfile rows" for rows
      unfolding backward_slice_def split_beta by (intro stays_intros stays_add_rows own_with_export that 1(2))
    have rest: "own_rows a ReadingKindLoadProfile (snd x)"
      if "own_rows a ReadingKindLoadProfile rows" "backward_slice W s refVal sumAfter batch rows d = (Inr x, d')" for rows d x d'
      using own_add_rows [OF 1(2) own_with_export [OF that(1)]] that(2) 1(2)
      by (auto simp: backward_slice_def bnd_def ok_def split: if_splits prod.splits sum.splits)
    have "stays a (bnd (load_profile_range W s a (slice_start windowTo lo) windowTo) (\<lambda>rows.
           bnd (backward_slice W s refVal sumAfter batch rows) (\<lambda>x.
           older_loop W s a refVal lo (slice_start windowTo lo) (fst x) (snd x))))"
    proof (rule stays_post [where Q = "own_rows a ReadingKindLoadProfile"])
      show "stays a (bnd (backward_slice W s refVal sumAfter batch rows) (\<lambda>x.
           older_loop W s a refVal lo (slice_start windowTo lo) (fst x) (snd x)))" if own: "own_rows a ReadingKindLoadProfile rows" for rows
        by (rule stays_post [where Q = "\<lambda>x. own_rows a ReadingKindLoadProfile (snd x)", OF slice [OF own]])
          (use 1(1) [OF True] rest [OF own] in auto)
    qed (use own_range stays_range in auto)
    with True show ?thesis by (subst older_loop.simps) simp
  next
    case False
    with 1(2) show ?thesis by (subst older_loop.simps) (simp add: stays_flush)
  qed
qed

lemma stays_recompute [stays_intros]: "stays a (recomputeForward G W s a baseVal baseTs now)"
  unfolding recomputeForward_def Let_def by (intro stays_intros stays_forward_loop) simp

lemma stays_move [stays_intros]: "stays a (moveAnchorBack W s a t)"
  unfolding moveAnchorBack_def by (intro stays_intros)

lemma stays_create [stays_intros]: "stays a (createInitialAnchor W s a lo hi)"
  unfolding createInitialAnchor_def
  by (intro stays_bnd stays_range) (auto simp: stays_def split: list.split intro: stays_move [unfolded stays_def, rule_format])

lemma stays_derive [stays_intros]: "stays a (deriveBeforeAnchor W s a anchor lo)"
  unfolding deriveBeforeAnchor_def deriveOlderRows_def
  by (intro stays_bnd stays_range) (auto split: list.split intro!: stays_intros stays_older_loop)

lemma stays_anchor [stays_intros]: "stays a (current_anchor W s a lo hi)"
  unfolding stays_def
proof (intro allI impI)
  fix d assume d: "distinct (analyzer_ids d)"
  obtain r d' where g: "repo W (get_anchor s a) d = (r, d')" by (cases "repo W (get_anchor s a) d")
  have "quiet d (snd (repo W (get_anchor s a) d))" by (intro quiet_repo) (simp add: get_anchor_def)
  then have q: "quiet d d'" by (simp add: g)
  then have "distinct (analyzer_ids d')" using d by (simp add: quiet_def)
  then have "grows a ReadingKindLoadProfile False 0 d' (snd (createInitialAnchor W s a lo hi d'))"
    using stays_create by (simp add: stays_def)
  with grows_trans [OF quiet_grows [OF q] this] quiet_grows [OF q]
  show "grows a ReadingKindLoadProfile False 0 d (snd (current_anchor W s a lo hi d))"
    by (auto simp: current_anchor_def g split: sum.split)
qed

lemma stays_base [stays_intros]: "stays a (forward_base W s a anchor lo)"
  unfolding forward_base_def by (intro stays_intros stays_quiet quiet)

lemma stays_hook: "stays a (AfterPersist G W s an ReadingKindLoadProfile lo hi)" if "an_ID an = a"
proof -
  have "stays a (bnd (current_anchor W s a lo hi) (\<lambda>anchor.
         bnd (if \<not> ga_AnchorTs anchor < lo then deriveBeforeAnchor W s a anchor lo else ok anchor) (\<lambda>anchor.
         bnd (forward_base W s a anchor lo) (\<lambda>(baseVal, baseTs). recomputeForward G W s a baseVal baseTs now))))" for now
    unfolding split_beta by (intro stays_intros)
  then have "stays a (afterPersistLocked G W s a lo hi)"
    by (simp add: stays_def afterPersistLocked_def Let_def)
  then have "stays a (withAnalyzerLock G W a (afterPersistLocked G W s a lo hi))"
    by (simp add: stays_def withAnalyzerLock_def split: option.split)
  then show ?thesis using that by (auto simp: AfterPersist_def intro: stays_ok)
qed

interpretation generation: post_persist_hook "AfterPersist G W" a k for G W a k
proof unfold_locales
  fix an :: analyzer and d s lo hi assume "an_ID an = a" and "distinct (analyzer_ids d)"
  with stays_hook [of an a G W s lo hi] show "grows a k False 0 d (snd (AfterPersist G W s an k lo hi d))"
    by (cases "k = ReadingKindLoadProfile") (auto simp: stays_def AfterPersist_def ok_def)
qed

text \<open>The hooks of the program (\<open>worker/wiring.go\<close>): this one, for one provider.\<close>

definition wired_hooks :: "generation_world \<Rightarrow> ingest_world \<Rightarrow> integration_provider \<Rightarrow> fetch_hook list" where
  "wired_hooks G W p = (if p = IntegrationProviderPM5340 then [AfterPersist G W] else [])"

lemma wired_hooks_keep: "iw_hooks W' = wired_hooks G W \<Longrightarrow> hooks_keep W' a k"
  using generation.post_persist_hook_axioms by (simp add: hooks_keep_def wired_hooks_def)

end
