(* ===== verification/Ingest_Laws.thy ===== *)
theory Ingest_Laws
  imports Generation_Hook
begin

text \<open>
  The properties of \<open>FetchReadings\<close> as a whole: what it may touch, that its cursor never runs ahead of the
  readings, and that it ends.
\<close>

text \<open>When a run may move the cursor, given the mark it finds.\<close>

definition may_advance :: "fetch_payload \<Rightarrow> time option \<Rightarrow> bool" where
  "may_advance p m \<longleftrightarrow>
     (case pl_Window p of None \<Rightarrow> True | Some w \<Rightarrow> (case m of None \<Rightarrow> False | Some t \<Rightarrow> From w \<le> t))"

lemma quiet_resolve: "quiet d (snd (resolveFetchWindow W sc p now d))"
  using quiet_repo [of "get_cursor sc (pl_AnalyzerID p) (pl_Kind p)" d W] quiet_get_cursor
  by (auto simp: resolveFetchWindow_def split: prod.split)

lemma Get_cursor_mark:
  "Get_cursor db cs s a k = Inr c \<Longrightarrow> mark_of cs a k = ic_LastTs c"
  by (auto simp: Get_cursor_def mark_of_def split: if_splits option.splits)

lemma resolve_allow:
  assumes "resolveFetchWindow W sc p now d = (Inr (f, t, allow), d')"
  shows "allow \<Longrightarrow> may_advance p (mark d (pl_AnalyzerID p) (pl_Kind p))"
    and "pl_Window p = None \<Longrightarrow> f = now - io_InitialLookback (iw_opts W) \<or> mark d (pl_AnalyzerID p) (pl_Kind p) = Some f"
proof -
  obtain cur d1 where cur: "repo W (get_cursor sc (pl_AnalyzerID p) (pl_Kind p)) d = (cur, d1)"
    by (cases "repo W (get_cursor sc (pl_AnalyzerID p) (pl_Kind p)) d")
  have m: "mark d (pl_AnalyzerID p) (pl_Kind p) = ic_LastTs c" if "cur = Inr c" for c
    using cur that Get_cursor_mark by (auto simp: repo_def Let_def get_cursor_def mark_def split: option.splits)
  show "allow \<Longrightarrow> may_advance p (mark d (pl_AnalyzerID p) (pl_Kind p))"
    using assms m by (auto simp: resolveFetchWindow_def cur may_advance_def not_less
        split: option.splits sum.splits if_splits)
  show "pl_Window p = None \<Longrightarrow> f = now - io_InitialLookback (iw_opts W) \<or> mark d (pl_AnalyzerID p) (pl_Kind p) = Some f"
    using assms m by (auto simp: resolveFetchWindow_def cur split: option.splits sum.splits if_splits)
qed

text \<open>Without a window, a run starts at the mark, or at the initial look-back exactly when there is no mark.\<close>

lemma resolve_from_mark:
  assumes "resolveFetchWindow W sc p now d = (Inr (f, t, allow), d')" and "pl_Window p = None"
    and "visible (fd_db d) sc (pl_AnalyzerID p)" and "\<forall>n. iw_outage W n \<noteq> Some Store_Scope.ErrNotFound"
  shows "f = (case mark d (pl_AnalyzerID p) (pl_Kind p) of Some m \<Rightarrow> m | None \<Rightarrow> now - io_InitialLookback (iw_opts W)) \<and> t = now"
proof -
  obtain cur d1 where cur: "repo W (get_cursor sc (pl_AnalyzerID p) (pl_Kind p)) d = (cur, d1)"
    by (cases "repo W (get_cursor sc (pl_AnalyzerID p) (pl_Kind p)) d")
  have some: "mark d (pl_AnalyzerID p) (pl_Kind p) = ic_LastTs c" if "cur = Inr c" for c
    using cur that Get_cursor_mark by (auto simp: repo_def Let_def get_cursor_def mark_def split: option.splits)
  have none: "mark d (pl_AnalyzerID p) (pl_Kind p) = None" if e: "cur = Inl Store_Scope.ErrNotFound"
  proof (cases "iw_outage W (fd_calls d)")
    case None
    then have "Get_cursor (fd_db d) (fd_cursors d) sc (pl_AnalyzerID p) (pl_Kind p) = Inl Store_Scope.ErrNotFound"
      using cur e by (simp add: repo_def Let_def get_cursor_def)
    then show ?thesis using assms(3) by (auto simp: Get_cursor_def mark_def mark_of_def split: if_splits option.splits)
  next
    case (Some x)
    then show ?thesis using cur e assms(4) by (auto simp: repo_def Let_def)
  qed
  show ?thesis
    using assms(1,2) some none by (auto simp: resolveFetchWindow_def cur split: option.splits sum.splits if_splits)
qed

lemma grows_quiet: "quiet d1 d2 \<Longrightarrow> grows a k allow n d2 d3 \<Longrightarrow> quiet d3 d4 \<Longrightarrow> grows a k allow n d1 d4"
  using grows_trans [OF grows_trans [OF quiet_grows [of d1 d2 a k allow 0]] quiet_grows [of d3 d4 a k allow 0]] by fastforce

lemma fetch_window_grows:
  assumes "hooks_keep (cx_world C) (pl_AnalyzerID p) (cx_kind C)" and "an_ID an = pl_AnalyzerID p"
    and "distinct (analyzer_ids d)" and "pl_Kind p = cx_kind C"
    and "fetch_window C p run an d = Some (res, d')"
  shows "grows (pl_AnalyzerID p) (cx_kind C) (may_advance p (mark d (pl_AnalyzerID p) (cx_kind C)))
      (nat (io_MaxPagesPerRun (iw_opts (cx_world C)))) d d'"
proof -
  obtain r d1 where rw: "resolveFetchWindow (cx_world C) (cx_scope C) p (cx_now C) d = (r, d1)"
    by (cases "resolveFetchWindow (cx_world C) (cx_scope C) p (cx_now C) d")
  have q1: "quiet d d1" using quiet_resolve [of d "cx_world C" "cx_scope C" p "cx_now C"] rw by simp
  show ?thesis
  proof (cases r)
    case (Inl e)
    with assms(5) rw show ?thesis
      by (auto simp: fetch_window_def Let_def intro!: quiet_grows quiet_trans [OF q1 quiet_finishRun])
  next
    case (Inr w)
    obtain f t allow where w: "w = (f, t, allow)" by (cases w)
    let ?C = "C\<lparr>cx_allow := allow\<rparr>"
    let ?s = "\<lparr>rs_db = d1, rs_acc = newFetchAccumulator, rs_streak = new_streak, rs_analyzer = an, rs_prev = None,
                       rs_history = [], rs_from = f\<rparr>"
    from assms(5) rw Inr w obtain chunks where
      run: "(if chunks = [] then (None, finishRun (cx_world C) (cx_scope C) run ''success'' 0 0 0 None
          (Some (detail newFetchAccumulator)) (cx_now C) d1)
        else case all_chunks ?C chunks 0 ?s of (Inl cause, s) \<Rightarrow> failFetchRun ?C run cause s | (Inr _, s) \<Rightarrow> finish_run ?C run s) = (res, d')"
      unfolding fetch_window_def Let_def by (auto simp: rw)
    then consider "d' = finishRun (cx_world C) (cx_scope C) run ''success'' 0 0 0 None (Some (detail newFetchAccumulator)) (cx_now C) d1"
      | s where "snd (all_chunks ?C chunks 0 ?s) = s" "quiet (rs_db s) d'"
      using quiet_failFetchRun quiet_finish_run
      by (auto split: if_splits prod.splits sum.splits) (metis snd_conv)+
    then show ?thesis
    proof cases
      case 1
      then show ?thesis using quiet_trans [OF q1 quiet_finishRun] quiet_grows by blast
    next
      case (2 s)
      have "hooks_keep (cx_world ?C) (pl_AnalyzerID p) (cx_kind ?C)" "ready (pl_AnalyzerID p) ?s"
        using assms(1,2,3) q1 by (simp_all add: ready_def quiet_def)
      from all_chunks_grows [OF this, of chunks 0] 2(1)
      have "grows (pl_AnalyzerID p) (cx_kind C) allow (nat (io_MaxPagesPerRun (iw_opts (cx_world C)))) d1 (rs_db s)"
        by (simp add: pages_left_def)
      moreover have "allow \<Longrightarrow> may_advance p (mark d (pl_AnalyzerID p) (cx_kind C))"
        using resolve_allow(1) [OF rw [unfolded Inr w]] assms(4) by simp
      ultimately have "grows (pl_AnalyzerID p) (cx_kind C) (may_advance p (mark d (pl_AnalyzerID p) (cx_kind C)))
          (nat (io_MaxPagesPerRun (iw_opts (cx_world C)))) d1 (rs_db s)"
        by (cases allow) (auto intro: grows_allow)
      with q1 2(2) show ?thesis using grows_quiet by blast
    qed
  qed
qed

lemma fetch_started_grows:
  assumes "hooks_keep W (pl_AnalyzerID p) (pl_Kind p)" and "distinct (analyzer_ids d)"
    and "fetch_started W now p run d = Some (res, d')"
  shows "grows (pl_AnalyzerID p) (pl_Kind p) (may_advance p (mark d (pl_AnalyzerID p) (pl_Kind p)))
      (nat (io_MaxPagesPerRun (iw_opts W))) d d'"
proof -
  let ?sc = "SystemScope (pl_CompanyID p)"
  let ?goal = "grows (pl_AnalyzerID p) (pl_Kind p) (may_advance p (mark d (pl_AnalyzerID p) (pl_Kind p)))
      (nat (io_MaxPagesPerRun (iw_opts W))) d d'"
  obtain r d1 where get: "repo W (Get_analyzer ?sc (pl_AnalyzerID p)) d = (r, d1)"
    by (cases "repo W (Get_analyzer ?sc (pl_AnalyzerID p)) d")
  have "quiet d (snd (repo W (Get_analyzer ?sc (pl_AnalyzerID p)) d))" by (intro quiet_repo quiet)
  with get have q1: "quiet d d1" by simp
  have stop: "snd (refuse W ?sc run now why e d1) = d' \<Longrightarrow> ?goal" for why e
    unfolding refuse_def using quiet_grows [OF quiet_trans [OF q1 quiet_finishRun]] by auto
  have told: "d' = appendMessage W ?sc c kn cat st m j (finishRun W ?sc run s x y z u v now d1) \<Longrightarrow> ?goal" for c kn cat st m j s x y z u v
    using quiet_grows [OF quiet_trans [OF quiet_trans [OF q1 quiet_finishRun] quiet_appendMessage]] by auto
  show ?thesis
  proof (cases r)
    case (Inl e)
    then have "refuse W ?sc run now (iw_error_text W (Store_failed e)) (classifyStoreErr (Store_failed e)) d1 = (res, d')"
      using assms(3) by (simp add: fetch_started_def get Let_def del: classifyStoreErr.simps)
    then show ?thesis by (metis stop snd_conv)
  next
    case (Inr an)
    have id: "an_ID an = pl_AnalyzerID p"
      using repo_Inr [of W "Get_analyzer ?sc (pl_AnalyzerID p)" d an d1] get Inr
      by (auto simp: Get_analyzer_def split: if_splits option.splits)
    let ?C = "\<lambda>creds. \<lparr>cx_world = W, cx_company = pl_CompanyID p, cx_kind = pl_Kind p, cx_creds = creds, cx_now = now, cx_allow = False\<rparr>"
    consider "\<exists>why e. snd (refuse W ?sc run now why e d1) = d'"
      | c kn cat st m j s x y z u v where "d' = appendMessage W ?sc c kn cat st m j (finishRun W ?sc run s x y z u v now d1)"
      | creds where "fetch_window (?C creds) p run an d1 = Some (res, d')"
      using assms(3) unfolding fetch_started_def get Inr fetch_checked_def Let_def refuse_def
      by (auto split: if_splits sum.splits option.splits)
    then show ?thesis
    proof cases
      case 1
      with stop show ?thesis by blast
    next
      case 2
      then show ?thesis by (rule told)
    next
      case (3 creds)
      have "distinct (analyzer_ids d1)" "mark d1 = mark d" using q1 assms(2) by (simp_all add: quiet_def)
      with fetch_window_grows [OF _ id _ _ 3] assms(1) q1 show ?thesis
        using grows_quiet [OF q1 _ quiet_refl] by auto
    qed
  qed
qed

lemma FetchReadings_grows:
  assumes "hooks_keep W (pl_AnalyzerID p) (pl_Kind p)" and "distinct (analyzer_ids d)"
    and "FetchReadings W now p d = Some (res, d')"
  shows "grows (pl_AnalyzerID p) (pl_Kind p) (may_advance p (mark d (pl_AnalyzerID p) (pl_Kind p)))
      (nat (io_MaxPagesPerRun (iw_opts W))) d d'"
proof -
  let ?start = "repo W (StartRun (SystemScope (pl_CompanyID p)) (run_row W p d)) d"
  have q: "quiet d (snd ?start)" by (intro quiet_repo quiet)
  show ?thesis
  proof (cases "fst ?start")
    case (Inl e)
    with assms(3) q quiet_grows show ?thesis by (auto simp: FetchReadings_def split: prod.splits)
  next
    case (Inr run)
    with assms(3) have "fetch_started W now p (jr_ID run) (snd ?start) = Some (res, d')"
      by (auto simp: FetchReadings_def split: prod.splits)
    moreover have "distinct (analyzer_ids (snd ?start))" "mark (snd ?start) = mark d" using q assms(2) by (simp_all add: quiet_def)
    ultimately show ?thesis using fetch_started_grows [OF assms(1)] grows_quiet [OF q _ quiet_refl] by metis
  qed
qed

section \<open>A run ends\<close>

text \<open>The earliest instant a run may fetch on: the start of its window, else the mark or the initial look-back.\<close>

definition starts_after :: "ingest_world \<Rightarrow> time \<Rightarrow> fetch_payload \<Rightarrow> fetch_db \<Rightarrow> time \<Rightarrow> bool" where
  "starts_after W now p d t0 \<longleftrightarrow>
     (case pl_Window p of
        Some w \<Rightarrow> t0 \<le> From w
      | None \<Rightarrow> t0 \<le> now - io_InitialLookback (iw_opts W) \<and>
          (case mark d (pl_AnalyzerID p) (pl_Kind p) of None \<Rightarrow> True | Some m \<Rightarrow> t0 \<le> m))"

lemma resolve_starts:
  assumes "resolveFetchWindow W sc p now d = (Inr (f, t, allow), d')" and "starts_after W now p d t0"
  shows "t0 \<le> f"
proof (cases "pl_Window p")
  case None
  with resolve_allow(2) [OF assms(1)] assms(2) show ?thesis by (auto simp: starts_after_def)
next
  case (Some w)
  with assms show ?thesis
    by (auto simp: resolveFetchWindow_def starts_after_def split: prod.splits sum.splits option.splits if_splits)
qed

lemma FetchReadings_ends:
  assumes "regular_from (iw_location W) t0" and "starts_after W now p d t0"
  shows "\<exists>res d'. FetchReadings W now p d = Some (res, d')"
proof -
  have win: "\<exists>res d'. fetch_window C p run an d = Some (res, d')"
    if "cx_world C = W" "cx_now C = now" "starts_after W now p d t0" for C run an d
  proof -
    note late = that(3)
    obtain r d1 where rw: "resolveFetchWindow W (cx_scope C) p now d = (r, d1)"
      by (cases "resolveFetchWindow W (cx_scope C) p now d")
    show ?thesis
    proof (cases r)
      case (Inl e)
      then show ?thesis by (simp add: fetch_window_def Let_def that rw)
    next
      case (Inr w)
      obtain f t allow where w: "w = (f, t, allow)" by (cases w)
      obtain chunks where "Chunk (iw_location W) f t (iw_max_window W (cr_Provider (cx_creds C)) (cx_kind C)) = Some chunks"
        using Chunk_ends [OF assms(1)] resolve_starts [OF rw [unfolded Inr w] late] by blast
      then have "\<exists>x. fetch_window C p run an d = Some x"
        by (simp add: fetch_window_def that rw Inr w del: split_paired_Ex)
      then show ?thesis by auto
    qed
  qed
  have checked: "\<exists>res d'. fetch_checked C p run an d = Some (res, d')"
    if "cx_world C = W" "cx_now C = now" "starts_after W now p d t0" for C run an d
    using win [OF that, of run an]
    by (auto simp: fetch_checked_def Let_def split: option.split)
  have started: "\<exists>res d'. fetch_started W now p run d1 = Some (res, d')" if "mark d1 = mark d" for run d1
  proof -
    define got where "got = repo W (Get_analyzer (SystemScope (pl_CompanyID p)) (pl_AnalyzerID p)) d1"
    have "mark (snd got) = mark d1" using quiet_repo [of "Get_analyzer (SystemScope (pl_CompanyID p)) (pl_AnalyzerID p)" d1 W] quiet
      by (simp add: got_def quiet_def)
    then have "starts_after W now p (snd got) t0" using that assms(2) by (simp only: starts_after_def)
    with checked show ?thesis
      by (auto simp: fetch_started_def Let_def got_def split: prod.split sum.split)
  qed
  have "mark (snd (repo W (StartRun (SystemScope (pl_CompanyID p)) (run_row W p d)) d)) = mark d"
    using quiet_repo [of "StartRun (SystemScope (pl_CompanyID p)) (run_row W p d)" d W] quiet by (simp add: quiet_def)
  with started show ?thesis by (auto simp: FetchReadings_def split: prod.split sum.split)
qed

text \<open>C16. A fetch ends, and asks the provider a bounded number of times. Where the location is regular from the earliest instant the run may
  fetch on (a local date is reached at its midnight, as in Istanbul), in a database whose analyzers have distinct identifiers, with any
  hooks that keep to their contract, whatever the provider answers (pages without end, cursors that go nowhere, errors) and whatever
  calls of the database fail, the run returns; it has sent at most \<open>MaxPagesPerRun\<close> requests, every one about
  its own analyzer and kind.\<close>

theorem FetchReadings_terminates:
  assumes "regular_from (iw_location W) t0" and "starts_after W now p d t0"
    and "hooks_keep W (pl_AnalyzerID p) (pl_Kind p)" and "distinct (analyzer_ids d)"
  shows "\<exists>res d' new. FetchReadings W now p d = Some (res, d') \<and> fd_requests d' = fd_requests d @ new
       \<and> length new \<le> nat (io_MaxPagesPerRun (iw_opts W))
       \<and> (\<forall>rq \<in> set new. rq_AnalyzerID rq = pl_AnalyzerID p \<and> rq_Kind rq = pl_Kind p)"
proof -
  obtain res d' where "FetchReadings W now p d = Some (res, d')" using FetchReadings_ends [OF assms(1,2)] by blast
  with FetchReadings_grows [OF assms(3,4) this] show ?thesis unfolding grows_def asks_def by blast
qed

section \<open>What a run may touch\<close>

text \<open>C15. A run touches what it is about. However it ends, the rows of the readings table under the keys of another
  analyzer, or of a kind that is neither the one asked for nor a reset, are the same afterwards, and no row is
  lost. Only the cursor of this analyzer and kind may have another mark; it is then later than before and the instant of a
  stored reading of that kind, and the run was one that follows the cursor, or one over an explicit window
  that starts no later than the mark: an explicit window never creates a mark and never jumps over a gap.\<close>

theorem FetchReadings_confined:
  assumes "hooks_keep W (pl_AnalyzerID p) (pl_Kind p)" and "distinct (analyzer_ids d)"
    and "FetchReadings W now p d = Some (res, d')"
  shows "(\<forall>a t k. (a, k) \<noteq> (pl_AnalyzerID p, pl_Kind p) \<and> (a, k) \<noteq> (pl_AnalyzerID p, ReadingKindReset) \<longrightarrow>
            stored_at d' (a, t, k) = stored_at d (a, t, k))
       \<and> (\<forall>key. stored_at d key \<noteq> None \<longrightarrow> stored_at d' key \<noteq> None)
       \<and> (\<forall>a k. mark d' a k \<noteq> mark d a k \<longrightarrow>
            (a, k) = (pl_AnalyzerID p, pl_Kind p) \<and>
            (\<exists>t. mark d' a k = Some (t * 1000) \<and> (\<forall>t0. mark d a k = Some t0 \<longrightarrow> t0 < t * 1000) \<and> stored_at d' (a, t, k) \<noteq> None) \<and>
            (case pl_Window p of None \<Rightarrow> True | Some w \<Rightarrow> \<exists>t0. mark d a k = Some t0 \<and> From w \<le> t0))"
proof -
  let ?a = "pl_AnalyzerID p" and ?k = "pl_Kind p"
  from FetchReadings_grows [OF assms]
  have rows: "rows_grow ?a ?k d d'" and marks: "marks_follow ?a ?k (may_advance p (mark d ?a ?k)) d d'" by (simp_all add: grows_def)
  have 1: "stored_at d' (a, t, k) = stored_at d (a, t, k)" if "(a, k) \<noteq> (?a, ?k) \<and> (a, k) \<noteq> (?a, ReadingKindReset)" for a t k
    using rows [unfolded rows_grow_def, rule_format, of "(a, t, k)"] that by auto
  have 2: "stored_at d' key \<noteq> None" if "stored_at d key \<noteq> None" for key
    using rows_grow_stored [OF rows that] .
  have 3: "(a, k) = (?a, ?k) \<and>
            (\<exists>t. mark d' a k = Some (t * 1000) \<and> (\<forall>t0. mark d a k = Some t0 \<longrightarrow> t0 < t * 1000) \<and> stored_at d' (a, t, k) \<noteq> None) \<and>
            (case pl_Window p of None \<Rightarrow> True | Some w \<Rightarrow> \<exists>t0. mark d a k = Some t0 \<and> From w \<le> t0)"
    if "mark d' a k \<noteq> mark d a k" for a k
  proof -
    from marks [unfolded marks_follow_def, rule_format, of a k] that
    obtain t where t: "may_advance p (mark d ?a ?k)" "a = ?a" "k = ?k" "mark d' ?a ?k = Some (t * 1000)"
      "\<forall>t0. mark d ?a ?k = Some t0 \<longrightarrow> t0 \<le> t * 1000" "stored_at d' (?a, t, ?k) \<noteq> None" by blast
    have "t0 < t * 1000" if "mark d ?a ?k = Some t0" for t0
      using t(2,3,4,5) that \<open>mark d' a k \<noteq> mark d a k\<close> by force
    with t show ?thesis by (auto simp: may_advance_def split: option.splits)
  qed
  show ?thesis using 1 2 3 by blast
qed

section \<open>The cursor and the readings\<close>

definition marks_backed :: "fetch_db \<Rightarrow> bool" where
  "marks_backed d \<longleftrightarrow> (\<forall>a k m. mark d a k = Some m \<longrightarrow> (\<exists>t. m = t * 1000 \<and> stored_at d (a, t, k) \<noteq> None))"

text \<open>C14. The cursor is never ahead of the readings. If every mark is the instant of a stored reading of its analyzer and kind, then so it
  is after any run, successful, partial or failed at any call. So the next run that follows the cursor of an analyzer its scope sees
  (the database never reporting an outage as not found) covers the time up to its clock from exactly the mark, which is then the
  instant of a stored reading, and from the initial look-back only where there is no mark: no instant between is skipped.\<close>

theorem cursor_backed:
  assumes "hooks_keep W (pl_AnalyzerID p) (pl_Kind p)" and "distinct (analyzer_ids d)" and "marks_backed d"
    and "FetchReadings W now p d = Some (res, d')"
  shows "marks_backed d' \<and>
    (\<forall>W' sc q now' f t allow d''. pl_Window q = None \<and> visible (fd_db d') sc (pl_AnalyzerID q) \<and>
         (\<forall>n. iw_outage W' n \<noteq> Some Store_Scope.ErrNotFound) \<and>
         resolveFetchWindow W' sc q now' d' = (Inr (f, t, allow), d'') \<longrightarrow>
       t = now' \<and>
       (case mark d' (pl_AnalyzerID q) (pl_Kind q) of
          None \<Rightarrow> f = now' - io_InitialLookback (iw_opts W')
        | Some m \<Rightarrow> f = m \<and> (\<exists>u. m = u * 1000 \<and> stored_at d' (pl_AnalyzerID q, u, pl_Kind q) \<noteq> None)))"
proof -
  let ?a = "pl_AnalyzerID p" and ?k = "pl_Kind p"
  from FetchReadings_grows [OF assms(1,2,4)]
  have rows: "rows_grow ?a ?k d d'" and marks: "marks_follow ?a ?k (may_advance p (mark d ?a ?k)) d d'" by (simp_all add: grows_def)
  have "\<exists>t. m = t * 1000 \<and> stored_at d' (a, t, k) \<noteq> None" if m: "mark d' a k = Some m" for a k m
  proof (cases "mark d' a k = mark d a k")
    case True
    with m assms(3) obtain t where "m = t * 1000" "stored_at d (a, t, k) \<noteq> None" unfolding marks_backed_def by metis
    with rows_grow_stored [OF rows] show ?thesis by blast
  next
    case False
    with marks [unfolded marks_follow_def, rule_format, of a k] m show ?thesis by auto
  qed
  then have backed: "marks_backed d'" unfolding marks_backed_def by blast
  moreover have "t = now' \<and>
       (case mark d' (pl_AnalyzerID q) (pl_Kind q) of
          None \<Rightarrow> f = now' - io_InitialLookback (iw_opts W')
        | Some m \<Rightarrow> f = m \<and> (\<exists>u. m = u * 1000 \<and> stored_at d' (pl_AnalyzerID q, u, pl_Kind q) \<noteq> None))"
    if "pl_Window q = None \<and> visible (fd_db d') sc (pl_AnalyzerID q) \<and> (\<forall>n. iw_outage W' n \<noteq> Some Store_Scope.ErrNotFound) \<and>
         resolveFetchWindow W' sc q now' d' = (Inr (f, t, allow), d'')" for W' sc q now' f t allow d''
  proof -
    have "f = (case mark d' (pl_AnalyzerID q) (pl_Kind q) of Some m \<Rightarrow> m | None \<Rightarrow> now' - io_InitialLookback (iw_opts W')) \<and> t = now'"
      using that resolve_from_mark by blast
    then show ?thesis using backed unfolding marks_backed_def by (cases "mark d' (pl_AnalyzerID q) (pl_Kind q)") auto
  qed
  ultimately show ?thesis by blast
qed

section \<open>Samples\<close>

text \<open>A provider that answers every request with one row and another page.\<close>

definition sample_point :: analyzer where
  "sample_point =
     \<lparr>an_ID = 7, an_CompanyID = 100, an_BuildingID = None, an_Provider = IntegrationProviderPM5340,
      an_ProviderSubtype = ''std'', an_InstallationNumber = ''1'', an_CustomerName = None, an_Address = None,
      an_Province = None, an_District = None, an_Neighbourhood = None, an_Street = None, an_TariffType = None,
      an_TariffKind = None, an_InstallationKind = None, an_InstalledPowerKw = None, an_MeterNumber = None,
      an_MeterModel = None, an_MeterMultiplier = 1, an_CounterpartyNo = None, an_MeteringPointName = None,
      an_Latitude = None, an_Longitude = None, an_EtsoCode = None, an_DefinitionType = None, an_LastReadingAt = None,
      an_IsActive = True, an_CreatedAt = 0, an_UpdatedAt = 0, an_DeletedAt = None\<rparr>"

definition sample_fetch_db :: fetch_db where
  "sample_fetch_db =
     \<lparr>fd_store = \<lparr>cd_readings = sample_db [], cd_anomalies = [], cd_users = [], cd_messages = []\<rparr>, fd_cursors = [],
      fd_analyzers = [7 \<mapsto> sample_point], fd_lasts = Map.empty, fd_runs = [], fd_anchors = Map.empty, fd_hourly = [],
      fd_refreshes = [], fd_requests = [], fd_calls = 0\<rparr>"

definition sample_ingest_world :: "(integration_provider \<Rightarrow> fetch_hook list) \<Rightarrow> ingest_world" where
  "sample_ingest_world hooks =
     \<lparr>iw_lib = std_declib, iw_opts = sample_opts, iw_refresh_enabled = True, iw_location = istanbul_2016,
      iw_outage = (\<lambda>_. None),
      iw_answer = (\<lambda>n rq. Inr \<lparr>fr_Readings = [sample_row 7 (rq_From rq) (of_nat n)], fr_ResolvedMultiplier = None,
         fr_NextCursor = Some (rq_From rq + hour), fr_Warnings = [], fr_HourlyValues = []\<rparr>),
      iw_max_window = (\<lambda>_ _. 24 * hour), iw_source = (\<lambda>_. None),
      iw_credentials = (\<lambda>_ _. Inr \<lparr>cr_Provider = ProviderPM5340, cr_Subtype = ''std'', cr_Secrets = sample_secrets, cr_IsActive = True\<rparr>),
      iw_hooks = hooks, iw_reading_columns = Some, iw_hourly_columns = Some, iw_anchor_column = (\<lambda>v. v),
      iw_analyzer_columns = Some, iw_building_live = (\<lambda>_ _ _. True), iw_db_now = (\<lambda>_. 0), iw_new_id = (\<lambda>d. fd_calls d),
      iw_message_id = (\<lambda>d. int (fd_calls d)), iw_uuid_string = (\<lambda>_. []), iw_error_text = (\<lambda>_. ''error''), iw_enqueuer = None\<rparr>"

definition wired_world :: ingest_world where
  "wired_world =
     sample_ingest_world (wired_hooks \<lparr>gw_now = (\<lambda>_. 0), gw_futureTolerance = 900 * ns_per_sec, gw_lock = (\<lambda>_ _. None)\<rparr>
       (sample_ingest_world (\<lambda>_. [])))"

definition sample_payload :: fetch_payload where
  "sample_payload = \<lparr>pl_CompanyID = 100, pl_CredentialID = 1, pl_AnalyzerID = 7, pl_Kind = ReadingKindLoadProfile, pl_Window = None\<rparr>"

lemma wired_world_ok:
  "regular_from (iw_location wired_world) 0" "starts_after wired_world (1000 * hour) sample_payload sample_fetch_db 0" "hooks_keep wired_world (pl_AnalyzerID sample_payload) (pl_Kind sample_payload)"
  "distinct (analyzer_ids sample_fetch_db)" "marks_backed sample_fetch_db"
  by (simp_all add: wired_world_def sample_ingest_world_def sample_fetch_db_def sample_db_def marks_backed_def mark_def mark_of_def
      wired_hooks_keep istanbul_regular starts_after_def sample_payload_def sample_opts_def hour_def ns_per_sec_def)

theorem FetchReadings_terminates_witness:
  "\<exists>res d' new. FetchReadings wired_world (1000 * hour) sample_payload sample_fetch_db = Some (res, d') \<and>
     fd_requests d' = new \<and> length new \<le> nat (io_MaxPagesPerRun (iw_opts wired_world))"
  using FetchReadings_terminates [OF wired_world_ok(1-4)] by (fastforce simp: sample_fetch_db_def)

theorem FetchReadings_confined_witness:
  "\<exists>res d'. FetchReadings wired_world (1000 * hour) sample_payload sample_fetch_db = Some (res, d') \<and>
     stored_at d' (8, 5, ReadingKindLoadProfile) = None"
proof -
  obtain res d' where run: "FetchReadings wired_world (1000 * hour) sample_payload sample_fetch_db = Some (res, d')"
    using FetchReadings_ends [OF wired_world_ok(1,2)] by blast
  have "stored_at sample_fetch_db (8, 5, ReadingKindLoadProfile) = None"
    by (simp add: sample_fetch_db_def sample_db_def row_at_None row_key_def sample_row_def)
  moreover have "stored_at d' (8, 5, ReadingKindLoadProfile) = stored_at sample_fetch_db (8, 5, ReadingKindLoadProfile)"
    using FetchReadings_confined [OF wired_world_ok(3,4) run] by (simp add: sample_payload_def)
  ultimately show ?thesis using run by auto
qed

theorem cursor_backed_witness:
  "\<exists>res d'. FetchReadings wired_world (1000 * hour) sample_payload sample_fetch_db = Some (res, d') \<and> marks_backed d'"
proof -
  obtain res d' where run: "FetchReadings wired_world (1000 * hour) sample_payload sample_fetch_db = Some (res, d')"
    using FetchReadings_ends [OF wired_world_ok(1,2)] by blast
  with cursor_backed [OF wired_world_ok(3-5) run] show ?thesis by blast
qed

end
