(* ===== verification/Auth_Roles.thy ===== *)
theory Auth_Roles
  imports Model_Types "HOL-Library.Word" "HOL-Library.List_Lexorder" "HOL-Library.Char_ord"
begin

unbundle bit_operations_syntax

text \<open>
  \<open>src/internal/auth/roles.go\<close>: sets of roles as the low bits of a byte, and the table that says which roles hold
  a permission. The invariant of the type is \<open>role_set_ok\<close>: only the bits of the six known roles are ever set.
\<close>

section \<open>Sets of roles\<close>

type_synonym role_set = "8 word"

text \<open>The loop of \<open>roleBit\<close>: the bit of the first known role equal to the one asked for.\<close>

fun role_bit_from :: "nat \<Rightarrow> user_role list \<Rightarrow> user_role \<Rightarrow> role_set" where
  "role_bit_from i [] r = 0"
| "role_bit_from i (known # ks) r = (if known = r then push_bit i 1 else role_bit_from (Suc i) ks r)"

definition roleBit :: "user_role \<Rightarrow> role_set" where
  "roleBit r = role_bit_from 0 UserRoles r"

definition Roles :: "user_role list \<Rightarrow> role_set" where
  "Roles rs = fold (\<lambda>r s. s OR roleBit r) rs 0"

definition Has :: "role_set \<Rightarrow> user_role \<Rightarrow> bool" where
  "Has s r = (let b = roleBit r in b \<noteq> 0 \<and> s AND b \<noteq> 0)"

definition List_roles :: "role_set \<Rightarrow> user_role list" where
  "List_roles s = filter (Has s) UserRoles"

definition AllRoles :: role_set where "AllRoles = Roles UserRoles"

definition WriteRoles :: role_set where
  "WriteRoles = Roles [UserRoleAdmin, UserRoleCompanyAdmin, UserRoleBuildingAdmin]"

definition IsReadOnly :: "user_role \<Rightarrow> bool" where
  "IsReadOnly r \<longleftrightarrow> r = UserRoleCompanyReadonlyAdmin \<or> r = UserRoleBuildingReadonlyAdmin \<or> r = UserRoleDemo"

section \<open>Permissions\<close>

abbreviation roleA :: user_role where "roleA \<equiv> UserRoleAdmin"
abbreviation roleCA :: user_role where "roleCA \<equiv> UserRoleCompanyAdmin"
abbreviation roleCR :: user_role where "roleCR \<equiv> UserRoleCompanyReadonlyAdmin"
abbreviation roleBA :: user_role where "roleBA \<equiv> UserRoleBuildingAdmin"
abbreviation roleBR :: user_role where "roleBR \<equiv> UserRoleBuildingReadonlyAdmin"

text \<open>A map, here in the order it is written.\<close>

definition permissionTable :: "(string \<times> role_set) list" where
  "permissionTable =
     [(''write'', WriteRoles),
      (''nav.core'', AllRoles),
      (''nav.solar_plants'', Roles [roleA, roleCA, roleCR]),
      (''nav.financial'', Roles [roleA, roleCA, roleCR]),
      (''admin.companies'', Roles [roleA]),
      (''settings.integrations'', Roles [roleA]),
      (''settings.company'', Roles [roleA, roleCA, roleCR]),
      (''settings.company.edit'', Roles [roleA, roleCA]),
      (''settings.buildings'', Roles [roleA, roleCA, roleCR]),
      (''settings.plants'', Roles [roleA, roleCA, roleCR]),
      (''settings.users'', Roles [roleA, roleCA, roleCR]),
      (''settings.analyzers'', Roles [roleA, roleCA, roleCR, roleBA, roleBR]),
      (''settings.analyzers.edit'', Roles [roleA, roleCA]),
      (''anomaly.check'', Roles [roleA, roleCA, roleBA]),
      (''settings.smtp'', Roles [roleA]),
      (''analyzers.refresh'', Roles [roleA, roleCA, roleBA]),
      (''bills.compute'', Roles [roleA, roleCA, roleBA]),
      (''calendar.edit'', Roles [roleA, roleCA]),
      (''integrations.credentials'', Roles [roleA, roleCA]),
      (''alarms.read'', AllRoles),
      (''alarms.edit'', Roles [roleA, roleCA, roleBA]),
      (''alarms.evaluate'', Roles [roleA, roleCA]),
      (''messages.read'', AllRoles),
      (''jobs.runs.read'', Roles [roleA, roleCA]),
      (''jobs.trigger'', Roles [roleA]),
      (''bills.read'', AllRoles),
      (''tariffs.read'', AllRoles),
      (''tariffs.edit'', Roles [roleA, roleCA]),
      (''tariffs.templates.read'', Roles [roleA, roleCA, roleCR]),
      (''tariffs.bulk.read'', Roles [roleA, roleCA, roleCR]),
      (''tariffs.icmal'', Roles [roleA, roleCA]),
      (''tariffs.defaults'', Roles [roleA]),
      (''solar_tariffs.read'', Roles [roleA, roleCA, roleCR]),
      (''reports.read'', AllRoles),
      (''reports.generate'', Roles [roleA, roleCA, roleBA]),
      (''reports.email'', Roles [roleA, roleCA, roleBA]),
      (''plants.read'', Roles [roleA, roleCA, roleCR]),
      (''plants.manage'', Roles [roleA, roleCA]),
      (''financial.read'', Roles [roleA, roleCA, roleCR]),
      (''renewable.read'', AllRoles),
      (''carbon.read'', AllRoles),
      (''carbon.edit'', Roles [roleA, roleCA]),
      (''iso50001.read'', AllRoles),
      (''iso50001.edit'', Roles [roleA, roleCA, roleBA]),
      (''forecast.read'', AllRoles),
      (''forecast.run'', Roles [roleA, roleCA, roleBA])]"

definition PermissionsFor :: "user_role \<Rightarrow> string list" where
  "PermissionsFor r =
     (if \<not> UserRole_Valid r then [] else sort (map fst (filter (\<lambda>p. Has (snd p) r) permissionTable)))"

definition AllPermissions :: "string list" where
  "AllPermissions = sort (map fst permissionTable)"

section \<open>Laws\<close>

definition role_set_ok :: "role_set \<Rightarrow> bool" where
  "role_set_ok s \<longleftrightarrow> s AND AllRoles = s"

lemma roleBit_known [simp]:
  "roleBit UserRoleAdmin = 1" "roleBit UserRoleCompanyAdmin = 2" "roleBit UserRoleCompanyReadonlyAdmin = 4"
  "roleBit UserRoleBuildingAdmin = 8" "roleBit UserRoleBuildingReadonlyAdmin = 16" "roleBit UserRoleDemo = 32"
  "roleBit (UserRoleOther x) = 0"
  by (simp_all add: roleBit_def UserRoles_def)

lemma AllRoles_bits: "AllRoles = 63"
  by (simp add: AllRoles_def Roles_def UserRoles_def)

lemma roleBit_valid: "roleBit r \<noteq> 0 \<longleftrightarrow> UserRole_Valid r"
  by (cases r) (auto simp: UserRole_Valid_def UserRoles_def)

text \<open>Bits of distinct roles are distinct.\<close>

lemma roleBit_apart: "roleBit r AND roleBit q \<noteq> 0 \<longleftrightarrow> r = q \<and> UserRole_Valid r"
  by (cases r; cases q) (auto simp: UserRole_Valid_def UserRoles_def)

lemma roleBit_ok: "roleBit r AND AllRoles = roleBit r"
  by (cases r) (simp_all add: AllRoles_bits)

lemma Roles_fold: "fold (\<lambda>r s. s OR roleBit r) rs s = s OR Roles rs"
  unfolding Roles_def
proof (induction rs arbitrary: s)
  case (Cons r rs)
  show ?case by (simp add: Cons [of "s OR roleBit r"] Cons [of "roleBit r"] ac_simps)
qed simp

lemma Roles_Nil [simp]: "Roles [] = 0" by (simp add: Roles_def)

lemma Roles_Cons [simp]: "Roles (r # rs) = roleBit r OR Roles rs"
  using Roles_fold [of rs "roleBit r"] by (simp add: Roles_def)

lemma Roles_append [simp]: "Roles (rs @ qs) = Roles rs OR Roles qs"
  by (induction rs) (simp_all add: ac_simps)

lemma Roles_ok: "role_set_ok (Roles rs)"
  unfolding role_set_ok_def by (induction rs) (simp_all add: bit.conj_disj_distrib2 roleBit_ok)

lemma Has_Roles: "Has (Roles rs) r \<longleftrightarrow> UserRole_Valid r \<and> r \<in> set rs"
proof (induction rs)
  case (Cons q rs)
  have "roleBit q AND roleBit r \<noteq> 0 \<longleftrightarrow> q = r \<and> UserRole_Valid q" by (rule roleBit_apart)
  then show ?case using Cons roleBit_valid [of r]
    by (auto simp: Has_def Let_def bit.conj_disj_distrib2 or_eq_0_iff)
qed (simp add: Has_def)

lemma and_bit: "(s :: role_set) AND 2 ^ i = (if bit s i then 2 ^ i else 0)"
  by (rule bit_eqI) (auto simp: bit_and_iff bit_exp_iff)

lemma roleBit_exp: "UserRole_Valid r \<Longrightarrow> \<exists>i. roleBit r = 2 ^ i"
proof -
  have "(1 :: role_set) = 2 ^ 0" "(2 :: role_set) = 2 ^ 1" "(4 :: role_set) = 2 ^ 2" "(8 :: role_set) = 2 ^ 3"
    "(16 :: role_set) = 2 ^ 4" "(32 :: role_set) = 2 ^ 5" by simp_all
  then show "UserRole_Valid r \<Longrightarrow> \<exists>i. roleBit r = 2 ^ i"
    by (cases r) (simp_all only: roleBit_known, (blast | simp add: UserRole_Valid_def UserRoles_def)+)
qed

text \<open>So membership reads exactly the bit of the role.\<close>

lemma Has_and: "UserRole_Valid r \<Longrightarrow> (if Has s r then roleBit r else 0) = s AND roleBit r"
  using roleBit_valid [of r] roleBit_exp [of r] and_bit [of s] by (auto simp: Has_def Let_def split: if_splits)

lemma Roles_filter: "Roles (filter (Has s) rs) = s AND Roles rs"
proof (induction rs)
  case (Cons r rs)
  have "(if Has s r then roleBit r else 0) = s AND roleBit r"
    using Has_and [of r s] roleBit_valid [of r] by (cases "UserRole_Valid r") (auto simp: Has_def)
  with Cons show ?case by (cases "Has s r") (auto simp: bit.conj_disj_distrib)
qed simp

lemma Roles_List: "role_set_ok s \<Longrightarrow> Roles (List_roles s) = s"
  by (simp add: List_roles_def Roles_filter role_set_ok_def AllRoles_def)

text \<open>Every entry of the table is built by \<open>Roles\<close>.\<close>

lemma permissionTable_ok: "list_all (\<lambda>p. role_set_ok (snd p)) permissionTable"
  by (simp add: permissionTable_def AllRoles_def WriteRoles_def Roles_ok del: Roles_Cons Roles_Nil)

lemma permissionTable_distinct: "distinct (map fst permissionTable)"
  by (simp add: permissionTable_def)

text \<open>C33. Sets of roles keep to their type. Whatever list of roles a set is built from, only bits of the six known roles
  are set; its members are the known roles of the list, in the order of declaration; and a well-formed set is rebuilt from the list of its
  members. Every set of the permission table is well-formed, its names are distinct, and a role has, sorted and once each, exactly
  the permissions whose set has it: none for a role that is not known.\<close>

theorem role_sets_typed:
  assumes "role_set_ok s"
  shows "role_set_ok (Roles rs) \<and> role_set_ok (s OR Roles rs)
       \<and> List_roles (Roles rs) = filter (\<lambda>r. r \<in> set rs) UserRoles
       \<and> Roles (List_roles s) = s
       \<and> (\<forall>(p, t) \<in> set permissionTable. role_set_ok t)
       \<and> sorted (PermissionsFor r) \<and> distinct (PermissionsFor r)
       \<and> set (PermissionsFor r) = {p. \<exists>t. map_of permissionTable p = Some t \<and> Has t r}"
proof -
  have "role_set_ok (s OR Roles rs)"
    using assms Roles_ok [of rs] by (simp add: role_set_ok_def bit.conj_disj_distrib2)
  moreover have "List_roles (Roles rs) = filter (\<lambda>r. r \<in> set rs) UserRoles"
    by (auto simp: List_roles_def Has_Roles UserRole_Valid_def UserRoles_def)
  moreover have "\<forall>(p, t) \<in> set permissionTable. role_set_ok t"
    using permissionTable_ok by (auto simp: list_all_iff)
  moreover have "distinct (PermissionsFor r)"
    using permissionTable_distinct by (simp add: PermissionsFor_def distinct_map_filter)
  moreover have "set (PermissionsFor r) = {p. \<exists>t. map_of permissionTable p = Some t \<and> Has t r}"
  proof (cases "UserRole_Valid r")
    case True
    with permissionTable_distinct show ?thesis by (auto simp: PermissionsFor_def image_iff intro: bexI)
  next
    case False
    then show ?thesis using roleBit_valid [of r] by (auto simp: PermissionsFor_def Has_def)
  qed
  ultimately show ?thesis using Roles_ok Roles_List [OF assms] by (simp add: PermissionsFor_def)
qed

theorem role_sets_typed_witness:
  "Roles (List_roles WriteRoles) = WriteRoles \<and> List_roles (Roles [UserRoleDemo, UserRoleOther ''x'', UserRoleAdmin]) = [UserRoleAdmin, UserRoleDemo]
   \<and> PermissionsFor (UserRoleOther ''x'') = []"
proof -
  have ok: "role_set_ok WriteRoles" by (simp add: WriteRoles_def Roles_ok del: Roles_Cons)
  show ?thesis
    using role_sets_typed [OF ok, of "[UserRoleDemo, UserRoleOther ''x'', UserRoleAdmin]" "UserRoleOther ''x''"]
    by (simp add: UserRoles_def Has_def)
qed

section \<open>Read-only roles\<close>

text \<open>The last component of a name.\<close>

definition action_of :: "string \<Rightarrow> string" where
  "action_of p = rev (takeWhile (\<lambda>c. c \<noteq> CHR ''.'') (rev p))"

definition acting :: "string list" where
  "acting = [''write'', ''edit'', ''manage'', ''generate'', ''email'', ''trigger'', ''evaluate'', ''run'', ''compute'', ''refresh'',
             ''check'', ''credentials'', ''icmal'', ''defaults'']"

lemma Has_table [simp]: "Has (Roles rs) r \<longleftrightarrow> UserRole_Valid r \<and> r \<in> set rs" by (rule Has_Roles)

lemma known_roles: "UserRole_Valid roleA" "UserRole_Valid roleCA" "UserRole_Valid roleCR" "UserRole_Valid roleBA"
  "UserRole_Valid roleBR" "UserRole_Valid UserRoleDemo"
  by (simp_all add: UserRole_Valid_def UserRoles_def)

lemma table_holders:
  "list_all (\<lambda>(p, t). Has t roleA \<and> (Has t roleCR \<or> Has t roleBR \<or> Has t UserRoleDemo \<longrightarrow> action_of p \<notin> set acting) \<and>
     (Has t roleCR \<or> Has t roleBA \<longrightarrow> Has t roleCA) \<and> (Has t roleBR \<longrightarrow> Has t roleBA) \<and>
     (Has t UserRoleDemo \<longrightarrow> Has t roleCR \<and> Has t roleBR)) permissionTable"
  unfolding permissionTable_def AllRoles_def WriteRoles_def
  by (simp only: list.pred_inject prod.case Has_table known_roles) (simp add: UserRoles_def action_of_def acting_def)

text \<open>C34. A role that is read-only cannot act, and the roles are ordered. Exactly the known roles that are not read-only may
  write; a read-only role holds no permission whose name ends in an action (write, edit, manage, generate, trigger, ...); the
  administrator holds every permission, a company administrator every permission of the read-only one and of a building administrator,
  a building administrator every one of its read-only role, and the demo role only what both read-only roles hold.\<close>

theorem readonly_roles_cannot_act:
  "(Has WriteRoles r \<longleftrightarrow> UserRole_Valid r \<and> \<not> IsReadOnly r)
   \<and> (IsReadOnly r \<longrightarrow> (\<forall>p \<in> set (PermissionsFor r). action_of p \<notin> set acting))
   \<and> PermissionsFor roleA = AllPermissions
   \<and> set (PermissionsFor roleCR) \<union> set (PermissionsFor roleBA) \<subseteq> set (PermissionsFor roleCA)
   \<and> set (PermissionsFor roleBR) \<subseteq> set (PermissionsFor roleBA)
   \<and> set (PermissionsFor UserRoleDemo) \<subseteq> set (PermissionsFor roleCR) \<inter> set (PermissionsFor roleBR)"
proof -
  have holders: "Has t roleA" "Has t roleCR \<or> Has t roleBR \<or> Has t UserRoleDemo \<longrightarrow> action_of p \<notin> set acting"
    "Has t roleCR \<or> Has t roleBA \<longrightarrow> Has t roleCA" "Has t roleBR \<longrightarrow> Has t roleBA"
    "Has t UserRoleDemo \<longrightarrow> Has t roleCR \<and> Has t roleBR" if "(p, t) \<in> set permissionTable" for p t
    using table_holders that unfolding list_all_iff by blast+
  have perms: "p \<in> set (PermissionsFor q) \<longleftrightarrow> (\<exists>t. (p, t) \<in> set permissionTable \<and> Has t q)" if "UserRole_Valid q" for p q
    using that by (auto simp: PermissionsFor_def image_iff intro: bexI)
  have "Has WriteRoles r \<longleftrightarrow> UserRole_Valid r \<and> \<not> IsReadOnly r"
    by (cases r) (simp_all add: WriteRoles_def IsReadOnly_def known_roles UserRole_Valid_def UserRoles_def del: Roles_Cons)
  moreover have "IsReadOnly r \<longrightarrow> (\<forall>p \<in> set (PermissionsFor r). action_of p \<notin> set acting)"
    using holders(2) perms known_roles unfolding IsReadOnly_def by blast
  moreover have "filter (\<lambda>p. Has (snd p) roleA) permissionTable = permissionTable"
    using holders(1) by (auto simp: filter_id_conv)
  then have "PermissionsFor roleA = AllPermissions"
    by (simp add: PermissionsFor_def AllPermissions_def known_roles)
  moreover have "set (PermissionsFor roleCR) \<union> set (PermissionsFor roleBA) \<subseteq> set (PermissionsFor roleCA)"
    unfolding subset_iff Un_iff perms [OF known_roles(2)] perms [OF known_roles(3)] perms [OF known_roles(4)]
    using holders(3) by blast
  moreover have "set (PermissionsFor roleBR) \<subseteq> set (PermissionsFor roleBA)"
    unfolding subset_iff perms [OF known_roles(4)] perms [OF known_roles(5)] using holders(4) by blast
  moreover have "set (PermissionsFor UserRoleDemo) \<subseteq> set (PermissionsFor roleCR) \<inter> set (PermissionsFor roleBR)"
    unfolding subset_iff Int_iff perms [OF known_roles(3)] perms [OF known_roles(5)] perms [OF known_roles(6)]
    using holders(5) by blast
  ultimately show ?thesis by blast
qed

theorem readonly_roles_cannot_act_witness:
  "IsReadOnly roleBR \<and> ''bills.read'' \<in> set (PermissionsFor roleBR) \<and> ''bills.compute'' \<notin> set (PermissionsFor roleBR)"
proof -
  have "''bills.read'' \<in> set (PermissionsFor roleBR)"
    by (simp add: PermissionsFor_def known_roles permissionTable_def AllRoles_def WriteRoles_def UserRoles_def del: Roles_Cons)
  moreover have "action_of ''bills.compute'' \<in> set acting" by (simp add: action_of_def acting_def)
  then have "''bills.compute'' \<notin> set (PermissionsFor roleBR)"
    using readonly_roles_cannot_act [of roleBR] by (auto simp: IsReadOnly_def)
  ultimately show ?thesis by (simp add: IsReadOnly_def)
qed

end
