(* ===== verification/Icmal_Rows.thy ===== *)
theory Icmal_Rows
  imports Icmal_Numbers Go_Json Model_Types Keyed_Groups "HOL-Library.Sublist" "HOL-Library.List_Lexorder" "HOL-Library.Char_ord"
begin

text \<open>
  \<open>tariff/icmal/parse.go\<close>: the rows of a settlement sheet. On top of the parameters of \<open>Icmal_Numbers\<close>, \<open>lower_tr\<close> is
  \<open>ToLowerSpecial\<close> for Turkish and \<open>quoted\<close> is the verb \<open>%q\<close>. Cells are valid UTF-8.
\<close>

record icmal_row =
  ir_ID :: uuid
  ir_ImportID :: uuid
  ir_BuildingID :: "uuid option"
  ir_Period :: string
  ir_EtsoCode :: "string option"
  ir_TotalKwh :: "dec option"
  ir_T0Kwh :: "dec option"
  ir_T1Kwh :: "dec option"
  ir_T2Kwh :: "dec option"
  ir_T3Kwh :: "dec option"
  ir_EnergyCharge :: "dec option"
  ir_DistributionCharge :: "dec option"
  ir_ReactiveCharge :: "dec option"
  ir_PowerCharge :: "dec option"
  ir_OveruseCharge :: "dec option"
  ir_InductiveKvarh :: "dec option"
  ir_CapacitiveKvarh :: "dec option"
  ir_DemandKw :: "dec option"
  ir_VatBase :: "dec option"
  ir_Vat :: "dec option"
  ir_Btv :: "dec option"
  ir_EnergyFund :: "dec option"
  ir_Trt :: "dec option"
  ir_PriceDifference :: "dec option"
  ir_CorrectionAmount :: "dec option"
  ir_IsCancelled :: bool
  ir_Term :: "string option"
  ir_VoltageLevel :: "string option"
  ir_IsMultiTime :: "bool option"
  ir_Raw :: raw_message

text \<open>A row number counts from 1; 0 is the whole file.\<close>

record icmal_warning =
  wn_Row :: nat
  wn_Code :: string
  wn_Text :: string

record parsed =
  pd_Rows :: "icmal_row list"
  pd_Format :: number_format
  pd_Warnings :: "icmal_warning list"

datatype parse_error = ErrMissingColumn icmal_field | ErrMixedNumberFormats

definition new_icmal_row :: "string \<Rightarrow> icmal_row" where
  "new_icmal_row period =
     \<lparr>ir_ID = uuid_Nil, ir_ImportID = uuid_Nil, ir_BuildingID = None, ir_Period = period, ir_EtsoCode = None,
      ir_TotalKwh = None, ir_T0Kwh = None, ir_T1Kwh = None, ir_T2Kwh = None, ir_T3Kwh = None, ir_EnergyCharge = None,
      ir_DistributionCharge = None, ir_ReactiveCharge = None, ir_PowerCharge = None, ir_OveruseCharge = None,
      ir_InductiveKvarh = None, ir_CapacitiveKvarh = None, ir_DemandKw = None, ir_VatBase = None, ir_Vat = None,
      ir_Btv = None, ir_EnergyFund = None, ir_Trt = None, ir_PriceDifference = None, ir_CorrectionAmount = None,
      ir_IsCancelled = False, ir_Term = None, ir_VoltageLevel = None, ir_IsMultiTime = None, ir_Raw = None\<rparr>"

section \<open>Cells\<close>

definition keepDigits :: "string \<Rightarrow> string" where
  "keepDigits s = filter is_digit s"

definition row_cell :: "(icmal_field \<rightharpoonup> nat) \<Rightarrow> string list \<Rightarrow> icmal_field \<Rightarrow> string option" where
  "row_cell cols row f =
     (case cols f of None \<Rightarrow> None | Some i \<Rightarrow> if length row \<le> i then None else Some (TrimSpace (row ! i)))"

text \<open>A cell that is there and not empty.\<close>

definition text_cell :: "(icmal_field \<rightharpoonup> nat) \<Rightarrow> string list \<Rightarrow> icmal_field \<Rightarrow> string option" where
  "text_cell cols row f = (case row_cell cols row f of Some v \<Rightarrow> if v = [] then None else Some v | None \<Rightarrow> None)"

text \<open>The numeric columns with the fields they fill.\<close>

definition number_targets :: "(icmal_field \<times> (dec option \<Rightarrow> icmal_row \<Rightarrow> icmal_row)) list" where
  "number_targets =
     [(fTotalKwh, \<lambda>d r. r\<lparr>ir_TotalKwh := d\<rparr>), (fT0Kwh, \<lambda>d r. r\<lparr>ir_T0Kwh := d\<rparr>), (fT1Kwh, \<lambda>d r. r\<lparr>ir_T1Kwh := d\<rparr>),
      (fT2Kwh, \<lambda>d r. r\<lparr>ir_T2Kwh := d\<rparr>), (fT3Kwh, \<lambda>d r. r\<lparr>ir_T3Kwh := d\<rparr>),
      (fEnergyCharge, \<lambda>d r. r\<lparr>ir_EnergyCharge := d\<rparr>), (fDistributionCharge, \<lambda>d r. r\<lparr>ir_DistributionCharge := d\<rparr>),
      (fReactiveCharge, \<lambda>d r. r\<lparr>ir_ReactiveCharge := d\<rparr>), (fPowerCharge, \<lambda>d r. r\<lparr>ir_PowerCharge := d\<rparr>),
      (fOveruseCharge, \<lambda>d r. r\<lparr>ir_OveruseCharge := d\<rparr>), (fInductiveKvarh, \<lambda>d r. r\<lparr>ir_InductiveKvarh := d\<rparr>),
      (fCapacitiveKvarh, \<lambda>d r. r\<lparr>ir_CapacitiveKvarh := d\<rparr>), (fDemand, \<lambda>d r. r\<lparr>ir_DemandKw := d\<rparr>),
      (fVatBase, \<lambda>d r. r\<lparr>ir_VatBase := d\<rparr>), (fVat, \<lambda>d r. r\<lparr>ir_Vat := d\<rparr>), (fBtv, \<lambda>d r. r\<lparr>ir_Btv := d\<rparr>),
      (fEnergyFund, \<lambda>d r. r\<lparr>ir_EnergyFund := d\<rparr>), (fTrt, \<lambda>d r. r\<lparr>ir_Trt := d\<rparr>),
      (fPriceDifference, \<lambda>d r. r\<lparr>ir_PriceDifference := d\<rparr>), (fCorrection, \<lambda>d r. r\<lparr>ir_CorrectionAmount := d\<rparr>)]"

text \<open>The loop over them: what it reads goes into the row, what it cannot read into the warnings.\<close>

fun read_numbers ::
    "(string \<Rightarrow> string) \<Rightarrow> (string \<Rightarrow> dec option) \<Rightarrow> (string \<Rightarrow> string) \<Rightarrow> number_format \<Rightarrow> (icmal_field \<Rightarrow> string option) \<Rightarrow> nat \<Rightarrow>
     (icmal_field \<times> (dec option \<Rightarrow> icmal_row \<Rightarrow> icmal_row)) list \<Rightarrow> icmal_row \<Rightarrow> icmal_warning list \<Rightarrow> icmal_row \<times> icmal_warning list" where
  "read_numbers upper_tr NewFromString quoted fmt cell rowNo [] r ws = (r, ws)"
| "read_numbers upper_tr NewFromString quoted fmt cell rowNo ((f, store) # ts) r ws =
     (case cell f of
        None \<Rightarrow> read_numbers upper_tr NewFromString quoted fmt cell rowNo ts r ws
      | Some v \<Rightarrow>
          (case ParseNumber upper_tr NewFromString v fmt of
             Inl _ \<Rightarrow> read_numbers upper_tr NewFromString quoted fmt cell rowNo ts r
                        (ws @ [\<lparr>wn_Row = rowNo, wn_Code = ''invalid_number'', wn_Text = icmal_field_name f @ '': '' @ quoted v\<rparr>])
           | Inr d \<Rightarrow> read_numbers upper_tr NewFromString quoted fmt cell rowNo ts (store d r) ws))"

definition cancelled_cell :: "(string \<Rightarrow> string) \<Rightarrow> string option \<Rightarrow> bool" where
  "cancelled_cell lower_tr v =
     (case v of None \<Rightarrow> False | Some v \<Rightarrow> lower_tr v \<in> {''evet'', ''yes'', ''true''})"

definition multi_time_cell :: "(string \<Rightarrow> string) \<Rightarrow> string option \<Rightarrow> bool option" where
  "multi_time_cell fold_hdr v =
     (case v of
        None \<Rightarrow> None
      | Some v \<Rightarrow> if prefix ''tek'' (fold_hdr v) then Some False
                 else if prefix ''uc'' (fold_hdr v) then Some True else None)"

text \<open>The cells of the row under their headers, a repeated header with its first cell. A map is encoded with its keys in order.\<close>

definition raw_cells :: "string list \<Rightarrow> string list \<Rightarrow> (string \<times> string) list" where
  "raw_cells header row =
     fold (\<lambda>(h, c) raw. if h \<in> fst ` set raw then raw else raw @ [(h, c)]) (zip header row) []"

definition raw_json :: "string list \<Rightarrow> string list \<Rightarrow> json" where
  "raw_json header row = JObject (map (\<lambda>(h, c). (h, JString c)) (sort_key fst (raw_cells header row)))"

section \<open>Rows\<close>

text \<open>One turn of the loop: the warnings of the row, and the row when it is taken.\<close>

definition parse_row ::
    "(string \<Rightarrow> string) \<Rightarrow> (string \<Rightarrow> string) \<Rightarrow> (string \<Rightarrow> string) \<Rightarrow> (string \<Rightarrow> dec option) \<Rightarrow> (string \<Rightarrow> string) \<Rightarrow>
     string list \<Rightarrow> number_format \<Rightarrow> nat \<Rightarrow> string list \<Rightarrow> icmal_warning list \<times> icmal_row option" where
  "parse_row fold_hdr upper_tr lower_tr NewFromString quoted header fmt rowNo row =
     (let cell = row_cell (columnIndex fold_hdr header) row; txt = text_cell (columnIndex fold_hdr header) row;
          period = keepDigits (case cell fPeriod of None \<Rightarrow> [] | Some v \<Rightarrow> v)
      in if length period \<noteq> 6
         then ([\<lparr>wn_Row = rowNo, wn_Code = ''invalid_period'', wn_Text = ''accounting period is not YYYYMM''\<rparr>], None)
         else case read_numbers upper_tr NewFromString quoted fmt cell rowNo number_targets
                     ((new_icmal_row period)\<lparr>ir_EtsoCode := txt fEtso\<rparr>) [] of
           (r, ws) \<Rightarrow>
             if ws \<noteq> [] then (ws, None)
             else ([], Some (r\<lparr>ir_IsCancelled := cancelled_cell lower_tr (cell fCancelled), ir_Term := txt fTerm,
                      ir_VoltageLevel := txt fVoltage, ir_IsMultiTime := multi_time_cell fold_hdr (cell fTimeType),
                      ir_Raw := Some (raw_json header row)\<rparr>)))"

fun parse_rows ::
    "(nat \<Rightarrow> string list \<Rightarrow> icmal_warning list \<times> icmal_row option) \<Rightarrow> nat \<Rightarrow> string list list \<Rightarrow> icmal_row list \<times> icmal_warning list" where
  "parse_rows p n [] = ([], [])"
| "parse_rows p n (row # rows) =
     (case p n row of (ws, r) \<Rightarrow> case parse_rows p (Suc n) rows of (rs, ws') \<Rightarrow>
        ((case r of None \<Rightarrow> rs | Some r \<Rightarrow> r # rs), ws @ ws'))"

definition Parse ::
    "(string \<Rightarrow> string) \<Rightarrow> (string \<Rightarrow> string) \<Rightarrow> (string \<Rightarrow> string) \<Rightarrow> (string \<Rightarrow> dec option) \<Rightarrow> (string \<Rightarrow> string) \<Rightarrow>
     sheet_table \<Rightarrow> parse_error + parsed" where
  "Parse fold_hdr upper_tr lower_tr NewFromString quoted t =
     (let cols = columnIndex fold_hdr (tb_Header t)
      in case find (\<lambda>f. cols f = None) [fPeriod, fTotalKwh] of
        Some f \<Rightarrow> Inl (ErrMissingColumn f)
      | None \<Rightarrow>
          (case DetectNumberFormat fold_hdr t of
             Inl _ \<Rightarrow> Inl ErrMixedNumberFormats
           | Inr fmt \<Rightarrow>
               (case parse_rows (parse_row fold_hdr upper_tr lower_tr NewFromString quoted (tb_Header t) fmt) 1 (tb_Rows t) of
                  (rs, ws) \<Rightarrow> Inr \<lparr>pd_Rows = rs, pd_Format = fmt, pd_Warnings = ws\<rparr>)))"

section \<open>Laws\<close>

text \<open>The number a row holds for a column.\<close>

definition number_fields :: "(icmal_field \<times> (icmal_row \<Rightarrow> dec option)) list" where
  "number_fields =
     [(fTotalKwh, ir_TotalKwh), (fT0Kwh, ir_T0Kwh), (fT1Kwh, ir_T1Kwh), (fT2Kwh, ir_T2Kwh), (fT3Kwh, ir_T3Kwh),
      (fEnergyCharge, ir_EnergyCharge), (fDistributionCharge, ir_DistributionCharge), (fReactiveCharge, ir_ReactiveCharge),
      (fPowerCharge, ir_PowerCharge), (fOveruseCharge, ir_OveruseCharge), (fInductiveKvarh, ir_InductiveKvarh),
      (fCapacitiveKvarh, ir_CapacitiveKvarh), (fDemand, ir_DemandKw), (fVatBase, ir_VatBase), (fVat, ir_Vat), (fBtv, ir_Btv),
      (fEnergyFund, ir_EnergyFund), (fTrt, ir_Trt), (fPriceDifference, ir_PriceDifference), (fCorrection, ir_CorrectionAmount)]"

definition lens_law :: "icmal_field \<times> (icmal_row \<Rightarrow> dec option) \<Rightarrow> icmal_field \<times> (dec option \<Rightarrow> icmal_row \<Rightarrow> icmal_row) \<Rightarrow> bool" where
  "lens_law g st \<longleftrightarrow> (\<forall>d r. snd g (snd st d r) = (if fst g = fst st then d else snd g r))"

lemma targets_lens: "list_all (\<lambda>g. list_all (lens_law g) number_targets) number_fields"
  by (simp add: number_fields_def number_targets_def lens_law_def)

lemma targets_same: "map fst number_targets = map fst number_fields"
  by (simp add: number_fields_def number_targets_def)

lemma targets_distinct: "distinct (map fst number_fields)"
  by (simp add: number_fields_def)

text \<open>What the loop leaves in a field, and when it warns.\<close>

lemma read_numbers_warns:
  assumes "read_numbers upper_tr NewFromString quoted fmt cell rowNo ts r ws = (r', ws')"
  shows "\<exists>new. ws' = ws @ new \<and> (\<forall>w \<in> set new. wn_Row w = rowNo) \<and>
      (new = [] \<longleftrightarrow> (\<forall>h \<in> fst ` set ts. \<forall>v. cell h = Some v \<longrightarrow> (\<exists>d. ParseNumber upper_tr NewFromString v fmt = Inr d)))"
  using assms
proof (induction ts arbitrary: r ws)
  case (Cons t ts)
  obtain h store where t: "t = (h, store)" by (cases t)
  show ?case
  proof (cases "cell h")
    case None
    with Cons.IH [of r ws] Cons.prems t show ?thesis by auto
  next
    case (Some v)
    show ?thesis
    proof (cases "ParseNumber upper_tr NewFromString v fmt")
      case (Inl e)
      let ?w = "\<lparr>wn_Row = rowNo, wn_Code = ''invalid_number'', wn_Text = icmal_field_name h @ '': '' @ quoted v\<rparr>"
      from Cons.IH [of r "ws @ [?w]"] Cons.prems t Some Inl obtain new where
        "ws' = (ws @ [?w]) @ new" "\<forall>w \<in> set new. wn_Row w = rowNo" by auto
      with t Some Inl show ?thesis by (intro exI [of _ "?w # new"]) auto
    next
      case (Inr d)
      with Cons.IH [of "store d r" ws] Cons.prems t Some show ?thesis by auto
    qed
  qed
qed simp

lemma read_numbers_fills:
  assumes "read_numbers upper_tr NewFromString quoted fmt cell rowNo ts r ws = (r', ws')" and "distinct (map fst ts)"
    and "list_all (lens_law (f, get)) ts"
  shows "get r' = (if f \<notin> fst ` set ts then get r else
      case cell f of None \<Rightarrow> get r | Some v \<Rightarrow> (case ParseNumber upper_tr NewFromString v fmt of Inl _ \<Rightarrow> get r | Inr d \<Rightarrow> d))"
  using assms
proof (induction ts arbitrary: r ws)
  case (Cons t ts)
  obtain h store where t: "t = (h, store)" by (cases t)
  have law: "get (store d r) = (if f = h then d else get r)" for d r using Cons.prems(3) t by (simp add: lens_law_def)
  have fresh: "h \<notin> fst ` set ts" using Cons.prems(2) t by auto
  have IH: "get r' = (if f \<notin> fst ` set ts then get r else
      case cell f of None \<Rightarrow> get r | Some v \<Rightarrow> (case ParseNumber upper_tr NewFromString v fmt of Inl _ \<Rightarrow> get r | Inr d \<Rightarrow> d))"
    if "read_numbers upper_tr NewFromString quoted fmt cell rowNo ts r ws = (r', ws')" for r ws
    using Cons.IH [OF that] Cons.prems(2,3) by simp
  show ?case
  proof (cases "cell h")
    case None
    with IH [of r ws] Cons.prems(1) t show ?thesis by auto
  next
    case (Some v)
    show ?thesis
    proof (cases "ParseNumber upper_tr NewFromString v fmt")
      case (Inl e)
      with Cons.prems(1) t Some have "read_numbers upper_tr NewFromString quoted fmt cell rowNo ts r
          (ws @ [\<lparr>wn_Row = rowNo, wn_Code = ''invalid_number'', wn_Text = icmal_field_name h @ '': '' @ quoted v\<rparr>]) = (r', ws')"
        by simp
      from IH [OF this] Inl Some t fresh show ?thesis by (cases "f = h") simp_all
    next
      case (Inr d)
      with Cons.prems(1) t Some have "read_numbers upper_tr NewFromString quoted fmt cell rowNo ts (store d r) ws = (r', ws')" by simp
      from IH [OF this] Inr Some t fresh law show ?thesis by (cases "f = h") (simp_all split: option.split sum.split)
    qed
  qed
qed simp

text \<open>A row that is taken reads every one of its cells; one that is not has a warning under its number.\<close>

definition row_read ::
    "(string \<Rightarrow> string) \<Rightarrow> (string \<Rightarrow> dec option) \<Rightarrow> number_format \<Rightarrow> (icmal_field \<Rightarrow> string option) \<Rightarrow> icmal_row \<Rightarrow> bool" where
  "row_read upper_tr NewFromString fmt cell r \<longleftrightarrow>
     length (ir_Period r) = 6 \<and> list_all is_digit (ir_Period r) \<and>
     (\<forall>(f, get) \<in> set number_fields.
        case cell f of None \<Rightarrow> get r = None | Some v \<Rightarrow> ParseNumber upper_tr NewFromString v fmt = Inr (get r))"

lemma number_fields_other:
  assumes "(f, get) \<in> set number_fields"
  shows "get (r\<lparr>ir_IsCancelled := c, ir_Term := t, ir_VoltageLevel := v, ir_IsMultiTime := m, ir_Raw := w\<rparr>) = get r"
    and "get ((new_icmal_row p)\<lparr>ir_EtsoCode := e\<rparr>) = None"
proof -
  have "list_all (\<lambda>g. (\<forall>r c t v m w. snd g (r\<lparr>ir_IsCancelled := c, ir_Term := t, ir_VoltageLevel := v, ir_IsMultiTime := m, ir_Raw := w\<rparr>) = snd g r) \<and>
      (\<forall>p e. snd g ((new_icmal_row p)\<lparr>ir_EtsoCode := e\<rparr>) = None)) number_fields"
    by (simp add: number_fields_def new_icmal_row_def)
  with assms show "get (r\<lparr>ir_IsCancelled := c, ir_Term := t, ir_VoltageLevel := v, ir_IsMultiTime := m, ir_Raw := w\<rparr>) = get r"
    and "get ((new_icmal_row p)\<lparr>ir_EtsoCode := e\<rparr>) = None"
    by (auto simp: list_all_iff)
qed

lemma read_numbers_keeps:
  "read_numbers upper_tr NewFromString quoted fmt cell rowNo ts r ws = (r', ws') \<Longrightarrow>
   list_all (\<lambda>t. \<forall>d r. g (snd t d r) = g r) ts \<Longrightarrow> g r' = g r"
  by (induction ts arbitrary: r ws) (auto split: option.splits sum.splits)

text \<open>A row can be taken when its period has six digits and every numeric cell it has is a number.\<close>

definition row_good ::
    "(string \<Rightarrow> string) \<Rightarrow> (string \<Rightarrow> dec option) \<Rightarrow> number_format \<Rightarrow> (icmal_field \<Rightarrow> string option) \<Rightarrow> bool" where
  "row_good upper_tr NewFromString fmt cell \<longleftrightarrow>
     length (filter is_digit (case cell fPeriod of None \<Rightarrow> [] | Some v \<Rightarrow> v)) = 6 \<and>
     (\<forall>f \<in> fst ` set number_fields. \<forall>v. cell f = Some v \<longrightarrow> (\<exists>d. ParseNumber upper_tr NewFromString v fmt = Inr d))"

lemma parse_row_spec:
  assumes "parse_row fold_hdr upper_tr lower_tr NewFromString quoted header fmt n row = (ws, r)"
  defines "cell \<equiv> row_cell (columnIndex fold_hdr header) row" and "txt \<equiv> text_cell (columnIndex fold_hdr header) row"
  shows "(\<forall>w \<in> set ws. wn_Row w = n) \<and> (ws = [] \<longleftrightarrow> r \<noteq> None) \<and> (r \<noteq> None \<longleftrightarrow> row_good upper_tr NewFromString fmt cell) \<and>
     (\<forall>x. r = Some x \<longrightarrow> row_read upper_tr NewFromString fmt cell x \<and>
        ir_Period x = filter is_digit (case cell fPeriod of None \<Rightarrow> [] | Some v \<Rightarrow> v) \<and>
        ir_EtsoCode x = txt fEtso \<and> ir_Term x = txt fTerm \<and> ir_VoltageLevel x = txt fVoltage \<and>
        ir_IsCancelled x = cancelled_cell lower_tr (cell fCancelled) \<and> ir_IsMultiTime x = multi_time_cell fold_hdr (cell fTimeType) \<and>
        ir_Raw x = Some (raw_json header row))"
proof -
  let ?cell = "row_cell (columnIndex fold_hdr header) row" and ?txt = "text_cell (columnIndex fold_hdr header) row"
  let ?period = "keepDigits (case ?cell fPeriod of None \<Rightarrow> [] | Some v \<Rightarrow> v)"
  obtain r1 ws1 where rd: "read_numbers upper_tr NewFromString quoted fmt ?cell n number_targets
      ((new_icmal_row ?period)\<lparr>ir_EtsoCode := ?txt fEtso\<rparr>) [] = (r1, ws1)" by fastforce
  have good: "row_good upper_tr NewFromString fmt ?cell \<longleftrightarrow> length ?period = 6 \<and> ws1 = []"
  proof -
    have "fst ` set number_targets = fst ` set number_fields" using targets_same by (metis list.set_map)
    with read_numbers_warns [OF rd] show ?thesis by (auto simp: row_good_def keepDigits_def)
  qed
  show ?thesis
  proof (cases "length ?period = 6 \<and> ws1 = []")
    case False
    then have "r = None \<and> ws \<noteq> [] \<and> (\<forall>w \<in> set ws. wn_Row w = n)"
    proof (cases "length ?period = 6")
      case True
      with False assms have "ws = ws1" "r = None" "ws1 \<noteq> []" unfolding parse_row_def Let_def rd by simp_all
      with read_numbers_warns [OF rd] show ?thesis by simp
    next
      case False
      with assms have "ws = [\<lparr>wn_Row = n, wn_Code = ''invalid_period'', wn_Text = ''accounting period is not YYYYMM''\<rparr>]" "r = None"
        unfolding parse_row_def Let_def by simp_all
      then show ?thesis by simp
    qed
    with False show ?thesis by (simp add: good cell_def)
  next
    case True
    let ?x = "r1\<lparr>ir_IsCancelled := cancelled_cell lower_tr (?cell fCancelled), ir_Term := ?txt fTerm,
        ir_VoltageLevel := ?txt fVoltage, ir_IsMultiTime := multi_time_cell fold_hdr (?cell fTimeType),
        ir_Raw := Some (raw_json header row)\<rparr>"
    from True assms have r: "r = Some ?x" and ws: "ws = []"
      unfolding parse_row_def Let_def rd by simp_all
    have period: "ir_Period ?x = ?period" and etso: "ir_EtsoCode ?x = ?txt fEtso"
      using read_numbers_keeps [OF rd, of ir_Period] read_numbers_keeps [OF rd, of ir_EtsoCode]
      by (simp_all add: number_targets_def new_icmal_row_def)
    have "case ?cell f of None \<Rightarrow> get ?x = None | Some v \<Rightarrow> ParseNumber upper_tr NewFromString v fmt = Inr (get ?x)"
      if f: "(f, get) \<in> set number_fields" for f get
    proof -
      have lens: "list_all (lens_law (f, get)) number_targets" using targets_lens f by (auto simp: list_all_iff)
      have dist: "distinct (map fst number_targets)" using targets_distinct targets_same by simp
      have mem: "f \<in> fst ` set number_targets" using f targets_same by (metis fst_conv image_eqI list.set_map)
      from read_numbers_warns [OF rd] True mem have
        "\<forall>v. ?cell f = Some v \<longrightarrow> (\<exists>d. ParseNumber upper_tr NewFromString v fmt = Inr d)" by auto
      with read_numbers_fills [OF rd dist lens] mem number_fields_other(2) [OF f] show ?thesis
        unfolding number_fields_other(1) [OF f] by (cases "?cell f") auto
    qed
    moreover have "length ?period = 6" using True by simp
    ultimately have "row_read upper_tr NewFromString fmt ?cell ?x"
      unfolding row_read_def period by (auto simp: keepDigits_def list_all_iff)
    with r ws good True period etso show ?thesis by (simp add: keepDigits_def cell_def txt_def)
  qed
qed

text \<open>The loop over the rows: what is taken, and what is warned about.\<close>

lemma parse_rows_spec:
  assumes each: "\<And>n row ws r. p n row = (ws, r) \<Longrightarrow> (\<forall>w \<in> set ws. wn_Row w = n) \<and> (ws = [] \<longleftrightarrow> r \<noteq> None)"
  shows "fst (parse_rows p n rows) = List.map_filter (\<lambda>(i, row). snd (p i row)) (enumerate n rows)
       \<and> (\<forall>(i, row) \<in> set (enumerate n rows). snd (p i row) = None \<longleftrightarrow> (\<exists>w \<in> set (snd (parse_rows p n rows)). wn_Row w = i))
       \<and> (\<forall>w \<in> set (snd (parse_rows p n rows)). n \<le> wn_Row w \<and> wn_Row w < n + length rows)"
proof (induction rows arbitrary: n)
  case (Cons row rows)
  obtain ws r where p: "p n row = (ws, r)" by (cases "p n row")
  obtain rs ws' where rest: "parse_rows p (Suc n) rows = (rs, ws')" by (cases "parse_rows p (Suc n) rows")
  note IH = Cons.IH [of "Suc n", unfolded rest fst_conv snd_conv] and e = each [OF p]
  have late: "Suc n \<le> i" if "(i, row') \<in> set (enumerate (Suc n) rows)" for i row'
    using that by (auto simp: in_set_enumerate_eq)
  have "snd (p i row') = None \<longleftrightarrow> (\<exists>w \<in> set (ws @ ws'). wn_Row w = i)" if "(i, row') \<in> set (enumerate (Suc n) rows)" for i row'
    using IH that late [OF that] e by fastforce
  moreover have "r = None \<longleftrightarrow> (\<exists>w \<in> set (ws @ ws'). wn_Row w = n)"
    using e IH by (cases ws) fastforce+
  moreover have "\<forall>w \<in> set (ws @ ws'). n \<le> wn_Row w \<and> wn_Row w < n + length (row # rows)"
    using e IH by fastforce
  moreover have "(case r of None \<Rightarrow> rs | Some r \<Rightarrow> r # rs) =
      List.map_filter (\<lambda>(i, row). snd (p i row)) (enumerate n (row # rows))"
    using IH p by (cases r) (simp_all add: map_filter_simps)
  ultimately show ?case by (auto simp: p rest)
qed (simp add: map_filter_simps)

lemma taken_rows:
  assumes "\<forall>(i, row) \<in> set (enumerate n rows). (p i row \<noteq> None \<longleftrightarrow> good row) \<and> (\<forall>r. p i row = Some r \<longrightarrow> Q row r)"
  shows "list_all2 Q (filter good rows) (List.map_filter (\<lambda>(i, row). p i row) (enumerate n rows))"
  using assms
proof (induction rows arbitrary: n)
  case (Cons row rows)
  then have "list_all2 Q (filter good rows) (List.map_filter (\<lambda>(i, row). p i row) (enumerate (Suc n) rows))" by simp
  with Cons.prems show ?case by (cases "p n row") (simp_all add: map_filter_simps)
qed (simp add: map_filter_simps)

text \<open>C37. Every row of a settlement sheet is accounted for. A cell of a row is the trimmed text under the column of its field, and is
  missing when the sheet has no such column or the row is too short. A row can be taken exactly when the digits of its period
  cell are six and each of its numeric cells that is not missing can be read; a missing cell or a missing ETSO code does not stop it.
  When a sheet is parsed, the rows that come out are those of the rows that can be taken, one each and in the order of the sheet:
  the period is the six digits, each numeric field holds what the number parser reads in its cell, and nothing where the cell is
  missing, the ETSO code, the term and the voltage level are their cells when these are not empty, and the row is cancelled when its
  cell says so. A row that cannot be taken has a warning under its number, counted from 1, and no other row has one.\<close>

theorem Parse_accounts:
  fixes t and fold_hdr :: "string \<Rightarrow> string"
  assumes "Parse fold_hdr upper_tr lower_tr NewFromString quoted t = Inr p"
  defines "cell \<equiv> \<lambda>row f. case columnIndex fold_hdr (tb_Header t) f of
        None \<Rightarrow> None | Some i \<Rightarrow> if i < length row then Some (TrimSpace (row ! i)) else None"
    and "parse \<equiv> \<lambda>v. ParseNumber upper_tr NewFromString v (pd_Format p)"
  defines "ymd \<equiv> \<lambda>row. filter is_digit (case cell row fPeriod of None \<Rightarrow> [] | Some v \<Rightarrow> v)"
    and "txt \<equiv> \<lambda>row f. if cell row f = Some [] then None else cell row f"
  defines "good \<equiv> \<lambda>row. length (ymd row) = 6 \<and>
        (\<forall>f \<in> fst ` set number_fields. \<forall>v. cell row f = Some v \<longrightarrow> (\<exists>d. parse v = Inr d))"
  shows "list_all2 (\<lambda>row r. ir_Period r = ymd row \<and>
        (\<forall>(f, get) \<in> set number_fields. case cell row f of None \<Rightarrow> get r = None | Some v \<Rightarrow> parse v = Inr (get r)) \<and>
        ir_EtsoCode r = txt row fEtso \<and> ir_Term r = txt row fTerm \<and> ir_VoltageLevel r = txt row fVoltage \<and>
        (ir_IsCancelled r = (\<exists>v. cell row fCancelled = Some v \<and> lower_tr v \<in> {''evet'', ''yes'', ''true''})))
      (filter good (tb_Rows t)) (pd_Rows p)
     \<and> (\<forall>n < length (tb_Rows t). (\<exists>w \<in> set (pd_Warnings p). wn_Row w = n + 1) = (\<not> good (tb_Rows t ! n)))
     \<and> (\<forall>w \<in> set (pd_Warnings p). 1 \<le> wn_Row w \<and> wn_Row w \<le> length (tb_Rows t))"
proof -
  let ?p = "parse_row fold_hdr upper_tr lower_tr NewFromString quoted (tb_Header t) (pd_Format p)"
  have cell: "row_cell (columnIndex fold_hdr (tb_Header t)) row = cell row" for row
    by (rule ext) (auto simp: row_cell_def cell_def split: option.split)
  have texts: "text_cell (columnIndex fold_hdr (tb_Header t)) row = txt row" for row
    by (rule ext) (auto simp: text_cell_def txt_def cell split: option.split)
  have good: "row_good upper_tr NewFromString (pd_Format p) (cell row) = good row" for row
    by (simp add: row_good_def good_def ymd_def parse_def)
  from assms(1) have "parse_rows ?p 1 (tb_Rows t) = (pd_Rows p, pd_Warnings p)"
    by (auto simp: Parse_def Let_def split: option.splits sum.splits prod.splits)
  moreover have "(\<forall>w \<in> set ws. wn_Row w = n) \<and> (ws = [] \<longleftrightarrow> r \<noteq> None)" if "?p n row = (ws, r)" for n row ws r
    using parse_row_spec [OF that] by blast
  note parse_rows_spec [where p = ?p and n = 1 and rows = "tb_Rows t", OF this]
  ultimately have spec: "pd_Rows p = List.map_filter (\<lambda>(n, row). snd (?p n row)) (enumerate 1 (tb_Rows t))"
    "\<forall>(n, row) \<in> set (enumerate 1 (tb_Rows t)). snd (?p n row) = None \<longleftrightarrow> (\<exists>w \<in> set (pd_Warnings p). wn_Row w = n)"
    "\<forall>w \<in> set (pd_Warnings p). 1 \<le> wn_Row w \<and> wn_Row w < 1 + length (tb_Rows t)"
    by simp_all
  define Q where "Q row r \<longleftrightarrow> ir_Period r = ymd row \<and>
        (\<forall>(f, get) \<in> set number_fields. case cell row f of None \<Rightarrow> get r = None | Some v \<Rightarrow> parse v = Inr (get r)) \<and>
        ir_EtsoCode r = txt row fEtso \<and> ir_Term r = txt row fTerm \<and> ir_VoltageLevel r = txt row fVoltage \<and>
        (ir_IsCancelled r = (\<exists>v. cell row fCancelled = Some v \<and> lower_tr v \<in> {''evet'', ''yes'', ''true''}))" for row r
  have row: "(snd (?p n row) \<noteq> None \<longleftrightarrow> good row) \<and> (\<forall>r. snd (?p n row) = Some r \<longrightarrow> Q row r)" for n row
  proof -
    obtain ws r where pr: "?p n row = (ws, r)" by (cases "?p n row")
    have "cancelled_cell lower_tr v = (\<exists>x. v = Some x \<and> lower_tr x \<in> {''evet'', ''yes'', ''true''})" for v
      by (simp add: cancelled_cell_def split: option.split)
    with parse_row_spec [OF pr, unfolded cell texts good] show ?thesis
      unfolding Q_def parse_def by (simp add: pr row_read_def ymd_def)
  qed
  have "\<forall>n < length (tb_Rows t). (\<exists>w \<in> set (pd_Warnings p). wn_Row w = n + 1) = (\<not> good (tb_Rows t ! n))"
  proof (intro allI impI)
    fix n assume "n < length (tb_Rows t)"
    then have "(n + 1, tb_Rows t ! n) \<in> set (enumerate 1 (tb_Rows t))" by (simp add: in_set_enumerate_eq)
    with spec(2) row [of "n + 1" "tb_Rows t ! n"]
    show "(\<exists>w \<in> set (pd_Warnings p). wn_Row w = n + 1) = (\<not> good (tb_Rows t ! n))" by fastforce
  qed
  moreover have "\<forall>w \<in> set (pd_Warnings p). 1 \<le> wn_Row w \<and> wn_Row w \<le> length (tb_Rows t)" using spec(3) by auto
  moreover have "list_all2 Q (filter good (tb_Rows t)) (pd_Rows p)"
    unfolding spec(1) by (rule taken_rows) (use row in auto)
  ultimately show ?thesis unfolding Q_def [abs_def] by (intro conjI)
qed

definition sample_icmal :: sheet_table where
  "sample_icmal =
     \<lparr>tb_Header = [''D'' @ [CHR 0xC3, CHR 0xB6] @ ''nem'', ''Toplam Kwh''],
      tb_Rows = [[''202401'', ''1.234,5''], [''2024'', ''7''], [''202402'', ''1,2,3'']]\<rparr>"

lemma sample_icmal_format: "DetectNumberFormat (\<lambda>s. s) sample_icmal = Inr FormatTurkish"
proof -
  have "numeric_cells (\<lambda>s. s) sample_icmal = map trimCell [''1.234,5'', ''7'', ''1,2,3'']"
    unfolding numeric_cells_alias by (simp add: aliases_def sample_icmal_def)
  moreover have "trimCell ''1.234,5'' = ''1.234,5''" "trimCell ''7'' = ''7''" "trimCell ''1,2,3'' = ''1,2,3''"
    by (rule trimCell_plain, code_simp)+
  moreover have "\<not> grouped ''1.234,5'' CHR '','' CHR ''.''" "\<not> grouped ''7'' CHR '','' CHR ''.''" "\<not> grouped ''1,2,3'' CHR '','' CHR ''.''"
    by code_simp+
  ultimately show ?thesis by (simp add: DetectNumberFormat_def scan_numbers_eq)
qed

lemma sample_icmal_columns:
  "columnIndex (\<lambda>s. s) (tb_Header sample_icmal) fPeriod \<noteq> None" "columnIndex (\<lambda>s. s) (tb_Header sample_icmal) fTotalKwh \<noteq> None"
proof -
  have m: "(fPeriod, False, [''Muhasebe D'' @ [CHR 0xC3, CHR 0xB6] @ ''nemi'', ''D'' @ [CHR 0xC3, CHR 0xB6] @ ''nem'']) \<in> set aliases"
    "(fTotalKwh, True, [''Toplam Kwh'']) \<in> set aliases" by (simp_all add: aliases_def)
  show "columnIndex (\<lambda>s. s) (tb_Header sample_icmal) fPeriod \<noteq> None"
    unfolding columnIndex_alias [OF m(1)] by (simp add: sample_icmal_def)
  show "columnIndex (\<lambda>s. s) (tb_Header sample_icmal) fTotalKwh \<noteq> None"
    unfolding columnIndex_alias [OF m(2)] by (simp add: sample_icmal_def)
qed

lemma sample_parses: "\<exists>p. Parse (\<lambda>s. s) std_upper (\<lambda>s. s) std_read (\<lambda>s. s) sample_icmal = Inr p"
  using sample_icmal_format sample_icmal_columns by (auto simp: Parse_def Let_def split: prod.split)

theorem Parse_accounts_witness:
  "\<exists>p. Parse (\<lambda>s. s) std_upper (\<lambda>s. s) std_read (\<lambda>s. s) sample_icmal = Inr p \<and>
     (\<forall>w \<in> set (pd_Warnings p). 1 \<le> wn_Row w \<and> wn_Row w \<le> 3)"
proof -
  obtain p where p: "Parse (\<lambda>s. s) std_upper (\<lambda>s. s) std_read (\<lambda>s. s) sample_icmal = Inr p" using sample_parses by blast
  have "length (tb_Rows sample_icmal) = 3" by (simp add: sample_icmal_def)
  with Parse_accounts [OF p] p show ?thesis by metis
qed

end
