(* ===== verification/Icmal_Derive.thy ===== *)
theory Icmal_Derive
  imports Icmal_Rows Billing_Money
begin

text \<open>
  \<open>tariff/icmal/derive.go\<close>: the coefficients of a tariff from the regular rows of a settlement sheet, per ETSO code. \<open>visit\<close> is
  the order in which the runtime visits the map of reactive candidates; only the order of warnings depends on it. The strings the
  code keys its tally by are the canonical texts of the rounded numbers, here the numbers.
\<close>

definition icmal_divisionScale :: nat where "icmal_divisionScale = 20"
definition icmal_hundred :: dec where "icmal_hundred = 100"
definition backCalcLimit :: dec where "backCalcLimit = 2"
definition reactiveMatch :: dec where "reactiveMatch = 5 / 10000"
definition stabilityLimit :: dec where "stabilityLimit = 1 / 10"

record coefficient =
  co_Value :: "dec option"
  co_Samples :: nat
  co_StdDev :: "dec option"
  co_Stable :: "bool option"
  co_BackCalcErrorPct :: "dec option"

record icmal_analysis =
  ia_EtsoCode :: string
  ia_Periods :: "string list"
  ia_EnergyKbk :: coefficient
  ia_DistributionTlPerKwh :: coefficient
  ia_PowerUnitPrice :: coefficient
  ia_ImpliedContractedPowerKw :: "dec option"
  ia_ReactiveUnitPrice :: coefficient
  ia_ReactiveKbk :: coefficient
  ia_VatRate :: coefficient
  ia_Taxes :: "string \<rightharpoonup> coefficient"
  ia_OveruseRequiresManualEntry :: bool
  ia_IsMultiTime :: "bool option"
  ia_Term :: "string option"
  ia_VoltageLevel :: "string option"
  ia_WithinTolerance :: bool
  ia_Warnings :: "icmal_warning list"

definition val0 :: "dec option \<Rightarrow> dec" where
  "val0 d = (case d of None \<Rightarrow> 0 | Some v \<Rightarrow> v)"

section \<open>Statistics\<close>

definition icmal_median :: "declib \<Rightarrow> dec list \<Rightarrow> dec" where
  "icmal_median L samples =
     (let s = sort samples; n = length s
      in if n mod 2 = 1 then s ! (n div 2)
         else DivRound L (s ! (n div 2 - 1) + s ! (n div 2)) 2 icmal_divisionScale)"

text \<open>At most a hundred steps of Newton's method.\<close>

definition newton_next :: "declib \<Rightarrow> dec \<Rightarrow> dec \<Rightarrow> dec" where
  "newton_next L variance x = DivRound L (x + DivRound L variance x icmal_divisionScale) 2 icmal_divisionScale"

fun newton_loop :: "declib \<Rightarrow> dec \<Rightarrow> nat \<Rightarrow> dec \<Rightarrow> dec" where
  "newton_loop L variance 0 x = x"
| "newton_loop L variance (Suc n) x =
     (let nxt = newton_next L variance x in if nxt = x then x else newton_loop L variance n nxt)"

definition population_variance :: "declib \<Rightarrow> dec list \<Rightarrow> dec" where
  "population_variance L samples =
     (let n = of_nat (length samples);
          mean = DivRound L (fold (\<lambda>s acc. acc + s) samples 0) n icmal_divisionScale
      in DivRound L (fold (\<lambda>s acc. let d = s - mean in acc + d * d) samples 0) n icmal_divisionScale)"

definition stdDev :: "declib \<Rightarrow> dec list \<Rightarrow> dec" where
  "stdDev L samples =
     (let variance = population_variance L samples
      in if variance = 0 then 0
         else Round L (newton_loop L variance 100 (if variance < 1 then 1 else variance)) 10)"

definition no_coefficient :: coefficient where
  "no_coefficient = \<lparr>co_Value = None, co_Samples = 0, co_StdDev = None, co_Stable = None, co_BackCalcErrorPct = None\<rparr>"

definition aggregate_samples :: "declib \<Rightarrow> dec list \<Rightarrow> nat \<Rightarrow> coefficient" where
  "aggregate_samples L samples places =
     (if samples = [] then no_coefficient
      else let m = icmal_median L samples;
               c = no_coefficient\<lparr>co_Samples := length samples, co_Value := Some (Round L m places)\<rparr>
           in if length samples < 2 then c
              else let sd = stdDev L samples
                   in c\<lparr>co_StdDev := Some sd,
                        co_Stable := (if m = 0 then None
                                      else Some (DivRound L sd \<bar>m\<bar> icmal_divisionScale < stabilityLimit))\<rparr>)"

section \<open>Regular rows\<close>

definition trim_set :: "char set \<Rightarrow> string \<Rightarrow> string" where
  "trim_set cs s = rev (dropWhile (\<lambda>c. c \<in> cs) (rev (dropWhile (\<lambda>c. c \<in> cs) s)))"

text \<open>Any entry of the map may decide, so its order does not matter.\<close>

definition supplementary_entry :: "(string \<Rightarrow> string) \<Rightarrow> string \<times> string \<Rightarrow> bool" where
  "supplementary_entry fold_hdr = (\<lambda>(header, v).
     if fold_hdr header = fold_hdr (''Ek T'' @ [CHR 0xC3, CHR 0xBC] @ ''ketim T0 Kwh'')
     then let v = trimCell v in v \<noteq> [] \<and> trim_set {CHR ''0'', CHR ''.'', CHR '','', CHR ''-''} v \<noteq> []
     else fold_hdr header = fold_hdr ''Fatura Abone Grubu'' \<and> suffix ''(Ek)'' (TrimSpace v))"

definition supplementary :: "(string \<Rightarrow> string) \<Rightarrow> icmal_row \<Rightarrow> bool" where
  "supplementary fold_hdr r =
     ((case ir_TotalKwh r of Some k \<Rightarrow> k < 0 | None \<Rightarrow> False) \<or>
      (case unmarshal_string_map (ir_Raw r) of None \<Rightarrow> False | Some raw \<Rightarrow> list_ex (supplementary_entry fold_hdr) raw))"

text \<open>The warning that keeps a row out, or none for a regular row.\<close>

definition exclusion :: "(string \<Rightarrow> string) \<Rightarrow> icmal_row \<Rightarrow> (string \<times> string) option" where
  "exclusion fold_hdr r =
     (if ir_IsCancelled r then Some (''cancelled_row_excluded'', ''cancelled invoice'')
      else if supplementary fold_hdr r
      then Some (''supplementary_correction_excluded'', ''supplementary correction of an earlier period'')
      else if \<not> (case ir_TotalKwh r of Some k \<Rightarrow> 0 < k | None \<Rightarrow> False)
      then Some (''zero_kwh_row_excluded'', ''no consumption on the row'')
      else None)"

record icmal_group =
  ig_Warnings :: "icmal_warning list"
  ig_Regular :: "nat list"

definition row_warning :: "nat \<Rightarrow> string \<Rightarrow> string \<Rightarrow> icmal_warning" where
  "row_warning i code txt = \<lparr>wn_Row = i + 1, wn_Code = code, wn_Text = txt\<rparr>"

definition group_row :: "(string \<Rightarrow> string) \<Rightarrow> nat \<times> icmal_row \<Rightarrow> icmal_group \<Rightarrow> icmal_group" where
  "group_row fold_hdr = (\<lambda>(i, r) g.
     (case exclusion fold_hdr r of
        Some (code, txt) \<Rightarrow> g\<lparr>ig_Warnings := ig_Warnings g @ [row_warning i code txt]\<rparr>
      | None \<Rightarrow> g\<lparr>ig_Regular := ig_Regular g @ [i]\<rparr>))"

text \<open>The groups in the order of their first row; rows without a code belong to none.\<close>

definition coded_rows :: "icmal_row list \<Rightarrow> (nat \<times> icmal_row) list" where
  "coded_rows rows = filter (\<lambda>(i, r). ir_EtsoCode r \<noteq> None) (enumerate 0 rows)"

definition group_rows :: "(string \<Rightarrow> string) \<Rightarrow> icmal_row list \<Rightarrow> string list \<times> (string \<rightharpoonup> icmal_group)" where
  "group_rows fold_hdr rows =
     groups_of (\<lambda>x. the (ir_EtsoCode (snd x))) (\<lambda>_. \<lparr>ig_Warnings = [], ig_Regular = []\<rparr>) (group_row fold_hdr) (coded_rows rows)"

definition orphanWarnings :: "icmal_row list \<Rightarrow> icmal_warning list" where
  "orphanWarnings rows =
     map (\<lambda>(i, _). row_warning i ''etso_missing'' ''row has no ETSO code'')
       (filter (\<lambda>(i, r). ir_EtsoCode r = None) (enumerate 0 rows))"

section \<open>The reactive unit price\<close>

definition reactive_candidates :: "declib \<Rightarrow> icmal_row \<Rightarrow> dec list" where
  "reactive_candidates L r =
     List.map_filter (\<lambda>reg. case reg of
         Some q \<Rightarrow> if 0 < q then Some (DivRound L (val0 (ir_ReactiveCharge r)) q icmal_divisionScale) else None
       | None \<Rightarrow> None) [ir_InductiveKvarh r, ir_CapacitiveKvarh r]"

text \<open>The rows with a reactive charge and, with a warning where there are none, their candidates.\<close>

definition reactive_rows :: "(nat \<Rightarrow> bool) \<Rightarrow> icmal_row list \<Rightarrow> (nat \<times> icmal_row) list" where
  "reactive_rows regular rows =
     filter (\<lambda>(i, r). ir_EtsoCode r \<noteq> None \<and> regular i \<and> 0 < val0 (ir_ReactiveCharge r)) (enumerate 0 rows)"

definition candidates_of :: "declib \<Rightarrow> (nat \<Rightarrow> bool) \<Rightarrow> icmal_row list \<Rightarrow> (nat \<times> dec list) list" where
  "candidates_of L regular rows =
     filter (\<lambda>(i, cs). cs \<noteq> []) (map (\<lambda>(i, r). (i, reactive_candidates L r)) (reactive_rows regular rows))"

text \<open>How many rows share a value to four places, a row counting once for each of its values.\<close>

definition tally_keys :: "declib \<Rightarrow> (nat \<times> dec list) list \<Rightarrow> dec list" where
  "tally_keys L cands = concat (map (\<lambda>(i, cs). remdups (map (\<lambda>c. Round L c 4) cs)) cands)"

text \<open>The value most rows share, the smallest of them at a tie.\<close>

definition consensus_of :: "declib \<Rightarrow> (nat \<times> dec list) list \<Rightarrow> dec option" where
  "consensus_of L cands =
     (let keys = tally_keys L cands
      in case sort_key (\<lambda>k. - int (count_list keys k)) (sort (remdups keys)) of [] \<Rightarrow> None | k # _ \<Rightarrow> Some k)"

definition match_of :: "dec \<Rightarrow> dec list \<Rightarrow> dec option" where
  "match_of consensus cs = find (\<lambda>c. \<bar>c - consensus\<bar> \<le> consensus * reactiveMatch) cs"

text \<open>The price, the candidate of each row that agrees with it, and the warnings by row index.\<close>

definition reactiveConsensus ::
    "declib \<Rightarrow> (nat list \<Rightarrow> nat list) \<Rightarrow> (nat \<Rightarrow> bool) \<Rightarrow> icmal_row list \<Rightarrow> dec \<times> (nat \<rightharpoonup> dec) \<times> (nat \<times> icmal_warning) list" where
  "reactiveConsensus L visit regular rows =
     (let cands = candidates_of L regular rows;
          unmeasured = map (\<lambda>(i, _). (i, row_warning i ''reactive_quantity_missing'' ''reactive charge with no reactive quantity''))
            (filter (\<lambda>(i, r). reactive_candidates L r = []) (reactive_rows regular rows))
      in case consensus_of L cands of
           None \<Rightarrow> (0, Map.empty, unmeasured)
         | Some consensus \<Rightarrow>
             let matched = (\<lambda>i. Option.bind (map_of cands i) (match_of consensus))
             in (consensus, matched,
                 unmeasured @ map (\<lambda>i. (i, row_warning i ''reactive_register_ambiguous''
                                             ''no reactive register matches the import-wide unit price''))
                   (filter (\<lambda>i. matched i = None) (visit (map fst cands)))))"

section \<open>One group\<close>

text \<open>The samples collected from the regular rows of a group.\<close>

record derivation_samples =
  ds_energy :: "dec list"
  ds_distribution :: "dec list"
  ds_power :: "dec list"
  ds_reactiveKbk :: "dec list"
  ds_vat :: "dec list"
  ds_reactivePrices :: "dec list"
  ds_powerCharges :: "dec list"
  ds_taxes :: "string \<Rightarrow> dec list"
  ds_energyRows :: "(dec \<times> dec \<times> dec) list"
  ds_periods :: "string set"
  ds_Term :: "string option"
  ds_VoltageLevel :: "string option"
  ds_IsMultiTime :: "bool option"
  ds_Warnings :: "icmal_warning list"

definition no_samples :: "icmal_warning list \<Rightarrow> derivation_samples" where
  "no_samples ws =
     \<lparr>ds_energy = [], ds_distribution = [], ds_power = [], ds_reactiveKbk = [], ds_vat = [], ds_reactivePrices = [],
      ds_powerCharges = [], ds_taxes = (\<lambda>_. []), ds_energyRows = [], ds_periods = {}, ds_Term = None, ds_VoltageLevel = None,
      ds_IsMultiTime = None, ds_Warnings = ws\<rparr>"

definition actual_energy :: "icmal_row \<Rightarrow> dec" where
  "actual_energy r = val0 (ir_EnergyCharge r) - val0 (ir_PriceDifference r) - val0 (ir_CorrectionAmount r)"

text \<open>What each part of the loop body adds.\<close>

definition row_facts :: "(string \<rightharpoonup> dec) \<Rightarrow> nat \<Rightarrow> icmal_row \<Rightarrow> derivation_samples \<Rightarrow> derivation_samples" where
  "row_facts base i r a =
     (let a = a\<lparr>ds_periods := insert (ir_Period r) (ds_periods a)\<rparr>;
          a = (if ds_Term a = None
               then a\<lparr>ds_Term := ir_Term r, ds_VoltageLevel := ir_VoltageLevel r, ds_IsMultiTime := ir_IsMultiTime r\<rparr> else a)
      in if base (ir_Period r) = None
         then a\<lparr>ds_Warnings := ds_Warnings a @ [row_warning i ''base_price_missing'' (''no PTF/YEKDEM for '' @ ir_Period r)]\<rparr> else a)"

definition energy_sample :: "declib \<Rightarrow> (string \<rightharpoonup> dec) \<Rightarrow> icmal_row \<Rightarrow> derivation_samples \<Rightarrow> derivation_samples" where
  "energy_sample L base r a =
     (case base (ir_Period r) of
        None \<Rightarrow> a
      | Some b \<Rightarrow>
          if ir_EnergyCharge r \<noteq> None \<and> 0 < b
          then let kwh = val0 (ir_TotalKwh r); actual = actual_energy r
               in a\<lparr>ds_energy := ds_energy a @ [DivRound L actual (kwh * b) icmal_divisionScale],
                    ds_energyRows := ds_energyRows a @ [(kwh, b, actual)]\<rparr>
          else a)"

definition distribution_sample :: "declib \<Rightarrow> icmal_row \<Rightarrow> derivation_samples \<Rightarrow> derivation_samples" where
  "distribution_sample L r a =
     (case ir_DistributionCharge r of
        None \<Rightarrow> a
      | Some d \<Rightarrow> a\<lparr>ds_distribution := ds_distribution a @ [DivRound L d (val0 (ir_TotalKwh r)) icmal_divisionScale]\<rparr>)"

definition reactive_sample :: "declib \<Rightarrow> (string \<rightharpoonup> dec) \<Rightarrow> (nat \<rightharpoonup> dec) \<Rightarrow> nat \<Rightarrow> icmal_row \<Rightarrow> derivation_samples \<Rightarrow> derivation_samples" where
  "reactive_sample L base matched i r a =
     (let reactiveQty = val0 (ir_InductiveKvarh r) + val0 (ir_CapacitiveKvarh r);
          a = (case base (ir_Period r) of
                 None \<Rightarrow> a
               | Some b \<Rightarrow>
                   if 0 < val0 (ir_ReactiveCharge r) \<and> 0 < reactiveQty \<and> 0 < b
                   then a\<lparr>ds_reactiveKbk := ds_reactiveKbk a @
                          [DivRound L (val0 (ir_ReactiveCharge r)) (reactiveQty * b) icmal_divisionScale]\<rparr>
                   else a)
      in case matched i of None \<Rightarrow> a | Some p \<Rightarrow> a\<lparr>ds_reactivePrices := ds_reactivePrices a @ [p]\<rparr>)"

definition power_sample :: "declib \<Rightarrow> dec option \<Rightarrow> dec \<Rightarrow> nat \<Rightarrow> icmal_row \<Rightarrow> derivation_samples \<Rightarrow> derivation_samples" where
  "power_sample L contract overrunMultiplier i r a =
     (let pc = val0 (ir_PowerCharge r)
      in if \<not> 0 < pc then a
         else let a = a\<lparr>ds_powerCharges := ds_powerCharges a @ [pc]\<rparr>
              in if 0 < val0 contract
                 then a\<lparr>ds_power := ds_power a @ [DivRound L pc (val0 contract) icmal_divisionScale]\<rparr>
                 else if 0 < val0 (ir_OveruseCharge r) \<and> 0 < val0 (ir_DemandKw r) \<and> 0 < overrunMultiplier
                 then let b = pc + DivRound L (val0 (ir_OveruseCharge r)) overrunMultiplier icmal_divisionScale
                      in a\<lparr>ds_power := ds_power a @ [DivRound L b (val0 (ir_DemandKw r)) icmal_divisionScale]\<rparr>
                 else a\<lparr>ds_Warnings := ds_Warnings a @
                        [row_warning i ''power_requires_manual_entry'' ''power price needs a contracted power or an overrun row'']\<rparr>)"

definition vat_sample :: "declib \<Rightarrow> icmal_row \<Rightarrow> derivation_samples \<Rightarrow> derivation_samples" where
  "vat_sample L r a =
     (case (ir_Vat r, ir_VatBase r) of
        (Some v, Some b) \<Rightarrow>
          if 0 < b then a\<lparr>ds_vat := ds_vat a @ [DivRound L (v * icmal_hundred) b icmal_divisionScale]\<rparr> else a
      | _ \<Rightarrow> a)"

text \<open>The three taxes have different names, so the order they are visited in does not matter.\<close>

definition tax_names :: "string list" where
  "tax_names = [''BTV'', ''Enerji Fonu'', ''TRT'']"

definition tax_amount :: "icmal_row \<Rightarrow> string \<Rightarrow> dec option" where
  "tax_amount r name =
     (if name = ''BTV'' then ir_Btv r else if name = ''Enerji Fonu'' then ir_EnergyFund r
      else if name = ''TRT'' then ir_Trt r else None)"

definition tax_samples :: "declib \<Rightarrow> icmal_row \<Rightarrow> derivation_samples \<Rightarrow> derivation_samples" where
  "tax_samples L r a =
     (let e = val0 (ir_EnergyCharge r)
      in if \<not> 0 < e then a
         else fold (\<lambda>name a. case tax_amount r name of
                None \<Rightarrow> a
              | Some amount \<Rightarrow>
                  if amount = 0 then a
                  else a\<lparr>ds_taxes := (ds_taxes a)(name := ds_taxes a name @ [DivRound L (amount * icmal_hundred) e icmal_divisionScale])\<rparr>)
                tax_names a)"

definition add_sample ::
    "declib \<Rightarrow> (string \<rightharpoonup> dec) \<Rightarrow> dec option \<Rightarrow> dec \<Rightarrow> (nat \<rightharpoonup> dec) \<Rightarrow> nat \<times> icmal_row \<Rightarrow> derivation_samples \<Rightarrow> derivation_samples" where
  "add_sample L base contract overrunMultiplier matched = (\<lambda>(i, r) a.
     tax_samples L r (vat_sample L r (power_sample L contract overrunMultiplier i r
       (reactive_sample L base matched i r (distribution_sample L r (energy_sample L base r (row_facts base i r a)))))))"

text \<open>The largest relative error of the group's coefficient on its own rows, in percent.\<close>

definition back_calc_error :: "declib \<Rightarrow> dec \<Rightarrow> (dec \<times> dec \<times> dec) list \<Rightarrow> dec" where
  "back_calc_error L kbk ers =
     fold (\<lambda>(kwh, b, actual) worst.
       if actual = 0 then worst
       else max worst (DivRound L (\<bar>kwh * b * kbk - actual\<bar> * icmal_hundred) \<bar>actual\<bar> icmal_divisionScale)) ers 0"

definition analyse_group ::
    "declib \<Rightarrow> (string \<rightharpoonup> dec) \<Rightarrow> dec option \<Rightarrow> dec \<Rightarrow> dec \<Rightarrow> (nat \<rightharpoonup> dec) \<Rightarrow> icmal_row list \<Rightarrow> string \<Rightarrow> nat list \<Rightarrow> icmal_warning list \<Rightarrow>
     icmal_analysis" where
  "analyse_group L base contract overrunMultiplier consensus matched rows etso regular ws =
     (let a = fold (add_sample L base contract overrunMultiplier matched) (map (\<lambda>i. (i, rows ! i)) regular) (no_samples ws);
          power = aggregate_samples L (ds_power a) 4;
          energy = aggregate_samples L (ds_energy a) 4
      in \<lparr>ia_EtsoCode = etso, ia_Periods = sorted_list_of_set (ds_periods a),
          ia_EnergyKbk = (case co_Value energy of
             None \<Rightarrow> energy | Some kbk \<Rightarrow> energy\<lparr>co_BackCalcErrorPct := Some (back_calc_error L kbk (ds_energyRows a))\<rparr>),
          ia_DistributionTlPerKwh = aggregate_samples L (ds_distribution a) 4,
          ia_PowerUnitPrice = power,
          ia_ImpliedContractedPowerKw = (case co_Value power of
             None \<Rightarrow> None
           | Some p \<Rightarrow> if 0 < p then Some (Round L (DivRound L (icmal_median L (ds_powerCharges a)) p icmal_divisionScale) 3) else None),
          ia_ReactiveUnitPrice = (if ds_reactivePrices a = [] then no_coefficient
             else (aggregate_samples L (ds_reactivePrices a) 4)\<lparr>co_Value := Some consensus\<rparr>),
          ia_ReactiveKbk = aggregate_samples L (ds_reactiveKbk a) 4,
          ia_VatRate = aggregate_samples L (ds_vat a) 2,
          ia_Taxes = (\<lambda>name. if ds_taxes a name = [] then None else Some (aggregate_samples L (ds_taxes a name) 2)),
          ia_OveruseRequiresManualEntry = True, ia_IsMultiTime = ds_IsMultiTime a, ia_Term = ds_Term a,
          ia_VoltageLevel = ds_VoltageLevel a, ia_WithinTolerance = False,
          ia_Warnings = ds_Warnings a @ (if co_Stable power = Some False
             then [\<lparr>wn_Row = 0, wn_Code = ''power_price_unstable'', wn_Text = ''PTF-based power pricing may not suit this customer''\<rparr>]
             else [])\<rparr>)"

text \<open>Only groups with a coefficient can put the analysis out of tolerance.\<close>

definition group_within :: "icmal_analysis \<Rightarrow> bool" where
  "group_within a = (case co_BackCalcErrorPct (ia_EnergyKbk a) of None \<Rightarrow> True | Some worst \<Rightarrow> worst < backCalcLimit)"

definition Analyse ::
    "declib \<Rightarrow> (string \<Rightarrow> string) \<Rightarrow> (nat list \<Rightarrow> nat list) \<Rightarrow> icmal_row list \<Rightarrow> (string \<rightharpoonup> dec) \<Rightarrow> (string \<rightharpoonup> dec) \<Rightarrow> dec \<Rightarrow>
     icmal_analysis list" where
  "Analyse L fold_hdr visit rows base contracted overrunMultiplier =
     (case group_rows fold_hdr rows of (order, groups) \<Rightarrow>
        let code = (\<lambda>i. the (ir_EtsoCode (rows ! i)));
            regular = (\<lambda>i. case groups (code i) of None \<Rightarrow> False | Some g \<Rightarrow> i \<in> set (ig_Regular g))
        in case reactiveConsensus L visit regular rows of (consensus, matched, reactiveWarnings) \<Rightarrow>
          let out = map (\<lambda>etso. case groups etso of
                  None \<Rightarrow> analyse_group L base (contracted etso) overrunMultiplier consensus matched rows etso [] []
                | Some g \<Rightarrow> analyse_group L base (contracted etso) overrunMultiplier consensus matched rows etso (ig_Regular g)
                    (ig_Warnings g @ map snd (filter (\<lambda>(i, _). code i = etso) reactiveWarnings) @ orphanWarnings rows)) order;
              tolerated = list_all group_within out
          in map (\<lambda>a. a\<lparr>ia_WithinTolerance := tolerated\<rparr>) out)"

section \<open>The square root\<close>

lemma newton_loop_iterates: "newton_loop L v n x = (newton_next L v ^^ n) x"
proof (induction n arbitrary: x)
  case (Suc n)
  have same: "(newton_next L v ^^ m) x = x" if "newton_next L v x = x" for m
    using that by (induction m) simp_all
  show ?case
  proof (cases "newton_next L v x = x")
    case True
    then show ?thesis using same [OF True, of "Suc n"] by (simp add: Let_def)
  next
    case False
    then show ?thesis using Suc by (simp add: Let_def funpow_Suc_right del: funpow.simps)
  qed
qed simp

lemma real_round_near: "\<bar>real_of_rat (round_away x n) - real_of_rat x\<bar> \<le> 1 / (2 * 10 ^ n)"
proof -
  have "\<bar>round_away x n - x\<bar> \<le> 1 / (2 * 10 ^ n)"
    using round_away_near [of x n] by (simp add: field_simps)
  then have "- (1 / (2 * 10 ^ n)) \<le> round_away x n - x" "round_away x n - x \<le> 1 / (2 * 10 ^ n)" by linarith+
  then have "real_of_rat (- (1 / (2 * 10 ^ n))) \<le> real_of_rat (round_away x n - x)"
    "real_of_rat (round_away x n - x) \<le> real_of_rat (1 / (2 * 10 ^ n))" by (simp_all only: of_rat_less_eq)
  then show ?thesis
    by (simp add: of_rat_diff of_rat_divide of_rat_mult of_rat_power of_rat_minus abs_le_iff)
qed

text \<open>The error of one step: the two roundings together.\<close>

definition step_error :: real where "step_error = 3 / (4 * 10 ^ 20)"

lemma two_roundings:
  fixes p q x y d :: real
  assumes "\<bar>q - p\<bar> \<le> d" and "\<bar>y - (x + q) / 2\<bar> \<le> d"
  shows "\<bar>y - (x + p) / 2\<bar> \<le> 3 / 2 * d"
proof -
  have "q - p \<le> d" "p - q \<le> d" "y - (x + q) / 2 \<le> d" "(x + q) / 2 - y \<le> d"
    using assms by (simp_all only: abs_le_iff minus_diff_eq)
  then show ?thesis unfolding abs_le_iff by (intro conjI) (simp_all add: field_simps)
qed

lemma halved: "y \<le> m / 2 + 2 * d \<Longrightarrow> m \<le> q + 4 * d \<Longrightarrow> y \<le> q / 2 + 4 * d" for y m d q :: real
  by (simp add: field_simps)

context decimal_lib begin

lemma newton_next_near:
  assumes "x \<noteq> 0"
  shows "\<bar>real_of_rat (newton_next L v x) - (real_of_rat x + real_of_rat v / real_of_rat x) / 2\<bar> \<le> step_error"
proof -
  let ?q = "round_away (v / x) 20"
  have "\<bar>real_of_rat ?q - real_of_rat v / real_of_rat x\<bar> \<le> 1 / (2 * 10 ^ 20)"
    using real_round_near [of "v / x" 20] by (simp add: of_rat_divide)
  moreover have "\<bar>real_of_rat (newton_next L v x) - (real_of_rat x + real_of_rat ?q) / 2\<bar> \<le> 1 / (2 * 10 ^ 20)"
    using real_round_near [of "(x + ?q) / 2" 20] assms
    by (simp add: newton_next_def icmal_divisionScale_def DivRound_eq of_rat_divide of_rat_add)
  moreover have "step_error = 3 / 2 * (1 / (2 * 10 ^ 20))" by (simp add: step_error_def)
  ultimately show ?thesis using two_roundings by metis
qed

end

text \<open>Newton's step never goes below the root by more than the error, and halves the distance above it.\<close>

lemma newton_real:
  fixes x s y :: real
  assumes s: "1 / 10 ^ 10 \<le> s" and x: "s - step_error \<le> x" and y: "\<bar>y - (x + s\<^sup>2 / x) / 2\<bar> \<le> step_error"
  shows "s - step_error \<le> y" and "y - s \<le> max (x - s) 0 / 2 + 2 * step_error"
proof -
  have pos: "0 < s" "0 < x" and half: "s / 2 \<le> x"
    using s x unfolding step_error_def by (simp_all add: field_simps)
  have gap: "(x + s\<^sup>2 / x) / 2 - s = (x - s)\<^sup>2 / (2 * x)"
    using pos by (simp add: field_simps power2_eq_square)
  moreover have "0 \<le> (x - s)\<^sup>2 / (2 * x)" using pos by simp
  moreover have "(x + s\<^sup>2 / x) / 2 - y \<le> step_error" using y by (simp only: abs_le_iff minus_diff_eq)
  ultimately show "s - step_error \<le> y" by simp
  have "(x - s)\<^sup>2 / (2 * x) \<le> max (x - s) 0 / 2 + step_error"
  proof (cases "s \<le> x")
    case True
    have "(x - s)\<^sup>2 / (2 * x) \<le> (x - s) * x / (2 * x)"
      using True pos by (intro divide_right_mono) (auto simp: power2_eq_square intro: mult_left_mono)
    also have "(x - s) * x / (2 * x) = (x - s) / 2" using pos by simp
    finally have "(x - s)\<^sup>2 / (2 * x) \<le> (x - s) / 2" .
    moreover have "0 \<le> step_error" "max (x - s) 0 = x - s" using True by (simp_all add: step_error_def)
    ultimately show ?thesis by (simp only: add_increasing2)
  next
    case False
    then have d: "0 \<le> s - x" "s - x \<le> step_error" using x by simp_all
    have "(x - s)\<^sup>2 \<le> step_error\<^sup>2" using d by (simp add: power2_commute power_mono)
    moreover have "step_error\<^sup>2 \<le> step_error * (2 * x)"
      using half s unfolding power2_eq_square step_error_def by (intro mult_left_mono) (simp_all add: field_simps)
    ultimately have "(x - s)\<^sup>2 / (2 * x) \<le> step_error" using pos by (simp add: pos_divide_le_eq)
    moreover have "max (x - s) 0 = 0" using False by simp
    ultimately show ?thesis by simp
  qed
  then show "y - s \<le> max (x - s) 0 / 2 + 2 * step_error" using y gap by linarith
qed

context decimal_lib begin

lemma newton_iterates:
  assumes s: "1 / 10 ^ 10 \<le> s" "s\<^sup>2 = real_of_rat v" and start: "s - step_error \<le> real_of_rat x" "max (real_of_rat x - s) 0 \<le> e"
  shows "s - step_error \<le> real_of_rat ((newton_next L v ^^ n) x) \<and>
     real_of_rat ((newton_next L v ^^ n) x) - s \<le> e / 2 ^ n + 4 * step_error"
proof (induction n)
  case 0
  show ?case using start by (simp add: step_error_def)
next
  case (Suc n)
  let ?y = "(newton_next L v ^^ n) x"
  have "step_error < 1 / 10 ^ 10" by (simp add: step_error_def)
  then have "0 < real_of_rat ?y" using Suc s(1) by linarith
  then have "?y \<noteq> 0" by auto
  from newton_real [OF s(1) conjunct1 [OF Suc] newton_next_near [OF this, of v, folded s(2)]]
  have "s - step_error \<le> real_of_rat (newton_next L v ?y)"
    "real_of_rat (newton_next L v ?y) - s \<le> max (real_of_rat ?y - s) 0 / 2 + 2 * step_error" .
  moreover have "max (real_of_rat ?y - s) 0 \<le> e / 2 ^ n + 4 * step_error"
    using Suc start(2) by (simp add: step_error_def)
  moreover have "e / 2 ^ Suc n = e / 2 ^ n / 2" by simp
  ultimately have "real_of_rat (newton_next L v ?y) - s \<le> e / 2 ^ Suc n + 4 * step_error" by (metis halved)
  with \<open>s - step_error \<le> real_of_rat (newton_next L v ?y)\<close> show ?case by simp
qed

lemma newton_close:
  assumes v: "on_grid 20 v" "0 < v" "v \<le> 10 ^ 18"
  shows "\<bar>real_of_rat (newton_loop L v 100 (if v < 1 then 1 else v)) - sqrt (real_of_rat v)\<bar> \<le> 1 / 10 ^ 11"
proof -
  let ?s = "sqrt (real_of_rat v)" and ?x = "if v < 1 then 1 else v :: dec"
  obtain k where k: "v = of_int k / 10 ^ 20" using v(1) by (rule on_gridE)
  with v(2) have "1 \<le> k" by (simp add: zero_less_divide_iff)
  then have "1 / 10 ^ 20 \<le> v" unfolding k by (simp add: divide_right_mono)
  then have low: "1 / 10 ^ 20 \<le> real_of_rat v"
    using of_rat_less_eq [of "1 / 10 ^ 20" v, where 'a = real] by (simp add: of_rat_divide)
  then have s1: "1 / 10 ^ 10 \<le> ?s" by (intro real_le_rsqrt) (simp add: power2_eq_square)
  have s2: "?s\<^sup>2 = real_of_rat v" using v(2) by simp
  have x: "real_of_rat ?x = max 1 (real_of_rat v)" by (simp add: max_def of_rat_less [of v 1, where 'a = real, simplified])
  have "real_of_rat v \<le> 10 ^ 18" using v(3) of_rat_less_eq [of v "10 ^ 18", where 'a = real] by simp
  then have e: "real_of_rat ?x \<le> 10 ^ 18" unfolding x by simp
  have "?s \<le> max 1 (real_of_rat v)"
  proof (cases "real_of_rat v \<le> 1")
    case False
    then have "real_of_rat v \<le> (real_of_rat v)\<^sup>2" by (simp add: power2_eq_square)
    with False show ?thesis by (simp add: real_le_lsqrt)
  qed simp
  then have "?s \<le> real_of_rat ?x" unfolding x .
  then have start: "?s - step_error \<le> real_of_rat ?x" "max (real_of_rat ?x - ?s) 0 \<le> 10 ^ 18"
    using e s1 low by (simp_all add: step_error_def)
  let ?y = "real_of_rat ((newton_next L v ^^ 100) ?x)"
  have "?s - step_error \<le> ?y" "?y - ?s \<le> 10 ^ 18 / 2 ^ 100 + 4 * step_error"
    using newton_iterates [OF s1 s2 start, of 100] by blast+
  moreover have "step_error \<le> 1 / 10 ^ 11" "10 ^ 18 / 2 ^ 100 + 4 * step_error \<le> 1 / 10 ^ 11"
    by (simp_all add: step_error_def)
  ultimately have "\<bar>?y - ?s\<bar> \<le> 1 / 10 ^ 11" unfolding abs_le_iff by simp
  then show ?thesis unfolding newton_loop_iterates .
qed

end

section \<open>The standard deviation\<close>

definition exact_variance :: "dec list \<Rightarrow> dec" where
  "exact_variance xs = (let m = sum_list xs / of_nat (length xs) in (\<Sum>x\<leftarrow>xs. (x - m)\<^sup>2) / of_nat (length xs))"

lemma fold_sum: "fold (\<lambda>s acc. acc + f s) xs a = a + (\<Sum>x\<leftarrow>xs. f x)" for f :: "'a \<Rightarrow> dec"
  by (induction xs arbitrary: a) (simp_all add: add.assoc)

lemma sum_squares: "(\<Sum>x\<leftarrow>xs. (x - m)\<^sup>2) = (\<Sum>x\<leftarrow>xs. x\<^sup>2) - 2 * m * sum_list xs + of_nat (length xs) * m\<^sup>2" for m :: dec
  by (induction xs) (simp_all add: power2_eq_square algebra_simps)

text \<open>The squares around any number: those around the mean, and the square of its distance.\<close>

lemma variance_shift:
  assumes "xs \<noteq> []"
  shows "(\<Sum>x\<leftarrow>xs. (x - m)\<^sup>2) / of_nat (length xs) = exact_variance xs + (m - sum_list xs / of_nat (length xs))\<^sup>2"
proof -
  have n: "(of_nat (length xs) :: dec) \<noteq> 0" using assms by simp
  then have "of_nat (length xs) * (sum_list xs / of_nat (length xs)) = sum_list xs" by simp
  then show ?thesis unfolding exact_variance_def Let_def sum_squares using n
    by (simp add: field_simps power2_eq_square)
qed

lemma exact_variance_nonneg: "0 \<le> exact_variance xs"
  by (auto simp: exact_variance_def Let_def intro!: divide_nonneg_nonneg sum_list_nonneg)

context decimal_lib begin

lemma population_variance_near:
  assumes "samples \<noteq> []"
  shows "on_grid 20 (population_variance L samples)" and "0 \<le> population_variance L samples"
    and "\<bar>population_variance L samples - exact_variance samples\<bar> \<le> 1 / 10 ^ 20"
proof -
  let ?n = "of_nat (length samples) :: dec" and ?mu = "sum_list samples / of_nat (length samples)"
  let ?m = "round_away ?mu 20"
  have n: "?n \<noteq> 0" using assms by simp
  have squares: "fold (\<lambda>s acc. let d = s - m in acc + d * d) xs 0 = (\<Sum>x\<leftarrow>xs. (x - m)\<^sup>2)" for m :: dec and xs
    using fold_sum [of "\<lambda>s. (s - m)\<^sup>2" xs 0] by (simp add: Let_def power2_eq_square)
  have pv: "population_variance L samples = round_away (exact_variance samples + (?m - ?mu)\<^sup>2) 20"
    unfolding population_variance_def Let_def icmal_divisionScale_def squares [unfolded Let_def] DivRound_eq [OF n]
    using fold_sum [of "\<lambda>s. s" samples 0] variance_shift [OF assms, of ?m] by simp
  then show "on_grid 20 (population_variance L samples)" by simp
  show "0 \<le> population_variance L samples" unfolding pv by (intro round_away_nonneg add_nonneg_nonneg exact_variance_nonneg) simp
  have near: "\<bar>round_away x 20 - x\<bar> \<le> 1 / (2 * 10 ^ 20)" for x
    using round_away_near [of x 20] by (simp add: field_simps)
  have "(?m - ?mu)\<^sup>2 \<le> (1 / (2 * 10 ^ 20))\<^sup>2" using near [of ?mu] by (simp add: power2_le_iff_abs_le)
  moreover have "(1 / (2 * 10 ^ 20))\<^sup>2 \<le> (1 / (2 * 10 ^ 20) :: dec)" by (simp add: power2_eq_square)
  ultimately have small: "(?m - ?mu)\<^sup>2 \<le> 1 / (2 * 10 ^ 20)" by (rule order_trans)
  have "\<bar>r - (e + q)\<bar> \<le> d \<Longrightarrow> 0 \<le> q \<Longrightarrow> q \<le> d \<Longrightarrow> \<bar>r - e\<bar> \<le> 2 * d" for r e q d :: dec by (simp add: abs_le_iff)
  from this [OF near zero_le_power2 small, of "exact_variance samples"] show "\<bar>population_variance L samples - exact_variance samples\<bar> \<le> 1 / 10 ^ 20"
    unfolding pv by simp
qed

lemma stdDev_near:
  assumes "samples \<noteq> []" and "exact_variance samples \<le> 10 ^ 17"
  shows "\<bar>real_of_rat (stdDev L samples) - sqrt (real_of_rat (exact_variance samples))\<bar> \<le> 2 / 10 ^ 10"
proof -
  let ?v = "population_variance L samples" and ?e = "exact_variance samples"
  note pv = population_variance_near [OF assms(1)]
  have le: "?v \<le> ?e + 1 / 10 ^ 20" "?e \<le> ?v + 1 / 10 ^ 20" using pv(3) unfolding abs_le_iff by linarith+
  have root: "sqrt (real_of_rat a) \<le> sqrt (real_of_rat b) + 1 / 10 ^ 10" if "a \<le> b + 1 / 10 ^ 20" "0 \<le> b" for a b
  proof -
    have "real_of_rat a \<le> real_of_rat (b + 1 / 10 ^ 20)" using that(1) by (simp only: of_rat_less_eq)
    then have "sqrt (real_of_rat a) \<le> sqrt (real_of_rat b + (1 / 10 ^ 10)\<^sup>2)"
      by (simp add: of_rat_add of_rat_divide power2_eq_square)
    also have "\<dots> \<le> sqrt (real_of_rat b) + sqrt ((1 / 10 ^ 10)\<^sup>2)" using that(2) by (intro sqrt_add_le_add_sqrt) simp_all
    finally show ?thesis by simp
  qed
  have exact: "\<bar>sqrt (real_of_rat ?v) - sqrt (real_of_rat ?e)\<bar> \<le> 1 / 10 ^ 10"
    using root [OF le(1) exact_variance_nonneg] root [OF le(2) pv(2)] unfolding abs_le_iff by simp
  show ?thesis
  proof (cases "?v = 0")
    case True
    then show ?thesis using exact by (simp add: stdDev_def)
  next
    case False
    then have v: "0 < ?v" using pv(2) by simp
    have "?v \<le> 10 ^ 18" using le(1) assms(2) by simp
    let ?x = "newton_loop L ?v 100 (if ?v < 1 then 1 else ?v)"
    have near: "\<bar>a - d\<bar> \<le> t" if "\<bar>a - b\<bar> \<le> p" "\<bar>b - c\<bar> \<le> q" "\<bar>c - d\<bar> \<le> r" "p + q + r \<le> t" for a b c d p q r t :: real
      using that by (simp add: abs_le_iff)
    have x: "\<bar>real_of_rat ?x - sqrt (real_of_rat ?v)\<bar> \<le> 1 / 10 ^ 11" using newton_close [OF pv(1) v \<open>?v \<le> 10 ^ 18\<close>] .
    have sd: "\<bar>real_of_rat (stdDev L samples) - real_of_rat ?x\<bar> \<le> 1 / (2 * 10 ^ 10)"
      using real_round_near [of ?x 10] False by (simp add: stdDev_def Let_def Round_eq)
    show ?thesis by (rule near [OF sd x exact]) simp
  qed
qed

end

text \<open>C36. The square root of the coefficients is a square root. The deviation the code computes with rounded quotients and at most a hundred
  steps of Newton's method is the population standard deviation of the samples, to within two units of the tenth decimal,
  for samples of an exact variance up to \<open>10^17\<close>; it is never negative beyond that error, and exactly 0 where the rounded variance is.\<close>

theorem stdDev_root:
  assumes "decimal_lib L" and "samples \<noteq> []" and "exact_variance samples \<le> 10 ^ 17"
  shows "\<bar>real_of_rat (stdDev L samples) - sqrt (real_of_rat (exact_variance samples))\<bar> \<le> 2 / 10 ^ 10
     \<and> (population_variance L samples = 0 \<longrightarrow> stdDev L samples = 0)"
  using decimal_lib.stdDev_near [OF assms] by (simp add: stdDev_def)

theorem stdDev_root_witness:
  "\<bar>real_of_rat (stdDev std_declib [1, 3]) - 1\<bar> \<le> 2 / 10 ^ 10"
proof -
  have "exact_variance [1, 3] = 1" by (simp add: exact_variance_def power2_eq_square)
  with stdDev_root [OF std.decimal_lib_axioms, of "[1, 3]"] show ?thesis by simp
qed

section \<open>Equal samples\<close>

lemma on_grid_finer:
  assumes "on_grid p x" and "p \<le> q"
  shows "on_grid q x"
proof -
  obtain i where i: "x * 10 ^ p = of_int i" using assms(1) by (auto simp: on_grid_def elim: Ints_cases)
  have "x * 10 ^ q = x * 10 ^ p * 10 ^ (q - p)" using assms(2) by (simp flip: power_add)
  then show ?thesis unfolding i by (intro on_gridI [where k = "i * 10 ^ (q - p)"]) simp
qed

context decimal_lib begin

lemma median_replicate:
  assumes "on_grid 20 k" and "0 < n"
  shows "icmal_median L (replicate n k) = k"
proof -
  have "sort (replicate n k) = replicate n k" by (rule sorted_sort_id) (simp add: sorted_replicate)
  then show ?thesis using assms
    by (auto simp: icmal_median_def Let_def DivRound_eq icmal_divisionScale_def round_away_exact)
qed

lemma stdDev_replicate:
  assumes "on_grid 20 k" and "0 < n"
  shows "stdDev L (replicate n k) = 0"
proof -
  have "exact_variance (replicate n k) = 0" using assms(2) by (simp add: exact_variance_def sum_list_replicate)
  moreover have "population_variance L (replicate n k) = 0"
  proof -
    have mean: "DivRound L (fold (\<lambda>s acc. acc + s) (replicate n k) 0) (of_nat (length (replicate n k))) icmal_divisionScale = k"
      using assms fold_sum [of "\<lambda>s. s" "replicate n k" 0]
      by (simp add: DivRound_eq icmal_divisionScale_def sum_list_replicate round_away_exact)
    have "fold (\<lambda>s acc. let d = s - k in acc + d * d) (replicate n k) 0 = 0"
      using fold_sum [of "\<lambda>s. (s - k) * (s - k)" "replicate n k" 0] by (simp add: Let_def sum_list_replicate)
    then show ?thesis using assms(2) unfolding population_variance_def Let_def mean [unfolded Let_def]
      by (simp add: DivRound_eq)
  qed
  ultimately show ?thesis by (simp add: stdDev_def)
qed

text \<open>Samples that agree are reported as they are, with no deviation, and as stable.\<close>

lemma aggregate_replicate:
  assumes "on_grid p k" and "p \<le> 20" and "0 < n"
  shows "co_Value (aggregate_samples L (replicate n k) p) = Some k" "co_Samples (aggregate_samples L (replicate n k) p) = n"
    "2 \<le> n \<Longrightarrow> co_StdDev (aggregate_samples L (replicate n k) p) = Some 0"
    "2 \<le> n \<Longrightarrow> k \<noteq> 0 \<Longrightarrow> co_Stable (aggregate_samples L (replicate n k) p) = Some True"
proof -
  have "on_grid 20 k" using assms(1,2) by (rule on_grid_finer)
  then show "co_Value (aggregate_samples L (replicate n k) p) = Some k" "co_Samples (aggregate_samples L (replicate n k) p) = n"
    "2 \<le> n \<Longrightarrow> co_StdDev (aggregate_samples L (replicate n k) p) = Some 0"
    "2 \<le> n \<Longrightarrow> k \<noteq> 0 \<Longrightarrow> co_Stable (aggregate_samples L (replicate n k) p) = Some True"
    using assms median_replicate [of k n] stdDev_replicate [of k n]
    by (auto simp: aggregate_samples_def no_coefficient_def Let_def Round_eq round_away_exact DivRound_eq stabilityLimit_def)
qed

end

section \<open>The samples of a group\<close>

definition regular_rows :: "(string \<Rightarrow> string) \<Rightarrow> icmal_row list \<Rightarrow> string \<Rightarrow> (nat \<times> icmal_row) list" where
  "regular_rows fold_hdr rows etso =
     filter (\<lambda>(i, r). ir_EtsoCode r = Some etso \<and> exclusion fold_hdr r = None) (enumerate 0 rows)"

lemma group_row_regular:
  "ig_Regular (fold (group_row fold_hdr) xs g) =
     ig_Regular g @ map fst (filter (\<lambda>(i, r). exclusion fold_hdr r = None) xs)"
  by (induction xs arbitrary: g) (auto simp: group_row_def split: option.split)

lemma group_rows_regular:
  assumes "snd (group_rows fold_hdr rows) etso = Some g"
  shows "map (\<lambda>i. (i, rows ! i)) (ig_Regular g) = regular_rows fold_hdr rows etso"
proof -
  let ?xs = "members (\<lambda>x. the (ir_EtsoCode (snd x))) etso (coded_rows rows)"
  from assms have "g = fold (group_row fold_hdr) ?xs \<lparr>ig_Warnings = [], ig_Regular = []\<rparr>"
    unfolding group_rows_def groups_of_lookup by (auto split: list.splits)
  then have "ig_Regular g = map fst (filter (\<lambda>(i, r). exclusion fold_hdr r = None) ?xs)"
    by (simp add: group_row_regular)
  also have "filter (\<lambda>(i, r). exclusion fold_hdr r = None) ?xs = regular_rows fold_hdr rows etso"
    unfolding coded_rows_def regular_rows_def filter_filter by (rule filter_cong [OF refl]) auto
  finally have "ig_Regular g = map fst (regular_rows fold_hdr rows etso)" .
  moreover have "\<forall>x \<in> set (regular_rows fold_hdr rows etso). (fst x, rows ! fst x) = x"
    by (auto simp: regular_rows_def in_set_enumerate_eq)
  ultimately show ?thesis by (simp add: map_idI)
qed

text \<open>What the rows of a group show of each coefficient.\<close>

definition energy_shown :: "(string \<rightharpoonup> dec) \<Rightarrow> icmal_row \<Rightarrow> bool" where
  "energy_shown base r \<longleftrightarrow> ir_EnergyCharge r \<noteq> None \<and> (case base (ir_Period r) of None \<Rightarrow> False | Some b \<Rightarrow> 0 < b)"

definition vat_shown :: "icmal_row \<Rightarrow> bool" where
  "vat_shown r \<longleftrightarrow> ir_Vat r \<noteq> None \<and> (case ir_VatBase r of None \<Rightarrow> False | Some b \<Rightarrow> 0 < b)"

definition kept_samples :: "derivation_samples \<Rightarrow> dec list \<times> (dec \<times> dec \<times> dec) list \<times> dec list \<times> dec list" where
  "kept_samples a = (ds_energy a, ds_energyRows a, ds_distribution a, ds_vat a)"

lemma kept_by_others:
  "kept_samples (row_facts base i r a) = kept_samples a"
  "kept_samples (reactive_sample L base matched i r a) = kept_samples a"
  "kept_samples (power_sample L contract m i r a) = kept_samples a"
  "kept_samples (tax_samples L r a) = kept_samples a"
  by (simp_all add: kept_samples_def row_facts_def reactive_sample_def power_sample_def tax_samples_def tax_names_def Let_def
      split: option.split)

lemma add_sample_kept:
  "kept_samples (add_sample L base contract m matched x a) =
     (ds_energy a @ (if energy_shown base (snd x)
        then [DivRound L (actual_energy (snd x)) (val0 (ir_TotalKwh (snd x)) * the (base (ir_Period (snd x)))) 20] else []),
      ds_energyRows a @ (if energy_shown base (snd x)
        then [(val0 (ir_TotalKwh (snd x)), the (base (ir_Period (snd x))), actual_energy (snd x))] else []),
      ds_distribution a @ (case ir_DistributionCharge (snd x) of None \<Rightarrow> [] | Some d \<Rightarrow> [DivRound L d (val0 (ir_TotalKwh (snd x))) 20]),
      ds_vat a @ (if vat_shown (snd x) then [DivRound L (val0 (ir_Vat (snd x)) * 100) (val0 (ir_VatBase (snd x))) 20] else []))"
proof -
  obtain i r where x: "x = (i, r)" by (cases x)
  have vat: "kept_samples (vat_sample L r b) = (ds_energy b, ds_energyRows b, ds_distribution b,
      ds_vat b @ (if vat_shown r then [DivRound L (val0 (ir_Vat r) * 100) (val0 (ir_VatBase r)) 20] else []))" for b
    by (auto simp: vat_sample_def vat_shown_def kept_samples_def icmal_hundred_def icmal_divisionScale_def val0_def split: option.split)
  have ed: "kept_samples (distribution_sample L r (energy_sample L base r b)) =
     (ds_energy b @ (if energy_shown base r then [DivRound L (actual_energy r) (val0 (ir_TotalKwh r) * the (base (ir_Period r))) 20] else []),
      ds_energyRows b @ (if energy_shown base r then [(val0 (ir_TotalKwh r), the (base (ir_Period r)), actual_energy r)] else []),
      ds_distribution b @ (case ir_DistributionCharge r of None \<Rightarrow> [] | Some d \<Rightarrow> [DivRound L d (val0 (ir_TotalKwh r)) 20]), ds_vat b)" for b
    by (auto simp: distribution_sample_def energy_sample_def energy_shown_def kept_samples_def icmal_divisionScale_def Let_def split: option.split)
  let ?a1 = "row_facts base i r a"
  let ?a2 = "distribution_sample L r (energy_sample L base r ?a1)"
  let ?a3 = "power_sample L contract m i r (reactive_sample L base matched i r ?a2)"
  have a1: "kept_samples ?a1 = kept_samples a" and a3: "kept_samples ?a3 = kept_samples ?a2" by (simp_all add: kept_by_others)
  have "kept_samples (add_sample L base contract m matched x a) = kept_samples (vat_sample L r ?a3)"
    by (simp add: x add_sample_def kept_by_others)
  then show ?thesis using a1 a3 ed [of ?a1] vat [of ?a3] unfolding kept_samples_def x snd_conv by simp
qed

text \<open>A row that bills the tariff: its charges are the products of the coefficients.\<close>

definition billed_at :: "(string \<rightharpoonup> dec) \<Rightarrow> dec \<Rightarrow> dec \<Rightarrow> dec \<Rightarrow> icmal_row \<Rightarrow> bool" where
  "billed_at base kbk dst vat r \<longleftrightarrow>
     (energy_shown base r \<longrightarrow> actual_energy r = val0 (ir_TotalKwh r) * the (base (ir_Period r)) * kbk) \<and>
     (\<forall>d. ir_DistributionCharge r = Some d \<longrightarrow> d = val0 (ir_TotalKwh r) * dst) \<and>
     (vat_shown r \<longrightarrow> val0 (ir_Vat r) = val0 (ir_VatBase r) * vat / 100)"

lemma regular_kwh: "exclusion fold_hdr r = None \<Longrightarrow> 0 < val0 (ir_TotalKwh r)"
  by (auto simp: exclusion_def val0_def split: if_splits option.splits)

context decimal_lib begin

lemma samples_recovered:
  assumes "\<forall>x \<in> set xs. 0 < val0 (ir_TotalKwh (snd x)) \<and> billed_at base kbk dst vat (snd x)"
    and "on_grid 20 kbk" "on_grid 20 dst" "on_grid 20 vat"
  shows "ds_energy (fold (add_sample L base contract m matched) xs a) =
       ds_energy a @ replicate (length (filter (\<lambda>x. energy_shown base (snd x)) xs)) kbk
     \<and> (\<forall>(k, b, e) \<in> set (ds_energyRows (fold (add_sample L base contract m matched) xs a)) - set (ds_energyRows a). e = k * b * kbk)
     \<and> ds_distribution (fold (add_sample L base contract m matched) xs a) =
       ds_distribution a @ replicate (length (filter (\<lambda>x. ir_DistributionCharge (snd x) \<noteq> None) xs)) dst
     \<and> ds_vat (fold (add_sample L base contract m matched) xs a) =
       ds_vat a @ replicate (length (filter (\<lambda>x. vat_shown (snd x)) xs)) vat"
  using assms(1)
proof (induction xs arbitrary: a)
  case (Cons x xs)
  let ?r = "snd x" and ?a = "add_sample L base contract m matched x a"
  have kwh: "0 < val0 (ir_TotalKwh ?r)" and b: "billed_at base kbk dst vat ?r" using Cons.prems by auto
  note kept = add_sample_kept [of L base contract m matched x a, unfolded kept_samples_def prod.inject]
  have e: "energy_shown base ?r \<Longrightarrow> DivRound L (actual_energy ?r) (val0 (ir_TotalKwh ?r) * the (base (ir_Period ?r))) 20 = kbk"
    using b kwh assms(2) by (auto simp: billed_at_def energy_shown_def DivRound_eq round_away_exact split: option.splits)
  have d: "ir_DistributionCharge ?r = Some c \<Longrightarrow> DivRound L c (val0 (ir_TotalKwh ?r)) 20 = dst" for c
    using b kwh assms(3) by (auto simp: billed_at_def DivRound_eq round_away_exact)
  have v: "vat_shown ?r \<Longrightarrow> DivRound L (val0 (ir_Vat ?r) * 100) (val0 (ir_VatBase ?r)) 20 = vat"
    using b assms(4) by (auto simp: billed_at_def vat_shown_def val0_def DivRound_eq round_away_exact split: option.splits)
  have rows: "\<forall>(k, b, e) \<in> set (ds_energyRows ?a) - set (ds_energyRows a). e = k * b * kbk"
    using kept b by (auto simp: billed_at_def)
  have head: "ds_energy ?a = ds_energy a @ replicate (if energy_shown base ?r then 1 else 0) kbk"
    "ds_distribution ?a = ds_distribution a @ replicate (if ir_DistributionCharge ?r \<noteq> None then 1 else 0) dst"
    "ds_vat ?a = ds_vat a @ replicate (if vat_shown ?r then 1 else 0) vat"
    using kept e d v by (auto split: option.split)
  have "\<forall>x \<in> set xs. 0 < val0 (ir_TotalKwh (snd x)) \<and> billed_at base kbk dst vat (snd x)" using Cons.prems by simp
  note IH = Cons.IH [OF this, of ?a]
  have more: "\<forall>(k, b, e) \<in> set (ds_energyRows (fold (add_sample L base contract m matched) xs ?a)) - set (ds_energyRows a). e = k * b * kbk"
    using IH rows by blast
  show ?case using IH more by (simp add: head)
qed simp

end

section \<open>The analysis\<close>

lemma group_rows_known:
  assumes "etso \<in> set (fst (group_rows fold_hdr rows))"
  shows "\<exists>g. snd (group_rows fold_hdr rows) etso = Some g"
proof -
  let ?key = "\<lambda>x :: nat \<times> icmal_row. the (ir_EtsoCode (snd x))"
  have "etso \<in> ?key ` set (coded_rows rows)" using assms by (simp add: group_rows_def groups_of_order)
  then have "etso \<in> dom (snd (group_rows fold_hdr rows))" by (simp add: group_rows_def groups_of_dom)
  then show ?thesis by auto
qed

lemma Analyse_group:
  assumes "a \<in> set (Analyse L fold_hdr visit rows base contracted m)"
  shows "\<exists>etso contract consensus matched regular ws tolerated.
     ia_EtsoCode a = etso \<and> map (\<lambda>i. (i, rows ! i)) regular = regular_rows fold_hdr rows etso \<and>
     a = (analyse_group L base contract m consensus matched rows etso regular ws)\<lparr>ia_WithinTolerance := tolerated\<rparr>"
proof -
  obtain order groups where gr: "group_rows fold_hdr rows = (order, groups)" by (cases "group_rows fold_hdr rows")
  obtain consensus matched rws where rc: "reactiveConsensus L visit
      (\<lambda>i. case groups (the (ir_EtsoCode (rows ! i))) of None \<Rightarrow> False | Some g \<Rightarrow> i \<in> set (ig_Regular g)) rows = (consensus, matched, rws)"
    by (cases "reactiveConsensus L visit
      (\<lambda>i. case groups (the (ir_EtsoCode (rows ! i))) of None \<Rightarrow> False | Some g \<Rightarrow> i \<in> set (ig_Regular g)) rows") auto
  from assms obtain etso tolerated where etso: "etso \<in> set order" and
    a: "a = (case groups etso of
                  None \<Rightarrow> analyse_group L base (contracted etso) m consensus matched rows etso [] []
                | Some g \<Rightarrow> analyse_group L base (contracted etso) m consensus matched rows etso (ig_Regular g)
                    (ig_Warnings g @ map snd (filter (\<lambda>(i, _). the (ir_EtsoCode (rows ! i)) = etso) rws) @ orphanWarnings rows))\<lparr>ia_WithinTolerance := tolerated\<rparr>"
    unfolding Analyse_def gr prod.case Let_def rc by auto
  obtain g where g: "groups etso = Some g" using group_rows_known [of etso fold_hdr rows] etso by (auto simp: gr)
  have code: "ia_EtsoCode a = etso" unfolding a g by (simp add: analyse_group_def Let_def)
  show ?thesis
  proof (intro exI conjI)
    show "ia_EtsoCode a = etso" by (rule code)
    show "map (\<lambda>i. (i, rows ! i)) (ig_Regular g) = regular_rows fold_hdr rows etso"
      using group_rows_regular [of fold_hdr rows etso g] g by (simp add: gr)
    show "a = (analyse_group L base (contracted etso) m consensus matched rows etso (ig_Regular g)
        (ig_Warnings g @ map snd (filter (\<lambda>(i, _). the (ir_EtsoCode (rows ! i)) = etso) rws) @ orphanWarnings rows))\<lparr>ia_WithinTolerance := tolerated\<rparr>"
      unfolding a g by simp
  qed
qed

text \<open>One analysis per code, in the order of the first rows.\<close>

lemma Analyse_codes: "map ia_EtsoCode (Analyse L fold_hdr visit rows base contracted m) = fst (group_rows fold_hdr rows)"
proof -
  obtain order groups where gr: "group_rows fold_hdr rows = (order, groups)" by (cases "group_rows fold_hdr rows")
  have "ia_EtsoCode (analyse_group L base contract m consensus matched rows etso regular ws) = etso"
    for contract consensus matched etso regular ws by (simp add: analyse_group_def Let_def)
  then show ?thesis
    by (auto simp: Analyse_def gr Let_def split: prod.split option.split intro!: map_idI)
qed

definition recovered :: "dec \<Rightarrow> nat \<Rightarrow> coefficient \<Rightarrow> bool" where
  "recovered k n c \<longleftrightarrow>
     co_Samples c = n \<and> co_Value c = (if n = 0 then None else Some k) \<and>
     (2 \<le> n \<longrightarrow> co_StdDev c = Some 0 \<and> (k \<noteq> 0 \<longrightarrow> co_Stable c = Some True))"

context decimal_lib begin

lemma aggregate_recovered:
  assumes "on_grid p k" and "p \<le> 20"
  shows "recovered k n (aggregate_samples L (replicate n k) p)"
proof (cases "n = 0")
  case True
  then show ?thesis by (simp add: recovered_def aggregate_samples_def no_coefficient_def)
next
  case False
  then show ?thesis using aggregate_replicate [OF assms, of n] by (simp add: recovered_def)
qed

lemma back_calc_exact:
  assumes "\<forall>(k, b, e) \<in> set ers. e = k * b * kbk"
  shows "back_calc_error L kbk ers = 0"
proof -
  have "fold (\<lambda>(kwh, b, actual) worst. if actual = 0 then worst
       else max worst (DivRound L (\<bar>kwh * b * kbk - actual\<bar> * icmal_hundred) \<bar>actual\<bar> icmal_divisionScale)) ers 0 = 0"
    using assms by (induction ers) (auto simp: DivRound_eq)
  then show ?thesis by (simp add: back_calc_error_def)
qed

lemma analysis_recovered:
  assumes "a \<in> set (Analyse L fold_hdr visit rows base contracted m)"
    and grid: "on_grid 4 kbk" "on_grid 4 dst" "on_grid 2 vat"
    and billed: "\<forall>(i, r) \<in> set (regular_rows fold_hdr rows (ia_EtsoCode a)). billed_at base kbk dst vat r"
  shows "recovered kbk (length (filter (\<lambda>(i, r). energy_shown base r) (regular_rows fold_hdr rows (ia_EtsoCode a)))) (ia_EnergyKbk a)
     \<and> co_BackCalcErrorPct (ia_EnergyKbk a) = (if co_Value (ia_EnergyKbk a) = None then None else Some 0)
     \<and> recovered dst (length (filter (\<lambda>(i, r). ir_DistributionCharge r \<noteq> None) (regular_rows fold_hdr rows (ia_EtsoCode a))))
         (ia_DistributionTlPerKwh a)
     \<and> recovered vat (length (filter (\<lambda>(i, r). vat_shown r) (regular_rows fold_hdr rows (ia_EtsoCode a)))) (ia_VatRate a)"
proof -
  obtain etso contract consensus matched regular ws tolerated where code: "ia_EtsoCode a = etso"
    and xs: "map (\<lambda>i. (i, rows ! i)) regular = regular_rows fold_hdr rows etso"
    and a: "a = (analyse_group L base contract m consensus matched rows etso regular ws)\<lparr>ia_WithinTolerance := tolerated\<rparr>"
    using Analyse_group [OF assms(1)] by blast
  let ?xs = "regular_rows fold_hdr rows etso"
  let ?s = "fold (add_sample L base contract m matched) ?xs (no_samples ws)"
  let ?energy = "aggregate_samples L (ds_energy ?s) 4"
  have "\<forall>x \<in> set ?xs. 0 < val0 (ir_TotalKwh (snd x)) \<and> billed_at base kbk dst vat (snd x)"
    using billed regular_kwh unfolding code by (fastforce simp: regular_rows_def)
  moreover have "on_grid 20 kbk" "on_grid 20 dst" "on_grid 20 vat"
    using on_grid_finer [OF grid(1), of 20] on_grid_finer [OF grid(2), of 20] on_grid_finer [OF grid(3), of 20] by simp_all
  moreover have "ds_energy (no_samples ws) = []" "ds_energyRows (no_samples ws) = []" "ds_distribution (no_samples ws) = []"
    "ds_vat (no_samples ws) = []" by (simp_all add: no_samples_def)
  ultimately
  have samples: "ds_energy ?s = replicate (length (filter (\<lambda>(i, r). energy_shown base r) ?xs)) kbk"
    "\<forall>(k, b, e) \<in> set (ds_energyRows ?s). e = k * b * kbk"
    "ds_distribution ?s = replicate (length (filter (\<lambda>(i, r). ir_DistributionCharge r \<noteq> None) ?xs)) dst"
    "ds_vat ?s = replicate (length (filter (\<lambda>(i, r). vat_shown r) ?xs)) vat"
    using samples_recovered [of ?xs base kbk dst vat contract m matched "no_samples ws"] by (simp_all add: case_prod_unfold)
  have fields: "ia_EnergyKbk a = (case co_Value ?energy of
        None \<Rightarrow> ?energy | Some kbk \<Rightarrow> ?energy\<lparr>co_BackCalcErrorPct := Some (back_calc_error L kbk (ds_energyRows ?s))\<rparr>)"
    "ia_DistributionTlPerKwh a = aggregate_samples L (ds_distribution ?s) 4" "ia_VatRate a = aggregate_samples L (ds_vat ?s) 2"
    by (simp_all add: a analyse_group_def Let_def xs)
  have energy: "recovered kbk (length (filter (\<lambda>(i, r). energy_shown base r) ?xs)) ?energy"
    unfolding samples(1) by (rule aggregate_recovered [OF grid(1)]) simp
  have blank: "co_BackCalcErrorPct ?energy = None"
    by (simp add: aggregate_samples_def no_coefficient_def Let_def)
  have "recovered kbk (length (filter (\<lambda>(i, r). energy_shown base r) ?xs)) (ia_EnergyKbk a) \<and>
      co_BackCalcErrorPct (ia_EnergyKbk a) = (if co_Value (ia_EnergyKbk a) = None then None else Some 0)"
  proof (cases "co_Value ?energy")
    case None
    then show ?thesis using energy blank by (simp add: fields(1))
  next
    case (Some v)
    then have "v = kbk" using energy by (auto simp: recovered_def split: if_splits)
    then show ?thesis using energy Some back_calc_exact [OF samples(2)] by (simp add: fields(1) recovered_def)
  qed
  moreover have "recovered dst (length (filter (\<lambda>(i, r). ir_DistributionCharge r \<noteq> None) ?xs)) (ia_DistributionTlPerKwh a)"
    unfolding fields(2) samples(3) by (rule aggregate_recovered [OF grid(2)]) simp
  moreover have "recovered vat (length (filter (\<lambda>(i, r). vat_shown r) ?xs)) (ia_VatRate a)"
    unfolding fields(3) samples(4) by (rule aggregate_recovered [OF grid(3)]) simp
  ultimately show ?thesis unfolding code by blast
qed

end


text \<open>Two invoices of one code, at 1.05 times the base price.\<close>

definition sample_invoice :: "string \<Rightarrow> dec \<Rightarrow> dec \<Rightarrow> icmal_row" where
  "sample_invoice period kwh b =
     (new_icmal_row period)\<lparr>ir_EtsoCode := Some ''E1'', ir_TotalKwh := Some kwh, ir_EnergyCharge := Some (kwh * b * (21 / 20)),
        ir_DistributionCharge := Some (kwh * (3 / 4)), ir_VatBase := Some 100, ir_Vat := Some 20\<rparr>"

definition sample_invoices :: "icmal_row list" where
  "sample_invoices = [sample_invoice ''202401'' 1000 2, sample_invoice ''202402'' 500 3]"

definition sample_base :: "string \<rightharpoonup> dec" where
  "sample_base = [''202401'' \<mapsto> 2, ''202402'' \<mapsto> 3]"

lemma sample_regular:
  "regular_rows (\<lambda>s. s) sample_invoices ''E1'' = [(0, sample_invoice ''202401'' 1000 2), (1, sample_invoice ''202402'' 500 3)]"
  by (simp add: regular_rows_def sample_invoices_def sample_invoice_def new_icmal_row_def exclusion_def supplementary_def
      unmarshal_string_map_def)


end
