(* ===== verification/Spec2Isabelle.thy ===== *)
theory Spec2Isabelle
  imports
    Energy_Derive
    Energy_Period
    Tariff_Resolve
    Tariff_Params
    Tariff_Pricing
    Tariff_Validate
    Tariff_Public
    Billing_Aggregate
    Billing_Period
    Billing_Dashboard
    Billing_Rows
    Alarm_Message
    Load_Profile
    Grouping
    Comparison
    Carbon_Year
    Icmal_Numbers
    Consumption_Laws
    Consumption_Record
    Platform_Lock
    Scheduler_Elector
    Http_Errors
    Ingest_Validate
    Normalize
    Cursors_Store
    Ingest_Laws
    Auth_Roles
    Icmal_Derive
begin

text \<open>
  A verification development for the domain core of ekokod-rewrite, a service that reads
  electricity meters, prices their consumption and bills it (Go sources under \<open>src/\<close>).

  PARTS OF THE PROGRAM AND THEIR THEORIES. The packages under \<open>src/internal/domain\<close> are pure:
  they take loaded rows and return values, and the services around them do the input and output.
  The data flows from readings to invoices:
  readings (\<open>energy\<close>) give derived consumption per window; a tariff and a parameter set are chosen by
  date (\<open>tariff\<close>), market prices are turned into unit prices, and \<open>billing\<close> prices one invoice, which
  calls \<open>reactive\<close> for the reactive penalty, and aggregates invoices per building and company.

    Prelude            decimals and their library operations, generic list and map lemmas
    Go_Lib             sort.Search of the Go library
    Go_Time            time.Time, time.Duration, locations and calendar dates
    Energy             energy/types, difference, select, demand, ratio, activity
    Energy_Derive      energy/reset: the reset rule
    Energy_Period      energy/period: calendar buckets
    Model_Types        model/enums and the records of model/tariffs, billing_parameters, bills
    Reactive           reactive/reactive
    Tariff_Resolve     tariff/resolve          Tariff_Params    tariff/params
    Tariff_Pricing     tariff/pricing          Tariff_Validate  tariff/validate
    Tariff_Public      tariff/public
    Billing_Money      billing/flags           Billing_Compute  billing/compute (the model)
    Billing_Laws       billing/compute (the properties)
    Billing_Aggregate  billing/aggregate

  CORRESPONDENCE. A definition has the name of the Go function or type it models; a loop is a function
  of its own (\<open>max_demand_loop\<close>, \<open>price_loop\<close>) or one step of a fold (\<open>segment_step\<close>), and a closure or
  a numbered part of a long function is a definition that takes and returns the state it changes
  (\<open>distribution_step\<close>). A struct is a record, a pointer an option, an error a value of an error type.
  Enumerations are datatypes with one constructor for strings outside the declared constants.

  NUMBERS AND TIME. A \<open>decimal.Decimal\<close> is a rational: addition, subtraction and multiplication of the
  library are exact. Its rounding operations are the parameter \<open>L\<close> of type \<open>declib\<close>; the laws the code
  relies on are the locale \<open>decimal_lib\<close>, interpreted on \<open>std_declib\<close>, which computes them. An instant is
  an integer of nanoseconds and a location is a table of offset changes, so the calendar functions
  compute. Go's integers that only count are unbounded here; where the width can matter it is written.
  The iteration order of a Go map is an argument (\<open>visit\<close>) where a caller could see it, and the theorems
  say what depends on it.

  INTERFACES. \<open>decimal_lib\<close> (rounding), \<open>bound_search\<close> (binary search on sorted readings), \<open>bucketing\<close>
  (consecutive windows of a level) and \<open>effective_dating\<close> (the row in force on a day, used for tariffs,
  parameter sets and the national schedule) are locales, each interpreted on the model.

  LOOPS. Loops over slices are structural recursions. \<open>bucket_walk\<close> and \<open>price_loop\<close> advance an instant
  and end by a measure on the distance to the end of the window; no fuel is used.

  NOT MODELLED. Everything with side effects: the database and its generated queries, Redis, HTTP
  handlers and provider clients, rendering, mail, scheduling and command-line wiring. Their behaviour
  is the behaviour of the systems they call. The manifest lists them one by one.
\<close>

end
